(* ===== verification/Prelude.thy ===== *)
theory Prelude
  imports Main "HOL-Library.AList" "HOL-Library.Sublist"
begin

text \<open>
  Shared vocabulary of the development: results with errors, Python dictionaries as
  insertion-ordered association lists, the stack loop that two graph traversals share,
  Python's string search, and the interfaces (locales) that several components use.
\<close>

named_theorems dict_simps \<open>reading a dictionary after it was changed\<close>
named_theorems inv_intros \<open>operations that keep a component's invariant\<close>
named_theorems frame_simps \<open>fields an operation leaves alone\<close>

section \<open>Results\<close>

text \<open>\<open>Inl e\<close> is a raised exception, \<open>Inr x\<close> a normal return.\<close>

fun bind_result :: "'e + 'a \<Rightarrow> ('a \<Rightarrow> 'e + 'b) \<Rightarrow> 'e + 'b" where
  "bind_result (Inl e) f = Inl e"
| "bind_result (Inr x) f = f x"

lemma bind_result_Inr_iff:
  "bind_result r f = Inr y \<longleftrightarrow> (\<exists>x. r = Inr x \<and> f x = Inr y)"
  by (cases r) auto

lemma bind_result_InrE:
  assumes "bind_result r f = Inr y"
  obtains x where "r = Inr x" "f x = Inr y"
  using assms by (auto simp: bind_result_Inr_iff)

fun map_result :: "('a \<Rightarrow> 'e + 'b) \<Rightarrow> 'a list \<Rightarrow> 'e + 'b list" where
  "map_result f [] = Inr []"
| "map_result f (x # xs) =
     bind_result (f x) (\<lambda>y. bind_result (map_result f xs) (\<lambda>ys. Inr (y # ys)))"

lemma map_result_total: "(\<And>x. x \<in> set xs \<Longrightarrow> f x = Inr (g x)) \<Longrightarrow> map_result f xs = Inr (map g xs)"
  by (induction xs) auto

section \<open>Lists\<close>

lemma filter_neq_absent [simp]: "x \<notin> set xs \<Longrightarrow> filter (\<lambda>y. y \<noteq> x) xs = xs"
  by (rule filter_True) auto

section \<open>Truth of optional strings\<close>

text \<open>Python tests \<open>if s:\<close> on a string or \<open>None\<close>: the empty string is false too.\<close>

definition truthy :: "string option \<Rightarrow> bool" where
  "truthy s = (case s of None \<Rightarrow> False | Some t \<Rightarrow> t \<noteq> [])"

lemma truthy_simps [simp]: "\<not> truthy None" "truthy (Some t) \<longleftrightarrow> t \<noteq> []"
  by (simp_all add: truthy_def)

section \<open>Whitespace\<close>

text \<open>The characters below 256 that Python's \<open>str.strip()\<close> removes.\<close>

definition py_space :: "char \<Rightarrow> bool" where
  "py_space c \<longleftrightarrow> of_char c \<in> set ([9, 10, 11, 12, 13, 28, 29, 30, 31, 32, 133, 160] :: nat list)"

definition py_strip :: "string \<Rightarrow> string" where
  "py_strip s = rev (dropWhile py_space (rev (dropWhile py_space s)))"

lemma py_strip_nonempty: "py_strip s \<noteq> [] \<longleftrightarrow> (\<exists>c \<in> set s. \<not> py_space c)"
proof -
  have "dropWhile py_space xs \<noteq> [] \<longleftrightarrow> (\<exists>c \<in> set xs. \<not> py_space c)" for xs by auto
  moreover have "(\<exists>c \<in> set (dropWhile py_space s). \<not> py_space c) \<longleftrightarrow> (\<exists>c \<in> set s. \<not> py_space c)"
    by (induction s) auto
  ultimately show ?thesis by (simp add: py_strip_def)
qed

section \<open>Dictionaries\<close>

text \<open>
  A Python dictionary keeps insertion order: an assignment to a present key changes the
  value in place, a new key goes to the end, a deletion closes the gap. \<open>AList.update\<close> and
  \<open>AList.delete\<close> behave so; \<open>map_of\<close> is \<open>d.get(k)\<close>.
\<close>

type_synonym ('k, 'v) dict = "('k \<times> 'v) list"

abbreviation dget :: "('k, 'v) dict \<Rightarrow> 'k \<Rightarrow> 'v option" where
  "dget \<equiv> map_of"

abbreviation dset :: "'k \<Rightarrow> 'v \<Rightarrow> ('k, 'v) dict \<Rightarrow> ('k, 'v) dict" where
  "dset \<equiv> AList.update"

abbreviation dpop :: "'k \<Rightarrow> ('k, 'v) dict \<Rightarrow> ('k, 'v) dict" where
  "dpop \<equiv> AList.delete"

abbreviation dkeys :: "('k, 'v) dict \<Rightarrow> 'k list" where
  "dkeys d \<equiv> map fst d"

text \<open>Mutating the object stored under a key.\<close>

definition dmodify :: "'k \<Rightarrow> ('v \<Rightarrow> 'v) \<Rightarrow> ('k, 'v) dict \<Rightarrow> ('k, 'v) dict" where
  "dmodify k f d = map (\<lambda>(k', v). (k', if k' = k then f v else v)) d"

lemma dkeys_dmodify [simp]: "dkeys (dmodify k f d) = dkeys d"
  by (induction d) (auto simp: dmodify_def)

lemma dget_dmodify [dict_simps]:
  "dget (dmodify k f d) k' = (if k' = k then map_option f (dget d k) else dget d k')"
  by (induction d) (auto simp: dmodify_def)

lemma dkeys_dset [dict_simps]:
  "dkeys (dset k v d) = (if k \<in> set (dkeys d) then dkeys d else dkeys d @ [k])"
  by (induction d) auto

lemma dkeys_dpop [dict_simps]: "dkeys (dpop k d) = filter (\<lambda>x. x \<noteq> k) (dkeys d)"
  by (induction d) auto

lemma dget_map_value: "dget (map (\<lambda>(k, v). (k, f v)) d) k = map_option f (dget d k)"
  by (induction d) auto

lemma dset_new: "k \<notin> set (dkeys d) \<Longrightarrow> dset k v d = d @ [(k, v)]"
  by (induction d) auto

lemma dget_in: "distinct (dkeys d) \<Longrightarrow> dget d k = Some v \<longleftrightarrow> (k, v) \<in> set d"
  by simp

text \<open>
  The dictionary interface the components rely on: lookups after a store or a deletion,
  and what happens to the order of the keys.
\<close>

locale py_dict =
  fixes lookup :: "'d \<Rightarrow> 'k \<Rightarrow> 'v option"
    and store :: "'k \<Rightarrow> 'v \<Rightarrow> 'd \<Rightarrow> 'd"
    and discard :: "'k \<Rightarrow> 'd \<Rightarrow> 'd"
    and keys :: "'d \<Rightarrow> 'k list"
  assumes lookup_store: "lookup (store k v d) = (lookup d)(k \<mapsto> v)"
    and lookup_discard: "lookup (discard k d) = (lookup d)(k := None)"
    and keys_lookup: "set (keys d) = dom (lookup d)"
    and keys_store: "keys (store k v d) = (if k \<in> set (keys d) then keys d else keys d @ [k])"
    and keys_discard: "keys (discard k d) = filter (\<lambda>x. x \<noteq> k) (keys d)"
begin

lemma distinct_store: "distinct (keys d) \<Longrightarrow> distinct (keys (store k v d))"
  by (simp add: keys_store)

lemma distinct_discard: "distinct (keys d) \<Longrightarrow> distinct (keys (discard k d))"
  by (simp add: keys_discard)

lemma lookup_discard_all:
  "lookup (fold discard ks d) = (\<lambda>k. if k \<in> set ks then None else lookup d k)"
  by (induction ks arbitrary: d) (auto simp: lookup_discard)

lemma keys_discard_all: "keys (fold discard ks d) = filter (\<lambda>k. k \<notin> set ks) (keys d)"
proof (induction ks arbitrary: d)
  case (Cons k ks)
  then show ?case by (simp add: keys_discard)
qed simp

lemma discard_absent: "k \<notin> set (keys d) \<Longrightarrow> lookup (discard k d) = lookup d"
  using keys_lookup by (force simp: lookup_discard)

end

interpretation pd: py_dict dget dset dpop dkeys
  by unfold_locales
    (auto simp: update_conv' delete_conv' dkeys_dset dkeys_dpop dom_map_of_conv_image_fst)

section \<open>Depth-first traversal with an explicit stack\<close>

text \<open>
  The loop \<open>while stack: x = stack.pop(); result.append(x); stack.extend(next(x))\<close> of the two
  graph traversals. The head of the list is the top of the stack, so \<open>extend\<close> pushes the
  children in reverse. It keeps no set of visited elements and may run forever on a cyclic
  graph: its value is then \<open>None\<close>.
\<close>

partial_function (option) dfs :: "('a \<Rightarrow> 'a list) \<Rightarrow> 'a list \<Rightarrow> 'a list \<Rightarrow> 'a list option" where
  "dfs nxt stack result =
     (case stack of
        [] \<Rightarrow> Some result
      | x # rest \<Rightarrow> dfs nxt (rev (nxt x) @ rest) (result @ [x]))"

lemma dfs_simps [simp, code]:
  "dfs nxt [] result = Some result"
  "dfs nxt (x # rest) result = dfs nxt (rev (nxt x) @ rest) (result @ [x])"
  by (simp_all add: dfs.simps)

definition edges :: "('a \<Rightarrow> 'a list) \<Rightarrow> ('a \<times> 'a) set" where
  "edges nxt = {(x, y). y \<in> set (nxt x)}"

lemma in_edges [simp]: "(x, y) \<in> edges nxt \<longleftrightarrow> y \<in> set (nxt x)"
  by (simp add: edges_def)

text \<open>
  A forest: no element has two parents, children are listed once. From an element that is
  not below itself the traversal then ends, and visits exactly the elements below it, once
  each, the element itself first. What has been visited or is waiting is kept duplicate-free
  by the fact that everything but the start has its parent among the visited.
\<close>

definition forest :: "('a \<Rightarrow> 'a list) \<Rightarrow> bool" where
  "forest nxt \<longleftrightarrow>
     (\<forall>x y z. z \<in> set (nxt x) \<longrightarrow> z \<in> set (nxt y) \<longrightarrow> x = y) \<and> (\<forall>x. distinct (nxt x))"

lemma forest_parent: "forest nxt \<Longrightarrow> z \<in> set (nxt x) \<Longrightarrow> z \<in> set (nxt y) \<Longrightarrow> x = y"
  unfolding forest_def by blast

lemma forest_distinct: "forest nxt \<Longrightarrow> distinct (nxt x)"
  unfolding forest_def by blast

definition dfs_ok :: "('a \<Rightarrow> 'a list) \<Rightarrow> 'a \<Rightarrow> 'a list \<Rightarrow> 'a list \<Rightarrow> bool" where
  "dfs_ok nxt s stack result \<longleftrightarrow>
     distinct (result @ stack) \<and>
     set (result @ stack) \<subseteq> (edges nxt)\<^sup>* `` {s} \<and>
     (\<forall>x \<in> set result. set (nxt x) \<subseteq> set (result @ stack)) \<and>
     (\<forall>y \<in> set (result @ stack). y = s \<or> (\<exists>x \<in> set result. y \<in> set (nxt x))) \<and>
     hd (result @ stack) = s \<and> result @ stack \<noteq> []"

lemma dfs_ok_step:
  assumes forest: "forest nxt"
    and acyclic: "\<And>y. (s, y) \<in> (edges nxt)\<^sup>* \<Longrightarrow> s \<notin> set (nxt y)"
    and ok: "dfs_ok nxt s (x # rest) result"
  shows "dfs_ok nxt s (rev (nxt x) @ rest) (result @ [x])"
proof -
  have x: "(s, x) \<in> (edges nxt)\<^sup>*" and fresh: "x \<notin> set result" "x \<notin> set rest"
    using ok by (auto simp: dfs_ok_def)
  have new: "y \<notin> set (result @ x # rest)" if y: "y \<in> set (nxt x)" for y
  proof
    assume "y \<in> set (result @ x # rest)"
    moreover have "y \<noteq> s" using acyclic [OF x] y by blast
    ultimately obtain x' where x': "x' \<in> set result" "y \<in> set (nxt x')"
      using ok unfolding dfs_ok_def by blast
    then have "x = x'" using forest_parent [OF forest y] by simp
    with x' fresh show False by simp
  qed
  have closed: "\<forall>y \<in> set result. set (nxt y) \<subseteq> set (result @ x # rest)"
    and parent: "\<forall>y \<in> set (result @ x # rest). y = s \<or> (\<exists>z \<in> set result. y \<in> set (nxt z))"
    using ok unfolding dfs_ok_def by blast+
  let ?seen = "(result @ [x]) @ rev (nxt x) @ rest"
  have set_seen: "set ?seen = set (result @ x # rest) \<union> set (nxt x)" by auto
  have "distinct (result @ x # rest)" using ok by (simp only: dfs_ok_def)
  then have "distinct ?seen"
    using new forest_distinct [OF forest, of x] by auto
  moreover have "set ?seen \<subseteq> (edges nxt)\<^sup>* `` {s}"
  proof -
    have "set (nxt x) \<subseteq> (edges nxt)\<^sup>* `` {s}"
      using x by (auto intro: rtrancl_into_rtrancl)
    then show ?thesis using ok unfolding set_seen by (simp add: dfs_ok_def)
  qed
  moreover have "\<forall>y \<in> set (result @ [x]). set (nxt y) \<subseteq> set ?seen"
    using closed unfolding set_seen by auto
  moreover have "\<forall>y \<in> set ?seen. y = s \<or> (\<exists>z \<in> set (result @ [x]). y \<in> set (nxt z))"
    using parent unfolding set_seen by auto
  moreover have "hd ?seen = s"
    using ok by (cases result) (simp_all add: dfs_ok_def)
  ultimately show ?thesis by (simp add: dfs_ok_def)
qed

lemma dfs_terminates:
  assumes forest: "forest nxt"
    and acyclic: "\<And>y. (s, y) \<in> (edges nxt)\<^sup>* \<Longrightarrow> s \<notin> set (nxt y)"
    and fin: "finite ((edges nxt)\<^sup>* `` {s})"
    and "dfs_ok nxt s stack result"
  shows "\<exists>r. dfs nxt stack result = Some r \<and> dfs_ok nxt s [] r"
  using assms(4)
proof (induction "card ((edges nxt)\<^sup>* `` {s}) - length result" arbitrary: stack result rule: less_induct)
  case less
  show ?case
  proof (cases stack)
    case Nil
    with less.prems show ?thesis by simp
  next
    case (Cons x rest)
    have "set (result @ stack) \<subseteq> (edges nxt)\<^sup>* `` {s}" "distinct (result @ stack)"
      using less.prems by (simp_all add: dfs_ok_def)
    then have "length (result @ stack) \<le> card ((edges nxt)\<^sup>* `` {s})"
      using card_mono [OF fin] distinct_card by metis
    with Cons less.prems less.hyps [of "result @ [x]" "rev (nxt x) @ rest"] show ?thesis
      using dfs_ok_step [OF forest acyclic] by simp
  qed
qed

lemma dfs_visits_subtree:
  assumes "forest nxt"
    and "\<And>y. (s, y) \<in> (edges nxt)\<^sup>* \<Longrightarrow> s \<notin> set (nxt y)"
    and "finite ((edges nxt)\<^sup>* `` {s})"
  shows "\<exists>r. dfs nxt [s] [] = Some (s # r) \<and> distinct (s # r) \<and>
    set (s # r) = (edges nxt)\<^sup>* `` {s}"
proof -
  have "dfs_ok nxt s [s] []" by (simp add: dfs_ok_def)
  from dfs_terminates [OF assms this] obtain r
    where r: "dfs nxt [s] [] = Some r" and ok: "dfs_ok nxt s [] r" by blast
  have "(edges nxt)\<^sup>* `` {s} \<subseteq> set r"
  proof
    fix y assume "y \<in> (edges nxt)\<^sup>* `` {s}"
    then have "(s, y) \<in> (edges nxt)\<^sup>*" by simp
    then show "y \<in> set r"
    proof induction
      case base
      have "r \<noteq> []" "hd r = s" using ok by (simp_all add: dfs_ok_def)
      then show ?case using hd_in_set by metis
    next
      case (step y z)
      then show ?case using ok by (auto simp: dfs_ok_def)
    qed
  qed
  with ok r show ?thesis
    by (cases r) (auto simp: dfs_ok_def)
qed

text \<open>Below a root without parent nothing is below itself.\<close>

lemma forest_acyclic:
  assumes forest: "forest nxt" and root: "\<And>y. r \<notin> set (nxt y)"
    and "(r, x) \<in> (edges nxt)\<^sup>*"
  shows "(x, x) \<notin> (edges nxt)\<^sup>+"
  using assms(3)
proof (induction)
  case base
  show ?case using root by (auto elim: tranclE)
next
  case (step y z)
  show ?case
  proof
    assume "(z, z) \<in> (edges nxt)\<^sup>+"
    then obtain w where "(z, w) \<in> (edges nxt)\<^sup>*" and w: "z \<in> set (nxt w)"
      by (auto dest: tranclD2)
    moreover have "w = y" using forest_parent [OF forest w] step.hyps by simp
    ultimately have "(y, y) \<in> (edges nxt)\<^sup>+"
      using step.hyps by (meson rtrancl_into_trancl2)
    with step.IH show False ..
  qed
qed

lemma forest_no_back_edge:
  assumes "forest nxt" and "\<And>y. r \<notin> set (nxt y)" and "(r, s) \<in> (edges nxt)\<^sup>*"
    and "(s, y) \<in> (edges nxt)\<^sup>*"
  shows "s \<notin> set (nxt y)"
proof
  assume "s \<in> set (nxt y)"
  then have "(s, s) \<in> (edges nxt)\<^sup>+"
    using assms(4) by (meson in_edges rtrancl_into_trancl1)
  with forest_acyclic [OF assms(1-3)] show False ..
qed

section \<open>State machines\<close>

text \<open>
  A component whose operations run under its own lock is a machine: a start state, one
  atomic step per operation, and a condition on the operations its environment issues. The
  run of a list of operations keeps every invariant that the steps keep.
\<close>

fun permitted :: "('s \<Rightarrow> 'e \<Rightarrow> bool) \<Rightarrow> ('s \<Rightarrow> 'e \<Rightarrow> 's) \<Rightarrow> 's \<Rightarrow> 'e list \<Rightarrow> bool" where
  "permitted ok step s [] = True"
| "permitted ok step s (e # es) = (ok s e \<and> permitted ok step (step s e) es)"

fun run :: "('s \<Rightarrow> 'e \<Rightarrow> 's) \<Rightarrow> 's \<Rightarrow> 'e list \<Rightarrow> 's" where
  "run step s [] = s"
| "run step s (e # es) = run step (step s e) es"

lemma run_append: "run step s (es @ fs) = run step (run step s es) fs"
  by (induction es arbitrary: s) auto

lemma permitted_append:
  "permitted ok step s (es @ fs) \<longleftrightarrow> permitted ok step s es \<and> permitted ok step (run step s es) fs"
  by (induction es arbitrary: s) auto

locale machine =
  fixes step :: "'s \<Rightarrow> 'e \<Rightarrow> 's"
    and ok :: "'s \<Rightarrow> 'e \<Rightarrow> bool"
    and inv :: "'s \<Rightarrow> bool"
  assumes inv_step: "inv s \<Longrightarrow> ok s e \<Longrightarrow> inv (step s e)"
begin

lemma inv_run: "inv s \<Longrightarrow> permitted ok step s es \<Longrightarrow> inv (run step s es)"
  by (induction es arbitrary: s) (auto intro: inv_step)

lemma inv_everywhere:
  "inv s \<Longrightarrow> permitted ok step s (es @ fs) \<Longrightarrow> inv (run step s es)"
  by (rule inv_run) (simp_all add: permitted_append)

end

section \<open>The iteration order of a Python set\<close>

text \<open>
  Iterating a Python set visits each element once, in an order the language leaves open.
  Where the code iterates a set, the model takes that order as a parameter: a function that
  lists the elements of the set built from a list.
\<close>

definition set_order :: "('a list \<Rightarrow> 'a list) \<Rightarrow> bool" where
  "set_order f \<longleftrightarrow> (\<forall>xs. set (f xs) = set xs \<and> distinct (f xs))"

lemma set_orderD: "set_order f \<Longrightarrow> set (f xs) = set xs" "set_order f \<Longrightarrow> distinct (f xs)"
  by (auto simp: set_order_def)

lemma set_order_remdups: "set_order remdups"
  by (simp add: set_order_def)

end
