(* ===== verification/Message_Queue.thy ===== *)
theory Message_Queue
  imports Prelude
begin

text \<open>
  \<open>messaging/trees/queue.py\<close>: the FIFO queue of one conversation tree, a deque with a set
  index beside it. The interface \<open>unique_fifo\<close> is what the tree relies on; the queue of
  the code is its interpretation at the end of the theory.
\<close>

section \<open>The queue\<close>

record node_queue =
  q_deque :: "string list"
  q_set :: "string set"

definition empty_queue :: node_queue where
  "empty_queue = \<lparr>q_deque = [], q_set = {}\<rparr>"

definition queue_put :: "string \<Rightarrow> node_queue \<Rightarrow> bool \<times> node_queue" where
  "queue_put item q =
     (if item \<in> q_set q then (False, q)
      else (True, q\<lparr>q_deque := q_deque q @ [item], q_set := insert item (q_set q)\<rparr>))"

definition queue_pop :: "node_queue \<Rightarrow> string option \<times> node_queue" where
  "queue_pop q =
     (case q_deque q of
        [] \<Rightarrow> (None, q)
      | item # rest \<Rightarrow> (Some item, q\<lparr>q_deque := rest, q_set := q_set q - {item}\<rparr>))"

definition queue_size :: "node_queue \<Rightarrow> nat" where
  "queue_size q = length (q_deque q)"

definition queue_items :: "node_queue \<Rightarrow> string list" where
  "queue_items q = q_deque q"

definition queue_remove :: "string \<Rightarrow> node_queue \<Rightarrow> bool \<times> node_queue" where
  "queue_remove item q =
     (if item \<notin> q_set q then (False, q)
      else (True, q\<lparr>q_set := q_set q - {item}, q_deque := filter (\<lambda>x. x \<noteq> item) (q_deque q)\<rparr>))"

definition queue_drain :: "node_queue \<Rightarrow> string list \<times> node_queue" where
  "queue_drain q = (q_deque q, q\<lparr>q_deque := [], q_set := {}\<rparr>)"

definition queue_of :: "string list \<Rightarrow> node_queue" where
  "queue_of items = fold (\<lambda>item q. snd (queue_put item q)) items empty_queue"

text \<open>The set index holds exactly the queued items, and no item is queued twice.\<close>

definition queue_ok :: "node_queue \<Rightarrow> bool" where
  "queue_ok q \<longleftrightarrow> distinct (q_deque q) \<and> q_set q = set (q_deque q)"

section \<open>The interface\<close>

locale unique_fifo =
  fixes empty :: 'q
    and put :: "'a \<Rightarrow> 'q \<Rightarrow> bool \<times> 'q"
    and pop :: "'q \<Rightarrow> 'a option \<times> 'q"
    and size :: "'q \<Rightarrow> nat"
    and items :: "'q \<Rightarrow> 'a list"
    and remove :: "'a \<Rightarrow> 'q \<Rightarrow> bool \<times> 'q"
    and drain :: "'q \<Rightarrow> 'a list \<times> 'q"
    and ok :: "'q \<Rightarrow> bool"
  assumes items_empty: "items empty = []"
    and items_put: "ok q \<Longrightarrow> items (snd (put x q)) =
          (if x \<in> set (items q) then items q else items q @ [x])"
    and put_changed: "ok q \<Longrightarrow> fst (put x q) \<longleftrightarrow> x \<notin> set (items q)"
    and items_pop: "ok q \<Longrightarrow> items (snd (pop q)) = tl (items q)"
    and popped: "ok q \<Longrightarrow> fst (pop q) = (case items q of [] \<Rightarrow> None | x # _ \<Rightarrow> Some x)"
    and size_items: "ok q \<Longrightarrow> size q = length (items q)"
    and items_remove: "ok q \<Longrightarrow> items (snd (remove x q)) = filter (\<lambda>y. y \<noteq> x) (items q)"
    and remove_changed: "ok q \<Longrightarrow> fst (remove x q) \<longleftrightarrow> x \<in> set (items q)"
    and drained: "ok q \<Longrightarrow> fst (drain q) = items q"
    and items_drain: "ok q \<Longrightarrow> items (snd (drain q)) = []"
    and distinct_items: "ok q \<Longrightarrow> distinct (items q)"
    and ok_empty: "ok empty"
    and ok_put: "ok q \<Longrightarrow> ok (snd (put x q))"
    and ok_pop: "ok q \<Longrightarrow> ok (snd (pop q))"
    and ok_remove: "ok q \<Longrightarrow> ok (snd (remove x q))"
    and ok_drain: "ok q \<Longrightarrow> ok (snd (drain q))"
begin

lemmas ok_intros = ok_empty ok_put ok_pop ok_remove ok_drain

lemmas items_simps = items_empty items_put items_pop items_remove items_drain

lemma put_all:
  "ok q \<Longrightarrow> items (fold (\<lambda>x q. snd (put x q)) xs q) = items q @ filter (\<lambda>x. x \<notin> set (items q)) (rev (remdups (rev xs)))
    \<and> ok (fold (\<lambda>x q. snd (put x q)) xs q)"
proof (induction xs arbitrary: q rule: rev_induct)
  case (snoc x xs)
  then show ?case by (auto simp: items_put ok_put)
qed simp

lemma put_again: "ok q \<Longrightarrow> \<not> fst (put x (snd (put x q)))"
  by (simp add: put_changed ok_put items_put)

lemma remove_put_new:
  "ok q \<Longrightarrow> x \<notin> set (items q) \<Longrightarrow> items (snd (remove x (snd (put x q)))) = items q"
  by (simp add: items_remove ok_put items_put)

lemma remove_all:
  "ok q \<Longrightarrow> ok (fold (\<lambda>x q. snd (remove x q)) xs q) \<and>
    items (fold (\<lambda>x q. snd (remove x q)) xs q) = filter (\<lambda>y. y \<notin> set xs) (items q)"
proof (induction xs arbitrary: q)
  case (Cons x xs)
  then show ?case by (simp add: items_remove ok_remove)
qed simp

lemma fifo_order:
  "ok q \<Longrightarrow> items q = xs @ ys \<Longrightarrow> items (((\<lambda>q. snd (pop q)) ^^ length xs) q) = ys
    \<and> ok (((\<lambda>q. snd (pop q)) ^^ length xs) q)"
proof (induction xs arbitrary: q)
  case (Cons x xs)
  have "items (snd (pop q)) = xs @ ys" "ok (snd (pop q))"
    using Cons.prems by (simp_all add: items_pop ok_pop)
  from Cons.IH [OF this(2,1)] show ?case by (simp add: funpow_Suc_right del: funpow.simps)
qed simp

end

interpretation nq: unique_fifo empty_queue queue_put queue_pop queue_size queue_items
  queue_remove queue_drain queue_ok
  by unfold_locales
    (auto simp: queue_ok_def empty_queue_def queue_put_def queue_pop_def queue_size_def
      queue_items_def queue_remove_def queue_drain_def split: list.splits)

lemma queue_ok_queue_of: "queue_ok (queue_of items)"
  using nq.put_all [OF nq.ok_empty] by (simp add: queue_of_def)

end
