(* ===== verification/Message_Graph.thy ===== *)
theory Message_Graph
  imports Message_Queue
begin

text \<open>
  \<open>messaging/models.py\<close>, \<open>messaging/trees/node.py\<close>, \<open>identity.py\<close> and \<open>graph.py\<close>: the nodes
  of one conversation tree, the index from status messages to nodes, the replies that link
  them, the two traversals and the removal of a subtree. \<open>graph_ok\<close> is the invariant every
  operation keeps.
\<close>

section \<open>Nodes\<close>

record message_scope =
  platform :: string
  chat_id :: string

record tree_identity =
  identity_scope :: message_scope
  identity_root :: string

datatype message_state = PENDING | IN_PROGRESS | COMPLETED | ERROR

datatype reference_kind = PROMPT | STATUS

record message_node =
  node_id :: string
  scope :: message_scope
  prompt :: string
  status_message_id :: "string option"
  state :: message_state
  parent_id :: "string option"
  parent_reference_id :: "string option"
  session_id :: "string option"
  children_ids :: "string list"

definition update_state :: "message_state \<Rightarrow> string option \<Rightarrow> message_node \<Rightarrow> message_node" where
  "update_state st sid n =
     (let n = n\<lparr>state := st\<rparr> in if truthy sid then n\<lparr>session_id := sid\<rparr> else n)"

definition mark_error :: "message_node \<Rightarrow> message_node" where
  "mark_error n = update_state ERROR None n"

definition node_clear_status :: "message_node \<Rightarrow> message_node" where
  "node_clear_status n = mark_error (n\<lparr>status_message_id := None, session_id := None\<rparr>)"

definition new_node ::
  "string \<Rightarrow> message_scope \<Rightarrow> string \<Rightarrow> string \<Rightarrow> string option \<Rightarrow> string option \<Rightarrow> message_node" where
  "new_node nid sc pr status parent reference =
     \<lparr>node_id = nid, scope = sc, prompt = pr, status_message_id = Some status, state = PENDING,
      parent_id = parent, parent_reference_id = reference, session_id = None,
      children_ids = []\<rparr>"

text \<open>A node that still has work to do.\<close>

definition runnable :: "message_state \<Rightarrow> bool" where
  "runnable st \<longleftrightarrow> st = PENDING \<or> st = IN_PROGRESS"

lemma runnable_simps [simp]:
  "runnable PENDING" "runnable IN_PROGRESS" "\<not> runnable COMPLETED" "\<not> runnable ERROR"
  by (simp_all add: runnable_def)

lemma update_state_fields [simp]:
  "node_id (update_state st sid n) = node_id n"
  "scope (update_state st sid n) = scope n"
  "prompt (update_state st sid n) = prompt n"
  "status_message_id (update_state st sid n) = status_message_id n"
  "state (update_state st sid n) = st"
  "parent_id (update_state st sid n) = parent_id n"
  "parent_reference_id (update_state st sid n) = parent_reference_id n"
  "children_ids (update_state st sid n) = children_ids n"
  by (simp_all add: update_state_def Let_def)

lemma mark_error_fields [simp]:
  "node_id (mark_error n) = node_id n"
  "scope (mark_error n) = scope n"
  "status_message_id (mark_error n) = status_message_id n"
  "state (mark_error n) = ERROR"
  "parent_id (mark_error n) = parent_id n"
  "parent_reference_id (mark_error n) = parent_reference_id n"
  "children_ids (mark_error n) = children_ids n"
  "session_id (mark_error n) = session_id n"
  by (simp_all add: mark_error_def update_state_def)

section \<open>The graph and its operations\<close>

datatype tree_error =
    Prompt_is_status
  | Cross_scope
  | No_parent string
  | Bad_reference
  | Node_exists string
  | Reference_exists string
  | Status_exists string
  | No_status
  | Already_registered
  | Tree_exists tree_identity

record message_graph =
  root_id :: string
  identity :: tree_identity
  nodes :: "(string, message_node) dict"
  status_to_node :: "(string, string) dict"

definition new_graph :: "message_node \<Rightarrow> tree_error + message_graph" where
  "new_graph root =
     (if status_message_id root = Some (node_id root) then Inl Prompt_is_status
      else Inr \<lparr>root_id = node_id root,
                identity = \<lparr>identity_scope = scope root, identity_root = node_id root\<rparr>,
                nodes = [(node_id root, root)],
                status_to_node =
                  (case status_message_id root of None \<Rightarrow> [] | Some s \<Rightarrow> [(s, node_id root)])\<rparr>)"

definition get_node :: "message_graph \<Rightarrow> string \<Rightarrow> message_node option" where
  "get_node g nid = dget (nodes g) nid"

definition get_parent :: "message_graph \<Rightarrow> string \<Rightarrow> message_node option" where
  "get_parent g nid =
     (case get_node g nid of
        None \<Rightarrow> None
      | Some n \<Rightarrow> (if \<not> truthy (parent_id n) then None else get_node g (the (parent_id n))))"

definition get_parent_session_id :: "message_graph \<Rightarrow> string \<Rightarrow> string option" where
  "get_parent_session_id g nid =
     (case get_parent g nid of None \<Rightarrow> None | Some p \<Rightarrow> session_id p)"

definition find_node_by_status_message :: "message_graph \<Rightarrow> string \<Rightarrow> message_node option" where
  "find_node_by_status_message g s =
     (let nid = dget (status_to_node g) s in
      if truthy nid then get_node g (the nid) else None)"

definition resolve_reference ::
  "message_graph \<Rightarrow> string \<Rightarrow> (message_node \<times> reference_kind) option" where
  "resolve_reference g r =
     (case get_node g r of
        Some n \<Rightarrow> Some (n, PROMPT)
      | None \<Rightarrow>
          (case find_node_by_status_message g r of
             Some n \<Rightarrow> Some (n, STATUS)
           | None \<Rightarrow> None))"

definition all_nodes :: "message_graph \<Rightarrow> message_node list" where
  "all_nodes g = map snd (nodes g)"

text \<open>Changing one node in place.\<close>

definition modify_node :: "string \<Rightarrow> (message_node \<Rightarrow> message_node) \<Rightarrow> message_graph \<Rightarrow> message_graph" where
  "modify_node nid f g = g\<lparr>nodes := dmodify nid f (nodes g)\<rparr>"

definition add_node ::
  "string \<Rightarrow> message_scope \<Rightarrow> string \<Rightarrow> string \<Rightarrow> string \<Rightarrow> string \<Rightarrow> message_graph
     \<Rightarrow> tree_error + message_graph" where
  "add_node nid sc pr status parent reference g =
     (if sc \<noteq> identity_scope (identity g) then Inl Cross_scope
      else if get_node g parent = None then Inl (No_parent parent)
      else if (case resolve_reference g reference of
                 None \<Rightarrow> True | Some (owner, _) \<Rightarrow> node_id owner \<noteq> parent) then Inl Bad_reference
      else if get_node g nid \<noteq> None then Inl (Node_exists nid)
      else if status = nid then Inl Prompt_is_status
      else if dget (status_to_node g) nid \<noteq> None then Inl (Reference_exists nid)
      else if dget (status_to_node g) status \<noteq> None then Inl (Status_exists status)
      else if get_node g status \<noteq> None then Inl (Reference_exists status)
      else Inr (modify_node parent (\<lambda>p. p\<lparr>children_ids := children_ids p @ [nid]\<rparr>)
             (g\<lparr>nodes := dset nid (new_node nid sc pr status (Some parent) (Some reference)) (nodes g),
                status_to_node := dset status nid (status_to_node g)\<rparr>)))"

text \<open>The children of a node, as the traversal reads them.\<close>

definition graph_children :: "message_graph \<Rightarrow> string \<Rightarrow> string list" where
  "graph_children g nid = (case get_node g nid of None \<Rightarrow> [] | Some n \<Rightarrow> children_ids n)"

definition get_descendants :: "message_graph \<Rightarrow> string \<Rightarrow> string list option" where
  "get_descendants g nid =
     (if get_node g nid = None then Some [] else dfs (graph_children g) [nid] [])"

text \<open>\<open>children.setdefault(k, []).append(x)\<close>.\<close>

definition append_under :: "'k \<Rightarrow> 'v \<Rightarrow> ('k, 'v list) dict \<Rightarrow> ('k, 'v list) dict" where
  "append_under k x d = dset k ((case dget d k of None \<Rightarrow> [] | Some xs \<Rightarrow> xs) @ [x]) d"

definition add_references ::
  "message_node \<Rightarrow> (string, string list) dict \<Rightarrow> (string, string list) dict" where
  "add_references n children =
     (let children = (case status_message_id n of
                        None \<Rightarrow> children | Some s \<Rightarrow> append_under (node_id n) s children)
      in case parent_reference_id n of
           None \<Rightarrow> children | Some r \<Rightarrow> append_under r (node_id n) children)"

definition reference_children :: "message_graph \<Rightarrow> string \<Rightarrow> string list" where
  "reference_children g r =
     (case dget (fold add_references (all_nodes g) []) r of None \<Rightarrow> [] | Some xs \<Rightarrow> xs)"

definition get_reference_descendants :: "message_graph \<Rightarrow> string \<Rightarrow> string list option" where
  "get_reference_descendants g r =
     (if resolve_reference g r = None then Some [] else dfs (reference_children g) [r] [])"

definition remove_node :: "string \<Rightarrow> message_graph \<Rightarrow> message_graph" where
  "remove_node nid g =
     (case get_node g nid of
        None \<Rightarrow> g
      | Some n \<Rightarrow>
          (let g = (case parent_id n of
                      None \<Rightarrow> g
                    | Some p \<Rightarrow> modify_node p
                        (\<lambda>pn. pn\<lparr>children_ids := filter (\<lambda>c. c \<noteq> nid) (children_ids pn)\<rparr>) g);
               g = (case status_message_id n of
                      None \<Rightarrow> g
                    | Some s \<Rightarrow> g\<lparr>status_to_node := dpop s (status_to_node g)\<rparr>)
           in g\<lparr>nodes := dpop nid (nodes g)\<rparr>))"

definition remove_nodes :: "string list \<Rightarrow> message_graph \<Rightarrow> message_graph" where
  "remove_nodes ids g = fold remove_node ids g"

definition clear_status :: "string \<Rightarrow> message_graph \<Rightarrow> message_graph" where
  "clear_status nid g =
     (case get_node g nid of
        None \<Rightarrow> g
      | Some n \<Rightarrow>
          (case status_message_id n of
             None \<Rightarrow> g
           | Some s \<Rightarrow> modify_node nid node_clear_status
                        (g\<lparr>status_to_node := dpop s (status_to_node g)\<rparr>)))"

definition all_reference_ids :: "message_graph \<Rightarrow> string set" where
  "all_reference_ids g = set (dkeys (nodes g)) \<union> set (dkeys (status_to_node g))"

section \<open>The invariant\<close>

text \<open>The replies to a node, in the order they arrived.\<close>

definition child_keys :: "(string, message_node) dict \<Rightarrow> string \<Rightarrow> string list" where
  "child_keys ns p = map fst (filter (\<lambda>(k, n). parent_id n = Some p) ns)"

text \<open>What holds of the node stored under a key.\<close>

definition parent_ok :: "message_graph \<Rightarrow> string \<Rightarrow> message_node \<Rightarrow> bool" where
  "parent_ok g k n \<longleftrightarrow>
     (if k = root_id g then parent_id n = None \<and> parent_reference_id n = None
      else \<exists>p pn r. parent_id n = Some p \<and> get_node g p = Some pn \<and>
             parent_reference_id n = Some r \<and> (r = p \<or> status_message_id pn = Some r))"

definition node_ok :: "message_graph \<Rightarrow> string \<Rightarrow> message_node \<Rightarrow> bool" where
  "node_ok g k n \<longleftrightarrow>
     node_id n = k \<and> k \<noteq> [] \<and> scope n = identity_scope (identity g) \<and>
     children_ids n = child_keys (nodes g) k \<and>
     (\<forall>s. status_message_id n = Some s \<longrightarrow> s \<noteq> [] \<and> get_node g s = None) \<and>
     session_id n \<noteq> Some [] \<and>
     (runnable (state n) \<longrightarrow> status_message_id n \<noteq> None) \<and>
     parent_ok g k n"

definition index_ok :: "message_graph \<Rightarrow> bool" where
  "index_ok g \<longleftrightarrow>
     distinct (dkeys (nodes g)) \<and> distinct (dkeys (status_to_node g)) \<and>
     (\<forall>s k. dget (status_to_node g) s = Some k \<longleftrightarrow>
        (\<exists>n. get_node g k = Some n \<and> status_message_id n = Some s))"

text \<open>Every node is reached from the root; a graph whose root was removed is empty.\<close>

definition rooted :: "message_graph \<Rightarrow> bool" where
  "rooted g \<longleftrightarrow>
     (nodes g = [] \<or> hd (dkeys (nodes g)) = root_id g) \<and>
     (\<forall>k \<in> set (dkeys (nodes g)). (root_id g, k) \<in> (edges (graph_children g))\<^sup>*)"

definition graph_ok :: "message_graph \<Rightarrow> bool" where
  "graph_ok g \<longleftrightarrow>
     index_ok g \<and> (\<forall>k n. get_node g k = Some n \<longrightarrow> node_ok g k n) \<and> rooted g \<and>
     identity_root (identity g) = root_id g"

end
