(* ===== verification/Graph_Lemmas.thy ===== *)
theory Graph_Lemmas
  imports Message_Graph
begin

text \<open>
  What the operations of \<open>Message_Graph\<close> do to a graph that satisfies \<open>graph_ok\<close>: references
  resolve to the node that owns them, both traversals end and visit exactly the subtree,
  and \<open>new_graph\<close>, \<open>add_node\<close>, node updates, \<open>clear_status\<close> and \<open>remove_nodes\<close> keep the
  invariant.
\<close>

section \<open>Reading a well-formed graph\<close>

lemma graph_okD:
  assumes "graph_ok g"
  shows "index_ok g" and "rooted g" and "identity_root (identity g) = root_id g"
    and "get_node g k = Some n \<Longrightarrow> node_ok g k n"
  using assms by (auto simp: graph_ok_def)

lemma index_okD:
  assumes "index_ok g"
  shows "distinct (dkeys (nodes g))" and "distinct (dkeys (status_to_node g))"
    and "dget (status_to_node g) s = Some k \<longleftrightarrow>
      (\<exists>n. get_node g k = Some n \<and> status_message_id n = Some s)"
  using assms by (auto simp: index_ok_def)

lemma get_node_iff_key: "get_node g k \<noteq> None \<longleftrightarrow> k \<in> set (dkeys (nodes g))"
  by (simp add: get_node_def map_of_eq_None_iff)

lemma get_node_keyD: "get_node g k = Some n \<Longrightarrow> k \<in> set (dkeys (nodes g))"
  using get_node_iff_key [of g k] by simp

lemma get_node_in: "index_ok g \<Longrightarrow> get_node g k = Some n \<longleftrightarrow> (k, n) \<in> set (nodes g)"
  by (simp add: get_node_def index_ok_def)

lemma node_okD:
  assumes "graph_ok g" and "get_node g k = Some n"
  shows "node_id n = k" and "k \<noteq> []" and "scope n = identity_scope (identity g)"
    and "children_ids n = child_keys (nodes g) k"
    and "status_message_id n = Some s \<Longrightarrow> get_node g s = None"
    and "runnable (state n) \<Longrightarrow> status_message_id n \<noteq> None"
    and "parent_ok g k n"
    and "status_message_id n \<noteq> Some []" and "session_id n \<noteq> Some []"
  using assms by (auto simp: graph_ok_def node_ok_def)

lemma in_child_keys:
  "index_ok g \<Longrightarrow> c \<in> set (child_keys (nodes g) p) \<longleftrightarrow>
     (\<exists>n. get_node g c = Some n \<and> parent_id n = Some p)"
  by (force simp: child_keys_def get_node_in)

lemma child_keys_distinct: "distinct (map fst ns) \<Longrightarrow> distinct (child_keys ns p)"
  unfolding child_keys_def by (rule distinct_map_filter)

lemma in_graph_children:
  assumes "graph_ok g"
  shows "c \<in> set (graph_children g p) \<longleftrightarrow>
    (\<exists>n. get_node g c = Some n \<and> parent_id n = Some p)"
proof (cases "get_node g p")
  case None
  moreover have "get_node g p \<noteq> None" if "get_node g c = Some n" "parent_id n = Some p" for n
    using node_okD(7) [OF assms that(1)] that(2) by (auto simp: parent_ok_def split: if_splits)
  ultimately show ?thesis by (auto simp: graph_children_def)
next
  case (Some pn)
  then show ?thesis
    using in_child_keys [OF graph_okD(1) [OF assms]] node_okD(4) [OF assms Some]
    by (simp add: graph_children_def)
qed

lemma find_status:
  assumes ok: "graph_ok g"
  shows "find_node_by_status_message g s = Some n \<longleftrightarrow>
    (\<exists>k. get_node g k = Some n \<and> status_message_id n = Some s)"
proof (cases "dget (status_to_node g) s")
  case None
  then have "\<not> (get_node g k = Some m \<and> status_message_id m = Some s)" for k m
    using index_okD(3) [OF graph_okD(1) [OF ok], of s k] by auto
  with None show ?thesis by (auto simp: find_node_by_status_message_def)
next
  case (Some k)
  then obtain m where m: "get_node g k = Some m" "status_message_id m = Some s"
    using index_okD(3) [OF graph_okD(1) [OF ok], of s k] by auto
  have "k' = k" if "get_node g k' = Some m'" "status_message_id m' = Some s" for k' m'
    using index_okD(3) [OF graph_okD(1) [OF ok], of s k'] Some that by auto
  with m have "(\<exists>k. get_node g k = Some n \<and> status_message_id n = Some s) \<longleftrightarrow> n = m"
    by fastforce
  then show ?thesis
    using Some m(1) node_okD(2) [OF ok m(1)] by (auto simp: find_node_by_status_message_def)
qed

text \<open>A reference resolves to the node whose prompt or status it is, and to no other.\<close>

lemma resolve_reference_iff:
  assumes "graph_ok g"
  shows "resolve_reference g r = Some (n, kind) \<longleftrightarrow>
    get_node g (node_id n) = Some n \<and>
    (kind = PROMPT \<and> r = node_id n \<or> kind = STATUS \<and> status_message_id n = Some r)"
proof (cases "get_node g r")
  case None
  then have "resolve_reference g r = Some (n, kind) \<longleftrightarrow>
      kind = STATUS \<and> find_node_by_status_message g r = Some n"
    by (auto simp: resolve_reference_def split: option.splits)
  also have "\<dots> \<longleftrightarrow> kind = STATUS \<and> get_node g (node_id n) = Some n \<and> status_message_id n = Some r"
    using node_okD(1) [OF assms] by (auto simp: find_status [OF assms])
  finally show ?thesis using None by auto
next
  case (Some m)
  then have r: "node_id m = r" using node_okD(1) [OF assms] by blast
  have "status_message_id n \<noteq> Some r" if "get_node g (node_id n) = Some n"
    using node_okD(5) [OF assms that, of r] Some by auto
  moreover have "n = m \<longleftrightarrow> get_node g (node_id n) = Some n \<and> r = node_id n"
    using r Some by (metis option.inject)
  moreover have "resolve_reference g r = Some (n, kind) \<longleftrightarrow> m = n \<and> kind = PROMPT"
    using Some by (simp add: resolve_reference_def) blast
  ultimately show ?thesis by metis
qed

lemma status_key_iff:
  assumes ok: "graph_ok g"
  shows "s \<in> set (dkeys (status_to_node g)) \<longleftrightarrow> find_node_by_status_message g s \<noteq> None"
proof -
  have "s \<in> set (dkeys (status_to_node g)) \<longleftrightarrow> (\<exists>k. dget (status_to_node g) s = Some k)"
    using map_of_eq_None_iff [of "status_to_node g" s] by auto
  also have "\<dots> \<longleftrightarrow> (\<exists>n. find_node_by_status_message g s = Some n)"
    unfolding find_status [OF ok] index_okD(3) [OF graph_okD(1) [OF ok]] by blast
  finally show ?thesis by simp
qed

lemma all_reference_ids_resolve:
  assumes "graph_ok g"
  shows "r \<in> all_reference_ids g \<longleftrightarrow> resolve_reference g r \<noteq> None"
  unfolding all_reference_ids_def Un_iff status_key_iff [OF assms]
  unfolding get_node_iff_key [symmetric]
  by (auto simp: resolve_reference_def split: option.splits)

section \<open>Descendants\<close>

lemma forest_graph_children:
  assumes "graph_ok g"
  shows "forest (graph_children g)"
proof -
  have "distinct (graph_children g k)" for k
    using node_okD(4) [OF assms] index_okD(1) [OF graph_okD(1) [OF assms]] child_keys_distinct
    by (auto simp: graph_children_def split: option.splits)
  then show ?thesis by (auto simp: forest_def in_graph_children [OF assms])
qed

lemma root_no_parent:
  assumes "graph_ok g"
  shows "root_id g \<notin> set (graph_children g y)"
  using node_okD(7) [OF assms] by (auto simp: in_graph_children [OF assms] parent_ok_def)

lemma rootedD:
  "graph_ok g \<Longrightarrow> get_node g k = Some n \<Longrightarrow> (root_id g, k) \<in> (edges (graph_children g))\<^sup>*"
  using get_node_keyD graph_okD(2) unfolding rooted_def by blast

lemma descendants_are_nodes:
  assumes "graph_ok g" and "(k, c) \<in> (edges (graph_children g))\<^sup>*" and "get_node g k \<noteq> None"
  shows "get_node g c \<noteq> None"
  using assms(2,3) by (induction) (auto simp: in_graph_children [OF assms(1)])

lemma finite_descendants:
  assumes "graph_ok g" and "get_node g k \<noteq> None"
  shows "finite ((edges (graph_children g))\<^sup>* `` {k})"
proof (rule finite_subset)
  show "(edges (graph_children g))\<^sup>* `` {k} \<subseteq> set (dkeys (nodes g))"
    using descendants_are_nodes [OF assms(1) _ assms(2)] get_node_iff_key [of g] by fastforce
qed simp

lemma get_descendants_exact:
  assumes ok: "graph_ok g" and k: "get_node g k = Some n"
  shows "\<exists>r. get_descendants g k = Some (k # r) \<and> distinct (k # r) \<and>
    set (k # r) = (edges (graph_children g))\<^sup>* `` {k}"
proof -
  have "\<exists>r. dfs (graph_children g) [k] [] = Some (k # r) \<and> distinct (k # r) \<and>
      set (k # r) = (edges (graph_children g))\<^sup>* `` {k}"
    using forest_graph_children [OF ok] _ finite_descendants [OF ok]
  proof (rule dfs_visits_subtree)
    show "k \<notin> set (graph_children g y)" if "(k, y) \<in> (edges (graph_children g))\<^sup>*" for y
      using forest_no_back_edge [OF forest_graph_children [OF ok] root_no_parent [OF ok]
          rootedD [OF ok k] that] .
  qed (simp add: k)
  then show ?thesis by (simp add: get_descendants_def k)
qed

section \<open>Reference descendants\<close>

lemma dget_append_under:
  "dget (append_under k x d) = (dget d)(k \<mapsto> (case dget d k of None \<Rightarrow> [] | Some xs \<Rightarrow> xs) @ [x])"
  by (simp add: append_under_def update_conv')

definition listed :: "('k, 'v list) dict \<Rightarrow> 'k \<Rightarrow> 'v list" where
  "listed d k = (case dget d k of None \<Rightarrow> [] | Some xs \<Rightarrow> xs)"

lemma listed_append_under:
  "listed (append_under k x d) r = listed d r @ (if r = k then [x] else [])"
  by (simp add: listed_def dget_append_under)

text \<open>What one node contributes below a reference.\<close>

definition contributes :: "message_node \<Rightarrow> string \<Rightarrow> string list" where
  "contributes n r =
     (if node_id n = r then (case status_message_id n of None \<Rightarrow> [] | Some s \<Rightarrow> [s]) else []) @
     (if parent_reference_id n = Some r then [node_id n] else [])"

lemma in_contributes:
  "x \<in> set (contributes n r) \<longleftrightarrow>
     node_id n = r \<and> status_message_id n = Some x \<or> parent_reference_id n = Some r \<and> node_id n = x"
  by (cases "status_message_id n"; cases "node_id n = r"; cases "parent_reference_id n = Some r")
    (simp_all add: contributes_def, blast+)

lemma listed_add_references:
  "listed (add_references n d) r = listed d r @ contributes n r"
  by (auto simp: add_references_def contributes_def listed_append_under split: option.splits)

lemma listed_fold: "listed (fold add_references ns d) r = listed d r @ concat (map (\<lambda>n. contributes n r) ns)"
  by (induction ns arbitrary: d) (auto simp: listed_add_references)

lemma reference_children_eq:
  "reference_children g r = concat (map (\<lambda>n. contributes n r) (all_nodes g))"
  using listed_fold [of "all_nodes g" "[]" r]
  by (simp add: reference_children_def listed_def split: option.splits)

lemma in_all_nodes: "index_ok g \<Longrightarrow> n \<in> set (all_nodes g) \<longleftrightarrow> (\<exists>k. get_node g k = Some n)"
  by (force simp: all_nodes_def get_node_in)

lemma in_reference_children:
  assumes "graph_ok g"
  shows "x \<in> set (reference_children g r) \<longleftrightarrow>
    (\<exists>n. get_node g r = Some n \<and> status_message_id n = Some x) \<or>
    (\<exists>n. get_node g x = Some n \<and> parent_reference_id n = Some r)"
proof -
  have "x \<in> set (reference_children g r) \<longleftrightarrow>
      (\<exists>n. (\<exists>k. get_node g k = Some n) \<and> x \<in> set (contributes n r))"
    using in_all_nodes [OF graph_okD(1) [OF assms]] by (auto simp: reference_children_eq)
  also have "\<dots> \<longleftrightarrow> (\<exists>n k. get_node g k = Some n \<and>
      (k = r \<and> status_message_id n = Some x \<or> parent_reference_id n = Some r \<and> k = x))"
    using node_okD(1) [OF assms] unfolding in_contributes by blast
  also have "\<dots> \<longleftrightarrow> (\<exists>n. get_node g r = Some n \<and> status_message_id n = Some x) \<or>
      (\<exists>n. get_node g x = Some n \<and> parent_reference_id n = Some r)"
    by blast
  finally show ?thesis .
qed

lemma status_owner_unique:
  assumes "graph_ok g" "get_node g k = Some n" "get_node g k' = Some n'"
    and "status_message_id n = Some s" "status_message_id n' = Some s"
  shows "k = k'"
proof -
  have "dget (status_to_node g) s = Some k" "dget (status_to_node g) s = Some k'"
    using assms(2-5) index_okD(3) [OF graph_okD(1) [OF assms(1)]] by blast+
  then show ?thesis by simp
qed

lemma reference_children_distinct:
  assumes ok: "graph_ok g"
  shows "distinct (reference_children g r)"
proof -
  have "distinct (concat (map (\<lambda>n. contributes n r) ns))"
    if "distinct (map node_id ns)" "\<forall>n \<in> set ns. get_node g (node_id n) = Some n" for ns
    using that
  proof (induction ns)
    case (Cons n ns)
    have n: "get_node g (node_id n) = Some n" using Cons.prems by simp
    have "status_message_id n \<noteq> Some (node_id n)"
      using node_okD(5) [OF ok n, of "node_id n"] n by auto
    then have d: "distinct (contributes n r)"
      by (cases "status_message_id n"; cases "node_id n = r"; cases "parent_reference_id n = Some r")
        (simp_all add: contributes_def)
    have disj: "set (contributes n r) \<inter> set (contributes m r) = {}" if m: "m \<in> set ns" for m
    proof -
      have gm: "get_node g (node_id m) = Some m" using m Cons.prems(2) by simp
      have ne: "node_id m \<noteq> node_id n" using m Cons.prems(1) by (metis (no_types) distinct.simps(2) image_eqI list.set_map list.simps(9))
      have "status_message_id n \<noteq> Some (node_id m)" "status_message_id m \<noteq> Some (node_id n)"
        using node_okD(5) [OF ok n, of "node_id m"] node_okD(5) [OF ok gm, of "node_id n"] n gm by auto
      then have "\<not> (x \<in> set (contributes n r) \<and> x \<in> set (contributes m r))" for x
        using ne status_owner_unique [OF ok n gm, of x] unfolding in_contributes by metis
      then show ?thesis by blast
    qed
    have "distinct (concat (map (\<lambda>n. contributes n r) ns))"
      using Cons.prems by (intro Cons.IH) simp_all
    with d disj show ?case by auto
  qed simp
  moreover have "\<forall>n \<in> set (all_nodes g). get_node g (node_id n) = Some n"
    using in_all_nodes [OF graph_okD(1) [OF ok]] node_okD(1) [OF ok] by blast
  moreover have "map node_id (all_nodes g) = dkeys (nodes g)"
    using node_okD(1) [OF ok] get_node_in [OF graph_okD(1) [OF ok]]
    by (auto simp: all_nodes_def)
  ultimately show ?thesis
    using index_okD(1) [OF graph_okD(1) [OF ok]] by (simp add: reference_children_eq)
qed

lemma forest_reference_children:
  assumes ok: "graph_ok g"
  shows "forest (reference_children g)"
proof -
  have "r = r'" if "x \<in> set (reference_children g r)" "x \<in> set (reference_children g r')" for x r r'
  proof (cases "get_node g x")
    case None
    with that obtain n n' where "get_node g r = Some n" "status_message_id n = Some x"
      "get_node g r' = Some n'" "status_message_id n' = Some x"
      by (auto simp: in_reference_children [OF ok])
    then show ?thesis using status_owner_unique [OF ok] by blast
  next
    case (Some m)
    have "\<not> (get_node g k = Some n \<and> status_message_id n = Some x)" for k n
      using node_okD(5) [OF ok, of k n x] Some by auto
    with that Some show ?thesis by (auto simp: in_reference_children [OF ok])
  qed
  then show ?thesis using reference_children_distinct [OF ok] by (auto simp: forest_def)
qed

lemma root_key:
  assumes "graph_ok g" and "get_node g k \<noteq> None"
  shows "get_node g (root_id g) \<noteq> None"
proof -
  have "nodes g \<noteq> []" using assms(2) by (auto simp: get_node_def)
  then have "root_id g \<in> set (dkeys (nodes g))"
    using graph_okD(2) [OF assms(1)] unfolding rooted_def by (metis hd_in_set map_is_Nil_conv)
  then show ?thesis using get_node_iff_key [of g "root_id g"] by blast
qed

lemma reference_child_key:
  assumes "graph_ok g" and "x \<in> set (reference_children g r)"
  shows "\<exists>k. get_node g k \<noteq> None"
  using assms(2) unfolding in_reference_children [OF assms(1)] by auto

lemma root_no_reference_parent:
  assumes ok: "graph_ok g"
  shows "root_id g \<notin> set (reference_children g r)"
proof
  assume child: "root_id g \<in> set (reference_children g r)"
  then obtain m where m: "get_node g (root_id g) = Some m"
    using root_key [OF ok] reference_child_key [OF ok] by blast
  then have "parent_reference_id m = None"
    using node_okD(7) [OF ok m] by (simp add: parent_ok_def)
  moreover have "\<not> (get_node g r = Some n \<and> status_message_id n = Some (root_id g))" for n
    using node_okD(5) [OF ok, of r n "root_id g"] m by auto
  ultimately show False using child m unfolding in_reference_children [OF ok] by auto
qed

lemma reference_step:
  assumes ok: "graph_ok g" and n: "get_node g c = Some n" and p: "parent_id n = Some p"
    and root: "(root_id g, p) \<in> (edges (reference_children g))\<^sup>*"
  shows "(root_id g, c) \<in> (edges (reference_children g))\<^sup>*"
proof -
  obtain pn r where pn: "get_node g p = Some pn" "parent_reference_id n = Some r"
      "r = p \<or> status_message_id pn = Some r"
    using node_okD(7) [OF ok n] p by (auto simp: parent_ok_def split: if_splits)
  have "c \<in> set (reference_children g r)"
    using n pn unfolding in_reference_children [OF ok] by blast
  moreover have "r = p \<or> r \<in> set (reference_children g p)"
    using pn unfolding in_reference_children [OF ok] by blast
  ultimately show ?thesis
    using root by (metis in_edges rtrancl.rtrancl_into_rtrancl)
qed

lemma prompt_rooted:
  assumes ok: "graph_ok g" and "get_node g k = Some n"
  shows "(root_id g, k) \<in> (edges (reference_children g))\<^sup>*"
  using rootedD [OF assms]
proof induction
  case (step y z)
  then obtain m where "get_node g z = Some m" "parent_id m = Some y"
    by (auto simp: in_graph_children [OF ok])
  then show ?case using reference_step [OF ok] step.IH by blast
qed simp

lemma reference_rooted:
  assumes ok: "graph_ok g" and "resolve_reference g r \<noteq> None"
  shows "(root_id g, r) \<in> (edges (reference_children g))\<^sup>*"
proof -
  obtain n kind where n: "resolve_reference g r = Some (n, kind)" using assms(2) by auto
  then have k: "get_node g (node_id n) = Some n"
    and r: "r = node_id n \<or> status_message_id n = Some r"
    unfolding resolve_reference_iff [OF ok] by blast+
  have "r = node_id n \<or> r \<in> set (reference_children g (node_id n))"
    using r k unfolding in_reference_children [OF ok] by blast
  then show ?thesis
    using prompt_rooted [OF ok k] by (metis in_edges rtrancl.rtrancl_into_rtrancl)
qed

lemma reference_child_resolves:
  assumes ok: "graph_ok g" and "x \<in> set (reference_children g r)"
  shows "resolve_reference g x \<noteq> None"
proof -
  consider n where "get_node g r = Some n" "status_message_id n = Some x" | n where "get_node g x = Some n"
    using assms(2) unfolding in_reference_children [OF ok] by blast
  then show ?thesis
  proof cases
    case 1
    then have "find_node_by_status_message g x = Some n" unfolding find_status [OF ok] by blast
    then show ?thesis by (simp add: resolve_reference_def split: option.split)
  qed (simp add: resolve_reference_def)
qed

lemma reference_descendants_resolve:
  assumes ok: "graph_ok g" and "(r, x) \<in> (edges (reference_children g))\<^sup>*"
    and "resolve_reference g r \<noteq> None"
  shows "resolve_reference g x \<noteq> None"
  using assms(2,3) by induction (use reference_child_resolves [OF ok] in simp_all)

lemma get_reference_descendants_exact:
  assumes ok: "graph_ok g" and r: "resolve_reference g r \<noteq> None"
  shows "\<exists>rs. get_reference_descendants g r = Some (r # rs) \<and> distinct (r # rs) \<and>
    set (r # rs) = (edges (reference_children g))\<^sup>* `` {r}"
proof -
  have "(edges (reference_children g))\<^sup>* `` {r} \<subseteq> all_reference_ids g"
    using reference_descendants_resolve [OF ok _ r] all_reference_ids_resolve [OF ok] by blast
  then have fin: "finite ((edges (reference_children g))\<^sup>* `` {r})"
    by (rule finite_subset) (simp add: all_reference_ids_def)
  have "r \<notin> set (reference_children g y)" if "(r, y) \<in> (edges (reference_children g))\<^sup>*" for y
    using forest_no_back_edge [OF forest_reference_children [OF ok] root_no_reference_parent [OF ok]
        reference_rooted [OF ok r] that] .
  from dfs_visits_subtree [OF forest_reference_children [OF ok] this fin] show ?thesis
    by (simp add: get_reference_descendants_def r)
qed

end
