(* ===== verification/Graph_Removal.thy ===== *)
theory Graph_Removal
  imports Graph_Changes
begin

text \<open>
  \<open>remove_nodes\<close> and \<open>clear_status\<close>. Removing nodes one at a time, in any order, has a closed
  form: the removed entries and their status references disappear, and every remaining node
  forgets the removed children. A removal closed under replies keeps \<open>graph_ok\<close>; so does
  clearing a status that no remaining node replies to, and the two commute.
\<close>

section \<open>The closed form of a removal\<close>

definition forget_children :: "string set \<Rightarrow> message_node \<Rightarrow> message_node" where
  "forget_children S n = n\<lparr>children_ids := filter (\<lambda>c. c \<notin> S) (children_ids n)\<rparr>"

lemma forget_children_fields [simp]:
  "node_id (forget_children S n) = node_id n" "scope (forget_children S n) = scope n"
  "status_message_id (forget_children S n) = status_message_id n"
  "state (forget_children S n) = state n" "parent_id (forget_children S n) = parent_id n"
  "parent_reference_id (forget_children S n) = parent_reference_id n"
  "session_id (forget_children S n) = session_id n"
  "children_ids (forget_children S n) = filter (\<lambda>c. c \<notin> S) (children_ids n)"
  by (simp_all add: forget_children_def)

lemma forget_children_absent: "set (children_ids n) \<inter> S = {} \<Longrightarrow> forget_children S n = n"
  unfolding forget_children_def by (subst filter_True) auto

lemma forget_children_twice: "forget_children T (forget_children S n) = forget_children (S \<union> T) n"
  by (simp add: forget_children_def)

definition prune_nodes :: "string set \<Rightarrow> (string, message_node) dict \<Rightarrow> (string, message_node) dict" where
  "prune_nodes S ns = map (\<lambda>(k, n). (k, forget_children S n)) (filter (\<lambda>(k, n). k \<notin> S) ns)"

lemma prune_nodes_twice: "prune_nodes T (prune_nodes S ns) = prune_nodes (S \<union> T) ns"
  by (induction ns) (auto simp: prune_nodes_def forget_children_twice)

lemma dget_prune_nodes:
  "dget (prune_nodes S ns) k = (if k \<in> S then None else map_option (forget_children S) (dget ns k))"
  by (induction ns) (auto simp: prune_nodes_def)

lemma dkeys_prune_nodes: "dkeys (prune_nodes S ns) = filter (\<lambda>k. k \<notin> S) (dkeys ns)"
  by (induction ns) (auto simp: prune_nodes_def)

text \<open>Every listed child is there and has its lister as parent.\<close>

definition children_ok :: "message_graph \<Rightarrow> bool" where
  "children_ok g \<longleftrightarrow>
     (\<forall>k n c. get_node g k = Some n \<longrightarrow> c \<in> set (children_ids n) \<longrightarrow>
        (\<exists>m. get_node g c = Some m \<and> parent_id m = Some k))"

lemma children_okD:
  "children_ok g \<Longrightarrow> get_node g k = Some n \<Longrightarrow> c \<in> set (children_ids n) \<Longrightarrow>
     \<exists>m. get_node g c = Some m \<and> parent_id m = Some k"
  unfolding children_ok_def by blast

lemma graph_ok_children_ok:
  assumes "graph_ok g"
  shows "children_ok g"
proof -
  have "c \<in> set (graph_children g k)" if "get_node g k = Some n" "c \<in> set (children_ids n)" for k n c
    using that by (simp add: graph_children_def)
  then show ?thesis unfolding children_ok_def in_graph_children [OF assms] by blast
qed

definition pruned :: "string set \<Rightarrow> message_graph \<Rightarrow> message_graph" where
  "pruned S g = g\<lparr>nodes := prune_nodes S (nodes g),
                  status_to_node := filter (\<lambda>(s, k). k \<notin> S) (status_to_node g)\<rparr>"

lemma pruned_twice: "pruned T (pruned S g) = pruned (S \<union> T) g"
  by (simp add: pruned_def prune_nodes_twice case_prod_unfold)

lemma get_pruned:
  "get_node (pruned S g) k = (if k \<in> S then None else map_option (forget_children S) (get_node g k))"
  by (simp add: get_node_def pruned_def dget_prune_nodes)

lemma pruned_frame [frame_simps]:
  "root_id (pruned S g) = root_id g" "identity (pruned S g) = identity g"
  "dkeys (nodes (pruned S g)) = filter (\<lambda>k. k \<notin> S) (dkeys (nodes g))"
  by (simp_all add: pruned_def dkeys_prune_nodes)

lemma distinct_keys_filter:
  "distinct (dkeys d) \<Longrightarrow> distinct (dkeys (filter P d))"
  by (rule distinct_map_filter)

lemma dget_filter_value:
  "distinct (dkeys d) \<Longrightarrow> dget (filter (\<lambda>(s, k). P k) d) s = Some k \<longleftrightarrow> dget d s = Some k \<and> P k"
  by (simp add: distinct_keys_filter)

lemma pruned_index_ok:
  assumes "index_ok g"
  shows "index_ok (pruned S g)"
proof -
  have "(\<exists>n. get_node (pruned S g) k = Some n \<and> status_message_id n = Some s) \<longleftrightarrow>
      k \<notin> S \<and> (\<exists>n. get_node g k = Some n \<and> status_message_id n = Some s)" for k s
    by (cases "get_node g k") (simp_all add: get_pruned)
  moreover have "dget (status_to_node (pruned S g)) s = Some k \<longleftrightarrow>
      k \<notin> S \<and> dget (status_to_node g) s = Some k" for s k
    using dget_filter_value [OF index_okD(2) [OF assms], of "\<lambda>k. k \<notin> S" s k]
    by (auto simp: pruned_def)
  ultimately show ?thesis
    using assms distinct_keys_filter [of "status_to_node g"]
    unfolding index_ok_def frame_simps by (simp add: pruned_def)
qed

lemma pruned_children_ok:
  assumes "children_ok g"
  shows "children_ok (pruned S g)"
proof -
  have "\<exists>m. get_node (pruned S g) c = Some m \<and> parent_id m = Some k"
    if "get_node (pruned S g) k = Some n" "c \<in> set (children_ids n)" for k n c
  proof -
    have "map_option (forget_children S) (get_node g k) = Some n"
      using that(1) by (simp add: get_pruned split: if_splits)
    then obtain n' where n': "get_node g k = Some n'" "forget_children S n' = n"
      unfolding map_option_eq_Some by blast
    then have c: "c \<in> set (children_ids n')" "c \<notin> S" using that(2) by auto
    from children_okD [OF assms n'(1) c(1)] c(2) show ?thesis by (auto simp: get_pruned)
  qed
  then show ?thesis unfolding children_ok_def by blast
qed

lemma remove_node_absent:
  assumes "index_ok g" "children_ok g" "get_node g c = None"
  shows "pruned {c} g = g"
proof -
  have "prune_nodes {c} (nodes g) = nodes g"
  proof -
    have "forget_children {c} n = n \<and> k \<noteq> c" if "(k, n) \<in> set (nodes g)" for k n
    proof -
      have n: "get_node g k = Some n" using that assms(1) by (simp add: get_node_in)
      then have "c \<notin> set (children_ids n)" using children_okD [OF assms(2)] assms(3) by fastforce
      with n assms(3) show ?thesis by (auto intro: forget_children_absent)
    qed
    then show ?thesis unfolding prune_nodes_def by (subst filter_True) (auto intro!: map_idI)
  qed
  moreover have "filter (\<lambda>(s, k). k \<notin> {c}) (status_to_node g) = status_to_node g"
  proof (rule filter_True)
    show "\<forall>x \<in> set (status_to_node g). case x of (s, k) \<Rightarrow> k \<notin> {c}"
      using index_okD(3) [OF assms(1), of _ c] index_okD(2) [OF assms(1)] assms(3) by auto
  qed
  ultimately show ?thesis by (simp add: pruned_def)
qed

lemma dpop_filter: "dpop k d = filter (\<lambda>(k', v). k' \<noteq> k) d"
  by (simp add: AList.delete_eq split_def eq_commute)

lemma remove_node_pruned:
  assumes "index_ok g" "children_ok g"
  shows "remove_node c g = pruned {c} g"
proof (cases "get_node g c")
  case None
  then show ?thesis using remove_node_absent [OF assms] by (simp add: remove_node_def)
next
  case (Some n)
  have lists: "c \<in> set (children_ids m) \<Longrightarrow> parent_id n = Some k" if "get_node g k = Some m" for k m
  proof -
    assume "c \<in> set (children_ids m)"
    from children_okD [OF assms(2) that this] Some show "parent_id n = Some k" by auto
  qed
  have "dpop c (case parent_id n of None \<Rightarrow> nodes g
      | Some p \<Rightarrow> dmodify p (\<lambda>pn. pn\<lparr>children_ids := filter (\<lambda>x. x \<noteq> c) (children_ids pn)\<rparr>) (nodes g))
      = prune_nodes {c} (nodes g)"
  proof -
    have "forget_children {c} m = (case parent_id n of None \<Rightarrow> m | Some p \<Rightarrow>
        if k = p then m\<lparr>children_ids := filter (\<lambda>x. x \<noteq> c) (children_ids m)\<rparr> else m)"
      if "(k, m) \<in> set (nodes g)" for k m
    proof (cases "parent_id n = Some k")
      case False
      then have "c \<notin> set (children_ids m)"
        using lists that assms(1) by (auto simp: get_node_in)
      with False show ?thesis by (auto simp: forget_children_absent split: option.splits)
    qed (simp add: forget_children_def)
    then show ?thesis
      by (cases "parent_id n")
        (auto simp: prune_nodes_def dpop_filter dmodify_def filter_map o_def split_def
          intro!: map_cong map_idI [symmetric])
  qed
  moreover have "(case status_message_id n of None \<Rightarrow> status_to_node g
      | Some s \<Rightarrow> dpop s (status_to_node g)) = filter (\<lambda>(s, k). k \<notin> {c}) (status_to_node g)"
  proof -
    have "k = c \<longleftrightarrow> status_message_id n = Some s" if "(s, k) \<in> set (status_to_node g)" for s k
      using that index_okD(2,3) [OF assms(1)] Some by (metis map_of_is_SomeI option.inject)
    then show ?thesis
      by (cases "status_message_id n") (auto simp: dpop_filter intro!: filter_cong filter_True [symmetric])
  qed
  ultimately show ?thesis
    using Some by (cases "parent_id n"; cases "status_message_id n")
      (simp_all add: remove_node_def pruned_def modify_node_def)
qed

lemma remove_nodes_pruned:
  "index_ok g \<Longrightarrow> children_ok g \<Longrightarrow> remove_nodes ids g = pruned (set ids) g"
proof (induction ids arbitrary: g)
  case Nil
  have "prune_nodes {} ns = ns" for ns
    by (induction ns) (auto simp: prune_nodes_def forget_children_def)
  then show ?case by (simp add: remove_nodes_def pruned_def)
next
  case (Cons c ids)
  then have "remove_nodes (c # ids) g = remove_nodes ids (pruned {c} g)"
    by (simp add: remove_nodes_def remove_node_pruned)
  also have "\<dots> = pruned (set (c # ids)) g"
    using Cons by (simp add: pruned_index_ok pruned_children_ok pruned_twice)
  finally show ?case .
qed

section \<open>Removing a set closed under replies\<close>

definition reply_closed :: "message_graph \<Rightarrow> string set \<Rightarrow> bool" where
  "reply_closed g S \<longleftrightarrow> (\<forall>p \<in> S. set (graph_children g p) \<subseteq> S)"

lemma reply_closedD: "reply_closed g S \<Longrightarrow> c \<in> set (graph_children g p) \<Longrightarrow> c \<notin> S \<Longrightarrow> p \<notin> S"
  unfolding reply_closed_def by blast

lemma pruned_children:
  "graph_children (pruned S g) p = (if p \<in> S then [] else filter (\<lambda>c. c \<notin> S) (graph_children g p))"
  by (simp add: graph_children_def get_pruned split: option.split)

lemma child_keys_prune_nodes:
  "child_keys (prune_nodes S ns) p = filter (\<lambda>c. c \<notin> S) (child_keys ns p)"
  by (induction ns) (auto simp: child_keys_def prune_nodes_def)

lemma pruned_rooted:
  assumes ok: "graph_ok g" and closed: "reply_closed g S"
  shows "rooted (pruned S g)"
proof -
  have path: "(root_id g, k) \<in> (edges (graph_children (pruned S g)))\<^sup>*"
    if "(root_id g, k) \<in> (edges (graph_children g))\<^sup>*" "k \<notin> S" for k
    using that
  proof induction
    case (step y z)
    then have z: "z \<in> set (graph_children g y)" by simp
    then have "y \<notin> S" using reply_closedD [OF closed] step.prems by blast
    with step z have "(y, z) \<in> edges (graph_children (pruned S g))" by (simp add: pruned_children)
    with step \<open>y \<notin> S\<close> show ?case by (meson rtrancl.rtrancl_into_rtrancl)
  qed simp
  have reach: "(root_id g, k) \<in> (edges (graph_children g))\<^sup>*" if "k \<in> set (dkeys (nodes g))" for k
    using graph_okD(2) [OF ok] that unfolding rooted_def by blast
  have "nodes (pruned S g) = [] \<or> hd (dkeys (nodes (pruned S g))) = root_id g"
  proof (cases "root_id g \<in> S")
    case True
    have "k \<in> S" if "(root_id g, k) \<in> (edges (graph_children g))\<^sup>*" for k
      using that True by induction (use reply_closedD [OF closed] in auto)
    then have "filter (\<lambda>k. k \<notin> S) (dkeys (nodes g)) = []"
      using reach by (auto simp: filter_empty_conv)
    then show ?thesis unfolding frame_simps(3) [symmetric] by (simp add: pruned_frame [symmetric])
  next
    case False
    have "nodes g = [] \<or> hd (dkeys (nodes g)) = root_id g"
      using graph_okD(2) [OF ok] by (simp add: rooted_def)
    then show ?thesis
    proof
      assume "nodes g = []" then show ?thesis by (simp add: pruned_def prune_nodes_def)
    next
      assume hd: "hd (dkeys (nodes g)) = root_id g"
      show ?thesis
        using hd False by (cases "nodes g") (auto simp: pruned_def prune_nodes_def)
    qed
  qed
  with path reach show ?thesis by (auto simp: rooted_def pruned_frame simp flip: set_map)
qed

lemma pruned_node_ok:
  assumes ok: "graph_ok g" and closed: "reply_closed g S" and m: "get_node (pruned S g) k = Some m"
  shows "node_ok (pruned S g) k m"
proof -
  have k: "k \<notin> S" and "map_option (forget_children S) (get_node g k) = Some m"
    using m by (simp_all add: get_pruned split: if_splits)
  then obtain n where n: "get_node g k = Some n" and mn: "m = forget_children S n"
    unfolding map_option_eq_Some by blast
  have old: "node_ok g k n" using graph_okD(4) [OF ok n] .
  have keys: "child_keys (nodes (pruned S g)) k = filter (\<lambda>c. c \<notin> S) (child_keys (nodes g) k)"
    by (simp add: pruned_def child_keys_prune_nodes)
  have "parent_ok (pruned S g) k m"
  proof (cases "k = root_id g")
    case True
    then show ?thesis using old mn by (simp add: node_ok_def parent_ok_def frame_simps)
  next
    case False
    then obtain p pn r where p: "parent_id n = Some p" "get_node g p = Some pn"
        "parent_reference_id n = Some r" "r = p \<or> status_message_id pn = Some r"
      using old by (auto simp: node_ok_def parent_ok_def)
    then have "p \<notin> S"
      using n in_graph_children [OF ok] reply_closedD [OF closed _ k] by blast
    with p have "get_node (pruned S g) p = Some (forget_children S pn)" by (simp add: get_pruned)
    with p False mn show ?thesis by (simp add: parent_ok_def frame_simps)
  qed
  moreover have "get_node (pruned S g) s = None" if "status_message_id n = Some s" for s
    using node_okD(5) [OF ok n that] by (simp add: get_pruned)
  ultimately show ?thesis
    using old k mn keys by (auto simp: node_ok_def frame_simps)
qed

lemma pruned_ok:
  assumes "graph_ok g" and "reply_closed g S"
  shows "graph_ok (pruned S g)"
  using pruned_index_ok [OF graph_okD(1) [OF assms(1)]] pruned_node_ok [OF assms]
    pruned_rooted [OF assms] graph_okD(3) [OF assms(1)]
  by (simp add: graph_ok_def frame_simps)

lemma remove_nodes_ok [inv_intros]:
  "graph_ok g \<Longrightarrow> reply_closed g (set ids) \<Longrightarrow> graph_ok (remove_nodes ids g)"
  using remove_nodes_pruned [OF graph_okD(1) graph_ok_children_ok] pruned_ok by metis

section \<open>Clearing a status\<close>

lemma get_clear_status:
  "get_node (clear_status k g) k' =
     (if k' = k then map_option
        (\<lambda>n. if status_message_id n = None then n else node_clear_status n) (get_node g k)
      else get_node g k')"
  by (cases "get_node g k")
    (auto simp: clear_status_def dict_simps get_node_def modify_node_def split: option.splits)

lemma get_clear_statusD:
  assumes "get_node (clear_status k g) k' = Some m'"
  shows "\<exists>m. get_node g k' = Some m \<and> (m' = m \<or> k' = k \<and> m' = node_clear_status m)"
proof (cases "k' = k")
  case True
  with assms obtain m where "get_node g k = Some m"
    "m' = (if status_message_id m = None then m else node_clear_status m)"
    by (cases "get_node g k") (simp_all add: get_clear_status)
  with True show ?thesis by (cases "status_message_id m") simp_all
qed (use assms in \<open>simp add: get_clear_status\<close>)

lemma clear_status_frame [frame_simps]:
  "root_id (clear_status k g) = root_id g" "identity (clear_status k g) = identity g"
  "dkeys (nodes (clear_status k g)) = dkeys (nodes g)"
  by (simp_all add: clear_status_def modify_node_def split: option.splits)

lemma clear_status_fields [simp]:
  "node_id (node_clear_status n) = node_id n" "scope (node_clear_status n) = scope n"
  "status_message_id (node_clear_status n) = None" "state (node_clear_status n) = ERROR"
  "parent_id (node_clear_status n) = parent_id n"
  "parent_reference_id (node_clear_status n) = parent_reference_id n"
  "session_id (node_clear_status n) = None"
  "children_ids (node_clear_status n) = children_ids n"
  by (simp_all add: node_clear_status_def)

lemma clear_status_pruned:
  assumes "k \<notin> S"
  shows "pruned S (clear_status k g) = clear_status k (pruned S g)"
proof (cases "get_node g k")
  case (Some n)
  have "prune_nodes S (dmodify k node_clear_status ns) = dmodify k node_clear_status (prune_nodes S ns)" for ns
    by (induction ns) (auto simp: prune_nodes_def dmodify_def forget_children_def node_clear_status_def
        mark_error_def update_state_def)
  moreover have "filter P (dpop s d) = dpop s (filter P d)" for P s and d :: "(string, string) dict"
    by (simp add: dpop_filter conj_commute)
  ultimately show ?thesis
    using Some assms by (cases "status_message_id n")
      (simp_all add: clear_status_def get_pruned, simp_all add: pruned_def modify_node_def)
qed (simp add: clear_status_def get_pruned)

lemma clear_status_index_ok:
  assumes idx: "index_ok g"
  shows "index_ok (clear_status k g)"
proof (cases "\<exists>n s. get_node g k = Some n \<and> status_message_id n = Some s")
  case True
  then obtain n s where n: "get_node g k = Some n" "status_message_id n = Some s" by blast
  have st: "status_to_node (clear_status k g) = dpop s (status_to_node g)"
    using n by (simp add: clear_status_def frame_simps)
  have "dget (dpop s (status_to_node g)) s' = Some k' \<longleftrightarrow> s' \<noteq> s \<and> dget (status_to_node g) s' = Some k'" for s' k'
    by (simp add: delete_conv')
  moreover have "(\<exists>m. get_node (clear_status k g) k' = Some m \<and> status_message_id m = Some s') \<longleftrightarrow>
      k' \<noteq> k \<and> (\<exists>m. get_node g k' = Some m \<and> status_message_id m = Some s')" for k' s'
    using n by (simp add: get_clear_status)
  moreover have "(s' \<noteq> s \<and> dget (status_to_node g) s' = Some k') \<longleftrightarrow>
      k' \<noteq> k \<and> (\<exists>m. get_node g k' = Some m \<and> status_message_id m = Some s')" for s' k'
  proof (cases "k' = k")
    case True
    then show ?thesis using index_okD(3) [OF idx, of s' k] n by auto
  next
    case False
    then show ?thesis using index_okD(3) [OF idx, of s' k'] index_okD(3) [OF idx, of s k] n by auto
  qed
  ultimately show ?thesis
    using idx unfolding index_ok_def frame_simps st by (simp add: distinct_delete)
next
  case False
  then have "clear_status k g = g" by (auto simp: clear_status_def split: option.splits)
  with idx show ?thesis by simp
qed

lemma clear_status_children_ok:
  assumes ok: "children_ok g"
  shows "children_ok (clear_status k g)"
proof -
  have "\<exists>m. get_node (clear_status k g) c = Some m \<and> parent_id m = Some k'"
    if n: "get_node (clear_status k g) k' = Some n" and c: "c \<in> set (children_ids n)" for k' n c
  proof -
    obtain n' where n': "get_node g k' = Some n'" "children_ids n = children_ids n'"
      using get_clear_statusD [OF n] by auto
    from children_okD [OF ok n'(1)] c n'(2)
    obtain m where "get_node g c = Some m" "parent_id m = Some k'" by auto
    then show ?thesis by (cases "c = k") (simp_all add: get_clear_status)
  qed
  then show ?thesis unfolding children_ok_def by blast
qed

lemma clear_status_ok [inv_intros]:
  assumes ok: "graph_ok g"
    and unused: "\<And>s k' m. get_node g k = Some n \<Longrightarrow> status_message_id n = Some s \<Longrightarrow>
      get_node g k' = Some m \<Longrightarrow> parent_reference_id m \<noteq> Some s"
    and n: "get_node g k = Some n"
  shows "graph_ok (clear_status k g)"
proof -
  let ?h = "clear_status k g"
  have none: "get_node ?h s = None \<longleftrightarrow> get_node g s = None" for s
    by (simp add: get_clear_status)
  have keys: "child_keys (nodes ?h) p = child_keys (nodes g) p" for p
  proof -
    have "child_keys (dmodify k node_clear_status ns) p = child_keys ns p" for ns
      by (rule child_keys_dmodify) simp
    then show ?thesis by (simp add: clear_status_def modify_node_def split: option.split)
  qed
  have "node_ok ?h k' m'" if h: "get_node ?h k' = Some m'" for k' m'
  proof -
    obtain m where m: "get_node g k' = Some m"
      and m': "m' = m \<or> (k' = k \<and> m' = node_clear_status m)"
      using get_clear_statusD [OF h] by blast
    have old: "node_ok g k' m" using graph_okD(4) [OF ok m] .
    have "parent_ok ?h k' m'"
    proof (cases "k' = root_id g")
      case True
      then show ?thesis using old m' by (auto simp: node_ok_def parent_ok_def frame_simps)
    next
      case False
      then obtain p pn r where p: "parent_id m = Some p" "get_node g p = Some pn"
          "parent_reference_id m = Some r" "r = p \<or> status_message_id pn = Some r"
        using old by (auto simp: node_ok_def parent_ok_def)
      have "\<exists>pn'. get_node ?h p = Some pn' \<and> (r = p \<or> status_message_id pn' = Some r)"
      proof (cases "p = k")
        case True
        then have "r = p" using p unused [OF n _ m, of r] n by auto
        with p True show ?thesis by (auto simp: get_clear_status)
      qed (use p in \<open>simp add: get_clear_status\<close>)
      with p False m' show ?thesis by (auto simp: parent_ok_def frame_simps)
    qed
    with old m' show ?thesis by (auto simp: node_ok_def none keys frame_simps)
  qed
  moreover have "graph_children ?h = graph_children g"
    by (rule ext) (simp add: graph_children_def get_clear_status split: option.split)
  then have "rooted ?h"
    using graph_okD(2) [OF ok] unfolding rooted_def frame_simps
    by (metis frame_simps(10) map_is_Nil_conv)
  ultimately show ?thesis
    using clear_status_index_ok [OF graph_okD(1) [OF ok]] graph_okD(3) [OF ok]
    by (simp add: graph_ok_def frame_simps)
qed

end
