(* ===== verification/Json.thy ===== *)
theory Json
  imports Prelude
begin

text \<open>
  The values Python's \<open>json\<close> module decodes to, and \<open>str()\<close> on them. A float carries the
  text Python prints for it. \<open>str()\<close> of a list or a dictionary is a parameter, since the
  code only ever uses it as an opaque identifier.
\<close>

datatype json =
    JNull
  | JBool bool
  | JInt int
  | JFloat string
  | JStr string
  | JArr "json list"
  | JObj "(string \<times> json) list"

fun is_object :: "json \<Rightarrow> bool" where
  "is_object (JObj _) = True"
| "is_object _ = False"

definition digit_char :: "nat \<Rightarrow> char" where
  "digit_char d = char_of (48 + d)"

fun nat_str :: "nat \<Rightarrow> string" where
  "nat_str n = (if n < 10 then [digit_char n] else nat_str (n div 10) @ [digit_char (n mod 10)])"

declare nat_str.simps [simp del]

definition int_str :: "int \<Rightarrow> string" where
  "int_str i = (if i < 0 then CHR ''-'' # nat_str (nat (- i)) else nat_str (nat i))"

fun py_str :: "(json \<Rightarrow> string) \<Rightarrow> json \<Rightarrow> string" where
  "py_str rp JNull = ''None''"
| "py_str rp (JBool b) = (if b then ''True'' else ''False'')"
| "py_str rp (JInt i) = int_str i"
| "py_str rp (JFloat t) = t"
| "py_str rp (JStr s) = s"
| "py_str rp j = rp j"

lemma nat_str_nonempty [simp]: "nat_str n \<noteq> []"
  by (subst nat_str.simps) simp

lemma int_str_nonempty [simp]: "int_str i \<noteq> []"
  by (simp add: int_str_def)

lemma digit_char_inj: "a < 10 \<Longrightarrow> b < 10 \<Longrightarrow> digit_char a = digit_char b \<longleftrightarrow> a = b"
  by (simp add: digit_char_def char_of_eq_iff take_bit_eq_mod)

lemma nat_str_inj: "nat_str m = nat_str n \<Longrightarrow> m = n"
proof (induction m arbitrary: n rule: nat_str.induct)
  case (1 m)
  have long: "length (nat_str k) = 1 \<longleftrightarrow> k < 10" for k
    by (subst nat_str.simps) (simp add: nat_str_nonempty)
  show ?case
  proof (cases "m < 10")
    case True
    then have "n < 10" using 1(2) long [of m] long [of n] by simp
    with True 1(2) show ?thesis by (simp add: nat_str.simps [of m] nat_str.simps [of n] digit_char_inj)
  next
    case False
    then have "\<not> n < 10" using 1(2) long [of m] long [of n] by auto
    with False 1(2) have "nat_str (m div 10) = nat_str (n div 10)" "m mod 10 = n mod 10"
      by (simp_all add: nat_str.simps [of m] nat_str.simps [of n] digit_char_inj)
    with 1(1) [OF False] show ?thesis by (metis div_mult_mod_eq)
  qed
qed

text \<open>\<open>data.get(key)\<close> on a decoded object: a missing key reads as \<open>None\<close>.\<close>

definition jget :: "(string \<times> json) list \<Rightarrow> string \<Rightarrow> json" where
  "jget fields k = (case dget fields k of None \<Rightarrow> JNull | Some v \<Rightarrow> v)"

definition opt_json :: "string option \<Rightarrow> json" where
  "opt_json s = (case s of None \<Rightarrow> JNull | Some t \<Rightarrow> JStr t)"

lemma opt_json_simps [simp]: "opt_json None = JNull" "opt_json (Some s) = JStr s"
  by (simp_all add: opt_json_def)

end
