(* ===== verification/Tree_Snapshot.thy ===== *)
theory Tree_Snapshot
  imports Graph_Removal Json
begin

text \<open>
  \<open>messaging/trees/snapshot.py\<close> and the snapshot half of \<open>graph.py\<close>: the persisted form of a
  conversation tree, its JSON form, and the validation that rebuilds a graph from it. A
  snapshot comes from a file anybody may have edited, so the rebuilding is modelled on
  arbitrary JSON values, and may raise.
\<close>

section \<open>Snapshots\<close>

record tree_snapshot =
  snap_scope :: message_scope
  snap_root :: string
  snap_nodes :: "(string, json) dict"

definition snap_identity :: "tree_snapshot \<Rightarrow> tree_identity" where
  "snap_identity s = \<lparr>identity_scope = snap_scope s, identity_root = snap_root s\<rparr>"

definition scope_json :: "message_scope \<Rightarrow> json" where
  "scope_json sc = JObj [(''platform'', JStr (platform sc)), (''chat_id'', JStr (chat_id sc))]"

definition snapshot_to_json :: "tree_snapshot \<Rightarrow> json" where
  "snapshot_to_json s =
     JObj [(''scope'', scope_json (snap_scope s)),
           (''root_id'', JStr (snap_root s)),
           (''nodes'', JObj (snap_nodes s))]"

text \<open>A scope read from an object with \<open>platform\<close> and \<open>chat_id\<close>, as the current and the
  older format both store it.\<close>

definition scope_from_fields :: "(json \<Rightarrow> string) \<Rightarrow> json \<Rightarrow> message_scope option" where
  "scope_from_fields rp j =
     (case j of
        JObj obj \<Rightarrow>
          (let p = jget obj ''platform''; c = jget obj ''chat_id'' in
           if p = JNull \<or> c = JNull then None
           else Some \<lparr>platform = py_str rp p, chat_id = py_str rp c\<rparr>)
      | _ \<Rightarrow> None)"

definition node_scope_from_snapshot :: "(json \<Rightarrow> string) \<Rightarrow> (string \<times> json) list \<Rightarrow> message_scope option" where
  "node_scope_from_snapshot rp data = scope_from_fields rp (jget data ''incoming'')"

definition legacy_scope :: "(json \<Rightarrow> string) \<Rightarrow> string \<Rightarrow> (string \<times> json) list \<Rightarrow> message_scope option" where
  "legacy_scope rp root ns =
     (let named = (\<lambda>j. case j of JObj f \<Rightarrow> py_str rp (jget f ''node_id'') = root | _ \<Rightarrow> False);
          found = (case dget ns root of
                     Some (JObj f) \<Rightarrow> Some (JObj f)
                   | _ \<Rightarrow> find named (map snd ns))
      in case found of Some (JObj f) \<Rightarrow> node_scope_from_snapshot rp f | _ \<Rightarrow> None)"

definition snapshot_from_json :: "(json \<Rightarrow> string) \<Rightarrow> json \<Rightarrow> tree_snapshot option" where
  "snapshot_from_json rp j =
     (case j of
        JObj data \<Rightarrow>
          (case (jget data ''root_id'', jget data ''nodes'') of
             (JNull, _) \<Rightarrow> None
           | (root, JObj ns) \<Rightarrow>
               (let r = py_str rp root;
                    sc = (case scope_from_fields rp (jget data ''scope'') of
                            None \<Rightarrow> legacy_scope rp r ns | Some sc \<Rightarrow> Some sc)
                in case sc of
                     None \<Rightarrow> None
                   | Some sc \<Rightarrow> Some \<lparr>snap_scope = sc, snap_root = r, snap_nodes = ns\<rparr>)
           | _ \<Rightarrow> None)
      | _ \<Rightarrow> None)"

definition node_lookup_ids :: "(json \<Rightarrow> string) \<Rightarrow> string \<times> json \<Rightarrow> string list" where
  "node_lookup_ids rp kj =
     (case kj of (key, j) \<Rightarrow>
        key # (case j of
                 JObj data \<Rightarrow>
                   map (py_str rp) (filter (\<lambda>v. v \<noteq> JNull)
                     [jget data ''node_id'', jget data ''status_message_id''])
               | _ \<Rightarrow> []))"

definition lookup_ids :: "(json \<Rightarrow> string) \<Rightarrow> tree_snapshot \<Rightarrow> string set" where
  "lookup_ids rp s = set (concat (map (node_lookup_ids rp) (snap_nodes s)))"

section \<open>All trees\<close>

type_synonym conversation_snapshot = "(tree_identity, tree_snapshot) dict"

definition conversation_to_json :: "conversation_snapshot \<Rightarrow> json" where
  "conversation_to_json c = JObj [(''trees'', JArr (map (\<lambda>(_, t). snapshot_to_json t) c))]"

definition with_tree :: "tree_snapshot \<Rightarrow> conversation_snapshot \<Rightarrow> conversation_snapshot" where
  "with_tree s c = dset (snap_identity s) s c"

definition without_tree :: "tree_identity \<Rightarrow> conversation_snapshot \<Rightarrow> conversation_snapshot" where
  "without_tree i c = dpop i c"

definition without_scope :: "message_scope \<Rightarrow> conversation_snapshot \<Rightarrow> conversation_snapshot" where
  "without_scope sc c = filter (\<lambda>(i, t). identity_scope i \<noteq> sc) c"

definition load_trees :: "(json \<Rightarrow> string) \<Rightarrow> json list \<Rightarrow> conversation_snapshot \<Rightarrow> conversation_snapshot" where
  "load_trees rp js c =
     fold (\<lambda>j c. case snapshot_from_json rp j of None \<Rightarrow> c | Some s \<Rightarrow> with_tree s c) js c"

definition conversation_from_json :: "(json \<Rightarrow> string) \<Rightarrow> json \<Rightarrow> conversation_snapshot" where
  "conversation_from_json rp j =
     (case j of
        JObj data \<Rightarrow>
          (case dget data ''trees'' of
             None \<Rightarrow> []
           | Some (JObj ts) \<Rightarrow> load_trees rp (map snd ts) []
           | Some (JArr ts) \<Rightarrow> load_trees rp ts []
           | Some _ \<Rightarrow> [])
      | _ \<Rightarrow> [])"

section \<open>One node\<close>

datatype snapshot_error =
    Missing_key string
  | Invalid_state
  | No_status_message
  | Id_type string
  | Id_empty string
  | Id_required string
  | Not_an_object
  | Cross_scope_node
  | Key_mismatch
  | Same_prompt_and_status
  | Duplicate_node
  | Duplicate_reference
  | Root_has_parent
  | No_valid_parent
  | No_parent_reference
  | Invalid_parent_reference
  | Disconnected

fun state_value :: "message_state \<Rightarrow> string" where
  "state_value PENDING = ''pending''"
| "state_value IN_PROGRESS = ''in_progress''"
| "state_value COMPLETED = ''completed''"
| "state_value ERROR = ''error''"

definition state_of_value :: "json \<Rightarrow> snapshot_error + message_state" where
  "state_of_value j =
     (case find (\<lambda>st. j = JStr (state_value st)) [PENDING, IN_PROGRESS, COMPLETED, ERROR] of
        None \<Rightarrow> Inl Invalid_state | Some st \<Rightarrow> Inr st)"

definition node_to_snapshot :: "message_node \<Rightarrow> json" where
  "node_to_snapshot n =
     JObj [(''node_id'', JStr (node_id n)),
           (''status_message_id'', opt_json (status_message_id n)),
           (''state'', JStr (state_value (state n))),
           (''parent_id'', opt_json (parent_id n)),
           (''parent_reference_id'', opt_json (parent_reference_id n)),
           (''session_id'', opt_json (session_id n))]"

definition optional_id :: "json \<Rightarrow> string \<Rightarrow> snapshot_error + string option" where
  "optional_id v name =
     (case v of
        JNull \<Rightarrow> Inr None
      | JStr s \<Rightarrow> (if s = [] then Inl (Id_empty name) else Inr (Some s))
      | JInt i \<Rightarrow> Inr (Some (int_str i))
      | _ \<Rightarrow> Inl (Id_type name))"

definition required_id :: "json \<Rightarrow> string \<Rightarrow> snapshot_error + string" where
  "required_id v name =
     bind_result (optional_id v name)
       (\<lambda>r. case r of None \<Rightarrow> Inl (Id_required name) | Some s \<Rightarrow> Inr s)"

definition node_from_snapshot ::
  "(string \<times> json) list \<Rightarrow> message_scope \<Rightarrow> snapshot_error + message_node" where
  "node_from_snapshot data sc =
     (case dget data ''state'' of
        None \<Rightarrow> Inl (Missing_key ''state'')
      | Some v \<Rightarrow>
     bind_result (state_of_value v) (\<lambda>st.
     bind_result (optional_id (jget data ''status_message_id'') ''status_message_id'') (\<lambda>status.
     if runnable st \<and> status = None then Inl No_status_message
     else
     bind_result (optional_id (jget data ''parent_id'') ''parent_id'') (\<lambda>parent.
     bind_result (optional_id (jget data ''parent_reference_id'') ''parent_reference_id'') (\<lambda>reference.
     bind_result (required_id (jget data ''node_id'') ''node_id'') (\<lambda>nid.
     bind_result (optional_id (jget data ''session_id'') ''session_id'') (\<lambda>session.
     Inr \<lparr>node_id = nid, scope = sc, prompt = [], status_message_id = status, state = st,
          parent_id = parent,
          parent_reference_id = (if reference = None then parent else reference),
          session_id = session, children_ids = []\<rparr>)))))))"

section \<open>The graph's snapshot\<close>

definition graph_snapshot :: "message_graph \<Rightarrow> tree_snapshot" where
  "graph_snapshot g =
     \<lparr>snap_scope = identity_scope (identity g), snap_root = root_id g,
      snap_nodes = map (\<lambda>(k, n). (k, node_to_snapshot n)) (nodes g)\<rparr>"

text \<open>One entry: the checks that need no other node.\<close>

definition load_node ::
  "(json \<Rightarrow> string) \<Rightarrow> message_scope \<Rightarrow> string \<Rightarrow> json \<Rightarrow> snapshot_error + message_node" where
  "load_node rp sc key j =
     (case j of
        JObj data \<Rightarrow>
          (if node_scope_from_snapshot rp data \<notin> {None, Some sc} then Inl Cross_scope_node
           else bind_result (node_from_snapshot data sc) (\<lambda>n.
             if node_id n \<noteq> key then Inl Key_mismatch else Inr n))
      | _ \<Rightarrow> Inl Not_an_object)"

text \<open>The loop over the entries; the second component of the state owns each reference.\<close>

definition claim_references ::
  "message_node \<Rightarrow> (string, string) dict \<Rightarrow> snapshot_error + (string, string) dict" where
  "claim_references n owner =
     (let refs = node_id n # (case status_message_id n of None \<Rightarrow> [] | Some s \<Rightarrow> [s]) in
      if \<exists>r \<in> set refs. dget owner r \<notin> {None, Some (node_id n)} then Inl Duplicate_reference
      else Inr (fold (\<lambda>r d. dset r (node_id n) d) refs owner))"

definition load_entry ::
  "(json \<Rightarrow> string) \<Rightarrow> string \<times> json \<Rightarrow> message_graph \<times> (string, string) dict
     \<Rightarrow> snapshot_error + message_graph \<times> (string, string) dict" where
  "load_entry rp entry st =
     (case (entry, st) of ((key, j), (g, owner)) \<Rightarrow>
        if key = root_id g then Inr (g, owner)
        else bind_result (load_node rp (identity_scope (identity g)) key j) (\<lambda>n.
          if status_message_id n = Some (node_id n) then Inl Same_prompt_and_status
          else if get_node g (node_id n) \<noteq> None then Inl Duplicate_node
          else bind_result (claim_references n owner) (\<lambda>owner.
            Inr (g\<lparr>nodes := dset (node_id n) n (nodes g),
                   status_to_node :=
                     (case status_message_id n of
                        None \<Rightarrow> status_to_node g
                      | Some s \<Rightarrow> dset s (node_id n) (status_to_node g))\<rparr>, owner))))"

fun load_entries ::
  "(json \<Rightarrow> string) \<Rightarrow> (string \<times> json) list \<Rightarrow> message_graph \<times> (string, string) dict
     \<Rightarrow> snapshot_error + message_graph \<times> (string, string) dict" where
  "load_entries rp [] st = Inr st"
| "load_entries rp (e # es) st = bind_result (load_entry rp e st) (load_entries rp es)"

text \<open>The loop that checks the parents and lists every node with its parent.\<close>

definition link_node :: "string \<Rightarrow> message_graph \<Rightarrow> snapshot_error + message_graph" where
  "link_node k g =
     (if k = root_id g then Inr g
      else case get_node g k of
        None \<Rightarrow> Inr g
      | Some n \<Rightarrow>
          (case parent_id n of
             None \<Rightarrow> Inl No_valid_parent
           | Some p \<Rightarrow>
               if get_node g p = None then Inl No_valid_parent
               else case parent_reference_id n of
                 None \<Rightarrow> Inl No_parent_reference
               | Some r \<Rightarrow>
                   (case resolve_reference g r of
                      None \<Rightarrow> Inl Invalid_parent_reference
                    | Some (owner, _) \<Rightarrow>
                        if node_id owner \<noteq> p then Inl Invalid_parent_reference
                        else Inr (modify_node p
                               (\<lambda>pn. pn\<lparr>children_ids := children_ids pn @ [k]\<rparr>) g))))"

fun link_nodes :: "string list \<Rightarrow> message_graph \<Rightarrow> snapshot_error + message_graph" where
  "link_nodes [] g = Inr g"
| "link_nodes (k # ks) g = bind_result (link_node k g) (link_nodes ks)"

text \<open>
  \<open>MessageTreeGraph.from_snapshot\<close>. The last check walks the children from the root; it is
  the only step that might not return, and \<open>None\<close> is then the value of the whole call.
\<close>

definition check_connected :: "message_graph \<Rightarrow> (snapshot_error + message_graph) option" where
  "check_connected g =
     (case get_descendants g (root_id g) of
        None \<Rightarrow> None
      | Some ds \<Rightarrow>
          Some (if set ds \<noteq> set (dkeys (nodes g)) then Inl Disconnected else Inr g))"

definition load_graph :: "(json \<Rightarrow> string) \<Rightarrow> tree_snapshot \<Rightarrow> snapshot_error + message_graph" where
  "load_graph rp s =
     (case dget (snap_nodes s) (snap_root s) of
        None \<Rightarrow> Inl (Missing_key (snap_root s))
      | Some j \<Rightarrow>
     bind_result (load_node rp (snap_scope s) (snap_root s) j) (\<lambda>root.
     case new_graph root of
        Inl _ \<Rightarrow> Inl Same_prompt_and_status
      | Inr g \<Rightarrow>
     bind_result (load_entries rp (snap_nodes s)
       (g, (node_id root, node_id root) #
           (case status_message_id root of None \<Rightarrow> [] | Some st \<Rightarrow> [(st, node_id root)]))) (\<lambda>(g, _).
     if parent_id root \<noteq> None \<or> parent_reference_id root \<noteq> None then Inl Root_has_parent
     else link_nodes (dkeys (nodes g)) g)))"

definition graph_from_snapshot ::
  "(json \<Rightarrow> string) \<Rightarrow> tree_snapshot \<Rightarrow> (snapshot_error + message_graph) option" where
  "graph_from_snapshot rp s =
     (case load_graph rp s of Inl e \<Rightarrow> Some (Inl e) | Inr g \<Rightarrow> check_connected g)"

end
