(* ===== verification/Message_Tree.thy ===== *)
theory Message_Tree
  imports Tree_Snapshot
begin

text \<open>
  \<open>messaging/trees/runtime.py\<close> and \<open>transitions.py\<close>: one conversation tree with its queue and
  its active claim. Every operation of \<open>MessageTree\<close> runs under the tree's lock, so each is one
  atomic step. An operation returns the tree afterwards and either its result or the error it
  raised: Python keeps the changes made before a \<open>raise\<close>, so the tree afterwards matters in
  both cases. Operations that walk the graph are optional: \<open>None\<close> would be a walk that never
  ends. The claim id, a fresh uuid in the code, is an argument, and so is the iteration order
  of Python's sets.
\<close>

section \<open>Transition values\<close>

datatype admission_rejection = DUPLICATE | PARENT_REMOVED

record ui_target =
  ui_scope :: message_scope
  ui_node :: string
  ui_status :: string

record node_claim =
  claim_identity :: tree_identity
  claim_id :: string
  claim_node :: ui_target
  claim_prompt :: string
  parent_session_id :: "string option"

record queue_entry =
  entry_node :: ui_target
  entry_position :: nat

record queue_decision =
  dec_claim :: "node_claim option"
  dec_position :: "nat option"
  dec_snapshot :: "tree_snapshot option"
  dec_rejection :: "admission_rejection option"

definition accepted :: "queue_decision \<Rightarrow> bool" where
  "accepted d \<longleftrightarrow> dec_snapshot d \<noteq> None"

record completion_result =
  next_claim :: "node_claim option"
  completion_queue :: "queue_entry list"

record tree_cancellation =
  cancelled_nodes :: "ui_target list"
  cancelled_claim :: "node_claim option"
  cancel_queue_update :: "queue_entry list option"

record subtree_removal =
  removal_cancellation :: tree_cancellation
  removed_message_ids :: "string set"
  removed_entire_tree :: bool

record reply_target =
  reply_node :: string
  reply_reference :: string
  reply_kind :: reference_kind
  reply_position :: "nat option"

record node_view_data =
  view_identity :: tree_identity
  view_node :: string
  view_state :: message_state
  view_parent :: "string option"
  view_session :: "string option"

record failure_result =
  affected :: "ui_target list"
  failure_queue_update :: "queue_entry list option"
  failure_snapshot :: "tree_snapshot option"

section \<open>The tree\<close>

record active_claim =
  claim :: node_claim
  cancellation_requested :: bool

record message_tree =
  graph :: message_graph
  queue :: node_queue
  active :: "active_claim option"
  restored_snapshot :: "tree_snapshot option"
  restored_stale_targets :: "ui_target list"

definition tree_of_graph :: "message_graph \<Rightarrow> message_tree" where
  "tree_of_graph g =
     \<lparr>graph = g, queue = empty_queue, active = None, restored_snapshot = None,
      restored_stale_targets = []\<rparr>"

definition new_tree :: "message_node \<Rightarrow> tree_error + message_tree" where
  "new_tree root = bind_result (new_graph root) (\<lambda>g. Inr (tree_of_graph g))"

definition tree_identity_of :: "message_tree \<Rightarrow> tree_identity" where
  "tree_identity_of t = identity (graph t)"

definition tree_node :: "message_tree \<Rightarrow> string \<Rightarrow> message_node option" where
  "tree_node t nid = get_node (graph t) nid"

text \<open>Changing one node, the queue.\<close>

definition on_node :: "string \<Rightarrow> (message_node \<Rightarrow> message_node) \<Rightarrow> message_tree \<Rightarrow> message_tree" where
  "on_node nid f t = t\<lparr>graph := modify_node nid f (graph t)\<rparr>"

definition dequeue_node :: "string \<Rightarrow> message_tree \<Rightarrow> bool \<times> message_tree" where
  "dequeue_node nid t = (case queue_remove nid (queue t) of (changed, q) \<Rightarrow> (changed, t\<lparr>queue := q\<rparr>))"

definition ui_target_of :: "message_node \<Rightarrow> tree_error + ui_target" where
  "ui_target_of n =
     (case status_message_id n of
        None \<Rightarrow> Inl No_status
      | Some s \<Rightarrow> Inr \<lparr>ui_scope = scope n, ui_node = node_id n, ui_status = s\<rparr>)"

fun entries_from :: "message_graph \<Rightarrow> string list \<Rightarrow> queue_entry list \<Rightarrow> tree_error + queue_entry list" where
  "entries_from g [] entries = Inr entries"
| "entries_from g (nid # rest) entries =
     (case get_node g nid of
        None \<Rightarrow> entries_from g rest entries
      | Some n \<Rightarrow>
          if state n \<noteq> PENDING then entries_from g rest entries
          else bind_result (ui_target_of n) (\<lambda>target.
            entries_from g rest
              (entries @ [\<lparr>entry_node = target, entry_position = length entries + 1\<rparr>])))"

definition queue_entries :: "message_tree \<Rightarrow> tree_error + queue_entry list" where
  "queue_entries t = entries_from (graph t) (queue_items (queue t)) []"

section \<open>Admission and completion\<close>

definition claim_node_now :: "string \<Rightarrow> message_node \<Rightarrow> message_tree \<Rightarrow> message_tree \<times> (tree_error + node_claim)" where
  "claim_node_now cid n t =
     (let t = on_node (node_id n) (update_state IN_PROGRESS None) t
      in case ui_target_of n of
           Inl e \<Rightarrow> (t, Inl e)
         | Inr target \<Rightarrow>
             (let c = \<lparr>claim_identity = tree_identity_of t, claim_id = cid, claim_node = target,
                       claim_prompt = prompt n,
                       parent_session_id = get_parent_session_id (graph t) (node_id n)\<rparr>
              in (t\<lparr>active := Some \<lparr>claim = c, cancellation_requested = False\<rparr>\<rparr>, Inr c)))"

definition rejected :: "admission_rejection \<Rightarrow> queue_decision" where
  "rejected why = \<lparr>dec_claim = None, dec_position = None, dec_snapshot = None, dec_rejection = Some why\<rparr>"

definition enqueue_or_claim ::
  "string \<Rightarrow> string \<Rightarrow> message_tree \<Rightarrow> message_tree \<times> (tree_error + queue_decision)" where
  "enqueue_or_claim cid nid t =
     (case tree_node t nid of
        None \<Rightarrow> (t, Inr (rejected DUPLICATE))
      | Some n \<Rightarrow>
          if state n \<noteq> PENDING then (t, Inr (rejected DUPLICATE))
          else if active t = None then
            (case claim_node_now cid n t of
               (t, Inl e) \<Rightarrow> (t, Inl e)
             | (t, Inr c) \<Rightarrow>
                 (t, Inr \<lparr>dec_claim = Some c, dec_position = None,
                          dec_snapshot = Some (graph_snapshot (graph t)), dec_rejection = None\<rparr>))
          else
            (case queue_put nid (queue t) of
               (False, q) \<Rightarrow> (t\<lparr>queue := q\<rparr>, Inr (rejected DUPLICATE))
             | (True, q) \<Rightarrow>
                 (t\<lparr>queue := q\<rparr>,
                  Inr \<lparr>dec_claim = None, dec_position = Some (queue_size q),
                       dec_snapshot = Some (graph_snapshot (graph t)), dec_rejection = None\<rparr>)))"

definition add_and_enqueue ::
  "string \<Rightarrow> string \<Rightarrow> message_scope \<Rightarrow> string \<Rightarrow> string \<Rightarrow> string \<Rightarrow> string \<Rightarrow> message_tree
     \<Rightarrow> message_tree \<times> (tree_error + queue_decision)" where
  "add_and_enqueue cid nid sc pr status parent reference t =
     (case add_node nid sc pr status parent reference (graph t) of
        Inl e \<Rightarrow> (t, Inl e)
      | Inr g \<Rightarrow> enqueue_or_claim cid nid (t\<lparr>graph := g\<rparr>))"

text \<open>The loop \<open>while node_id := self._queue.pop()\<close>: the queue gets shorter in each round.\<close>

function claim_next :: "string \<Rightarrow> message_tree \<Rightarrow> message_tree \<times> (tree_error + node_claim option)" where
  "claim_next cid t =
     (case queue_pop (queue t) of
        (None, q) \<Rightarrow> (t\<lparr>queue := q\<rparr>, Inr None)
      | (Some nid, q) \<Rightarrow>
          (let t = t\<lparr>queue := q\<rparr>
           in if nid = [] then (t, Inr None)
              else case tree_node t nid of
                     None \<Rightarrow> claim_next cid t
                   | Some n \<Rightarrow>
                       if state n = PENDING then
                         (case claim_node_now cid n t of
                            (t, Inl e) \<Rightarrow> (t, Inl e)
                          | (t, Inr c) \<Rightarrow> (t, Inr (Some c)))
                       else claim_next cid t))"
  by pat_completeness auto

termination claim_next
  by (relation "measure (\<lambda>(cid, t). length (q_deque (queue t)))")
    (auto simp: queue_pop_def split: list.splits)

declare claim_next.simps [simp del]

definition finish_and_claim_next ::
  "string \<Rightarrow> string \<Rightarrow> message_tree \<Rightarrow> message_tree \<times> (tree_error + completion_result)" where
  "finish_and_claim_next cid finished t =
     (if (case active t of None \<Rightarrow> True | Some a \<Rightarrow> claim_id (claim a) \<noteq> finished) then
        (t, bind_result (queue_entries t)
              (\<lambda>entries. Inr \<lparr>next_claim = None, completion_queue = entries\<rparr>))
      else
        (case claim_next cid (t\<lparr>active := None\<rparr>) of
           (t, Inl e) \<Rightarrow> (t, Inl e)
         | (t, Inr c) \<Rightarrow>
             (t, bind_result (queue_entries t)
                   (\<lambda>entries. Inr \<lparr>next_claim = c, completion_queue = entries\<rparr>))))"

section \<open>Cancellation\<close>

text \<open>The active claim, when its node is among the given ones, and the request to cancel it.\<close>

definition claim_on :: "(string \<Rightarrow> bool) \<Rightarrow> message_tree \<Rightarrow> node_claim option" where
  "claim_on P t =
     (case active t of
        None \<Rightarrow> None
      | Some a \<Rightarrow> if P (ui_node (claim_node (claim a))) then Some (claim a) else None)"

definition request_cancellation :: "message_tree \<Rightarrow> message_tree" where
  "request_cancellation t = t\<lparr>active := map_option (\<lambda>a. a\<lparr>cancellation_requested := True\<rparr>) (active t)\<rparr>"

definition queue_update_if :: "bool \<Rightarrow> message_tree \<Rightarrow> tree_error + queue_entry list option" where
  "queue_update_if changed t =
     (if changed then bind_result (queue_entries t) (\<lambda>es. Inr (Some es)) else Inr None)"

definition cancel_node :: "string \<Rightarrow> message_tree \<Rightarrow> message_tree \<times> (tree_error + tree_cancellation)" where
  "cancel_node nid t =
     (let node = tree_node t nid;
          cl = claim_on (\<lambda>k. k = nid) t;
          t = (if cl = None then t else request_cancellation t)
      in case node of
           None \<Rightarrow>
             (t, Inr \<lparr>cancelled_nodes = [], cancelled_claim = cl, cancel_queue_update = None\<rparr>)
         | Some n \<Rightarrow>
             (case dequeue_node nid t of
                (changed, t) \<Rightarrow>
                  (let t = (if runnable (state n) then on_node nid mark_error t else t);
                       cancelled =
                         (if runnable (state n) \<or> state n = ERROR \<and> cl \<noteq> None
                          then bind_result (ui_target_of n) (\<lambda>u. Inr [u]) else Inr [])
                   in (t, bind_result cancelled (\<lambda>us.
                            bind_result (queue_update_if changed t) (\<lambda>update.
                              Inr \<lparr>cancelled_nodes = us, cancelled_claim = cl,
                                   cancel_queue_update = update\<rparr>))))))"

text \<open>
  The two loops of \<open>cancel_all\<close> over the queue and over all nodes: a node that is runnable,
  and not to be skipped, becomes an error. The accumulator is the set \<open>seen\<close> and the list of
  targets.
\<close>

fun cancel_each ::
  "string set \<Rightarrow> string list \<Rightarrow> string set \<times> ui_target list \<Rightarrow> message_tree
     \<Rightarrow> message_tree \<times> (tree_error + string set \<times> ui_target list)" where
  "cancel_each skip [] acc t = (t, Inr acc)"
| "cancel_each skip (nid # rest) (seen, targets) t =
     (case tree_node t nid of
        None \<Rightarrow> cancel_each skip rest (seen, targets) t
      | Some n \<Rightarrow>
          if nid \<in> skip \<or> \<not> runnable (state n) then cancel_each skip rest (seen, targets) t
          else (case ui_target_of n of
                  Inl e \<Rightarrow> (on_node nid mark_error t, Inl e)
                | Inr u \<Rightarrow>
                    cancel_each skip rest (insert nid seen, targets @ [u]) (on_node nid mark_error t)))"

text \<open>The active node in \<open>cancel_all\<close>: cancelled when runnable, reported again when it is an
  error already.\<close>

definition cancel_active ::
  "message_tree \<Rightarrow> message_tree \<times> (tree_error + string set \<times> ui_target list)" where
  "cancel_active t =
     (case active t of
        None \<Rightarrow> (t, Inr ({}, []))
      | Some a \<Rightarrow>
          (let t = request_cancellation t in
           case tree_node t (ui_node (claim_node (claim a))) of
             None \<Rightarrow> (t, Inr ({}, []))
           | Some n \<Rightarrow>
               if runnable (state n) then
                 (on_node (node_id n) mark_error t,
                  bind_result (ui_target_of n) (\<lambda>u. Inr ({node_id n}, [u])))
               else if state n = ERROR then
                 (t, bind_result (ui_target_of n) (\<lambda>u. Inr ({node_id n}, [u])))
               else (t, Inr ({node_id n}, []))))"

definition cancel_all :: "message_tree \<Rightarrow> message_tree \<times> (tree_error + tree_cancellation)" where
  "cancel_all t =
     (let cl = map_option claim (active t) in
      case cancel_active t of
        (t, Inl e) \<Rightarrow> (t, Inl e)
      | (t, Inr acc) \<Rightarrow>
          (case queue_drain (queue t) of
             (queued, q) \<Rightarrow>
               (case cancel_each {} queued acc (t\<lparr>queue := q\<rparr>) of
                  (t, Inl e) \<Rightarrow> (t, Inl e)
                | (t, Inr (seen, targets)) \<Rightarrow>
                    (case cancel_each seen (map node_id (all_nodes (graph t))) (seen, targets) t of
                       (t, Inl e) \<Rightarrow> (t, Inl e)
                     | (t, Inr (_, targets)) \<Rightarrow>
                         (t, Inr \<lparr>cancelled_nodes = targets, cancelled_claim = cl,
                                  cancel_queue_update =
                                    (if queued \<noteq> [] then Some [] else None)\<rparr>)))))"

text \<open>
  The loop of \<open>remove_message_subtree\<close> over the affected nodes, with the flag \<open>queue_changed\<close>
  and the targets so far. Unlike in \<open>cancel_node\<close> the target is computed before the node is
  marked.
\<close>

fun cancel_affected ::
  "node_claim option \<Rightarrow> string list \<Rightarrow> bool \<times> ui_target list \<Rightarrow> message_tree
     \<Rightarrow> message_tree \<times> (tree_error + bool \<times> ui_target list)" where
  "cancel_affected cl [] acc t = (t, Inr acc)"
| "cancel_affected cl (nid # rest) (changed, targets) t =
     (case tree_node t nid of
        None \<Rightarrow> cancel_affected cl rest (changed, targets) t
      | Some n \<Rightarrow>
          (case dequeue_node nid t of
             (was_queued, t) \<Rightarrow>
               if runnable (state n) then
                 (case ui_target_of n of
                    Inl e \<Rightarrow> (t, Inl e)
                  | Inr u \<Rightarrow> cancel_affected cl rest (was_queued \<or> changed, targets @ [u])
                              (on_node nid mark_error t))
               else if state n = ERROR \<and> map_option (\<lambda>c. ui_node (claim_node c)) cl = Some nid then
                 (case ui_target_of n of
                    Inl e \<Rightarrow> (t, Inl e)
                  | Inr u \<Rightarrow> cancel_affected cl rest (was_queued \<or> changed, targets @ [u]) t)
               else cancel_affected cl rest (was_queued \<or> changed, targets) t))"

definition no_removal :: subtree_removal where
  "no_removal =
     \<lparr>removal_cancellation =
        \<lparr>cancelled_nodes = [], cancelled_claim = None, cancel_queue_update = None\<rparr>,
      removed_message_ids = {}, removed_entire_tree = False\<rparr>"

definition remove_message_subtree ::
  "(string list \<Rightarrow> string list) \<Rightarrow> string \<Rightarrow> message_tree
     \<Rightarrow> (message_tree \<times> (tree_error + subtree_removal)) option" where
  "remove_message_subtree ord r t =
     (case get_reference_descendants (graph t) r of
        None \<Rightarrow> None
      | Some ids \<Rightarrow>
          (case (resolve_reference (graph t) r, ids) of
             (None, _) \<Rightarrow> Some (t, Inr no_removal)
           | (_, []) \<Rightarrow> Some (t, Inr no_removal)
           | (Some (owner, kind), _) \<Rightarrow>
               (let removed = filter (\<lambda>k. tree_node t k \<noteq> None) ids;
                    affected = removed @ (if kind = STATUS then [node_id owner] else []);
                    cl = claim_on (\<lambda>k. k \<in> set affected) t;
                    t = (if cl = None then t else request_cancellation t)
                in case cancel_affected cl (ord affected) (False, []) t of
                     (t, Inl e) \<Rightarrow> Some (t, Inl e)
                   | (t, Inr (changed, targets)) \<Rightarrow>
                       (let g = (if kind = STATUS then clear_status (node_id owner) (graph t)
                                 else graph t);
                            entire = root_id g \<in> set removed;
                            t = t\<lparr>graph := remove_nodes (ord removed) g\<rparr>
                        in Some (t, bind_result (queue_update_if changed t) (\<lambda>update.
                             Inr \<lparr>removal_cancellation =
                                    \<lparr>cancelled_nodes = targets, cancelled_claim = cl,
                                     cancel_queue_update = update\<rparr>,
                                  removed_message_ids = set ids,
                                  removed_entire_tree = entire\<rparr>))))))"

section \<open>Reports of the running claim\<close>

text \<open>The node of the active claim, when the claim id matches and nobody asked to cancel it.\<close>

definition reporting_node :: "string \<Rightarrow> message_tree \<Rightarrow> message_node option" where
  "reporting_node cid t =
     (case active t of
        None \<Rightarrow> None
      | Some a \<Rightarrow>
          if claim_id (claim a) \<noteq> cid \<or> cancellation_requested a then None
          else tree_node t (ui_node (claim_node (claim a))))"

definition record_session :: "string \<Rightarrow> string \<Rightarrow> message_tree \<Rightarrow> message_tree \<times> tree_snapshot option" where
  "record_session cid sid t =
     (case reporting_node cid t of
        None \<Rightarrow> (t, None)
      | Some n \<Rightarrow>
          if state n \<noteq> IN_PROGRESS then (t, None)
          else let t = on_node (node_id n) (update_state IN_PROGRESS (Some sid)) t
               in (t, Some (graph_snapshot (graph t))))"

definition complete_claim ::
  "string \<Rightarrow> string option \<Rightarrow> message_tree \<Rightarrow> message_tree \<times> tree_snapshot option" where
  "complete_claim cid sid t =
     (case reporting_node cid t of
        None \<Rightarrow> (t, None)
      | Some n \<Rightarrow>
          if state n \<noteq> IN_PROGRESS \<and> state n \<noteq> ERROR then (t, None)
          else let t = on_node (node_id n) (update_state COMPLETED sid) t
               in (t, Some (graph_snapshot (graph t))))"

text \<open>The descendants of a failed node that still wait become errors too.\<close>

fun fail_pending ::
  "string list \<Rightarrow> bool \<times> ui_target list \<Rightarrow> message_tree
     \<Rightarrow> message_tree \<times> (tree_error + bool \<times> ui_target list)" where
  "fail_pending [] acc t = (t, Inr acc)"
| "fail_pending (nid # rest) (changed, targets) t =
     (case tree_node t nid of
        None \<Rightarrow> fail_pending rest (changed, targets) t
      | Some n \<Rightarrow>
          if state n \<noteq> PENDING then fail_pending rest (changed, targets) t
          else (case dequeue_node (node_id n) (on_node nid mark_error t) of
                  (was_queued, t) \<Rightarrow>
                    (case ui_target_of n of
                       Inl e \<Rightarrow> (t, Inl e)
                     | Inr u \<Rightarrow> fail_pending rest (was_queued \<or> changed, targets @ [u]) t)))"

definition no_failure :: failure_result where
  "no_failure = \<lparr>affected = [], failure_queue_update = None, failure_snapshot = None\<rparr>"

definition fail_result ::
  "message_tree \<times> (tree_error + bool \<times> ui_target list) \<Rightarrow> message_tree \<times> (tree_error + failure_result)" where
  "fail_result r =
     (case r of
        (t, Inl e) \<Rightarrow> (t, Inl e)
      | (t, Inr (changed, targets)) \<Rightarrow>
          (t, bind_result (queue_update_if changed t) (\<lambda>update.
                Inr \<lparr>affected = targets, failure_queue_update = update,
                     failure_snapshot = Some (graph_snapshot (graph t))\<rparr>)))"

definition fail_claim ::
  "string \<Rightarrow> bool \<Rightarrow> message_tree \<Rightarrow> (message_tree \<times> (tree_error + failure_result)) option" where
  "fail_claim cid propagate t =
     (case reporting_node cid t of
        None \<Rightarrow> Some (t, Inr no_failure)
      | Some n \<Rightarrow>
          if state n = COMPLETED then Some (fail_result (t, Inr (False, [])))
          else
            (let failed = state n \<noteq> ERROR;
                 t = (if failed then on_node (node_id n) mark_error t else t)
             in case (if failed then bind_result (ui_target_of n) (\<lambda>u. Inr [u]) else Inr []) of
                  Inl e \<Rightarrow> Some (t, Inl e)
                | Inr targets \<Rightarrow>
                    if propagate then
                      (case get_descendants (graph t) (node_id n) of
                         None \<Rightarrow> None
                       | Some ids \<Rightarrow> Some (fail_result (fail_pending (tl ids) (False, targets) t)))
                    else Some (fail_result (t, Inr (False, targets)))))"

section \<open>Reading a tree, restoring a tree\<close>

definition resolve_reply :: "string \<Rightarrow> message_tree \<Rightarrow> reply_target option" where
  "resolve_reply r t =
     (case resolve_reference (graph t) r of
        None \<Rightarrow> None
      | Some (n, kind) \<Rightarrow>
          Some \<lparr>reply_node = node_id n, reply_reference = r, reply_kind = kind,
                reply_position =
                  (if active t = None then None else Some (queue_size (queue t) + 1))\<rparr>)"

definition node_view :: "string \<Rightarrow> message_tree \<Rightarrow> node_view_data option" where
  "node_view nid t =
     (case tree_node t nid of
        None \<Rightarrow> None
      | Some n \<Rightarrow>
          Some \<lparr>view_identity = tree_identity_of t, view_node = node_id n, view_state = state n,
                view_parent = parent_id n, view_session = session_id n\<rparr>)"

definition tree_snapshot_of :: "message_tree \<Rightarrow> tree_snapshot" where
  "tree_snapshot_of t = graph_snapshot (graph t)"

definition message_ids_for_chat :: "string \<Rightarrow> string \<Rightarrow> message_tree \<Rightarrow> string set" where
  "message_ids_for_chat p c t =
     (let sc = identity_scope (tree_identity_of t) in
      if platform sc \<noteq> p \<or> chat_id sc \<noteq> c then {} else all_reference_ids (graph t))"

text \<open>A restored tree runs nothing: what was waiting or running when the process stopped is
  an error now, and is reported once.\<close>

fun restore_nodes ::
  "string list \<Rightarrow> ui_target list \<Rightarrow> message_graph \<Rightarrow> tree_error + message_graph \<times> ui_target list" where
  "restore_nodes [] targets g = Inr (g, targets)"
| "restore_nodes (nid # rest) targets g =
     (case get_node g nid of
        None \<Rightarrow> restore_nodes rest targets g
      | Some n \<Rightarrow>
          if runnable (state n) then
            bind_result (ui_target_of n) (\<lambda>u.
              restore_nodes rest (targets @ [u]) (modify_node nid mark_error g))
          else restore_nodes rest targets g)"

datatype restore_error = Bad_snapshot snapshot_error | Bad_tree tree_error

definition tree_from_snapshot ::
  "(json \<Rightarrow> string) \<Rightarrow> tree_snapshot \<Rightarrow> (restore_error + message_tree) option" where
  "tree_from_snapshot rp s =
     (case graph_from_snapshot rp s of
        None \<Rightarrow> None
      | Some (Inl e) \<Rightarrow> Some (Inl (Bad_snapshot e))
      | Some (Inr g) \<Rightarrow>
          (case restore_nodes (map node_id (all_nodes g)) [] g of
             Inl e \<Rightarrow> Some (Inl (Bad_tree e))
           | Inr (g', targets) \<Rightarrow>
               Some (Inr ((tree_of_graph g')\<lparr>restored_stale_targets := targets,
                                            restored_snapshot := Some (graph_snapshot g')\<rparr>))))"

end
