(* ===== verification/Tree_Invariant.thy ===== *)
theory Tree_Invariant
  imports Message_Tree
begin

text \<open>
  The invariant of one conversation tree, and the proof that every operation keeps it,
  whether it returns or raises. The queue holds exactly the nodes that wait; a claim whose
  cancellation nobody requested points at a node that is still there, with its status message.
  The set \<open>W\<close> names the nodes that may wait outside the queue: the root of a tree that was
  built but not admitted yet, and nodes in the middle of an operation.
\<close>

definition queued :: "message_tree \<Rightarrow> string list" where
  "queued t = queue_items (queue t)"

definition claim_ok :: "message_tree \<Rightarrow> active_claim \<Rightarrow> bool" where
  "claim_ok t a \<longleftrightarrow>
     claim_identity (claim a) = tree_identity_of t \<and>
     (\<not> cancellation_requested a \<longrightarrow>
        (\<exists>n. tree_node t (ui_node (claim_node (claim a))) = Some n \<and> state n \<noteq> PENDING \<and>
             ui_target_of n = Inr (claim_node (claim a))))"

definition tree_base :: "string set \<Rightarrow> message_tree \<Rightarrow> bool" where
  "tree_base W t \<longleftrightarrow>
     graph_ok (graph t) \<and> queue_ok (queue t) \<and>
     (\<forall>k n. tree_node t k = Some n \<longrightarrow> state n = PENDING \<longrightarrow> k \<in> set (queued t) \<or> k \<in> W) \<and>
     (\<forall>k \<in> set (queued t). \<exists>n. tree_node t k = Some n \<and> state n = PENDING) \<and>
     (\<forall>a. active t = Some a \<longrightarrow> claim_ok t a)"

definition tree_ok :: "string set \<Rightarrow> message_tree \<Rightarrow> bool" where
  "tree_ok W t \<longleftrightarrow> tree_base W t \<and> (active t = None \<longrightarrow> queued t = [])"

lemma tree_baseD:
  assumes "tree_base W t"
  shows "graph_ok (graph t)" "queue_ok (queue t)"
    "tree_node t k = Some n \<Longrightarrow> state n = PENDING \<Longrightarrow> k \<in> set (queued t) \<or> k \<in> W"
    "k \<in> set (queued t) \<Longrightarrow> \<exists>n. tree_node t k = Some n \<and> state n = PENDING"
    "active t = Some a \<Longrightarrow> claim_ok t a"
  using assms unfolding tree_base_def by blast+

lemma tree_okD:
  assumes "tree_ok W t"
  shows "tree_base W t" "active t = None \<Longrightarrow> queued t = []"
  using assms by (simp_all add: tree_ok_def)

lemma tree_base_mono: "tree_base W t \<Longrightarrow> W \<subseteq> W' \<Longrightarrow> tree_base W' t"
  unfolding tree_base_def by blast

lemma tree_ok_mono: "tree_ok W t \<Longrightarrow> W \<subseteq> W' \<Longrightarrow> tree_ok W' t"
  using tree_base_mono by (auto simp: tree_ok_def)

text \<open>What a node of a tree looks like.\<close>

lemma tree_node_facts:
  assumes "tree_base W t" and "tree_node t k = Some n"
  shows "node_id n = k" "k \<noteq> []" "runnable (state n) \<Longrightarrow> status_message_id n \<noteq> None"
    "scope n = identity_scope (tree_identity_of t)"
  using node_okD(1,2,3,6) [OF tree_baseD(1) [OF assms(1)]] assms(2)
  by (simp_all add: tree_node_def tree_identity_of_def)

lemma runnable_target:
  assumes "tree_base W t" and "tree_node t k = Some n" and "runnable (state n)"
  shows "\<exists>s. status_message_id n = Some s \<and>
    ui_target_of n = Inr \<lparr>ui_scope = scope n, ui_node = k, ui_status = s\<rparr>"
  using tree_node_facts(1,3) [OF assms(1,2)] assms(3) by (auto simp: ui_target_of_def)

lemma ui_target_same_links: "same_links n m \<Longrightarrow> ui_target_of m = ui_target_of n"
  by (simp add: same_links_def ui_target_of_def split: option.split)

section \<open>Reading a changed tree\<close>

lemma tree_node_on_node [dict_simps]:
  "tree_node (on_node k f t) k' = (if k' = k then map_option f (tree_node t k) else tree_node t k')"
  by (simp add: tree_node_def on_node_def dict_simps)

lemma on_node_frame [frame_simps]:
  "queue (on_node k f t) = queue t" "active (on_node k f t) = active t"
  "queued (on_node k f t) = queued t" "tree_identity_of (on_node k f t) = tree_identity_of t"
  "root_id (graph (on_node k f t)) = root_id (graph t)"
  "dkeys (nodes (graph (on_node k f t))) = dkeys (nodes (graph t))"
  by (simp_all add: on_node_def queued_def tree_identity_of_def frame_simps)

lemma dequeue_node_frame [frame_simps]:
  "graph (snd (dequeue_node k t)) = graph t" "active (snd (dequeue_node k t)) = active t"
  "tree_node (snd (dequeue_node k t)) = tree_node t"
  "tree_identity_of (snd (dequeue_node k t)) = tree_identity_of t"
  by (simp_all add: dequeue_node_def tree_node_def tree_identity_of_def fun_eq_iff split: prod.splits)

lemma dequeue_node_queue:
  assumes "queue_ok (queue t)"
  shows "queued (snd (dequeue_node k t)) = filter (\<lambda>x. x \<noteq> k) (queued t)"
    "fst (dequeue_node k t) \<longleftrightarrow> k \<in> set (queued t)" "queue_ok (queue (snd (dequeue_node k t)))"
  using nq.items_remove [OF assms, of k] nq.remove_changed [OF assms, of k] nq.ok_remove [OF assms, of k]
  by (cases "queue_remove k (queue t)"; simp add: dequeue_node_def queued_def)+

lemma dequeue_on_node:
  "dequeue_node k (on_node k' f t) = (fst (dequeue_node k t), on_node k' f (snd (dequeue_node k t)))"
  by (simp add: dequeue_node_def on_node_def split: prod.splits)

lemma request_cancellation_frame [frame_simps]:
  "graph (request_cancellation t) = graph t" "queue (request_cancellation t) = queue t"
  "queued (request_cancellation t) = queued t"
  "tree_node (request_cancellation t) = tree_node t"
  "tree_identity_of (request_cancellation t) = tree_identity_of t"
  "active (request_cancellation t) = None \<longleftrightarrow> active t = None"
  by (simp_all add: request_cancellation_def queued_def tree_node_def tree_identity_of_def fun_eq_iff)

lemma claim_ok_cong:
  assumes "claim_ok t a" and "tree_identity_of t' = tree_identity_of t"
    and "\<And>n. \<not> cancellation_requested a \<Longrightarrow> tree_node t (ui_node (claim_node (claim a))) = Some n \<Longrightarrow>
      state n \<noteq> PENDING \<Longrightarrow> ui_target_of n = Inr (claim_node (claim a)) \<Longrightarrow>
      \<exists>m. tree_node t' (ui_node (claim_node (claim a))) = Some m \<and> state m \<noteq> PENDING \<and>
        ui_target_of m = ui_target_of n"
  shows "claim_ok t' a"
  using assms unfolding claim_ok_def by metis

section \<open>Steps that keep the invariant\<close>

lemma base_request: "tree_base W t \<Longrightarrow> tree_base W (request_cancellation t)"
  unfolding tree_base_def frame_simps claim_ok_def
  by (auto simp: request_cancellation_def)

lemma base_dequeue:
  assumes ok: "tree_base W t"
  shows "tree_base (insert k W) (snd (dequeue_node k t))"
  using ok claim_ok_cong [where t = t and t' = "snd (dequeue_node k t)"]
  unfolding tree_base_def frame_simps dequeue_node_queue [OF tree_baseD(2) [OF ok]]
  by (auto simp: dequeue_node_queue frame_simps)

text \<open>A node outside the queue leaves the waiting state, or keeps its state.\<close>

lemma base_settle:
  assumes ok: "tree_base (insert k W) t" and k: "k \<notin> set (queued t)"
    and f: "\<And>n. same_links n (f n)" "\<And>n. state (f n) \<noteq> PENDING"
    and run: "\<And>n. tree_node t k = Some n \<Longrightarrow> runnable (state (f n)) \<Longrightarrow> status_message_id n \<noteq> None"
  shows "tree_base W (on_node k f t)"
proof -
  have "graph_ok (graph (on_node k f t))"
    using modify_node_ok [OF tree_baseD(1) [OF ok] f(1)] run by (simp add: on_node_def tree_node_def)
  moreover have "k' \<in> set (queued t) \<or> k' \<in> W"
    if h: "tree_node (on_node k f t) k' = Some n" "state n = PENDING" for k' n
  proof (cases "k' = k")
    case True
    with h f(2) show ?thesis by (auto simp: dict_simps)
  next
    case False
    with h tree_baseD(3) [OF ok, of k' n] show ?thesis by (simp add: dict_simps)
  qed
  moreover have "\<exists>n. tree_node (on_node k f t) k' = Some n \<and> state n = PENDING"
    if "k' \<in> set (queued t)" for k'
    using tree_baseD(4) [OF ok that] that k by (cases "k' = k") (simp_all add: dict_simps)
  moreover have "claim_ok (on_node k f t) a" if "active t = Some a" for a
  proof (rule claim_ok_cong [OF tree_baseD(5) [OF ok that]])
    fix n assume n: "tree_node t (ui_node (claim_node (claim a))) = Some n" "state n \<noteq> PENDING"
    show "\<exists>m. tree_node (on_node k f t) (ui_node (claim_node (claim a))) = Some m \<and> state m \<noteq> PENDING \<and>
        ui_target_of m = ui_target_of n"
      using n f(2) ui_target_same_links [OF f(1)]
      by (cases "ui_node (claim_node (claim a)) = k") (simp_all add: dict_simps)
  qed (simp add: frame_simps)
  ultimately show ?thesis
    using tree_baseD(2) [OF ok] unfolding tree_base_def frame_simps by blast
qed

lemma base_forget:
  assumes ok: "tree_base (insert k W) t"
    and n: "\<And>n. tree_node t k = Some n \<Longrightarrow> state n \<noteq> PENDING \<or> k \<in> W \<or> k \<in> set (queued t)"
  shows "tree_base W t"
proof -
  have "k' \<in> set (queued t) \<or> k' \<in> W" if "tree_node t k' = Some n" "state n = PENDING" for k' n
    using tree_baseD(3) [OF ok that] that assms(2) by blast
  then show ?thesis using ok unfolding tree_base_def by blast
qed

lemma base_mark_error:
  "tree_base (insert k W) t \<Longrightarrow> k \<notin> set (queued t) \<Longrightarrow> tree_base W (on_node k mark_error t)"
  by (rule base_settle) simp_all

lemma base_mark_settled:
  assumes "tree_base W t" and "k \<notin> set (queued t)"
  shows "tree_base W (on_node k mark_error t)"
  using base_mark_error tree_base_mono [OF assms(1)] assms(2) by blast

section \<open>Queue positions\<close>

definition target_of :: "message_tree \<Rightarrow> string \<Rightarrow> ui_target" where
  "target_of t k =
     (case tree_node t k of
        Some n \<Rightarrow> (case ui_target_of n of Inr u \<Rightarrow> u | Inl _ \<Rightarrow> \<lparr>ui_scope = scope n, ui_node = k, ui_status = []\<rparr>)
      | None \<Rightarrow> \<lparr>ui_scope = identity_scope (tree_identity_of t), ui_node = k, ui_status = []\<rparr>)"

lemma entries_from_exact:
  assumes ok: "tree_base W t" and "set ks \<subseteq> set (queued t)"
  shows "entries_from (graph t) ks es =
    Inr (es @ map (\<lambda>(i, k). \<lparr>entry_node = target_of t k, entry_position = i\<rparr>) (enumerate (length es + 1) ks))"
  using assms(2)
proof (induction ks arbitrary: es)
  case (Cons k ks)
  then obtain n where n: "tree_node t k = Some n" "state n = PENDING"
    using tree_baseD(4) [OF ok, of k] by auto
  then obtain u where "ui_target_of n = Inr u" "target_of t k = u"
    using runnable_target [OF ok n(1)] by (auto simp: target_of_def)
  then show ?case using Cons n by (simp add: tree_node_def)
qed simp

lemma queue_entries_exact:
  assumes "tree_base W t"
  shows "queue_entries t =
    Inr (map (\<lambda>(i, k). \<lparr>entry_node = target_of t k, entry_position = i\<rparr>) (enumerate 1 (queued t)))"
  using entries_from_exact [OF assms, of "queued t" "[]"] by (simp add: queue_entries_def queued_def)

lemma queue_update_if_returns:
  assumes "tree_base W t"
  shows "\<exists>u. queue_update_if changed t = Inr u"
  using queue_entries_exact [OF assms] by (simp add: queue_update_if_def)

end
