(* ===== verification/Tree_Operations.thy ===== *)
theory Tree_Operations
  imports Tree_Invariant
begin

text \<open>
  Every operation of a conversation tree keeps the invariant of \<open>Tree_Invariant\<close>, on every
  branch, and what it returns: admissions and completions here, then cancellations, removals
  and reports.
\<close>

section \<open>Claiming\<close>

lemma base_claim:
  assumes ok: "tree_base (insert k W) t" and k: "k \<notin> set (queued t)"
    and n: "tree_node t k = Some n" "state n = PENDING"
  shows "\<exists>c. claim_node_now cid n t =
      (t\<lparr>graph := modify_node k (update_state IN_PROGRESS None) (graph t),
         active := Some \<lparr>claim = c, cancellation_requested = False\<rparr>\<rparr>, Inr c) \<and>
    claim_id c = cid \<and> claim_prompt c = prompt n \<and> claim_identity c = tree_identity_of t \<and>
    ui_target_of n = Inr (claim_node c) \<and> ui_node (claim_node c) = k \<and>
    tree_base W (fst (claim_node_now cid n t))"
proof -
  obtain u where u: "ui_target_of n = Inr u" "ui_node u = k"
    using runnable_target [OF ok n(1)] n(2) by auto
  have id: "node_id n = k" by (rule tree_node_facts(1) [OF ok n(1)])
  let ?t = "on_node k (update_state IN_PROGRESS None) t"
  have base: "tree_base W ?t"
    by (rule base_settle [OF ok k]) (use n tree_node_facts(3) [OF ok] in simp_all)
  obtain c where c: "claim_node_now cid n t = (?t\<lparr>active := Some \<lparr>claim = c, cancellation_requested = False\<rparr>\<rparr>, Inr c)"
      "claim_id c = cid" "claim_prompt c = prompt n" "claim_identity c = tree_identity_of t" "claim_node c = u"
    by (simp add: claim_node_now_def Let_def id u frame_simps)
  let ?c = "?t\<lparr>active := Some \<lparr>claim = c, cancellation_requested = False\<rparr>\<rparr>"
  have "tree_node ?c k = Some (update_state IN_PROGRESS None n)"
    using n by (simp add: tree_node_def on_node_def dict_simps)
  then have "claim_ok ?c \<lparr>claim = c, cancellation_requested = False\<rparr>"
    using c u ui_target_same_links [OF same_links_updates(1), of IN_PROGRESS None n]
    by (simp add: claim_ok_def tree_identity_of_def on_node_def frame_simps)
  then have "tree_base W ?c"
    using base by (simp add: tree_base_def queued_def tree_node_def)
  with c u show ?thesis by (simp add: on_node_def)
qed

lemma base_put:
  assumes ok: "tree_base (insert k W) t" and k: "k \<notin> set (queued t)"
    and n: "tree_node t k = Some n" "state n = PENDING"
  shows "\<exists>q. queue_put k (queue t) = (True, q) \<and> queue_items q = queued t @ [k] \<and>
    queue_size q = length (queued t) + 1 \<and> tree_base W (t\<lparr>queue := q\<rparr>)"
proof -
  note qok = tree_baseD(2) [OF ok]
  obtain b q where q: "queue_put k (queue t) = (b, q)" by fastforce
  have b: "b" "queue_items q = queued t @ [k]" "queue_ok q"
    using nq.put_changed [OF qok, of k] nq.items_put [OF qok, of k] nq.ok_put [OF qok, of k] k q
    by (simp_all add: queued_def)
  have "claim_ok (t\<lparr>queue := q\<rparr>) a" if "claim_ok t a" for a
    using that by (simp add: claim_ok_def tree_node_def tree_identity_of_def)
  then have "tree_base W (t\<lparr>queue := q\<rparr>)"
    using ok b n unfolding tree_base_def by (auto simp: queued_def tree_node_def)
  with b q nq.size_items [OF b(3)] show ?thesis by simp
qed

lemma base_put_again:
  assumes ok: "tree_base W t" and k: "k \<in> set (queued t)"
  shows "queue_put k (queue t) = (False, queue t)"
  using tree_baseD(2) [OF ok] k by (simp add: queue_put_def queue_ok_def queued_def queue_items_def)

lemma base_pop:
  assumes ok: "tree_base W t" and q: "queued t = k # ks"
  shows "\<exists>q'. queue_pop (queue t) = (Some k, q') \<and> queued (t\<lparr>queue := q'\<rparr>) = ks \<and> k \<notin> set ks \<and>
    tree_base (insert k W) (t\<lparr>queue := q'\<rparr>)"
proof -
  note qok = tree_baseD(2) [OF ok]
  obtain b q' where q': "queue_pop (queue t) = (b, q')" by fastforce
  have b: "b = Some k" "queue_items q' = ks" "queue_ok q'" "k \<notin> set ks"
    using nq.popped [OF qok] nq.items_pop [OF qok] nq.ok_pop [OF qok] nq.distinct_items [OF qok] q q'
    by (simp_all add: queued_def)
  have "claim_ok (t\<lparr>queue := q'\<rparr>) a" if "claim_ok t a" for a
    using that by (simp add: claim_ok_def tree_node_def tree_identity_of_def)
  then have "tree_base (insert k W) (t\<lparr>queue := q'\<rparr>)"
    using ok b q unfolding tree_base_def by (auto simp: queued_def tree_node_def)
  with b q' show ?thesis by (simp add: queued_def)
qed

lemma pop_empty: "queue_ok (queue t) \<Longrightarrow> queued t = [] \<Longrightarrow> queue_pop (queue t) = (None, queue t)"
  by (simp add: queue_pop_def queued_def queue_items_def)

section \<open>Admission\<close>

lemma enqueue_rejects:
  assumes "tree_node t k = None \<or> (\<exists>n. tree_node t k = Some n \<and> state n \<noteq> PENDING)"
  shows "enqueue_or_claim cid k t = (t, Inr (rejected DUPLICATE))"
  using assms by (auto simp: enqueue_or_claim_def)

lemma enqueue_again:
  assumes "tree_ok W t" and "k \<in> set (queued t)"
  shows "enqueue_or_claim cid k t = (t, Inr (rejected DUPLICATE))"
proof -
  note base = tree_okD(1) [OF assms(1)]
  obtain n where "tree_node t k = Some n" "state n = PENDING" using tree_baseD(4) [OF base assms(2)] by blast
  moreover obtain a where "active t = Some a" using tree_okD(2) [OF assms(1)] assms(2)
    by (metis empty_iff list.set(1) not_Some_eq)
  ultimately show ?thesis
    using base_put_again [OF base assms(2)] by (simp add: enqueue_or_claim_def)
qed

lemma enqueue_idle:
  assumes ok: "tree_base (insert k W) t" "active t = None" "queued t = []"
    and n: "tree_node t k = Some n" "state n = PENDING"
  shows "\<exists>c t'. enqueue_or_claim cid k t =
      (t', Inr \<lparr>dec_claim = Some c, dec_position = None,
                dec_snapshot = Some (graph_snapshot (graph t')), dec_rejection = None\<rparr>) \<and>
    t' = t\<lparr>graph := modify_node k (update_state IN_PROGRESS None) (graph t),
           active := Some \<lparr>claim = c, cancellation_requested = False\<rparr>\<rparr> \<and>
    claim_id c = cid \<and> claim_prompt c = prompt n \<and> ui_node (claim_node c) = k \<and> tree_ok W t'"
proof -
  have "k \<notin> set (queued t)" using ok(3) by simp
  from base_claim [OF ok(1) this n, of cid] obtain c where
    c: "claim_node_now cid n t =
      (t\<lparr>graph := modify_node k (update_state IN_PROGRESS None) (graph t),
         active := Some \<lparr>claim = c, cancellation_requested = False\<rparr>\<rparr>, Inr c)"
    "claim_id c = cid" "claim_prompt c = prompt n" "ui_node (claim_node c) = k"
    "tree_base W (fst (claim_node_now cid n t))" by blast
  then have "tree_ok W (t\<lparr>graph := modify_node k (update_state IN_PROGRESS None) (graph t),
      active := Some \<lparr>claim = c, cancellation_requested = False\<rparr>\<rparr>)"
    by (simp add: tree_ok_def)
  with c n ok(2) show ?thesis by (simp add: enqueue_or_claim_def)
qed

lemma enqueue_busy:
  assumes ok: "tree_base (insert k W) t" "active t \<noteq> None" "k \<notin> set (queued t)"
    and n: "tree_node t k = Some n" "state n = PENDING"
  shows "\<exists>q. enqueue_or_claim cid k t =
      (t\<lparr>queue := q\<rparr>, Inr \<lparr>dec_claim = None, dec_position = Some (length (queued t) + 1),
                dec_snapshot = Some (graph_snapshot (graph t)), dec_rejection = None\<rparr>) \<and>
    queue_items q = queued t @ [k] \<and> tree_ok W (t\<lparr>queue := q\<rparr>)"
proof -
  from base_put [OF ok(1,3) n] obtain q where
    q: "queue_put k (queue t) = (True, q)" "queue_items q = queued t @ [k]"
      "queue_size q = length (queued t) + 1" "tree_base W (t\<lparr>queue := q\<rparr>)" by blast
  moreover obtain a where a: "active t = Some a" using ok(2) by blast
  ultimately have "tree_ok W (t\<lparr>queue := q\<rparr>)" by (simp add: tree_ok_def)
  moreover have "enqueue_or_claim cid k t = (t\<lparr>queue := q\<rparr>, Inr \<lparr>dec_claim = None,
      dec_position = Some (length (queued t) + 1),
      dec_snapshot = Some (graph_snapshot (graph t)), dec_rejection = None\<rparr>)"
    using q a n by (simp add: enqueue_or_claim_def)
  ultimately show ?thesis using q(2) by blast
qed

lemma enqueue_keeps_ok:
  assumes ok: "tree_base (insert k W) t" "active t = None \<Longrightarrow> queued t = []"
    and k: "\<And>n. tree_node t k = Some n \<Longrightarrow> state n = PENDING \<Longrightarrow> k \<in> set (queued t) \<Longrightarrow> tree_ok W t"
  shows "tree_ok W (fst (enqueue_or_claim cid k t)) \<and> (\<exists>d. snd (enqueue_or_claim cid k t) = Inr d)"
proof (cases "\<exists>n. tree_node t k = Some n \<and> state n = PENDING")
  case False
  then have "enqueue_or_claim cid k t = (t, Inr (rejected DUPLICATE))"
    using enqueue_rejects [of t k cid] by (cases "tree_node t k") auto
  moreover have "tree_base W t" by (rule base_forget [OF ok(1)]) (use False in blast)
  ultimately show ?thesis using ok(2) by (simp add: tree_ok_def)
next
  case True
  then obtain n where n: "tree_node t k = Some n" "state n = PENDING" by blast
  consider (queued) "k \<in> set (queued t)" | (idle) "active t = None" | (busy) "active t \<noteq> None" "k \<notin> set (queued t)"
    by blast
  then show ?thesis
  proof cases
    case queued
    with k [OF n] enqueue_again [of W t k cid] show ?thesis by simp
  next
    case idle
    with enqueue_idle [OF ok(1) idle ok(2) [OF idle] n, of cid] show ?thesis by auto
  next
    case busy
    with enqueue_busy [OF ok(1) busy n, of cid] show ?thesis by auto
  qed
qed

lemma enqueue_ok:
  assumes "tree_ok W t"
  shows "tree_ok W (fst (enqueue_or_claim cid k t)) \<and> (\<exists>d. snd (enqueue_or_claim cid k t) = Inr d)"
  using enqueue_keeps_ok [of k W t cid] tree_base_mono [OF tree_okD(1) [OF assms], of "insert k W"]
    tree_okD(2) [OF assms] assms by blast

text \<open>Admitting the root of a fresh tree ends its waiting.\<close>

lemma enqueue_settles:
  assumes ok: "tree_ok (insert k W) t"
  shows "tree_ok W (fst (enqueue_or_claim cid k t))"
proof -
  have "tree_ok W t" if "k \<in> set (queued t)"
    using base_forget [OF tree_okD(1) [OF ok]] tree_okD(2) [OF ok] that by (simp add: tree_ok_def)
  then show ?thesis using enqueue_keeps_ok [OF tree_okD [OF ok], of cid] by blast
qed

lemma add_base:
  assumes ok: "tree_ok W t" and add: "add_node nid sc pr status parent reference (graph t) = Inr g"
    and ne: "nid \<noteq> []" "status \<noteq> []"
  shows "tree_base (insert nid W) (t\<lparr>graph := g\<rparr>)"
proof -
  note base = tree_okD(1) [OF ok]
  note get = get_add_node [OF add] and c = add_node_cases [OF add]
  let ?t = "t\<lparr>graph := g\<rparr>"
  have new: "\<exists>m. tree_node ?t k = Some m \<and> state m = state n \<and> ui_target_of m = ui_target_of n"
    if n: "tree_node t k = Some n" for k n
  proof (cases "k = parent")
    case True
    then have "tree_node ?t k = Some (n\<lparr>children_ids := children_ids n @ [nid]\<rparr>)"
      using n c(3) by (auto simp: tree_node_def get)
    moreover have "ui_target_of (n\<lparr>children_ids := c\<rparr>) = ui_target_of n" for c
      by (cases "status_message_id n") (simp_all add: ui_target_of_def)
    ultimately show ?thesis by simp
  next
    case False
    then have "tree_node ?t k = Some n" using n c(3) by (auto simp: tree_node_def get)
    then show ?thesis by blast
  qed
  have old: "k = nid \<or> (\<exists>m. tree_node t k = Some m \<and> state m = state n)"
    if "tree_node ?t k = Some n" for k n
    using that by (auto simp: tree_node_def get split: if_splits)
  have "k \<in> set (queued t) \<or> k \<in> insert nid W" if "tree_node ?t k = Some n" "state n = PENDING" for k n
    using old [OF that(1)] tree_baseD(3) [OF base, of k] that(2) by auto
  moreover have "\<exists>n. tree_node ?t k = Some n \<and> state n = PENDING" if "k \<in> set (queued t)" for k
    using tree_baseD(4) [OF base that] new by metis
  moreover have "claim_ok ?t a" if "active t = Some a" for a
  proof (rule claim_ok_cong [OF tree_baseD(5) [OF base that]])
    fix n assume n: "tree_node t (ui_node (claim_node (claim a))) = Some n" "state n \<noteq> PENDING"
    show "\<exists>m. tree_node ?t (ui_node (claim_node (claim a))) = Some m \<and> state m \<noteq> PENDING \<and>
        ui_target_of m = ui_target_of n"
      using new [OF n(1)] n(2) by auto
  qed (simp add: tree_identity_of_def add_node_frame [OF add])
  ultimately show ?thesis
    using add_node_ok [OF tree_baseD(1) [OF base] add ne] tree_baseD(2) [OF base]
    unfolding tree_base_def by (simp add: queued_def)
qed

lemma add_fresh: "tree_base W t \<Longrightarrow> tree_node t k = None \<Longrightarrow> k \<notin> set (queued t)"
  using tree_baseD(4) by fastforce

lemma add_and_enqueue_ok:
  assumes ok: "tree_ok W t" and ne: "nid \<noteq> []" "status \<noteq> []"
  shows "tree_ok W (fst (add_and_enqueue cid nid sc pr status parent reference t))"
proof (cases "add_node nid sc pr status parent reference (graph t)")
  case (Inl e)
  then show ?thesis using ok by (simp add: add_and_enqueue_def)
next
  case (Inr g)
  have fresh: "nid \<notin> set (queued (t\<lparr>graph := g\<rparr>))"
    using add_fresh [OF tree_okD(1) [OF ok]] add_node_cases(3) [OF Inr]
    by (simp add: queued_def tree_node_def)
  have "queued (t\<lparr>graph := g\<rparr>) = []" if "active (t\<lparr>graph := g\<rparr>) = None"
    using tree_okD(2) [OF ok] that by (simp add: queued_def)
  then show ?thesis
    using enqueue_keeps_ok [OF add_base [OF ok Inr ne]] fresh Inr by (simp add: add_and_enqueue_def)
qed

text \<open>When a reply can be added: its parent is there and is the owner of what it replies to, and its ids are new.\<close>

definition addable ::
  "string \<Rightarrow> message_scope \<Rightarrow> string \<Rightarrow> string \<Rightarrow> string \<Rightarrow> message_tree \<Rightarrow> bool" where
  "addable nid sc status parent reference t \<longleftrightarrow>
     sc = identity_scope (tree_identity_of t) \<and> tree_node t parent \<noteq> None \<and>
     (case resolve_reference (graph t) reference of None \<Rightarrow> False | Some (owner, _) \<Rightarrow> node_id owner = parent) \<and>
     status \<noteq> nid \<and>
     list_all (\<lambda>k. tree_node t k = None \<and> dget (status_to_node (graph t)) k = None) [nid, status]"

lemma add_node_addable:
  "(\<exists>g. add_node nid sc pr status parent reference (graph t) = Inr g) \<longleftrightarrow> addable nid sc status parent reference t"
  by (auto simp: add_node_def addable_def tree_node_def tree_identity_of_def split: option.splits prod.splits)

lemma add_and_enqueue_returns:
  assumes ok: "tree_ok W t" and ne: "nid \<noteq> []" "status \<noteq> []"
  shows "if addable nid sc status parent reference t
    then \<exists>d. snd (add_and_enqueue cid nid sc pr status parent reference t) = Inr d
    else \<exists>e. add_and_enqueue cid nid sc pr status parent reference t = (t, Inl e)"
proof (cases "add_node nid sc pr status parent reference (graph t)")
  case (Inl e)
  then have "\<not> addable nid sc status parent reference t" using add_node_addable by (metis sum.distinct(1))
  with Inl show ?thesis by (simp add: add_and_enqueue_def)
next
  case (Inr g)
  then have a: "addable nid sc status parent reference t" using add_node_addable by metis
  have "\<exists>d. snd (enqueue_or_claim cid nid (t\<lparr>graph := g\<rparr>)) = Inr d"
  proof -
    have "queued (t\<lparr>graph := g\<rparr>) = []" if "active (t\<lparr>graph := g\<rparr>) = None"
      using tree_okD(2) [OF ok] that by (simp add: queued_def)
    then have "tree_ok (insert nid W) (t\<lparr>graph := g\<rparr>)"
      using add_base [OF ok Inr ne] by (simp add: tree_ok_def)
    then show ?thesis using enqueue_ok by blast
  qed
  with a Inr show ?thesis by (simp add: add_and_enqueue_def)
qed

end
