(* ===== verification/Tree_Cancellation.thy ===== *)
theory Tree_Cancellation
  imports Tree_Operations
begin

text \<open>
  Completion and cancellation of a conversation tree: the successor is the head of the queue,
  and cancelling settles nodes. The only way a cancellation raises is \<open>stuck\<close>: the active
  claim's node is an error that lost its status message.
\<close>

section \<open>Completion\<close>

lemma claim_next_empty:
  "tree_base W t \<Longrightarrow> queued t = [] \<Longrightarrow> claim_next cid t = (t, Inr None)"
  using pop_empty [OF tree_baseD(2)] by (simp add: claim_next.simps [of cid t])

lemma claim_next_head:
  assumes ok: "tree_base W t" and q: "queued t = k # ks"
  shows "\<exists>c t'. claim_next cid t = (t', Inr (Some c)) \<and> queued t' = ks \<and>
    active t' = Some \<lparr>claim = c, cancellation_requested = False\<rparr> \<and>
    claim_id c = cid \<and> ui_node (claim_node c) = k \<and>
    graph t' = modify_node k (update_state IN_PROGRESS None) (graph t) \<and> tree_base W t'"
proof -
  obtain q' where q': "queue_pop (queue t) = (Some k, q')" "queued (t\<lparr>queue := q'\<rparr>) = ks" "k \<notin> set ks"
      "tree_base (insert k W) (t\<lparr>queue := q'\<rparr>)"
    using base_pop [OF ok q] by blast
  obtain n where n: "tree_node t k = Some n" "state n = PENDING" using tree_baseD(4) [OF ok, of k] q by auto
  have "tree_node (t\<lparr>queue := q'\<rparr>) k = Some n" using n by (simp add: tree_node_def)
  from base_claim [OF q'(4) _ this n(2), of cid] q'(2,3) obtain c where
    c: "claim_node_now cid n (t\<lparr>queue := q'\<rparr>) =
        (t\<lparr>queue := q', graph := modify_node k (update_state IN_PROGRESS None) (graph t),
           active := Some \<lparr>claim = c, cancellation_requested = False\<rparr>\<rparr>, Inr c)"
      "claim_id c = cid" "ui_node (claim_node c) = k"
      "tree_base W (fst (claim_node_now cid n (t\<lparr>queue := q'\<rparr>)))"
    by auto
  have "claim_next cid t = (fst (claim_node_now cid n (t\<lparr>queue := q'\<rparr>)), Inr (Some c))"
    using q'(1) n tree_node_facts(2) [OF ok n(1)]
    by (simp add: claim_next.simps [of cid t] c(1) tree_node_def)
  with c q'(2) show ?thesis by (simp add: queued_def)
qed

lemma base_release: "tree_base W t \<Longrightarrow> tree_base W (t\<lparr>active := None\<rparr>)"
  unfolding tree_base_def by (simp add: queued_def tree_node_def)

lemma finish_stale:
  assumes ok: "tree_base W t" and "\<And>a. active t = Some a \<Longrightarrow> claim_id (claim a) \<noteq> finished"
  shows "\<exists>es. finish_and_claim_next cid finished t = (t, Inr \<lparr>next_claim = None, completion_queue = es\<rparr>)"
  using assms(2) queue_entries_exact [OF ok]
  by (cases "active t") (simp_all add: finish_and_claim_next_def)

lemma finish_last:
  assumes ok: "tree_base W t" and a: "active t = Some a" "claim_id (claim a) = finished"
    and q: "queued t = []"
  shows "finish_and_claim_next cid finished t =
    (t\<lparr>active := None\<rparr>, Inr \<lparr>next_claim = None, completion_queue = []\<rparr>)"
proof -
  have base: "tree_base W (t\<lparr>active := None\<rparr>)" by (rule base_release [OF ok])
  have "queued (t\<lparr>active := None\<rparr>) = []" using q by (simp add: queued_def)
  with claim_next_empty [OF base this] queue_entries_exact [OF base] a show ?thesis
    by (simp add: finish_and_claim_next_def)
qed

lemma finish_next:
  assumes ok: "tree_base W t" and a: "active t = Some a" "claim_id (claim a) = finished"
    and q: "queued t = k # ks"
  shows "\<exists>c t' es. finish_and_claim_next cid finished t =
      (t', Inr \<lparr>next_claim = Some c, completion_queue = es\<rparr>) \<and> queued t' = ks \<and>
    active t' = Some \<lparr>claim = c, cancellation_requested = False\<rparr> \<and>
    claim_id c = cid \<and> ui_node (claim_node c) = k \<and>
    graph t' = modify_node k (update_state IN_PROGRESS None) (graph t) \<and>
    map (\<lambda>e. (ui_node (entry_node e), entry_position e)) es = zip ks [1..<length ks + 1] \<and>
    tree_base W t'"
proof -
  have base: "tree_base W (t\<lparr>active := None\<rparr>)" by (rule base_release [OF ok])
  have "queued (t\<lparr>active := None\<rparr>) = k # ks" using q by (simp add: queued_def)
  from claim_next_head [OF base this, of cid] obtain c t' where
    c: "claim_next cid (t\<lparr>active := None\<rparr>) = (t', Inr (Some c))" "queued t' = ks"
      "active t' = Some \<lparr>claim = c, cancellation_requested = False\<rparr>"
      "claim_id c = cid" "ui_node (claim_node c) = k"
      "graph t' = modify_node k (update_state IN_PROGRESS None) (graph t)" "tree_base W t'"
    by auto
  let ?es = "map (\<lambda>(i, k). \<lparr>entry_node = target_of t' k, entry_position = i\<rparr>) (enumerate 1 ks)"
  have "queue_entries t' = Inr ?es" using queue_entries_exact [OF c(7)] c(2) by simp
  then have "finish_and_claim_next cid finished t =
      (t', Inr \<lparr>next_claim = Some c, completion_queue = ?es\<rparr>)"
    using c(1) a by (simp add: finish_and_claim_next_def)
  moreover have "ui_node (target_of t' k') = k'" if "k' \<in> set ks" for k'
    using tree_baseD(4) [OF c(7), of k'] runnable_target [OF c(7), of k'] that c(2)
    by (auto simp: target_of_def)
  then have "map (\<lambda>e. (ui_node (entry_node e), entry_position e)) ?es = zip ks [1..<length ks + 1]"
    by (intro nth_equalityI) (simp_all add: nth_enumerate_eq del: upt_Suc)
  ultimately show ?thesis using c(2-7) by blast
qed

lemma finish_ok:
  assumes ok: "tree_ok W t"
  shows "tree_ok W (fst (finish_and_claim_next cid finished t)) \<and>
    (\<exists>r. snd (finish_and_claim_next cid finished t) = Inr r)"
proof (cases "\<exists>a. active t = Some a \<and> claim_id (claim a) = finished")
  case False
  then show ?thesis
    using finish_stale [OF tree_okD(1) [OF ok], of finished cid] ok by auto
next
  case True
  then obtain a where a: "active t = Some a" "claim_id (claim a) = finished" by blast
  show ?thesis
  proof (cases "queued t")
    case Nil
    then show ?thesis
      using finish_last [OF tree_okD(1) [OF ok] a Nil, of cid] base_release [OF tree_okD(1) [OF ok]]
      by (simp add: tree_ok_def queued_def)
  next
    case (Cons k ks)
    from finish_next [OF tree_okD(1) [OF ok] a Cons, of cid] obtain c t' es where
      "finish_and_claim_next cid finished t = (t', Inr \<lparr>next_claim = Some c, completion_queue = es\<rparr>)"
      "active t' = Some \<lparr>claim = c, cancellation_requested = False\<rparr>" "tree_base W t'" by blast
    then show ?thesis by (simp add: tree_ok_def)
  qed
qed

section \<open>Cancelling one node\<close>

text \<open>The state that makes a cancellation raise.\<close>

definition stuck :: "message_tree \<Rightarrow> bool" where
  "stuck t \<longleftrightarrow>
     (case active t of
        None \<Rightarrow> False
      | Some a \<Rightarrow>
          (case tree_node t (ui_node (claim_node (claim a))) of
             None \<Rightarrow> False
           | Some n \<Rightarrow> state n = ERROR \<and> status_message_id n = None))"

lemma not_stuck_target:
  assumes "\<not> stuck t" "active t = Some a" "tree_node t (ui_node (claim_node (claim a))) = Some n"
    "state n = ERROR"
  shows "\<exists>u. ui_target_of n = Inr u"
  using assms by (auto simp: stuck_def ui_target_of_def)

definition settle_node :: "message_node \<Rightarrow> message_node" where
  "settle_node n = (if runnable (state n) then mark_error n else n)"

lemma settle_node_state [simp]: "\<not> runnable (state (settle_node n))" "state (settle_node n) \<noteq> PENDING"
  by (auto simp: settle_node_def runnable_def)

lemma claim_on_cases:
  "claim_on P t = None \<or>
    (\<exists>a. active t = Some a \<and> P (ui_node (claim_node (claim a))) \<and> claim_on P t = Some (claim a))"
  by (auto simp: claim_on_def split: option.splits)

text \<open>The tree after a possible request to cancel the active claim.\<close>

definition asked :: "(string \<Rightarrow> bool) \<Rightarrow> message_tree \<Rightarrow> message_tree" where
  "asked P t = (if claim_on P t = None then t else request_cancellation t)"

lemma base_asked: "tree_base W t \<Longrightarrow> tree_base W (asked P t)"
  by (simp add: asked_def base_request)

lemma asked_frame [frame_simps]:
  "graph (asked P t) = graph t" "queue (asked P t) = queue t" "queued (asked P t) = queued t"
  "tree_node (asked P t) = tree_node t" "tree_identity_of (asked P t) = tree_identity_of t"
  "active (asked P t) = None \<longleftrightarrow> active t = None"
  by (simp_all add: asked_def frame_simps)

lemma cancel_node_after:
  "fst (cancel_node nid t) =
     (case tree_node t nid of
        None \<Rightarrow> asked (\<lambda>k. k = nid) t
      | Some n \<Rightarrow>
          if runnable (state n) then on_node nid mark_error (snd (dequeue_node nid (asked (\<lambda>k. k = nid) t)))
          else snd (dequeue_node nid (asked (\<lambda>k. k = nid) t)))"
  by (simp add: cancel_node_def asked_def Let_def split: option.split prod.split)

lemma cancel_node_result:
  "tree_node t nid = Some n \<Longrightarrow> snd (cancel_node nid t) =
     bind_result
       (if runnable (state n) \<or> state n = ERROR \<and> claim_on (\<lambda>k. k = nid) t \<noteq> None
        then bind_result (ui_target_of n) (\<lambda>u. Inr [u]) else Inr [])
       (\<lambda>us. bind_result
          (queue_update_if (fst (dequeue_node nid (asked (\<lambda>k. k = nid) t))) (fst (cancel_node nid t)))
          (\<lambda>update. Inr \<lparr>cancelled_nodes = us, cancelled_claim = claim_on (\<lambda>k. k = nid) t,
                          cancel_queue_update = update\<rparr>))"
  by (simp add: cancel_node_def asked_def Let_def split: prod.split)

lemma cancel_node_base:
  assumes ok: "tree_base W t"
  shows "tree_base W (fst (cancel_node nid t))"
proof (cases "tree_node t nid")
  case None
  then show ?thesis using base_asked [OF ok] by (simp add: cancel_node_after)
next
  case (Some n)
  define t1 where "t1 = asked (\<lambda>k. k = nid) t"
  have t1: "tree_base W t1" "tree_node t1 nid = Some n"
    using base_asked [OF ok] Some by (simp_all add: t1_def frame_simps)
  let ?t2 = "snd (dequeue_node nid t1)"
  have t2: "tree_base (insert nid W) ?t2" "nid \<notin> set (queued ?t2)"
    using base_dequeue [OF t1(1)] dequeue_node_queue(1) [OF tree_baseD(2) [OF t1(1)]] by simp_all
  show ?thesis
  proof (cases "runnable (state n)")
    case True
    with base_mark_error [OF t2] show ?thesis using Some by (simp add: cancel_node_after t1_def)
  next
    case False
    then have "state n \<noteq> PENDING" by auto
    then have "tree_base W ?t2"
      by (intro base_forget [OF t2(1)]) (simp add: t1(2) frame_simps)
    with False show ?thesis using Some by (simp add: cancel_node_after t1_def)
  qed
qed

lemma cancel_node_frame:
  assumes "tree_base W t"
  shows "active (fst (cancel_node nid t)) = None \<longleftrightarrow> active t = None"
    "queued (fst (cancel_node nid t)) =
      (if tree_node t nid = None then queued t else filter (\<lambda>x. x \<noteq> nid) (queued t))"
  using dequeue_node_queue(1) [OF tree_baseD(2) [OF base_asked [OF assms]]]
  by (simp_all add: cancel_node_after frame_simps split: option.split)

lemma cancel_node_ok:
  assumes "tree_ok W t"
  shows "tree_ok W (fst (cancel_node nid t))"
  using cancel_node_base [OF tree_okD(1) [OF assms]] cancel_node_frame [OF tree_okD(1) [OF assms]]
    tree_okD(2) [OF assms] by (auto simp: tree_ok_def)

lemma cancel_node_settles:
  "tree_node (fst (cancel_node nid t)) k =
     (if k = nid then map_option settle_node (tree_node t k) else tree_node t k)"
  by (simp add: cancel_node_after settle_node_def frame_simps dict_simps split: option.split)

text \<open>A cancellation of one node raises exactly when that node is the stuck one.\<close>

lemma cancel_node_returns:
  assumes ok: "tree_base W t"
    and free: "\<not> (stuck t \<and> (\<exists>a. active t = Some a \<and> ui_node (claim_node (claim a)) = nid))"
  shows "\<exists>r. snd (cancel_node nid t) = Inr r \<and>
    cancelled_claim r = claim_on (\<lambda>k. k = nid) t \<and>
    cancelled_nodes r =
      (case tree_node t nid of
         None \<Rightarrow> []
       | Some n \<Rightarrow>
           if runnable (state n) \<or> state n = ERROR \<and> claim_on (\<lambda>k. k = nid) t \<noteq> None
           then [target_of t nid] else [])"
proof (cases "tree_node t nid")
  case None
  then show ?thesis by (simp add: cancel_node_def Let_def)
next
  case (Some n)
  have "\<exists>u. ui_target_of n = Inr u"
    if "runnable (state n) \<or> state n = ERROR \<and> claim_on (\<lambda>k. k = nid) t \<noteq> None"
    using that runnable_target [OF ok Some] not_stuck_target [of t _ n] free Some
      claim_on_cases [of "\<lambda>k. k = nid" t] by metis
  moreover have "target_of t nid = u" if "ui_target_of n = Inr u" for u
    using Some that by (simp add: target_of_def)
  moreover have "\<exists>u. queue_update_if changed (fst (cancel_node nid t)) = Inr u" for changed
    by (rule queue_update_if_returns [OF cancel_node_base [OF ok]])
  then obtain update where
    "queue_update_if (fst (dequeue_node nid (asked (\<lambda>k. k = nid) t))) (fst (cancel_node nid t)) = Inr update"
    by blast
  ultimately show ?thesis
    unfolding cancel_node_result [OF Some] using Some by (cases "ui_target_of n") auto
qed

end
