(* ===== verification/Tree_Stop.thy ===== *)
theory Tree_Stop
  imports Tree_Cancellation
begin

text \<open>
  \<open>cancel_all\<close>: unless the tree is stuck, it settles every runnable node, empties the queue
  and reports each settled node once, the active one first.
\<close>

definition runs :: "message_tree \<Rightarrow> string \<Rightarrow> bool" where
  "runs t k = (case tree_node t k of None \<Rightarrow> False | Some n \<Rightarrow> runnable (state n))"

lemma target_of_mark [simp]: "target_of (on_node k mark_error t) = target_of t"
proof
  fix k'
  have "ui_target_of (mark_error n) = ui_target_of n" for n
    by (rule ui_target_same_links) simp
  then show "target_of (on_node k mark_error t) k' = target_of t k'"
    by (simp add: target_of_def dict_simps frame_simps split: option.split sum.split)
qed

lemma runs_mark: "k' \<noteq> k \<Longrightarrow> runs (on_node k mark_error t) k' = runs t k'"
  by (simp add: runs_def dict_simps)

lemma settle_mark_error [simp]: "settle_node (mark_error n) = mark_error n"
  by (simp add: settle_node_def)

lemma cancel_each_effect:
  fixes skip :: "string set"
  assumes "tree_base W t" and "queued t = []" and "distinct ks"
  defines "hit \<equiv> filter (\<lambda>k. k \<notin> skip \<and> runs t k) ks"
  shows "\<exists>t'. cancel_each skip ks (seen, us) t =
      (t', Inr (seen \<union> set hit, us @ map (target_of t) hit)) \<and>
    tree_base W t' \<and> queue t' = queue t \<and> active t' = active t \<and>
    tree_identity_of t' = tree_identity_of t \<and> dkeys (nodes (graph t')) = dkeys (nodes (graph t)) \<and>
    (\<forall>k. tree_node t' k =
       (if k \<in> set ks \<and> k \<notin> skip then map_option settle_node (tree_node t k) else tree_node t k))"
  using assms(1-3) unfolding hit_def
proof (induction ks arbitrary: t seen us)
  case (Cons k ks)
  have old: "(\<exists>t'. cancel_each skip ks (seen, us) t =
      (t', Inr (seen \<union> set (filter (\<lambda>k. k \<notin> skip \<and> runs t k) ks),
                us @ map (target_of t) (filter (\<lambda>k. k \<notin> skip \<and> runs t k) ks))) \<and>
    tree_base W t' \<and> queue t' = queue t \<and> active t' = active t \<and>
    tree_identity_of t' = tree_identity_of t \<and> dkeys (nodes (graph t')) = dkeys (nodes (graph t)) \<and>
    (\<forall>k. tree_node t' k =
       (if k \<in> set ks \<and> k \<notin> skip then map_option settle_node (tree_node t k) else tree_node t k)))"
    using Cons.IH [of t seen us] Cons.prems by simp
  show ?case
  proof (cases "k \<notin> skip \<and> runs t k")
    case False
    then have "cancel_each skip (k # ks) (seen, us) t = cancel_each skip ks (seen, us) t"
      by (auto simp: runs_def split: option.split)
    moreover have "k \<in> skip \<or> map_option settle_node (tree_node t k) = tree_node t k"
      using False by (auto simp: runs_def settle_node_def split: option.splits)
    moreover have "filter (\<lambda>k. k \<notin> skip \<and> runs t k) (k # ks) = filter (\<lambda>k. k \<notin> skip \<and> runs t k) ks"
      using False by simp
    ultimately show ?thesis using old Cons.prems(3) by (metis (no_types, lifting) set_ConsD list.set_intros(2))
  next
    case True
    then obtain n where n: "tree_node t k = Some n" "runnable (state n)"
      by (auto simp: runs_def split: option.splits)
    obtain u where u: "ui_target_of n = Inr u" using runnable_target [OF Cons.prems(1) n] by blast
    have tu: "target_of t k = u" using n u by (simp add: target_of_def)
    let ?t = "on_node k mark_error t"
    have prems: "tree_base W ?t" "queued ?t = []" "distinct ks"
      using base_mark_settled [OF Cons.prems(1)] Cons.prems(2,3) by (simp_all add: frame_simps)
    have same: "filter (\<lambda>k. k \<notin> skip \<and> runs ?t k) ks = filter (\<lambda>k. k \<notin> skip \<and> runs t k) ks"
      using Cons.prems(3) runs_mark by (intro filter_cong) (auto, metis+)
    from Cons.IH [OF prems, of "insert k seen" "us @ [u]"] obtain t' where t':
      "cancel_each skip ks (insert k seen, us @ [u]) ?t =
        (t', Inr (insert k seen \<union> set (filter (\<lambda>k. k \<notin> skip \<and> runs t k) ks),
                  (us @ [u]) @ map (target_of t) (filter (\<lambda>k. k \<notin> skip \<and> runs t k) ks)))"
      "tree_base W t'" "queue t' = queue t" "active t' = active t"
      "tree_identity_of t' = tree_identity_of t" "dkeys (nodes (graph t')) = dkeys (nodes (graph t))"
      "\<And>k'. tree_node t' k' =
        (if k' \<in> set ks \<and> k' \<notin> skip then map_option settle_node (tree_node ?t k') else tree_node ?t k')"
      unfolding same by (auto simp: frame_simps)
    have "cancel_each skip (k # ks) (seen, us) t =
        (t', Inr (seen \<union> set (filter (\<lambda>k. k \<notin> skip \<and> runs t k) (k # ks)),
                  us @ map (target_of t) (filter (\<lambda>k. k \<notin> skip \<and> runs t k) (k # ks))))"
      using n u tu True t'(1) by simp
    moreover have "tree_node t' k' = (if k' \<in> set (k # ks) \<and> k' \<notin> skip
        then map_option settle_node (tree_node t k') else tree_node t k')" for k'
      using True Cons.prems(3) n unfolding t'(7)
      by (cases "k' = k") (simp_all add: dict_simps settle_node_def)
    ultimately show ?thesis using t'(2-6) by blast
  qed
qed simp

text \<open>The first entry of the result: the active node, when it is runnable or already an error.\<close>

definition first_cancelled :: "message_tree \<Rightarrow> string list" where
  "first_cancelled t =
     (case active t of
        None \<Rightarrow> []
      | Some a \<Rightarrow>
          (case tree_node t (ui_node (claim_node (claim a))) of
             None \<Rightarrow> []
           | Some n \<Rightarrow> if runnable (state n) \<or> state n = ERROR then [node_id n] else []))"

definition active_seen :: "message_tree \<Rightarrow> string set" where
  "active_seen t =
     (case active t of
        None \<Rightarrow> {}
      | Some a \<Rightarrow>
          (case tree_node t (ui_node (claim_node (claim a))) of None \<Rightarrow> {} | Some n \<Rightarrow> {node_id n}))"

lemma drain_empty:
  assumes "queue_ok (queue t)"
  shows "\<exists>q. queue_drain (queue t) = (queued t, q) \<and> queue_items q = [] \<and> queue_ok q"
  using nq.drained [OF assms] nq.items_drain [OF assms] nq.ok_drain [OF assms]
  by (cases "queue_drain (queue t)") (simp add: queued_def)

lemma base_drain:
  assumes ok: "tree_base W t" and q: "queue_items q = []" "queue_ok q"
  shows "tree_base (W \<union> set (queued t)) (t\<lparr>queue := q\<rparr>)"
proof -
  have "claim_ok (t\<lparr>queue := q\<rparr>) a" if "claim_ok t a" for a
    using that by (simp add: claim_ok_def tree_node_def tree_identity_of_def)
  then show ?thesis using ok q unfolding tree_base_def by (auto simp: queued_def tree_node_def)
qed

text \<open>Settling some nodes changes neither targets nor identities.\<close>

definition settled_on :: "(string \<Rightarrow> bool) \<Rightarrow> message_tree \<Rightarrow> message_tree \<Rightarrow> bool" where
  "settled_on P t t' \<longleftrightarrow>
     tree_identity_of t' = tree_identity_of t \<and> dkeys (nodes (graph t')) = dkeys (nodes (graph t)) \<and>
     (active t' = None \<longleftrightarrow> active t = None) \<and>
     (\<forall>k. tree_node t' k =
        (if P k then map_option settle_node (tree_node t k) else tree_node t k))"

lemma ui_target_settle [simp]: "ui_target_of (settle_node n) = ui_target_of n"
  unfolding settle_node_def using ui_target_same_links [OF same_links_updates(2)] by simp

lemma settle_scope [simp]: "scope (settle_node n) = scope n"
  by (simp add: settle_node_def)

lemma settle_twice [simp]: "settle_node (settle_node n) = settle_node n"
  by (simp add: settle_node_def)

lemma settled_target: "settled_on P t t' \<Longrightarrow> target_of t' = target_of t"
  unfolding settled_on_def target_of_def
  by (rule ext) (simp split: option.split sum.split)

lemma settled_runs: "settled_on P t t' \<Longrightarrow> runs t' k \<longleftrightarrow> runs t k \<and> \<not> P k"
  unfolding settled_on_def runs_def by (simp split: option.split)

lemma settled_trans:
  "settled_on P t t' \<Longrightarrow> settled_on Q t' t'' \<Longrightarrow> settled_on (\<lambda>k. P k \<or> Q k) t t''"
  unfolding settled_on_def by (auto simp: option.map_comp o_def)

lemma settled_more:
  assumes "settled_on P t t'" and "\<And>k. \<not> P k \<Longrightarrow> \<not> runs t k"
  shows "settled_on (\<lambda>k. True) t t'"
proof -
  have "map_option settle_node (tree_node t k) = tree_node t k" if "\<not> P k" for k
    using assms(2) [OF that] by (simp add: runs_def settle_node_def split: option.splits)
  with assms(1) show ?thesis by (simp add: settled_on_def)
qed

text \<open>The step for the active node, on a tree whose queue is empty, when the tree is not stuck.\<close>

lemma cancel_active_effect:
  assumes ok: "tree_base W t" and q: "queued t = []" and free: "\<not> stuck t"
  shows "\<exists>t'. cancel_active t = (t', Inr (active_seen t, map (target_of t) (first_cancelled t))) \<and>
    tree_base W t' \<and> queue t' = queue t \<and> settled_on (\<lambda>k. k \<in> active_seen t) t t'"
proof (cases "active t")
  case None
  then show ?thesis using ok
    by (simp add: cancel_active_def active_seen_def first_cancelled_def settled_on_def)
next
  case (Some a)
  let ?r = "request_cancellation t" and ?k = "ui_node (claim_node (claim a))"
  have base: "tree_base W ?r" by (rule base_request [OF ok])
  have frame: "settled_on (\<lambda>k. k = nid) t (on_node nid mark_error ?r)"
    if "tree_node t nid = Some n" "runnable (state n)" for nid n
    using that by (simp add: settled_on_def frame_simps dict_simps settle_node_def)
  show ?thesis
  proof (cases "tree_node t ?k")
    case None
    then show ?thesis using base Some
      by (simp add: cancel_active_def active_seen_def first_cancelled_def settled_on_def frame_simps
          del: not_None_eq)
  next
    case n: (Some n)
    have id: "node_id n = ?k" by (rule tree_node_facts(1) [OF ok n])
    consider (run) "runnable (state n)" | (error) "\<not> runnable (state n)" "state n = ERROR"
      | (other) "\<not> runnable (state n)" "state n \<noteq> ERROR" by blast
    then show ?thesis
    proof cases
      case run
      obtain u where u: "ui_target_of n = Inr u" using runnable_target [OF ok n run] by blast
      have "tree_base W (on_node ?k mark_error ?r)"
        using base_mark_settled [OF base] q by (simp add: frame_simps)
      moreover have "target_of t ?k = u" using n u by (simp add: target_of_def)
      ultimately show ?thesis using Some n run frame [OF n run] u id
        by (simp add: cancel_active_def active_seen_def first_cancelled_def frame_simps)
    next
      case error
      obtain u where u: "ui_target_of n = Inr u" using not_stuck_target [OF free Some n error(2)] by blast
      moreover have "target_of t ?k = u" using n u by (simp add: target_of_def)
      ultimately show ?thesis using Some n error id base
        by (simp add: cancel_active_def active_seen_def first_cancelled_def frame_simps settled_on_def
            settle_node_def del: not_None_eq)
    next
      case other
      then show ?thesis using Some n id base
        by (simp add: cancel_active_def active_seen_def first_cancelled_def frame_simps settled_on_def
            settle_node_def del: not_None_eq)
    qed
  qed
qed

lemma cancel_active_queue:
  "cancel_active (t\<lparr>queue := q\<rparr>) =
     (fst (cancel_active t)\<lparr>queue := q\<rparr>, snd (cancel_active t))"
  "queue (fst (cancel_active t)) = queue t"
  by (simp_all add: cancel_active_def Let_def request_cancellation_def on_node_def tree_node_def
      split: option.split)

lemma queue_irrelevant [frame_simps]:
  "tree_node (t\<lparr>queue := q\<rparr>) = tree_node t" "active_seen (t\<lparr>queue := q\<rparr>) = active_seen t"
  "first_cancelled (t\<lparr>queue := q\<rparr>) = first_cancelled t" "stuck (t\<lparr>queue := q\<rparr>) = stuck t"
  "target_of (t\<lparr>queue := q\<rparr>) = target_of t" "runs (t\<lparr>queue := q\<rparr>) = runs t"
  "tree_identity_of (t\<lparr>queue := q\<rparr>) = tree_identity_of t"
proof -
  have same: "tree_node (t\<lparr>queue := q\<rparr>) = tree_node t" "tree_identity_of (t\<lparr>queue := q\<rparr>) = tree_identity_of t"
    by (simp_all add: fun_eq_iff tree_node_def tree_identity_of_def)
  then show "tree_node (t\<lparr>queue := q\<rparr>) = tree_node t" "active_seen (t\<lparr>queue := q\<rparr>) = active_seen t"
    "first_cancelled (t\<lparr>queue := q\<rparr>) = first_cancelled t" "stuck (t\<lparr>queue := q\<rparr>) = stuck t"
    "target_of (t\<lparr>queue := q\<rparr>) = target_of t" "runs (t\<lparr>queue := q\<rparr>) = runs t"
    "tree_identity_of (t\<lparr>queue := q\<rparr>) = tree_identity_of t"
    by (simp_all add: fun_eq_iff active_seen_def first_cancelled_def stuck_def target_of_def runs_def same
        split: option.split)
qed

lemma all_ids_keys:
  assumes "graph_ok g"
  shows "map node_id (all_nodes g) = dkeys (nodes g)"
proof -
  have "node_id n = k" if "(k, n) \<in> set (nodes g)" for k n
    using node_okD(1) [OF assms] get_node_in [OF graph_okD(1) [OF assms]] that by blast
  then show ?thesis by (auto simp: all_nodes_def)
qed

definition cancel_order :: "message_tree \<Rightarrow> string list" where
  "cancel_order t =
     first_cancelled t @
     filter (\<lambda>k. runs t k \<and> k \<notin> active_seen t) (queued t) @
     filter (\<lambda>k. runs t k \<and> k \<notin> active_seen t \<and> k \<notin> set (queued t)) (dkeys (nodes (graph t)))"

lemma cancel_all_effect:
  assumes ok: "tree_base W t" and free: "\<not> stuck t"
  shows "\<exists>t'. cancel_all t =
      (t', Inr \<lparr>cancelled_nodes = map (target_of t) (cancel_order t),
                cancelled_claim = map_option claim (active t),
                cancel_queue_update = (if queued t \<noteq> [] then Some [] else None)\<rparr>) \<and>
    tree_base {} t' \<and> queued t' = [] \<and> settled_on (\<lambda>k. True) t t'"
proof -
  obtain q where q: "queue_drain (queue t) = (queued t, q)" "queue_items q = []" "queue_ok q"
    using drain_empty [OF tree_baseD(2) [OF ok]] by blast
  let ?d = "t\<lparr>queue := q\<rparr>" and ?W = "W \<union> set (queued t)"
  have d: "tree_base ?W ?d" "queued ?d = []" "\<not> stuck ?d"
    using base_drain [OF ok q(2,3)] q(2) free by (simp_all add: queued_def frame_simps)
  from cancel_active_effect [OF d] obtain t1 where t1:
    "cancel_active ?d = (t1, Inr (active_seen t, map (target_of t) (first_cancelled t)))"
    "tree_base ?W t1" "queue t1 = q" "settled_on (\<lambda>k. k \<in> active_seen t) ?d t1"
    by (auto simp: frame_simps)
  obtain t0 where ca: "cancel_active t = (t0, Inr (active_seen t, map (target_of t) (first_cancelled t)))"
      "t1 = t0\<lparr>queue := q\<rparr>" "queue t0 = queue t"
    using t1(1) cancel_active_queue(1) [where t = t and q = q] cancel_active_queue(2) [of t]
    by (cases "cancel_active t") simp
  let ?A = "active_seen t" and ?q2 = "filter (\<lambda>k. runs t1 k) (queued t)"
  have s1: "settled_on (\<lambda>k. k \<in> ?A) t t1" using t1(4) by (simp add: settled_on_def frame_simps)
  have q1: "queued t1 = []" "distinct (queued t)"
    using t1(3) q(2) nq.distinct_items [OF tree_baseD(2) [OF ok]] by (simp_all add: queued_def)
  from cancel_each_effect [OF t1(2) q1, of "{}" ?A "map (target_of t) (first_cancelled t)"]
  obtain t2 where t2:
    "cancel_each {} (queued t) (?A, map (target_of t) (first_cancelled t)) t1 =
      (t2, Inr (?A \<union> set ?q2, map (target_of t) (first_cancelled t) @ map (target_of t) ?q2))"
    "tree_base ?W t2" "queue t2 = queue t1" "settled_on (\<lambda>k. k \<in> set (queued t)) t1 t2"
    unfolding settled_target [OF s1] by (auto simp: settled_on_def)
  have s2: "settled_on (\<lambda>k. k \<in> ?A \<or> k \<in> set (queued t)) t t2" by (rule settled_trans [OF s1 t2(4)])
  let ?keys = "dkeys (nodes (graph t))" and ?S = "?A \<union> set ?q2"
  have keys: "map node_id (all_nodes (graph t2)) = ?keys" "distinct ?keys"
    using all_ids_keys [OF tree_baseD(1) [OF t2(2)]] s2 index_okD(1) [OF graph_okD(1) [OF tree_baseD(1) [OF ok]]]
    by (simp_all add: settled_on_def)
  let ?q3 = "filter (\<lambda>k. k \<notin> ?S \<and> runs t2 k) ?keys"
  have "queued t2 = []" using t2(3) q1(1) by (simp add: queued_def)
  from cancel_each_effect [OF t2(2) this keys(2), of ?S ?S
      "map (target_of t) (first_cancelled t) @ map (target_of t) ?q2"]
  obtain t3 where t3:
    "cancel_each ?S ?keys (?S, map (target_of t) (first_cancelled t) @ map (target_of t) ?q2) t2 =
      (t3, Inr (?S \<union> set ?q3, (map (target_of t) (first_cancelled t) @ map (target_of t) ?q2) @
        map (target_of t) ?q3))"
    "tree_base ?W t3" "queue t3 = queue t2" "settled_on (\<lambda>k. k \<in> set ?keys \<and> k \<notin> ?S) t2 t3"
    unfolding settled_target [OF s2] by (auto simp: settled_on_def)
  have "?q2 = filter (\<lambda>k. runs t k \<and> k \<notin> ?A) (queued t)"
    "?q3 = filter (\<lambda>k. runs t k \<and> k \<notin> ?A \<and> k \<notin> set (queued t)) ?keys"
    using settled_runs [OF s1] settled_runs [OF s2] by (auto intro!: filter_cong)
  then have "cancel_all t = (t3, Inr \<lparr>cancelled_nodes = map (target_of t) (cancel_order t),
      cancelled_claim = map_option claim (active t),
      cancel_queue_update = (if queued t \<noteq> [] then Some [] else None)\<rparr>)"
    using t2(1) t3(1) keys(1) q(1) ca
    by (simp add: cancel_all_def cancel_order_def)
  moreover have s3: "settled_on (\<lambda>k. True) t t3"
  proof (rule settled_more [OF settled_trans [OF s2 t3(4)]])
    fix k assume "\<not> ((k \<in> ?A \<or> k \<in> set (queued t)) \<or> (k \<in> set ?keys \<and> k \<notin> ?S))"
    then have "k \<notin> set ?keys" by auto
    then show "\<not> runs t k" using get_node_iff_key [of "graph t" k] by (simp add: runs_def tree_node_def)
  qed
  moreover have "queued t3 = []" using t3(3) t2(3) q1(1) by (simp add: queued_def)
  moreover have "tree_base {} t3"
  proof -
    have "state n \<noteq> PENDING" if n: "tree_node t3 k = Some n" for k n
    proof -
      obtain m where "n = settle_node m"
        using s3 n by (cases "tree_node t k") (auto simp: settled_on_def)
      then show ?thesis by simp
    qed
    then show ?thesis using t3(2) unfolding tree_base_def by blast
  qed
  ultimately show ?thesis by blast
qed

lemma cancel_all_stuck:
  assumes ok: "tree_base W t" and "stuck t"
  shows "cancel_all t = (request_cancellation t, Inl No_status)"
  using assms(2) by (auto simp: stuck_def cancel_all_def cancel_active_def Let_def frame_simps
      ui_target_of_def split: option.splits)

lemma cancel_node_stuck:
  assumes "stuck t" "active t = Some a"
  shows "snd (cancel_node (ui_node (claim_node (claim a))) t) = Inl No_status"
proof -
  obtain n where n: "tree_node t (ui_node (claim_node (claim a))) = Some n" "state n = ERROR" "status_message_id n = None"
    using assms by (auto simp: stuck_def split: option.splits)
  moreover have "claim_on (\<lambda>k. k = ui_node (claim_node (claim a))) t = Some (claim a)"
    using assms(2) by (simp add: claim_on_def)
  ultimately show ?thesis by (simp add: cancel_node_result ui_target_of_def runnable_def)
qed

lemma cancel_all_ok:
  assumes ok: "tree_ok W t"
  shows "tree_ok W (fst (cancel_all t))"
proof (cases "stuck t")
  case True
  then show ?thesis
    using cancel_all_stuck [OF tree_okD(1) [OF ok] True] base_request [OF tree_okD(1) [OF ok]] tree_okD(2) [OF ok]
    by (simp add: tree_ok_def frame_simps)
next
  case False
  from cancel_all_effect [OF tree_okD(1) [OF ok] this] obtain t' r where
    "cancel_all t = (t', r)" "tree_base {} t'" "queued t' = []" by blast
  then show ?thesis using tree_base_mono by (auto simp: tree_ok_def)
qed

lemma each_active: "active (fst (cancel_each skip ks acc t)) = active t"
  by (induction skip ks acc t rule: cancel_each.induct)
    (simp_all add: frame_simps split: option.split sum.split)

lemma cancel_all_active:
  "active (fst (cancel_all t)) = active (request_cancellation t)"
proof -
  obtain t1 r1 where c: "cancel_active t = (t1, r1)" by fastforce
  have "active (fst (cancel_active t)) = active (request_cancellation t)"
    by (simp add: cancel_active_def Let_def frame_simps request_cancellation_def split: option.split)
  then have a1: "active t1 = active (request_cancellation t)" by (simp add: c)
  show ?thesis
  proof (cases r1)
    case (Inl e)
    with a1 show ?thesis by (simp add: cancel_all_def c)
  next
    case acc: (Inr acc)
    obtain ks q where q: "queue_drain (queue t1) = (ks, q)" by fastforce
    obtain t2 r2 where t2: "cancel_each {} ks acc (t1\<lparr>queue := q\<rparr>) = (t2, r2)" by fastforce
    have a2: "active t2 = active t1" using each_active [of "{}" ks acc "t1\<lparr>queue := q\<rparr>"] by (simp add: t2)
    show ?thesis
    proof (cases r2)
      case (Inl e)
      with a1 a2 acc show ?thesis by (simp add: cancel_all_def c q t2)
    next
      case (Inr acc2)
      obtain seen us where su: "acc2 = (seen, us)" by fastforce
      obtain t3 r3 where t3: "cancel_each seen (map node_id (all_nodes (graph t2))) (seen, us) t2 = (t3, r3)"
        by fastforce
      have "active t3 = active t2"
        using each_active [of seen "map node_id (all_nodes (graph t2))" "(seen, us)" t2] by (simp add: t3)
      with a1 a2 acc Inr su show ?thesis
        by (cases r3) (simp_all add: cancel_all_def c q t2 t3 split_beta)
    qed
  qed
qed

lemma runs_key: "runs t k \<Longrightarrow> k \<in> set (dkeys (nodes (graph t)))"
  using get_node_iff_key [of "graph t" k] by (auto simp: runs_def tree_node_def split: option.splits)

lemma first_cancelled_cases:
  "first_cancelled t = [] \<or> (\<exists>k. first_cancelled t = [k] \<and> active_seen t = {k})"
  by (auto simp: first_cancelled_def active_seen_def split: option.split)

lemma first_cancelled_runs:
  assumes ok: "tree_base W t" and k: "runs t k" "k \<in> active_seen t"
  shows "k \<in> set (first_cancelled t)"
proof -
  obtain a n where a: "active t = Some a" "tree_node t (ui_node (claim_node (claim a))) = Some n" "node_id n = k"
    using k(2) by (auto simp: active_seen_def split: option.splits)
  then have "tree_node t k = Some n" using tree_node_facts(1) [OF ok a(2)] by simp
  then have "runnable (state n)" using k(1) by (simp add: runs_def)
  with a show ?thesis by (simp add: first_cancelled_def)
qed

text \<open>The reported nodes, by id: every runnable node once, and the active node first.\<close>

lemma cancel_order_exact:
  assumes ok: "tree_base W t"
  shows "distinct (cancel_order t)" "set (cancel_order t) = {k. runs t k} \<union> set (first_cancelled t)"
proof -
  have "distinct (queued t)" "distinct (dkeys (nodes (graph t)))"
    using nq.distinct_items [OF tree_baseD(2) [OF ok]] index_okD(1) [OF graph_okD(1) [OF tree_baseD(1) [OF ok]]]
    by (simp_all add: queued_def)
  moreover have "distinct (first_cancelled t)" "set (first_cancelled t) \<subseteq> active_seen t"
    using first_cancelled_cases [of t] by (elim disjE exE conjE; simp)+
  ultimately show "distinct (cancel_order t)"
    unfolding cancel_order_def distinct_append set_append set_filter
    by (intro conjI distinct_filter) blast+
  show "set (cancel_order t) = {k. runs t k} \<union> set (first_cancelled t)"
  proof (rule set_eqI)
    fix k
    have "k \<in> set (cancel_order t) \<longleftrightarrow> k \<in> set (first_cancelled t) \<or>
        runs t k \<and> k \<notin> active_seen t \<and> (k \<in> set (queued t) \<or> k \<in> set (dkeys (nodes (graph t))))"
      unfolding cancel_order_def by auto
    then show "k \<in> set (cancel_order t) \<longleftrightarrow> k \<in> {k. runs t k} \<union> set (first_cancelled t)"
      using first_cancelled_runs [OF ok, of k] runs_key [of t k] by blast
  qed
qed

lemma target_node:
  assumes "tree_base W t"
  shows "ui_node (target_of t k) = k"
proof (cases "tree_node t k")
  case (Some n)
  then show ?thesis
    using tree_node_facts(1) [OF assms Some]
    by (cases "status_message_id n") (simp_all add: target_of_def ui_target_of_def)
qed (simp add: target_of_def)

lemma cancel_order_targets:
  assumes "tree_base W t"
  shows "map ui_node (map (target_of t) (cancel_order t)) = cancel_order t"
  unfolding map_map by (intro map_idI) (simp add: target_node [OF assms])

end
