(* ===== verification/Tree_Removal.thy ===== *)
theory Tree_Removal
  imports Tree_Stop
begin

text \<open>
  \<open>remove_message_subtree\<close>: everything below a message is detached, together with the claim
  that runs there, and the rest of the tree keeps its invariant.
\<close>

section \<open>The messages below a reference\<close>

lemma reference_below:
  assumes ok: "graph_ok g" and ids: "set ids = (edges (reference_children g))\<^sup>* `` {r}"
  shows "reply_closed g {k \<in> set ids. get_node g k \<noteq> None}"
    and "get_node g k = Some m \<Longrightarrow> parent_reference_id m = Some x \<Longrightarrow> x \<in> set ids \<Longrightarrow> k \<in> set ids"
proof -
  have down: "y \<in> set ids" if "x \<in> set ids" "y \<in> set (reference_children g x)" for x y
    using that unfolding ids by (auto intro: rtrancl_into_rtrancl)
  show below: "k \<in> set ids" if "get_node g k = Some m" "parent_reference_id m = Some x" "x \<in> set ids" for k m x
    using down [OF that(3)] that(1,2) unfolding in_reference_children [OF ok] by blast
  have "c \<in> set ids \<and> get_node g c \<noteq> None"
    if p: "p \<in> set ids" and c: "c \<in> set (graph_children g p)" for p c
  proof -
    obtain m where m: "get_node g c = Some m" "parent_id m = Some p"
      using c unfolding in_graph_children [OF ok] by blast
    then obtain pn x where x: "parent_reference_id m = Some x" "get_node g p = Some pn"
        "x = p \<or> status_message_id pn = Some x"
      using node_okD(7) [OF ok m(1)] by (auto simp: parent_ok_def split: if_splits)
    have "x \<in> set ids"
      using x(2,3) p down [OF p, of x] unfolding in_reference_children [OF ok] by blast
    with below [OF m(1) x(1)] m(1) show ?thesis by simp
  qed
  then show "reply_closed g {k \<in> set ids. get_node g k \<noteq> None}"
    unfolding reply_closed_def by blast
qed

lemma owner_stays:
  assumes ok: "graph_ok g" and ids: "set ids = (edges (reference_children g))\<^sup>* `` {r}"
    and owner: "resolve_reference g r = Some (n, STATUS)"
  shows "node_id n \<notin> set ids"
proof
  assume "node_id n \<in> set ids"
  then have cyc: "(r, node_id n) \<in> (edges (reference_children g))\<^sup>*" by (simp add: ids)
  have n: "get_node g (node_id n) = Some n" "status_message_id n = Some r"
    using owner unfolding resolve_reference_iff [OF ok] by simp_all
  then have "r \<in> set (reference_children g (node_id n))"
    unfolding in_reference_children [OF ok] by blast
  then have "(r, r) \<in> (edges (reference_children g))\<^sup>+"
    using cyc by (meson in_edges rtrancl_into_trancl1)
  moreover have "(root_id g, r) \<in> (edges (reference_children g))\<^sup>*"
    by (rule reference_rooted [OF ok]) (simp add: owner)
  ultimately show False
    using forest_acyclic [OF forest_reference_children [OF ok] root_no_reference_parent [OF ok]] by blast
qed

section \<open>The graph after the removal\<close>

lemma removed_graph:
  assumes ok: "graph_ok g" and closed: "reply_closed g (set ids)"
    and owner: "b \<longrightarrow> k \<notin> set ids"
      "\<forall>n k' m s. b \<longrightarrow> get_node g k = Some n \<longrightarrow> status_message_id n = Some s \<longrightarrow>
        get_node g k' = Some m \<longrightarrow> parent_reference_id m = Some s \<longrightarrow> k' \<in> set ids"
  defines "h \<equiv> remove_nodes ids (if b then clear_status k g else g)"
  shows "graph_ok h"
    and "get_node h k' =
      (if k' \<in> set ids then None
       else map_option (\<lambda>n. forget_children (set ids)
         (if b \<and> k' = k \<and> status_message_id n \<noteq> None then node_clear_status n else n)) (get_node g k'))"
    and "root_id h = root_id g" "identity h = identity g"
    and "dkeys (nodes h) = filter (\<lambda>k. k \<notin> set ids) (dkeys (nodes g))"
proof -
  let ?g = "if b then clear_status k g else g"
  have "index_ok ?g" "children_ok ?g"
    using clear_status_index_ok [OF graph_okD(1) [OF ok]] clear_status_children_ok [OF graph_ok_children_ok [OF ok]]
      graph_okD(1) [OF ok] graph_ok_children_ok [OF ok] by simp_all
  then have h: "h = pruned (set ids) ?g" unfolding h_def by (rule remove_nodes_pruned)
  have p: "graph_ok (pruned (set ids) g)" by (rule pruned_ok [OF ok closed])
  show "graph_ok h"
  proof (cases "b \<and> get_node g k \<noteq> None")
    case True
    then obtain n where n: "get_node g k = Some n" by blast
    have "graph_ok (clear_status k (pruned (set ids) g))"
    proof (rule clear_status_ok [OF p])
      show gk: "get_node (pruned (set ids) g) k = Some (forget_children (set ids) n)"
        using True owner(1) n by (simp add: get_pruned)
      fix s k' m
      assume a: "get_node (pruned (set ids) g) k = Some (forget_children (set ids) n)"
        "status_message_id (forget_children (set ids) n) = Some s" "get_node (pruned (set ids) g) k' = Some m"
      obtain m' where m': "get_node g k' = Some m'" "m = forget_children (set ids) m'" "k' \<notin> set ids"
        using a(3) by (auto simp: get_pruned split: if_splits)
      then show "parent_reference_id m \<noteq> Some s"
        using owner(2) n a(2) True by auto
    qed
    then show ?thesis using True owner(1) unfolding h by (simp add: clear_status_pruned)
  next
    case False
    then have "?g = g" by (auto simp: clear_status_def)
    with p h show ?thesis by simp
  qed
  show "get_node h k' =
      (if k' \<in> set ids then None
       else map_option (\<lambda>n. forget_children (set ids)
         (if b \<and> k' = k \<and> status_message_id n \<noteq> None then node_clear_status n else n)) (get_node g k'))"
    unfolding h get_pruned by (cases "b \<and> k' = k"; cases "get_node g k'") (simp_all add: get_clear_status)
  show "root_id h = root_id g" "identity h = identity g"
    "dkeys (nodes h) = filter (\<lambda>k. k \<notin> set ids) (dkeys (nodes g))"
    unfolding h by (simp_all add: frame_simps)
qed

section \<open>Cancelling the affected nodes\<close>

text \<open>What the loop needs of the claim: its node can still be shown.\<close>

definition showable :: "node_claim option \<Rightarrow> message_tree \<Rightarrow> bool" where
  "showable cl t \<longleftrightarrow>
     (\<forall>c n. cl = Some c \<longrightarrow> tree_node t (ui_node (claim_node c)) = Some n \<longrightarrow> state n = ERROR \<longrightarrow>
        (\<exists>u. ui_target_of n = Inr u))"

lemma showable_mark:
  assumes "showable cl t" and "tree_node t k = Some n" and "ui_target_of n = Inr u"
  shows "showable cl (on_node k mark_error t)"
proof -
  have "ui_target_of (mark_error n) = Inr u"
    using ui_target_same_links [OF same_links_updates(2), of n] assms(3) by simp
  with assms(1,2) show ?thesis unfolding showable_def by (auto simp: dict_simps)
qed

lemma showable_dequeue: "showable cl (snd (dequeue_node k t)) = showable cl t"
  by (simp add: showable_def frame_simps)

lemma cancel_affected_effect:
  assumes "tree_base W t"
  shows "tree_base W (fst (cancel_affected cl ks acc t)) \<and>
    active (fst (cancel_affected cl ks acc t)) = active t \<and>
    (queued t = [] \<longrightarrow> queued (fst (cancel_affected cl ks acc t)) = []) \<and>
    (showable cl t \<longrightarrow> (\<exists>acc'. snd (cancel_affected cl ks acc t) = Inr acc')) \<and>
    (\<forall>t' acc'. cancel_affected cl ks acc t = (t', Inr acc') \<longrightarrow>
        settled_on (\<lambda>k. k \<in> set ks) t t' \<and>
        queued t' = filter (\<lambda>k. k \<notin> set ks) (queued t))"
  using assms
proof (induction ks arbitrary: t acc)
  case Nil
  then show ?case by (simp add: settled_on_def)
next
  case (Cons k ks)
  obtain ch us where acc: "acc = (ch, us)" by fastforce
  show ?case
  proof (cases "tree_node t k")
    case None
    then have absent: "k \<notin> set (queued t)" using tree_baseD(4) [OF Cons.prems, of k] by auto
    have "settled_on (\<lambda>k. k \<in> set (k' # ks)) t t'"
      if "settled_on (\<lambda>k. k \<in> set ks) t t'" "tree_node t k' = None" for t' k'
      using that by (auto simp: settled_on_def)
    moreover have "filter (\<lambda>x. x \<notin> set ks) (queued t) = filter (\<lambda>x. x \<notin> set (k # ks)) (queued t)"
      using absent by (intro filter_cong) auto
    ultimately show ?thesis using Cons.IH [OF Cons.prems, of acc] None acc by auto
  next
    case (Some n)
    let ?d = "snd (dequeue_node k t)"
    have d: "tree_base (insert k W) ?d" "queued ?d = filter (\<lambda>x. x \<noteq> k) (queued t)"
      using base_dequeue [OF Cons.prems] dequeue_node_queue(1) [OF tree_baseD(2) [OF Cons.prems]] by simp_all
    define t1 where "t1 = (if runnable (state n) then on_node k mark_error ?d else ?d)"
    have t1: "tree_base W t1" "active t1 = active t" "queued t1 = filter (\<lambda>x. x \<noteq> k) (queued t)"
    proof -
      show "tree_base W t1"
      proof (cases "runnable (state n)")
        case True
        then show ?thesis using base_mark_error [OF d(1)] d(2) by (simp add: t1_def)
      next
        case False
        then have "state n \<noteq> PENDING" by auto
        then have "tree_base W ?d" by (intro base_forget [OF d(1)]) (simp add: Some frame_simps)
        with False show ?thesis by (simp add: t1_def)
      qed
    qed (simp_all add: t1_def frame_simps d(2))
    have settled: "settled_on (\<lambda>x. x = k) t t1"
      using Some by (simp add: settled_on_def t1_def frame_simps dict_simps settle_node_def)
    have base_d: "tree_base W ?d" if "\<not> runnable (state n)"
      using that t1(1) by (simp add: t1_def)
    have go: "\<exists>acc'. cancel_affected cl (k # ks) acc t = cancel_affected cl ks acc' t1"
      if "(runnable (state n) \<or> state n = ERROR \<and> map_option (\<lambda>c. ui_node (claim_node c)) cl = Some k)
        \<longrightarrow> (\<exists>u. ui_target_of n = Inr u)"
      using that Some acc by (auto simp: t1_def split: prod.split; blast)
    have IH: "tree_base W (fst (cancel_affected cl ks acc' t1)) \<and>
      active (fst (cancel_affected cl ks acc' t1)) = active t \<and>
      (queued t = [] \<longrightarrow> queued (fst (cancel_affected cl ks acc' t1)) = []) \<and>
      (showable cl t1 \<longrightarrow> (\<exists>acc''. snd (cancel_affected cl ks acc' t1) = Inr acc'')) \<and>
      (\<forall>t' acc''. cancel_affected cl ks acc' t1 = (t', Inr acc'') \<longrightarrow>
        settled_on (\<lambda>x. x \<in> set (k # ks)) t t' \<and>
        queued t' = filter (\<lambda>x. x \<notin> set (k # ks)) (queued t))" for acc'
    proof -
      have "settled_on (\<lambda>x. x \<in> set (k # ks)) t t'" if "settled_on (\<lambda>x. x \<in> set ks) t1 t'" for t'
        using settled_trans [OF settled that] by simp
      moreover have "filter (\<lambda>x. x \<notin> set ks) (queued t1) = filter (\<lambda>x. x \<notin> set (k # ks)) (queued t)"
        unfolding t1(3) filter_filter by (intro filter_cong) auto
      ultimately show ?thesis using Cons.IH [OF t1(1), of acc'] t1(2,3) by fastforce
    qed
    show ?thesis
    proof (cases "\<exists>u. ui_target_of n = Inr u")
      case True
      then obtain u where u: "ui_target_of n = Inr u" by blast
      obtain acc' where step: "cancel_affected cl (k # ks) acc t = cancel_affected cl ks acc' t1"
        using go True by blast
      have "showable cl t \<longrightarrow> showable cl t1"
        using showable_mark [OF _ _ u, of cl ?d k] Some by (auto simp: t1_def showable_dequeue frame_simps)
      with IH [of acc'] show ?thesis unfolding step by blast
    next
      case False
      then have nr: "\<not> runnable (state n)" using runnable_target [OF Cons.prems Some] by blast
      show ?thesis
      proof (cases "state n = ERROR \<and> map_option (\<lambda>c. ui_node (claim_node c)) cl = Some k")
        case True
        obtain e where "ui_target_of n = Inl e" using False by (cases "ui_target_of n") auto
        then have "cancel_affected cl (k # ks) acc t = (?d, Inl e)"
          using True Some nr acc by (simp split: prod.split)
        moreover have "\<not> showable cl t"
          using True False Some by (auto simp: showable_def)
        ultimately show ?thesis using base_d [OF nr] d(2) by (simp add: frame_simps)
      next
        case other: False
        with nr go obtain acc' where step: "cancel_affected cl (k # ks) acc t = cancel_affected cl ks acc' t1"
          by blast
        have "showable cl t1 = showable cl t" using nr by (simp add: t1_def showable_dequeue)
        with IH [of acc'] show ?thesis unfolding step by simp
      qed
    qed
  qed
qed

section \<open>The removal\<close>

lemma base_regraph:
  assumes ok: "tree_base W t" and h: "graph_ok h" "identity h = identity (graph t)"
    and kept: "\<And>k n. tree_node t k = Some n \<Longrightarrow> k \<notin> A \<Longrightarrow>
      \<exists>m. get_node h k = Some m \<and> state m = state n \<and> ui_target_of m = ui_target_of n"
    and pend: "\<And>k m. get_node h k = Some m \<Longrightarrow> state m = PENDING \<Longrightarrow>
      \<exists>n. tree_node t k = Some n \<and> state n = PENDING"
    and q: "set (queued t) \<inter> A = {}"
    and a: "\<And>a. active t = Some a \<Longrightarrow> \<not> cancellation_requested a \<Longrightarrow> ui_node (claim_node (claim a)) \<notin> A"
  shows "tree_base W (t\<lparr>graph := h\<rparr>)"
proof -
  let ?t = "t\<lparr>graph := h\<rparr>"
  have node: "tree_node ?t = get_node h" by (simp add: tree_node_def fun_eq_iff)
  have "claim_ok ?t a" if ac: "active t = Some a" for a
    using claim_ok_cong [OF tree_baseD(5) [OF ok ac], of ?t] kept a [OF ac] h(2)
    unfolding node by (metis (no_types, lifting) message_tree.select_convs(1) message_tree.surjective
        message_tree.update_convs(1) tree_identity_of_def)
  moreover have "\<exists>n. get_node h k = Some n \<and> state n = PENDING" if k: "k \<in> set (queued t)" for k
    using tree_baseD(4) [OF ok k] kept q k by (metis IntI empty_iff)
  moreover have "k \<in> set (queued t) \<or> k \<in> W" if "get_node h k = Some n" "state n = PENDING" for k n
    using pend [OF that] tree_baseD(3) [OF ok] by blast
  ultimately show ?thesis
    using h(1) tree_baseD(2) [OF ok] unfolding tree_base_def node by (simp add: queued_def)
qed

text \<open>The nodes below a message, and the nodes a removal affects.\<close>

definition removed_nodes :: "message_tree \<Rightarrow> string list \<Rightarrow> string list" where
  "removed_nodes t ids = filter (\<lambda>k. tree_node t k \<noteq> None) ids"

definition affected_nodes :: "message_tree \<Rightarrow> message_node \<times> reference_kind \<Rightarrow> string list \<Rightarrow> string list" where
  "affected_nodes t owner ids =
     removed_nodes t ids @ (if snd owner = STATUS then [node_id (fst owner)] else [])"

lemma remove_subtree_unfold:
  assumes "resolve_reference (graph t) r = Some (n, kind)"
    and "get_reference_descendants (graph t) r = Some (r # rs)"
  defines "A \<equiv> affected_nodes t (n, kind) (r # rs)"
  shows "remove_message_subtree ord r t =
    (case cancel_affected (claim_on (\<lambda>k. k \<in> set A) t) (ord A) (False, []) (asked (\<lambda>k. k \<in> set A) t) of
       (t', Inl e) \<Rightarrow> Some (t', Inl e)
     | (t', Inr (changed, targets)) \<Rightarrow>
         (let g = (if kind = STATUS then clear_status (node_id n) (graph t') else graph t');
              t'' = t'\<lparr>graph := remove_nodes (ord (removed_nodes t (r # rs))) g\<rparr>
          in Some (t'', bind_result (queue_update_if changed t'') (\<lambda>update.
               Inr \<lparr>removal_cancellation =
                      \<lparr>cancelled_nodes = targets, cancelled_claim = claim_on (\<lambda>k. k \<in> set A) t,
                       cancel_queue_update = update\<rparr>,
                    removed_message_ids = set (r # rs),
                    removed_entire_tree = (root_id g \<in> set (removed_nodes t (r # rs)))\<rparr>))))"
  using assms(1,2) unfolding A_def affected_nodes_def removed_nodes_def asked_def
  by (simp only: remove_message_subtree_def Let_def option.case prod.case list.case fst_conv snd_conv)

lemma settled_graph:
  assumes "settled_on P t t'"
  shows "graph_children (graph t') = graph_children (graph t)"
    "tree_node t' k = Some m \<Longrightarrow> \<exists>n. tree_node t k = Some n \<and> (m = n \<or> m = settle_node n) \<and>
      parent_reference_id m = parent_reference_id n \<and> status_message_id m = status_message_id n"
proof -
  have "children_ids (settle_node n) = children_ids n" "parent_reference_id (settle_node n) = parent_reference_id n"
    "status_message_id (settle_node n) = status_message_id n" for n
    by (simp_all add: settle_node_def)
  note same = this
  have node: "get_node (graph t') k =
      (if P k then map_option settle_node (get_node (graph t) k) else get_node (graph t) k)" for k
    using assms by (simp add: settled_on_def tree_node_def)
  then show "graph_children (graph t') = graph_children (graph t)"
    by (simp add: graph_children_def fun_eq_iff same split: option.split)
  show "tree_node t' k = Some m \<Longrightarrow> \<exists>n. tree_node t k = Some n \<and> (m = n \<or> m = settle_node n) \<and>
      parent_reference_id m = parent_reference_id n \<and> status_message_id m = status_message_id n"
    unfolding tree_node_def node using same by (cases "get_node (graph t) k"; cases "P k") auto
qed

lemma asked_claim:
  assumes "active (asked P t) = Some a" and "\<not> cancellation_requested a"
  shows "\<not> P (ui_node (claim_node (claim a)))"
  using assms by (auto simp: asked_def claim_on_def request_cancellation_def split: option.splits if_splits)

text \<open>Detaching after the cancellation of the affected nodes keeps the invariant.\<close>

lemma detached_base:
  assumes ok: "tree_base W t" and r: "resolve_reference (graph t) r = Some (n, kind)"
    and ids: "set ids = (edges (reference_children (graph t)))\<^sup>* `` {r}"
    and t': "tree_base W t'" "settled_on (\<lambda>k. k \<in> set A) t t'"
      "queued t' = filter (\<lambda>k. k \<notin> set A) (queued t)"
      "active t' = active (asked (\<lambda>k. k \<in> set A) t)"
    and A: "A = affected_nodes t (n, kind) ids"
    and del: "set del = set (removed_nodes t ids)"
  defines "h \<equiv> remove_nodes del (if kind = STATUS then clear_status (node_id n) (graph t') else graph t')"
  shows "tree_base W (t'\<lparr>graph := h\<rparr>)"
    and "get_node h k = (if k \<in> set (removed_nodes t ids) then None
       else map_option (\<lambda>m. forget_children (set (removed_nodes t ids))
         (if kind = STATUS \<and> k = node_id n then node_clear_status m else m)) (tree_node t k))"
    and "root_id h = root_id (graph t)" "identity h = identity (graph t)"
    and "dkeys (nodes h) = filter (\<lambda>k. k \<notin> set (removed_nodes t ids)) (dkeys (nodes (graph t)))"
proof -
  note gok = tree_baseD(1) [OF ok]
  let ?S = "set (removed_nodes t ids)"
  have S: "?S = {k \<in> set ids. get_node (graph t) k \<noteq> None}"
    by (auto simp: removed_nodes_def tree_node_def)
  have closed: "reply_closed (graph t') (set del)"
    using reference_below(1) [OF gok ids] unfolding del S reply_closed_def settled_graph(1) [OF t'(2)] .
  have owner: "kind = STATUS \<longrightarrow> node_id n \<notin> set del"
    using owner_stays [OF gok ids] r unfolding del S by blast
  have own: "get_node (graph t) (node_id n) = Some n" "kind = STATUS \<Longrightarrow> status_message_id n = Some r"
    using r unfolding resolve_reference_iff [OF gok] by auto
  have r_in: "r \<in> set ids" by (simp add: ids)
  have below: "k' \<in> set del"
    if st: "kind = STATUS" "get_node (graph t') (node_id n) = Some m" "status_message_id m = Some s"
      "get_node (graph t') k' = Some m'" "parent_reference_id m' = Some s" for m k' m' s
  proof -
    obtain n0 where "tree_node t (node_id n) = Some n0" "status_message_id n0 = Some s"
      using settled_graph(2) [OF t'(2), of "node_id n" m] st(2,3) by (auto simp: tree_node_def)
    then have s: "s = r" using own st(1) by (simp add: tree_node_def)
    obtain n' where n': "get_node (graph t) k' = Some n'" "parent_reference_id n' = Some s"
      using settled_graph(2) [OF t'(2), of k' m'] st(4,5) by (auto simp: tree_node_def)
    show ?thesis
      using reference_below(2) [OF gok ids n'(1,2)] r_in s n'(1) unfolding del S by simp
  qed
  then have below': "\<forall>m k' m' s. kind = STATUS \<longrightarrow> get_node (graph t') (node_id n) = Some m \<longrightarrow>
      status_message_id m = Some s \<longrightarrow> get_node (graph t') k' = Some m' \<longrightarrow>
      parent_reference_id m' = Some s \<longrightarrow> k' \<in> set del" by blast
  note h = removed_graph [OF tree_baseD(1) [OF t'(1)] closed owner below', folded h_def]
  have ident: "identity (graph t') = identity (graph t)" and keys: "dkeys (nodes (graph t')) = dkeys (nodes (graph t))"
    using t'(2) by (simp_all add: settled_on_def tree_identity_of_def)
  have root: "root_id (graph t') = root_id (graph t)"
    using graph_okD(3) [OF gok] graph_okD(3) [OF tree_baseD(1) [OF t'(1)]] ident by simp
  show "root_id h = root_id (graph t)" "identity h = identity (graph t)"
    "dkeys (nodes h) = filter (\<lambda>k. k \<notin> ?S) (dkeys (nodes (graph t)))"
    using h(3-5) root ident keys del by simp_all
  have stays: "node_id n \<in> set A" if "kind = STATUS" using that by (simp add: A affected_nodes_def)
  have SA: "?S \<subseteq> set A" by (simp add: A affected_nodes_def)
  show "tree_base W (t'\<lparr>graph := h\<rparr>)"
  proof (rule base_regraph [OF t'(1) h(1)])
    show "identity h = identity (graph t')" by (rule h(4))
    fix k m
    assume m: "tree_node t' k = Some m" "k \<notin> set A"
    then have "k \<notin> set del" "\<not> (kind = STATUS \<and> k = node_id n)" using SA stays unfolding del by blast+
    then have "get_node h k = Some (forget_children (set del) m)"
      using m(1) h(2) [of k] by (auto simp: tree_node_def)
    then show "\<exists>m'. get_node h k = Some m' \<and> state m' = state m \<and> ui_target_of m' = ui_target_of m"
      by (auto simp: ui_target_of_def split: option.split)
  next
    fix k m
    assume "get_node h k = Some m" "state m = PENDING"
    then show "\<exists>n. tree_node t' k = Some n \<and> state n = PENDING"
      unfolding h(2) by (auto simp: tree_node_def split: if_splits)
  next
    show "set (queued t') \<inter> set A = {}" using t'(3) by auto
    show "ui_node (claim_node (claim a)) \<notin> set A" if "active t' = Some a" "\<not> cancellation_requested a" for a
      using asked_claim [of "\<lambda>k. k \<in> set A" t a] that t'(4) by simp
  qed
  show "get_node h k = (if k \<in> ?S then None
       else map_option (\<lambda>m. forget_children ?S
         (if kind = STATUS \<and> k = node_id n then node_clear_status m else m)) (tree_node t k))"
  proof (cases "k \<in> ?S")
    case True
    with del show ?thesis unfolding h(2) by simp
  next
    case False
    have clear: "node_clear_status (settle_node m) = node_clear_status m" for m
      by (simp add: settle_node_def node_clear_status_def mark_error_def update_state_def)
    have node: "get_node (graph t') k = (if k \<in> set A then map_option settle_node (tree_node t k) else tree_node t k)"
      using t'(2) by (simp add: settled_on_def tree_node_def)
    show ?thesis
    proof (cases "k \<in> set A")
      case True
      then have o: "kind = STATUS" "k = node_id n"
        using False by (auto simp: A affected_nodes_def split: if_splits)
      then have "tree_node t k = Some n" "status_message_id (settle_node n) = Some r"
        using own by (simp_all add: tree_node_def settle_node_def)
      with False o True clear del show ?thesis unfolding h(2) node by simp
    next
      case other: False
      then have "\<not> (kind = STATUS \<and> k = node_id n)" using stays by blast
      with False other del show ?thesis unfolding h(2) node by (cases "tree_node t k") auto
    qed
  qed
qed

text \<open>The removal returns, unless the stuck node is among those it affects.\<close>

lemma remove_subtree_effect:
  assumes ok: "tree_base W t" and ord: "set_order ord"
    and r: "resolve_reference (graph t) r = Some (n, kind)"
  shows "\<exists>ids t' res. get_reference_descendants (graph t) r = Some ids \<and>
    set ids = (edges (reference_children (graph t)))\<^sup>* `` {r} \<and>
    remove_message_subtree ord r t = Some (t', res) \<and> tree_base W t' \<and>
    (active t' = None \<longleftrightarrow> active t = None) \<and> (queued t = [] \<longrightarrow> queued t' = []) \<and>
    (showable (claim_on (\<lambda>k. k \<in> set (affected_nodes t (n, kind) ids)) t) t \<longrightarrow>
      (\<exists>rm. res = Inr rm \<and> removed_message_ids rm = set ids \<and>
        (removed_entire_tree rm \<longleftrightarrow> root_id (graph t) \<in> set ids) \<and>
        queued t' = filter (\<lambda>k. k \<notin> set (affected_nodes t (n, kind) ids)) (queued t) \<and>
        active t' = active (asked (\<lambda>k. k \<in> set (affected_nodes t (n, kind) ids)) t) \<and>
        dkeys (nodes (graph t')) =
          filter (\<lambda>k. k \<notin> set (removed_nodes t ids)) (dkeys (nodes (graph t))) \<and>
        (\<forall>k. tree_node t' k = (if k \<in> set (removed_nodes t ids) then None
          else map_option (\<lambda>m. forget_children (set (removed_nodes t ids))
            (if kind = STATUS \<and> k = node_id n then node_clear_status m else m)) (tree_node t k)))))"
proof -
  obtain rs where ids: "get_reference_descendants (graph t) r = Some (r # rs)"
      "set (r # rs) = (edges (reference_children (graph t)))\<^sup>* `` {r}"
    using get_reference_descendants_exact [OF tree_baseD(1) [OF ok], of r] r by auto
  let ?ids = "r # rs"
  let ?A = "affected_nodes t (n, kind) ?ids"
  let ?P = "\<lambda>k. k \<in> set ?A"
  let ?cl = "claim_on ?P t"
  note base = base_asked [OF ok, of ?P]
  obtain t2 res2 where loop: "cancel_affected ?cl (ord ?A) (False, []) (asked ?P t) = (t2, res2)"
    by fastforce
  note eff = cancel_affected_effect [OF base, of ?cl "ord ?A" "(False, [])", unfolded loop fst_conv]
  note unf = remove_subtree_unfold [OF r ids(1), of ord, unfolded loop prod.case]
  have sh: "showable ?cl (asked ?P t) = showable ?cl t" by (simp add: showable_def frame_simps)
  show ?thesis
  proof (cases res2)
    case (Inl e)
    have "remove_message_subtree ord r t = Some (t2, Inl e)" using unf by (simp add: Inl)
    moreover have "\<not> showable ?cl t" using eff Inl sh by auto
    moreover have "active t2 = active (asked ?P t)" using eff by blast
    then have "active t2 = None \<longleftrightarrow> active t = None" by (simp only: asked_frame)
    moreover have "tree_base W t2" "queued t = [] \<longrightarrow> queued t2 = []"
      using eff by (simp_all add: frame_simps)
    ultimately show ?thesis
      using ids by (intro exI [of _ ?ids] exI [of _ t2] exI [of _ "Inl e"]) simp
  next
    case (Inr acc)
    then obtain changed targets where acc: "res2 = Inr (changed, targets)" by (cases acc) simp
    have set_ord: "set (ord ?A) = set ?A" "set (ord (removed_nodes t ?ids)) = set (removed_nodes t ?ids)"
      by (rule set_orderD(1) [OF ord])+
    have base2: "tree_base W t2" and act: "active t2 = active (asked ?P t)"
      and st: "settled_on ?P (asked ?P t) t2" and q2: "queued t2 = filter (\<lambda>k. \<not> ?P k) (queued t)"
      using eff acc by (simp_all add: set_ord frame_simps)
    have st': "settled_on ?P t t2" using st by (simp add: settled_on_def frame_simps)
    define h where "h = remove_nodes (ord (removed_nodes t ?ids))
      (if kind = STATUS then clear_status (node_id n) (graph t2) else graph t2)"
    note det = detached_base [OF ok r ids(2) base2 st' q2 act refl set_ord(2), folded h_def]
    let ?t3 = "t2\<lparr>graph := h\<rparr>"
    obtain upd where upd: "queue_update_if changed ?t3 = Inr upd"
      using queue_update_if_returns [OF det(1)] by blast
    have root2: "root_id (graph t2) = root_id (graph t)"
      using graph_okD(3) [OF tree_baseD(1) [OF base2]] graph_okD(3) [OF tree_baseD(1) [OF ok]] st'
      by (simp add: settled_on_def tree_identity_of_def)
    let ?rm = "\<lparr>removal_cancellation = \<lparr>cancelled_nodes = targets, cancelled_claim = ?cl, cancel_queue_update = upd\<rparr>,
      removed_message_ids = set ?ids, removed_entire_tree = (root_id (graph t) \<in> set (removed_nodes t ?ids))\<rparr>"
    have res: "remove_message_subtree ord r t = Some (?t3, Inr ?rm)"
      unfolding unf acc using upd root2 by (simp add: Let_def h_def frame_simps)
    have ent: "root_id (graph t) \<in> set (removed_nodes t ?ids) \<longleftrightarrow> root_id (graph t) \<in> set ?ids"
      using root_key [OF tree_baseD(1) [OF ok], of "node_id n"] r
      unfolding resolve_reference_iff [OF tree_baseD(1) [OF ok]] removed_nodes_def tree_node_def by auto
    have act3: "active ?t3 = active (asked ?P t)" using act by simp
    then have "active ?t3 = None \<longleftrightarrow> active t = None" by (simp only: asked_frame)
    have q3: "queued ?t3 = filter (\<lambda>k. \<not> ?P k) (queued t)" using q2 by (simp add: queued_def)
    have node3: "tree_node ?t3 k = (if k \<in> set (removed_nodes t ?ids) then None
        else map_option (\<lambda>m. forget_children (set (removed_nodes t ?ids))
          (if kind = STATUS \<and> k = node_id n then node_clear_status m else m)) (tree_node t k))" for k
      using det(2) [of k] by (simp add: tree_node_def)
    have keys3: "dkeys (nodes (graph ?t3)) =
        filter (\<lambda>k. k \<notin> set (removed_nodes t ?ids)) (dkeys (nodes (graph t)))"
      using det(5) by simp
    have "active t2 = active (asked ?P t)" by (rule act)
    have "tree_base W ?t3" by (rule det(1))
    show ?thesis
      by (rule exI [of _ ?ids], rule exI [of _ ?t3], rule exI [of _ "Inr ?rm"],
        intro conjI impI exI [of _ ?rm] allI; (fact | rule node3 keys3 act3 | simp add: ent q3))
  qed
qed

text \<open>Without a stuck node every claim can be shown.\<close>

lemma showable_free:
  assumes "\<not> stuck t"
  shows "showable (claim_on P t) t"
proof -
  have "\<exists>u. ui_target_of n = Inr u"
    if "claim_on P t = Some c" "tree_node t (ui_node (claim_node c)) = Some n" "state n = ERROR" for c n
    using claim_on_cases [of P t] that not_stuck_target [OF assms] by auto
  then show ?thesis by (simp add: showable_def)
qed

text \<open>The removed nodes are the nodes below the reference.\<close>

lemma removed_node_below:
  assumes ok: "tree_base W t" and f: "\<And>m. children_ids (f m) = children_ids m"
  shows "(if k \<in> set (removed_nodes t ids) then None
      else map_option (\<lambda>m. forget_children (set (removed_nodes t ids)) (f m)) (tree_node t k)) =
    (if k \<in> set ids then None else map_option (\<lambda>m. forget_children (set ids) (f m)) (tree_node t k))"
proof (cases "tree_node t k")
  case (Some m)
  have "c \<in> set ids \<longleftrightarrow> c \<in> set (removed_nodes t ids)" if c: "c \<in> set (children_ids m)" for c
    using children_okD [OF graph_ok_children_ok [OF tree_baseD(1) [OF ok]], of k m c] Some c
    by (auto simp: removed_nodes_def tree_node_def)
  then have "filter (\<lambda>c. c \<notin> set (removed_nodes t ids)) (children_ids m) = filter (\<lambda>c. c \<notin> set ids) (children_ids m)"
    by (intro filter_cong) auto
  then have "forget_children (set (removed_nodes t ids)) (f m) = forget_children (set ids) (f m)"
    by (simp add: forget_children_def f)
  with Some show ?thesis by (simp add: removed_nodes_def)
qed (simp add: removed_nodes_def)

end
