(* ===== verification/Tree_Machine.thy ===== *)
theory Tree_Machine
  imports Tree_Removal
begin

text \<open>
  The reports of a running claim keep the invariant too, and never raise. With them a tree is
  a machine: any sequence of operations, in any order, keeps the invariant. The scheduling
  part of a tree refines a first-in first-out scheduler with one slot.
\<close>

section \<open>Removal\<close>

lemma remove_subtree_ok:
  assumes ok: "tree_ok W t" and ord: "set_order ord"
  shows "\<exists>t' res. remove_message_subtree ord r t = Some (t', res) \<and> tree_ok W t'"
proof (cases "resolve_reference (graph t) r")
  case None
  then have "remove_message_subtree ord r t = Some (t, Inr no_removal)"
    by (simp add: remove_message_subtree_def get_reference_descendants_def)
  with ok show ?thesis by blast
next
  case (Some nk)
  then obtain n kind where nk: "resolve_reference (graph t) r = Some (n, kind)" by (cases nk) simp
  from remove_subtree_effect [OF tree_okD(1) [OF ok] ord nk]
  have "\<exists>t' res. remove_message_subtree ord r t = Some (t', res) \<and> tree_base W t' \<and>
      (active t' = None \<longleftrightarrow> active t = None) \<and> (queued t = [] \<longrightarrow> queued t' = [])"
    by (elim exE conjE, intro exI conjI) assumption+
  then show ?thesis using tree_okD(2) [OF ok] unfolding tree_ok_def by metis
qed

lemma remove_subtree_returns:
  assumes ok: "tree_ok W t" and ord: "set_order ord"
  shows "\<exists>t' res. remove_message_subtree ord r t = Some (t', res) \<and> (stuck t \<or> (\<exists>rm. res = Inr rm))"
proof (cases "resolve_reference (graph t) r")
  case None
  then show ?thesis by (simp add: remove_message_subtree_def get_reference_descendants_def)
next
  case (Some nk)
  then obtain n kind where nk: "resolve_reference (graph t) r = Some (n, kind)" by (cases nk) simp
  from remove_subtree_effect [OF tree_okD(1) [OF ok] ord nk] obtain ids t' res where
    "remove_message_subtree ord r t = Some (t', res)"
    "showable (claim_on (\<lambda>k. k \<in> set (affected_nodes t (n, kind) ids)) t) t \<longrightarrow> (\<exists>rm. res = Inr rm)"
    by (elim exE conjE) (rule that, assumption, blast)
  then show ?thesis using showable_free by blast
qed

section \<open>Reports\<close>

text \<open>The claim that may report: its node is there, no longer waiting, and can be shown.\<close>

lemma reporting_nodeD:
  assumes ok: "tree_base W t" and n: "reporting_node cid t = Some n"
  shows "\<exists>a. active t = Some a \<and> claim_id (claim a) = cid \<and> \<not> cancellation_requested a \<and>
    node_id n = ui_node (claim_node (claim a)) \<and> tree_node t (node_id n) = Some n \<and>
    state n \<noteq> PENDING \<and> ui_target_of n = Inr (claim_node (claim a)) \<and> node_id n \<notin> set (queued t)"
proof -
  obtain a where a: "active t = Some a" "claim_id (claim a) = cid" "\<not> cancellation_requested a"
      "tree_node t (ui_node (claim_node (claim a))) = Some n"
    using n by (auto simp: reporting_node_def split: option.splits if_splits)
  moreover have "state n \<noteq> PENDING" "ui_target_of n = Inr (claim_node (claim a))"
    using tree_baseD(5) [OF ok a(1)] a(3,4) by (auto simp: claim_ok_def)
  moreover have "node_id n = ui_node (claim_node (claim a))" by (rule tree_node_facts(1) [OF ok a(4)])
  moreover have "ui_node (claim_node (claim a)) \<notin> set (queued t)"
    using tree_baseD(4) [OF ok, of "ui_node (claim_node (claim a))"] a(4) calculation(5) by auto
  ultimately show ?thesis by auto
qed

lemma reporting_node_present:
  assumes ok: "tree_base W t" and "active t = Some a" "claim_id (claim a) = cid" "\<not> cancellation_requested a"
  shows "\<exists>n. reporting_node cid t = Some n"
  using tree_baseD(5) [OF ok assms(2)] assms(2-4) by (auto simp: claim_ok_def reporting_node_def)

lemma report_ok:
  assumes ok: "tree_ok W t" and n: "reporting_node cid t = Some n" and st: "st \<noteq> PENDING"
  shows "tree_ok W (on_node (node_id n) (update_state st sid) t)"
proof -
  note base = tree_okD(1) [OF ok]
  from reporting_nodeD [OF base n] obtain a :: active_claim where
    a: "tree_node t (node_id n) = Some n" "ui_target_of n = Inr (claim_node (claim a))"
      "node_id n \<notin> set (queued t)" by blast
  have "tree_base W (on_node (node_id n) (update_state st sid) t)"
    by (rule base_settle [OF tree_base_mono [OF base] a(3)])
      (use a st in \<open>auto simp: ui_target_of_def split: option.splits\<close>)
  with tree_okD(2) [OF ok] show ?thesis by (simp add: tree_ok_def frame_simps)
qed

lemma record_session_ok: "tree_ok W t \<Longrightarrow> tree_ok W (fst (record_session cid sid t))"
  using report_ok by (simp add: record_session_def Let_def split: option.split)

lemma complete_claim_ok: "tree_ok W t \<Longrightarrow> tree_ok W (fst (complete_claim cid sid t))"
  using report_ok by (simp add: complete_claim_def Let_def split: option.split)

section \<open>Failure\<close>

definition fail_node :: "message_node \<Rightarrow> message_node" where
  "fail_node n = (if state n = PENDING then mark_error n else n)"

lemma fail_pending_effect:
  assumes "tree_base W t"
  shows "\<exists>t' ch us'. fail_pending ks (c, us) t = (t', Inr (ch, us')) \<and> tree_base W t' \<and>
    active t' = active t \<and> queued t' = filter (\<lambda>k. k \<notin> set ks) (queued t) \<and>
    (\<forall>k. tree_node t' k = (if k \<in> set ks then map_option fail_node (tree_node t k) else tree_node t k))"
  using assms
proof (induction ks arbitrary: t c us)
  case (Cons k ks)
  show ?case
  proof (cases "\<exists>n. tree_node t k = Some n \<and> state n = PENDING")
    case False
    then have "fail_pending (k # ks) (c, us) t = fail_pending ks (c, us) t"
      by (auto split: option.split)
    moreover have "map_option fail_node (tree_node t k) = tree_node t k"
      using False by (cases "tree_node t k") (auto simp: fail_node_def)
    moreover have "k \<notin> set (queued t)" using tree_baseD(4) [OF Cons.prems, of k] False by blast
    then have "filter (\<lambda>x. x \<notin> set (k # ks)) (queued t) = filter (\<lambda>x. x \<notin> set ks) (queued t)"
      by (intro filter_cong) auto
    ultimately show ?thesis using Cons.IH [OF Cons.prems, of c us]
      by (metis (no_types, lifting) set_ConsD list.set_intros(2))
  next
    case True
    then obtain n where n: "tree_node t k = Some n" "state n = PENDING" by blast
    let ?d = "snd (dequeue_node k t)"
    let ?t = "on_node k mark_error ?d"
    have d: "tree_base (insert k W) ?d" "queued ?d = filter (\<lambda>x. x \<noteq> k) (queued t)"
      using base_dequeue [OF Cons.prems] dequeue_node_queue(1) [OF tree_baseD(2) [OF Cons.prems]] by simp_all
    have base: "tree_base W ?t" using base_mark_error [OF d(1)] d(2) by simp
    obtain u where u: "ui_target_of n = Inr u" using runnable_target [OF Cons.prems n(1)] n(2) by auto
    have step: "fail_pending (k # ks) (c, us) t =
        fail_pending ks (fst (dequeue_node k t) \<or> c, us @ [u]) ?t"
      using n u tree_node_facts(1) [OF Cons.prems n(1)] by (simp add: dequeue_on_node)
    have "filter (\<lambda>x. x \<notin> set ks) (queued ?t) = filter (\<lambda>x. x \<notin> set (k # ks)) (queued t)"
      unfolding on_node_frame d(2) filter_filter by (intro filter_cong) auto
    moreover have "(if k' \<in> set ks then map_option fail_node (tree_node ?t k') else tree_node ?t k') =
        (if k' \<in> set (k # ks) then map_option fail_node (tree_node t k') else tree_node t k')" for k'
      using n by (cases "k' = k") (simp_all add: dict_simps frame_simps fail_node_def)
    moreover have "active ?t = active t" by (simp add: frame_simps)
    ultimately show ?thesis
      using Cons.IH [OF base, of "fst (dequeue_node k t) \<or> c" "us @ [u]"] unfolding step by simp
  qed
qed simp

lemma fail_result_returns:
  assumes "tree_base W t"
  shows "\<exists>upd. fail_result (t, Inr (c, us)) =
    (t, Inr \<lparr>affected = us, failure_queue_update = upd,
             failure_snapshot = Some (graph_snapshot (graph t))\<rparr>)"
  using queue_update_if_returns [OF assms, of c] by (auto simp: fail_result_def)

text \<open>What is left of a tree when its active claim fails.\<close>

lemma fail_claim_effect:
  assumes ok: "tree_ok W t" and n: "reporting_node cid t = Some n" and st: "state n \<noteq> COMPLETED"
  shows "\<exists>ids t' us upd. get_descendants (graph t) (node_id n) = Some (node_id n # ids) \<and>
    fail_claim cid propagate t = Some (t', Inr \<lparr>affected = us, failure_queue_update = upd,
      failure_snapshot = Some (graph_snapshot (graph t'))\<rparr>) \<and>
    tree_ok W t' \<and> active t' = active t \<and>
    queued t' = (if propagate then filter (\<lambda>k. k \<notin> set ids) (queued t) else queued t) \<and>
    (\<forall>k. tree_node t' k =
      (if k = node_id n then Some (if state n = ERROR then n else mark_error n)
       else if propagate \<and> k \<in> set ids then map_option fail_node (tree_node t k)
       else tree_node t k))"
proof -
  note base = tree_okD(1) [OF ok]
  from reporting_nodeD [OF base n] obtain a :: active_claim where
    a: "tree_node t (node_id n) = Some n" "ui_target_of n = Inr (claim_node (claim a))"
      "state n \<noteq> PENDING" by blast
  define t1 where "t1 = (if state n \<noteq> ERROR then on_node (node_id n) mark_error t else t)"
  have "on_node (node_id n) mark_error t = on_node (node_id n) (update_state ERROR None) t"
    by (simp add: on_node_def modify_node_def mark_error_def [abs_def])
  then have t1: "tree_ok W t1"
    using ok report_ok [OF ok n, of ERROR None] by (simp add: t1_def)
  note base1 = tree_okD(1) [OF t1]
  have fr: "queued t1 = queued t" "active t1 = active t"
    "tree_node t1 k = (if k = node_id n then Some (if state n = ERROR then n else mark_error n) else tree_node t k)" for k
    using a by (simp_all add: t1_def frame_simps dict_simps)
  obtain ids where ids: "get_descendants (graph t) (node_id n) = Some (node_id n # ids)" "distinct (node_id n # ids)"
    using get_descendants_exact [OF tree_baseD(1) [OF base], of "node_id n" n] a(1) by (auto simp: tree_node_def)
  have kids: "graph_children (graph t1) = graph_children (graph t)"
    unfolding t1_def on_node_def by (simp add: same_links_graph_children)
  have d1: "get_descendants (graph t1) (node_id n) = Some (node_id n # ids)"
    using ids(1) a(1) fr(3) [of "node_id n"] unfolding get_descendants_def kids
    by (simp add: tree_node_def split: if_splits)
  define us where "us = (if state n \<noteq> ERROR then [claim_node (claim a)] else [])"
  have unf: "fail_claim cid propagate t =
      (if propagate then Some (fail_result (fail_pending ids (False, us) t1))
       else Some (fail_result (t1, Inr (False, us))))"
    using n st a(2) d1 by (cases "state n = ERROR") (simp_all add: fail_claim_def Let_def t1_def us_def)
  show ?thesis
  proof (cases propagate)
    case False
    from fail_result_returns [OF base1, of False us] obtain upd where
      "fail_result (t1, Inr (False, us)) = (t1, Inr \<lparr>affected = us, failure_queue_update = upd,
        failure_snapshot = Some (graph_snapshot (graph t1))\<rparr>)" by blast
    with False unf t1 fr ids(1) show ?thesis by auto
  next
    case True
    from fail_pending_effect [OF base1, of ids False us] obtain t2 ch us2 where t2:
      "fail_pending ids (False, us) t1 = (t2, Inr (ch, us2))" "tree_base W t2" "active t2 = active t"
      "queued t2 = filter (\<lambda>k. k \<notin> set ids) (queued t)"
      "\<And>k. tree_node t2 k = (if k \<in> set ids then map_option fail_node (tree_node t1 k) else tree_node t1 k)"
      unfolding fr by blast
    from fail_result_returns [OF t2(2), of ch us2] obtain upd where
      "fail_result (t2, Inr (ch, us2)) = (t2, Inr \<lparr>affected = us2, failure_queue_update = upd,
        failure_snapshot = Some (graph_snapshot (graph t2))\<rparr>)" by blast
    with True unf t2(1) have "fail_claim cid propagate t = Some (t2, Inr \<lparr>affected = us2,
        failure_queue_update = upd, failure_snapshot = Some (graph_snapshot (graph t2))\<rparr>)" by simp
    moreover have "tree_ok W t2" using t2 tree_okD(2) [OF ok] by (simp add: tree_ok_def)
    moreover have "node_id n \<notin> set ids" using ids(2) by simp
    then have "tree_node t2 k = (if k = node_id n then Some (if state n = ERROR then n else mark_error n)
       else if k \<in> set ids then map_option fail_node (tree_node t k) else tree_node t k)" for k
      unfolding t2(5) fr(3) by auto
    ultimately show ?thesis using True t2(3,4) ids(1) by auto
  qed
qed

lemma fail_claim_ok:
  assumes ok: "tree_ok W t"
  shows "\<exists>t' r. fail_claim cid propagate t = Some (t', Inr r) \<and> tree_ok W t'"
proof (cases "reporting_node cid t")
  case None
  with ok show ?thesis by (simp add: fail_claim_def)
next
  case (Some n)
  show ?thesis
  proof (cases "state n = COMPLETED")
    case True
    with Some ok fail_result_returns [OF tree_okD(1) [OF ok], of False "[]"] show ?thesis
      by (auto simp: fail_claim_def)
  next
    case False
    from fail_claim_effect [OF ok Some this, of propagate] show ?thesis by blast
  qed
qed

section \<open>The machine\<close>

datatype tree_event =
    Enqueue string string
  | Add string string message_scope string string string string
  | Finish string string
  | Cancel string
  | Cancel_all
  | Remove string
  | Record string string
  | Complete string "string option"
  | Fail string bool

text \<open>The tree after one operation. A walk that never ends would leave it as it was; the
  lemmas above show that no walk does.\<close>

definition after :: "message_tree \<Rightarrow> (message_tree \<times> 'r) option \<Rightarrow> message_tree" where
  "after t r = (case r of None \<Rightarrow> t | Some (t', _) \<Rightarrow> t')"

fun tree_step :: "(string list \<Rightarrow> string list) \<Rightarrow> message_tree \<Rightarrow> tree_event \<Rightarrow> message_tree" where
  "tree_step ord t (Enqueue cid nid) = fst (enqueue_or_claim cid nid t)"
| "tree_step ord t (Add cid nid sc pr status parent reference) =
     fst (add_and_enqueue cid nid sc pr status parent reference t)"
| "tree_step ord t (Finish cid finished) = fst (finish_and_claim_next cid finished t)"
| "tree_step ord t (Cancel nid) = fst (cancel_node nid t)"
| "tree_step ord t Cancel_all = fst (cancel_all t)"
| "tree_step ord t (Remove r) = after t (remove_message_subtree ord r t)"
| "tree_step ord t (Record cid sid) = fst (record_session cid sid t)"
| "tree_step ord t (Complete cid sid) = fst (complete_claim cid sid t)"
| "tree_step ord t (Fail cid propagate) = after t (fail_claim cid propagate t)"

text \<open>Message ids are not empty; nothing else is asked of the caller.\<close>

fun event_ok :: "message_tree \<Rightarrow> tree_event \<Rightarrow> bool" where
  "event_ok t (Add cid nid sc pr status parent reference) = (nid \<noteq> [] \<and> status \<noteq> [])"
| "event_ok t _ = True"

lemma tree_step_ok:
  assumes ord: "set_order ord" and ok: "tree_ok W t" and e: "event_ok t e"
  shows "tree_ok W (tree_step ord t e)"
proof (cases e)
  case (Remove r)
  with remove_subtree_ok [OF ok ord, of r] show ?thesis by (auto simp: after_def)
next
  case (Fail cid propagate)
  with fail_claim_ok [OF ok, of cid propagate] show ?thesis by (auto simp: after_def)
qed (use assms add_and_enqueue_ok enqueue_ok finish_ok cancel_node_ok cancel_all_ok
    record_session_ok complete_claim_ok in simp_all)

interpretation trees: machine "tree_step ord" event_ok "\<lambda>t. set_order ord \<and> tree_ok W t" for ord W
  by unfold_locales (simp add: tree_step_ok)

lemma new_tree_ok:
  assumes "new_tree (new_node nid sc pr status None None) = Inr t" and "nid \<noteq> []" "status \<noteq> []"
  shows "tree_ok {nid} t" "queued t = []" "active t = None"
proof -
  let ?root = "new_node nid sc pr status None None"
  obtain g where g: "new_graph ?root = Inr g" "t = tree_of_graph g"
    using assms(1) by (auto simp: new_tree_def bind_result_Inr_iff)
  have ok: "graph_ok g"
    by (rule new_graph_ok [OF g(1)]) (use assms in \<open>simp_all add: new_node_def\<close>)
  have nodes: "nodes g = [(nid, ?root)]"
    using g(1) by (auto simp: new_graph_def new_node_def split: if_splits)
  show "queued t = []" "active t = None"
    by (simp_all add: g tree_of_graph_def queued_def queue_items_def empty_queue_def)
  then show "tree_ok {nid} t"
    using ok nq.ok_empty nodes unfolding tree_ok_def tree_base_def
    by (simp add: g tree_of_graph_def queued_def tree_node_def get_node_def)
qed

section \<open>The scheduler\<close>

text \<open>
  What a tree promises its callers: one slot and a line. \<open>scheduled\<close> forgets everything else.
\<close>

type_synonym schedule = "string option \<times> string list"

definition scheduled :: "message_tree \<Rightarrow> schedule" where
  "scheduled t = (map_option (\<lambda>a. ui_node (claim_node (claim a))) (active t), queued t)"

fun sched_admit :: "string \<Rightarrow> schedule \<Rightarrow> schedule" where
  "sched_admit k (None, line) = (Some k, line)"
| "sched_admit k (Some r, line) = (Some r, line @ [k])"

fun sched_finish :: "schedule \<Rightarrow> schedule" where
  "sched_finish (_, []) = (None, [])"
| "sched_finish (_, k # line) = (Some k, line)"

fun sched_leave :: "string list \<Rightarrow> schedule \<Rightarrow> schedule" where
  "sched_leave ks (slot, line) = (slot, filter (\<lambda>k. k \<notin> set ks) line)"

lemma admit_refines:
  assumes ok: "tree_base (insert k W) t" "active t = None \<Longrightarrow> queued t = []"
    and n: "tree_node t k = Some n" "state n = PENDING" "k \<notin> set (queued t)"
  shows "scheduled (fst (enqueue_or_claim cid k t)) = sched_admit k (scheduled t) \<and>
    (\<exists>d. snd (enqueue_or_claim cid k t) = Inr d \<and> accepted d \<and>
      dec_position d = (if active t = None then None else Some (length (queued t) + 1)))"
proof (cases "active t")
  case None
  from enqueue_idle [OF ok(1) None ok(2) [OF None] n(1,2), of cid] obtain c t' where
    "enqueue_or_claim cid k t = (t', Inr \<lparr>dec_claim = Some c, dec_position = None,
      dec_snapshot = Some (graph_snapshot (graph t')), dec_rejection = None\<rparr>)"
    "t' = t\<lparr>graph := modify_node k (update_state IN_PROGRESS None) (graph t),
       active := Some \<lparr>claim = c, cancellation_requested = False\<rparr>\<rparr>" "ui_node (claim_node c) = k" by blast
  with None show ?thesis by (simp add: scheduled_def accepted_def queued_def)
next
  case (Some a)
  then have "active t \<noteq> None" by simp
  from enqueue_busy [OF ok(1) this n(3,1,2), of cid] obtain q where
    "enqueue_or_claim cid k t = (t\<lparr>queue := q\<rparr>, Inr \<lparr>dec_claim = None,
      dec_position = Some (length (queued t) + 1),
      dec_snapshot = Some (graph_snapshot (graph t)), dec_rejection = None\<rparr>)"
    "queue_items q = queued t @ [k]" by blast
  with Some show ?thesis by (simp add: scheduled_def accepted_def queued_def)
qed

lemma finish_refines:
  assumes ok: "tree_ok W t" and a: "active t = Some a" "claim_id (claim a) = finished"
  shows "scheduled (fst (finish_and_claim_next cid finished t)) = sched_finish (scheduled t)"
proof (cases "queued t")
  case Nil
  with finish_last [OF tree_okD(1) [OF ok] a Nil, of cid] show ?thesis
    by (simp add: scheduled_def queued_def)
next
  case (Cons k ks)
  from finish_next [OF tree_okD(1) [OF ok] a Cons, of cid] obtain c t' es where
    "finish_and_claim_next cid finished t = (t', Inr \<lparr>next_claim = Some c, completion_queue = es\<rparr>)"
    "queued t' = ks" "active t' = Some \<lparr>claim = c, cancellation_requested = False\<rparr>"
    "ui_node (claim_node c) = k" by blast
  with Cons show ?thesis by (simp add: scheduled_def)
qed

lemma scheduled_asked: "fst (scheduled (asked P t)) = fst (scheduled t)"
  by (simp add: scheduled_def asked_def request_cancellation_def option.map_comp o_def)

lemma cancel_refines:
  assumes ok: "tree_base W t"
  shows "scheduled (fst (cancel_node k t)) = sched_leave [k] (scheduled t)"
proof -
  have "k \<notin> set (queued t)" if "tree_node t k = None"
    using tree_baseD(4) [OF ok, of k] that by auto
  then have "queued (fst (cancel_node k t)) = filter (\<lambda>x. x \<noteq> k) (queued t)"
    using cancel_node_frame(2) [OF ok, of k] by simp
  moreover have "fst (scheduled (fst (cancel_node k t))) = fst (scheduled (asked (\<lambda>x. x = k) t))"
    by (simp add: cancel_node_after scheduled_def frame_simps split: option.split)
  ultimately show ?thesis by (simp add: scheduled_asked) (simp add: scheduled_def)
qed

end
