(* ===== verification/Snapshot_Restore.thy ===== *)
theory Snapshot_Restore
  imports Tree_Snapshot
begin

text \<open>
  Rebuilding a graph from a snapshot: whatever the snapshot holds, the call returns, and a
  graph it returns satisfies \<open>graph_ok\<close>. The first loop keeps \<open>load_ok\<close>; the second adds the
  children, whose closed form is \<open>linked\<close>; the last check establishes that every node hangs
  below the root.
\<close>

section \<open>What one entry guarantees\<close>

lemma optional_id_nonempty: "optional_id v name = Inr s \<Longrightarrow> s \<noteq> Some []"
  by (cases v) (auto simp: optional_id_def split: if_splits)

lemma required_id_nonempty: "required_id v name = Inr s \<Longrightarrow> s \<noteq> []"
  using optional_id_nonempty [of v name]
  by (auto simp: required_id_def bind_result_Inr_iff split: option.splits)

definition fresh_node_ok :: "message_scope \<Rightarrow> message_node \<Rightarrow> bool" where
  "fresh_node_ok sc n \<longleftrightarrow>
     node_id n \<noteq> [] \<and> scope n = sc \<and> children_ids n = [] \<and>
     status_message_id n \<noteq> Some [] \<and> session_id n \<noteq> Some [] \<and>
     (runnable (state n) \<longrightarrow> status_message_id n \<noteq> None)"

lemma node_from_snapshot_ok:
  assumes "node_from_snapshot data sc = Inr n"
  shows "fresh_node_ok sc n"
proof -
  obtain v where "dget data ''state'' = Some v"
    using assms by (auto simp: node_from_snapshot_def split: option.splits)
  note step = assms [unfolded node_from_snapshot_def this option.case]
  obtain st status where status: "optional_id (jget data ''status_message_id'') ''status_message_id'' = Inr status"
    and run: "\<not> (runnable st \<and> status = None)"
    and fields: "\<exists>parent reference nid session. n = \<lparr>node_id = nid, scope = sc, prompt = [],
        status_message_id = status, state = st, parent_id = parent,
        parent_reference_id = (if reference = None then parent else reference),
        session_id = session, children_ids = []\<rparr> \<and>
      required_id (jget data ''node_id'') ''node_id'' = Inr nid \<and>
      optional_id (jget data ''session_id'') ''session_id'' = Inr session"
    using step
    by (elim bind_result_InrE) (simp only: sum.distinct sum.inject split: if_split_asm,
        elim bind_result_InrE, blast)
  from fields status run show ?thesis
    by (auto simp: fresh_node_ok_def dest!: optional_id_nonempty required_id_nonempty)
qed

lemma load_node_ok:
  assumes "load_node rp sc key j = Inr n"
  shows "fresh_node_ok sc n" and "node_id n = key"
  using assms node_from_snapshot_ok
  by (auto simp: load_node_def bind_result_Inr_iff split: json.splits if_splits)

section \<open>The first loop\<close>

definition owners_ok :: "message_graph \<Rightarrow> (string, string) dict \<Rightarrow> bool" where
  "owners_ok g owner \<longleftrightarrow>
     (\<forall>r k. dget owner r = Some k \<longleftrightarrow>
        (\<exists>n. get_node g k = Some n \<and> (r = k \<or> status_message_id n = Some r)))"

definition load_ok :: "message_graph \<Rightarrow> (string, string) dict \<Rightarrow> bool" where
  "load_ok g owner \<longleftrightarrow>
     index_ok g \<and> owners_ok g owner \<and>
     (\<forall>k n. get_node g k = Some n \<longrightarrow> node_id n = k \<and> status_message_id n \<noteq> Some k \<and>
        fresh_node_ok (identity_scope (identity g)) n) \<and>
     nodes g \<noteq> [] \<and> hd (dkeys (nodes g)) = root_id g \<and> identity_root (identity g) = root_id g"

lemma load_okD:
  assumes "load_ok g owner"
  shows "index_ok g" and "get_node g k = Some n \<Longrightarrow> node_id n = k"
    and "get_node g k = Some n \<Longrightarrow> status_message_id n \<noteq> Some k"
    and "get_node g k = Some n \<Longrightarrow> fresh_node_ok (identity_scope (identity g)) n"
    and "dget owner r = Some k \<longleftrightarrow>
      (\<exists>n. get_node g k = Some n \<and> (r = k \<or> status_message_id n = Some r))"
    and "nodes g \<noteq> []" and "hd (dkeys (nodes g)) = root_id g" and "identity_root (identity g) = root_id g"
  using assms unfolding load_ok_def owners_ok_def by blast+

lemma load_ok_new_graph:
  assumes "new_graph root = Inr g" and "fresh_node_ok (scope root) root"
  shows "load_ok g ((node_id root, node_id root) #
    (case status_message_id root of None \<Rightarrow> [] | Some st \<Rightarrow> [(st, node_id root)]))"
proof -
  have g: "nodes g = [(node_id root, root)]" "root_id g = node_id root"
      "identity g = \<lparr>identity_scope = scope root, identity_root = node_id root\<rparr>"
      "status_to_node g = (case status_message_id root of None \<Rightarrow> [] | Some s \<Rightarrow> [(s, node_id root)])"
    and ne: "status_message_id root \<noteq> Some (node_id root)"
    using assms(1) by (auto simp: new_graph_def split: if_splits)
  have get: "get_node g k = (if k = node_id root then Some root else None)" for k
    by (simp add: get_node_def g)
  show ?thesis
    using assms(2) ne unfolding load_ok_def index_ok_def owners_ok_def get
    by (cases "status_message_id root") (auto simp: g)
qed

lemma claim_references_Inr:
  assumes "claim_references n owner = Inr owner'"
  shows "dget owner' r =
      (if r = node_id n \<or> status_message_id n = Some r then Some (node_id n) else dget owner r)"
    and "r = node_id n \<or> status_message_id n = Some r \<Longrightarrow> dget owner r \<in> {None, Some (node_id n)}"
proof -
  let ?refs = "node_id n # (case status_message_id n of None \<Rightarrow> [] | Some s \<Rightarrow> [s])"
  have all: "\<forall>r \<in> set ?refs. dget owner r \<in> {None, Some (node_id n)}"
    and owner': "owner' = fold (\<lambda>r d. dset r (node_id n) d) ?refs owner"
    using assms unfolding claim_references_def Let_def by (simp_all split: if_split_asm)
  have refs: "r \<in> set ?refs \<longleftrightarrow> r = node_id n \<or> status_message_id n = Some r" for r
    by (cases "status_message_id n") auto
  show "dget owner' r =
      (if r = node_id n \<or> status_message_id n = Some r then Some (node_id n) else dget owner r)"
    by (cases "status_message_id n") (auto simp: owner' update_conv')
  show "dget owner r \<in> {None, Some (node_id n)}" if "r = node_id n \<or> status_message_id n = Some r"
  proof -
    have "r \<in> set ?refs" using refs [of r] that by simp
    then show ?thesis by (rule bspec [OF all])
  qed
qed

lemma load_entry_get:
  assumes "get_node g nid = None"
  shows "get_node (g\<lparr>nodes := dset nid n (nodes g), status_to_node := d\<rparr>) k =
    (if k = nid then Some n else get_node g k)"
  using assms by (simp add: get_node_def update_conv')

lemma load_entry_ok:
  assumes ok: "load_ok g owner" and step: "load_entry rp e (g, owner) = Inr (g', owner')"
  shows "load_ok g' owner' \<and> root_id g' = root_id g \<and> identity g' = identity g \<and>
    get_node g' (root_id g) = get_node g (root_id g)"
proof -
  obtain key j where e: "e = (key, j)" by (cases e)
  show ?thesis
  proof (cases "key = root_id g")
    case True
    then show ?thesis using step ok by (simp add: e load_entry_def)
  next
    case False
    then obtain n where n: "load_node rp (identity_scope (identity g)) key j = Inr n"
        and ne: "status_message_id n \<noteq> Some (node_id n)" and new: "get_node g (node_id n) = None"
        and own: "claim_references n owner = Inr owner'"
        and g': "g' = g\<lparr>nodes := dset (node_id n) n (nodes g),
          status_to_node := (case status_message_id n of None \<Rightarrow> status_to_node g
            | Some s \<Rightarrow> dset s (node_id n) (status_to_node g))\<rparr>"
      using step by (auto simp: e load_entry_def bind_result_Inr_iff split: if_splits)
    have key: "node_id n = key" and fresh: "fresh_node_ok (identity_scope (identity g)) n"
      using load_node_ok [OF n] by simp_all
    have get: "get_node g' k = (if k = key then Some n else get_node g k)" for k
      using load_entry_get [OF new] by (simp add: g' key)
    have unowned: "dget owner r = None" if "r = key \<or> status_message_id n = Some r" for r
    proof -
      have "dget owner r \<noteq> Some key" using load_okD(5) [OF ok, of r key] new key by auto
      with claim_references_Inr(2) [OF own, of r] that key show ?thesis by auto
    qed
    have unused: "\<not> (get_node g k = Some m \<and> status_message_id m = Some s)"
      if "status_message_id n = Some s" for k m s
      using unowned [of s] that load_okD(5) [OF ok, of s k] by auto
    have keys: "key \<notin> set (dkeys (nodes g))"
      using new key by (simp add: get_node_def map_of_eq_None_iff)
    have "index_ok g'"
    proof -
      have st: "dget (status_to_node g') s =
          (if status_message_id n = Some s then Some key else dget (status_to_node g) s)" for s
        by (auto simp: g' key update_conv' split: option.split)
      have "distinct (dkeys (status_to_node g'))"
        using index_okD(2) [OF load_okD(1) [OF ok]]
        by (simp add: g' distinct_update split: option.split)
      moreover have "distinct (dkeys (nodes g'))"
        using index_okD(1) [OF load_okD(1) [OF ok]] by (simp add: g' distinct_update)
      moreover have "dget (status_to_node g') s = Some k \<longleftrightarrow>
          (\<exists>m. get_node g' k = Some m \<and> status_message_id m = Some s)" for s k
      proof (cases "k = key")
        case True
        have "dget (status_to_node g) s \<noteq> Some key"
          using index_okD(3) [OF load_okD(1) [OF ok], of s key] new key by simp
        with True show ?thesis by (simp add: st get)
      next
        case False
        have "dget (status_to_node g) s \<noteq> Some k" if "status_message_id n = Some s"
          using index_okD(3) [OF load_okD(1) [OF ok], of s k] unused [OF that] by blast
        with False show ?thesis
          using index_okD(3) [OF load_okD(1) [OF ok], of s k] by (simp add: st get)
      qed
      ultimately show ?thesis by (simp add: index_ok_def)
    qed
    moreover have "owners_ok g' owner'"
    proof -
      have "dget owner' r = Some k \<longleftrightarrow>
          (\<exists>m. get_node g' k = Some m \<and> (r = k \<or> status_message_id m = Some r))" for r k
      proof (cases "k = key")
        case True
        have "dget owner r \<noteq> Some key"
          using load_okD(5) [OF ok, of r key] new key by simp
        with True show ?thesis
          by (simp add: claim_references_Inr(1) [OF own] get key)
      next
        case False
        show ?thesis
        proof (cases "r = key \<or> status_message_id n = Some r")
          case True
          then show ?thesis
            using False load_okD(5) [OF ok, of r k] unowned [of r]
            by (simp add: claim_references_Inr(1) [OF own] get key)
        next
          case other: False
          then show ?thesis
            using False load_okD(5) [OF ok, of r k]
            by (simp add: claim_references_Inr(1) [OF own] get key)
        qed
      qed
      then show ?thesis unfolding owners_ok_def by blast
    qed
    moreover have "root_id g \<in> set (dkeys (nodes g))"
      using load_okD(6,7) [OF ok] by (metis hd_in_set map_is_Nil_conv)
    then have "get_node g' (root_id g) = get_node g (root_id g)" using keys get by auto
    moreover have "nodes g' = nodes g @ [(key, n)]"
      using keys by (simp add: g' key dset_new)
    moreover have "node_id m = k \<and> status_message_id m \<noteq> Some k \<and>
        fresh_node_ok (identity_scope (identity g)) m" if "get_node g' k = Some m" for k m
    proof (cases "k = key")
      case True
      then show ?thesis using that fresh ne key by (simp add: get)
    next
      case False
      then have "get_node g k = Some m" using that by (simp add: get)
      then show ?thesis using load_okD(2-4) [OF ok] by blast
    qed
    moreover have "root_id g' = root_id g" "identity g' = identity g" by (simp_all add: g')
    moreover have "nodes g' \<noteq> []" "hd (dkeys (nodes g')) = root_id g"
      using load_okD(6,7) [OF ok] \<open>nodes g' = nodes g @ [(key, n)]\<close> by (simp_all add: hd_append)
    ultimately show ?thesis
      using load_okD(8) [OF ok] unfolding load_ok_def by metis
  qed
qed

lemma load_entries_ok:
  "load_ok g owner \<Longrightarrow> load_entries rp es (g, owner) = Inr (g', owner') \<Longrightarrow>
    load_ok g' owner' \<and> root_id g' = root_id g \<and> identity g' = identity g \<and>
    get_node g' (root_id g) = get_node g (root_id g)"
proof (induction es arbitrary: g owner)
  case (Cons e es)
  then obtain g1 owner1 where "load_entry rp e (g, owner) = Inr (g1, owner1)"
      "load_entries rp es (g1, owner1) = Inr (g', owner')"
    by (auto simp: bind_result_Inr_iff)
  with load_entry_ok [OF Cons.prems(1)] Cons.IH [of g1 owner1] show ?case by auto
qed simp

section \<open>The second loop\<close>

definition parent_of :: "message_graph \<Rightarrow> string \<Rightarrow> string option" where
  "parent_of g k = (case get_node g k of None \<Rightarrow> None | Some n \<Rightarrow> parent_id n)"

text \<open>The graph once the nodes of a list were linked to their parents.\<close>

definition with_children :: "message_graph \<Rightarrow> string list \<Rightarrow> string \<Rightarrow> message_node \<Rightarrow> message_node" where
  "with_children g P k n = n\<lparr>children_ids := filter (\<lambda>c. parent_of g c = Some k) P\<rparr>"

lemma with_children_fields [simp]:
  "node_id (with_children g P k n) = node_id n" "scope (with_children g P k n) = scope n"
  "status_message_id (with_children g P k n) = status_message_id n"
  "state (with_children g P k n) = state n" "parent_id (with_children g P k n) = parent_id n"
  "parent_reference_id (with_children g P k n) = parent_reference_id n"
  "session_id (with_children g P k n) = session_id n"
  "prompt (with_children g P k n) = prompt n"
  "children_ids (with_children g P k n) = filter (\<lambda>c. parent_of g c = Some k) P"
  by (simp_all add: with_children_def)

definition linked :: "message_graph \<Rightarrow> string list \<Rightarrow> message_graph" where
  "linked g P = g\<lparr>nodes := map (\<lambda>(k, n). (k, with_children g P k n)) (nodes g)\<rparr>"

lemma linked_frame [frame_simps]:
  "root_id (linked g P) = root_id g" "identity (linked g P) = identity g"
  "status_to_node (linked g P) = status_to_node g"
  "dkeys (nodes (linked g P)) = dkeys (nodes g)"
  by (auto simp: linked_def)

lemma get_linked: "get_node (linked g P) k = map_option (with_children g P k) (get_node g k)"
proof -
  have "dget (map (\<lambda>(k, n). (k, f k n)) d) k = map_option (f k) (dget d k)"
    for f :: "string \<Rightarrow> message_node \<Rightarrow> message_node" and d
    by (induction d) auto
  then show ?thesis by (simp add: get_node_def linked_def)
qed

lemma resolve_linked:
  "map_option (\<lambda>(n, kind). node_id n) (resolve_reference (linked g P) r) =
   map_option (\<lambda>(n, kind). node_id n) (resolve_reference g r)"
proof -
  have status: "find_node_by_status_message (linked g P) r =
      map_option (with_children g P (the (dget (status_to_node g) r))) (find_node_by_status_message g r)"
    by (simp add: find_node_by_status_message_def Let_def frame_simps get_linked)
  show ?thesis
    by (cases "get_node g r"; cases "find_node_by_status_message g r")
      (simp_all add: resolve_reference_def get_linked status)
qed

lemma linked_snoc:
  assumes "parent_of g k = Some p"
  shows "modify_node p (\<lambda>pn. pn\<lparr>children_ids := children_ids pn @ [k]\<rparr>) (linked g P) = linked g (P @ [k])"
  using assms by (simp add: modify_node_def linked_def dmodify_def with_children_def case_prod_unfold o_def)

text \<open>What the second loop checks of a node.\<close>

definition link_ok :: "message_graph \<Rightarrow> string \<Rightarrow> bool" where
  "link_ok g k \<longleftrightarrow>
     k = root_id g \<or>
     (\<exists>n p r. get_node g k = Some n \<and> parent_id n = Some p \<and> get_node g p \<noteq> None \<and>
        parent_reference_id n = Some r \<and>
        map_option (\<lambda>(n, kind). node_id n) (resolve_reference g r) = Some p)"

lemma link_node_ok:
  assumes "distinct (dkeys (nodes g))" and "parent_of g (root_id g) = None" and "link_ok g k"
  shows "link_node k (linked g P) = Inr (linked g (P @ [k]))"
proof (cases "k = root_id g")
  case True
  then have "with_children g (P @ [k]) = with_children g P"
    using assms(2) by (simp add: with_children_def fun_eq_iff)
  with True show ?thesis by (simp add: link_node_def frame_simps linked_def)
next
  case False
  then obtain n p r where n: "get_node g k = Some n" "parent_id n = Some p" "get_node g p \<noteq> None"
      "parent_reference_id n = Some r"
      and r: "map_option (\<lambda>(n, kind). node_id n) (resolve_reference g r) = Some p"
    using assms(3) unfolding link_ok_def by blast
  obtain owner kind where "resolve_reference (linked g P) r = Some (owner, kind)" "node_id owner = p"
    using r resolve_linked [of g P r] by auto
  then show ?thesis
    using n False linked_snoc [of g k p P]
    by (simp add: link_node_def frame_simps get_linked parent_of_def)
qed

lemma link_node_Inr:
  assumes "link_node k (linked g P) = Inr h" and "get_node g k \<noteq> None"
  shows "link_ok g k"
proof (cases "k = root_id g")
  case False
  obtain n where n: "get_node g k = Some n" using assms(2) by auto
  obtain p where p: "parent_id n = Some p" "get_node g p \<noteq> None"
    using assms(1) n False
    by (cases "parent_id n") (auto simp: link_node_def frame_simps get_linked split: if_splits)
  obtain r where r: "parent_reference_id n = Some r"
    using assms(1) n p False
    by (cases "parent_reference_id n") (auto simp: link_node_def frame_simps get_linked)
  obtain owner kind where "resolve_reference (linked g P) r = Some (owner, kind)" "node_id owner = p"
    using assms(1) n p r False
    by (cases "resolve_reference (linked g P) r")
      (auto simp: link_node_def frame_simps get_linked split: if_splits)
  then have "map_option (\<lambda>(n, kind). node_id n) (resolve_reference g r) = Some p"
    using resolve_linked [of g P r] by simp
  with n p r show ?thesis unfolding link_ok_def by blast
qed (simp add: link_ok_def)

lemma link_nodes_ok:
  assumes "distinct (dkeys (nodes g))" and "parent_of g (root_id g) = None"
  shows "\<forall>k \<in> set ks. link_ok g k \<Longrightarrow> link_nodes ks (linked g P) = Inr (linked g (P @ ks))"
  by (induction ks arbitrary: P) (simp_all add: link_node_ok [OF assms])

lemma link_nodes_Inr:
  assumes "distinct (dkeys (nodes g))" and "parent_of g (root_id g) = None"
  shows "\<forall>k \<in> set ks. get_node g k \<noteq> None \<Longrightarrow> link_nodes ks (linked g P) = Inr h \<Longrightarrow>
    \<forall>k \<in> set ks. link_ok g k"
proof (induction ks arbitrary: P)
  case (Cons k ks)
  obtain h1 where h1: "link_node k (linked g P) = Inr h1" "link_nodes ks h1 = Inr h"
    using Cons.prems(2) by (auto elim: bind_result_InrE)
  then have ok: "link_ok g k" using link_node_Inr Cons.prems(1) by simp
  with h1 link_node_ok [OF assms ok, of P] have "link_nodes ks (linked g (P @ [k])) = Inr h" by simp
  with Cons.IH Cons.prems(1) ok show ?case by simp
qed simp

lemma linked_Nil:
  assumes "load_ok g owner"
  shows "linked g [] = g"
proof -
  have "with_children g [] k n = n" if "(k, n) \<in> set (nodes g)" for k n
  proof -
    have "children_ids n = []"
      using load_okD(4) [OF assms, of k n] that load_okD(1) [OF assms]
      by (simp add: get_node_in fresh_node_ok_def)
    then show ?thesis by (simp add: with_children_def)
  qed
  then have "map (\<lambda>(k, n). (k, with_children g [] k n)) (nodes g) = nodes g"
    by (auto intro!: map_idI)
  then show ?thesis by (simp add: linked_def)
qed

section \<open>The last check\<close>

lemma linked_children:
  assumes "index_ok g" and "\<forall>k \<in> set (dkeys (nodes g)). link_ok g k" and "parent_of g (root_id g) = None"
  shows "c \<in> set (graph_children (linked g (dkeys (nodes g))) p) \<longleftrightarrow> parent_of g c = Some p"
proof -
  have "get_node g p \<noteq> None" if c: "parent_of g c = Some p"
  proof -
    obtain n where n: "get_node g c = Some n" "parent_id n = Some p"
      using c by (auto simp: parent_of_def split: option.splits)
    then have "link_ok g c" "c \<noteq> root_id g"
      using assms(2,3) get_node_keyD [OF n(1)] by (auto simp: parent_of_def)
    with n show ?thesis by (auto simp: link_ok_def)
  qed
  moreover have "c \<in> set (dkeys (nodes g))" if "parent_of g c = Some p"
    using that get_node_iff_key [of g c] by (simp add: parent_of_def split: option.splits)
  ultimately show ?thesis
    by (cases "get_node g p") (auto simp: graph_children_def get_linked)
qed

lemma check_connected_returns:
  assumes idx: "index_ok g" and link: "\<forall>k \<in> set (dkeys (nodes g)). link_ok g k"
    and root: "parent_of g (root_id g) = None" and k: "root_id g \<in> set (dkeys (nodes g))"
  defines "h \<equiv> linked g (dkeys (nodes g))"
  shows "\<exists>r. get_descendants h (root_id h) = Some r \<and>
    set r = (edges (graph_children h))\<^sup>* `` {root_id g}"
proof -
  note kids = linked_children [OF idx link root, folded h_def]
  have "distinct (graph_children h p)" for p
    using index_okD(1) [OF idx]
    by (cases "get_node g p") (simp_all add: graph_children_def h_def get_linked)
  then have forest: "forest (graph_children h)" by (auto simp: forest_def kids)
  have "root_id g \<notin> set (graph_children h y)" for y using root by (simp add: kids)
  moreover have "(edges (graph_children h))\<^sup>* `` {root_id g} \<subseteq> set (dkeys (nodes g))"
  proof -
    have "y \<in> set (dkeys (nodes g))" if "(root_id g, y) \<in> (edges (graph_children h))\<^sup>*" for y
      using that
    proof induction
      case (step y z)
      then have "parent_of g z = Some y" by (simp add: kids)
      then show ?case using get_node_iff_key [of g z] by (simp add: parent_of_def split: option.splits)
    qed (rule k)
    then show ?thesis by blast
  qed
  then have "finite ((edges (graph_children h))\<^sup>* `` {root_id g})"
    by (rule finite_subset) simp
  ultimately obtain r where r: "dfs (graph_children h) [root_id g] [] = Some (root_id g # r)"
      "set (root_id g # r) = (edges (graph_children h))\<^sup>* `` {root_id g}"
    using dfs_visits_subtree [OF forest, of "root_id g"] by blast
  have "get_node h (root_id g) \<noteq> None"
    using k get_node_iff_key [of g "root_id g"] by (simp add: h_def get_linked)
  with r show ?thesis by (auto simp: get_descendants_def h_def frame_simps)
qed

lemma child_keys_linked: "child_keys (nodes (linked g P)) p = child_keys (nodes g) p"
proof -
  have "child_keys (map (\<lambda>(k, n). (k, with_children g P k n)) ns) p = child_keys ns p" for ns
    by (induction ns) (auto simp: child_keys_def)
  then show ?thesis by (simp add: linked_def)
qed

lemma filter_parent_child_keys:
  assumes "index_ok g"
  shows "filter (\<lambda>c. parent_of g c = Some k) (dkeys (nodes g)) = child_keys (nodes g) k"
proof -
  have "map fst (filter (\<lambda>x. parent_of g (fst x) = Some k) ns) = child_keys ns k"
    if "set ns \<subseteq> set (nodes g)" for ns
    using that
  proof (induction ns)
    case (Cons kn ns)
    then have "get_node g (fst kn) = Some (snd kn)" using assms by (simp add: get_node_in)
    with Cons show ?case by (simp add: child_keys_def parent_of_def split_def)
  qed (simp add: child_keys_def)
  from this [OF subset_refl] show ?thesis by (simp add: filter_map o_def)
qed

lemma linked_graph_ok:
  assumes ok: "load_ok g owner" and link: "\<forall>k \<in> set (dkeys (nodes g)). link_ok g k"
    and root: "\<And>n. get_node g (root_id g) = Some n \<Longrightarrow> parent_id n = None \<and> parent_reference_id n = None"
    and all: "set (dkeys (nodes g)) \<subseteq> (edges (graph_children (linked g (dkeys (nodes g)))))\<^sup>* `` {root_id g}"
  shows "graph_ok (linked g (dkeys (nodes g)))"
proof -
  let ?h = "linked g (dkeys (nodes g))"
  note idx = load_okD(1) [OF ok]
  have "(\<exists>n. get_node ?h k = Some n \<and> status_message_id n = s) \<longleftrightarrow>
      (\<exists>n. get_node g k = Some n \<and> status_message_id n = s)" for k s
    by (cases "get_node g k") (simp_all add: get_linked)
  then have "index_ok ?h" using idx unfolding index_ok_def frame_simps by simp
  moreover have "node_ok ?h k m" if h: "get_node ?h k = Some m" for k m
  proof -
    have "map_option (with_children g (dkeys (nodes g)) k) (get_node g k) = Some m"
      using h by (simp add: get_linked)
    then obtain n where n: "get_node g k = Some n" and m: "m = with_children g (dkeys (nodes g)) k n"
      unfolding map_option_eq_Some by blast
    have fresh: "fresh_node_ok (identity_scope (identity g)) n" "node_id n = k" "status_message_id n \<noteq> Some k"
      using load_okD(2-4) [OF ok n] by simp_all
    have "link_ok g k" using link get_node_keyD [OF n] by blast
    have "parent_ok ?h k m"
    proof (cases "k = root_id g")
      case True
      then show ?thesis using root n m by (simp add: parent_ok_def frame_simps)
    next
      case False
      then obtain p r owner kind where p: "parent_id n = Some p" "parent_reference_id n = Some r"
          "resolve_reference g r = Some (owner, kind)" "node_id owner = p"
        using \<open>link_ok g k\<close> n by (auto simp: link_ok_def)
      have "get_node g p = Some owner \<and> (r = p \<or> status_message_id owner = Some r)"
      proof (cases "get_node g r")
        case None
        then obtain q where q: "dget (status_to_node g) r = Some q" "get_node g q = Some owner"
          using p(3) by (auto simp: resolve_reference_def find_node_by_status_message_def Let_def
            truthy_def split: option.splits if_splits)
        then have "status_message_id owner = Some r" using index_okD(3) [OF idx, of r q] by auto
        with q p(4) load_okD(2) [OF ok q(2)] show ?thesis by simp
      next
        case (Some m')
        then show ?thesis using p load_okD(2) [OF ok Some] by (simp add: resolve_reference_def)
      qed
      with False p m show ?thesis by (auto simp: parent_ok_def frame_simps get_linked)
    qed
    moreover have "s \<noteq> [] \<and> get_node ?h s = None" if s: "status_message_id n = Some s" for s
    proof -
      have "dget owner s = Some k" using load_okD(5) [OF ok, of s k] n s by blast
      then have "get_node g s = None"
        using load_okD(5) [OF ok, of s s] fresh(3) s by (cases "get_node g s") auto
      then show ?thesis using fresh(1) s by (auto simp: fresh_node_ok_def get_linked)
    qed
    ultimately show ?thesis
      using fresh m filter_parent_child_keys [OF idx, of k]
      by (simp add: node_ok_def fresh_node_ok_def frame_simps child_keys_linked)
  qed
  moreover have "rooted ?h"
    unfolding rooted_def linked_frame using load_okD(7) [OF ok] all by blast
  ultimately show ?thesis
    using load_okD(8) [OF ok] by (simp add: graph_ok_def frame_simps)
qed

lemma load_graph_Inr:
  assumes "load_graph rp s = Inr h"
  shows "\<exists>g owner. load_ok g owner \<and> h = linked g (dkeys (nodes g)) \<and>
    (\<forall>k \<in> set (dkeys (nodes g)). link_ok g k) \<and>
    (\<forall>n. get_node g (root_id g) = Some n \<longrightarrow> parent_id n = None \<and> parent_reference_id n = None) \<and>
    root_id g = snap_root s \<and> identity_scope (identity g) = snap_scope s"
proof -
  obtain j root g0 g owner where j: "dget (snap_nodes s) (snap_root s) = Some j"
    and root: "load_node rp (snap_scope s) (snap_root s) j = Inr root"
    and g0: "new_graph root = Inr g0"
    and g: "load_entries rp (snap_nodes s) (g0, (node_id root, node_id root) #
        (case status_message_id root of None \<Rightarrow> [] | Some st \<Rightarrow> [(st, node_id root)])) = Inr (g, owner)"
    and none: "parent_id root = None" "parent_reference_id root = None"
    and h: "link_nodes (dkeys (nodes g)) g = Inr h"
    using assms by (auto simp: load_graph_def split: option.splits sum.splits if_splits
        elim!: bind_result_InrE)
  have fresh: "fresh_node_ok (snap_scope s) root" "node_id root = snap_root s"
    using load_node_ok [OF root] by simp_all
  then have "load_ok g0 ((node_id root, node_id root) #
      (case status_message_id root of None \<Rightarrow> [] | Some st \<Rightarrow> [(st, node_id root)]))"
    by (intro load_ok_new_graph [OF g0]) (simp add: fresh_node_ok_def)
  from load_entries_ok [OF this g] have ok: "load_ok g owner" and fr: "root_id g = root_id g0"
      "identity g = identity g0" "get_node g (root_id g0) = get_node g0 (root_id g0)"
    by simp_all
  have g0': "root_id g0 = node_id root" "nodes g0 = [(node_id root, root)]"
      "identity_scope (identity g0) = scope root"
    using g0 by (auto simp: new_graph_def split: if_splits)
  have getroot: "get_node g (root_id g) = Some root"
    using fr g0' by (simp add: get_node_def)
  have "parent_of g (root_id g) = None" by (simp add: parent_of_def getroot none)
  note link = index_okD(1) [OF load_okD(1) [OF ok]] this
  have "link_nodes (dkeys (nodes g)) (linked g []) = Inr h" using h linked_Nil [OF ok] by simp
  moreover have "\<forall>k \<in> set (dkeys (nodes g)). get_node g k \<noteq> None"
    using get_node_iff_key by blast
  ultimately have all: "\<forall>k \<in> set (dkeys (nodes g)). link_ok g k"
    using link_nodes_Inr [OF link] by blast
  then have "h = linked g (dkeys (nodes g))"
    using link_nodes_ok [OF link all, of "[]"] h linked_Nil [OF ok] by simp
  with ok all getroot none fr g0' fresh show ?thesis
    by (intro exI [of _ g] exI [of _ owner]) (auto simp: fresh_node_ok_def)
qed

lemma graph_from_snapshot_total:
  "\<exists>r. graph_from_snapshot rp s = Some r \<and> (case r of Inl e \<Rightarrow> True | Inr g \<Rightarrow>
     graph_ok g \<and> nodes g \<noteq> [] \<and> root_id g = snap_root s \<and>
     identity_scope (identity g) = snap_scope s)"
proof (cases "load_graph rp s")
  case (Inr h)
  from load_graph_Inr [OF Inr] obtain g owner where ok: "load_ok g owner"
    and h: "h = linked g (dkeys (nodes g))" and link: "\<forall>k \<in> set (dkeys (nodes g)). link_ok g k"
    and root: "\<forall>n. get_node g (root_id g) = Some n \<longrightarrow> parent_id n = None \<and> parent_reference_id n = None"
    and fr: "root_id g = snap_root s" "identity_scope (identity g) = snap_scope s"
    by blast
  have "root_id g \<in> set (dkeys (nodes g))"
    using load_okD(6,7) [OF ok] by (metis hd_in_set map_is_Nil_conv)
  moreover have "parent_of g (root_id g) = None" using root by (simp add: parent_of_def split: option.split)
  ultimately obtain r where r: "get_descendants h (root_id h) = Some r"
      "set r = (edges (graph_children h))\<^sup>* `` {root_id g}"
    using check_connected_returns [OF load_okD(1) [OF ok] link] unfolding h by blast
  have "graph_ok h" if "set r = set (dkeys (nodes h))"
    unfolding h using linked_graph_ok [OF ok link] root r(2) that
    by (simp add: h linked_frame)
  moreover have "nodes h \<noteq> []" using load_okD(6) [OF ok] by (simp add: h linked_def)
  ultimately show ?thesis
    using fr r(1) by (simp add: graph_from_snapshot_def Inr check_connected_def h linked_frame)
qed (simp add: graph_from_snapshot_def)

end
