(* ===== verification/Snapshot_Roundtrip.thy ===== *)
theory Snapshot_Roundtrip
  imports Snapshot_Restore
begin

text \<open>
  What is written is what is read back: the JSON form of a snapshot, of a set of snapshots,
  and of a node; and a well-formed graph is rebuilt from its own snapshot with every link,
  state and session, only the prompts being forgotten, as the code intends.
\<close>

section \<open>JSON\<close>

lemma snapshot_json_roundtrip: "snapshot_from_json rp (snapshot_to_json s) = Some s"
  by (simp add: snapshot_to_json_def snapshot_from_json_def scope_json_def scope_from_fields_def jget_def)

lemma load_trees_distinct:
  "distinct (map fst c @ map snap_identity ss) \<Longrightarrow>
     load_trees rp (map snapshot_to_json ss) c = c @ map (\<lambda>s. (snap_identity s, s)) ss"
proof (induction ss arbitrary: c)
  case (Cons s ss)
  then have "snap_identity s \<notin> set (dkeys c)" by auto
  then have "load_trees rp (map snapshot_to_json (s # ss)) c =
      load_trees rp (map snapshot_to_json ss) (c @ [(snap_identity s, s)])"
    by (simp add: load_trees_def snapshot_json_roundtrip with_tree_def dset_new)
  also have "\<dots> = (c @ [(snap_identity s, s)]) @ map (\<lambda>s. (snap_identity s, s)) ss"
    using Cons.prems by (intro Cons.IH) auto
  finally show ?case by simp
qed (simp add: load_trees_def)

text \<open>Every tree is stored under its own identity, as \<open>with_tree\<close> does.\<close>

definition conversation_ok :: "conversation_snapshot \<Rightarrow> bool" where
  "conversation_ok c \<longleftrightarrow> distinct (dkeys c) \<and> (\<forall>(i, s) \<in> set c. snap_identity s = i)"

lemma conversation_ok_with_tree [inv_intros]:
  "conversation_ok c \<Longrightarrow> conversation_ok (with_tree s c)"
proof -
  assume ok: "conversation_ok c"
  have "set (dset k v d) \<subseteq> insert (k, v) (set d)" for k :: tree_identity and v :: tree_snapshot and d
    by (induction d) auto
  then have "set (with_tree s c) \<subseteq> insert (snap_identity s, s) (set c)" unfolding with_tree_def .
  with ok have "\<forall>(i, s) \<in> set (with_tree s c). snap_identity s = i"
    unfolding conversation_ok_def by blast
  with ok show ?thesis by (simp add: conversation_ok_def with_tree_def distinct_update)
qed

lemma conversation_json_roundtrip:
  assumes "conversation_ok c"
  shows "conversation_from_json rp (conversation_to_json c) = c"
proof -
  have ident: "snap_identity (snd p) = fst p" if "p \<in> set c" for p
    using assms that by (auto simp: conversation_ok_def split: prod.splits)
  then have keys: "map snap_identity (map snd c) = dkeys c" by simp
  have "map (\<lambda>s. (snap_identity s, s)) (map snd c) = map (\<lambda>p. p) c"
    unfolding map_map by (rule map_cong) (simp_all add: ident)
  then have "load_trees rp (map snapshot_to_json (map snd c)) [] = c"
    using load_trees_distinct [of "[]" "map snd c" rp] assms unfolding keys
    by (simp add: conversation_ok_def)
  moreover have "map (\<lambda>(_, t). snapshot_to_json t) c = map snapshot_to_json (map snd c)"
    by (simp add: split_def)
  ultimately show ?thesis
    by (simp add: conversation_from_json_def conversation_to_json_def del: map_map)
qed

section \<open>Nodes\<close>

definition bare :: "message_node \<Rightarrow> message_node" where
  "bare n = n\<lparr>prompt := [], children_ids := []\<rparr>"

lemma bare_fields [simp]:
  "node_id (bare n) = node_id n" "scope (bare n) = scope n"
  "status_message_id (bare n) = status_message_id n" "state (bare n) = state n"
  "parent_id (bare n) = parent_id n" "parent_reference_id (bare n) = parent_reference_id n"
  "session_id (bare n) = session_id n" "children_ids (bare n) = []" "prompt (bare n) = []"
  by (simp_all add: bare_def)

lemma optional_id_opt_json: "s \<noteq> Some [] \<Longrightarrow> optional_id (opt_json s) name = Inr s"
  by (cases s) (simp_all add: optional_id_def)

lemma optional_id_JStr: "s \<noteq> [] \<Longrightarrow> optional_id (JStr s) name = Inr (Some s)" "optional_id JNull name = Inr None"
  by (simp_all add: optional_id_def)

lemma required_id_JStr: "s \<noteq> [] \<Longrightarrow> required_id (JStr s) name = Inr s"
  by (simp add: required_id_def optional_id_def)

lemma state_value_roundtrip: "state_of_value (JStr (state_value st)) = Inr st"
  by (cases st) (simp_all add: state_of_value_def)

lemma load_node_roundtrip:
  assumes "node_id n = k" "k \<noteq> []" "status_message_id n \<noteq> Some []" "session_id n \<noteq> Some []"
    "parent_id n \<noteq> Some []" "parent_reference_id n \<noteq> Some []"
    "parent_reference_id n = None \<Longrightarrow> parent_id n = None"
    "runnable (state n) \<Longrightarrow> status_message_id n \<noteq> None" "scope n = sc"
  shows "load_node rp sc k (node_to_snapshot n) = Inr (bare n)"
  using assms
  by (cases "parent_reference_id n")
    (auto simp: load_node_def node_to_snapshot_def node_scope_from_snapshot_def scope_from_fields_def
      node_from_snapshot_def jget_def optional_id_opt_json optional_id_JStr required_id_JStr state_value_roundtrip bare_def)

lemma load_node_of_graph:
  assumes ok: "graph_ok g" and n: "get_node g k = Some n"
  shows "load_node rp (identity_scope (identity g)) k (node_to_snapshot n) = Inr (bare n)"
proof (rule load_node_roundtrip)
  have no_empty: "get_node g [] \<noteq> Some m" "get_node g p = Some m \<Longrightarrow> status_message_id m \<noteq> Some []" for m p
    using node_okD(2,8) [OF ok] by blast+
  have "parent_ok g k n" using node_okD(7) [OF ok n] .
  then show "parent_id n \<noteq> Some []" "parent_reference_id n \<noteq> Some []"
    "parent_reference_id n = None \<Longrightarrow> parent_id n = None"
    using no_empty node_okD(8) [OF ok] by (auto simp: parent_ok_def split: if_splits)
qed (use node_okD [OF ok n] in auto)

section \<open>Graphs\<close>

lemma load_entry_of_graph:
  assumes ok: "graph_ok g" and n: "get_node g k = Some n" and l: "load_ok h owner"
    and sub: "\<And>k' m. get_node h k' = Some m \<Longrightarrow> \<exists>n'. get_node g k' = Some n' \<and> m = bare n'"
    and fr: "root_id h = root_id g" "identity h = identity g"
    and new: "get_node h k = None" "k \<noteq> root_id g"
  shows "\<exists>h' owner'. load_entry rp (k, node_to_snapshot n) (h, owner) = Inr (h', owner') \<and>
    nodes h' = nodes h @ [(k, bare n)]"
proof -
  have k: "node_id n = k" using node_okD(1) [OF ok n] .
  have ne: "status_message_id n \<noteq> Some k" using node_okD(5) [OF ok n, of k] n by auto
  have free: "dget owner r \<in> {None, Some k}" if r: "r = k \<or> status_message_id n = Some r" for r
  proof (cases "dget owner r")
    case (Some q)
    then obtain m where m: "get_node h q = Some m" "r = q \<or> status_message_id m = Some r"
      using load_okD(5) [OF l, of r q] by blast
    obtain n' where n': "get_node g q = Some n'" "status_message_id m = status_message_id n'"
      using sub [OF m(1)] by auto
    have "q = k"
    proof (rule ccontr)
      assume "q \<noteq> k"
      then consider "status_message_id n' = Some k" | "status_message_id n = Some q"
        | "status_message_id n' = Some r" "status_message_id n = Some r"
        using m(2) r n'(2) by auto
      then show False
      proof cases
        case 1 then show ?thesis using node_okD(5) [OF ok n'(1)] n by auto
      next
        case 2 then show ?thesis using node_okD(5) [OF ok n] n'(1) by auto
      next
        case 3 then show ?thesis using status_owner_unique [OF ok n n'(1)] \<open>q \<noteq> k\<close> by blast
      qed
    qed
    with Some show ?thesis by simp
  qed simp
  have refs: "set (k # (case status_message_id n of None \<Rightarrow> [] | Some s \<Rightarrow> [s])) =
      {r. r = k \<or> status_message_id n = Some r}"
    by (cases "status_message_id n") auto
  have "\<not> (\<exists>r \<in> set (k # (case status_message_id n of None \<Rightarrow> [] | Some s \<Rightarrow> [s])).
      dget owner r \<notin> {None, Some k})"
    unfolding refs using free by blast
  then obtain owner' where "claim_references (bare n) owner = Inr owner'"
    unfolding claim_references_def Let_def by (simp add: k)
  moreover have "dset k (bare n) (nodes h) = nodes h @ [(k, bare n)]"
    using new(1) by (simp add: dset_new get_node_def map_of_eq_None_iff)
  ultimately show ?thesis
    using new k ne load_node_of_graph [OF ok n, of rp] by (simp add: load_entry_def fr)
qed

lemma load_entries_of_graph:
  assumes ok: "graph_ok g"
  shows "nodes g = pre @ rest \<Longrightarrow> pre \<noteq> [] \<Longrightarrow> load_ok h owner \<Longrightarrow>
    nodes h = map (\<lambda>(k, n). (k, bare n)) pre \<Longrightarrow> root_id h = root_id g \<Longrightarrow> identity h = identity g \<Longrightarrow>
    \<exists>h' owner'. load_entries rp (map (\<lambda>(k, n). (k, node_to_snapshot n)) rest) (h, owner) = Inr (h', owner') \<and>
      nodes h' = map (\<lambda>(k, n). (k, bare n)) (nodes g)"
proof (induction rest arbitrary: pre h owner)
  case Nil
  then show ?case by simp
next
  case (Cons kn rest)
  obtain k n where kn: "kn = (k, n)" by (cases kn)
  note idx = graph_okD(1) [OF ok]
  have d: "distinct (map fst pre @ k # map fst rest)"
    using index_okD(1) [OF idx] Cons.prems(1) by (simp add: kn)
  have n: "get_node g k = Some n" using get_node_in [OF idx] Cons.prems(1) by (simp add: kn)
  have hk: "dkeys (nodes h) = map fst pre" using Cons.prems(4) by (auto simp: split_def)
  have sub: "\<exists>n'. get_node g k' = Some n' \<and> m = bare n'" if m: "get_node h k' = Some m" for k' m
  proof -
    have "(k', m) \<in> set (nodes h)" using m load_okD(1) [OF Cons.prems(3)] by (simp add: get_node_in)
    then obtain n' where "(k', n') \<in> set (nodes g)" "m = bare n'"
      using Cons.prems(1,4) by auto
    then show ?thesis using get_node_in [OF idx] by blast
  qed
  have new: "get_node h k = None"
  proof -
    have "k \<notin> set (dkeys (nodes h))" unfolding hk using d by simp
    then show ?thesis using get_node_iff_key [of h k] by blast
  qed
  have "root_id g \<in> set (map fst pre)"
    using load_okD(6,7) [OF Cons.prems(3)] hk Cons.prems(5) by (metis hd_in_set map_is_Nil_conv)
  then have "k \<noteq> root_id g" using d by auto
  from load_entry_of_graph [OF ok n Cons.prems(3) sub Cons.prems(5,6) new this, of rp]
  obtain h1 owner1 where h1: "load_entry rp (k, node_to_snapshot n) (h, owner) = Inr (h1, owner1)"
      "nodes h1 = nodes h @ [(k, bare n)]" by blast
  have "\<exists>h' owner'. load_entries rp (map (\<lambda>(k, n). (k, node_to_snapshot n)) rest) (h1, owner1) = Inr (h', owner') \<and>
      nodes h' = map (\<lambda>(k, n). (k, bare n)) (nodes g)"
    using load_entry_ok [OF Cons.prems(3) h1(1)] h1(2) Cons.prems
    by (intro Cons.IH [of "pre @ [kn]"]) (simp_all add: kn)
  with h1(1) show ?case by (simp add: kn)
qed

lemma child_keys_bare: "child_keys (map (\<lambda>(k, n). (k, bare n)) ns) p = child_keys ns p"
  by (induction ns) (auto simp: child_keys_def)

lemma load_graph_of_graph:
  assumes ok: "graph_ok g" and ne: "nodes g \<noteq> []"
  shows "\<exists>h owner. load_ok h owner \<and> nodes h = map (\<lambda>(k, n). (k, bare n)) (nodes g) \<and>
    root_id h = root_id g \<and> identity h = identity g \<and>
    load_graph rp (graph_snapshot g) = link_nodes (dkeys (nodes h)) h"
proof -
  obtain n0 rest where g: "nodes g = (root_id g, n0) # rest"
    using graph_okD(2) [OF ok] ne by (cases "nodes g") (auto simp: rooted_def)
  have n0: "get_node g (root_id g) = Some n0" by (simp add: get_node_def g)
  have par: "parent_id n0 = None" "parent_reference_id n0 = None" and id: "node_id n0 = root_id g"
    and sc: "scope n0 = identity_scope (identity g)"
    using node_okD(1,3,7) [OF ok n0] by (simp_all add: parent_ok_def)
  have "status_message_id n0 \<noteq> Some (root_id g)" using node_okD(5) [OF ok n0] n0 by auto
  then obtain g0 where g0: "new_graph (bare n0) = Inr g0" by (simp add: new_graph_def id)
  then have g0': "nodes g0 = [(root_id g, bare n0)]" "root_id g0 = root_id g" "identity g0 = identity g"
    using graph_okD(3) [OF ok] by (auto simp: new_graph_def id sc split: if_splits)
  let ?owner = "(root_id g, root_id g) #
    (case status_message_id n0 of None \<Rightarrow> [] | Some st \<Rightarrow> [(st, root_id g)])"
  have load0: "load_node rp (identity_scope (identity g)) (root_id g) (node_to_snapshot n0) = Inr (bare n0)"
    by (rule load_node_of_graph [OF ok n0])
  have "load_ok g0 ?owner"
    using load_ok_new_graph [OF g0] load_node_ok(1) [OF load0]
    by (cases "status_message_id n0") (simp_all add: id sc)
  from load_entries_of_graph [OF ok, of "[(root_id g, n0)]" rest g0 ?owner rp] this
  obtain h owner where h: "load_entries rp (map (\<lambda>(k, n). (k, node_to_snapshot n)) rest) (g0, ?owner) = Inr (h, owner)"
      "nodes h = map (\<lambda>(k, n). (k, bare n)) (nodes g)"
    by (auto simp: g g0')
  have l: "load_ok h owner" "root_id h = root_id g" "identity h = identity g"
    using load_entries_ok [OF \<open>load_ok g0 ?owner\<close> h(1)] by (simp_all add: g0')
  have "load_graph rp (graph_snapshot g) = link_nodes (dkeys (nodes h)) h"
    using h(1) load0 g0 par
    by (cases "status_message_id n0")
      (simp_all add: load_graph_def graph_snapshot_def g id load_entry_def g0')
  with l h(2) show ?thesis by blast
qed

lemma link_ok_of_graph:
  assumes ok: "graph_ok g" and l: "load_ok h owner"
    and h: "nodes h = map (\<lambda>(k, n). (k, bare n)) (nodes g)" "root_id h = root_id g"
    and k: "k \<in> set (dkeys (nodes h))"
  shows "link_ok h k"
proof (cases "k = root_id g")
  case False
  have get: "get_node h q = map_option bare (get_node g q)" for q
    by (simp add: get_node_def h dget_map_value)
  obtain n where n: "get_node g k = Some n"
    using k get get_node_iff_key [of h k] by (cases "get_node g k") auto
  then obtain p pn r where p: "parent_id n = Some p" "get_node g p = Some pn"
      "parent_reference_id n = Some r" "r = p \<or> status_message_id pn = Some r"
    using node_okD(7) [OF ok n] False by (auto simp: parent_ok_def)
  have id: "node_id pn = p" "p \<noteq> []" using node_okD(1,2) [OF ok p(2)] by simp_all
  have "map_option (\<lambda>(n, kind). node_id n) (resolve_reference h r) = Some p"
  proof (cases "r = p")
    case True
    then show ?thesis using p(2) id by (simp add: resolve_reference_def get)
  next
    case False
    then have st: "status_message_id pn = Some r" using p(4) by simp
    then have "get_node g r = None" using node_okD(5) [OF ok p(2)] by blast
    moreover have "dget (status_to_node h) r = Some p"
      using index_okD(3) [OF load_okD(1) [OF l], of r p] st p(2) by (simp add: get)
    ultimately show ?thesis
      using p(2) id by (simp add: resolve_reference_def find_node_by_status_message_def get)
  qed
  with n p show ?thesis by (simp add: link_ok_def get)
qed (simp add: link_ok_def h)

lemma linked_of_graph:
  assumes ok: "graph_ok g" and idx: "index_ok h"
    and h: "nodes h = map (\<lambda>(k, n). (k, bare n)) (nodes g)"
  shows "nodes (linked h (dkeys (nodes h))) = map (\<lambda>(k, n). (k, n\<lparr>prompt := []\<rparr>)) (nodes g)"
proof -
  have "with_children h (dkeys (nodes h)) k (bare n) = n\<lparr>prompt := []\<rparr>" if "(k, n) \<in> set (nodes g)" for k n
  proof -
    have n: "get_node g k = Some n" using that get_node_in [OF graph_okD(1) [OF ok]] by simp
    have "filter (\<lambda>c. parent_of h c = Some k) (dkeys (nodes h)) = child_keys (nodes h) k"
      by (rule filter_parent_child_keys [OF idx])
    also have "\<dots> = child_keys (nodes g) k" by (simp only: h child_keys_bare)
    also have "\<dots> = children_ids n" by (rule node_okD(4) [OF ok n, symmetric])
    finally have "filter (\<lambda>c. parent_of h c = Some k) (dkeys (nodes h)) = children_ids n" .
    then show ?thesis by (simp add: with_children_def bare_def)
  qed
  then show ?thesis by (auto simp: linked_def h)
qed

lemma graph_snapshot_roundtrip:
  assumes ok: "graph_ok g" and ne: "nodes g \<noteq> []"
  shows "\<exists>g'. graph_from_snapshot rp (graph_snapshot g) = Some (Inr g') \<and> graph_ok g' \<and>
    root_id g' = root_id g \<and> identity g' = identity g \<and>
    nodes g' = map (\<lambda>(k, n). (k, n\<lparr>prompt := []\<rparr>)) (nodes g) \<and>
    (\<forall>s. dget (status_to_node g') s = dget (status_to_node g) s)"
proof -
  obtain h owner where l: "load_ok h owner" and h: "nodes h = map (\<lambda>(k, n). (k, bare n)) (nodes g)"
      "root_id h = root_id g" "identity h = identity g"
    and load: "load_graph rp (graph_snapshot g) = link_nodes (dkeys (nodes h)) h"
    using load_graph_of_graph [OF assms] by blast
  let ?h = "linked h (dkeys (nodes h))"
  have get: "get_node h q = map_option bare (get_node g q)" for q
    by (simp add: get_node_def h dget_map_value)
  have link: "\<forall>k \<in> set (dkeys (nodes h)). link_ok h k"
    using link_ok_of_graph [OF ok l h(1,2)] by blast
  have rt: "parent_id n = None \<and> parent_reference_id n = None" if "get_node g (root_id g) = Some n" for n
    using node_okD(7) [OF ok that] by (simp add: parent_ok_def)
  then have root: "parent_of h (root_id h) = None"
    by (simp add: parent_of_def h get split: option.split)
  have nodes: "nodes ?h = map (\<lambda>(k, n). (k, n\<lparr>prompt := []\<rparr>)) (nodes g)"
    by (rule linked_of_graph [OF ok load_okD(1) [OF l] h(1)])
  have "load_graph rp (graph_snapshot g) = Inr ?h"
    unfolding load using link_nodes_ok [OF index_okD(1) [OF load_okD(1) [OF l]] root link, of "[]"]
    by (simp add: linked_Nil [OF l])
  moreover have kids: "graph_children ?h = graph_children g"
  proof
    fix p :: string
    show "graph_children ?h p = graph_children g p"
      unfolding graph_children_def get_node_def nodes dget_map_value by (simp split: option.split)
  qed
  have keys: "set (dkeys (nodes h)) \<subseteq> (edges (graph_children ?h))\<^sup>* `` {root_id h}"
    using graph_okD(2) [OF ok] unfolding kids rooted_def h(2) by (auto simp: h(1))
  have "root_id h \<in> set (dkeys (nodes h))"
    using load_okD(6,7) [OF l] by (metis hd_in_set map_is_Nil_conv)
  from check_connected_returns [OF load_okD(1) [OF l] link root this]
  obtain r where r: "get_descendants ?h (root_id ?h) = Some r"
      "set r = (edges (graph_children ?h))\<^sup>* `` {root_id h}" by blast
  have root': "parent_id n = None \<and> parent_reference_id n = None"
    if n: "get_node h (root_id h) = Some n" for n
  proof -
    obtain m where m: "get_node g (root_id g) = Some m" "n = bare m"
      using n unfolding get h(2) by (metis map_option_eq_Some)
    show ?thesis using rt [OF m(1)] by (simp add: m(2) bare_def)
  qed
  have gok: "graph_ok ?h"
    by (rule linked_graph_ok [OF l link root' keys])
  have "set r = set (dkeys (nodes h))"
  proof
    show "set r \<subseteq> set (dkeys (nodes h))"
    proof
      fix x assume "x \<in> set r"
      then have "get_node ?h x \<noteq> None"
        using descendants_are_nodes [OF gok, of "root_id h" x] r(2)
          \<open>root_id h \<in> set (dkeys (nodes h))\<close> get_node_iff_key [of h "root_id h"]
        by (simp add: get_linked)
      then show "x \<in> set (dkeys (nodes h))"
        using get_node_iff_key [of ?h x] by (simp only: linked_frame)
    qed
  qed (use keys r in simp)
  ultimately have "graph_from_snapshot rp (graph_snapshot g) = Some (Inr ?h)"
    using r(1) unfolding graph_from_snapshot_def by (simp add: check_connected_def linked_frame)
  moreover have "dget (status_to_node ?h) s = dget (status_to_node g) s" for s
  proof -
    have "dget (status_to_node ?h) s = Some k \<longleftrightarrow> dget (status_to_node g) s = Some k" for k
      unfolding index_okD(3) [OF graph_okD(1) [OF ok]] linked_frame index_okD(3) [OF load_okD(1) [OF l]] get
      by (cases "get_node g k") simp_all
    then show ?thesis by (metis not_Some_eq)
  qed
  ultimately show ?thesis using gok nodes h by (auto simp: linked_frame)
qed

end
