(* ===== verification/Tree_Restore.thy ===== *)
theory Tree_Restore
  imports Tree_Machine Snapshot_Roundtrip
begin

text \<open>
  Restoring a tree at startup: whatever the file holds, the restoring ends, and a tree it
  returns satisfies the invariant, runs nothing, and reports each node it interrupted once.
\<close>

lemma restore_nodes_effect:
  assumes "graph_ok g" and "distinct ks"
  shows "\<exists>g'. restore_nodes ks us g =
      Inr (g', us @ map (target_of (tree_of_graph g)) (filter (runs (tree_of_graph g)) ks)) \<and>
    graph_ok g' \<and> root_id g' = root_id g \<and> identity g' = identity g \<and>
    dkeys (nodes g') = dkeys (nodes g) \<and>
    (\<forall>k. get_node g' k = (if k \<in> set ks then map_option settle_node (get_node g k) else get_node g k))"
  using assms
proof (induction ks arbitrary: g us)
  case (Cons k ks)
  let ?t = "tree_of_graph g"
  show ?case
  proof (cases "runs ?t k")
    case False
    then have "restore_nodes (k # ks) us g = restore_nodes ks us g"
      by (auto simp: runs_def tree_node_def tree_of_graph_def split: option.splits)
    moreover have "map_option settle_node (get_node g k) = get_node g k"
      using False by (auto simp: runs_def tree_node_def tree_of_graph_def settle_node_def split: option.splits)
    ultimately show ?thesis using Cons.IH [OF Cons.prems(1), of us] Cons.prems(2) False by auto
  next
    case True
    then obtain n where n: "get_node g k = Some n" "runnable (state n)"
      by (auto simp: runs_def tree_node_def tree_of_graph_def split: option.splits)
    obtain s where s: "status_message_id n = Some s" using node_okD(6) [OF Cons.prems(1) n] by blast
    let ?u = "\<lparr>ui_scope = scope n, ui_node = node_id n, ui_status = s\<rparr>"
    have u: "ui_target_of n = Inr ?u" "target_of ?t k = ?u"
      using n s by (simp_all add: ui_target_of_def target_of_def tree_node_def tree_of_graph_def)
    let ?g = "modify_node k mark_error g"
    have ok: "graph_ok ?g" by (rule modify_node_ok [OF Cons.prems(1)]) simp_all
    have t': "tree_of_graph ?g = on_node k mark_error ?t" by (simp add: tree_of_graph_def on_node_def)
    have same: "filter (runs (tree_of_graph ?g)) ks = filter (runs ?t) ks"
      using Cons.prems(2) runs_mark unfolding t' by (intro filter_cong) (auto, metis+)
    have "restore_nodes (k # ks) us g = restore_nodes ks (us @ [?u]) ?g"
      using n u by simp
    moreover have "(if k' \<in> set ks then map_option settle_node (get_node ?g k') else get_node ?g k') =
        (if k' \<in> set (k # ks) then map_option settle_node (get_node g k') else get_node g k')" for k'
      using Cons.prems(2) n by (cases "k' = k") (simp_all add: dict_simps settle_node_def)
    ultimately show ?thesis
      using Cons.IH [OF ok, of "us @ [?u]"] Cons.prems(2) True u(2) unfolding same unfolding t' target_of_mark
      by (simp add: frame_simps)
  qed
qed simp

definition idle :: "message_tree \<Rightarrow> bool" where
  "idle t \<longleftrightarrow> active t = None \<and> queued t = [] \<and> (\<forall>k. \<not> runs t k)"

lemma tree_of_graph_fields [simp]:
  "graph (tree_of_graph g) = g" "active (tree_of_graph g) = None" "queued (tree_of_graph g) = []"
  "queue (tree_of_graph g) = empty_queue"
  by (simp_all add: tree_of_graph_def queued_def queue_items_def empty_queue_def)

lemma restored_tree:
  assumes ok: "graph_ok g"
  shows "\<exists>g'. restore_nodes (map node_id (all_nodes g)) [] g =
      Inr (g', map (target_of (tree_of_graph g)) (filter (runs (tree_of_graph g)) (dkeys (nodes g)))) \<and>
    graph_ok g' \<and> root_id g' = root_id g \<and> identity g' = identity g \<and>
    dkeys (nodes g') = dkeys (nodes g) \<and>
    (\<forall>k. get_node g' k = map_option settle_node (get_node g k))"
proof -
  have keys: "map node_id (all_nodes g) = dkeys (nodes g)" by (rule all_ids_keys [OF ok])
  have "distinct (map node_id (all_nodes g))"
    unfolding keys by (rule index_okD(1) [OF graph_okD(1) [OF ok]])
  from restore_nodes_effect [OF ok this, of "[]"] obtain g' where g':
    "restore_nodes (map node_id (all_nodes g)) [] g =
      Inr (g', map (target_of (tree_of_graph g)) (filter (runs (tree_of_graph g)) (dkeys (nodes g))))"
    "graph_ok g'" "root_id g' = root_id g" "identity g' = identity g" "dkeys (nodes g') = dkeys (nodes g)"
    "\<And>k. get_node g' k = (if k \<in> set (dkeys (nodes g)) then map_option settle_node (get_node g k) else get_node g k)"
    unfolding keys by auto
  have "get_node g' k = map_option settle_node (get_node g k)" for k
    using get_node_iff_key [of g k] unfolding g'(6) by (cases "get_node g k") auto
  with g'(1-5) show ?thesis by blast
qed

lemma distinct_targets:
  assumes "graph_ok g" and "distinct ks"
  shows "distinct (map ui_node (map (target_of (tree_of_graph g)) (filter (runs (tree_of_graph g)) ks)))"
proof -
  have "ui_node (target_of (tree_of_graph g) k) = k" if "runs (tree_of_graph g) k" for k
    using that node_okD(1) [OF assms(1)]
    by (auto simp: runs_def target_of_def tree_node_def ui_target_of_def split: option.splits)
  then have "map ui_node (map (target_of (tree_of_graph g)) (filter (runs (tree_of_graph g)) ks)) =
      filter (runs (tree_of_graph g)) ks"
    unfolding map_map by (intro map_idI) simp
  with assms(2) show ?thesis by simp
qed

lemma graph_tree_ok:
  assumes "graph_ok g" and "\<And>k n. get_node g k = Some n \<Longrightarrow> \<not> runnable (state n)"
  shows "tree_ok {} (tree_of_graph g)" "idle (tree_of_graph g)"
proof -
  have "state n \<noteq> PENDING" if "get_node g k = Some n" for k n using assms(2) [OF that] by auto
  then show "tree_ok {} (tree_of_graph g)"
    using assms(1) nq.ok_empty by (auto simp: tree_ok_def tree_base_def tree_node_def)
  show "idle (tree_of_graph g)"
    using assms(2) by (simp add: idle_def runs_def tree_node_def split: option.split)
qed

lemma restored_fields:
  "tree_ok W (t\<lparr>restored_stale_targets := us, restored_snapshot := s\<rparr>) = tree_ok W t"
  "idle (t\<lparr>restored_stale_targets := us, restored_snapshot := s\<rparr>) = idle t"
proof -
  have node: "tree_node (t\<lparr>restored_stale_targets := us, restored_snapshot := s\<rparr>) = tree_node t"
    by (simp add: tree_node_def fun_eq_iff)
  show "tree_ok W (t\<lparr>restored_stale_targets := us, restored_snapshot := s\<rparr>) = tree_ok W t"
    by (simp add: tree_ok_def tree_base_def claim_ok_def node queued_def tree_identity_of_def)
  show "idle (t\<lparr>restored_stale_targets := us, restored_snapshot := s\<rparr>) = idle t"
    by (simp add: idle_def queued_def runs_def node)
qed

lemma tree_from_graph:
  assumes g: "graph_from_snapshot rp s = Some (Inr g)" and ok: "graph_ok g"
  shows "\<exists>t. tree_from_snapshot rp s = Some (Inr t) \<and> tree_ok {} t \<and> idle t \<and>
    root_id (graph t) = root_id g \<and> identity (graph t) = identity g \<and>
    dkeys (nodes (graph t)) = dkeys (nodes g) \<and>
    (\<forall>k. tree_node t k = map_option settle_node (get_node g k)) \<and>
    restored_snapshot t = Some (tree_snapshot_of t) \<and>
    restored_stale_targets t =
      map (target_of (tree_of_graph g)) (filter (runs (tree_of_graph g)) (dkeys (nodes g)))"
proof -
  from restored_tree [OF ok] obtain g' where g':
    "restore_nodes (map node_id (all_nodes g)) [] g =
      Inr (g', map (target_of (tree_of_graph g)) (filter (runs (tree_of_graph g)) (dkeys (nodes g))))"
    "graph_ok g'" "root_id g' = root_id g" "identity g' = identity g" "dkeys (nodes g') = dkeys (nodes g)"
    "\<And>k. get_node g' k = map_option settle_node (get_node g k)" by blast
  have "\<not> runnable (state n)" if "get_node g' k = Some n" for k n
    using that unfolding g'(6) by auto
  note ok' = graph_tree_ok [OF g'(2) this]
  let ?us = "map (target_of (tree_of_graph g)) (filter (runs (tree_of_graph g)) (dkeys (nodes g)))"
  let ?t = "(tree_of_graph g')\<lparr>restored_stale_targets := ?us, restored_snapshot := Some (graph_snapshot g')\<rparr>"
  have "tree_from_snapshot rp s = Some (Inr ?t)"
    using g g'(1) by (simp add: tree_from_snapshot_def)
  moreover have "tree_ok {} ?t" "idle ?t" using ok' by (simp_all only: restored_fields)
  ultimately show ?thesis
    using g'(3-6) by (intro exI [of _ ?t]) (simp add: tree_node_def tree_snapshot_of_def)
qed

lemma tree_from_snapshot_total:
  "\<exists>r. tree_from_snapshot rp s = Some r \<and>
    (\<forall>t. r = Inr t \<longrightarrow> tree_ok {} t \<and> idle t \<and> nodes (graph t) \<noteq> [] \<and>
       tree_identity_of t = snap_identity s \<and>
       restored_snapshot t = Some (tree_snapshot_of t) \<and>
       distinct (map ui_node (restored_stale_targets t)))"
proof -
  obtain r where r1: "graph_from_snapshot rp s = Some r" and
      r2: "case r of Inl e \<Rightarrow> True | Inr g \<Rightarrow> graph_ok g \<and> nodes g \<noteq> [] \<and> root_id g = snap_root s \<and>
        identity_scope (identity g) = snap_scope s" using graph_from_snapshot_total by blast
  then have r: "graph_from_snapshot rp s = Some r"
      "\<forall>g. r = Inr g \<longrightarrow> graph_ok g \<and> nodes g \<noteq> [] \<and> root_id g = snap_root s \<and>
        identity_scope (identity g) = snap_scope s" by (auto split: sum.splits)
  show ?thesis
  proof (cases r)
    case (Inl e)
    with r show ?thesis by (simp add: tree_from_snapshot_def)
  next
    case (Inr g)
    then have ok: "graph_ok g" and g: "nodes g \<noteq> []" "root_id g = snap_root s"
        "identity_scope (identity g) = snap_scope s"
      using r(2) by blast+
    from tree_from_graph [OF r(1) [unfolded Inr] ok] obtain t where t:
      "tree_from_snapshot rp s = Some (Inr t)" "tree_ok {} t" "idle t"
      "identity (graph t) = identity g" "dkeys (nodes (graph t)) = dkeys (nodes g)"
      "restored_snapshot t = Some (tree_snapshot_of t)"
      "restored_stale_targets t =
        map (target_of (tree_of_graph g)) (filter (runs (tree_of_graph g)) (dkeys (nodes g)))" by blast
    have "tree_identity_of t = snap_identity s"
      using t(4) g graph_okD(3) [OF ok] by (cases "identity g") (simp add: tree_identity_of_def snap_identity_def)
    moreover have "distinct (map ui_node (restored_stale_targets t))"
      unfolding t(7) by (rule distinct_targets [OF ok index_okD(1) [OF graph_okD(1) [OF ok]]])
    moreover have "nodes (graph t) \<noteq> []" using t(5) g(1) by auto
    ultimately show ?thesis using t by blast
  qed
qed

end
