(* ===== verification/Messaging_Properties.thy ===== *)
theory Messaging_Properties
  imports Tree_Restore
begin

text \<open>
  The properties of the conversation trees, each with an application to a concrete
  conversation where it has hypotheses.
\<close>

section \<open>A concrete conversation\<close>

definition demo_scope :: message_scope where
  "demo_scope = \<lparr>platform = ''t'', chat_id = ''c''\<rparr>"

definition demo_root :: message_node where
  "demo_root = new_node ''1'' demo_scope ''hi'' ''2'' None None"

definition demo_start :: message_tree where
  "demo_start = (case new_tree demo_root of Inr t \<Rightarrow> t | Inl e \<Rightarrow> tree_of_graph
     \<lparr>root_id = [], identity = \<lparr>identity_scope = demo_scope, identity_root = []\<rparr>, nodes = [], status_to_node = []\<rparr>)"

definition demo :: "tree_event list \<Rightarrow> message_tree" where
  "demo es = run (tree_step remdups) demo_start es"

definition demo_add :: "string \<Rightarrow> string \<Rightarrow> string \<Rightarrow> string \<Rightarrow> string \<Rightarrow> tree_event" where
  "demo_add cid nid status parent reference = Add cid nid demo_scope ''q'' status parent reference"

lemma demo_run_ok:
  assumes "permitted event_ok (tree_step remdups) demo_start es"
  shows "tree_ok {''1''} (demo es)"
proof -
  have "new_tree demo_root = Inr demo_start" by code_simp
  then have "tree_ok {''1''} demo_start"
    by (intro new_tree_ok [of "''1''" demo_scope "''hi''" "''2''"]) (simp_all add: demo_root_def)
  with assms set_order_remdups show ?thesis unfolding demo_def using trees.inv_run by blast
qed

lemma demo_ok: "permitted event_ok (tree_step remdups) demo_start es \<Longrightarrow> {''1''} \<subseteq> W \<Longrightarrow> tree_ok W (demo es)"
  using demo_run_ok tree_ok_mono by blast

text \<open>The root runs, two replies wait.\<close>

definition demo_busy :: "tree_event list" where
  "demo_busy = [Enqueue ''a'' ''1'', demo_add ''b'' ''3'' ''4'' ''1'' ''1'', demo_add ''b'' ''5'' ''6'' ''3'' ''4'']"

lemma demo_busy_ok: "tree_ok {''1''} (demo demo_busy)"
  by (rule demo_run_ok) code_simp

definition demo_claim :: active_claim where
  "demo_claim = (case active (demo demo_busy) of Some a \<Rightarrow> a | None \<Rightarrow>
     \<lparr>claim = \<lparr>claim_identity = tree_identity_of demo_start, claim_id = [],
       claim_node = \<lparr>ui_scope = demo_scope, ui_node = [], ui_status = []\<rparr>,
       claim_prompt = [], parent_session_id = None\<rparr>, cancellation_requested = False\<rparr>)"

lemma demo_active: "active (demo demo_busy) = Some demo_claim"
  by code_simp

section \<open>The invariant\<close>

text \<open>
  C1. Whatever operations a conversation tree receives after its root was built, in whatever
  order, and whether they return or raise, the tree stays consistent: the graph is a tree with
  exact indexes, the queue holds exactly the nodes that wait (the root may wait to be admitted
  first), and a claim nobody asked to cancel points at a node that is there and can be shown.
\<close>

theorem tree_stays_consistent:
  assumes "new_tree (new_node nid sc pr status None None) = Inr t" and "nid \<noteq> []" and "status \<noteq> []"
    and "set_order ord" and "permitted event_ok (tree_step ord) t es"
  shows "tree_ok {nid} (run (tree_step ord) t es)"
  using trees.inv_run [of ord "{nid}" t es] new_tree_ok(1) [OF assms(1-3)] assms(4,5) by simp

theorem tree_stays_consistent_witness:
  "tree_ok {''1''} (run (tree_step remdups) demo_start (demo_busy @ [Cancel ''3'', Finish ''c'' ''a'']))"
proof (rule tree_stays_consistent [of _ demo_scope "''hi''" "''2''"])
  show "new_tree (new_node ''1'' demo_scope ''hi'' ''2'' None None) = Inr demo_start" by code_simp
  show "permitted event_ok (tree_step remdups) demo_start (demo_busy @ [Cancel ''3'', Finish ''c'' ''a''])"
    by code_simp
qed (simp_all add: set_order_remdups)

text \<open>
  C2. Every operation of a consistent tree ends, and it raises in these cases only. An addition raises
  exactly when the reply does not fit (its scope, its parent, what it replies to, or an id already in use),
  and then changes nothing. The cancellations raise exactly in the stuck state, where the node of the active
  claim is an error that lost its status message: \<open>cancel_all\<close> always, \<open>cancel_node\<close> for that node; a removal
  can raise in that state only. Admission, completion and failing never raise.
\<close>

theorem tree_operations_return:
  assumes ok: "tree_ok W t" and ord: "set_order ord" and ne: "nid \<noteq> []" "status \<noteq> []"
  shows "(\<exists>t' x. remove_message_subtree ord r t = Some (t', x) \<and> (stuck t \<or> (\<exists>rm. x = Inr rm))) \<and>
    (\<exists>t' x. fail_claim cid propagate t = Some (t', Inr x)) \<and>
    (\<exists>d. snd (enqueue_or_claim cid k t) = Inr d) \<and>
    (if addable nid sc status parent reference t
     then \<exists>d. snd (add_and_enqueue cid nid sc pr status parent reference t) = Inr d
     else \<exists>e. add_and_enqueue cid nid sc pr status parent reference t = (t, Inl e)) \<and>
    (\<exists>x. snd (finish_and_claim_next cid k t) = Inr x) \<and>
    ((\<exists>x. snd (cancel_all t) = Inr x) \<longleftrightarrow> \<not> stuck t) \<and>
    ((\<exists>x. snd (cancel_node k t) = Inr x) \<longleftrightarrow>
      \<not> (stuck t \<and> map_option (\<lambda>a. ui_node (claim_node (claim a))) (active t) = Some k))"
proof (intro conjI)
  note base = tree_okD(1) [OF ok]
  show "(\<exists>x. snd (cancel_all t) = Inr x) \<longleftrightarrow> \<not> stuck t"
    using cancel_all_effect [OF base] cancel_all_stuck [OF base] by (cases "stuck t") auto
  show "(\<exists>x. snd (cancel_node k t) = Inr x) \<longleftrightarrow>
      \<not> (stuck t \<and> map_option (\<lambda>a. ui_node (claim_node (claim a))) (active t) = Some k)"
  proof (cases "stuck t \<and> map_option (\<lambda>a. ui_node (claim_node (claim a))) (active t) = Some k")
    case True
    then show ?thesis using cancel_node_stuck by auto
  next
    case False
    then show ?thesis using cancel_node_returns [OF base, of k] by fastforce
  qed
  show "\<exists>t' x. remove_message_subtree ord r t = Some (t', x) \<and> (stuck t \<or> (\<exists>rm. x = Inr rm))"
    using remove_subtree_returns [OF ok ord] .
  show "if addable nid sc status parent reference t
     then \<exists>d. snd (add_and_enqueue cid nid sc pr status parent reference t) = Inr d
     else \<exists>e. add_and_enqueue cid nid sc pr status parent reference t = (t, Inl e)"
    by (rule add_and_enqueue_returns [OF ok ne])
  show "\<exists>t' x. fail_claim cid propagate t = Some (t', Inr x)" using fail_claim_ok [OF ok] by blast
  show "\<exists>d. snd (enqueue_or_claim cid k t) = Inr d" using enqueue_ok [OF ok] by blast
  show "\<exists>x. snd (finish_and_claim_next cid k t) = Inr x" using finish_ok [OF ok] by blast
qed

theorem tree_operations_return_witness:
  "\<exists>x. snd (cancel_all (demo demo_busy)) = Inr x"
proof -
  have "\<not> stuck (demo demo_busy)" by code_simp
  then show ?thesis
    using tree_operations_return [OF demo_busy_ok set_order_remdups, of "''7''" "''8''"] by simp
qed

text \<open>
  C3. The scheduling of a consistent tree refines a scheduler with one slot and a line: an
  admitted reply takes the free slot or goes to the end of the line, finishing moves the head
  of the line into the slot, and a cancelled node leaves the line.
\<close>

theorem tree_refines_scheduler:
  assumes ok: "tree_ok W t" and a: "active t = Some a" "claim_id (claim a) = finished"
    and add: "add_node nid sc pr status parent reference (graph t) = Inr g" "nid \<noteq> []" "status \<noteq> []"
  shows "scheduled (fst (finish_and_claim_next cid finished t)) = sched_finish (scheduled t) \<and>
    scheduled (fst (cancel_node k t)) = sched_leave [k] (scheduled t) \<and>
    scheduled (fst (add_and_enqueue cid nid sc pr status parent reference t)) =
      sched_admit nid (scheduled t)"
proof (intro conjI)
  let ?t = "t\<lparr>graph := g\<rparr>"
  have new: "tree_node ?t nid = Some (new_node nid sc pr status (Some parent) (Some reference))"
    by (simp add: tree_node_def get_add_node [OF add(1)])
  have "nid \<notin> set (queued ?t)"
    using add_fresh [OF tree_okD(1) [OF ok]] add_node_cases(3) [OF add(1)] by (simp add: queued_def tree_node_def)
  with admit_refines [OF add_base [OF ok add] _ new, of cid] a(1)
  have "scheduled (fst (enqueue_or_claim cid nid ?t)) = sched_admit nid (scheduled ?t)"
    by (simp add: new_node_def)
  moreover have "scheduled ?t = scheduled t" by (simp add: scheduled_def queued_def)
  ultimately show "scheduled (fst (add_and_enqueue cid nid sc pr status parent reference t)) =
      sched_admit nid (scheduled t)"
    using add(1) by (simp add: add_and_enqueue_def)
qed (rule finish_refines [OF ok a], rule cancel_refines [OF tree_okD(1) [OF ok]])

theorem tree_refines_scheduler_witness:
  "scheduled (fst (finish_and_claim_next ''z'' ''a'' (demo demo_busy))) = (Some ''3'', [''5''])"
proof -
  have "\<exists>g. add_node ''7'' demo_scope ''q'' ''8'' ''1'' ''2'' (graph (demo demo_busy)) = Inr g"
    by (rule exI [of _ "case add_node ''7'' demo_scope ''q'' ''8'' ''1'' ''2'' (graph (demo demo_busy)) of
      Inr g \<Rightarrow> g | Inl e \<Rightarrow> graph demo_start"]) code_simp
  then obtain g where g: "add_node ''7'' demo_scope ''q'' ''8'' ''1'' ''2'' (graph (demo demo_busy)) = Inr g" ..
  have id: "claim_id (claim demo_claim) = ''a''" and s: "sched_finish (scheduled (demo demo_busy)) = (Some ''3'', [''5''])"
    by code_simp+
  show ?thesis using tree_refines_scheduler [OF demo_busy_ok demo_active id g] s by simp
qed

section \<open>Scheduling\<close>

text \<open>
  Finishing the active claim starts exactly the node at the head of the line, which is
  claimed under the new id, and reports the positions 1, 2, ... of the nodes still in line.
\<close>

theorem finish_starts_head:
  assumes ok: "tree_ok W t" and a: "active t = Some a" "claim_id (claim a) = finished"
    and q: "queued t = k # ks"
  shows "\<exists>c t' es n. finish_and_claim_next cid finished t =
      (t', Inr \<lparr>next_claim = Some c, completion_queue = es\<rparr>) \<and>
    ui_node (claim_node c) = k \<and> claim_id c = cid \<and> claim_identity c = tree_identity_of t \<and>
    active t' = Some \<lparr>claim = c, cancellation_requested = False\<rparr> \<and> queued t' = ks \<and>
    tree_node t' k = Some n \<and> state n = IN_PROGRESS \<and>
    map (\<lambda>e. (ui_node (entry_node e), entry_position e)) es = zip ks [1..<length ks + 1]"
proof -
  from finish_next [OF tree_okD(1) [OF ok] a q, of cid] obtain c t' es where
    r: "finish_and_claim_next cid finished t = (t', Inr \<lparr>next_claim = Some c, completion_queue = es\<rparr>)"
      "queued t' = ks" "active t' = Some \<lparr>claim = c, cancellation_requested = False\<rparr>"
      "claim_id c = cid" "ui_node (claim_node c) = k"
      "graph t' = modify_node k (update_state IN_PROGRESS None) (graph t)"
      "map (\<lambda>e. (ui_node (entry_node e), entry_position e)) es = zip ks [1..<length ks + 1]"
      "tree_base W t'" by blast
  obtain n where n: "tree_node t k = Some n" using tree_baseD(4) [OF tree_okD(1) [OF ok], of k] q by auto
  then have "tree_node t' k = Some (update_state IN_PROGRESS None n)"
    using r(6) by (simp add: tree_node_def dict_simps)
  moreover have "claim_identity c = tree_identity_of t"
    using tree_baseD(5) [OF r(8,3)] r(6) by (simp add: claim_ok_def tree_identity_of_def frame_simps)
  moreover have "state (update_state IN_PROGRESS None n) = IN_PROGRESS" by simp
  ultimately show ?thesis using r(1-5,7) by blast
qed

theorem finish_starts_head_witness:
  "queued (demo demo_busy) = [''3'', ''5''] \<and>
   (\<exists>c t' es. finish_and_claim_next ''z'' ''a'' (demo demo_busy) =
      (t', Inr \<lparr>next_claim = Some c, completion_queue = es\<rparr>) \<and> ui_node (claim_node c) = ''3'')"
proof -
  have "claim_id (claim demo_claim) = ''a''" "queued (demo demo_busy) = [''3'', ''5'']" by code_simp+
  from finish_starts_head [OF demo_busy_ok demo_active this] this(2) show ?thesis by blast
qed

text \<open>
  A stale claim id does nothing: when the active claim, if any, has another id, finishing,
  recording a session, completing and failing leave the tree exactly as it is.
\<close>

theorem stale_claims_do_nothing:
  assumes ok: "tree_ok W t" and stale: "\<And>a. active t = Some a \<Longrightarrow> claim_id (claim a) \<noteq> old"
  shows "fst (finish_and_claim_next cid old t) = t \<and>
    (\<exists>es. snd (finish_and_claim_next cid old t) = Inr \<lparr>next_claim = None, completion_queue = es\<rparr>) \<and>
    record_session old sid t = (t, None) \<and> complete_claim old osid t = (t, None) \<and>
    fail_claim old propagate t = Some (t, Inr no_failure)"
proof -
  have none: "reporting_node old t = None" using stale by (auto simp: reporting_node_def split: option.split)
  from finish_stale [OF tree_okD(1) [OF ok] stale, of cid] show ?thesis
    by (auto simp: record_session_def complete_claim_def fail_claim_def none)
qed

theorem stale_claims_do_nothing_witness:
  "record_session ''old'' ''s'' (demo demo_busy) = (demo demo_busy, None)"
proof -
  have id: "claim_id (claim demo_claim) = ''a''" by code_simp
  have "claim_id (claim a) \<noteq> ''old''" if "active (demo demo_busy) = Some a" for a
    using that id demo_active by auto
  with stale_claims_do_nothing [OF demo_busy_ok, of "''old''"] show ?thesis by blast
qed

text \<open>
  Once a claim was asked to stop - by cancelling its node or by cancelling the whole tree -
  nothing it still reports has any effect: no session, no completion, no failure.
\<close>

theorem cancelled_claims_are_silent:
  assumes a: "active t = Some a"
    and t': "t' = fst (cancel_node (ui_node (claim_node (claim a))) t) \<or>
      t' = fst (cancel_all t)"
  shows "record_session cid sid t' = (t', None) \<and> complete_claim cid osid t' = (t', None) \<and>
    fail_claim cid propagate t' = Some (t', Inr no_failure)"
proof -
  have "active (fst (cancel_node (ui_node (claim_node (claim a))) t)) = active (request_cancellation t)"
    using a by (simp add: cancel_node_after asked_def claim_on_def frame_simps split: option.split)
  moreover note cancel_all_active [of t]
  ultimately have "active t' = active (request_cancellation t)" using t' by blast
  then have "reporting_node cid t' = None" for cid
    using a by (simp add: reporting_node_def request_cancellation_def)
  then show ?thesis by (simp add: record_session_def complete_claim_def fail_claim_def)
qed

theorem cancelled_claims_are_silent_witness:
  "let t' = fst (cancel_all (demo demo_busy)) in complete_claim ''a'' None t' = (t', None)"
  unfolding Let_def using cancelled_claims_are_silent [OF demo_active disjI2 [OF refl]] by blast

text \<open>
  C24. \<open>cancel_all\<close> on a consistent tree that is not stuck leaves nothing to run: the line is
  empty and no node is waiting or running; it reports exactly the nodes it settled, each once,
  and besides them at most the active node, when that was an error already.
\<close>

theorem cancel_all_stops_everything:
  assumes ok: "tree_ok W t" and free: "\<not> stuck t"
  shows "\<exists>t' r. cancel_all t = (t', Inr r) \<and> queued t' = [] \<and> (\<forall>k. \<not> runs t' k) \<and>
    distinct (map ui_node (cancelled_nodes r)) \<and>
    set (map ui_node (cancelled_nodes r)) = {k. runs t k} \<union> set (first_cancelled t) \<and>
    (\<forall>k. tree_node t' k = map_option settle_node (tree_node t k))"
proof -
  note base = tree_okD(1) [OF ok]
  from cancel_all_effect [OF base free] obtain t' r where r:
    "cancel_all t = (t', Inr r)" "cancelled_nodes r = map (target_of t) (cancel_order t)"
    "queued t' = []" "settled_on (\<lambda>k. True) t t'" by auto
  have ids: "map ui_node (cancelled_nodes r) = cancel_order t"
    unfolding r(2) by (rule cancel_order_targets [OF base])
  have "distinct (map ui_node (cancelled_nodes r))"
    "set (map ui_node (cancelled_nodes r)) = {k. runs t k} \<union> set (first_cancelled t)"
    by (simp_all only: ids cancel_order_exact [OF base])
  moreover have "\<not> runs t' k" for k using settled_runs [OF r(4)] by simp
  moreover have "\<forall>k. tree_node t' k = map_option settle_node (tree_node t k)"
    using r(4) by (simp add: settled_on_def)
  ultimately show ?thesis
    using r(1,3) by blast
qed

theorem cancel_all_stops_everything_witness:
  "\<exists>t' r. cancel_all (demo demo_busy) = (t', Inr r) \<and> queued t' = []"
proof -
  have "\<not> stuck (demo demo_busy)" by code_simp
  from cancel_all_stops_everything [OF demo_busy_ok this] show ?thesis by blast
qed

text \<open>
  No node runs twice: admitting a node that is in line already, that runs, or that ran, is
  rejected as a duplicate and leaves the tree as it is.
\<close>

theorem admission_once:
  assumes ok: "tree_ok W t"
    and seen: "k \<in> set (queued t) \<or> (\<exists>n. tree_node t k = Some n \<and> state n \<noteq> PENDING)"
  shows "enqueue_or_claim cid k t = (t, Inr (rejected DUPLICATE))"
  using seen enqueue_again [OF ok] enqueue_rejects by blast

theorem admission_once_witness:
  "enqueue_or_claim ''z'' ''3'' (demo demo_busy) = (demo demo_busy, Inr (rejected DUPLICATE)) \<and>
   enqueue_or_claim ''z'' ''1'' (demo demo_busy) = (demo demo_busy, Inr (rejected DUPLICATE))"
proof
  have "''3'' \<in> set (queued (demo demo_busy))" by code_simp
  with admission_once [OF demo_busy_ok] show
    "enqueue_or_claim ''z'' ''3'' (demo demo_busy) = (demo demo_busy, Inr (rejected DUPLICATE))" by blast
  have "map_option state (tree_node (demo demo_busy) ''1'') = Some IN_PROGRESS" by code_simp
  then have "\<exists>n. tree_node (demo demo_busy) ''1'' = Some n \<and> state n \<noteq> PENDING"
    by (cases "tree_node (demo demo_busy) ''1''") simp_all
  with admission_once [OF demo_busy_ok] show
    "enqueue_or_claim ''z'' ''1'' (demo demo_busy) = (demo demo_busy, Inr (rejected DUPLICATE))" by blast
qed

section \<open>Removal and failure\<close>

lemma removal_effect:
  assumes ok: "tree_ok W t" and free: "\<not> stuck t" and ord: "set_order ord"
    and r: "resolve_reference (graph t) r = Some (n, kind)"
  defines "below \<equiv> (edges (reference_children (graph t)))\<^sup>* `` {r}"
  shows "\<exists>t' rm P. remove_message_subtree ord r t = Some (t', Inr rm) \<and> tree_ok W t' \<and>
    removed_message_ids rm = below \<and> (removed_entire_tree rm \<longleftrightarrow> root_id (graph t) \<in> below) \<and>
    queued t' = filter (\<lambda>k. k \<notin> below \<and> \<not> (kind = STATUS \<and> k = node_id n)) (queued t) \<and>
    (\<forall>k. tree_node t' k =
      (if k \<in> below then None
       else map_option (\<lambda>m. forget_children below
         (if kind = STATUS \<and> k = node_id n then node_clear_status m else m)) (tree_node t k))) \<and>
    active t' = active (asked P t) \<and> (kind = STATUS \<longrightarrow> P (node_id n))"
proof -
  note base = tree_okD(1) [OF ok]
  obtain ids t' res where e: "set ids = below" "remove_message_subtree ord r t = Some (t', res)"
    "tree_base W t'" "active t' = None \<longleftrightarrow> active t = None" "queued t = [] \<longrightarrow> queued t' = []"
    "showable (claim_on (\<lambda>k. k \<in> set (affected_nodes t (n, kind) ids)) t) t \<longrightarrow>
      (\<exists>rm. res = Inr rm \<and> removed_message_ids rm = set ids \<and>
        (removed_entire_tree rm \<longleftrightarrow> root_id (graph t) \<in> set ids) \<and>
        queued t' = filter (\<lambda>k. k \<notin> set (affected_nodes t (n, kind) ids)) (queued t) \<and>
        active t' = active (asked (\<lambda>k. k \<in> set (affected_nodes t (n, kind) ids)) t) \<and>
        dkeys (nodes (graph t')) =
          filter (\<lambda>k. k \<notin> set (removed_nodes t ids)) (dkeys (nodes (graph t))) \<and>
        (\<forall>k. tree_node t' k = (if k \<in> set (removed_nodes t ids) then None
          else map_option (\<lambda>m. forget_children (set (removed_nodes t ids))
            (if kind = STATUS \<and> k = node_id n then node_clear_status m else m)) (tree_node t k))))"
    using remove_subtree_effect [OF base ord r, folded below_def] by (elim exE conjE) (rule that; assumption)
  have "showable (claim_on P t) t" for P by (rule showable_free [OF free])
  then have "\<exists>rm. res = Inr rm \<and> removed_message_ids rm = set ids \<and>
        (removed_entire_tree rm \<longleftrightarrow> root_id (graph t) \<in> set ids) \<and>
        queued t' = filter (\<lambda>k. k \<notin> set (affected_nodes t (n, kind) ids)) (queued t) \<and>
        active t' = active (asked (\<lambda>k. k \<in> set (affected_nodes t (n, kind) ids)) t) \<and>
        (\<forall>k. tree_node t' k = (if k \<in> set (removed_nodes t ids) then None
          else map_option (\<lambda>m. forget_children (set (removed_nodes t ids))
            (if kind = STATUS \<and> k = node_id n then node_clear_status m else m)) (tree_node t k)))"
    using e(6) by blast
  then obtain rm where rm: "res = Inr rm" "removed_message_ids rm = below"
      "removed_entire_tree rm \<longleftrightarrow> root_id (graph t) \<in> below"
      "queued t' = filter (\<lambda>k. k \<notin> set (affected_nodes t (n, kind) ids)) (queued t)"
      "active t' = active (asked (\<lambda>k. k \<in> set (affected_nodes t (n, kind) ids)) t)"
      "\<And>k. tree_node t' k = (if k \<in> set (removed_nodes t ids) then None
          else map_option (\<lambda>m. forget_children (set (removed_nodes t ids))
            (if kind = STATUS \<and> k = node_id n then node_clear_status m else m)) (tree_node t k))"
    unfolding e(1) by blast
  have node: "tree_node t' k = (if k \<in> below then None
       else map_option (\<lambda>m. forget_children below
         (if kind = STATUS \<and> k = node_id n then node_clear_status m else m)) (tree_node t k))" for k
    unfolding rm(6) e(1) [symmetric] by (rule removed_node_below [OF base]) simp
  have q: "queued t' = filter (\<lambda>k. k \<notin> below \<and> \<not> (kind = STATUS \<and> k = node_id n)) (queued t)"
  proof -
    have "tree_node t k \<noteq> None" if "k \<in> set (queued t)" for k using tree_baseD(4) [OF base that] by auto
    then show ?thesis
      unfolding rm(4) using e(1) by (intro filter_cong) (auto simp: affected_nodes_def removed_nodes_def)
  qed
  have "tree_ok W t'" using e(3-5) tree_okD(2) [OF ok] by (simp add: tree_ok_def)
  moreover have "kind = STATUS \<longrightarrow> node_id n \<in> set (affected_nodes t (n, kind) ids)"
    by (simp add: affected_nodes_def)
  ultimately show ?thesis
    using e(2) rm(1-3,5) node q by (intro exI conjI allI) (assumption | simp)+
qed

text \<open>
  C21. Removing the messages below a reference of a tree that is not stuck removes exactly the
  nodes below it in the platform's reply structure, in whatever order Python iterates its sets;
  their line places are given up, the root goes exactly when it is among them, a removed status
  takes the session of its node with it, and every other node keeps its place and state.
\<close>

theorem removal_is_exact:
  assumes ok: "tree_ok W t" and free: "\<not> stuck t" and ord: "set_order ord"
    and r: "resolve_reference (graph t) r = Some (n, kind)"
  defines "below \<equiv> (edges (reference_children (graph t)))\<^sup>* `` {r}"
  shows "\<exists>t' rm. remove_message_subtree ord r t = Some (t', Inr rm) \<and> tree_ok W t' \<and>
    removed_message_ids rm = below \<and> (removed_entire_tree rm \<longleftrightarrow> root_id (graph t) \<in> below) \<and>
    queued t' = filter (\<lambda>k. k \<notin> below \<and> \<not> (kind = STATUS \<and> k = node_id n)) (queued t) \<and>
    (\<forall>k. tree_node t' k =
      (if k \<in> below then None
       else map_option (\<lambda>m. forget_children below
         (if kind = STATUS \<and> k = node_id n then node_clear_status m else m)) (tree_node t k)))"
  using removal_effect [OF ok free ord r] unfolding below_def by blast

theorem removal_is_exact_witness:
  "\<exists>t' rm. remove_message_subtree remdups ''4'' (demo demo_busy) = Some (t', Inr rm) \<and>
    removed_message_ids rm = (edges (reference_children (graph (demo demo_busy))))\<^sup>* `` {''4''}"
proof -
  have "\<not> stuck (demo demo_busy)" by code_simp
  moreover have "map_option snd (resolve_reference (graph (demo demo_busy)) ''4'') = Some STATUS" by code_simp
  then obtain n where "resolve_reference (graph (demo demo_busy)) ''4'' = Some (n, STATUS)" by auto
  ultimately show ?thesis using removal_is_exact [OF demo_busy_ok _ set_order_remdups] by blast
qed

text \<open>
  C26. A failing claim marks its node and, when asked to, exactly the descendants that still
  wait; they leave the line, everything else stays, and the call never raises.
\<close>

theorem failure_is_exact:
  assumes ok: "tree_ok W t" and n: "reporting_node cid t = Some n" and st: "state n \<noteq> COMPLETED"
  defines "below \<equiv> (edges (graph_children (graph t)))\<^sup>* `` {node_id n}"
  shows "\<exists>t' r. fail_claim cid propagate t = Some (t', Inr r) \<and> tree_ok W t' \<and>
    queued t' = (if propagate then filter (\<lambda>k. k \<notin> below) (queued t) else queued t) \<and>
    failure_snapshot r = Some (tree_snapshot_of t') \<and>
    (\<forall>k. tree_node t' k =
      (if k = node_id n then Some (if state n = ERROR then n else mark_error n)
       else if propagate \<and> k \<in> below then map_option fail_node (tree_node t k)
       else tree_node t k))"
proof -
  from fail_claim_effect [OF ok n st, of propagate] obtain ids t' us upd where e:
    "get_descendants (graph t) (node_id n) = Some (node_id n # ids)"
    "fail_claim cid propagate t = Some (t', Inr \<lparr>affected = us, failure_queue_update = upd,
      failure_snapshot = Some (graph_snapshot (graph t'))\<rparr>)" "tree_ok W t'"
    "queued t' = (if propagate then filter (\<lambda>k. k \<notin> set ids) (queued t) else queued t)"
    "\<forall>k. tree_node t' k =
      (if k = node_id n then Some (if state n = ERROR then n else mark_error n)
       else if propagate \<and> k \<in> set ids then map_option fail_node (tree_node t k)
       else tree_node t k)" by blast
  from reporting_nodeD [OF tree_okD(1) [OF ok] n] have m: "tree_node t (node_id n) = Some n"
    "node_id n \<notin> set (queued t)" by blast+
  have below: "below = insert (node_id n) (set ids)"
    using get_descendants_exact [OF tree_baseD(1) [OF tree_okD(1) [OF ok]], of "node_id n" n] m(1) e(1)
    by (auto simp: below_def tree_node_def)
  have "filter (\<lambda>k. k \<notin> set ids) (queued t) = filter (\<lambda>k. k \<notin> below) (queued t)"
    using m(2) unfolding below by (intro filter_cong) auto
  with e(2-5) show ?thesis by (simp add: below tree_snapshot_of_def)
qed

theorem failure_is_exact_witness:
  "\<exists>t' r. fail_claim ''a'' True (demo demo_busy) = Some (t', Inr r) \<and> queued t' = []"
proof -
  have "map_option state (reporting_node ''a'' (demo demo_busy)) = Some IN_PROGRESS" by code_simp
  then obtain n where n: "reporting_node ''a'' (demo demo_busy) = Some n" "state n \<noteq> COMPLETED" by auto
  have "map_option (\<lambda>(t, r). queued t) (fail_claim ''a'' True (demo demo_busy)) = Some []" by code_simp
  with failure_is_exact [OF demo_busy_ok n, of True] show ?thesis by auto
qed

section \<open>Graphs\<close>

text \<open>
  Adding a reply to a consistent graph keeps it consistent, puts the new node at the end
  of its parent's children, waiting and without a session, and changes no other node; the new
  prompt and status resolve to it.
\<close>

theorem reply_is_added:
  assumes ok: "graph_ok g" and add: "add_node nid sc pr status parent reference g = Inr g'"
    and ne: "nid \<noteq> []" "status \<noteq> []"
  shows "graph_ok g' \<and>
    get_node g' nid = Some (new_node nid sc pr status (Some parent) (Some reference)) \<and>
    resolve_reference g' status = Some (new_node nid sc pr status (Some parent) (Some reference), STATUS) \<and>
    graph_children g' = (graph_children g)(parent := graph_children g parent @ [nid]) \<and>
    (\<forall>k. k \<noteq> nid \<and> k \<noteq> parent \<longrightarrow> get_node g' k = get_node g k)"
proof -
  note ok' = add_node_ok [OF ok add ne]
  let ?n = "new_node nid sc pr status (Some parent) (Some reference)"
  have n: "get_node g' nid = Some ?n" by (simp add: get_add_node [OF add])
  then have "resolve_reference g' status = Some (?n, STATUS)"
    unfolding resolve_reference_iff [OF ok'] by (simp add: new_node_def)
  with ok' n show ?thesis
    by (auto simp: get_add_node [OF add] add_node_children [OF ok add] fun_eq_iff)
qed

theorem reply_is_added_witness:
  "\<exists>g'. add_node ''7'' demo_scope ''q'' ''8'' ''3'' ''4'' (graph (demo demo_busy)) = Inr g' \<and> graph_ok g' \<and>
    graph_children g' ''3'' = [''5'', ''7'']"
proof -
  obtain g where g: "add_node ''7'' demo_scope ''q'' ''8'' ''3'' ''4'' (graph (demo demo_busy)) = Inr g"
    by (cases "add_node ''7'' demo_scope ''q'' ''8'' ''3'' ''4'' (graph (demo demo_busy))") (code_simp, simp)
  have "graph_children (graph (demo demo_busy)) ''3'' = [''5'']" by code_simp
  with reply_is_added [OF tree_baseD(1) [OF tree_okD(1) [OF demo_busy_ok]] g] g show ?thesis by simp
qed

text \<open>
  Both walks over a consistent graph end. The descendants of a node are exactly the nodes
  its replies lead to, each once, the node first; the messages below a reference are exactly
  those its platform replies lead to, each once, the reference first.
\<close>

theorem walks_are_exact:
  assumes ok: "graph_ok g" and k: "get_node g k \<noteq> None" and r: "resolve_reference g r \<noteq> None"
  shows "\<exists>ks rs. get_descendants g k = Some (k # ks) \<and> distinct (k # ks) \<and>
    set (k # ks) = (edges (graph_children g))\<^sup>* `` {k} \<and>
    get_reference_descendants g r = Some (r # rs) \<and> distinct (r # rs) \<and>
    set (r # rs) = (edges (reference_children g))\<^sup>* `` {r}"
  using get_descendants_exact [OF ok, of k] get_reference_descendants_exact [OF ok r] k by blast

theorem walks_are_exact_witness:
  "\<exists>ks. get_descendants (graph (demo demo_busy)) ''1'' = Some (''1'' # ks) \<and>
    set (''1'' # ks) = (edges (graph_children (graph (demo demo_busy))))\<^sup>* `` {''1''}"
proof -
  have "(case get_node (graph (demo demo_busy)) ''1'' of None \<Rightarrow> False | Some n \<Rightarrow> True)"
    "(case resolve_reference (graph (demo demo_busy)) ''2'' of None \<Rightarrow> False | Some n \<Rightarrow> True)" by code_simp+
  then have "get_node (graph (demo demo_busy)) ''1'' \<noteq> None"
    "resolve_reference (graph (demo demo_busy)) ''2'' \<noteq> None" by (auto split: option.splits)
  from walks_are_exact [OF tree_baseD(1) [OF tree_okD(1) [OF demo_busy_ok]] this] show ?thesis by blast
qed

text \<open>
  The line of a tree keeps the order of arrival and serves nobody twice: draining a queue
  into which items were put returns each of them once, in the order of their first arrival.
\<close>

theorem queue_order:
  "fst (queue_drain (queue_of items)) = rev (remdups (rev items)) \<and>
   queue_size (queue_of items) = card (set items) \<and>
   (fst (queue_put k (queue_of items)) \<longleftrightarrow> k \<notin> set items) \<and>
   fst (queue_drain (snd (queue_remove k (queue_of items)))) =
     filter (\<lambda>x. x \<noteq> k) (rev (remdups (rev items)))"
proof -
  note ok = queue_ok_queue_of [of items]
  have items: "queue_items (queue_of items) = rev (remdups (rev items))"
    using nq.put_all [OF nq.ok_empty, of items] by (simp add: queue_of_def nq.items_empty)
  then show ?thesis
    using nq.drained [OF ok] nq.size_items [OF ok] nq.put_changed [OF ok, of k]
      nq.drained [OF nq.ok_remove [OF ok, of k]] nq.items_remove [OF ok, of k]
    by (simp add: length_remdups_card_conv)
qed

section \<open>Snapshots\<close>

text \<open>
  C22. A restart loses no conversation: restoring the snapshot of a consistent tree that still
  has nodes succeeds and gives a consistent, idle tree of the same identity with the same
  nodes in the same order, except that prompts are not kept and what was waiting or running is
  now an error; exactly those nodes are reported.
\<close>

theorem restart_keeps_tree:
  assumes ok: "tree_ok W t" and ne: "nodes (graph t) \<noteq> []"
  shows "\<exists>t'. tree_from_snapshot rp (tree_snapshot_of t) = Some (Inr t') \<and> tree_ok {} t' \<and> idle t' \<and>
    tree_identity_of t' = tree_identity_of t \<and>
    dkeys (nodes (graph t')) = dkeys (nodes (graph t)) \<and>
    (\<forall>k. tree_node t' k = map_option (\<lambda>n. settle_node (n\<lparr>prompt := []\<rparr>)) (tree_node t k)) \<and>
    map ui_node (restored_stale_targets t') = filter (runs t) (dkeys (nodes (graph t)))"
proof -
  from graph_snapshot_roundtrip [OF tree_baseD(1) [OF tree_okD(1) [OF ok]] ne, of rp] obtain g where g:
    "graph_from_snapshot rp (tree_snapshot_of t) = Some (Inr g)" "graph_ok g"
    "identity g = identity (graph t)"
    "nodes g = map (\<lambda>(k, n). (k, n\<lparr>prompt := []\<rparr>)) (nodes (graph t))"
    unfolding tree_snapshot_of_def by blast
  have keys: "dkeys (nodes g) = dkeys (nodes (graph t))" by (auto simp: g(4))
  have get: "get_node g k = map_option (\<lambda>n. n\<lparr>prompt := []\<rparr>) (tree_node t k)" for k
    unfolding get_node_def tree_node_def g(4) by (rule dget_map_value)
  have runs: "runs (tree_of_graph g) = runs t"
    by (rule ext) (simp add: runs_def tree_node_def [of "tree_of_graph g"] get split: option.split)
  from tree_from_graph [OF g(1,2)] obtain t' where t':
    "tree_from_snapshot rp (tree_snapshot_of t) = Some (Inr t')" "tree_ok {} t'" "idle t'"
    "identity (graph t') = identity g" "dkeys (nodes (graph t')) = dkeys (nodes g)"
    "\<And>k. tree_node t' k = map_option settle_node (get_node g k)"
    "restored_stale_targets t' =
      map (target_of (tree_of_graph g)) (filter (runs (tree_of_graph g)) (dkeys (nodes g)))" by blast
  have "tree_base {k. True} (tree_of_graph g)"
    using g(2) nq.ok_empty by (simp add: tree_base_def)
  then have "map ui_node (restored_stale_targets t') = filter (runs t) (dkeys (nodes (graph t)))"
    unfolding t'(7) runs keys map_map by (intro map_idI) (simp add: target_node)
  with t'(1-6) show ?thesis
    by (simp add: g(3) keys get tree_identity_of_def option.map_comp o_def)
qed

theorem restart_keeps_tree_witness:
  "\<exists>t'. tree_from_snapshot (\<lambda>j. []) (tree_snapshot_of (demo demo_busy)) = Some (Inr t') \<and>
    map ui_node (restored_stale_targets t') = [''1'', ''3'', ''5'']"
proof -
  have "nodes (graph (demo demo_busy)) \<noteq> []" by code_simp
  from restart_keeps_tree [OF demo_busy_ok this, of "\<lambda>j. []"] obtain t' where
    "tree_from_snapshot (\<lambda>j. []) (tree_snapshot_of (demo demo_busy)) = Some (Inr t')"
    "map ui_node (restored_stale_targets t') =
      filter (runs (demo demo_busy)) (dkeys (nodes (graph (demo demo_busy))))" by blast
  moreover have "filter (runs (demo demo_busy)) (dkeys (nodes (graph (demo demo_busy)))) = [''1'', ''3'', ''5'']"
    by code_simp
  ultimately show ?thesis by auto
qed

text \<open>
  C23. Restoring is total: whatever the snapshot holds - it is read from a file - the restoring
  ends, with an error or with a tree that is consistent, idle and not empty, has the snapshot's
  identity, and reports no interrupted node twice.
\<close>

theorem restore_any_snapshot:
  "\<exists>r. tree_from_snapshot rp s = Some r \<and>
    (case r of Inl e \<Rightarrow> True
     | Inr t \<Rightarrow> tree_ok {} t \<and> idle t \<and> nodes (graph t) \<noteq> [] \<and> tree_identity_of t = snap_identity s \<and>
         restored_snapshot t = Some (tree_snapshot_of t) \<and>
         distinct (map ui_node (restored_stale_targets t)))"
proof -
  obtain r where r: "tree_from_snapshot rp s = Some r"
    "\<forall>t. r = Inr t \<longrightarrow> tree_ok {} t \<and> idle t \<and> nodes (graph t) \<noteq> [] \<and>
       tree_identity_of t = snap_identity s \<and> restored_snapshot t = Some (tree_snapshot_of t) \<and>
       distinct (map ui_node (restored_stale_targets t))"
    using tree_from_snapshot_total by blast
  then show ?thesis by (intro exI [of _ r]) (simp split: sum.split)
qed

lemma conversation_ok_fold: "conversation_ok c \<Longrightarrow> conversation_ok (fold with_tree ss c)"
  by (induction ss arbitrary: c) (simp_all add: conversation_ok_with_tree)

lemma conversation_ok_load_trees: "conversation_ok c \<Longrightarrow> conversation_ok (load_trees rp js c)"
  by (induction js arbitrary: c) (simp_all add: load_trees_def conversation_ok_with_tree split: option.split)

lemma conversation_ok_Nil: "conversation_ok []"
  by (simp add: conversation_ok_def)

text \<open>
  What the program writes of its conversations it reads back unchanged; and reading any
  JSON document at all gives conversations that survive being written and read again.
\<close>

theorem conversations_read_back:
  "conversation_from_json rp (conversation_to_json (fold with_tree ss [])) = fold with_tree ss [] \<and>
   conversation_from_json rp (conversation_to_json (conversation_from_json rp j)) = conversation_from_json rp j"
proof
  show "conversation_from_json rp (conversation_to_json (fold with_tree ss [])) = fold with_tree ss []"
    by (rule conversation_json_roundtrip [OF conversation_ok_fold [OF conversation_ok_Nil]])
  have "conversation_ok (conversation_from_json rp j)"
    using conversation_ok_load_trees [OF conversation_ok_Nil] conversation_ok_Nil
    by (auto simp: conversation_from_json_def split: json.split option.split)
  then show "conversation_from_json rp (conversation_to_json (conversation_from_json rp j)) =
      conversation_from_json rp j"
    by (rule conversation_json_roundtrip)
qed

section \<open>A cancellation that raises\<close>

text \<open>
  C25. Removing the status message of the node that runs, before its task has released the claim, leaves a
  tree that cannot be stopped: \<open>cancel_all\<close> raises and so does cancelling that node, every other waiting
  node keeps its place in the line, and no node is settled.
\<close>

theorem stop_after_status_removal_raises:
  assumes ok: "tree_ok W t" and ord: "set_order ord"
    and r: "resolve_reference (graph t) r = Some (n, STATUS)"
    and a: "active t = Some a" "ui_node (claim_node (claim a)) = node_id n"
  defines "below \<equiv> (edges (reference_children (graph t)))\<^sup>* `` {r}"
  shows "\<exists>t' rm. remove_message_subtree ord r t = Some (t', Inr rm) \<and> stuck t' \<and>
    cancel_all t' = (request_cancellation t', Inl No_status) \<and> snd (cancel_node (node_id n) t') = Inl No_status \<and>
    queued (fst (cancel_all t')) = filter (\<lambda>k. k \<notin> below \<and> k \<noteq> node_id n) (queued t) \<and>
    graph (fst (cancel_all t')) = graph t'"
proof -
  note base = tree_okD(1) [OF ok]
  have n: "tree_node t (node_id n) = Some n" "status_message_id n = Some r"
    using r unfolding resolve_reference_iff [OF tree_baseD(1) [OF base]] by (auto simp: tree_node_def)
  then have free: "\<not> stuck t" using a by (simp add: stuck_def)
  obtain t' rm P where t': "remove_message_subtree ord r t = Some (t', Inr rm)" "tree_ok W t'"
    "queued t' = filter (\<lambda>k. k \<notin> below \<and> \<not> (STATUS = STATUS \<and> k = node_id n)) (queued t)"
    "\<forall>k. tree_node t' k = (if k \<in> below then None else map_option (\<lambda>m. forget_children below
      (if STATUS = STATUS \<and> k = node_id n then node_clear_status m else m)) (tree_node t k))"
    "active t' = active (asked P t)" "P (node_id n)"
    using removal_effect [OF ok free ord r, folded below_def] by blast
  obtain a' where a': "active t' = Some a'" "claim a' = claim a"
    using t'(5,6) a by (auto simp: asked_def request_cancellation_def claim_on_def)
  obtain rs where "set (r # rs) = below"
    using get_reference_descendants_exact [OF tree_baseD(1) [OF base], of r] r unfolding below_def by auto
  then have "node_id n \<notin> below"
    using owner_stays [OF tree_baseD(1) [OF base] _ r, of "r # rs"] unfolding below_def by simp
  then have "tree_node t' (node_id n) = Some (forget_children below (node_clear_status n))"
    using t'(4) n(1) by simp
  then have stuck: "stuck t'"
    using a' a(2) by (simp add: stuck_def node_clear_status_def)
  have all: "cancel_all t' = (request_cancellation t', Inl No_status)"
    by (rule cancel_all_stuck [OF tree_okD(1) [OF t'(2)] stuck])
  have one: "snd (cancel_node (node_id n) t') = Inl No_status"
    using cancel_node_stuck [OF stuck a'(1)] unfolding a'(2) a(2) .
  have line: "queued (fst (cancel_all t')) = filter (\<lambda>k. k \<notin> below \<and> k \<noteq> node_id n) (queued t)"
    unfolding all using t'(3) by (simp add: frame_simps)
  have kept: "graph (fst (cancel_all t')) = graph t'" unfolding all by (simp add: frame_simps)
  show ?thesis
    by (rule exI [of _ t'], rule exI [of _ rm], intro conjI) (fact t'(1) stuck all one line kept)+
qed

theorem stop_after_status_removal_raises_witness:
  "\<exists>t' rm. remove_message_subtree remdups ''2'' (demo demo_busy) = Some (t', Inr rm) \<and>
    snd (cancel_all t') = Inl No_status"
proof -
  have "map_option (\<lambda>x. (node_id (fst x), snd x)) (resolve_reference (graph (demo demo_busy)) ''2'') = Some (''1'', STATUS)"
    by code_simp
  then obtain n where n: "resolve_reference (graph (demo demo_busy)) ''2'' = Some (n, STATUS)" "node_id n = ''1''"
    by auto
  have "ui_node (claim_node (claim demo_claim)) = ''1''" by code_simp
  with stop_after_status_removal_raises [OF demo_busy_ok set_order_remdups n(1) demo_active] n(2)
  show ?thesis by fastforce
qed

end
