(* ===== verification/Py_String.thy ===== *)
theory Py_String
  imports Prelude
begin

text \<open>
  The string methods the stream parsers use: \<open>find\<close>, \<open>rfind\<close> of one character, \<open>strip\<close>,
  \<open>replace\<close> and \<open>splitlines\<close>. A position that Python reports as \<open>-1\<close> is \<open>None\<close>.
\<close>

section \<open>Searching\<close>

fun py_find :: "string \<Rightarrow> string \<Rightarrow> nat option" where
  "py_find pat [] = (if pat = [] then Some 0 else None)"
| "py_find pat (c # s) = (if prefix pat (c # s) then Some 0 else map_option Suc (py_find pat s))"

fun py_rfind :: "char \<Rightarrow> string \<Rightarrow> nat option" where
  "py_rfind c [] = None"
| "py_rfind c (x # s) =
     (case py_rfind c s of Some n \<Rightarrow> Some (Suc n) | None \<Rightarrow> if x = c then Some 0 else None)"

text \<open>\<open>s.find(pat, start)\<close>.\<close>

definition py_find_from :: "string \<Rightarrow> nat \<Rightarrow> string \<Rightarrow> nat option" where
  "py_find_from pat start s =
     (if start \<le> length s then map_option (\<lambda>n. n + start) (py_find pat (drop start s)) else None)"

lemma py_find_Some:
  assumes "py_find pat s = Some n"
  shows "s = take n s @ pat @ drop (n + length pat) s" "n + length pat \<le> length s"
    "k < n \<Longrightarrow> \<not> prefix pat (drop k s)"
proof -
  have "(s = take n s @ pat @ drop (n + length pat) s \<and> n + length pat \<le> length s) \<and>
      (\<forall>k<n. \<not> prefix pat (drop k s))"
    using assms
  proof (induction s arbitrary: n)
    case (Cons c s)
    show ?case
    proof (cases "prefix pat (c # s)")
      case True
      then obtain t where "c # s = pat @ t" by (auto elim: prefixE)
      moreover have "n = 0" using Cons.prems True by simp
      moreover from \<open>c # s = pat @ t\<close> have "length pat \<le> length (c # s)" by simp
      ultimately show ?thesis by simp
    next
      case False
      with Cons.prems obtain m where m: "n = Suc m" "py_find pat s = Some m" by auto
      have "\<not> prefix pat (drop k (c # s))" if "k < n" for k
        using that False Cons.IH [OF m(2)] m(1) by (cases k) auto
      with Cons.IH [OF m(2)] m(1) show ?thesis by auto
    qed
  qed (auto split: if_splits)
  then show "s = take n s @ pat @ drop (n + length pat) s" "n + length pat \<le> length s"
    "k < n \<Longrightarrow> \<not> prefix pat (drop k s)" by blast+
qed

lemma py_find_None: "py_find pat s = None \<Longrightarrow> \<not> prefix pat (drop k s)"
proof (induction s arbitrary: k)
  case (Cons c s)
  then show ?case by (cases k) (auto split: if_splits)
qed (auto split: if_splits)

lemma py_rfind_Some:
  "py_rfind c s = Some n \<Longrightarrow> s = take n s @ c # drop (Suc n) s \<and> n < length s \<and> c \<notin> set (drop (Suc n) s)"
proof (induction s arbitrary: n)
  case (Cons x s)
  have none: "py_rfind c t = None \<Longrightarrow> c \<notin> set t" for t
    by (induction t) (auto split: option.splits if_splits)
  from Cons show ?case using none [of s] by (auto split: option.splits if_splits)
qed simp

lemma py_rfind_None: "py_rfind c s = None \<longleftrightarrow> c \<notin> set s"
  by (induction s) (auto split: option.split)

lemma drop_found: "py_find tag buf = Some n \<Longrightarrow> drop n buf @ u = tag @ drop (n + length tag) buf @ u"
  using py_find_Some(1,2) [of tag buf n]
  by (metis add_leD1 append.assoc append_take_drop_id length_take min.absorb2 same_append_eq)

lemma prefix_nth: "prefix tag s \<Longrightarrow> i < length tag \<Longrightarrow> s ! i = tag ! i"
  by (auto simp: prefix_def nth_append)

lemma prefix_within: "prefix p (s @ t) \<Longrightarrow> length p \<le> length s \<Longrightarrow> prefix p s"
  using prefix_length_prefix [of p "s @ t" s] by simp

end
