(* ===== verification/Think_Parser.thy ===== *)
theory Think_Parser
  imports Py_String
begin

text \<open>
  \<open>core/anthropic/thinking.py\<close>: the parser that splits a stream of text chunks into visible
  text and reasoning at \<open><think>\<close> and \<open></think>\<close> tags, holding back a tag that a chunk
  boundary may have cut. Its reference is a scan of the whole text, character by character.
\<close>

section \<open>The parser\<close>

datatype content_type = Text | Thinking

type_synonym content_chunk = "content_type \<times> string"

record think_parser =
  think_buffer :: string
  in_think_tag :: bool

definition new_think_parser :: think_parser where
  "new_think_parser = \<lparr>think_buffer = [], in_think_tag = False\<rparr>"

definition open_tag :: string where
  "open_tag = ''<think>''"

definition close_tag :: string where
  "close_tag = ''</think>''"

text \<open>\<open>if text: return ContentChunk(...)\<close>, otherwise \<open>None\<close>.\<close>

definition chunk_of :: "content_type \<Rightarrow> string \<Rightarrow> content_chunk option" where
  "chunk_of t s = (if s = [] then None else Some (t, s))"

text \<open>The two parts of the tag search that found nothing: keep a possible start of a tag.\<close>

definition hold_back :: "content_type \<Rightarrow> (string \<Rightarrow> bool) \<Rightarrow> think_parser \<Rightarrow> content_chunk option \<times> think_parser" where
  "hold_back t partial p =
     (let buf = think_buffer p in
      case py_rfind CHR ''<'' buf of
        Some n \<Rightarrow>
          if partial (drop n buf) then (chunk_of t (take n buf), p\<lparr>think_buffer := drop n buf\<rparr>)
          else (chunk_of t buf, p\<lparr>think_buffer := []\<rparr>)
      | None \<Rightarrow> (chunk_of t buf, p\<lparr>think_buffer := []\<rparr>))"

definition partial_outside :: "string \<Rightarrow> bool" where
  "partial_outside s \<longleftrightarrow>
     length s < length open_tag \<and> prefix s open_tag \<or> length s < length close_tag \<and> prefix s close_tag"

definition partial_inside :: "string \<Rightarrow> bool" where
  "partial_inside s \<longleftrightarrow> length s < length close_tag \<and> prefix s close_tag"

definition parse_outside_think :: "think_parser \<Rightarrow> content_chunk option \<times> think_parser" where
  "parse_outside_think p =
     (let buf = think_buffer p in
      case (py_find open_tag buf, py_find close_tag buf) of
        (start, Some n) \<Rightarrow>
          if (case start of None \<Rightarrow> True | Some m \<Rightarrow> n < m) then
            (chunk_of Text (take n buf), p\<lparr>think_buffer := drop (n + length close_tag) buf\<rparr>)
          else (chunk_of Text (take (the start) buf),
                p\<lparr>think_buffer := drop (the start + length open_tag) buf, in_think_tag := True\<rparr>)
      | (Some m, None) \<Rightarrow>
          (chunk_of Text (take m buf),
           p\<lparr>think_buffer := drop (m + length open_tag) buf, in_think_tag := True\<rparr>)
      | (None, None) \<Rightarrow> hold_back Text partial_outside p)"

definition parse_inside_think :: "think_parser \<Rightarrow> content_chunk option \<times> think_parser" where
  "parse_inside_think p =
     (let buf = think_buffer p in
      case py_find close_tag buf of
        None \<Rightarrow> hold_back Thinking partial_inside p
      | Some n \<Rightarrow>
          (chunk_of Thinking (take n buf),
           p\<lparr>think_buffer := drop (n + length close_tag) buf, in_think_tag := False\<rparr>))"

definition parse_think :: "think_parser \<Rightarrow> content_chunk option \<times> think_parser" where
  "parse_think p = (if in_think_tag p then parse_inside_think p else parse_outside_think p)"

text \<open>The loop ends when the buffer is empty, or when a step neither yields nor consumes.\<close>

lemma hold_back_shrinks:
  assumes "hold_back t partial p = (c, q)"
  shows "length (think_buffer q) \<le> length (think_buffer p)"
    "c \<noteq> None \<Longrightarrow> length (think_buffer q) < length (think_buffer p)"
  using assms by (auto simp: hold_back_def chunk_of_def Let_def split: option.splits if_splits)

lemma parse_think_shrinks:
  assumes "parse_think p = (c, q)"
  shows "length (think_buffer q) \<le> length (think_buffer p)"
    "c \<noteq> None \<Longrightarrow> length (think_buffer q) < length (think_buffer p)"
proof -
  have some: "think_buffer p \<noteq> []" if "py_find tag (think_buffer p) = Some n" "tag \<noteq> []" for tag n
    using that by auto
  have mode_tags: "open_tag \<noteq> []" "close_tag \<noteq> []" "0 < length open_tag" "0 < length close_tag"
    by (simp_all add: open_tag_def close_tag_def)
  show "length (think_buffer q) \<le> length (think_buffer p)"
    using assms hold_back_shrinks(1) unfolding parse_think_def parse_inside_think_def parse_outside_think_def Let_def
    by (auto split: if_splits option.splits)
  show "c \<noteq> None \<Longrightarrow> length (think_buffer q) < length (think_buffer p)"
    using assms hold_back_shrinks(2) some mode_tags unfolding parse_think_def parse_inside_think_def parse_outside_think_def Let_def
    by (auto split: if_splits option.splits simp del: not_None_eq)
qed

function think_loop :: "think_parser \<Rightarrow> content_chunk list \<times> think_parser" where
  "think_loop p =
     (if think_buffer p = [] then ([], p)
      else (case parse_think p of
              (Some c, q) \<Rightarrow> (case think_loop q of (cs, r) \<Rightarrow> (c # cs, r))
            | (None, q) \<Rightarrow>
                if length (think_buffer q) = length (think_buffer p) then ([], q) else think_loop q))"
  by pat_completeness auto

termination
  by (relation "measure (\<lambda>p. length (think_buffer p))")
    (auto dest: sym [THEN parse_think_shrinks(1)] sym [THEN parse_think_shrinks(2)] simp: le_neq_implies_less)

declare think_loop.simps [simp del]

definition think_feed :: "string \<Rightarrow> think_parser \<Rightarrow> content_chunk list \<times> think_parser" where
  "think_feed s p = think_loop (p\<lparr>think_buffer := think_buffer p @ s\<rparr>)"

definition think_flush :: "think_parser \<Rightarrow> content_chunk option \<times> think_parser" where
  "think_flush p =
     (chunk_of (if in_think_tag p then Thinking else Text) (think_buffer p), p\<lparr>think_buffer := []\<rparr>)"

section \<open>The reference: one scan over the whole text\<close>

text \<open>Every character is labelled by the mode it is read in; complete tags are consumed.\<close>

function think_scan :: "bool \<Rightarrow> string \<Rightarrow> (content_type \<times> char) list" where
  "think_scan m [] = []"
| "think_scan m (c # s) =
     (if \<not> m \<and> prefix open_tag (c # s) then think_scan True (drop (length open_tag) (c # s))
      else if prefix close_tag (c # s) then think_scan False (drop (length close_tag) (c # s))
      else (if m then Thinking else Text, c) # think_scan m s)"
  by pat_completeness auto

termination
  by (relation "measure (\<lambda>(m, s). length s)") (simp_all add: open_tag_def close_tag_def)

declare think_scan.simps(2) [simp del]

definition labelled :: "content_type \<Rightarrow> string \<Rightarrow> (content_type \<times> char) list" where
  "labelled t s = map (Pair t) s"

definition mode_type :: "bool \<Rightarrow> content_type" where
  "mode_type m = (if m then Thinking else Text)"

definition chunk_chars :: "content_chunk list \<Rightarrow> (content_type \<times> char) list" where
  "chunk_chars cs = concat (map (\<lambda>(t, s). labelled t s) cs)"

definition opt_chunk :: "content_chunk option \<Rightarrow> content_chunk list" where
  "opt_chunk c = (case c of None \<Rightarrow> [] | Some x \<Rightarrow> [x])"

lemma chunk_chars_simps [simp]:
  "chunk_chars [] = []" "chunk_chars (c # cs) = labelled (fst c) (snd c) @ chunk_chars cs"
  "chunk_chars (cs @ ds) = chunk_chars cs @ chunk_chars ds"
  by (simp_all add: chunk_chars_def split_beta)

lemma chunk_of_chars [simp]: "chunk_chars (opt_chunk (chunk_of t s)) = labelled t s"
  by (simp add: opt_chunk_def chunk_of_def labelled_def)

text \<open>A tag that starts here, given the mode.\<close>

definition tag_at :: "bool \<Rightarrow> string \<Rightarrow> bool" where
  "tag_at m s \<longleftrightarrow> \<not> m \<and> prefix open_tag s \<or> prefix close_tag s"

lemma scan_plain:
  assumes "\<And>k. k < length pre \<Longrightarrow> \<not> tag_at m (drop k pre @ rest)"
  shows "think_scan m (pre @ rest) = labelled (mode_type m) pre @ think_scan m rest"
  using assms
proof (induction pre)
  case (Cons c pre)
  have first: "\<not> tag_at m (c # pre @ rest)" using Cons.prems [of 0] by simp
  have later: "\<not> tag_at m (drop k pre @ rest)" if "k < length pre" for k
    using Cons.prems [of "Suc k"] that by simp
  have "think_scan m (c # pre @ rest) = (mode_type m, c) # think_scan m (pre @ rest)"
    using first by (auto simp: think_scan.simps(2) tag_at_def mode_type_def)
  also have "think_scan m (pre @ rest) = labelled (mode_type m) pre @ think_scan m rest"
    by (rule Cons.IH) (rule later)
  finally show ?case by (simp add: labelled_def)
qed (simp add: labelled_def)

lemma scan_open: "think_scan False (open_tag @ s) = think_scan True s"
  by (simp add: think_scan.simps(2) open_tag_def)

lemma scan_close: "think_scan m (close_tag @ s) = think_scan False s"
  by (simp add: think_scan.simps(2) open_tag_def close_tag_def)

text \<open>A tag holds its only \<open><\<close> in front, so no tag can start shortly before one.\<close>

definition mode_tags :: "bool \<Rightarrow> string set" where
  "mode_tags m = (if m then {close_tag} else {open_tag, close_tag})"

lemma tag_at_modes: "tag_at m s \<longleftrightarrow> (\<exists>tag \<in> mode_tags m. prefix tag s)"
  by (auto simp: tag_at_def mode_tags_def)

lemma tag_shape: "tag \<in> mode_tags m \<Longrightarrow> \<exists>r. tag = CHR ''<'' # r \<and> CHR ''<'' \<notin> set r"
  by (auto simp: mode_tags_def open_tag_def close_tag_def split: if_splits)

lemma no_tag_before:
  assumes lt: "n < length buf" "buf ! n = CHR ''<''" "k < n"
    and none: "\<And>tag. tag \<in> mode_tags m \<Longrightarrow> \<not> prefix tag (drop k buf)"
  shows "\<not> tag_at m (drop k (buf @ u))"
proof
  assume "tag_at m (drop k (buf @ u))"
  then obtain tag where tag: "tag \<in> mode_tags m" "prefix tag (drop k (buf @ u))" by (auto simp: tag_at_modes)
  obtain r where r: "tag = CHR ''<'' # r" "CHR ''<'' \<notin> set r" using tag_shape [OF tag(1)] by blast
  have "n < k + length tag"
  proof (rule ccontr)
    assume "\<not> n < k + length tag"
    then have "k + length tag \<le> length buf" using lt(1) by simp
    then have "length tag \<le> length (drop k buf)" by simp
    moreover have "prefix tag (drop k buf @ u)" using tag(2) lt by simp
    ultimately have "prefix tag (drop k buf)" by (metis prefix_append prefix_length_prefix prefix_order.refl)
    with none [OF tag(1)] show False by simp
  qed
  then have "drop k (buf @ u) ! (n - k) = tag ! (n - k)" using prefix_nth [OF tag(2)] lt(3) by simp
  moreover have "drop k (buf @ u) ! (n - k) = CHR ''<''"
    using lt diff_less_mono [of n "length buf" k] by (simp add: nth_append)
  moreover have "tag ! (n - k) \<in> set r" using r(1) lt(3) \<open>n < k + length tag\<close> by (auto simp: nth_Cons')
  ultimately show False using r(2) by simp
qed

lemma scan_to:
  assumes lt: "n < length buf" "buf ! n = CHR ''<''"
    and none: "\<And>tag k. tag \<in> mode_tags m \<Longrightarrow> k < n \<Longrightarrow> \<not> prefix tag (drop k buf)"
  shows "think_scan m (buf @ u) = labelled (mode_type m) (take n buf) @ think_scan m (drop n buf @ u)"
proof -
  have "think_scan m (take n buf @ (drop n buf @ u)) =
      labelled (mode_type m) (take n buf) @ think_scan m (drop n buf @ u)"
  proof (rule scan_plain)
    fix k assume k: "k < length (take n buf)"
    have "drop k (take n buf @ drop n buf) = drop k (take n buf) @ drop n buf"
      using k by (simp add: drop_append del: append_take_drop_id)
    then have eq: "drop k (take n buf) @ drop n buf @ u = drop k (buf @ u)"
      using k by (metis append.assoc append_take_drop_id drop_append diff_is_0_eq drop_0 length_take
        less_imp_le_nat min_less_iff_conj)
    show "\<not> tag_at m (drop k (take n buf) @ drop n buf @ u)"
      unfolding eq by (rule no_tag_before) (use lt none k in simp_all)
  qed
  then show ?thesis by (metis append.assoc append_take_drop_id)
qed

text \<open>Nothing can start in a text whose last \<open><\<close> does not begin a tag.\<close>

lemma scan_whole:
  assumes none: "\<And>tag k. tag \<in> mode_tags m \<Longrightarrow> \<not> prefix tag (drop k buf)"
    and tail: "\<And>n tag. py_rfind CHR ''<'' buf = Some n \<Longrightarrow> tag \<in> mode_tags m \<Longrightarrow> \<not> prefix (drop n buf) tag"
  shows "think_scan m (buf @ u) = labelled (mode_type m) buf @ think_scan m u"
proof (rule scan_plain)
  fix k assume k: "k < length buf"
  have "\<not> tag_at m (drop k (buf @ u))"
  proof
    assume "tag_at m (drop k (buf @ u))"
    then obtain tag where tag: "tag \<in> mode_tags m" "prefix tag (drop k (buf @ u))" by (auto simp: tag_at_modes)
    obtain r where r: "tag = CHR ''<'' # r" using tag_shape [OF tag(1)] by blast
    have at: "buf ! k = CHR ''<''" using prefix_nth [OF tag(2), of 0] k r by (simp add: nth_append)
    show False
    proof (cases "py_rfind CHR ''<'' buf")
      case None
      then show False using at k by (metis nth_mem py_rfind_None)
    next
      case (Some n)
      note n = py_rfind_Some [OF Some]
      have bn: "buf ! n = CHR ''<''" using n by (metis nth_append_length length_take less_imp_le_nat min.absorb2)
      consider "k < n" | "k = n" | "n < k" by linarith
      then show False
      proof cases
        case 1
        then show False using no_tag_before [of n buf k m u] n bn none \<open>tag_at m (drop k (buf @ u))\<close> by blast
      next
        case 2
        have "prefix tag (drop k buf) \<or> prefix (drop k buf) tag"
          using tag(2) k by (metis drop_append prefix_append prefix_order.dual_order.trans prefix_same_cases prefix_def)
        then show False using none [OF tag(1)] tail [OF Some tag(1)] 2 by blast
      next
        case 3
        then have "buf ! k \<in> set (drop (Suc n) buf)"
          using k by (auto simp: in_set_conv_nth intro!: exI [of _ "k - Suc n"])
        then show False using n at by simp
      qed
    qed
  qed
  then show "\<not> tag_at m (drop k buf @ u)" using k by simp
qed

section \<open>Each step agrees with the reference\<close>

lemma find_char:
  assumes "py_find tag buf = Some n" and "tag \<in> mode_tags m"
  shows "n < length buf" "buf ! n = CHR ''<''"
proof -
  obtain r where r: "tag = CHR ''<'' # r" using tag_shape [OF assms(2)] by blast
  note f = py_find_Some [OF assms(1)]
  show "n < length buf" using f(2) r by simp
  have "buf ! n = (tag @ drop (n + length tag) buf) ! 0"
    using f(1,2) by (metis append_take_drop_id length_take min.absorb2 nth_append_length_plus add.right_neutral add_leD1)
  then show "buf ! n = CHR ''<''" by (simp add: r)
qed

lemma hold_back_scan:
  assumes none: "\<And>tag k. tag \<in> mode_tags m \<Longrightarrow> \<not> prefix tag (drop k (think_buffer p))"
    and partial: "\<And>s tag. tag \<in> mode_tags m \<Longrightarrow> prefix s tag \<Longrightarrow> s \<noteq> tag \<Longrightarrow> partial s"
    and h: "hold_back (mode_type m) partial p = (c, q)"
  shows "think_scan m (think_buffer p @ u) = chunk_chars (opt_chunk c) @ think_scan m (think_buffer q @ u)"
    "in_think_tag q = in_think_tag p"
proof -
  show "in_think_tag q = in_think_tag p" using h by (auto simp: hold_back_def Let_def split: option.splits if_splits)
  show "think_scan m (think_buffer p @ u) = chunk_chars (opt_chunk c) @ think_scan m (think_buffer q @ u)"
  proof (cases "\<exists>n. py_rfind CHR ''<'' (think_buffer p) = Some n \<and> partial (drop n (think_buffer p))")
    case True
    then obtain n where n: "py_rfind CHR ''<'' (think_buffer p) = Some n" "partial (drop n (think_buffer p))" by blast
    note at = py_rfind_Some [OF n(1)]
    have "think_buffer p ! n = CHR ''<''"
      using at by (metis length_take less_imp_le_nat min.absorb2 nth_append_length)
    moreover have "c = chunk_of (mode_type m) (take n (think_buffer p))" "think_buffer q = drop n (think_buffer p)"
      using h n by (auto simp: hold_back_def Let_def)
    ultimately show ?thesis using scan_to [of n "think_buffer p" m u] at none by simp
  next
    case False
    then have "c = chunk_of (mode_type m) (think_buffer p)" "think_buffer q = []"
      using h by (auto simp: hold_back_def Let_def split: option.splits if_splits)
    moreover have "\<not> prefix (drop n (think_buffer p)) tag"
      if "py_rfind CHR ''<'' (think_buffer p) = Some n" "tag \<in> mode_tags m" for n tag
      using that False partial none [of tag n] by (metis prefix_order.refl)
    then have "think_scan m (think_buffer p @ u) = labelled (mode_type m) (think_buffer p) @ think_scan m u"
      by (intro scan_whole none) blast+
    ultimately show ?thesis by simp
  qed
qed

lemma partial_tags:
  "tag \<in> mode_tags False \<Longrightarrow> prefix s tag \<Longrightarrow> s \<noteq> tag \<Longrightarrow> partial_outside s"
  "tag \<in> mode_tags True \<Longrightarrow> prefix s tag \<Longrightarrow> s \<noteq> tag \<Longrightarrow> partial_inside s"
  by (auto simp: mode_tags_def partial_outside_def partial_inside_def dest: prefix_length_less intro: prefix_length_less)

lemma parse_think_scan:
  assumes "parse_think p = (c, q)"
  shows "think_scan (in_think_tag p) (think_buffer p @ u) =
    chunk_chars (opt_chunk c) @ think_scan (in_think_tag q) (think_buffer q @ u)"
proof (cases "in_think_tag p")
  case True
  show ?thesis
  proof (cases "py_find close_tag (think_buffer p)")
    case None
    then have "hold_back (mode_type True) partial_inside p = (c, q)"
      using assms True by (simp add: parse_think_def parse_inside_think_def Let_def mode_type_def)
    from hold_back_scan [OF _ partial_tags(2) this] True py_find_None [OF None]
    show ?thesis by (simp add: mode_tags_def)
  next
    case (Some n)
    then have q: "c = chunk_of Thinking (take n (think_buffer p))"
      "q = p\<lparr>think_buffer := drop (n + length close_tag) (think_buffer p), in_think_tag := False\<rparr>"
      using assms True by (simp_all add: parse_think_def parse_inside_think_def Let_def)
    have t: "close_tag \<in> mode_tags True" by (simp add: mode_tags_def)
    have "think_scan True (think_buffer p @ u) =
        labelled (mode_type True) (take n (think_buffer p)) @ think_scan True (drop n (think_buffer p) @ u)"
      using find_char [OF Some t] py_find_Some(3) [OF Some] by (intro scan_to) (auto simp: mode_tags_def)
    then show ?thesis using True q by (simp add: drop_found [OF Some] scan_close mode_type_def)
  qed
next
  case False
  have to: "think_scan False (think_buffer p @ u) =
      labelled Text (take n (think_buffer p)) @ think_scan False (drop n (think_buffer p) @ u)"
    if "py_find tag (think_buffer p) = Some n" "tag \<in> mode_tags False"
      "\<And>k t. t \<in> mode_tags False \<Longrightarrow> k < n \<Longrightarrow> \<not> prefix t (drop k (think_buffer p))" for tag n
    using scan_to [of n "think_buffer p" False u] find_char [OF that(1,2)] that(3) by (simp add: mode_type_def)
  have own: "open_tag \<in> mode_tags False" "close_tag \<in> mode_tags False" by (simp_all add: mode_tags_def)
  let ?o = "py_find open_tag (think_buffer p)" and ?x = "py_find close_tag (think_buffer p)"
  consider (none) "?o = None" "?x = None" | (close) n where "?x = Some n" "\<And>m. ?o = Some m \<Longrightarrow> n < m"
    | (opens) m where "?o = Some m" "\<And>n. ?x = Some n \<Longrightarrow> m \<le> n"
    by (cases ?o; cases ?x; simp; metis not_less)
  then show ?thesis
  proof cases
    case none
    then have h: "hold_back (mode_type False) partial_outside p = (c, q)"
      using assms False by (simp add: parse_think_def parse_outside_think_def Let_def mode_type_def)
    have absent: "\<not> prefix tag (drop k (think_buffer p))" if "tag \<in> mode_tags False" for tag k
      using that py_find_None [OF none(1)] py_find_None [OF none(2)] by (auto simp: mode_tags_def)
    note s = hold_back_scan [where m = False, OF absent partial_tags(1) h]
    show ?thesis using s(1) [where u = u] s(2) False by simp
  next
    case close
    then have q: "c = chunk_of Text (take n (think_buffer p))"
      "q = p\<lparr>think_buffer := drop (n + length close_tag) (think_buffer p)\<rparr>"
      using assms False by (auto simp: parse_think_def parse_outside_think_def Let_def split: option.splits)
    have "think_scan False (think_buffer p @ u) =
        labelled Text (take n (think_buffer p)) @ think_scan False (drop n (think_buffer p) @ u)"
    proof (rule to [OF close(1) own(2)])
      show "\<not> prefix t (drop k (think_buffer p))" if "t \<in> mode_tags False" "k < n" for k t
        using that py_find_Some(3) [OF close(1)] close(2) py_find_Some(3) [of open_tag "think_buffer p" _ k]
          py_find_None [of open_tag "think_buffer p" k]
        by (cases ?o) (auto simp: mode_tags_def)
    qed
    then show ?thesis using False q by (simp add: drop_found [OF close(1)] scan_close)
  next
    case opens
    then have q: "c = chunk_of Text (take m (think_buffer p))"
      "q = p\<lparr>think_buffer := drop (m + length open_tag) (think_buffer p), in_think_tag := True\<rparr>"
      using assms False by (auto simp: parse_think_def parse_outside_think_def Let_def not_less split: option.splits if_splits)
    have "think_scan False (think_buffer p @ u) =
        labelled Text (take m (think_buffer p)) @ think_scan False (drop m (think_buffer p) @ u)"
    proof (rule to [OF opens(1) own(1)])
      show "\<not> prefix t (drop k (think_buffer p))" if "t \<in> mode_tags False" "k < m" for k t
        using that py_find_Some(3) [OF opens(1)] opens(2) py_find_Some(3) [of close_tag "think_buffer p" _ k]
          py_find_None [of close_tag "think_buffer p" k]
        by (cases ?x) (auto simp: mode_tags_def)
    qed
    then show ?thesis using False q by (simp add: drop_found [OF opens(1)] scan_open)
  qed
qed

section \<open>Feeding and flushing\<close>

text \<open>What may stay behind in the buffer: the start of a tag.\<close>

definition held_back :: "think_parser \<Rightarrow> bool" where
  "held_back p \<longleftrightarrow>
     think_buffer p = [] \<or>
     (if in_think_tag p then partial_inside (think_buffer p) else partial_outside (think_buffer p))"

lemma hold_back_rest:
  assumes "hold_back t partial p = (None, q)" and "length (think_buffer q) = length (think_buffer p)"
    and "think_buffer p \<noteq> []"
  shows "q = p" "partial (think_buffer p)"
proof -
  obtain n where n: "py_rfind CHR ''<'' (think_buffer p) = Some n" "partial (drop n (think_buffer p))"
      "q = p\<lparr>think_buffer := drop n (think_buffer p)\<rparr>"
    using assms by (auto simp: hold_back_def Let_def chunk_of_def split: option.splits if_splits)
  then have "n = 0" using assms(2,3) py_rfind_Some [OF n(1)] by auto
  with n show "q = p" "partial (think_buffer p)" by simp_all
qed

lemma parse_think_rest:
  assumes "parse_think p = (None, q)" and "length (think_buffer q) = length (think_buffer p)"
    and "think_buffer p \<noteq> []"
  shows "held_back q"
proof -
  have shorter: "length (think_buffer p) - (n + length open_tag) \<noteq> length (think_buffer p)"
    "length (think_buffer p) - (n + length close_tag) \<noteq> length (think_buffer p)" for n
    using assms(3) by (cases "think_buffer p"; simp add: open_tag_def close_tag_def)+
  show ?thesis
  proof (cases "in_think_tag p")
    case True
    then have "hold_back Thinking partial_inside p = (None, q)"
      using assms shorter
      by (auto simp: parse_think_def parse_inside_think_def Let_def split: option.splits)
    from hold_back_rest [OF this assms(2,3)] True show ?thesis by (simp add: held_back_def)
  next
    case False
    then have "hold_back Text partial_outside p = (None, q)"
      using assms shorter
      by (auto simp: parse_think_def parse_outside_think_def Let_def split: option.splits if_splits)
    from hold_back_rest [OF this assms(2,3)] False show ?thesis by (simp add: held_back_def)
  qed
qed

lemma think_loop_result:
  assumes "think_loop p = (cs, q)"
  shows "think_scan (in_think_tag p) (think_buffer p @ u) =
      chunk_chars cs @ think_scan (in_think_tag q) (think_buffer q @ u)" "held_back q"
proof -
  have "think_scan (in_think_tag p) (think_buffer p @ u) =
      chunk_chars cs @ think_scan (in_think_tag q) (think_buffer q @ u) \<and> held_back q"
    using assms
  proof (induction p arbitrary: cs rule: think_loop.induct)
    case (1 p)
    show ?case
    proof (cases "think_buffer p = []")
      case True
      then show ?thesis using 1(3) by (auto simp: think_loop.simps [of p] held_back_def)
    next
      case False
      obtain c r where r: "parse_think p = (c, r)" by fastforce
      note step = parse_think_scan [OF r, of u]
      show ?thesis
      proof (cases c)
        case None
        show ?thesis
        proof (cases "length (think_buffer r) = length (think_buffer p)")
          case True
          then have "cs = []" "q = r" using 1(3) False r None by (simp_all add: think_loop.simps [of p])
          then show ?thesis
            using step None parse_think_rest [OF _ True False] r by (simp add: opt_chunk_def)
        next
          case long: False
          then have "think_loop r = (cs, q)" using 1(3) False r None by (simp add: think_loop.simps [of p])
          with 1(1) [OF False r [symmetric] None long] step None show ?thesis
            by (simp add: opt_chunk_def)
        qed
      next
        case (Some x)
        obtain ds q' where ds: "think_loop r = (ds, q')" by fastforce
        then have "cs = x # ds" "q = q'" using 1(3) False r Some by (simp_all add: think_loop.simps [of p])
        with 1(2) [OF False r [symmetric] Some, of ds] ds step Some show ?thesis
          by (simp add: opt_chunk_def)
      qed
    qed
  qed
  then show "think_scan (in_think_tag p) (think_buffer p @ u) =
      chunk_chars cs @ think_scan (in_think_tag q) (think_buffer q @ u)" "held_back q" by blast+
qed

text \<open>A whole stream: the chunks of every feed, and what the flush releases.\<close>

fun think_stream :: "string list \<Rightarrow> think_parser \<Rightarrow> content_chunk list \<times> think_parser" where
  "think_stream [] p = ([], p)"
| "think_stream (s # ss) p =
     (case think_feed s p of (cs, q) \<Rightarrow> (case think_stream ss q of (ds, r) \<Rightarrow> (cs @ ds, r)))"

lemma held_back_scan:
  assumes "held_back p"
  shows "think_scan (in_think_tag p) (think_buffer p) = labelled (mode_type (in_think_tag p)) (think_buffer p)"
proof -
  have short: "\<not> tag_at (in_think_tag p) (drop k (think_buffer p) @ [])" if "k < length (think_buffer p)" for k
  proof
    assume "tag_at (in_think_tag p) (drop k (think_buffer p) @ [])"
    then obtain tag where tag: "tag \<in> mode_tags (in_think_tag p)" "prefix tag (drop k (think_buffer p))"
      by (auto simp: tag_at_modes)
    obtain r where r: "tag = CHR ''<'' # r" using tag_shape [OF tag(1)] by blast
    have part: "\<exists>t. prefix (think_buffer p) t \<and> (t = open_tag \<or> t = close_tag) \<and>
        length (think_buffer p) < length t \<and> (in_think_tag p \<longrightarrow> t = close_tag)"
      using assms that by (auto simp: held_back_def partial_inside_def partial_outside_def split: if_splits)
    then obtain t where t: "prefix (think_buffer p) t" "t = open_tag \<or> t = close_tag"
      "length (think_buffer p) < length t" "in_think_tag p \<longrightarrow> t = close_tag" by blast
    have "think_buffer p ! k = CHR ''<''" using prefix_nth [OF tag(2), of 0] that r by simp
    moreover have "think_buffer p ! k = t ! k" using prefix_nth [OF t(1) that] by simp
    moreover have "t ! k \<in> set (tl t)" if "0 < k"
      using that t(3) \<open>k < length (think_buffer p)\<close> by (cases t) (auto simp: nth_Cons')
    moreover have "CHR ''<'' \<notin> set (tl t)" using t(2) by (auto simp: open_tag_def close_tag_def)
    ultimately have "k = 0" by (metis neq0_conv)
    then have "prefix tag t" "length tag < length t"
      using tag(2) t(1,3) by (auto intro: prefix_order.trans dest: prefix_length_le)
    then show False using tag(1) t(2) by (auto simp: mode_tags_def open_tag_def close_tag_def split: if_splits)
  qed
  show ?thesis using scan_plain [OF short] by simp
qed

lemma think_stream_scan:
  assumes "think_stream ss p = (cs, q)"
  shows "think_scan (in_think_tag p) (think_buffer p @ concat ss @ u) =
      chunk_chars cs @ think_scan (in_think_tag q) (think_buffer q @ u)"
    "held_back p \<Longrightarrow> held_back q"
  using assms
proof (induction ss arbitrary: p cs)
  case (Cons s ss)
  {
    case 1
    obtain as r where r: "think_feed s p = (as, r)" by fastforce
    obtain bs q' where q: "think_stream ss r = (bs, q')" by fastforce
    with r 1 have "cs = as @ bs" "q' = q" by auto
    with Cons.IH(1) [of r bs] q think_loop_result(1) [OF r [unfolded think_feed_def], of "concat ss @ u"]
    show ?case by simp
  next
    case 2
    obtain as r where r: "think_feed s p = (as, r)" by fastforce
    obtain bs q' where q: "think_stream ss r = (bs, q')" by fastforce
    with r 2 have "q' = q" by auto
    with Cons.IH(2) [of r bs] q think_loop_result(2) [OF r [unfolded think_feed_def]] show ?case by simp
  }
qed simp_all

end
