(* ===== verification/Tool_Schema.thy ===== *)
theory Tool_Schema
  imports Json Py_String
begin

text \<open>
  \<open>core/anthropic/tool_schema.py\<close>: reading a textual tool argument by its declared JSON type.
  \<open>json.loads\<close> and \<open>str()\<close> of a container are arguments, and so is the JSON Schema validator, a
  third-party package. A \<open>ValueError\<close> is \<open>None\<close>.
\<close>

lemma size_json_mem: "(k, v) \<in> set d \<Longrightarrow> size v < size (JObj d)" "v \<in> set xs \<Longrightarrow> size v < size (JArr xs)"
proof -
  show "(k, v) \<in> set d \<Longrightarrow> size v < size (JObj d)" by (induction d) auto
  show "v \<in> set xs \<Longrightarrow> size v < size (JArr xs)" by (induction xs) auto
qed

lemma size_json_dget: "dget d k = Some v \<Longrightarrow> size v < size (JObj d)"
  by (rule size_json_mem(1)) (rule map_of_SomeD)

definition non_null_strings :: "json list \<Rightarrow> string list" where
  "non_null_strings xs =
     concat (map (\<lambda>x. case x of JStr s \<Rightarrow> if s \<noteq> ''null'' then [s] else [] | _ \<Rightarrow> []) xs)"

definition declared_type :: "(string, json) dict \<Rightarrow> string option" where
  "declared_type schema =
     (case dget schema ''type'' of
        Some (JStr s) \<Rightarrow> Some s
      | Some (JArr xs) \<Rightarrow> (case non_null_strings xs of [s] \<Rightarrow> Some s | _ \<Rightarrow> None)
      | _ \<Rightarrow> None)"

text \<open>The one type that all alternatives agree on, \<open>null\<close> and untyped ones aside.\<close>

definition only_type :: "string option list \<Rightarrow> string option" where
  "only_type ts =
     (case remdups (filter (\<lambda>t. t \<noteq> None \<and> t \<noteq> Some ''null'') ts) of [t] \<Rightarrow> t | _ \<Rightarrow> None)"

definition object_alternatives :: "(string, json) dict \<Rightarrow> string \<Rightarrow> (string, json) dict list" where
  "object_alternatives schema k =
     (case dget schema k of
        Some (JArr xs) \<Rightarrow> concat (map (\<lambda>x. case x of JObj d \<Rightarrow> [d] | _ \<Rightarrow> []) xs)
      | _ \<Rightarrow> [])"

definition or_else :: "'a option \<Rightarrow> 'a option \<Rightarrow> 'a option" where
  "or_else a b = (case a of None \<Rightarrow> b | Some x \<Rightarrow> Some x)"

lemma alternatives_smaller:
  assumes "d \<in> set (object_alternatives schema k)"
  shows "size (JObj d) < size (JObj schema)"
proof -
  obtain xs where xs: "dget schema k = Some (JArr xs)" "JObj d \<in> set xs"
    using assms by (cases "dget schema k") (auto simp: object_alternatives_def split: json.splits)
  from size_json_mem(2) [OF xs(2)] size_json_dget [OF xs(1)] show ?thesis by simp
qed

function schema_type :: "(string, json) dict \<Rightarrow> string option" where
  "schema_type schema =
     or_else (declared_type schema)
       (or_else (only_type (map schema_type (object_alternatives schema ''oneOf'')))
                (only_type (map schema_type (object_alternatives schema ''anyOf''))))"
  by pat_completeness auto

termination
  by (relation "measure (\<lambda>d. size (JObj d))") (simp, (simp only: in_measure, erule alternatives_smaller)+)

declare schema_type.simps [simp del]

text \<open>\<open>int(s)\<close>: an optional sign, then digits, with single underscores between digits.\<close>

definition digit_value :: "char \<Rightarrow> nat option" where
  "digit_value c = (if 48 \<le> (of_char c :: nat) \<and> (of_char c :: nat) \<le> 57 then Some (of_char c - 48) else None)"

fun int_digits :: "int \<Rightarrow> bool \<Rightarrow> string \<Rightarrow> int option" where
  "int_digits acc after_digit [] = (if after_digit then Some acc else None)"
| "int_digits acc after_digit (c # s) =
     (case digit_value c of
        Some d \<Rightarrow> int_digits (acc * 10 + int d) True s
      | None \<Rightarrow> if c = CHR ''_'' \<and> after_digit then int_digits acc False s else None)"

definition py_int :: "string \<Rightarrow> int option" where
  "py_int s =
     (case s of
        CHR ''-'' # r \<Rightarrow> map_option uminus (int_digits 0 False r)
      | CHR ''+'' # r \<Rightarrow> int_digits 0 False r
      | r \<Rightarrow> int_digits 0 False r)"

text \<open>\<open>s.lower()\<close>, which the code only compares with ASCII words.\<close>

definition lower_char :: "char \<Rightarrow> char" where
  "lower_char c =
     (if 65 \<le> (of_char c :: nat) \<and> (of_char c :: nat) \<le> 90 then char_of ((of_char c :: nat) + 32) else c)"

definition py_lower :: "string \<Rightarrow> string" where
  "py_lower s = map lower_char s"

definition find_enum :: "(json \<Rightarrow> string) \<Rightarrow> string \<Rightarrow> (string, json) dict \<Rightarrow> json option" where
  "find_enum rp value schema =
     (case dget schema ''enum'' of
        Some (JArr xs) \<Rightarrow> find (\<lambda>x. py_str rp x = value) xs
      | _ \<Rightarrow> None)"

definition is_number :: "json \<Rightarrow> bool" where
  "is_number j = (case j of JInt _ \<Rightarrow> True | JFloat _ \<Rightarrow> True | _ \<Rightarrow> False)"

definition typed_argument :: "(string \<Rightarrow> json option) \<Rightarrow> string option \<Rightarrow> string \<Rightarrow> json option" where
  "typed_argument loads ty value =
     (let s = py_strip value in
      if ty = Some ''integer'' then map_option JInt (py_int s)
      else if ty = Some ''number'' then
        (case loads s of Some j \<Rightarrow> if is_number j then Some j else None | None \<Rightarrow> None)
      else if ty = Some ''boolean'' then
        (if py_lower s = ''true'' then Some (JBool True)
         else if py_lower s = ''false'' then Some (JBool False) else None)
      else if ty = Some ''null'' then (if py_lower s = ''null'' then Some JNull else None)
      else if ty = Some ''array'' then (case loads s of Some (JArr xs) \<Rightarrow> Some (JArr xs) | _ \<Rightarrow> None)
      else if ty = Some ''object'' then (case loads s of Some (JObj d) \<Rightarrow> Some (JObj d) | _ \<Rightarrow> None)
      else Some (JStr value))"

definition coerce_text_argument ::
  "(string \<Rightarrow> json option) \<Rightarrow> (json \<Rightarrow> string) \<Rightarrow> string \<Rightarrow> (string, json) dict \<Rightarrow> json option" where
  "coerce_text_argument loads rp value schema =
     (case find_enum rp value schema of
        Some j \<Rightarrow> Some j
      | None \<Rightarrow>
          (case dget schema ''const'' of
             Some c \<Rightarrow> if py_str rp c = value then Some c else typed_argument loads (schema_type schema) value
           | None \<Rightarrow> typed_argument loads (schema_type schema) value))"

text \<open>The JSON types, as the coercion checks them.\<close>

definition of_type :: "string \<Rightarrow> json \<Rightarrow> bool" where
  "of_type ty j \<longleftrightarrow>
     (case j of
        JNull \<Rightarrow> ty = ''null'' | JBool _ \<Rightarrow> ty = ''boolean'' | JInt _ \<Rightarrow> ty = ''integer'' \<or> ty = ''number''
      | JFloat _ \<Rightarrow> ty = ''number'' | JStr _ \<Rightarrow> ty = ''string'' | JArr _ \<Rightarrow> ty = ''array''
      | JObj _ \<Rightarrow> ty = ''object'')"

definition json_types :: "string list" where
  "json_types = [''integer'', ''number'', ''boolean'', ''null'', ''array'', ''object'', ''string'']"

lemma typed_argument_type:
  "typed_argument loads (Some ty) value = Some j \<Longrightarrow> ty \<in> set json_types \<Longrightarrow> of_type ty j"
  by (auto simp: typed_argument_def of_type_def json_types_def is_number_def Let_def
      split: if_splits option.splits json.splits)

end
