(* ===== verification/Tool_Names.thy ===== *)
theory Tool_Names
  imports Json "HOL-Library.Char_ord" "HOL-Library.List_Lexorder" "HOL-Library.Monad_Syntax"
begin

text \<open>
  \<open>core/anthropic/openai_tool_names.py\<close>: the codec that gives every tool name which the OpenAI
  protocol would reject an alias, and restores the name. The digest (\<open>sha256(...).hexdigest()\<close>)
  is an argument. The search for a free alias need not end for every digest, so it is a partial
  function: \<open>None\<close> is a search that never returns.
\<close>

definition name_char :: "char \<Rightarrow> bool" where
  "name_char c \<longleftrightarrow> CHR ''A'' \<le> c \<and> c \<le> CHR ''Z'' \<or> CHR ''a'' \<le> c \<and> c \<le> CHR ''z'' \<or>
     CHR ''0'' \<le> c \<and> c \<le> CHR ''9'' \<or> c = CHR ''_'' \<or> c = CHR ''-''"

definition max_name_length :: nat where
  "max_name_length = 64"

definition digest_length :: nat where
  "digest_length = 16"

text \<open>\<open>^[A-Za-z0-9_-]{1,64}$\<close>, matched in full.\<close>

definition portable_name :: "string \<Rightarrow> bool" where
  "portable_name s \<longleftrightarrow> s \<noteq> [] \<and> length s \<le> max_name_length \<and> (\<forall>c \<in> set s. name_char c)"

text \<open>\<open>[^A-Za-z0-9_-]+\<close> replaced by \<open>_\<close>: a run of other characters becomes one.\<close>

fun squeeze :: "bool \<Rightarrow> string \<Rightarrow> string" where
  "squeeze inside [] = []"
| "squeeze inside (c # s) =
     (if name_char c then c # squeeze False s
      else if inside then squeeze True s
      else CHR ''_'' # squeeze True s)"

definition trim_char :: "char \<Rightarrow> bool" where
  "trim_char c \<longleftrightarrow> c = CHR ''_'' \<or> c = CHR ''-''"

definition rstrip_name :: "string \<Rightarrow> string" where
  "rstrip_name s = rev (dropWhile trim_char (rev s))"

definition strip_name :: "string \<Rightarrow> string" where
  "strip_name s = rstrip_name (dropWhile trim_char s)"

definition or_tool :: "string \<Rightarrow> string" where
  "or_tool s = (if s = [] then ''tool'' else s)"

definition readable_part :: "string \<Rightarrow> string" where
  "readable_part name =
     or_tool (rstrip_name
       (take (max_name_length - digest_length - 1) (or_tool (strip_name (squeeze False name)))))"

definition digest_input :: "string \<Rightarrow> nat \<Rightarrow> string" where
  "digest_input name attempt = (if attempt = 0 then name else name @ CHR 0x00 # nat_str attempt)"

definition alias_at :: "(string \<Rightarrow> string) \<Rightarrow> string \<Rightarrow> nat \<Rightarrow> string" where
  "alias_at dg name attempt =
     readable_part name @ ''_'' @ take digest_length (dg (digest_input name attempt))"

partial_function (option) alias_from ::
  "(string \<Rightarrow> string) \<Rightarrow> string \<Rightarrow> string list \<Rightarrow> nat \<Rightarrow> string option" where
  "alias_from dg name reserved attempt =
     (let alias = alias_at dg name attempt in
      if alias \<notin> set reserved then Some alias else alias_from dg name reserved (attempt + 1))"

declare alias_from.simps [code]

definition unique_alias :: "(string \<Rightarrow> string) \<Rightarrow> string \<Rightarrow> string list \<Rightarrow> string option" where
  "unique_alias dg name reserved = alias_from dg name reserved 0"

record tool_names =
  original_to_alias :: "(string, string) dict"
  alias_to_original :: "(string, string) dict"
  unchanged_names :: "string list"

fun add_aliases :: "(string \<Rightarrow> string) \<Rightarrow> string list \<Rightarrow> string list \<Rightarrow> tool_names \<Rightarrow> tool_names option" where
  "add_aliases dg [] reserved c = Some c"
| "add_aliases dg (name # rest) reserved c =
     do { alias \<leftarrow> unique_alias dg name reserved;
          add_aliases dg rest (alias # reserved)
            (c\<lparr>original_to_alias := dset name alias (original_to_alias c),
               alias_to_original := dset alias name (alias_to_original c)\<rparr>) }"

definition from_names :: "(string \<Rightarrow> string) \<Rightarrow> string list \<Rightarrow> tool_names option" where
  "from_names dg names =
     (let unique = remdups (filter (\<lambda>n. n \<noteq> []) names);
          portable = filter portable_name unique
      in add_aliases dg (sort (filter (\<lambda>n. \<not> portable_name n) unique)) portable
           \<lparr>original_to_alias = [], alias_to_original = [], unchanged_names = portable\<rparr>)"

definition has_aliases :: "tool_names \<Rightarrow> bool" where
  "has_aliases c \<longleftrightarrow> original_to_alias c \<noteq> []"

definition encode_name :: "tool_names \<Rightarrow> string \<Rightarrow> string" where
  "encode_name c n = (case dget (original_to_alias c) n of None \<Rightarrow> n | Some a \<Rightarrow> a)"

definition decode_name :: "tool_names \<Rightarrow> string \<Rightarrow> string" where
  "decode_name c n = (case dget (alias_to_original c) n of None \<Rightarrow> n | Some a \<Rightarrow> a)"

definition is_alias :: "tool_names \<Rightarrow> string \<Rightarrow> bool" where
  "is_alias c v \<longleftrightarrow> dget (alias_to_original c) v \<noteq> None"

definition is_unchanged_name :: "tool_names \<Rightarrow> string \<Rightarrow> bool" where
  "is_unchanged_name c v \<longleftrightarrow> v \<in> set (unchanged_names c)"

definition is_alias_prefix :: "tool_names \<Rightarrow> string \<Rightarrow> bool" where
  "is_alias_prefix c v \<longleftrightarrow>
     v \<noteq> [] \<and> (\<exists>alias \<in> set (dkeys (alias_to_original c)). alias \<noteq> v \<and> prefix v alias)"

section \<open>What the aliases satisfy\<close>

lemma alias_from_fresh:
  assumes "alias_from dg name reserved n = Some a"
  shows "a \<notin> set reserved" "\<exists>k. a = alias_at dg name k"
proof -
  have "a \<notin> set reserved \<and> (\<exists>k. a = alias_at dg name k)"
    using assms by (rule alias_from.raw_induct [rotated]) (auto simp: Let_def split: if_splits)
  then show "a \<notin> set reserved" "\<exists>k. a = alias_at dg name k" by blast+
qed

text \<open>The search ends as soon as one of the attempted aliases is free.\<close>

lemma alias_from_ends:
  assumes "alias_at dg name (n + k) \<notin> set reserved"
  shows "\<exists>a. alias_from dg name reserved n = Some a"
  using assms
proof (induction k arbitrary: n)
  case 0
  then show ?case by (subst alias_from.simps) simp
next
  case (Suc k)
  then have "\<exists>a. alias_from dg name reserved (n + 1) = Some a" by simp
  then show ?case by (subst alias_from.simps) (simp add: Let_def)
qed

lemma free_attempt:
  assumes "inj_on (alias_at dg name) {..length reserved}"
  shows "\<exists>k \<le> length reserved. alias_at dg name k \<notin> set reserved"
proof (rule ccontr)
  assume "\<not> ?thesis"
  then have "alias_at dg name ` {..length reserved} \<subseteq> set reserved" by auto
  then have "card (alias_at dg name ` {..length reserved}) \<le> card (set reserved)" by (intro card_mono) simp_all
  also have "\<dots> \<le> length reserved" by (rule card_length)
  finally show False using card_image [OF assms] by simp
qed

lemma unique_alias_ends:
  assumes "inj_on (alias_at dg name) {..length reserved}"
  shows "\<exists>a. unique_alias dg name reserved = Some a"
proof -
  obtain k where "alias_at dg name (0 + k) \<notin> set reserved" using free_attempt [OF assms] by auto
  then show ?thesis unfolding unique_alias_def by (rule alias_from_ends)
qed

text \<open>What holds while aliases are added: the two tables are inverse to each other, and every
  alias is new. \<open>treated\<close> are the names treated so far.\<close>

definition names_ok :: "string list \<Rightarrow> string list \<Rightarrow> tool_names \<Rightarrow> bool" where
  "names_ok reserved treated c \<longleftrightarrow>
     set (dkeys (original_to_alias c)) = set treated \<and>
     set (dkeys (alias_to_original c)) \<subseteq> set reserved \<and>
     (\<forall>n a. dget (original_to_alias c) n = Some a \<longleftrightarrow> dget (alias_to_original c) a = Some n)"

lemma names_okD:
  assumes "names_ok reserved treated c"
  shows "set (dkeys (original_to_alias c)) = set treated" "set (dkeys (alias_to_original c)) \<subseteq> set reserved"
    "dget (original_to_alias c) n = Some a \<longleftrightarrow> dget (alias_to_original c) a = Some n"
  using assms unfolding names_ok_def by blast+

lemma dget_NoneI: "k \<notin> set (dkeys d) \<Longrightarrow> dget d k = None"
  by (simp add: map_of_eq_None_iff)

lemma add_aliases_ok:
  assumes "add_aliases dg rest reserved c = Some d" and "names_ok reserved treated c"
    and "distinct rest" "set rest \<inter> set treated = {}"
  shows "\<exists>r. names_ok r (rev rest @ treated) d \<and> set reserved \<subseteq> set r \<and>
      (\<forall>a n. dget (alias_to_original d) a = Some n \<longrightarrow>
         dget (alias_to_original c) a = Some n \<or> a \<notin> set reserved \<and> (\<exists>k. a = alias_at dg n k)) \<and>
      unchanged_names d = unchanged_names c"
  using assms
proof (induction rest arbitrary: reserved c treated)
  case (Cons name rest)
  obtain a where a: "unique_alias dg name reserved = Some a" using Cons.prems(1) by (auto simp: bind_eq_Some_conv)
  note fresh = alias_from_fresh [OF a [unfolded unique_alias_def]]
  let ?c = "c\<lparr>original_to_alias := dset name a (original_to_alias c),
               alias_to_original := dset a name (alias_to_original c)\<rparr>"
  have add: "add_aliases dg rest (a # reserved) ?c = Some d" using Cons.prems(1) a by simp
  note was = names_okD [OF Cons.prems(2)]
  have new: "dget (original_to_alias c) name = None" "dget (alias_to_original c) a = None"
  proof -
    show "dget (original_to_alias c) name = None" using was(1) Cons.prems(4) by (intro dget_NoneI) simp
    show "dget (alias_to_original c) a = None" using was(2) fresh(1) by (intro dget_NoneI) blast
  qed
  have ok: "names_ok (a # reserved) (name # treated) ?c"
    unfolding names_ok_def
  proof (intro conjI allI)
    show "set (dkeys (original_to_alias ?c)) = set (name # treated)"
      "set (dkeys (alias_to_original ?c)) \<subseteq> set (a # reserved)" using was(1,2) by (auto simp: dkeys_dset)
    show "dget (original_to_alias ?c) n = Some x \<longleftrightarrow> dget (alias_to_original ?c) x = Some n" for n x
      using was(3) [of n x] was(3) [of name x] was(3) [of n a] new by (auto simp: update_conv')
  qed
  obtain r where r: "names_ok r (rev rest @ name # treated) d" "set (a # reserved) \<subseteq> set r"
    "\<And>x n. dget (alias_to_original d) x = Some n \<Longrightarrow>
       dget (alias_to_original ?c) x = Some n \<or> x \<notin> set (a # reserved) \<and> (\<exists>k. x = alias_at dg n k)"
    "unchanged_names d = unchanged_names c"
    using Cons.IH [OF add ok] Cons.prems(3,4) by auto
  have "dget (alias_to_original c) x = Some n \<or> x \<notin> set reserved \<and> (\<exists>k. x = alias_at dg n k)"
    if "dget (alias_to_original d) x = Some n" for x n
    using r(3) [OF that] fresh by (auto simp: update_conv' split: if_splits)
  with r show ?case by (intro exI [of _ r]) auto
qed auto

lemma from_names_ok:
  assumes "from_names dg names = Some c"
  defines "unique \<equiv> {n \<in> set names. n \<noteq> []}"
  shows "\<exists>r. names_ok r (rev (sort (filter (\<lambda>n. \<not> portable_name n) (remdups (filter (\<lambda>n. n \<noteq> []) names))))) c"
    "set (unchanged_names c) = {n \<in> unique. portable_name n}"
    "dget (alias_to_original c) a = Some n \<Longrightarrow>
       \<not> (a \<in> unique \<and> portable_name a) \<and> (\<exists>k. a = alias_at dg n k)"
proof -
  let ?u = "remdups (filter (\<lambda>n. n \<noteq> []) names)"
  let ?c = "\<lparr>original_to_alias = [], alias_to_original = [], unchanged_names = filter portable_name ?u\<rparr>"
  have add: "add_aliases dg (sort (filter (\<lambda>n. \<not> portable_name n) ?u)) (filter portable_name ?u) ?c = Some c"
    using assms(1) by (simp add: from_names_def Let_def)
  have ok: "names_ok (filter portable_name ?u) [] ?c" by (simp add: names_ok_def)
  obtain r where r: "names_ok r (rev (sort (filter (\<lambda>n. \<not> portable_name n) ?u))) c"
    "\<And>a n. dget (alias_to_original c) a = Some n \<Longrightarrow> a \<notin> set (filter portable_name ?u) \<and> (\<exists>k. a = alias_at dg n k)"
    "unchanged_names c = filter portable_name ?u"
    using add_aliases_ok [OF add ok] by auto
  show "\<exists>r. names_ok r (rev (sort (filter (\<lambda>n. \<not> portable_name n) ?u))) c" using r(1) by blast
  show "set (unchanged_names c) = {n \<in> unique. portable_name n}" using r(3) by (auto simp: unique_def)
  show "\<not> (a \<in> unique \<and> portable_name a) \<and> (\<exists>k. a = alias_at dg n k)" if "dget (alias_to_original c) a = Some n"
    using r(2) [OF that] by (auto simp: unique_def)
qed

text \<open>Decoding undoes encoding on every name of the request.\<close>

lemma decode_encode:
  assumes c: "from_names dg names = Some c" and n: "n \<in> set names" "n \<noteq> []"
  shows "decode_name c (encode_name c n) = n"
proof -
  obtain r where ok: "names_ok r (rev (sort (filter (\<lambda>n. \<not> portable_name n) (remdups (filter (\<lambda>n. n \<noteq> []) names))))) c"
    using from_names_ok(1) [OF c] by blast
  show ?thesis
  proof (cases "portable_name n")
    case True
    then have "dget (original_to_alias c) n = None" using names_okD(1) [OF ok] by (auto intro!: dget_NoneI)
    moreover have "dget (alias_to_original c) n = None"
      using from_names_ok(3) [OF c, of n] n True by (cases "dget (alias_to_original c) n") auto
    ultimately show ?thesis by (simp add: encode_name_def decode_name_def)
  next
    case False
    then have "n \<in> set (dkeys (original_to_alias c))" using names_okD(1) [OF ok] n by auto
    then obtain a where a: "dget (original_to_alias c) n = Some a"
      by (cases "dget (original_to_alias c) n") (auto simp: map_of_eq_None_iff)
    then have "dget (alias_to_original c) a = Some n" using names_okD(3) [OF ok] by blast
    with a show ?thesis by (simp add: encode_name_def decode_name_def)
  qed
qed

text \<open>Every name on the wire is portable, given what \<open>hexdigest\<close> returns.\<close>

definition hex_digest :: "(string \<Rightarrow> string) \<Rightarrow> bool" where
  "hex_digest dg \<longleftrightarrow> (\<forall>s. length (dg s) = 64 \<and> set (dg s) \<subseteq> set ''0123456789abcdef'')"

lemma squeeze_chars: "set (squeeze r s) \<subseteq> {c. name_char c}"
  by (induction r s rule: squeeze.induct) (auto simp: name_char_def)

lemma rstrip_chars: "set (rstrip_name s) \<subseteq> set s" "length (rstrip_name s) \<le> length s"
proof -
  have "length (dropWhile trim_char (rev s)) \<le> length (rev s)" by (rule length_dropWhile_le)
  then show "length (rstrip_name s) \<le> length s" by (simp add: rstrip_name_def)
qed (auto simp: rstrip_name_def dest: set_dropWhileD)

lemma or_tool_chars: "set s \<subseteq> {c. name_char c} \<Longrightarrow> set (or_tool s) \<subseteq> {c. name_char c}"
  by (auto simp: or_tool_def name_char_def)

lemma readable_part_chars:
  "set (readable_part n) \<subseteq> {c. name_char c}" "length (readable_part n) \<le> 47" "readable_part n \<noteq> []"
proof -
  have "set (strip_name (squeeze False n)) \<subseteq> {c. name_char c}"
    using squeeze_chars [of False n] rstrip_chars(1) unfolding strip_name_def by (blast dest: set_dropWhileD)
  note a = or_tool_chars [OF this]
  let ?s = "take (max_name_length - digest_length - 1) (or_tool (strip_name (squeeze False n)))"
  have "set ?s \<subseteq> {c. name_char c}" using a by (auto dest: in_set_takeD)
  with rstrip_chars(1) [of ?s] have b: "set (rstrip_name ?s) \<subseteq> {c. name_char c}" by blast
  show "set (readable_part n) \<subseteq> {c. name_char c}" unfolding readable_part_def by (rule or_tool_chars [OF b])
  have "length (rstrip_name ?s) \<le> length ?s" by (rule rstrip_chars)
  also have "length ?s \<le> 47" by (simp add: max_name_length_def digest_length_def)
  finally show "length (readable_part n) \<le> 47" by (simp add: readable_part_def or_tool_def)
qed (simp add: readable_part_def or_tool_def)

lemma alias_portable:
  assumes "hex_digest dg"
  shows "portable_name (alias_at dg n k)"
proof -
  let ?d = "take digest_length (dg (digest_input n k))"
  have d: "length (dg (digest_input n k)) = 64" "set (dg (digest_input n k)) \<subseteq> set ''0123456789abcdef''"
    using assms unfolding hex_digest_def by blast+
  have "list_all name_char ''0123456789abcdef''" by code_simp
  then have "\<forall>c \<in> set ?d. name_char c" using d(2) unfolding list_all_iff by (meson in_set_takeD subsetD)
  moreover have "\<forall>c \<in> set (readable_part n). name_char c" using readable_part_chars(1) by blast
  moreover have "length (alias_at dg n k) \<le> 64"
    using readable_part_chars(2) [of n] d(1) by (simp add: alias_at_def digest_length_def)
  ultimately show ?thesis
    using readable_part_chars(3) [of n]
    by (auto simp: portable_name_def alias_at_def max_name_length_def name_char_def)
qed

lemma encode_portable:
  assumes c: "from_names dg names = Some c" and n: "n \<in> set names" "n \<noteq> []" and dg: "hex_digest dg"
  shows "portable_name (encode_name c n)"
proof -
  obtain r where ok: "names_ok r (rev (sort (filter (\<lambda>n. \<not> portable_name n) (remdups (filter (\<lambda>n. n \<noteq> []) names))))) c"
    using from_names_ok(1) [OF c] by blast
  show ?thesis
  proof (cases "dget (original_to_alias c) n")
    case None
    then have "n \<notin> set (dkeys (original_to_alias c))" by (simp add: map_of_eq_None_iff)
    then have "portable_name n" using names_okD(1) [OF ok] n by auto
    then show ?thesis by (simp add: encode_name_def None)
  next
    case (Some a)
    then have "dget (alias_to_original c) a = Some n" using names_okD(3) [OF ok] by blast
    then obtain k where "a = alias_at dg n k" using from_names_ok(3) [OF c] by blast
    then show ?thesis by (simp add: encode_name_def Some alias_portable [OF dg])
  qed
qed

text \<open>The codec exists when no two attempts for one name share a digest.\<close>

lemma add_aliases_ends:
  assumes "\<And>n. n \<in> set rest \<Longrightarrow> inj_on (alias_at dg n) {..N}" and "length reserved + length rest \<le> N"
  shows "\<exists>d. add_aliases dg rest reserved c = Some d"
  using assms
proof (induction rest arbitrary: reserved c)
  case (Cons n rest)
  have "inj_on (alias_at dg n) {..N}" using Cons.prems(1) by simp
  then have "inj_on (alias_at dg n) {..length reserved}" by (rule inj_on_subset) (use Cons.prems(2) in auto)
  then obtain a where "unique_alias dg n reserved = Some a" using unique_alias_ends by blast
  then show ?case using Cons by simp
qed simp

lemma from_names_ends:
  assumes "\<And>n. n \<in> set names \<Longrightarrow> inj_on (alias_at dg n) {..length names}"
  shows "\<exists>c. from_names dg names = Some c"
  unfolding from_names_def Let_def
proof (rule add_aliases_ends)
  let ?u = "remdups (filter (\<lambda>n. n \<noteq> []) names)"
  have "length ?u \<le> length names" by (meson length_filter_le length_remdups_leq order_trans)
  then show "length (filter portable_name ?u) + length (sort (filter (\<lambda>n. \<not> portable_name n) ?u)) \<le> length names"
    using sum_length_filter_compl [of portable_name ?u] by simp
qed (use assms in auto)

end
