(* ===== verification/Function_Tags.thy ===== *)
theory Function_Tags
  imports Tool_Schema Tool_Names
begin

text \<open>
  \<open>FunctionTagToolParser\<close> of \<open>core/anthropic/tools.py\<close>: text that a model writes in place of a
  tool call is held back from its first \<open><tool_call>\<close> on, and turned into tool uses when all of it
  parses and validates; otherwise it is released unchanged. A \<open>ValueError\<close> is \<open>None\<close>, a cursor
  into the text is the text from there on, and the random part of a tool id is an argument.
\<close>

section \<open>Parsing the tags\<close>

definition block_start :: string where "block_start = ''<tool_call>''"
definition block_end :: string where "block_end = ''</tool_call>''"
definition function_start :: string where "function_start = ''<function=''"
definition function_end :: string where "function_end = ''</function>''"
definition parameter_start :: string where "parameter_start = ''<parameter=''"
definition parameter_end :: string where "parameter_end = ''</parameter>''"

definition max_candidate_chars :: nat where
  "max_candidate_chars = 4 * 1024 * 1024"

lemmas tag_texts = block_start_def block_end_def function_start_def function_end_def
  parameter_start_def parameter_end_def

text \<open>The comparison is evaluated on integers, where the bound stays a binary number.\<close>

lemma over_limit_code [code_unfold]: "max_candidate_chars < n \<longleftrightarrow> 4194304 < int n"
  by (simp add: max_candidate_chars_def)

definition skip_space :: "string \<Rightarrow> string" where
  "skip_space s = dropWhile py_space s"

definition valid_tag_name :: "string \<Rightarrow> bool" where
  "valid_tag_name s \<longleftrightarrow>
     s \<noteq> [] \<and> \<not> (\<exists>c \<in> set s. py_space c \<or> c = CHR ''<'' \<or> c = CHR ''>'')"

definition unwrap_newlines :: "string \<Rightarrow> string" where
  "unwrap_newlines value =
     (let v = (if prefix [CHR 0x0D, CHR 0x0A] value then drop 2 value
               else if prefix [CHR 0x0A] value then drop 1 value else value)
      in if suffix [CHR 0x0D, CHR 0x0A] v then take (length v - 2) v
         else if suffix [CHR 0x0A] v then take (length v - 1) v else v)"

text \<open>Cutting a text at the first occurrence of a mark, which is left out.\<close>

definition cut_at :: "string \<Rightarrow> string \<Rightarrow> (string \<times> string) option" where
  "cut_at mark s = map_option (\<lambda>n. (take n s, drop (n + length mark) s)) (py_find mark s)"

lemma cut_at_length: "cut_at mark s = Some (a, b) \<Longrightarrow> length b \<le> length s"
  by (auto simp: cut_at_def)

lemma skip_space_length: "length (skip_space s) \<le> length s"
  by (simp add: skip_space_def length_dropWhile_le)

text \<open>The loop over the parameters of one function; the second component is the rest after
  \<open></function>\<close>.\<close>

function parse_parameters ::
  "string \<Rightarrow> (string, string) dict \<Rightarrow> ((string, string) dict \<times> string) option" where
  "parse_parameters s arguments =
     (let s = skip_space s in
      if prefix function_end s then Some (arguments, drop (length function_end) s)
      else if s = [] \<or> \<not> prefix parameter_start s then None
      else
        (case cut_at ''>'' (drop (length parameter_start) s) of
           None \<Rightarrow> None
         | Some (name, r) \<Rightarrow>
             if \<not> valid_tag_name name \<or> dget arguments name \<noteq> None then None
             else
               (case cut_at parameter_end r of
                  None \<Rightarrow> None
                | Some (value, r') \<Rightarrow>
                    parse_parameters r' (dset name (unwrap_newlines value) arguments))))"
  by pat_completeness auto

termination
proof (relation "measure (\<lambda>(s, _). length s)")
  fix s :: string and arguments :: "(string, string) dict" and x y p name r v val r'
  assume a: "x = skip_space s" "\<not> (x = [] \<or> \<not> prefix parameter_start x)"
    "cut_at ''>'' (drop (length parameter_start) x) = Some p" "(name, r) = p"
    "cut_at parameter_end r = Some v" "(val, r') = v"
  have "length r' \<le> length x - length parameter_start"
    using cut_at_length [of _ _ val r'] cut_at_length [of _ _ name r] a by fastforce
  moreover have "0 < length x" "0 < length parameter_start" using a by (auto simp: parameter_start_def)
  moreover have "length x \<le> length s" using a skip_space_length by simp
  ultimately show "((r', dset name (unwrap_newlines val) arguments), s, arguments) \<in> measure (\<lambda>(s, _). length s)"
    by (simp del: length_greater_0_conv)
qed simp

declare parse_parameters.simps [simp del]

definition parse_function_tag_block :: "string \<Rightarrow> (string \<times> (string, string) dict) option" where
  "parse_function_tag_block block =
     (let s = skip_space block in
      if \<not> prefix function_start s then None
      else
        (case cut_at ''>'' (drop (length function_start) s) of
           None \<Rightarrow> None
         | Some (name, r) \<Rightarrow>
             if \<not> valid_tag_name name then None
             else
               (case parse_parameters r [] of
                  None \<Rightarrow> None
                | Some (arguments, rest) \<Rightarrow>
                    if py_strip rest \<noteq> [] then None else Some (name, arguments))))"

function parse_calls ::
  "string \<Rightarrow> (string \<times> (string, string) dict) list \<Rightarrow> (string \<times> (string, string) dict) list option" where
  "parse_calls s calls =
     (let s = skip_space s in
      if s = [] then Some calls
      else if \<not> prefix block_start s then None
      else
        (case cut_at block_end (drop (length block_start) s) of
           None \<Rightarrow> None
         | Some (block, r) \<Rightarrow>
             (case parse_function_tag_block block of
                None \<Rightarrow> None
              | Some call \<Rightarrow> parse_calls r (calls @ [call]))))"
  by pat_completeness auto

termination
proof (relation "measure (\<lambda>(s, _). length s)")
  fix s :: string and calls :: "(string \<times> (string, string) dict) list" and x p block r call
  assume a: "x = skip_space s" "x \<noteq> []" "\<not> \<not> prefix block_start x"
    "cut_at block_end (drop (length block_start) x) = Some p" "(block, r) = p"
  have "length r \<le> length x - length block_start" using cut_at_length [of _ _ block r] a by fastforce
  moreover have "0 < length x" "0 < length block_start" using a by (auto simp: block_start_def)
  moreover have "length x \<le> length s" using a skip_space_length by simp
  ultimately show "((r, calls @ [call]), s, calls) \<in> measure (\<lambda>(s, _). length s)"
    by (simp del: length_greater_0_conv)
qed simp

declare parse_calls.simps [simp del]

definition parse_function_tag_calls :: "string \<Rightarrow> (string \<times> (string, string) dict) list option" where
  "parse_function_tag_calls s =
     (case parse_calls s [] of Some calls \<Rightarrow> if calls = [] then None else Some calls | None \<Rightarrow> None)"

section \<open>The parser\<close>

datatype tag_state = Searching | Candidate | Disabled | Finished

record tool_use =
  tu_id :: string
  tu_name :: string
  tu_input :: "(string, json) dict"

record tag_parser =
  tag_names :: tool_names
  tag_schemas :: "(string, (string, json) dict) dict"
  tag_state :: tag_state
  tag_parts :: "string list"
  tag_length :: nat
  marker_tail :: string

text \<open>The tools of the request, and whether its \<open>tool_choice\<close> forbids their use.\<close>

definition new_tag_parser ::
  "tool_names \<Rightarrow> (string \<times> (string, json) dict option) list \<Rightarrow> json \<Rightarrow> tag_parser" where
  "new_tag_parser codec tools tool_choice =
     (let schemas = fold (\<lambda>(name, schema) d.
            if name = [] then d
            else dset name (case schema of None \<Rightarrow> [(''type'', JStr ''object'')] | Some s \<Rightarrow> s) d) tools [];
          choice = (case tool_choice of JObj d \<Rightarrow> jget d ''type'' | _ \<Rightarrow> JNull)
      in \<lparr>tag_names = codec, tag_schemas = schemas,
          tag_state = if schemas \<noteq> [] \<and> choice \<noteq> JStr ''none'' then Searching else Disabled,
          tag_parts = [], tag_length = 0, marker_tail = []\<rparr>)"

definition tag_disable :: "tag_parser \<Rightarrow> string \<times> tag_parser" where
  "tag_disable p =
     (if tag_state p = Disabled \<or> tag_state p = Finished then ([], p)
      else (marker_tail p @ concat (tag_parts p),
            p\<lparr>tag_state := Disabled, marker_tail := [], tag_parts := [], tag_length := 0\<rparr>))"

text \<open>The longest end of the text that could be the start of the marker: tried from the longest.\<close>

fun marker_suffix_from :: "nat \<Rightarrow> string \<Rightarrow> nat" where
  "marker_suffix_from 0 s = 0"
| "marker_suffix_from (Suc n) s =
     (if prefix (drop (length s - Suc n) s) block_start then Suc n else marker_suffix_from n s)"

definition partial_marker_length :: "string \<Rightarrow> nat" where
  "partial_marker_length s = marker_suffix_from (min (length s) (length block_start - 1)) s"

definition tag_feed :: "string \<Rightarrow> tag_parser \<Rightarrow> string \<times> tag_parser" where
  "tag_feed s p =
     (if s = [] then ([], p)
      else
        (case tag_state p of
           Disabled \<Rightarrow> (s, p)
         | Finished \<Rightarrow> (s, p)
         | Candidate \<Rightarrow>
             (let p = p\<lparr>tag_parts := tag_parts p @ [s], tag_length := tag_length p + length s\<rparr> in
              if tag_length p > max_candidate_chars then tag_disable p else ([], p))
         | Searching \<Rightarrow>
             (let candidate = marker_tail p @ s in
              case py_find block_start candidate of
                Some n \<Rightarrow>
                  (let p = p\<lparr>tag_state := Candidate, marker_tail := [],
                             tag_parts := tag_parts p @ [drop n candidate],
                             tag_length := length (drop n candidate)\<rparr> in
                   if tag_length p > max_candidate_chars then
                     (case tag_disable p of (released, q) \<Rightarrow> (take n candidate @ released, q))
                   else (take n candidate, p))
              | None \<Rightarrow>
                  (let held = partial_marker_length candidate in
                   if held \<noteq> 0 then
                     (take (length candidate - held) candidate,
                      p\<lparr>marker_tail := drop (length candidate - held) candidate\<rparr>)
                   else (candidate, p\<lparr>marker_tail := []\<rparr>)))))"

definition coerced_arguments ::
  "(string \<Rightarrow> json option) \<Rightarrow> (json \<Rightarrow> string) \<Rightarrow> (string, json) dict \<Rightarrow> (string, string) dict \<Rightarrow>
   (string, json) dict option" where
  "coerced_arguments loads rp schema arguments =
     (let properties = (case dget schema ''properties'' of Some (JObj d) \<Rightarrow> d | _ \<Rightarrow> []);
          additional = (case dget schema ''additionalProperties'' of Some (JObj d) \<Rightarrow> d | _ \<Rightarrow> [])
      in fold (\<lambda>(name, val) acc.
            case acc of
              None \<Rightarrow> None
            | Some d \<Rightarrow>
                (let parameter_schema =
                       (case dget properties name of Some (JObj s) \<Rightarrow> s | _ \<Rightarrow> additional)
                 in case coerce_text_argument loads rp val parameter_schema of
                      None \<Rightarrow> None
                    | Some j \<Rightarrow> Some (dset name j d))) arguments (Some []))"

text \<open>One call after another; the schema check and the ids are arguments.\<close>

fun validated_tool_uses ::
  "(string \<Rightarrow> json option) \<Rightarrow> (json \<Rightarrow> string) \<Rightarrow> ((string, json) dict \<Rightarrow> (string, json) dict \<Rightarrow> bool) \<Rightarrow>
   (nat \<Rightarrow> string) \<Rightarrow> tag_parser \<Rightarrow> (string \<times> (string, string) dict) list \<Rightarrow> nat \<Rightarrow> tool_use list option" where
  "validated_tool_uses loads rp matches ids p [] k = Some []"
| "validated_tool_uses loads rp matches ids p ((name, arguments) # calls) k =
     (let name = decode_name (tag_names p) name in
      case dget (tag_schemas p) name of
        None \<Rightarrow> None
      | Some schema \<Rightarrow>
          (case coerced_arguments loads rp schema arguments of
             None \<Rightarrow> None
           | Some args \<Rightarrow>
               if \<not> matches args schema then None
               else
                 (case validated_tool_uses loads rp matches ids p calls (k + 1) of
                    None \<Rightarrow> None
                  | Some uses \<Rightarrow>
                      Some (\<lparr>tu_id = ''toolu_function_tag_'' @ ids k, tu_name = name, tu_input = args\<rparr> # uses))))"

definition tag_finish ::
  "(string \<Rightarrow> json option) \<Rightarrow> (json \<Rightarrow> string) \<Rightarrow> ((string, json) dict \<Rightarrow> (string, json) dict \<Rightarrow> bool) \<Rightarrow>
   (nat \<Rightarrow> string) \<Rightarrow> tag_parser \<Rightarrow> string \<times> tool_use list \<times> tag_parser" where
  "tag_finish loads rp matches ids p =
     (case tag_state p of
        Disabled \<Rightarrow> ([], [], p)
      | Finished \<Rightarrow> ([], [], p)
      | Searching \<Rightarrow> (marker_tail p, [], p\<lparr>tag_state := Finished, marker_tail := []\<rparr>)
      | Candidate \<Rightarrow>
          (let raw = concat (tag_parts p);
               q = p\<lparr>tag_state := Finished, tag_parts := [], tag_length := 0\<rparr>
           in case parse_function_tag_calls raw of
                None \<Rightarrow> (raw, [], q)
              | Some calls \<Rightarrow>
                  (case validated_tool_uses loads rp matches ids p calls 0 of
                     None \<Rightarrow> (raw, [], q)
                   | Some uses \<Rightarrow> ([], uses, q))))"

section \<open>Nothing is lost, and little is held\<close>

definition held_text :: "tag_parser \<Rightarrow> string" where
  "held_text p = marker_tail p @ concat (tag_parts p)"

definition tag_ok :: "tag_parser \<Rightarrow> bool" where
  "tag_ok p \<longleftrightarrow>
     (case tag_state p of
        Searching \<Rightarrow> tag_parts p = [] \<and> tag_length p = 0 \<and> length (marker_tail p) < length block_start \<and>
          prefix (marker_tail p) block_start
      | Candidate \<Rightarrow> marker_tail p = [] \<and> tag_length p = length (concat (tag_parts p)) \<and>
          tag_length p \<le> max_candidate_chars \<and> prefix block_start (concat (tag_parts p))
      | _ \<Rightarrow> marker_tail p = [] \<and> tag_parts p = [])"

lemma new_tag_parser_ok: "tag_ok (new_tag_parser codec tools choice)"
  by (simp add: new_tag_parser_def tag_ok_def Let_def block_start_def)

lemma marker_suffix_from_bound: "marker_suffix_from n s \<le> n"
  by (induction n) auto

lemma marker_suffix_from_prefix: "prefix (drop (length s - marker_suffix_from n s) s) block_start"
  by (induction n) auto

lemma tag_disable_result:
  "tag_disable p = (out, q) \<Longrightarrow> tag_ok p \<Longrightarrow> out = held_text p \<and> held_text q = [] \<and> tag_ok q \<and> tag_state q \<noteq> Candidate"
  by (auto simp: tag_disable_def held_text_def tag_ok_def split: if_splits tag_state.splits)

text \<open>What is released and what is still held make up what was held and what came in.\<close>

lemma tag_feed_lossless:
  assumes f: "tag_feed s p = (out, q)" and ok: "tag_ok p"
  shows "out @ held_text q = held_text p @ s" "tag_ok q"
proof -
  have "out @ held_text q = held_text p @ s \<and> tag_ok q"
  proof (cases "s = []")
    case True
    then show ?thesis using f ok by (simp add: tag_feed_def)
  next
    case s: False
    show ?thesis
    proof (cases "tag_state p")
      case Searching
      define c where c: "c = marker_tail p @ s"
      have parts: "tag_parts p = []" using ok Searching by (simp add: tag_ok_def)
      have goal: "held_text p @ s = c" by (simp add: held_text_def parts c)
      show ?thesis
      proof (cases "py_find block_start c")
        case None
        let ?n = "partial_marker_length c"
        have n: "?n \<le> length c" "?n < length block_start"
          using marker_suffix_from_bound [of "min (length c) (length block_start - 1)" c]
          by (simp_all add: partial_marker_length_def block_start_def)
        have q: "(out, q) = (take (length c - ?n) c, p\<lparr>marker_tail := drop (length c - ?n) c\<rparr>)"
          using f s Searching None by (auto simp: tag_feed_def Let_def c [symmetric] split: if_splits)
        have "prefix (drop (length c - ?n) c) block_start"
          unfolding partial_marker_length_def by (rule marker_suffix_from_prefix)
        then have "tag_ok q" using q n Searching parts ok by (simp add: tag_ok_def)
        moreover have "out = take (length c - ?n) c" "marker_tail q = drop (length c - ?n) c" "tag_parts q = []"
          using q parts by simp_all
        then have "out @ held_text q = c"
          by (simp only: held_text_def concat.simps append_Nil2 append_take_drop_id)
        ultimately show ?thesis by (simp only: goal)
      next
        case (Some n)
        let ?p = "p\<lparr>tag_state := Candidate, marker_tail := [], tag_parts := tag_parts p @ [drop n c],
          tag_length := length (drop n c)\<rparr>"
        have pre: "prefix block_start (drop n c)" using drop_found [OF Some, of "[]"] by simp
        show ?thesis
        proof (cases "length (drop n c) > max_candidate_chars")
          case False
          then have "(out, q) = (take n c, ?p)" using f s Searching Some by (simp add: tag_feed_def Let_def c [symmetric])
          then show ?thesis unfolding goal using False pre parts by (simp add: held_text_def tag_ok_def)
        next
          case True
          then have q: "out = c \<and> q = p\<lparr>tag_state := Disabled, marker_tail := [], tag_parts := [], tag_length := 0\<rparr>"
            using f s Searching Some parts by (auto simp: tag_feed_def Let_def tag_disable_def c [symmetric])
          then show ?thesis unfolding goal by (simp add: held_text_def tag_ok_def)
        qed
      qed
    next
      case Candidate
      then show ?thesis using f s ok
        by (auto simp: tag_feed_def tag_ok_def held_text_def Let_def tag_disable_def prefix_def split: if_splits)
    next
      case Disabled
      then show ?thesis using f s ok by (auto simp: tag_feed_def tag_ok_def held_text_def)
    next
      case Finished
      then show ?thesis using f s ok by (auto simp: tag_feed_def tag_ok_def held_text_def)
    qed
  qed
  then show "out @ held_text q = held_text p @ s" "tag_ok q" by blast+
qed

text \<open>A stream of feeds.\<close>

fun tag_stream :: "string list \<Rightarrow> tag_parser \<Rightarrow> string \<times> tag_parser" where
  "tag_stream [] p = ([], p)"
| "tag_stream (s # ss) p =
     (case tag_feed s p of (out, q) \<Rightarrow> (case tag_stream ss q of (outs, r) \<Rightarrow> (out @ outs, r)))"

lemma tag_stream_lossless:
  assumes "tag_stream ss p = (out, q)" and "tag_ok p"
  shows "out @ held_text q = held_text p @ concat ss" "tag_ok q"
proof -
  have "out @ held_text q = held_text p @ concat ss \<and> tag_ok q" using assms
  proof (induction ss arbitrary: p out)
    case (Cons s ss)
    obtain o1 p1 where 1: "tag_feed s p = (o1, p1)" by fastforce
    obtain o2 p2 where 2: "tag_stream ss p1 = (o2, p2)" by fastforce
    note f = tag_feed_lossless [OF 1 Cons.prems(2)]
    have "out = o1 @ o2" "q = p2" using Cons.prems(1) 1 2 by simp_all
    then show ?case using Cons.IH [OF _ f(2), of o2] 2 f(1) by (metis append.assoc concat.simps(2))
  qed simp
  then show "out @ held_text q = held_text p @ concat ss" "tag_ok q" by blast+
qed

lemma held_bound: "tag_ok p \<Longrightarrow> length (held_text p) \<le> max_candidate_chars"
  by (auto simp: tag_ok_def held_text_def block_start_def max_candidate_chars_def split: tag_state.splits)

section \<open>Reading back what was written\<close>

definition free_of :: "string \<Rightarrow> string \<Rightarrow> bool" where
  "free_of mark s \<longleftrightarrow> py_find mark s = None"

lemma free_of_iff: "mark \<noteq> [] \<Longrightarrow> free_of mark s \<longleftrightarrow> (\<forall>k. \<not> prefix mark (drop k s))"
  using py_find_None [of mark s] py_find_Some(1,2) [of mark s]
  by (cases "py_find mark s") (auto simp: free_of_def, metis append_eq_append_conv_if drop_found prefixI append_Nil2)

text \<open>A mark whose first character does not come again in it cannot straddle a place where that
  character stands.\<close>

lemma free_append:
  assumes m: "mark = c # m" "c \<notin> set m" and a: "free_of mark a" and b: "free_of mark b" "b = [] \<or> hd b = c"
  shows "free_of mark (a @ b)"
proof -
  have "\<not> prefix mark (drop k (a @ b))" for k
  proof
    assume p: "prefix mark (drop k (a @ b))"
    show False
    proof (cases "k < length a")
      case False
      then show False using p b(1) m(1) by (simp add: free_of_iff)
    next
      case True
      show False
      proof (cases "length mark \<le> length a - k")
        case True
        then have "prefix mark (drop k a)"
          using p \<open>k < length a\<close> prefix_within [of mark "drop k a" b] by simp
        then show False using a m(1) by (simp add: free_of_iff)
      next
        case False
        let ?i = "length a - k"
        have "b \<noteq> []" using False p prefix_length_le [OF p] by auto
        then have "drop k (a @ b) ! ?i = c" using b(2) True by (simp add: nth_append hd_conv_nth)
        moreover have "drop k (a @ b) ! ?i = mark ! ?i" using prefix_nth [OF p] False by simp
        moreover have "mark ! ?i \<in> set m" using m(1) False True by (auto simp: nth_Cons')
        ultimately show False using m(2) by simp
      qed
    qed
  qed
  then show ?thesis using m(1) by (simp add: free_of_iff)
qed

lemma cut_found:
  assumes m: "mark = c # m" "c \<notin> set m" and a: "free_of mark a"
  shows "cut_at mark (a @ mark @ r) = Some (a, r)"
  using a
proof (induction a)
  case Nil
  then show ?case using m(1) by (cases "mark @ r") (auto simp: cut_at_def)
next
  case (Cons x a)
  have fa: "free_of mark a" and np: "\<not> prefix mark (x # a)"
    using Cons.prems by (auto simp: free_of_def split: if_splits)
  have "\<not> prefix mark (x # a @ mark @ r)"
  proof
    assume p: "prefix mark (x # a @ mark @ r)"
    show False
    proof (cases "length mark \<le> length (x # a)")
      case True
      then have "prefix mark (x # a)" using p prefix_within [of mark "x # a"] by simp
      with np show False by simp
    next
      case False
      let ?i = "length (x # a)"
      have "(x # a @ mark @ r) ! ?i = c" using m(1) by (simp add: nth_append)
      moreover have "(x # a @ mark @ r) ! ?i = mark ! ?i" using prefix_nth [OF p, of ?i] False by simp
      moreover have "mark ! ?i \<in> set m" using m(1) False by (auto simp: nth_Cons')
      ultimately show False using m(2) by simp
    qed
  qed
  moreover have "cut_at mark (a @ mark @ r) = Some (a, r)" by (rule Cons.IH [OF fa])
  ultimately show ?case by (auto simp: cut_at_def)
qed

definition render_parameter :: "string \<times> string \<Rightarrow> string" where
  "render_parameter kv = parameter_start @ fst kv @ ''>'' @ snd kv @ parameter_end"

definition render_call :: "string \<times> (string, string) dict \<Rightarrow> string" where
  "render_call call =
     block_start @ (function_start @ fst call @ ''>'' @ concat (map render_parameter (snd call)) @ function_end) @ block_end"

text \<open>Values that survive: no closing tag of their own, no line break at either end.\<close>

definition plain_value :: "string \<Rightarrow> bool" where
  "plain_value v \<longleftrightarrow> free_of parameter_end v \<and> free_of block_end v \<and> unwrap_newlines v = v"

definition plain_call :: "string \<times> (string, string) dict \<Rightarrow> bool" where
  "plain_call call \<longleftrightarrow>
     valid_tag_name (fst call) \<and> distinct (dkeys (snd call)) \<and>
     (\<forall>(k, v) \<in> set (snd call). valid_tag_name k \<and> plain_value v)"

lemma skip_nothing: "s \<noteq> [] \<Longrightarrow> hd s = CHR ''<'' \<Longrightarrow> skip_space (s @ r) = s @ r"
  by (cases s) (auto simp: skip_space_def py_space_def)

lemma name_free: "valid_tag_name n \<Longrightarrow> free_of ''>'' n"
proof -
  assume "valid_tag_name n"
  then have "CHR ''>'' \<notin> set n" by (auto simp: valid_tag_name_def)
  then show ?thesis by (induction n) (auto simp: free_of_def)
qed

lemma cut_name: "valid_tag_name n \<Longrightarrow> cut_at ''>'' (n @ CHR ''>'' # r) = Some (n, r)"
  using cut_found [of "''>''" "CHR ''>''" "[]" n r] name_free [of n] by simp

lemma cut_value: "plain_value v \<Longrightarrow> cut_at parameter_end (v @ parameter_end @ r) = Some (v, r)"
  using cut_found [of parameter_end "CHR ''<''" "''/parameter>''" v r]
  by (simp add: plain_value_def parameter_end_def)

lemma parse_parameters_render:
  assumes "\<forall>(k, v) \<in> set args. valid_tag_name k \<and> plain_value v" and "distinct (dkeys (acc @ args))"
  shows "parse_parameters (concat (map render_parameter args) @ function_end @ r) acc = Some (acc @ args, r)"
  using assms
proof (induction args arbitrary: acc)
  case Nil
  have "skip_space (function_end @ r) = function_end @ r" by (rule skip_nothing) (simp_all add: function_end_def)
  then show ?case by (subst parse_parameters.simps) simp
next
  case (Cons kv args)
  obtain k v where kv: "kv = (k, v)" by fastforce
  let ?r = "concat (map render_parameter args) @ function_end @ r"
  let ?s = "parameter_start @ k @ ''>'' @ v @ parameter_end @ ?r"
  have s: "concat (map render_parameter (kv # args)) @ function_end @ r = ?s" by (simp add: kv render_parameter_def)
  have skip: "skip_space ?s = ?s" by (rule skip_nothing) (simp_all add: parameter_start_def)
  have pre: "\<not> prefix function_end ?s" "prefix parameter_start ?s" "?s \<noteq> []"
    by (simp_all add: function_end_def parameter_start_def)
  have drop: "drop (length parameter_start) ?s = k @ CHR ''>'' # (v @ parameter_end @ ?r)" by simp
  have ok: "valid_tag_name k" "plain_value v" using Cons.prems(1) kv by auto
  have new: "dget acc k = None" using Cons.prems(2) kv by (auto intro!: dget_NoneI)
  have "parse_parameters ?s acc = parse_parameters ?r (dset k (unwrap_newlines v) acc)"
    by (subst parse_parameters.simps) (simp only: Let_def skip drop pre cut_name [OF ok(1)] cut_value [OF ok(2)]
      ok new if_False if_True option.case prod.case simp_thms)
  also have "dset k (unwrap_newlines v) acc = acc @ [(k, v)]"
    using new ok(2) by (simp add: dset_new map_of_eq_None_iff plain_value_def)
  also have "parse_parameters ?r (acc @ [(k, v)]) = Some ((acc @ [(k, v)]) @ args, r)"
    by (rule Cons.IH) (use Cons.prems kv in auto)
  finally show ?case unfolding s by (simp add: kv)
qed

lemma parse_block_render:
  assumes "plain_call call"
  shows "parse_function_tag_block
      (function_start @ fst call @ ''>'' @ concat (map render_parameter (snd call)) @ function_end) = Some call"
proof -
  obtain n args where call: "call = (n, args)" by fastforce
  let ?p = "concat (map render_parameter args) @ function_end @ []"
  let ?s = "function_start @ n @ ''>'' @ ?p"
  have skip: "skip_space ?s = ?s" by (rule skip_nothing) (simp_all add: function_start_def)
  have drop: "drop (length function_start) ?s = n @ CHR ''>'' # ?p" by simp
  have ok: "valid_tag_name n" "\<forall>(k, v) \<in> set args. valid_tag_name k \<and> plain_value v" "distinct (dkeys args)"
    using assms by (simp_all add: plain_call_def call)
  have params: "parse_parameters ?p [] = Some (args, [])"
    using parse_parameters_render [OF ok(2), of "[]" "[]"] ok(3) by simp
  have "prefix function_start ?s" "py_strip [] = []" by (simp_all add: py_strip_def)
  then have "parse_function_tag_block ?s = Some (n, args)"
    by (simp only: parse_function_tag_block_def Let_def skip drop cut_name [OF ok(1)] params ok
      if_False if_True option.case prod.case simp_thms)
  then show ?thesis by (simp add: call)
qed

lemma free_skip:
  assumes m: "mark = c # m" and a: "a \<noteq> []" "c \<notin> set (tl a)" and first: "\<not> prefix mark (a @ b)"
    and b: "free_of mark b"
  shows "free_of mark (a @ b)"
proof -
  have "\<not> prefix mark (drop k (a @ b))" for k
  proof (cases "k = 0")
    case False
    show ?thesis
    proof (cases "k < length a")
      case True
      have "a ! k \<in> set (tl a)" using a(1) True False by (cases a) (auto simp: nth_Cons')
      moreover have "drop k (a @ b) ! 0 = a ! k" using True by (simp add: nth_append)
      ultimately show ?thesis using a(2) prefix_nth [of mark "drop k (a @ b)" 0] m by auto
    qed (use b m in \<open>simp add: free_of_iff\<close>)
  qed (use first in simp)
  then show ?thesis using m by (simp add: free_of_iff)
qed

lemma block_end_eq: "block_end = CHR ''<'' # ''/tool_call>''"
  by (simp add: block_end_def)

lemma no_angle: "valid_tag_name n \<Longrightarrow> CHR ''<'' \<notin> set n"
  by (auto simp: valid_tag_name_def)

lemma parameters_free:
  assumes "\<forall>(k, v) \<in> set args. valid_tag_name k \<and> plain_value v"
  shows "free_of block_end (concat (map render_parameter args) @ function_end)"
    "hd (concat (map render_parameter args) @ function_end) = CHR ''<''"
proof -
  have "free_of block_end (concat (map render_parameter args) @ function_end) \<and>
      hd (concat (map render_parameter args) @ function_end) = CHR ''<''"
    using assms
  proof (induction args)
    case Nil
    have "py_find block_end function_end = None" by code_simp
    then show ?case by (simp add: free_of_def function_end_def)
  next
    case (Cons kv args)
    obtain k v where kv: "kv = (k, v)" by fastforce
    let ?r = "concat (map render_parameter args) @ function_end"
    have ok: "valid_tag_name k" "free_of block_end v" using Cons.prems kv by (auto simp: plain_value_def)
    have tail: "free_of block_end (parameter_end @ ?r)"
      by (rule free_skip [OF block_end_eq]) (use Cons in \<open>auto simp: parameter_end_def block_end_def\<close>)
    have val: "free_of block_end (v @ (parameter_end @ ?r))"
      by (rule free_append [OF block_end_eq _ ok(2) tail]) (simp_all add: parameter_end_def)
    have "free_of block_end ((parameter_start @ k @ ''>'') @ (v @ (parameter_end @ ?r)))"
      by (rule free_skip [OF block_end_eq _ _ _ val]) (use no_angle [OF ok(1)] in \<open>simp_all add: parameter_start_def block_end_def\<close>)
    moreover have "concat (map render_parameter (kv # args)) @ function_end =
        (parameter_start @ k @ ''>'') @ (v @ (parameter_end @ ?r))" by (simp add: kv render_parameter_def)
    moreover have "hd ((parameter_start @ k @ ''>'') @ (v @ (parameter_end @ ?r))) = CHR ''<''"
      by (simp add: parameter_start_def)
    ultimately show ?case by (simp only:)
  qed
  then show "free_of block_end (concat (map render_parameter args) @ function_end)"
    "hd (concat (map render_parameter args) @ function_end) = CHR ''<''" by blast+
qed

lemma parse_calls_render:
  assumes "\<forall>call \<in> set calls. plain_call call"
  shows "parse_calls (concat (map render_call calls)) acc = Some (acc @ calls)"
  using assms
proof (induction calls arbitrary: acc)
  case Nil
  show ?case by (subst parse_calls.simps) (simp add: skip_space_def)
next
  case (Cons call calls)
  let ?b = "function_start @ fst call @ ''>'' @ concat (map render_parameter (snd call)) @ function_end"
  let ?r = "concat (map render_call calls)"
  let ?s = "block_start @ ?b @ block_end @ ?r"
  have ok: "plain_call call" using Cons.prems by simp
  have name: "valid_tag_name (fst call)" and args: "\<forall>(k, v) \<in> set (snd call). valid_tag_name k \<and> plain_value v"
    using ok by (simp_all add: plain_call_def)
  have s: "concat (map render_call (call # calls)) = ?s" by (simp add: render_call_def)
  have skip: "skip_space ?s = ?s" by (rule skip_nothing) (simp_all add: block_start_def)
  have drop: "drop (length block_start) ?s = ?b @ block_end @ ?r" by simp
  have "free_of block_end ((function_start @ fst call @ ''>'') @ concat (map render_parameter (snd call)) @ function_end)"
    by (rule free_skip [OF block_end_eq _ _ _ parameters_free(1) [OF args]])
      (use no_angle [OF name] in \<open>simp_all add: function_start_def block_end_def\<close>)
  then have free: "free_of block_end ?b" by simp
  have cut: "cut_at block_end (?b @ block_end @ ?r) = Some (?b, ?r)"
    using cut_found [OF block_end_eq _ free, of ?r] by simp
  have pre: "prefix block_start ?s" "?s \<noteq> []" by (simp_all add: block_start_def)
  have "parse_calls ?s acc = parse_calls ?r (acc @ [call])"
    by (subst parse_calls.simps) (simp only: Let_def skip drop cut pre parse_block_render [OF ok]
      if_False if_True option.case prod.case simp_thms)
  also have "\<dots> = Some ((acc @ [call]) @ calls)" by (rule Cons.IH) (use Cons.prems in simp)
  finally show ?case unfolding s by simp
qed

lemma parse_rendered_calls:
  "calls \<noteq> [] \<Longrightarrow> \<forall>call \<in> set calls. plain_call call \<Longrightarrow>
    parse_function_tag_calls (concat (map render_call calls)) = Some calls"
  by (simp add: parse_function_tag_calls_def parse_calls_render)

section \<open>What is released before the marker\<close>

lemma marker_suffix_longest:
  assumes "prefix (drop (length s - k) s) block_start" "k \<le> n" "n \<le> length s"
  shows "k \<le> marker_suffix_from n s"
  using assms
proof (induction n)
  case (Suc n)
  then show ?case by (cases "k = Suc n") auto
qed simp

text \<open>The text released so far ends where the first marker starts; before a marker is seen, no
  end of the text that could become one has been released.\<close>

definition released_ok :: "string \<Rightarrow> tag_parser \<Rightarrow> bool" where
  "released_ok out p \<longleftrightarrow>
     (case tag_state p of
        Searching \<Rightarrow> free_of block_start (out @ held_text p) \<and>
          (\<forall>k < length out. \<not> prefix (drop k (out @ held_text p)) block_start)
      | Candidate \<Rightarrow> py_find block_start (out @ held_text p) = Some (length out)
      | _ \<Rightarrow> True)"

lemma py_find_append:
  assumes "py_find pat s = Some n"
  shows "py_find pat (s @ t) = Some n"
  using assms
proof (induction s arbitrary: n)
  case (Cons c s)
  show ?case
  proof (cases "prefix pat (c # s)")
    case True
    then have "prefix pat ((c # s) @ t)" by (rule prefix_prefix)
    then show ?thesis using Cons.prems True by simp
  next
    case False
    then obtain m where m: "n = Suc m" "py_find pat s = Some m" using Cons.prems by auto
    have "\<not> prefix pat (c # s @ t)"
      using False prefix_within [of pat "c # s" t] py_find_Some(2) [OF m(2)] by auto
    then show ?thesis using Cons.IH [OF m(2)] m(1) by simp
  qed
qed (cases t; auto split: if_splits)

lemma py_find_shift:
  assumes "\<And>k. k < length a \<Longrightarrow> \<not> prefix pat (drop k (a @ s))"
  shows "py_find pat (a @ s) = map_option (\<lambda>n. n + length a) (py_find pat s)"
  using assms
proof (induction a)
  case (Cons c a)
  have "\<not> prefix pat (c # a @ s)" using Cons.prems [of 0] by simp
  moreover have "\<not> prefix pat (drop k (a @ s))" if "k < length a" for k using Cons.prems [of "Suc k"] that by simp
  ultimately show ?case using Cons.IH by (simp add: option.map_comp comp_def)
qed (simp add: option.map_ident)

text \<open>While the scanner searches, the marker of the text so far can only begin in the tail.\<close>

lemma searching_shift:
  assumes Searching: "tag_state p = Searching" and ok: "tag_ok p" and r: "released_ok out p"
  shows "py_find block_start (out @ marker_tail p @ s) =
    map_option (\<lambda>n. n + length out) (py_find block_start (marker_tail p @ s))"
proof -
  have parts: "held_text p = marker_tail p" using ok Searching by (simp add: tag_ok_def held_text_def)
  let ?c = "marker_tail p @ s"
  have free: "free_of block_start (out @ marker_tail p)"
    and partial: "\<And>k. k < length out \<Longrightarrow> \<not> prefix (drop k (out @ marker_tail p)) block_start"
    using r Searching parts by (simp_all add: released_ok_def)
  have early: "\<not> prefix block_start (drop k (out @ ?c))" if k: "k < length out" for k
  proof
    assume "prefix block_start (drop k (out @ ?c))"
    then have "prefix block_start (drop k (out @ marker_tail p) @ s)" using k by simp
    then have "prefix block_start (drop k (out @ marker_tail p)) \<or> prefix (drop k (out @ marker_tail p)) block_start"
      by (metis prefix_append prefix_same_cases prefix_order.refl)
    moreover have "\<not> prefix block_start (drop k (out @ marker_tail p))"
      using free by (simp add: free_of_iff block_start_def)
    ultimately show False using partial [OF k] by blast
  qed
  show ?thesis by (rule py_find_shift) (rule early)
qed

lemma released_step:
  assumes f: "tag_feed s p = (new, q)" and ok: "tag_ok p" and r: "released_ok out p"
  shows "released_ok (out @ new) q"
proof (cases "s = []")
  case True
  then show ?thesis using f r by (simp add: tag_feed_def)
next
  case s: False
  note ll = tag_feed_lossless [OF f ok]
  have whole: "(out @ new) @ held_text q = (out @ held_text p) @ s" using ll(1) by simp
  show ?thesis
  proof (cases "tag_state p")
    case Searching
    have parts: "tag_parts p = []" "held_text p = marker_tail p" using ok Searching by (simp_all add: tag_ok_def held_text_def)
    let ?c = "marker_tail p @ s"
    have partial: "\<And>k. k < length out \<Longrightarrow> \<not> prefix (drop k (out @ marker_tail p)) block_start"
      using r Searching parts(2) by (simp add: released_ok_def)
    note shift = searching_shift [OF Searching ok r, of s]
    show ?thesis
    proof (cases "py_find block_start ?c")
      case (Some n)
      have q: "tag_state q = Candidate \<and> new = take n ?c \<or> tag_state q = Disabled"
        using f s Searching Some by (auto simp: tag_feed_def Let_def tag_disable_def split: if_splits)
      have n: "n \<le> length ?c" using py_find_Some(2) [OF Some] by simp
      show ?thesis
        using q shift Some n whole by (auto simp: released_ok_def parts(2))
    next
      case None
      let ?h = "partial_marker_length ?c"
      have q: "tag_state q = Searching" "new = take (length ?c - ?h) ?c"
        using f s Searching None by (auto simp: tag_feed_def Let_def split: if_splits)
      have all: "(out @ new) @ held_text q = out @ ?c" using whole parts(2) by simp
      have "free_of block_start (out @ ?c)" using shift None by (simp add: free_of_def)
      moreover have "\<not> prefix (drop k (out @ ?c)) block_start" if k: "k < length (out @ new)" for k
      proof
        assume p: "prefix (drop k (out @ ?c)) block_start"
        show False
        proof (cases "k < length out")
          case True
          then have "prefix (drop k (out @ marker_tail p)) (drop k (out @ ?c))" by simp
          with p partial [OF True] show False using prefix_order.trans by blast
        next
          case False
          let ?m = "length ?c - (k - length out)"
          have suf: "drop k (out @ ?c) = drop (length ?c - ?m) ?c"
            using False k q(2) by auto
          have "length (drop k (out @ ?c)) \<noteq> length block_start"
          proof
            assume "length (drop k (out @ ?c)) = length block_start"
            then have "drop k (out @ ?c) = block_start" using p by (metis append_eq_append_conv append_Nil2 prefixE)
            then have "prefix block_start (drop (length ?c - ?m) ?c)" using suf by simp
            then show False using py_find_None [OF None] by blast
          qed
          moreover have "length (drop k (out @ ?c)) \<le> length block_start" using p by (rule prefix_length_le)
          moreover have "length (drop k (out @ ?c)) = ?m" using False by (simp only: length_drop length_append)
          ultimately have "?m \<le> length block_start - 1" by linarith
          then have "?m \<le> ?h"
            unfolding partial_marker_length_def using p suf by (intro marker_suffix_longest) auto
          then show False using False k q(2) by auto
        qed
      qed
      ultimately show ?thesis using q(1) unfolding released_ok_def all by simp
    qed
  next
    case Candidate
    have "tag_state q = Candidate \<and> new = [] \<or> tag_state q = Disabled"
      using f s Candidate by (auto simp: tag_feed_def Let_def tag_disable_def split: if_splits)
    moreover have "py_find block_start ((out @ held_text p) @ s) = Some (length out)"
      by (rule py_find_append) (use r Candidate in \<open>simp add: released_ok_def\<close>)
    ultimately show ?thesis using whole by (auto simp: released_ok_def)
  next
    case Disabled
    then have "tag_state q = Disabled" using f s by (simp add: tag_feed_def)
    then show ?thesis by (simp add: released_ok_def)
  next
    case Finished
    then have "tag_state q = Finished" using f s by (simp add: tag_feed_def)
    then show ?thesis by (simp add: released_ok_def)
  qed
qed

lemma tag_stream_released:
  "tag_stream ss p = (new, q) \<Longrightarrow> tag_ok p \<Longrightarrow> released_ok out p \<Longrightarrow> released_ok (out @ new) q"
proof (induction ss arbitrary: p new out)
  case (Cons s ss)
  obtain o1 p1 where 1: "tag_feed s p = (o1, p1)" by fastforce
  obtain o2 p2 where 2: "tag_stream ss p1 = (o2, p2)" by fastforce
  have "new = o1 @ o2" "q = p2" using Cons.prems(1) 1 2 by simp_all
  then show ?case
    using Cons.IH [OF _ tag_feed_lossless(2) [OF 1 Cons.prems(2)] released_step [OF 1 Cons.prems(2,3)]] 2 by simp
qed simp

section \<open>The end of the answer\<close>

text \<open>What makes a parsed call a tool use, and the text that is parsed for calls.\<close>

definition stands_for ::
  "(string \<Rightarrow> json option) \<Rightarrow> (json \<Rightarrow> string) \<Rightarrow> ((string, json) dict \<Rightarrow> (string, json) dict \<Rightarrow> bool) \<Rightarrow>
   tag_parser \<Rightarrow> string \<times> (string, string) dict \<Rightarrow> tool_use \<Rightarrow> bool" where
  "stands_for loads rp matches p call u \<longleftrightarrow>
     tu_name u = decode_name (tag_names p) (fst call) \<and>
     (\<exists>schema. dget (tag_schemas p) (tu_name u) = Some schema \<and>
        coerced_arguments loads rp schema (snd call) = Some (tu_input u) \<and> matches (tu_input u) schema)"

definition marked_text :: "string \<Rightarrow> string option" where
  "marked_text s =
     (case py_find block_start s of
        None \<Rightarrow> None
      | Some n \<Rightarrow> if length s - n \<le> max_candidate_chars then Some (drop n s) else None)"

lemma stands_for_cong:
  "tag_names p = tag_names q \<Longrightarrow> tag_schemas p = tag_schemas q \<Longrightarrow>
   stands_for loads rp matches p = stands_for loads rp matches q"
  by (intro ext) (simp add: stands_for_def)

lemma list_all2_choice: "list_all (\<lambda>x. \<exists>y. R x y) xs \<Longrightarrow> \<exists>ys. list_all2 R xs ys"
  by (induction xs) (auto intro: exI [of _ "_ # _"])

lemma validated_tool_uses_sound:
  "validated_tool_uses loads rp matches ids p calls k = Some uses \<Longrightarrow>
   list_all2 (stands_for loads rp matches p) calls uses"
  by (induction loads rp matches ids p calls k arbitrary: uses rule: validated_tool_uses.induct)
    (auto simp: Let_def stands_for_def split: option.splits if_splits)

lemma validated_tool_uses_complete:
  "list_all2 (stands_for loads rp matches p) calls us \<Longrightarrow>
   \<exists>uses. validated_tool_uses loads rp matches ids p calls k = Some uses"
proof (induction calls us arbitrary: k rule: list_all2_induct)
  case (Cons call calls u us)
  obtain uses where "validated_tool_uses loads rp matches ids p calls (k + 1) = Some uses" using Cons.IH by blast
  then show ?case using Cons.hyps(1) by (cases call) (auto simp: stands_for_def Let_def)
qed simp

lemma tag_feed_request:
  "tag_feed s p = (out, q) \<Longrightarrow> tag_names q = tag_names p \<and> tag_schemas q = tag_schemas p"
  by (auto simp: tag_feed_def tag_disable_def Let_def split: if_splits tag_state.splits option.splits)

lemma tag_stream_request:
  "tag_stream ss p = (out, q) \<Longrightarrow> tag_names q = tag_names p \<and> tag_schemas q = tag_schemas p"
proof (induction ss arbitrary: p out)
  case (Cons s ss)
  obtain o1 p1 where 1: "tag_feed s p = (o1, p1)" by fastforce
  obtain o2 p2 where 2: "tag_stream ss p1 = (o2, p2)" by fastforce
  have "q = p2" using Cons.prems 1 2 by simp
  then show ?case using Cons.IH [OF 2 [folded \<open>q = p2\<close>]] tag_feed_request [OF 1] by (elim conjE) (intro conjI; rule trans)
qed simp

text \<open>When the scanner gives up, the text from the marker on is too long.\<close>

definition given_up :: "string \<Rightarrow> tag_parser \<Rightarrow> bool" where
  "given_up seen p \<longleftrightarrow>
     tag_state p \<noteq> Finished \<and>
     (tag_state p = Disabled \<longrightarrow> (\<exists>n. py_find block_start seen = Some n \<and> max_candidate_chars < length seen - n))"

lemma given_up_step:
  assumes f: "tag_feed s p = (new, q)" and ok: "tag_ok p" and r: "released_ok out p"
    and g: "given_up (out @ held_text p) p"
  shows "given_up ((out @ held_text p) @ s) q"
proof (cases "s = []")
  case True
  then show ?thesis using f g by (simp add: tag_feed_def)
next
  case s: False
  let ?seen = "out @ held_text p"
  have still: "\<exists>n. py_find block_start (?seen @ s) = Some n \<and> max_candidate_chars < length (?seen @ s) - n"
    if "py_find block_start ?seen = Some n" "max_candidate_chars < length (?seen @ s) - n" for n
    using py_find_append [OF that(1)] that(2) by blast
  show ?thesis
  proof (cases "tag_state p")
    case Searching
    let ?c = "marker_tail p @ s"
    have whole: "?seen @ s = out @ ?c" using ok Searching by (simp add: tag_ok_def held_text_def)
    show ?thesis
    proof (cases "py_find block_start ?c")
      case None
      then show ?thesis using f s Searching by (auto simp: tag_feed_def Let_def given_up_def split: if_splits)
    next
      case (Some n)
      then have "py_find block_start (out @ ?c) = Some (n + length out)"
        using searching_shift [OF Searching ok r, of s] by simp
      then show ?thesis using f s Searching Some unfolding whole given_up_def
        by (auto simp: tag_feed_def Let_def tag_disable_def split: if_splits)
    qed
  next
    case Candidate
    then have "py_find block_start ?seen = Some (length out)" using r by (simp add: released_ok_def)
    moreover have "tag_length p + length s = length (?seen @ s) - length out"
      using ok Candidate by (simp add: tag_ok_def held_text_def)
    ultimately show ?thesis
      using f s Candidate still unfolding given_up_def
      by (auto simp: tag_feed_def Let_def tag_disable_def split: if_splits)
  next
    case Disabled
    then show ?thesis using f s g still unfolding given_up_def by (auto simp: tag_feed_def)
  next
    case Finished
    then show ?thesis using g by (simp add: given_up_def)
  qed
qed

lemma given_up_stream:
  "tag_stream ss p = (new, q) \<Longrightarrow> tag_ok p \<Longrightarrow> released_ok out p \<Longrightarrow> given_up (out @ held_text p) p \<Longrightarrow>
   given_up ((out @ new) @ held_text q) q"
proof (induction ss arbitrary: p new out)
  case (Cons s ss)
  obtain o1 p1 where 1: "tag_feed s p = (o1, p1)" by (rule prod.exhaust)
  obtain o2 p2 where 2: "tag_stream ss p1 = (o2, p2)" by (rule prod.exhaust)
  have eq: "new = o1 @ o2" "q = p2" using Cons.prems(1) 1 2 by simp_all
  note ll = tag_feed_lossless [OF 1 Cons.prems(2)]
  have "given_up ((out @ o1) @ held_text p1) p1"
    using given_up_step [OF 1 Cons.prems(2-4)] ll(1) by simp
  from Cons.IH [OF 2 [folded eq(2)] ll(2) released_step [OF 1 Cons.prems(2,3)] this] show ?case by (simp add: eq(1))
qed simp

text \<open>How a run of the scanner over a whole answer ends.\<close>

lemma scanned_answer:
  assumes run: "tag_stream ss (new_tag_parser codec tools choice) = (out, p)"
    and s: "tag_state (new_tag_parser codec tools choice) = Searching"
  shows "case marked_text (concat ss) of
      Some raw \<Rightarrow> tag_state p = Candidate \<and> concat (tag_parts p) = raw \<and> out @ raw = concat ss
    | None \<Rightarrow> tag_state p \<noteq> Candidate \<and> out @ held_text p = concat ss \<and> tag_ok p"
proof -
  let ?p0 = "new_tag_parser codec tools choice"
  have h: "held_text ?p0 = []" by (simp add: held_text_def new_tag_parser_def Let_def)
  have r0: "released_ok [] ?p0" using h s by (simp add: released_ok_def free_of_def block_start_def)
  have g0: "given_up ([] @ held_text ?p0) ?p0" using s by (simp add: given_up_def)
  note ok = new_tag_parser_ok [of codec tools choice]
  have l: "out @ held_text p = concat ss" and okp: "tag_ok p" using tag_stream_lossless [OF run ok] h by simp_all
  have r: "released_ok out p" using tag_stream_released [OF run ok r0] by simp
  have g: "given_up (concat ss) p" using given_up_stream [OF run ok r0 g0] l by simp
  show ?thesis
  proof (cases "tag_state p")
    case Candidate
    then have f: "py_find block_start (out @ held_text p) = Some (length out)" using r by (simp add: released_ok_def)
    have "length (held_text p) \<le> max_candidate_chars" "held_text p = concat (tag_parts p)"
      using held_bound [OF okp] okp Candidate by (simp_all add: tag_ok_def held_text_def)
    with f have "marked_text (out @ concat (tag_parts p)) = Some (concat (tag_parts p))"
      by (simp add: marked_text_def)
    then show ?thesis using l Candidate \<open>held_text p = _\<close> by simp
  next
    case Searching
    then have "marked_text (concat ss) = None" using r l by (simp add: released_ok_def free_of_def marked_text_def)
    then show ?thesis using l okp Searching by simp
  next
    case Disabled
    then have "marked_text (concat ss) = None" using g by (auto simp: given_up_def marked_text_def)
    then show ?thesis using l okp Disabled by simp
  next
    case Finished
    then show ?thesis using g by (simp add: given_up_def)
  qed
qed

lemma unscanned_answer:
  assumes run: "tag_stream ss (new_tag_parser codec tools choice) = (out, p)"
    and s: "tag_state (new_tag_parser codec tools choice) \<noteq> Searching"
  shows "out @ held_text p = concat ss \<and> tag_ok p \<and> tag_state p \<noteq> Candidate"
proof -
  let ?p0 = "new_tag_parser codec tools choice"
  have h: "held_text ?p0 = []" by (simp add: held_text_def new_tag_parser_def Let_def)
  have d: "tag_state ?p0 = Disabled" using s by (simp add: new_tag_parser_def Let_def split: if_splits)
  have "tag_state q = Disabled" if "tag_stream ts r = (o', q)" "tag_state r = Disabled" for ts r o' q
    using that by (induction ts arbitrary: r o') (auto simp: tag_feed_def split: prod.splits if_splits)
  then show ?thesis using run d tag_stream_lossless [OF run new_tag_parser_ok] h by fastforce
qed

lemma no_candidate_finish:
  assumes "tag_finish loads rp matches ids p = (fallback, uses, q)" and "tag_ok p" and "tag_state p \<noteq> Candidate"
  shows "fallback = held_text p \<and> uses = []"
  using assms by (cases "tag_state p") (auto simp: tag_finish_def tag_ok_def held_text_def)

lemma candidate_finish:
  assumes f: "tag_finish loads rp matches ids p = (fallback, uses, q)" and c: "tag_state p = Candidate"
  shows "case parse_function_tag_calls (concat (tag_parts p)) of
      None \<Rightarrow> fallback = concat (tag_parts p) \<and> uses = []
    | Some calls \<Rightarrow>
        if list_all (\<lambda>c. \<exists>u. stands_for loads rp matches p c u) calls
        then fallback = [] \<and> list_all2 (stands_for loads rp matches p) calls uses
        else fallback = concat (tag_parts p) \<and> uses = []"
proof (cases "parse_function_tag_calls (concat (tag_parts p))")
  case None
  then show ?thesis using f c by (simp add: tag_finish_def)
next
  case (Some calls)
  show ?thesis
  proof (cases "validated_tool_uses loads rp matches ids p calls 0")
    case None
    have "\<not> list_all (\<lambda>c. \<exists>u. stands_for loads rp matches p c u) calls"
    proof
      assume "list_all (\<lambda>c. \<exists>u. stands_for loads rp matches p c u) calls"
      then have "\<exists>us. list_all2 (stands_for loads rp matches p) calls us" by (rule list_all2_choice)
      then show False using validated_tool_uses_complete [of loads rp matches p calls _ ids 0] None by auto
    qed
    then show ?thesis using f c Some None by (simp add: tag_finish_def)
  next
    case uses': (Some us)
    have l: "list_all2 (stands_for loads rp matches p) calls us" using uses' by (rule validated_tool_uses_sound)
    then have "list_all (\<lambda>c. \<exists>u. stands_for loads rp matches p c u) calls"
      by (induction rule: list_all2_induct) auto
    then show ?thesis using f c Some uses' l by (simp add: tag_finish_def)
  qed
qed

lemma finished_answer:
  assumes run: "tag_stream ss (new_tag_parser codec tools choice) = (out, p)"
    and f: "tag_finish loads rp matches ids p = (fallback, uses, q)"
  shows "case (if tag_state (new_tag_parser codec tools choice) = Searching
               then Option.bind (marked_text (concat ss)) parse_function_tag_calls else None) of
      None \<Rightarrow> out @ fallback = concat ss \<and> uses = []
    | Some calls \<Rightarrow>
        if list_all (\<lambda>c. \<exists>u. stands_for loads rp matches p c u) calls
        then fallback = [] \<and> marked_text (concat ss) = Some (drop (length out) (concat ss)) \<and>
          out = take (length out) (concat ss) \<and> list_all2 (stands_for loads rp matches p) calls uses
        else out @ fallback = concat ss \<and> uses = []"
proof (cases "tag_state (new_tag_parser codec tools choice) = Searching")
  case False
  then show ?thesis using unscanned_answer [OF run False] no_candidate_finish [OF f] by simp
next
  case True
  show ?thesis
  proof (cases "marked_text (concat ss)")
    case None
    then show ?thesis using scanned_answer [OF run True] no_candidate_finish [OF f] by simp
  next
    case (Some raw)
    then have c: "tag_state p = Candidate" and raw: "concat (tag_parts p) = raw" and whole: "concat ss = out @ raw"
      using scanned_answer [OF run True] by simp_all
    show ?thesis
      using candidate_finish [OF f c] Some True unfolding raw whole by (cases "parse_function_tag_calls raw") simp_all
  qed
qed

end
