(* ===== verification/Heuristic_Tools.thy ===== *)
theory Heuristic_Tools
  imports Json Py_String
begin

text \<open>
  \<open>HeuristicToolParser\<close> of \<open>core/anthropic/tools.py\<close>: tool calls that a model writes as text,
  either as a bullet followed by \<open><function=name>\<close> and \<open><parameter=...>\<close> tags, or as
  \<open>WebFetch\<close>/\<open>WebSearch\<close> followed by a JSON object. Each regular expression of the class is the
  matcher it denotes. The bullet, U+25CF, is no 8-bit character: the control character \<open>0x95\<close>,
  which is neither a space nor a word character, stands for it. \<open>json.loads\<close> and the random part
  of a tool id are arguments.
\<close>

definition bullet :: char where
  "bullet = CHR 0x95"

section \<open>The matchers\<close>

text \<open>\<open><\|[^|>]{1,80}\|>\<close> at the start of a text: what follows the token.\<close>

definition token_char :: "char \<Rightarrow> bool" where
  "token_char c \<longleftrightarrow> c \<noteq> CHR ''|'' \<and> c \<noteq> CHR ''>''"

definition control_token :: "string \<Rightarrow> string option" where
  "control_token s =
     (if prefix ''<|'' s then
        (let body = takeWhile token_char (drop 2 s); rest = dropWhile token_char (drop 2 s) in
         if body \<noteq> [] \<and> length body \<le> 80 \<and> prefix ''|>'' rest then Some (drop 2 rest) else None)
      else None)"

lemma control_token_shorter: "control_token s = Some r \<Longrightarrow> length r < length s"
proof -
  assume "control_token s = Some r"
  then have "prefix ''<|'' s" "r = drop 2 (dropWhile token_char (drop 2 s))"
    by (auto simp: control_token_def Let_def split: if_splits)
  then show ?thesis using length_dropWhile_le [of token_char "drop 2 s"] by (auto simp: prefix_def)
qed

function strip_control_tokens :: "string \<Rightarrow> string" where
  "strip_control_tokens [] = []"
| "strip_control_tokens (c # s) =
     (case control_token (c # s) of
        Some r \<Rightarrow> strip_control_tokens r
      | None \<Rightarrow> c # strip_control_tokens s)"
  by pat_completeness auto

termination strip_control_tokens
  by (relation "measure length") (auto dest: control_token_shorter)

text \<open>\<open>[^>]+>\<close>: the text before the next \<open>>\<close>, if there is any, and what follows.\<close>

definition upto_angle :: "string \<Rightarrow> (string \<times> string) option" where
  "upto_angle s =
     (let name = takeWhile (\<lambda>c. c \<noteq> CHR ''>'') s; rest = dropWhile (\<lambda>c. c \<noteq> CHR ''>'') s in
      if name \<noteq> [] \<and> rest \<noteq> [] then Some (name, tl rest) else None)"

text \<open>The bullet pattern, found at its first place: the name and what follows the match.\<close>

definition function_at :: "string \<Rightarrow> (string \<times> string) option" where
  "function_at s =
     (case s of
        [] \<Rightarrow> None
      | c # r \<Rightarrow>
          if c = bullet \<and> prefix ''<function='' (dropWhile py_space r)
          then upto_angle (drop 10 (dropWhile py_space r)) else None)"

fun find_function :: "string \<Rightarrow> (string \<times> string) option" where
  "find_function [] = None"
| "find_function (c # s) =
     (case function_at (c # s) of Some m \<Rightarrow> Some m | None \<Rightarrow> find_function s)"

text \<open>\<open><parameter=([^>]+)>\<close> at its first place: the text before it, the key and what follows.\<close>

definition parameter_at :: "string \<Rightarrow> (string \<times> string) option" where
  "parameter_at s = (if prefix ''<parameter='' s then upto_angle (drop 11 s) else None)"

fun find_parameter :: "string \<Rightarrow> (string \<times> string \<times> string) option" where
  "find_parameter [] = None"
| "find_parameter (c # s) =
     (case parameter_at (c # s) of
        Some (key, rest) \<Rightarrow> Some ([], key, rest)
      | None \<Rightarrow> map_option (\<lambda>(pre, m). (c # pre, m)) (find_parameter s))"

text \<open>Word characters of \<open>\w\<close> below 256.\<close>

definition word_char :: "char \<Rightarrow> bool" where
  "word_char c \<longleftrightarrow>
     (let n = (of_char c :: nat) in
      48 \<le> n \<and> n \<le> 57 \<or> 65 \<le> n \<and> n \<le> 90 \<or> 97 \<le> n \<and> n \<le> 122 \<or> n = 95 \<or>
      n \<in> set [170, 178, 179, 181, 185, 186, 188, 189, 190] \<or>
      192 \<le> n \<and> n \<noteq> 215 \<and> n \<noteq> 247)"

definition same_letters :: "string \<Rightarrow> string \<Rightarrow> bool" where
  "same_letters w s \<longleftrightarrow>
     (let low = (\<lambda>c. let n = (of_char c :: nat) in if 65 \<le> n \<and> n \<le> 90 then n + 32 else n)
      in map low (take (length w) s) = map low w)"

text \<open>A tool word between word boundaries; \<open>before\<close> says whether a word character precedes.\<close>

definition web_tool_at :: "bool \<Rightarrow> string \<Rightarrow> (string \<times> string) option" where
  "web_tool_at before s =
     (if before then None
      else
        (let hit = (\<lambda>w. same_letters w s \<and> (case drop (length w) s of [] \<Rightarrow> True | c # _ \<Rightarrow> \<not> word_char c)) in
         if hit ''WebFetch'' then Some (take 8 s, drop 8 s)
         else if hit ''WebSearch'' then Some (take 9 s, drop 9 s)
         else None))"

text \<open>\<open>.*?(\{.*?\})\<close>: from the first brace to the next closing one.\<close>

definition first_braces :: "string \<Rightarrow> (string \<times> string) option" where
  "first_braces s =
     (let t = dropWhile (\<lambda>c. c \<noteq> CHR ''{'') s;
          inner = takeWhile (\<lambda>c. c \<noteq> CHR ''}'') t; rest = dropWhile (\<lambda>c. c \<noteq> CHR ''}'') t
      in if t \<noteq> [] \<and> rest \<noteq> [] then Some (inner @ ''}'', tl rest) else None)"

lemma upto_angle_shorter:
  assumes "upto_angle s = Some (n, r)"
  shows "length r < length s"
proof -
  let ?rest = "dropWhile (\<lambda>c. c \<noteq> CHR ''>'') s"
  have "r = tl ?rest" "?rest \<noteq> []" using assms by (auto simp: upto_angle_def Let_def split: if_splits)
  moreover have "length ?rest \<le> length s" by (rule length_dropWhile_le)
  ultimately show ?thesis by (cases ?rest) auto
qed

lemma first_braces_shorter: "first_braces s = Some (j, r) \<Longrightarrow> length r < length s"
proof -
  assume a: "first_braces s = Some (j, r)"
  let ?t = "dropWhile (\<lambda>c. c \<noteq> CHR ''{'') s"
  have "r = tl (dropWhile (\<lambda>c. c \<noteq> CHR ''}'') ?t)" "dropWhile (\<lambda>c. c \<noteq> CHR ''}'') ?t \<noteq> []"
    using a by (auto simp: first_braces_def Let_def split: if_splits)
  moreover have "length (dropWhile (\<lambda>c. c \<noteq> CHR ''}'') ?t) \<le> length s"
    by (meson length_dropWhile_le order_trans)
  ultimately show ?thesis by (cases "dropWhile (\<lambda>c. c \<noteq> CHR ''}'') ?t") auto
qed

text \<open>All matches, one after the other.\<close>

function web_matches :: "bool \<Rightarrow> string \<Rightarrow> (string \<times> string) list" where
  "web_matches before [] = []"
| "web_matches before (c # s) =
     (case web_tool_at before (c # s) of
        Some (tool, rest) \<Rightarrow>
          (case first_braces rest of
             Some (js, r) \<Rightarrow> (tool, js) # web_matches False r
           | None \<Rightarrow> web_matches (word_char c) s)
      | None \<Rightarrow> web_matches (word_char c) s)"
  by pat_completeness auto

lemma web_tool_at_shorter: "web_tool_at b s = Some (t, r) \<Longrightarrow> length r \<le> length s"
  by (auto simp: web_tool_at_def Let_def split: if_splits)

termination web_matches
  by (relation "measure (\<lambda>(_, s). length s)")
    (auto dest!: web_tool_at_shorter first_braces_shorter)

section \<open>The parser\<close>

datatype parser_state = Text_State | Matching_Function | Parsing_Parameters

record heuristic_parser =
  hp_state :: parser_state
  hp_buffer :: string
  hp_tool_id :: string
  hp_function :: string
  hp_parameters :: "(string, json) dict"

definition new_heuristic_parser :: heuristic_parser where
  "new_heuristic_parser =
     \<lparr>hp_state = Text_State, hp_buffer = [], hp_tool_id = [], hp_function = [], hp_parameters = []\<rparr>"

text \<open>A detected tool use: its id, name and input.\<close>

type_synonym detected = "string \<times> string \<times> (string, json) dict"

definition web_call :: "(string \<Rightarrow> json option) \<Rightarrow> string \<times> string \<Rightarrow> (string \<times> (string, json) dict) list" where
  "web_call loads m =
     (case m of (tool, js) \<Rightarrow>
        (case loads js of
           Some (JObj d) \<Rightarrow>
             if tool = ''WebFetch'' \<and> dget d ''url'' = None then []
             else if tool = ''WebSearch'' \<and> dget d ''query'' = None then []
             else [(tool, d)]
         | _ \<Rightarrow> []))"

definition heuristic_id :: "(nat \<Rightarrow> string) \<Rightarrow> nat \<Rightarrow> string" where
  "heuristic_id ids k = ''toolu_heuristic_'' @ ids k"

text \<open>Any detected call takes the whole buffer with it.\<close>

definition extract_web_calls ::
  "(string \<Rightarrow> json option) \<Rightarrow> (nat \<Rightarrow> string) \<Rightarrow> string \<Rightarrow> string \<times> detected list" where
  "extract_web_calls loads ids buf =
     (let calls = concat (map (web_call loads) (web_matches False buf)) in
      if calls = [] then (buf, [])
      else ([], map (\<lambda>(k, tool, d). (heuristic_id ids k, tool, d)) (enumerate 0 calls)))"

text \<open>The text before an unfinished control token, when the buffer ends in one.\<close>

fun rfind_text :: "string \<Rightarrow> string \<Rightarrow> nat option" where
  "rfind_text pat [] = (if pat = [] then Some 0 else None)"
| "rfind_text pat (c # s) =
     (case rfind_text pat s of
        Some n \<Rightarrow> Some (Suc n)
      | None \<Rightarrow> if prefix pat (c # s) then Some 0 else None)"

definition split_control_tail :: "string \<Rightarrow> string \<times> string" where
  "split_control_tail buf =
     (case rfind_text ''<|'' buf of
        None \<Rightarrow> ([], buf)
      | Some n \<Rightarrow> if py_find_from ''|>'' n buf \<noteq> None then ([], buf) else (take n buf, drop n buf))"

text \<open>The inner loop: complete parameters, and the text in front of them. A key that itself ends in
  \<open></parameter\<close> also makes the match complete: without a later closing tag its value goes to
  \<open>$\<close>, the end of the text or a line break there.\<close>

definition final_break :: "string \<Rightarrow> string" where
  "final_break s = (if suffix [CHR 0x0A] s then [CHR 0x0A] else [])"

function take_parameters ::
  "string \<Rightarrow> (string, json) dict \<Rightarrow> string list \<Rightarrow> string \<times> (string, json) dict \<times> string list" where
  "take_parameters buf params out =
     (case find_parameter buf of
        None \<Rightarrow> (buf, params, out)
      | Some (pre, key, rest) \<Rightarrow>
          (case py_find ''</parameter>'' rest of
             None \<Rightarrow>
               if suffix ''</parameter'' key then
                 take_parameters (final_break rest) (dset (py_strip key) (JStr (py_strip rest)) params)
                   (if pre = [] then out else out @ [pre])
               else (buf, params, out)
           | Some n \<Rightarrow>
               take_parameters (drop (n + length ''</parameter>'') rest)
                 (dset (py_strip key) (JStr (py_strip (take n rest))) params)
                 (if pre = [] then out else out @ [pre])))"
  by pat_completeness auto

lemma find_parameter_shorter: "find_parameter s = Some (pre, key, rest) \<Longrightarrow> length rest < length s"
proof (induction s arbitrary: pre)
  case (Cons c s)
  show ?case
  proof (cases "parameter_at (c # s)")
    case None
    then show ?thesis using Cons by fastforce
  next
    case (Some m)
    then have "upto_angle (drop 11 (c # s)) = Some (key, rest)"
      using Cons.prems by (auto simp: parameter_at_def split: if_splits prod.splits)
    from upto_angle_shorter [OF this] show ?thesis by simp
  qed
qed simp

lemma final_break_length: "length (final_break s) \<le> length s"
  by (auto simp: final_break_def suffix_def)

lemma final_break_shorter: "length s < n \<Longrightarrow> length (final_break s) < n"
  using final_break_length [of s] by simp

termination take_parameters
  by (relation "measure (\<lambda>(buf, _). length buf)") (auto dest: find_parameter_shorter intro: final_break_shorter)

declare take_parameters.simps [simp del]

lemma take_parameters_shorter: "take_parameters buf params out = (b, p, o') \<Longrightarrow> length b \<le> length buf"
proof (induction buf params out rule: take_parameters.induct)
  case (1 buf params out)
  show ?case
  proof (cases "find_parameter buf")
    case None
    then show ?thesis using 1(3) by (simp add: take_parameters.simps [of buf])
  next
    case (Some m)
    obtain pre key rest where m: "m = (pre, key, rest)" by (cases m) auto
    note less = find_parameter_shorter [OF Some [unfolded m]]
    show ?thesis
    proof (cases "py_find ''</parameter>'' rest")
      case None
      show ?thesis
      proof (cases "suffix ''</parameter'' key")
        case True
        then show ?thesis
          using 1(1) [OF Some m [symmetric] refl None True] 1(3) Some m None less final_break_length [of rest]
          by (simp add: take_parameters.simps [of buf])
      next
        case False
        then show ?thesis using 1(3) Some m None by (simp add: take_parameters.simps [of buf])
      qed
    next
      case (Some n)
      then show ?thesis
        using 1(2) [OF \<open>find_parameter buf = Some m\<close> m [symmetric] refl Some] 1(3) \<open>find_parameter buf = Some m\<close> m less
        by (simp add: take_parameters.simps [of buf])
    qed
  qed
qed

text \<open>What ends a call: the next bullet, or text that cannot go on with a tag.\<close>

definition call_finished :: "string \<Rightarrow> (string \<times> string) option" where
  "call_finished buf =
     (case py_find [bullet] buf of
        Some n \<Rightarrow> Some (take n buf, drop n buf)
      | None \<Rightarrow>
          if buf \<noteq> [] \<and> \<not> prefix ''<'' (py_strip buf) \<and> py_find ''<parameter='' buf = None then Some (buf, [])
          else None)"

text \<open>One pass of the outer loop: \<open>Inl\<close> breaks out of it, \<open>Inr\<close> goes round again.\<close>

definition text_part ::
  "heuristic_parser \<Rightarrow> string list \<Rightarrow> (heuristic_parser \<times> string list) + (heuristic_parser \<times> string list)" where
  "text_part p out =
     (if hp_state p = Text_State then
        (case py_find [bullet] (hp_buffer p) of
           Some n \<Rightarrow>
             Inr (p\<lparr>hp_buffer := drop n (hp_buffer p), hp_state := Matching_Function\<rparr>, out @ [take n (hp_buffer p)])
         | None \<Rightarrow>
             (case split_control_tail (hp_buffer p) of
                (safe, rest) \<Rightarrow>
                  if safe \<noteq> [] then Inl (p\<lparr>hp_buffer := rest\<rparr>, out @ [safe])
                  else Inl (p\<lparr>hp_buffer := []\<rparr>, out @ [rest])))
      else Inr (p, out))"

definition matching_part ::
  "(nat \<Rightarrow> string) \<Rightarrow> nat \<Rightarrow> heuristic_parser \<Rightarrow> string list \<Rightarrow>
   (heuristic_parser \<times> string list) + (heuristic_parser \<times> string list)" where
  "matching_part ids k p out =
     (if hp_state p = Matching_Function then
        (case find_function (hp_buffer p) of
           Some (name, rest) \<Rightarrow>
             Inr (p\<lparr>hp_function := py_strip name, hp_tool_id := heuristic_id ids k, hp_parameters := [],
                    hp_buffer := rest, hp_state := Parsing_Parameters\<rparr>, out)
         | None \<Rightarrow>
             if length (hp_buffer p) > 100 then
               Inr (p\<lparr>hp_buffer := tl (hp_buffer p), hp_state := Text_State\<rparr>, out @ [[hd (hp_buffer p)]])
             else Inl (p, out))
      else Inr (p, out))"

text \<open>The third component is the call that ended, if one did.\<close>

definition parameter_part ::
  "heuristic_parser \<Rightarrow> string list \<Rightarrow> heuristic_parser \<times> string list \<times> detected option" where
  "parameter_part p out =
     (case take_parameters (hp_buffer p) (hp_parameters p) out of
        (buf, params, out) \<Rightarrow>
          (case call_finished buf of
             None \<Rightarrow> (p\<lparr>hp_buffer := buf, hp_parameters := params\<rparr>, out, None)
           | Some (before, rest) \<Rightarrow>
               (p\<lparr>hp_buffer := rest, hp_parameters := params, hp_state := Text_State\<rparr>,
                if before = [] then out else out @ [before],
                Some (hp_tool_id p, hp_function p, params))))"

lemma find_function_shorter: "find_function s = Some (n, r) \<Longrightarrow> length r < length s"
proof (induction s)
  case (Cons c s)
  show ?case
  proof (cases "function_at (c # s)")
    case None
    then show ?thesis using Cons by simp
  next
    case (Some m)
    then have "upto_angle (drop 10 (dropWhile py_space s)) = Some (n, r)"
      using Cons.prems by (auto simp: function_at_def split: if_splits)
    from upto_angle_shorter [OF this] show ?thesis
      using length_dropWhile_le [of py_space s] by simp
  qed
qed simp

lemma text_part_shorter: "text_part p out = Inr (q, o') \<Longrightarrow>
    length (hp_buffer q) \<le> length (hp_buffer p) \<and> (hp_state q = Parsing_Parameters \<longleftrightarrow> hp_state p = Parsing_Parameters)"
  by (auto simp: text_part_def split: if_splits option.splits prod.splits)

lemma matching_part_shorter: "matching_part ids k p out = Inr (q, o') \<Longrightarrow>
    (if hp_state p = Matching_Function then length (hp_buffer q) < length (hp_buffer p) else q = p)"
  by (auto simp: matching_part_def dest: find_function_shorter split: if_splits option.splits prod.splits)

lemma text_part_state: "text_part p out = Inr (q, o') \<Longrightarrow> hp_state q \<noteq> Text_State"
  by (auto simp: text_part_def split: if_splits option.splits prod.splits)

lemma call_finished_shorter: "call_finished b = Some (x, y) \<Longrightarrow> length y \<le> length b"
  by (auto simp: call_finished_def split: option.splits if_splits)

lemma parameter_part_shorter: "parameter_part p out = (q, o', Some call) \<Longrightarrow>
    length (hp_buffer q) \<le> length (hp_buffer p) \<and> hp_state q = Text_State"
  by (auto simp: parameter_part_def split: prod.splits option.splits
      dest!: take_parameters_shorter call_finished_shorter)

text \<open>The outer loop.\<close>

definition loop_measure :: "heuristic_parser \<Rightarrow> nat" where
  "loop_measure p = 2 * length (hp_buffer p) + (if hp_state p = Parsing_Parameters then 1 else 0)"

function heuristic_loop ::
  "(nat \<Rightarrow> string) \<Rightarrow> nat \<Rightarrow> heuristic_parser \<Rightarrow> string list \<Rightarrow> detected list \<Rightarrow>
   heuristic_parser \<times> string list \<times> detected list" where
  "heuristic_loop ids k p out found =
     (case text_part p out of
        Inl (q, out) \<Rightarrow> (q, out, found)
      | Inr (q, out) \<Rightarrow>
          (case matching_part ids k q out of
             Inl (r, out) \<Rightarrow> (r, out, found)
           | Inr (r, out) \<Rightarrow>
               if hp_state r = Parsing_Parameters then
                 (case parameter_part r out of
                    (s, out, None) \<Rightarrow> (s, out, found)
                  | (s, out, Some call) \<Rightarrow> heuristic_loop ids (k + 1) s out (found @ [call]))
               else heuristic_loop ids k r out found))"
  by pat_completeness auto

lemma pass_shorter:
  assumes "text_part p out = Inr (q, out1)" and "matching_part ids k q out1 = Inr (r, out2)"
  shows "hp_state r = Parsing_Parameters \<Longrightarrow> parameter_part r out2 = (s, out3, Some call) \<Longrightarrow>
      loop_measure s < loop_measure p"
    "hp_state r \<noteq> Parsing_Parameters \<Longrightarrow> loop_measure r < loop_measure p"
proof -
  note t = text_part_shorter [OF assms(1)] text_part_state [OF assms(1)]
  note m = matching_part_shorter [OF assms(2)]
  show "loop_measure s < loop_measure p"
    if "hp_state r = Parsing_Parameters" "parameter_part r out2 = (s, out3, Some call)"
    using t m parameter_part_shorter [OF that(2)] that(1)
    by (cases "hp_state q") (auto simp: loop_measure_def)
  show "loop_measure r < loop_measure p" if "hp_state r \<noteq> Parsing_Parameters"
    using t m that by (cases "hp_state q") (auto simp: loop_measure_def)
qed

termination heuristic_loop
  by (relation "measure (\<lambda>(_, _, p, _). loop_measure p)")
    (auto dest: sym [THEN pass_shorter(1)] sym [THEN pass_shorter(2)] intro: pass_shorter simp: eq_commute)

declare heuristic_loop.simps [simp del]

definition heuristic_feed ::
  "(string \<Rightarrow> json option) \<Rightarrow> (nat \<Rightarrow> string) \<Rightarrow> string \<Rightarrow> heuristic_parser \<Rightarrow>
   string \<times> detected list \<times> heuristic_parser" where
  "heuristic_feed loads ids s p =
     (case extract_web_calls loads ids (strip_control_tokens (hp_buffer p @ s)) of
        (buf, found) \<Rightarrow>
          (case heuristic_loop ids (length found) (p\<lparr>hp_buffer := buf\<rparr>) [] found of
             (q, out, found) \<Rightarrow> (concat out, found, q)))"

text \<open>At the end: a call in progress is completed by the parameter that is still open.\<close>

definition heuristic_flush :: "heuristic_parser \<Rightarrow> detected list \<times> heuristic_parser" where
  "heuristic_flush p =
     (let buf = strip_control_tokens (hp_buffer p) in
      if hp_state p = Parsing_Parameters then
        (let params = (case find_parameter buf of
               None \<Rightarrow> hp_parameters p
             | Some (_, key, rest) \<Rightarrow> dset (py_strip key) (JStr (py_strip rest)) (hp_parameters p))
         in ([(hp_tool_id p, hp_function p, params)],
             p\<lparr>hp_parameters := params, hp_state := Text_State, hp_buffer := []\<rparr>))
      else ([], p\<lparr>hp_buffer := buf\<rparr>))"

section \<open>Ordinary text\<close>

text \<open>The parser over the chunks of an answer, and what the client has after the flush.\<close>

fun heuristic_stream ::
  "(string \<Rightarrow> json option) \<Rightarrow> (nat \<Rightarrow> string) \<Rightarrow> string list \<Rightarrow> heuristic_parser \<Rightarrow>
   string \<times> detected list \<times> heuristic_parser" where
  "heuristic_stream loads ids [] p = ([], [], p)"
| "heuristic_stream loads ids (s # ss) p =
     (case heuristic_feed loads ids s p of
        (shown, found, q) \<Rightarrow>
          (case heuristic_stream loads ids ss q of
             (later, calls, r) \<Rightarrow> (shown @ later, found @ calls, r)))"

definition heuristic_answer ::
  "(string \<Rightarrow> json option) \<Rightarrow> (nat \<Rightarrow> string) \<Rightarrow> string list \<Rightarrow> string \<times> detected list" where
  "heuristic_answer loads ids ss =
     (case heuristic_stream loads ids ss new_heuristic_parser of
        (shown, found, p) \<Rightarrow> (shown, found @ fst (heuristic_flush p)))"

text \<open>Text that can hold no tag, no control token and no JSON object, and the tail of a text
  that the parser keeps awaiting_call for a call.\<close>

definition plain_text :: "string \<Rightarrow> bool" where
  "plain_text s \<longleftrightarrow> CHR ''<'' \<notin> set s \<and> CHR ''{'' \<notin> set s"

definition awaited :: "string \<Rightarrow> string" where
  "awaited s = dropWhile (\<lambda>c. c \<noteq> bullet) (drop (length s - 100) s)"

lemma control_token_None: "hd s \<noteq> CHR ''<'' \<Longrightarrow> control_token s = None"
  by (cases s) (simp_all add: control_token_def)

lemma strip_plain: "CHR ''<'' \<notin> set s \<Longrightarrow> strip_control_tokens s = s"
  by (induction s) (auto simp: control_token_None)

lemma first_braces_None: "CHR ''{'' \<notin> set s \<Longrightarrow> first_braces s = None"
proof -
  assume "CHR ''{'' \<notin> set s"
  then have "dropWhile (\<lambda>c. c \<noteq> CHR ''{'') s = []" by (auto simp: dropWhile_eq_Nil_conv)
  then show ?thesis by (simp add: first_braces_def)
qed

lemma web_tool_at_rest: "web_tool_at b s = Some (t, r) \<Longrightarrow> set r \<subseteq> set s"
  by (auto simp: web_tool_at_def Let_def split: if_splits dest: in_set_dropD)

lemma web_matches_None: "CHR ''{'' \<notin> set s \<Longrightarrow> web_matches b s = []"
proof (induction b s rule: web_matches.induct)
  case (2 before c s)
  show ?case
  proof (cases "web_tool_at before (c # s)")
    case None
    then show ?thesis using 2 by simp
  next
    case (Some m)
    obtain t r where m: "m = (t, r)" by (cases m)
    have "first_braces r = None"
      using web_tool_at_rest [OF Some [unfolded m]] 2(4) by (intro first_braces_None) blast
    then show ?thesis using 2(2) [OF Some m [symmetric]] 2(4) Some m by simp
  qed
qed simp

lemma function_at_None: "CHR ''<'' \<notin> set s \<Longrightarrow> function_at s = None"
proof (cases s)
  case (Cons c r)
  assume "CHR ''<'' \<notin> set s"
  then have "CHR ''<'' \<notin> set (dropWhile py_space r)" using Cons by (auto dest: set_dropWhileD)
  then show ?thesis using Cons by (auto simp: function_at_def prefix_def)
qed (simp add: function_at_def)

lemma find_function_None: "CHR ''<'' \<notin> set s \<Longrightarrow> find_function s = None"
proof (induction s)
  case (Cons c s)
  then show ?case using function_at_None [of "c # s"] by simp
qed simp

lemma rfind_text_None: "CHR ''<'' \<notin> set s \<Longrightarrow> rfind_text ''<|'' s = None"
  by (induction s) auto

lemma awaited_skip: "bullet \<notin> set x \<Longrightarrow> awaited (x @ t) = awaited t"
proof (cases "length t \<ge> 100")
  case False
  assume x: "bullet \<notin> set x"
  let ?y = "drop (length x + length t - 100) x"
  have "\<forall>c \<in> set ?y. c \<noteq> bullet" using x by (metis in_set_dropD)
  then have "dropWhile (\<lambda>c. c \<noteq> bullet) (?y @ t) = dropWhile (\<lambda>c. c \<noteq> bullet) t"
    by (intro dropWhile_append2) blast
  then show ?thesis using False by (simp add: awaited_def)
qed (simp add: awaited_def)

lemma awaited_long: "100 \<le> length t \<Longrightarrow> awaited (w @ t) = awaited t"
  by (simp add: awaited_def)

lemma awaited_short: "length y < 100 \<Longrightarrow> awaited (bullet # y) = bullet # y"
  by (simp add: awaited_def)

lemma awaited_cases: "awaited s = [] \<or> (\<exists>y. awaited s = bullet # y \<and> length y < 100)"
proof (cases "awaited s")
  case (Cons c y)
  then have "c = bullet" using hd_dropWhile [of "\<lambda>c. c \<noteq> bullet" "drop (length s - 100) s"] by (simp add: awaited_def)
  moreover have "length (awaited s) \<le> length (drop (length s - 100) s)" unfolding awaited_def by (rule length_dropWhile_le)
  ultimately show ?thesis using Cons by auto
qed simp

lemma awaited_append: "awaited (awaited s @ t) = awaited (s @ t)"
proof -
  let ?w = "take (length s - 100) s" and ?v = "drop (length s - 100) s"
  let ?x = "takeWhile (\<lambda>c. c \<noteq> bullet) ?v"
  have s: "s @ t = ?w @ ?v @ t" by (metis append.assoc append_take_drop_id)
  have v: "?v @ t = ?x @ awaited s @ t" unfolding awaited_def by (metis append.assoc takeWhile_dropWhile_id)
  have "?w = [] \<or> 100 \<le> length ?v" by (cases "length s \<le> 100") auto
  then have "awaited (s @ t) = awaited (?v @ t)" unfolding s using awaited_long [of "?v @ t" ?w] by auto
  moreover have "awaited (?v @ t) = awaited (awaited s @ t)"
    unfolding v by (rule awaited_skip) (auto dest: set_takeWhileD)
  ultimately show ?thesis by simp
qed

lemma awaited_suffix: "\<exists>w. s = w @ awaited s"
  by (rule exI [of _ "take (length s - 100) s @ takeWhile (\<lambda>c. c \<noteq> bullet) (drop (length s - 100) s)"])
    (simp add: awaited_def)

text \<open>The state the parser is in after ordinary text.\<close>

definition awaiting_call :: "heuristic_parser \<Rightarrow> string \<Rightarrow> bool" where
  "awaiting_call p s \<longleftrightarrow>
     hp_buffer p = awaited s \<and> hp_state p = (if awaited s = [] then Text_State else Matching_Function)"

lemma text_part_plain:
  assumes "hp_state p = Text_State" and "CHR ''<'' \<notin> set (hp_buffer p)"
  shows "text_part p out =
    (case py_find [bullet] (hp_buffer p) of
       Some n \<Rightarrow>
         Inr (p\<lparr>hp_buffer := drop n (hp_buffer p), hp_state := Matching_Function\<rparr>, out @ [take n (hp_buffer p)])
     | None \<Rightarrow> Inl (p\<lparr>hp_buffer := []\<rparr>, out @ [hp_buffer p]))"
  using assms by (simp add: text_part_def split_control_tail_def rfind_text_None split: option.split)

lemma find_bullet_None: "py_find [bullet] s = None \<Longrightarrow> bullet \<notin> set s"
  by (induction s) (auto split: if_splits)

lemma find_bullet_Some:
  assumes "py_find [bullet] s = Some n"
  shows "\<exists>x y. s = x @ bullet # y \<and> take n s = x \<and> drop n s = bullet # y \<and> bullet \<notin> set x"
proof -
  note f = py_find_Some [OF assms]
  have "bullet \<notin> set (take n s)"
  proof
    assume "bullet \<in> set (take n s)"
    then obtain k where k: "k < length (take n s)" "take n s ! k = bullet" by (auto simp: in_set_conv_nth)
    then have "prefix [bullet] (drop k s)" by (simp add: Cons_nth_drop_Suc [symmetric])
    then show False using f(3) k(1) by simp
  qed
  then show ?thesis using f(1,2) drop_found [OF assms, of "[]"] by (intro exI conjI) auto
qed

text \<open>The outer loop on ordinary text: no call, and all but the awaited tail is shown.\<close>

lemma heuristic_loop_plain:
  assumes "heuristic_loop ids k p out found = (q, out', found')" and "CHR ''<'' \<notin> set (hp_buffer p)"
    and "hp_state p = Text_State \<or> hp_state p = Matching_Function \<and> (\<exists>y. hp_buffer p = bullet # y)"
  shows "found' = found \<and> awaiting_call q (hp_buffer p) \<and> concat out' @ hp_buffer q = concat out @ hp_buffer p"
  using assms
proof (induction "length (hp_buffer p)" arbitrary: k p out rule: less_induct)
  case less
  have matching: ?case
    if b: "hp_buffer m = bullet # y" and plain: "CHR ''<'' \<notin> set y" and st: "hp_state m = Matching_Function"
      and m: "text_part p out = Inr (m, out1)" and all: "concat out1 @ hp_buffer m = concat out @ hp_buffer p"
      and same: "awaited (hp_buffer p) = awaited (hp_buffer m)" and le: "length (hp_buffer m) \<le> length (hp_buffer p)"
    for m out1 y
  proof -
    have none: "find_function (hp_buffer m) = None" using plain b by (intro find_function_None) (simp add: bullet_def)
    show ?thesis
    proof (cases "length (hp_buffer m) > 100")
      case True
      let ?r = "m\<lparr>hp_buffer := y, hp_state := Text_State\<rparr>" and ?o = "out1 @ [[bullet]]"
      have "matching_part ids k m out1 = Inr (?r, ?o)" using st none True b by (simp add: matching_part_def)
      then have run: "heuristic_loop ids k ?r ?o found = (q, out', found')"
        using less.prems(1) m by (simp add: heuristic_loop.simps [of ids k p])
      have "length (hp_buffer ?r) < length (hp_buffer p)" using b le by simp
      from less.hyps [OF this run] plain
      have r: "found' = found \<and> awaiting_call q y \<and> concat out' @ hp_buffer q = concat ?o @ y" by simp
      have e: "awaited (hp_buffer p) = awaited y" using same True b awaited_long [of y "[bullet]"] by simp
      have c: "concat out @ hp_buffer p = concat ?o @ y" using all b by simp
      show ?thesis using r unfolding awaiting_call_def e c .
    next
      case False
      then have "matching_part ids k m out1 = Inl (m, out1)" using st none by (simp add: matching_part_def)
      then have "q = m" "out' = out1" "found' = found"
        using less.prems(1) m by (simp_all add: heuristic_loop.simps [of ids k p])
      moreover have "awaited (hp_buffer m) = hp_buffer m" using False b awaited_short [of y] by simp
      ultimately show ?thesis using all same st b by (simp add: awaiting_call_def)
    qed
  qed
  show ?case
  proof (cases "hp_state p = Text_State")
    case True
    note t = text_part_plain [OF True less.prems(2)]
    show ?thesis
    proof (cases "py_find [bullet] (hp_buffer p)")
      case None
      then have "q = p\<lparr>hp_buffer := []\<rparr>" "out' = out @ [hp_buffer p]" "found' = found"
        using less.prems(1) t by (simp_all add: heuristic_loop.simps [of ids k p])
      moreover have "awaited (hp_buffer p) = []"
        using awaited_skip [of "hp_buffer p" "[]"] find_bullet_None [OF None] by (simp add: awaited_def)
      ultimately show ?thesis using True by (simp add: awaiting_call_def)
    next
      case (Some n)
      then obtain x y where xy: "hp_buffer p = x @ bullet # y" "take n (hp_buffer p) = x"
        "drop n (hp_buffer p) = bullet # y" "bullet \<notin> set x"
        using find_bullet_Some by blast
      have "text_part p out = Inr (p\<lparr>hp_buffer := bullet # y, hp_state := Matching_Function\<rparr>, out @ [x])"
        using t Some xy(2,3) by simp
      from matching [OF _ _ _ this] show ?thesis
        using less.prems(2) xy awaited_skip [OF xy(4), of "bullet # y"] by simp
    qed
  next
    case False
    then obtain y where y: "hp_state p = Matching_Function" "hp_buffer p = bullet # y" using less.prems(3) by blast
    then have "text_part p out = Inr (p, out)" by (simp add: text_part_def)
    from matching [OF _ _ _ this] show ?thesis using less.prems(2) y by simp
  qed
qed

lemma heuristic_flush_text: "hp_state p \<noteq> Parsing_Parameters \<Longrightarrow> fst (heuristic_flush p) = []"
  by (simp add: heuristic_flush_def Let_def)

lemma extract_none: "CHR ''{'' \<notin> set s \<Longrightarrow> extract_web_calls loads ids s = (s, [])"
  by (simp add: extract_web_calls_def web_matches_None)

lemma awaiting_new: "awaiting_call new_heuristic_parser []"
  by (simp add: awaiting_call_def new_heuristic_parser_def awaited_def)

lemma awaiting_text: "awaiting_call p s \<Longrightarrow> hp_state p \<noteq> Parsing_Parameters"
  by (simp add: awaiting_call_def)

lemma heuristic_feed_plain:
  assumes f: "heuristic_feed loads ids s p = (shown, found, q)" and w: "awaiting_call p seen"
    and plain: "plain_text seen" "plain_text s"
  shows "found = [] \<and> awaiting_call q (seen @ s) \<and> shown @ hp_buffer q = hp_buffer p @ s"
proof -
  have buf: "hp_buffer p = awaited seen" using w by (simp add: awaiting_call_def)
  obtain pre where "seen = pre @ awaited seen" using awaited_suffix by blast
  then have "set (awaited seen) \<subseteq> set seen" by (metis Un_upper2 set_append)
  then have clean: "CHR ''<'' \<notin> set (hp_buffer p @ s)" "CHR ''{'' \<notin> set (hp_buffer p @ s)"
    using plain by (auto simp: buf plain_text_def)
  let ?p = "p\<lparr>hp_buffer := hp_buffer p @ s\<rparr>"
  obtain out where loop: "heuristic_loop ids 0 ?p [] [] = (q, out, found)" and out: "shown = concat out"
    using f by (auto simp: heuristic_feed_def strip_plain [OF clean(1)] extract_none [OF clean(2)] split: prod.splits)
  have r: "found = [] \<and> awaiting_call q (hp_buffer p @ s) \<and> concat out @ hp_buffer q = hp_buffer p @ s"
    using heuristic_loop_plain [OF loop] clean(1) w awaited_cases [of seen] by (auto simp: awaiting_call_def)
  have e: "awaited (hp_buffer p @ s) = awaited (seen @ s)" unfolding buf by (rule awaited_append)
  show ?thesis using r unfolding awaiting_call_def e out .
qed

lemma heuristic_stream_plain:
  assumes "heuristic_stream loads ids ss p = (shown, found, q)" and "awaiting_call p seen"
    and "plain_text seen" and "plain_text (concat ss)"
  shows "found = [] \<and> awaiting_call q (seen @ concat ss) \<and> shown @ hp_buffer q = hp_buffer p @ concat ss"
  using assms
proof (induction ss arbitrary: p seen shown found)
  case (Cons s ss)
  obtain o1 f1 p1 where 1: "heuristic_feed loads ids s p = (o1, f1, p1)" by (rule prod_cases3)
  obtain o2 f2 p2 where 2: "heuristic_stream loads ids ss p1 = (o2, f2, p2)" by (rule prod_cases3)
  have eq: "shown = o1 @ o2" "found = f1 @ f2" "q = p2" using Cons.prems(1) 1 2 by simp_all
  have plain: "plain_text s" "plain_text (concat ss)" "plain_text (seen @ s)"
    using Cons.prems(3,4) by (simp_all add: plain_text_def)
  note feed = heuristic_feed_plain [OF 1 Cons.prems(2,3) plain(1)]
  have "f2 = [] \<and> awaiting_call p2 ((seen @ s) @ concat ss) \<and> o2 @ hp_buffer p2 = hp_buffer p1 @ concat ss"
    using Cons.IH [OF 2 [folded eq(3)] conjunct1 [OF conjunct2 [OF feed]] plain(3,2)] by (simp add: eq(3))
  then show ?case using feed by (simp add: eq)
qed simp

lemma heuristic_answer_plain:
  assumes "plain_text (concat ss)"
  shows "\<exists>shown. heuristic_answer loads ids ss = (shown, []) \<and> concat ss = shown @ awaited (concat ss)"
proof -
  obtain shown found q where f: "heuristic_stream loads ids ss new_heuristic_parser = (shown, found, q)"
    by (rule prod_cases3)
  have "plain_text []" by (simp add: plain_text_def)
  note r = heuristic_stream_plain [OF f awaiting_new this assms]
  then have "found = []" "awaiting_call q (concat ss)" "shown @ hp_buffer q = concat ss"
    by (simp_all add: new_heuristic_parser_def)
  then show ?thesis using heuristic_flush_text [OF awaiting_text, of q "concat ss"]
    by (intro exI [of _ shown]) (simp add: heuristic_answer_def f awaiting_call_def)
qed

section \<open>Control tokens cut in two\<close>

lemma strip_skip: "CHR ''<'' \<notin> set a \<Longrightarrow> strip_control_tokens (a @ t) = a @ strip_control_tokens t"
  by (induction a) (auto simp: control_token_None)

lemma strip_unfinished:
  assumes "CHR ''<'' \<notin> set b" and "CHR ''>'' \<notin> set b"
  shows "strip_control_tokens (''<|'' @ b) = ''<|'' @ b"
proof -
  have "\<not> prefix ''|>'' (dropWhile token_char b)"
  proof
    assume "prefix ''|>'' (dropWhile token_char b)"
    then have "CHR ''>'' \<in> set (dropWhile token_char b)" by (auto simp: prefix_def)
    then show False using assms(2) by (auto dest: set_dropWhileD)
  qed
  then have "control_token (''<|'' @ b) = None" by (simp add: control_token_def)
  then show ?thesis using strip_plain [of "CHR ''|'' # b"] assms(1) by simp
qed

lemma find_none_by_char: "c \<in> set pat \<Longrightarrow> c \<notin> set s \<Longrightarrow> py_find pat s = None"
proof (cases "py_find pat s")
  case (Some n)
  assume "c \<in> set pat" "c \<notin> set s"
  moreover have "set pat \<subseteq> set s" using py_find_Some(1) [OF Some] by (metis Un_iff set_append subsetI)
  ultimately show ?thesis by blast
qed simp

lemma rfind_text_here: "rfind_text pat t = Some n \<Longrightarrow> rfind_text pat (a @ t) = Some (length a + n)"
  by (induction a) auto

lemma split_unfinished:
  assumes "CHR ''<'' \<notin> set b" and "CHR ''>'' \<notin> set b"
  shows "split_control_tail (a @ ''<|'' @ b) = (a, ''<|'' @ b)"
proof -
  have "rfind_text ''<|'' (''<|'' @ b) = Some 0" using rfind_text_None [of b] assms(1) by simp
  from rfind_text_here [OF this, of a]
  have "rfind_text ''<|'' (a @ ''<|'' @ b) = Some (length a)" by simp
  moreover have "py_find ''|>'' (''<|'' @ b) = None" using assms(2) by (intro find_none_by_char [of "CHR ''>''"]) auto
  ultimately show ?thesis by (simp add: split_control_tail_def py_find_from_def)
qed

text \<open>One chunk while no call is awaited, with neither a bullet nor a brace.\<close>

lemma heuristic_feed_text:
  assumes "hp_state p = Text_State" and "strip_control_tokens (hp_buffer p @ s) = u"
    and "bullet \<notin> set u" and "CHR ''{'' \<notin> set u"
  shows "heuristic_feed loads ids s p =
    (case split_control_tail u of (safe, rest) \<Rightarrow>
       if safe \<noteq> [] then (safe, [], p\<lparr>hp_buffer := rest\<rparr>) else (rest, [], p\<lparr>hp_buffer := []\<rparr>))"
proof -
  have "py_find [bullet] u = None" using assms(3) by (intro find_none_by_char [of bullet]) auto
  then show ?thesis
    using assms(1,2) extract_none [OF assms(4)]
    by (simp add: heuristic_feed_def heuristic_loop.simps [of ids 0] text_part_def split: prod.splits)
qed

lemma awaiting_empty: "awaiting_call p s \<Longrightarrow> bullet \<notin> set s \<Longrightarrow> hp_buffer p = [] \<and> hp_state p = Text_State"
  using awaited_skip [of s "[]"] by (simp add: awaiting_call_def awaited_def)

lemma answer_one:
  "heuristic_feed loads ids s new_heuristic_parser = (shown, found, q) \<Longrightarrow> hp_state q = Text_State \<Longrightarrow>
   heuristic_answer loads ids [s] = (shown, found)"
  by (simp add: heuristic_answer_def heuristic_flush_text)

lemma answer_two:
  "heuristic_feed loads ids s new_heuristic_parser = (shown, [], q) \<Longrightarrow>
   heuristic_feed loads ids t q = (shown', [], r) \<Longrightarrow> hp_state r = Text_State \<Longrightarrow>
   heuristic_answer loads ids [s, t] = (shown @ shown', [])"
  by (simp add: heuristic_answer_def heuristic_flush_text)

text \<open>What \<open><|\<close> does to ordinary text around it.\<close>

definition unmarked :: "string \<Rightarrow> bool" where
  "unmarked s \<longleftrightarrow> set s \<inter> {CHR ''<'', CHR ''>'', CHR ''{'', bullet} = {}"

lemma unmarkedD:
  "unmarked s \<Longrightarrow> CHR ''<'' \<notin> set s" "unmarked s \<Longrightarrow> CHR ''>'' \<notin> set s"
  "unmarked s \<Longrightarrow> CHR ''{'' \<notin> set s" "unmarked s \<Longrightarrow> bullet \<notin> set s"
  by (auto simp: unmarked_def)

lemma fresh_parser: "hp_state new_heuristic_parser = Text_State" "hp_buffer new_heuristic_parser = []"
  by (simp_all add: new_heuristic_parser_def)

lemma bullet_marks: "bullet \<noteq> CHR ''<''" "bullet \<noteq> CHR ''|''" "bullet \<noteq> CHR ''>''"
  by (simp_all add: bullet_def)

lemma feed_unmarked:
  assumes "hp_state p = Text_State" and "hp_buffer p = []" and "unmarked s"
  shows "heuristic_feed loads ids s p = (s, [], p)"
proof -
  note q = unmarkedD [OF assms(3)]
  have "rfind_text ''<|'' s = None" using q(1) by (rule rfind_text_None)
  then show ?thesis
    using heuristic_feed_text [OF assms(1), of s s] assms(2) q strip_plain [OF q(1)]
    by (simp add: split_control_tail_def)
qed

lemma feed_unfinished:
  assumes "hp_state p = Text_State" and "hp_buffer p = []" and "unmarked a" and "unmarked b"
  shows "heuristic_feed loads ids (a @ ''<|'' @ b) p =
    (if a = [] then (''<|'' @ b, [], p) else (a, [], p\<lparr>hp_buffer := ''<|'' @ b\<rparr>))"
proof -
  note q = unmarkedD [OF assms(3)] unmarkedD [OF assms(4)]
  have "strip_control_tokens (a @ ''<|'' @ b) = a @ ''<|'' @ b"
    using strip_skip [OF q(1), of "''<|'' @ b"] strip_unfinished [OF q(5,6)] by simp
  then show ?thesis
    using heuristic_feed_text [OF assms(1), of "a @ ''<|'' @ b" "a @ ''<|'' @ b"] assms(2) q bullet_marks
      split_unfinished [OF q(5,6), of a] by auto
qed

lemma feed_whole_token:
  assumes "hp_state p = Text_State" and "hp_buffer p = []" and "unmarked t"
    and "CHR ''|'' \<notin> set t" and "t \<noteq> []" and "length t \<le> 80"
  shows "heuristic_feed loads ids (''<|'' @ t @ ''|>'') p = ([], [], p)"
proof -
  have t: "\<forall>c \<in> set t. token_char c" using assms(4) unmarkedD(2) [OF assms(3)] by (auto simp: token_char_def)
  have "takeWhile token_char (t @ ''|>'') = t" "dropWhile token_char (t @ ''|>'') = ''|>''"
    using t by (simp_all add: token_char_def)
  then have "control_token (''<|'' @ t @ ''|>'') = Some []" using assms(5,6) by (simp add: control_token_def)
  then have "strip_control_tokens (''<|'' @ t @ ''|>'') = []" by simp
  then show ?thesis
    using heuristic_feed_text [OF assms(1), of "''<|'' @ t @ ''|>''" "[]"] assms(2)
    by (simp add: split_control_tail_def)
qed

lemma feed_token_end:
  assumes "hp_state p = Text_State" and "hp_buffer p = []" and "unmarked t"
  shows "heuristic_feed loads ids (t @ ''|>'') p = (t @ ''|>'', [], p)"
proof -
  note q = unmarkedD [OF assms(3)]
  have none: "CHR ''<'' \<notin> set (t @ ''|>'')" using q(1) by simp
  show ?thesis
    using heuristic_feed_text [OF assms(1), of "t @ ''|>''" "t @ ''|>''"] assms(2) q bullet_marks
      strip_plain [OF none] rfind_text_None [OF none] by (simp add: split_control_tail_def)
qed

end
