(* ===== verification/Stream_Ledger.thy ===== *)
theory Stream_Ledger
  imports Json
begin

text \<open>
  \<open>core/anthropic/streaming/ledger.py\<close>: the state of one assistant message while it is
  streamed to the client, and the server-sent events each step emits. An event is kept as its
  name and its data; \<open>format_sse_event\<close>, which only prints them, is left out. A method that
  yields events returns them as a list.
\<close>

section \<open>Events and state\<close>

record sse_event =
  event_name :: string
  event_data :: "(string, json) dict"

record tool_block_state =
  block_index :: int
  tb_tool_id :: string
  tb_name :: string
  tb_extra :: "(string, json) dict option"
  started :: bool
  task_arg_buffer :: string
  task_args_emitted :: bool
  pre_start_args :: string

record stream_block =
  sb_index :: int
  sb_type :: string
  sb_open :: bool
  sb_tool_id :: string
  sb_name :: string
  sb_parts :: "string list"
  sb_extra :: "(string, json) dict option"

record block_ledger =
  next_index :: int
  thinking_index :: int
  text_index :: int
  thinking_started :: bool
  text_started :: bool
  tool_states :: "(int, tool_block_state) dict"

record stream_ledger =
  message_id :: string
  ledger_model :: string
  input_tokens :: json
  blocks :: block_ledger
  text_parts :: "string list"
  thinking_parts :: "string list"
  open_stack :: "int list"
  content_blocks :: "(int, stream_block) dict"
  message_started :: bool
  message_stopped :: bool
  stop_reason :: "string option"

definition new_tool_state :: tool_block_state where
  "new_tool_state =
     \<lparr>block_index = -1, tb_tool_id = [], tb_name = [], tb_extra = None, started = False,
      task_arg_buffer = [], task_args_emitted = False, pre_start_args = []\<rparr>"

definition new_blocks :: block_ledger where
  "new_blocks =
     \<lparr>next_index = 0, thinking_index = -1, text_index = -1, thinking_started = False,
      text_started = False, tool_states = []\<rparr>"

definition new_ledger :: "string \<Rightarrow> string \<Rightarrow> json \<Rightarrow> stream_ledger" where
  "new_ledger mid mdl tokens =
     \<lparr>message_id = mid, ledger_model = mdl, input_tokens = tokens, blocks = new_blocks,
      text_parts = [], thinking_parts = [], open_stack = [], content_blocks = [],
      message_started = False, message_stopped = False, stop_reason = None\<rparr>"

definition block_content :: "stream_block \<Rightarrow> string" where
  "block_content b = concat (sb_parts b)"

section \<open>Block indexes and tool states\<close>

definition on_blocks :: "(block_ledger \<Rightarrow> block_ledger) \<Rightarrow> stream_ledger \<Rightarrow> stream_ledger" where
  "on_blocks f L = L\<lparr>blocks := f (blocks L)\<rparr>"

definition allocate_index :: "stream_ledger \<Rightarrow> int \<times> stream_ledger" where
  "allocate_index L =
     (next_index (blocks L), on_blocks (\<lambda>b. b\<lparr>next_index := next_index b + 1\<rparr>) L)"

definition reserve_index :: "int \<Rightarrow> block_ledger \<Rightarrow> block_ledger" where
  "reserve_index i b = b\<lparr>next_index := max (next_index b) (i + 1)\<rparr>"

definition ensure_tool_state :: "int \<Rightarrow> block_ledger \<Rightarrow> block_ledger" where
  "ensure_tool_state i b =
     (if dget (tool_states b) i = None then b\<lparr>tool_states := dset i new_tool_state (tool_states b)\<rparr>
      else b)"

definition on_tool :: "int \<Rightarrow> (tool_block_state \<Rightarrow> tool_block_state) \<Rightarrow> block_ledger \<Rightarrow> block_ledger" where
  "on_tool i f b = b\<lparr>tool_states := dmodify i f (tool_states b)\<rparr>"

definition set_stream_tool_id :: "int \<Rightarrow> string \<Rightarrow> block_ledger \<Rightarrow> block_ledger" where
  "set_stream_tool_id i tid b =
     (if tid = [] then b
      else on_tool i (\<lambda>s. s\<lparr>tb_tool_id := tid\<rparr>) (ensure_tool_state i b))"

definition set_tool_extra_content :: "int \<Rightarrow> (string, json) dict option \<Rightarrow> block_ledger \<Rightarrow> block_ledger" where
  "set_tool_extra_content i extra b =
     (if extra = None \<or> extra = Some [] then b
      else on_tool i (\<lambda>s. s\<lparr>tb_extra := extra\<rparr>) (ensure_tool_state i b))"

definition merge_registered_name :: "string \<Rightarrow> string \<Rightarrow> string" where
  "merge_registered_name prev name =
     (if prev = [] \<or> prefix prev name then name
      else if \<not> prefix name prev then prev @ name
      else prev)"

definition register_tool_name :: "int \<Rightarrow> string \<Rightarrow> block_ledger \<Rightarrow> block_ledger" where
  "register_tool_name i name b =
     (case dget (tool_states b) i of
        None \<Rightarrow> b\<lparr>tool_states := dset i (new_tool_state\<lparr>tb_name := name\<rparr>) (tool_states b)\<rparr>
      | Some s \<Rightarrow> on_tool i (\<lambda>s. s\<lparr>tb_name := merge_registered_name (tb_name s) name\<rparr>) b)"

text \<open>\<open>args_json["run_in_background"] = False\<close>, unless it is \<open>False\<close> already.\<close>

definition normalize_task_run_in_background :: "(string, json) dict \<Rightarrow> (string, json) dict" where
  "normalize_task_run_in_background args =
     (if jget args ''run_in_background'' \<noteq> JBool False
      then dset ''run_in_background'' (JBool False) args else args)"

text \<open>\<open>json.loads\<close> and \<open>json.dumps\<close> are arguments: nothing is assumed of them.\<close>

definition buffer_task_args ::
  "(string \<Rightarrow> json option) \<Rightarrow> int \<Rightarrow> string \<Rightarrow> block_ledger \<Rightarrow> (string, json) dict option \<times> block_ledger" where
  "buffer_task_args loads i args b =
     (case dget (tool_states b) i of
        None \<Rightarrow> (None, b)
      | Some s \<Rightarrow>
          if task_args_emitted s then (None, b)
          else
            (let buf = task_arg_buffer s @ args in
             case loads buf of
               Some (JObj obj) \<Rightarrow>
                 (Some (normalize_task_run_in_background obj),
                  on_tool i (\<lambda>s. s\<lparr>task_arg_buffer := [], task_args_emitted := True\<rparr>) b)
             | _ \<Rightarrow> (None, on_tool i (\<lambda>s. s\<lparr>task_arg_buffer := buf\<rparr>) b)))"

definition flush_output :: "(string \<Rightarrow> json option) \<Rightarrow> (json \<Rightarrow> string) \<Rightarrow> string \<Rightarrow> string" where
  "flush_output loads dumps buf =
     (case loads buf of
        Some (JObj obj) \<Rightarrow> dumps (JObj (normalize_task_run_in_background obj))
      | _ \<Rightarrow> ''{}'')"

definition flush_task_arg_buffers ::
  "(string \<Rightarrow> json option) \<Rightarrow> (json \<Rightarrow> string) \<Rightarrow> block_ledger \<Rightarrow> (int \<times> string) list \<times> block_ledger" where
  "flush_task_arg_buffers loads dumps b =
     (let pending = filter (\<lambda>(i, s). task_arg_buffer s \<noteq> [] \<and> \<not> task_args_emitted s) (tool_states b) in
      (map (\<lambda>(i, s). (i, flush_output loads dumps (task_arg_buffer s))) pending,
       fold (\<lambda>(i, _). on_tool i (\<lambda>s. s\<lparr>task_args_emitted := True, task_arg_buffer := []\<rparr>)) pending b))"

section \<open>Recording blocks\<close>

definition on_block :: "int \<Rightarrow> (stream_block \<Rightarrow> stream_block) \<Rightarrow> stream_ledger \<Rightarrow> stream_ledger" where
  "on_block i f L = L\<lparr>content_blocks := dmodify i f (content_blocks L)\<rparr>"

definition json_text :: "json \<Rightarrow> string" where
  "json_text j = (case j of JStr s \<Rightarrow> s | _ \<Rightarrow> [])"

definition json_dict :: "json \<Rightarrow> (string, json) dict option" where
  "json_dict j = (case j of JObj d \<Rightarrow> Some d | _ \<Rightarrow> None)"

definition record_block_start :: "(json \<Rightarrow> string) \<Rightarrow> int \<Rightarrow> (string, json) dict \<Rightarrow> stream_ledger \<Rightarrow> stream_ledger" where
  "record_block_start rp i block L =
     (let L = on_blocks (reserve_index i) L;
          bt = (case dget block ''type'' of None \<Rightarrow> [] | Some j \<Rightarrow> py_str rp j);
          state = \<lparr>sb_index = i, sb_type = bt, sb_open = True, sb_tool_id = [], sb_name = [],
                   sb_parts = [], sb_extra = None\<rparr>;
          text = json_text (jget block ''text'');
          thinking = json_text (jget block ''thinking'');
          (state, L) =
            (if bt = ''tool_use'' then
               (state\<lparr>sb_tool_id := json_text (jget block ''id''),
                      sb_name := json_text (jget block ''name''),
                      sb_extra := json_dict (jget block ''extra_content'')\<rparr>, L)
             else if bt = ''text'' then
               (let L = on_blocks (\<lambda>b. b\<lparr>text_index := i, text_started := True\<rparr>) L in
                if text = [] then (state, L)
                else (state\<lparr>sb_parts := [text]\<rparr>, L\<lparr>text_parts := text_parts L @ [text]\<rparr>))
             else if bt = ''thinking'' then
               (let L = on_blocks (\<lambda>b. b\<lparr>thinking_index := i, thinking_started := True\<rparr>) L in
                if thinking = [] then (state, L)
                else (state\<lparr>sb_parts := [thinking]\<rparr>,
                      L\<lparr>thinking_parts := thinking_parts L @ [thinking]\<rparr>))
             else (state, L))
      in L\<lparr>content_blocks := dset i state (content_blocks L), open_stack := open_stack L @ [i]\<rparr>)"

text \<open>Appending the text under a key of the delta, when that is a string.\<close>

definition record_part ::
  "int \<Rightarrow> (string, json) dict \<Rightarrow> string \<Rightarrow> (string \<Rightarrow> stream_ledger \<Rightarrow> stream_ledger) \<Rightarrow> stream_ledger \<Rightarrow> stream_ledger" where
  "record_part i delta key also L =
     (case jget delta key of
        JStr s \<Rightarrow> also s (on_block i (\<lambda>b. b\<lparr>sb_parts := sb_parts b @ [s]\<rparr>) L)
      | _ \<Rightarrow> L)"

definition record_block_delta :: "int \<Rightarrow> (string, json) dict \<Rightarrow> stream_ledger \<Rightarrow> stream_ledger" where
  "record_block_delta i delta L =
     (case dget (content_blocks L) i of
        None \<Rightarrow> L
      | Some b \<Rightarrow>
          if sb_type b = ''text'' then
            record_part i delta ''text'' (\<lambda>s L. L\<lparr>text_parts := text_parts L @ [s]\<rparr>) L
          else if sb_type b = ''thinking'' then
            record_part i delta ''thinking'' (\<lambda>s L. L\<lparr>thinking_parts := thinking_parts L @ [s]\<rparr>) L
          else if sb_type b = ''tool_use'' then record_part i delta ''partial_json'' (\<lambda>s L. L) L
          else L)"

definition clear_active_content_block :: "stream_block \<Rightarrow> block_ledger \<Rightarrow> block_ledger" where
  "clear_active_content_block s b =
     (if sb_type s = ''text'' \<and> text_index b = sb_index s then b\<lparr>text_started := False\<rparr>
      else if sb_type s = ''thinking'' \<and> thinking_index b = sb_index s then b\<lparr>thinking_started := False\<rparr>
      else b)"

definition close_block_state :: "int \<Rightarrow> stream_ledger \<Rightarrow> stream_ledger" where
  "close_block_state i L =
     (case dget (content_blocks L) i of
        None \<Rightarrow> L
      | Some s \<Rightarrow>
          on_blocks (clear_active_content_block s) (on_block i (\<lambda>b. b\<lparr>sb_open := False\<rparr>) L))"

definition record_block_stop :: "int \<Rightarrow> stream_ledger \<Rightarrow> stream_ledger" where
  "record_block_stop i L =
     close_block_state i
       (if open_stack L \<noteq> [] \<and> last (open_stack L) = i then L\<lparr>open_stack := butlast (open_stack L)\<rparr>
        else L\<lparr>open_stack := remove1 i (open_stack L)\<rparr>)"

section \<open>Emitting events\<close>

type_synonym emits = "stream_ledger \<Rightarrow> sse_event list \<times> stream_ledger"

definition event :: "string \<Rightarrow> (string, json) dict \<Rightarrow> sse_event" where
  "event name d = \<lparr>event_name = name, event_data = (''type'', JStr name) # d\<rparr>"

text \<open>One emission after another, and no emission.\<close>

definition then_emit :: "emits \<Rightarrow> emits \<Rightarrow> emits" where
  "then_emit f g L = (case f L of (es, L1) \<Rightarrow> (case g L1 of (fs, L2) \<Rightarrow> (es @ fs, L2)))"

definition emit_nothing :: emits where
  "emit_nothing L = ([], L)"

definition emit_when :: "(stream_ledger \<Rightarrow> bool) \<Rightarrow> emits \<Rightarrow> emits" where
  "emit_when P f L = (if P L then f L else ([], L))"

definition safe_usage_int :: "json \<Rightarrow> json" where
  "safe_usage_int j = (case j of JInt i \<Rightarrow> JInt i | JBool b \<Rightarrow> JBool b | _ \<Rightarrow> JInt 0)"

definition is_json_int :: "json \<Rightarrow> bool" where
  "is_json_int j = (case j of JInt _ \<Rightarrow> True | JBool _ \<Rightarrow> True | _ \<Rightarrow> False)"

definition message_start :: emits where
  "message_start L =
     ([event ''message_start''
         [(''message'', JObj
            [(''id'', JStr (message_id L)), (''type'', JStr ''message''), (''role'', JStr ''assistant''),
             (''content'', JArr []), (''model'', JStr (ledger_model L)), (''stop_reason'', JNull),
             (''stop_sequence'', JNull),
             (''usage'', JObj [(''input_tokens'', safe_usage_int (input_tokens L)),
                               (''output_tokens'', JInt 1)])])]],
      L\<lparr>message_started := True\<rparr>)"

definition message_delta ::
  "string \<Rightarrow> json \<Rightarrow> json \<Rightarrow> (string, json) dict \<Rightarrow> emits" where
  "message_delta reason output input_override usage_fields L =
     (let input = safe_usage_int (if input_override = JNull then input_tokens L else input_override);
          usage = fold (\<lambda>(k, v) d. dset k v d) (filter (\<lambda>(k, v). is_json_int v) usage_fields)
            [(''input_tokens'', input), (''output_tokens'', safe_usage_int output)]
      in ([event ''message_delta''
             [(''delta'', JObj [(''stop_reason'', JStr reason), (''stop_sequence'', JNull)]),
              (''usage'', JObj usage)]],
          L\<lparr>stop_reason := Some reason\<rparr>))"

definition message_stop :: emits where
  "message_stop L = ([event ''message_stop'' []], L\<lparr>message_stopped := True\<rparr>)"

text \<open>\<open>kwargs.get(key, default)\<close>.\<close>

definition kwarg :: "(string, json) dict \<Rightarrow> string \<Rightarrow> json \<Rightarrow> json" where
  "kwarg kw k d = (case dget kw k of None \<Rightarrow> d | Some v \<Rightarrow> v)"

definition content_block_fields :: "string \<Rightarrow> (string, json) dict \<Rightarrow> (string, json) dict" where
  "content_block_fields bt kw =
     (''type'', JStr bt) #
     (if bt = ''thinking'' then [(''thinking'', kwarg kw ''thinking'' (JStr []))]
      else if bt = ''text'' then [(''text'', kwarg kw ''text'' (JStr []))]
      else if bt = ''tool_use'' then
        [(''id'', kwarg kw ''id'' (JStr [])), (''name'', kwarg kw ''name'' (JStr [])),
         (''input'', kwarg kw ''input'' (JObj []))] @
        (case kwarg kw ''extra_content'' JNull of
           JObj extra \<Rightarrow> if extra = [] then [] else [(''extra_content'', JObj extra)]
         | _ \<Rightarrow> [])
      else if bt = ''redacted_thinking'' then
        (case kwarg kw ''data'' JNull of JStr s \<Rightarrow> [(''data'', JStr s)] | _ \<Rightarrow> [])
      else [])"

definition content_block_start :: "(json \<Rightarrow> string) \<Rightarrow> int \<Rightarrow> string \<Rightarrow> (string, json) dict \<Rightarrow> emits" where
  "content_block_start rp i bt kw L =
     (let block = content_block_fields bt kw in
      ([event ''content_block_start'' [(''index'', JInt i), (''content_block'', JObj block)]],
       record_block_start rp i block L))"

definition delta_fields :: "string \<Rightarrow> string \<Rightarrow> (string, json) dict" where
  "delta_fields dt content =
     (''type'', JStr dt) #
     (if dt = ''thinking_delta'' then [(''thinking'', JStr content)]
      else if dt = ''signature_delta'' then [(''signature'', JStr content)]
      else if dt = ''text_delta'' then [(''text'', JStr content)]
      else if dt = ''input_json_delta'' then [(''partial_json'', JStr content)]
      else [])"

definition content_block_delta :: "int \<Rightarrow> string \<Rightarrow> string \<Rightarrow> emits" where
  "content_block_delta i dt content L =
     ([event ''content_block_delta'' [(''index'', JInt i), (''delta'', JObj (delta_fields dt content))]],
      record_block_delta i (delta_fields dt content) L)"

definition content_block_stop :: "int \<Rightarrow> emits" where
  "content_block_stop i L =
     ([event ''content_block_stop'' [(''index'', JInt i)]], record_block_stop i L)"

definition start_thinking_block :: "(json \<Rightarrow> string) \<Rightarrow> emits" where
  "start_thinking_block rp L =
     (case allocate_index L of (i, L) \<Rightarrow>
        content_block_start rp i ''thinking'' []
          (on_blocks (\<lambda>b. b\<lparr>thinking_index := i, thinking_started := True\<rparr>) L))"

definition emit_thinking_delta :: "string \<Rightarrow> emits" where
  "emit_thinking_delta s L = content_block_delta (thinking_index (blocks L)) ''thinking_delta'' s L"

definition stop_thinking_block :: emits where
  "stop_thinking_block L =
     content_block_stop (thinking_index (blocks L)) (on_blocks (\<lambda>b. b\<lparr>thinking_started := False\<rparr>) L)"

definition start_text_block :: "(json \<Rightarrow> string) \<Rightarrow> emits" where
  "start_text_block rp L =
     (case allocate_index L of (i, L) \<Rightarrow>
        content_block_start rp i ''text'' []
          (on_blocks (\<lambda>b. b\<lparr>text_index := i, text_started := True\<rparr>) L))"

definition emit_text_delta :: "string \<Rightarrow> emits" where
  "emit_text_delta s L = content_block_delta (text_index (blocks L)) ''text_delta'' s L"

definition stop_text_block :: emits where
  "stop_text_block L =
     content_block_stop (text_index (blocks L)) (on_blocks (\<lambda>b. b\<lparr>text_started := False\<rparr>) L)"

definition start_tool_update ::
  "int \<Rightarrow> int \<Rightarrow> string \<Rightarrow> string \<Rightarrow> (string, json) dict option \<Rightarrow> block_ledger \<Rightarrow> block_ledger" where
  "start_tool_update ti i tid name extra b =
     (if dget (tool_states b) ti \<noteq> None then
        on_tool ti (\<lambda>s. (s\<lparr>block_index := i, tb_tool_id := tid, tb_name := name, started := True\<rparr>)
          \<lparr>tb_extra := if extra = None \<or> extra = Some [] then tb_extra s else extra\<rparr>) b
      else b\<lparr>tool_states := dset ti
        (new_tool_state\<lparr>block_index := i, tb_tool_id := tid, tb_name := name,
                        tb_extra := extra, started := True\<rparr>) (tool_states b)\<rparr>)"

definition start_tool_block ::
  "(json \<Rightarrow> string) \<Rightarrow> int \<Rightarrow> string \<Rightarrow> string \<Rightarrow> (string, json) dict option \<Rightarrow> emits" where
  "start_tool_block rp ti tid name extra L =
     (case allocate_index L of (i, L) \<Rightarrow>
        content_block_start rp i ''tool_use''
          [(''id'', JStr tid), (''name'', JStr name),
           (''extra_content'', case extra of None \<Rightarrow> JNull | Some d \<Rightarrow> JObj d)]
          (on_blocks (start_tool_update ti i tid name extra) L))"

text \<open>\<open>tool_states[tool_index]\<close> raises on an unknown index: the value is then \<open>None\<close>.\<close>

definition emit_tool_delta :: "int \<Rightarrow> string \<Rightarrow> stream_ledger \<Rightarrow> (sse_event list \<times> stream_ledger) option" where
  "emit_tool_delta ti s L =
     (case dget (tool_states (blocks L)) ti of
        None \<Rightarrow> None
      | Some st \<Rightarrow> Some (content_block_delta (block_index st) ''input_json_delta'' s L))"

definition stop_tool_block :: "int \<Rightarrow> stream_ledger \<Rightarrow> (sse_event list \<times> stream_ledger) option" where
  "stop_tool_block ti L =
     (case dget (tool_states (blocks L)) ti of
        None \<Rightarrow> None
      | Some st \<Rightarrow> Some (content_block_stop (block_index st) L))"

definition ensure_thinking_block :: "(json \<Rightarrow> string) \<Rightarrow> emits" where
  "ensure_thinking_block rp =
     then_emit (emit_when (\<lambda>L. text_started (blocks L)) stop_text_block)
               (emit_when (\<lambda>L. \<not> thinking_started (blocks L)) (start_thinking_block rp))"

definition ensure_text_block :: "(json \<Rightarrow> string) \<Rightarrow> emits" where
  "ensure_text_block rp =
     then_emit (emit_when (\<lambda>L. thinking_started (blocks L)) stop_thinking_block)
               (emit_when (\<lambda>L. \<not> text_started (blocks L)) (start_text_block rp))"

definition close_content_blocks :: emits where
  "close_content_blocks =
     then_emit (emit_when (\<lambda>L. thinking_started (blocks L)) stop_thinking_block)
               (emit_when (\<lambda>L. text_started (blocks L)) stop_text_block)"

text \<open>The loop runs over a copy of the tool states; each is looked up again when it is stopped.\<close>

fun stop_tools :: "(int \<times> tool_block_state) list \<Rightarrow> emits" where
  "stop_tools [] = emit_nothing"
| "stop_tools ((ti, s) # rest) =
     then_emit
       (\<lambda>L. if started s then (case stop_tool_block ti L of None \<Rightarrow> ([], L) | Some r \<Rightarrow> r) else ([], L))
       (stop_tools rest)"

definition close_all_blocks :: emits where
  "close_all_blocks =
     then_emit close_content_blocks (\<lambda>L. stop_tools (tool_states (blocks L)) L)"

fun close_from :: "int list \<Rightarrow> emits" where
  "close_from [] L = ([], L)"
| "close_from (i # rest) L =
     (let (es, L) = close_from rest (close_block_state i L)
      in (event ''content_block_stop'' [(''index'', JInt i)] # es, L))"

text \<open>The loop pops the open blocks from the end; none is opened while it runs.\<close>

definition close_unclosed_blocks :: emits where
  "close_unclosed_blocks L = close_from (rev (open_stack L)) (L\<lparr>open_stack := []\<rparr>)"

section \<open>Reading the ledger\<close>

definition tool_blocks :: "stream_ledger \<Rightarrow> stream_block list" where
  "tool_blocks L = filter (\<lambda>b. sb_type b = ''tool_use'') (map snd (content_blocks L))"

definition tool_block_for_tool_index :: "int \<Rightarrow> stream_ledger \<Rightarrow> stream_block option" where
  "tool_block_for_tool_index ti L =
     (case dget (tool_states (blocks L)) ti of
        None \<Rightarrow> None
      | Some s \<Rightarrow>
          if block_index s < 0 then None
          else (case dget (content_blocks L) (block_index s) of
                  None \<Rightarrow> None
                | Some b \<Rightarrow> if sb_type b \<noteq> ''tool_use'' then None else Some b))"

definition has_emitted_tool_block :: "stream_ledger \<Rightarrow> bool" where
  "has_emitted_tool_block L \<longleftrightarrow> tool_blocks L \<noteq> []"

definition has_content_block :: "stream_ledger \<Rightarrow> bool" where
  "has_content_block L \<longleftrightarrow> content_blocks L \<noteq> []"

definition final_stop_reason :: "string \<Rightarrow> stream_ledger \<Rightarrow> string" where
  "final_stop_reason fallback L = (if has_emitted_tool_block L then ''tool_use'' else fallback)"

definition accumulated_text :: "stream_ledger \<Rightarrow> string" where
  "accumulated_text L = concat (text_parts L)"

definition accumulated_reasoning :: "stream_ledger \<Rightarrow> string" where
  "accumulated_reasoning L = concat (thinking_parts L)"

text \<open>The token estimate of a text is an argument: the estimator uses a tokenizer library.\<close>

definition estimate_output_tokens :: "(string \<Rightarrow> nat) \<Rightarrow> stream_ledger \<Rightarrow> nat" where
  "estimate_output_tokens est L =
     (let tools = tool_blocks L;
          tool_tokens = sum_list (map (\<lambda>b. est (sb_name b) + est (block_content b) + 15) tools);
          block_count = (if accumulated_reasoning L \<noteq> [] then 1 else 0) +
            (if accumulated_text L \<noteq> [] then 1 else 0) + length tools
      in est (accumulated_text L) + est (accumulated_reasoning L) + tool_tokens + block_count * 4)"

definition can_salvage_tool_use :: "(string \<Rightarrow> string \<Rightarrow> bool) \<Rightarrow> stream_ledger \<Rightarrow> bool" where
  "can_salvage_tool_use complete L \<longleftrightarrow>
     tool_blocks L \<noteq> [] \<and>
     (\<forall>b \<in> set (tool_blocks L). sb_tool_id b \<noteq> [] \<and> sb_name b \<noteq> [] \<and>
        complete (block_content b) (sb_name b))"

end
