(* ===== verification/Stream_Contract.thy ===== *)
theory Stream_Contract
  imports Stream_Ledger
begin

text \<open>
  \<open>core/anthropic/stream_contracts.py\<close>: what a client may rely on in a stream of events, as
  an executable check, and how the text and the reasoning of a stream are read back. A failed
  \<open>assert\<close> is \<open>None\<close>.
\<close>

definition event_index :: "sse_event \<Rightarrow> int option" where
  "event_index e =
     (case jget (event_data e) ''index'' of
        JInt i \<Rightarrow> Some i | JBool b \<Rightarrow> Some (if b then 1 else 0) | _ \<Rightarrow> None)"

definition no_delta_kinds :: "string list" where
  "no_delta_kinds =
     [''server_tool_use'', ''web_search_tool_result'', ''web_fetch_tool_result'', ''text_eager'',
      ''redacted_thinking'']"

definition allowed_start_types :: "string list" where
  "allowed_start_types =
     [''text'', ''thinking'', ''tool_use'', ''redacted_thinking'', ''server_tool_use'',
      ''web_search_tool_result'', ''web_fetch_tool_result'']"

text \<open>\<open>event.data.get(key, {})\<close> when that is an object, and \<open>str(obj.get(key, ""))\<close>.\<close>

definition object_field :: "sse_event \<Rightarrow> string \<Rightarrow> (string, json) dict option" where
  "object_field e k =
     (case dget (event_data e) k of None \<Rightarrow> Some [] | Some (JObj d) \<Rightarrow> Some d | Some _ \<Rightarrow> None)"

definition text_field :: "(json \<Rightarrow> string) \<Rightarrow> (string, json) dict \<Rightarrow> string \<Rightarrow> string" where
  "text_field rp d k = (case dget d k of None \<Rightarrow> [] | Some j \<Rightarrow> py_str rp j)"

type_synonym contract_state = "(int, string) dict \<times> int set"

definition contract_start :: "(json \<Rightarrow> string) \<Rightarrow> sse_event \<Rightarrow> contract_state \<Rightarrow> contract_state option" where
  "contract_start rp e st =
     (case (event_index e, object_field e ''content_block'', st) of
        (Some i, Some block, (opened, seen)) \<Rightarrow>
          (let bt = text_field rp block ''type'' in
           if bt \<notin> set allowed_start_types \<or> dget opened i \<noteq> None \<or> i \<in> seen then None
           else Some (dset i (if bt = ''text'' \<and> py_strip (text_field rp block ''text'') \<noteq> []
                              then ''text_eager'' else bt) opened, insert i seen))
      | _ \<Rightarrow> None)"

definition contract_delta :: "(json \<Rightarrow> string) \<Rightarrow> sse_event \<Rightarrow> contract_state \<Rightarrow> contract_state option" where
  "contract_delta rp e st =
     (case (event_index e, st) of
        (Some i, (opened, seen)) \<Rightarrow>
          (case (dget opened i, object_field e ''delta'') of
             (Some kind, Some delta) \<Rightarrow>
               (let dt = text_field rp delta ''type'' in
                if kind \<in> set no_delta_kinds then None
                else if kind = ''thinking'' then
                  (if dt = ''thinking_delta'' \<or> dt = ''signature_delta'' then Some st else None)
                else if kind = ''text'' \<and> dt = ''text_delta'' then Some st
                else if kind = ''tool_use'' \<and> dt = ''input_json_delta'' then Some st
                else None)
           | _ \<Rightarrow> None)
      | _ \<Rightarrow> None)"

definition contract_stop :: "sse_event \<Rightarrow> contract_state \<Rightarrow> contract_state option" where
  "contract_stop e st =
     (case (event_index e, st) of
        (Some i, (opened, seen)) \<Rightarrow>
          if dget opened i = None then None else Some (dpop i opened, seen)
      | _ \<Rightarrow> None)"

definition contract_step ::
  "(json \<Rightarrow> string) \<Rightarrow> bool \<Rightarrow> sse_event \<Rightarrow> contract_state \<Rightarrow> contract_state option" where
  "contract_step rp allow_error e st =
     (if event_name e = ''error'' \<and> \<not> allow_error then None
      else if event_name e = ''content_block_start'' then contract_start rp e st
      else if event_name e = ''content_block_delta'' then contract_delta rp e st
      else if event_name e = ''content_block_stop'' then contract_stop e st
      else Some st)"

fun contract_run ::
  "(json \<Rightarrow> string) \<Rightarrow> bool \<Rightarrow> sse_event list \<Rightarrow> contract_state \<Rightarrow> contract_state option" where
  "contract_run rp allow_error [] st = Some st"
| "contract_run rp allow_error (e # es) st =
     (case contract_step rp allow_error e st of
        None \<Rightarrow> None
      | Some st \<Rightarrow> contract_run rp allow_error es st)"

definition stream_contract :: "(json \<Rightarrow> string) \<Rightarrow> bool \<Rightarrow> sse_event list \<Rightarrow> bool" where
  "stream_contract rp allow_error es \<longleftrightarrow>
     es \<noteq> [] \<and> ''message_start'' \<in> set (map event_name es) \<and>
     (event_name (last es) = ''message_stop'' \<or> allow_error \<and> event_name (last es) = ''error'') \<and>
     (case contract_run rp allow_error es ([], {}) of
        None \<Rightarrow> False
      | Some (opened, seen) \<Rightarrow> opened = [] \<and> seen \<noteq> {})"

section \<open>Reading a stream back\<close>

definition typed_field :: "sse_event \<Rightarrow> string \<Rightarrow> string \<Rightarrow> (string, json) dict option" where
  "typed_field e k t =
     (case object_field e k of
        Some d \<Rightarrow> if jget d ''type'' = JStr t then Some d else None
      | None \<Rightarrow> None)"

definition event_text :: "(json \<Rightarrow> string) \<Rightarrow> sse_event \<Rightarrow> string" where
  "event_text rp e =
     (if event_name e = ''content_block_start'' then
        (case typed_field e ''content_block'' ''text'' of Some d \<Rightarrow> text_field rp d ''text'' | None \<Rightarrow> [])
      else []) @
     (case typed_field e ''delta'' ''text_delta'' of Some d \<Rightarrow> text_field rp d ''text'' | None \<Rightarrow> [])"

definition text_content :: "(json \<Rightarrow> string) \<Rightarrow> sse_event list \<Rightarrow> string" where
  "text_content rp es = concat (map (event_text rp) es)"

definition event_thinking :: "(json \<Rightarrow> string) \<Rightarrow> sse_event \<Rightarrow> string" where
  "event_thinking rp e =
     (case typed_field e ''delta'' ''thinking_delta'' of Some d \<Rightarrow> text_field rp d ''thinking'' | None \<Rightarrow> [])"

definition thinking_content :: "(json \<Rightarrow> string) \<Rightarrow> sse_event list \<Rightarrow> string" where
  "thinking_content rp es = concat (map (event_thinking rp) es)"

definition has_tool_use :: "sse_event list \<Rightarrow> bool" where
  "has_tool_use es \<longleftrightarrow> (\<exists>e \<in> set es. typed_field e ''content_block'' ''tool_use'' \<noteq> None)"

lemma contract_run_append:
  "contract_run rp err (es @ fs) st =
     (case contract_run rp err es st of None \<Rightarrow> None | Some st' \<Rightarrow> contract_run rp err fs st')"
  by (induction es arbitrary: st) (auto split: option.split)

lemma text_content_append [simp]: "text_content rp (es @ fs) = text_content rp es @ text_content rp fs"
  by (simp add: text_content_def)

lemma thinking_content_append [simp]:
  "thinking_content rp (es @ fs) = thinking_content rp es @ thinking_content rp fs"
  by (simp add: thinking_content_def)

end
