(* ===== verification/Ledger_Invariant.thy ===== *)
theory Ledger_Invariant
  imports Stream_Contract
begin

text \<open>
  The ledger and the stream contract move together: the blocks on the ledger's stack are the
  blocks the contract holds open, and every event a ledger method emits is one the contract
  accepts next.
\<close>

section \<open>Fields after a start, a delta and a stop\<close>

lemma on_blocks_frame [frame_simps]:
  "open_stack (on_blocks f L) = open_stack L" "content_blocks (on_blocks f L) = content_blocks L"
  "text_parts (on_blocks f L) = text_parts L" "thinking_parts (on_blocks f L) = thinking_parts L"
  "blocks (on_blocks f L) = f (blocks L)"
  by (simp_all add: on_blocks_def)

lemma on_block_frame [frame_simps]:
  "open_stack (on_block i f L) = open_stack L" "blocks (on_block i f L) = blocks L"
  "text_parts (on_block i f L) = text_parts L" "thinking_parts (on_block i f L) = thinking_parts L"
  "content_blocks (on_block i f L) = dmodify i f (content_blocks L)"
  by (simp_all add: on_block_def)

text \<open>The block types this ledger opens.\<close>

definition own_types :: "string set" where
  "own_types = {''text'', ''thinking'', ''tool_use'', ''redacted_thinking''}"

lemma own_types_allowed: "bt \<in> own_types \<Longrightarrow> bt \<in> set allowed_start_types"
  by (auto simp: own_types_def allowed_start_types_def)

text \<open>A block opened without initial text.\<close>

definition plain_kwargs :: "(string, json) dict \<Rightarrow> bool" where
  "plain_kwargs kw \<longleftrightarrow> dget kw ''text'' = None \<and> dget kw ''thinking'' = None"

lemma start_block:
  assumes bt: "bt \<in> own_types" and kw: "plain_kwargs kw"
  shows "\<exists>b. sb_type b = bt \<and> sb_index b = i \<and>
    record_block_start rp i (content_block_fields bt kw) L =
      (on_blocks (\<lambda>b. if bt = ''text'' then b\<lparr>text_index := i, text_started := True\<rparr>
                       else if bt = ''thinking'' then b\<lparr>thinking_index := i, thinking_started := True\<rparr>
                       else b) (on_blocks (reserve_index i) L))
      \<lparr>content_blocks := dset i b (content_blocks L), open_stack := open_stack L @ [i]\<rparr>"
proof -
  have "kwarg kw ''text'' (JStr []) = JStr []" "kwarg kw ''thinking'' (JStr []) = JStr []"
    using kw by (simp_all add: plain_kwargs_def kwarg_def)
  note k = this
  have id: "on_blocks (\<lambda>b. b) M = M" for M by (simp add: on_blocks_def)
  consider "bt = ''text''" | "bt = ''thinking''" | "bt = ''tool_use''" | "bt = ''redacted_thinking''"
    using bt by (auto simp: own_types_def)
  then show ?thesis
  proof cases
    case 1
    then show ?thesis
      by (intro exI [of _ "\<lparr>sb_index = i, sb_type = ''text'', sb_open = True, sb_tool_id = [], sb_name = [],
             sb_parts = [], sb_extra = None\<rparr>"])
        (simp add: record_block_start_def content_block_fields_def Let_def jget_def json_text_def k frame_simps)
  next
    case 2
    then show ?thesis
      by (intro exI [of _ "\<lparr>sb_index = i, sb_type = ''thinking'', sb_open = True, sb_tool_id = [], sb_name = [],
             sb_parts = [], sb_extra = None\<rparr>"])
        (simp add: record_block_start_def content_block_fields_def Let_def jget_def json_text_def k frame_simps)
  next
    case 3
    let ?f = "content_block_fields ''tool_use'' kw"
    have ty: "dget ?f ''type'' = Some (JStr ''tool_use'')" by (simp add: content_block_fields_def)
    from 3 show ?thesis
      by (intro exI [of _ "\<lparr>sb_index = i, sb_type = ''tool_use'', sb_open = True,
             sb_tool_id = json_text (jget ?f ''id''), sb_name = json_text (jget ?f ''name''),
             sb_parts = [], sb_extra = json_dict (jget ?f ''extra_content'')\<rparr>"])
        (simp add: record_block_start_def Let_def ty id frame_simps)
  next
    case 4
    let ?f = "content_block_fields ''redacted_thinking'' kw"
    have ty: "dget ?f ''type'' = Some (JStr ''redacted_thinking'')" by (simp add: content_block_fields_def)
    from 4 show ?thesis
      by (intro exI [of _ "\<lparr>sb_index = i, sb_type = ''redacted_thinking'', sb_open = True,
             sb_tool_id = [], sb_name = [], sb_parts = [], sb_extra = None\<rparr>"])
        (simp add: record_block_start_def Let_def ty id frame_simps)
  qed
qed

text \<open>The deltas a block of each type takes.\<close>

definition delta_for :: "string \<Rightarrow> string \<Rightarrow> bool" where
  "delta_for bt dt \<longleftrightarrow>
     bt = ''text'' \<and> dt = ''text_delta'' \<or> bt = ''thinking'' \<and> dt = ''thinking_delta'' \<or>
     bt = ''tool_use'' \<and> dt = ''input_json_delta''"

lemma delta_block:
  assumes b: "dget (content_blocks L) i = Some b" and dt: "delta_for (sb_type b) dt"
  shows "record_block_delta i (delta_fields dt s) L =
    (on_block i (\<lambda>b. b\<lparr>sb_parts := sb_parts b @ [s]\<rparr>) L)
      \<lparr>text_parts := text_parts L @ (if sb_type b = ''text'' then [s] else []),
       thinking_parts := thinking_parts L @ (if sb_type b = ''thinking'' then [s] else [])\<rparr>"
proof -
  consider "sb_type b = ''text''" "dt = ''text_delta''" | "sb_type b = ''thinking''" "dt = ''thinking_delta''"
    | "sb_type b = ''tool_use''" "dt = ''input_json_delta''" using dt by (auto simp: delta_for_def)
  then show ?thesis
    by cases (simp_all add: record_block_delta_def record_part_def delta_fields_def jget_def b on_block_def)
qed

lemma remove_last: "distinct xs \<Longrightarrow> xs \<noteq> [] \<Longrightarrow> last xs = x \<Longrightarrow> butlast xs = remove1 x xs"
  by (induction xs rule: rev_induct) (auto simp: remove1_append)

lemma stop_block:
  assumes "distinct (open_stack L)"
  shows "open_stack (record_block_stop i L) = remove1 i (open_stack L)"
    "content_blocks (record_block_stop i L) = dmodify i (\<lambda>b. b\<lparr>sb_open := False\<rparr>) (content_blocks L)"
    "text_parts (record_block_stop i L) = text_parts L"
    "thinking_parts (record_block_stop i L) = thinking_parts L"
    "blocks (record_block_stop i L) =
      (case dget (content_blocks L) i of None \<Rightarrow> blocks L | Some s \<Rightarrow> clear_active_content_block s (blocks L))"
proof -
  have absent: "dmodify i f d = d" if "dget d i = None" for f and d :: "(int, stream_block) dict"
    using that by (induction d) (auto simp: dmodify_def split: if_splits)
  show "open_stack (record_block_stop i L) = remove1 i (open_stack L)"
    using remove_last [OF assms] by (auto simp: record_block_stop_def close_block_state_def frame_simps split: option.split)
  show "content_blocks (record_block_stop i L) = dmodify i (\<lambda>b. b\<lparr>sb_open := False\<rparr>) (content_blocks L)"
    by (auto simp: record_block_stop_def close_block_state_def frame_simps absent split: option.split)
  show "text_parts (record_block_stop i L) = text_parts L"
    "thinking_parts (record_block_stop i L) = thinking_parts L"
    "blocks (record_block_stop i L) =
      (case dget (content_blocks L) i of None \<Rightarrow> blocks L | Some s \<Rightarrow> clear_active_content_block s (blocks L))"
    by (simp_all add: record_block_stop_def close_block_state_def frame_simps split: option.split)
qed

text \<open>Whether a tool was emitted depends only on the types of the blocks.\<close>

lemma emitted_tool_types:
  "has_emitted_tool_block L \<longleftrightarrow> ''tool_use'' \<in> set (map (\<lambda>(i, b). sb_type b) (content_blocks L))"
  by (force simp: has_emitted_tool_block_def tool_blocks_def filter_empty_conv)

lemma types_dmodify:
  assumes "\<And>b. sb_type (f b) = sb_type b"
  shows "map (\<lambda>(i, b). sb_type b) (dmodify k f d) = map (\<lambda>(i, b). sb_type b) d"
proof (induction d)
  case (Cons p d)
  then show ?case using assms by (cases p) (simp add: dmodify_def)
qed (simp add: dmodify_def)

section \<open>Ledger and contract\<close>

definition kind_of :: "stream_ledger \<Rightarrow> int \<Rightarrow> string" where
  "kind_of L i = (case dget (content_blocks L) i of None \<Rightarrow> [] | Some b \<Rightarrow> sb_type b)"

definition tracks :: "contract_state \<Rightarrow> stream_ledger \<Rightarrow> bool" where
  "tracks st L \<longleftrightarrow>
     (case st of (opened, seen) \<Rightarrow>
        distinct (dkeys opened) \<and> distinct (open_stack L) \<and> seen = set (dkeys (content_blocks L)) \<and>
        set (open_stack L) \<subseteq> seen \<and>
        (\<forall>i. dget opened i = (if i \<in> set (open_stack L) then Some (kind_of L i) else None)) \<and>
        (\<forall>i b. dget (content_blocks L) i = Some b \<longrightarrow> sb_index b = i))"

lemma tracksD:
  assumes "tracks (opened, seen) L"
  shows "distinct (dkeys opened)" "distinct (open_stack L)" "seen = set (dkeys (content_blocks L))"
    "set (open_stack L) \<subseteq> set (dkeys (content_blocks L))"
    "dget opened i = (if i \<in> set (open_stack L) then Some (kind_of L i) else None)"
    "dget (content_blocks L) i = Some b \<Longrightarrow> sb_index b = i"
  using assms by (auto simp: tracks_def)

text \<open>What a list of events did: the contract accepts it and follows the ledger, and it carries
  exactly the text, the reasoning and the tools the ledger recorded.\<close>

definition in_sync :: "(json \<Rightarrow> string) \<Rightarrow> bool \<Rightarrow> stream_ledger \<Rightarrow> sse_event list \<times> stream_ledger \<Rightarrow> bool" where
  "in_sync rp err L r \<longleftrightarrow>
     (case r of (es, M) \<Rightarrow>
        (\<forall>st. tracks st L \<longrightarrow> (\<exists>st'. contract_run rp err es st = Some st' \<and> tracks st' M)) \<and>
        accumulated_text M = accumulated_text L @ text_content rp es \<and>
        accumulated_reasoning M = accumulated_reasoning L @ thinking_content rp es \<and>
        (has_emitted_tool_block M \<longleftrightarrow> has_emitted_tool_block L \<or> has_tool_use es))"

lemma in_sync_trans:
  assumes "in_sync rp err L (es, M)" and "in_sync rp err M (fs, N)"
  shows "in_sync rp err L (es @ fs, N)"
proof -
  have "\<exists>st'. contract_run rp err (es @ fs) st = Some st' \<and> tracks st' N" if t: "tracks st L" for st
  proof -
    obtain st1 where "contract_run rp err es st = Some st1" "tracks st1 M"
      using assms(1) t unfolding in_sync_def prod.case by blast
    moreover obtain st2 where "contract_run rp err fs st1 = Some st2" "tracks st2 N"
      using assms(2) calculation(2) unfolding in_sync_def prod.case by blast
    ultimately show ?thesis by (simp add: contract_run_append)
  qed
  moreover have "has_tool_use (es @ fs) \<longleftrightarrow> has_tool_use es \<or> has_tool_use fs"
    by (auto simp: has_tool_use_def)
  ultimately show ?thesis using assms by (simp add: in_sync_def)
qed

lemma in_sync_nothing: "in_sync rp err L ([], L)"
  by (simp add: in_sync_def has_tool_use_def text_content_def thinking_content_def)

lemma then_emit_sync:
  assumes "in_sync rp err L (f L)" and "in_sync rp err (snd (f L)) (g (snd (f L)))"
  shows "in_sync rp err L (then_emit f g L)"
  using in_sync_trans [of rp err L "fst (f L)" "snd (f L)" "fst (g (snd (f L)))" "snd (g (snd (f L)))"] assms
  by (simp add: then_emit_def split_beta)

text \<open>The block numbering is not part of what is tracked.\<close>

lemma tracks_blocks [simp]: "tracks st (on_blocks f L) = tracks st L"
  by (simp add: tracks_def kind_of_def frame_simps)

lemma reading_blocks [simp]:
  "accumulated_text (on_blocks f L) = accumulated_text L"
  "accumulated_reasoning (on_blocks f L) = accumulated_reasoning L"
  "has_emitted_tool_block (on_blocks f L) = has_emitted_tool_block L"
  by (simp_all add: accumulated_text_def accumulated_reasoning_def has_emitted_tool_block_def
      tool_blocks_def frame_simps)

lemma in_sync_blocks: "in_sync rp err (on_blocks f L) r \<longleftrightarrow> in_sync rp err L r"
  by (simp add: in_sync_def split: prod.split)

lemma start_sync:
  assumes bt: "bt \<in> own_types" and kw: "plain_kwargs kw" and i: "i \<notin> set (dkeys (content_blocks L))"
  shows "in_sync rp err L (content_block_start rp i bt kw L)"
proof -
  let ?f = "content_block_fields bt kw"
  let ?e = "event ''content_block_start'' [(''index'', JInt i), (''content_block'', JObj ?f)]"
  let ?M = "record_block_start rp i ?f L"
  obtain b where b: "sb_type b = bt" "sb_index b = i" "content_blocks ?M = dset i b (content_blocks L)"
      "open_stack ?M = open_stack L @ [i]" "text_parts ?M = text_parts L" "thinking_parts ?M = thinking_parts L"
    using start_block [OF bt kw, of i rp L] by (auto simp: frame_simps)
  have ev: "event_name ?e = ''content_block_start''" "event_index ?e = Some i"
    "object_field ?e ''content_block'' = Some ?f" "object_field ?e ''delta'' = Some []"
    by (simp_all add: event_def event_index_def object_field_def jget_def)
  have ty: "dget ?f ''type'' = Some (JStr bt)" by (simp add: content_block_fields_def)
  have tx: "bt = ''text'' \<Longrightarrow> dget ?f ''text'' = Some (JStr [])"
    using kw by (simp add: content_block_fields_def kwarg_def plain_kwargs_def)
  have nodelta: "jget [] ''type'' = JNull" by (simp add: jget_def)
  have said: "text_content rp [?e] = []"
    using tx by (auto simp: text_content_def event_text_def typed_field_def ev jget_def ty text_field_def split: if_splits)
  have think: "thinking_content rp [?e] = []"
    by (simp add: thinking_content_def event_thinking_def typed_field_def ev jget_def)
  have tool: "has_tool_use [?e] \<longleftrightarrow> bt = ''tool_use''"
    by (simp add: has_tool_use_def typed_field_def ev jget_def ty)
  have tools: "tool_blocks ?M = tool_blocks L @ (if bt = ''tool_use'' then [b] else [])"
    using i b by (simp add: tool_blocks_def dset_new)
  have step: "\<exists>st'. contract_run rp err [?e] st = Some st' \<and> tracks st' ?M" if t: "tracks st L" for st
  proof -
    obtain opened seen where st: "st = (opened, seen)" by fastforce
    note T = tracksD [OF t [unfolded st]]
    have fresh: "i \<notin> set (open_stack L)" "i \<notin> seen" "dget opened i = None"
      using i T(3,4) T(5) [of i] by auto
    have kind: "(if bt = ''text'' \<and> py_strip (text_field rp ?f ''text'') \<noteq> [] then ''text_eager'' else bt) = bt"
      using tx by (auto simp: text_field_def py_strip_def)
    have "contract_run rp err [?e] st = Some (dset i bt opened, insert i seen)"
      using own_types_allowed [OF bt] fresh kind
      by (simp add: contract_step_def contract_start_def ev st text_field_def ty Let_def split: if_splits)
    moreover have "kind_of ?M j = (if j = i then bt else kind_of L j)" for j
      using b by (simp add: kind_of_def update_conv' split: option.split)
    then have "tracks (dset i bt opened, insert i seen) ?M"
      using T(1-5) T(6) fresh b
      by (auto simp: tracks_def update_conv' distinct_update dkeys_dset split: if_splits)
    ultimately show ?thesis by blast
  qed
  show ?thesis
    using step said think tool tools b
    by (auto simp: in_sync_def content_block_start_def Let_def accumulated_text_def accumulated_reasoning_def
        has_emitted_tool_block_def)
qed

lemma delta_sync:
  assumes i: "i \<in> set (open_stack L)" and dt: "delta_for (kind_of L i) dt"
  shows "in_sync rp err L (content_block_delta i dt s L)"
proof -
  let ?e = "event ''content_block_delta'' [(''index'', JInt i), (''delta'', JObj (delta_fields dt s))]"
  let ?M = "record_block_delta i (delta_fields dt s) L"
  obtain b where b: "dget (content_blocks L) i = Some b" and kb: "kind_of L i = sb_type b"
    using dt by (cases "dget (content_blocks L) i") (auto simp: kind_of_def delta_for_def)
  note M = delta_block [OF b dt [unfolded kb], of s]
  have ev: "event_name ?e = ''content_block_delta''" "event_index ?e = Some i"
    "object_field ?e ''delta'' = Some (delta_fields dt s)" "object_field ?e ''content_block'' = Some []"
    by (simp_all add: event_def event_index_def object_field_def jget_def)
  have ty: "dget (delta_fields dt s) ''type'' = Some (JStr dt)" by (simp add: delta_fields_def)
  consider (t) "sb_type b = ''text''" "dt = ''text_delta''" | (h) "sb_type b = ''thinking''" "dt = ''thinking_delta''"
    | (u) "sb_type b = ''tool_use''" "dt = ''input_json_delta''" using dt kb by (auto simp: delta_for_def)
  note kinds = this
  have fields: "jget (delta_fields dt s) ''type'' = JStr dt" by (simp add: jget_def ty)
  have "text_field rp (delta_fields ''text_delta'' s) ''text'' = s"
    "text_field rp (delta_fields ''thinking_delta'' s) ''thinking'' = s"
    by (simp_all add: text_field_def delta_fields_def)
  then have parts: "event_text rp ?e = (if dt = ''text_delta'' then s else [])"
    "event_thinking rp ?e = (if dt = ''thinking_delta'' then s else [])"
    by (simp_all add: event_text_def event_thinking_def typed_field_def ev fields)
  have types: "dt = ''text_delta'' \<longleftrightarrow> sb_type b = ''text''" "dt = ''thinking_delta'' \<longleftrightarrow> sb_type b = ''thinking''"
    using kinds by (cases; simp)+
  have said: "text_content rp [?e] = (if sb_type b = ''text'' then s else [])"
    and think: "thinking_content rp [?e] = (if sb_type b = ''thinking'' then s else [])"
    by (simp_all add: text_content_def thinking_content_def parts types)
  have tool: "\<not> has_tool_use [?e]"
    by (simp add: has_tool_use_def typed_field_def ev jget_def)
  have kinds_same: "kind_of ?M j = kind_of L j" for j
    unfolding M by (simp add: kind_of_def on_block_def dget_dmodify split: option.split)
  have "has_emitted_tool_block ?M = has_emitted_tool_block L"
    unfolding M emitted_tool_types by (simp add: frame_simps types_dmodify)
  moreover have "\<exists>st'. contract_run rp err [?e] st = Some st' \<and> tracks st' ?M" if t: "tracks st L" for st
  proof -
    obtain opened seen where st: "st = (opened, seen)" by fastforce
    note T = tracksD [OF t [unfolded st]]
    have op: "dget opened i = Some (sb_type b)" using T(5) [of i] i kb by simp
    have "contract_step rp err ?e st =
       (if sb_type b \<in> set no_delta_kinds then None
        else if sb_type b = ''thinking'' then
          (if dt = ''thinking_delta'' \<or> dt = ''signature_delta'' then Some st else None)
        else if sb_type b = ''text'' \<and> dt = ''text_delta'' then Some st
        else if sb_type b = ''tool_use'' \<and> dt = ''input_json_delta'' then Some st
        else None)"
      by (simp add: contract_step_def contract_delta_def ev st op text_field_def ty Let_def)
    also have "\<dots> = Some st" using kinds by cases (simp_all add: no_delta_kinds_def)
    finally have "contract_run rp err [?e] st = Some st" by simp
    moreover have "tracks st ?M"
    proof -
      have "sb_index b' = j" if "dget (content_blocks ?M) j = Some b'" for j b'
        using that T(6) unfolding M by (auto simp: frame_simps dget_dmodify split: if_splits)
      moreover have "open_stack ?M = open_stack L" "dkeys (content_blocks ?M) = dkeys (content_blocks L)"
        unfolding M by (simp_all add: frame_simps)
      ultimately show ?thesis using T(1-5) kinds_same by (auto simp: tracks_def st)
    qed
    ultimately show ?thesis by blast
  qed
  moreover have "accumulated_text ?M = accumulated_text L @ text_content rp [?e]"
    "accumulated_reasoning ?M = accumulated_reasoning L @ thinking_content rp [?e]"
    unfolding said think unfolding M by (simp_all add: accumulated_text_def accumulated_reasoning_def)
  ultimately show ?thesis using tool by (simp add: in_sync_def content_block_delta_def)
qed

lemma stop_sync:
  assumes i: "i \<in> set (open_stack L)"
  shows "in_sync rp err L (content_block_stop i L)"
proof -
  let ?e = "event ''content_block_stop'' [(''index'', JInt i)]"
  let ?M = "record_block_stop i L"
  have ev: "event_name ?e = ''content_block_stop''" "event_index ?e = Some i"
    "object_field ?e ''delta'' = Some []" "object_field ?e ''content_block'' = Some []"
    by (simp_all add: event_def event_index_def object_field_def jget_def)
  have quiet: "text_content rp [?e] = []" "thinking_content rp [?e] = []" "\<not> has_tool_use [?e]"
    by (simp_all add: text_content_def event_text_def thinking_content_def event_thinking_def
      has_tool_use_def typed_field_def ev jget_def)
  have parts: "text_parts ?M = text_parts L" "thinking_parts ?M = thinking_parts L"
    by (simp_all add: record_block_stop_def close_block_state_def frame_simps split: option.split)
  have cb: "content_blocks ?M = dmodify i (\<lambda>b. b\<lparr>sb_open := False\<rparr>) (content_blocks L)"
  proof -
    have "dmodify i f d = d" if "dget d i = None" for f and d :: "(int, stream_block) dict"
      using that by (induction d) (auto simp: dmodify_def split: if_splits)
    then show ?thesis
      by (auto simp: record_block_stop_def close_block_state_def frame_simps split: option.split)
  qed
  have "has_emitted_tool_block ?M = has_emitted_tool_block L"
    unfolding emitted_tool_types cb by (simp add: types_dmodify)
  moreover have "\<exists>st'. contract_run rp err [?e] st = Some st' \<and> tracks st' ?M" if t: "tracks st L" for st
  proof -
    obtain opened seen where st: "st = (opened, seen)" by fastforce
    note T = tracksD [OF t [unfolded st]]
    have op: "dget opened i \<noteq> None" using T(5) [of i] i by simp
    then have "contract_run rp err [?e] st = Some (dpop i opened, seen)"
      by (simp add: contract_step_def contract_stop_def ev st)
    moreover have "kind_of ?M j = kind_of L j" for j
      unfolding kind_of_def cb by (simp add: dget_dmodify split: option.split)
    moreover have "sb_index b = j" if "dget (content_blocks ?M) j = Some b" for j b
      using that T(6) unfolding cb by (auto simp: dget_dmodify split: if_splits)
    ultimately have "tracks (dpop i opened, seen) ?M"
      using T(1-5) by (auto simp: tracks_def stop_block(1) [OF T(2)] cb delete_conv' distinct_delete
          dest: notin_set_remove1)
    with \<open>contract_run rp err [?e] st = Some (dpop i opened, seen)\<close> show ?thesis by blast
  qed
  ultimately show ?thesis
    using quiet parts by (simp add: in_sync_def content_block_stop_def accumulated_text_def accumulated_reasoning_def)
qed

end
