(* ===== verification/Ledger_Runs.thy ===== *)
theory Ledger_Runs
  imports Ledger_Invariant
begin

text \<open>
  Which blocks are open, and why: every open block is the current text block, the current
  thinking block or the block of a started tool call. The ledger's own operations keep it so,
  and stay in step with the stream contract; closing everything therefore closes all there is.
\<close>

section \<open>Open blocks\<close>

definition stack_ok :: "stream_ledger \<Rightarrow> bool" where
  "stack_ok L \<longleftrightarrow>
     distinct (open_stack L) \<and> set (open_stack L) \<subseteq> set (dkeys (content_blocks L)) \<and>
     (\<forall>i b. dget (content_blocks L) i = Some b \<longrightarrow> sb_index b = i)"

definition text_at :: "block_ledger \<Rightarrow> int option" where
  "text_at b = (if text_started b then Some (text_index b) else None)"

definition thinking_at :: "block_ledger \<Rightarrow> int option" where
  "thinking_at b = (if thinking_started b then Some (thinking_index b) else None)"

definition tool_at :: "block_ledger \<Rightarrow> int \<Rightarrow> int option" where
  "tool_at b ti =
     (case dget (tool_states b) ti of
        None \<Rightarrow> None | Some s \<Rightarrow> if started s then Some (block_index s) else None)"

definition active_at :: "block_ledger \<Rightarrow> int \<Rightarrow> string \<Rightarrow> bool" where
  "active_at b i kind \<longleftrightarrow>
     kind = ''text'' \<and> text_at b = Some i \<or> kind = ''thinking'' \<and> thinking_at b = Some i \<or>
     kind = ''tool_use'' \<and> (\<exists>ti. tool_at b ti = Some i)"

text \<open>The set \<open>X\<close> holds blocks that an operation in progress has opened and will close.\<close>

definition tidy :: "int set \<Rightarrow> stream_ledger \<Rightarrow> bool" where
  "tidy X L \<longleftrightarrow>
     stack_ok L \<and> distinct (dkeys (tool_states (blocks L))) \<and>
     (\<forall>i \<in> set (dkeys (content_blocks L)). i < next_index (blocks L)) \<and>
     (\<forall>i kind. active_at (blocks L) i kind \<longrightarrow> i \<in> set (open_stack L) \<and> kind_of L i = kind \<and> i \<notin> X) \<and>
     (\<forall>ti tj i. tool_at (blocks L) ti = Some i \<longrightarrow> tool_at (blocks L) tj = Some i \<longrightarrow> ti = tj) \<and>
     (\<forall>i \<in> set (open_stack L). i \<in> X \<or> active_at (blocks L) i (kind_of L i)) \<and>
     (text_index (blocks L) \<noteq> -1 \<or> thinking_index (blocks L) \<noteq> -1 \<or> text_parts L \<noteq> [] \<or> thinking_parts L \<noteq> [] \<longrightarrow>
        dkeys (content_blocks L) \<noteq> [])"

lemma tidyD:
  assumes "tidy X L"
  shows "stack_ok L" "i \<in> set (dkeys (content_blocks L)) \<Longrightarrow> i < next_index (blocks L)"
    "active_at (blocks L) i kind \<Longrightarrow> i \<in> set (open_stack L) \<and> kind_of L i = kind \<and> i \<notin> X"
    "tool_at (blocks L) ti = Some i \<Longrightarrow> tool_at (blocks L) tj = Some i \<Longrightarrow> ti = tj"
    "i \<in> set (open_stack L) \<Longrightarrow> i \<in> X \<or> active_at (blocks L) i (kind_of L i)"
    "distinct (dkeys (tool_states (blocks L)))"
    "text_index (blocks L) \<noteq> -1 \<or> thinking_index (blocks L) \<noteq> -1 \<or> text_parts L \<noteq> [] \<or> thinking_parts L \<noteq> [] \<Longrightarrow>
      dkeys (content_blocks L) \<noteq> []"
  using assms unfolding tidy_def by blast+

lemma tracks_stack_ok: "tracks st L \<Longrightarrow> stack_ok L"
  by (auto simp: tracks_def stack_ok_def)

lemma stack_ok_tracks:
  assumes "stack_ok L" and "open_stack L = []"
  shows "tracks ([], set (dkeys (content_blocks L))) L"
  using assms by (simp add: stack_ok_def tracks_def)

lemma fresh_index: "tidy X L \<Longrightarrow> next_index (blocks L) \<notin> set (dkeys (content_blocks L))"
  using tidyD(2) by fastforce

section \<open>Starting and stopping, seen from outside\<close>

lemma start_view:
  fixes rp :: "json \<Rightarrow> string" and i :: int and L :: stream_ledger
  assumes bt: "bt \<in> own_types" and kw: "plain_kwargs kw" and ok: "stack_ok L"
    and i: "i \<notin> set (dkeys (content_blocks L))"
  defines "M \<equiv> snd (content_block_start rp i bt kw L)"
  shows "stack_ok M" "open_stack M = open_stack L @ [i]"
    "dkeys (content_blocks M) = dkeys (content_blocks L) @ [i]"
    "kind_of M = (kind_of L)(i := bt)" "next_index (blocks M) = max (next_index (blocks L)) (i + 1)"
    "tool_states (blocks M) = tool_states (blocks L)"
    "text_at (blocks M) = (if bt = ''text'' then Some i else text_at (blocks L))"
    "thinking_at (blocks M) = (if bt = ''thinking'' then Some i else thinking_at (blocks L))"
proof -
  obtain b where b: "sb_type b = bt" "sb_index b = i" and M:
    "M = (on_blocks (\<lambda>b. if bt = ''text'' then b\<lparr>text_index := i, text_started := True\<rparr>
                       else if bt = ''thinking'' then b\<lparr>thinking_index := i, thinking_started := True\<rparr>
                       else b) (on_blocks (reserve_index i) L))
      \<lparr>content_blocks := dset i b (content_blocks L), open_stack := open_stack L @ [i]\<rparr>"
    using start_block [OF bt kw, of i rp L] by (auto simp: M_def content_block_start_def Let_def)
  have fresh: "i \<notin> set (open_stack L)" using ok i by (auto simp: stack_ok_def)
  show "stack_ok M" using ok i fresh b by (auto simp: stack_ok_def M update_conv' dkeys_dset split: if_splits)
  show "open_stack M = open_stack L @ [i]" "dkeys (content_blocks M) = dkeys (content_blocks L) @ [i]"
    using i by (simp_all add: M dkeys_dset)
  show "kind_of M = (kind_of L)(i := bt)"
    using b by (simp add: kind_of_def fun_eq_iff M update_conv' split: option.split)
  show "next_index (blocks M) = max (next_index (blocks L)) (i + 1)"
    "tool_states (blocks M) = tool_states (blocks L)"
    "text_at (blocks M) = (if bt = ''text'' then Some i else text_at (blocks L))"
    "thinking_at (blocks M) = (if bt = ''thinking'' then Some i else thinking_at (blocks L))"
    by (simp_all add: M frame_simps reserve_index_def text_at_def thinking_at_def)
qed

lemma delta_view:
  fixes i :: int and L :: stream_ledger and s :: string
  assumes ok: "stack_ok L" and i: "i \<in> set (open_stack L)" and dt: "delta_for (kind_of L i) dt"
  defines "M \<equiv> snd (content_block_delta i dt s L)"
  shows "stack_ok M" "open_stack M = open_stack L" "dkeys (content_blocks M) = dkeys (content_blocks L)"
    "kind_of M = kind_of L" "blocks M = blocks L"
proof -
  obtain b where b: "dget (content_blocks L) i = Some b" "kind_of L i = sb_type b"
    using dt by (cases "dget (content_blocks L) i") (auto simp: kind_of_def delta_for_def)
  have M: "M = (on_block i (\<lambda>b. b\<lparr>sb_parts := sb_parts b @ [s]\<rparr>) L)
      \<lparr>text_parts := text_parts L @ (if sb_type b = ''text'' then [s] else []),
       thinking_parts := thinking_parts L @ (if sb_type b = ''thinking'' then [s] else [])\<rparr>"
    using delta_block [OF b(1) dt [unfolded b(2)]] by (simp add: M_def content_block_delta_def)
  have "sb_index b' = j" if "dget (content_blocks M) j = Some b'" for j b'
    using that ok unfolding M by (auto simp: frame_simps dget_dmodify stack_ok_def split: if_splits)
  then show "stack_ok M" using ok by (auto simp: stack_ok_def M frame_simps)
  show "open_stack M = open_stack L" "dkeys (content_blocks M) = dkeys (content_blocks L)" "blocks M = blocks L"
    by (simp_all add: M frame_simps)
  show "kind_of M = kind_of L"
    by (rule ext) (simp add: kind_of_def M frame_simps dget_dmodify split: option.split)
qed

lemma stop_view:
  fixes i :: int and L :: stream_ledger
  assumes ok: "stack_ok L" and i: "i \<in> set (open_stack L)"
  defines "M \<equiv> snd (content_block_stop i L)"
  shows "stack_ok M" "open_stack M = remove1 i (open_stack L)"
    "dkeys (content_blocks M) = dkeys (content_blocks L)" "kind_of M = kind_of L"
    "next_index (blocks M) = next_index (blocks L)" "tool_states (blocks M) = tool_states (blocks L)"
    "text_at (blocks M) =
      (if kind_of L i = ''text'' \<and> text_at (blocks L) = Some i then None else text_at (blocks L))"
    "thinking_at (blocks M) =
      (if kind_of L i = ''thinking'' \<and> thinking_at (blocks L) = Some i then None else thinking_at (blocks L))"
proof -
  have d: "distinct (open_stack L)" using ok by (simp add: stack_ok_def)
  have M: "M = record_block_stop i L" by (simp add: M_def content_block_stop_def)
  note s = stop_block [OF d, of i, folded M]
  obtain b where b: "dget (content_blocks L) i = Some b" "sb_index b = i" "kind_of L i = sb_type b"
    using ok i by (cases "dget (content_blocks L) i") (auto simp: stack_ok_def kind_of_def map_of_eq_None_iff)
  have "sb_index b' = j" if "dget (content_blocks M) j = Some b'" for j b'
    using that ok unfolding s(2) by (auto simp: dget_dmodify stack_ok_def split: if_splits)
  moreover have "set (remove1 i (open_stack L)) \<subseteq> set (open_stack L)" by (rule set_remove1_subset)
  ultimately show "stack_ok M"
    using ok d unfolding stack_ok_def s(1) by (auto simp: s(2))
  show "open_stack M = remove1 i (open_stack L)" by (rule s(1))
  show "dkeys (content_blocks M) = dkeys (content_blocks L)" unfolding s(2) by simp
  show "kind_of M = kind_of L"
    unfolding kind_of_def s(2) by (rule ext) (simp add: dget_dmodify split: option.split)
  have bl: "blocks M = clear_active_content_block b (blocks L)" using s(5) b by simp
  show "next_index (blocks M) = next_index (blocks L)" "tool_states (blocks M) = tool_states (blocks L)"
    "text_at (blocks M) =
      (if kind_of L i = ''text'' \<and> text_at (blocks L) = Some i then None else text_at (blocks L))"
    "thinking_at (blocks M) =
      (if kind_of L i = ''thinking'' \<and> thinking_at (blocks L) = Some i then None else thinking_at (blocks L))"
    unfolding bl by (auto simp: clear_active_content_block_def b text_at_def thinking_at_def)
qed

section \<open>Each opening and closing keeps the ledger tidy\<close>

lemma tidyI:
  assumes "stack_ok L" and "distinct (dkeys (tool_states (blocks L)))"
    and "\<And>i. i \<in> set (dkeys (content_blocks L)) \<Longrightarrow> i < next_index (blocks L)"
    and "\<And>i kind. active_at (blocks L) i kind \<Longrightarrow> i \<in> set (open_stack L) \<and> kind_of L i = kind \<and> i \<notin> X"
    and "\<And>ti tj i. tool_at (blocks L) ti = Some i \<Longrightarrow> tool_at (blocks L) tj = Some i \<Longrightarrow> ti = tj"
    and "\<And>i. i \<in> set (open_stack L) \<Longrightarrow> i \<in> X \<or> active_at (blocks L) i (kind_of L i)"
    and "text_index (blocks L) \<noteq> -1 \<or> thinking_index (blocks L) \<noteq> -1 \<or> text_parts L \<noteq> [] \<or> thinking_parts L \<noteq> [] \<Longrightarrow>
      dkeys (content_blocks L) \<noteq> []"
  shows "tidy X L"
  using assms unfolding tidy_def by blast

lemma new_ledger_tidy: "tidy {} (new_ledger mid mdl tokens)"
  by (rule tidyI) (simp_all add: new_ledger_def new_blocks_def stack_ok_def active_at_def text_at_def
      thinking_at_def tool_at_def)

lemma on_blocks_stack [simp]: "stack_ok (on_blocks f L) = stack_ok L"
  by (simp add: stack_ok_def frame_simps)

lemma on_blocks_kind [simp]: "kind_of (on_blocks f L) = kind_of L"
  by (rule ext) (simp add: kind_of_def frame_simps)

lemma on_blocks_twice: "on_blocks f (on_blocks g L) = on_blocks (\<lambda>b. f (g b)) L"
  by (simp add: on_blocks_def)

lemma tool_at_cong: "tool_states b = tool_states c \<Longrightarrow> tool_at b = tool_at c"
  by (rule ext) (simp add: tool_at_def)

lemma tidy_stack: "tidy X L \<Longrightarrow> i \<in> set (open_stack L) \<Longrightarrow> i < next_index (blocks L)"
  using tidyD(1,2) unfolding stack_ok_def by blast

text \<open>Opening the next block: it becomes the current block of its kind, or one to be closed soon.\<close>

lemma open_tidy:
  fixes rp :: "json \<Rightarrow> string" and L :: stream_ledger
  defines "i \<equiv> next_index (blocks L)"
  assumes t: "tidy X L" and bt: "bt \<in> own_types" and kw: "plain_kwargs kw"
    and g: "next_index (g (blocks L)) = i + 1" "distinct (dkeys (tool_states (g (blocks L))))"
  defines "M \<equiv> snd (content_block_start rp i bt kw (on_blocks g L))"
  assumes act: "\<And>j k. active_at (blocks M) j k \<longleftrightarrow> j = i \<and> k = bt \<and> i \<notin> Y \<or> active_at (blocks L) j k"
    and tools: "\<And>ti tj j. tool_at (blocks M) ti = Some j \<Longrightarrow> tool_at (blocks M) tj = Some j \<Longrightarrow> ti = tj"
    and Y: "Y = X \<or> Y = insert i X" "X \<subseteq> {..<i}"
  shows "in_sync rp err L (content_block_start rp i bt kw (on_blocks g L))" "tidy Y M"
proof -
  have fresh: "i \<notin> set (dkeys (content_blocks (on_blocks g L)))"
    using fresh_index [OF t] by (simp add: i_def frame_simps)
  show "in_sync rp err L (content_block_start rp i bt kw (on_blocks g L))"
    using start_sync [OF bt kw fresh] by (simp only: in_sync_blocks)
  have ok: "stack_ok (on_blocks g L)" using tidyD(1) [OF t] by simp
  note v = start_view [OF bt kw ok fresh, of rp, folded M_def, unfolded on_blocks_frame on_blocks_kind]
  have fresh_below: "(j, b) \<in> set (content_blocks L) \<Longrightarrow> j < next_index (blocks L)" for j b
    using tidyD(2) [OF t] by force
  have below: "j \<in> set (open_stack L) \<Longrightarrow> j < i" for j using tidy_stack [OF t] by (simp add: i_def)
  show "tidy Y M"
  proof (rule tidyI)
    show "stack_ok M" by (rule v(1))
    show "distinct (dkeys (tool_states (blocks M)))" using g(2) tidyD(6) [OF t] by (simp add: v(6))
    show "j < next_index (blocks M)" if "j \<in> set (dkeys (content_blocks M))" for j
      using that g by (auto simp: v(3,5) i_def dest!: fresh_below)
    show "j \<in> set (open_stack M) \<and> kind_of M j = k \<and> j \<notin> Y" if "active_at (blocks M) j k" for j k
      using that tidyD(3) [OF t, of j k] below [of j] Y unfolding act by (auto simp: v(2,4))
    show "j \<in> Y \<or> active_at (blocks M) j (kind_of M j)" if "j \<in> set (open_stack M)" for j
      using that tidyD(5) [OF t, of j] below [of j] Y unfolding act by (auto simp: v(2,4))
    show "dkeys (content_blocks M) \<noteq> []" by (simp add: v(3) del: map_is_Nil_conv)
  qed (rule tools)
qed

lemma close_tidy:
  fixes L :: stream_ledger
  assumes t: "tidy X L" and i: "i \<in> set (open_stack L)" and g: "next_index (g (blocks L)) = next_index (blocks L)"
    "tool_states (g (blocks L)) = tool_states (blocks L)"
  defines "M \<equiv> snd (content_block_stop i (on_blocks g L))"
  assumes act: "\<And>j k. active_at (blocks M) j k \<longleftrightarrow> j \<noteq> i \<and> active_at (blocks L) j k"
    and tools: "tool_at (blocks M) = tool_at (blocks L)"
  shows "in_sync rp err L (content_block_stop i (on_blocks g L))" "tidy (X - {i}) M"
proof -
  have i': "i \<in> set (open_stack (on_blocks g L))" using i by (simp add: frame_simps)
  show "in_sync rp err L (content_block_stop i (on_blocks g L))"
    using stop_sync [OF i'] by (simp only: in_sync_blocks)
  have ok: "stack_ok (on_blocks g L)" using tidyD(1) [OF t] by simp
  note v = stop_view [OF ok i', folded M_def, unfolded on_blocks_frame on_blocks_kind]
  have d: "distinct (open_stack L)" using tidyD(1) [OF t] by (simp add: stack_ok_def)
  show "tidy (X - {i}) M"
  proof (rule tidyI)
    show "stack_ok M" by (rule v(1))
    show "distinct (dkeys (tool_states (blocks M)))" using g(2) tidyD(6) [OF t] by (simp add: v(6))
    show "j < next_index (blocks M)" if "j \<in> set (dkeys (content_blocks M))" for j
      using that tidyD(2) [OF t, of j] g by (simp add: v)
    show "j \<in> set (open_stack M) \<and> kind_of M j = k \<and> j \<notin> X - {i}" if "active_at (blocks M) j k" for j k
      using that tidyD(3) [OF t, of j k] d unfolding act by (auto simp: v)
    show "ti = tj" if "tool_at (blocks M) ti = Some j" "tool_at (blocks M) tj = Some j" for ti tj j
      using that tidyD(4) [OF t] unfolding tools by blast
    show "j \<in> X - {i} \<or> active_at (blocks M) j (kind_of M j)" if "j \<in> set (open_stack M)" for j
      using that tidyD(5) [OF t, of j] d unfolding act by (auto simp: v)
    show "dkeys (content_blocks M) \<noteq> []"
      unfolding v(3) on_blocks_frame using i tidyD(1) [OF t] by (auto simp: stack_ok_def)
  qed
qed

section \<open>Text and reasoning\<close>

lemma own_text [simp]: "''text'' \<in> own_types" "''thinking'' \<in> own_types" "''tool_use'' \<in> own_types"
    "''redacted_thinking'' \<in> own_types"
  by (simp_all add: own_types_def)

lemma plain_kwargs_simps [simp]: "plain_kwargs []"
    "plain_kwargs ((k, v) # kw) \<longleftrightarrow> k \<noteq> ''text'' \<and> k \<noteq> ''thinking'' \<and> plain_kwargs kw"
  by (auto simp: plain_kwargs_def)

text \<open>What is current after a block was opened, in terms of what the numbering became before.\<close>

lemma opened_at:
  fixes rp :: "json \<Rightarrow> string" and L :: stream_ledger and g :: "block_ledger \<Rightarrow> block_ledger"
  assumes t: "tidy X L" and bt: "bt \<in> own_types" and kw: "plain_kwargs kw"
  defines "i \<equiv> next_index (blocks L)"
  defines "M \<equiv> snd (content_block_start rp i bt kw (on_blocks g L))"
  shows "tool_at (blocks M) = tool_at (g (blocks L))"
    "text_at (blocks M) = (if bt = ''text'' then Some i else text_at (g (blocks L)))"
    "thinking_at (blocks M) = (if bt = ''thinking'' then Some i else thinking_at (g (blocks L)))"
proof -
  have fresh: "i \<notin> set (dkeys (content_blocks (on_blocks g L)))"
    using fresh_index [OF t] by (simp add: i_def frame_simps)
  have ok: "stack_ok (on_blocks g L)" using tidyD(1) [OF t] by simp
  note v = start_view [OF bt kw ok fresh, of rp, folded M_def, unfolded on_blocks_frame]
  show "tool_at (blocks M) = tool_at (g (blocks L))" by (rule tool_at_cong) (rule v)
  show "text_at (blocks M) = (if bt = ''text'' then Some i else text_at (g (blocks L)))"
    "thinking_at (blocks M) = (if bt = ''thinking'' then Some i else thinking_at (g (blocks L)))" by (rule v)+
qed

lemma start_text_tidy:
  assumes t: "tidy {} L" and off: "\<not> text_started (blocks L)"
  shows "in_sync rp err L (start_text_block rp L)" "tidy {} (snd (start_text_block rp L))"
    "text_at (blocks (snd (start_text_block rp L))) = Some (next_index (blocks L))"
proof -
  let ?i = "next_index (blocks L)"
  let ?g = "\<lambda>b. b\<lparr>next_index := next_index b + 1, text_index := ?i, text_started := True\<rparr>"
  have eq: "start_text_block rp L = content_block_start rp ?i ''text'' [] (on_blocks ?g L)"
    by (simp add: start_text_block_def allocate_index_def on_blocks_twice)
  have g: "next_index (?g (blocks L)) = ?i + 1" "distinct (dkeys (tool_states (?g (blocks L))))"
    using tidyD(6) [OF t] by simp_all
  note at = opened_at [OF t own_text(1) plain_kwargs_simps(1), of rp ?g, folded eq]
  have tool: "tool_at (?g (blocks L)) = tool_at (blocks L)" by (rule tool_at_cong) simp
  have th: "thinking_at (?g (blocks L)) = thinking_at (blocks L)" by (simp add: thinking_at_def)
  show tx: "text_at (blocks (snd (start_text_block rp L))) = Some ?i" by (simp add: at)
  have was: "text_at (blocks L) = None" using off by (simp add: text_at_def)
  have act: "active_at (blocks (snd (start_text_block rp L))) j k \<longleftrightarrow>
      j = ?i \<and> k = ''text'' \<and> ?i \<notin> {} \<or> active_at (blocks L) j k" for j k
    using was by (auto simp: active_at_def at tool th)
  have tools: "tool_at (blocks (snd (start_text_block rp L))) ti = Some j \<Longrightarrow>
      tool_at (blocks (snd (start_text_block rp L))) tj = Some j \<Longrightarrow> ti = tj" for ti tj j
    using tidyD(4) [OF t] by (simp add: at tool)
  show "in_sync rp err L (start_text_block rp L)" "tidy {} (snd (start_text_block rp L))"
    unfolding eq by (rule open_tidy [where g = ?g and Y = "{}", OF t own_text(1) plain_kwargs_simps(1) g
      act [unfolded eq] tools [unfolded eq]]; simp)+
qed

lemma start_thinking_tidy:
  assumes t: "tidy {} L" and off: "\<not> thinking_started (blocks L)"
  shows "in_sync rp err L (start_thinking_block rp L)" "tidy {} (snd (start_thinking_block rp L))"
    "thinking_at (blocks (snd (start_thinking_block rp L))) = Some (next_index (blocks L))"
proof -
  let ?i = "next_index (blocks L)"
  let ?g = "\<lambda>b. b\<lparr>next_index := next_index b + 1, thinking_index := ?i, thinking_started := True\<rparr>"
  have eq: "start_thinking_block rp L = content_block_start rp ?i ''thinking'' [] (on_blocks ?g L)"
    by (simp add: start_thinking_block_def allocate_index_def on_blocks_twice)
  have g: "next_index (?g (blocks L)) = ?i + 1" "distinct (dkeys (tool_states (?g (blocks L))))"
    using tidyD(6) [OF t] by simp_all
  note at = opened_at [OF t own_text(2) plain_kwargs_simps(1), of rp ?g, folded eq]
  have tool: "tool_at (?g (blocks L)) = tool_at (blocks L)" by (rule tool_at_cong) simp
  have tx: "text_at (?g (blocks L)) = text_at (blocks L)" by (simp add: text_at_def)
  show "thinking_at (blocks (snd (start_thinking_block rp L))) = Some ?i" by (simp add: at)
  have was: "thinking_at (blocks L) = None" using off by (simp add: thinking_at_def)
  have act: "active_at (blocks (snd (start_thinking_block rp L))) j k \<longleftrightarrow>
      j = ?i \<and> k = ''thinking'' \<and> ?i \<notin> {} \<or> active_at (blocks L) j k" for j k
    using was by (auto simp: active_at_def at tool tx)
  have tools: "tool_at (blocks (snd (start_thinking_block rp L))) ti = Some j \<Longrightarrow>
      tool_at (blocks (snd (start_thinking_block rp L))) tj = Some j \<Longrightarrow> ti = tj" for ti tj j
    using tidyD(4) [OF t] by (simp add: at tool)
  show "in_sync rp err L (start_thinking_block rp L)" "tidy {} (snd (start_thinking_block rp L))"
    unfolding eq by (rule open_tidy [where g = ?g and Y = "{}", OF t own_text(2) plain_kwargs_simps(1) g
      act [unfolded eq] tools [unfolded eq]]; simp)+
qed

lemma stop_text_tidy:
  assumes t: "tidy {} L" and on: "text_started (blocks L)"
  shows "in_sync rp err L (stop_text_block L)" "tidy {} (snd (stop_text_block L))"
    "text_at (blocks (snd (stop_text_block L))) = None"
    "thinking_at (blocks (snd (stop_text_block L))) = thinking_at (blocks L)"
    "tool_at (blocks (snd (stop_text_block L))) = tool_at (blocks L)"
proof -
  let ?i = "text_index (blocks L)"
  let ?g = "\<lambda>b. b\<lparr>text_started := False\<rparr>"
  let ?M = "snd (stop_text_block L)"
  have eq: "stop_text_block L = content_block_stop ?i (on_blocks ?g L)" by (simp add: stop_text_block_def)
  have cur: "active_at (blocks L) ?i ''text''" using on by (simp add: active_at_def text_at_def)
  have i: "?i \<in> set (open_stack L)" and k: "kind_of L ?i = ''text''" using tidyD(3) [OF t cur] by simp_all
  have i': "?i \<in> set (open_stack (on_blocks ?g L))" using i by (simp add: frame_simps)
  have ok: "stack_ok (on_blocks ?g L)" using tidyD(1) [OF t] by simp
  note v = stop_view [OF ok i', folded eq, unfolded on_blocks_frame on_blocks_kind k]
  show tx: "text_at (blocks ?M) = None" unfolding v(7) by (simp add: text_at_def)
  show th: "thinking_at (blocks ?M) = thinking_at (blocks L)" unfolding v(8) by (simp add: thinking_at_def)
  show tool: "tool_at (blocks ?M) = tool_at (blocks L)" by (rule tool_at_cong) (simp add: v(6))
  have was: "text_at (blocks L) = Some ?i" using on by (simp add: text_at_def)
  have others: "thinking_at (blocks L) \<noteq> Some ?i" "tool_at (blocks L) ti \<noteq> Some ?i" for ti
    using tidyD(3) [OF t, of ?i "''thinking''"] tidyD(3) [OF t, of ?i "''tool_use''"] k
    unfolding active_at_def by auto
  have act: "active_at (blocks ?M) j kk \<longleftrightarrow> j \<noteq> ?i \<and> active_at (blocks L) j kk" for j kk
    unfolding active_at_def tool th tx was using others by auto
  show "in_sync rp err L (stop_text_block L)" "tidy {} ?M"
    unfolding eq using close_tidy [where g = ?g, OF t i _ _ act [unfolded eq] tool [unfolded eq]] by simp_all
qed

lemma stop_thinking_tidy:
  assumes t: "tidy {} L" and on: "thinking_started (blocks L)"
  shows "in_sync rp err L (stop_thinking_block L)" "tidy {} (snd (stop_thinking_block L))"
    "thinking_at (blocks (snd (stop_thinking_block L))) = None"
    "text_at (blocks (snd (stop_thinking_block L))) = text_at (blocks L)"
    "tool_at (blocks (snd (stop_thinking_block L))) = tool_at (blocks L)"
proof -
  let ?i = "thinking_index (blocks L)"
  let ?g = "\<lambda>b. b\<lparr>thinking_started := False\<rparr>"
  let ?M = "snd (stop_thinking_block L)"
  have eq: "stop_thinking_block L = content_block_stop ?i (on_blocks ?g L)" by (simp add: stop_thinking_block_def)
  have cur: "active_at (blocks L) ?i ''thinking''" using on by (simp add: active_at_def thinking_at_def)
  have i: "?i \<in> set (open_stack L)" and k: "kind_of L ?i = ''thinking''" using tidyD(3) [OF t cur] by simp_all
  have i': "?i \<in> set (open_stack (on_blocks ?g L))" using i by (simp add: frame_simps)
  have ok: "stack_ok (on_blocks ?g L)" using tidyD(1) [OF t] by simp
  note v = stop_view [OF ok i', folded eq, unfolded on_blocks_frame on_blocks_kind k]
  show th: "thinking_at (blocks ?M) = None" unfolding v(8) by (simp add: thinking_at_def)
  show tx: "text_at (blocks ?M) = text_at (blocks L)" unfolding v(7) by (simp add: text_at_def)
  show tool: "tool_at (blocks ?M) = tool_at (blocks L)" by (rule tool_at_cong) (simp add: v(6))
  have was: "thinking_at (blocks L) = Some ?i" using on by (simp add: thinking_at_def)
  have others: "text_at (blocks L) \<noteq> Some ?i" "tool_at (blocks L) ti \<noteq> Some ?i" for ti
    using tidyD(3) [OF t, of ?i "''text''"] tidyD(3) [OF t, of ?i "''tool_use''"] k
    unfolding active_at_def by auto
  have act: "active_at (blocks ?M) j kk \<longleftrightarrow> j \<noteq> ?i \<and> active_at (blocks L) j kk" for j kk
    unfolding active_at_def tool th tx was using others by auto
  show "in_sync rp err L (stop_thinking_block L)" "tidy {} ?M"
    unfolding eq using close_tidy [where g = ?g, OF t i _ _ act [unfolded eq] tool [unfolded eq]] by simp_all
qed

text \<open>A fragment for a block that is current.\<close>

lemma delta_tidy:
  assumes t: "tidy X L" and act: "active_at (blocks L) i k \<or> i \<in> X \<and> i \<in> set (open_stack L) \<and> kind_of L i = k"
    and dt: "delta_for k dt"
  shows "in_sync rp err L (content_block_delta i dt s L)" "tidy X (snd (content_block_delta i dt s L))"
    "blocks (snd (content_block_delta i dt s L)) = blocks L"
    "open_stack (snd (content_block_delta i dt s L)) = open_stack L"
proof -
  have i: "i \<in> set (open_stack L)" "kind_of L i = k" using act tidyD(3) [OF t, of i k] by auto
  note dt' = dt [folded i(2)]
  show "in_sync rp err L (content_block_delta i dt s L)" by (rule delta_sync [OF i(1) dt'])
  note v = delta_view [OF tidyD(1) [OF t] i(1) dt', of s]
  show "blocks (snd (content_block_delta i dt s L)) = blocks L" by (rule v(5))
  show "open_stack (snd (content_block_delta i dt s L)) = open_stack L" by (rule v(2))
  have "dkeys (content_blocks L) \<noteq> []" using i(1) tidyD(1) [OF t] by (auto simp: stack_ok_def)
  then show "tidy X (snd (content_block_delta i dt s L))"
    using t v(1) unfolding tidy_def v(2-5) by blast
qed

text \<open>Finding the block a writer needs open, and closing what the other writer left.\<close>

lemma then_emit_tidy:
  assumes "in_sync rp err L (f L)" "tidy X (snd (f L))"
    and "in_sync rp err (snd (f L)) (g (snd (f L)))" "tidy Y (snd (g (snd (f L))))"
  shows "in_sync rp err L (then_emit f g L)" "tidy Y (snd (then_emit f g L))"
  using then_emit_sync [where f=f and g=g] assms by (simp_all add: then_emit_def split_beta)

lemma snd_then_emit: "snd (then_emit f g L) = snd (g (snd (f L)))"
  by (simp add: then_emit_def split_beta)

lemma emit_when_tidy:
  assumes "tidy X L" and "P L \<Longrightarrow> in_sync rp err L (f L) \<and> tidy X (snd (f L))"
  shows "in_sync rp err L (emit_when P f L)" "tidy X (snd (emit_when P f L))"
  using assms in_sync_nothing by (auto simp: emit_when_def)

lemma text_started_at: "text_started b \<longleftrightarrow> text_at b \<noteq> None" "text_at b = Some i \<Longrightarrow> text_index b = i"
  by (simp_all add: text_at_def split: if_splits)

lemma thinking_started_at: "thinking_started b \<longleftrightarrow> thinking_at b \<noteq> None" "thinking_at b = Some i \<Longrightarrow> thinking_index b = i"
  by (simp_all add: thinking_at_def split: if_splits)

lemma ensure_text_tidy:
  assumes t: "tidy {} L"
  shows "in_sync rp err L (ensure_text_block rp L)" "tidy {} (snd (ensure_text_block rp L))"
    "text_started (blocks (snd (ensure_text_block rp L)))"
proof -
  let ?f = "emit_when (\<lambda>L. thinking_started (blocks L)) stop_thinking_block"
  let ?g = "emit_when (\<lambda>L. \<not> text_started (blocks L)) (start_text_block rp)"
  have f: "in_sync rp err L (?f L)" "tidy {} (snd (?f L))"
    by (rule emit_when_tidy [where X = "{}" and rp = rp and err = err]; simp add: t stop_thinking_tidy)+
  have g: "in_sync rp err M (?g M)" "tidy {} (snd (?g M))" if "tidy {} M" for M
    by (rule emit_when_tidy [where X = "{}" and rp = rp and err = err]; simp add: that start_text_tidy)+
  show "in_sync rp err L (ensure_text_block rp L)" "tidy {} (snd (ensure_text_block rp L))"
    unfolding ensure_text_block_def by (rule then_emit_tidy [where f = ?f and g = ?g, OF f g [OF f(2)]])+
  show "text_started (blocks (snd (ensure_text_block rp L)))"
    using start_text_tidy(3) [OF f(2)]
    by (cases "text_started (blocks (snd (?f L)))")
      (simp_all add: ensure_text_block_def snd_then_emit emit_when_def text_started_at split: if_splits)
qed

lemma ensure_thinking_tidy:
  assumes t: "tidy {} L"
  shows "in_sync rp err L (ensure_thinking_block rp L)" "tidy {} (snd (ensure_thinking_block rp L))"
    "thinking_started (blocks (snd (ensure_thinking_block rp L)))"
proof -
  let ?f = "emit_when (\<lambda>L. text_started (blocks L)) stop_text_block"
  let ?g = "emit_when (\<lambda>L. \<not> thinking_started (blocks L)) (start_thinking_block rp)"
  have f: "in_sync rp err L (?f L)" "tidy {} (snd (?f L))"
    by (rule emit_when_tidy [where X = "{}" and rp = rp and err = err]; simp add: t stop_text_tidy)+
  have g: "in_sync rp err M (?g M)" "tidy {} (snd (?g M))" if "tidy {} M" for M
    by (rule emit_when_tidy [where X = "{}" and rp = rp and err = err]; simp add: that start_thinking_tidy)+
  show "in_sync rp err L (ensure_thinking_block rp L)" "tidy {} (snd (ensure_thinking_block rp L))"
    unfolding ensure_thinking_block_def by (rule then_emit_tidy [where f = ?f and g = ?g, OF f g [OF f(2)]])+
  show "thinking_started (blocks (snd (ensure_thinking_block rp L)))"
    using start_thinking_tidy(3) [OF f(2)]
    by (cases "thinking_started (blocks (snd (?f L)))")
      (simp_all add: ensure_thinking_block_def snd_then_emit emit_when_def thinking_started_at split: if_splits)
qed

lemma close_content_tidy:
  assumes t: "tidy {} L"
  shows "in_sync rp err L (close_content_blocks L)" "tidy {} (snd (close_content_blocks L))"
    "text_at (blocks (snd (close_content_blocks L))) = None"
    "thinking_at (blocks (snd (close_content_blocks L))) = None"
    "tool_at (blocks (snd (close_content_blocks L))) = tool_at (blocks L)"
proof -
  let ?f = "emit_when (\<lambda>L. thinking_started (blocks L)) stop_thinking_block"
  let ?g = "emit_when (\<lambda>L. text_started (blocks L)) stop_text_block"
  have f: "in_sync rp err L (?f L)" "tidy {} (snd (?f L))"
    by (rule emit_when_tidy [where X = "{}" and rp = rp and err = err]; simp add: t stop_thinking_tidy)+
  have f': "thinking_at (blocks (snd (?f L))) = None" "tool_at (blocks (snd (?f L))) = tool_at (blocks L)"
    using stop_thinking_tidy(3,5) [OF t] by (auto simp: emit_when_def thinking_started_at)
  have g: "in_sync rp err M (?g M)" "tidy {} (snd (?g M))" if "tidy {} M" for M
    by (rule emit_when_tidy [where X = "{}" and rp = rp and err = err]; simp add: that stop_text_tidy)+
  show "in_sync rp err L (close_content_blocks L)" "tidy {} (snd (close_content_blocks L))"
    unfolding close_content_blocks_def by (rule then_emit_tidy [where f = ?f and g = ?g, OF f g [OF f(2)]])+
  show "text_at (blocks (snd (close_content_blocks L))) = None"
    "thinking_at (blocks (snd (close_content_blocks L))) = None"
    "tool_at (blocks (snd (close_content_blocks L))) = tool_at (blocks L)"
    using stop_text_tidy(3-5) [OF f(2)] f'
    by (auto simp: close_content_blocks_def snd_then_emit emit_when_def text_started_at)
qed

section \<open>Tool calls\<close>

lemma tidy_on_blocks:
  assumes t: "tidy X L" and "next_index (f (blocks L)) = next_index (blocks L)"
    "text_at (f (blocks L)) = text_at (blocks L)" "thinking_at (f (blocks L)) = thinking_at (blocks L)"
    "tool_at (f (blocks L)) = tool_at (blocks L)" "distinct (dkeys (tool_states (f (blocks L))))"
    "text_index (f (blocks L)) = text_index (blocks L)" "thinking_index (f (blocks L)) = thinking_index (blocks L)"
  shows "tidy X (on_blocks f L)"
  using t assms(2-) unfolding tidy_def active_at_def on_blocks_frame on_blocks_stack on_blocks_kind by simp

lemma start_tool_tidy:
  assumes t: "tidy {} L" and off: "tool_at (blocks L) ti = None"
  shows "in_sync rp err L (start_tool_block rp ti tid name extra L)"
    "tidy {} (snd (start_tool_block rp ti tid name extra L))"
    "tool_at (blocks (snd (start_tool_block rp ti tid name extra L))) =
      (tool_at (blocks L))(ti := Some (next_index (blocks L)))"
    "tool_states (blocks (snd (start_tool_block rp ti tid name extra L))) =
      tool_states (start_tool_update ti (next_index (blocks L)) tid name extra (blocks L))"
proof -
  let ?i = "next_index (blocks L)"
  let ?kw = "[(''id'', JStr tid), (''name'', JStr name),
    (''extra_content'', case extra of None \<Rightarrow> JNull | Some d \<Rightarrow> JObj d)]"
  define g where "g = (\<lambda>b. start_tool_update ti ?i tid name extra (b\<lparr>next_index := next_index b + 1\<rparr>))"
  let ?M = "snd (start_tool_block rp ti tid name extra L)"
  have eq: "start_tool_block rp ti tid name extra L = content_block_start rp ?i ''tool_use'' ?kw (on_blocks g L)"
    by (simp add: start_tool_block_def allocate_index_def on_blocks_twice g_def Let_def)
  have kw: "plain_kwargs ?kw" by simp
  have g: "next_index (g (blocks L)) = ?i + 1" "distinct (dkeys (tool_states (g (blocks L))))"
    using tidyD(6) [OF t] by (simp_all add: g_def start_tool_update_def on_tool_def distinct_update)
  have tool: "tool_at (g (blocks L)) = (tool_at (blocks L))(ti := Some ?i)"
    by (auto simp: tool_at_def g_def start_tool_update_def on_tool_def dget_dmodify update_conv' fun_eq_iff
      split: option.split)
  have tx: "text_at (g (blocks L)) = text_at (blocks L)" "thinking_at (g (blocks L)) = thinking_at (blocks L)"
    by (simp_all add: text_at_def thinking_at_def g_def start_tool_update_def on_tool_def)
  note at = opened_at [OF t own_text(3) kw, of rp g, folded eq]
  have fresh: "?i \<notin> set (dkeys (content_blocks (on_blocks g L)))" using fresh_index [OF t] by (simp add: frame_simps)
  have okL: "stack_ok (on_blocks g L)" using tidyD(1) [OF t] by simp
  have "tool_states (blocks ?M) = tool_states (g (blocks L))"
    using start_view(6) [OF own_text(3) kw okL fresh, of rp] by (simp add: eq frame_simps)
  also have "\<dots> = tool_states (start_tool_update ti ?i tid name extra (blocks L))"
    by (simp add: g_def start_tool_update_def on_tool_def)
  finally show "tool_states (blocks ?M) = tool_states (start_tool_update ti ?i tid name extra (blocks L))" .
  show M: "tool_at (blocks ?M) = (tool_at (blocks L))(ti := Some ?i)" by (simp add: at tool)
  have below: "tool_at (blocks L) tj = Some j \<Longrightarrow> j < ?i" for tj j
    using tidyD(3) [OF t, of j "''tool_use''"] tidy_stack [OF t, of j] unfolding active_at_def by blast
  have some_tool: "(\<exists>tj. ((tool_at (blocks L))(ti := Some ?i)) tj = Some j) \<longleftrightarrow>
      j = ?i \<or> (\<exists>tj. tool_at (blocks L) tj = Some j)" for j
    using off by (metis fun_upd_apply option.distinct(1) option.inject)
  have texts: "text_at (blocks ?M) = text_at (blocks L)" "thinking_at (blocks ?M) = thinking_at (blocks L)"
    by (simp_all add: at tx)
  have act: "active_at (blocks ?M) j k \<longleftrightarrow> j = ?i \<and> k = ''tool_use'' \<and> ?i \<notin> {} \<or> active_at (blocks L) j k" for j k
    unfolding active_at_def M texts some_tool by blast
  have tools: "tool_at (blocks ?M) tj = Some j \<Longrightarrow> tool_at (blocks ?M) tk = Some j \<Longrightarrow> tj = tk" for tj tk j
    using below tidyD(4) [OF t] by (fastforce simp: M split: if_splits)
  show "in_sync rp err L (start_tool_block rp ti tid name extra L)" "tidy {} ?M"
    unfolding eq by (rule open_tidy [where g = g and Y = "{}", OF t own_text(3) kw g
      act [unfolded eq] tools [unfolded eq]]; simp)+
qed

lemma emit_tool_tidy:
  assumes t: "tidy {} L" and on: "tool_at (blocks L) ti = Some i"
  shows "\<exists>r. emit_tool_delta ti s L = Some r \<and> in_sync rp err L r \<and> tidy {} (snd r) \<and> blocks (snd r) = blocks L"
proof -
  obtain st where st: "dget (tool_states (blocks L)) ti = Some st" "block_index st = i"
    using on by (auto simp: tool_at_def split: option.splits if_splits)
  have act: "active_at (blocks L) i ''tool_use''" using on unfolding active_at_def by blast
  have dt: "delta_for ''tool_use'' ''input_json_delta''" by (simp add: delta_for_def)
  note d = delta_tidy [OF t disjI1 [OF act] dt]
  show ?thesis
    by (rule exI [of _ "content_block_delta i ''input_json_delta'' s L"])
      (simp add: emit_tool_delta_def st d)
qed

text \<open>A block that is opened and closed at once never becomes current.\<close>

lemma open_loose_tidy:
  fixes rp :: "json \<Rightarrow> string" and L :: stream_ledger
  assumes t: "tidy {} L" and bt: "bt = ''tool_use'' \<or> bt = ''redacted_thinking''" and kw: "plain_kwargs kw"
  defines "i \<equiv> next_index (blocks L)"
  defines "r \<equiv> content_block_start rp i bt kw (snd (allocate_index L))"
  shows "in_sync rp err L r" "tidy {i} (snd r)" "i \<in> set (open_stack (snd r))" "kind_of (snd r) i = bt"
    "tool_at (blocks (snd r)) = tool_at (blocks L)" "text_at (blocks (snd r)) = text_at (blocks L)"
    "thinking_at (blocks (snd r)) = thinking_at (blocks L)"
proof -
  let ?g = "\<lambda>b. b\<lparr>next_index := next_index b + 1\<rparr>"
  have own: "bt \<in> own_types" using bt by auto
  have eq: "r = content_block_start rp (next_index (blocks L)) bt kw (on_blocks ?g L)"
    by (simp add: r_def allocate_index_def i_def)
  have g: "next_index (?g (blocks L)) = next_index (blocks L) + 1" "distinct (dkeys (tool_states (?g (blocks L))))"
    using tidyD(6) [OF t] by simp_all
  note at = opened_at [OF t own kw, of rp ?g, folded eq]
  have tool: "tool_at (?g (blocks L)) = tool_at (blocks L)" by (rule tool_at_cong) simp
  have gx: "text_at (?g (blocks L)) = text_at (blocks L)" "thinking_at (?g (blocks L)) = thinking_at (blocks L)"
    by (simp_all add: text_at_def thinking_at_def)
  show T: "tool_at (blocks (snd r)) = tool_at (blocks L)" by (simp add: at tool)
  show X: "text_at (blocks (snd r)) = text_at (blocks L)" "thinking_at (blocks (snd r)) = thinking_at (blocks L)"
    using bt by (auto simp: at gx)
  have act: "active_at (blocks (snd r)) j k \<longleftrightarrow> j = next_index (blocks L) \<and> k = bt \<and>
      next_index (blocks L) \<notin> {i} \<or> active_at (blocks L) j k" for j k
    by (auto simp: active_at_def T X i_def)
  have tools: "tool_at (blocks (snd r)) tj = Some j \<Longrightarrow> tool_at (blocks (snd r)) tk = Some j \<Longrightarrow> tj = tk" for tj tk j
    using tidyD(4) [OF t] by (simp add: T)
  show "in_sync rp err L r" "tidy {i} (snd r)"
    unfolding eq by (rule open_tidy [where g = ?g and Y = "{i}", OF t own kw g
      act [unfolded eq] tools [unfolded eq]]; simp add: i_def)+
  have fresh: "i \<notin> set (dkeys (content_blocks (on_blocks ?g L)))"
    using fresh_index [OF t] by (simp add: i_def frame_simps)
  have ok: "stack_ok (on_blocks ?g L)" using tidyD(1) [OF t] by simp
  note v = start_view [OF own kw ok fresh, of rp, folded eq [folded i_def]]
  show "i \<in> set (open_stack (snd r))" "kind_of (snd r) i = bt" by (simp_all add: v)
qed

lemma close_loose_tidy:
  assumes t: "tidy {i} L" and i: "i \<in> set (open_stack L)" and k: "kind_of L i \<noteq> ''text''" "kind_of L i \<noteq> ''thinking''"
  shows "in_sync rp err L (content_block_stop i L)" "tidy {} (snd (content_block_stop i L))"
    "tool_at (blocks (snd (content_block_stop i L))) = tool_at (blocks L)"
    "text_at (blocks (snd (content_block_stop i L))) = text_at (blocks L)"
    "thinking_at (blocks (snd (content_block_stop i L))) = thinking_at (blocks L)"
proof -
  let ?M = "snd (content_block_stop i L)"
  have id: "on_blocks (\<lambda>b. b) L = L" by (simp add: on_blocks_def)
  note v = stop_view [OF tidyD(1) [OF t] i]
  show T: "tool_at (blocks ?M) = tool_at (blocks L)" by (rule tool_at_cong) (simp add: v(6))
  show X: "text_at (blocks ?M) = text_at (blocks L)" "thinking_at (blocks ?M) = thinking_at (blocks L)"
    using k by (simp_all add: v)
  have "\<not> active_at (blocks L) i kk" for kk using tidyD(3) [OF t, of i kk] by blast
  then have act: "active_at (blocks ?M) j kk \<longleftrightarrow> j \<noteq> i \<and> active_at (blocks L) j kk" for j kk
    unfolding active_at_def T X by blast
  show "in_sync rp err L (content_block_stop i L)" "tidy {} ?M"
    using close_tidy [where g = "\<lambda>b. b" and L = L and X = "{i}" and i = i, unfolded id]
      t i act T by simp_all
qed

section \<open>Closing everything\<close>

text \<open>The tools of a prefix of the loop are closed; those of the rest are all that is still open.\<close>

lemma stop_tools_effect:
  assumes "stack_ok L" and "distinct (map (\<lambda>(_, s). block_index s) (filter (\<lambda>(_, s). started s) rest))"
    and "set (open_stack L) = (\<lambda>(_, s). block_index s) ` set (filter (\<lambda>(_, s). started s) rest)"
    and "\<And>ti s. (ti, s) \<in> set rest \<Longrightarrow> dget (tool_states (blocks L)) ti = Some s"
  shows "in_sync rp err L (stop_tools rest L) \<and> open_stack (snd (stop_tools rest L)) = [] \<and>
    stack_ok (snd (stop_tools rest L))"
  using assms
proof (induction rest arbitrary: L)
  case Nil
  then show ?case by (simp add: emit_nothing_def in_sync_nothing)
next
  case (Cons p rest)
  obtain ti s where p: "p = (ti, s)" by (cases p)
  let ?f = "\<lambda>L. if started s then (case stop_tool_block ti L of None \<Rightarrow> ([], L) | Some r \<Rightarrow> r) else ([], L)"
  have st: "dget (tool_states (blocks L)) ti = Some s" using Cons.prems(4) [of ti s] p by simp
  have step: "in_sync rp err L (?f L) \<and> stack_ok (snd (?f L)) \<and>
      set (open_stack (snd (?f L))) = (\<lambda>(_, s). block_index s) ` set (filter (\<lambda>(_, s). started s) rest) \<and>
      tool_states (blocks (snd (?f L))) = tool_states (blocks L)"
  proof (cases "started s")
    case False
    with Cons.prems(1,3) p show ?thesis by (simp add: in_sync_nothing)
  next
    case True
    have f: "?f L = content_block_stop (block_index s) L" using True st by (simp add: stop_tool_block_def)
    have i: "block_index s \<in> set (open_stack L)" using Cons.prems(3) True p by simp
    have fresh: "block_index s \<notin> (\<lambda>(_, s). block_index s) ` set (filter (\<lambda>(_, s). started s) rest)"
      using Cons.prems(2) True p by simp
    note v = stop_view [OF Cons.prems(1) i]
    have "set (remove1 (block_index s) (open_stack L)) = set (open_stack L) - {block_index s}"
      using Cons.prems(1) by (simp add: stack_ok_def)
    then have "set (open_stack (snd (content_block_stop (block_index s) L))) =
        (\<lambda>(_, s). block_index s) ` set (filter (\<lambda>(_, s). started s) rest)"
      unfolding v(2) using Cons.prems(3) True p fresh by auto
    then show ?thesis unfolding f using stop_sync [OF i] v(1,6) by blast
  qed
  have "in_sync rp err (snd (?f L)) (stop_tools rest (snd (?f L))) \<and>
      open_stack (snd (stop_tools rest (snd (?f L)))) = [] \<and> stack_ok (snd (stop_tools rest (snd (?f L))))"
  proof (rule Cons.IH)
    show "distinct (map (\<lambda>(_, s). block_index s) (filter (\<lambda>(_, s). started s) rest))"
      using Cons.prems(2) p by (auto split: if_splits)
    show "dget (tool_states (blocks (snd (?f L)))) tj = Some s'" if "(tj, s') \<in> set rest" for tj s'
      using Cons.prems(4) [of tj s'] that p step by simp
  qed (use step in blast)+
  then show ?case
    unfolding p stop_tools.simps snd_then_emit using then_emit_sync [of rp err L ?f] step by blast
qed

lemma close_all_effect:
  assumes t: "tidy {} L"
  shows "in_sync rp err L (close_all_blocks L)" "open_stack (snd (close_all_blocks L)) = []"
proof -
  let ?M = "snd (close_content_blocks L)"
  note c = close_content_tidy [OF t]
  let ?T = "tool_states (blocks ?M)"
  have get: "dget ?T ti = Some s \<longleftrightarrow> (ti, s) \<in> set ?T" for ti s
    using dget_in tidyD(6) [OF c(2)] by fast
  have at: "tool_at (blocks ?M) ti = Some (block_index s)" if "(ti, s) \<in> set ?T" "started s" for ti s
    using iffD2 [OF get, OF that(1)] that(2) by (simp add: tool_at_def)
  have "inj_on (\<lambda>(_, s). block_index s) (set (filter (\<lambda>(_, s). started s) ?T))"
  proof (rule inj_onI)
    fix a b assume ab: "a \<in> set (filter (\<lambda>(_, s). started s) ?T)" "b \<in> set (filter (\<lambda>(_, s). started s) ?T)"
      "(\<lambda>(_, s). block_index s) a = (\<lambda>(_, s). block_index s) b"
    then obtain ti s tj s' where p: "a = (ti, s)" "b = (tj, s')" by fastforce
    with ab at tidyD(4) [OF c(2), of ti "block_index s" tj] have "ti = tj" by auto
    moreover have "dget ?T ti = Some s" "dget ?T tj = Some s'" using ab p get by simp_all
    ultimately show "a = b" using p by simp
  qed
  moreover have "distinct ?T" using tidyD(6) [OF c(2)] by (simp add: distinct_map)
  ultimately have d: "distinct (map (\<lambda>(_, s). block_index s) (filter (\<lambda>(_, s). started s) ?T))"
    by (simp add: distinct_map)
  have "i \<in> (\<lambda>(_, s). block_index s) ` set (filter (\<lambda>(_, s). started s) ?T)" if i: "i \<in> set (open_stack ?M)" for i
  proof -
    have "active_at (blocks ?M) i (kind_of ?M i)" using tidyD(5) [OF c(2) i] by blast
    then obtain ti where "tool_at (blocks ?M) ti = Some i" using c(3,4) by (auto simp: active_at_def)
    then obtain s where "dget ?T ti = Some s" "started s" "block_index s = i"
      by (auto simp: tool_at_def split: option.splits if_splits)
    then show ?thesis using get by force
  qed
  moreover have "block_index s \<in> set (open_stack ?M)" if "(ti, s) \<in> set ?T" "started s" for ti s
    using tidyD(3) [OF c(2), of "block_index s" "''tool_use''"] at [OF that] unfolding active_at_def by blast
  ultimately have open_set: "set (open_stack ?M) = (\<lambda>(_, s). block_index s) ` set (filter (\<lambda>(_, s). started s) ?T)"
    by auto
  note e = stop_tools_effect [OF tidyD(1) [OF c(2)] d open_set, of rp err]
  have "in_sync rp err ?M (stop_tools ?T ?M) \<and> open_stack (snd (stop_tools ?T ?M)) = []"
    using e get by blast
  then show "in_sync rp err L (close_all_blocks L)" "open_stack (snd (close_all_blocks L)) = []"
    unfolding close_all_blocks_def snd_then_emit
    using then_emit_sync [of rp err L close_content_blocks "\<lambda>L. stop_tools (tool_states (blocks L)) L"] c(1)
    by blast+
qed

end
