(* ===== verification/Tool_Recovery.thy ===== *)
theory Tool_Recovery
  imports Stream_Ledger Py_String
begin

text \<open>
  \<open>core/anthropic/streaming/recovery.py\<close>: what an interrupted answer is continued and an
  interrupted tool call repaired with. \<open>json.loads\<close>, \<open>json.dumps\<close> and the JSON Schema validator
  are arguments; a deep copy is the value itself.
\<close>

section \<open>Tool schemas and complete inputs\<close>

text \<open>The tools of a request, as their names and input schemas; the last of a name counts.\<close>

definition tool_schemas_by_name ::
  "(string \<times> (string, json) dict option) list \<Rightarrow> (string, (string, json) dict) dict" where
  "tool_schemas_by_name tools =
     fold (\<lambda>(name, schema) d.
        if name = [] then d
        else dset name (case schema of None \<Rightarrow> [(''type'', JStr ''object'')] | Some s \<Rightarrow> s) d) tools []"

text \<open>\<open>valid schema input\<close> is the validator's answer, true also for a schema it cannot use.\<close>

type_synonym validator = "(string, json) dict \<Rightarrow> (string, json) dict \<Rightarrow> bool"

definition validate_tool_input ::
  "validator \<Rightarrow> string \<Rightarrow> (string, json) dict \<Rightarrow> (string, (string, json) dict) dict \<Rightarrow> bool" where
  "validate_tool_input valid name input schemas =
     (case dget schemas name of None \<Rightarrow> True | Some schema \<Rightarrow> valid schema input)"

definition parse_complete_tool_input ::
  "(string \<Rightarrow> json option) \<Rightarrow> validator \<Rightarrow> string \<Rightarrow> string \<Rightarrow> (string, (string, json) dict) dict \<Rightarrow>
   (string, json) dict option" where
  "parse_complete_tool_input loads valid raw name schemas =
     (case loads raw of
        Some (JObj d) \<Rightarrow> if validate_tool_input valid name d schemas then Some d else None
      | _ \<Rightarrow> None)"

section \<open>Continuing a text\<close>

text \<open>The longest overlap of the end of one text and the start of the next, tried downwards.\<close>

fun overlap_from :: "nat \<Rightarrow> string \<Rightarrow> string \<Rightarrow> nat option" where
  "overlap_from 0 existing candidate = None"
| "overlap_from (Suc n) existing candidate =
     (if suffix (take (Suc n) candidate) existing then Some (Suc n) else overlap_from n existing candidate)"

definition continuation_suffix :: "string \<Rightarrow> string \<Rightarrow> string option" where
  "continuation_suffix existing candidate =
     (if candidate = [] then Some []
      else if existing = [] then Some candidate
      else if prefix existing candidate then Some (drop (length existing) candidate)
      else
        (case overlap_from (min (length existing) (length candidate)) existing candidate of
           Some n \<Rightarrow> Some (drop n candidate)
         | None \<Rightarrow>
             if length candidate < max 200 (length existing div 2) then Some candidate else None))"

section \<open>Repairing tool arguments\<close>

text \<open>\<open>splitlines()\<close>: a line ends at \<open>\n\<close>, \<open>\r\<close>, \<open>\r\n\<close> or one of the other line boundaries.\<close>

definition line_end :: "char \<Rightarrow> bool" where
  "line_end c \<longleftrightarrow> of_char c \<in> set ([10, 11, 12, 13, 28, 29, 30, 133] :: nat list)"

fun lines_from :: "string \<Rightarrow> string \<Rightarrow> string list" where
  "lines_from acc [] = (if acc = [] then [] else [acc])"
| "lines_from acc (c # s) =
     (if c = CHR 0x0D \<and> s \<noteq> [] \<and> hd s = CHR 0x0A then lines_from acc s
      else if line_end c then acc # lines_from [] s
      else lines_from (acc @ [c]) s)"

definition splitlines :: "string \<Rightarrow> string list" where
  "splitlines s = lines_from [] s"

fun join_lines :: "string list \<Rightarrow> string" where
  "join_lines [] = []"
| "join_lines [l] = l"
| "join_lines (l # ls) = l @ CHR 0x0A # join_lines ls"

definition strip_fence :: "string \<Rightarrow> string" where
  "strip_fence raw =
     (if prefix ''```'' raw then
        (let lines = splitlines raw;
             lines = (case lines of [] \<Rightarrow> [] | l # ls \<Rightarrow> if prefix ''```'' l then ls else lines);
             lines = (if lines \<noteq> [] \<and> py_strip (last lines) = ''```'' then butlast lines else lines)
         in py_strip (join_lines lines))
      else raw)"

text \<open>\<open>dict.fromkeys\<close> drops a repetition.\<close>

definition repair_suffix_candidates :: "string \<Rightarrow> string \<Rightarrow> string list" where
  "repair_suffix_candidates pre candidate =
     (let raw = py_strip candidate in
      if raw = [] then []
      else
        (let raw = strip_fence raw in
         raw # (if prefix pre raw \<and> drop (length pre) raw \<noteq> raw then [drop (length pre) raw] else [])))"

text \<open>The accepted suffix with the input it completes.\<close>

definition accept_tool_json_repair ::
  "(string \<Rightarrow> json option) \<Rightarrow> validator \<Rightarrow> string \<Rightarrow> string \<Rightarrow> string \<Rightarrow>
   (string, (string, json) dict) dict \<Rightarrow> (string \<times> (string, json) dict) option" where
  "accept_tool_json_repair loads valid pre candidate name schemas =
     fold (\<lambda>suffix found.
        case found of
          Some r \<Rightarrow> Some r
        | None \<Rightarrow>
            map_option (\<lambda>input. (suffix, input))
              (parse_complete_tool_input loads valid (pre @ suffix) name schemas))
       (repair_suffix_candidates pre candidate) None"

section \<open>Recovery requests\<close>

definition recovery_user_prefix :: string where
  "recovery_user_prefix =
     ''The previous provider stream was interrupted. Continue the assistant response '' @
     ''exactly where it stopped. Do not repeat text already written.''"

definition recovery_thinking_prefix :: string where
  "recovery_thinking_prefix =
     ''The assistant had already emitted this hidden thinking before the interruption:'' @ [CHR 0x0A]"

definition copied_messages :: "(string, json) dict \<Rightarrow> json list" where
  "copied_messages body = (case dget body ''messages'' of Some (JArr ms) \<Rightarrow> ms | _ \<Rightarrow> [])"

definition chat_message :: "string \<Rightarrow> string \<Rightarrow> json" where
  "chat_message role content = JObj [(''role'', JStr role), (''content'', JStr content)]"

definition make_response_recovery_body ::
  "(string, json) dict \<Rightarrow> string \<Rightarrow> string \<Rightarrow> (string, json) dict" where
  "make_response_recovery_body body partial_text partial_thinking =
     (let messages = copied_messages body @
            (if partial_text \<noteq> [] then [chat_message ''assistant'' partial_text] else []);
          prompt = (if partial_thinking \<noteq> [] then
              recovery_thinking_prefix @ partial_thinking @ [CHR 0x0A, CHR 0x0A] @ recovery_user_prefix
            else recovery_user_prefix)
      in dset ''messages'' (JArr (messages @ [chat_message ''user'' prompt])) body)"

definition make_text_recovery_body ::
  "(string, json) dict \<Rightarrow> string \<Rightarrow> string \<Rightarrow> (string, json) dict" where
  "make_text_recovery_body body partial_text partial_thinking =
     dpop ''tool_choice'' (dpop ''tools'' (make_response_recovery_body body partial_text partial_thinking))"

definition tool_repair_prompt ::
  "(json \<Rightarrow> string) \<Rightarrow> string \<Rightarrow> string \<Rightarrow> (string, json) dict option \<Rightarrow> string" where
  "tool_repair_prompt compact_dumps name pre schema =
     (let schema_text = compact_dumps (JObj (case schema of
            None \<Rightarrow> [(''type'', JStr ''object'')]
          | Some s \<Rightarrow> if s = [] then [(''type'', JStr ''object'')] else s))
      in ''A streamed tool call was interrupted while writing JSON arguments.'' @ [CHR 0x0A] @
         ''Tool name: '' @ name @ [CHR 0x0A] @
         ''JSON schema: '' @ schema_text @ [CHR 0x0A] @
         ''Already emitted JSON prefix: '' @ pre @ [CHR 0x0A, CHR 0x0A] @
         ''Return only the exact missing JSON suffix needed to complete the same object. '' @
         ''Do not repeat the prefix. Do not include markdown or explanation.'')"

definition make_tool_repair_body ::
  "(json \<Rightarrow> string) \<Rightarrow> (string, json) dict \<Rightarrow> string \<Rightarrow> string \<Rightarrow> (string, json) dict option \<Rightarrow> (string, json) dict" where
  "make_tool_repair_body compact_dumps body name pre schema =
     dset ''messages''
       (JArr (copied_messages body @ [chat_message ''user'' (tool_repair_prompt compact_dumps name pre schema)]))
       (dpop ''tool_choice'' (dpop ''tools'' body))"

section \<open>What a continuation and a repair guarantee\<close>

lemma overlap_from_Some:
  assumes "overlap_from n existing candidate = Some k"
  shows "suffix (take k candidate) existing" "0 < k" "k \<le> n"
    "k < m \<Longrightarrow> m \<le> n \<Longrightarrow> \<not> suffix (take m candidate) existing"
proof -
  have "suffix (take k candidate) existing \<and> 0 < k \<and> k \<le> n \<and>
      (\<forall>m. k < m \<longrightarrow> m \<le> n \<longrightarrow> \<not> suffix (take m candidate) existing)"
    using assms
  proof (induction n)
    case (Suc n)
    then show ?case by (auto split: if_splits simp: le_Suc_eq)
  qed simp
  then show "suffix (take k candidate) existing" "0 < k" "k \<le> n"
    "k < m \<Longrightarrow> m \<le> n \<Longrightarrow> \<not> suffix (take m candidate) existing" by blast+
qed

lemma overlap_from_None: "overlap_from n existing candidate = None \<Longrightarrow> 0 < m \<Longrightarrow> m \<le> n \<Longrightarrow>
    \<not> suffix (take m candidate) existing"
  by (induction n) (auto split: if_splits simp: le_Suc_eq)

text \<open>The two texts joined, the longest overlap written once.\<close>

definition joins :: "string \<Rightarrow> string \<Rightarrow> nat \<Rightarrow> bool" where
  "joins existing candidate k \<longleftrightarrow> k \<le> length candidate \<and> k \<le> length existing \<and> suffix (take k candidate) existing"

lemma continuation_overlap:
  assumes "continuation_suffix existing candidate = Some s" and "existing \<noteq> []" "candidate \<noteq> []"
  shows "\<exists>k. joins existing candidate k \<and> s = drop k candidate \<and>
    (\<forall>m. joins existing candidate m \<longrightarrow> m \<le> k \<or> prefix existing candidate)"
proof (cases "prefix existing candidate")
  case True
  then have "joins existing candidate (length existing)" by (auto simp: joins_def prefix_def)
  moreover have "s = drop (length existing) candidate" using assms True by (simp add: continuation_suffix_def)
  ultimately show ?thesis using True by blast
next
  case False
  let ?N = "min (length existing) (length candidate)"
  show ?thesis
  proof (cases "overlap_from ?N existing candidate")
    case (Some k)
    note o = overlap_from_Some [OF Some]
    have s: "s = drop k candidate" using assms False Some by (simp add: continuation_suffix_def)
    have "m \<le> k" if "joins existing candidate m" for m
      using o(4) [of m] that unfolding joins_def by (meson min.boundedI not_le)
    then show ?thesis using o(1,3) s by (intro exI [of _ k]) (auto simp: joins_def)
  next
    case None
    then have s: "s = candidate" using assms False by (auto simp: continuation_suffix_def split: if_splits)
    have "m = 0" if "joins existing candidate m" for m
      using overlap_from_None [OF None, of m] that unfolding joins_def by fastforce
    then show ?thesis using s by (intro exI [of _ 0]) (auto simp: joins_def)
  qed
qed

lemma accept_fold:
  "fold (\<lambda>suffix found.
        case found of
          Some r \<Rightarrow> Some r
        | None \<Rightarrow> map_option (\<lambda>input. (suffix, input)) (f suffix)) xs None = Some (s, d) \<Longrightarrow>
   s \<in> set xs \<and> f s = Some d"
proof (induction xs)
  case (Cons x xs)
  have keep: "fold (\<lambda>suffix found.
        case found of
          Some r \<Rightarrow> Some r
        | None \<Rightarrow> map_option (\<lambda>input. (suffix, input)) (f suffix)) ys (Some r) = Some r" for ys r
    by (induction ys) auto
  with Cons show ?case by (cases "f x") auto
qed simp

lemma repair_completes:
  assumes "accept_tool_json_repair loads valid pre candidate name schemas = Some (s, d)"
  shows "loads (pre @ s) = Some (JObj d)" "validate_tool_input valid name d schemas"
    "s \<in> set (repair_suffix_candidates pre candidate)"
proof -
  have "s \<in> set (repair_suffix_candidates pre candidate) \<and>
      parse_complete_tool_input loads valid (pre @ s) name schemas = Some d"
    using assms unfolding accept_tool_json_repair_def by (rule accept_fold)
  then show "loads (pre @ s) = Some (JObj d)" "validate_tool_input valid name d schemas"
    "s \<in> set (repair_suffix_candidates pre candidate)"
    by (auto simp: parse_complete_tool_input_def split: option.splits json.splits if_splits)
qed

end
