(* ===== verification/Tool_Assembly.thy ===== *)
theory Tool_Assembly
  imports Ledger_Runs Tool_Names Tool_Recovery
begin

text \<open>
  \<open>providers/openai_chat/tool_calls.py\<close>: the assembly of streamed tool-call deltas into tool
  blocks of the ledger. A delta's fields are those of the OpenAI SDK objects; \<open>json\<close>, \<open>uuid4\<close> and
  \<open>str()\<close> of containers are arguments. A \<open>KeyError\<close> is \<open>None\<close>.
\<close>

section \<open>Argument aliases and name fragments\<close>

record assembly_env =
  env_repr :: "json \<Rightarrow> string"
  env_loads :: "string \<Rightarrow> json option"
  env_dumps :: "json \<Rightarrow> string"
  env_names :: "tool_names option"
  env_aliases :: "(string, (string, string) dict) dict"

definition alias_key :: "(string, string) dict \<Rightarrow> string \<Rightarrow> string" where
  "alias_key aliases k = (case dget aliases k of None \<Rightarrow> k | Some o' \<Rightarrow> o')"

text \<open>A dictionary comprehension: a later entry overwrites an equal key.\<close>

definition dict_of :: "('k \<times> 'v) list \<Rightarrow> ('k, 'v) dict" where
  "dict_of kvs = fold (\<lambda>(k, v) d. dset k v d) kvs []"

fun restore_value :: "(string, string) dict \<Rightarrow> json \<Rightarrow> json" where
  "restore_value aliases (JObj d) =
     JObj (dict_of (map (\<lambda>(k, v). (alias_key aliases k, restore_value aliases v)) d))"
| "restore_value aliases (JArr xs) = JArr (map (restore_value aliases) xs)"
| "restore_value aliases v = v"

definition restore_tool_argument_aliases ::
  "assembly_env \<Rightarrow> string \<Rightarrow> (string, string) dict \<Rightarrow> string option" where
  "restore_tool_argument_aliases env raw aliases =
     (case env_loads env raw of
        None \<Rightarrow> None
      | Some (JObj d) \<Rightarrow> Some (env_dumps env (restore_value aliases (JObj d)))
      | Some _ \<Rightarrow> Some raw)"

definition merge_tool_name :: "string \<Rightarrow> string \<Rightarrow> string" where
  "merge_tool_name existing incoming =
     (if existing = [] \<or> prefix existing incoming then incoming
      else if prefix incoming existing then existing
      else existing @ incoming)"

definition buffered :: "(int, string) dict \<Rightarrow> int \<Rightarrow> string" where
  "buffered d i = (case dget d i of None \<Rightarrow> [] | Some s \<Rightarrow> s)"

definition decode_streamed_tool_name ::
  "tool_names option \<Rightarrow> int \<Rightarrow> (int, string) dict option \<Rightarrow> string \<Rightarrow>
   string option \<times> (int, string) dict option" where
  "decode_streamed_tool_name names i buffers incoming =
     (case names of
        None \<Rightarrow> (Some incoming, buffers)
      | Some c \<Rightarrow>
          if \<not> has_aliases c then (Some incoming, buffers)
          else
            (case buffers of
               None \<Rightarrow> (Some (decode_name c incoming), None)
             | Some b \<Rightarrow>
                 (let combined = merge_tool_name (buffered b i) incoming in
                  if is_alias c combined then (Some (decode_name c combined), Some (dpop i b))
                  else if is_alias_prefix c combined then (None, Some (dset i combined b))
                  else (Some (decode_name c combined), Some (dpop i b)))))"

section \<open>One tool-call delta\<close>

record tool_delta =
  td_index :: json
  td_id :: "string option"
  td_name :: "string option"
  td_args :: "string option"
  td_extra :: "(string, json) dict option"

record assembly =
  as_ledger :: stream_ledger
  as_names :: "(int, string) dict option"
  as_args :: "(int, string) dict option"
  as_recorded :: "(string \<times> (string, json) dict) list"

definition delta_index :: "tool_delta \<Rightarrow> stream_ledger \<Rightarrow> int" where
  "delta_index tc L =
     (let i = (case td_index tc of JInt i \<Rightarrow> i | JBool b \<Rightarrow> (if b then 1 else 0) | _ \<Rightarrow> 0)
      in if i < 0 then int (length (tool_states (blocks L))) else i)"

definition delta_extra :: "tool_delta \<Rightarrow> (string, json) dict option" where
  "delta_extra tc = (if td_extra tc = Some [] then None else td_extra tc)"

definition on_ledger :: "(stream_ledger \<Rightarrow> stream_ledger) \<Rightarrow> assembly \<Rightarrow> assembly" where
  "on_ledger f a = a\<lparr>as_ledger := f (as_ledger a)\<rparr>"

definition emit_with :: "emits \<Rightarrow> assembly \<Rightarrow> sse_event list \<times> assembly" where
  "emit_with f a = (case f (as_ledger a) of (es, L) \<Rightarrow> (es, a\<lparr>as_ledger := L\<rparr>))"

definition emit_tool :: "int \<Rightarrow> string \<Rightarrow> assembly \<Rightarrow> (sse_event list \<times> assembly) option" where
  "emit_tool ti s a =
     map_option (\<lambda>(es, L). (es, a\<lparr>as_ledger := L\<rparr>)) (emit_tool_delta ti s (as_ledger a))"

definition record_extra :: "string \<Rightarrow> (string, json) dict \<Rightarrow> assembly \<Rightarrow> assembly" where
  "record_extra tid extra a = a\<lparr>as_recorded := as_recorded a @ [(tid, extra)]\<rparr>"

definition emit_tool_arg_delta ::
  "assembly_env \<Rightarrow> int \<Rightarrow> string \<Rightarrow> assembly \<Rightarrow> (sse_event list \<times> assembly) option" where
  "emit_tool_arg_delta env ti args a =
     (if args = [] then Some ([], a)
      else
        (case dget (tool_states (blocks (as_ledger a))) ti of
           None \<Rightarrow> Some ([], a)
         | Some s \<Rightarrow>
             if tb_name s = ''Task'' then
               (case buffer_task_args (env_loads env) ti args (blocks (as_ledger a)) of
                  (parsed, b) \<Rightarrow>
                    (let a = on_ledger (on_blocks (\<lambda>_. b)) a in
                     case parsed of
                       None \<Rightarrow> Some ([], a)
                     | Some d \<Rightarrow> emit_tool ti (env_dumps env (JObj d)) a))
             else
               (let aliases = (case dget (env_aliases env) (tb_name s) of None \<Rightarrow> [] | Some d \<Rightarrow> d) in
                if aliases \<noteq> [] then
                  (case as_args a of
                     None \<Rightarrow>
                       (case restore_tool_argument_aliases env args aliases of
                          None \<Rightarrow> Some ([], a)
                        | Some r \<Rightarrow> emit_tool ti r a)
                   | Some bufs \<Rightarrow>
                       (let held = buffered bufs ti @ args in
                        case restore_tool_argument_aliases env held aliases of
                          None \<Rightarrow> Some ([], a\<lparr>as_args := Some (dset ti held bufs)\<rparr>)
                        | Some r \<Rightarrow> emit_tool ti r (a\<lparr>as_args := Some (dpop ti bufs)\<rparr>)))
                else emit_tool ti args a)))"

text \<open>The identifying parts of a delta: its id, its extra content and its name.\<close>

definition register_delta :: "assembly_env \<Rightarrow> int \<Rightarrow> tool_delta \<Rightarrow> assembly \<Rightarrow> assembly" where
  "register_delta env i tc a =
     (let a = (case td_id tc of None \<Rightarrow> a | Some tid \<Rightarrow> on_ledger (on_blocks (set_stream_tool_id i tid)) a);
          a = (if delta_extra tc = None then a
               else on_ledger (on_blocks (set_tool_extra_content i (delta_extra tc))) a)
      in case td_name tc of
           None \<Rightarrow> a
         | Some name \<Rightarrow>
             if name = [] then a
             else
               (case decode_streamed_tool_name (env_names env) i (as_names a) name of
                  (resolved, bufs) \<Rightarrow>
                    (let a = a\<lparr>as_names := bufs\<rparr> in
                     case resolved of
                       None \<Rightarrow> a
                     | Some n \<Rightarrow> on_ledger (on_blocks (register_tool_name i n)) a)))"

definition the_name :: "tool_block_state option \<Rightarrow> string" where
  "the_name s = (case s of None \<Rightarrow> [] | Some s \<Rightarrow> tb_name s)"

text \<open>Starting the block once the name is known, with the arguments that came before.\<close>

definition start_delta ::
  "assembly_env \<Rightarrow> string \<Rightarrow> int \<Rightarrow> tool_delta \<Rightarrow> assembly \<Rightarrow> (sse_event list \<times> assembly) option" where
  "start_delta env uid i tc a =
     (let state = dget (tool_states (blocks (as_ledger a))) i;
          resolved_id = (case state of
              Some s \<Rightarrow> if tb_tool_id s \<noteq> [] then Some (tb_tool_id s) else td_id tc
            | None \<Rightarrow> td_id tc);
          name = the_name state
      in if (case state of None \<Rightarrow> True | Some s \<Rightarrow> \<not> started s) \<and> py_strip name \<noteq> [] then
           (let tid = (case resolved_id of
                  Some t \<Rightarrow> if t \<noteq> [] then t else ''tool_'' @ uid
                | None \<Rightarrow> ''tool_'' @ uid);
                extra = (case state of Some s \<Rightarrow> tb_extra s | None \<Rightarrow> delta_extra tc);
                a = (case extra of None \<Rightarrow> a | Some d \<Rightarrow> if d = [] then a else record_extra tid d a)
            in case emit_with (start_tool_block (env_repr env) i tid (py_strip name) extra) a of
                 (es, a) \<Rightarrow>
                   (case dget (tool_states (blocks (as_ledger a))) i of
                      None \<Rightarrow> None
                    | Some s \<Rightarrow>
                        if pre_start_args s = [] then Some (es, a)
                        else
                          map_option (\<lambda>(fs, a). (es @ fs, a))
                            (emit_tool_arg_delta env i (pre_start_args s)
                              (on_ledger (on_blocks (on_tool i (\<lambda>s. s\<lparr>pre_start_args := []\<rparr>))) a))))
         else Some ([], a))"

text \<open>The arguments of the delta itself, kept for later while there is no name.\<close>

definition argument_delta ::
  "assembly_env \<Rightarrow> string \<Rightarrow> int \<Rightarrow> tool_delta \<Rightarrow> assembly \<Rightarrow> (sse_event list \<times> assembly) option" where
  "argument_delta env name i tc a =
     (let state = dget (tool_states (blocks (as_ledger a))) i;
          args = (case td_args tc of None \<Rightarrow> [] | Some s \<Rightarrow> s);
          a = (case (state, delta_extra tc) of
                 (Some s, Some d) \<Rightarrow> if tb_tool_id s \<noteq> [] then record_extra (tb_tool_id s) d a else a
               | _ \<Rightarrow> a)
      in if args = [] then Some ([], a)
         else if (case state of None \<Rightarrow> True | Some s \<Rightarrow> \<not> started s) \<and> py_strip name = [] then
           Some ([], on_ledger (on_blocks (\<lambda>b.
             on_tool i (\<lambda>s. s\<lparr>pre_start_args := pre_start_args s @ args\<rparr>) (ensure_tool_state i b))) a)
         else if (case state of None \<Rightarrow> True | Some s \<Rightarrow> \<not> started s) then
           emit_tool_arg_delta env i args (on_ledger (on_blocks (ensure_tool_state i)) a)
         else emit_tool_arg_delta env i args a)"

text \<open>One step after another, each of which may raise.\<close>

definition then_try ::
  "('s \<Rightarrow> (sse_event list \<times> 's) option) \<Rightarrow> ('s \<Rightarrow> (sse_event list \<times> 's) option) \<Rightarrow>
   's \<Rightarrow> (sse_event list \<times> 's) option" where
  "then_try f g a =
     (case f a of None \<Rightarrow> None | Some (es, b) \<Rightarrow> map_option (\<lambda>(fs, c). (es @ fs, c)) (g b))"

definition process_tool_call ::
  "assembly_env \<Rightarrow> string \<Rightarrow> tool_delta \<Rightarrow> assembly \<Rightarrow> (sse_event list \<times> assembly) option" where
  "process_tool_call env uid tc a =
     (let i = delta_index tc (as_ledger a);
          a = register_delta env i tc a;
          name = the_name (dget (tool_states (blocks (as_ledger a))) i)
      in then_try (start_delta env uid i tc) (argument_delta env name i tc) a)"

section \<open>Flushing\<close>

fun emit_all :: "(int \<times> string) list \<Rightarrow> assembly \<Rightarrow> (sse_event list \<times> assembly) option" where
  "emit_all [] a = Some ([], a)"
| "emit_all ((ti, out) # rest) a = then_try (emit_tool ti out) (emit_all rest) a"

definition flush_task_args :: "assembly_env \<Rightarrow> assembly \<Rightarrow> (sse_event list \<times> assembly) option" where
  "flush_task_args env a =
     (case flush_task_arg_buffers (env_loads env) (env_dumps env) (blocks (as_ledger a)) of
        (results, b) \<Rightarrow> emit_all results (on_ledger (on_blocks (\<lambda>_. b)) a))"

text \<open>The loop over a copy of the buffered names: each is taken out and processed as a whole name,
  without a name buffer.\<close>

fun flush_names_loop ::
  "assembly_env \<Rightarrow> (int \<Rightarrow> string) \<Rightarrow> (int \<times> string) list \<Rightarrow> assembly \<Rightarrow>
   (sse_event list \<times> assembly) option" where
  "flush_names_loop env uids [] a = Some ([], a)"
| "flush_names_loop env uids ((i, name) # rest) a =
     (let bufs = map_option (dpop i) (as_names a);
          tc = \<lparr>td_index = JInt i, td_id = None, td_name = Some name, td_args = Some [], td_extra = None\<rparr>
      in then_try
           (\<lambda>a. map_option (\<lambda>(es, a). (es, a\<lparr>as_names := bufs\<rparr>))
                   (process_tool_call env (uids i) tc (a\<lparr>as_names := None\<rparr>)))
           (flush_names_loop env uids rest) a)"

definition flush_tool_name_buffers ::
  "assembly_env \<Rightarrow> (int \<Rightarrow> string) \<Rightarrow> assembly \<Rightarrow> (sse_event list \<times> assembly) option" where
  "flush_tool_name_buffers env uids a =
     flush_names_loop env uids (case as_names a of None \<Rightarrow> [] | Some d \<Rightarrow> d) a"

fun flush_aliases_loop ::
  "assembly_env \<Rightarrow> (int \<times> string) list \<Rightarrow> assembly \<Rightarrow> (sse_event list \<times> assembly) option" where
  "flush_aliases_loop env [] a = Some ([], a)"
| "flush_aliases_loop env ((ti, held) # rest) a =
     (let popped = (\<lambda>a. a\<lparr>as_args := map_option (dpop ti) (as_args a)\<rparr>) in
      if held = [] then flush_aliases_loop env rest (popped a)
      else
        (case dget (tool_states (blocks (as_ledger a))) ti of
           None \<Rightarrow> flush_aliases_loop env rest a
         | Some s \<Rightarrow>
             if tb_name s = ''Task'' then flush_aliases_loop env rest a
             else
               (case dget (env_aliases env) (tb_name s) of
                  None \<Rightarrow> flush_aliases_loop env rest a
                | Some aliases \<Rightarrow>
                    if aliases = [] then flush_aliases_loop env rest a
                    else
                      then_try
                        (\<lambda>a. map_option (\<lambda>(es, a). (es, popped a))
                           (emit_tool ti
                             (case restore_tool_argument_aliases env held aliases of
                                Some r \<Rightarrow> r | None \<Rightarrow> held) a))
                        (flush_aliases_loop env rest) a)))"

definition flush_tool_argument_alias_buffers ::
  "assembly_env \<Rightarrow> assembly \<Rightarrow> (sse_event list \<times> assembly) option" where
  "flush_tool_argument_alias_buffers env a =
     flush_aliases_loop env (case as_args a of None \<Rightarrow> [] | Some d \<Rightarrow> d) a"

section \<open>Tool uses found in text\<close>

text \<open>\<open>tool_use\<close> dictionaries that the text parsers return: id, name and input.\<close>

definition text_tool_use_events ::
  "assembly_env \<Rightarrow> string \<Rightarrow> string \<Rightarrow> (string, json) dict \<Rightarrow> emits" where
  "text_tool_use_events env tid name input =
     (let name = (case env_names env of None \<Rightarrow> name | Some c \<Rightarrow> decode_name c name);
          input = (if name = ''Task'' then normalize_task_run_in_background input else input)
      in then_emit close_content_blocks
           (\<lambda>L. case allocate_index L of (i, L) \<Rightarrow>
              then_emit (content_block_start (env_repr env) i ''tool_use'' [(''id'', JStr tid), (''name'', JStr name)])
                (then_emit (content_block_delta i ''input_json_delta'' (env_dumps env (JObj input)))
                   (content_block_stop i)) L))"

section \<open>What was emitted\<close>

definition has_committed_sse_output :: "stream_ledger \<Rightarrow> bool" where
  "has_committed_sse_output L \<longleftrightarrow>
     text_index (blocks L) \<noteq> -1 \<or> thinking_index (blocks L) \<noteq> -1 \<or> has_emitted_tool_block L"

definition started_tool_states :: "stream_ledger \<Rightarrow> (int \<times> tool_block_state) list" where
  "started_tool_states L = filter (\<lambda>(_, s). started s) (tool_states (blocks L))"

definition all_emitted_tools_complete ::
  "assembly_env \<Rightarrow> validator \<Rightarrow> (string, (string, json) dict) dict \<Rightarrow> stream_ledger \<Rightarrow> bool" where
  "all_emitted_tools_complete env valid schemas L =
     can_salvage_tool_use (\<lambda>raw name. parse_complete_tool_input (env_loads env) valid raw name schemas \<noteq> None) L"

section \<open>Collecting a buffered answer\<close>

record collected_call =
  cc_id :: "string option"
  cc_name :: string
  cc_args :: "string list"
  cc_extra :: "(string, json) dict option"

type_synonym collector = "(int, collected_call) dict"

definition new_collected :: collected_call where
  "new_collected = \<lparr>cc_id = None, cc_name = [], cc_args = [], cc_extra = None\<rparr>"

definition collector_add :: "tool_delta \<Rightarrow> collector \<Rightarrow> collector" where
  "collector_add tc calls =
     (let raw = (case td_index tc of JInt i \<Rightarrow> i | JBool b \<Rightarrow> (if b then 1 else 0) | _ \<Rightarrow> 0);
          i = (if raw \<ge> 0 then raw else 0);
          calls = (if dget calls i = None then dset i new_collected calls else calls)
      in dmodify i (\<lambda>s. s
           \<lparr>cc_id := (case td_id tc of Some t \<Rightarrow> if t \<noteq> [] then Some t else cc_id s | None \<Rightarrow> cc_id s),
            cc_name := (case td_name tc of Some n \<Rightarrow> if n \<noteq> [] then merge_tool_name (cc_name s) n else cc_name s
                        | None \<Rightarrow> cc_name s),
            cc_args := cc_args s @ (case td_args tc of Some x \<Rightarrow> if x \<noteq> [] then [x] else [] | None \<Rightarrow> []),
            cc_extra := (if delta_extra tc = None then cc_extra s else delta_extra tc)\<rparr>) calls)"

text \<open>The completed calls in the order of their index, or \<open>None\<close> as soon as one is not complete.\<close>

definition completed_call ::
  "assembly_env \<Rightarrow> validator \<Rightarrow> (string, (string, json) dict) dict \<Rightarrow> collected_call \<Rightarrow>
   (string \<times> string) option" where
  "completed_call env valid schemas s =
     (let wire = py_strip (cc_name s);
          name = (case env_names env of None \<Rightarrow> wire | Some c \<Rightarrow> decode_name c wire)
      in if name = [] \<or> dget schemas name = None then None
         else
           (let args = concat (cc_args s);
                aliases = (case dget (env_aliases env) name of None \<Rightarrow> [] | Some d \<Rightarrow> d)
            in case (if aliases = [] then Some args else restore_tool_argument_aliases env args aliases) of
                 None \<Rightarrow> None
               | Some args \<Rightarrow>
                   if parse_complete_tool_input (env_loads env) valid args name schemas = None then None
                   else Some (name, args)))"

fun completed_from ::
  "assembly_env \<Rightarrow> validator \<Rightarrow> (string, (string, json) dict) dict \<Rightarrow> collector \<Rightarrow> int list \<Rightarrow>
   tool_delta list option" where
  "completed_from env valid schemas calls [] = Some []"
| "completed_from env valid schemas calls (i # rest) =
     (case dget calls i of
        None \<Rightarrow> None
      | Some s \<Rightarrow>
          (case completed_call env valid schemas s of
             None \<Rightarrow> None
           | Some (name, args) \<Rightarrow>
               map_option (\<lambda>ds. \<lparr>td_index = JInt i, td_id = cc_id s, td_name = Some name, td_args = Some args,
                                 td_extra = if cc_extra s = Some [] then None else cc_extra s\<rparr> # ds)
                 (completed_from env valid schemas calls rest)))"

definition completed_calls ::
  "assembly_env \<Rightarrow> validator \<Rightarrow> (string, (string, json) dict) dict \<Rightarrow> collector \<Rightarrow> tool_delta list option" where
  "completed_calls env valid schemas calls =
     completed_from env valid schemas calls (sort (dkeys calls))"

end
