(* ===== verification/Assembly_Invariant.thy ===== *)
theory Assembly_Invariant
  imports Tool_Assembly
begin

text \<open>
  Assembling tool calls keeps the ledger tidy and in step with the stream contract, and never
  raises: arguments are only emitted for a tool whose block is open.
\<close>

section \<open>Changes of the tool states that open and close nothing\<close>

definition tasks_ok :: "block_ledger \<Rightarrow> bool" where
  "tasks_ok b \<longleftrightarrow>
     (\<forall>ti s. dget (tool_states b) ti = Some s \<longrightarrow> task_arg_buffer s \<noteq> [] \<longrightarrow> started s)"

definition quiet :: "block_ledger \<Rightarrow> block_ledger \<Rightarrow> bool" where
  "quiet b c \<longleftrightarrow>
     next_index c = next_index b \<and> text_index c = text_index b \<and> thinking_index c = thinking_index b \<and>
     text_at c = text_at b \<and> thinking_at c = thinking_at b \<and>
     tool_at c = tool_at b \<and> (distinct (dkeys (tool_states b)) \<longrightarrow> distinct (dkeys (tool_states c))) \<and>
     (tasks_ok b \<longrightarrow> tasks_ok c)"

lemma quiet_refl [simp]: "quiet b b"
  by (simp add: quiet_def)

lemma quiet_trans: "quiet b c \<Longrightarrow> quiet c d \<Longrightarrow> quiet b d"
  by (simp add: quiet_def)

lemma quiet_on_tool:
  assumes "\<And>s. started (f s) = started s \<and> block_index (f s) = block_index s"
    and "\<And>s. dget (tool_states b) i = Some s \<Longrightarrow> task_arg_buffer (f s) = [] \<or> task_arg_buffer (f s) = task_arg_buffer s \<or> started s"
  shows "quiet b (on_tool i f b)"
proof -
  have "tool_at (on_tool i f b) = tool_at b"
    using assms(1) by (auto simp: tool_at_def on_tool_def dget_dmodify fun_eq_iff split: option.splits)
  moreover have "tasks_ok (on_tool i f b)" if t: "tasks_ok b"
    unfolding tasks_ok_def
  proof (intro allI impI)
    fix ti s
    assume s: "dget (tool_states (on_tool i f b)) ti = Some s" "task_arg_buffer s \<noteq> []"
    show "started s"
    proof (cases "ti = i")
      case True
      then obtain r where r: "dget (tool_states b) i = Some r" "s = f r"
        using s(1) by (auto simp: on_tool_def dget_dmodify)
      have "task_arg_buffer r \<noteq> [] \<or> started r" using assms(2) [OF r(1)] s(2) r(2) by auto
      then have "started r" using t r(1) unfolding tasks_ok_def by blast
      then show ?thesis using assms(1) r(2) by simp
    next
      case False
      then have "dget (tool_states b) ti = Some s" using s(1) by (simp add: on_tool_def dget_dmodify)
      then show ?thesis using t s(2) unfolding tasks_ok_def by blast
    qed
  qed
  ultimately show ?thesis by (simp add: quiet_def on_tool_def text_at_def thinking_at_def)
qed

lemma quiet_new_state:
  assumes "dget (tool_states b) i = None" and "\<not> started s" "task_arg_buffer s = []"
  shows "quiet b (b\<lparr>tool_states := dset i s (tool_states b)\<rparr>)"
  using assms
  by (auto simp: quiet_def text_at_def thinking_at_def tool_at_def tasks_ok_def update_conv' distinct_update
      fun_eq_iff split: option.splits)

lemma quiet_ensure [simp]: "quiet b (ensure_tool_state i b)"
  by (auto simp: ensure_tool_state_def new_tool_state_def intro: quiet_new_state)

lemma quiet_id: "quiet b (set_stream_tool_id i tid b)"
  by (auto simp: set_stream_tool_id_def intro!: quiet_trans [OF quiet_ensure [of b i] quiet_on_tool])

lemma quiet_extra: "quiet b (set_tool_extra_content i extra b)"
  by (auto simp: set_tool_extra_content_def intro!: quiet_trans [OF quiet_ensure [of b i] quiet_on_tool])

lemma quiet_name: "quiet b (register_tool_name i n b)"
  by (auto simp: register_tool_name_def new_tool_state_def split: option.split intro!: quiet_on_tool quiet_new_state)

lemma quiet_task:
  assumes "tool_at b ti = Some i" and "buffer_task_args loads ti args b = (parsed, c)"
  shows "quiet b c"
proof -
  obtain s where s: "dget (tool_states b) ti = Some s" "started s"
    using assms(1) by (auto simp: tool_at_def split: option.splits if_splits)
  then show ?thesis using assms(2)
    by (auto simp: buffer_task_args_def Let_def split: if_splits option.splits json.splits intro!: quiet_on_tool)
qed

section \<open>The invariant of the assembly\<close>

definition asm_ok :: "assembly \<Rightarrow> bool" where
  "asm_ok a \<longleftrightarrow>
     tidy {} (as_ledger a) \<and> tasks_ok (blocks (as_ledger a)) \<and>
     (\<forall>bufs. as_args a = Some bufs \<longrightarrow>
        distinct (dkeys bufs) \<and> (\<forall>ti \<in> set (dkeys bufs). tool_at (blocks (as_ledger a)) ti \<noteq> None))"

text \<open>What a step must do: return, keep the invariant, stay in step with the contract, and leave
  the blocks of started tools alone.\<close>

definition good :: "(json \<Rightarrow> string) \<Rightarrow> bool \<Rightarrow> assembly \<Rightarrow> (sse_event list \<times> assembly) option \<Rightarrow> bool" where
  "good rp err a r \<longleftrightarrow>
     (\<exists>es b. r = Some (es, b) \<and> in_sync rp err (as_ledger a) (es, as_ledger b) \<and> asm_ok b \<and>
        (\<forall>ti i. tool_at (blocks (as_ledger a)) ti = Some i \<longrightarrow> tool_at (blocks (as_ledger b)) ti = Some i))"

lemma goodI:
  assumes "in_sync rp err (as_ledger a) (es, as_ledger b)" "asm_ok b"
    "\<And>ti i. tool_at (blocks (as_ledger a)) ti = Some i \<Longrightarrow> tool_at (blocks (as_ledger b)) ti = Some i"
  shows "good rp err a (Some (es, b))"
  using assms by (simp add: good_def)

lemma good_nothing: "asm_ok a \<Longrightarrow> good rp err a (Some ([], a))"
  by (simp add: good_def in_sync_nothing)

lemma good_then:
  assumes "good rp err a (f a)" and "\<And>es b. f a = Some (es, b) \<Longrightarrow> asm_ok b \<Longrightarrow>
      (\<And>ti i. tool_at (blocks (as_ledger a)) ti = Some i \<Longrightarrow> tool_at (blocks (as_ledger b)) ti = Some i) \<Longrightarrow>
      good rp err b (g b)"
  shows "good rp err a (then_try f g a)"
proof -
  obtain es b where f: "f a = Some (es, b)" "in_sync rp err (as_ledger a) (es, as_ledger b)" "asm_ok b"
    "\<And>ti i. tool_at (blocks (as_ledger a)) ti = Some i \<Longrightarrow> tool_at (blocks (as_ledger b)) ti = Some i"
    using assms(1) unfolding good_def by blast
  obtain fs c where g: "g b = Some (fs, c)" "in_sync rp err (as_ledger b) (fs, as_ledger c)" "asm_ok c"
    "\<And>ti i. tool_at (blocks (as_ledger b)) ti = Some i \<Longrightarrow> tool_at (blocks (as_ledger c)) ti = Some i"
    using assms(2) [OF f(1,3,4)] unfolding good_def by blast
  have "then_try f g a = Some (es @ fs, c)" by (simp add: then_try_def f(1) g(1))
  then show ?thesis using in_sync_trans [OF f(2) g(2)] g(3,4) f(4) unfolding good_def by blast
qed

lemma good_from:
  assumes "good rp err b r" and "\<And>x. in_sync rp err (as_ledger b) x = in_sync rp err (as_ledger a) x"
    and "tool_at (blocks (as_ledger b)) = tool_at (blocks (as_ledger a))"
  shows "good rp err a r"
  using assms unfolding good_def by simp

lemma quiet_asm:
  assumes ok: "asm_ok a" and q: "quiet (blocks (as_ledger a)) (f (blocks (as_ledger a)))"
  shows "asm_ok (on_ledger (on_blocks f) a)"
    "tool_at (blocks (as_ledger (on_ledger (on_blocks f) a))) = tool_at (blocks (as_ledger a))"
    "in_sync rp err (as_ledger (on_ledger (on_blocks f) a)) x = in_sync rp err (as_ledger a) x"
proof -
  have L: "as_ledger (on_ledger (on_blocks f) a) = on_blocks f (as_ledger a)"
    "as_args (on_ledger (on_blocks f) a) = as_args a" by (simp_all add: on_ledger_def)
  have t: "tidy {} (on_blocks f (as_ledger a))"
    by (rule tidy_on_blocks) (use ok q tidyD(6) in \<open>auto simp: asm_ok_def quiet_def\<close>)
  show tool: "tool_at (blocks (as_ledger (on_ledger (on_blocks f) a))) = tool_at (blocks (as_ledger a))"
    using q by (simp add: L frame_simps quiet_def)
  show "asm_ok (on_ledger (on_blocks f) a)"
    using ok t q tool by (simp add: asm_ok_def L quiet_def frame_simps)
  show "in_sync rp err (as_ledger (on_ledger (on_blocks f) a)) x = in_sync rp err (as_ledger a) x"
    by (simp add: L in_sync_blocks)
qed

lemma good_quiet:
  assumes "asm_ok a" and "quiet (blocks (as_ledger a)) (f (blocks (as_ledger a)))"
    and "good rp err (on_ledger (on_blocks f) a) r"
  shows "good rp err a r"
  by (rule good_from [OF assms(3)]) (simp_all add: quiet_asm [where f = f, OF assms(1,2)])

section \<open>Arguments\<close>

lemma emit_tool_good:
  assumes ok: "asm_ok a" and on: "tool_at (blocks (as_ledger a)) ti = Some i"
  shows "good rp err a (emit_tool ti s a)"
proof -
  have t: "tidy {} (as_ledger a)" using ok by (simp add: asm_ok_def)
  obtain r where r: "emit_tool_delta ti s (as_ledger a) = Some r" "in_sync rp err (as_ledger a) r"
      "tidy {} (snd r)" "blocks (snd r) = blocks (as_ledger a)"
    using emit_tool_tidy [OF t on] by blast
  obtain es L where L: "r = (es, L)" by fastforce
  show ?thesis
    using r ok by (auto simp: emit_tool_def L good_def asm_ok_def)
qed

lemma same_ledger:
  assumes "good rp err b r" and "as_ledger b = as_ledger a"
  shows "good rp err a r"
  using assms by (simp add: good_def)

lemma emit_tool_arg_good:
  assumes ok: "asm_ok a" and on: "tool_at (blocks (as_ledger a)) ti = Some i"
  shows "good rp err a (emit_tool_arg_delta env ti args a)"
proof (cases "args = []")
  case True
  then show ?thesis using good_nothing [OF ok] by (simp add: emit_tool_arg_delta_def)
next
  case args: False
  obtain s where s: "dget (tool_states (blocks (as_ledger a))) ti = Some s"
    using on by (auto simp: tool_at_def split: option.splits)
  show ?thesis
  proof (cases "tb_name s = ''Task''")
    case True
    obtain parsed b where b: "buffer_task_args (env_loads env) ti args (blocks (as_ledger a)) = (parsed, b)" by fastforce
    have q: "quiet (blocks (as_ledger a)) ((\<lambda>_. b) (blocks (as_ledger a)))" using quiet_task [OF on b] by simp
    note qa = quiet_asm [OF ok q]
    have "good rp err (on_ledger (on_blocks (\<lambda>_. b)) a)
        (case parsed of None \<Rightarrow> Some ([], on_ledger (on_blocks (\<lambda>_. b)) a)
         | Some d \<Rightarrow> emit_tool ti (env_dumps env (JObj d)) (on_ledger (on_blocks (\<lambda>_. b)) a))"
      using good_nothing [OF qa(1)] emit_tool_good [OF qa(1), of ti i] on qa(2) by (simp split: option.split)
    from good_quiet [OF ok q this] show ?thesis
      using args s True b by (simp add: emit_tool_arg_delta_def Let_def)
  next
    case False
    define aliases where "aliases = (case dget (env_aliases env) (tb_name s) of None \<Rightarrow> [] | Some d \<Rightarrow> d)"
    have e: "good rp err a (emit_tool ti x a)" for x by (rule emit_tool_good [OF ok on])
    have n: "good rp err a (Some ([], a))" by (rule good_nothing [OF ok])
    have with_bufs: "asm_ok (a\<lparr>as_args := Some bufs'\<rparr>)"
      if "distinct (dkeys bufs')" "\<forall>tj \<in> set (dkeys bufs'). tool_at (blocks (as_ledger a)) tj \<noteq> None" for bufs'
      using ok that by (simp add: asm_ok_def)
    have more: "good rp err a (emit_tool ti x (a\<lparr>as_args := Some (dpop ti bufs)\<rparr>))"
      "good rp err a (Some ([], a\<lparr>as_args := Some (dset ti held bufs)\<rparr>))" if "as_args a = Some bufs" for bufs x held
    proof -
      have b: "distinct (dkeys bufs)" "\<forall>tj \<in> set (dkeys bufs). tool_at (blocks (as_ledger a)) tj \<noteq> None"
        using ok that by (simp_all add: asm_ok_def)
      have "asm_ok (a\<lparr>as_args := Some (dpop ti bufs)\<rparr>)"
      proof (rule with_bufs)
        show "distinct (dkeys (dpop ti bufs))" using b(1) by (rule distinct_delete)
        have "set (dkeys (dpop ti bufs)) \<subseteq> set (dkeys bufs)" by (simp only: delete_keys set_removeAll) blast
        then show "\<forall>tj \<in> set (dkeys (dpop ti bufs)). tool_at (blocks (as_ledger a)) tj \<noteq> None" using b(2) by blast
      qed
      then show "good rp err a (emit_tool ti x (a\<lparr>as_args := Some (dpop ti bufs)\<rparr>))"
        by (rule same_ledger [of rp err "a\<lparr>as_args := Some (dpop ti bufs)\<rparr>", OF emit_tool_good]) (use on in simp_all)
      have "asm_ok (a\<lparr>as_args := Some (dset ti held bufs)\<rparr>)"
      proof (rule with_bufs)
        show "distinct (dkeys (dset ti held bufs))" using b(1) by (rule distinct_update)
        have "set (dkeys (dset ti held bufs)) \<subseteq> insert ti (set (dkeys bufs))" by (auto simp: dkeys_dset split: if_splits)
        then show "\<forall>tj \<in> set (dkeys (dset ti held bufs)). tool_at (blocks (as_ledger a)) tj \<noteq> None"
          using b(2) on by blast
      qed
      then show "good rp err a (Some ([], a\<lparr>as_args := Some (dset ti held bufs)\<rparr>))"
        by (rule same_ledger [of rp err "a\<lparr>as_args := Some (dset ti held bufs)\<rparr>", OF good_nothing]) simp_all
    qed
    show ?thesis
      using e n more args s False
      by (simp add: emit_tool_arg_delta_def aliases_def [symmetric] Let_def split: option.split)
  qed
qed

section \<open>A whole delta\<close>

lemma register_delta_ok:
  assumes ok: "asm_ok a"
  shows "asm_ok (register_delta env i tc a)"
    "tool_at (blocks (as_ledger (register_delta env i tc a))) = tool_at (blocks (as_ledger a))"
    "in_sync rp err (as_ledger (register_delta env i tc a)) x = in_sync rp err (as_ledger a) x"
proof -
  define keeps where "keeps = (\<lambda>a b. (asm_ok a \<longrightarrow> asm_ok b) \<and>
    tool_at (blocks (as_ledger b)) = tool_at (blocks (as_ledger a)) \<and>
    (\<forall>x. in_sync rp err (as_ledger b) x = in_sync rp err (as_ledger a) x))"
  have refl: "keeps a a" and trans: "keeps a b \<Longrightarrow> keeps b c \<Longrightarrow> keeps a c" for a b c
    by (simp_all add: keeps_def)
  have step: "keeps a (on_ledger (on_blocks f) a)" if "quiet (blocks (as_ledger a)) (f (blocks (as_ledger a)))" for f a
  proof -
    have "in_sync rp err (as_ledger (on_ledger (on_blocks f) a)) x = in_sync rp err (as_ledger a) x" for x
      by (simp add: on_ledger_def in_sync_blocks)
    moreover have "tool_at (blocks (as_ledger (on_ledger (on_blocks f) a))) = tool_at (blocks (as_ledger a))"
      using that by (simp add: on_ledger_def frame_simps quiet_def)
    ultimately show ?thesis using quiet_asm(1) [where f = f, OF _ that] by (simp add: keeps_def)
  qed
  have names: "keeps a (a\<lparr>as_names := bufs\<rparr>)" for a bufs by (simp add: keeps_def asm_ok_def)
  define a1 where "a1 = (case td_id tc of None \<Rightarrow> a | Some tid \<Rightarrow> on_ledger (on_blocks (set_stream_tool_id i tid)) a)"
  define a2 where "a2 = (if delta_extra tc = None then a1
    else on_ledger (on_blocks (set_tool_extra_content i (delta_extra tc))) a1)"
  have 1: "keeps a a1" using refl step [where f = "set_stream_tool_id i _", OF quiet_id] by (simp add: a1_def split: option.split)
  have 2: "keeps a1 a2" using refl step [where f = "set_tool_extra_content i _", OF quiet_extra] by (simp add: a2_def)
  have eq: "register_delta env i tc a = (case td_name tc of
           None \<Rightarrow> a2
         | Some name \<Rightarrow>
             if name = [] then a2
             else
               (case decode_streamed_tool_name (env_names env) i (as_names a2) name of
                  (resolved, bufs) \<Rightarrow>
                    (case resolved of
                       None \<Rightarrow> a2\<lparr>as_names := bufs\<rparr>
                     | Some n \<Rightarrow> on_ledger (on_blocks (register_tool_name i n)) (a2\<lparr>as_names := bufs\<rparr>))))"
    by (simp only: register_delta_def Let_def a1_def a2_def)
  have 3: "keeps a2 (register_delta env i tc a)"
    unfolding eq using refl names trans [OF names step [where f = "register_tool_name i _", OF quiet_name]]
    by (simp split: option.split prod.split)
  have "keeps a (register_delta env i tc a)" using trans [OF trans [OF 1 2] 3] .
  then show "asm_ok (register_delta env i tc a)"
    "tool_at (blocks (as_ledger (register_delta env i tc a))) = tool_at (blocks (as_ledger a))"
    "in_sync rp err (as_ledger (register_delta env i tc a)) x = in_sync rp err (as_ledger a) x"
    using ok unfolding keeps_def by blast+
qed

lemma good_recorded: "good rp err (record_extra tid d a) r \<Longrightarrow> good rp err a r"
  by (rule same_ledger [of rp err "record_extra tid d a"]) (simp_all add: record_extra_def)

lemma recorded_ok [simp]: "asm_ok (record_extra tid d a) = asm_ok a" "as_ledger (record_extra tid d a) = as_ledger a"
  by (simp_all add: record_extra_def asm_ok_def)

lemma start_tool_states:
  assumes t: "tidy {} L" and off: "tool_at (blocks L) ti = None"
    and ts: "dget (tool_states (blocks (snd (start_tool_block rp ti tid name extra L)))) tj = Some s"
  shows "tj \<noteq> ti \<and> dget (tool_states (blocks L)) tj = Some s \<or> tj = ti \<and> started s"
  using ts unfolding start_tool_tidy(4) [OF t off]
  by (auto simp: start_tool_update_def on_tool_def dget_dmodify update_conv' split: if_splits)

lemma start_delta_good:
  assumes ok: "asm_ok a"
  shows "env_repr env = rp \<Longrightarrow> good rp err a (start_delta env uid i tc a)"
    "start_delta env uid i tc a = Some (es, b) \<Longrightarrow>
      py_strip (the_name (dget (tool_states (blocks (as_ledger a))) i)) \<noteq> [] \<Longrightarrow>
      \<exists>j. tool_at (blocks (as_ledger b)) i = Some j"
proof -
  let ?L = "as_ledger a"
  let ?state = "dget (tool_states (blocks ?L)) i"
  let ?name = "the_name ?state"
  have t: "tidy {} ?L" using ok by (simp add: asm_ok_def)
  have idle: "(case ?state of None \<Rightarrow> True | Some s \<Rightarrow> \<not> started s) \<longleftrightarrow> tool_at (blocks ?L) i = None"
    by (simp add: tool_at_def split: option.split)
  define extra where "extra = (case ?state of Some s \<Rightarrow> tb_extra s | None \<Rightarrow> delta_extra tc)"
  define tid where "tid = (case (case ?state of
              Some s \<Rightarrow> if tb_tool_id s \<noteq> [] then Some (tb_tool_id s) else td_id tc
            | None \<Rightarrow> td_id tc) of
                  Some t \<Rightarrow> if t \<noteq> [] then t else ''tool_'' @ uid
                | None \<Rightarrow> ''tool_'' @ uid)"
  define a1 where "a1 = (case extra of None \<Rightarrow> a | Some d \<Rightarrow> if d = [] then a else record_extra tid d a)"
  have a1: "as_ledger a1 = ?L" "asm_ok a1" using ok by (auto simp: a1_def split: option.split)
  let ?r = "start_tool_block (env_repr env) i tid (py_strip ?name) extra ?L"
  define a2 where "a2 = a1\<lparr>as_ledger := snd ?r\<rparr>"
  have eq: "start_delta env uid i tc a =
      (if tool_at (blocks ?L) i = None \<and> py_strip ?name \<noteq> [] then
         (case dget (tool_states (blocks (as_ledger a2))) i of
            None \<Rightarrow> None
          | Some s \<Rightarrow>
              if pre_start_args s = [] then Some (fst ?r, a2)
              else map_option (\<lambda>(fs, a). (fst ?r @ fs, a))
                (emit_tool_arg_delta env i (pre_start_args s)
                  (on_ledger (on_blocks (on_tool i (\<lambda>s. s\<lparr>pre_start_args := []\<rparr>))) a2)))
       else Some ([], a))"
    by (simp only: start_delta_def Let_def idle extra_def [symmetric] tid_def [symmetric] a1_def [symmetric]
        emit_with_def a1(1) a2_def split_beta fst_conv snd_conv)
  have started: "good (env_repr env) err a (start_delta env uid i tc a) \<and>
      (\<forall>es b. start_delta env uid i tc a = Some (es, b) \<longrightarrow> tool_at (blocks (as_ledger b)) i \<noteq> None)"
    if c: "tool_at (blocks ?L) i = None" "py_strip ?name \<noteq> []" for err
  proof -
    note st = start_tool_tidy [OF t c(1), where rp = "env_repr env" and tid = tid
      and name = "py_strip ?name" and extra = extra]
    have at: "tool_at (blocks (as_ledger a2)) = (tool_at (blocks ?L))(i := Some (next_index (blocks ?L)))"
      by (simp add: a2_def st(3))
    have keep: "tool_at (blocks ?L) tj = Some j \<Longrightarrow> tool_at (blocks (as_ledger a2)) tj = Some j" for tj j
      using c(1) by (auto simp: at)
    have tasks: "tasks_ok (blocks (as_ledger a2))"
      using ok start_tool_states [OF t c(1)] unfolding tasks_ok_def asm_ok_def a2_def by (simp, meson)
    have ok2: "asm_ok a2"
    proof -
      have "as_args a2 = as_args a1" by (simp add: a2_def)
      moreover have "tool_at (blocks (as_ledger a2)) ti \<noteq> None" if "tool_at (blocks ?L) ti \<noteq> None" for ti
        using that keep by (cases "tool_at (blocks ?L) ti") auto
      ultimately show ?thesis using a1 st(2) tasks unfolding asm_ok_def by (simp add: a2_def del: not_None_eq)
    qed
    have on: "tool_at (blocks (as_ledger a2)) i = Some (next_index (blocks ?L))" by (simp add: at)
    obtain s where s: "dget (tool_states (blocks (as_ledger a2))) i = Some s"
      using on by (auto simp: tool_at_def split: option.splits)
    have first: "good (env_repr env) err a (Some (fst ?r, a2))"
      by (rule goodI) (use st(1) ok2 keep in \<open>simp_all add: a2_def\<close>)
    let ?f = "\<lambda>b. on_tool i (\<lambda>s. s\<lparr>pre_start_args := []\<rparr>) b"
    have q: "quiet (blocks (as_ledger a2)) (?f (blocks (as_ledger a2)))" by (rule quiet_on_tool) auto
    note qa = quiet_asm [where f = ?f, OF ok2 q]
    have pre: "good (env_repr env) err a2 (emit_tool_arg_delta env i x (on_ledger (on_blocks ?f) a2))" for x
      by (rule good_quiet [where f = ?f, OF ok2 q]) (rule emit_tool_arg_good [OF qa(1)], simp add: qa(2) on)
    have both: "good (env_repr env) err a (then_try (\<lambda>_. Some (fst ?r, a2))
        (\<lambda>a2. emit_tool_arg_delta env i (pre_start_args s) (on_ledger (on_blocks ?f) a2)) a)"
      by (rule good_then) (use first pre in auto)
    have g: "good (env_repr env) err a (start_delta env uid i tc a)"
      unfolding eq using c s first both by (simp add: then_try_def)
    moreover have "tool_at (blocks (as_ledger b)) i \<noteq> None" if "start_delta env uid i tc a = Some (es, b)" for es b
    proof (cases "pre_start_args s = []")
      case True
      then show ?thesis using that c s on unfolding eq by auto
    next
      case False
      obtain fs b' where e: "emit_tool_arg_delta env i (pre_start_args s) (on_ledger (on_blocks ?f) a2) = Some (fs, b')"
        "\<And>ti j. tool_at (blocks (as_ledger a2)) ti = Some j \<Longrightarrow> tool_at (blocks (as_ledger b')) ti = Some j"
        using pre unfolding good_def by blast
      then have "b = b'" using that c s False unfolding eq by simp
      then show ?thesis using e(2) [OF on] by simp
    qed
    ultimately show ?thesis by blast
  qed
  show "good rp err a (start_delta env uid i tc a)" if "env_repr env = rp"
    using started [of err] good_nothing [OF ok] that
    by (cases "tool_at (blocks ?L) i = None \<and> py_strip ?name \<noteq> []") (auto simp: eq)
  show "\<exists>j. tool_at (blocks (as_ledger b)) i = Some j"
    if "start_delta env uid i tc a = Some (es, b)" "py_strip ?name \<noteq> []"
    using started [of err] that by (cases "tool_at (blocks ?L) i = None") (auto simp: eq)
qed

lemma argument_delta_good:
  assumes ok: "asm_ok a" and named: "py_strip name \<noteq> [] \<Longrightarrow> \<exists>j. tool_at (blocks (as_ledger a)) i = Some j"
  shows "good rp err a (argument_delta env name i tc a)"
proof -
  let ?state = "dget (tool_states (blocks (as_ledger a))) i"
  define args where "args = (case td_args tc of None \<Rightarrow> [] | Some s \<Rightarrow> s)"
  define a1 where "a1 = (case (?state, delta_extra tc) of
      (Some s, Some d) \<Rightarrow> if tb_tool_id s \<noteq> [] then record_extra (tb_tool_id s) d a else a | _ \<Rightarrow> a)"
  have a1: "as_ledger a1 = as_ledger a" "asm_ok a1" using ok by (auto simp: a1_def split: option.split)
  have idle: "(case ?state of None \<Rightarrow> True | Some s \<Rightarrow> \<not> started s) \<longleftrightarrow> tool_at (blocks (as_ledger a)) i = None"
    by (simp add: tool_at_def split: option.split)
  let ?f = "\<lambda>b. on_tool i (\<lambda>s. s\<lparr>pre_start_args := pre_start_args s @ args\<rparr>) (ensure_tool_state i b)"
  have eq: "argument_delta env name i tc a =
      (if args = [] then Some ([], a1)
       else if tool_at (blocks (as_ledger a)) i = None \<and> py_strip name = [] then
         Some ([], on_ledger (on_blocks ?f) a1)
       else if tool_at (blocks (as_ledger a)) i = None then
         emit_tool_arg_delta env i args (on_ledger (on_blocks (ensure_tool_state i)) a1)
       else emit_tool_arg_delta env i args a1)"
    by (simp only: argument_delta_def Let_def idle args_def [symmetric] a1_def [symmetric])
  have q: "quiet (blocks (as_ledger a1)) (?f (blocks (as_ledger a1)))"
    by (rule quiet_trans [OF quiet_ensure [of _ i] quiet_on_tool]) auto
  note qa = quiet_asm [where f = ?f, OF a1(2) q]
  have "good rp err a1 (argument_delta env name i tc a)"
    unfolding eq using good_nothing [OF a1(2)] good_quiet [where f = ?f, OF a1(2) q good_nothing [OF qa(1)]]
      emit_tool_arg_good [OF a1(2)] named a1(1) by (simp del: on_ledger_def) (metis not_None_eq)
  then show ?thesis using a1(1) by (rule same_ledger)
qed

text \<open>Every delta, whatever it holds, is processed without an error and in step with the contract.\<close>

lemma process_tool_call_good:
  assumes ok: "asm_ok a" and rp: "env_repr env = rp"
  shows "good rp err a (process_tool_call env uid tc a)"
proof -
  let ?i = "delta_index tc (as_ledger a)"
  let ?a = "register_delta env ?i tc a"
  let ?name = "the_name (dget (tool_states (blocks (as_ledger ?a))) ?i)"
  note r = register_delta_ok [OF ok, where env = env and i = ?i and tc = tc]
  have "good rp err ?a (then_try (start_delta env uid ?i tc) (argument_delta env ?name ?i tc) ?a)"
  proof (rule good_then)
    show "good rp err ?a (start_delta env uid ?i tc ?a)" by (rule start_delta_good(1) [OF r(1) rp])
    show "good rp err b (argument_delta env ?name ?i tc b)"
      if b: "start_delta env uid ?i tc ?a = Some (es, b)" "asm_ok b" for es b
      by (rule argument_delta_good [OF b(2)]) (rule start_delta_good(2) [OF r(1) b(1)])
  qed
  then have "good rp err a (then_try (start_delta env uid ?i tc) (argument_delta env ?name ?i tc) ?a)"
    by (rule good_from) (simp_all add: r)
  then show ?thesis by (simp add: process_tool_call_def Let_def)
qed

section \<open>Flushing\<close>

lemma emit_all_good:
  assumes "asm_ok a" and "\<And>ti out. (ti, out) \<in> set xs \<Longrightarrow> \<exists>j. tool_at (blocks (as_ledger a)) ti = Some j"
  shows "good rp err a (emit_all xs a)"
  using assms
proof (induction xs arbitrary: a)
  case (Cons x xs)
  obtain ti out where x: "x = (ti, out)" by fastforce
  obtain j where j: "tool_at (blocks (as_ledger a)) ti = Some j" using Cons.prems(2) x by fastforce
  show ?case unfolding x emit_all.simps
  proof (rule good_then)
    show "good rp err a (emit_tool ti out a)" by (rule emit_tool_good [OF Cons.prems(1) j])
    show "good rp err b (emit_all xs b)"
      if b: "asm_ok b" "\<And>tj k. tool_at (blocks (as_ledger a)) tj = Some k \<Longrightarrow> tool_at (blocks (as_ledger b)) tj = Some k" for b
    proof (rule Cons.IH [OF b(1)])
      show "\<exists>j. tool_at (blocks (as_ledger b)) tj = Some j" if "(tj, o') \<in> set xs" for tj o'
        using Cons.prems(2) [of tj o'] b(2) that by fastforce
    qed
  qed
qed (simp add: good_nothing)

lemma quiet_fold_emitted:
  "quiet b (fold (\<lambda>(i, _). on_tool i (\<lambda>s. s\<lparr>task_args_emitted := True, task_arg_buffer := []\<rparr>)) xs b)"
proof (induction xs arbitrary: b)
  case (Cons x xs)
  obtain i s where x: "x = (i, s)" by fastforce
  have "quiet b (on_tool i (\<lambda>s. s\<lparr>task_args_emitted := True, task_arg_buffer := []\<rparr>) b)"
    by (rule quiet_on_tool) auto
  from quiet_trans [OF this Cons.IH] show ?case by (simp add: x)
qed simp

lemma flush_task_good:
  assumes ok: "asm_ok a"
  shows "good rp err a (flush_task_args env a)"
proof -
  let ?b = "blocks (as_ledger a)"
  obtain results b where r: "flush_task_arg_buffers (env_loads env) (env_dumps env) ?b = (results, b)" by fastforce
  have q: "quiet ?b ((\<lambda>_. b) ?b)"
    using r quiet_fold_emitted by (auto simp: flush_task_arg_buffers_def Let_def)
  note qa = quiet_asm [where f = "\<lambda>_. b", OF ok q]
  have keys: "distinct (dkeys (tool_states ?b))" and tasks: "tasks_ok ?b"
    using ok tidyD(6) by (auto simp: asm_ok_def)
  have "\<exists>j. tool_at ?b ti = Some j" if m: "(ti, out) \<in> set results" for ti out
  proof -
    obtain s where s: "(ti, s) \<in> set (tool_states ?b)" "task_arg_buffer s \<noteq> []"
      using m r by (auto simp: flush_task_arg_buffers_def Let_def)
    then have "dget (tool_states ?b) ti = Some s" using keys by (simp add: dget_in)
    moreover have "started s" using calculation tasks s(2) unfolding tasks_ok_def by blast
    ultimately show ?thesis by (simp add: tool_at_def)
  qed
  then have "good rp err (on_ledger (on_blocks (\<lambda>_. b)) a) (emit_all results (on_ledger (on_blocks (\<lambda>_. b)) a))"
    by (intro emit_all_good qa(1)) (simp add: qa(2))
  from good_quiet [where f = "\<lambda>_. b", OF ok q this] show ?thesis by (simp add: flush_task_args_def r)
qed

lemma flush_names_loop_good:
  assumes "asm_ok a" and rp: "env_repr env = rp"
  shows "good rp err a (flush_names_loop env uids xs a)"
  using assms(1)
proof (induction xs arbitrary: a)
  case (Cons x xs)
  obtain i name where x: "x = (i, name)" by fastforce
  let ?tc = "\<lparr>td_index = JInt i, td_id = None, td_name = Some name, td_args = Some [], td_extra = None\<rparr>"
  have ok: "asm_ok (a\<lparr>as_names := None\<rparr>)" using Cons.prems by (simp add: asm_ok_def)
  have p: "good rp err a (process_tool_call env (uids i) ?tc (a\<lparr>as_names := None\<rparr>))"
    by (rule same_ledger [OF process_tool_call_good [OF ok rp]]) simp
  have "good rp err a (map_option (\<lambda>(es, a). (es, a\<lparr>as_names := bufs\<rparr>))
      (process_tool_call env (uids i) ?tc (a\<lparr>as_names := None\<rparr>)))" for bufs
    using p unfolding good_def by (auto simp: asm_ok_def)
  then show ?case unfolding x flush_names_loop.simps Let_def by (rule good_then) (rule Cons.IH)
qed (simp add: good_nothing)

lemma flush_names_good:
  "asm_ok a \<Longrightarrow> env_repr env = rp \<Longrightarrow> good rp err a (flush_tool_name_buffers env uids a)"
  unfolding flush_tool_name_buffers_def by (rule flush_names_loop_good)

lemma flush_aliases_loop_good:
  assumes "asm_ok a" and "\<And>ti h. (ti, h) \<in> set xs \<Longrightarrow> \<exists>j. tool_at (blocks (as_ledger a)) ti = Some j"
  shows "good rp err a (flush_aliases_loop env xs a)"
  using assms
proof (induction xs arbitrary: a)
  case (Cons x xs)
  obtain ti h where x: "x = (ti, h)" by fastforce
  let ?popped = "\<lambda>a. a\<lparr>as_args := map_option (dpop ti) (as_args a)\<rparr>"
  have pop: "asm_ok (?popped b)" if b: "asm_ok b" for b
  proof (cases "as_args b")
    case None
    then show ?thesis using b by (simp add: asm_ok_def)
  next
    case (Some bufs)
    have sub: "set (dkeys (dpop ti bufs)) \<subseteq> set (dkeys bufs)" by (simp only: delete_keys set_removeAll) blast
    have was: "distinct (dkeys bufs)" "\<forall>tj \<in> set (dkeys bufs). tool_at (blocks (as_ledger b)) tj \<noteq> None"
      using b Some unfolding asm_ok_def by blast+
    have "\<forall>tj \<in> set (dkeys (dpop ti bufs)). tool_at (blocks (as_ledger b)) tj \<noteq> None" using was(2) sub by blast
    then show ?thesis using b distinct_delete [OF was(1), of ti] Some unfolding asm_ok_def
      by (simp del: not_None_eq)
  qed
  have rest: "good rp err b (flush_aliases_loop env xs b)"
    if "asm_ok b" "\<And>tj k. tool_at (blocks (as_ledger a)) tj = Some k \<Longrightarrow> tool_at (blocks (as_ledger b)) tj = Some k" for b
  proof (rule Cons.IH [OF that(1)])
    show "\<exists>j. tool_at (blocks (as_ledger b)) tj = Some j" if "(tj, o') \<in> set xs" for tj o'
      using Cons.prems(2) [of tj o'] \<open>\<And>tj k. tool_at (blocks (as_ledger a)) tj = Some k \<Longrightarrow> _\<close> that by fastforce
  qed
  have skip: "good rp err a (flush_aliases_loop env xs a)" by (rule rest [OF Cons.prems(1)])
  have popped: "good rp err a (flush_aliases_loop env xs (?popped a))"
    by (rule same_ledger [OF rest [OF pop [OF Cons.prems(1)]]]) simp_all
  obtain j where j: "tool_at (blocks (as_ledger a)) ti = Some j" using Cons.prems(2) x by fastforce
  have emit: "good rp err a (then_try (\<lambda>a. map_option (\<lambda>(es, a). (es, ?popped a)) (emit_tool ti out a))
      (flush_aliases_loop env xs) a)" for out
  proof (rule good_then)
    show "good rp err a (map_option (\<lambda>(es, a). (es, ?popped a)) (emit_tool ti out a))"
      using emit_tool_good [OF Cons.prems(1) j, of rp err out] pop unfolding good_def by fastforce
  qed (rule rest)
  show ?case
    using skip popped emit by (simp add: x Let_def split: option.split)
qed (simp add: good_nothing)

lemma flush_aliases_good:
  assumes ok: "asm_ok a"
  shows "good rp err a (flush_tool_argument_alias_buffers env a)"
  unfolding flush_tool_argument_alias_buffers_def
proof (rule flush_aliases_loop_good [OF ok])
  fix ti h
  assume "(ti, h) \<in> set (case as_args a of None \<Rightarrow> [] | Some d \<Rightarrow> d)"
  then obtain bufs where "as_args a = Some bufs" "ti \<in> set (dkeys bufs)"
    by (cases "as_args a") (force intro: that)+
  then show "\<exists>j. tool_at (blocks (as_ledger a)) ti = Some j"
    using ok unfolding asm_ok_def by (meson not_None_eq)
qed

section \<open>Writing to the ledger\<close>

lemma tool_states_start [simp]: "tool_states (blocks (snd (content_block_start rp i bt kw L))) = tool_states (blocks L)"
  by (simp add: content_block_start_def record_block_start_def Let_def reserve_index_def frame_simps)

lemma tool_states_delta [simp]: "tool_states (blocks (snd (content_block_delta i dt s L))) = tool_states (blocks L)"
  by (simp add: content_block_delta_def record_block_delta_def record_part_def frame_simps
      split: option.split json.split)

lemma tool_states_stop [simp]: "tool_states (blocks (snd (content_block_stop i L))) = tool_states (blocks L)"
  by (simp add: content_block_stop_def record_block_stop_def close_block_state_def clear_active_content_block_def
      frame_simps split: option.split)

lemma tool_states_writes [simp]:
  "tool_states (blocks (snd (ensure_text_block rp L))) = tool_states (blocks L)"
  "tool_states (blocks (snd (ensure_thinking_block rp L))) = tool_states (blocks L)"
  "tool_states (blocks (snd (close_content_blocks L))) = tool_states (blocks L)"
  "tool_states (blocks (snd (emit_text_delta s L))) = tool_states (blocks L)"
  "tool_states (blocks (snd (emit_thinking_delta s L))) = tool_states (blocks L)"
  by (simp_all add: ensure_text_block_def ensure_thinking_block_def close_content_blocks_def snd_then_emit
      emit_when_def start_text_block_def start_thinking_block_def stop_text_block_def stop_thinking_block_def
      allocate_index_def emit_text_delta_def emit_thinking_delta_def frame_simps)

text \<open>An emission that opens and closes blocks other than those of the tools.\<close>

definition calm :: "(json \<Rightarrow> string) \<Rightarrow> bool \<Rightarrow> emits \<Rightarrow> bool" where
  "calm rp err f \<longleftrightarrow>
     (\<forall>L. tidy {} L \<longrightarrow>
        in_sync rp err L (f L) \<and> tidy {} (snd (f L)) \<and> tool_states (blocks (snd (f L))) = tool_states (blocks L))"

lemma calmD:
  assumes "calm rp err f" "tidy {} L"
  shows "in_sync rp err L (f L)" "tidy {} (snd (f L))" "tool_states (blocks (snd (f L))) = tool_states (blocks L)"
  using assms by (auto simp: calm_def)

lemma calm_nothing: "calm rp err emit_nothing"
  by (simp add: calm_def emit_nothing_def in_sync_nothing)

lemma calm_then: "calm rp err f \<Longrightarrow> calm rp err g \<Longrightarrow> calm rp err (then_emit f g)"
  unfolding calm_def snd_then_emit by (metis then_emit_sync)

lemma calm_close: "calm rp err close_content_blocks"
  using close_content_tidy(1,2) by (simp add: calm_def)

definition thinking_events :: "(json \<Rightarrow> string) \<Rightarrow> string \<Rightarrow> emits" where
  "thinking_events rp s = then_emit (ensure_thinking_block rp) (emit_thinking_delta s)"

definition visible_text_events :: "(json \<Rightarrow> string) \<Rightarrow> string \<Rightarrow> emits" where
  "visible_text_events rp s = then_emit (ensure_text_block rp) (emit_text_delta s)"

lemma calm_thinking: "calm rp err (thinking_events rp s)"
  unfolding calm_def thinking_events_def
proof (intro allI impI)
  fix L assume t: "tidy {} L"
  let ?M = "snd (ensure_thinking_block rp L)"
  note e = ensure_thinking_tidy [OF t, of rp]
  have act: "active_at (blocks ?M) (thinking_index (blocks ?M)) ''thinking''"
    using e(3) by (simp add: active_at_def thinking_at_def)
  have dt: "delta_for ''thinking'' ''thinking_delta''" by (simp add: delta_for_def)
  note d = delta_tidy [OF e(2) disjI1 [OF act] dt, where s = s, folded emit_thinking_delta_def]
  show "in_sync rp err L (then_emit (ensure_thinking_block rp) (emit_thinking_delta s) L) \<and>
      tidy {} (snd (then_emit (ensure_thinking_block rp) (emit_thinking_delta s) L)) \<and>
      tool_states (blocks (snd (then_emit (ensure_thinking_block rp) (emit_thinking_delta s) L))) = tool_states (blocks L)"
    using then_emit_sync [where f = "ensure_thinking_block rp" and g = "emit_thinking_delta s", OF e(1) d(1)] d(2)
    by (simp add: snd_then_emit)
qed

lemma calm_text: "calm rp err (visible_text_events rp s)"
  unfolding calm_def visible_text_events_def
proof (intro allI impI)
  fix L assume t: "tidy {} L"
  let ?M = "snd (ensure_text_block rp L)"
  note e = ensure_text_tidy [OF t, of rp]
  have act: "active_at (blocks ?M) (text_index (blocks ?M)) ''text''"
    using e(3) by (simp add: active_at_def text_at_def)
  have dt: "delta_for ''text'' ''text_delta''" by (simp add: delta_for_def)
  note d = delta_tidy [OF e(2) disjI1 [OF act] dt, where s = s, folded emit_text_delta_def]
  show "in_sync rp err L (then_emit (ensure_text_block rp) (emit_text_delta s) L) \<and>
      tidy {} (snd (then_emit (ensure_text_block rp) (emit_text_delta s) L)) \<and>
      tool_states (blocks (snd (then_emit (ensure_text_block rp) (emit_text_delta s) L))) = tool_states (blocks L)"
    using then_emit_sync [where f = "ensure_text_block rp" and g = "emit_text_delta s", OF e(1) d(1)] d(2)
    by (simp add: snd_then_emit)
qed

lemma calm_ensure_thinking: "calm rp err (ensure_thinking_block rp)"
  using ensure_thinking_tidy(1,2) by (simp add: calm_def)

text \<open>A block that is opened, perhaps filled, and closed in one go.\<close>

lemma calm_loose:
  assumes bt: "bt = ''tool_use'' \<or> bt = ''redacted_thinking''" and kw: "plain_kwargs kw"
    and fill: "fill = None \<or> bt = ''tool_use''"
  shows "calm rp err (\<lambda>L. case allocate_index L of (i, L) \<Rightarrow>
      then_emit (content_block_start rp i bt kw)
        (then_emit (case fill of None \<Rightarrow> emit_nothing | Some s \<Rightarrow> content_block_delta i ''input_json_delta'' s)
           (content_block_stop i)) L)"
  unfolding calm_def
proof (intro allI impI)
  fix L assume t: "tidy {} L"
  define i where "i = next_index (blocks L)"
  define L1 where "L1 = snd (allocate_index L)"
  let ?start = "content_block_start rp i bt kw" and ?stop = "content_block_stop i"
  let ?mid = "case fill of None \<Rightarrow> emit_nothing | Some s \<Rightarrow> content_block_delta i ''input_json_delta'' s"
  have al: "allocate_index L = (i, L1)" by (simp add: allocate_index_def i_def L1_def)
  note o = open_loose_tidy [OF t bt kw, of rp, folded i_def L1_def]
  let ?M = "snd (?start L1)"
  have mid: "in_sync rp err ?M (?mid ?M) \<and> tidy {i} (snd (?mid ?M)) \<and> open_stack (snd (?mid ?M)) = open_stack ?M \<and>
      kind_of (snd (?mid ?M)) = kind_of ?M \<and> tool_states (blocks (snd (?mid ?M))) = tool_states (blocks ?M)"
  proof (cases fill)
    case None
    then show ?thesis using o(2) by (simp add: emit_nothing_def in_sync_nothing)
  next
    case (Some s)
    with fill have tool: "bt = ''tool_use''" by simp
    have dt: "delta_for (kind_of ?M i) ''input_json_delta''" using o(4) tool by (simp add: delta_for_def)
    have "i \<in> {i} \<and> i \<in> set (open_stack ?M) \<and> kind_of ?M i = kind_of ?M i" using o(3) by simp
    note d = delta_tidy [OF o(2) disjI2 [OF this] dt, where s = s]
    show ?thesis using d delta_view(4) [OF tidyD(1) [OF o(2)] o(3) dt] Some by simp
  qed
  let ?N = "snd (?mid ?M)"
  have kinds: "kind_of ?N i \<noteq> ''text''" "kind_of ?N i \<noteq> ''thinking''" "i \<in> set (open_stack ?N)"
    using mid o(3,4) bt by auto
  note c = close_loose_tidy [OF _ kinds(3,1,2)]
  have t3: "tidy {i} ?N" using mid by blast
  have s1: "in_sync rp err L (?start L1)" by (rule o(1))
  have s2: "in_sync rp err ?M (then_emit ?mid ?stop ?M)" by (rule then_emit_sync) (use mid c(1) [OF t3] in blast)+
  have L1: "in_sync rp err L1 x = in_sync rp err L x" for x by (simp add: L1_def allocate_index_def in_sync_blocks)
  have "in_sync rp err L1 (then_emit ?start (then_emit ?mid ?stop) L1)"
    by (rule then_emit_sync) (use s1 s2 L1 in simp_all)
  moreover have "tool_states (blocks L1) = tool_states (blocks L)" by (simp add: L1_def allocate_index_def frame_simps)
  ultimately show "in_sync rp err L (case allocate_index L of (i, L) \<Rightarrow>
        then_emit (content_block_start rp i bt kw)
          (then_emit (case fill of None \<Rightarrow> emit_nothing | Some s \<Rightarrow> content_block_delta i ''input_json_delta'' s)
             (content_block_stop i)) L) \<and>
      tidy {} (snd (case allocate_index L of (i, L) \<Rightarrow>
        then_emit (content_block_start rp i bt kw)
          (then_emit (case fill of None \<Rightarrow> emit_nothing | Some s \<Rightarrow> content_block_delta i ''input_json_delta'' s)
             (content_block_stop i)) L)) \<and>
      tool_states (blocks (snd (case allocate_index L of (i, L) \<Rightarrow>
        then_emit (content_block_start rp i bt kw)
          (then_emit (case fill of None \<Rightarrow> emit_nothing | Some s \<Rightarrow> content_block_delta i ''input_json_delta'' s)
             (content_block_stop i)) L))) = tool_states (blocks L)"
    using mid c(2) [OF t3] by (simp add: al L1 snd_then_emit)
qed

lemma calm_text_tool:
  assumes "env_repr env = rp"
  shows "calm rp err (text_tool_use_events env tid name input)"
  unfolding text_tool_use_events_def Let_def
  using calm_then [OF calm_close calm_loose [of "''tool_use''" "[(''id'', JStr tid), (''name'', JStr n)]" "Some x" for n x]]
    assms by simp

text \<open>A calm emission on the assembly.\<close>

lemma calm_good:
  assumes c: "calm rp err f" and ok: "asm_ok a"
  shows "good rp err a (Some (emit_with f a))"
proof -
  obtain es L where f: "f (as_ledger a) = (es, L)" by fastforce
  have t: "tidy {} (as_ledger a)" using ok by (simp add: asm_ok_def)
  note d = calmD [OF c t, unfolded f snd_conv]
  have "tool_at (blocks L) = tool_at (blocks (as_ledger a))" by (rule tool_at_cong) (rule d)
  then show ?thesis
    using ok d by (simp add: emit_with_def f good_def asm_ok_def tasks_ok_def)
qed

end
