(* ===== verification/Provider_Stream.thy ===== *)
theory Provider_Stream
  imports Think_Parser Function_Tags Heuristic_Tools Assembly_Invariant
begin

text \<open>
  The stream of one request in \<open>providers/openai_chat/provider.py\<close> (\<open>_OpenAIChatStreamRunner.run\<close>)
  and \<open>StructuredReasoningStream\<close> of \<open>reasoning_details.py\<close>: upstream chunks go through the think
  parser, the function-tag parser, the heuristic parser and the tool assembly into the ledger.
  A chunk is what the SDK object holds; of a delta's reasoning, \<open>ud_reasoning\<close> is what the
  provider's profile reads. Requests, retries and tracing are left out; the base class's empty hooks
  (\<open>_handle_extra_reasoning\<close>, \<open>_normalize_stream\<close>) are as they are there.
\<close>

section \<open>Structured reasoning\<close>

datatype text_source = Native | Details

definition detail_field :: "json \<Rightarrow> string \<Rightarrow> json" where
  "detail_field j k = (case j of JObj d \<Rightarrow> jget d k | _ \<Rightarrow> JNull)"

text \<open>\<open>str(x or "").lower()\<close>.\<close>

definition json_truthy :: "json \<Rightarrow> bool" where
  "json_truthy j =
     (case j of JNull \<Rightarrow> False | JBool b \<Rightarrow> b | JInt i \<Rightarrow> i \<noteq> 0 | JFloat s \<Rightarrow> s \<notin> {''0.0'', ''-0.0''}
      | JStr s \<Rightarrow> s \<noteq> [] | JArr xs \<Rightarrow> xs \<noteq> [] | JObj d \<Rightarrow> d \<noteq> [])"

definition detail_kind :: "(json \<Rightarrow> string) \<Rightarrow> json \<Rightarrow> string" where
  "detail_kind rp j =
     py_lower (if json_truthy (detail_field j ''type'') then py_str rp (detail_field j ''type'') else [])"

definition contains_text :: "string \<Rightarrow> string \<Rightarrow> bool" where
  "contains_text s t \<longleftrightarrow> py_find s t \<noteq> None"

definition nonempty_string :: "json \<Rightarrow> string option" where
  "nonempty_string j = (case j of JStr s \<Rightarrow> if s = [] then None else Some s | _ \<Rightarrow> None)"

definition reasoning_detail_text :: "(json \<Rightarrow> string) \<Rightarrow> json \<Rightarrow> string option" where
  "reasoning_detail_text rp j =
     (if contains_text ''encrypted'' (detail_kind rp j) \<or> contains_text ''redacted'' (detail_kind rp j) then None
      else or_else (nonempty_string (detail_field j ''text''))
             (or_else (nonempty_string (detail_field j ''content''))
                      (nonempty_string (detail_field j ''reasoning''))))"

definition preserved_reasoning_detail :: "(json \<Rightarrow> string) \<Rightarrow> (json \<Rightarrow> string) \<Rightarrow> json \<Rightarrow> string option" where
  "preserved_reasoning_detail rp compact j =
     (case j of
        JObj d \<Rightarrow>
          (let kind = detail_kind rp j in
           if contains_text ''encrypted'' kind \<or> contains_text ''redacted'' kind \<or> contains_text ''summary'' kind \<or>
              (case jget d ''signature'' of JStr _ \<Rightarrow> True | _ \<Rightarrow> False) \<or> reasoning_detail_text rp j = None
           then Some (compact j) else None)
      | _ \<Rightarrow> None)"

definition redacted_events :: "(json \<Rightarrow> string) \<Rightarrow> string \<Rightarrow> emits" where
  "redacted_events rp s =
     then_emit close_content_blocks
       (\<lambda>L. case allocate_index L of (i, L) \<Rightarrow>
          then_emit (content_block_start rp i ''redacted_thinking'' [(''data'', JStr s)])
            (then_emit emit_nothing (content_block_stop i)) L)"

fun detail_events :: "(json \<Rightarrow> string) \<Rightarrow> (json \<Rightarrow> string) \<Rightarrow> text_source option \<Rightarrow> json list \<Rightarrow> emits" where
  "detail_events rp compact source [] = emit_nothing"
| "detail_events rp compact source (j # js) =
     then_emit
       (case reasoning_detail_text rp j of
          Some s \<Rightarrow> if source = Some Details then thinking_events rp s else emit_nothing
        | None \<Rightarrow> emit_nothing)
       (then_emit
          (case preserved_reasoning_detail rp compact j of
             Some s \<Rightarrow> if s = [] then emit_nothing else redacted_events rp s
           | None \<Rightarrow> emit_nothing)
          (detail_events rp compact source js))"

definition choose_source ::
  "(json \<Rightarrow> string) \<Rightarrow> string option \<Rightarrow> json list \<Rightarrow> text_source option \<Rightarrow> text_source option" where
  "choose_source rp native details source =
     (case source of
        Some s \<Rightarrow> Some s
      | None \<Rightarrow>
          if truthy native then Some Native
          else if \<exists>j \<in> set details. reasoning_detail_text rp j \<noteq> None then Some Details
          else None)"

definition structured_events ::
  "(json \<Rightarrow> string) \<Rightarrow> (json \<Rightarrow> string) \<Rightarrow> string option \<Rightarrow> json list \<Rightarrow> text_source option \<Rightarrow> emits" where
  "structured_events rp compact native details source =
     then_emit
       (case native of
          Some s \<Rightarrow> if source = Some Native \<and> s \<noteq> [] then thinking_events rp s else emit_nothing
        | None \<Rightarrow> emit_nothing)
       (detail_events rp compact source details)"

section \<open>Chunks and the state of a run\<close>

record upstream_delta =
  ud_reasoning :: "string option"
  ud_details :: "json list"
  ud_tools :: "tool_delta list"
  ud_content :: "string option"

text \<open>
  \<open>uc_delta\<close> is \<open>None\<close> when the chunk has no choice, or its choice no delta; \<open>uc_finish\<close> is the finish
  reason of the choice.
\<close>

record upstream_chunk =
  uc_usage :: "(string, json) dict option"
  uc_finish :: "string option"
  uc_delta :: "upstream_delta option"

record stream_env =
  se_tools :: assembly_env
  se_output :: bool
  se_compact :: "json \<Rightarrow> string"
  se_valid :: validator
  se_estimate :: "string \<Rightarrow> nat"

text \<open>\<open>sr_source\<close> is \<open>None\<close> for a profile without structured reasoning.\<close>

record stream_run =
  sr_asm :: assembly
  sr_think :: think_parser
  sr_tags :: tag_parser
  sr_heuristic :: heuristic_parser
  sr_source :: "text_source option option"
  sr_finish :: "string option"
  sr_usage :: "(string, json) dict option"

abbreviation se_rp :: "stream_env \<Rightarrow> json \<Rightarrow> string" where
  "se_rp env \<equiv> env_repr (se_tools env)"

type_synonym run_step = "stream_run \<Rightarrow> (sse_event list \<times> stream_run) option"

definition new_run :: "stream_ledger \<Rightarrow> tag_parser \<Rightarrow> bool \<Rightarrow> stream_run" where
  "new_run L tags structured =
     \<lparr>sr_asm = \<lparr>as_ledger = L, as_names = Some [], as_args = Some [], as_recorded = []\<rparr>,
      sr_think = new_think_parser, sr_tags = tags, sr_heuristic = new_heuristic_parser,
      sr_source = (if structured then Some None else None), sr_finish = None, sr_usage = None\<rparr>"

definition run_ledger :: "stream_run \<Rightarrow> stream_ledger" where
  "run_ledger r = as_ledger (sr_asm r)"

definition run_emit :: "emits \<Rightarrow> run_step" where
  "run_emit f r = (case emit_with f (sr_asm r) of (es, a) \<Rightarrow> Some (es, r\<lparr>sr_asm := a\<rparr>))"

definition run_asm :: "(assembly \<Rightarrow> (sse_event list \<times> assembly) option) \<Rightarrow> run_step" where
  "run_asm f r = map_option (\<lambda>(es, a). (es, r\<lparr>sr_asm := a\<rparr>)) (f (sr_asm r))"

text \<open>A change of the parsers' state, which emits nothing itself.\<close>

definition run_set :: "(stream_run \<Rightarrow> stream_run) \<Rightarrow> run_step" where
  "run_set f r = Some ([], f r)"

fun run_all :: "run_step list \<Rightarrow> run_step" where
  "run_all [] r = Some ([], r)"
| "run_all (f # fs) r = then_try f (run_all fs) r"

definition run_when :: "bool \<Rightarrow> run_step \<Rightarrow> run_step" where
  "run_when b f r = (if b then f r else Some ([], r))"

section \<open>One chunk\<close>

definition reasoning_step :: "stream_env \<Rightarrow> upstream_delta \<Rightarrow> run_step" where
  "reasoning_step env d r =
     (if \<not> se_output env then Some ([], r)
      else
        (case sr_source r of
           Some source \<Rightarrow>
             (let source = choose_source (se_rp env) (ud_reasoning d) (ud_details d) source in
              run_emit (structured_events (se_rp env) (se_compact env) (ud_reasoning d) (ud_details d) source)
                (r\<lparr>sr_source := Some source\<rparr>))
         | None \<Rightarrow>
             (case ud_reasoning d of
                None \<Rightarrow> Some ([], r)
              | Some s \<Rightarrow>
                  if s = [] then run_emit (ensure_thinking_block (se_rp env)) r
                  else run_emit (thinking_events (se_rp env) s) r)))"

text \<open>Text that passed the function-tag parser goes through the heuristic parser.\<close>

fun tool_uses_step :: "stream_env \<Rightarrow> detected list \<Rightarrow> run_step" where
  "tool_uses_step env [] r = Some ([], r)"
| "tool_uses_step env ((tid, name, input) # rest) r =
     then_try (run_emit (text_tool_use_events (se_tools env) tid name input)) (tool_uses_step env rest) r"

definition visible_step :: "stream_env \<Rightarrow> string \<Rightarrow> run_step" where
  "visible_step env s r = (if s = [] then Some ([], r) else run_emit (visible_text_events (se_rp env) s) r)"

definition text_parser_step :: "stream_env \<Rightarrow> (nat \<Rightarrow> string) \<Rightarrow> string \<Rightarrow> run_step" where
  "text_parser_step env ids s r =
     (case heuristic_feed (env_loads (se_tools env)) ids s (sr_heuristic r) of
        (filtered, found, h) \<Rightarrow>
          then_try (visible_step env filtered) (tool_uses_step env found) (r\<lparr>sr_heuristic := h\<rparr>))"

definition content_part_step :: "stream_env \<Rightarrow> (nat \<Rightarrow> string) \<Rightarrow> content_chunk \<Rightarrow> run_step" where
  "content_part_step env ids part r =
     (case part of
        (Thinking, s) \<Rightarrow> if se_output env then run_emit (thinking_events (se_rp env) s) r else Some ([], r)
      | (Text, s) \<Rightarrow>
          (case tag_feed s (sr_tags r) of
             (safe, tags) \<Rightarrow>
               if safe = [] then Some ([], r\<lparr>sr_tags := tags\<rparr>)
               else text_parser_step env ids safe (r\<lparr>sr_tags := tags\<rparr>)))"

fun content_parts_step :: "stream_env \<Rightarrow> (nat \<Rightarrow> string) \<Rightarrow> content_chunk list \<Rightarrow> run_step" where
  "content_parts_step env ids [] r = Some ([], r)"
| "content_parts_step env ids (p # ps) r =
     then_try (content_part_step env ids p) (content_parts_step env ids ps) r"

text \<open>A native tool call ends the search for tool calls in text.\<close>

definition disable_step :: "stream_env \<Rightarrow> run_step" where
  "disable_step env r =
     (case tag_disable (sr_tags r) of (released, tags) \<Rightarrow> visible_step env released (r\<lparr>sr_tags := tags\<rparr>))"

fun tool_calls_step :: "stream_env \<Rightarrow> (nat \<Rightarrow> string) \<Rightarrow> nat \<Rightarrow> tool_delta list \<Rightarrow> run_step" where
  "tool_calls_step env ids k [] r = Some ([], r)"
| "tool_calls_step env ids k (tc # tcs) r =
     then_try (run_asm (process_tool_call (se_tools env) (ids k) tc)) (tool_calls_step env ids (k + 1) tcs) r"

definition content_step :: "stream_env \<Rightarrow> (nat \<Rightarrow> string) \<Rightarrow> upstream_delta \<Rightarrow> run_step" where
  "content_step env ids d r =
     (case ud_content d of
        None \<Rightarrow> Some ([], r)
      | Some s \<Rightarrow>
          if s = [] then Some ([], r)
          else (case think_feed s (sr_think r) of
                  (parts, think) \<Rightarrow> content_parts_step env ids parts (r\<lparr>sr_think := think\<rparr>)))"

definition delta_step :: "stream_env \<Rightarrow> (nat \<Rightarrow> string) \<Rightarrow> string option \<Rightarrow> upstream_delta \<Rightarrow> run_step" where
  "delta_step env ids finish d =
     run_all
       [run_set (\<lambda>r. if truthy finish then r\<lparr>sr_finish := finish\<rparr> else r),
        reasoning_step env d,
        run_when (ud_tools d \<noteq> []) (disable_step env),
        content_step env ids d,
        run_when (ud_tools d \<noteq> []) (run_emit close_content_blocks),
        tool_calls_step env ids 0 (ud_tools d)]"

definition chunk_step :: "stream_env \<Rightarrow> (nat \<Rightarrow> string) \<Rightarrow> upstream_chunk \<Rightarrow> run_step" where
  "chunk_step env ids c r =
     (let r = (if uc_usage c = None then r else r\<lparr>sr_usage := uc_usage c\<rparr>) in
      case uc_delta c of None \<Rightarrow> Some ([], r) | Some d \<Rightarrow> delta_step env ids (uc_finish c) d r)"

fun chunks_step :: "stream_env \<Rightarrow> (nat \<Rightarrow> nat \<Rightarrow> string) \<Rightarrow> nat \<Rightarrow> upstream_chunk list \<Rightarrow> run_step" where
  "chunks_step env ids n [] r = Some ([], r)"
| "chunks_step env ids n (c # cs) r =
     then_try (chunk_step env (ids n) c) (chunks_step env ids (n + 1) cs) r"

section \<open>The end of the stream\<close>

datatype stream_error = No_Finish_Reason | Incomplete_Tool_Name

definition ending_error :: "stream_env \<Rightarrow> stream_run \<Rightarrow> stream_error option" where
  "ending_error env r =
     (if sr_finish r = None then Some No_Finish_Reason
      else if \<exists>name \<in> set (map snd (case as_names (sr_asm r) of None \<Rightarrow> [] | Some d \<Rightarrow> d)).
                (case env_names (se_tools env) of None \<Rightarrow> True | Some c \<Rightarrow> \<not> is_unchanged_name c name)
      then Some Incomplete_Tool_Name
      else None)"

definition detected_of :: "tool_use \<Rightarrow> detected" where
  "detected_of u = (tu_id u, tu_name u, tu_input u)"

definition think_rest_step :: "stream_env \<Rightarrow> (nat \<Rightarrow> string) \<Rightarrow> run_step" where
  "think_rest_step env ids r =
     (case think_flush (sr_think r) of
        (None, think) \<Rightarrow> Some ([], r\<lparr>sr_think := think\<rparr>)
      | (Some part, think) \<Rightarrow> content_part_step env ids part (r\<lparr>sr_think := think\<rparr>))"

definition tags_rest_step :: "stream_env \<Rightarrow> (nat \<Rightarrow> string) \<Rightarrow> run_step" where
  "tags_rest_step env ids r =
     (case tag_finish (env_loads (se_tools env)) (se_rp env) (\<lambda>args schema. se_valid env schema args) ids (sr_tags r) of
        (fallback, uses, tags) \<Rightarrow>
          then_try (visible_step env fallback) (tool_uses_step env (map detected_of uses)) (r\<lparr>sr_tags := tags\<rparr>))"

definition heuristic_rest_step :: "stream_env \<Rightarrow> run_step" where
  "heuristic_rest_step env r =
     (case heuristic_flush (sr_heuristic r) of
        (found, h) \<Rightarrow> tool_uses_step env found (r\<lparr>sr_heuristic := h\<rparr>))"

definition ending_step :: "stream_env \<Rightarrow> (nat \<Rightarrow> string) \<Rightarrow> run_step" where
  "ending_step env ids = run_all [think_rest_step env ids, tags_rest_step env ids, heuristic_rest_step env]"

section \<open>Completion\<close>

definition stop_reason_map :: "(string, string) dict" where
  "stop_reason_map =
     [(''stop'', ''end_turn''), (''length'', ''max_tokens''), (''tool_calls'', ''tool_use''),
      (''content_filter'', ''end_turn'')]"

definition map_stop_reason :: "string option \<Rightarrow> string" where
  "map_stop_reason reason =
     (case reason of
        None \<Rightarrow> ''end_turn''
      | Some s \<Rightarrow> (case dget stop_reason_map s of None \<Rightarrow> ''end_turn'' | Some t \<Rightarrow> t))"

definition usage_int :: "(string, json) dict option \<Rightarrow> string \<Rightarrow> int option" where
  "usage_int usage k =
     (case usage of None \<Rightarrow> None | Some d \<Rightarrow> (case jget d k of JInt i \<Rightarrow> Some i | _ \<Rightarrow> None))"

definition usage_nested_int :: "(string, json) dict option \<Rightarrow> string \<Rightarrow> string \<Rightarrow> int option" where
  "usage_nested_int usage parent k =
     (case usage of
        None \<Rightarrow> None
      | Some d \<Rightarrow> (case jget d parent of JObj e \<Rightarrow> usage_int (Some e) k | _ \<Rightarrow> None))"

definition anthropic_usage_fields :: "(string, json) dict option \<Rightarrow> (string, json) dict" where
  "anthropic_usage_fields usage =
     (case (usage_int usage ''prompt_tokens'', usage_nested_int usage ''prompt_tokens_details'' ''cached_tokens'') of
        (Some p, Some c) \<Rightarrow>
          if c < 0 \<or> c > p then []
          else [(''input_tokens'', JInt (p - c)), (''cache_read_input_tokens'', JInt c)]
      | _ \<Rightarrow> [])"

text \<open>A message needs a visible block: nothing at all, or reasoning alone, gets a blank text.\<close>

definition needs_blank :: "stream_ledger \<Rightarrow> bool" where
  "needs_blank L \<longleftrightarrow>
     (let tool = has_emitted_tool_block L;
          content = (text_index (blocks L) \<noteq> -1 \<or> thinking_index (blocks L) \<noteq> -1 \<or> tool)
      in \<not> content \<or> \<not> tool \<and> py_strip (accumulated_text L) = [] \<and> py_strip (accumulated_reasoning L) \<noteq> [])"

definition blank_step :: "stream_env \<Rightarrow> run_step" where
  "blank_step env r =
     (if needs_blank (run_ledger r) then run_emit (visible_text_events (se_rp env) '' '') r else Some ([], r))"

definition final_delta :: "stream_env \<Rightarrow> int \<Rightarrow> stream_run \<Rightarrow> emits" where
  "final_delta env in_tokens r L =
     message_delta (final_stop_reason (map_stop_reason (sr_finish r)) L)
       (case usage_int (sr_usage r) ''completion_tokens'' of
          Some i \<Rightarrow> JInt i | None \<Rightarrow> JInt (int (estimate_output_tokens (se_estimate env) L)))
       (JInt (case usage_int (sr_usage r) ''prompt_tokens'' of Some i \<Rightarrow> i | None \<Rightarrow> in_tokens))
       (anthropic_usage_fields (sr_usage r)) L"

definition completion_step :: "stream_env \<Rightarrow> (int \<Rightarrow> string) \<Rightarrow> int \<Rightarrow> run_step" where
  "completion_step env uids in_tokens =
     run_all
       [run_asm (flush_tool_name_buffers (se_tools env) uids),
        blank_step env,
        run_asm (flush_tool_argument_alias_buffers (se_tools env)),
        run_asm (flush_task_args (se_tools env)),
        run_emit close_all_blocks,
        (\<lambda>r. run_emit (final_delta env in_tokens r) r),
        run_emit message_stop]"

text \<open>A whole answer: the events sent, and the error that ended it, if any.\<close>

definition provider_stream ::
  "stream_env \<Rightarrow> (nat \<Rightarrow> nat \<Rightarrow> string) \<Rightarrow> (int \<Rightarrow> string) \<Rightarrow> int \<Rightarrow> upstream_chunk list \<Rightarrow> stream_run \<Rightarrow>
   (sse_event list \<times> stream_error option \<times> stream_run) option" where
  "provider_stream env ids uids in_tokens chunks r0 =
     (case then_try (run_emit message_start) (chunks_step env ids 0 chunks) r0 of
        None \<Rightarrow> None
      | Some (es, r) \<Rightarrow>
          (case ending_error env r of
             Some e \<Rightarrow> Some (es, Some e, r)
           | None \<Rightarrow>
               map_option (\<lambda>(fs, r). (es @ fs, None, r))
                 (then_try (ending_step env (ids (length chunks))) (completion_step env uids in_tokens) r)))"

end
