(* ===== verification/Provider_Invariant.thy ===== *)
theory Provider_Invariant
  imports Provider_Stream
begin

text \<open>
  Every step of a provider's stream returns, keeps the assembly's invariant and emits only what the
  contract accepts; a whole answer is then accepted, and so is one cut short, once its open blocks
  are closed.
\<close>

section \<open>Sound steps\<close>

text \<open>The function \<open>F\<close> says what a step does to the finish reason; a sound step leaves it alone.\<close>

definition reaches ::
  "(json \<Rightarrow> string) \<Rightarrow> bool \<Rightarrow> (string option \<Rightarrow> string option) \<Rightarrow> run_step \<Rightarrow> bool" where
  "reaches rp err F f \<longleftrightarrow>
     (\<forall>r. asm_ok (sr_asm r) \<longrightarrow>
        (\<exists>es q. f r = Some (es, q) \<and> in_sync rp err (run_ledger r) (es, run_ledger q) \<and> asm_ok (sr_asm q) \<and>
           sr_finish q = F (sr_finish r)))"

abbreviation sound :: "(json \<Rightarrow> string) \<Rightarrow> bool \<Rightarrow> run_step \<Rightarrow> bool" where
  "sound rp err \<equiv> reaches rp err (\<lambda>x. x)"

lemma reachesD:
  assumes "reaches rp err F f" "asm_ok (sr_asm r)"
  obtains es q where "f r = Some (es, q)" "in_sync rp err (run_ledger r) (es, run_ledger q)" "asm_ok (sr_asm q)"
    "sr_finish q = F (sr_finish r)"
  using assms unfolding reaches_def by blast

lemma reachesI:
  assumes "\<And>r. asm_ok (sr_asm r) \<Longrightarrow>
    \<exists>es q. f r = Some (es, q) \<and> in_sync rp err (run_ledger r) (es, run_ledger q) \<and> asm_ok (sr_asm q) \<and>
      sr_finish q = F (sr_finish r)"
  shows "reaches rp err F f"
  using assms by (simp add: reaches_def)

lemma reaches_then:
  assumes f: "reaches rp err F f" and g: "reaches rp err G g"
  shows "reaches rp err (\<lambda>x. G (F x)) (then_try f g)"
proof (rule reachesI)
  fix r :: stream_run assume r: "asm_ok (sr_asm r)"
  from f r obtain es q where 1: "f r = Some (es, q)" "in_sync rp err (run_ledger r) (es, run_ledger q)"
    "asm_ok (sr_asm q)" "sr_finish q = F (sr_finish r)" by (rule reachesD)
  from g 1(3) obtain fs p where 2: "g q = Some (fs, p)" "in_sync rp err (run_ledger q) (fs, run_ledger p)"
    "asm_ok (sr_asm p)" "sr_finish p = G (sr_finish q)" by (rule reachesD)
  show "\<exists>es q. then_try f g r = Some (es, q) \<and> in_sync rp err (run_ledger r) (es, run_ledger q) \<and>
      asm_ok (sr_asm q) \<and> sr_finish q = G (F (sr_finish r))"
    using in_sync_trans [OF 1(2) 2(2)] 2(3,4) 1(4) by (simp add: then_try_def 1(1) 2(1))
qed

lemma sound_then [intro]: "sound rp err f \<Longrightarrow> sound rp err g \<Longrightarrow> sound rp err (then_try f g)"
  by (rule reaches_then [where F = "\<lambda>x. x" and G = "\<lambda>x. x"])

lemma sound_nothing [simp, intro]: "sound rp err (\<lambda>r. Some ([], r))"
  by (simp add: reaches_def in_sync_nothing)

lemma sound_all: "\<forall>f \<in> set fs. sound rp err f \<Longrightarrow> sound rp err (run_all fs)"
proof (induction fs)
  case Nil
  then show ?case by (simp add: reaches_def in_sync_nothing)
next
  case (Cons f fs)
  have "run_all (f # fs) = then_try f (run_all fs)" by (rule ext) simp
  then show ?case using Cons sound_then by simp
qed

lemma sound_asm [intro]:
  assumes "\<And>a. asm_ok a \<Longrightarrow> good rp err a (f a)"
  shows "sound rp err (run_asm f)"
proof (rule reachesI)
  fix r :: stream_run
  assume "asm_ok (sr_asm r)"
  from assms [OF this] show
    "\<exists>es q. run_asm f r = Some (es, q) \<and> in_sync rp err (run_ledger r) (es, run_ledger q) \<and> asm_ok (sr_asm q) \<and>
      sr_finish q = sr_finish r"
    by (auto simp: good_def run_asm_def run_ledger_def)
qed

lemma sound_emit [intro]:
  assumes "calm rp err f"
  shows "sound rp err (run_emit f)"
proof -
  have "run_emit f = run_asm (\<lambda>a. Some (emit_with f a))" by (rule ext) (simp add: run_emit_def run_asm_def split: prod.split)
  then show ?thesis using sound_asm calm_good [OF assms] by metis
qed

text \<open>A change of the parsers alone, before a sound step chosen by the state.\<close>

lemma reaches_pick:
  assumes "\<And>r. \<exists>g s. f r = g s \<and> sr_asm s = sr_asm r \<and> sr_finish s = sr_finish r \<and> reaches rp err F g"
  shows "reaches rp err F f"
proof (rule reachesI)
  fix r :: stream_run assume r: "asm_ok (sr_asm r)"
  obtain g s where g: "f r = g s" "sr_asm s = sr_asm r" "sr_finish s = sr_finish r" "reaches rp err F g"
    using assms by blast
  have "asm_ok (sr_asm s)" using r g(2) by simp
  with g(4) obtain es q where "g s = Some (es, q)" "in_sync rp err (run_ledger s) (es, run_ledger q)" "asm_ok (sr_asm q)"
    "sr_finish q = F (sr_finish s)" by (rule reachesD)
  then show "\<exists>es q. f r = Some (es, q) \<and> in_sync rp err (run_ledger r) (es, run_ledger q) \<and> asm_ok (sr_asm q) \<and>
      sr_finish q = F (sr_finish r)"
    using g by (simp add: run_ledger_def)
qed

lemma reaches_set:
  assumes "\<And>r. sr_asm (f r) = sr_asm r" "\<And>r. sr_finish (f r) = F (sr_finish r)"
  shows "reaches rp err F (run_set f)"
  using assms by (simp add: reaches_def run_set_def run_ledger_def in_sync_nothing)

lemma sound_when [intro]: "sound rp err f \<Longrightarrow> sound rp err (run_when b f)"
  by (cases b) (simp_all add: reaches_def run_when_def in_sync_nothing)

section \<open>The steps of a chunk\<close>

lemma calm_redacted: "calm rp err (redacted_events rp s)"
  unfolding redacted_events_def
  using calm_then [OF calm_close calm_loose [of "''redacted_thinking''" "[(''data'', JStr s)]" None rp err]]
  by simp

lemma calm_detail: "calm rp err (detail_events rp compact source details)"
  by (induction details)
    (auto intro!: calm_then calm_nothing calm_thinking calm_redacted split: option.split)

lemma calm_structured: "calm rp err (structured_events rp compact native details source)"
  unfolding structured_events_def
  by (auto intro!: calm_then calm_nothing calm_thinking calm_detail split: option.split)

lemma sound_reasoning: "sound (se_rp env) err (reasoning_step env d)"
proof (rule reaches_pick)
  fix r :: stream_run
  have e: "sound (se_rp env) err (run_emit (thinking_events (se_rp env) s))"
    "sound (se_rp env) err (run_emit (ensure_thinking_block (se_rp env)))"
    "sound (se_rp env) err (run_emit (structured_events (se_rp env) c n ds src))" for s c n ds src
    using calm_thinking calm_ensure_thinking calm_structured by blast+
  show "\<exists>g s. reasoning_step env d r = g s \<and> sr_asm s = sr_asm r \<and> sr_finish s = sr_finish r \<and> sound (se_rp env) err g"
  proof (cases "se_output env")
    case False
    then show ?thesis by (intro exI [of _ "\<lambda>r. Some ([], r)"] exI [of _ r]) (simp add: reasoning_step_def)
  next
    case out: True
    show ?thesis
    proof (cases "sr_source r")
      case (Some source)
      let ?src = "choose_source (se_rp env) (ud_reasoning d) (ud_details d) source"
      show ?thesis
        by (rule exI [of _ "run_emit (structured_events (se_rp env) (se_compact env) (ud_reasoning d) (ud_details d) ?src)"],
            rule exI [of _ "r\<lparr>sr_source := Some ?src\<rparr>"])
          (simp add: reasoning_step_def out Some Let_def e)
    next
      case None
      show ?thesis
        by (rule exI [of _ "case ud_reasoning d of None \<Rightarrow> (\<lambda>r. Some ([], r))
              | Some s \<Rightarrow> if s = [] then run_emit (ensure_thinking_block (se_rp env))
                          else run_emit (thinking_events (se_rp env) s)"],
            rule exI [of _ r])
          (simp add: reasoning_step_def out None e split: option.split)
    qed
  qed
qed

lemma sound_visible: "sound (se_rp env) err (visible_step env s)"
proof -
  have "visible_step env s = (if s = [] then (\<lambda>r. Some ([], r)) else run_emit (visible_text_events (se_rp env) s))"
    by (rule ext) (simp add: visible_step_def)
  then show ?thesis using calm_text by auto
qed

lemma sound_tool_uses: "sound (se_rp env) err (tool_uses_step env ds)"
proof (induction ds)
  case Nil
  then show ?case by (simp add: reaches_def in_sync_nothing)
next
  case (Cons p ds)
  obtain tid name input where p: "p = (tid, name, input)" by (cases p) auto
  have "tool_uses_step env (p # ds) =
      then_try (run_emit (text_tool_use_events (se_tools env) tid name input)) (tool_uses_step env ds)"
    by (rule ext) (simp add: p)
  then show ?case using Cons sound_then sound_emit calm_text_tool [OF refl] by metis
qed

lemma sound_text_parser: "sound (se_rp env) err (text_parser_step env ids s)"
proof (rule reaches_pick)
  fix r :: stream_run
  obtain filtered found h where
    f: "heuristic_feed (env_loads (se_tools env)) ids s (sr_heuristic r) = (filtered, found, h)"
    by (metis prod_cases3)
  show "\<exists>g s'. text_parser_step env ids s r = g s' \<and> sr_asm s' = sr_asm r \<and> sr_finish s' = sr_finish r \<and> sound (se_rp env) err g"
    by (rule exI [of _ "then_try (visible_step env filtered) (tool_uses_step env found)"],
        rule exI [of _ "r\<lparr>sr_heuristic := h\<rparr>"])
      (simp add: text_parser_step_def f sound_then sound_visible sound_tool_uses)
qed

lemma sound_part: "sound (se_rp env) err (content_part_step env ids part)"
proof (rule reaches_pick)
  fix r :: stream_run
  obtain ty s where p: "part = (ty, s)" by (cases part)
  show "\<exists>g s'. content_part_step env ids part r = g s' \<and> sr_asm s' = sr_asm r \<and> sr_finish s' = sr_finish r \<and> sound (se_rp env) err g"
  proof (cases ty)
    case Thinking
    show ?thesis
      by (rule exI [of _ "if se_output env then run_emit (thinking_events (se_rp env) s) else (\<lambda>r. Some ([], r))"],
          rule exI [of _ r])
        (simp add: content_part_step_def p Thinking sound_emit calm_thinking)
  next
    case Text
    obtain safe tags where f: "tag_feed s (sr_tags r) = (safe, tags)" by fastforce
    show ?thesis
      by (rule exI [of _ "if safe = [] then (\<lambda>r. Some ([], r)) else text_parser_step env ids safe"],
          rule exI [of _ "r\<lparr>sr_tags := tags\<rparr>"])
        (simp add: content_part_step_def p Text f sound_text_parser)
  qed
qed

lemma sound_parts: "sound (se_rp env) err (content_parts_step env ids ps)"
proof (induction ps)
  case Nil
  then show ?case by (simp add: reaches_def in_sync_nothing)
next
  case (Cons p ps)
  have "content_parts_step env ids (p # ps) = then_try (content_part_step env ids p) (content_parts_step env ids ps)"
    by (rule ext) simp
  then show ?case using Cons sound_then sound_part by metis
qed

lemma sound_disable: "sound (se_rp env) err (disable_step env)"
proof (rule reaches_pick)
  fix r :: stream_run
  obtain released tags where f: "tag_disable (sr_tags r) = (released, tags)" by fastforce
  show "\<exists>g s. disable_step env r = g s \<and> sr_asm s = sr_asm r \<and> sr_finish s = sr_finish r \<and> sound (se_rp env) err g"
    by (rule exI [of _ "visible_step env released"], rule exI [of _ "r\<lparr>sr_tags := tags\<rparr>"])
      (simp add: disable_step_def f sound_visible)
qed

lemma sound_content: "sound (se_rp env) err (content_step env ids d)"
proof (rule reaches_pick)
  fix r :: stream_run
  obtain parts think where f: "think_feed (the (ud_content d)) (sr_think r) = (parts, think)" by fastforce
  show "\<exists>g s. content_step env ids d r = g s \<and> sr_asm s = sr_asm r \<and> sr_finish s = sr_finish r \<and> sound (se_rp env) err g"
  proof (cases "ud_content d = None \<or> ud_content d = Some []")
    case True
    then show ?thesis
      by (intro exI [of _ "\<lambda>r. Some ([], r)"] exI [of _ r]) (auto simp: content_step_def)
  next
    case False
    show ?thesis
      by (rule exI [of _ "content_parts_step env ids parts"], rule exI [of _ "r\<lparr>sr_think := think\<rparr>"])
        (use False f in \<open>auto simp: content_step_def sound_parts\<close>)
  qed
qed

lemma sound_tool_calls: "sound (se_rp env) err (tool_calls_step env ids k tcs)"
proof (induction tcs arbitrary: k)
  case Nil
  then show ?case by (simp add: reaches_def in_sync_nothing)
next
  case (Cons tc tcs)
  have "tool_calls_step env ids k (tc # tcs) =
      then_try (run_asm (process_tool_call (se_tools env) (ids k) tc)) (tool_calls_step env ids (k + 1) tcs)"
    by (rule ext) simp
  then show ?case using Cons sound_then sound_asm process_tool_call_good [OF _ refl] by metis
qed

text \<open>The last finish reason that a chunk brought.\<close>

definition delta_finish :: "string option \<Rightarrow> string option \<Rightarrow> string option" where
  "delta_finish finish x = (if truthy finish then finish else x)"

definition chunk_finish :: "upstream_chunk \<Rightarrow> string option \<Rightarrow> string option" where
  "chunk_finish c x = (case uc_delta c of None \<Rightarrow> x | Some d \<Rightarrow> delta_finish (uc_finish c) x)"

definition chunks_finish :: "upstream_chunk list \<Rightarrow> string option \<Rightarrow> string option" where
  "chunks_finish = fold chunk_finish"

lemma reaches_delta: "reaches (se_rp env) err (delta_finish finish) (delta_step env ids finish d)"
proof -
  define rest where "rest =
    [reasoning_step env d, run_when (ud_tools d \<noteq> []) (disable_step env), content_step env ids d,
     run_when (ud_tools d \<noteq> []) (run_emit close_content_blocks), tool_calls_step env ids 0 (ud_tools d)]"
  have "delta_step env ids finish d =
      then_try (run_set (\<lambda>r. if truthy finish then r\<lparr>sr_finish := finish\<rparr> else r)) (run_all rest)"
    by (rule ext) (simp only: delta_step_def rest_def run_all.simps)
  moreover have "sound (se_rp env) err (run_all rest)"
    by (rule sound_all)
      (auto simp: rest_def intro!: sound_when sound_reasoning sound_disable sound_content sound_emit calm_close sound_tool_calls)
  moreover have "reaches (se_rp env) err (delta_finish finish)
      (run_set (\<lambda>r. if truthy finish then r\<lparr>sr_finish := finish\<rparr> else r))"
    by (rule reaches_set) (simp_all add: delta_finish_def)
  ultimately show ?thesis using reaches_then [where F = "delta_finish finish" and G = "\<lambda>x. x"] by metis
qed

lemma reaches_chunk: "reaches (se_rp env) err (chunk_finish c) (chunk_step env ids c)"
proof (rule reaches_pick)
  fix r :: stream_run
  show "\<exists>g s. chunk_step env ids c r = g s \<and> sr_asm s = sr_asm r \<and> sr_finish s = sr_finish r \<and>
      reaches (se_rp env) err (chunk_finish c) g"
  proof (cases "uc_delta c")
    case None
    then show ?thesis
      by (intro exI [of _ "\<lambda>r. Some ([], r)"] exI [of _ "if uc_usage c = None then r else r\<lparr>sr_usage := uc_usage c\<rparr>"])
        (simp add: chunk_step_def reaches_def chunk_finish_def in_sync_nothing)
  next
    case (Some d)
    then have "chunk_finish c = delta_finish (uc_finish c)" by (simp add: chunk_finish_def fun_eq_iff)
    with Some show ?thesis
      by (intro exI [of _ "delta_step env ids (uc_finish c) d"] exI [of _ "if uc_usage c = None then r else r\<lparr>sr_usage := uc_usage c\<rparr>"])
        (simp add: chunk_step_def reaches_delta)
  qed
qed

lemma reaches_chunks: "reaches (se_rp env) err (chunks_finish cs) (chunks_step env ids n cs)"
proof (induction cs arbitrary: n)
  case Nil
  then show ?case by (simp add: reaches_def in_sync_nothing chunks_finish_def)
next
  case (Cons c cs)
  have "chunks_step env ids n (c # cs) = then_try (chunk_step env (ids n) c) (chunks_step env ids (n + 1) cs)"
    by (rule ext) simp
  moreover have "chunks_finish (c # cs) = (\<lambda>x. chunks_finish cs (chunk_finish c x))"
    by (simp add: chunks_finish_def fun_eq_iff)
  ultimately show ?case using reaches_then [OF reaches_chunk Cons] by metis
qed

lemma sound_ending: "sound (se_rp env) err (ending_step env ids)"
  unfolding ending_step_def
proof (rule sound_all, intro ballI)
  fix f assume f: "f \<in> set [think_rest_step env ids, tags_rest_step env ids, heuristic_rest_step env]"
  have "sound (se_rp env) err (think_rest_step env ids)"
  proof (rule reaches_pick)
    fix r :: stream_run
    obtain part think where p: "think_flush (sr_think r) = (part, think)" by fastforce
    show "\<exists>g s. think_rest_step env ids r = g s \<and> sr_asm s = sr_asm r \<and> sr_finish s = sr_finish r \<and> sound (se_rp env) err g"
      by (rule exI [of _ "case part of None \<Rightarrow> (\<lambda>r. Some ([], r)) | Some q \<Rightarrow> content_part_step env ids q"],
          rule exI [of _ "r\<lparr>sr_think := think\<rparr>"])
        (auto simp: think_rest_step_def p sound_part split: option.split)
  qed
  moreover have "sound (se_rp env) err (tags_rest_step env ids)"
  proof (rule reaches_pick)
    fix r :: stream_run
    obtain fallback uses tags where p: "tag_finish (env_loads (se_tools env)) (se_rp env)
        (\<lambda>args schema. se_valid env schema args) ids (sr_tags r) = (fallback, uses, tags)"
      by (metis prod_cases3)
    show "\<exists>g s. tags_rest_step env ids r = g s \<and> sr_asm s = sr_asm r \<and> sr_finish s = sr_finish r \<and> sound (se_rp env) err g"
      by (rule exI [of _ "then_try (visible_step env fallback) (tool_uses_step env (map detected_of uses))"],
          rule exI [of _ "r\<lparr>sr_tags := tags\<rparr>"])
        (simp add: tags_rest_step_def p sound_then sound_visible sound_tool_uses)
  qed
  moreover have "sound (se_rp env) err (heuristic_rest_step env)"
  proof (rule reaches_pick)
    fix r :: stream_run
    obtain found h where p: "heuristic_flush (sr_heuristic r) = (found, h)" by fastforce
    show "\<exists>g s. heuristic_rest_step env r = g s \<and> sr_asm s = sr_asm r \<and> sr_finish s = sr_finish r \<and> sound (se_rp env) err g"
      by (rule exI [of _ "tool_uses_step env found"], rule exI [of _ "r\<lparr>sr_heuristic := h\<rparr>"])
        (simp add: heuristic_rest_step_def p sound_tool_uses)
  qed
  ultimately show "sound (se_rp env) err f" using f by auto
qed

end
