(* ===== verification/Provider_Completion.thy ===== *)
theory Provider_Completion
  imports Provider_Invariant
begin

text \<open>
  The end of an answer: the events around the blocks (\<open>message_start\<close>, \<open>message_delta\<close>,
  \<open>message_stop\<close>, \<open>error\<close>), a stream that completes, and a stream that fails and has its open blocks
  closed (\<open>close_unclosed_blocks\<close>) before the API layer appends its error frame.
\<close>

section \<open>Events around the blocks\<close>

definition plain_event :: "sse_event \<Rightarrow> bool" where
  "plain_event e \<longleftrightarrow>
     event_name e \<notin> {''error'', ''content_block_start'', ''content_block_delta'', ''content_block_stop''} \<and>
     typed_field e ''delta'' ''text_delta'' = None \<and> typed_field e ''delta'' ''thinking_delta'' = None \<and>
     typed_field e ''content_block'' ''tool_use'' = None"

lemma plain_sync:
  assumes e: "plain_event e"
    and L: "content_blocks M = content_blocks L" "open_stack M = open_stack L" "text_parts M = text_parts L"
      "thinking_parts M = thinking_parts L"
  shows "in_sync rp err L ([e], M)"
proof -
  have k: "kind_of M = kind_of L" by (rule ext) (simp add: kind_of_def L)
  have "contract_run rp err [e] st = Some st \<and> tracks st M" if "tracks st L" for st
  proof -
    obtain opened seen where st: "st = (opened, seen)" by fastforce
    show ?thesis using that e unfolding tracks_def L k st by (auto simp: contract_step_def plain_event_def)
  qed
  moreover have "text_content rp [e] = []" "thinking_content rp [e] = []" "\<not> has_tool_use [e]"
    using e by (auto simp: plain_event_def text_content_def event_text_def thinking_content_def event_thinking_def
      has_tool_use_def)
  moreover have "has_emitted_tool_block M = has_emitted_tool_block L"
    by (simp add: has_emitted_tool_block_def tool_blocks_def L)
  ultimately show ?thesis by (auto simp: in_sync_def accumulated_text_def accumulated_reasoning_def L)
qed

lemma around_sync:
  "in_sync rp err L (message_start L)" "in_sync rp err L (message_delta reason out inp fs L)"
  "in_sync rp err L (message_stop L)"
  unfolding message_start_def message_delta_def message_stop_def Let_def
  by (rule plain_sync;
      simp add: plain_event_def event_def typed_field_def object_field_def jget_def)+

lemma same_tidy:
  assumes "tidy X L" "content_blocks M = content_blocks L" "open_stack M = open_stack L" "blocks M = blocks L"
    "text_parts M = text_parts L" "thinking_parts M = thinking_parts L"
  shows "tidy X M"
proof -
  have k: "kind_of M = kind_of L" by (rule ext) (simp add: kind_of_def assms)
  have "stack_ok M = stack_ok L" by (simp add: stack_ok_def assms)
  then show ?thesis using assms(1) unfolding tidy_def k assms(2-6) by simp
qed

lemma calm_message_start: "calm rp err message_start"
  unfolding calm_def
proof (intro allI impI conjI)
  fix L :: stream_ledger assume t: "tidy {} L"
  show "in_sync rp err L (message_start L)" by (rule around_sync)
  show "tidy {} (snd (message_start L))" by (rule same_tidy [OF t]) (simp_all add: message_start_def)
qed (simp add: message_start_def)

section \<open>Something visible\<close>

lemma needs_blank_not:
  assumes t: "tidy {} L" and "\<not> needs_blank L"
  shows "dkeys (content_blocks L) \<noteq> []"
proof -
  have "has_emitted_tool_block L \<Longrightarrow> dkeys (content_blocks L) \<noteq> []"
    by (auto simp: has_emitted_tool_block_def tool_blocks_def)
  then show ?thesis using assms tidyD(7) [OF t] by (auto simp: needs_blank_def Let_def)
qed

lemma visible_text_opens:
  assumes t: "tidy {} L"
  shows "dkeys (content_blocks (snd (visible_text_events rp s L))) \<noteq> []"
proof -
  let ?M = "snd (ensure_text_block rp L)"
  note e = ensure_text_tidy [OF t, of rp]
  have act: "active_at (blocks ?M) (text_index (blocks ?M)) ''text''"
    using e(3) by (simp add: active_at_def text_at_def)
  have dt: "delta_for ''text'' ''text_delta''" by (simp add: delta_for_def)
  note d = delta_tidy [OF e(2) disjI1 [OF act] dt, where s = s, folded emit_text_delta_def]
  have "text_index (blocks ?M) \<in> set (open_stack ?M)" using tidyD(3) [OF e(2) act] by simp
  then have "open_stack (snd (visible_text_events rp s L)) \<noteq> []"
    using d(4) by (auto simp: visible_text_events_def snd_then_emit)
  moreover have "stack_ok (snd (visible_text_events rp s L))"
    using calmD(2) [OF calm_text t] tidyD(1) by blast
  ultimately show ?thesis by (cases "open_stack (snd (visible_text_events rp s L))") (auto simp: stack_ok_def)
qed

lemma sound_blank: "sound (se_rp env) err (blank_step env)"
proof (rule reaches_pick)
  fix r :: stream_run
  show "\<exists>g s. blank_step env r = g s \<and> sr_asm s = sr_asm r \<and> sr_finish s = sr_finish r \<and> sound (se_rp env) err g"
    by (rule exI [of _ "if needs_blank (run_ledger r) then run_emit (visible_text_events (se_rp env) '' '')
          else (\<lambda>r. Some ([], r))"], rule exI [of _ r])
      (simp add: blank_step_def sound_emit calm_text)
qed

lemma blank_shows:
  assumes ok: "asm_ok (sr_asm r)" and b: "blank_step env r = Some (es, q)"
  shows "dkeys (content_blocks (run_ledger q)) \<noteq> []"
proof -
  have t: "tidy {} (run_ledger r)" using ok by (simp add: asm_ok_def run_ledger_def)
  show ?thesis
  proof (cases "needs_blank (run_ledger r)")
    case True
    then have "run_ledger q = snd (visible_text_events (se_rp env) '' '' (run_ledger r))"
      using b by (auto simp: blank_step_def run_emit_def emit_with_def run_ledger_def split: prod.splits)
    then show ?thesis using visible_text_opens [OF t] by simp
  next
    case False
    then have "q = r" using b by (simp add: blank_step_def)
    then show ?thesis using needs_blank_not [OF t False] by simp
  qed
qed

lemma contract_seen_grows:
  "contract_run rp err es (opened, seen) = Some (opened', seen') \<Longrightarrow> seen \<subseteq> seen'"
proof (induction es arbitrary: opened seen)
  case (Cons e es)
  then obtain o1 s1 where s: "contract_step rp err e (opened, seen) = Some (o1, s1)"
    and r: "contract_run rp err es (o1, s1) = Some (opened', seen')"
    by (auto split: option.splits)
  have "seen \<subseteq> s1"
    using s by (auto simp: contract_step_def contract_start_def contract_delta_def contract_stop_def Let_def
      split: if_splits option.splits)
  then show ?case using Cons.IH [OF r] by blast
qed simp

lemma in_sync_run:
  assumes "in_sync rp err L (es, M)" "tracks st L"
  obtains st' where "contract_run rp err es st = Some st'" "tracks st' M" "snd st \<subseteq> snd st'"
proof -
  obtain st' where st': "contract_run rp err es st = Some st'" "tracks st' M"
    using assms unfolding in_sync_def by blast
  moreover have "snd st \<subseteq> snd st'" using contract_seen_grows st'(1) by (cases st, cases st') fastforce
  ultimately show thesis using that by blast
qed

section \<open>A stream that completes\<close>

text \<open>What closes the answer, after the last visible block was ensured.\<close>

definition closing_step :: "stream_env \<Rightarrow> run_step" where
  "closing_step env =
     run_all
       [run_asm (flush_tool_argument_alias_buffers (se_tools env)), run_asm (flush_task_args (se_tools env))]"

lemma sound_closing: "sound (se_rp env) err (closing_step env)"
  unfolding closing_step_def by (rule sound_all) (auto intro!: sound_asm flush_aliases_good flush_task_good)

lemma run_all_append: "run_all (fs @ gs) r = then_try (run_all fs) (run_all gs) r"
proof (induction fs arbitrary: r)
  case Nil
  show ?case by (cases "run_all gs r") (simp_all add: then_try_def split_beta)
next
  case (Cons f fs)
  then show ?case by (auto simp: then_try_def option.map_comp comp_def split_beta case_prod_unfold split: option.splits)
qed

definition terminal_step :: "stream_env \<Rightarrow> int \<Rightarrow> run_step" where
  "terminal_step env in_tokens =
     run_all [run_emit close_all_blocks, (\<lambda>r. run_emit (final_delta env in_tokens r) r), run_emit message_stop]"

lemma completion_split:
  "completion_step env uids in_tokens r =
     then_try (run_asm (flush_tool_name_buffers (se_tools env) uids))
       (then_try (blank_step env) (then_try (closing_step env) (terminal_step env in_tokens))) r"
proof -
  have "completion_step env uids in_tokens =
      run_all ([run_asm (flush_tool_name_buffers (se_tools env) uids), blank_step env] @
        ([run_asm (flush_tool_argument_alias_buffers (se_tools env)), run_asm (flush_task_args (se_tools env))] @
         [run_emit close_all_blocks, (\<lambda>r. run_emit (final_delta env in_tokens r) r), run_emit message_stop]))"
    by (simp add: completion_step_def)
  then show ?thesis
    by (simp only: run_all_append closing_step_def terminal_step_def)
      (simp add: then_try_def split: option.split prod.split)
qed

lemma terminal_effect:
  assumes ok: "asm_ok (sr_asm r)"
  shows "\<exists>es q. terminal_step env in_tokens r = Some (es, q) \<and> in_sync rp err (run_ledger r) (es, run_ledger q) \<and>
    open_stack (run_ledger q) = [] \<and> es \<noteq> [] \<and> event_name (last es) = ''message_stop'' \<and>
    message_stopped (run_ledger q) \<and>
    stop_reason (run_ledger q) = Some (final_stop_reason (map_stop_reason (sr_finish r)) (run_ledger q))"
proof -
  let ?L = "run_ledger r"
  have t: "tidy {} ?L" using ok by (simp add: asm_ok_def run_ledger_def)
  obtain cs M where c: "close_all_blocks ?L = (cs, M)" by fastforce
  have M: "in_sync rp err ?L (cs, M)" "open_stack M = []" using close_all_effect(1) [OF t, of rp err] close_all_effect(2) [OF t] by (simp_all add: c)
  define r1 where "r1 = r\<lparr>sr_asm := (sr_asm r)\<lparr>as_ledger := M\<rparr>\<rparr>"
  obtain ds N where d: "final_delta env in_tokens r1 M = (ds, N)" by fastforce
  have "in_sync rp err M (final_delta env in_tokens r1 M)" unfolding final_delta_def by (rule around_sync)
  then have N: "in_sync rp err M (ds, N)" "open_stack N = []"
    "stop_reason N = Some (final_stop_reason (map_stop_reason (sr_finish r)) M)"
    "content_blocks N = content_blocks M"
    using d M(2) by (auto simp: final_delta_def message_delta_def Let_def r1_def)
  obtain es K where s: "message_stop N = (es, K)" by fastforce
  have K: "in_sync rp err N (es, K)" "open_stack K = []" "es = [event ''message_stop'' []]" "message_stopped K"
    "stop_reason K = stop_reason N" "content_blocks K = content_blocks N"
    using s around_sync(3) [of rp err N] N(2) by (auto simp: message_stop_def)
  have "final_stop_reason f K = final_stop_reason f M" for f
    by (simp add: final_stop_reason_def has_emitted_tool_block_def tool_blocks_def K N)
  moreover have "terminal_step env in_tokens r =
      Some (cs @ ds @ es, r\<lparr>sr_asm := (sr_asm r)\<lparr>as_ledger := K\<rparr>\<rparr>)"
  proof -
    have 1: "run_emit close_all_blocks r = Some (cs, r1)"
      using c by (simp add: run_emit_def emit_with_def run_ledger_def r1_def)
    define r2 where "r2 = r\<lparr>sr_asm := (sr_asm r)\<lparr>as_ledger := N\<rparr>\<rparr>"
    have 2: "run_emit (final_delta env in_tokens r1) r1 = Some (ds, r2)"
      using d by (simp add: run_emit_def emit_with_def r1_def r2_def)
    have 3: "run_emit message_stop r2 = Some (es, r\<lparr>sr_asm := (sr_asm r)\<lparr>as_ledger := K\<rparr>\<rparr>)"
      using s by (simp add: run_emit_def emit_with_def r2_def)
    show ?thesis by (simp add: terminal_step_def then_try_def 1 2 3)
  qed
  moreover have "in_sync rp err ?L (cs @ ds @ es, K)"
    using in_sync_trans [OF M(1) in_sync_trans [OF N(1) K(1)]] .
  ultimately show ?thesis using K N by (simp add: run_ledger_def event_def)
qed

lemma tracks_start: "tracks ([], {}) (new_ledger mid mdl tokens)"
  by (simp add: tracks_def new_ledger_def)

lemma new_run_ok: "asm_ok (sr_asm (new_run (new_ledger mid mdl tokens) tags structured))"
  using new_ledger_tidy by (simp add: asm_ok_def new_run_def tasks_ok_def new_ledger_def new_blocks_def)

lemma completion_effect:
  assumes ok: "asm_ok (sr_asm r)" and st: "tracks st (run_ledger r)"
  shows "\<exists>es q st'. completion_step env uids in_tokens r = Some (es, q) \<and>
    in_sync (se_rp env) err (run_ledger r) (es, run_ledger q) \<and>
    contract_run (se_rp env) err es st = Some ([], st') \<and> st' \<noteq> {} \<and>
    es \<noteq> [] \<and> event_name (last es) = ''message_stop'' \<and> message_stopped (run_ledger q) \<and>
    stop_reason (run_ledger q) = Some (final_stop_reason (map_stop_reason (sr_finish r)) (run_ledger q))"
proof -
  let ?rp = "se_rp env"
  have s1: "sound ?rp err (run_asm (flush_tool_name_buffers (se_tools env) uids))"
    using flush_names_good by blast
  from s1 ok obtain e1 r1 where 1: "run_asm (flush_tool_name_buffers (se_tools env) uids) r = Some (e1, r1)"
    "in_sync ?rp err (run_ledger r) (e1, run_ledger r1)" "asm_ok (sr_asm r1)" "sr_finish r1 = sr_finish r"
    by (rule reachesD)
  from sound_blank 1(3) obtain e2 r2 where 2: "blank_step env r1 = Some (e2, r2)"
    "in_sync ?rp err (run_ledger r1) (e2, run_ledger r2)" "asm_ok (sr_asm r2)" "sr_finish r2 = sr_finish r1"
    by (rule reachesD)
  from sound_closing 2(3) obtain e3 r3 where 3: "closing_step env r2 = Some (e3, r3)"
    "in_sync ?rp err (run_ledger r2) (e3, run_ledger r3)" "asm_ok (sr_asm r3)" "sr_finish r3 = sr_finish r2"
    by (rule reachesD)
  obtain e4 q where 4: "terminal_step env in_tokens r3 = Some (e4, q)" "in_sync ?rp err (run_ledger r3) (e4, run_ledger q)"
    "open_stack (run_ledger q) = []" "e4 \<noteq> []" "event_name (last e4) = ''message_stop''" "message_stopped (run_ledger q)"
    "stop_reason (run_ledger q) = Some (final_stop_reason (map_stop_reason (sr_finish r3)) (run_ledger q))"
    using terminal_effect [OF 3(3), of env in_tokens ?rp err] by blast
  have f: "sr_finish r3 = sr_finish r" using 1(4) 2(4) 3(4) by simp
  have 12: "in_sync ?rp err (run_ledger r) (e1 @ e2, run_ledger r2)" using in_sync_trans [OF 1(2) 2(2)] .
  have 34: "in_sync ?rp err (run_ledger r2) (e3 @ e4, run_ledger q)" using in_sync_trans [OF 3(2) 4(2)] .
  obtain st2 where st2: "contract_run ?rp err (e1 @ e2) st = Some st2" "tracks st2 (run_ledger r2)"
    using in_sync_run [OF 12 st] by blast
  obtain st4 where st4: "contract_run ?rp err (e3 @ e4) st2 = Some st4" "tracks st4 (run_ledger q)" "snd st2 \<subseteq> snd st4"
    using in_sync_run [OF 34 st2(2)] by blast
  have "snd st2 \<noteq> {}" using st2(2) blank_shows [OF 1(3) 2(1)] by (cases st2) (auto simp: tracks_def)
  moreover have "fst st4 = []"
  proof -
    obtain opened seen where o: "st4 = (opened, seen)" by fastforce
    have "dget opened i = None" for i using tracksD(5) [OF st4(2) [unfolded o], of i] 4(3) by simp
    then have "opened = []" by (cases opened) (auto, metis option.distinct(1))
    then show ?thesis by (simp add: o)
  qed
  ultimately obtain seen where seen: "st4 = ([], seen)" "seen \<noteq> {}" using st4(3) by (cases st4) auto
  have run: "contract_run ?rp err ((e1 @ e2) @ (e3 @ e4)) st = Some ([], seen)"
    using st2(1) st4(1) seen(1) by (simp only: contract_run_append option.case)
  have "completion_step env uids in_tokens r = Some ((e1 @ e2) @ (e3 @ e4), q)"
    by (simp add: completion_split then_try_def 1(1) 2(1) 3(1) 4(1))
  moreover have "in_sync ?rp err (run_ledger r) ((e1 @ e2) @ (e3 @ e4), run_ledger q)"
    using in_sync_trans [OF 12 34] .
  ultimately show ?thesis using run seen(2) 4(4-7) f by (intro exI conjI) (assumption | simp)+
qed

section \<open>A stream that fails\<close>

lemma close_unclosed_unfold:
  "close_unclosed_blocks L =
     (if open_stack L = [] then ([], L) else then_emit (content_block_stop (last (open_stack L))) close_unclosed_blocks L)"
proof (cases "open_stack L = []")
  case False
  then have r: "rev (open_stack L) = last (open_stack L) # rev (butlast (open_stack L))"
    by (metis append_butlast_last_id rev.simps(2) rev_rev_ident)
  let ?i = "last (open_stack L)"
  define M where "M = record_block_stop ?i L"
  have stack: "open_stack (close_block_state i K) = open_stack K" for i K
    by (simp add: close_block_state_def frame_simps split: option.split)
  have other: "close_block_state i (K\<lparr>open_stack := []\<rparr>) = (close_block_state i K)\<lparr>open_stack := []\<rparr>" for i K
    by (simp add: close_block_state_def on_block_def on_blocks_def split: option.split)
  have M: "open_stack M = butlast (open_stack L)" "M\<lparr>open_stack := []\<rparr> = close_block_state ?i (L\<lparr>open_stack := []\<rparr>)"
    using False by (simp_all add: M_def record_block_stop_def stack other [symmetric])
  have "content_block_stop ?i L = ([event ''content_block_stop'' [(''index'', JInt ?i)]], M)"
    by (simp add: content_block_stop_def M_def)
  then show ?thesis
    using False by (simp add: close_unclosed_blocks_def r then_emit_def M Let_def split: prod.split)
qed (simp add: close_unclosed_blocks_def)

lemma close_unclosed_effect:
  assumes "stack_ok L"
  shows "in_sync rp err L (close_unclosed_blocks L) \<and> open_stack (snd (close_unclosed_blocks L)) = [] \<and>
    dkeys (content_blocks (snd (close_unclosed_blocks L))) = dkeys (content_blocks L)"
  using assms
proof (induction "length (open_stack L)" arbitrary: L rule: less_induct)
  case less
  show ?case
  proof (cases "open_stack L = []")
    case True
    then show ?thesis by (simp add: close_unclosed_unfold [of L] in_sync_nothing)
  next
    case False
    let ?i = "last (open_stack L)"
    let ?M = "snd (content_block_stop ?i L)"
    have i: "?i \<in> set (open_stack L)" using False by simp
    note v = stop_view [OF less.prems i]
    have "length (open_stack ?M) < length (open_stack L)"
      unfolding v(2) using i length_pos_if_in_set [OF i] by (simp add: length_remove1 del: last_in_set)
    note IH = less.hyps [OF this v(1)]
    have "in_sync rp err L (then_emit (content_block_stop ?i) close_unclosed_blocks L)"
      by (rule then_emit_sync) (use IH stop_sync [OF i] in blast)+
    then show ?thesis using IH v(3) False by (simp add: close_unclosed_unfold [of L] snd_then_emit)
  qed
qed

section \<open>The whole stream\<close>

text \<open>\<open>anthropic_terminal_error_frame\<close>, but for the redaction of the message.\<close>

definition terminal_error :: "string \<Rightarrow> string \<Rightarrow> sse_event" where
  "terminal_error ty message =
     \<lparr>event_name = ''error'',
      event_data = [(''type'', JStr ''error''), (''error'', JObj [(''type'', JStr ty), (''message'', JStr message)])]\<rparr>"

lemma opening_reaches:
  "reaches (se_rp env) err (chunks_finish chunks) (then_try (run_emit message_start) (chunks_step env ids 0 chunks))"
  using reaches_then [OF sound_emit [OF calm_message_start] reaches_chunks] by metis

text \<open>The stream up to its last chunk.\<close>

lemma opened_stream:
  fixes env :: stream_env
  assumes r0: "r0 = new_run (new_ledger mid mdl tokens) tags structured"
  obtains es r where "then_try (run_emit message_start) (chunks_step env ids 0 chunks) r0 = Some (es, r)"
    "in_sync (se_rp env) err (new_ledger mid mdl tokens) (es, run_ledger r)" "asm_ok (sr_asm r)"
    "sr_finish r = chunks_finish chunks None" "es \<noteq> []" "event_name (hd es) = ''message_start''"
proof -
  have L0: "run_ledger r0 = new_ledger mid mdl tokens" "sr_finish r0 = None"
    by (simp_all add: r0 new_run_def run_ledger_def)
  have ok0: "asm_ok (sr_asm r0)" unfolding r0 by (rule new_run_ok)
  from opening_reaches ok0 obtain es r where
    1: "then_try (run_emit message_start) (chunks_step env ids 0 chunks) r0 = Some (es, r)"
    "in_sync (se_rp env) err (run_ledger r0) (es, run_ledger r)" "asm_ok (sr_asm r)"
    "sr_finish r = chunks_finish chunks (sr_finish r0)"
    by (rule reachesD)
  moreover have "es \<noteq> [] \<and> event_name (hd es) = ''message_start''"
    using 1(1) by (auto simp: then_try_def run_emit_def emit_with_def message_start_def event_def split: option.splits)
  ultimately show thesis using that L0 by simp
qed

lemma stream_returns:
  assumes r0: "r0 = new_run (new_ledger mid mdl tokens) tags structured"
  shows "provider_stream env ids uids in_tokens chunks r0 \<noteq> None"
proof -
  obtain e1 r1 where 1: "then_try (run_emit message_start) (chunks_step env ids 0 chunks) r0 = Some (e1, r1)"
    "in_sync (se_rp env) False (new_ledger mid mdl tokens) (e1, run_ledger r1)" "asm_ok (sr_asm r1)"
    using opened_stream [OF r0, where env = env and err = False and ids = ids and chunks = chunks] by metis
  from sound_ending 1(3) obtain e2 r2 where
    2: "ending_step env (ids (length chunks)) r1 = Some (e2, r2)"
    "in_sync (se_rp env) False (run_ledger r1) (e2, run_ledger r2)" "asm_ok (sr_asm r2)" by (rule reachesD)
  obtain st2 where "tracks st2 (run_ledger r2)"
    using in_sync_run [OF in_sync_trans [OF 1(2) 2(2)] tracks_start] by blast
  from completion_effect [OF 2(3) this, where uids = uids and in_tokens = in_tokens and err = False] obtain e3 q where
    3: "completion_step env uids in_tokens r2 = Some (e3, q)" by blast
  have "then_try (ending_step env (ids (length chunks))) (completion_step env uids in_tokens) r1 = Some (e2 @ e3, q)"
    by (simp add: then_try_def 2(1) 3)
  then show ?thesis by (auto simp: provider_stream_def 1(1) split: option.split)
qed

lemma completed_stream:
  assumes r0: "r0 = new_run (new_ledger mid mdl tokens) tags structured"
    and p: "provider_stream env ids uids in_tokens chunks r0 = Some (es, None, q)"
  shows "stream_contract (se_rp env) False es" "event_name (hd es) = ''message_start''"
    "text_content (se_rp env) es = accumulated_text (run_ledger q)"
    "thinking_content (se_rp env) es = accumulated_reasoning (run_ledger q)"
    "stop_reason (run_ledger q) =
       Some (if has_tool_use es then ''tool_use'' else map_stop_reason (chunks_finish chunks None))"
proof -
  let ?rp = "se_rp env" and ?L0 = "new_ledger mid mdl tokens"
  obtain e1 r1 where
    1: "then_try (run_emit message_start) (chunks_step env ids 0 chunks) r0 = Some (e1, r1)"
    "in_sync ?rp False ?L0 (e1, run_ledger r1)" "asm_ok (sr_asm r1)" "sr_finish r1 = chunks_finish chunks None"
    "e1 \<noteq> []" "event_name (hd e1) = ''message_start''"
    by (rule opened_stream [OF r0])
  have no: "ending_error env r1 = None" using p 1(1) by (simp add: provider_stream_def split: option.splits)
  from sound_ending 1(3) obtain e2 r2 where
    2: "ending_step env (ids (length chunks)) r1 = Some (e2, r2)" "in_sync ?rp False (run_ledger r1) (e2, run_ledger r2)"
    "asm_ok (sr_asm r2)" "sr_finish r2 = sr_finish r1" by (rule reachesD)
  have 12: "in_sync ?rp False ?L0 (e1 @ e2, run_ledger r2)" using in_sync_trans [OF 1(2) 2(2)] .
  obtain st2 where st2: "contract_run ?rp False (e1 @ e2) ([], {}) = Some st2" "tracks st2 (run_ledger r2)"
    using in_sync_run [OF 12 tracks_start] by blast
  obtain e3 q' seen where 3: "completion_step env uids in_tokens r2 = Some (e3, q')"
    "in_sync ?rp False (run_ledger r2) (e3, run_ledger q')" "contract_run ?rp False e3 st2 = Some ([], seen)"
    "seen \<noteq> {}" "e3 \<noteq> []" "event_name (last e3) = ''message_stop''"
    "stop_reason (run_ledger q') = Some (final_stop_reason (map_stop_reason (sr_finish r2)) (run_ledger q'))"
    using completion_effect [OF 2(3) st2(2), where uids = uids and in_tokens = in_tokens and err = False] by blast
  have es: "es = (e1 @ e2) @ e3" "q = q'"
    using p 1(1) no 2(1) 3(1) by (auto simp: provider_stream_def then_try_def)
  have all: "in_sync ?rp False ?L0 (es, run_ledger q)" unfolding es using in_sync_trans [OF 12 3(2)] .
  have "contract_run ?rp False es ([], {}) = Some ([], seen)"
    using st2(1) 3(3) unfolding es by (simp only: contract_run_append [of _ _ "e1 @ e2"] option.case)
  moreover have "''message_start'' \<in> set (map event_name es)" using 1(5,6) by (cases e1) (auto simp: es)
  ultimately show "stream_contract ?rp False es" using 3(4-6) by (simp add: stream_contract_def es)
  show "event_name (hd es) = ''message_start''" using 1(5,6) by (simp add: es)
  show "text_content ?rp es = accumulated_text (run_ledger q)" "thinking_content ?rp es = accumulated_reasoning (run_ledger q)"
    using all by (simp_all add: in_sync_def new_ledger_def accumulated_text_def accumulated_reasoning_def)
  have tool: "has_emitted_tool_block (run_ledger q) = has_tool_use es"
    using all by (simp add: in_sync_def new_ledger_def has_emitted_tool_block_def tool_blocks_def)
  show "stop_reason (run_ledger q) =
       Some (if has_tool_use es then ''tool_use'' else map_stop_reason (chunks_finish chunks None))"
    using 3(7) tool 2(4) 1(4) by (simp add: es final_stop_reason_def)
qed

text \<open>A stream without a finish reason fails; nothing else does, but for a name cut in half.\<close>

lemma failed_stream:
  assumes r0: "r0 = new_run (new_ledger mid mdl tokens) tags structured"
    and p: "provider_stream env ids uids in_tokens chunks r0 = Some (es, Some e, q)"
    and er: "event_name er = ''error''"
  shows "stream_contract (se_rp env) True (es @ fst (close_unclosed_blocks (run_ledger q)) @ [er]) \<longleftrightarrow>
      has_content_block (run_ledger q)"
    "contract_run (se_rp env) True (es @ fst (close_unclosed_blocks (run_ledger q)) @ [er]) ([], {}) \<noteq> None"
    "e = No_Finish_Reason \<longleftrightarrow> chunks_finish chunks None = None"
proof -
  let ?rp = "se_rp env" and ?L0 = "new_ledger mid mdl tokens"
  obtain e1 r1 where
    1: "then_try (run_emit message_start) (chunks_step env ids 0 chunks) r0 = Some (e1, r1)"
    "in_sync ?rp True ?L0 (e1, run_ledger r1)" "asm_ok (sr_asm r1)" "sr_finish r1 = chunks_finish chunks None"
    "e1 \<noteq> []" "event_name (hd e1) = ''message_start''"
    by (rule opened_stream [OF r0])
  have q: "es = e1" "q = r1" "ending_error env r1 = Some e"
    using p 1(1) by (auto simp: provider_stream_def split: option.splits)
  then show "e = No_Finish_Reason \<longleftrightarrow> chunks_finish chunks None = None"
    using 1(4) by (auto simp: ending_error_def split: if_splits)
  obtain cs M where c: "close_unclosed_blocks (run_ledger q) = (cs, M)" by fastforce
  have t: "tidy {} (run_ledger q)" using 1(3) q(2) by (simp add: asm_ok_def run_ledger_def)
  note e = close_unclosed_effect [OF tidyD(1) [OF t], of ?rp True, unfolded c fst_conv snd_conv]
  have all: "in_sync ?rp True ?L0 (es @ cs, M)" using in_sync_trans 1(2) e q by blast
  obtain st where st: "contract_run ?rp True (es @ cs) ([], {}) = Some st" "tracks st M"
    using in_sync_run [OF all tracks_start] by blast
  obtain opened seen where o: "st = (opened, seen)" by fastforce
  have "dget opened i = None" for i using tracksD(5) [OF st(2) [unfolded o], of i] e by simp
  then have "opened = []" by (cases opened) (auto, metis option.distinct(1))
  have "contract_step ?rp True er st = Some st" using er by (simp add: contract_step_def)
  then have run: "contract_run ?rp True (es @ cs @ [er]) ([], {}) = Some ([], seen)"
    using st(1) o \<open>opened = []\<close> contract_run_append [of ?rp True "es @ cs" "[er]" "([], {})"] by simp
  then show "contract_run ?rp True (es @ fst (close_unclosed_blocks (run_ledger q)) @ [er]) ([], {}) \<noteq> None"
    by (simp add: c)
  have "seen = set (dkeys (content_blocks (run_ledger q)))" using tracksD(3) [OF st(2) [unfolded o]] e by simp
  then have "seen \<noteq> {} \<longleftrightarrow> has_content_block (run_ledger q)" by (auto simp: has_content_block_def)
  moreover have "''message_start'' \<in> set (map event_name es)" using 1(5,6) q(1) by (cases e1) auto
  ultimately show "stream_contract ?rp True (es @ fst (close_unclosed_blocks (run_ledger q)) @ [er]) \<longleftrightarrow>
      has_content_block (run_ledger q)"
    using run er by (auto simp: stream_contract_def c)
qed

end
