(* ===== verification/Stream_Holdback.thy ===== *)
theory Stream_Holdback
  imports Stream_Ledger
begin

text \<open>
  \<open>providers/stream_recovery.py\<close>: the buffer that briefly withholds the events of a stream, so that an
  early failure can be retried without the client noticing, and the decision what to do about a
  failure. Times are readings of the monotonic clock in microseconds; how many bytes an event takes
  on the wire is an argument.
\<close>

section \<open>The holdback buffer\<close>

definition early_holdback :: int where
  "early_holdback = 750000"

definition recovery_buffer_max_bytes :: nat where
  "recovery_buffer_max_bytes = 65536"

text \<open>The comparison is evaluated on integers, where the bound stays a binary number.\<close>

lemma buffer_limit_code [code_unfold]: "recovery_buffer_max_bytes \<le> n \<longleftrightarrow> 65536 \<le> int n"
  by (simp add: recovery_buffer_max_bytes_def)

record holdback =
  hb_events :: "sse_event list"
  hb_bytes :: nat
  hb_started :: "int option"
  hb_committed :: bool

definition new_holdback :: holdback where
  "new_holdback = \<lparr>hb_events = [], hb_bytes = 0, hb_started = None, hb_committed = False\<rparr>"

definition hb_flush :: "holdback \<Rightarrow> sse_event list \<times> holdback" where
  "hb_flush hb =
     (if hb_committed hb then ([], hb)
      else (hb_events hb, \<lparr>hb_events = [], hb_bytes = 0, hb_started = None, hb_committed = True\<rparr>))"

definition hb_discard :: "holdback \<Rightarrow> holdback" where
  "hb_discard hb = hb\<lparr>hb_events := [], hb_bytes := 0, hb_started := None\<rparr>"

text \<open>The clock is read when the first event comes (\<open>t0\<close>) and again for the comparison (\<open>t1\<close>).\<close>

definition hb_push :: "(sse_event \<Rightarrow> nat) \<Rightarrow> int \<times> int \<Rightarrow> sse_event \<Rightarrow> holdback \<Rightarrow> sse_event list \<times> holdback" where
  "hb_push sz now e hb =
     (if hb_committed hb then ([e], hb)
      else
        (let started = (case hb_started hb of None \<Rightarrow> fst now | Some s \<Rightarrow> s);
             hb = hb\<lparr>hb_started := Some started, hb_events := hb_events hb @ [e], hb_bytes := hb_bytes hb + sz e\<rparr>
         in if recovery_buffer_max_bytes \<le> hb_bytes hb \<or> early_holdback \<le> snd now - started then hb_flush hb
            else ([], hb)))"

definition has_buffered :: "holdback \<Rightarrow> bool" where
  "has_buffered hb \<longleftrightarrow> hb_events hb \<noteq> []"

text \<open>Events one after the other; \<open>now k\<close> is the clock at the \<open>k\<close>-th of them.\<close>

fun hb_push_all ::
  "(sse_event \<Rightarrow> nat) \<Rightarrow> (nat \<Rightarrow> int \<times> int) \<Rightarrow> nat \<Rightarrow> sse_event list \<Rightarrow> holdback \<Rightarrow> sse_event list \<times> holdback" where
  "hb_push_all sz now k [] hb = ([], hb)"
| "hb_push_all sz now k (e # es) hb =
     (case hb_push sz (now k) e hb of
        (out, hb) \<Rightarrow> (case hb_push_all sz now (k + 1) es hb of (outs, hb) \<Rightarrow> (out @ outs, hb)))"

section \<open>Deciding about a failure\<close>

datatype failure_action = Early_Retry | Midstream_Recovery | Final_Error

record recovery_decision =
  rd_action :: failure_action
  rd_retryable :: bool
  rd_committed :: bool
  rd_buffered :: bool

definition advance_failure ::
  "bool \<Rightarrow> bool \<Rightarrow> bool \<Rightarrow> bool \<Rightarrow> nat \<Rightarrow> bool option \<Rightarrow> holdback \<Rightarrow> recovery_decision \<times> holdback" where
  "advance_failure stream_retryable opened generated salvageable remaining override hb =
     (let retryable = (case override of None \<Rightarrow> stream_retryable | Some b \<Rightarrow> b);
          committed = hb_committed hb;
          buffered = has_buffered hb;
          available = remaining > 0;
          reserve = generated \<and> remaining = 1
      in if retryable \<and> available \<and> opened \<and> \<not> committed \<and> \<not> salvageable \<and> \<not> reserve then
           (\<lparr>rd_action = Early_Retry, rd_retryable = True, rd_committed = False, rd_buffered = buffered\<rparr>,
            new_holdback)
         else if retryable \<and> generated \<and> (available \<or> salvageable) then
           (\<lparr>rd_action = Midstream_Recovery, rd_retryable = True, rd_committed = committed, rd_buffered = buffered\<rparr>,
            hb)
         else
           (\<lparr>rd_action = Final_Error, rd_retryable = retryable, rd_committed = committed, rd_buffered = buffered\<rparr>,
            hb))"

definition flush_uncommitted :: "recovery_decision \<Rightarrow> holdback \<Rightarrow> sse_event list \<times> holdback" where
  "flush_uncommitted d hb = (if \<not> rd_committed d \<and> rd_buffered d then hb_flush hb else ([], hb))"

section \<open>What the buffer guarantees\<close>

definition hb_ok :: "(sse_event \<Rightarrow> nat) \<Rightarrow> holdback \<Rightarrow> bool" where
  "hb_ok sz hb \<longleftrightarrow>
     hb_bytes hb = sum_list (map sz (hb_events hb)) \<and> hb_bytes hb < recovery_buffer_max_bytes \<and>
     (hb_committed hb \<longrightarrow> hb_events hb = []) \<and> (hb_started hb = None \<longleftrightarrow> hb_events hb = [])"

lemma new_holdback_ok [simp]: "hb_ok sz new_holdback"
  by (simp add: hb_ok_def new_holdback_def recovery_buffer_max_bytes_def)

lemma flushed_ok: "hb_ok sz hb \<Longrightarrow> hb_ok sz (snd (hb_flush hb))"
  by (auto simp: hb_flush_def hb_ok_def recovery_buffer_max_bytes_def)

lemma flush_sends: "hb_ok sz hb \<Longrightarrow> hb_flush hb = (out, hb') \<Longrightarrow> out = hb_events hb \<and> hb_committed hb' \<and> hb_events hb' = []"
  by (auto simp: hb_flush_def hb_ok_def split: if_splits)

lemma push_effect:
  assumes ok: "hb_ok sz hb" and p: "hb_push sz now e hb = (out, hb')"
  shows "hb_ok sz hb'" "out @ hb_events hb' = hb_events hb @ [e]" "hb_committed hb \<Longrightarrow> hb_committed hb'"
    "\<not> hb_committed hb' \<Longrightarrow> out = []"
proof -
  have "hb_ok sz hb' \<and> out @ hb_events hb' = hb_events hb @ [e] \<and> (hb_committed hb \<longrightarrow> hb_committed hb') \<and>
      (hb_committed hb' \<or> out = [])"
  proof (cases "hb_committed hb")
    case True
    then show ?thesis using p ok by (auto simp: hb_push_def hb_ok_def)
  next
    case False
    then show ?thesis using p ok
      by (auto simp: hb_push_def Let_def hb_flush_def hb_ok_def recovery_buffer_max_bytes_def split: if_splits)
  qed
  then show "hb_ok sz hb'" "out @ hb_events hb' = hb_events hb @ [e]" "hb_committed hb \<Longrightarrow> hb_committed hb'"
    "\<not> hb_committed hb' \<Longrightarrow> out = []" by blast+
qed

lemma push_all_effect:
  assumes "hb_ok sz hb" and "hb_push_all sz now k es hb = (out, hb')"
  shows "hb_ok sz hb' \<and> out @ hb_events hb' = hb_events hb @ es \<and> (hb_committed hb \<longrightarrow> hb_committed hb') \<and>
    (hb_committed hb' \<or> out = [])"
  using assms
proof (induction es arbitrary: k hb out)
  case (Cons e es)
  obtain o1 h1 where 1: "hb_push sz (now k) e hb = (o1, h1)" by fastforce
  obtain o2 h2 where 2: "hb_push_all sz now (k + 1) es h1 = (o2, h2)" by fastforce
  have r: "out = o1 @ o2" "hb' = h2" using Cons.prems(2) 1 2 by simp_all
  note p = push_effect [OF Cons.prems(1) 1]
  note q = Cons.IH [OF p(1) 2 [folded r(2)]]
  have "out @ hb_events hb' = o1 @ hb_events h1 @ es" using q r by simp
  then show ?case using p q r by auto
qed auto

text \<open>Something is sent at the latest with the first event that comes after the holdback time.\<close>

lemma push_commits_in_time:
  assumes "hb_started hb = Some s" and "early_holdback \<le> snd now - s"
  shows "hb_committed (snd (hb_push sz now e hb))"
  using assms by (simp add: hb_push_def hb_flush_def)

lemma early_retry_is_invisible:
  assumes "advance_failure sr op gen salv n ov hb = (d, hb')" and "rd_action d = Early_Retry"
  shows "\<not> hb_committed hb" "hb' = new_holdback" "0 < n" "gen \<Longrightarrow> 1 < n"
  using assms by (auto simp: advance_failure_def Let_def split: if_splits)

lemma decided_holdback:
  assumes "advance_failure sr op gen salv n ov hb = (d, hb')" and "rd_action d \<noteq> Early_Retry"
  shows "hb' = hb" "rd_committed d = hb_committed hb" "rd_buffered d = has_buffered hb"
  using assms by (auto simp: advance_failure_def Let_def split: if_splits)

lemma push_uncommitted:
  assumes "hb_push sz now e hb = (out, hb')" and "\<not> hb_committed hb'"
  shows "hb_started hb' = Some (case hb_started hb of None \<Rightarrow> fst now | Some s \<Rightarrow> s)"
    "snd now - (case hb_started hb of None \<Rightarrow> fst now | Some s \<Rightarrow> s) < early_holdback"
  using assms by (auto simp: hb_push_def Let_def hb_flush_def split: if_splits)

lemma push_all_uncommitted:
  assumes "hb_push_all sz now k es hb = (out, hb')" and "hb_ok sz hb" "\<not> hb_committed hb'" and "es \<noteq> []"
  shows "snd (now (k + length es - 1)) - (case hb_started hb of None \<Rightarrow> fst (now k) | Some s \<Rightarrow> s) < early_holdback"
  using assms
proof (induction es arbitrary: k hb out)
  case (Cons e es)
  obtain o1 h1 where 1: "hb_push sz (now k) e hb = (o1, h1)" by fastforce
  obtain o2 where 2: "hb_push_all sz now (k + 1) es h1 = (o2, hb')"
    using Cons.prems(1) 1 by (auto split: prod.splits)
  note ok = push_effect(1) [OF Cons.prems(2) 1]
  have "\<not> hb_committed h1" using push_all_effect [OF ok 2] Cons.prems(3) by blast
  note u = push_uncommitted [OF 1 this]
  show ?case
  proof (cases "es = []")
    case True
    then show ?thesis using u(2) by simp
  next
    case False
    then have "k + 1 + length es - 1 = k + length (e # es) - 1" by simp
    with Cons.IH [OF 2 ok Cons.prems(3) False] u(1) show ?thesis by simp
  qed
qed simp

end
