(* ===== verification/Provider_Recovery.thy ===== *)
theory Provider_Recovery
  imports Provider_Completion Stream_Holdback
begin

text \<open>
  The failure handling of \<open>_OpenAIChatStreamRunner\<close> (\<open>providers/openai_chat/provider.py\<close>): the events
  that rescue an interrupted answer (\<open>_recovery_events\<close>, \<open>_repair_tool_args\<close>) and the loop over
  attempts behind the holdback buffer (\<open>run\<close>). What upstream does is a script: the chunks and the
  error of each attempt, and what each recovery request brings. \<open>None\<close> in a recovery script is a
  request that raised; an empty script means that no attempts are left.
\<close>

section \<open>Collected recovery output\<close>

record recovery_output =
  ro_text :: string
  ro_thinking :: string
  ro_calls :: "tool_delta list"

record recovery_env =
  re_stream :: stream_env
  re_schemas :: "(string, (string, json) dict) dict"
  re_uids :: "nat \<Rightarrow> string"

type_synonym recovery_script = "recovery_output option list"

text \<open>One \<open>_collect_recovery_output\<close>: nothing at all when no attempt is left.\<close>

definition collect_output :: "recovery_script \<Rightarrow> recovery_output option \<times> recovery_script" where
  "collect_output script =
     (case script of
        [] \<Rightarrow> (Some \<lparr>ro_text = [], ro_thinking = [], ro_calls = []\<rparr>, [])
      | x # rest \<Rightarrow> (x, rest))"

text \<open>What one buffered response amounts to, once its stream has ended: \<open>None\<close> raises.\<close>

definition chunk_finished :: "upstream_chunk \<Rightarrow> bool" where
  "chunk_finished c \<longleftrightarrow> uc_finish c \<noteq> None"

definition chunk_deltas :: "upstream_chunk list \<Rightarrow> upstream_delta list" where
  "chunk_deltas cs = concat (map (\<lambda>c. case uc_delta c of None \<Rightarrow> [] | Some d \<Rightarrow> [d]) cs)"

definition collected_output :: "recovery_env \<Rightarrow> bool \<Rightarrow> upstream_chunk list \<Rightarrow> recovery_output option" where
  "collected_output renv include_reasoning cs =
     (let env = re_stream renv; ds = chunk_deltas cs;
          thinking = (if include_reasoning
            then concat (map (\<lambda>d. case ud_reasoning d of None \<Rightarrow> [] | Some s \<Rightarrow> s) ds) else []);
          plain = concat (map (\<lambda>d. case ud_content d of None \<Rightarrow> [] | Some s \<Rightarrow> s) ds);
          calls = fold collector_add (concat (map ud_tools ds)) [];
          completed = completed_calls (se_tools env) (se_valid env) (re_schemas renv) calls
      in if calls \<noteq> [] \<and> completed = None then None
         else if \<not> list_ex chunk_finished cs \<and> (completed = None \<or> completed = Some []) then None
         else Some \<lparr>ro_text = plain, ro_thinking = thinking,
                    ro_calls = (case completed of None \<Rightarrow> [] | Some xs \<Rightarrow> xs)\<rparr>)"

section \<open>Repairing tool input\<close>

text \<open>\<open>Inl\<close> is an exception, \<open>Inr None\<close> a repair that was not found.\<close>

fun find_repair ::
  "recovery_env \<Rightarrow> string \<Rightarrow> string \<Rightarrow> recovery_script \<Rightarrow> (unit + string option) \<times> recovery_script" where
  "find_repair renv pre name [] = (Inr None, [])"
| "find_repair renv pre name (None # script) = (Inl (), script)"
| "find_repair renv pre name (Some out # script) =
     (let env = re_stream renv in
      case accept_tool_json_repair (env_loads (se_tools env)) (se_valid env) pre (ro_text out) name (re_schemas renv) of
        Some (s, _) \<Rightarrow> (Inr (Some s), script)
      | None \<Rightarrow> find_repair renv pre name script)"

text \<open>What the client, or a buffer, already holds of a tool's input.\<close>

definition emitted_input :: "int \<Rightarrow> stream_ledger \<Rightarrow> string" where
  "emitted_input ti L = (case tool_block_for_tool_index ti L of None \<Rightarrow> [] | Some b \<Rightarrow> block_content b)"

definition repair_prefix :: "int \<Rightarrow> tool_block_state \<Rightarrow> assembly \<Rightarrow> string" where
  "repair_prefix ti s a =
     (let emitted = emitted_input ti (as_ledger a) in
      if emitted \<noteq> [] then emitted
      else if tb_name s = ''Task'' \<and> task_arg_buffer s \<noteq> [] then task_arg_buffer s
      else (case as_args a of
              None \<Rightarrow> []
            | Some bufs \<Rightarrow> (case dget bufs ti of None \<Rightarrow> [] | Some t \<Rightarrow> t)))"

text \<open>One tool after the other; the events are lost when the repair is given up.\<close>

fun repair_tools ::
  "recovery_env \<Rightarrow> (int \<times> tool_block_state) list \<Rightarrow> assembly \<Rightarrow> recovery_script \<Rightarrow>
   sse_event list option \<times> assembly \<times> recovery_script" where
  "repair_tools renv [] a script = (Some [], a, script)"
| "repair_tools renv ((ti, s) # rest) a script =
     (let env = re_stream renv;
          emitted = emitted_input ti (as_ledger a);
          pre = repair_prefix ti s a;
          found = (if parse_complete_tool_input (env_loads (se_tools env)) (se_valid env) pre (tb_name s)
                        (re_schemas renv) \<noteq> None
                   then (Inr (Some (if emitted = [] then pre else [])), script)
                   else (case find_repair renv pre (tb_name s) script of
                           (Inr (Some missing), script) \<Rightarrow>
                             (Inr (Some (if emitted \<noteq> [] then missing else pre @ missing)), script)
                         | r \<Rightarrow> r))
      in case found of
           (Inr (Some to_emit), script) \<Rightarrow>
             (case (if to_emit = [] then Some ([], a) else emit_tool ti to_emit a) of
                None \<Rightarrow> (None, a, script)
              | Some (es, a) \<Rightarrow>
                  (case repair_tools renv rest a script of
                     (None, a, script) \<Rightarrow> (None, a, script)
                   | (Some fs, a, script) \<Rightarrow> (Some (es @ fs), a, script)))
         | (_, script) \<Rightarrow> (None, a, script))"

definition tools_complete :: "recovery_env \<Rightarrow> stream_ledger \<Rightarrow> bool" where
  "tools_complete renv L =
     all_emitted_tools_complete (se_tools (re_stream renv)) (se_valid (re_stream renv)) (re_schemas renv) L"

definition repair_tool_args ::
  "recovery_env \<Rightarrow> assembly \<Rightarrow> recovery_script \<Rightarrow> sse_event list option \<times> assembly" where
  "repair_tool_args renv a script =
     (case repair_tools renv (started_tool_states (as_ledger a)) a script of
        (None, a, _) \<Rightarrow> (None, a)
      | (Some es, a, _) \<Rightarrow> if tools_complete renv (as_ledger a) then (Some es, a) else (None, a))"

section \<open>The recovery events\<close>

definition recovered_end :: "recovery_env \<Rightarrow> emits" where
  "recovered_end renv =
     then_emit close_all_blocks
       (then_emit
          (\<lambda>L. message_delta (final_stop_reason ''end_turn'' L)
                 (JInt (int (estimate_output_tokens (se_estimate (re_stream renv)) L))) JNull [] L)
          message_stop)"

text \<open>The calls of a recovered response are whole, and their names and arguments are restored.\<close>

definition plain_tools :: "recovery_env \<Rightarrow> assembly_env" where
  "plain_tools renv = (se_tools (re_stream renv))\<lparr>env_names := None, env_aliases := []\<rparr>"

fun recovered_calls ::
  "recovery_env \<Rightarrow> nat \<Rightarrow> tool_delta list \<Rightarrow> assembly \<Rightarrow> (sse_event list \<times> assembly) option" where
  "recovered_calls renv k [] a = Some ([], a)"
| "recovered_calls renv k (tc # tcs) a =
     then_try (process_tool_call (plain_tools renv) (re_uids renv k) tc) (recovered_calls renv (k + 1) tcs) a"

definition when_some :: "string option \<Rightarrow> (string \<Rightarrow> emits) \<Rightarrow> emits" where
  "when_some s f = (case s of None \<Rightarrow> emit_nothing | Some t \<Rightarrow> if t = [] then emit_nothing else f t)"

definition continue_answer ::
  "recovery_env \<Rightarrow> recovery_output \<Rightarrow> assembly \<Rightarrow> (sse_event list \<times> assembly) option" where
  "continue_answer renv out a =
     (let rp = se_rp (re_stream renv);
          more = continuation_suffix (accumulated_text (as_ledger a)) (ro_text out);
          thought = continuation_suffix (accumulated_reasoning (as_ledger a)) (ro_thinking out)
      in then_try
           (\<lambda>a. Some (emit_with (then_emit (when_some thought (thinking_events rp)) (when_some more (visible_text_events rp))) a))
           (\<lambda>a. if ro_calls out = [] then Some ([], a)
                else then_try (\<lambda>a. Some (emit_with close_content_blocks a)) (recovered_calls renv 0 (ro_calls out)) a)
           (a\<lparr>as_names := None, as_args := None\<rparr>))"

text \<open>The events, and the assembly the attempt leaves behind; \<open>None\<close> when the answer cannot be rescued.\<close>

definition recovery_events ::
  "recovery_env \<Rightarrow> bool \<Rightarrow> recovery_script \<Rightarrow> assembly \<Rightarrow> sse_event list option \<times> assembly" where
  "recovery_events renv stream_retryable script a =
     (if \<not> stream_retryable then (None, a)
      else if has_emitted_tool_block (as_ledger a) then
        (case (if tools_complete renv (as_ledger a) then (Some [], a) else repair_tool_args renv a script) of
           (None, a) \<Rightarrow> (None, a)
         | (Some es, a) \<Rightarrow> (case emit_with (recovered_end renv) a of (fs, a) \<Rightarrow> (Some (es @ fs), a)))
      else if accumulated_text (as_ledger a) = [] \<and> accumulated_reasoning (as_ledger a) = [] then (None, a)
      else
        (case collect_output script of
           (None, _) \<Rightarrow> (None, a)
         | (Some out, _) \<Rightarrow>
             (case continue_answer renv out a of
                None \<Rightarrow> (None, a)
              | Some (es, a) \<Rightarrow>
                  if es = [] then (None, a)
                  else (case emit_with (recovered_end renv) a of (fs, a) \<Rightarrow> (Some (es @ fs), a)))))"

section \<open>Attempts\<close>

text \<open>
  \<open>at_error\<close> says whether the error that ended the attempt, if any, is retryable as a stream error;
  \<open>at_override\<close> is the admission layer's own verdict.
\<close>

record attempt =
  at_opened :: bool
  at_chunks :: "upstream_chunk list"
  at_error :: "bool option"
  at_override :: "bool option"
  at_remaining :: nat
  at_recovery :: recovery_script
  at_ids :: "nat \<Rightarrow> nat \<Rightarrow> string"
  at_uids :: "int \<Rightarrow> string"

datatype answer = Answered | Failed

text \<open>The attempt up to its end or its failure: the run and whether the failure is retryable.\<close>

definition attempt_failure :: "stream_env \<Rightarrow> attempt \<Rightarrow> stream_run \<Rightarrow> bool option" where
  "attempt_failure env at r =
     (case at_error at of
        Some retryable \<Rightarrow> Some retryable
      | None \<Rightarrow> if ending_error env r = None then None else Some True)"

record client =
  cl_sent :: "sse_event list"
  cl_hold :: holdback
  cl_count :: nat

definition client_push :: "(sse_event \<Rightarrow> nat) \<Rightarrow> (nat \<Rightarrow> int \<times> int) \<Rightarrow> sse_event list \<Rightarrow> client \<Rightarrow> client" where
  "client_push sz now es c =
     (case hb_push_all sz now (cl_count c) es (cl_hold c) of
        (out, hb) \<Rightarrow> c\<lparr>cl_sent := cl_sent c @ out, cl_hold := hb, cl_count := cl_count c + length es\<rparr>)"

definition client_flush :: "client \<Rightarrow> client" where
  "client_flush c = (case hb_flush (cl_hold c) of (out, hb) \<Rightarrow> c\<lparr>cl_sent := cl_sent c @ out, cl_hold := hb\<rparr>)"

definition client_send :: "sse_event list \<Rightarrow> client \<Rightarrow> client" where
  "client_send es c = c\<lparr>cl_sent := cl_sent c @ es\<rparr>"

text \<open>The end of a failed attempt that is not retried.\<close>

definition give_up :: "bool \<Rightarrow> recovery_decision \<Rightarrow> stream_ledger \<Rightarrow> client \<Rightarrow> client" where
  "give_up salvageable d L c =
     (if \<not> rd_committed d \<and> rd_buffered d \<and> salvageable then
        client_send (fst (close_unclosed_blocks L)) (client_flush c)
      else if \<not> rd_committed d then c\<lparr>cl_hold := hb_discard (cl_hold c)\<rparr>
      else client_send (fst (close_unclosed_blocks L)) c)"

definition rescue_or_give_up ::
  "recovery_env \<Rightarrow> attempt \<Rightarrow> bool \<Rightarrow> bool \<Rightarrow> recovery_decision \<Rightarrow> stream_run \<Rightarrow> client \<Rightarrow> answer \<times> client" where
  "rescue_or_give_up renv at retryable salvageable d r c =
     (case (if rd_action d = Midstream_Recovery then recovery_events renv retryable (at_recovery at) (sr_asm r)
            else (None, sr_asm r)) of
        (Some es, _) \<Rightarrow>
          (case flush_uncommitted d (cl_hold c) of
             (out, hb) \<Rightarrow> (Answered, client_send es (c\<lparr>cl_sent := cl_sent c @ out, cl_hold := hb\<rparr>)))
      | (None, a) \<Rightarrow> (Failed, give_up salvageable d (as_ledger a) c))"

definition finish_answer ::
  "recovery_env \<Rightarrow> (sse_event \<Rightarrow> nat) \<Rightarrow> (nat \<Rightarrow> int \<times> int) \<Rightarrow> int \<Rightarrow> attempt \<Rightarrow> stream_run \<Rightarrow> client \<Rightarrow>
   (answer \<times> client) option" where
  "finish_answer renv sz now in_tokens at r c =
     map_option (\<lambda>(es, _). (Answered, client_flush (client_push sz now es c)))
       (then_try (ending_step (re_stream renv) (at_ids at (length (at_chunks at))))
          (completion_step (re_stream renv) (at_uids at) in_tokens) r)"

text \<open>The attempts in turn, each with a new ledger and new parsers; \<open>None\<close> when the script ends first.\<close>

fun run_attempts ::
  "recovery_env \<Rightarrow> (sse_event \<Rightarrow> nat) \<Rightarrow> (nat \<Rightarrow> int \<times> int) \<Rightarrow> int \<Rightarrow> stream_run \<Rightarrow> attempt list \<Rightarrow> client \<Rightarrow>
   (answer \<times> client) option" where
  "run_attempts renv sz now in_tokens r0 [] c = None"
| "run_attempts renv sz now in_tokens r0 (at # rest) c =
     (let env = re_stream renv in
      case then_try (run_emit message_start) (chunks_step env (at_ids at) 0 (at_chunks at)) r0 of
        None \<Rightarrow> None
      | Some (es, r) \<Rightarrow>
          (let c = client_push sz now es c in
           case attempt_failure env at r of
             None \<Rightarrow> finish_answer renv sz now in_tokens at r c
           | Some retryable \<Rightarrow>
               (let L = run_ledger r;
                    generated = has_committed_sse_output L;
                    salvageable = (generated \<and> has_emitted_tool_block L \<and> tools_complete renv L)
                in case advance_failure retryable (at_opened at) generated salvageable (at_remaining at)
                          (at_override at) (cl_hold c) of
                     (d, hb) \<Rightarrow>
                       if rd_action d = Early_Retry then
                         run_attempts renv sz now in_tokens r0 rest (c\<lparr>cl_hold := hb\<rparr>)
                       else Some (rescue_or_give_up renv at retryable salvageable d r c))))"

definition new_client :: client where
  "new_client = \<lparr>cl_sent = [], cl_hold = new_holdback, cl_count = 0\<rparr>"

end
