(* ===== verification/Recovery_Invariant.thy ===== *)
theory Recovery_Invariant
  imports Provider_Recovery
begin

text \<open>
  However the attempts of a request fail and are rescued, what has reached the client obeys the
  stream contract: the events withheld or lost never leave a gap.
\<close>

section \<open>Deltas leave the contract's state alone\<close>

definition same_contract :: "stream_ledger \<Rightarrow> stream_ledger \<Rightarrow> bool" where
  "same_contract L M \<longleftrightarrow> (\<forall>st. tracks st L \<longrightarrow> tracks st M)"

lemma same_contract_refl [simp]: "same_contract L L"
  by (simp add: same_contract_def)

lemma same_contract_trans: "same_contract L M \<Longrightarrow> same_contract M N \<Longrightarrow> same_contract L N"
  by (simp add: same_contract_def)

lemma silent_same_contract: "in_sync rp err L ([], M) \<Longrightarrow> same_contract L M"
  by (auto simp: in_sync_def same_contract_def)

lemma delta_keeps_state:
  assumes "contract_run rp err [e] st = Some st'" and "event_name e = ''content_block_delta''"
  shows "st' = st"
  using assms by (auto simp: contract_step_def contract_delta_def Let_def split: option.splits if_splits prod.splits)

lemma emit_tool_effect:
  assumes ok: "asm_ok a" and on: "tool_at (blocks (as_ledger a)) ti = Some i"
  obtains es b where "emit_tool ti s a = Some (es, b)" "in_sync rp err (as_ledger a) (es, as_ledger b)" "asm_ok b"
    "tool_at (blocks (as_ledger b)) = tool_at (blocks (as_ledger a))" "same_contract (as_ledger a) (as_ledger b)"
proof -
  have t: "tidy {} (as_ledger a)" using ok by (simp add: asm_ok_def)
  obtain r where r: "emit_tool_delta ti s (as_ledger a) = Some r" "in_sync rp err (as_ledger a) r"
    "tidy {} (snd r)" "blocks (snd r) = blocks (as_ledger a)"
    using emit_tool_tidy [OF t on] by blast
  obtain es L where p: "r = (es, L)" by (cases r)
  obtain e where e: "es = [e]" "event_name e = ''content_block_delta''"
    using r(1) p by (auto simp: emit_tool_delta_def content_block_delta_def event_def split: option.splits)
  have "tracks st L" if "tracks st (as_ledger a)" for st
    using r(2) that delta_keeps_state [OF _ e(2)] unfolding p in_sync_def e(1) prod.case by metis
  then have "same_contract (as_ledger a) L" by (simp add: same_contract_def)
  moreover have "asm_ok (a\<lparr>as_ledger := L\<rparr>)" using ok r(3,4) p by (simp add: asm_ok_def)
  moreover have "emit_tool ti s a = Some (es, a\<lparr>as_ledger := L\<rparr>)" by (simp add: emit_tool_def r(1) p)
  ultimately show thesis using that [of es "a\<lparr>as_ledger := L\<rparr>"] r(2,4) p by simp
qed

lemma repair_tools_effect:
  assumes "asm_ok a" and "\<And>ti s. (ti, s) \<in> set tools \<Longrightarrow> tool_at (blocks (as_ledger a)) ti \<noteq> None"
    and "repair_tools renv tools a script = (res, b, script')"
  shows "asm_ok b \<and> same_contract (as_ledger a) (as_ledger b) \<and>
    (\<forall>fs. res = Some fs \<longrightarrow> in_sync rp err (as_ledger a) (fs, as_ledger b))"
  using assms
proof (induction tools arbitrary: a script res b script')
  case Nil
  then show ?case by (auto simp: in_sync_nothing)
next
  case (Cons p rest)
  obtain ti s where p: "p = (ti, s)" by (cases p)
  note Cons.prems [unfolded p]
  define found where "found = (let env = re_stream renv; emitted = emitted_input ti (as_ledger a);
      pre = repair_prefix ti s a in
    if parse_complete_tool_input (env_loads (se_tools env)) (se_valid env) pre (tb_name s) (re_schemas renv) \<noteq> None
    then (Inr (Some (if emitted = [] then pre else [])), script)
    else (case find_repair renv pre (tb_name s) script of
            (Inr (Some missing), script) \<Rightarrow> (Inr (Some (if emitted \<noteq> [] then missing else pre @ missing)), script)
          | r \<Rightarrow> r))"
  show ?case
  proof (cases "\<exists>out scr. found = (Inr (Some out), scr)")
    case False
    then have "b = a" "res = None"
      using Cons.prems(3) p by (auto simp: found_def Let_def split: prod.splits sum.splits option.splits if_splits)
    then show ?thesis using Cons.prems(1) by simp
  next
    case True
    then obtain out scr where f: "found = (Inr (Some out), scr)" by blast
    obtain es a1 where e: "(if out = [] then Some ([], a) else emit_tool ti out a) = Some (es, a1)"
      "in_sync rp err (as_ledger a) (es, as_ledger a1)" "asm_ok a1"
      "tool_at (blocks (as_ledger a1)) = tool_at (blocks (as_ledger a))" "same_contract (as_ledger a) (as_ledger a1)"
    proof (cases "out = []")
      case True
      then show thesis using that [of "[]" a] Cons.prems(1) by (simp add: in_sync_nothing)
    next
      case False
      obtain i where "tool_at (blocks (as_ledger a)) ti = Some i" using Cons.prems(2) [of ti s] p by auto
      then show thesis using emit_tool_effect [OF Cons.prems(1), where s = out and rp = rp and err = err] that False by metis
    qed
    obtain res1 b1 scr1 where rec: "repair_tools renv rest a1 scr = (res1, b1, scr1)" by (metis prod_cases3)
    have all: "repair_tools renv ((ti, s) # rest) a script =
        (case res1 of None \<Rightarrow> (None, b1, scr1) | Some fs \<Rightarrow> (Some (es @ fs), b1, scr1))"
      using f e(1) rec by (auto simp: found_def Let_def split: option.splits)
    have IH: "asm_ok b1 \<and> same_contract (as_ledger a1) (as_ledger b1) \<and>
        (\<forall>fs. res1 = Some fs \<longrightarrow> in_sync rp err (as_ledger a1) (fs, as_ledger b1))"
      by (rule Cons.IH [OF e(3) _ rec]) (use Cons.prems(2) e(4) in auto)
    show ?thesis
    proof (cases res1)
      case None
      then show ?thesis using Cons.prems(3) all IH e(5) same_contract_trans unfolding p by auto
    next
      case (Some fs)
      then have "res = Some (es @ fs)" "b = b1" using Cons.prems(3) all unfolding p by auto
      then show ?thesis using IH Some in_sync_trans [OF e(2)] e(5) same_contract_trans by blast
    qed
  qed
qed

lemma started_tools_at:
  assumes "asm_ok a" and "(ti, s) \<in> set (started_tool_states (as_ledger a))"
  shows "tool_at (blocks (as_ledger a)) ti \<noteq> None"
proof -
  have "distinct (dkeys (tool_states (blocks (as_ledger a))))" using assms(1) tidyD(6) unfolding asm_ok_def by blast
  then have "dget (tool_states (blocks (as_ledger a))) ti = Some s \<and> started s"
    using assms(2) dget_in by (auto simp: started_tool_states_def)
  then show ?thesis by (simp add: tool_at_def)
qed

lemma repair_tool_args_effect:
  assumes ok: "asm_ok a" and r: "repair_tool_args renv a script = (res, b)"
  shows "asm_ok b \<and> same_contract (as_ledger a) (as_ledger b) \<and>
    (\<forall>fs. res = Some fs \<longrightarrow> in_sync rp err (as_ledger a) (fs, as_ledger b))"
proof -
  obtain res1 b1 scr where 1: "repair_tools renv (started_tool_states (as_ledger a)) a script = (res1, b1, scr)"
    by (metis prod_cases3)
  have "asm_ok b1 \<and> same_contract (as_ledger a) (as_ledger b1) \<and>
      (\<forall>fs. res1 = Some fs \<longrightarrow> in_sync rp err (as_ledger a) (fs, as_ledger b1))"
    by (rule repair_tools_effect [OF ok started_tools_at [OF ok] 1])
  then show ?thesis using r 1 by (auto simp: repair_tool_args_def split: option.splits if_splits)
qed

section \<open>Continuing an answer\<close>

lemma calm_when_some: "(\<And>t. calm rp err (f t)) \<Longrightarrow> calm rp err (when_some s f)"
  by (auto simp: when_some_def calm_nothing split: option.split)

lemma recovered_calls_good:
  "asm_ok a \<Longrightarrow> good (se_rp (re_stream renv)) err a (recovered_calls renv k tcs a)"
proof (induction tcs arbitrary: k a)
  case Nil
  then show ?case by (simp add: good_nothing)
next
  case (Cons tc tcs)
  have "env_repr (plain_tools renv) = se_rp (re_stream renv)" by (simp add: plain_tools_def)
  from process_tool_call_good [OF Cons.prems this] Cons.IH show ?case
    unfolding recovered_calls.simps by (blast intro: good_then)
qed

lemma continue_answer_good:
  assumes ok: "asm_ok a"
  shows "good (se_rp (re_stream renv)) err a (continue_answer renv out a)"
proof -
  let ?a = "a\<lparr>as_names := None, as_args := None\<rparr>" and ?rp = "se_rp (re_stream renv)"
  have ok': "asm_ok ?a" using ok by (simp add: asm_ok_def)
  have g: "good ?rp err b (if ro_calls out = [] then Some ([], b)
      else then_try (\<lambda>a. Some (emit_with close_content_blocks a)) (recovered_calls renv 0 (ro_calls out)) b)"
    if "asm_ok b" for b
  proof (cases "ro_calls out = []")
    case True
    then show ?thesis using that by (simp add: good_nothing)
  next
    case False
    have "good ?rp err b (then_try (\<lambda>a. Some (emit_with close_content_blocks a)) (recovered_calls renv 0 (ro_calls out)) b)"
      by (rule good_then) (use calm_good [OF calm_close that] recovered_calls_good in blast)+
    then show ?thesis using False by simp
  qed
  have c: "calm ?rp err (then_emit (when_some thought (thinking_events ?rp)) (when_some more (visible_text_events ?rp)))"
    for thought more
    by (intro calm_then calm_when_some calm_thinking calm_text)
  have "good ?rp err ?a (continue_answer renv out a)"
    unfolding continue_answer_def Let_def
    by (rule good_then) (use calm_good [OF c ok'] g in blast)+
  then show ?thesis by (rule same_ledger) simp
qed

section \<open>The end of a rescued answer\<close>

lemma recovered_end_effect:
  assumes t: "tidy {} L"
  obtains fs M where "recovered_end renv L = (fs, M)" "in_sync rp err L (fs, M)" "open_stack M = []"
    "fs \<noteq> []" "event_name (last fs) = ''message_stop''"
proof -
  obtain cs L1 where c: "close_all_blocks L = (cs, L1)" by fastforce
  have 1: "in_sync rp err L (cs, L1)" "open_stack L1 = []"
    using close_all_effect(1) [OF t, of rp err] close_all_effect(2) [OF t] by (simp_all add: c)
  let ?d = "\<lambda>L. message_delta (final_stop_reason ''end_turn'' L)
      (JInt (int (estimate_output_tokens (se_estimate (re_stream renv)) L))) JNull [] L"
  obtain ds L2 where d: "?d L1 = (ds, L2)" by fastforce
  have "in_sync rp err L1 (?d L1)" by (rule around_sync)
  then have 2: "in_sync rp err L1 (ds, L2)" "open_stack L2 = []"
    using d 1(2) by (auto simp: message_delta_def Let_def)
  obtain es L3 where s: "message_stop L2 = (es, L3)" by fastforce
  have 3: "in_sync rp err L2 (es, L3)" "open_stack L3 = []" "es = [event ''message_stop'' []]"
    using s around_sync(3) [of rp err L2] 2(2) by (auto simp: message_stop_def)
  have "recovered_end renv L = (cs @ ds @ es, L3)"
    by (simp add: recovered_end_def then_emit_def c d s)
  then show thesis using that in_sync_trans [OF 1(1) in_sync_trans [OF 2(1) 3(1)]] 3(2,3) by (simp add: event_def)
qed

lemma recovery_effect:
  assumes ok: "asm_ok a" and r: "recovery_events renv retryable script a = (res, b)"
  shows "case res of
      None \<Rightarrow> same_contract (as_ledger a) (as_ledger b)
    | Some fs \<Rightarrow> in_sync (se_rp (re_stream renv)) err (as_ledger a) (fs, as_ledger b) \<and> open_stack (as_ledger b) = [] \<and>
        fs \<noteq> [] \<and> event_name (last fs) = ''message_stop'' \<and> dkeys (content_blocks (as_ledger a)) \<noteq> []"
proof -
  let ?rp = "se_rp (re_stream renv)" and ?L = "as_ledger a"
  have t: "tidy {} ?L" using ok by (simp add: asm_ok_def)
  have finish: "case res of None \<Rightarrow> False
      | Some fs \<Rightarrow> in_sync ?rp err ?L (fs, as_ledger b) \<and> open_stack (as_ledger b) = [] \<and> fs \<noteq> [] \<and>
          event_name (last fs) = ''message_stop''"
    if "asm_ok a1" "in_sync ?rp err ?L (es, as_ledger a1)"
      "(case emit_with (recovered_end renv) a1 of (fs, a2) \<Rightarrow> (Some (es @ fs), a2)) = (res, b)" for es a1
  proof -
    have "tidy {} (as_ledger a1)" using that(1) by (simp add: asm_ok_def)
    then obtain fs M where f: "recovered_end renv (as_ledger a1) = (fs, M)" "in_sync ?rp err (as_ledger a1) (fs, M)"
      "open_stack M = []" "fs \<noteq> []" "event_name (last fs) = ''message_stop''"
      by (rule recovered_end_effect)
    have "res = Some (es @ fs)" "as_ledger b = M" using that(3) f(1) by (auto simp: emit_with_def)
    then show ?thesis using f in_sync_trans [OF that(2) f(2)] by simp
  qed
  show ?thesis
  proof (cases "retryable \<and> (has_emitted_tool_block ?L \<or> accumulated_text ?L \<noteq> [] \<or> accumulated_reasoning ?L \<noteq> [])")
    case False
    then have "res = None" "b = a" using r by (auto simp: recovery_events_def split: if_splits)
    then show ?thesis by simp
  next
    case True
    have "text_parts ?L \<noteq> []" if "accumulated_text ?L \<noteq> []" using that by (auto simp: accumulated_text_def)
    moreover have "thinking_parts ?L \<noteq> []" if "accumulated_reasoning ?L \<noteq> []"
      using that by (auto simp: accumulated_reasoning_def)
    moreover have "dkeys (content_blocks ?L) \<noteq> []" if "has_emitted_tool_block ?L"
      using that by (auto simp: has_emitted_tool_block_def tool_blocks_def)
    ultimately have keys: "dkeys (content_blocks ?L) \<noteq> []" using True tidyD(7) [OF t] by blast
    show ?thesis
    proof (cases "has_emitted_tool_block ?L")
      case tool: True
      obtain res1 a1 where 1: "(if tools_complete renv ?L then (Some [], a) else repair_tool_args renv a script) = (res1, a1)"
        by fastforce
      have e: "asm_ok a1 \<and> same_contract ?L (as_ledger a1) \<and>
          (\<forall>fs. res1 = Some fs \<longrightarrow> in_sync ?rp err ?L (fs, as_ledger a1))"
        using 1 ok repair_tool_args_effect [OF ok, of renv script res1 a1 ?rp err]
        by (auto simp: in_sync_nothing split: if_splits)
      show ?thesis
      proof (cases res1)
        case None
        then have "res = None" "b = a1" using r 1 True tool by (simp_all add: recovery_events_def)
        then show ?thesis using e by simp
      next
        case (Some es)
        then have "(case emit_with (recovered_end renv) a1 of (fs, a2) \<Rightarrow> (Some (es @ fs), a2)) = (res, b)"
          using r 1 True tool by (simp add: recovery_events_def)
        from finish [OF _ _ this] e Some keys show ?thesis by (cases res) auto
      qed
    next
      case no_tool: False
      obtain o1 scr where o: "collect_output script = (o1, scr)" by fastforce
      show ?thesis
      proof (cases o1)
        case None
        then have "res = None" "b = a" using r o True no_tool by (auto simp: recovery_events_def)
        then show ?thesis by simp
      next
        case (Some out)
        obtain es a1 where c: "continue_answer renv out a = Some (es, a1)" "in_sync ?rp err ?L (es, as_ledger a1)" "asm_ok a1"
          using continue_answer_good [OF ok, of renv err out] unfolding good_def by blast
        show ?thesis
        proof (cases "es = []")
          case empty: True
          then have "res = None" "b = a1" using r o Some c(1) True no_tool by (auto simp: recovery_events_def)
          then show ?thesis using c(2) empty silent_same_contract by auto
        next
          case False
          then have "(case emit_with (recovered_end renv) a1 of (fs, a2) \<Rightarrow> (Some (es @ fs), a2)) = (res, b)"
            using r o Some c(1) True no_tool by (auto simp: recovery_events_def)
          from finish [OF c(3,2) this] keys show ?thesis by (cases res) auto
        qed
      qed
    qed
  qed
qed

section \<open>What has reached the client\<close>

text \<open>\<open>es\<close> are the events of the attempt in progress.\<close>

definition client_ok :: "(sse_event \<Rightarrow> nat) \<Rightarrow> sse_event list \<Rightarrow> client \<Rightarrow> bool" where
  "client_ok sz es c \<longleftrightarrow>
     hb_ok sz (cl_hold c) \<and> cl_sent c @ hb_events (cl_hold c) = es \<and>
     (hb_committed (cl_hold c) \<or> cl_sent c = [])"

lemma client_okD:
  assumes "client_ok sz es c"
  shows "hb_ok sz (cl_hold c)" "cl_sent c @ hb_events (cl_hold c) = es"
    "hb_committed (cl_hold c) \<Longrightarrow> cl_sent c = es" "\<not> hb_committed (cl_hold c) \<Longrightarrow> cl_sent c = [] \<and> hb_events (cl_hold c) = es"
  using assms by (auto simp: client_ok_def hb_ok_def)

lemma new_client_ok [simp]: "client_ok sz [] new_client"
  by (simp add: client_ok_def new_client_def) (simp add: new_holdback_def)

lemma client_push_ok:
  assumes "client_ok sz es c"
  shows "client_ok sz (es @ fs) (client_push sz now fs c)"
proof -
  obtain out hb where p: "hb_push_all sz now (cl_count c) fs (cl_hold c) = (out, hb)" by fastforce
  from push_all_effect [OF client_okD(1) [OF assms] p] assms show ?thesis
    by (auto simp: client_ok_def client_push_def p)
qed

lemma client_flush_sent:
  assumes "client_ok sz es c"
  shows "cl_sent (client_flush c) = es"
  using client_okD [OF assms] by (cases "hb_committed (cl_hold c)") (auto simp: client_flush_def hb_flush_def)

lemma flush_uncommitted_sent:
  assumes "client_ok sz es c" and "rd_committed d = hb_committed (cl_hold c)" "rd_buffered d = has_buffered (cl_hold c)"
    and "flush_uncommitted d (cl_hold c) = (out, hb)"
  shows "cl_sent c @ out = es"
  using client_okD [OF assms(1)] assms(2-4)
  by (cases "hb_committed (cl_hold c)") (auto simp: flush_uncommitted_def hb_flush_def has_buffered_def split: if_splits)

lemma closed_after:
  assumes run: "contract_run rp True es ([], {}) = Some st" and t: "tracks st M"
  shows "\<exists>seen. contract_run rp True (es @ fst (close_unclosed_blocks M) @ [terminal_error ty message]) ([], {}) = Some ([], seen)"
proof -
  obtain cs N where c: "close_unclosed_blocks M = (cs, N)" by fastforce
  note e = close_unclosed_effect [OF tracks_stack_ok [OF t], of rp True, unfolded c fst_conv snd_conv]
  have sync: "in_sync rp True M (cs, N)" using e by blast
  obtain st' where st': "contract_run rp True cs st = Some st'" "tracks st' N"
    using in_sync_run [OF sync t] by blast
  obtain opened seen where o: "st' = (opened, seen)" by fastforce
  have "dget opened i = None" for i using tracksD(5) [OF st'(2) [unfolded o], of i] e by simp
  then have "opened = []" by (cases opened) (auto, metis option.distinct(1))
  moreover have "contract_step rp True (terminal_error ty message) st' = Some st'"
    by (simp add: contract_step_def terminal_error_def)
  ultimately have "contract_run rp True (es @ cs @ [terminal_error ty message]) ([], {}) = Some ([], seen)"
    using run st'(1) o by (simp add: contract_run_append)
  then show ?thesis by (auto simp: c)
qed

definition delivered :: "(json \<Rightarrow> string) \<Rightarrow> string \<Rightarrow> string \<Rightarrow> answer \<times> client \<Rightarrow> bool" where
  "delivered rp ty message r \<longleftrightarrow>
     (case r of
        (Answered, c) \<Rightarrow> stream_contract rp False (cl_sent c)
      | (Failed, c) \<Rightarrow>
          cl_sent c = [] \<or>
          event_name (hd (cl_sent c)) = ''message_start'' \<and>
          (\<exists>seen. contract_run rp True (cl_sent c @ [terminal_error ty message]) ([], {}) = Some ([], seen)))"

lemma rescued_or_failed:
  assumes ok: "client_ok sz es c" and a: "asm_ok (sr_asm r)" and L0: "tracks ([], {}) L0"
    and sync: "\<And>err. in_sync (se_rp (re_stream renv)) err L0 (es, run_ledger r)"
    and es: "es \<noteq> []" "event_name (hd es) = ''message_start''"
    and d: "rd_committed d = hb_committed (cl_hold c)" "rd_buffered d = has_buffered (cl_hold c)"
  shows "delivered (se_rp (re_stream renv)) ty message (rescue_or_give_up renv at retryable salvageable d r c)"
proof -
  let ?rp = "se_rp (re_stream renv)"
  obtain res b where r: "(if rd_action d = Midstream_Recovery then recovery_events renv retryable (at_recovery at) (sr_asm r)
      else (None, sr_asm r)) = (res, b)" by fastforce
  have eff: "case res of None \<Rightarrow> same_contract (run_ledger r) (as_ledger b)
    | Some fs \<Rightarrow> in_sync ?rp False (run_ledger r) (fs, as_ledger b) \<and> open_stack (as_ledger b) = [] \<and>
        fs \<noteq> [] \<and> event_name (last fs) = ''message_stop'' \<and> dkeys (content_blocks (run_ledger r)) \<noteq> []"
    unfolding run_ledger_def
    using r recovery_effect [OF a, of renv retryable "at_recovery at" res b False] by (simp split: if_splits)
  show ?thesis
  proof (cases res)
    case None
    obtain st where st: "contract_run ?rp True es ([], {}) = Some st" "tracks st (run_ledger r)"
      using in_sync_run [OF sync [of True] L0] by blast
    have "tracks st (as_ledger b)" using eff [unfolded None option.case same_contract_def] st(2) by blast
    note c = closed_after [OF st(1) this, where ty = ty and message = message]
    have sent: "cl_sent (give_up salvageable d (as_ledger b) c) = [] \<or>
        cl_sent (give_up salvageable d (as_ledger b) c) = es @ fst (close_unclosed_blocks (as_ledger b))"
      using client_flush_sent [OF ok] client_okD(3,4) [OF ok] d(1) by (auto simp: give_up_def client_send_def)
    have "rescue_or_give_up renv at retryable salvageable d r c = (Failed, give_up salvageable d (as_ledger b) c)"
      using r None by (simp add: rescue_or_give_up_def)
    then show ?thesis using sent c es by (auto simp: delivered_def)
  next
    case (Some fs)
    obtain out hb where f: "flush_uncommitted d (cl_hold c) = (out, hb)" by fastforce
    have e: "rescue_or_give_up renv at retryable salvageable d r c =
        (Answered, client_send fs (c\<lparr>cl_sent := es, cl_hold := hb\<rparr>))"
      using r Some f flush_uncommitted_sent [OF ok d f] by (simp add: rescue_or_give_up_def)
    have fs: "in_sync ?rp False (run_ledger r) (fs, as_ledger b)" "open_stack (as_ledger b) = []" "fs \<noteq> []"
      "event_name (last fs) = ''message_stop''" "dkeys (content_blocks (run_ledger r)) \<noteq> []"
      using eff Some by auto
    obtain st where st: "contract_run ?rp False es ([], {}) = Some st" "tracks st (run_ledger r)"
      using in_sync_run [OF sync [of False] L0] by blast
    obtain st' where st': "contract_run ?rp False fs st = Some st'" "tracks st' (as_ledger b)" "snd st \<subseteq> snd st'"
      using in_sync_run [OF fs(1) st(2)] by blast
    obtain opened seen where o: "st' = (opened, seen)" by fastforce
    have "dget opened i = None" for i using tracksD(5) [OF st'(2) [unfolded o], of i] fs(2) by simp
    then have "opened = []" by (cases opened) (auto, metis option.distinct(1))
    moreover have "snd st \<noteq> {}" using st(2) fs(5) by (cases st) (auto simp: tracks_def)
    ultimately have "contract_run ?rp False (es @ fs) ([], {}) = Some ([], seen) \<and> seen \<noteq> {}"
      using st(1) st'(1,3) o by (auto simp: contract_run_append)
    moreover have "''message_start'' \<in> set (map event_name (es @ fs))" using es by (cases es) auto
    ultimately show ?thesis using fs(3,4) by (auto simp: e delivered_def client_send_def stream_contract_def)
  qed
qed

lemma attempts_deliver:
  assumes r0: "r0 = new_run (new_ledger mid mdl tokens) tags structured"
    and "client_ok sz [] c" and "run_attempts renv sz now in_tokens r0 ats c = Some r"
  shows "delivered (se_rp (re_stream renv)) ty message r"
  using assms(2-)
proof (induction ats arbitrary: c)
  case (Cons at ats)
  let ?env = "re_stream renv" and ?L0 = "new_ledger mid mdl tokens"
  obtain es q where 1: "then_try (run_emit message_start) (chunks_step ?env (at_ids at) 0 (at_chunks at)) r0 = Some (es, q)"
    "asm_ok (sr_asm q)" "es \<noteq> []" "event_name (hd es) = ''message_start''"
    using opened_stream [OF r0, where env = ?env and ids = "at_ids at" and chunks = "at_chunks at" and err = False] by metis
  have sync: "in_sync (se_rp ?env) err ?L0 (es, run_ledger q)" for err
    using opened_stream [OF r0, where env = ?env and ids = "at_ids at" and chunks = "at_chunks at" and err = err] 1(1)
    by (metis option.inject prod.inject)
  let ?c = "client_push sz now es c"
  have ok: "client_ok sz es ?c" using client_push_ok [OF Cons.prems(1), of es now] by simp
  show ?case
  proof (cases "attempt_failure ?env at q")
    case None
    then have ne: "at_error at = None" "ending_error ?env q = None"
      by (auto simp: attempt_failure_def split: option.splits if_splits)
    obtain fs q' where f: "then_try (ending_step ?env (at_ids at (length (at_chunks at))))
        (completion_step ?env (at_uids at) in_tokens) q = Some (fs, q')"
      "r = (Answered, client_flush (client_push sz now fs ?c))"
      using Cons.prems(2) 1(1) None by (auto simp: Let_def finish_answer_def)
    have "provider_stream ?env (at_ids at) (at_uids at) in_tokens (at_chunks at) r0 = Some (es @ fs, None, q')"
      by (simp add: provider_stream_def 1(1) ne f(1))
    from completed_stream(1) [OF r0 this] client_flush_sent [OF client_push_ok [OF ok, of fs now]] f(2)
    show ?thesis by (simp add: delivered_def)
  next
    case (Some retryable)
    let ?L = "run_ledger q"
    let ?gen = "has_committed_sse_output ?L"
    let ?salv = "?gen \<and> has_emitted_tool_block ?L \<and> tools_complete renv ?L"
    obtain d hb where d: "advance_failure retryable (at_opened at) ?gen ?salv (at_remaining at) (at_override at) (cl_hold ?c) = (d, hb)"
      by fastforce
    show ?thesis
    proof (cases "rd_action d = Early_Retry")
      case True
      note inv = early_retry_is_invisible(1,2) [OF d True]
      have "client_ok sz [] (?c\<lparr>cl_hold := hb\<rparr>)"
        using client_okD(4) [OF ok inv(1)] inv(2) by (simp add: client_ok_def) (simp add: new_holdback_def)
      moreover have "run_attempts renv sz now in_tokens r0 ats (?c\<lparr>cl_hold := hb\<rparr>) = Some r"
        using Cons.prems(2) 1(1) Some d True by (simp add: Let_def)
      ultimately show ?thesis by (rule Cons.IH)
    next
      case False
      note dec = decided_holdback [OF d False]
      have "r = rescue_or_give_up renv at retryable ?salv d q ?c"
        using Cons.prems(2) 1(1) Some d False by (simp add: Let_def)
      then show ?thesis using rescued_or_failed [OF ok 1(2) tracks_start sync 1(3,4) dec(2,3)] by simp
    qed
  qed
qed simp

text \<open>The loop ends at the latest with an attempt that leaves none for a retry.\<close>

lemma attempts_return:
  assumes r0: "r0 = new_run (new_ledger mid mdl tokens) tags structured"
    and "\<exists>at \<in> set ats. at_remaining at = 0 \<or> \<not> at_opened at"
  shows "run_attempts renv sz now in_tokens r0 ats c \<noteq> None"
  using assms(2)
proof (induction ats arbitrary: c)
  case (Cons at ats)
  let ?env = "re_stream renv"
  obtain es q where 1: "then_try (run_emit message_start) (chunks_step ?env (at_ids at) 0 (at_chunks at)) r0 = Some (es, q)"
    "in_sync (se_rp ?env) False (new_ledger mid mdl tokens) (es, run_ledger q)" "asm_ok (sr_asm q)"
    using opened_stream [OF r0, where env = ?env and ids = "at_ids at" and chunks = "at_chunks at" and err = False] by metis
  show ?case
  proof (cases "attempt_failure ?env at q")
    case None
    then have ne: "ending_error ?env q = None" by (auto simp: attempt_failure_def split: option.splits if_splits)
    have "provider_stream ?env (at_ids at) (at_uids at) in_tokens (at_chunks at) r0 \<noteq> None" by (rule stream_returns [OF r0])
    then have "then_try (ending_step ?env (at_ids at (length (at_chunks at)))) (completion_step ?env (at_uids at) in_tokens) q \<noteq> None"
      by (simp add: provider_stream_def 1(1) ne)
    then show ?thesis using 1(1) None by (simp add: Let_def finish_answer_def)
  next
    case (Some retryable)
    show ?thesis
    proof (cases "at_remaining at = 0 \<or> \<not> at_opened at")
      case True
      then have "rd_action (fst (advance_failure retryable (at_opened at) g s (at_remaining at) ov hb)) \<noteq> Early_Retry" for g s ov hb
        by (auto simp: advance_failure_def Let_def)
      then show ?thesis using 1(1) Some by (auto simp: Let_def split: prod.split) (metis fst_conv)
    next
      case False
      then have "\<exists>at \<in> set ats. at_remaining at = 0 \<or> \<not> at_opened at" using Cons.prems by auto
      from Cons.IH [OF this] show ?thesis using 1(1) Some by (auto simp: Let_def split: prod.split)
    qed
  qed
qed simp

end
