(* ===== verification/Streaming_Properties.thy ===== *)
theory Streaming_Properties
  imports Recovery_Invariant
begin

text \<open>
  The properties of the streaming side: the parsers of streamed text, the tool-name codec, the
  repair of interrupted tool input and the provider's whole stream.
\<close>

section \<open>A concrete provider\<close>

text \<open>A reader and a printer that know a few texts; no property depends on them.\<close>

definition demo_loads :: "string \<Rightarrow> json option" where
  "demo_loads s =
     (if s = ''{}'' then Some (JObj []) else if s = ''7'' then Some (JInt 7)
      else if s = ''{1}'' then Some (JObj [(''a'', JInt 1)]) else None)"

definition demo_env :: stream_env where
  "demo_env =
     \<lparr>se_tools = \<lparr>env_repr = (\<lambda>_. ''?''), env_loads = demo_loads, env_dumps = (\<lambda>_. ''{}''),
                  env_names = None, env_aliases = []\<rparr>,
      se_output = True, se_compact = (\<lambda>_. ''{}''), se_valid = (\<lambda>_ _. True), se_estimate = length\<rparr>"

definition demo_tags :: tag_parser where
  "demo_tags = new_tag_parser \<lparr>original_to_alias = [], alias_to_original = [], unchanged_names = []\<rparr> [] JNull"

definition demo_delta :: upstream_delta where
  "demo_delta = \<lparr>ud_reasoning = None, ud_details = [], ud_tools = [], ud_content = None\<rparr>"

definition demo_chunk :: "upstream_delta \<Rightarrow> upstream_chunk" where
  "demo_chunk d = \<lparr>uc_usage = None, uc_finish = None, uc_delta = Some d\<rparr>"

definition demo_last :: upstream_chunk where
  "demo_last = (demo_chunk demo_delta)\<lparr>uc_finish := Some ''stop''\<rparr>"

definition demo_answer :: "upstream_chunk list" where
  "demo_answer =
     [demo_chunk (demo_delta\<lparr>ud_content := Some ''<thi''\<rparr>), demo_chunk (demo_delta\<lparr>ud_content := Some ''nk>a</think>b''\<rparr>),
      demo_chunk (demo_delta\<lparr>ud_tools := [\<lparr>td_index = JInt 0, td_id = Some ''t1'', td_name = Some ''Read'',
        td_args = Some ''{}'', td_extra = None\<rparr>]\<rparr>), demo_last]"

definition demo_stream :: "upstream_chunk list \<Rightarrow> (sse_event list \<times> stream_error option \<times> stream_run) option" where
  "demo_stream cs =
     provider_stream demo_env (\<lambda>_ _. ''u'') (\<lambda>_. ''v'') 3 cs (new_run (new_ledger ''m'' ''x'' (JInt 3)) demo_tags False)"

lemma demo_stream_run:
  "map_option (\<lambda>(es, e, q). (map event_name es, e, text_content (\<lambda>_. ''?'') es, stop_reason (run_ledger q)))
     (demo_stream demo_answer) =
   Some ([''message_start'', ''content_block_start'', ''content_block_delta'', ''content_block_stop'',
     ''content_block_start'', ''content_block_delta'', ''content_block_stop'',
     ''content_block_start'', ''content_block_delta'', ''content_block_stop'', ''message_delta'', ''message_stop''],
     None, ''b'', Some ''tool_use'')"
  by code_simp

section \<open>A provider's answer\<close>

text \<open>
  C27. Whatever chunks an upstream sends, the stream returns; when it completes, the events obey the
  stream contract (every block started once, filled with its own kind of fragment and stopped,
  nothing after \<open>message_stop\<close>), the text and the reasoning the client reads are exactly what the
  ledger recorded, and the stop reason is \<open>tool_use\<close> if a tool call went out and otherwise the last
  finish reason of the chunks, mapped.
\<close>

theorem provider_answer_obeys_contract:
  "case provider_stream env ids uids in_tokens chunks (new_run (new_ledger mid mdl tokens) tags structured) of
     None \<Rightarrow> False
   | Some (es, Some e, q) \<Rightarrow> True
   | Some (es, None, q) \<Rightarrow>
       stream_contract (se_rp env) False es \<and> event_name (hd es) = ''message_start'' \<and>
       text_content (se_rp env) es = accumulated_text (run_ledger q) \<and>
       thinking_content (se_rp env) es = accumulated_reasoning (run_ledger q) \<and>
       stop_reason (run_ledger q) =
         Some (if has_tool_use es then ''tool_use'' else map_stop_reason (chunks_finish chunks None))"
  using stream_returns [OF refl, of env ids uids in_tokens chunks mid mdl tokens tags structured]
    completed_stream [OF refl, where env = env and ids = ids and uids = uids and in_tokens = in_tokens
      and chunks = chunks and mid = mid and mdl = mdl and tokens = tokens and tags = tags and structured = structured]
  by (simp split: option.split prod.split)

theorem provider_answer_obeys_contract_witness:
  "\<exists>es q. demo_stream demo_answer = Some (es, None, q) \<and> stream_contract (\<lambda>_. ''?'') False es"
proof -
  obtain es q where d: "demo_stream demo_answer = Some (es, None, q)"
    using demo_stream_run by (cases "demo_stream demo_answer") auto
  moreover have "se_rp demo_env = (\<lambda>_. ''?'')" by (simp add: demo_env_def)
  ultimately show ?thesis
    using provider_answer_obeys_contract [where env = demo_env and ids = "\<lambda>_ _. ''u''" and uids = "\<lambda>_. ''v''"
      and in_tokens = 3 and chunks = demo_answer and mid = "''m''" and mdl = "''x''" and tokens = "JInt 3"
      and tags = demo_tags and structured = False, folded demo_stream_def]
    by simp
qed

text \<open>
  C28. A stream that fails does so for want of a finish reason, or else with a tool name cut in half.
  Closing what is open then leaves no block unfinished: with the error frame appended, the events
  obey the contract that allows errors as soon as any block had been opened.
\<close>

theorem failed_answer_is_closed:
  "case provider_stream env ids uids in_tokens chunks (new_run (new_ledger mid mdl tokens) tags structured) of
     Some (es, Some e, q) \<Rightarrow>
       (e = No_Finish_Reason \<longleftrightarrow> chunks_finish chunks None = None) \<and>
       (stream_contract (se_rp env) True
          (es @ fst (close_unclosed_blocks (run_ledger q)) @ [terminal_error ty message]) \<longleftrightarrow>
        has_content_block (run_ledger q))
   | _ \<Rightarrow> True"
  using failed_stream [OF refl, where env = env and ids = ids and uids = uids and in_tokens = in_tokens
      and chunks = chunks and mid = mid and mdl = mdl and tokens = tokens and tags = tags and structured = structured
      and er = "terminal_error ty message"]
  by (simp add: terminal_error_def split: option.split prod.split)

text \<open>
  C29. A request whose attempts fail, are retried behind the holdback buffer, and are rescued or given
  up keeps its word to the client: an answer that counts as answered obeys the stream contract; one
  that failed has sent nothing at all, or a stream that begins with \<open>message_start\<close> and in which,
  the error frame appended, every block that was started is stopped and no fragment is out of place.
  Events that were withheld from, or lost in, an abandoned attempt never show.
\<close>

theorem attempts_keep_the_contract:
  "case run_attempts renv sz now in_tokens (new_run (new_ledger mid mdl tokens) tags structured) ats new_client of
     None \<Rightarrow> True
   | Some (Answered, c) \<Rightarrow> stream_contract (se_rp (re_stream renv)) False (cl_sent c)
   | Some (Failed, c) \<Rightarrow>
       cl_sent c = [] \<or>
       event_name (hd (cl_sent c)) = ''message_start'' \<and>
       (\<exists>seen. contract_run (se_rp (re_stream renv)) True (cl_sent c @ [terminal_error ty message]) ([], {}) =
          Some ([], seen))"
  using attempts_deliver [OF refl new_client_ok, where renv = renv and sz = sz and now = now and in_tokens = in_tokens
      and mid = mid and mdl = mdl and tokens = tokens and tags = tags and structured = structured and ats = ats
      and ty = ty and message = message]
  by (simp add: delivered_def split: option.split prod.split answer.split)

text \<open>
  C30. The loop over attempts ends: with an attempt that leaves none for another try, or that could
  not open its stream, it returns with an answer or a failure.
\<close>

theorem attempts_end:
  assumes "\<exists>at \<in> set ats. at_remaining at = 0 \<or> \<not> at_opened at"
  shows "\<exists>r. run_attempts renv sz now in_tokens (new_run (new_ledger mid mdl tokens) tags structured) ats c = Some r"
  using attempts_return [OF refl assms] by blast

definition demo_renv :: recovery_env where
  "demo_renv = \<lparr>re_stream = demo_env, re_schemas = [(''Read'', [])], re_uids = (\<lambda>_. ''r'')\<rparr>"

definition demo_attempt :: "upstream_chunk list \<Rightarrow> bool option \<Rightarrow> nat \<Rightarrow> recovery_script \<Rightarrow> attempt" where
  "demo_attempt cs err left script =
     \<lparr>at_opened = True, at_chunks = cs, at_error = err, at_override = None, at_remaining = left,
      at_recovery = script, at_ids = (\<lambda>_ _. ''u''), at_uids = (\<lambda>_. ''v'')\<rparr>"

definition demo_clock :: "nat \<Rightarrow> int \<times> int" where
  "demo_clock k = (int k * 300000, int k * 300000)"

definition demo_attempts :: "attempt list \<Rightarrow> (answer \<times> client) option" where
  "demo_attempts ats =
     run_attempts demo_renv (\<lambda>_. 1) demo_clock 3 (new_run (new_ledger ''m'' ''x'' (JInt 3)) demo_tags False) ats new_client"

text \<open>A first attempt breaks off unseen; the second is cut in the middle and continued.\<close>

definition demo_script :: "attempt list" where
  "demo_script =
     [demo_attempt [] (Some True) 2 [],
      demo_attempt [demo_chunk (demo_delta\<lparr>ud_content := Some ''one tw''\<rparr>), demo_chunk (demo_delta\<lparr>ud_content := Some ''o''\<rparr>)]
        (Some True) 1 [Some \<lparr>ro_text = ''two three'', ro_thinking = [], ro_calls = []\<rparr>]]"

lemma demo_script_run:
  "map_option (\<lambda>(ans, c). (ans, text_content (\<lambda>_. ''?'') (cl_sent c), map event_name (cl_sent c))) (demo_attempts demo_script) =
   Some (Answered, ''one two three'',
     [''message_start'', ''content_block_start'', ''content_block_delta'', ''content_block_delta'',
      ''content_block_delta'', ''content_block_stop'', ''message_delta'', ''message_stop''])"
  by code_simp

theorem attempts_end_witness:
  "\<exists>r. demo_attempts (butlast demo_script @ [demo_attempt [] None 0 []]) = Some r"
  unfolding demo_attempts_def by (rule attempts_end) (simp add: demo_script_def demo_attempt_def)

text \<open>
  C31. The buffer withholds little and not for long: what it still holds has not been followed by
  anything sent, is all there is, takes less than 64 KiB, and its last event came less than 0.75
  seconds after the first.
\<close>

theorem holdback_is_brief:
  assumes "hb_push_all sz now 0 es new_holdback = (out, hb)" and "hb_events hb \<noteq> []"
  shows "out = [] \<and> hb_events hb = es \<and> sum_list (map sz es) < 65536 \<and>
    snd (now (length es - 1)) - fst (now 0) < 750000"
proof -
  note e = push_all_effect [OF new_holdback_ok assms(1)]
  have u: "\<not> hb_committed hb" using e assms(2) by (auto simp: hb_ok_def)
  then have held: "out = []" "hb_events hb = es" using e by (auto simp: new_holdback_def)
  then have "es \<noteq> []" using assms(2) by simp
  from push_all_uncommitted [OF assms(1) new_holdback_ok u this]
  have "snd (now (length es - 1)) - fst (now 0) < 750000" by (simp add: new_holdback_def early_holdback_def)
  moreover have "sum_list (map sz es) < 65536"
    using e held by (simp add: hb_ok_def recovery_buffer_max_bytes_def)
  ultimately show ?thesis using held by simp
qed

theorem holdback_is_brief_witness:
  "sum_list (map (\<lambda>_. 100) [terminal_error [] [], terminal_error [] []]) < (65536 :: nat) \<and>
    snd (demo_clock 1) - fst (demo_clock 0) < 750000"
proof -
  obtain out hb where
    p: "hb_push_all (\<lambda>_. 100) demo_clock 0 [terminal_error [] [], terminal_error [] []] new_holdback = (out, hb)"
    by fastforce
  then have "hb_events hb \<noteq> []"
    by (auto simp: hb_push_def new_holdback_def demo_clock_def early_holdback_def recovery_buffer_max_bytes_def Let_def)
  from holdback_is_brief [OF p this] show ?thesis by simp
qed

section \<open>Reasoning tags in text\<close>

text \<open>
  C32. How an upstream cuts its text into chunks does not matter to the think-tag parser: what it
  hands out, with the rest it hands out at the end, is what one scan over the whole text labels as
  text and as reasoning, character for character.
\<close>

theorem think_tags_ignore_chunking:
  "case think_stream ss new_think_parser of (cs, p) \<Rightarrow>
     chunk_chars (cs @ opt_chunk (fst (think_flush p))) = think_scan False (concat ss)"
proof -
  obtain cs p where p: "think_stream ss new_think_parser = (cs, p)" by fastforce
  have "held_back new_think_parser" by (simp add: held_back_def new_think_parser_def)
  then have "held_back p" using think_stream_scan(2) [OF p] by blast
  from held_back_scan [OF this] have
    "think_scan (in_think_tag p) (think_buffer p) = chunk_chars (opt_chunk (fst (think_flush p)))"
    by (simp add: think_flush_def mode_type_def)
  moreover have "in_think_tag new_think_parser = False" "think_buffer new_think_parser = []"
    by (simp_all add: new_think_parser_def)
  ultimately show ?thesis unfolding p prod.case using think_stream_scan(1) [OF p, of "[]"] by simp
qed

text \<open>
  Between chunks the think-tag parser never keeps more than seven characters back, and only
  what may still become a tag.
\<close>

theorem think_tags_hold_little:
  "case think_stream ss new_think_parser of (cs, p) \<Rightarrow>
     length (think_buffer p) \<le> 7 \<and> (\<exists>tag \<in> mode_tags (in_think_tag p). strict_prefix (think_buffer p) tag)"
proof -
  obtain cs p where p: "think_stream ss new_think_parser = (cs, p)" by fastforce
  have "held_back new_think_parser" by (simp add: held_back_def new_think_parser_def)
  then have "held_back p" using think_stream_scan(2) [OF p] by blast
  have shorter: "strict_prefix s tag" if "prefix s tag" "length s < length tag" for s tag :: string
    using that by (auto simp: strict_prefix_def)
  have tags: "open_tag \<noteq> []" "close_tag \<noteq> []" "length open_tag = 7" "length close_tag = 8"
    by (simp_all add: open_tag_def close_tag_def)
  have "\<exists>tag \<in> mode_tags (in_think_tag p). strict_prefix (think_buffer p) tag"
    using \<open>held_back p\<close> shorter tags(1,2)
    by (cases "in_think_tag p") (auto simp: held_back_def partial_inside_def partial_outside_def mode_tags_def)
  then obtain tag where tag: "tag \<in> mode_tags (in_think_tag p)" "strict_prefix (think_buffer p) tag" by blast
  then have "length (think_buffer p) < length tag" by (simp add: prefix_length_less)
  moreover have "length tag \<le> 8" using tag(1) tags(3,4) by (auto simp: mode_tags_def split: if_splits)
  ultimately have "length (think_buffer p) \<le> 7" by linarith
  then show ?thesis using tag unfolding p prod.case by blast
qed

section \<open>Tool calls written as text\<close>

text \<open>
  The function-tag scanner loses and reorders nothing: at every moment the released text and the
  held text are the text so far, the held text never exceeds four mebibytes, and while it searches it
  holds only a possible beginning of the marker.
\<close>

theorem tag_scanner_loses_nothing:
  "case tag_stream ss (new_tag_parser codec tools choice) of (out, p) \<Rightarrow>
     out @ held_text p = concat ss \<and> length (held_text p) \<le> max_candidate_chars \<and>
     (tag_state p = Searching \<longrightarrow> strict_prefix (held_text p) block_start)"
proof -
  obtain out p where p: "tag_stream ss (new_tag_parser codec tools choice) = (out, p)" by fastforce
  have "held_text (new_tag_parser codec tools choice) = []" by (simp add: held_text_def new_tag_parser_def Let_def)
  then have l: "out @ held_text p = concat ss" "tag_ok p"
    using tag_stream_lossless [OF p new_tag_parser_ok] by simp_all
  moreover have "strict_prefix (held_text p) block_start" if "tag_state p = Searching"
    using l(2) that by (auto simp: tag_ok_def held_text_def strict_prefix_def)
  ultimately show ?thesis using held_bound [OF l(2)] by (simp add: p)
qed

definition demo_scanner :: tag_parser where
  "demo_scanner =
     new_tag_parser \<lparr>original_to_alias = [], alias_to_original = [], unchanged_names = [''Read'']\<rparr>
       [(''Read'', None)] JNull"

lemma demo_names: "new_tag_parser (tag_names demo_scanner) [(''Read'', None)] JNull = demo_scanner"
  by (simp add: demo_scanner_def new_tag_parser_def Let_def)

theorem tag_scanner_loses_nothing_witness:
  "\<exists>out p. tag_stream [''ab<to'', ''ol''] demo_scanner = (out, p) \<and> tag_state p = Searching \<and>
     out @ held_text p = ''ab<tool'' \<and> strict_prefix (held_text p) block_start"
proof -
  obtain out p where p: "tag_stream [''ab<to'', ''ol''] demo_scanner = (out, p)" by (rule prod.exhaust)
  have "tag_state (snd (tag_stream [''ab<to'', ''ol''] demo_scanner)) = Searching" by code_simp
  moreover have "case tag_stream [''ab<to'', ''ol''] demo_scanner of (out, p) \<Rightarrow>
      out @ held_text p = concat [''ab<to'', ''ol''] \<and> length (held_text p) \<le> max_candidate_chars \<and>
      (tag_state p = Searching \<longrightarrow> strict_prefix (held_text p) block_start)"
    unfolding demo_scanner_def by (rule tag_scanner_loses_nothing)
  ultimately show ?thesis unfolding p prod.case snd_conv by simp
qed

text \<open>
  While it searches, the scanner has seen no \<open><tool_call>\<close> and kept nothing longer than needed;
  once it holds a candidate, the released text ends exactly where the first \<open><tool_call>\<close> of the whole
  text begins.
\<close>

theorem tag_scanner_stops_at_first_marker:
  "case tag_stream ss (new_tag_parser codec tools choice) of (out, p) \<Rightarrow>
     (tag_state p = Searching \<longrightarrow>
        py_find block_start (concat ss) = None \<and>
        (\<forall>k < length out. \<not> prefix (drop k (concat ss)) block_start)) \<and>
     (tag_state p = Candidate \<longrightarrow> py_find block_start (concat ss) = Some (length out))"
proof -
  let ?p0 = "new_tag_parser codec tools choice"
  obtain out p where p: "tag_stream ss ?p0 = (out, p)" by fastforce
  have h: "held_text ?p0 = []" by (simp add: held_text_def new_tag_parser_def Let_def)
  have "released_ok [] ?p0"
    using h by (auto simp: released_ok_def free_of_def new_tag_parser_def Let_def block_start_def)
  from tag_stream_released [OF p new_tag_parser_ok this] have "released_ok out p" by simp
  moreover have "out @ held_text p = concat ss" using tag_stream_lossless(1) [OF p new_tag_parser_ok] h by simp
  ultimately show ?thesis by (auto simp: p released_ok_def free_of_def)
qed

theorem tag_scanner_stops_at_first_marker_witness:
  "\<exists>out p. tag_stream [''ab<tool'', ''_call>x''] demo_scanner = (out, p) \<and>
     py_find block_start ''ab<tool_call>x'' = Some (length out)"
proof -
  obtain out p where p: "tag_stream [''ab<tool'', ''_call>x''] demo_scanner = (out, p)" by (rule prod.exhaust)
  have "tag_state (snd (tag_stream [''ab<tool'', ''_call>x''] demo_scanner)) = Candidate" by code_simp
  moreover have "case tag_stream [''ab<tool'', ''_call>x''] demo_scanner of (out, p) \<Rightarrow>
      (tag_state p = Searching \<longrightarrow>
         py_find block_start (concat [''ab<tool'', ''_call>x'']) = None \<and>
         (\<forall>k < length out. \<not> prefix (drop k (concat [''ab<tool'', ''_call>x''])) block_start)) \<and>
      (tag_state p = Candidate \<longrightarrow> py_find block_start (concat [''ab<tool'', ''_call>x'']) = Some (length out))"
    unfolding demo_scanner_def by (rule tag_scanner_stops_at_first_marker)
  moreover have "concat [''ab<tool'', ''_call>x''] = ''ab<tool_call>x''" by simp
  ultimately show ?thesis unfolding p prod.case snd_conv by metis
qed

text \<open>
  C33. Tool calls written as text are all or nothing, however the answer is cut into chunks. When the
  tools may be used and the answer holds \<open><tool_call>\<close>, with at most four mebibytes from there on, and
  all of that text parses, and every call of it names a declared tool and has arguments that can be
  coerced to the tool's schema and satisfy it, then the text before is all that is shown, and the tool
  uses are exactly those calls in their order. In every other case all of the answer is shown and no
  tool is used.
\<close>

theorem tag_calls_are_declared:
  "case tag_stream ss (new_tag_parser codec tools choice) of (out, p) \<Rightarrow>
     (case tag_finish loads rp matches ids p of (fallback, uses, q) \<Rightarrow>
        (case (if tag_state (new_tag_parser codec tools choice) = Searching
               then Option.bind (marked_text (concat ss)) parse_function_tag_calls else None) of
           None \<Rightarrow> out @ fallback = concat ss \<and> uses = []
         | Some calls \<Rightarrow>
             if list_all (\<lambda>c. \<exists>u. stands_for loads rp matches (new_tag_parser codec tools choice) c u) calls
             then fallback = [] \<and> marked_text (concat ss) = Some (drop (length out) (concat ss)) \<and>
               out = take (length out) (concat ss) \<and>
               list_all2 (stands_for loads rp matches (new_tag_parser codec tools choice)) calls uses
             else out @ fallback = concat ss \<and> uses = []))"
proof -
  let ?p0 = "new_tag_parser codec tools choice"
  obtain out p where run: "tag_stream ss ?p0 = (out, p)" by (rule prod.exhaust)
  obtain fallback uses q where f: "tag_finish loads rp matches ids p = (fallback, uses, q)" by (rule prod_cases3)
  have stands: "stands_for loads rp matches p = stands_for loads rp matches ?p0"
    using tag_stream_request [OF run] by (intro stands_for_cong) simp_all
  note outcome = finished_answer [OF run f]
  show ?thesis using outcome unfolding run f prod.case stands .
qed

theorem tag_calls_are_declared_witness:
  "\<exists>out p uses q calls.
     tag_stream [''ok <tool'', drop 5 (render_call (''Read'', [(''n'', ''1'')]))] demo_scanner = (out, p) \<and>
     tag_finish demo_loads (\<lambda>_. ''?'') (\<lambda>_ _. True) (\<lambda>_. ''u'') p = ([], uses, q) \<and> uses \<noteq> [] \<and>
     list_all2 (stands_for demo_loads (\<lambda>_. ''?'') (\<lambda>_ _. True) demo_scanner) calls uses"
proof -
  let ?ss = "[''ok <tool'', drop 5 (render_call (''Read'', [(''n'', ''1'')]))]"
  obtain out p where run: "tag_stream ?ss demo_scanner = (out, p)" by (rule prod.exhaust)
  obtain fallback uses q where
    f: "tag_finish demo_loads (\<lambda>_. ''?'') (\<lambda>_ _. True) (\<lambda>_. ''u'') p = (fallback, uses, q)" by (rule prod_cases3)
  have "fst (snd (tag_finish demo_loads (\<lambda>_. ''?'') (\<lambda>_ _. True) (\<lambda>_. ''u'')
      (snd (tag_stream ?ss demo_scanner)))) \<noteq> []" by code_simp
  then have "uses \<noteq> []" unfolding run snd_conv f fst_conv .
  then show ?thesis
    using tag_calls_are_declared [where ss = ?ss and codec = "tag_names demo_scanner" and
      tools = "[(''Read'', None)]" and choice = JNull and loads = demo_loads and rp = "\<lambda>_. ''?''" and
      matches = "\<lambda>_ _. True" and ids = "\<lambda>_. ''u''"]
    unfolding demo_names run prod.case f
    by (auto simp: f run split: option.splits if_splits)
qed

text \<open>
  Calls written in the format are read back: any sequence of calls with well-formed names and
  values that do not contain the closing tags parses to exactly those calls, with their parameters
  in order.
\<close>

theorem written_calls_read_back:
  assumes "calls \<noteq> []" and "\<forall>call \<in> set calls. plain_call call"
  shows "parse_function_tag_calls (concat (map render_call calls)) = Some calls"
  using assms by (rule parse_rendered_calls)

theorem written_calls_read_back_witness:
  "parse_function_tag_calls (concat (map render_call [(''Read'', [(''path'', ''a <b''), (''n'', '''')]), (''Ls'', [])])) =
    Some [(''Read'', [(''path'', ''a <b''), (''n'', '''')]), (''Ls'', [])]"
proof (rule written_calls_read_back)
  show "\<forall>call \<in> set [(''Read'', [(''path'', ''a <b''), (''n'', '''')]), (''Ls'', [])]. plain_call call" by code_simp
qed simp

text \<open>
  A text argument is turned into a value of the type its schema declares, unless the schema
  lists the value itself (\<open>enum\<close>, \<open>const\<close>), in which case that listed value is taken.
\<close>

theorem coerced_argument_has_its_type:
  assumes "coerce_text_argument loads rp val schema = Some j" and "schema_type schema = Some ty"
    and "ty \<in> set json_types"
  shows "of_type ty j \<or>
    py_str rp j = val \<and> (dget schema ''const'' = Some j \<or> (\<exists>xs. dget schema ''enum'' = Some (JArr xs) \<and> j \<in> set xs))"
proof (cases "find_enum rp val schema")
  case None
  then show ?thesis
    using assms typed_argument_type [of loads ty val j]
    by (auto simp: coerce_text_argument_def split: option.splits if_splits)
next
  case (Some e)
  then have "j = e" using assms(1) by (simp add: coerce_text_argument_def)
  with Some show ?thesis
    by (auto simp: find_enum_def find_Some_iff split: option.splits json.splits intro: nth_mem)
qed

theorem coerced_argument_has_its_type_witness:
  "of_type ''integer'' (JInt 42) \<or>
    py_str (\<lambda>_. []) (JInt 42) = '' 42'' \<and>
      (dget [(''type'', JStr ''integer'')] ''const'' = Some (JInt 42) \<or>
       (\<exists>xs. dget [(''type'', JStr ''integer'')] ''enum'' = Some (JArr xs) \<and> JInt 42 \<in> set xs))"
proof (rule coerced_argument_has_its_type [where loads = "\<lambda>_. None"])
  show "coerce_text_argument (\<lambda>_. None) (\<lambda>_. []) '' 42'' [(''type'', JStr ''integer'')] = Some (JInt 42)" by code_simp
  show "schema_type [(''type'', JStr ''integer'')] = Some ''integer''" by code_simp
  show "''integer'' \<in> set json_types" by (simp add: json_types_def)
qed



section \<open>Tool names\<close>

text \<open>
  C35. Tool names survive the trip to the provider and back: whatever names a request declares, the
  name sent upstream decodes to the name it stands for, so two tools never share one upstream name.
\<close>

theorem tool_names_survive:
  assumes "from_names dg names = Some c" and "n \<in> set names" and "n \<noteq> []"
  shows "decode_name c (encode_name c n) = n"
  using assms by (rule decode_encode)

text \<open>A digest that is good enough for the two names below.\<close>

definition demo_digest :: "string \<Rightarrow> string" where
  "demo_digest s = (if s = ''a.b'' then CHR ''1'' else CHR ''2'') # replicate 63 CHR ''0''"

theorem tool_names_survive_witness:
  "\<exists>c. from_names demo_digest [''a.b'', ''Read''] = Some c \<and> decode_name c (encode_name c ''a.b'') = ''a.b''"
proof -
  have "from_names demo_digest [''a.b'', ''Read''] \<noteq> None" by code_simp
  then obtain c where c: "from_names demo_digest [''a.b'', ''Read''] = Some c" by blast
  with tool_names_survive [OF c, of "''a.b''"] show ?thesis by simp
qed

text \<open>
  With a digest of hexadecimal digits that separates the attempts of each name, the codec is
  always found, and every name it sends upstream is one that OpenAI accepts: one to sixty-four
  letters, digits, underscores and dashes.
\<close>

theorem tool_names_become_portable:
  assumes "hex_digest dg" and "\<And>n. n \<in> set names \<Longrightarrow> inj_on (alias_at dg n) {..length names}"
  shows "\<exists>c. from_names dg names = Some c \<and>
    (\<forall>n \<in> set names. n \<noteq> [] \<longrightarrow> portable_name (encode_name c n))"
proof -
  obtain c where c: "from_names dg names = Some c" using from_names_ends assms(2) by blast
  then show ?thesis using encode_portable [OF c _ _ assms(1)] by blast
qed

theorem tool_names_become_portable_witness:
  "\<exists>c. from_names demo_digest [''a.b''] = Some c \<and>
    (\<forall>n \<in> set [''a.b'']. n \<noteq> [] \<longrightarrow> portable_name (encode_name c n))"
proof (rule tool_names_become_portable)
  show "hex_digest demo_digest" by (auto simp: hex_digest_def demo_digest_def)
  have "alias_at demo_digest ''a.b'' 0 \<noteq> alias_at demo_digest ''a.b'' 1" by code_simp
  moreover have "{..length [''a.b'']} = {0, 1}" by auto
  ultimately show "inj_on (alias_at demo_digest n) {..length [''a.b'']}" if "n \<in> set [''a.b'']" for n
    using that by (simp add: inj_on_def)
qed

text \<open>
  A continuation is spliced at an overlap: the suffix that is appended to the interrupted text
  is the new text without a part that the old text already ends with (or begins with, when the model
  started over), and no longer overlap was missed.
\<close>

theorem continuation_is_spliced_at_overlap:
  assumes "continuation_suffix existing candidate = Some s" and "existing \<noteq> []" "candidate \<noteq> []"
  shows "\<exists>k. joins existing candidate k \<and> s = drop k candidate \<and>
    (\<forall>m. joins existing candidate m \<longrightarrow> m \<le> k \<or> prefix existing candidate)"
  using assms by (rule continuation_overlap)

theorem continuation_is_spliced_at_overlap_witness:
  "\<exists>k. joins ''one two'' ''two three'' k \<and> '' three'' = drop k ''two three'' \<and>
    (\<forall>m. joins ''one two'' ''two three'' m \<longrightarrow> m \<le> k \<or> prefix ''one two'' ''two three'')"
proof (rule continuation_is_spliced_at_overlap)
  show "continuation_suffix ''one two'' ''two three'' = Some '' three''" by code_simp
qed simp_all

text \<open>
  C36. A repaired tool input is complete and valid: when a repair is accepted, the part the client
  has already seen followed by the accepted suffix reads as a JSON object that the tool's schema
  accepts, and the suffix is one of the two candidates made from the model's answer.
\<close>

theorem accepted_repair_completes_input:
  assumes "accept_tool_json_repair loads valid pre candidate name schemas = Some (s, d)"
  shows "loads (pre @ s) = Some (JObj d) \<and> validate_tool_input valid name d schemas \<and>
    s \<in> set (repair_suffix_candidates pre candidate)"
  using repair_completes [OF assms] by blast

theorem accepted_repair_completes_input_witness:
  "demo_loads (''{'' @ ''1}'') = Some (JObj [(''a'', JInt 1)]) \<and>
    validate_tool_input (\<lambda>_ _. True) ''Read'' [(''a'', JInt 1)] [] \<and>
    ''1}'' \<in> set (repair_suffix_candidates ''{'' ''{1}'')"
proof (rule accepted_repair_completes_input)
  show "accept_tool_json_repair demo_loads (\<lambda>_ _. True) ''{'' ''{1}'' ''Read'' [] = Some (''1}'', [(''a'', JInt 1)])"
    by code_simp
qed

end
