(* ===== verification/Sliding_Window.thy ===== *)
theory Sliding_Window
  imports Prelude Complex_Main
begin

text \<open>
  \<open>core/rate_limit.py\<close>: the strict sliding-window limiter behind provider admission and the
  messaging queue. Times are seconds, kept exact as rationals. One round of the loop in
  \<open>_acquire\<close> runs under the limiter's lock without yielding, so a round is one step; it reads
  the clock twice, once to expire old entries and once for the entry it records.
\<close>

section \<open>The limiter\<close>

type_synonym seconds = rat

record sliding_limiter =
  lim_rate :: nat
  lim_window :: seconds
  lim_times :: "seconds list"

datatype limiter_error = Bad_Rate_Limit | Bad_Rate_Window

definition new_limiter :: "int \<Rightarrow> seconds \<Rightarrow> limiter_error + sliding_limiter" where
  "new_limiter rate win =
     (if rate \<le> 0 then Inl Bad_Rate_Limit
      else if win \<le> 0 then Inl Bad_Rate_Window
      else Inr \<lparr>lim_rate = nat rate, lim_window = win, lim_times = []\<rparr>)"

text \<open>One round: the permission was refused, an entry was recorded, or the caller sleeps.\<close>

datatype acquire_round = Refused | Acquired | Sleep seconds

definition expired :: "seconds \<Rightarrow> sliding_limiter \<Rightarrow> sliding_limiter" where
  "expired now l = l\<lparr>lim_times := dropWhile (\<lambda>t. t \<le> now - lim_window l) (lim_times l)\<rparr>"

definition acquire_once ::
  "seconds \<times> seconds \<Rightarrow> bool \<Rightarrow> sliding_limiter \<Rightarrow> acquire_round \<times> sliding_limiter" where
  "acquire_once clock allowed l =
     (case clock of (now, later) \<Rightarrow>
        (let l = expired now l in
         if length (lim_times l) < lim_rate l then
           (if \<not> allowed then (Refused, l)
            else (Acquired, l\<lparr>lim_times := lim_times l @ [later]\<rparr>))
         else (Sleep (max 0 (hd (lim_times l) + lim_window l - now)), l)))"

section \<open>Runs of the limiter\<close>

text \<open>
  The rounds of all callers, interleaved in any way. Beside the limiter the run keeps the
  times of all acquisitions so far.
\<close>

type_synonym limiter_call = "(seconds \<times> seconds) \<times> bool"

fun limiter_step :: "sliding_limiter \<times> seconds list \<Rightarrow> limiter_call \<Rightarrow> sliding_limiter \<times> seconds list" where
  "limiter_step (l, hist) (clock, allowed) =
     (case acquire_once clock allowed l of
        (Acquired, l') \<Rightarrow> (l', hist @ [snd clock])
      | (_, l') \<Rightarrow> (l', hist))"

text \<open>The clock does not run backwards.\<close>

fun clock_from :: "seconds \<Rightarrow> limiter_call list \<Rightarrow> bool" where
  "clock_from t [] \<longleftrightarrow> True"
| "clock_from t (((now, later), allowed) # calls) \<longleftrightarrow> t \<le> now \<and> now \<le> later \<and> clock_from later calls"

section \<open>The bound\<close>

text \<open>
  What the limiter still remembers is the end of the log; what it forgot lies a window back;
  and entries that are as far apart as the rate are a window apart.
\<close>

definition spaced :: "nat \<Rightarrow> seconds \<Rightarrow> seconds list \<Rightarrow> bool" where
  "spaced n w hist \<longleftrightarrow> sorted hist \<and> (\<forall>i. i + n < length hist \<longrightarrow> hist ! i + w \<le> hist ! (i + n))"

definition limiter_ok :: "seconds \<Rightarrow> sliding_limiter \<times> seconds list \<Rightarrow> bool" where
  "limiter_ok t s \<longleftrightarrow>
     (case s of (l, hist) \<Rightarrow>
        (\<exists>old. hist = old @ lim_times l \<and> (\<forall>x \<in> set old. x + lim_window l \<le> t)) \<and>
        (\<forall>x \<in> set hist. x \<le> t) \<and> spaced (lim_rate l) (lim_window l) hist)"

lemma limiter_okI:
  assumes "hist = old @ lim_times l" "\<And>x. x \<in> set old \<Longrightarrow> x + lim_window l \<le> t"
    "\<And>x. x \<in> set hist \<Longrightarrow> x \<le> t" "spaced (lim_rate l) (lim_window l) hist"
  shows "limiter_ok t (l, hist)"
  using assms unfolding limiter_ok_def by auto

lemma limiter_okE:
  assumes "limiter_ok t (l, hist)"
  obtains old where "hist = old @ lim_times l" "\<And>x. x \<in> set old \<Longrightarrow> x + lim_window l \<le> t"
    "\<And>x. x \<in> set hist \<Longrightarrow> x \<le> t" "spaced (lim_rate l) (lim_window l) hist"
  using assms unfolding limiter_ok_def by auto

lemma expired_frame [frame_simps]:
  "lim_rate (expired now l) = lim_rate l" "lim_window (expired now l) = lim_window l"
  by (simp_all add: expired_def)

lemma expired_ok:
  assumes "limiter_ok t (l, hist)" "t \<le> now"
  shows "limiter_ok now (expired now l, hist)"
  using assms(1)
proof (rule limiter_okE)
  fix old
  assume old: "hist = old @ lim_times l" "\<And>x. x \<in> set old \<Longrightarrow> x + lim_window l \<le> t"
    and hist: "\<And>x. x \<in> set hist \<Longrightarrow> x \<le> t" "spaced (lim_rate l) (lim_window l) hist"
  let ?P = "\<lambda>x. x \<le> now - lim_window l"
  show ?thesis
  proof (rule limiter_okI [where old = "old @ takeWhile ?P (lim_times l)"])
    show "hist = (old @ takeWhile ?P (lim_times l)) @ lim_times (expired now l)"
      using old(1) by (simp add: expired_def)
    show "x + lim_window (expired now l) \<le> now" if "x \<in> set (old @ takeWhile ?P (lim_times l))" for x
      using that old(2) [of x] assms(2) by (auto simp: frame_simps dest: set_takeWhileD)
    show "x \<le> now" if "x \<in> set hist" for x using hist(1) [OF that] assms(2) by simp
    show "spaced (lim_rate (expired now l)) (lim_window (expired now l)) hist"
      using hist(2) by (simp add: frame_simps)
  qed
qed

lemma record_ok:
  assumes "limiter_ok now (l, hist)" and few: "length (lim_times l) < lim_rate l" and "now \<le> later"
  shows "limiter_ok later (l\<lparr>lim_times := lim_times l @ [later]\<rparr>, hist @ [later])"
  using assms(1)
proof (rule limiter_okE)
  fix old
  assume old: "hist = old @ lim_times l" "\<And>x. x \<in> set old \<Longrightarrow> x + lim_window l \<le> now"
    and hist: "\<And>x. x \<in> set hist \<Longrightarrow> x \<le> now" "spaced (lim_rate l) (lim_window l) hist"
  have "(hist @ [later]) ! i + lim_window l \<le> (hist @ [later]) ! (i + lim_rate l)"
    if i: "i + lim_rate l < length (hist @ [later])" for i
  proof (cases "i + lim_rate l < length hist")
    case True
    with hist(2) show ?thesis by (simp add: spaced_def nth_append)
  next
    case False
    with i have n: "i + lim_rate l = length hist" by simp
    with few old(1) have "i < length old" by simp
    then have "hist ! i \<in> set old" "i < length hist" using old(1) by (auto simp: nth_append)
    with old(2) [of "hist ! i"] n \<open>now \<le> later\<close> show ?thesis by (simp add: nth_append)
  qed
  moreover have "sorted (hist @ [later])"
    using hist \<open>now \<le> later\<close> by (auto simp: sorted_append spaced_def intro: order_trans)
  ultimately have "spaced (lim_rate l) (lim_window l) (hist @ [later])" by (simp add: spaced_def)
  with old hist(1) \<open>now \<le> later\<close> show ?thesis
    by (intro limiter_okI [where old = old]) (auto intro: order_trans)
qed

lemma limiter_ok_later: "limiter_ok t s \<Longrightarrow> t \<le> t' \<Longrightarrow> limiter_ok t' s"
  unfolding limiter_ok_def by (auto split: prod.splits intro: order_trans)

lemma limiter_step_ok:
  assumes "limiter_ok t s" "t \<le> now" "now \<le> later"
  shows "limiter_ok later (limiter_step s ((now, later), allowed))"
proof -
  obtain l hist where s: "s = (l, hist)" by (cases s)
  note ok = expired_ok [OF assms(1) [unfolded s] assms(2)]
  show ?thesis
    using ok record_ok [OF ok _ assms(3)] limiter_ok_later [OF ok assms(3)]
    by (auto simp: s acquire_once_def Let_def)
qed

lemma limiter_step_config:
  "limiter_step (l, hist) c = (l', hist') \<Longrightarrow> lim_rate l' = lim_rate l \<and> lim_window l' = lim_window l"
  by (cases c) (auto simp: acquire_once_def Let_def frame_simps split: prod.splits if_splits)

lemma limiter_run_config:
  "run limiter_step (l, hist) calls = (l', hist') \<Longrightarrow> lim_rate l' = lim_rate l \<and> lim_window l' = lim_window l"
proof (induction calls arbitrary: l hist)
  case (Cons c calls)
  obtain l1 log1 where "limiter_step (l, hist) c = (l1, log1)" by (cases "limiter_step (l, hist) c")
  with Cons limiter_step_config [OF this] show ?case by simp
qed simp

lemma limiter_run_ok:
  "limiter_ok t s \<Longrightarrow> clock_from t calls \<Longrightarrow> \<exists>t'. limiter_ok t' (run limiter_step s calls)"
proof (induction calls arbitrary: t s)
  case (Cons c calls)
  obtain now later allowed where c: "c = ((now, later), allowed)" by (metis prod.exhaust)
  with Cons.prems have "limiter_ok later (limiter_step s c)" "clock_from later calls"
    using limiter_step_ok by auto
  with Cons.IH show ?case by simp
qed auto

text \<open>A sorted list with this spacing has at most \<open>n\<close> entries in a half-open window.\<close>

lemma spaced_count:
  assumes "spaced n w hist" and "0 < n"
  shows "length (filter (\<lambda>t. a \<le> t \<and> t < a + w) hist) \<le> n"
proof (rule ccontr)
  assume "\<not> length (filter (\<lambda>t. a \<le> t \<and> t < a + w) hist) \<le> n"
  then have many: "n < card {i. i < length hist \<and> a \<le> hist ! i \<and> hist ! i < a + w}" (is "_ < card ?I")
    by (simp add: length_filter_conv_card)
  then have "0 < card ?I" by simp
  then have ne: "?I \<noteq> {}" and fin: "finite ?I" unfolding card_gt_0_iff by blast+
  define i where "i = Min ?I"
  have i: "i \<in> ?I" using Min_in [OF fin ne] by (simp only: i_def)
  have "\<exists>j \<in> ?I. i + n \<le> j"
  proof (rule ccontr)
    assume "\<not> (\<exists>j \<in> ?I. i + n \<le> j)"
    then have "?I \<subseteq> {i..<i + n}" using Min_le [OF fin] by (force simp: i_def)
    from card_mono [OF _ this] many show False by simp
  qed
  then obtain j where j: "j \<in> ?I" "i + n \<le> j" ..
  have "hist ! i + w \<le> hist ! (i + n)" "hist ! (i + n) \<le> hist ! j"
    using assms(1) i j by (auto simp: spaced_def intro: sorted_nth_mono)
  with i j show False by simp
qed

lemma window_bound:
  assumes new: "new_limiter rate w = Inr l" and clock: "clock_from t calls"
    and r: "run limiter_step (l, []) calls = (l', hist)"
  shows "int (length (filter (\<lambda>x. a \<le> x \<and> x < a + w) hist)) \<le> rate"
proof -
  have l: "lim_rate l = nat rate" "lim_window l = w" "lim_times l = []" "0 < rate"
    using new by (auto simp: new_limiter_def split: if_splits)
  then have "limiter_ok t (l, [])" by (simp add: limiter_ok_def spaced_def)
  from limiter_run_ok [OF this clock] r obtain t' where "limiter_ok t' (l', hist)" by auto
  then have "spaced (nat rate) w hist"
    using limiter_run_config [OF r] l by (simp add: limiter_ok_def)
  from spaced_count [OF this, of a] l(4) show ?thesis by (simp add: le_nat_iff)
qed

text \<open>A caller that sleeps as long as it was told finds room, when nobody else took it.\<close>

lemma sleep_suffices:
  assumes full: "acquire_once (now, later) allowed l = (Sleep d, l1)" and "now + d \<le> now'"
    and "sorted (lim_times l)" and "0 < lim_rate l" and len: "length (lim_times l) \<le> lim_rate l"
  shows "0 \<le> d \<and> fst (acquire_once (now', later') allowed' l1) = (if allowed' then Acquired else Refused)"
proof -
  have l1: "l1 = expired now l" "d = max 0 (hd (lim_times l1) + lim_window l1 - now)"
    and room: "\<not> length (lim_times l1) < lim_rate l"
    using full by (auto simp: acquire_once_def Let_def frame_simps split: if_splits)
  then obtain x xs where xs: "lim_times l1 = x # xs" using \<open>0 < lim_rate l\<close> by (cases "lim_times l1") auto
  have "length (lim_times l1) \<le> length (lim_times l)" by (simp add: l1(1) expired_def length_dropWhile_le)
  with xs len have n: "length xs < lim_rate l1" by (simp add: l1(1) frame_simps)
  have "x \<le> now' - lim_window l1" using l1(2) xs assms(2) by (simp add: max_def split: if_splits)
  then have "length (lim_times (expired now' l1)) \<le> length xs"
    using xs by (simp add: expired_def length_dropWhile_le)
  with n l1(2) show ?thesis by (simp add: acquire_once_def Let_def frame_simps max_def)
qed

end
