(* ===== verification/Admission.thy ===== *)
theory Admission
  imports Sliding_Window
begin

text \<open>
  \<open>providers/admission.py\<close>: rate, concurrency and recovery of one provider. The methods of
  \<open>ProviderAdmissionController\<close> that hold the condition's lock have no \<open>await\<close> in between, so
  each is one step on the controller, with the clock reading as an argument. Sessions are
  named by numbers. \<open>co_blocked\<close> are the tasks inside \<open>condition.wait()\<close>; \<open>notify_all\<close> wakes
  them all. What an exception means to the retry policy is part of \<open>upstream_error\<close>; Python's
  \<open>float()\<close> and the date parser are the parameters in \<open>header_env\<close>.
\<close>

section \<open>Reading the headers of a failed response\<close>

datatype float_read = Not_Float | Not_Finite | Finite seconds

record header_env =
  he_float :: "string \<Rightarrow> float_read"
  he_date :: "string \<Rightarrow> seconds option"

record upstream_error =
  err_name :: string
  err_retryable :: bool
  err_headers :: "(string, string) dict option"

datatype header_error = Bad_Digits

definition ascii_digit :: "char \<Rightarrow> bool" where
  "ascii_digit c \<longleftrightarrow> 48 \<le> (of_char c :: nat) \<and> (of_char c :: nat) \<le> 57"

text \<open>\<open>str.isdigit\<close> also accepts the superscripts, which \<open>int()\<close> rejects.\<close>

definition unicode_digit :: "char \<Rightarrow> bool" where
  "unicode_digit c \<longleftrightarrow> ascii_digit c \<or> of_char c \<in> set ([178, 179, 185] :: nat list)"

definition digits_value :: "string \<Rightarrow> int" where
  "digits_value s = foldl (\<lambda>n c. 10 * n + (of_char c - 48)) 0 s"

definition parse_remaining :: "string option \<Rightarrow> header_error + int option" where
  "parse_remaining v =
     (case v of
        None \<Rightarrow> Inr None
      | Some s \<Rightarrow>
          (let t = py_strip s in
           if t = [] \<or> \<not> list_all unicode_digit t then Inr None
           else if list_all ascii_digit t then Inr (Some (digits_value t))
           else Inl Bad_Digits))"

definition ascii_lower :: "char \<Rightarrow> char" where
  "ascii_lower c = (if 65 \<le> (of_char c :: nat) \<and> (of_char c :: nat) \<le> 90 then char_of (of_char c + 32 :: nat) else c)"

definition reset_multipliers :: "(string, seconds) dict" where
  "reset_multipliers = [(''ms'', 1 / 1000), (''s'', 1), (''m'', 60), (''h'', 3600)]"

text \<open>The pattern: digits, perhaps a point and digits, perhaps a unit, and nothing more.\<close>

definition match_duration :: "string \<Rightarrow> (seconds \<times> string) option" where
  "match_duration s =
     (let whole = takeWhile ascii_digit s; rest = dropWhile ascii_digit s;
          frac = (case rest of c # r \<Rightarrow> if c = CHR ''.'' then takeWhile ascii_digit r else [] | [] \<Rightarrow> []);
          unit = map ascii_lower (if frac = [] then rest else drop (length frac + 1) rest)
      in if whole = [] \<or> unit \<noteq> [] \<and> unit \<notin> set (dkeys reset_multipliers) then None
         else Some (of_int (digits_value whole) + of_int (digits_value frac) / 10 ^ length frac,
                    if unit = [] then ''s'' else unit))"

definition parse_reset_delay :: "header_env \<Rightarrow> string \<Rightarrow> seconds option" where
  "parse_reset_delay env s =
     (case match_duration s of
        Some (amount, unit) \<Rightarrow>
          (let seconds = amount * the (dget reset_multipliers unit) in
           if seconds < 2 ^ 1024 then Some seconds else None)
      | None \<Rightarrow> map_option (max 0) (he_date env s))"

record rate_limit_signal =
  sig_reset :: "seconds option"
  sig_tokens :: "int option"
  sig_requests :: "int option"

definition exhausted :: "rate_limit_signal \<Rightarrow> bool" where
  "exhausted sig \<longleftrightarrow> sig_tokens sig = Some 0 \<or> sig_requests sig = Some 0"

definition reset_header_names :: "string list" where
  "reset_header_names =
     [''x-ratelimit-reset-tokens'', ''x-ratelimit-reset-requests'', ''x-ratelimit-reset'']"

fun first_reset :: "header_env \<Rightarrow> (string, string) dict \<Rightarrow> string list \<Rightarrow> seconds option" where
  "first_reset env headers [] = None"
| "first_reset env headers (name # names) =
     (case dget headers name of
        None \<Rightarrow> first_reset env headers names
      | Some v \<Rightarrow>
          if py_strip v = [] then first_reset env headers names
          else (case parse_reset_delay env (py_strip v) of
                  Some d \<Rightarrow> Some d
                | None \<Rightarrow> first_reset env headers names))"

definition rate_limit_signal_from_error ::
  "header_env \<Rightarrow> upstream_error \<Rightarrow> header_error + rate_limit_signal option" where
  "rate_limit_signal_from_error env err =
     (case err_headers err of
        None \<Rightarrow> Inr None
      | Some headers \<Rightarrow>
          (let reset = first_reset env headers reset_header_names in
           bind_result (parse_remaining (dget headers ''x-ratelimit-remaining-tokens'')) (\<lambda>tokens.
             bind_result (parse_remaining (dget headers ''x-ratelimit-remaining-requests'')) (\<lambda>requests.
               Inr (if reset = None \<and> tokens = None \<and> requests = None then None
                    else Some \<lparr>sig_reset = reset, sig_tokens = tokens, sig_requests = requests\<rparr>)))))"

definition retry_after_seconds :: "header_env \<Rightarrow> upstream_error \<Rightarrow> seconds option" where
  "retry_after_seconds env err =
     (case err_headers err of
        None \<Rightarrow> None
      | Some headers \<Rightarrow>
          (case dget headers ''retry-after'' of
             None \<Rightarrow> None
           | Some v \<Rightarrow>
               if py_strip v = [] then None
               else (case he_float env (py_strip v) of
                       Finite s \<Rightarrow> Some (max 0 s)
                     | Not_Finite \<Rightarrow> None
                     | Not_Float \<Rightarrow> map_option (max 0) (he_date env (py_strip v)))))"

section \<open>Sessions, permits and episodes\<close>

type_synonym session_id = nat

record retry_session =
  rs_max :: nat
  rs_started :: nat
  rs_terminal :: "upstream_error option"

datatype session_error = Bad_Attempts | Session_Exhausted

definition new_retry_session :: "nat \<Rightarrow> session_error + retry_session" where
  "new_retry_session n = (if n = 0 then Inl Bad_Attempts else Inr \<lparr>rs_max = n, rs_started = 0, rs_terminal = None\<rparr>)"

definition can_attempt :: "retry_session \<Rightarrow> bool" where
  "can_attempt rs \<longleftrightarrow> rs_started rs < rs_max rs"

definition attempts_remaining :: "retry_session \<Rightarrow> nat" where
  "attempts_remaining rs = rs_max rs - rs_started rs"

definition claim_attempt :: "retry_session \<Rightarrow> session_error + retry_session" where
  "claim_attempt rs =
     (if \<not> can_attempt rs then Inl Session_Exhausted else Inr (rs\<lparr>rs_started := rs_started rs + 1\<rparr>))"

definition fail_recovery :: "upstream_error \<Rightarrow> retry_session \<Rightarrow> retry_session" where
  "fail_recovery err rs = rs\<lparr>rs_terminal := Some err\<rparr>"

record gate_permit =
  gp_generation :: "nat option"
  gp_probe :: bool

definition free_permit :: gate_permit where
  "free_permit = \<lparr>gp_generation = None, gp_probe = False\<rparr>"

definition probe_permit :: "nat \<Rightarrow> gate_permit" where
  "probe_permit gen = \<lparr>gp_generation = Some gen, gp_probe = True\<rparr>"

record recovery_episode =
  ep_generation :: nat
  ep_leader :: "session_id option"
  ep_ready :: seconds
  ep_error :: upstream_error
  ep_waiters :: "session_id set"
  ep_probe :: bool
  ep_terminal :: "seconds option"

section \<open>The controller\<close>

record admission_config =
  cf_attempts :: nat
  cf_base :: seconds
  cf_max_delay :: seconds
  cf_jitter :: seconds
  cf_anticipate :: bool

record controller =
  co_config :: admission_config
  co_limiter :: sliding_limiter
  co_free :: nat
  co_episode :: "recovery_episode option"
  co_next :: nat
  co_sessions :: "session_id \<Rightarrow> retry_session"
  co_blocked :: "session_id list"

datatype admission_error =
  Rate_Limit_Positive | Rate_Window_Positive | Concurrency_Positive | Attempts_Positive
| Base_Delay_Negative | Max_Below_Base | Jitter_Negative

definition new_controller ::
  "int \<Rightarrow> seconds \<Rightarrow> int \<Rightarrow> int \<Rightarrow> seconds \<Rightarrow> seconds \<Rightarrow> seconds \<Rightarrow> bool \<Rightarrow> admission_error + controller" where
  "new_controller rate win slots attempts base max_delay jitter anticipate =
     (if rate \<le> 0 then Inl Rate_Limit_Positive
      else if win \<le> 0 then Inl Rate_Window_Positive
      else if slots \<le> 0 then Inl Concurrency_Positive
      else if attempts \<le> 0 then Inl Attempts_Positive
      else if base < 0 then Inl Base_Delay_Negative
      else if max_delay < base then Inl Max_Below_Base
      else if jitter < 0 then Inl Jitter_Negative
      else Inr \<lparr>co_config = \<lparr>cf_attempts = nat attempts, cf_base = base, cf_max_delay = max_delay,
                               cf_jitter = jitter, cf_anticipate = anticipate\<rparr>,
                co_limiter = \<lparr>lim_rate = nat rate, lim_window = win, lim_times = []\<rparr>,
                co_free = nat slots, co_episode = None, co_next = 1,
                co_sessions = (\<lambda>_. \<lparr>rs_max = nat attempts, rs_started = 0, rs_terminal = None\<rparr>),
                co_blocked = []\<rparr>)"

definition notify_all :: "controller \<Rightarrow> controller" where
  "notify_all c = c\<lparr>co_blocked := []\<rparr>"

definition on_session :: "session_id \<Rightarrow> (retry_session \<Rightarrow> retry_session) \<Rightarrow> controller \<Rightarrow> controller" where
  "on_session s f c = c\<lparr>co_sessions := (co_sessions c)(s := f (co_sessions c s))\<rparr>"

definition start_recovery_episode ::
  "session_id option \<Rightarrow> seconds \<Rightarrow> upstream_error \<Rightarrow> controller \<Rightarrow> recovery_episode \<times> controller" where
  "start_recovery_episode leader ready err c =
     (let ep = \<lparr>ep_generation = co_next c, ep_leader = leader, ep_ready = ready, ep_error = err,
                ep_waiters = {}, ep_probe = False, ep_terminal = None\<rparr>
      in (ep, c\<lparr>co_next := co_next c + 1, co_episode := Some ep\<rparr>))"

text \<open>
  One round of \<open>_wait_for_gate\<close>: the caller raises, passes, blocks on the condition, or leaves
  the lock to sleep until its probe is due. A caller that blocks as a waiter remembers the
  episode's generation.
\<close>

datatype gate_outcome =
  Gate_Raise upstream_error | Gate_Pass gate_permit | Gate_Block "nat option" | Gate_Sleep seconds nat

definition gate_claim ::
  "session_id \<Rightarrow> seconds \<Rightarrow> recovery_episode \<Rightarrow> controller \<Rightarrow> gate_outcome \<times> controller" where
  "gate_claim s now ep c =
     (let ep = (if ep_leader ep = None
                then ep\<lparr>ep_leader := Some s, ep_waiters := ep_waiters ep - {s}\<rparr> else ep)
      in if ep_leader ep = Some s then
           if ep_probe ep then
             (Gate_Block None, c\<lparr>co_episode := Some ep, co_blocked := co_blocked c @ [s]\<rparr>)
           else
             (let delay = max 0 (ep_ready ep - now) in
              if delay = 0 then
                (Gate_Pass (probe_permit (ep_generation ep)), c\<lparr>co_episode := Some (ep\<lparr>ep_probe := True\<rparr>)\<rparr>)
              else (Gate_Sleep delay (ep_generation ep), c\<lparr>co_episode := Some ep\<rparr>))
         else
           (Gate_Block (Some (ep_generation ep)),
            c\<lparr>co_episode := Some (ep\<lparr>ep_waiters := insert s (ep_waiters ep)\<rparr>),
              co_blocked := co_blocked c @ [s]\<rparr>))"

definition gate_round :: "session_id \<Rightarrow> seconds \<Rightarrow> controller \<Rightarrow> gate_outcome \<times> controller" where
  "gate_round s now c =
     (case rs_terminal (co_sessions c s) of
        Some err \<Rightarrow> (Gate_Raise err, c)
      | None \<Rightarrow>
          (case co_episode c of
             None \<Rightarrow> (Gate_Pass free_permit, c)
           | Some ep \<Rightarrow>
               (case ep_terminal ep of
                  None \<Rightarrow> gate_claim s now ep c
                | Some until \<Rightarrow>
                    if now < until then (Gate_Raise (ep_error ep), c)
                    else (case start_recovery_episode (Some s) now (ep_error ep) c of
                            (ep, c) \<Rightarrow> gate_claim s now ep c))))"

text \<open>After the sleep, and after a cancelled sleep or wait.\<close>

definition claim_probe :: "session_id \<Rightarrow> nat \<Rightarrow> controller \<Rightarrow> gate_permit option \<times> controller" where
  "claim_probe s gen c =
     (case co_episode c of
        None \<Rightarrow> (None, c)
      | Some ep \<Rightarrow>
          if ep_generation ep = gen \<and> ep_terminal ep = None \<and> ep_leader ep = Some s \<and> \<not> ep_probe ep
          then (Some (probe_permit gen), c\<lparr>co_episode := Some (ep\<lparr>ep_probe := True\<rparr>)\<rparr>)
          else (None, c))"

definition abandon_waiting_leader :: "session_id \<Rightarrow> nat \<Rightarrow> controller \<Rightarrow> controller" where
  "abandon_waiting_leader s gen c =
     (case co_episode c of
        None \<Rightarrow> c
      | Some ep \<Rightarrow>
          if ep_generation ep \<noteq> gen \<or> ep_leader ep \<noteq> Some s \<or> ep_probe ep then c
          else notify_all (c\<lparr>co_episode := Some (ep\<lparr>ep_leader := None\<rparr>)\<rparr>))"

definition cancel_wait :: "session_id \<Rightarrow> nat option \<Rightarrow> controller \<Rightarrow> controller" where
  "cancel_wait s gen c =
     c\<lparr>co_episode :=
         map_option (\<lambda>ep. if gen = Some (ep_generation ep) then ep\<lparr>ep_waiters := ep_waiters ep - {s}\<rparr> else ep)
           (co_episode c),
       co_blocked := filter (\<lambda>k. k \<noteq> s) (co_blocked c)\<rparr>"

definition permit_is_current :: "session_id \<Rightarrow> gate_permit \<Rightarrow> controller \<Rightarrow> bool" where
  "permit_is_current s p c \<longleftrightarrow>
     (if \<not> gp_probe p then co_episode c = None
      else (case co_episode c of
              None \<Rightarrow> False
            | Some ep \<Rightarrow> Some (ep_generation ep) = gp_generation p \<and> ep_terminal ep = None \<and>
                ep_leader ep = Some s \<and> ep_probe ep))"

definition matching_probe :: "session_id \<Rightarrow> gate_permit \<Rightarrow> controller \<Rightarrow> recovery_episode option" where
  "matching_probe s p c =
     (case co_episode c of
        None \<Rightarrow> None
      | Some ep \<Rightarrow>
          if \<not> gp_probe p \<or> Some (ep_generation ep) \<noteq> gp_generation p \<or> ep_leader ep \<noteq> Some s \<or> \<not> ep_probe ep
          then None else Some ep)"

section \<open>The outcome of an attempt\<close>

definition attempt_succeeded :: "session_id \<Rightarrow> gate_permit \<Rightarrow> controller \<Rightarrow> controller" where
  "attempt_succeeded s p c =
     (if matching_probe s p c = None then c else notify_all (c\<lparr>co_episode := None\<rparr>))"

definition attempt_rejected :: "session_id \<Rightarrow> gate_permit \<Rightarrow> controller \<Rightarrow> controller" where
  "attempt_rejected s p c =
     (if matching_probe s p c = None then c else notify_all (c\<lparr>co_episode := None\<rparr>))"

definition attempt_corrected :: "session_id \<Rightarrow> gate_permit \<Rightarrow> seconds \<Rightarrow> controller \<Rightarrow> controller" where
  "attempt_corrected s p now c =
     (case matching_probe s p c of
        None \<Rightarrow> c
      | Some ep \<Rightarrow> notify_all (c\<lparr>co_episode := Some (ep\<lparr>ep_probe := False, ep_ready := now\<rparr>)\<rparr>))"

text \<open>The same for an attempt closed without an outcome and for a permit given back.\<close>

definition abandon_probe :: "session_id \<Rightarrow> gate_permit \<Rightarrow> seconds \<Rightarrow> controller \<Rightarrow> controller" where
  "abandon_probe s p now c =
     (case matching_probe s p c of
        None \<Rightarrow> c
      | Some ep \<Rightarrow>
          notify_all (c\<lparr>co_episode := Some (ep\<lparr>ep_leader := None, ep_probe := False, ep_ready := now\<rparr>)\<rparr>))"

definition retry_delay ::
  "header_env \<Rightarrow> admission_config \<Rightarrow> upstream_error \<Rightarrow> nat \<Rightarrow> seconds \<Rightarrow> rate_limit_signal option \<Rightarrow> seconds" where
  "retry_delay env cf err started jitter sig =
     (let backoff = min (cf_base cf * 2 ^ (started - 1)) (cf_max_delay cf) + jitter;
          delay = max backoff (case retry_after_seconds env err of None \<Rightarrow> 0 | Some r \<Rightarrow> r)
      in case sig of
           None \<Rightarrow> delay
         | Some g \<Rightarrow> (case sig_reset g of None \<Rightarrow> delay | Some r \<Rightarrow> max delay r))"

definition rate_limit_signal_of :: "header_env \<Rightarrow> controller \<Rightarrow> upstream_error \<Rightarrow> header_error + rate_limit_signal option" where
  "rate_limit_signal_of env c err =
     (if cf_anticipate (co_config c) then rate_limit_signal_from_error env err else Inr None)"

text \<open>
  The two halves of \<open>_attempt_failed\<close> under the lock: another try, which opens an episode, moves
  the probe or joins the waiters; and no further try, which ends the episode for everybody.
\<close>

definition schedule_retry ::
  "session_id \<Rightarrow> gate_permit \<Rightarrow> upstream_error \<Rightarrow> seconds \<Rightarrow> controller \<Rightarrow> controller" where
  "schedule_retry s p err due c =
     notify_all
       (case co_episode c of
          None \<Rightarrow> snd (start_recovery_episode (Some s) due err c)
        | Some ep \<Rightarrow>
            if matching_probe s p c \<noteq> None then
              c\<lparr>co_episode := Some (ep\<lparr>ep_error := err, ep_probe := False, ep_ready := due\<rparr>)\<rparr>
            else if ep_terminal ep \<noteq> None then on_session s (fail_recovery (ep_error ep)) c
            else c\<lparr>co_episode := Some (ep\<lparr>ep_waiters := insert s (ep_waiters ep)\<rparr>)\<rparr>)"

definition exhaust_recovery ::
  "session_id \<Rightarrow> gate_permit \<Rightarrow> upstream_error \<Rightarrow> seconds \<Rightarrow> seconds \<Rightarrow> controller \<Rightarrow> controller" where
  "exhaust_recovery s p err now until c =
     (if co_episode c = None \<or> matching_probe s p c \<noteq> None then
        (case (case co_episode c of
                 None \<Rightarrow> start_recovery_episode None now err c
               | Some ep \<Rightarrow> (ep, c)) of
           (ep, c) \<Rightarrow>
             notify_all
               (c\<lparr>co_episode := Some (ep\<lparr>ep_error := err, ep_leader := None, ep_probe := False,
                                         ep_terminal := Some until, ep_waiters := {}\<rparr>),
                  co_sessions := (\<lambda>k. if k \<in> ep_waiters ep then fail_recovery err (co_sessions c k)
                                       else co_sessions c k)\<rparr>))
      else c)"

text \<open>The two random jitters are arguments; an error in a header leaves everything as it was.\<close>

definition attempt_failed ::
  "header_env \<Rightarrow> session_id \<Rightarrow> gate_permit \<Rightarrow> upstream_error \<Rightarrow> seconds \<Rightarrow> seconds \<times> seconds \<Rightarrow> controller
     \<Rightarrow> header_error + bool \<times> controller" where
  "attempt_failed env s p err now jitters c =
     bind_result (rate_limit_signal_of env c err) (\<lambda>sig.
       let session = co_sessions c s;
           quota = (case sig of None \<Rightarrow> False | Some g \<Rightarrow> exhausted g);
           delay = retry_delay env (co_config c) err (rs_started session) (fst jitters) sig;
           terminal_delay = retry_delay env (co_config c) err (rs_started session) (snd jitters) sig
       in Inr (if can_attempt session \<and> \<not> quota then (True, schedule_retry s p err (now + delay) c)
               else (False, exhaust_recovery s p err now (now + terminal_delay) c)))"

section \<open>One admitted attempt\<close>

record provider_attempt =
  pa_session :: session_id
  pa_permit :: gate_permit
  pa_resolved :: bool
  pa_accepted :: bool
  pa_retryable :: "bool option"
  pa_closed :: bool

definition new_attempt :: "session_id \<Rightarrow> gate_permit \<Rightarrow> provider_attempt" where
  "new_attempt s p =
     \<lparr>pa_session = s, pa_permit = p, pa_resolved = False, pa_accepted = False, pa_retryable = None, pa_closed = False\<rparr>"

definition pa_succeeded :: "provider_attempt \<Rightarrow> controller \<Rightarrow> provider_attempt \<times> controller" where
  "pa_succeeded a c =
     (if pa_resolved a then (a, c)
      else (a\<lparr>pa_resolved := True, pa_accepted := True\<rparr>, attempt_succeeded (pa_session a) (pa_permit a) c))"

definition pa_retry_immediately :: "seconds \<Rightarrow> provider_attempt \<Rightarrow> controller \<Rightarrow> provider_attempt \<times> controller" where
  "pa_retry_immediately now a c =
     (if pa_resolved a then (a, c)
      else (a\<lparr>pa_resolved := True\<rparr>, attempt_corrected (pa_session a) (pa_permit a) now c))"

definition pa_retry ::
  "header_env \<Rightarrow> upstream_error \<Rightarrow> seconds \<Rightarrow> seconds \<times> seconds \<Rightarrow> provider_attempt \<Rightarrow> controller
     \<Rightarrow> (header_error + bool) \<times> provider_attempt \<times> controller" where
  "pa_retry env err now jitters a c =
     (if pa_resolved a then (Inr False, a, c)
      else
        (let a = a\<lparr>pa_retryable := Some (err_retryable err)\<rparr> in
         if \<not> err_retryable err then
           (Inr False, a\<lparr>pa_resolved := True\<rparr>, attempt_rejected (pa_session a) (pa_permit a) c)
         else
           (case attempt_failed env (pa_session a) (pa_permit a) err now jitters c of
              Inl e \<Rightarrow> (Inl e, a, c)
            | Inr (should_retry, c) \<Rightarrow> (Inr should_retry, a\<lparr>pa_resolved := True\<rparr>, c))))"

definition release_concurrency :: "controller \<Rightarrow> controller" where
  "release_concurrency c = c\<lparr>co_free := co_free c + 1\<rparr>"

definition pa_close :: "seconds \<Rightarrow> provider_attempt \<Rightarrow> controller \<Rightarrow> provider_attempt \<times> controller" where
  "pa_close now a c =
     (if pa_closed a then (a, c)
      else
        (a\<lparr>pa_closed := True\<rparr>,
         release_concurrency
           (if pa_resolved a then c else abandon_probe (pa_session a) (pa_permit a) now c)))"

end
