(* ===== verification/Admission_System.thy ===== *)
theory Admission_System
  imports Admission
begin

text \<open>
  The tasks that share one admission controller. A task runs one session: the loop of
  \<open>open_attempt\<close> (gate, limiter, semaphore), then the attempt itself, as \<open>run_with_retry\<close>,
  \<open>_create_stream\<close> and the stream runner of \<open>openai_chat/provider.py\<close> use it. A task may hold
  two attempts: the runner recovers a broken stream through a second one before its
  \<open>finally\<close> closes the first. Each event is what one task does between two suspensions; an
  event that is not enabled changes nothing.
\<close>

section \<open>Tasks\<close>

datatype task_stage =
  Idle | Gate | Waiting "nat option" | Sleeping nat | Limiting gate_permit | Queued gate_permit
| Serving | Unwinding

record task =
  tk_stage :: task_stage
  tk_held :: "provider_attempt list"
  tk_granted :: bool

definition idle_task :: task where
  "idle_task = \<lparr>tk_stage = Idle, tk_held = [], tk_granted = False\<rparr>"

record admission_system =
  sy_ctl :: controller
  sy_tasks :: "session_id \<Rightarrow> task"

definition new_system :: "controller \<Rightarrow> admission_system" where
  "new_system c = \<lparr>sy_ctl = c, sy_tasks = (\<lambda>_. idle_task)\<rparr>"

definition at_stage :: "task_stage \<Rightarrow> task \<Rightarrow> task" where
  "at_stage st tk = tk\<lparr>tk_stage := st, tk_granted := False\<rparr>"

text \<open>Where a task is after \<open>open_attempt\<close> raised, and after it was cancelled.\<close>

definition step_back :: "task \<Rightarrow> task" where
  "step_back tk = at_stage (if tk_held tk = [] then Idle else Serving) tk"

definition unwind :: "task \<Rightarrow> task" where
  "unwind tk = at_stage (if tk_held tk = [] then Idle else Unwinding) tk"

definition put_task :: "session_id \<Rightarrow> task \<Rightarrow> controller \<Rightarrow> admission_system \<Rightarrow> admission_system" where
  "put_task s tk c sy = \<lparr>sy_ctl = c, sy_tasks = (sy_tasks sy)(s := tk)\<rparr>"

section \<open>The steps of one task\<close>

text \<open>\<open>open_attempt\<close>: the check before the loop, one gate round, the wake-up after the sleep,
  one limiter round, and the slot.\<close>

definition enter_open :: "controller \<Rightarrow> session_id \<Rightarrow> task \<Rightarrow> task" where
  "enter_open c s tk = (if can_attempt (co_sessions c s) then at_stage Gate tk else step_back tk)"

definition gate_task :: "session_id \<Rightarrow> seconds \<Rightarrow> task \<Rightarrow> controller \<Rightarrow> task \<times> controller" where
  "gate_task s now tk c =
     (case gate_round s now c of
        (Gate_Raise err, c) \<Rightarrow> (step_back tk, c)
      | (Gate_Pass p, c) \<Rightarrow> (at_stage (Limiting p) tk, c)
      | (Gate_Block gen, c) \<Rightarrow> (at_stage (Waiting gen) tk, c)
      | (Gate_Sleep delay gen, c) \<Rightarrow> (at_stage (Sleeping gen) tk, c))"

definition wake_task :: "session_id \<Rightarrow> nat \<Rightarrow> task \<Rightarrow> controller \<Rightarrow> task \<times> controller" where
  "wake_task s gen tk c =
     (case claim_probe s gen c of
        (Some p, c) \<Rightarrow> (at_stage (Limiting p) tk, c)
      | (None, c) \<Rightarrow> (at_stage Gate tk, c))"

definition limit_task ::
  "session_id \<Rightarrow> seconds \<times> seconds \<Rightarrow> gate_permit \<Rightarrow> task \<Rightarrow> controller \<Rightarrow> task \<times> controller" where
  "limit_task s clock p tk c =
     (case acquire_once clock (permit_is_current s p c) (co_limiter c) of
        (Refused, l) \<Rightarrow> (at_stage Gate tk, abandon_probe s p (snd clock) (c\<lparr>co_limiter := l\<rparr>))
      | (Acquired, l) \<Rightarrow> (at_stage (Queued p) tk, c\<lparr>co_limiter := l\<rparr>)
      | (Sleep d, l) \<Rightarrow> (tk, c\<lparr>co_limiter := l\<rparr>))"

definition slot_task :: "session_id \<Rightarrow> seconds \<Rightarrow> gate_permit \<Rightarrow> task \<Rightarrow> controller \<Rightarrow> task \<times> controller" where
  "slot_task s now p tk c =
     (if co_free c = 0 then (tk, c)
      else if \<not> permit_is_current s p c then (at_stage Gate tk, abandon_probe s p now c)
      else (case claim_attempt (co_sessions c s) of
              Inl e \<Rightarrow> (step_back tk, abandon_probe s p now c)
            | Inr rs \<Rightarrow>
                ((at_stage Serving tk)\<lparr>tk_held := new_attempt s p # tk_held tk\<rparr>,
                 on_session s (\<lambda>_. rs) (c\<lparr>co_free := co_free c - 1\<rparr>))))"

text \<open>What the caller reports of the attempt it holds.\<close>

definition succeed_task :: "task \<Rightarrow> controller \<Rightarrow> task \<times> controller" where
  "succeed_task tk c =
     (case tk_held tk of
        [] \<Rightarrow> (tk, c)
      | a # rest \<Rightarrow> (case pa_succeeded a c of (a, c) \<Rightarrow> (tk\<lparr>tk_held := a # rest\<rparr>, c)))"

definition correct_task :: "session_id \<Rightarrow> seconds \<Rightarrow> task \<Rightarrow> controller \<Rightarrow> task \<times> controller" where
  "correct_task s now tk c =
     (case tk_held tk of
        [] \<Rightarrow> (tk, c)
      | a # rest \<Rightarrow>
          if pa_resolved a \<or> \<not> can_attempt (co_sessions c s) then (tk, c)
          else (case pa_retry_immediately now a c of
                  (a, c) \<Rightarrow> (tk\<lparr>tk_held := a # rest, tk_granted := True\<rparr>, c)))"

definition fail_task ::
  "header_env \<Rightarrow> upstream_error \<Rightarrow> seconds \<Rightarrow> seconds \<times> seconds \<Rightarrow> task \<Rightarrow> controller \<Rightarrow> task \<times> controller" where
  "fail_task env err now jitters tk c =
     (case tk_held tk of
        [] \<Rightarrow> (tk, c)
      | a # rest \<Rightarrow>
          if pa_resolved a then (tk, c)
          else (case pa_retry env err now jitters a c of
                  (r, a, c) \<Rightarrow> (tk\<lparr>tk_held := a # rest, tk_granted := (r = Inr True)\<rparr>, c)))"

definition close_task :: "session_id \<Rightarrow> seconds \<Rightarrow> bool \<Rightarrow> task \<Rightarrow> controller \<Rightarrow> task \<times> controller" where
  "close_task s now again tk c =
     (case tk_held tk of
        [] \<Rightarrow> (tk, c)
      | a # rest \<Rightarrow>
          (case pa_close now a c of
             (_, c) \<Rightarrow>
               (let tk' = tk\<lparr>tk_held := rest\<rparr> in
                (if tk_stage tk = Unwinding then unwind tk'
                 else if again then enter_open c s tk' else step_back tk', c))))"

definition cancel_task :: "session_id \<Rightarrow> seconds \<Rightarrow> task \<Rightarrow> controller \<Rightarrow> task \<times> controller" where
  "cancel_task s now tk c =
     (unwind tk,
      case tk_stage tk of
        Waiting gen \<Rightarrow> cancel_wait s gen c
      | Sleeping gen \<Rightarrow> abandon_waiting_leader s gen c
      | Limiting p \<Rightarrow> abandon_probe s p now c
      | Queued p \<Rightarrow> abandon_probe s p now c
      | _ \<Rightarrow> c)"

section \<open>Events\<close>

datatype admission_event =
  Open session_id
| Check session_id seconds
| Wake session_id
| Admit session_id "seconds \<times> seconds"
| Take_Slot session_id seconds
| Succeed session_id
| Correct session_id seconds
| Fail session_id upstream_error seconds "seconds \<times> seconds"
| Recover session_id
| Close session_id seconds bool
| Cancel session_id seconds

fun event_session :: "admission_event \<Rightarrow> session_id" where
  "event_session (Open s) = s"
| "event_session (Check s _) = s"
| "event_session (Wake s) = s"
| "event_session (Admit s _) = s"
| "event_session (Take_Slot s _) = s"
| "event_session (Succeed s) = s"
| "event_session (Correct s _) = s"
| "event_session (Fail s _ _ _) = s"
| "event_session (Recover s) = s"
| "event_session (Close s _ _) = s"
| "event_session (Cancel s _) = s"

fun task_step :: "header_env \<Rightarrow> task \<Rightarrow> controller \<Rightarrow> admission_event \<Rightarrow> task \<times> controller" where
  "task_step env tk c (Open s) = (if tk_stage tk = Idle then (enter_open c s tk, c) else (tk, c))"
| "task_step env tk c (Check s now) =
     (case tk_stage tk of
        Gate \<Rightarrow> gate_task s now tk c
      | Waiting _ \<Rightarrow> if s \<in> set (co_blocked c) then (tk, c) else gate_task s now tk c
      | _ \<Rightarrow> (tk, c))"
| "task_step env tk c (Wake s) = (case tk_stage tk of Sleeping gen \<Rightarrow> wake_task s gen tk c | _ \<Rightarrow> (tk, c))"
| "task_step env tk c (Admit s clock) =
     (case tk_stage tk of Limiting p \<Rightarrow> limit_task s clock p tk c | _ \<Rightarrow> (tk, c))"
| "task_step env tk c (Take_Slot s now) =
     (case tk_stage tk of Queued p \<Rightarrow> slot_task s now p tk c | _ \<Rightarrow> (tk, c))"
| "task_step env tk c (Succeed s) = (if tk_stage tk = Serving then succeed_task tk c else (tk, c))"
| "task_step env tk c (Correct s now) = (if tk_stage tk = Serving then correct_task s now tk c else (tk, c))"
| "task_step env tk c (Fail s err now jitters) =
     (if tk_stage tk = Serving then fail_task env err now jitters tk c else (tk, c))"
| "task_step env tk c (Recover s) =
     (case tk_held tk of
        [a] \<Rightarrow> if tk_stage tk = Serving \<and> pa_accepted a \<and> \<not> tk_granted tk then (enter_open c s tk, c) else (tk, c)
      | _ \<Rightarrow> (tk, c))"
| "task_step env tk c (Close s now again) =
     (if tk_stage tk = Serving \<or> tk_stage tk = Unwinding then close_task s now again tk c else (tk, c))"
| "task_step env tk c (Cancel s now) =
     (if tk_stage tk = Idle \<or> tk_stage tk = Unwinding then (tk, c) else cancel_task s now tk c)"

definition system_step :: "header_env \<Rightarrow> admission_system \<Rightarrow> admission_event \<Rightarrow> admission_system" where
  "system_step env sy e =
     (case task_step env (sy_tasks sy (event_session e)) (sy_ctl sy) e of
        (tk, c) \<Rightarrow> put_task (event_session e) tk c sy)"

text \<open>
  What the callers promise: after a granted retry they try again, and are not cancelled on
  the way there.
\<close>

fun caller_ok :: "admission_system \<Rightarrow> admission_event \<Rightarrow> bool" where
  "caller_ok sy (Close s now again) \<longleftrightarrow> (tk_granted (sy_tasks sy s) \<longrightarrow> again)"
| "caller_ok sy (Cancel s now) \<longleftrightarrow> \<not> tk_granted (sy_tasks sy s) \<and> tk_stage (sy_tasks sy s) \<noteq> Gate"
| "caller_ok sy _ \<longleftrightarrow> True"

end
