(* ===== verification/Admission_Invariant.thy ===== *)
theory Admission_Invariant
  imports Admission_System
begin

text \<open>
  The invariant of the tasks on one admission controller. An open episode is always in
  somebody's hands: its leader carries the probe, or sleeps until it is due, or is on its way
  back to the gate. Who blocks on the condition waits for somebody else who is not blocked, so
  no wake-up is lost.
\<close>

section \<open>What a task can be doing\<close>

definition carries :: "task \<Rightarrow> gate_permit \<Rightarrow> bool" where
  "carries tk p \<longleftrightarrow> tk_stage tk = Limiting p \<or> tk_stage tk = Queued p \<or>
     (tk_stage tk = Serving \<or> tk_stage tk = Unwinding) \<and>
     (case tk_held tk of [] \<Rightarrow> False | a # _ \<Rightarrow> \<not> pa_resolved a \<and> pa_permit a = p)"

definition ready :: "task \<Rightarrow> nat \<Rightarrow> bool" where
  "ready tk gen \<longleftrightarrow> tk_stage tk = Gate \<or> tk_stage tk = Sleeping gen \<or> tk_stage tk = Serving \<and> tk_granted tk"

definition may_wait :: "task \<Rightarrow> nat \<Rightarrow> bool" where
  "may_wait tk gen \<longleftrightarrow>
     tk_stage tk = Gate \<or> tk_stage tk = Waiting (Some gen) \<or> tk_stage tk = Serving \<and> tk_granted tk"

definition in_open :: "task \<Rightarrow> bool" where
  "in_open tk \<longleftrightarrow> (case tk_stage tk of Idle \<Rightarrow> False | Serving \<Rightarrow> False | Unwinding \<Rightarrow> False | _ \<Rightarrow> True)"

definition task_ok :: "retry_session \<Rightarrow> session_id \<Rightarrow> task \<Rightarrow> bool" where
  "task_ok rs s tk \<longleftrightarrow>
     rs_started rs \<le> rs_max rs \<and>
     (\<forall>a \<in> set (tk_held tk). pa_session a = s \<and> \<not> pa_closed a \<and> (pa_accepted a \<longrightarrow> pa_resolved a)) \<and>
     (\<forall>a \<in> set (if in_open tk then tk_held tk else tl (tk_held tk)). pa_resolved a) \<and>
     (tk_stage tk = Idle \<longrightarrow> tk_held tk = []) \<and>
     (tk_stage tk = Serving \<or> tk_stage tk = Unwinding \<longrightarrow> tk_held tk \<noteq> []) \<and>
     (tk_granted tk \<longrightarrow> tk_stage tk = Serving \<and> pa_resolved (hd (tk_held tk)) \<and> can_attempt rs) \<and>
     (in_open tk \<longrightarrow> can_attempt rs) \<and>
     ((\<exists>p. carries tk p) \<longrightarrow> rs_terminal rs = None)"

definition episode_ok :: "controller \<Rightarrow> (session_id \<Rightarrow> task) \<Rightarrow> recovery_episode \<Rightarrow> bool" where
  "episode_ok c T ep \<longleftrightarrow>
     (ep_terminal ep \<noteq> None \<longrightarrow> ep_leader ep = None \<and> ep_waiters ep = {}) \<and>
     (ep_leader ep = None \<longrightarrow> \<not> ep_probe ep \<and> co_blocked c = []) \<and>
     (\<forall>l. ep_leader ep = Some l \<longrightarrow>
        rs_terminal (co_sessions c l) = None \<and> l \<notin> ep_waiters ep \<and>
        (if ep_probe ep then carries (T l) (probe_permit (ep_generation ep)) else ready (T l) (ep_generation ep))) \<and>
     (\<forall>k \<in> set (co_blocked c). k \<in> ep_waiters ep \<and> tk_stage (T k) = Waiting (Some (ep_generation ep))) \<and>
     (\<forall>k \<in> ep_waiters ep. may_wait (T k) (ep_generation ep) \<and> rs_terminal (co_sessions c k) = None)"

definition gate_ok :: "controller \<Rightarrow> (session_id \<Rightarrow> task) \<Rightarrow> bool" where
  "gate_ok c T \<longleftrightarrow>
     (case co_episode c of None \<Rightarrow> co_blocked c = [] | Some ep \<Rightarrow> episode_ok c T ep) \<and>
     (\<forall>s. task_ok (co_sessions c s) s (T s))"

text \<open>The slots: every open attempt holds one.\<close>

definition slots_ok :: "nat \<Rightarrow> controller \<Rightarrow> (session_id \<Rightarrow> task) \<Rightarrow> bool" where
  "slots_ok n c T \<longleftrightarrow>
     (\<exists>A. finite A \<and> (\<forall>s. s \<notin> A \<longrightarrow> tk_held (T s) = []) \<and> (\<Sum>s\<in>A. length (tk_held (T s))) + co_free c = n)"

lemmas task_defs = carries_def ready_def may_wait_def in_open_def at_stage_def

section \<open>Changing one task\<close>

lemma episode_ok_task:
  assumes "episode_ok c T ep"
    and "\<And>p. ep_leader ep = Some s \<Longrightarrow> carries (T s) p \<Longrightarrow> carries tk p"
    and "\<And>g. ep_leader ep = Some s \<Longrightarrow> ready (T s) g \<Longrightarrow> ready tk g"
    and "s \<in> set (co_blocked c) \<Longrightarrow> tk_stage tk = tk_stage (T s)"
    and "s \<in> ep_waiters ep \<Longrightarrow> may_wait (T s) (ep_generation ep) \<Longrightarrow> may_wait tk (ep_generation ep)"
  shows "episode_ok c (T(s := tk)) ep"
  using assms unfolding episode_ok_def by auto

lemma gate_okI:
  assumes "co_episode c = None \<Longrightarrow> co_blocked c = []"
    and "\<And>ep. co_episode c = Some ep \<Longrightarrow> episode_ok c T ep"
    and "\<And>s. task_ok (co_sessions c s) s (T s)"
  shows "gate_ok c T"
  using assms unfolding gate_ok_def by (auto split: option.split)

lemma gate_okD:
  assumes "gate_ok c T"
  shows "co_episode c = None \<Longrightarrow> co_blocked c = []"
    and "co_episode c = Some ep \<Longrightarrow> episode_ok c T ep"
    and "task_ok (co_sessions c s) s (T s)"
  using assms unfolding gate_ok_def by (auto split: option.splits)

lemma episode_okD:
  assumes "episode_ok c T ep"
  shows "ep_terminal ep \<noteq> None \<Longrightarrow> ep_leader ep = None \<and> ep_waiters ep = {}"
    and "ep_leader ep = None \<Longrightarrow> \<not> ep_probe ep \<and> co_blocked c = []"
    and "ep_leader ep = Some l \<Longrightarrow> rs_terminal (co_sessions c l) = None \<and> l \<notin> ep_waiters ep"
    and "ep_leader ep = Some l \<Longrightarrow> ep_probe ep \<Longrightarrow> carries (T l) (probe_permit (ep_generation ep))"
    and "ep_leader ep = Some l \<Longrightarrow> \<not> ep_probe ep \<Longrightarrow> ready (T l) (ep_generation ep)"
    and "k \<in> set (co_blocked c) \<Longrightarrow> k \<in> ep_waiters ep \<and> tk_stage (T k) = Waiting (Some (ep_generation ep))"
    and "k \<in> ep_waiters ep \<Longrightarrow> may_wait (T k) (ep_generation ep) \<and> rs_terminal (co_sessions c k) = None"
  using assms unfolding episode_ok_def by auto

lemma carries_unique: "carries tk p \<Longrightarrow> carries tk q \<Longrightarrow> p = q"
  by (auto simp: carries_def split: list.splits)

lemma carries_not_ready: "carries tk p \<Longrightarrow> \<not> tk_granted tk \<Longrightarrow> \<not> ready tk g"
  by (auto simp: carries_def ready_def)

lemma carries_not_granted: "task_ok rs s tk \<Longrightarrow> carries tk p \<Longrightarrow> \<not> tk_granted tk"
  by (auto simp: task_ok_def carries_def split: list.splits)

lemma carries_no_wait: "task_ok rs s tk \<Longrightarrow> carries tk p \<Longrightarrow> \<not> may_wait tk g"
  using carries_not_granted [of rs s tk p] by (auto simp: carries_def may_wait_def)

text \<open>A task whose permit matches no probe does not lead.\<close>

lemma not_leader:
  assumes ok: "gate_ok c T" and p: "carries (T s) p" and "matching_probe s p c = None"
    and ep: "co_episode c = Some ep"
  shows "ep_leader ep \<noteq> Some s"
proof
  assume l: "ep_leader ep = Some s"
  note e = episode_okD [OF gate_okD(2) [OF ok ep]]
  show False
  proof (cases "ep_probe ep")
    case True
    then have "p = probe_permit (ep_generation ep)" using e(4) [OF l] p carries_unique by blast
    with True l ep assms(3) show False by (simp add: matching_probe_def probe_permit_def)
  next
    case False
    with e(5) [OF l] carries_not_ready [OF p carries_not_granted [OF gate_okD(3) [OF ok] p]] show False by blast
  qed
qed

lemma matching_leader:
  "matching_probe s p c = Some ep \<Longrightarrow>
     co_episode c = Some ep \<and> ep_leader ep = Some s \<and> ep_probe ep \<and> gp_probe p \<and> gp_generation p = Some (ep_generation ep)"
  by (auto simp: matching_probe_def split: option.splits if_splits)

lemma current_matching: "permit_is_current s p c \<Longrightarrow> gp_probe p \<Longrightarrow> matching_probe s p c \<noteq> None"
  by (auto simp: permit_is_current_def matching_probe_def split: option.splits)

text \<open>
  A carried permit is given up: by success, rejection, correction, abandonment. In each case
  the episode is closed, or freed, or handed to the same task.
\<close>

lemma task_ok_session:
  assumes "task_ok rs s tk" "rs_started rs' = rs_started rs" "rs_max rs' = rs_max rs"
    and "\<exists>p. carries tk p \<Longrightarrow> rs_terminal rs' = None"
  shows "task_ok rs' s tk"
  using assms unfolding task_ok_def can_attempt_def by auto

lemma give_up_permit:
  assumes ok: "gate_ok c T" and p: "carries (T s) p" and tk: "task_ok (co_sessions c s) s tk"
  shows "gate_ok (attempt_succeeded s p c) (T(s := tk))"
    and "gate_ok (attempt_rejected s p c) (T(s := tk))"
    and "gate_ok (abandon_probe s p now c) (T(s := tk))"
    and "\<forall>g. ready tk g \<Longrightarrow> gate_ok (attempt_corrected s p now c) (T(s := tk))"
    and "matching_probe s p c = Some ep \<Longrightarrow> \<forall>g. ready tk g \<Longrightarrow>
      gate_ok (notify_all (c\<lparr>co_episode := Some (ep\<lparr>ep_error := err, ep_probe := False, ep_ready := due\<rparr>)\<rparr>)) (T(s := tk))"
    and "matching_probe s p c = None \<Longrightarrow> gate_ok c (T(s := tk))"
proof -
  note no_wait = carries_no_wait [OF gate_okD(3) [OF ok] p]
  have tasks: "task_ok (co_sessions c k) k ((T(s := tk)) k)" for k
    using tk gate_okD(3) [OF ok] by simp
  have still: "gate_ok c (T(s := tk))" if "matching_probe s p c = None"
  proof (rule gate_okI [OF gate_okD(1) [OF ok] _ tasks])
    fix ep assume ep: "co_episode c = Some ep"
    note e = gate_okD(2) [OF ok ep]
    have "s \<notin> ep_waiters ep" using episode_okD(7) [OF e] no_wait by blast
    moreover from this have "s \<notin> set (co_blocked c)" using episode_okD(6) [OF e] by blast
    ultimately show "episode_ok c (T(s := tk)) ep"
      using episode_ok_task [OF e] not_leader [OF ok p that ep] by blast
  qed
  have gone: "gate_ok (notify_all (c\<lparr>co_episode := None\<rparr>)) (T(s := tk))"
    by (rule gate_okI) (use tasks in \<open>simp_all add: notify_all_def\<close>)
  show "gate_ok (attempt_succeeded s p c) (T(s := tk))" "gate_ok (attempt_rejected s p c) (T(s := tk))"
    using still gone by (simp_all add: attempt_succeeded_def attempt_rejected_def)
  have change: "gate_ok (notify_all (c\<lparr>co_episode := Some ep'\<rparr>)) (T(s := tk))"
    if ep: "matching_probe s p c = Some ep" and ep': "ep_terminal ep' = ep_terminal ep" "ep_waiters ep' = ep_waiters ep"
      "ep_generation ep' = ep_generation ep" "\<not> ep_probe ep'" "ep_leader ep' = None \<or> ep_leader ep' = Some s \<and> (\<forall>g. ready tk g)" for ep ep'
  proof -
    from matching_leader [OF ep] have l: "co_episode c = Some ep" "ep_leader ep = Some s" by blast+
    note e = episode_okD [OF gate_okD(2) [OF ok l(1)]]
    have "ep_terminal ep = None" using e(1) l(2) by force
    moreover have "k \<noteq> s" if "k \<in> ep_waiters ep" for k using e(7) [OF that] no_wait by blast
    moreover have "rs_terminal (co_sessions c s) = None" "s \<notin> ep_waiters ep" using e(3) [OF l(2)] by blast+
    ultimately have "episode_ok (notify_all (c\<lparr>co_episode := Some ep'\<rparr>)) (T(s := tk)) ep'"
      using ep' e(7) unfolding episode_ok_def by (auto simp: notify_all_def)
    then show ?thesis
      by (intro gate_okI) (use tasks in \<open>simp_all add: notify_all_def\<close>)
  qed
  show "gate_ok (abandon_probe s p now c) (T(s := tk))"
    using still change by (auto simp: abandon_probe_def split: option.split)
  show "gate_ok (notify_all (c\<lparr>co_episode := Some (ep\<lparr>ep_error := err, ep_probe := False, ep_ready := due\<rparr>)\<rparr>)) (T(s := tk))"
    if "matching_probe s p c = Some ep" "\<forall>g. ready tk g"
    using change [OF that(1), of "ep\<lparr>ep_error := err, ep_probe := False, ep_ready := due\<rparr>"]
      matching_leader [OF that(1)] that(2) by simp
  show "gate_ok (attempt_corrected s p now c) (T(s := tk))" if "\<forall>g. ready tk g"
  proof (cases "matching_probe s p c")
    case (Some ep)
    with change [OF Some, of "ep\<lparr>ep_probe := False, ep_ready := now\<rparr>"] matching_leader [OF Some] that
    show ?thesis by (simp add: attempt_corrected_def)
  qed (use still in \<open>simp add: attempt_corrected_def\<close>)
  show "gate_ok c (T(s := tk))" if "matching_probe s p c = None" using that by (rule still)
qed

section \<open>The steps keep the invariant\<close>

lemma task_ok_stage:
  assumes "task_ok rs s tk" "in_open tk" and "in_open (at_stage st tk)"
    and "\<And>p. st = Limiting p \<or> st = Queued p \<Longrightarrow> rs_terminal rs = None"
  shows "task_ok rs s (at_stage st tk)"
  using assms by (auto simp: task_ok_def task_defs split: task_stage.splits)

lemma task_ok_back:
  assumes "task_ok rs s tk" "in_open tk"
  shows "task_ok rs s (step_back tk)"
  using assms by (cases "tk_held tk")
    (auto simp: task_ok_def task_defs step_back_def split: list.splits task_stage.splits)

lemma task_ok_unwind:
  assumes "task_ok rs s tk"
  shows "task_ok rs s (unwind tk)"
  using assms by (cases "tk_held tk")
    (auto simp: task_ok_def task_defs unwind_def split: list.splits task_stage.splits if_splits)

text \<open>A task that is neither leader nor waiter may do what it likes with itself.\<close>

lemma bystander:
  assumes ok: "gate_ok c T" and tk: "task_ok (co_sessions c s) s tk"
    and "\<And>ep. co_episode c = Some ep \<Longrightarrow> ep_leader ep \<noteq> Some s \<and> (s \<in> ep_waiters ep \<longrightarrow> may_wait tk (ep_generation ep))"
    and "s \<in> set (co_blocked c) \<Longrightarrow> tk_stage tk = tk_stage (T s)"
  shows "gate_ok c (T(s := tk))"
proof (rule gate_okI [OF gate_okD(1) [OF ok]])
  fix ep assume ep: "co_episode c = Some ep"
  show "episode_ok c (T(s := tk)) ep"
    by (rule episode_ok_task [OF gate_okD(2) [OF ok ep]]) (use assms(3) [OF ep] assms(4) in auto)
qed (use tk gate_okD(3) [OF ok] in auto)

lemma gate_claim_ok:
  assumes ok: "gate_ok c T" and ep: "co_episode c = Some ep" "ep_terminal ep = None"
    and tk: "in_open (T s)" "tk_stage (T s) = Gate \<or> (\<exists>g. tk_stage (T s) = Waiting g)" "s \<notin> set (co_blocked c)"
    and alive: "rs_terminal (co_sessions c s) = None"
    and r: "gate_claim s now ep c = (out, c')"
  shows "gate_ok c' (T(s := at_stage
     (case out of Gate_Pass p \<Rightarrow> Limiting p | Gate_Block g \<Rightarrow> Waiting g | Gate_Sleep d g \<Rightarrow> Sleeping g | Gate_Raise err \<Rightarrow> Idle) (T s)))
    \<and> (\<forall>err. out \<noteq> Gate_Raise err)"
proof -
  note e = gate_okD(2) [OF ok ep(1)]
  note ed = episode_okD [OF e]
  have T: "task_ok (co_sessions c k) k (T k)" for k by (rule gate_okD(3) [OF ok])
  have tasks: "task_ok (co_sessions c k) k ((T(s := at_stage st (T s))) k)" if "in_open (at_stage st (T s))" for k st
    using task_ok_stage [OF T tk(1) that] alive T by auto
  have not_carry: "\<not> carries (T s) p" for p using tk(2) by (auto simp: carries_def)
  show ?thesis
  proof (cases "ep_leader ep = None \<or> ep_leader ep = Some s")
    case True
    define ep' where "ep' = (if ep_leader ep = None then ep\<lparr>ep_leader := Some s, ep_waiters := ep_waiters ep - {s}\<rparr> else ep)"
    have ep': "ep_leader ep' = Some s" "s \<notin> ep_waiters ep'" "\<not> ep_probe ep'" "ep_terminal ep' = None"
      "ep_waiters ep' \<subseteq> ep_waiters ep" "ep_generation ep' = ep_generation ep" "ep_ready ep' = ep_ready ep"
      using True ed(2,3,4) not_carry ep(2) by (auto simp: ep'_def)
    have waits: "k \<in> set (co_blocked c) \<Longrightarrow> k \<in> ep_waiters ep'" for k
      using ed(2) [THEN conjunct2] ed(6) [of k] tk(3) True by (auto simp: ep'_def)
    have ok': "gate_ok (c\<lparr>co_episode := Some (ep'\<lparr>ep_probe := b\<rparr>)\<rparr>) (T(s := at_stage st (T s)))"
      if "in_open (at_stage st (T s))" "if b then carries (at_stage st (T s)) (probe_permit (ep_generation ep))
            else ready (at_stage st (T s)) (ep_generation ep)" for b st
    proof (rule gate_okI)
      show "episode_ok (c\<lparr>co_episode := Some (ep'\<lparr>ep_probe := b\<rparr>)\<rparr>) (T(s := at_stage st (T s))) x"
        if "co_episode (c\<lparr>co_episode := Some (ep'\<lparr>ep_probe := b\<rparr>)\<rparr>) = Some x" for x
      proof -
        have x: "x = ep'\<lparr>ep_probe := b\<rparr>" using that by simp
        have "k \<in> ep_waiters ep' \<Longrightarrow> may_wait (T k) (ep_generation ep) \<and> rs_terminal (co_sessions c k) = None \<and> k \<noteq> s" for k
          using ep'(2,5) ed(7) by blast
        moreover have "k \<in> set (co_blocked c) \<Longrightarrow>
            k \<in> ep_waiters ep' \<and> tk_stage (T k) = Waiting (Some (ep_generation ep)) \<and> k \<noteq> s" for k
          using waits ed(6) tk(3) by blast
        ultimately show ?thesis
          using ep' alive \<open>if b then _ else _\<close> unfolding x episode_ok_def by auto
      qed
    qed (use tasks [OF that(1)] in simp_all)
    have g: "gate_claim s now ep c =
        (let delay = max 0 (ep_ready ep' - now) in
              if delay = 0 then
                (Gate_Pass (probe_permit (ep_generation ep')), c\<lparr>co_episode := Some (ep'\<lparr>ep_probe := True\<rparr>)\<rparr>)
              else (Gate_Sleep delay (ep_generation ep'), c\<lparr>co_episode := Some ep'\<rparr>))"
      using ep'(1,3) by (simp add: gate_claim_def ep'_def [symmetric] Let_def)
    have same: "ep'\<lparr>ep_probe := False\<rparr> = ep'" using ep'(3) by simp
    show ?thesis
    proof (cases "max 0 (ep_ready ep' - now) = 0")
      case True
      then have "out = Gate_Pass (probe_permit (ep_generation ep))" "c' = c\<lparr>co_episode := Some (ep'\<lparr>ep_probe := True\<rparr>)\<rparr>"
        using r g ep'(6) by (auto simp: Let_def)
      with ok' [of "Limiting (probe_permit (ep_generation ep))" True] show ?thesis by (simp add: task_defs)
    next
      case False
      then have "out = Gate_Sleep (max 0 (ep_ready ep' - now)) (ep_generation ep)" "c' = c\<lparr>co_episode := Some ep'\<rparr>"
        using r unfolding g Let_def by (simp_all only: if_False prod.inject ep'(6))
      with ok' [of "Sleeping (ep_generation ep)" False] same show ?thesis by (auto simp: task_defs)
    qed
  next
    case False
    then obtain l where l: "ep_leader ep = Some l" "l \<noteq> s" by (cases "ep_leader ep") auto
    then have r': "out = Gate_Block (Some (ep_generation ep))"
      "c' = c\<lparr>co_episode := Some (ep\<lparr>ep_waiters := insert s (ep_waiters ep)\<rparr>), co_blocked := co_blocked c @ [s]\<rparr>"
      using r by (auto simp: gate_claim_def Let_def)
    let ?T = "T(s := at_stage (Waiting (Some (ep_generation ep))) (T s))"
    have "episode_ok c' ?T (ep\<lparr>ep_waiters := insert s (ep_waiters ep)\<rparr>)"
      using e l ep(2) alive tk(3) unfolding episode_ok_def r'(2)
      by (auto simp: may_wait_def at_stage_def)
    then have "gate_ok c' ?T"
      by (intro gate_okI) (use tasks [of "Waiting (Some (ep_generation ep))"] in \<open>simp_all add: r'(2) in_open_def at_stage_def\<close>)
    then show ?thesis by (simp add: r'(1))
  qed
qed

lemma gate_task_ok:
  assumes ok: "gate_ok c T" and stage: "tk_stage (T s) = Gate \<or> (\<exists>g. tk_stage (T s) = Waiting g)"
    and free: "s \<notin> set (co_blocked c)" and r: "gate_task s now (T s) c = (tk, c')"
  shows "gate_ok c' (T(s := tk))"
proof -
  have opn: "in_open (T s)" using stage by (auto simp: in_open_def)
  note T = gate_okD(3) [OF ok, of s]
  show ?thesis
  proof (cases "rs_terminal (co_sessions c s)")
    case (Some err)
    then have "tk = step_back (T s)" "c' = c" using r by (auto simp: gate_task_def gate_round_def)
    moreover have "ep_leader ep \<noteq> Some s \<and> s \<notin> ep_waiters ep" if "co_episode c = Some ep" for ep
      using episode_okD(3,7) [OF gate_okD(2) [OF ok that]] Some by force
    ultimately show ?thesis using bystander [OF ok task_ok_back [OF T opn]] free by blast
  next
    case None
    note alive = None
    show ?thesis
    proof (cases "co_episode c")
      case None
      then have "tk = at_stage (Limiting free_permit) (T s)" "c' = c"
        using r alive by (auto simp: gate_task_def gate_round_def)
      moreover have "task_ok (co_sessions c s) s (at_stage (Limiting free_permit) (T s))"
        using task_ok_stage [OF T opn] alive by (simp add: in_open_def at_stage_def)
      ultimately show ?thesis using bystander [where s = s, OF ok] None free by fastforce
    next
      case (Some ep)
      note e = gate_okD(2) [OF ok Some]
      show ?thesis
      proof (cases "ep_terminal ep")
        case None
        obtain out where g: "gate_claim s now ep c = (out, c')" "gate_round s now c = (out, c')"
          using r alive Some None by (cases "gate_claim s now ep c") (auto simp: gate_task_def gate_round_def split: gate_outcome.splits)
        with gate_claim_ok [OF ok Some None opn stage free alive g(1)] r show ?thesis
          by (cases out) (auto simp: gate_task_def)
      next
        case (Some until)
        have led: "ep_leader ep = None" "ep_waiters ep = {}" "co_blocked c = []"
          using episode_okD(1,2) [OF e] Some by auto
        show ?thesis
        proof (cases "now < until")
          case True
          then have "tk = step_back (T s)" "c' = c"
            using r alive \<open>co_episode c = Some ep\<close> Some by (auto simp: gate_task_def gate_round_def)
          with bystander [OF ok task_ok_back [OF T opn]] led \<open>co_episode c = Some ep\<close> show ?thesis by simp
        next
          case False
          obtain ep1 c1 where start: "start_recovery_episode (Some s) now (ep_error ep) c = (ep1, c1)"
            by (cases "start_recovery_episode (Some s) now (ep_error ep) c")
          then have s1: "co_episode c1 = Some ep1" "ep_leader ep1 = Some s" "ep_terminal ep1 = None" "ep_waiters ep1 = {}"
            "\<not> ep_probe ep1" "co_sessions c1 = co_sessions c" "co_blocked c1 = []" "ep_ready ep1 = now"
            using led by (auto simp: start_recovery_episode_def Let_def)
          then have g: "gate_claim s now ep1 c1 =
              (Gate_Pass (probe_permit (ep_generation ep1)), c1\<lparr>co_episode := Some (ep1\<lparr>ep_probe := True\<rparr>)\<rparr>)"
            by (simp add: gate_claim_def Let_def)
          then have t: "tk = at_stage (Limiting (probe_permit (ep_generation ep1))) (T s)"
            "c' = c1\<lparr>co_episode := Some (ep1\<lparr>ep_probe := True\<rparr>)\<rparr>"
            using r alive \<open>co_episode c = Some ep\<close> Some False start by (auto simp: gate_task_def gate_round_def)
          have "task_ok (co_sessions c s) s tk"
            using task_ok_stage [OF T opn] alive by (simp add: t in_open_def at_stage_def)
          moreover have "episode_ok c' (T(s := tk)) (ep1\<lparr>ep_probe := True\<rparr>)"
            using s1 alive by (simp add: episode_ok_def t task_defs)
          ultimately show ?thesis
            by (intro gate_okI) (use gate_okD(3) [OF ok] s1 in \<open>auto simp: t(2)\<close>)
        qed
      qed
    qed
  qed
qed

end
