(* ===== verification/Admission_Steps.thy ===== *)
theory Admission_Steps
  imports Admission_Invariant
begin

text \<open>
  Every event of the admission system keeps its invariant, from the gate to the closing of an
  attempt; the runs of \<open>system_step\<close> are a \<open>machine\<close>.
\<close>

section \<open>Helpers\<close>

lemma gate_ok_frame:
  assumes "co_episode c' = co_episode c" "co_blocked c' = co_blocked c" "co_sessions c' = co_sessions c"
  shows "gate_ok c' T = gate_ok c T"
  using assms by (simp add: gate_ok_def episode_ok_def cong: option.case_cong)

lemma outsider:
  assumes ok: "gate_ok c T" and ep: "co_episode c = Some ep"
    and "\<And>p. \<not> carries (T s) p" and "\<And>g. \<not> ready (T s) g"
  shows "ep_leader ep \<noteq> Some s"
  using episode_okD(4,5) [OF gate_okD(2) [OF ok ep]] assms(3,4) by blast

lemma not_waiting:
  assumes ok: "gate_ok c T" and "\<And>g. \<not> may_wait (T s) g"
  shows "co_episode c = Some ep \<Longrightarrow> s \<notin> ep_waiters ep" and "s \<notin> set (co_blocked c)"
proof -
  show w: "s \<notin> ep_waiters ep" if "co_episode c = Some ep" for ep
    using episode_okD(7) [OF gate_okD(2) [OF ok that]] assms(2) by blast
  then show "s \<notin> set (co_blocked c)"
    using episode_okD(6) [OF gate_okD(2) [OF ok]] gate_okD(1) [OF ok] by (cases "co_episode c") auto
qed

text \<open>A task that neither leads nor waits may change its own state.\<close>

lemma bystander_task:
  assumes ok: "gate_ok c T" and tk: "task_ok (co_sessions c s) s tk"
    and "\<And>p. \<not> carries (T s) p" "\<And>g. \<not> ready (T s) g" "\<And>g. \<not> may_wait (T s) g"
  shows "gate_ok c (T(s := tk))"
  using bystander [OF ok tk] outsider [OF ok _ assms(3,4)] not_waiting [OF ok assms(5)] by blast

lemma in_open_stages: "tk_stage tk = Limiting p \<or> tk_stage tk = Queued p \<or> tk_stage tk = Sleeping g \<Longrightarrow> in_open tk"
  by (auto simp: in_open_def)

lemma task_ok_gate: "task_ok rs s tk \<Longrightarrow> in_open tk \<Longrightarrow> task_ok rs s (at_stage Gate tk)"
  by (rule task_ok_stage) (simp_all add: in_open_def at_stage_def)

lemma task_ok_permit:
  "task_ok rs s tk \<Longrightarrow> in_open tk \<Longrightarrow> rs_terminal rs = None \<Longrightarrow> task_ok rs s (at_stage (Limiting p) tk)"
  "task_ok rs s tk \<Longrightarrow> in_open tk \<Longrightarrow> rs_terminal rs = None \<Longrightarrow> task_ok rs s (at_stage (Queued p) tk)"
  by (rule task_ok_stage; simp add: in_open_def at_stage_def)+

section \<open>Opening an attempt\<close>

lemma enter_open_task_ok:
  assumes "task_ok (co_sessions c s) s tk" "\<And>a. a \<in> set (tk_held tk) \<Longrightarrow> pa_resolved a"
  shows "task_ok (co_sessions c s) s (enter_open c s tk)"
  using assms by (cases "tk_held tk")
    (auto simp: task_ok_def task_defs enter_open_def step_back_def split: list.splits task_stage.splits)

lemma wake_task_ok:
  assumes ok: "gate_ok c T" and st: "tk_stage (T s) = Sleeping g" and r: "wake_task s g (T s) c = (tk, c')"
  shows "gate_ok c' (T(s := tk))"
proof -
  note T = gate_okD(3) [OF ok]
  have opn: "in_open (T s)" using st by (simp add: in_open_def)
  have nw: "\<not> may_wait (T s) h" and nc: "\<not> carries (T s) p" for h p using st by (simp_all add: may_wait_def carries_def)
  show ?thesis
  proof (cases "claim_probe s g c")
    case (Pair out c1)
    show ?thesis
    proof (cases out)
      case None
      then have e: "tk = at_stage Gate (T s)" "c' = c"
        using r Pair by (auto simp: wake_task_def claim_probe_def split: option.splits if_splits)
      have tk: "task_ok (co_sessions c s) s tk" using task_ok_gate [OF T opn] by (simp add: e)
      show ?thesis unfolding e(2)
      proof (rule gate_okI [OF gate_okD(1) [OF ok]])
        show "episode_ok c (T(s := tk)) ep" if ep: "co_episode c = Some ep" for ep
          by (rule episode_ok_task [OF gate_okD(2) [OF ok ep]])
            (use nc nw not_waiting [OF ok nw] e in \<open>auto simp: ready_def at_stage_def\<close>)
      qed (use tk T in auto)
    next
      case (Some p)
      then obtain ep where ep: "co_episode c = Some ep" "ep_generation ep = g" "ep_terminal ep = None"
        "ep_leader ep = Some s" "\<not> ep_probe ep" "p = probe_permit g" "c1 = c\<lparr>co_episode := Some (ep\<lparr>ep_probe := True\<rparr>)\<rparr>"
        using Pair by (auto simp: claim_probe_def split: option.splits if_splits)
      have e: "tk = at_stage (Limiting (probe_permit g)) (T s)" "c' = c1"
        using r Pair Some ep(6) by (auto simp: wake_task_def)
      note eo = gate_okD(2) [OF ok ep(1)]
      have alive: "rs_terminal (co_sessions c s) = None" using episode_okD(3) [OF eo ep(4)] by blast
      have tk: "task_ok (co_sessions c s) s tk" using task_ok_permit [OF T opn alive] by (simp add: e)
      have "episode_ok c' (T(s := tk)) (ep\<lparr>ep_probe := True\<rparr>)"
        using eo ep(2-5) not_waiting [OF ok nw] ep(1) unfolding episode_ok_def e ep(7) by (auto simp: task_defs)
      then show ?thesis by (intro gate_okI) (use tk T in \<open>auto simp: e(2) ep(7)\<close>)
    qed
  qed
qed

lemma limit_task_ok:
  assumes ok: "gate_ok c T" and st: "tk_stage (T s) = Limiting p" and r: "limit_task s clock p (T s) c = (tk, c')"
  shows "gate_ok c' (T(s := tk))"
proof -
  note T = gate_okD(3) [OF ok]
  have opn: "in_open (T s)" and p: "carries (T s) p" using st by (simp_all add: in_open_def carries_def)
  have alive: "rs_terminal (co_sessions c s) = None" using T [of s] p by (auto simp: task_ok_def)
  obtain out l where a: "acquire_once clock (permit_is_current s p c) (co_limiter c) = (out, l)" by (rule prod.exhaust)
  note ok' = gate_ok_frame [THEN iffD2, OF _ _ _ ok, of "c\<lparr>co_limiter := l\<rparr>", simplified]
  show ?thesis
  proof (cases out)
    case Refused
    then have "tk = at_stage Gate (T s)" "c' = abandon_probe s p (snd clock) (c\<lparr>co_limiter := l\<rparr>)"
      using r a by (auto simp: limit_task_def)
    with give_up_permit(3) [OF ok' p] task_ok_gate [OF T opn] show ?thesis by simp
  next
    case Acquired
    then have e: "tk = at_stage (Queued p) (T s)" "c' = c\<lparr>co_limiter := l\<rparr>" using r a by (auto simp: limit_task_def)
    have tk: "task_ok (co_sessions c s) s tk" using task_ok_permit [OF T opn alive] by (simp add: e)
    have nw: "\<not> may_wait (T s) h" for h using st by (simp add: may_wait_def)
    show ?thesis unfolding e(2)
    proof (rule gate_okI)
      show "episode_ok (c\<lparr>co_limiter := l\<rparr>) (T(s := tk)) ep" if "co_episode (c\<lparr>co_limiter := l\<rparr>) = Some ep" for ep
        by (rule episode_ok_task [OF gate_okD(2) [OF ok' that]])
          (use st not_waiting [OF ok nw] that in \<open>auto simp: e task_defs\<close>)
    qed (use gate_okD(1) [OF ok] tk T in auto)
  next
    case (Sleep d)
    then show ?thesis using r a ok' by (auto simp: limit_task_def)
  qed
qed

lemma slot_task_ok:
  assumes ok: "gate_ok c T" and st: "tk_stage (T s) = Queued p" and r: "slot_task s now p (T s) c = (tk, c')"
  shows "gate_ok c' (T(s := tk))"
proof -
  note T = gate_okD(3) [OF ok]
  have opn: "in_open (T s)" and p: "carries (T s) p" using st by (simp_all add: in_open_def carries_def)
  have can: "can_attempt (co_sessions c s)" using T [of s] opn by (simp add: task_ok_def)
  have alive: "rs_terminal (co_sessions c s) = None" using T [of s] p by (auto simp: task_ok_def)
  have nw: "\<not> may_wait (T s) h" for h using st by (simp add: may_wait_def)
  consider "co_free c = 0" | "co_free c \<noteq> 0" "\<not> permit_is_current s p c" | "co_free c \<noteq> 0" "permit_is_current s p c" by blast
  then show ?thesis
  proof cases
    case 1
    then show ?thesis using r ok by (auto simp: slot_task_def)
  next
    case 2
    then have "tk = at_stage Gate (T s)" "c' = abandon_probe s p now c" using r by (auto simp: slot_task_def)
    with give_up_permit(3) [OF ok p] task_ok_gate [OF T opn] show ?thesis by simp
  next
    case 3
    let ?rs = "(co_sessions c s)\<lparr>rs_started := rs_started (co_sessions c s) + 1\<rparr>"
    have e: "tk = (at_stage Serving (T s))\<lparr>tk_held := new_attempt s p # tk_held (T s)\<rparr>"
      "c' = on_session s (\<lambda>_. ?rs) (c\<lparr>co_free := co_free c - 1\<rparr>)"
      using r 3 can by (auto simp: slot_task_def claim_attempt_def)
    have tk: "task_ok ?rs s tk"
      using T [of s] opn can alive by (auto simp: e(1) task_ok_def at_stage_def new_attempt_def can_attempt_def in_open_def)
    have sess: "co_sessions c' = (co_sessions c)(s := ?rs)" "co_episode c' = co_episode c" "co_blocked c' = co_blocked c"
      by (simp_all add: e(2) on_session_def)
    show ?thesis
    proof (rule gate_okI)
      show "episode_ok c' (T(s := tk)) ep" if "co_episode c' = Some ep" for ep
      proof -
        have "episode_ok c (T(s := tk)) ep"
          by (rule episode_ok_task [OF gate_okD(2) [OF ok]])
            (use st not_waiting [OF ok nw] that sess(2) in \<open>auto simp: e(1) task_defs new_attempt_def\<close>)
        then show ?thesis unfolding episode_ok_def sess by auto
      qed
    qed (use gate_okD(1) [OF ok] tk T sess in auto)
  qed
qed

section \<open>The outcome of an attempt\<close>

lemma held_ok:
  assumes "task_ok rs s tk" "tk_stage tk = Serving \<or> tk_stage tk = Unwinding" "tk_held tk = a # rest"
  shows "pa_session a = s" "\<not> pa_closed a" "\<forall>b \<in> set rest. pa_resolved b" "rs_started rs \<le> rs_max rs"
    "\<forall>b \<in> set (a # rest). pa_session b = s \<and> \<not> pa_closed b \<and> (pa_accepted b \<longrightarrow> pa_resolved b)"
    "tk_granted tk \<Longrightarrow> pa_resolved a \<and> can_attempt rs \<and> tk_stage tk = Serving"
    "\<not> pa_resolved a \<Longrightarrow> carries tk (pa_permit a) \<and> rs_terminal rs = None \<and> \<not> tk_granted tk"
  using assms by (auto simp: task_ok_def in_open_def carries_def)

lemma serving_resolved_ok:
  assumes T: "task_ok rs s tk" "tk_stage tk = Serving" "tk_held tk = a # rest"
    and a': "pa_resolved a'" "pa_session a' = s" "\<not> pa_closed a'" "g \<Longrightarrow> can_attempt rs"
  shows "task_ok rs s (tk\<lparr>tk_held := a' # rest, tk_granted := g\<rparr>)"
proof -
  note h = held_ok [OF T(1) _ T(3), OF disjI1, OF T(2)]
  have "\<not> Ex (carries (tk\<lparr>tk_held := a' # rest, tk_granted := g\<rparr>))"
    using a'(1) T(2) by (simp add: carries_def fun_eq_iff)
  moreover have "tk_stage (tk\<lparr>tk_held := a' # rest, tk_granted := g\<rparr>) = Serving" using T(2) by simp
  ultimately show ?thesis unfolding task_ok_def using h(3,4,5) a' by (intro conjI) (simp_all add: in_open_def, blast)
qed

lemma granted_ready: "tk_stage tk = Serving \<Longrightarrow> ready (tk\<lparr>tk_held := h, tk_granted := True\<rparr>) g"
  by (simp add: ready_def)

lemma not_granted: "\<not> tk_granted tk \<Longrightarrow> tk\<lparr>tk_held := h, tk_granted := False\<rparr> = tk\<lparr>tk_held := h\<rparr>"
  by (cases tk) simp

lemma succeed_task_ok:
  assumes ok: "gate_ok c T" and st: "tk_stage (T s) = Serving" and r: "succeed_task (T s) c = (tk, c')"
  shows "gate_ok c' (T(s := tk))"
proof (cases "tk_held (T s)")
  case (Cons a rest)
  note T = gate_okD(3) [OF ok, of s]
  note h = held_ok [OF T _ Cons]
  show ?thesis
  proof (cases "pa_resolved a")
    case True
    then have "tk = (T s)\<lparr>tk_held := tk_held (T s)\<rparr>" "c' = c" using r Cons by (auto simp: succeed_task_def pa_succeeded_def)
    then show ?thesis using ok by simp
  next
    case False
    then have p: "carries (T s) (pa_permit a)" and ng: "\<not> tk_granted (T s)" using h(7) st by auto
    have e: "tk = (T s)\<lparr>tk_held := a\<lparr>pa_resolved := True, pa_accepted := True\<rparr> # rest, tk_granted := False\<rparr>"
      "c' = attempt_succeeded s (pa_permit a) c"
      using r Cons False h(1) st not_granted [OF ng] by (auto simp: succeed_task_def pa_succeeded_def)
    have "task_ok (co_sessions c s) s tk"
      unfolding e by (rule serving_resolved_ok [OF T st Cons]) (use h(1,2) st in auto)
    with give_up_permit(1) [OF ok p] show ?thesis by (simp add: e(2))
  qed
qed (use r ok in \<open>auto simp: succeed_task_def\<close>)

lemma correct_task_ok:
  assumes ok: "gate_ok c T" and st: "tk_stage (T s) = Serving" and r: "correct_task s now (T s) c = (tk, c')"
  shows "gate_ok c' (T(s := tk))"
proof (cases "tk_held (T s)")
  case (Cons a rest)
  note T = gate_okD(3) [OF ok, of s]
  note h = held_ok [OF T _ Cons]
  show ?thesis
  proof (cases "pa_resolved a \<or> \<not> can_attempt (co_sessions c s)")
    case True
    then show ?thesis using r Cons ok by (auto simp: correct_task_def)
  next
    case False
    then have p: "carries (T s) (pa_permit a)" using h(7) st by auto
    have e: "tk = (T s)\<lparr>tk_held := a\<lparr>pa_resolved := True\<rparr> # rest, tk_granted := True\<rparr>"
      "c' = attempt_corrected s (pa_permit a) now c"
      using r Cons False h(1) st by (auto simp: correct_task_def pa_retry_immediately_def)
    have "task_ok (co_sessions c s) s tk"
      unfolding e by (rule serving_resolved_ok [OF T st Cons]) (use h(1,2) st False in auto)
    with give_up_permit(4) [OF ok p] granted_ready [OF st] show ?thesis by (simp add: e)
  qed
qed (use r ok in \<open>auto simp: correct_task_def\<close>)

text \<open>A shared failure: with tries left the episode stays in hand, otherwise it ends for all.\<close>

lemma schedule_retry_ok:
  assumes ok: "gate_ok c T" and p: "carries (T s) p" and tk: "task_ok (co_sessions c s) s tk"
    and granted: "tk_stage tk = Serving" "tk_granted tk"
  shows "gate_ok (schedule_retry s p err due c) (T(s := tk))" (is "gate_ok ?c _")
proof -
  note T = gate_okD(3) [OF ok]
  have alive: "rs_terminal (co_sessions c s) = None" using T [of s] p by (auto simp: task_ok_def)
  have tasks: "task_ok (co_sessions c k) k ((T(s := tk)) k)" for k using tk T by simp
  have rd: "\<forall>h. ready tk h" and mw: "may_wait tk h" for h using granted by (simp_all add: ready_def may_wait_def)
  show ?thesis
  proof (cases "co_episode c")
    case None
    then have "co_sessions ?c = co_sessions c" "co_blocked ?c = []"
      by (simp_all add: schedule_retry_def notify_all_def start_recovery_episode_def Let_def)
    moreover have "episode_ok ?c (T(s := tk)) ep" if "co_episode ?c = Some ep" for ep
      using that alive rd None
      by (auto simp: schedule_retry_def notify_all_def start_recovery_episode_def Let_def episode_ok_def)
    ultimately show ?thesis by (intro gate_okI) (use tasks in auto)
  next
    case (Some ep)
    note e = gate_okD(2) [OF ok Some]
    consider "matching_probe s p c \<noteq> None" | "matching_probe s p c = None" "ep_terminal ep \<noteq> None"
      | "matching_probe s p c = None" "ep_terminal ep = None" by blast
    then show ?thesis
    proof cases
      case 1
      then have m: "matching_probe s p c = Some ep" using Some by (auto simp: matching_probe_def split: if_splits)
      then show ?thesis using give_up_permit(5) [OF ok p tk m rd] Some by (simp add: schedule_retry_def)
    next
      case 2
      then have c': "?c = notify_all (on_session s (fail_recovery (ep_error ep)) c)"
        using Some by (simp add: schedule_retry_def)
      have no: "ep_leader ep = None" "ep_waiters ep = {}" "co_blocked c = []"
        using episode_okD(1,2) [OF e] 2(2) by auto
      have "\<not> carries tk q" for q using carries_not_granted [OF tk] granted(2) by blast
      then have "task_ok (co_sessions ?c k) k ((T(s := tk)) k)" for k
        using tk T by (auto simp: c' notify_all_def on_session_def fail_recovery_def intro: task_ok_session)
      moreover have "episode_ok ?c (T(s := tk)) ep"
        using no e by (auto simp: c' episode_ok_def notify_all_def on_session_def)
      ultimately show ?thesis
        by (intro gate_okI) (use Some in \<open>auto simp: c' notify_all_def on_session_def\<close>)
    next
      case 3
      then have c': "?c = notify_all (c\<lparr>co_episode := Some (ep\<lparr>ep_waiters := insert s (ep_waiters ep)\<rparr>)\<rparr>)"
        using Some by (simp add: schedule_retry_def)
      have "ep_leader ep \<noteq> Some s" using not_leader [OF ok p 3(1) Some] .
      then have "episode_ok ?c (T(s := tk)) (ep\<lparr>ep_waiters := insert s (ep_waiters ep)\<rparr>)"
        using e 3(2) mw alive unfolding episode_ok_def c' by (auto simp: notify_all_def)
      then show ?thesis by (intro gate_okI) (use tasks in \<open>simp_all add: c' notify_all_def\<close>)
    qed
  qed
qed

lemma exhaust_recovery_ok:
  assumes ok: "gate_ok c T" and p: "carries (T s) p" and tk: "task_ok (co_sessions c s) s tk"
  shows "gate_ok (exhaust_recovery s p err now until c) (T(s := tk))" (is "gate_ok ?c _")
proof (cases "co_episode c = None \<or> matching_probe s p c \<noteq> None")
  case True
  note T = gate_okD(3) [OF ok]
  have tasks: "task_ok (co_sessions c k) k ((T(s := tk)) k)" for k using tk T by simp
  obtain ep c1 where ep: "(case co_episode c of None \<Rightarrow> start_recovery_episode None now err c | Some ep \<Rightarrow> (ep, c)) = (ep, c1)"
    by (rule prod.exhaust)
  have c1: "co_sessions c1 = co_sessions c"
    using ep by (auto simp: start_recovery_episode_def Let_def split: option.splits)
  have w: "\<not> carries (T k) q \<and> k \<noteq> s" if "k \<in> ep_waiters ep" for k q
  proof -
    have "co_episode c = Some ep" using ep that by (auto simp: start_recovery_episode_def Let_def split: option.splits)
    then have "may_wait (T k) (ep_generation ep)" using episode_okD(7) [OF gate_okD(2) [OF ok] that] by blast
    then show ?thesis using carries_no_wait [OF T] carries_no_wait [OF T [of s] p] by blast
  qed
  have c': "?c = notify_all
         (c1\<lparr>co_episode := Some (ep\<lparr>ep_error := err, ep_leader := None, ep_probe := False,
                                   ep_terminal := Some until, ep_waiters := {}\<rparr>),
            co_sessions := (\<lambda>k. if k \<in> ep_waiters ep then fail_recovery err (co_sessions c k) else co_sessions c k)\<rparr>)"
    using True ep by (simp add: exhaust_recovery_def c1 cong: if_cong)
  have "task_ok (co_sessions ?c k) k ((T(s := tk)) k)" for k
    using tasks [of k] w [of k] by (auto simp: c' notify_all_def fail_recovery_def intro: task_ok_session)
  then show ?thesis
    by (intro gate_okI) (simp_all add: c' notify_all_def, auto simp: episode_ok_def)
next
  case False
  then have "?c = c" unfolding exhaust_recovery_def by (rule if_not_P)
  moreover have "gate_ok c (T(s := tk))" using False give_up_permit(6) [OF ok p tk] by blast
  ultimately show ?thesis by simp
qed

lemma fail_task_ok:
  assumes ok: "gate_ok c T" and st: "tk_stage (T s) = Serving"
    and r: "fail_task env err now jitters (T s) c = (tk, c')"
  shows "gate_ok c' (T(s := tk))"
proof (cases "tk_held (T s)")
  case (Cons a rest)
  note T = gate_okD(3) [OF ok, of s]
  note h = held_ok [OF T disjI1 [OF st] Cons]
  show ?thesis
  proof (cases "pa_resolved a")
    case True
    then show ?thesis using r Cons ok by (auto simp: fail_task_def)
  next
    case False
    note p = h(7) [OF False, THEN conjunct1] and alive = h(7) [OF False, THEN conjunct2, THEN conjunct1]
    let ?a = "a\<lparr>pa_retryable := Some (err_retryable err)\<rparr>"
    have done_ok: "task_ok (co_sessions c s) s ((T s)\<lparr>tk_held := ?a\<lparr>pa_resolved := True\<rparr> # rest, tk_granted := g\<rparr>)"
      if "g \<Longrightarrow> can_attempt (co_sessions c s)" for g
      by (rule serving_resolved_ok [OF T st Cons]) (use h(1,2) that in auto)
    show ?thesis
    proof (cases "err_retryable err")
      case False
      then have "tk = (T s)\<lparr>tk_held := ?a\<lparr>pa_resolved := True\<rparr> # rest, tk_granted := False\<rparr>"
        "c' = attempt_rejected s (pa_permit a) c"
        using r Cons \<open>\<not> pa_resolved a\<close> h(1) by (auto simp: fail_task_def pa_retry_def Let_def)
      with give_up_permit(2) [OF ok p done_ok [of False]] show ?thesis by simp
    next
      case True
      show ?thesis
      proof (cases "attempt_failed env s (pa_permit a) err now jitters c")
        case (Inl e)
        then have e: "tk = (T s)\<lparr>tk_held := ?a # rest, tk_granted := False\<rparr>" "c' = c"
          using r Cons \<open>\<not> pa_resolved a\<close> h(1) True by (auto simp: fail_task_def pa_retry_def Let_def)
        have "task_ok (co_sessions c s) s tk"
          unfolding task_ok_def e using h(3,4,5) alive st by (intro conjI) (simp_all add: in_open_def)
        moreover have "tk_stage tk = tk_stage (T s)" "carries (T s) q \<longrightarrow> carries tk q" for q
          using Cons by (simp_all add: e carries_def)
        moreover have "\<not> ready (T s) g" "\<not> may_wait (T s) g" for g
          using carries_not_ready [OF p] carries_no_wait [OF T p] h(7) [OF False] by blast+
        ultimately show ?thesis unfolding e(2)
          using gate_okD [OF ok] not_waiting [OF ok] by (intro gate_okI) (auto intro!: episode_ok_task)
      next
        case (Inr out)
        obtain g c1 where o: "out = (g, c1)" by (cases out)
        with Inr r Cons \<open>\<not> pa_resolved a\<close> h(1) True
        have e: "tk = (T s)\<lparr>tk_held := ?a\<lparr>pa_resolved := True\<rparr> # rest, tk_granted := g\<rparr>" "c' = c1"
          by (auto simp: fail_task_def pa_retry_def Let_def)
        from Inr o obtain due until where c1: "g \<Longrightarrow> can_attempt (co_sessions c s)"
          "c1 = (if g then schedule_retry s (pa_permit a) err due c else exhaust_recovery s (pa_permit a) err now until c)"
          by (auto simp: attempt_failed_def bind_result_Inr_iff Let_def split: if_splits)
        note tk = done_ok [of g, OF c1(1), folded e(1)]
        show ?thesis
        proof (cases g)
          case True
          have "tk_stage tk = Serving" "tk_granted tk" using True st by (simp_all add: e(1))
          from schedule_retry_ok [OF ok p tk this] True show ?thesis by (simp add: e(2) c1(2))
        next
          case False
          from exhaust_recovery_ok [OF ok p tk] False show ?thesis by (simp add: e(2) c1(2))
        qed
      qed
    qed
  qed
qed (use r ok in \<open>auto simp: fail_task_def\<close>)

section \<open>Closing and cancelling\<close>

lemma settled_ok:
  assumes "rs_started rs \<le> rs_max rs"
    and all: "\<forall>b \<in> set rest. pa_resolved b" "\<forall>b \<in> set rest. pa_session b = s \<and> \<not> pa_closed b \<and> (pa_accepted b \<longrightarrow> pa_resolved b)"
    and st: "st = Idle \<and> rest = [] \<or> (st = Serving \<or> st = Unwinding) \<and> rest \<noteq> [] \<or> st = Gate \<and> can_attempt rs"
  shows "task_ok rs s (at_stage st (tk\<lparr>tk_held := rest\<rparr>))" (is "task_ok rs s ?tk")
proof -
  have held: "tk_held ?tk = rest" "tk_stage ?tk = st" "\<not> tk_granted ?tk" by (simp_all add: at_stage_def)
  have "\<not> carries ?tk p" for p
    using st all(1) unfolding carries_def held by (cases rest) auto
  moreover have "in_open ?tk \<longrightarrow> can_attempt rs" using st unfolding in_open_def held by auto
  moreover have "set (tl rest) \<subseteq> set rest" by (cases rest) auto
  ultimately show ?thesis unfolding task_ok_def held using assms held(3) by (intro conjI) auto
qed

lemma popped_ok:
  assumes "task_ok rs s tk" "tk_stage tk = Serving \<or> tk_stage tk = Unwinding" "tk_held tk = a # rest"
  shows "task_ok rs s (unwind (tk\<lparr>tk_held := rest\<rparr>))" "task_ok rs s (step_back (tk\<lparr>tk_held := rest\<rparr>))"
    and "can_attempt rs \<Longrightarrow> task_ok rs s (at_stage Gate (tk\<lparr>tk_held := rest\<rparr>))"
  using held_ok(3-5) [OF assms] settled_ok [of rs rest s _ tk] by (simp_all add: unwind_def step_back_def)

lemma close_task_ok:
  assumes ok: "gate_ok c T" and st: "tk_stage (T s) = Serving \<or> tk_stage (T s) = Unwinding"
    and again: "tk_granted (T s) \<Longrightarrow> again" and r: "close_task s now again (T s) c = (tk, c')"
  shows "gate_ok c' (T(s := tk))"
proof (cases "tk_held (T s)")
  case (Cons a rest)
  note T = gate_okD(3) [OF ok, of s]
  note h = held_ok [OF T st Cons]
  let ?c = "if pa_resolved a then c else abandon_probe s (pa_permit a) now c"
  let ?tk0 = "(T s)\<lparr>tk_held := rest\<rparr>"
  have sess: "co_sessions ?c = co_sessions c"
    by (auto simp: abandon_probe_def notify_all_def split: option.split)
  have e: "c' = release_concurrency ?c"
    "tk = (if tk_stage (T s) = Unwinding then unwind ?tk0 else if again then enter_open c' s ?tk0 else step_back ?tk0)"
    using r Cons h(1,2) by (auto simp: close_task_def pa_close_def Let_def split: if_splits)
  have "co_sessions c' = co_sessions c" using sess by (simp add: e(1) release_concurrency_def)
  then have tk: "task_ok (co_sessions c s) s tk"
    using popped_ok [OF T st Cons] by (auto simp: e(2) enter_open_def)
  have "gate_ok ?c (T(s := tk))"
  proof (cases "pa_resolved a")
    case False
    with give_up_permit(3) [OF ok h(7) [OF False, THEN conjunct1] tk] show ?thesis by simp
  next
    case True
    have nc: "\<not> carries (T s) p" for p using True Cons st by (auto simp: carries_def)
    show ?thesis
    proof (cases "tk_granted (T s)")
      case True
      with h(6) again have "tk_stage tk = Gate"
        using \<open>co_sessions c' = co_sessions c\<close> by (simp add: e(2) enter_open_def at_stage_def)
      then have "ready tk g" "may_wait tk g" for g by (simp_all add: ready_def may_wait_def)
      moreover have "s \<notin> set (co_blocked c)"
        using episode_okD(6) [OF gate_okD(2) [OF ok]] gate_okD(1) [OF ok] st by (cases "co_episode c") force+
      ultimately have "gate_ok c (T(s := tk))"
        using gate_okD [OF ok] tk nc by (intro gate_okI) (auto intro!: episode_ok_task)
      then show ?thesis using \<open>pa_resolved a\<close> by simp
    next
      case False
      then have "\<not> ready (T s) g" "\<not> may_wait (T s) g" for g using st by (auto simp: ready_def may_wait_def)
      with bystander_task [OF ok tk nc] \<open>pa_resolved a\<close> show ?thesis by simp
    qed
  qed
  then show ?thesis using gate_ok_frame [of c' ?c] by (simp add: e(1) release_concurrency_def)
qed (use r ok in \<open>auto simp: close_task_def\<close>)

lemma cancel_task_ok:
  assumes ok: "gate_ok c T" and ng: "\<not> tk_granted (T s)" "tk_stage (T s) \<noteq> Gate" "tk_stage (T s) \<noteq> Idle"
    and r: "cancel_task s now (T s) c = (tk, c')"
  shows "gate_ok c' (T(s := tk))"
proof -
  note T = gate_okD(3) [OF ok]
  have tk: "tk = unwind (T s)" "task_ok (co_sessions c s) s tk"
    using r task_ok_unwind [OF T] by (auto simp: cancel_task_def)
  have tasks: "task_ok (co_sessions c k) k ((T(s := tk)) k)" for k using tk(2) T by simp
  show ?thesis
  proof (cases "tk_stage (T s)")
    case (Waiting gen)
    then have c': "c' = cancel_wait s gen c" using r by (simp add: cancel_task_def)
    have no: "\<not> carries (T s) p" "\<not> ready (T s) g" for p g using Waiting by (simp_all add: carries_def ready_def)
    show ?thesis
    proof (cases "co_episode c")
      case None
      then show ?thesis using gate_okD(1) [OF ok] tasks by (intro gate_okI) (simp_all add: c' cancel_wait_def)
    next
      case (Some ep)
      note e = gate_okD(2) [OF ok Some]
      define ep' where "ep' = (if gen = Some (ep_generation ep) then ep\<lparr>ep_waiters := ep_waiters ep - {s}\<rparr> else ep)"
      have w: "ep_waiters ep' = ep_waiters ep - {s}"
        using episode_okD(7) [OF e, of s] Waiting by (auto simp: ep'_def may_wait_def)
      have f: "ep_leader ep' = ep_leader ep" "ep_probe ep' = ep_probe ep" "ep_terminal ep' = ep_terminal ep"
        "ep_generation ep' = ep_generation ep" by (simp_all add: ep'_def)
      have "co_episode c' = Some ep'" "co_blocked c' = filter (\<lambda>k. k \<noteq> s) (co_blocked c)" "co_sessions c' = co_sessions c"
        using Some by (simp_all add: c' cancel_wait_def ep'_def)
      moreover from this have "episode_ok c' (T(s := tk)) ep'"
        using e outsider [OF ok Some no] unfolding episode_ok_def f w by auto
      ultimately show ?thesis by (intro gate_okI) (use tasks in auto)
    qed
  next
    case (Sleeping gen)
    then have c': "c' = abandon_waiting_leader s gen c" using r by (simp add: cancel_task_def)
    have nc: "\<not> carries (T s) p" and nw: "\<not> may_wait (T s) g" for p g
      using Sleeping by (simp_all add: carries_def may_wait_def)
    show ?thesis
    proof (cases "c' = c \<and> (\<forall>ep. co_episode c = Some ep \<longrightarrow> ep_leader ep \<noteq> Some s)")
      case True
      then show ?thesis using bystander [OF ok tk(2)] not_waiting [OF ok nw] by blast
    next
      case False
      then obtain ep where ep: "co_episode c = Some ep"
        by (cases "co_episode c") (auto simp: c' abandon_waiting_leader_def)
      note e = gate_okD(2) [OF ok ep]
      have led: "ep_leader ep = Some s" "ep_generation ep = gen" "\<not> ep_probe ep"
      proof -
        show l: "ep_leader ep = Some s"
        proof (rule ccontr)
          assume nl: "ep_leader ep \<noteq> Some s"
          then have "abandon_waiting_leader s gen c = c" using ep by (simp add: abandon_waiting_leader_def)
          with False c' ep nl show False by simp
        qed
        show "\<not> ep_probe ep" using episode_okD(4) [OF e l] nc by blast
        from episode_okD(5) [OF e l this] Sleeping show "ep_generation ep = gen" by (simp add: ready_def)
      qed
      then have "c' = notify_all (c\<lparr>co_episode := Some (ep\<lparr>ep_leader := None\<rparr>)\<rparr>)"
        using ep by (simp add: c' abandon_waiting_leader_def)
      moreover from this have "episode_ok c' (T(s := tk)) (ep\<lparr>ep_leader := None\<rparr>)"
        using e led not_waiting [OF ok nw] ep unfolding episode_ok_def by (auto simp: notify_all_def)
      ultimately show ?thesis by (intro gate_okI) (use tasks in \<open>simp_all add: notify_all_def\<close>)
    qed
  next
    case (Limiting p)
    then have "carries (T s) p" "c' = abandon_probe s p now c" using r by (simp_all add: cancel_task_def carries_def)
    with give_up_permit(3) [OF ok _ tk(2)] show ?thesis by simp
  next
    case (Queued p)
    then have "carries (T s) p" "c' = abandon_probe s p now c" using r by (simp_all add: cancel_task_def carries_def)
    with give_up_permit(3) [OF ok _ tk(2)] show ?thesis by simp
  next
    case Serving
    then have c': "c' = c" and ne: "tk_held (T s) \<noteq> []" using r T [of s] by (auto simp: cancel_task_def task_ok_def)
    have no: "\<not> ready (T s) g" "\<not> may_wait (T s) g" for g using Serving ng by (simp_all add: ready_def may_wait_def)
    have "carries (T s) p \<Longrightarrow> carries tk p" for p
      using Serving ne by (auto simp: tk(1) carries_def unwind_def at_stage_def)
    with gate_okD [OF ok] not_waiting [OF ok no(2)] no(1) tasks show ?thesis
      unfolding c' by (intro gate_okI) (auto intro!: episode_ok_task)
  next
    case Unwinding
    then have c': "c' = c" and ne: "tk_held (T s) \<noteq> []" using r T [of s] by (auto simp: cancel_task_def task_ok_def)
    then have "tk = at_stage Unwinding (T s)" by (simp add: tk(1) unwind_def)
    then have "tk = T s" using Unwinding ng by (cases "T s") (simp add: at_stage_def)
    then show ?thesis using ok c' by simp
  qed (use ng in simp_all)
qed

end
