(* ===== verification/Admission_Runs.thy ===== *)
theory Admission_Runs
  imports Admission_Steps
begin

text \<open>
  Runs of the admission system: the invariant in every reachable state, the slots, who may
  start an attempt, and the state in which nobody can start one any more.
\<close>

section \<open>One step\<close>

lemma outside_stages:
  assumes ok: "gate_ok c T" and "tk_stage (T s) = Idle \<or> tk_stage (T s) = Serving \<and> \<not> tk_granted (T s)"
    and "\<And>a. a \<in> set (tk_held (T s)) \<Longrightarrow> pa_resolved a"
  shows "gate_ok c (T(s := enter_open c s (T s)))"
proof (rule bystander_task [OF ok enter_open_task_ok [OF gate_okD(3) [OF ok] assms(3)]])
  have "tk_held (T s) = [] \<or> pa_resolved (hd (tk_held (T s)))" using assms(3) by (cases "tk_held (T s)") auto
  then show "\<not> carries (T s) p" for p
    using assms(2) by (auto simp: carries_def split: list.splits)
  show "\<not> ready (T s) g" "\<not> may_wait (T s) g" for g using assms(2) by (auto simp: ready_def may_wait_def)
qed

lemma task_step_ok:
  assumes ok: "gate_ok (sy_ctl sy) (sy_tasks sy)" and caller: "caller_ok sy e"
    and s: "event_session e = s" and r: "task_step env (sy_tasks sy s) (sy_ctl sy) e = (tk, c')"
  shows "gate_ok c' ((sy_tasks sy)(s := tk))"
proof -
  let ?c = "sy_ctl sy" and ?T = "sy_tasks sy"
  note T = gate_okD(3) [OF ok]
  have same: ?thesis if "(tk, c') = (?T s, ?c)" using that ok by simp
  show ?thesis
  proof (cases e)
    case (Open k)
    then show ?thesis using r s same outside_stages [OF ok, of s] T [of s]
      by (auto simp: task_ok_def split: if_splits)
  next
    case (Check k now)
    have nb: "s \<notin> set (co_blocked ?c)" if "tk_stage (?T s) = Gate"
      using that episode_okD(6) [OF gate_okD(2) [OF ok]] gate_okD(1) [OF ok] by (cases "co_episode ?c") force+
    show ?thesis
    proof (cases "tk_stage (?T s)")
      case Gate
      with Check r s nb gate_task_ok [OF ok, of s now tk c'] show ?thesis by simp
    next
      case (Waiting g)
      with Check r s same gate_task_ok [OF ok, of s now tk c'] show ?thesis by (auto split: if_splits)
    qed (use Check r s same in auto)
  next
    case (Wake k)
    then show ?thesis using r s same wake_task_ok [OF ok] by (auto split: task_stage.splits)
  next
    case (Admit k clock)
    then show ?thesis using r s same limit_task_ok [OF ok] by (auto split: task_stage.splits)
  next
    case (Take_Slot k now)
    then show ?thesis using r s same slot_task_ok [OF ok] by (auto split: task_stage.splits)
  next
    case (Succeed k)
    then show ?thesis using r s same succeed_task_ok [OF ok] by (auto split: if_splits)
  next
    case (Correct k now)
    then show ?thesis using r s same correct_task_ok [OF ok] by (auto split: if_splits)
  next
    case (Fail k err now jitters)
    then show ?thesis using r s same fail_task_ok [OF ok] by (auto split: if_splits)
  next
    case (Recover k)
    show ?thesis
    proof (cases "\<exists>a. tk_held (?T s) = [a] \<and> tk_stage (?T s) = Serving \<and> pa_accepted a \<and> \<not> tk_granted (?T s)")
      case True
      then obtain a where a: "tk_held (?T s) = [a]" "tk_stage (?T s) = Serving" "pa_accepted a" "\<not> tk_granted (?T s)" by blast
      with Recover r s have "tk = enter_open ?c s (?T s)" "c' = ?c" by auto
      moreover have "pa_resolved a" using T [of s] a by (auto simp: task_ok_def)
      ultimately show ?thesis using outside_stages [OF ok, of s] a by simp
    next
      case False
      then have "(tk, c') = (?T s, ?c)" using Recover r s by (auto split: list.splits if_splits)
      then show ?thesis by (rule same)
    qed
  next
    case (Close k now again)
    then show ?thesis using r s same close_task_ok [OF ok, of s again now tk c'] caller by (auto split: if_splits)
  next
    case (Cancel k now)
    then show ?thesis using r s same cancel_task_ok [OF ok, of s now tk c'] caller by (auto split: if_splits)
  qed
qed

section \<open>Slots\<close>

lemma co_free_simps [frame_simps]:
  "co_free (notify_all c) = co_free c" "co_free (on_session s f c) = co_free c"
  "co_free (abandon_probe s p now c) = co_free c" "co_free (attempt_succeeded s p c) = co_free c"
  "co_free (attempt_rejected s p c) = co_free c" "co_free (attempt_corrected s p now c) = co_free c"
  "co_free (schedule_retry s p err due c) = co_free c" "co_free (exhaust_recovery s p err now until c) = co_free c"
  "co_free (cancel_wait s g c) = co_free c" "co_free (abandon_waiting_leader s n c) = co_free c"
  "co_free (snd (gate_round s now c)) = co_free c" "co_free (snd (claim_probe s n c)) = co_free c"
  by (auto simp: notify_all_def on_session_def abandon_probe_def attempt_succeeded_def attempt_rejected_def
      attempt_corrected_def schedule_retry_def exhaust_recovery_def cancel_wait_def abandon_waiting_leader_def
      start_recovery_episode_def gate_round_def gate_claim_def claim_probe_def Let_def split: option.split)

lemma held_stage [simp]:
  "tk_held (at_stage st tk) = tk_held tk" "tk_held (step_back tk) = tk_held tk"
  "tk_held (unwind tk) = tk_held tk" "tk_held (enter_open c s tk) = tk_held tk"
  by (simp_all add: at_stage_def step_back_def unwind_def enter_open_def)

lemma attempt_failed_free:
  "attempt_failed env s p err now jitters c = Inr (g, c') \<Longrightarrow> co_free c' = co_free c"
  by (auto simp: attempt_failed_def bind_result_Inr_iff Let_def frame_simps split: if_splits)

lemma pa_retry_free: "pa_retry env err now jitters a c = (r, a', c') \<Longrightarrow> co_free c' = co_free c"
  by (auto simp: pa_retry_def Let_def frame_simps split: if_splits sum.splits prod.splits dest: attempt_failed_free)

lemma gate_task_free: "gate_task s now tk c = (tk', c') \<Longrightarrow> tk_held tk' = tk_held tk \<and> co_free c' = co_free c"
  using co_free_simps(11) [of s now c]
  by (auto simp: gate_task_def split: prod.splits gate_outcome.splits)

lemma wake_task_free: "wake_task s g tk c = (tk', c') \<Longrightarrow> tk_held tk' = tk_held tk \<and> co_free c' = co_free c"
  using co_free_simps(12) [of s g c] by (auto simp: wake_task_def split: prod.splits option.splits)

lemma limit_task_free: "limit_task s clock p tk c = (tk', c') \<Longrightarrow> tk_held tk' = tk_held tk \<and> co_free c' = co_free c"
  by (auto simp: limit_task_def frame_simps split: prod.splits acquire_round.splits)

text \<open>Every step keeps the number of slots: what a task takes or gives back is what is missing or free.\<close>

lemma task_step_slots:
  assumes T: "\<forall>a \<in> set (tk_held tk). \<not> pa_closed a" and r: "task_step env tk c e = (tk', c')"
  shows "length (tk_held tk') + co_free c' = length (tk_held tk) + co_free c"
proof (cases e)
  case (Open k)
  then show ?thesis using r by (auto split: if_splits)
next
  case (Check k now)
  then show ?thesis using r gate_task_free by (fastforce split: task_stage.splits if_splits)
next
  case (Wake k)
  then show ?thesis using r wake_task_free by (fastforce split: task_stage.splits)
next
  case (Admit k clock)
  then show ?thesis using r limit_task_free by (fastforce split: task_stage.splits)
next
  case (Take_Slot k now)
  then show ?thesis using r
    by (auto simp: slot_task_def frame_simps split: task_stage.splits if_splits sum.splits)
next
  case (Succeed k)
  then show ?thesis using r
    by (auto simp: succeed_task_def pa_succeeded_def frame_simps split: if_splits list.splits)
next
  case (Correct k now)
  then show ?thesis using r
    by (auto simp: correct_task_def pa_retry_immediately_def frame_simps split: if_splits list.splits)
next
  case (Fail k err now jitters)
  then show ?thesis using r
    by (auto simp: fail_task_def split: if_splits list.splits prod.splits dest: pa_retry_free)
next
  case (Recover k)
  then show ?thesis using r by (auto split: if_splits list.splits)
next
  case (Close k now again)
  show ?thesis
  proof (cases "tk_held tk")
    case (Cons a rest)
    then have "\<not> pa_closed a" using T by simp
    then show ?thesis using r Close Cons
      by (auto simp: close_task_def pa_close_def release_concurrency_def frame_simps Let_def split: if_splits)
  qed (use r Close in \<open>auto simp: close_task_def split: if_splits\<close>)
next
  case (Cancel k now)
  then show ?thesis using r
    by (auto simp: cancel_task_def frame_simps split: if_splits task_stage.splits)
qed

lemma slots_ok_update:
  assumes "slots_ok n c T" and "length (tk_held tk) + co_free c' = length (tk_held (T s)) + co_free c"
  shows "slots_ok n c' (T(s := tk))"
proof -
  obtain A where A: "finite A" "\<And>k. k \<notin> A \<Longrightarrow> tk_held (T k) = []" "(\<Sum>k\<in>A. length (tk_held (T k))) + co_free c = n"
    using assms(1) by (auto simp: slots_ok_def)
  let ?B = "insert s A" and ?T = "T(s := tk)"
  have B: "finite ?B" using A(1) by simp
  have split: "(\<Sum>k\<in>?B. length (tk_held (F k))) = length (tk_held (F s)) + (\<Sum>k\<in>?B - {s}. length (tk_held (F k)))" for F
    using sum.remove [OF B, of s] by simp
  have "(\<Sum>k\<in>?B - {s}. length (tk_held (?T k))) = (\<Sum>k\<in>?B - {s}. length (tk_held (T k)))"
    by (rule sum.cong) auto
  moreover have "(\<Sum>k\<in>?B. length (tk_held (T k))) = (\<Sum>k\<in>A. length (tk_held (T k)))"
    using A(1,2) by (cases "s \<in> A") (simp_all add: insert_absorb)
  ultimately have "(\<Sum>k\<in>?B. length (tk_held (?T k))) + co_free c' = n"
    using split [of ?T] split [of T] A(3) assms(2) by simp
  moreover have "\<forall>k. k \<notin> ?B \<longrightarrow> tk_held (?T k) = []" using A(2) by simp
  ultimately show ?thesis unfolding slots_ok_def using B by blast
qed

lemma slots_bound: "slots_ok n c T \<Longrightarrow> finite B \<Longrightarrow> (\<Sum>s\<in>B. length (tk_held (T s))) \<le> n"
proof -
  assume "slots_ok n c T" "finite B"
  then obtain A where A: "finite A" "\<And>k. k \<notin> A \<Longrightarrow> tk_held (T k) = []" "(\<Sum>k\<in>A. length (tk_held (T k))) \<le> n"
    by (auto simp: slots_ok_def)
  have "(\<Sum>s\<in>B. length (tk_held (T s))) = (\<Sum>s\<in>B \<inter> A. length (tk_held (T s)))"
    using A(2) \<open>finite B\<close> by (intro sum.mono_neutral_right) auto
  also have "\<dots> \<le> (\<Sum>s\<in>A. length (tk_held (T s)))" using A(1) by (intro sum_mono2) auto
  finally show ?thesis using A(3) by simp
qed

section \<open>Runs\<close>

definition system_ok :: "nat \<Rightarrow> admission_system \<Rightarrow> bool" where
  "system_ok n sy \<longleftrightarrow> gate_ok (sy_ctl sy) (sy_tasks sy) \<and> slots_ok n (sy_ctl sy) (sy_tasks sy)"

lemma held_open: "task_ok rs s tk \<Longrightarrow> \<forall>a \<in> set (tk_held tk). \<not> pa_closed a"
  by (simp add: task_ok_def)

lemma system_step_ok: "system_ok n sy \<Longrightarrow> caller_ok sy e \<Longrightarrow> system_ok n (system_step env sy e)"
proof -
  assume ok: "system_ok n sy" and caller: "caller_ok sy e"
  obtain tk c' where r: "task_step env (sy_tasks sy (event_session e)) (sy_ctl sy) e = (tk, c')" by (rule prod.exhaust)
  have "gate_ok (sy_ctl sy) (sy_tasks sy)" "slots_ok n (sy_ctl sy) (sy_tasks sy)" using ok by (simp_all add: system_ok_def)
  with task_step_ok [OF this(1) caller refl r] slots_ok_update [OF this(2) task_step_slots [OF held_open [OF gate_okD(3) [OF this(1)]] r]]
  show ?thesis by (simp add: system_step_def r put_task_def system_ok_def)
qed

interpretation admission: machine "system_step env" caller_ok "system_ok n" for env n
  by unfold_locales (rule system_step_ok)

lemma new_system_ok:
  assumes "new_controller rate win slots attempts base max_delay jitter anticipate = Inr c"
  shows "system_ok (nat slots) (new_system c)"
proof -
  have c: "co_episode c = None" "co_blocked c = []" "co_free c = nat slots" "0 < attempts"
    "co_sessions c = (\<lambda>_. \<lparr>rs_max = nat attempts, rs_started = 0, rs_terminal = None\<rparr>)"
    using assms by (auto simp: new_controller_def split: if_splits)
  have "gate_ok c (\<lambda>_. idle_task)"
    by (rule gate_okI) (simp_all add: c task_ok_def idle_task_def in_open_def)
  moreover have "slots_ok (nat slots) c (\<lambda>_. idle_task)"
    by (auto simp: slots_ok_def c idle_task_def intro!: exI [of _ "{}"])
  ultimately show ?thesis by (simp add: system_ok_def new_system_def)
qed

text \<open>An attempt is started only under a permit that is still good at that moment.\<close>

definition attempts_of :: "admission_system \<Rightarrow> session_id \<Rightarrow> nat" where
  "attempts_of sy s = rs_started (co_sessions (sy_ctl sy) s)"

lemma started_frame [frame_simps]:
  "rs_started (co_sessions (notify_all c) k) = rs_started (co_sessions c k)"
  "rs_started (co_sessions (on_session s (fail_recovery err) c) k) = rs_started (co_sessions c k)"
  "rs_started (co_sessions (abandon_probe s p now c) k) = rs_started (co_sessions c k)"
  "rs_started (co_sessions (attempt_succeeded s p c) k) = rs_started (co_sessions c k)"
  "rs_started (co_sessions (attempt_rejected s p c) k) = rs_started (co_sessions c k)"
  "rs_started (co_sessions (attempt_corrected s p now c) k) = rs_started (co_sessions c k)"
  "rs_started (co_sessions (cancel_wait s g c) k) = rs_started (co_sessions c k)"
  "rs_started (co_sessions (abandon_waiting_leader s n c) k) = rs_started (co_sessions c k)"
  "rs_started (co_sessions (snd (gate_round s now c)) k) = rs_started (co_sessions c k)"
  "rs_started (co_sessions (snd (claim_probe s n c)) k) = rs_started (co_sessions c k)"
  by (auto simp: notify_all_def on_session_def abandon_probe_def attempt_succeeded_def attempt_rejected_def
      attempt_corrected_def cancel_wait_def abandon_waiting_leader_def fail_recovery_def
      start_recovery_episode_def gate_round_def gate_claim_def claim_probe_def Let_def split: option.split)

lemma schedule_started [frame_simps]:
  "rs_started (co_sessions (schedule_retry s p err due c) k) = rs_started (co_sessions c k)"
  "rs_started (co_sessions (exhaust_recovery s p err now until c) k) = rs_started (co_sessions c k)"
  by (auto simp: schedule_retry_def exhaust_recovery_def notify_all_def on_session_def fail_recovery_def
      start_recovery_episode_def Let_def split: option.split)

lemma pa_retry_started:
  "pa_retry env err now jitters a c = (r, a', c') \<Longrightarrow> rs_started (co_sessions c' k) = rs_started (co_sessions c k)"
  by (auto simp: pa_retry_def attempt_failed_def bind_result_Inr_iff Let_def frame_simps
      split: if_splits sum.splits prod.splits)

lemma wake_started:
  "wake_task s g tk c = (tk', c') \<Longrightarrow> rs_started (co_sessions c' k) = rs_started (co_sessions c k)"
  using started_frame(10) [of s g c k] by (auto simp: wake_task_def split: prod.splits option.splits)

lemma started_only_slot:
  assumes r: "task_step env tk c e = (tk', c')" and less: "rs_started (co_sessions c k) < rs_started (co_sessions c' k)"
  shows "k = event_session e \<and> (\<exists>p. tk_stage tk = Queued p \<and> 0 < co_free c \<and> permit_is_current k p c) \<and>
    rs_started (co_sessions c' k) \<le> rs_max (co_sessions c' k)"
proof (cases e)
  case (Check s now)
  then show ?thesis using r less started_frame(9) [of s now c k]
    by (auto simp: gate_task_def split: task_stage.splits if_splits prod.splits gate_outcome.splits)
next
  case (Wake s)
  then show ?thesis using r less wake_started [where k = k] by (auto split: task_stage.splits)
next
  case (Take_Slot s now)
  then show ?thesis using r less
    by (auto simp: slot_task_def claim_attempt_def can_attempt_def frame_simps on_session_def split: task_stage.splits if_splits sum.splits)
next
  case (Fail s err now jitters)
  then show ?thesis using r less
    by (auto simp: fail_task_def split: if_splits list.splits prod.splits dest: pa_retry_started [where k = k])
qed (use r less in \<open>auto simp: limit_task_def succeed_task_def pa_succeeded_def correct_task_def pa_retry_immediately_def
    close_task_def pa_close_def release_concurrency_def cancel_task_def frame_simps Let_def
    split: task_stage.splits if_splits list.splits prod.splits acquire_round.splits\<close>)

section \<open>What no caller can break\<close>

text \<open>Budgets are never changed, and no task holds a closed attempt, whoever is cancelled and when.\<close>

lemma max_frame [frame_simps]:
  "rs_max (co_sessions (notify_all c) k) = rs_max (co_sessions c k)"
  "rs_max (co_sessions (on_session s (fail_recovery err) c) k) = rs_max (co_sessions c k)"
  "rs_max (co_sessions (abandon_probe s p now c) k) = rs_max (co_sessions c k)"
  "rs_max (co_sessions (attempt_succeeded s p c) k) = rs_max (co_sessions c k)"
  "rs_max (co_sessions (attempt_rejected s p c) k) = rs_max (co_sessions c k)"
  "rs_max (co_sessions (attempt_corrected s p now c) k) = rs_max (co_sessions c k)"
  "rs_max (co_sessions (cancel_wait s g c) k) = rs_max (co_sessions c k)"
  "rs_max (co_sessions (abandon_waiting_leader s n c) k) = rs_max (co_sessions c k)"
  "rs_max (co_sessions (snd (gate_round s now c)) k) = rs_max (co_sessions c k)"
  "rs_max (co_sessions (snd (claim_probe s n c)) k) = rs_max (co_sessions c k)"
  by (auto simp: notify_all_def on_session_def abandon_probe_def attempt_succeeded_def attempt_rejected_def
      attempt_corrected_def cancel_wait_def abandon_waiting_leader_def fail_recovery_def
      start_recovery_episode_def gate_round_def gate_claim_def claim_probe_def Let_def split: option.split)

lemma schedule_max [frame_simps]:
  "rs_max (co_sessions (schedule_retry s p err due c) k) = rs_max (co_sessions c k)"
  "rs_max (co_sessions (exhaust_recovery s p err now until c) k) = rs_max (co_sessions c k)"
  by (auto simp: schedule_retry_def exhaust_recovery_def notify_all_def on_session_def fail_recovery_def
      start_recovery_episode_def Let_def split: option.split)

lemma pa_retry_max:
  "pa_retry env err now jitters a c = (r, a', c') \<Longrightarrow> rs_max (co_sessions c' k) = rs_max (co_sessions c k)"
  by (auto simp: pa_retry_def attempt_failed_def bind_result_Inr_iff Let_def frame_simps
      split: if_splits sum.splits prod.splits)

lemma wake_max:
  "wake_task s g tk c = (tk', c') \<Longrightarrow> rs_max (co_sessions c' k) = rs_max (co_sessions c k)"
  using max_frame(10) [of s g c k] by (auto simp: wake_task_def split: prod.splits option.splits)

lemma task_step_max:
  assumes r: "task_step env tk c e = (tk', c')"
  shows "rs_max (co_sessions c' k) = rs_max (co_sessions c k)"
proof (cases e)
  case (Check s now)
  then show ?thesis using r max_frame(9) [of s now c k]
    by (auto simp: gate_task_def split: task_stage.splits if_splits prod.splits gate_outcome.splits)
next
  case (Wake s)
  then show ?thesis using r wake_max [where k = k] by (auto split: task_stage.splits)
next
  case (Take_Slot s now)
  then show ?thesis using r
    by (auto simp: slot_task_def claim_attempt_def frame_simps on_session_def split: task_stage.splits if_splits sum.splits)
next
  case (Fail s err now jitters)
  then show ?thesis using r
    by (auto simp: fail_task_def split: if_splits list.splits prod.splits dest: pa_retry_max [where k = k])
qed (use r in \<open>auto simp: limit_task_def succeed_task_def pa_succeeded_def correct_task_def pa_retry_immediately_def
    close_task_def pa_close_def release_concurrency_def cancel_task_def frame_simps Let_def
    split: task_stage.splits if_splits list.splits prod.splits acquire_round.splits\<close>)

lemma pa_retry_closed: "pa_retry env err now jitters a c = (r, a', c') \<Longrightarrow> pa_closed a' = pa_closed a"
  by (auto simp: pa_retry_def Let_def split: if_splits sum.splits prod.splits)

lemma task_step_held:
  assumes r: "task_step env tk c e = (tk', c')" and T: "\<forall>a \<in> set (tk_held tk). \<not> pa_closed a"
  shows "\<forall>a \<in> set (tk_held tk'). \<not> pa_closed a"
proof (cases e)
  case (Check s now)
  then show ?thesis using r T gate_task_free by (fastforce split: task_stage.splits if_splits)
next
  case (Wake s)
  then show ?thesis using r T wake_task_free by (fastforce split: task_stage.splits)
next
  case (Admit s clock)
  then show ?thesis using r T limit_task_free by (fastforce split: task_stage.splits)
next
  case (Take_Slot s now)
  then show ?thesis using r T
    by (auto simp: slot_task_def new_attempt_def split: task_stage.splits if_splits sum.splits)
next
  case (Fail s err now jitters)
  then show ?thesis using r T
    by (auto simp: fail_task_def split: if_splits list.splits prod.splits dest: pa_retry_closed)
qed (use r T in \<open>auto simp: succeed_task_def pa_succeeded_def correct_task_def pa_retry_immediately_def
    close_task_def cancel_task_def Let_def
    split: task_stage.splits if_splits list.splits prod.splits\<close>)

definition system_bounded :: "nat \<Rightarrow> admission_system \<Rightarrow> bool" where
  "system_bounded n sy \<longleftrightarrow> slots_ok n (sy_ctl sy) (sy_tasks sy) \<and>
     (\<forall>s. (\<forall>a \<in> set (tk_held (sy_tasks sy s)). \<not> pa_closed a) \<and> attempts_of sy s \<le> rs_max (co_sessions (sy_ctl sy) s))"

lemma system_step_bounded: "system_bounded n sy \<Longrightarrow> system_bounded n (system_step env sy e)"
proof -
  assume ok: "system_bounded n sy"
  let ?s = "event_session e"
  obtain tk c' where r: "task_step env (sy_tasks sy ?s) (sy_ctl sy) e = (tk, c')" by (rule prod.exhaust)
  have T: "\<forall>a \<in> set (tk_held (sy_tasks sy k)). \<not> pa_closed a" "attempts_of sy k \<le> rs_max (co_sessions (sy_ctl sy) k)"
    and sl: "slots_ok n (sy_ctl sy) (sy_tasks sy)" for k
    using ok by (simp_all add: system_bounded_def)
  have "rs_started (co_sessions c' k) \<le> rs_max (co_sessions c' k)" for k
  proof (cases "rs_started (co_sessions (sy_ctl sy) k) < rs_started (co_sessions c' k)")
    case True
    then show ?thesis using started_only_slot [OF r] by blast
  next
    case False
    then show ?thesis using T(2) [of k] task_step_max [OF r, of k] by (simp add: attempts_of_def)
  qed
  then show ?thesis
    using slots_ok_update [OF sl task_step_slots [OF T(1) r]] task_step_held [OF r T(1)] T(1)
    by (simp add: system_step_def r put_task_def system_bounded_def attempts_of_def)
qed

interpretation any_caller: machine "system_step env" "\<lambda>_ _. True" "system_bounded n" for env n
  by unfold_locales (rule system_step_bounded)

lemma every_run: "permitted (\<lambda>_ _. True) step s es"
  by (induction es arbitrary: s) simp_all

lemma new_system_bounded:
  assumes "new_controller rate win slots attempts base max_delay jitter anticipate = Inr c"
  shows "system_bounded (nat slots) (new_system c)"
proof -
  have ok: "system_ok (nat slots) (new_system c)" by (rule new_system_ok [OF assms])
  then have "task_ok (co_sessions c s) s (sy_tasks (new_system c) s)" for s
    using gate_okD(3) [of c "sy_tasks (new_system c)" s] by (simp add: system_ok_def new_system_def)
  then show ?thesis using ok
    by (simp add: system_bounded_def system_ok_def task_ok_def attempts_of_def new_system_def)
qed

section \<open>Who waits, who leads\<close>

text \<open>A blocked task waits for a leader who is not blocked.\<close>

lemma blocked_has_leader:
  assumes ok: "gate_ok c T" and "s \<in> set (co_blocked c)"
  shows "\<exists>ep l. co_episode c = Some ep \<and> s \<in> ep_waiters ep \<and> ep_leader ep = Some l \<and> l \<noteq> s \<and> l \<notin> set (co_blocked c) \<and>
    ((\<exists>p. carries (T l) p) \<or> ready (T l) (ep_generation ep))"
proof -
  obtain ep where ep: "co_episode c = Some ep" using gate_okD(1) [OF ok] assms(2) by (cases "co_episode c") auto
  note e = episode_okD [OF gate_okD(2) [OF ok ep]]
  have w: "s \<in> ep_waiters ep" using e(6) [OF assms(2)] ..
  obtain l where l: "ep_leader ep = Some l" using e(2) assms(2) by (cases "ep_leader ep") auto
  have "l \<notin> ep_waiters ep" using e(3) [OF l] ..
  then have "l \<notin> set (co_blocked c)" "l \<noteq> s" using e(6) w by blast+
  moreover have "(\<exists>p. carries (T l) p) \<or> ready (T l) (ep_generation ep)" using e(4,5) [OF l] by blast
  ultimately show ?thesis using ep w l by blast
qed

text \<open>One probe at a time.\<close>

lemma one_probe:
  assumes "permit_is_current s p c" "gp_probe p" "permit_is_current t q c" "gp_probe q"
  shows "s = t"
proof -
  obtain ep where ep: "co_episode c = Some ep" "ep_leader ep = Some s"
    using assms(1,2) by (auto simp: permit_is_current_def split: option.splits)
  with assms(3,4) show ?thesis by (auto simp: permit_is_current_def split: option.splits)
qed

section \<open>A jam\<close>

text \<open>
  The runner of \<open>openai_chat/provider.py\<close> recovers a broken stream before its \<open>finally\<close> gives
  back the first slot. When every slot is held by such a runner, each waits for a second slot.
\<close>

definition jammed :: "admission_system \<Rightarrow> bool" where
  "jammed sy \<longleftrightarrow> co_free (sy_ctl sy) = 0 \<and>
     (\<forall>s. if tk_held (sy_tasks sy s) = [] then tk_stage (sy_tasks sy s) \<noteq> Serving \<and> tk_stage (sy_tasks sy s) \<noteq> Unwinding
          else (\<exists>p. tk_stage (sy_tasks sy s) = Queued p))"

fun gives_up :: "admission_event \<Rightarrow> bool" where
  "gives_up (Cancel s now) \<longleftrightarrow> True"
| "gives_up _ \<longleftrightarrow> False"

lemma outside_stage:
  "tk_held tk = [] \<Longrightarrow> tk_stage (step_back tk) \<noteq> Serving \<and> tk_stage (step_back tk) \<noteq> Unwinding"
  "tk_held tk = [] \<Longrightarrow> tk_stage (enter_open c s tk) \<noteq> Serving \<and> tk_stage (enter_open c s tk) \<noteq> Unwinding"
  "tk_stage (at_stage st tk) = st"
  by (auto simp: step_back_def enter_open_def at_stage_def)

lemma jammed_task:
  assumes free: "co_free c = 0" and e: "\<not> gives_up e"
    and st: "if tk_held tk = [] then tk_stage tk \<noteq> Serving \<and> tk_stage tk \<noteq> Unwinding else (\<exists>p. tk_stage tk = Queued p)"
    and r: "task_step env tk c e = (tk', c')"
  shows "co_free c' = 0 \<and> tk_held tk' = tk_held tk \<and>
    (if tk_held tk = [] then tk_stage tk' \<noteq> Serving \<and> tk_stage tk' \<noteq> Unwinding else tk_stage tk' = tk_stage tk)"
proof (cases "tk_held tk = []")
  case False
  then obtain p where "tk_stage tk = Queued p" using st by auto
  then have "(tk', c') = (tk, c)"
    using r e free by (cases e) (auto simp: slot_task_def split: list.splits if_splits)
  then show ?thesis using free False by simp
next
  case True
  note st' = st [unfolded if_P [OF True]]
  show ?thesis
  proof (cases e)
    case (Open s)
    then show ?thesis using r free True st' outside_stage(1,2) [OF True] by (auto split: if_splits)
  next
    case (Check s now)
    have "gate_task s now tk c = (tk', c') \<Longrightarrow> tk_stage tk' \<noteq> Serving \<and> tk_stage tk' \<noteq> Unwinding"
      using outside_stage(1,2) [OF True] by (auto simp: gate_task_def outside_stage(3) split: prod.splits gate_outcome.splits)
    then show ?thesis using r free True st' Check gate_task_free [of s now tk c tk' c']
      by (auto split: task_stage.splits if_splits)
  next
    case (Wake s)
    have "wake_task s g tk c = (tk', c') \<Longrightarrow> tk_stage tk' \<noteq> Serving \<and> tk_stage tk' \<noteq> Unwinding" for g
      by (auto simp: wake_task_def outside_stage(3) split: prod.splits option.splits)
    then show ?thesis using r free True st' Wake wake_task_free [of s _ tk c tk' c']
      by (auto split: task_stage.splits if_splits)
  next
    case (Admit s clock)
    have "limit_task s clock p tk c = (tk', c') \<Longrightarrow> tk_stage tk' \<noteq> Serving \<and> tk_stage tk' \<noteq> Unwinding" for p
      using st' by (auto simp: limit_task_def outside_stage(3) split: prod.splits acquire_round.splits)
    then show ?thesis using r free True st' Admit limit_task_free [of s clock _ tk c tk' c']
      by (auto split: task_stage.splits if_splits)
  qed (use r free True st' e in \<open>auto simp: slot_task_def split: task_stage.splits\<close>)
qed

lemma jammed_step:
  assumes j: "jammed sy" and e: "\<not> gives_up e"
  shows "jammed (system_step env sy e)" and "attempts_of (system_step env sy e) k \<le> attempts_of sy k"
proof -
  let ?s = "event_session e" and ?T = "sy_tasks sy" and ?c = "sy_ctl sy"
  obtain tk c' where r: "task_step env (?T ?s) ?c e = (tk, c')" by (rule prod.exhaust)
  have sy': "system_step env sy e = \<lparr>sy_ctl = c', sy_tasks = ?T(?s := tk)\<rparr>" by (simp add: system_step_def r put_task_def)
  have free: "co_free ?c = 0"
    and T: "if tk_held (?T s) = [] then tk_stage (?T s) \<noteq> Serving \<and> tk_stage (?T s) \<noteq> Unwinding
            else (\<exists>p. tk_stage (?T s) = Queued p)" for s
    using j unfolding jammed_def by blast+
  show "attempts_of (system_step env sy e) k \<le> attempts_of sy k"
    using started_only_slot [OF r, of k] free by (force simp: attempts_of_def sy')
  note t = jammed_task [OF free e T r]
  show "jammed (system_step env sy e)"
    unfolding jammed_def sy'
  proof (intro conjI allI)
    show "co_free (sy_ctl \<lparr>sy_ctl = c', sy_tasks = ?T(?s := tk)\<rparr>) = 0" using t by simp
    fix s
    show "if tk_held (sy_tasks \<lparr>sy_ctl = c', sy_tasks = ?T(?s := tk)\<rparr> s) = []
        then tk_stage (sy_tasks \<lparr>sy_ctl = c', sy_tasks = ?T(?s := tk)\<rparr> s) \<noteq> Serving \<and>
          tk_stage (sy_tasks \<lparr>sy_ctl = c', sy_tasks = ?T(?s := tk)\<rparr> s) \<noteq> Unwinding
        else (\<exists>p. tk_stage (sy_tasks \<lparr>sy_ctl = c', sy_tasks = ?T(?s := tk)\<rparr> s) = Queued p)"
      using T [of s] T [of ?s] t by (cases "s = ?s") (auto split: if_splits)
  qed
qed

lemma jammed_run:
  "jammed sy \<Longrightarrow> list_all (\<lambda>e. \<not> gives_up e) es \<Longrightarrow>
     jammed (run (system_step env) sy es) \<and> attempts_of (run (system_step env) sy es) k \<le> attempts_of sy k"
proof (induction es arbitrary: sy)
  case (Cons e es)
  then have e: "\<not> gives_up e" and es: "list_all (\<lambda>e. \<not> gives_up e) es" by simp_all
  note step = jammed_step [OF Cons.prems(1) e, of env]
  show ?case
    using Cons.IH [OF step(1) es] order_trans [OF _ step(2)] unfolding run.simps by blast
qed simp

text \<open>
  A leader that is gone: its task ended after a retry was granted and before it came back to the
  gate. Nobody takes over its episode, so nobody else starts an attempt any more.
\<close>

definition orphaned :: "session_id \<Rightarrow> controller \<Rightarrow> bool" where
  "orphaned l c \<longleftrightarrow>
     (case co_episode c of
        None \<Rightarrow> False
      | Some ep \<Rightarrow> ep_leader ep = Some l \<and> ep_terminal ep = None \<and> \<not> ep_probe ep)"

lemma orphaned_no_match: "orphaned l c \<Longrightarrow> matching_probe s p c = None"
  by (auto simp: orphaned_def matching_probe_def split: option.splits)

lemma orphaned_no_permit: "orphaned l c \<Longrightarrow> \<not> permit_is_current s p c"
  by (auto simp: orphaned_def permit_is_current_def split: option.splits)

lemma orphaned_frame [frame_simps]:
  "orphaned l (c\<lparr>co_limiter := x\<rparr>) = orphaned l c" "orphaned l (c\<lparr>co_free := y\<rparr>) = orphaned l c"
  "orphaned l (notify_all c) = orphaned l c" "orphaned l (on_session s f c) = orphaned l c"
  "orphaned l (release_concurrency c) = orphaned l c"
  by (simp_all add: orphaned_def notify_all_def on_session_def release_concurrency_def)

lemma orphaned_ops:
  assumes o: "orphaned l c" and s: "s \<noteq> l"
  shows "attempt_succeeded s p c = c" "attempt_rejected s p c = c" "attempt_corrected s p now c = c"
    "abandon_probe s p now c = c" "exhaust_recovery s p err now until c = c" "orphaned l (schedule_retry s p err due c)"
    "claim_probe s g c = (None, c)" "abandon_waiting_leader s g c = c" "orphaned l (cancel_wait s h c)"
    "orphaned l (snd (gate_round s now c))"
  using o s orphaned_no_match [OF o]
  by (auto simp: attempt_succeeded_def attempt_rejected_def attempt_corrected_def abandon_probe_def
      exhaust_recovery_def schedule_retry_def claim_probe_def abandon_waiting_leader_def cancel_wait_def
      gate_round_def gate_claim_def orphaned_def notify_all_def Let_def split: option.splits)

lemma orphaned_task:
  assumes o: "orphaned l c" and s: "event_session e = s" "s \<noteq> l" and T: "task_ok rs s tk"
    and r: "task_step env tk c e = (tk', c')"
  shows "orphaned l c'"
proof (cases e)
  case (Check k now)
  then show ?thesis using r o s orphaned_ops(10) [OF o s(2), of now]
    by (auto simp: gate_task_def split: task_stage.splits if_splits prod.splits gate_outcome.splits)
next
  case (Fail k err now jitters)
  have "tk_held tk = a # rest \<Longrightarrow> pa_session a = s" for a rest using T by (simp add: task_ok_def)
  then show ?thesis using r o s orphaned_ops [OF o s(2)] Fail
    by (auto simp: fail_task_def pa_retry_def attempt_failed_def bind_result_Inr_iff Let_def
        split: if_splits list.splits sum.splits prod.splits)
next
  case (Succeed k)
  have "tk_held tk = a # rest \<Longrightarrow> pa_session a = s" for a rest using T by (simp add: task_ok_def)
  then show ?thesis using r o s orphaned_ops [OF o s(2)] Succeed
    by (auto simp: succeed_task_def pa_succeeded_def split: if_splits list.splits)
next
  case (Correct k now)
  have "tk_held tk = a # rest \<Longrightarrow> pa_session a = s" for a rest using T by (simp add: task_ok_def)
  then show ?thesis using r o s orphaned_ops [OF o s(2)] Correct
    by (auto simp: correct_task_def pa_retry_immediately_def split: if_splits list.splits)
next
  case (Close k now again)
  have "tk_held tk = a # rest \<Longrightarrow> pa_session a = s" for a rest using T by (simp add: task_ok_def)
  then show ?thesis using r o s orphaned_ops [OF o s(2)] Close
    by (auto simp: close_task_def pa_close_def Let_def frame_simps split: if_splits list.splits prod.splits)
next
  case (Take_Slot k now)
  then show ?thesis using r o s orphaned_ops [OF o s(2)] orphaned_no_permit [OF o]
    by (auto simp: slot_task_def split: task_stage.splits if_splits)
next
  case (Admit k clock)
  then show ?thesis using r o s orphaned_ops(4) [of l "c\<lparr>co_limiter := x\<rparr>" s for x]
    by (auto simp: limit_task_def frame_simps split: task_stage.splits if_splits prod.splits acquire_round.splits)
qed (use r o s orphaned_ops [OF o s(2)] in \<open>auto simp: wake_task_def cancel_task_def
    split: task_stage.splits if_splits list.splits\<close>)

lemma orphan_blocks:
  assumes "system_ok n sy" "orphaned l (sy_ctl sy)" and "\<forall>e \<in> set es. event_session e \<noteq> l"
    and "permitted caller_ok (system_step env) sy es"
  shows "orphaned l (sy_ctl (run (system_step env) sy es)) \<and>
    (\<forall>k. attempts_of (run (system_step env) sy es) k \<le> attempts_of sy k)"
  using assms
proof (induction es arbitrary: sy)
  case (Cons e es)
  obtain tk c' where r: "task_step env (sy_tasks sy (event_session e)) (sy_ctl sy) e = (tk, c')" by (rule prod.exhaust)
  then have sy': "sy_ctl (system_step env sy e) = c'" by (simp add: system_step_def put_task_def)
  have T: "task_ok (co_sessions (sy_ctl sy) s) s (sy_tasks sy s)" for s
    using Cons.prems(1) gate_okD(3) by (simp add: system_ok_def)
  have o: "orphaned l (sy_ctl (system_step env sy e))"
    using orphaned_task [OF Cons.prems(2) refl _ T r] Cons.prems(3) sy' by simp
  have le: "attempts_of (system_step env sy e) k \<le> attempts_of sy k" for k
    using started_only_slot [OF r, of k] orphaned_no_permit [OF Cons.prems(2)] by (force simp: attempts_of_def sy')
  from Cons.prems have "system_ok n (system_step env sy e)" "\<forall>e \<in> set es. event_session e \<noteq> l"
    "permitted caller_ok (system_step env) (system_step env sy e) es"
    by (simp_all add: system_step_ok)
  from Cons.IH [OF this(1) o this(2,3)] le show ?case unfolding run.simps by (blast intro: order_trans)
qed simp

end
