(* ===== verification/Admission_Properties.thy ===== *)
theory Admission_Properties
  imports Admission_Runs
begin

text \<open>
  The properties of provider admission, each with an application to a controller with two slots
  and a few sessions.
\<close>

section \<open>A concrete controller\<close>

definition demo_headers :: header_env where
  "demo_headers = \<lparr>he_float = (\<lambda>_. Not_Float), he_date = (\<lambda>_. None)\<rparr>"

definition demo_controller :: controller where
  "demo_controller = projr (new_controller 10 60 2 5 2 60 1 True)"

lemma demo_controller_new: "new_controller 10 60 2 5 2 60 1 True = Inr demo_controller"
  by (simp add: demo_controller_def new_controller_def)

text \<open>Opening an attempt; the first event of a broken stream's recovery is \<open>Recover\<close>.\<close>

definition demo_open :: "session_id \<Rightarrow> seconds \<Rightarrow> admission_event list" where
  "demo_open s now = [Open s, Check s now, Admit s (now, now), Take_Slot s now]"

definition demo_system :: "admission_event list \<Rightarrow> admission_system" where
  "demo_system es = run (system_step demo_headers) (new_system demo_controller) es"

definition demo_outage :: upstream_error where
  "demo_outage = \<lparr>err_name = ''503'', err_retryable = True, err_headers = Some [(''x-ratelimit-remaining-tokens'', ''7'')]\<rparr>"

text \<open>Two attempts run; the first fails and leads the recovery, a third session has to wait.\<close>

definition demo_waiting :: "admission_event list" where
  "demo_waiting = demo_open 1 0 @ demo_open 2 0 @ [Fail 1 demo_outage 1 (0, 0), Open 3, Check 3 2, Close 1 2 True, Check 1 2]"

section \<open>Safety\<close>

text \<open>
  C37. Whatever the sessions of one provider do, in whatever order, cancellation at any point
  included: no more attempts are open than there are slots; no session exceeds its budget; at most
  one session holds a valid probe; an attempt starts only under a permit that is valid at that
  moment. And as long as a granted retry is followed up, and no session is cancelled after one or on
  its way to the gate (see \<open>caller_ok\<close>), no wake-up is lost: a session that blocks waits for a leader
  that is not blocked itself and holds a permit, sleeps until its probe is due, or is on its way to
  the gate.
\<close>

theorem admission_is_safe:
  assumes new: "new_controller rate win slots attempts base max_delay jitter anticipate = Inr c"
    and sy: "sy = run (system_step env) (new_system c) es"
  shows "(\<forall>B. finite B \<longrightarrow> (\<Sum>s\<in>B. length (tk_held (sy_tasks sy s))) \<le> nat slots) \<and>
    (\<forall>s. attempts_of sy s \<le> rs_max (co_sessions (sy_ctl sy) s)) \<and>
    (\<forall>s t p q. permit_is_current s p (sy_ctl sy) \<and> gp_probe p \<and> permit_is_current t q (sy_ctl sy) \<and> gp_probe q \<longrightarrow> s = t) \<and>
    (\<forall>e k. attempts_of sy k < attempts_of (system_step env sy e) k \<longrightarrow>
       k = event_session e \<and> (\<exists>p. tk_stage (sy_tasks sy k) = Queued p \<and> permit_is_current k p (sy_ctl sy))) \<and>
    (permitted caller_ok (system_step env) (new_system c) es \<longrightarrow>
      (\<forall>s \<in> set (co_blocked (sy_ctl sy)). \<exists>ep l. co_episode (sy_ctl sy) = Some ep \<and> s \<in> ep_waiters ep \<and>
         ep_leader ep = Some l \<and> l \<noteq> s \<and> l \<notin> set (co_blocked (sy_ctl sy)) \<and>
         ((\<exists>p. carries (sy_tasks sy l) p) \<or> ready (sy_tasks sy l) (ep_generation ep))))"
proof -
  have bounded: "system_bounded (nat slots) sy"
    unfolding sy by (rule any_caller.inv_run [OF new_system_bounded [OF new] every_run])
  then have sl: "slots_ok (nat slots) (sy_ctl sy) (sy_tasks sy)"
    and budget: "attempts_of sy s \<le> rs_max (co_sessions (sy_ctl sy) s)" for s
    by (simp_all add: system_bounded_def)
  have start: "k = event_session e \<and> (\<exists>p. tk_stage (sy_tasks sy k) = Queued p \<and> permit_is_current k p (sy_ctl sy))"
    if "attempts_of sy k < attempts_of (system_step env sy e) k" for e k
  proof -
    obtain tk c' where r: "task_step env (sy_tasks sy (event_session e)) (sy_ctl sy) e = (tk, c')" by (rule prod.exhaust)
    with that have "rs_started (co_sessions (sy_ctl sy) k) < rs_started (co_sessions c' k)"
      by (simp add: attempts_of_def system_step_def put_task_def)
    from started_only_slot [OF r this] show ?thesis by blast
  qed
  have "gate_ok (sy_ctl sy) (sy_tasks sy)" if "permitted caller_ok (system_step env) (new_system c) es"
    using admission.inv_run [OF new_system_ok [OF new] that] by (simp add: sy system_ok_def)
  note leader = blocked_has_leader [OF this]
  show ?thesis
  proof (intro conjI allI impI ballI)
    show "(\<Sum>s\<in>B. length (tk_held (sy_tasks sy s))) \<le> nat slots" if "finite B" for B
      using slots_bound [OF sl that] .
    show "attempts_of sy s \<le> rs_max (co_sessions (sy_ctl sy) s)" for s by (rule budget)
    show "s = t" if "permit_is_current s p (sy_ctl sy) \<and> gp_probe p \<and> permit_is_current t q (sy_ctl sy) \<and> gp_probe q" for s t p q
      using that one_probe by blast
  qed (use start leader in blast)+
qed

theorem admission_is_safe_witness:
  "co_blocked (sy_ctl (demo_system demo_waiting)) = [3] \<and>
   (\<exists>ep. co_episode (sy_ctl (demo_system demo_waiting)) = Some ep \<and> 3 \<in> ep_waiters ep)"
proof -
  have "permitted caller_ok (system_step demo_headers) (new_system demo_controller) demo_waiting" by code_simp
  moreover have "co_blocked (sy_ctl (demo_system demo_waiting)) = [3]" by code_simp
  ultimately show ?thesis
    using admission_is_safe [OF demo_controller_new demo_system_def, where es = demo_waiting]
    by simp blast
qed

text \<open>
  C38. In every half-open window of the configured length the limiter admits at most as many calls
  as the rate allows, however many callers there are and whenever they ask.
\<close>

theorem rate_window_is_strict:
  assumes "new_limiter rate w = Inr l" and "clock_from t calls"
    and "run limiter_step (l, []) calls = (l', granted)"
  shows "int (length (filter (\<lambda>x. a \<le> x \<and> x < a + w) granted)) \<le> rate"
  using assms by (rule window_bound)

theorem rate_window_is_strict_witness:
  "length (filter (\<lambda>x. 0 \<le> x \<and> x < 0 + (10 :: seconds)) [0, 1, 10, 12]) \<le> 2"
proof -
  let ?calls = "[((0, 0), True), ((1, 1), True), ((2, 2), True), ((10, 10), True), ((12, 12), True), ((13, 13), True)]"
  have "new_limiter 2 10 = Inr \<lparr>lim_rate = 2, lim_window = 10, lim_times = []\<rparr>" by code_simp
  moreover have "clock_from 0 ?calls" by code_simp
  moreover have "run limiter_step (\<lparr>lim_rate = 2, lim_window = 10, lim_times = []\<rparr>, []) ?calls =
      (\<lparr>lim_rate = 2, lim_window = 10, lim_times = [10, 12]\<rparr>, [0, 1, 10, 12])" by code_simp
  ultimately have "int (length (filter (\<lambda>x. 0 \<le> x \<and> x < 0 + (10 :: seconds)) [0, 1, 10, 12])) \<le> 2"
    by (rule rate_window_is_strict)
  then show ?thesis by simp
qed

section \<open>A jam\<close>

text \<open>
  C39. When every slot belongs to a runner that recovers its broken stream and so waits for a second
  slot, no attempt ever starts again, whatever happens, unless one of them is cancelled.
\<close>

theorem recoveries_can_jam:
  assumes "jammed sy" and "list_all (\<lambda>e. \<not> gives_up e) es"
  shows "attempts_of (run (system_step env) sy es) k \<le> attempts_of sy k"
  using jammed_run [OF assms] by blast

definition demo_jam :: "admission_event list" where
  "demo_jam = demo_open 1 0 @ demo_open 2 0 @ [Succeed 1, Succeed 2, Recover 1, Check 1 5, Admit 1 (5, 5),
     Recover 2, Check 2 5, Admit 2 (5, 5)]"

lemma untouched:
  "\<forall>e \<in> set es. event_session e \<noteq> s \<Longrightarrow> sy_tasks (run (system_step env) sy es) s = sy_tasks sy s"
proof (induction es arbitrary: sy)
  case (Cons e es)
  moreover have "sy_tasks (system_step env sy e) s = sy_tasks sy s"
    using Cons.prems by (auto simp: system_step_def put_task_def split: prod.splits)
  ultimately show ?case by simp
qed simp

lemma demo_jam_jammed: "jammed (demo_system demo_jam)"
  unfolding jammed_def
proof (intro conjI allI)
  let ?T = "sy_tasks (demo_system demo_jam)"
  show "co_free (sy_ctl (demo_system demo_jam)) = 0" by code_simp
  fix s
  have "tk_stage (?T 1) = Queued free_permit \<and> tk_held (?T 1) \<noteq> []" by code_simp
  moreover have "tk_stage (?T 2) = Queued free_permit \<and> tk_held (?T 2) \<noteq> []" by code_simp
  moreover have "?T s = idle_task" if "s \<noteq> 1" "s \<noteq> 2"
    unfolding demo_system_def using that
    by (subst untouched) (auto simp: demo_jam_def demo_open_def new_system_def)
  ultimately show "if tk_held (?T s) = [] then tk_stage (?T s) \<noteq> Serving \<and> tk_stage (?T s) \<noteq> Unwinding
      else (\<exists>p. tk_stage (?T s) = Queued p)"
    by (cases "s = 1 \<or> s = 2") (auto simp: idle_task_def)
qed

theorem recoveries_can_jam_witness:
  "permitted caller_ok (system_step demo_headers) (new_system demo_controller) demo_jam \<and>
   attempts_of (run (system_step demo_headers) (demo_system demo_jam) (demo_open 3 9 @ [Take_Slot 1 9, Take_Slot 2 9])) 3 \<le>
     attempts_of (demo_system demo_jam) 3"
proof
  show "permitted caller_ok (system_step demo_headers) (new_system demo_controller) demo_jam" by code_simp
  show "attempts_of (run (system_step demo_headers) (demo_system demo_jam) (demo_open 3 9 @ [Take_Slot 1 9, Take_Slot 2 9])) 3 \<le>
     attempts_of (demo_system demo_jam) 3"
    by (rule recoveries_can_jam [OF demo_jam_jammed]) (simp add: demo_open_def)
qed

end
