(* ===== verification/Conversion.thy ===== *)
theory Conversion
  imports Json
begin

text \<open>
  \<open>core/anthropic/conversion.py\<close> with \<open>content.py\<close> and \<open>request_serialization.py\<close>: an Anthropic
  conversation becomes an OpenAI chat history. The blocks are those of \<open>core/anthropic/models.py\<close>,
  with the fields the converter reads. A raised exception is a \<open>conversion_error\<close>. \<open>json.dumps\<close>
  is an argument: \<open>dumps\<close> for tool input, \<open>dumps_raw\<close> for tool results (with
  \<open>ensure_ascii=False\<close>).
\<close>

section \<open>Anthropic messages\<close>

datatype content_block =
  Block_Text string
| Block_Image "(string, json) dict"
| Block_Document "(string, json) dict"
| Block_Tool_Use string string "(string, json) dict" "json option"
| Block_Tool_Result string json
| Block_Thinking string
| Block_Redacted_Thinking string
| Block_Server_Tool_Use string string "(string, json) dict"
| Block_Web_Search_Result string json
| Block_Web_Fetch_Result string json

datatype message_role = User | Assistant | System

datatype message_content = Content_Text string | Content_Blocks "content_block list"

record anthropic_message =
  am_role :: message_role
  am_content :: message_content
  am_reasoning :: "string option"

fun is_tool_use :: "content_block \<Rightarrow> bool" where
  "is_tool_use (Block_Tool_Use _ _ _ _) \<longleftrightarrow> True"
| "is_tool_use _ \<longleftrightarrow> False"

section \<open>OpenAI messages\<close>

datatype content_part = Text_Part string | Image_Part string

datatype chat_content = Chat_Text string | Chat_Parts "content_part list"

record tool_call =
  tc_id :: string
  tc_name :: string
  tc_arguments :: string
  tc_extra :: "(string, json) dict option"

text \<open>A field the dictionary does not have is \<open>None\<close>; \<open>cm_boundary\<close> marks the inserted messages.\<close>

record openai_message =
  cm_role :: string
  cm_content :: chat_content
  cm_tool_calls :: "tool_call list option"
  cm_tool_id :: "string option"
  cm_reasoning :: "(string \<times> string) option"
  cm_boundary :: bool

definition chat :: "string \<Rightarrow> chat_content \<Rightarrow> openai_message" where
  "chat role content =
     \<lparr>cm_role = role, cm_content = content, cm_tool_calls = None, cm_tool_id = None, cm_reasoning = None,
      cm_boundary = False\<rparr>"

definition tool_message :: "string \<Rightarrow> string \<Rightarrow> openai_message" where
  "tool_message tid text = (chat ''tool'' (Chat_Text text))\<lparr>cm_tool_id := Some tid\<rparr>"

datatype conversion_error =
  Unsupported_Fields "string list"
| Assistant_Image
| Server_Tool_Block content_block
| System_Block content_block
| System_Empty
| Image_Media_Type | Image_Data | Image_Url | Image_Source json
| Missing_Results "string list"
| Key_Error string
| Unhashable_Choice json

section \<open>Reasoning replay\<close>

datatype replay_mode = DISABLED | THINK_TAGS | REASONING_CONTENT | REASONING

definition replay_field :: "replay_mode \<Rightarrow> string option" where
  "replay_field mode =
     (case mode of
        REASONING_CONTENT \<Rightarrow> Some ''reasoning_content''
      | REASONING \<Rightarrow> Some ''reasoning''
      | _ \<Rightarrow> None)"

definition set_replayed_reasoning :: "string \<Rightarrow> replay_mode \<Rightarrow> openai_message \<Rightarrow> openai_message" where
  "set_replayed_reasoning r mode m =
     (case replay_field mode of None \<Rightarrow> m | Some f \<Rightarrow> m\<lparr>cm_reasoning := Some (f, r)\<rparr>)"

definition newline :: string where
  "newline = [CHR 0x0A]"

definition think_tag_content :: "string \<Rightarrow> string" where
  "think_tag_content r = ''<think>'' @ newline @ r @ newline @ ''</think>''"

fun join :: "string \<Rightarrow> string list \<Rightarrow> string" where
  "join sep [] = []"
| "join sep [s] = s"
| "join sep (s # ss) = s @ sep @ join sep ss"

definition blank_line :: string where
  "blank_line = newline @ newline"

section \<open>Blocks\<close>

fun tool_call_from_tool_use :: "((string, json) dict \<Rightarrow> string) \<Rightarrow> content_block \<Rightarrow> tool_call list" where
  "tool_call_from_tool_use dumps (Block_Tool_Use tid name input extra) =
     [\<lparr>tc_id = tid, tc_name = name, tc_arguments = dumps input,
       tc_extra = (case extra of Some (JObj (f # fs)) \<Rightarrow> Some (f # fs) | _ \<Rightarrow> None)\<rparr>]"
| "tool_call_from_tool_use dumps _ = []"

definition tool_call_ids :: "tool_call list \<Rightarrow> string list" where
  "tool_call_ids calls = filter (\<lambda>i. py_strip i \<noteq> []) (map tc_id calls)"

definition forbidden_assistant_block :: "content_block \<Rightarrow> conversion_error option" where
  "forbidden_assistant_block b =
     (case b of
        Block_Image _ \<Rightarrow> Some Assistant_Image
      | Block_Server_Tool_Use _ _ _ \<Rightarrow> Some (Server_Tool_Block b)
      | Block_Web_Search_Result _ _ \<Rightarrow> Some (Server_Tool_Block b)
      | Block_Web_Fetch_Result _ _ \<Rightarrow> Some (Server_Tool_Block b)
      | _ \<Rightarrow> None)"

fun assert_blocks :: "content_block list \<Rightarrow> conversion_error + unit" where
  "assert_blocks [] = Inr ()"
| "assert_blocks (b # bs) =
     (case forbidden_assistant_block b of Some e \<Rightarrow> Inl e | None \<Rightarrow> assert_blocks bs)"

fun system_parts :: "content_block list \<Rightarrow> conversion_error + string list" where
  "system_parts [] = Inr []"
| "system_parts (Block_Text t # bs) = bind_result (system_parts bs) (\<lambda>ts. Inr (t # ts))"
| "system_parts (b # bs) = Inl (System_Block b)"

definition system_text :: "message_content \<Rightarrow> conversion_error + string option" where
  "system_text content =
     (case content of
        Content_Text s \<Rightarrow> Inr (Some s)
      | Content_Blocks [] \<Rightarrow> Inr None
      | Content_Blocks bs \<Rightarrow> bind_result (system_parts bs) (\<lambda>ts. Inr (Some (join blank_line ts))))"

definition text_or :: "json \<Rightarrow> 'e \<Rightarrow> 'e + string" where
  "text_or j e = (case j of JStr s \<Rightarrow> if py_strip s = [] then Inl e else Inr s | _ \<Rightarrow> Inl e)"

definition user_image_part :: "(string, json) dict \<Rightarrow> conversion_error + content_part" where
  "user_image_part source =
     (let kind = jget source ''type'' in
      if kind = JStr ''base64'' then
        bind_result (text_or (jget source ''media_type'') Image_Media_Type) (\<lambda>media.
          bind_result (text_or (jget source ''data'') Image_Data) (\<lambda>data.
            Inr (Image_Part (''data:'' @ media @ '';base64,'' @ data))))
      else if kind = JStr ''url'' then
        bind_result (text_or (jget source ''url'') Image_Url) (\<lambda>url. Inr (Image_Part url))
      else Inl (Image_Source kind))"

text \<open>\<open>serialize_tool_result_content\<close>\<close>

definition serialize_item :: "(json \<Rightarrow> string) \<Rightarrow> (json \<Rightarrow> string) \<Rightarrow> json \<Rightarrow> string" where
  "serialize_item rp dumps_raw item =
     (case item of
        JObj d \<Rightarrow> if jget d ''type'' = JStr ''text''
                  then (case dget d ''text'' of None \<Rightarrow> [] | Some t \<Rightarrow> py_str rp t)
                  else dumps_raw item
      | _ \<Rightarrow> py_str rp item)"

definition serialize_tool_result :: "(json \<Rightarrow> string) \<Rightarrow> (json \<Rightarrow> string) \<Rightarrow> json \<Rightarrow> string" where
  "serialize_tool_result rp dumps_raw content =
     (case content of
        JNull \<Rightarrow> []
      | JStr s \<Rightarrow> s
      | JObj _ \<Rightarrow> dumps_raw content
      | JArr items \<Rightarrow> join newline (map (serialize_item rp dumps_raw) items)
      | _ \<Rightarrow> py_str rp content)"

record conversion_env =
  ce_dumps :: "(string, json) dict \<Rightarrow> string"
  ce_dumps_raw :: "json \<Rightarrow> string"
  ce_str :: "json \<Rightarrow> string"

definition result_message :: "conversion_env \<Rightarrow> string \<Rightarrow> json \<Rightarrow> openai_message" where
  "result_message env tid content = tool_message tid (serialize_tool_result (ce_str env) (ce_dumps_raw env) content)"

section \<open>Assistant messages\<close>

record assistant_parts =
  ap_content :: "string list"
  ap_thinking :: "string list"
  ap_seen :: bool
  ap_calls :: "tool_call list"

definition assistant_block ::
  "conversion_env \<Rightarrow> string option \<Rightarrow> replay_mode \<Rightarrow> content_block \<Rightarrow> assistant_parts \<Rightarrow> conversion_error + assistant_parts" where
  "assistant_block env reasoning mode b p =
     (case b of
        Block_Text t \<Rightarrow> Inr (p\<lparr>ap_content := ap_content p @ [t]\<rparr>)
      | Block_Thinking t \<Rightarrow>
          Inr (if mode = DISABLED then p
               else if mode = THINK_TAGS then p\<lparr>ap_content := ap_content p @ [think_tag_content t]\<rparr>
               else if reasoning = None then p\<lparr>ap_seen := True, ap_thinking := ap_thinking p @ [t]\<rparr>
               else p)
      | Block_Redacted_Thinking _ \<Rightarrow> Inr p
      | Block_Tool_Use _ _ _ _ \<Rightarrow> Inr (p\<lparr>ap_calls := ap_calls p @ tool_call_from_tool_use (ce_dumps env) b\<rparr>)
      | _ \<Rightarrow> (case forbidden_assistant_block b of Some e \<Rightarrow> Inl e | None \<Rightarrow> Inr p))"

fun assistant_blocks ::
  "conversion_env \<Rightarrow> string option \<Rightarrow> replay_mode \<Rightarrow> content_block list \<Rightarrow> assistant_parts \<Rightarrow> conversion_error + assistant_parts" where
  "assistant_blocks env reasoning mode [] p = Inr p"
| "assistant_blocks env reasoning mode (b # bs) p =
     bind_result (assistant_block env reasoning mode b p) (assistant_blocks env reasoning mode bs)"

definition convert_assistant_message ::
  "conversion_env \<Rightarrow> string option \<Rightarrow> replay_mode \<Rightarrow> content_block list \<Rightarrow> conversion_error + openai_message" where
  "convert_assistant_message env reasoning mode blocks =
     bind_result (assistant_blocks env reasoning mode blocks \<lparr>ap_content = [], ap_thinking = [], ap_seen = False, ap_calls = []\<rparr>)
       (\<lambda>p. let text = join blank_line (ap_content p);
                text = (if text = [] \<and> ap_calls p = [] then '' '' else text);
                m = (chat ''assistant'' (Chat_Text text))
                      \<lparr>cm_tool_calls := (if ap_calls p = [] then None else Some (ap_calls p))\<rparr>
            in Inr (if replay_field mode = None then m
                    else (case reasoning of
                            Some r \<Rightarrow> set_replayed_reasoning r mode m
                          | None \<Rightarrow> if ap_seen p then set_replayed_reasoning (join newline (ap_thinking p)) mode m else m)))"

section \<open>User messages\<close>

fun part_text :: "content_part \<Rightarrow> string option" where
  "part_text (Text_Part t) = Some t"
| "part_text (Image_Part _) = None"

definition flush_content :: "content_part list \<Rightarrow> openai_message list" where
  "flush_content parts =
     (if parts = [] then []
      else [chat ''user''
              (if list_all (\<lambda>p. part_text p \<noteq> None) parts
               then Chat_Text (join newline (map (\<lambda>p. the (part_text p)) parts))
               else Chat_Parts parts)])"

text \<open>Blocks other than text, images and tool results are passed over.\<close>

fun user_blocks ::
  "conversion_env \<Rightarrow> content_block list \<Rightarrow> content_part list \<Rightarrow> openai_message list \<Rightarrow> conversion_error + openai_message list" where
  "user_blocks env [] parts result = Inr (result @ flush_content parts)"
| "user_blocks env (Block_Text t # bs) parts result = user_blocks env bs (parts @ [Text_Part t]) result"
| "user_blocks env (Block_Image source # bs) parts result =
     bind_result (user_image_part source) (\<lambda>p. user_blocks env bs (parts @ [p]) result)"
| "user_blocks env (Block_Tool_Result tid content # bs) parts result =
     user_blocks env bs [] (result @ flush_content parts @ [result_message env tid content])"
| "user_blocks env (b # bs) parts result = user_blocks env bs parts result"

definition convert_user_message :: "conversion_env \<Rightarrow> content_block list \<Rightarrow> conversion_error + openai_message list" where
  "convert_user_message env blocks = user_blocks env blocks [] []"

section \<open>Segments\<close>

record tool_turn =
  tt_message :: openai_message
  tt_ids :: "string list"
  tt_deferred :: "content_block list"
  tt_reasoning :: "string option"
  tt_mode :: replay_mode
  tt_emitted :: bool

datatype segment = Plain_Segment "openai_message list" | Turn_Segment tool_turn

definition deferred_messages :: "conversion_env \<Rightarrow> tool_turn \<Rightarrow> conversion_error + openai_message list" where
  "deferred_messages env t =
     (if tt_deferred t = [] then Inr []
      else bind_result (convert_assistant_message env (tt_reasoning t) (tt_mode t) (tt_deferred t)) (\<lambda>m. Inr [m]))"

text \<open>An assistant message with tool calls: what stands before the first call, the calls, the rest.\<close>

definition convert_assistant_split ::
  "conversion_env \<Rightarrow> string option \<Rightarrow> replay_mode \<Rightarrow> content_block list \<Rightarrow> conversion_error + tool_turn" where
  "convert_assistant_split env reasoning mode blocks =
     (let pre = takeWhile (\<lambda>b. \<not> is_tool_use b) blocks;
          calls = concat (map (tool_call_from_tool_use (ce_dumps env)) blocks);
          deferred = filter (\<lambda>b. \<not> is_tool_use b) (dropWhile (\<lambda>b. \<not> is_tool_use b) blocks)
      in bind_result
           (if pre = [] then
              Inr (let m = chat ''assistant'' (Chat_Text [])
                   in case reasoning of None \<Rightarrow> m | Some r \<Rightarrow> set_replayed_reasoning r mode m)
            else convert_assistant_message env reasoning mode pre)
           (\<lambda>m. let m = m\<lparr>cm_tool_calls := Some calls\<rparr>;
                    m = (if mode = REASONING_CONTENT \<and> cm_reasoning m = None
                         then m\<lparr>cm_reasoning := Some (''reasoning_content'', [])\<rparr> else m);
                    m = (if cm_content m = Chat_Text '' '' then m\<lparr>cm_content := Chat_Text []\<rparr> else m)
                in Inr \<lparr>tt_message = m, tt_ids = tool_call_ids calls, tt_deferred = deferred, tt_reasoning = reasoning,
                        tt_mode = mode, tt_emitted = False\<rparr>))"

fun role_name :: "message_role \<Rightarrow> string" where
  "role_name User = ''user''"
| "role_name Assistant = ''assistant''"
| "role_name System = ''system''"

definition convert_text_message :: "message_role \<Rightarrow> string \<Rightarrow> string option \<Rightarrow> replay_mode \<Rightarrow> openai_message" where
  "convert_text_message role text reasoning mode =
     (let m = chat (role_name role) (Chat_Text text) in
      case reasoning of
        None \<Rightarrow> m
      | Some r \<Rightarrow>
          if role \<noteq> Assistant then m
          else if replay_field mode \<noteq> None then set_replayed_reasoning r mode m
          else if mode = THINK_TAGS \<and> r \<noteq> [] then
            m\<lparr>cm_content := Chat_Text (join blank_line (think_tag_content r # (if text = [] then [] else [text])))\<rparr>
          else m)"

definition convert_to_segments ::
  "conversion_env \<Rightarrow> replay_mode \<Rightarrow> anthropic_message \<Rightarrow> conversion_error + segment list" where
  "convert_to_segments env mode msg =
     (case am_role msg of
        System \<Rightarrow>
          bind_result (system_text (am_content msg)) (\<lambda>t.
            case t of
              None \<Rightarrow> Inl System_Empty
            | Some s \<Rightarrow> Inr [Plain_Segment [chat ''user'' (Chat_Text s)]])
      | role \<Rightarrow>
          (case am_content msg of
             Content_Text text \<Rightarrow> Inr [Plain_Segment [convert_text_message role text (am_reasoning msg) mode]]
           | Content_Blocks blocks \<Rightarrow>
               if role = User then
                 bind_result (convert_user_message env blocks) (\<lambda>ms. Inr [Plain_Segment ms])
               else if list_ex is_tool_use blocks then
                 bind_result (assert_blocks (filter (\<lambda>b. \<not> is_tool_use b) blocks)) (\<lambda>_.
                   bind_result (convert_assistant_split env (am_reasoning msg) mode blocks) (\<lambda>t. Inr [Turn_Segment t]))
               else
                 bind_result (assert_blocks blocks) (\<lambda>_.
                   bind_result (convert_assistant_message env (am_reasoning msg) mode blocks) (\<lambda>m.
                     Inr [Plain_Segment [m]]))))"

section \<open>The history ledger\<close>

record history_ledger =
  hl_output :: "openai_message list"
  hl_segments :: "segment list"
  hl_results :: "(string, openai_message) dict"

definition new_history :: history_ledger where
  "new_history = \<lparr>hl_output = [], hl_segments = [], hl_results = []\<rparr>"

text \<open>\<open>self._tool_results.pop(tool_id)\<close> for each required id: a second pop of one id raises.\<close>

fun pop_results ::
  "string list \<Rightarrow> (string, openai_message) dict \<Rightarrow> conversion_error + (openai_message list \<times> (string, openai_message) dict)" where
  "pop_results [] results = Inr ([], results)"
| "pop_results (i # ids) results =
     (case dget results i of
        None \<Rightarrow> Inl (Key_Error i)
      | Some m \<Rightarrow> bind_result (pop_results ids (dpop i results)) (\<lambda>(ms, r). Inr (m # ms, r)))"

fun drain_segments :: "conversion_env \<Rightarrow> segment list \<Rightarrow> openai_message list \<Rightarrow> (string, openai_message) dict
    \<Rightarrow> conversion_error + history_ledger" where
  "drain_segments env [] out results = Inr \<lparr>hl_output = out, hl_segments = [], hl_results = results\<rparr>"
| "drain_segments env (Plain_Segment ms # segs) out results = drain_segments env segs (out @ ms) results"
| "drain_segments env (Turn_Segment t # segs) out results =
     (let out = (if tt_emitted t then out else out @ [tt_message t]);
          t = t\<lparr>tt_emitted := True\<rparr>
      in if list_ex (\<lambda>i. dget results i = None) (tt_ids t)
         then Inr \<lparr>hl_output = out, hl_segments = Turn_Segment t # segs, hl_results = results\<rparr>
         else bind_result (pop_results (tt_ids t) results) (\<lambda>(ms, results).
                bind_result (deferred_messages env t) (\<lambda>ds. drain_segments env segs (out @ ms @ ds) results)))"

definition drain_ready :: "conversion_env \<Rightarrow> history_ledger \<Rightarrow> conversion_error + history_ledger" where
  "drain_ready env h = drain_segments env (hl_segments h) (hl_output h) (hl_results h)"

definition add_segment :: "conversion_env \<Rightarrow> segment \<Rightarrow> history_ledger \<Rightarrow> conversion_error + history_ledger" where
  "add_segment env s h = drain_ready env (h\<lparr>hl_segments := hl_segments h @ [s]\<rparr>)"

definition add_plain :: "conversion_env \<Rightarrow> openai_message list \<Rightarrow> history_ledger \<Rightarrow> conversion_error + history_ledger" where
  "add_plain env ms h = (if ms = [] then Inr h else add_segment env (Plain_Segment ms) h)"

definition add_tool_turn :: "conversion_env \<Rightarrow> tool_turn \<Rightarrow> history_ledger \<Rightarrow> conversion_error + history_ledger" where
  "add_tool_turn env t h = add_segment env (Turn_Segment t) h"

fun pending_ids :: "segment \<Rightarrow> string list" where
  "pending_ids (Plain_Segment _) = []"
| "pending_ids (Turn_Segment t) = tt_ids t"

definition has_pending_tool_id :: "string \<Rightarrow> history_ledger \<Rightarrow> bool" where
  "has_pending_tool_id i h \<longleftrightarrow> list_ex (\<lambda>s. i \<in> set (pending_ids s)) (hl_segments h)"

definition record_tool_result ::
  "conversion_env \<Rightarrow> string \<Rightarrow> json \<Rightarrow> history_ledger \<Rightarrow> conversion_error + history_ledger" where
  "record_tool_result env tid content h =
     (if tid = [] then bind_result (convert_user_message env [Block_Tool_Result tid content]) (\<lambda>ms. add_plain env ms h)
      else if has_pending_tool_id tid h then Inr (h\<lparr>hl_results := dset tid (result_message env tid content) (hl_results h)\<rparr>)
      else add_plain env [result_message env tid content] h)"

definition add_text_blocks ::
  "conversion_env \<Rightarrow> content_block list \<Rightarrow> history_ledger \<Rightarrow> conversion_error + history_ledger" where
  "add_text_blocks env blocks h =
     (if blocks = [] then Inr h else bind_result (convert_user_message env blocks) (\<lambda>ms. add_plain env ms h))"

fun add_user_loop ::
  "conversion_env \<Rightarrow> content_block list \<Rightarrow> content_block list \<Rightarrow> history_ledger \<Rightarrow> conversion_error + history_ledger" where
  "add_user_loop env [] texts h = bind_result (add_text_blocks env texts h) (drain_ready env)"
| "add_user_loop env (Block_Tool_Result tid content # bs) texts h =
     bind_result (add_text_blocks env texts h) (\<lambda>h.
       bind_result (record_tool_result env tid content h) (add_user_loop env bs []))"
| "add_user_loop env (b # bs) texts h = add_user_loop env bs (texts @ [b]) h"

definition add_user_blocks :: "conversion_env \<Rightarrow> content_block list \<Rightarrow> history_ledger \<Rightarrow> conversion_error + history_ledger" where
  "add_user_blocks env blocks h = add_user_loop env blocks [] h"

definition missing_required_ids :: "history_ledger \<Rightarrow> string list" where
  "missing_required_ids h = filter (\<lambda>i. dget (hl_results h) i = None) (concat (map pending_ids (hl_segments h)))"

text \<open>\<open>_emit_tool_turn\<close> takes the results that are there.\<close>

fun take_results :: "string list \<Rightarrow> (string, openai_message) dict \<Rightarrow> openai_message list \<times> (string, openai_message) dict" where
  "take_results [] results = ([], results)"
| "take_results (i # ids) results =
     (case take_results ids (dpop i results) of
        (ms, r) \<Rightarrow> ((case dget results i of None \<Rightarrow> ms | Some m \<Rightarrow> m # ms), r))"

fun emit_segments :: "conversion_env \<Rightarrow> segment list \<Rightarrow> openai_message list \<Rightarrow> (string, openai_message) dict
    \<Rightarrow> conversion_error + openai_message list" where
  "emit_segments env [] out results = Inr out"
| "emit_segments env (Plain_Segment ms # segs) out results = emit_segments env segs (out @ ms) results"
| "emit_segments env (Turn_Segment t # segs) out results =
     (case take_results (tt_ids t) results of
        (ms, results) \<Rightarrow>
          bind_result (deferred_messages env t) (\<lambda>ds.
            emit_segments env segs ((if tt_emitted t then out else out @ [tt_message t]) @ ms @ ds) results))"

definition finish_history :: "conversion_env \<Rightarrow> history_ledger \<Rightarrow> conversion_error + openai_message list" where
  "finish_history env h =
     bind_result (drain_ready env h) (\<lambda>h.
       if missing_required_ids h \<noteq> [] then Inl (Missing_Results (missing_required_ids h))
       else emit_segments env (hl_segments h) (hl_output h) (hl_results h))"

section \<open>Closing and merging turns\<close>

definition turn_boundary :: openai_message where
  "turn_boundary = (chat ''assistant'' (Chat_Text '' ''))\<lparr>cm_boundary := True\<rparr>"

fun close_tool_turns :: "openai_message list \<Rightarrow> openai_message list" where
  "close_tool_turns (m # n # ms) =
     (if cm_role n = ''user'' \<and> cm_role m = ''tool'' then m # turn_boundary # close_tool_turns (n # ms)
      else m # close_tool_turns (n # ms))"
| "close_tool_turns ms = ms"

fun content_parts :: "chat_content \<Rightarrow> content_part list" where
  "content_parts (Chat_Text s) = [Text_Part s]"
| "content_parts (Chat_Parts ps) = ps"

definition merge_parts :: "content_part list \<Rightarrow> content_part list \<Rightarrow> content_part list" where
  "merge_parts first second =
     (case (rev first, second) of
        (Text_Part a # rest, Text_Part b # second') \<Rightarrow> rev rest @ [Text_Part (a @ blank_line @ b)] @ second'
      | _ \<Rightarrow> first @ second)"

definition merge_user_content :: "chat_content \<Rightarrow> chat_content \<Rightarrow> chat_content" where
  "merge_user_content first second =
     (case (first, second) of
        (Chat_Text a, Chat_Text b) \<Rightarrow> Chat_Text (a @ blank_line @ b)
      | _ \<Rightarrow> Chat_Parts (merge_parts (content_parts first) (content_parts second)))"

fun coalesce_users :: "openai_message list \<Rightarrow> openai_message list" where
  "coalesce_users (m # n # ms) =
     (if cm_role n = ''user'' \<and> cm_role m = ''user''
      then coalesce_users (m\<lparr>cm_content := merge_user_content (cm_content m) (cm_content n)\<rparr> # ms)
      else m # coalesce_users (n # ms))"
| "coalesce_users ms = ms"

definition add_message ::
  "conversion_env \<Rightarrow> replay_mode \<Rightarrow> anthropic_message \<Rightarrow> history_ledger \<Rightarrow> conversion_error + history_ledger" where
  "add_message env mode msg h =
     (case (am_role msg, am_content msg) of
        (User, Content_Blocks blocks) \<Rightarrow> add_user_blocks env blocks h
      | _ \<Rightarrow>
          bind_result (convert_to_segments env mode msg) (\<lambda>segs.
            fold (\<lambda>s r. bind_result r
                    (case s of Plain_Segment ms \<Rightarrow> add_plain env ms | Turn_Segment t \<Rightarrow> add_tool_turn env t))
              segs (Inr h)))"

fun add_messages ::
  "conversion_env \<Rightarrow> replay_mode \<Rightarrow> anthropic_message list \<Rightarrow> history_ledger \<Rightarrow> conversion_error + history_ledger" where
  "add_messages env mode [] h = Inr h"
| "add_messages env mode (msg # msgs) h = bind_result (add_message env mode msg h) (add_messages env mode msgs)"

definition convert_messages ::
  "conversion_env \<Rightarrow> replay_mode \<Rightarrow> anthropic_message list \<Rightarrow> conversion_error + openai_message list" where
  "convert_messages env mode msgs =
     bind_result (add_messages env mode msgs new_history) (\<lambda>h.
       bind_result (finish_history env h) (\<lambda>out. Inr (coalesce_users (close_tool_turns out))))"

section \<open>Tools, tool choice, system prompt and the request body\<close>

record anthropic_tool =
  at_name :: string
  at_description :: "string option"
  at_schema :: "(string, json) dict option"

record chat_tool =
  ct_name :: string
  ct_description :: string
  ct_parameters :: "(string, json) dict"

definition tool_input_schema :: "anthropic_tool \<Rightarrow> (string, json) dict" where
  "tool_input_schema t =
     (case at_schema t of Some s \<Rightarrow> s | None \<Rightarrow> [(''type'', JStr ''object''), (''properties'', JObj [])])"

definition convert_tools :: "anthropic_tool list \<Rightarrow> chat_tool list" where
  "convert_tools tools =
     map (\<lambda>t. \<lparr>ct_name = at_name t, ct_description = (case at_description t of None \<Rightarrow> [] | Some d \<Rightarrow> d),
               ct_parameters = tool_input_schema t\<rparr>) tools"

text \<open>Python's truth of a decoded value.\<close>

fun json_true :: "json \<Rightarrow> bool" where
  "json_true JNull \<longleftrightarrow> False"
| "json_true (JBool b) \<longleftrightarrow> b"
| "json_true (JInt i) \<longleftrightarrow> i \<noteq> 0"
| "json_true (JFloat t) \<longleftrightarrow> t \<notin> {''0.0'', ''-0.0''}"
| "json_true (JStr s) \<longleftrightarrow> s \<noteq> []"
| "json_true (JArr xs) \<longleftrightarrow> xs \<noteq> []"
| "json_true (JObj d) \<longleftrightarrow> d \<noteq> []"

text \<open>Python tests membership in a set, which an unhashable type raises on.\<close>

definition convert_tool_choice :: "(string, json) dict \<Rightarrow> conversion_error + json" where
  "convert_tool_choice choice =
     (let kind = jget choice ''type''; name = jget choice ''name'' in
      if kind = JStr ''tool'' \<and> json_true name then
        Inr (JObj [(''type'', JStr ''function''), (''function'', JObj [(''name'', name)])])
      else if kind = JStr ''any'' then Inr (JStr ''required'')
      else (case kind of
              JArr _ \<Rightarrow> Inl (Unhashable_Choice kind)
            | JObj _ \<Rightarrow> Inl (Unhashable_Choice kind)
            | _ \<Rightarrow> Inr (if kind \<in> {JStr ''auto'', JStr ''none'', JStr ''required''} then kind else JObj choice)))"

definition resolve_tool_choice ::
  "anthropic_tool list option \<Rightarrow> (string, json) dict option \<Rightarrow> (string, json) dict option" where
  "resolve_tool_choice tools choice =
     (case choice of
        Some c \<Rightarrow> Some c
      | None \<Rightarrow> (case tools of Some (t # ts) \<Rightarrow> Some [(''type'', JStr ''auto'')] | _ \<Rightarrow> None))"

definition convert_system_prompt :: "message_content \<Rightarrow> conversion_error + openai_message option" where
  "convert_system_prompt sys =
     bind_result (system_text sys) (\<lambda>t.
       Inr (map_option (\<lambda>s. chat ''system'' (Chat_Text (case sys of Content_Blocks _ \<Rightarrow> py_strip s | _ \<Rightarrow> s))) t))"

record messages_request =
  mr_model :: string
  mr_messages :: "anthropic_message list"
  mr_system :: "message_content option"
  mr_max_tokens :: "int option"
  mr_temperature :: "json option"
  mr_top_p :: "json option"
  mr_stop :: "string list option"
  mr_tools :: "anthropic_tool list option"
  mr_tool_choice :: "(string, json) dict option"
  mr_extra :: "string list"

record chat_body =
  cb_model :: string
  cb_messages :: "openai_message list"
  cb_max_tokens :: "int option"
  cb_temperature :: "json option"
  cb_top_p :: "json option"
  cb_stop :: "string list option"
  cb_tools :: "chat_tool list option"
  cb_tool_choice :: "json option"

definition content_given :: "message_content \<Rightarrow> bool" where
  "content_given c = (case c of Content_Text s \<Rightarrow> s \<noteq> [] | Content_Blocks bs \<Rightarrow> bs \<noteq> [])"

definition given :: "'a list option \<Rightarrow> 'a list option" where
  "given x = (case x of Some (a # as) \<Rightarrow> Some (a # as) | _ \<Rightarrow> None)"

definition build_base_request_body ::
  "conversion_env \<Rightarrow> int option \<Rightarrow> replay_mode \<Rightarrow> messages_request \<Rightarrow> conversion_error + chat_body" where
  "build_base_request_body env default_max_tokens mode req =
     (if mr_extra req \<noteq> [] then Inl (Unsupported_Fields (mr_extra req))
      else
        bind_result (convert_messages env mode (mr_messages req)) (\<lambda>msgs.
          bind_result
            (case mr_system req of
               None \<Rightarrow> Inr None
             | Some sys \<Rightarrow> if content_given sys then convert_system_prompt sys else Inr None)
            (\<lambda>sys.
              bind_result
                (case given (resolve_tool_choice (mr_tools req) (mr_tool_choice req)) of
                   None \<Rightarrow> Inr None
                 | Some choice \<Rightarrow> bind_result (convert_tool_choice choice) (\<lambda>c. Inr (Some c)))
                (\<lambda>choice.
                  Inr \<lparr>cb_model = mr_model req,
                       cb_messages = (case sys of None \<Rightarrow> msgs | Some m \<Rightarrow> m # msgs),
                       cb_max_tokens = (case mr_max_tokens req of
                                          Some n \<Rightarrow> if n = 0 then default_max_tokens else Some n
                                        | None \<Rightarrow> default_max_tokens),
                       cb_temperature = mr_temperature req, cb_top_p = mr_top_p req,
                       cb_stop = given (mr_stop req),
                       cb_tools = map_option convert_tools (given (mr_tools req)),
                       cb_tool_choice = choice\<rparr>))))"

end
