(* ===== verification/Conversion_Order.thy ===== *)
theory Conversion_Order
  imports Conversion
begin

text \<open>
  The order of a converted history: each assistant message with tool calls is followed at once
  by their results, no tool call is lost, and roles alternate as OpenAI chat templates want.
\<close>

section \<open>Answered histories\<close>

definition call_ids :: "openai_message \<Rightarrow> string list" where
  "call_ids m = (case cm_tool_calls m of None \<Rightarrow> [] | Some cs \<Rightarrow> tool_call_ids cs)"

definition is_result :: "string \<Rightarrow> openai_message \<Rightarrow> bool" where
  "is_result i m \<longleftrightarrow> cm_role m = ''tool'' \<and> cm_tool_id m = Some i"

fun answered :: "openai_message list \<Rightarrow> bool" where
  "answered [] \<longleftrightarrow> True"
| "answered (m # ms) \<longleftrightarrow>
     list_all2 is_result (call_ids m) (take (length (call_ids m)) ms) \<and>
     (cm_role m = ''assistant'' \<or> cm_tool_calls m = None) \<and> answered ms"

lemma answered_append: "answered xs \<Longrightarrow> answered ys \<Longrightarrow> answered (xs @ ys)"
proof (induction xs)
  case (Cons x xs)
  then have "length (call_ids x) \<le> length xs" by (auto dest: list_all2_lengthD)
  with Cons show ?case by simp
qed simp

definition quiet :: "openai_message \<Rightarrow> bool" where
  "quiet m \<longleftrightarrow> cm_tool_calls m = None"

lemma quiet_call_ids [simp]: "quiet m \<Longrightarrow> call_ids m = []"
  by (simp add: quiet_def call_ids_def)

lemma quiet_answered: "list_all quiet ms \<Longrightarrow> answered ms"
  by (induction ms) (auto simp: quiet_def call_ids_def)

lemma answered_quiet: "answered ms \<Longrightarrow> m \<in> set ms \<Longrightarrow> cm_role m \<noteq> ''assistant'' \<Longrightarrow> quiet m"
  by (induction ms) (auto simp: quiet_def)

lemma quiet_ids: "list_all quiet ms \<Longrightarrow> concat (map call_ids ms) = []"
  by (induction ms) auto

lemma turn_answered:
  assumes "list_all2 is_result (call_ids m) rs" "list_all quiet rs" "list_all quiet ds" "cm_role m = ''assistant''"
  shows "answered (m # rs @ ds)"
  using assms quiet_answered [of "rs @ ds"] by (simp add: list_all2_lengthD [OF assms(1)])

section \<open>Messages without tool calls\<close>

lemma chat_quiet [simp]: "quiet (chat role c)" "quiet (tool_message i t)" "quiet turn_boundary"
  by (simp_all add: quiet_def chat_def tool_message_def turn_boundary_def)

lemma set_replayed_reasoning_calls [simp]: "cm_tool_calls (set_replayed_reasoning r mode m) = cm_tool_calls m"
  by (simp add: set_replayed_reasoning_def split: option.split)

lemma assistant_block_calls:
  "assistant_block env r mode b p = Inr q \<Longrightarrow> \<not> is_tool_use b \<Longrightarrow> ap_calls q = ap_calls p"
  by (cases b) (auto simp: assistant_block_def forbidden_assistant_block_def split: if_splits option.splits)

lemma assistant_blocks_calls:
  "assistant_blocks env r mode bs p = Inr q \<Longrightarrow> list_all (\<lambda>b. \<not> is_tool_use b) bs \<Longrightarrow> ap_calls q = ap_calls p"
proof (induction bs arbitrary: p)
  case (Cons b bs)
  then show ?case by (auto simp: bind_result_Inr_iff dest: assistant_block_calls)
qed simp

lemma convert_assistant_quiet:
  assumes "convert_assistant_message env r mode bs = Inr m" "list_all (\<lambda>b. \<not> is_tool_use b) bs"
  shows "quiet m"
  using assms assistant_blocks_calls
  by (fastforce simp: convert_assistant_message_def bind_result_Inr_iff quiet_def chat_def Let_def split: if_splits option.splits)

lemma set_replayed_reasoning_role [simp]: "cm_role (set_replayed_reasoning r mode m) = cm_role m"
  by (simp add: set_replayed_reasoning_def split: option.split)

lemma chat_role [simp]: "cm_role (chat role c) = role" "cm_tool_calls (chat role c) = None"
  by (simp_all add: chat_def)

lemma convert_assistant_role: "convert_assistant_message env reasoning mode bs = Inr m \<Longrightarrow> cm_role m = ''assistant''"
  by (auto simp: convert_assistant_message_def bind_result_Inr_iff Let_def split: if_splits option.splits)

lemma user_blocks_quiet:
  "user_blocks env bs parts result = Inr ms \<Longrightarrow> list_all quiet result \<Longrightarrow> list_all quiet ms"
  by (induction env bs parts result rule: user_blocks.induct)
    (auto simp: flush_content_def result_message_def bind_result_Inr_iff)

lemma convert_user_quiet: "convert_user_message env bs = Inr ms \<Longrightarrow> list_all quiet ms"
  unfolding convert_user_message_def by (erule user_blocks_quiet) simp

section \<open>The ledger\<close>

fun segment_ok :: "segment \<Rightarrow> bool" where
  "segment_ok (Plain_Segment ms) \<longleftrightarrow> list_all quiet ms"
| "segment_ok (Turn_Segment t) \<longleftrightarrow> call_ids (tt_message t) = tt_ids t \<and> cm_role (tt_message t) = ''assistant'' \<and>
     list_all (\<lambda>b. \<not> is_tool_use b) (tt_deferred t)"

fun emitted :: "segment \<Rightarrow> bool" where
  "emitted (Plain_Segment ms) \<longleftrightarrow> False"
| "emitted (Turn_Segment t) \<longleftrightarrow> tt_emitted t"

definition results_ok :: "(string, openai_message) dict \<Rightarrow> bool" where
  "results_ok rs \<longleftrightarrow> (\<forall>i m. dget rs i = Some m \<longrightarrow> is_result i m \<and> quiet m)"

text \<open>The messages so far are answered, but for the last one when its results are awaited.\<close>

definition output_ok :: "segment list \<Rightarrow> openai_message list \<Rightarrow> bool" where
  "output_ok segs out \<longleftrightarrow>
     (case segs of
        Turn_Segment t # _ \<Rightarrow>
          if tt_emitted t then (\<exists>base. out = base @ [tt_message t] \<and> answered base) else answered out
      | _ \<Rightarrow> answered out) \<and>
     list_all (\<lambda>s. \<not> emitted s) (tl segs)"

definition unsent_ids :: "segment \<Rightarrow> string list" where
  "unsent_ids s = (if emitted s then [] else pending_ids s)"

definition all_ids :: "openai_message list \<Rightarrow> segment list \<Rightarrow> string list" where
  "all_ids out segs = concat (map call_ids out) @ concat (map unsent_ids segs)"

definition history_ok :: "string list \<Rightarrow> history_ledger \<Rightarrow> bool" where
  "history_ok ids h \<longleftrightarrow> list_all segment_ok (hl_segments h) \<and> results_ok (hl_results h) \<and>
     output_ok (hl_segments h) (hl_output h) \<and> all_ids (hl_output h) (hl_segments h) = ids"

lemma results_ok_pop: "results_ok rs \<Longrightarrow> results_ok (dpop i rs)"
  by (auto simp: results_ok_def delete_conv' split: if_splits)

lemma pop_results_ok:
  "pop_results ids rs = Inr (ms, rs') \<Longrightarrow> results_ok rs \<Longrightarrow>
     list_all2 is_result ids ms \<and> list_all quiet ms \<and> results_ok rs'"
proof (induction ids arbitrary: rs ms)
  case (Cons i ids)
  obtain m ms' where m: "dget rs i = Some m" "pop_results ids (dpop i rs) = Inr (ms', rs')" "ms = m # ms'"
    using Cons.prems(1) by (auto simp: bind_result_Inr_iff split: option.splits)
  from Cons.IH [OF m(2) results_ok_pop [OF Cons.prems(2)]] m(1,3) Cons.prems(2)
  show ?case by (simp add: results_ok_def)
qed simp

lemma deferred_quiet:
  "deferred_messages env t = Inr ds \<Longrightarrow> list_all (\<lambda>b. \<not> is_tool_use b) (tt_deferred t) \<Longrightarrow> list_all quiet ds"
  by (auto simp: deferred_messages_def bind_result_Inr_iff dest: convert_assistant_quiet split: if_splits)

lemma output_ok_plain: "list_all (\<lambda>s. \<not> emitted s) segs \<Longrightarrow> output_ok segs out \<longleftrightarrow> answered out"
  by (cases segs) (auto simp: output_ok_def split: segment.split)

text \<open>Draining keeps all this, and stops only at a turn that misses a result.\<close>

lemma drain_ok:
  assumes "drain_segments env segs out rs = Inr h" "list_all segment_ok segs" "results_ok rs" "output_ok segs out"
  shows "history_ok (all_ids out segs) h \<and>
    (hl_segments h = [] \<or> (\<exists>t rest. hl_segments h = Turn_Segment t # rest \<and> (\<exists>i \<in> set (tt_ids t). dget (hl_results h) i = None)))"
  using assms
proof (induction env segs out rs rule: drain_segments.induct)
  case (1 env out results)
  then show ?case by (auto simp: history_ok_def)
next
  case (2 env ms segs out results)
  have q: "list_all quiet ms" "list_all segment_ok segs" "list_all (\<lambda>s. \<not> emitted s) segs" "answered out"
    using "2.prems" by (auto simp: output_ok_def)
  then have "output_ok segs (out @ ms)" by (simp add: output_ok_plain answered_append quiet_answered)
  moreover have "all_ids out (Plain_Segment ms # segs) = all_ids (out @ ms) segs"
    by (simp add: all_ids_def unsent_ids_def quiet_ids [OF q(1)])
  ultimately show ?case using "2.IH" "2.prems"(1,3) q(2) by simp
next
  case (3 env t segs out results)
  let ?out = "if tt_emitted t then out else out @ [tt_message t]" and ?t = "t\<lparr>tt_emitted := True\<rparr>"
  have t: "call_ids (tt_message t) = tt_ids t" "cm_role (tt_message t) = ''assistant''" "list_all (\<lambda>b. \<not> is_tool_use b) (tt_deferred t)" "list_all segment_ok segs"
    using "3.prems"(2) by simp_all
  obtain base where base: "?out = base @ [tt_message t]" "answered base" "list_all (\<lambda>s. \<not> emitted s) segs"
    using "3.prems"(4) by (auto simp: output_ok_def split: if_splits)
  have ids: "all_ids out (Turn_Segment t # segs) = concat (map call_ids ?out) @ concat (map unsent_ids segs)"
    using t(1) by (simp add: all_ids_def unsent_ids_def)
  show ?case
  proof (cases "list_ex (\<lambda>i. dget results i = None) (tt_ids t)")
    case True
    then have h: "h = \<lparr>hl_output = ?out, hl_segments = Turn_Segment ?t # segs, hl_results = results\<rparr>"
      using "3.prems"(1) by (simp add: Let_def split: if_splits)
    have "history_ok (all_ids out (Turn_Segment t # segs)) h"
      unfolding history_ok_def h ids using t base "3.prems"(3) by (auto simp: output_ok_def all_ids_def unsent_ids_def)
    then show ?thesis using True by (auto simp: h list_ex_iff)
  next
    case False
    then obtain ms rs' ds where r: "pop_results (tt_ids t) results = Inr (ms, rs')" "deferred_messages env ?t = Inr ds"
      "drain_segments env segs (?out @ ms @ ds) rs' = Inr h"
      using "3.prems"(1) by (auto simp: Let_def bind_result_Inr_iff)
    note p = pop_results_ok [OF r(1) "3.prems"(3)]
    have ds: "list_all quiet ds" using deferred_quiet [OF r(2)] t(3) by simp
    have "answered (tt_message t # ms @ ds)" using turn_answered [of "tt_message t" ms ds] p ds t(1,2) by simp
    from answered_append [OF base(2) this] have "output_ok segs (?out @ ms @ ds)"
      using base(1,3) by (simp add: output_ok_plain)
    moreover have "all_ids (?out @ ms @ ds) segs = all_ids out (Turn_Segment t # segs)"
      unfolding ids using p ds by (simp add: all_ids_def quiet_ids)
    ultimately show ?thesis
      using "3.IH" [OF refl refl _ r(3)] False t(4) p by simp
  qed
qed

section \<open>Adding messages\<close>

lemma history_okD:
  assumes "history_ok ids h"
  shows "list_all segment_ok (hl_segments h)" "results_ok (hl_results h)" "output_ok (hl_segments h) (hl_output h)"
    "all_ids (hl_output h) (hl_segments h) = ids"
  using assms by (simp_all add: history_ok_def)

lemma drain_ready_ok: "drain_ready env h = Inr h' \<Longrightarrow> history_ok ids h \<Longrightarrow> history_ok ids h'"
  using drain_ok [of env "hl_segments h" "hl_output h" "hl_results h" h'] history_okD [of ids h]
  by (auto simp: drain_ready_def)

lemma output_ok_snoc: "output_ok segs out \<Longrightarrow> \<not> emitted s \<Longrightarrow> output_ok (segs @ [s]) out"
  by (cases segs) (auto simp: output_ok_def split: segment.splits)

lemma add_segment_ok:
  assumes "add_segment env s h = Inr h'" "history_ok ids h" "segment_ok s" "\<not> emitted s"
  shows "history_ok (ids @ pending_ids s) h'"
proof -
  let ?h = "h\<lparr>hl_segments := hl_segments h @ [s]\<rparr>"
  have "history_ok (ids @ pending_ids s) ?h"
    using history_okD [OF assms(2)] assms(3,4) output_ok_snoc
    by (auto simp: history_ok_def all_ids_def unsent_ids_def)
  then show ?thesis using drain_ready_ok assms(1) by (auto simp: add_segment_def)
qed

lemma add_plain_ok:
  "add_plain env ms h = Inr h' \<Longrightarrow> history_ok ids h \<Longrightarrow> list_all quiet ms \<Longrightarrow> history_ok ids h'"
  using add_segment_ok [of env "Plain_Segment ms" h h' ids] by (auto simp: add_plain_def split: if_splits)

lemma add_text_ok: "add_text_blocks env bs h = Inr h' \<Longrightarrow> history_ok ids h \<Longrightarrow> history_ok ids h'"
  by (auto simp: add_text_blocks_def bind_result_Inr_iff dest: convert_user_quiet intro: add_plain_ok split: if_splits)

lemma result_message_ok: "is_result tid (result_message env tid c)" "quiet (result_message env tid c)"
  by (simp_all add: is_result_def result_message_def tool_message_def chat_def quiet_def)

lemma record_result_ok: "record_tool_result env tid c h = Inr h' \<Longrightarrow> history_ok ids h \<Longrightarrow> history_ok ids h'"
proof -
  assume r: "record_tool_result env tid c h = Inr h'" and ok: "history_ok ids h"
  consider "tid = []" | "tid \<noteq> []" "has_pending_tool_id tid h" | "tid \<noteq> []" "\<not> has_pending_tool_id tid h" by blast
  then show "history_ok ids h'"
  proof cases
    case 1
    then show ?thesis using r ok
      by (auto simp: record_tool_result_def bind_result_Inr_iff dest: convert_user_quiet intro: add_plain_ok)
  next
    case 2
    then have "h' = h\<lparr>hl_results := dset tid (result_message env tid c) (hl_results h)\<rparr>"
      using r by (simp add: record_tool_result_def)
    moreover have "results_ok (dset tid (result_message env tid c) (hl_results h))"
      using history_okD(2) [OF ok] result_message_ok by (auto simp: results_ok_def update_conv')
    ultimately show ?thesis using ok by (simp add: history_ok_def)
  next
    case 3
    then show ?thesis using r ok add_plain_ok result_message_ok(2) by (fastforce simp: record_tool_result_def)
  qed
qed

lemma add_user_loop_ok: "add_user_loop env bs texts h = Inr h' \<Longrightarrow> history_ok ids h \<Longrightarrow> history_ok ids h'"
proof (induction env bs texts h rule: add_user_loop.induct)
  case (2 env tid c bs texts h)
  from "2.prems"(1) obtain h1 h2 where r: "add_text_blocks env texts h = Inr h1" "record_tool_result env tid c h1 = Inr h2"
    "add_user_loop env bs [] h2 = Inr h'" by (auto simp: bind_result_Inr_iff)
  from "2.IH" [OF r(3)] record_result_ok [OF r(2) add_text_ok [OF r(1) "2.prems"(2)]] show ?case by blast
qed (auto simp: bind_result_Inr_iff dest: add_text_ok drain_ready_ok)

text \<open>The tool calls of a request, in order, and those of one message.\<close>

definition message_ids :: "conversion_env \<Rightarrow> anthropic_message \<Rightarrow> string list" where
  "message_ids env msg =
     (case (am_role msg, am_content msg) of
        (Assistant, Content_Blocks bs) \<Rightarrow> tool_call_ids (concat (map (tool_call_from_tool_use (ce_dumps env)) bs))
      | _ \<Rightarrow> [])"

lemma no_tool_calls: "list_all (\<lambda>b. \<not> is_tool_use b) bs \<Longrightarrow> concat (map (tool_call_from_tool_use d) bs) = []"
proof (induction bs)
  case (Cons b bs)
  then show ?case by (cases b) auto
qed simp

lemma convert_split_ok:
  assumes "convert_assistant_split env r mode bs = Inr t"
  shows "segment_ok (Turn_Segment t) \<and> \<not> tt_emitted t \<and>
    tt_ids t = tool_call_ids (concat (map (tool_call_from_tool_use (ce_dumps env)) bs))"
  using assms
  by (auto simp: convert_assistant_split_def bind_result_Inr_iff Let_def call_ids_def list_all_iff
      dest: convert_assistant_role split: if_splits option.splits)

lemma convert_segments_ok:
  assumes "convert_to_segments env mode msg = Inr segs" "am_role msg \<noteq> User \<or> (\<exists>t. am_content msg = Content_Text t)"
  shows "\<exists>s. segs = [s] \<and> segment_ok s \<and> \<not> emitted s \<and> pending_ids s = message_ids env msg"
proof (cases "am_role msg")
  case System
  then show ?thesis using assms(1)
    by (auto simp: convert_to_segments_def bind_result_Inr_iff message_ids_def split: option.splits)
next
  case User
  then show ?thesis using assms
    by (auto simp: convert_to_segments_def message_ids_def convert_text_message_def quiet_def chat_def Let_def split: option.splits)
next
  case Assistant
  show ?thesis
  proof (cases "am_content msg")
    case (Content_Text t)
    then show ?thesis using assms(1) Assistant
      by (auto simp: convert_to_segments_def message_ids_def convert_text_message_def quiet_def chat_def Let_def split: option.splits)
  next
    case (Content_Blocks bs)
    show ?thesis
    proof (cases "list_ex is_tool_use bs")
      case True
      then show ?thesis using assms(1) Assistant Content_Blocks
        by (auto simp: convert_to_segments_def bind_result_Inr_iff message_ids_def dest: convert_split_ok)
    next
      case False
      then have no: "list_all (\<lambda>b. \<not> is_tool_use b) bs" by (auto simp: list_ex_iff list_all_iff)
      then show ?thesis using assms(1) Assistant Content_Blocks False no_tool_calls [OF no]
        by (auto simp: convert_to_segments_def bind_result_Inr_iff message_ids_def tool_call_ids_def dest: convert_assistant_quiet)
    qed
  qed
qed

lemma add_message_ok:
  assumes r: "add_message env mode msg h = Inr h'" and ok: "history_ok ids h"
  shows "history_ok (ids @ message_ids env msg) h'"
proof (cases "am_role msg = User \<and> (\<exists>bs. am_content msg = Content_Blocks bs)")
  case True
  then obtain bs where "am_role msg = User" "am_content msg = Content_Blocks bs" by blast
  with r ok add_user_loop_ok show ?thesis
    by (fastforce simp: add_message_def add_user_blocks_def message_ids_def)
next
  case False
  then have plain: "am_role msg \<noteq> User \<or> (\<exists>t. am_content msg = Content_Text t)" by (cases "am_content msg") auto
  with r obtain segs where segs: "convert_to_segments env mode msg = Inr segs"
    "fold (\<lambda>s r. bind_result r (case s of Plain_Segment ms \<Rightarrow> add_plain env ms | Turn_Segment t \<Rightarrow> add_tool_turn env t))
       segs (Inr h) = Inr h'"
    by (auto simp: add_message_def bind_result_Inr_iff split: message_role.splits message_content.splits)
  obtain s where s: "segs = [s]" "segment_ok s" "\<not> emitted s" "pending_ids s = message_ids env msg"
    using convert_segments_ok [OF segs(1) plain] by blast
  show ?thesis
  proof (cases s)
    case (Plain_Segment ms)
    with segs(2) s ok add_plain_ok show ?thesis by fastforce
  next
    case (Turn_Segment t)
    with segs(2) s have "add_segment env s h = Inr h'" by (simp add: add_tool_turn_def)
    from add_segment_ok [OF this ok s(2,3)] show ?thesis by (simp add: s(4))
  qed
qed

lemma add_messages_ok:
  "add_messages env mode msgs h = Inr h' \<Longrightarrow> history_ok ids h \<Longrightarrow>
     history_ok (ids @ concat (map (message_ids env) msgs)) h'"
proof (induction msgs arbitrary: h ids)
  case (Cons msg msgs)
  obtain h1 where "add_message env mode msg h = Inr h1" "add_messages env mode msgs h1 = Inr h'"
    using Cons.prems(1) by (auto simp: bind_result_Inr_iff)
  with Cons.IH add_message_ok [OF _ Cons.prems(2)] show ?case by fastforce
qed simp

lemma finish_history_ok:
  assumes "finish_history env h = Inr out" "history_ok ids h"
  shows "answered out \<and> concat (map call_ids out) = ids"
proof -
  obtain h' where h': "drain_ready env h = Inr h'" "missing_required_ids h' = []"
    "emit_segments env (hl_segments h') (hl_output h') (hl_results h') = Inr out"
    using assms(1) by (auto simp: finish_history_def bind_result_Inr_iff split: if_splits)
  have ok: "history_ok ids h'" using drain_ready_ok h'(1) assms(2) by blast
  have "hl_segments h' = [] \<or> (\<exists>t rest. hl_segments h' = Turn_Segment t # rest \<and> (\<exists>i \<in> set (tt_ids t). dget (hl_results h') i = None))"
    using drain_ok [of env "hl_segments h" "hl_output h" "hl_results h" h'] h'(1) history_okD [OF assms(2)]
    by (auto simp: drain_ready_def)
  with h'(2) have "hl_segments h' = []" by (force simp: missing_required_ids_def filter_empty_conv)
  with h'(3) ok show ?thesis by (auto simp: history_ok_def output_ok_def all_ids_def)
qed

section \<open>Closing and merging\<close>

lemma take_close_tools:
  "k \<le> length ms \<Longrightarrow> list_all (\<lambda>m. cm_role m = ''tool'') (take k ms) \<Longrightarrow> take k (close_tool_turns ms) = take k ms"
proof (induction ms arbitrary: k rule: close_tool_turns.induct)
  case (1 m n ms)
  show ?case
  proof (cases k)
    case (Suc j)
    show ?thesis
    proof (cases j)
      case (Suc i)
      with "1.prems" \<open>k = Suc j\<close> have "cm_role n \<noteq> ''user''" by simp
      with "1.IH"(2) [of j] "1.prems" \<open>k = Suc j\<close> show ?thesis by simp
    qed (use \<open>k = Suc j\<close> in simp)
  qed simp
qed auto

lemma results_are_tools: "list_all2 is_result ids ms \<Longrightarrow> list_all (\<lambda>m. cm_role m = ''tool'') ms"
  by (induction rule: list_all2_induct) (auto simp: is_result_def)

lemma close_answered: "answered ms \<Longrightarrow> answered (close_tool_turns ms) \<and> concat (map call_ids (close_tool_turns ms)) = concat (map call_ids ms)"
proof (induction ms rule: close_tool_turns.induct)
  case (1 m n ms)
  let ?k = "length (call_ids m)"
  have r: "list_all2 is_result (call_ids m) (take ?k (n # ms))" "answered (n # ms)" using "1.prems" by simp_all
  have len: "?k \<le> length (n # ms)" using list_all2_lengthD [OF r(1)] by simp
  have same: "take ?k (close_tool_turns (n # ms)) = take ?k (n # ms)"
    by (rule take_close_tools [OF len results_are_tools [OF r(1)]])
  show ?case
  proof (cases "cm_role n = ''user'' \<and> cm_role m = ''tool''")
    case True
    have "?k = 0"
    proof (rule ccontr)
      assume "?k \<noteq> 0"
      then obtain i js where "call_ids m = i # js" by (cases "call_ids m") auto
      with r(1) True show False by (simp add: is_result_def)
    qed
    moreover have "quiet m" using answered_quiet [OF "1.prems", of m] True by simp
    ultimately show ?thesis using True "1.IH"(1) [OF True] r by (simp add: quiet_def turn_boundary_def)
  next
    case False
    with "1.IH"(2) [OF False] r same "1.prems" show ?thesis
      unfolding close_tool_turns.simps(1) if_not_P [OF False] by simp
  qed
qed auto

lemma merged_ids [simp]: "call_ids (m\<lparr>cm_content := c\<rparr>) = call_ids m"
  by (simp add: call_ids_def)

lemma take_coalesce_tools:
  "k \<le> length ms \<Longrightarrow> list_all (\<lambda>m. cm_role m = ''tool'') (take k ms) \<Longrightarrow> take k (coalesce_users ms) = take k ms"
proof (induction ms arbitrary: k rule: coalesce_users.induct)
  case (1 m n ms)
  show ?case
  proof (cases k)
    case (Suc j)
    with "1.prems" have "cm_role m \<noteq> ''user''" by simp
    with "1.IH"(2) [of j] "1.prems" Suc show ?thesis by simp
  qed simp
qed auto

lemma coalesce_answered:
  "answered ms \<Longrightarrow>
     answered (coalesce_users ms) \<and> concat (map call_ids (coalesce_users ms)) = concat (map call_ids ms)"
proof (induction ms rule: coalesce_users.induct)
  case (1 m n ms)
  show ?case
  proof (cases "cm_role n = ''user'' \<and> cm_role m = ''user''")
    case True
    then have q: "quiet m" "quiet n" using "1.prems" by (simp_all add: quiet_def)
    with "1.prems" have "answered (m\<lparr>cm_content := merge_user_content (cm_content m) (cm_content n)\<rparr> # ms)" by simp
    from "1.IH"(1) [OF True this] True q show ?thesis by simp
  next
    case False
    let ?k = "length (call_ids m)"
    have r: "list_all2 is_result (call_ids m) (take ?k (n # ms))" using "1.prems" by simp
    have len: "?k \<le> length (n # ms)" using list_all2_lengthD [OF r] by simp
    have "take ?k (coalesce_users (n # ms)) = take ?k (n # ms)"
      by (rule take_coalesce_tools [OF len results_are_tools [OF r]])
    with "1.IH"(2) [OF False] "1.prems" r show ?thesis
      unfolding coalesce_users.simps(1) if_not_P [OF False] by simp
  qed
qed auto

text \<open>No user message after a tool message or after another user message.\<close>

fun turns_alternate :: "openai_message list \<Rightarrow> bool" where
  "turns_alternate (m # n # ms) \<longleftrightarrow>
     \<not> (cm_role n = ''user'' \<and> (cm_role m = ''tool'' \<or> cm_role m = ''user'')) \<and> turns_alternate (n # ms)"
| "turns_alternate _ \<longleftrightarrow> True"

fun turns_closed :: "openai_message list \<Rightarrow> bool" where
  "turns_closed (m # n # ms) \<longleftrightarrow> \<not> (cm_role n = ''user'' \<and> cm_role m = ''tool'') \<and> turns_closed (n # ms)"
| "turns_closed _ \<longleftrightarrow> True"

lemma close_head: "\<exists>rest. close_tool_turns (m # ms) = m # rest"
  by (cases ms) auto

lemma close_closed: "turns_closed (close_tool_turns ms)"
proof (induction ms rule: close_tool_turns.induct)
  case (1 m n ms)
  obtain rest where "close_tool_turns (n # ms) = n # rest" using close_head by blast
  with 1 show ?case by (auto simp: turn_boundary_def chat_def)
qed auto

lemma coalesce_head: "\<exists>c rest. coalesce_users (m # ms) = m\<lparr>cm_content := c\<rparr> # rest"
proof (induction ms arbitrary: m)
  case Nil
  show ?case by (auto intro: exI [of _ "cm_content m"])
next
  case (Cons n ms)
  show ?case
  proof (cases "cm_role n = ''user'' \<and> cm_role m = ''user''")
    case True
    obtain c rest where "coalesce_users (m\<lparr>cm_content := merge_user_content (cm_content m) (cm_content n)\<rparr> # ms) =
      m\<lparr>cm_content := merge_user_content (cm_content m) (cm_content n)\<rparr>\<lparr>cm_content := c\<rparr> # rest"
      using Cons.IH by blast
    with True show ?thesis by auto
  qed (auto intro: exI [of _ "cm_content m"])
qed

lemma coalesce_alternate: "turns_closed ms \<Longrightarrow> turns_alternate (coalesce_users ms)"
proof (induction ms rule: coalesce_users.induct)
  case (1 m n ms)
  show ?case
  proof (cases "cm_role n = ''user'' \<and> cm_role m = ''user''")
    case True
    then have "turns_closed (m\<lparr>cm_content := merge_user_content (cm_content m) (cm_content n)\<rparr> # ms)"
      using "1.prems" by (cases ms) auto
    with "1.IH"(1) [OF True] True show ?thesis by simp
  next
    case False
    obtain c rest where "coalesce_users (n # ms) = n\<lparr>cm_content := c\<rparr> # rest" using coalesce_head by blast
    with "1.IH"(2) [OF False] "1.prems" False show ?thesis by auto
  qed
qed auto

end
