(* ===== verification/Conversion_Properties.thy ===== *)
theory Conversion_Properties
  imports Conversion_Order
begin

text \<open>
  What the chat history handed to an OpenAI-compatible provider keeps of the Anthropic
  conversation, and an example.
\<close>

lemma new_history_ok: "history_ok [] new_history"
  by (simp add: history_ok_def new_history_def results_ok_def output_ok_def all_ids_def)

text \<open>
  C40. When the conversion succeeds, every assistant message with tool calls is followed at once by
  exactly the results of its calls, in the order of the calls; no message of another role carries
  tool calls; no user message follows a tool message or another user message; and the tool calls of
  the request all appear, in their order.
\<close>

theorem converted_history_is_answered:
  assumes "convert_messages env mode msgs = Inr out"
  shows "answered out \<and> turns_alternate out \<and> concat (map call_ids out) = concat (map (message_ids env) msgs)"
proof -
  obtain h ms where h: "add_messages env mode msgs new_history = Inr h" "finish_history env h = Inr ms"
    "out = coalesce_users (close_tool_turns ms)"
    using assms by (auto simp: convert_messages_def bind_result_Inr_iff)
  have "history_ok (concat (map (message_ids env) msgs)) h" using add_messages_ok [OF h(1) new_history_ok] by simp
  from finish_history_ok [OF h(2) this] close_answered coalesce_answered coalesce_alternate [OF close_closed]
  show ?thesis unfolding h(3) by metis
qed

section \<open>An example\<close>

definition demo_env :: conversion_env where
  "demo_env = \<lparr>ce_dumps = (\<lambda>d. ''{}''), ce_dumps_raw = (\<lambda>j. ''null''), ce_str = (\<lambda>j. ''None'')\<rparr>"

definition demo_call :: "string \<Rightarrow> content_block" where
  "demo_call i = Block_Tool_Use i ''Read'' [] None"

definition message :: "message_role \<Rightarrow> content_block list \<Rightarrow> anthropic_message" where
  "message role blocks = \<lparr>am_role = role, am_content = Content_Blocks blocks, am_reasoning = None\<rparr>"

text \<open>Two calls with text between and after them, answered in the other order and in two messages.\<close>

definition demo_conversation :: "anthropic_message list" where
  "demo_conversation =
     [message User [Block_Text ''go''],
      message Assistant [Block_Text ''now'', demo_call ''a'', Block_Text ''then'', demo_call ''b''],
      message User [Block_Tool_Result ''b'' (JStr ''2''), Block_Text ''note''],
      message User [Block_Tool_Result ''a'' (JStr ''1''), Block_Text ''more'']]"

definition demo_history :: "openai_message list" where
  "demo_history =
     [chat ''user'' (Chat_Text ''go''),
      (chat ''assistant'' (Chat_Text ''now''))
        \<lparr>cm_tool_calls := Some (map (\<lambda>i. \<lparr>tc_id = i, tc_name = ''Read'', tc_arguments = ''{}'', tc_extra = None\<rparr>) [''a'', ''b''])\<rparr>,
      tool_message ''a'' ''1'', tool_message ''b'' ''2'',
      chat ''assistant'' (Chat_Text ''then''),
      chat ''user'' (Chat_Text (''note'' @ blank_line @ ''more''))]"

lemma demo_converted: "convert_messages demo_env THINK_TAGS demo_conversation = Inr demo_history"
  by code_simp

theorem converted_history_is_answered_witness:
  "convert_messages demo_env THINK_TAGS demo_conversation = Inr demo_history \<and>
   answered demo_history \<and> concat (map call_ids demo_history) = [''a'', ''b'']"
proof -
  have "concat (map (message_ids demo_env) demo_conversation) = [''a'', ''b'']" by code_simp
  with converted_history_is_answered [OF demo_converted] demo_converted show ?thesis by simp
qed

end
