(* ===== verification/Tree_Repository.thy ===== *)
theory Tree_Repository
  imports Tree_Restore Tree_Machine
begin

text \<open>
  \<open>messaging/trees/repository.py\<close>: all conversation trees, and the index from a message of a
  chat to the tree it belongs to. Trees are mutable objects that a running task may hold after
  the repository has forgotten them, so a tree is named by its place in the manager's list of
  objects (\<open>oid\<close>), and two places are the same exactly when Python's \<open>is\<close> holds.
\<close>

type_synonym oid = nat

section \<open>The repository\<close>

record tree_repository =
  repo_trees :: "(tree_identity, oid) dict"
  repo_references :: "(message_scope \<times> string, tree_identity) dict"

definition new_repository :: tree_repository where
  "new_repository = \<lparr>repo_trees = [], repo_references = []\<rparr>"

definition get_tree :: "tree_identity \<Rightarrow> tree_repository \<Rightarrow> oid option" where
  "get_tree i r = dget (repo_trees r) i"

definition get_tree_for_reference :: "message_scope \<Rightarrow> string \<Rightarrow> tree_repository \<Rightarrow> oid option" where
  "get_tree_for_reference sc ref r =
     (case dget (repo_references r) (sc, ref) of None \<Rightarrow> None | Some i \<Rightarrow> get_tree i r)"

definition has_reference :: "message_scope \<Rightarrow> string \<Rightarrow> tree_repository \<Rightarrow> bool" where
  "has_reference sc ref r \<longleftrightarrow> dget (repo_references r) (sc, ref) \<noteq> None"

definition register_node ::
  "tree_identity \<Rightarrow> string \<Rightarrow> string \<Rightarrow> tree_repository \<Rightarrow> tree_error + tree_repository" where
  "register_node i nid status r =
     (if has_reference (identity_scope i) nid r \<or> has_reference (identity_scope i) status r
      then Inl Already_registered
      else Inr (r\<lparr>repo_references :=
             dset (identity_scope i, status) i (dset (identity_scope i, nid) i (repo_references r))\<rparr>))"

definition add_tree ::
  "tree_identity \<Rightarrow> oid \<Rightarrow> string \<Rightarrow> string \<Rightarrow> tree_repository \<Rightarrow> tree_error + tree_repository" where
  "add_tree i ob nid status r =
     (if get_tree i r \<noteq> None then Inl (Tree_exists i)
      else bind_result (register_node i nid status r) (\<lambda>r.
        Inr (r\<lparr>repo_trees := dset i ob (repo_trees r)\<rparr>)))"

text \<open>The loop over the reference ids pops the entries that belong to the tree.\<close>

definition unregister_references :: "tree_identity \<Rightarrow> string set \<Rightarrow> tree_repository \<Rightarrow> tree_repository" where
  "unregister_references i ids r =
     r\<lparr>repo_references :=
         filter (\<lambda>((sc, ref), owner). \<not> (sc = identity_scope i \<and> ref \<in> ids \<and> owner = i)) (repo_references r)\<rparr>"

definition remove_tree :: "tree_identity \<Rightarrow> tree_repository \<Rightarrow> tree_repository" where
  "remove_tree i r =
     (if get_tree i r = None then r
      else r\<lparr>repo_trees := dpop i (repo_trees r),
             repo_references := filter (\<lambda>(_, owner). owner \<noteq> i) (repo_references r)\<rparr>)"

definition repository_trees :: "tree_repository \<Rightarrow> oid list" where
  "repository_trees r = map snd (repo_trees r)"

definition tree_count :: "tree_repository \<Rightarrow> nat" where
  "tree_count r = length (repo_trees r)"

section \<open>Restoring a repository\<close>

record restored_conversations =
  rc_repository :: tree_repository
  rc_objects :: "message_tree list"
  rc_snapshot :: conversation_snapshot
  rc_stale :: "ui_target list"

definition nothing_restored :: restored_conversations where
  "nothing_restored = \<lparr>rc_repository = new_repository, rc_objects = [], rc_snapshot = [], rc_stale = []\<rparr>"

definition snapshot_references :: "(json \<Rightarrow> string) \<Rightarrow> tree_snapshot \<Rightarrow> string list" where
  "snapshot_references rp s = concat (map (node_lookup_ids rp) (snap_nodes s))"

definition publish_restored :: "message_tree \<Rightarrow> string list \<Rightarrow> restored_conversations \<Rightarrow> restored_conversations" where
  "publish_restored t refs c =
     (let i = tree_identity_of t; r = rc_repository c in
      \<lparr>rc_repository =
         \<lparr>repo_trees = dset i (length (rc_objects c)) (repo_trees r),
          repo_references = fold (\<lambda>ref. dset (identity_scope i, ref) i) refs (repo_references r)\<rparr>,
       rc_objects = rc_objects c @ [t],
       rc_snapshot = (case restored_snapshot t of None \<Rightarrow> rc_snapshot c | Some s \<Rightarrow> with_tree s (rc_snapshot c)),
       rc_stale = rc_stale c @ restored_stale_targets t\<rparr>)"

text \<open>An invalid tree, and one whose identity or messages are taken already, is skipped.\<close>

definition restore_tree ::
  "(json \<Rightarrow> string) \<Rightarrow> tree_snapshot \<Rightarrow> restored_conversations \<Rightarrow> restored_conversations option" where
  "restore_tree rp s c =
     (case tree_from_snapshot rp s of
        None \<Rightarrow> None
      | Some (Inl e) \<Rightarrow> Some c
      | Some (Inr t) \<Rightarrow>
          (let i = tree_identity_of t; refs = snapshot_references rp s in
           if get_tree i (rc_repository c) \<noteq> None \<or>
              list_ex (\<lambda>ref. has_reference (identity_scope i) ref (rc_repository c)) refs
           then Some c
           else Some (publish_restored t refs c)))"

fun restore_trees ::
  "(json \<Rightarrow> string) \<Rightarrow> tree_snapshot list \<Rightarrow> restored_conversations \<Rightarrow> restored_conversations option" where
  "restore_trees rp [] c = Some c"
| "restore_trees rp (s # ss) c =
     (case restore_tree rp s c of None \<Rightarrow> None | Some c \<Rightarrow> restore_trees rp ss c)"

definition repository_from_snapshot ::
  "(json \<Rightarrow> string) \<Rightarrow> conversation_snapshot \<Rightarrow> restored_conversations option" where
  "repository_from_snapshot rp c = restore_trees rp (map snd c) nothing_restored"

end
