(* ===== verification/Tree_Manager.thy ===== *)
theory Tree_Manager
  imports Tree_Repository
begin

text \<open>
  \<open>messaging/trees/manager.py\<close> and \<open>processor.py\<close>: the facade over all trees and the tasks that
  run their claims. Every manager operation holds the manager's lock while it touches a tree, and
  a tree's own lock is only ever taken under it, so each operation is one atomic step; what it
  awaits after giving the lock back (callbacks, the drain of a cancelled task) is another step.
  An exception leaves the changes made before it, as in \<open>Message_Tree\<close>.
\<close>

section \<open>Tasks\<close>

datatype cancellation_reason = STOP | CLEAR

text \<open>
  Where a task is: not begun, awaiting the two announcements, in the node runner, awaiting the
  failure callback, waiting to finish its claim, or cancelled before its body began.
\<close>

datatype task_phase = Waiting_Start | Announcing | Processing | Failing | Finishing | Never_Entered

record task_slot =
  slot_tree :: oid
  slot_claim :: node_claim
  slot_announce :: bool
  slot_phase :: task_phase
  slot_started :: bool
  slot_recovery :: bool
  slot_cancelled :: bool
  slot_reason :: "cancellation_reason option"
  slot_kill :: bool

datatype manager_error = Tree_Error tree_error | Task_Exists string

record tree_manager =
  m_objects :: "message_tree list"
  m_repository :: tree_repository
  m_tasks :: "(string, task_slot) dict"
  m_failures :: "manager_error list"

definition new_manager :: tree_manager where
  "new_manager = \<lparr>m_objects = [], m_repository = new_repository, m_tasks = [], m_failures = []\<rparr>"

definition on_tree ::
  "oid \<Rightarrow> (message_tree \<Rightarrow> message_tree \<times> 'r) \<Rightarrow> tree_manager \<Rightarrow> tree_manager \<times> 'r" where
  "on_tree ob f m =
     (case f (m_objects m ! ob) of (t, r) \<Rightarrow> (m\<lparr>m_objects := (m_objects m)[ob := t]\<rparr>, r))"

section \<open>The processor\<close>

definition new_slot :: "oid \<Rightarrow> node_claim \<Rightarrow> bool \<Rightarrow> task_slot" where
  "new_slot ob c announce =
     \<lparr>slot_tree = ob, slot_claim = c, slot_announce = announce, slot_phase = Waiting_Start,
      slot_started = False, slot_recovery = False, slot_cancelled = False, slot_reason = None, slot_kill = False\<rparr>"

definition launch :: "oid \<Rightarrow> node_claim \<Rightarrow> bool \<Rightarrow> tree_manager \<Rightarrow> manager_error + tree_manager" where
  "launch ob c announce m =
     (if dget (m_tasks m) (claim_id c) \<noteq> None then Inl (Task_Exists (claim_id c))
      else Inr (m\<lparr>m_tasks := dset (claim_id c) (new_slot ob c announce) (m_tasks m)\<rparr>))"

definition set_slot :: "string \<Rightarrow> task_slot \<Rightarrow> tree_manager \<Rightarrow> tree_manager" where
  "set_slot k s m = m\<lparr>m_tasks := dset k s (m_tasks m)\<rparr>"

text \<open>
  \<open>TreeQueueProcessor.cancel\<close>. The result tells whether the runner had started, when there is a
  task to wait for.
\<close>

definition processor_cancel ::
  "node_claim \<Rightarrow> cancellation_reason option \<Rightarrow> tree_manager \<Rightarrow> tree_manager \<times> bool option" where
  "processor_cancel c reason m =
     (case dget (m_tasks m) (claim_id c) of
        None \<Rightarrow> (m, None)
      | Some s \<Rightarrow>
          (let s = s\<lparr>slot_cancelled := True, slot_reason := reason\<rparr> in
           if slot_phase s = Never_Entered then (set_slot (claim_id c) s m, None)
           else if slot_started s then (set_slot (claim_id c) (s\<lparr>slot_kill := True\<rparr>) m, Some True)
           else (set_slot (claim_id c) (s\<lparr>slot_kill := True, slot_recovery := True\<rparr>) m, Some False)))"

text \<open>The check between the announcements and the runner.\<close>

definition begin_processing :: "task_slot \<Rightarrow> task_slot" where
  "begin_processing s =
     (if slot_cancelled s then s\<lparr>slot_phase := Finishing\<rparr>
      else s\<lparr>slot_started := True, slot_phase := Processing\<rparr>)"

text \<open>
  A turn of a task that is not in its runner: a cancelled task that never began is finished by a
  recovery task instead, which \<open>_task_done\<close> starts when \<open>cancel\<close> has not.
\<close>

definition task_turn :: "task_slot \<Rightarrow> task_slot" where
  "task_turn s =
     (case slot_phase s of
        Waiting_Start \<Rightarrow>
          if slot_kill s then s\<lparr>slot_phase := Never_Entered, slot_recovery := True\<rparr>
          else if slot_announce s then s\<lparr>slot_phase := Announcing\<rparr>
          else begin_processing s
      | Announcing \<Rightarrow> if slot_kill s then s\<lparr>slot_phase := Finishing\<rparr> else begin_processing s
      | _ \<Rightarrow> s)"

definition on_slot :: "string \<Rightarrow> (task_slot \<Rightarrow> task_slot) \<Rightarrow> tree_manager \<Rightarrow> tree_manager" where
  "on_slot k f m = (case dget (m_tasks m) k of None \<Rightarrow> m | Some s \<Rightarrow> set_slot k (f s) m)"

text \<open>The runner returns or is cancelled, or it raises.\<close>

definition runner_over :: "bool \<Rightarrow> task_slot \<Rightarrow> task_slot" where
  "runner_over raised s =
     (if slot_phase s = Processing
      then s\<lparr>slot_phase := (if raised then Failing else Finishing), slot_kill := False\<rparr> else s)"

section \<open>Admission\<close>

definition launch_decision ::
  "oid \<Rightarrow> queue_decision \<Rightarrow> tree_manager \<Rightarrow> tree_manager \<times> (manager_error + queue_decision)" where
  "launch_decision ob d m =
     (case dec_claim d of
        None \<Rightarrow> (m, Inr d)
      | Some c \<Rightarrow> (case launch ob c False m of Inl e \<Rightarrow> (m, Inl e) | Inr m \<Rightarrow> (m, Inr d)))"

definition admit_reply ::
  "string \<Rightarrow> message_scope \<Rightarrow> string \<Rightarrow> string \<Rightarrow> string \<Rightarrow> oid \<Rightarrow> reply_target \<Rightarrow> tree_manager
     \<Rightarrow> tree_manager \<times> (manager_error + queue_decision)" where
  "admit_reply cid sc nid pr status ob target m =
     (case on_tree ob (add_and_enqueue cid nid sc pr status (reply_node target) (reply_reference target)) m of
        (m, Inl e) \<Rightarrow> (m, Inl (Tree_Error e))
      | (m, Inr d) \<Rightarrow>
          (case register_node (tree_identity_of (m_objects m ! ob)) nid status (m_repository m) of
             Inl e \<Rightarrow> (m, Inl (Tree_Error e))
           | Inr r \<Rightarrow> launch_decision ob d (m\<lparr>m_repository := r\<rparr>)))"

definition admit_root ::
  "string \<Rightarrow> message_scope \<Rightarrow> string \<Rightarrow> string \<Rightarrow> string \<Rightarrow> tree_manager
     \<Rightarrow> tree_manager \<times> (manager_error + queue_decision)" where
  "admit_root cid sc nid pr status m =
     (case new_tree (new_node nid sc pr status None None) of
        Inl e \<Rightarrow> (m, Inl (Tree_Error e))
      | Inr t \<Rightarrow>
          (case enqueue_or_claim cid nid t of
             (t, Inl e) \<Rightarrow> (m, Inl (Tree_Error e))
           | (t, Inr d) \<Rightarrow>
               (case add_tree (tree_identity_of t) (length (m_objects m)) nid status (m_repository m) of
                  Inl e \<Rightarrow> (m, Inl (Tree_Error e))
                | Inr r \<Rightarrow>
                    launch_decision (length (m_objects m)) d
                      (m\<lparr>m_objects := m_objects m @ [t], m_repository := r\<rparr>))))"

definition duplicate_tree :: "message_scope \<Rightarrow> string \<Rightarrow> string \<Rightarrow> tree_repository \<Rightarrow> oid option" where
  "duplicate_tree sc nid status r =
     (case get_tree_for_reference sc nid r of
        Some ob \<Rightarrow> Some ob
      | None \<Rightarrow> get_tree_for_reference sc status r)"

definition admit ::
  "string \<Rightarrow> message_scope \<Rightarrow> string \<Rightarrow> string \<Rightarrow> string \<Rightarrow> string option \<Rightarrow> tree_manager
     \<Rightarrow> tree_manager \<times> (manager_error + queue_decision)" where
  "admit cid sc nid pr status parent m =
     (case duplicate_tree sc nid status (m_repository m) of
        Some ob \<Rightarrow>
          (case on_tree ob (enqueue_or_claim cid nid) m of
             (m, Inl e) \<Rightarrow> (m, Inl (Tree_Error e)) | (m, Inr d) \<Rightarrow> (m, Inr d))
      | None \<Rightarrow>
          (case parent of
             None \<Rightarrow> admit_root cid sc nid pr status m
           | Some p \<Rightarrow>
               (case get_tree_for_reference sc p (m_repository m) of
                  None \<Rightarrow> (m, Inr (rejected PARENT_REMOVED))
                | Some ob \<Rightarrow>
                    (case resolve_reply p (m_objects m ! ob) of
                       None \<Rightarrow> (m, Inr (rejected PARENT_REMOVED))
                     | Some target \<Rightarrow> admit_reply cid sc nid pr status ob target m))))"

section \<open>Reading\<close>

definition manager_resolve_reply :: "message_scope \<Rightarrow> string \<Rightarrow> tree_manager \<Rightarrow> reply_target option" where
  "manager_resolve_reply sc ref m =
     (case get_tree_for_reference sc ref (m_repository m) of
        None \<Rightarrow> None | Some ob \<Rightarrow> resolve_reply ref (m_objects m ! ob))"

definition resolve_node_id :: "message_scope \<Rightarrow> string \<Rightarrow> tree_manager \<Rightarrow> string option" where
  "resolve_node_id sc ref m = map_option reply_node (manager_resolve_reply sc ref m)"

definition manager_get_node :: "message_scope \<Rightarrow> string \<Rightarrow> tree_manager \<Rightarrow> node_view_data option" where
  "manager_get_node sc ref m =
     (case get_tree_for_reference sc ref (m_repository m) of
        None \<Rightarrow> None
      | Some ob \<Rightarrow>
          (case resolve_reply ref (m_objects m ! ob) of
             None \<Rightarrow> None
           | Some target \<Rightarrow> node_view (reply_node target) (m_objects m ! ob)))"

definition chat_message_ids :: "string \<Rightarrow> string \<Rightarrow> tree_manager \<Rightarrow> string set" where
  "chat_message_ids p c m =
     (\<Union>ob \<in> set (repository_trees (m_repository m)). message_ids_for_chat p c (m_objects m ! ob))"

definition manager_snapshot :: "tree_manager \<Rightarrow> conversation_snapshot" where
  "manager_snapshot m =
     fold (\<lambda>ob d. dset (tree_identity_of (m_objects m ! ob)) (tree_snapshot_of (m_objects m ! ob)) d)
       (repository_trees (m_repository m)) []"

section \<open>Reports of a runner\<close>

definition manager_record_session ::
  "node_claim \<Rightarrow> string \<Rightarrow> tree_manager \<Rightarrow> tree_manager \<times> tree_snapshot option" where
  "manager_record_session c sid m =
     (case get_tree (claim_identity c) (m_repository m) of
        None \<Rightarrow> (m, None) | Some ob \<Rightarrow> on_tree ob (record_session (claim_id c) sid) m)"

definition manager_complete_claim ::
  "node_claim \<Rightarrow> string option \<Rightarrow> tree_manager \<Rightarrow> tree_manager \<times> tree_snapshot option" where
  "manager_complete_claim c sid m =
     (case get_tree (claim_identity c) (m_repository m) of
        None \<Rightarrow> (m, None) | Some ob \<Rightarrow> on_tree ob (complete_claim (claim_id c) sid) m)"

definition manager_fail_claim ::
  "node_claim \<Rightarrow> bool \<Rightarrow> tree_manager \<Rightarrow> (tree_manager \<times> (tree_error + failure_result)) option" where
  "manager_fail_claim c propagate m =
     (case get_tree (claim_identity c) (m_repository m) of
        None \<Rightarrow> Some (m, Inr no_failure)
      | Some ob \<Rightarrow>
          (case fail_claim (claim_id c) propagate (m_objects m ! ob) of
             None \<Rightarrow> None
           | Some r \<Rightarrow> Some (on_tree ob (\<lambda>_. r) m)))"

text \<open>A runner raised: its claim fails, unless the task is cancelled while it waits for the lock.\<close>

definition fail_task_claim :: "string \<Rightarrow> tree_manager \<Rightarrow> tree_manager option" where
  "fail_task_claim k m =
     (case dget (m_tasks m) k of
        None \<Rightarrow> Some m
      | Some s \<Rightarrow>
          if slot_phase s \<noteq> Failing then Some m
          else if slot_kill s then Some (set_slot k (s\<lparr>slot_phase := Finishing\<rparr>) m)
          else map_option (\<lambda>(m, _). set_slot k (s\<lparr>slot_phase := Finishing\<rparr>) m)
                 (manager_fail_claim (slot_claim s) True m))"

section \<open>Finishing a claim\<close>

text \<open>The successor of a claim gets its task under the lock, if its tree is still published.\<close>

definition finish_claim ::
  "string \<Rightarrow> oid \<Rightarrow> node_claim \<Rightarrow> tree_manager \<Rightarrow> tree_manager \<times> (manager_error + unit)" where
  "finish_claim cid ob c m =
     (let published = (get_tree (claim_identity c) (m_repository m) = Some ob) in
      case on_tree ob (finish_and_claim_next cid (claim_id c)) m of
        (m, Inl e) \<Rightarrow> (m, Inl (Tree_Error e))
      | (m, Inr done) \<Rightarrow>
          (case next_claim done of
             None \<Rightarrow> (m, Inr ())
           | Some c' \<Rightarrow>
               if published then (case launch ob c' True m of Inl e \<Rightarrow> (m, Inl e) | Inr m \<Rightarrow> (m, Inr ()))
               else (m, Inr ())))"

definition finish_and_continue :: "string \<Rightarrow> string \<Rightarrow> task_slot \<Rightarrow> tree_manager \<Rightarrow> tree_manager" where
  "finish_and_continue cid k s m =
     (case finish_claim cid (slot_tree s) (slot_claim s) m of
        (m, r) \<Rightarrow>
          m\<lparr>m_tasks := dpop k (m_tasks m),
            m_failures := (case r of Inl e \<Rightarrow> m_failures m @ [e] | Inr _ \<Rightarrow> m_failures m)\<rparr>)"

definition finish_task :: "string \<Rightarrow> string \<Rightarrow> tree_manager \<Rightarrow> tree_manager" where
  "finish_task cid k m =
     (case dget (m_tasks m) k of
        None \<Rightarrow> m
      | Some s \<Rightarrow>
          if slot_phase s = Finishing \<or> slot_phase s = Never_Entered \<and> slot_recovery s
          then finish_and_continue cid k s m else m)"

text \<open>The claims that have a task, and whether everything is idle.\<close>

definition task_count :: "tree_manager \<Rightarrow> nat" where
  "task_count m = length (m_tasks m)"

definition is_idle :: "tree_manager \<Rightarrow> bool" where
  "is_idle m \<longleftrightarrow> m_tasks m = []"

section \<open>Cancellation\<close>

datatype ui_owner = RUNNER | WORKFLOW

record cancellation_effect =
  effect_node :: ui_target
  effect_owner :: ui_owner

text \<open>What a cancellation did under the lock, with the task to wait for.\<close>

record cancelled_tree =
  ct_tree :: oid
  ct_transition :: tree_cancellation
  ct_task :: "bool option"

definition external_effects :: "cancelled_tree \<Rightarrow> cancellation_effect list" where
  "external_effects c =
     map (\<lambda>u. \<lparr>effect_node = u,
                effect_owner =
                  (if map_option (\<lambda>cl. ui_node (claim_node cl)) (cancelled_claim (ct_transition c)) = Some (ui_node u) \<and>
                      ct_task c = Some True
                   then RUNNER else WORKFLOW)\<rparr>)
       (cancelled_nodes (ct_transition c))"

text \<open>Afterwards, when the task is drained: the tree's snapshot, if it is still published.\<close>

definition current_snapshot :: "tree_identity \<Rightarrow> oid \<Rightarrow> tree_manager \<Rightarrow> tree_snapshot option" where
  "current_snapshot i ob m =
     (if get_tree i (m_repository m) = Some ob then Some (tree_snapshot_of (m_objects m ! ob)) else None)"

definition cancel_active_task ::
  "oid \<Rightarrow> cancellation_reason option \<Rightarrow> tree_cancellation \<Rightarrow> tree_manager \<Rightarrow> tree_manager \<times> cancelled_tree" where
  "cancel_active_task ob reason tr m =
     (case cancelled_claim tr of
        None \<Rightarrow> (m, \<lparr>ct_tree = ob, ct_transition = tr, ct_task = None\<rparr>)
      | Some c \<Rightarrow>
          (case processor_cancel c reason m of
             (m, task) \<Rightarrow> (m, \<lparr>ct_tree = ob, ct_transition = tr, ct_task = task\<rparr>)))"

definition cancel_in_tree ::
  "oid \<Rightarrow> (message_tree \<Rightarrow> message_tree \<times> (tree_error + tree_cancellation)) \<Rightarrow> cancellation_reason option
     \<Rightarrow> tree_manager \<Rightarrow> tree_manager \<times> (manager_error + cancelled_tree)" where
  "cancel_in_tree ob f reason m =
     (case on_tree ob f m of
        (m, Inl e) \<Rightarrow> (m, Inl (Tree_Error e))
      | (m, Inr tr) \<Rightarrow> (case cancel_active_task ob reason tr m of (m, c) \<Rightarrow> (m, Inr c)))"

definition manager_cancel_node ::
  "message_scope \<Rightarrow> string \<Rightarrow> cancellation_reason option \<Rightarrow> tree_manager
     \<Rightarrow> tree_manager \<times> (manager_error + cancelled_tree option)" where
  "manager_cancel_node sc ref reason m =
     (case get_tree_for_reference sc ref (m_repository m) of
        None \<Rightarrow> (m, Inr None)
      | Some ob \<Rightarrow>
          (case resolve_reply ref (m_objects m ! ob) of
             None \<Rightarrow> (m, Inr None)
           | Some target \<Rightarrow>
               (case cancel_in_tree ob (cancel_node (reply_node target)) reason m of
                  (m, r) \<Rightarrow> (m, map_sum id Some r))))"

text \<open>The first tree that raises ends the loop; the trees before it stay cancelled.\<close>

fun cancel_trees ::
  "oid list \<Rightarrow> cancellation_reason option \<Rightarrow> cancelled_tree list \<Rightarrow> tree_manager
     \<Rightarrow> tree_manager \<times> (manager_error + cancelled_tree list)" where
  "cancel_trees [] reason acc m = (m, Inr acc)"
| "cancel_trees (ob # obs) reason acc m =
     (case cancel_in_tree ob cancel_all reason m of
        (m, Inl e) \<Rightarrow> (m, Inl e)
      | (m, Inr c) \<Rightarrow> cancel_trees obs reason (acc @ [c]) m)"

definition manager_cancel_all ::
  "cancellation_reason option \<Rightarrow> tree_manager \<Rightarrow> tree_manager \<times> (manager_error + cancelled_tree list)" where
  "manager_cancel_all reason m = cancel_trees (repository_trees (m_repository m)) reason [] m"

fun clear_trees ::
  "message_scope \<Rightarrow> oid list \<Rightarrow> cancellation_reason option \<Rightarrow> cancelled_tree list \<Rightarrow> tree_manager
     \<Rightarrow> tree_manager \<times> (manager_error + cancelled_tree list)" where
  "clear_trees sc [] reason acc m = (m, Inr acc)"
| "clear_trees sc (ob # obs) reason acc m =
     (let i = tree_identity_of (m_objects m ! ob) in
      if identity_scope i \<noteq> sc then clear_trees sc obs reason acc m
      else
        (case cancel_in_tree ob cancel_all reason m of
           (m, Inl e) \<Rightarrow> (m, Inl e)
         | (m, Inr c) \<Rightarrow>
             clear_trees sc obs reason (acc @ [c]) (m\<lparr>m_repository := remove_tree i (m_repository m)\<rparr>)))"

definition clear_scope ::
  "message_scope \<Rightarrow> cancellation_reason option \<Rightarrow> tree_manager
     \<Rightarrow> tree_manager \<times> (manager_error + cancelled_tree list)" where
  "clear_scope sc reason m = clear_trees sc (repository_trees (m_repository m)) reason [] m"

definition forget_messages :: "tree_identity \<Rightarrow> subtree_removal \<Rightarrow> tree_manager \<Rightarrow> tree_manager" where
  "forget_messages i rm m =
     m\<lparr>m_repository :=
         (if removed_entire_tree rm then remove_tree i (m_repository m)
          else unregister_references i (removed_message_ids rm) (m_repository m))\<rparr>"

definition manager_remove_subtree ::
  "(string list \<Rightarrow> string list) \<Rightarrow> message_scope \<Rightarrow> string \<Rightarrow> cancellation_reason option \<Rightarrow> tree_manager
     \<Rightarrow> (tree_manager \<times> (manager_error + (subtree_removal \<times> cancelled_tree) option)) option" where
  "manager_remove_subtree ord sc ref reason m =
     (case get_tree_for_reference sc ref (m_repository m) of
        None \<Rightarrow> Some (m, Inr None)
      | Some ob \<Rightarrow>
          (case resolve_reply ref (m_objects m ! ob) of
             None \<Rightarrow> Some (m, Inr None)
           | Some target \<Rightarrow>
               (case remove_message_subtree ord (reply_reference target) (m_objects m ! ob) of
                  None \<Rightarrow> None
                | Some r \<Rightarrow>
                    Some (case on_tree ob (\<lambda>_. r) m of
                            (m, Inl e) \<Rightarrow> (m, Inl (Tree_Error e))
                          | (m, Inr rm) \<Rightarrow>
                              (case cancel_active_task ob reason (removal_cancellation rm)
                                      (forget_messages (tree_identity_of (m_objects m ! ob)) rm m) of
                                 (m, c) \<Rightarrow> (m, Inr (Some (rm, c))))))))"

section \<open>Restoring a manager\<close>

definition manager_from_snapshot :: "(json \<Rightarrow> string) \<Rightarrow> conversation_snapshot \<Rightarrow> tree_manager option" where
  "manager_from_snapshot rp c =
     map_option (\<lambda>r. new_manager\<lparr>m_objects := rc_objects r, m_repository := rc_repository r\<rparr>)
       (repository_from_snapshot rp c)"

section \<open>The system\<close>

text \<open>
  Everything that can happen to a manager, in any order: the operations its callers invoke, and
  the turns of its tasks. Fresh claim ids are arguments.
\<close>

datatype manager_event =
    Admit string message_scope string string string "string option"
  | Session_Reported node_claim string
  | Claim_Completed node_claim "string option"
  | Claim_Failed node_claim bool
  | Task_Turn string
  | Runner_Over string bool
  | Failure_Handled string
  | Task_Finished string string
  | Task_Killed string
  | Stop_Node message_scope string "cancellation_reason option"
  | Stop_All "cancellation_reason option"
  | Clear_Chat message_scope "cancellation_reason option"
  | Remove_Messages message_scope string "cancellation_reason option"

definition manager_after :: "tree_manager \<Rightarrow> (tree_manager \<times> 'r) option \<Rightarrow> tree_manager" where
  "manager_after m r = (case r of None \<Rightarrow> m | Some (m', _) \<Rightarrow> m')"

fun manager_step :: "(string list \<Rightarrow> string list) \<Rightarrow> tree_manager \<Rightarrow> manager_event \<Rightarrow> tree_manager" where
  "manager_step ord m (Admit cid sc nid pr status parent) = fst (admit cid sc nid pr status parent m)"
| "manager_step ord m (Session_Reported c sid) = fst (manager_record_session c sid m)"
| "manager_step ord m (Claim_Completed c sid) = fst (manager_complete_claim c sid m)"
| "manager_step ord m (Claim_Failed c propagate) = manager_after m (manager_fail_claim c propagate m)"
| "manager_step ord m (Task_Turn k) = on_slot k task_turn m"
| "manager_step ord m (Runner_Over k raised) = on_slot k (runner_over raised) m"
| "manager_step ord m (Failure_Handled k) = (case fail_task_claim k m of None \<Rightarrow> m | Some m' \<Rightarrow> m')"
| "manager_step ord m (Task_Finished cid k) = finish_task cid k m"
| "manager_step ord m (Task_Killed k) = on_slot k (\<lambda>s. s\<lparr>slot_kill := True\<rparr>) m"
| "manager_step ord m (Stop_Node sc ref reason) = fst (manager_cancel_node sc ref reason m)"
| "manager_step ord m (Stop_All reason) = fst (manager_cancel_all reason m)"
| "manager_step ord m (Clear_Chat sc reason) = fst (clear_scope sc reason m)"
| "manager_step ord m (Remove_Messages sc ref reason) = manager_after m (manager_remove_subtree ord sc ref reason m)"

text \<open>Message ids are not empty, and a claim id is new among the claims that have a task.\<close>

fun manager_event_ok :: "tree_manager \<Rightarrow> manager_event \<Rightarrow> bool" where
  "manager_event_ok m (Admit cid sc nid pr status parent) \<longleftrightarrow>
     nid \<noteq> [] \<and> status \<noteq> [] \<and> dget (m_tasks m) cid = None"
| "manager_event_ok m (Task_Finished cid k) \<longleftrightarrow> dget (m_tasks m) cid = None"
| "manager_event_ok m _ \<longleftrightarrow> True"

end
