(* ===== verification/Tree_References.thy ===== *)
theory Tree_References
  imports Tree_Restore Tree_Machine
begin

text \<open>
  What the manager relies on in a tree: the messages it is found under, and the claim that runs.
  Only admission and removal change the messages; only admission and finishing change the claim.
\<close>

definition known :: "message_tree \<Rightarrow> string set" where
  "known t = all_reference_ids (graph t)"

definition running :: "message_tree \<Rightarrow> node_claim option" where
  "running t = map_option claim (active t)"

text \<open>A change that leaves identity, messages and claim alone.\<close>

definition kept :: "message_tree \<Rightarrow> message_tree \<Rightarrow> bool" where
  "kept t t' \<longleftrightarrow> tree_identity_of t' = tree_identity_of t \<and> known t' = known t \<and> running t' = running t"

lemma kept_refl [simp]: "kept t t"
  by (simp add: kept_def)

lemma kept_trans: "kept t t' \<Longrightarrow> kept t' t'' \<Longrightarrow> kept t t''"
  by (simp add: kept_def)

lemma keptD:
  assumes "kept t t'"
  shows "tree_identity_of t' = tree_identity_of t" "known t' = known t" "running t' = running t"
  using assms by (simp_all add: kept_def)

lemma known_modify: "all_reference_ids (modify_node k f g) = all_reference_ids g"
  by (simp add: all_reference_ids_def modify_node_def)

lemma known_dmodify: "all_reference_ids (g\<lparr>nodes := dmodify k f (nodes g)\<rparr>) = all_reference_ids g"
  by (simp add: all_reference_ids_def)

lemma known_on_node [simp]: "known (on_node k f t) = known t"
  by (simp add: known_def on_node_def known_modify)

lemma kept_on_node: "kept t t' \<Longrightarrow> kept t (on_node k f t')"
  by (simp add: kept_def running_def frame_simps)

lemma kept_queue: "kept t t' \<Longrightarrow> kept t (t'\<lparr>queue := q\<rparr>)"
  by (simp add: kept_def known_def running_def tree_identity_of_def)

lemma kept_dequeue: "kept t t' \<Longrightarrow> kept t (snd (dequeue_node k t'))"
  by (simp add: dequeue_node_def kept_queue split: prod.split)

lemma kept_request: "kept t t' \<Longrightarrow> kept t (request_cancellation t')"
  by (simp add: kept_def known_def running_def request_cancellation_def tree_identity_of_def option.map_comp o_def)

lemmas kept_intros = kept_refl kept_on_node kept_queue kept_dequeue kept_request

section \<open>Operations that keep messages and claim\<close>

lemma kept_record: "kept t (fst (record_session cid sid t))"
  by (simp add: record_session_def Let_def kept_intros split: option.split)

lemma kept_complete: "kept t (fst (complete_claim cid sid t))"
  by (simp add: complete_claim_def Let_def kept_intros split: option.split)

lemma kept_cancel_node: "kept t (fst (cancel_node nid t))"
  unfolding cancel_node_after asked_def by (auto split: option.split intro!: kept_intros)

lemma kept_cancel_each: "kept t0 t \<Longrightarrow> kept t0 (fst (cancel_each skip ks acc t))"
  by (induction skip ks acc t rule: cancel_each.induct) (simp_all add: kept_intros split: option.split sum.split)

lemma kept_cancel_active: "kept t (fst (cancel_active t))"
  by (simp add: cancel_active_def Let_def kept_intros split: option.split)

lemma kept_cancel_all: "kept t (fst (cancel_all t))"
proof -
  obtain t1 r1 where c: "cancel_active t = (t1, r1)" by fastforce
  have k1: "kept t t1" using kept_cancel_active [of t] by (simp add: c)
  show ?thesis
  proof (cases r1)
    case (Inl e)
    with k1 show ?thesis by (simp add: cancel_all_def c)
  next
    case acc: (Inr acc)
    obtain ks q where q: "queue_drain (queue t1) = (ks, q)" by fastforce
    obtain t2 r2 where t2: "cancel_each {} ks acc (t1\<lparr>queue := q\<rparr>) = (t2, r2)" by fastforce
    have k2: "kept t t2" using kept_cancel_each [OF kept_queue [OF k1]] t2 by (metis fst_conv)
    show ?thesis
    proof (cases r2)
      case (Inl e)
      with k2 acc show ?thesis by (simp add: cancel_all_def c q t2)
    next
      case (Inr acc2)
      obtain seen us where su: "acc2 = (seen, us)" by fastforce
      obtain t3 r3 where t3: "cancel_each seen (map node_id (all_nodes (graph t2))) (seen, us) t2 = (t3, r3)"
        by fastforce
      have "kept t t3" using kept_cancel_each [OF k2] t3 by (metis fst_conv)
      with acc Inr su show ?thesis by (cases r3) (simp_all add: cancel_all_def c q t2 t3 split_beta)
    qed
  qed
qed

lemma kept_fail_pending: "kept t0 t \<Longrightarrow> kept t0 (fst (fail_pending ks acc t))"
proof (induction ks arbitrary: acc t)
  case (Cons k ks)
  obtain ch us where acc: "acc = (ch, us)" by fastforce
  show ?case
  proof (cases "tree_node t k")
    case (Some n)
    obtain b t' where d: "dequeue_node (node_id n) (on_node k mark_error t) = (b, t')" by fastforce
    have "kept t0 (snd (dequeue_node (node_id n) (on_node k mark_error t)))" by (intro kept_intros Cons.prems)
    then have "kept t0 t'" by (simp add: d)
    then show ?thesis using Some d Cons.IH [OF Cons.prems] by (simp add: acc Cons.IH split: sum.split)
  qed (simp add: acc Cons.IH [OF Cons.prems])
qed simp

lemma fst_fail_result: "fst (fail_result r) = fst r"
  by (simp add: fail_result_def split: prod.split sum.split)

lemma kept_fail: "fail_claim cid propagate t = Some r \<Longrightarrow> kept t (fst r)"
  by (auto simp: fail_claim_def Let_def fst_fail_result split: option.splits if_splits sum.splits
      intro!: kept_intros kept_fail_pending)

lemma kept_cancel_affected: "kept t0 t \<Longrightarrow> kept t0 (fst (cancel_affected cl ks acc t))"
proof (induction ks arbitrary: acc t)
  case (Cons k ks)
  obtain ch us where acc: "acc = (ch, us)" by fastforce
  obtain b t' where d: "dequeue_node k t = (b, t')" by fastforce
  have "kept t0 (snd (dequeue_node k t))" by (intro kept_intros Cons.prems)
  then have k: "kept t0 t'" by (simp add: d)
  show ?case
    using Cons.IH [OF Cons.prems] Cons.IH [OF k] Cons.IH [OF kept_on_node [OF k]] k
    by (simp add: acc d split: option.split sum.split)
qed simp

section \<open>Operations that start or end a claim\<close>

text \<open>A tree between two operations, with the claim that the operation started, if any.\<close>

definition started :: "string \<Rightarrow> node_claim option \<Rightarrow> message_tree \<Rightarrow> message_tree \<Rightarrow> bool" where
  "started cid c t t' \<longleftrightarrow>
     (case c of
        None \<Rightarrow> running t' = running t
      | Some c \<Rightarrow> running t = None \<and> running t' = Some c \<and> claim_id c = cid \<and> claim_identity c = tree_identity_of t)"

definition decided :: "tree_error + queue_decision \<Rightarrow> node_claim option" where
  "decided r = (case r of Inl e \<Rightarrow> None | Inr d \<Rightarrow> dec_claim d)"

lemma claim_node_started:
  assumes "active t = None"
  shows "started cid (case snd (claim_node_now cid n t) of Inl e \<Rightarrow> None | Inr c \<Rightarrow> Some c) t (fst (claim_node_now cid n t)) \<and>
    tree_identity_of (fst (claim_node_now cid n t)) = tree_identity_of t \<and> known (fst (claim_node_now cid n t)) = known t"
  using assms
  by (auto simp: claim_node_now_def Let_def started_def running_def known_def tree_identity_of_def on_node_def
      known_dmodify modify_node_def split: sum.split)

lemma enqueue_started:
  "started cid (decided (snd (enqueue_or_claim cid k t))) t (fst (enqueue_or_claim cid k t)) \<and>
   tree_identity_of (fst (enqueue_or_claim cid k t)) = tree_identity_of t \<and>
   known (fst (enqueue_or_claim cid k t)) = known t"
proof -
  have same: "started cid None t t" by (simp add: started_def)
  have q: "started cid None t (t\<lparr>queue := q\<rparr>) \<and> tree_identity_of (t\<lparr>queue := q\<rparr>) = tree_identity_of t \<and>
      known (t\<lparr>queue := q\<rparr>) = known t" for q
    by (simp add: started_def running_def known_def tree_identity_of_def)
  show ?thesis
  proof (cases "\<exists>n. tree_node t k = Some n \<and> state n = PENDING")
    case False
    then have "enqueue_or_claim cid k t = (t, Inr (rejected DUPLICATE))"
      by (intro enqueue_rejects) (cases "tree_node t k", auto)
    with same show ?thesis by (simp add: decided_def rejected_def)
  next
    case True
    then obtain n where n: "tree_node t k = Some n" "state n = PENDING" by blast
    show ?thesis
    proof (cases "active t")
      case None
      obtain t' r where c: "claim_node_now cid n t = (t', r)" by fastforce
      from claim_node_started [OF None, of cid n] c n None show ?thesis
        by (cases r) (simp_all add: enqueue_or_claim_def decided_def)
    next
      case (Some a)
      then show ?thesis
        using n q by (auto simp: enqueue_or_claim_def decided_def rejected_def split: prod.split bool.split)
    qed
  qed
qed

lemma keys_of_dset: "set (dkeys (dset k v d)) = insert k (set (dkeys d))"
  by (induction d) auto

lemma add_node_known:
  assumes "add_node nid sc pr status parent reference g = Inr g'"
  shows "all_reference_ids g' = insert nid (insert status (all_reference_ids g))" "identity g' = identity g"
proof -
  let ?g = "g\<lparr>nodes := dset nid (new_node nid sc pr status (Some parent) (Some reference)) (nodes g),
    status_to_node := dset status nid (status_to_node g)\<rparr>"
  have g': "g' = modify_node parent (\<lambda>p. p\<lparr>children_ids := children_ids p @ [nid]\<rparr>) ?g"
    using assms by (auto simp: add_node_def split: if_splits option.splits)
  have "all_reference_ids ?g = insert nid (insert status (all_reference_ids g))"
    using keys_of_dset [of nid _ "nodes g"] keys_of_dset [of status nid "status_to_node g"]
    by (simp add: all_reference_ids_def insert_commute)
  then show "all_reference_ids g' = insert nid (insert status (all_reference_ids g))" unfolding g' known_modify .
  show "identity g' = identity g" unfolding g' by (simp add: frame_simps)
qed

lemma add_started:
  assumes "add_and_enqueue cid nid sc pr status parent reference t = (t', r)"
  shows "started cid (decided r) t t' \<and> tree_identity_of t' = tree_identity_of t \<and>
    (t' = t \<and> (\<exists>e. r = Inl e) \<or> known t' = insert nid (insert status (known t)))"
proof (cases "add_node nid sc pr status parent reference (graph t)")
  case (Inl e)
  with assms show ?thesis by (auto simp: add_and_enqueue_def started_def decided_def)
next
  case (Inr g)
  let ?t = "t\<lparr>graph := g\<rparr>"
  have e: "enqueue_or_claim cid nid ?t = (t', r)" using assms Inr by (simp add: add_and_enqueue_def)
  have "tree_identity_of ?t = tree_identity_of t" "known ?t = insert nid (insert status (known t))" "running ?t = running t"
    using add_node_known [OF Inr] by (simp_all add: tree_identity_of_def known_def running_def)
  with enqueue_started [of cid nid ?t] e show ?thesis by (auto simp: started_def split: option.splits)
qed

text \<open>Finishing the running claim starts the next one in line; a stale claim changes nothing.\<close>

lemma finish_started:
  assumes ok: "tree_ok W t" and c: "running t = Some c" "claim_id c = finished"
  shows "\<exists>t' r. finish_and_claim_next cid finished t = (t', Inr r) \<and> tree_ok W t' \<and>
    tree_identity_of t' = tree_identity_of t \<and> known t' = known t \<and> running t' = next_claim r \<and>
    (\<forall>c'. next_claim r = Some c' \<longrightarrow> claim_id c' = cid \<and> claim_identity c' = tree_identity_of t)"
proof -
  note base = tree_okD(1) [OF ok]
  obtain a where a: "active t = Some a" "claim a = c" using c(1) by (auto simp: running_def)
  have fin: "tree_ok W (fst (finish_and_claim_next cid finished t))" using finish_ok [OF ok] by blast
  show ?thesis
  proof (cases "queued t")
    case Nil
    have "finish_and_claim_next cid finished t = (t\<lparr>active := None\<rparr>, Inr \<lparr>next_claim = None, completion_queue = []\<rparr>)"
      by (rule finish_last [OF base a(1) _ Nil]) (simp add: a(2) c(2))
    with fin show ?thesis by (simp add: running_def known_def tree_identity_of_def)
  next
    case (Cons k ks)
    have "claim_id (claim a) = finished" by (simp add: a(2) c(2))
    from finish_next [OF base a(1) this Cons, of cid] obtain c' t' es where n:
      "finish_and_claim_next cid finished t = (t', Inr \<lparr>next_claim = Some c', completion_queue = es\<rparr>)"
      "active t' = Some \<lparr>claim = c', cancellation_requested = False\<rparr>" "claim_id c' = cid"
      "graph t' = modify_node k (update_state IN_PROGRESS None) (graph t)" "tree_base W t'" by blast
    have id: "tree_identity_of t' = tree_identity_of t" using n(4) by (simp add: tree_identity_of_def modify_node_def)
    moreover have "claim_identity c' = tree_identity_of t'"
      using tree_baseD(5) [OF n(5,2)] by (simp add: claim_ok_def)
    moreover have "known t' = known t" using n(4) by (simp add: known_def known_modify)
    ultimately show ?thesis using n fin by (auto simp: running_def)
  qed
qed

section \<open>Removal\<close>

text \<open>A message is found in a tree exactly when it is a node or a node's status message.\<close>

lemma reference_ids_iff:
  assumes ok: "graph_ok g"
  shows "r \<in> all_reference_ids g \<longleftrightarrow> (\<exists>k n. get_node g k = Some n \<and> (k = r \<or> status_message_id n = Some r))"
proof -
  have "r \<in> all_reference_ids g \<longleftrightarrow> (\<exists>n kind. resolve_reference g r = Some (n, kind))"
    unfolding all_reference_ids_resolve [OF ok] by auto
  also have "\<dots> \<longleftrightarrow> (\<exists>n. get_node g (node_id n) = Some n \<and> (r = node_id n \<or> status_message_id n = Some r))"
    unfolding resolve_reference_iff [OF ok] by auto
  also have "\<dots> \<longleftrightarrow> (\<exists>k n. get_node g k = Some n \<and> (k = r \<or> status_message_id n = Some r))"
    using node_okD(1) [OF ok] by auto
  finally show ?thesis .
qed

lemma known_iff:
  assumes "tree_base W t"
  shows "r \<in> known t \<longleftrightarrow> (\<exists>k n. tree_node t k = Some n \<and> (k = r \<or> status_message_id n = Some r))"
  unfolding known_def tree_node_def by (rule reference_ids_iff [OF tree_baseD(1) [OF assms]])

lemma reference_parent:
  assumes ok: "graph_ok g" and s: "get_node g k = Some m" "status_message_id m = Some s"
    and below: "(r, s) \<in> (edges (reference_children g))\<^sup>*"
  shows "s = r \<or> (r, k) \<in> (edges (reference_children g))\<^sup>*"
  using below
proof (cases rule: rtranclE)
  case (step y)
  have "get_node g s = None" using node_okD(5) [OF ok s(1)] s(2) by blast
  with step(2) obtain m' where "get_node g y = Some m'" "status_message_id m' = Some s"
    by (auto simp: in_reference_children [OF ok])
  with status_owner_unique [OF ok _ s(1) _ s(2)] step(1) show ?thesis by blast
qed simp

lemma removed_known:
  assumes ok: "tree_base W t" "tree_base W t'" and r: "resolve_reference (graph t) r = Some (n, kind)"
    and ids: "set ids = (edges (reference_children (graph t)))\<^sup>* `` {r}"
    and node: "\<And>k. tree_node t' k = (if k \<in> set (removed_nodes t ids) then None
       else map_option (\<lambda>m. forget_children (set (removed_nodes t ids))
         (if kind = STATUS \<and> k = node_id n then node_clear_status m else m)) (tree_node t k))"
  shows "known t' = known t - set ids"
proof -
  note gok = tree_baseD(1) [OF ok(1)]
  have gone: "k \<in> set (removed_nodes t ids) \<longleftrightarrow> k \<in> set ids \<and> tree_node t k \<noteq> None" for k
    by (auto simp: removed_nodes_def)
  have status: "status_message_id (forget_children S m) = status_message_id m"
    "status_message_id (node_clear_status m) = None" for S m
    by (simp_all add: forget_children_def node_clear_status_def)
  have own: "kind = STATUS \<Longrightarrow> tree_node t (node_id n) = Some n \<and> status_message_id n = Some r"
    using r unfolding resolve_reference_iff [OF gok] tree_node_def by simp
  have up: "s = r \<or> k \<in> set ids" if "tree_node t k = Some m" "status_message_id m = Some s" "s \<in> set ids" for k m s
    using reference_parent [OF gok, of k m s r] that unfolding ids tree_node_def by blast
  have down: "s \<in> set ids" if "tree_node t k = Some m" "status_message_id m = Some s" "k \<in> set ids" for k m s
    using that in_reference_children [OF gok, of s k] unfolding ids tree_node_def
    by (auto intro: rtrancl_into_rtrancl)
  have top: "k = node_id n \<and> kind = STATUS" if "tree_node t k = Some m" "status_message_id m = Some r" "k \<notin> set ids" for k m
  proof -
    have "get_node (graph t) r = None" using node_okD(5) [OF gok, of k m r] that(1,2) by (simp add: tree_node_def)
    then have k: "kind = STATUS" using r unfolding resolve_reference_iff [OF gok] by auto
    with own that(1,2) status_owner_unique [OF gok] show ?thesis unfolding tree_node_def by blast
  qed
  have one: "(\<exists>m. tree_node t' k = Some m \<and> (k = s \<or> status_message_id m = Some s)) \<longleftrightarrow>
      (\<exists>m. tree_node t k = Some m \<and> k \<notin> set ids \<and>
         (k = s \<or> status_message_id m = Some s \<and> \<not> (kind = STATUS \<and> k = node_id n)))" for k s
    by (cases "tree_node t k"; cases "kind = STATUS \<and> k = node_id n") (auto simp: node gone status)
  have left: "(\<exists>k m. tree_node t' k = Some m \<and> (k = s \<or> status_message_id m = Some s)) \<longleftrightarrow>
      (\<exists>k m. tree_node t k = Some m \<and> k \<notin> set ids \<and>
         (k = s \<or> status_message_id m = Some s \<and> \<not> (kind = STATUS \<and> k = node_id n)))" for s
    by (simp only: one)
  have "s \<in> known t' \<longleftrightarrow> s \<in> known t \<and> s \<notin> set ids" for s
  proof
    assume "s \<in> known t'"
    then obtain k m where k: "tree_node t k = Some m" "k \<notin> set ids"
        "k = s \<or> status_message_id m = Some s \<and> \<not> (kind = STATUS \<and> k = node_id n)"
      unfolding known_iff [OF ok(2)] left by blast
    with up top show "s \<in> known t \<and> s \<notin> set ids" unfolding known_iff [OF ok(1)] by blast
  next
    assume s: "s \<in> known t \<and> s \<notin> set ids"
    then obtain k m where k: "tree_node t k = Some m" "k = s \<or> status_message_id m = Some s"
      unfolding known_iff [OF ok(1)] by blast
    have "r \<in> set ids" by (simp add: ids)
    with s k down own show "s \<in> known t'" unfolding known_iff [OF ok(2)] left by (metis option.inject)
  qed
  then show ?thesis by blast
qed

lemma asked_kept: "kept t (asked P t)"
  by (simp add: asked_def kept_intros)

lemma claim_on_running: "claim_on P t = Some c \<Longrightarrow> running t = Some c"
  by (auto simp: claim_on_def running_def split: option.splits if_splits)

text \<open>A removal that raises has removed nothing.\<close>

lemma remove_known:
  assumes ok: "tree_base W t" and ord: "set_order ord" and r: "resolve_reference (graph t) r = Some (n, kind)"
    and step: "remove_message_subtree ord r t = Some (t', res)"
  shows "kept t t' \<and> (\<exists>e. res = Inl e) \<or>
    (\<exists>rm. res = Inr rm \<and> tree_identity_of t' = tree_identity_of t \<and> running t' = running t \<and>
       known t' = known t - removed_message_ids rm \<and>
       (removed_entire_tree rm \<longleftrightarrow> root_id (graph t) \<in> removed_message_ids rm) \<and>
       cancelled_claim (removal_cancellation rm) \<in> {None, running t})"
proof -
  obtain rs where ids: "get_reference_descendants (graph t) r = Some (r # rs)"
      "set (r # rs) = (edges (reference_children (graph t)))\<^sup>* `` {r}"
    using get_reference_descendants_exact [OF tree_baseD(1) [OF ok], of r] r by auto
  let ?ids = "r # rs" and ?A = "affected_nodes t (n, kind) (r # rs)"
  let ?P = "\<lambda>k. k \<in> set (affected_nodes t (n, kind) (r # rs))"
  let ?cl = "claim_on ?P t"
  obtain t2 res2 where loop: "cancel_affected ?cl (ord ?A) (False, []) (asked ?P t) = (t2, res2)" by fastforce
  note base = base_asked [OF ok, of ?P]
  note eff = cancel_affected_effect [OF base, of ?cl "ord ?A" "(False, [])", unfolded loop fst_conv]
  note unf = remove_subtree_unfold [OF r ids(1), of ord, unfolded loop prod.case]
  have k2: "kept t t2" using kept_cancel_affected [OF asked_kept [of t ?P]] loop by (metis fst_conv)
  show ?thesis
  proof (cases res2)
    case (Inl e)
    with unf step k2 show ?thesis by simp
  next
    case (Inr acc)
    then obtain changed targets where acc: "res2 = Inr (changed, targets)" by (cases acc) simp
    have so: "set (ord ?A) = set ?A" "set (ord (removed_nodes t ?ids)) = set (removed_nodes t ?ids)"
      by (rule set_orderD(1) [OF ord])+
    have e: "tree_base W t2" "active t2 = active (asked ?P t)" "settled_on ?P (asked ?P t) t2"
        "queued t2 = filter (\<lambda>k. \<not> ?P k) (queued t)"
      using eff acc by (simp_all add: so frame_simps)
    define h where "h = remove_nodes (ord (removed_nodes t ?ids))
      (if kind = STATUS then clear_status (node_id n) (graph t2) else graph t2)"
    have st: "settled_on ?P t t2" using e(3) by (simp add: settled_on_def frame_simps)
    note det = detached_base [OF ok r ids(2) e(1) st e(4) e(2) refl so(2), folded h_def]
    let ?t3 = "t2\<lparr>graph := h\<rparr>"
    obtain upd where upd: "queue_update_if changed ?t3 = Inr upd" using queue_update_if_returns [OF det(1)] by blast
    have root2: "root_id (graph t2) = root_id (graph t)"
      using graph_okD(3) [OF tree_baseD(1) [OF e(1)]] graph_okD(3) [OF tree_baseD(1) [OF ok]] keptD(1) [OF k2]
      by (simp add: tree_identity_of_def)
    have t': "t' = ?t3" and res: "res = Inr \<lparr>removal_cancellation = \<lparr>cancelled_nodes = targets, cancelled_claim = ?cl, cancel_queue_update = upd\<rparr>,
        removed_message_ids = set ?ids, removed_entire_tree = (root_id (graph t) \<in> set (removed_nodes t ?ids))\<rparr>"
      using unf step upd root2 by (simp_all add: acc Let_def h_def frame_simps)
    have node: "tree_node ?t3 k = (if k \<in> set (removed_nodes t ?ids) then None
        else map_option (\<lambda>m. forget_children (set (removed_nodes t ?ids))
          (if kind = STATUS \<and> k = node_id n then node_clear_status m else m)) (tree_node t k))" for k
      using det(2) [of k] by (simp add: tree_node_def)
    have "known ?t3 = known t - set ?ids" by (rule removed_known [OF ok det(1) r ids(2) node])
    moreover have "root_id (graph t) \<in> set (removed_nodes t ?ids) \<longleftrightarrow> root_id (graph t) \<in> set ?ids"
      using root_key [OF tree_baseD(1) [OF ok], of "node_id n"] r
      unfolding resolve_reference_iff [OF tree_baseD(1) [OF ok]] removed_nodes_def tree_node_def by auto
    moreover have "tree_identity_of ?t3 = tree_identity_of t" using det(4) by (simp add: tree_identity_of_def)
    moreover have "running ?t3 = running t" using keptD(3) [OF k2] by (simp add: running_def)
    moreover have "?cl \<in> {None, running t}" using claim_on_running [of ?P t] by (cases ?cl) auto
    ultimately show ?thesis unfolding t' res by simp
  qed
qed

end
