(* ===== verification/Manager_Invariant.thy ===== *)
theory Manager_Invariant
  imports Tree_Manager Tree_References
begin

text \<open>
  The invariant of the manager. The index agrees with the trees: a message of a chat is found
  exactly in the tree that knows it. Every claim that runs in a published tree has its task, every
  task has its claim, and every task can still finish.
\<close>

section \<open>The index agrees with the trees\<close>

definition repository_ok :: "message_tree list \<Rightarrow> tree_repository \<Rightarrow> bool" where
  "repository_ok objs r \<longleftrightarrow>
     distinct (dkeys (repo_trees r)) \<and> distinct (dkeys (repo_references r)) \<and>
     (\<forall>i ob. get_tree i r = Some ob \<longrightarrow>
        ob < length objs \<and> tree_identity_of (objs ! ob) = i \<and> identity_root i \<in> known (objs ! ob)) \<and>
     (\<forall>sc ref i. dget (repo_references r) (sc, ref) = Some i \<longleftrightarrow>
        identity_scope i = sc \<and> (\<exists>ob. get_tree i r = Some ob \<and> ref \<in> known (objs ! ob)))"

lemma repository_okD:
  assumes "repository_ok objs r"
  shows "distinct (dkeys (repo_trees r))" "distinct (dkeys (repo_references r))"
    "get_tree i r = Some ob \<Longrightarrow> ob < length objs \<and> tree_identity_of (objs ! ob) = i \<and> identity_root i \<in> known (objs ! ob)"
    "dget (repo_references r) (sc, ref) = Some i \<longleftrightarrow>
       identity_scope i = sc \<and> (\<exists>ob. get_tree i r = Some ob \<and> ref \<in> known (objs ! ob))"
  using assms by (simp_all add: repository_ok_def)

lemma repository_ok_new [simp]: "repository_ok [] new_repository"
  by (simp add: repository_ok_def new_repository_def get_tree_def)

lemma find_tree:
  assumes "repository_ok objs r"
  shows "get_tree_for_reference sc ref r = Some ob \<longleftrightarrow>
    (\<exists>i. identity_scope i = sc \<and> get_tree i r = Some ob \<and> ref \<in> known (objs ! ob))"
proof -
  have "get_tree_for_reference sc ref r = Some ob \<longleftrightarrow>
      (\<exists>i. dget (repo_references r) (sc, ref) = Some i \<and> get_tree i r = Some ob)"
    by (simp add: get_tree_for_reference_def split: option.split)
  also have "\<dots> \<longleftrightarrow> (\<exists>i. identity_scope i = sc \<and> get_tree i r = Some ob \<and> ref \<in> known (objs ! ob))"
    unfolding repository_okD(4) [OF assms] by auto
  finally show ?thesis .
qed

lemma find_no_tree:
  assumes "repository_ok objs r"
  shows "get_tree_for_reference sc ref r = None \<longleftrightarrow> dget (repo_references r) (sc, ref) = None"
proof -
  have "get_tree_for_reference sc ref r \<noteq> None \<longleftrightarrow> dget (repo_references r) (sc, ref) \<noteq> None"
    using find_tree [OF assms, of sc ref] repository_okD(4) [OF assms, of sc ref] by blast
  then show ?thesis by blast
qed

text \<open>A tree that keeps its identity and its messages may change otherwise.\<close>

lemma repository_ok_update:
  assumes "repository_ok objs r" "tree_identity_of t = tree_identity_of (objs ! ob)" "known t = known (objs ! ob)"
  shows "repository_ok (objs[ob := t]) r"
proof (cases "ob < length objs")
  case True
  have "tree_identity_of (objs[ob := t] ! j) = tree_identity_of (objs ! j)" "known (objs[ob := t] ! j) = known (objs ! j)" for j
    using assms(2,3) True by (cases "j = ob"; simp)+
  with assms(1) show ?thesis by (simp add: repository_ok_def)
qed (simp add: assms(1) list_update_beyond)

lemma dget_filter_distinct:
  "distinct (dkeys d) \<Longrightarrow> dget (filter P d) k = (case dget d k of None \<Rightarrow> None | Some v \<Rightarrow> if P (k, v) then Some v else None)"
proof (induction d)
  case (Cons kv d)
  obtain k' v where kv: "kv = (k', v)" by fastforce
  have "dget d k' = None" using Cons.prems by (simp add: kv map_of_eq_None_iff)
  moreover have "dget (filter P d) k' = None"
    using Cons.prems by (auto simp: kv map_of_eq_None_iff)
  ultimately show ?case using Cons by (auto simp: kv split: option.splits)
qed simp

lemma repository_ok_remove:
  assumes ok: "repository_ok objs r"
  shows "repository_ok objs (remove_tree i r)"
    and "get_tree j (remove_tree i r) = (if j = i then None else get_tree j r)"
proof -
  have get: "get_tree j (remove_tree i r) = (if j = i then None else get_tree j r)" for j
    by (simp add: remove_tree_def get_tree_def delete_conv')
  then show "get_tree j (remove_tree i r) = (if j = i then None else get_tree j r)" .
  have ref: "dget (repo_references (remove_tree i r)) k =
      (case dget (repo_references r) k of None \<Rightarrow> None | Some j \<Rightarrow> if j = i then None else Some j)" for k
  proof (cases "get_tree i r")
    case None
    then have "dget (repo_references r) k \<noteq> Some i"
      using repository_okD(4) [OF ok, of "fst k" "snd k" i] by simp
    with None show ?thesis by (auto simp: remove_tree_def split: option.split)
  next
    case (Some ob)
    then show ?thesis using dget_filter_distinct [OF repository_okD(2) [OF ok]]
      by (auto simp: remove_tree_def split: option.split)
  qed
  have "distinct (dkeys (repo_trees (remove_tree i r)))" "distinct (dkeys (repo_references (remove_tree i r)))"
    using repository_okD(1,2) [OF ok] by (auto simp: remove_tree_def dkeys_dpop distinct_map_filter)
  moreover have "dget (repo_references (remove_tree i r)) (sc, m) = Some j \<longleftrightarrow>
      identity_scope j = sc \<and> (\<exists>ob. get_tree j (remove_tree i r) = Some ob \<and> m \<in> known (objs ! ob))" for sc m j
  proof -
    have "dget (repo_references (remove_tree i r)) (sc, m) = Some j \<longleftrightarrow>
        dget (repo_references r) (sc, m) = Some j \<and> j \<noteq> i"
      unfolding ref by (auto split: option.split)
    then show ?thesis unfolding repository_okD(4) [OF ok] get by simp
  qed
  ultimately show "repository_ok objs (remove_tree i r)"
    using repository_okD(3) [OF ok] unfolding repository_ok_def get by simp
qed

text \<open>Only the tree with its identity is at a place, so a change there concerns one tree.\<close>

lemma found_update:
  assumes ok: "repository_ok objs r" and ob: "get_tree i r = Some ob"
  shows "(\<exists>ob'. get_tree j r = Some ob' \<and> m \<in> known (objs[ob := t] ! ob')) \<longleftrightarrow>
    (if j = i then m \<in> known t else \<exists>ob'. get_tree j r = Some ob' \<and> m \<in> known (objs ! ob'))"
proof (cases "j = i")
  case True
  with ob repository_okD(3) [OF ok ob] show ?thesis by simp
next
  case False
  have "ob' \<noteq> ob" if "get_tree j r = Some ob'" for ob'
    using repository_okD(3) [OF ok ob] repository_okD(3) [OF ok that] False by auto
  then have "get_tree j r = Some ob' \<and> m \<in> known (objs[ob := t] ! ob') \<longleftrightarrow>
      get_tree j r = Some ob' \<and> m \<in> known (objs ! ob')" for ob' by auto
  with False show ?thesis by simp
qed

lemma repository_ok_unregister:
  assumes ok: "repository_ok objs r" and ob: "get_tree i r = Some ob"
    and t: "tree_identity_of t = i" "known t = known (objs ! ob) - ids" "identity_root i \<notin> ids"
  shows "repository_ok (objs[ob := t]) (unregister_references i ids r)"
proof -
  note o = repository_okD(3) [OF ok ob]
  have get: "get_tree j (unregister_references i ids r) = get_tree j r" for j
    by (simp add: unregister_references_def get_tree_def)
  have ref: "dget (repo_references (unregister_references i ids r)) (sc, ref) =
      (case dget (repo_references r) (sc, ref) of None \<Rightarrow> None
       | Some j \<Rightarrow> if sc = identity_scope i \<and> ref \<in> ids \<and> j = i then None else Some j)" for sc ref
    using dget_filter_distinct [OF repository_okD(2) [OF ok]]
    by (simp add: unregister_references_def split: option.split)
  have other: "j = i" if "get_tree j r = Some ob" for j using repository_okD(3) [OF ok that] o by simp
  have known: "known (objs[ob := t] ! ob') = (if ob' = ob then known (objs ! ob) - ids else known (objs ! ob'))"
    and ident: "tree_identity_of (objs[ob := t] ! ob') = tree_identity_of (objs ! ob')" for ob'
    using t o by (cases "ob' = ob"; simp)+
  have "distinct (dkeys (repo_references (unregister_references i ids r)))"
    using repository_okD(2) [OF ok] by (simp add: unregister_references_def distinct_map_filter)
  moreover have "distinct (dkeys (repo_trees (unregister_references i ids r)))"
    using repository_okD(1) [OF ok] by (simp add: unregister_references_def)
  moreover have "ob' < length (objs[ob := t]) \<and> tree_identity_of (objs[ob := t] ! ob') = j \<and>
      identity_root j \<in> known (objs[ob := t] ! ob')" if j: "get_tree j r = Some ob'" for j ob'
  proof (cases "ob' = ob")
    case True
    with other j have "j = i" by simp
    with o t(3) show ?thesis unfolding known ident True by simp
  qed (use repository_okD(3) [OF ok j] in \<open>simp add: known ident\<close>)
  moreover have "dget (repo_references (unregister_references i ids r)) (sc, ref) = Some j \<longleftrightarrow>
      identity_scope j = sc \<and> (\<exists>ob'. get_tree j r = Some ob' \<and> ref \<in> known (objs[ob := t] ! ob'))" for sc ref j
  proof -
    have "dget (repo_references (unregister_references i ids r)) (sc, ref) = Some j \<longleftrightarrow>
        dget (repo_references r) (sc, ref) = Some j \<and> \<not> (sc = identity_scope i \<and> ref \<in> ids \<and> j = i)"
      unfolding ref by (auto split: option.split)
    also have "\<dots> \<longleftrightarrow> identity_scope j = sc \<and> (\<exists>ob'. get_tree j r = Some ob' \<and> ref \<in> known (objs[ob := t] ! ob'))"
      unfolding found_update [OF ok ob] repository_okD(4) [OF ok] using ob t(2) by auto
    finally show ?thesis .
  qed
  ultimately show ?thesis unfolding repository_ok_def get by blast
qed

text \<open>Registering a message that nobody has yet.\<close>

definition free_reference :: "message_scope \<Rightarrow> string \<Rightarrow> tree_repository \<Rightarrow> bool" where
  "free_reference sc ref r \<longleftrightarrow> dget (repo_references r) (sc, ref) = None"

lemma free_referenceD:
  assumes "repository_ok objs r" "free_reference sc ref r" "get_tree i r = Some ob" "identity_scope i = sc"
  shows "ref \<notin> known (objs ! ob)"
  using assms repository_okD(4) [OF assms(1), of sc ref i] by (auto simp: free_reference_def)

lemma register_free:
  assumes "free_reference (identity_scope i) nid r" "free_reference (identity_scope i) status r"
  shows "register_node i nid status r =
    Inr (r\<lparr>repo_references := dset (identity_scope i, status) i (dset (identity_scope i, nid) i (repo_references r))\<rparr>)"
  using assms by (simp add: register_node_def has_reference_def free_reference_def)

lemma dget_two:
  "dget (dset k2 v (dset k1 v d)) k = (if k = k1 \<or> k = k2 then Some v else dget d k)"
  by (simp add: update_conv')

lemma repository_ok_register:
  assumes ok: "repository_ok objs r" and ob: "get_tree i r = Some ob"
    and free: "free_reference (identity_scope i) nid r" "free_reference (identity_scope i) status r"
    and t: "tree_identity_of t = i" "known t = insert nid (insert status (known (objs ! ob)))"
  shows "repository_ok (objs[ob := t])
    (r\<lparr>repo_references := dset (identity_scope i, status) i (dset (identity_scope i, nid) i (repo_references r))\<rparr>)"
    (is "repository_ok ?objs ?r")
proof -
  note o = repository_okD(3) [OF ok ob]
  have get: "get_tree j ?r = get_tree j r" for j by (simp add: get_tree_def)
  have other: "j = i" if "get_tree j r = Some ob" for j using repository_okD(3) [OF ok that] o by simp
  have known: "known (?objs ! ob') = (if ob' = ob then insert nid (insert status (known (objs ! ob))) else known (objs ! ob'))"
    and ident: "tree_identity_of (?objs ! ob') = tree_identity_of (objs ! ob')" for ob'
    using t o by (cases "ob' = ob"; simp)+
  have "distinct (dkeys (repo_references ?r))"
    using pd.distinct_store [OF pd.distinct_store [OF repository_okD(2) [OF ok]]] by simp
  moreover have "ob' < length ?objs \<and> tree_identity_of (?objs ! ob') = j \<and> identity_root j \<in> known (?objs ! ob')"
    if "get_tree j r = Some ob'" for j ob'
    using repository_okD(3) [OF ok that] unfolding known ident by auto
  moreover have "dget (repo_references ?r) (sc, m) = Some j \<longleftrightarrow>
      identity_scope j = sc \<and> (\<exists>ob'. get_tree j r = Some ob' \<and> m \<in> known (?objs ! ob'))" for sc m j
  proof (cases "sc = identity_scope i \<and> (m = nid \<or> m = status)")
    case True
    have "j = i" if "identity_scope j = sc" "get_tree j r = Some ob'" "m \<in> known (?objs ! ob')" for ob'
    proof (cases "ob' = ob")
      case False
      with that(3) have "m \<in> known (objs ! ob')" by (simp add: known)
      with free free_referenceD [OF ok _ that(2)] True that(1) show ?thesis by auto
    qed (use other that(2) in simp)
    moreover have "i = j \<longleftrightarrow> j = i" by auto
    moreover have "m \<in> known (?objs ! ob)" using True by (auto simp: known)
    ultimately show ?thesis using True ob by (auto simp: dget_two)
  next
    case False
    then have "dget (repo_references ?r) (sc, m) = Some j \<longleftrightarrow> dget (repo_references r) (sc, m) = Some j"
      by (auto simp: dget_two)
    also have "\<dots> \<longleftrightarrow> identity_scope j = sc \<and> (\<exists>ob'. get_tree j r = Some ob' \<and> m \<in> known (?objs ! ob'))"
      unfolding found_update [OF ok ob] repository_okD(4) [OF ok] using False ob t(2) by auto
    finally show ?thesis .
  qed
  ultimately show ?thesis using repository_okD(1) [OF ok] unfolding repository_ok_def get by simp
qed

text \<open>Publishing a new tree under messages that nobody has.\<close>

lemma publish_tree:
  assumes ok: "repository_ok objs r" and new: "get_tree i r = None" and t: "tree_identity_of t = i" "identity_root i \<in> known t"
    and free: "\<And>m. m \<in> known t \<Longrightarrow> free_reference (identity_scope i) m r"
    and refs: "distinct (dkeys refs)"
      "\<And>k. dget refs k = (if fst k = identity_scope i \<and> snd k \<in> known t then Some i else dget (repo_references r) k)"
  shows "repository_ok (objs @ [t]) \<lparr>repo_trees = dset i (length objs) (repo_trees r), repo_references = refs\<rparr>"
    (is "repository_ok ?objs ?r")
proof -
  have get: "get_tree j ?r = (if j = i then Some (length objs) else get_tree j r)" for j
    by (simp add: get_tree_def update_conv')
  have old: "?objs ! ob = objs ! ob" if "get_tree j r = Some ob" for j ob
    using repository_okD(3) [OF ok that] by (simp add: nth_append)
  have last: "?objs ! length objs = t" by simp
  have "distinct (dkeys (repo_trees ?r))" using pd.distinct_store [OF repository_okD(1) [OF ok]] by simp
  moreover have "ob < length ?objs \<and> tree_identity_of (?objs ! ob) = j \<and> identity_root j \<in> known (?objs ! ob)"
    if j: "get_tree j ?r = Some ob" for j ob
  proof (cases "j = i")
    case False
    then have "get_tree j r = Some ob" using j by (simp add: get)
    with repository_okD(3) [OF ok this] old [OF this] show ?thesis by simp
  qed (use j t last in \<open>auto simp: get\<close>)
  moreover have "dget refs (sc, m) = Some j \<longleftrightarrow>
      identity_scope j = sc \<and> (\<exists>ob. get_tree j ?r = Some ob \<and> m \<in> known (?objs ! ob))" for sc m j
  proof (cases "j = i")
    case True
    have "dget (repo_references r) (sc, m) \<noteq> Some i" using new repository_okD(4) [OF ok, of sc m i] by simp
    then show ?thesis by (auto simp: True refs(2) get)
  next
    case False
    have "dget refs (sc, m) = Some j \<longleftrightarrow> dget (repo_references r) (sc, m) = Some j"
      using False free [of m] by (auto simp: refs(2) free_reference_def)
    also have "\<dots> \<longleftrightarrow> identity_scope j = sc \<and> (\<exists>ob. get_tree j r = Some ob \<and> m \<in> known (?objs ! ob))"
      unfolding repository_okD(4) [OF ok] using old [of j] by auto
    finally show ?thesis using False by (simp add: get)
  qed
  ultimately show ?thesis using refs(1) unfolding repository_ok_def by simp
qed

end
