(* ===== verification/Manager_Work.thy ===== *)
theory Manager_Work
  imports Manager_Invariant
begin

text \<open>
  Claims and tasks: each running claim of a published tree has exactly one task, each task a
  running claim. What the manager's steps do to this.
\<close>

declare map_of_eq_Some_iff [simp del]

lemma dget_dset_cases:
  assumes "dget (dset k v d) k' = Some w"
  obtains "k' = k" "w = v" | "k' \<noteq> k" "dget d k' = Some w"
  using assms by (cases "k' = k") (auto simp: update_conv')

lemma dpop_dset: "k \<noteq> k' \<Longrightarrow> dpop k (dset k' v d) = dset k' v (dpop k d)"
  by (induction d) auto

definition work_ok :: "message_tree list \<Rightarrow> tree_repository \<Rightarrow> (string, task_slot) dict \<Rightarrow> bool" where
  "work_ok objs r ts \<longleftrightarrow>
     distinct (dkeys ts) \<and>
     (\<forall>k s. dget ts k = Some s \<longrightarrow>
        claim_id (slot_claim s) = k \<and> slot_tree s < length objs \<and>
        running (objs ! slot_tree s) = Some (slot_claim s) \<and> (slot_phase s = Never_Entered \<longrightarrow> slot_recovery s)) \<and>
     (\<forall>i ob c. get_tree i r = Some ob \<longrightarrow> running (objs ! ob) = Some c \<longrightarrow>
        (\<exists>s. dget ts (claim_id c) = Some s \<and> slot_tree s = ob \<and> slot_claim s = c))"

lemma work_okD:
  assumes "work_ok objs r ts"
  shows "distinct (dkeys ts)"
    "dget ts k = Some s \<Longrightarrow> claim_id (slot_claim s) = k \<and> slot_tree s < length objs \<and>
      running (objs ! slot_tree s) = Some (slot_claim s) \<and> (slot_phase s = Never_Entered \<longrightarrow> slot_recovery s)"
    "get_tree i r = Some ob \<Longrightarrow> running (objs ! ob) = Some c \<Longrightarrow>
      \<exists>s. dget ts (claim_id c) = Some s \<and> slot_tree s = ob \<and> slot_claim s = c"
  using assms unfolding work_ok_def by blast+

lemma work_okI:
  assumes "distinct (dkeys ts)"
    and "\<And>k s. dget ts k = Some s \<Longrightarrow> claim_id (slot_claim s) = k \<and> slot_tree s < length objs \<and>
      running (objs ! slot_tree s) = Some (slot_claim s) \<and> (slot_phase s = Never_Entered \<longrightarrow> slot_recovery s)"
    and "\<And>i ob c. get_tree i r = Some ob \<Longrightarrow> running (objs ! ob) = Some c \<Longrightarrow>
      \<exists>s. dget ts (claim_id c) = Some s \<and> slot_tree s = ob \<and> slot_claim s = c"
  shows "work_ok objs r ts"
  using assms unfolding work_ok_def by blast

lemma work_ok_update:
  assumes ok: "work_ok objs r ts" and t: "running t = running (objs ! ob)"
  shows "work_ok (objs[ob := t]) r ts"
proof (cases "ob < length objs")
  case True
  then have "running (objs[ob := t] ! j) = running (objs ! j)" for j using t by (cases "j = ob") simp_all
  then show ?thesis using ok by (simp add: work_ok_def)
qed (simp add: ok list_update_beyond)

lemma work_ok_slot:
  assumes ok: "work_ok objs r ts" and s: "dget ts k = Some s"
    and s': "slot_tree s' = slot_tree s" "slot_claim s' = slot_claim s" "slot_phase s' = Never_Entered \<longrightarrow> slot_recovery s'"
  shows "work_ok objs r (dset k s' ts)"
proof (rule work_okI)
  show "distinct (dkeys (dset k s' ts))" by (rule pd.distinct_store [OF work_okD(1) [OF ok]])
  fix k2 s2 assume "dget (dset k s' ts) k2 = Some s2"
  then show "claim_id (slot_claim s2) = k2 \<and> slot_tree s2 < length objs \<and>
      running (objs ! slot_tree s2) = Some (slot_claim s2) \<and> (slot_phase s2 = Never_Entered \<longrightarrow> slot_recovery s2)"
  proof (cases rule: dget_dset_cases)
    case 1
    with work_okD(2) [OF ok s] s' show ?thesis by simp
  qed (rule work_okD(2) [OF ok])
next
  fix i ob c assume "get_tree i r = Some ob" "running (objs ! ob) = Some c"
  from work_okD(3) [OF ok this] s s' show "\<exists>s2. dget (dset k s' ts) (claim_id c) = Some s2 \<and> slot_tree s2 = ob \<and> slot_claim s2 = c"
    by (auto simp: update_conv')
qed

lemma work_ok_fewer:
  assumes "work_ok objs r ts" "\<And>i ob. get_tree i r' = Some ob \<Longrightarrow> get_tree i r = Some ob"
  shows "work_ok objs r' ts"
  using assms unfolding work_ok_def by blast

text \<open>A claim starts in a tree that ran nothing, which may be a new one.\<close>

lemma work_ok_start:
  assumes ok: "work_ok objs r ts" and objs': "ob < length objs'" "length objs \<le> length objs'"
      "\<And>j. j < length objs \<Longrightarrow> j \<noteq> ob \<Longrightarrow> objs' ! j = objs ! j"
    and r': "\<And>i j. get_tree i r' = Some j \<Longrightarrow> j \<noteq> ob \<Longrightarrow> get_tree i r = Some j \<and> j < length objs"
    and c: "running (objs' ! ob) = Some c" "dget ts (claim_id c) = None"
    and idle: "ob < length objs \<Longrightarrow> running (objs ! ob) = None"
  shows "work_ok objs' r' (dset (claim_id c) (new_slot ob c announce) ts)"
proof (rule work_okI)
  show "distinct (dkeys (dset (claim_id c) (new_slot ob c announce) ts))"
    by (rule pd.distinct_store [OF work_okD(1) [OF ok]])
  fix k s assume "dget (dset (claim_id c) (new_slot ob c announce) ts) k = Some s"
  then show "claim_id (slot_claim s) = k \<and> slot_tree s < length objs' \<and>
      running (objs' ! slot_tree s) = Some (slot_claim s) \<and> (slot_phase s = Never_Entered \<longrightarrow> slot_recovery s)"
  proof (cases rule: dget_dset_cases)
    case 1
    then show ?thesis using objs'(1) c(1) by (simp add: new_slot_def)
  next
    case 2
    note s = work_okD(2) [OF ok 2(2)]
    then have "slot_tree s \<noteq> ob" using idle by auto
    then show ?thesis using s objs'(2,3) by auto
  qed
next
  fix i j c' assume j: "get_tree i r' = Some j" "running (objs' ! j) = Some c'"
  show "\<exists>s. dget (dset (claim_id c) (new_slot ob c announce) ts) (claim_id c') = Some s \<and> slot_tree s = j \<and> slot_claim s = c'"
  proof (cases "j = ob")
    case True
    then show ?thesis using j(2) c(1) by (simp add: update_conv' new_slot_def)
  next
    case False
    from r' [OF j(1) False] have old: "get_tree i r = Some j" "j < length objs" by simp_all
    have "running (objs ! j) = Some c'" using j(2) objs'(3) [OF old(2) False] by simp
    from work_okD(3) [OF ok old(1) this] c(2) show ?thesis by (auto simp: update_conv')
  qed
qed

text \<open>A published tree that runs nothing.\<close>

lemma work_ok_idle:
  assumes ok: "work_ok objs r ts" and bound: "\<And>i ob. get_tree i r = Some ob \<Longrightarrow> ob < length objs"
    and t: "running t = None"
    and r': "\<And>i j. get_tree i r' = Some j \<Longrightarrow> j \<noteq> length objs \<Longrightarrow> get_tree i r = Some j"
  shows "work_ok (objs @ [t]) r' ts"
proof (rule work_okI [OF work_okD(1) [OF ok]])
  fix k s assume "dget ts k = Some s"
  from work_okD(2) [OF ok this] show "claim_id (slot_claim s) = k \<and> slot_tree s < length (objs @ [t]) \<and>
      running ((objs @ [t]) ! slot_tree s) = Some (slot_claim s) \<and> (slot_phase s = Never_Entered \<longrightarrow> slot_recovery s)"
    by (simp add: nth_append)
next
  fix i ob c assume ob: "get_tree i r' = Some ob" "running ((objs @ [t]) ! ob) = Some c"
  have "ob \<noteq> length objs" using ob(2) t by auto
  then have old: "get_tree i r = Some ob" by (rule r' [OF ob(1)])
  then have "running (objs ! ob) = Some c" using ob(2) bound [OF old] by (simp add: nth_append)
  from work_okD(3) [OF ok old this] show "\<exists>s. dget ts (claim_id c) = Some s \<and> slot_tree s = ob \<and> slot_claim s = c" .
qed

text \<open>A claim ends; the tree runs its successor or nothing.\<close>

lemma work_ok_end:
  assumes ok: "work_ok objs r ts" and s: "dget ts k = Some s"
    and t: "running t = None \<or> (\<forall>i. get_tree i r \<noteq> Some (slot_tree s))"
  shows "work_ok (objs[slot_tree s := t]) r (dpop k ts)"
proof (rule work_okI)
  show "distinct (dkeys (dpop k ts))" by (rule pd.distinct_discard [OF work_okD(1) [OF ok]])
  fix k2 s2 assume "dget (dpop k ts) k2 = Some s2"
  then have k2: "k2 \<noteq> k" "dget ts k2 = Some s2" by (auto simp: delete_conv' split: if_splits)
  have "slot_tree s2 \<noteq> slot_tree s"
    using work_okD(2) [OF ok s] work_okD(2) [OF ok k2(2)] k2(1) by auto
  then show "claim_id (slot_claim s2) = k2 \<and> slot_tree s2 < length (objs[slot_tree s := t]) \<and>
      running (objs[slot_tree s := t] ! slot_tree s2) = Some (slot_claim s2) \<and> (slot_phase s2 = Never_Entered \<longrightarrow> slot_recovery s2)"
    using work_okD(2) [OF ok k2(2)] by simp
next
  fix i ob c assume ob: "get_tree i r = Some ob" "running (objs[slot_tree s := t] ! ob) = Some c"
  have ne: "ob \<noteq> slot_tree s" using t ob work_okD(2) [OF ok s] by auto
  then have "running (objs ! ob) = Some c" using ob(2) by simp
  from work_okD(3) [OF ok ob(1) this] obtain s2 where
    s2: "dget ts (claim_id c) = Some s2" "slot_tree s2 = ob" "slot_claim s2 = c" by blast
  then have "claim_id c \<noteq> k" using s ne by auto
  then show "\<exists>s2. dget (dpop k ts) (claim_id c) = Some s2 \<and> slot_tree s2 = ob \<and> slot_claim s2 = c"
    using s2 by (simp add: delete_conv')
qed

lemma work_ok_next:
  assumes ok: "work_ok objs r ts" and s: "dget ts k = Some s"
    and c: "running t = Some c" "dget ts (claim_id c) = None"
    and bound: "\<And>i ob. get_tree i r = Some ob \<Longrightarrow> ob < length objs"
  shows "work_ok (objs[slot_tree s := t]) r (dpop k (dset (claim_id c) (new_slot (slot_tree s) c announce) ts))"
proof -
  let ?ob = "slot_tree s" and ?idle = "(objs ! slot_tree s)\<lparr>active := None\<rparr>"
  note o = work_okD(2) [OF ok s]
  have idle: "running ?idle = None" by (simp add: running_def)
  have ended: "work_ok (objs[?ob := ?idle]) r (dpop k ts)" by (rule work_ok_end [OF ok s]) (simp add: idle)
  have "claim_id c \<noteq> k" using s c(2) by auto
  then have swap: "dpop k (dset (claim_id c) (new_slot ?ob c announce) ts) = dset (claim_id c) (new_slot ?ob c announce) (dpop k ts)"
    by (intro dpop_dset) simp
  show ?thesis
    unfolding swap
  proof (rule work_ok_start [OF ended])
    show "dget (dpop k ts) (claim_id c) = None" using c(2) by (simp add: delete_conv')
    show "get_tree i r = Some j \<and> j < length (objs[?ob := ?idle])" if "get_tree i r = Some j" "j \<noteq> ?ob" for i j
      using that bound by auto
  qed (use o c(1) idle in auto)
qed

end
