(* ===== verification/Manager_Steps.thy ===== *)
theory Manager_Steps
  imports Manager_Work
begin

text \<open>
  Every step of the manager keeps its invariant: the trees stay well-formed, the index exact,
  claims and tasks matched, and no task fails while it finishes its claim.
\<close>

definition manager_ok :: "tree_manager \<Rightarrow> bool" where
  "manager_ok m \<longleftrightarrow>
     (\<forall>t \<in> set (m_objects m). tree_ok {} t) \<and> repository_ok (m_objects m) (m_repository m) \<and>
     work_ok (m_objects m) (m_repository m) (m_tasks m) \<and> m_failures m = []"

lemma manager_okD:
  assumes "manager_ok m"
  shows "ob < length (m_objects m) \<Longrightarrow> tree_ok {} (m_objects m ! ob)"
    "repository_ok (m_objects m) (m_repository m)" "work_ok (m_objects m) (m_repository m) (m_tasks m)"
    "m_failures m = []" "t \<in> set (m_objects m) \<Longrightarrow> tree_ok {} t"
  using assms by (simp_all add: manager_ok_def)

lemma manager_okI:
  assumes "\<And>t. t \<in> set (m_objects m) \<Longrightarrow> tree_ok {} t" "repository_ok (m_objects m) (m_repository m)"
    "work_ok (m_objects m) (m_repository m) (m_tasks m)" "m_failures m = []"
  shows "manager_ok m"
  using assms by (simp add: manager_ok_def)

lemma new_manager_ok [simp]: "manager_ok new_manager"
  by (simp add: manager_ok_def new_manager_def work_ok_def new_repository_def get_tree_def
      repository_ok_new [unfolded new_repository_def])

text \<open>The tree of a published identity, and the tree a message is found in.\<close>

lemma published_tree:
  assumes "manager_ok m" "get_tree i (m_repository m) = Some ob"
  shows "ob < length (m_objects m)" "tree_ok {} (m_objects m ! ob)" "tree_identity_of (m_objects m ! ob) = i"
  using repository_okD(3) [OF manager_okD(2) [OF assms(1)] assms(2)] manager_okD(1) [OF assms(1)] by simp_all

lemma found_tree:
  assumes "manager_ok m" "get_tree_for_reference sc ref (m_repository m) = Some ob"
  obtains i where "identity_scope i = sc" "get_tree i (m_repository m) = Some ob" "ref \<in> known (m_objects m ! ob)"
  using assms(2) unfolding find_tree [OF manager_okD(2) [OF assms(1)]] by blast

lemma updated_trees:
  assumes "manager_ok m" "tree_ok {} t"
  shows "x \<in> set ((m_objects m)[ob := t]) \<Longrightarrow> tree_ok {} x"
  using manager_okD(5) [OF assms(1)] assms(2) set_update_subset_insert [of "m_objects m" ob t] by blast

lemma kept_tree_ok:
  assumes ok: "manager_ok m" and t: "kept (m_objects m ! ob) t" "tree_ok {} t"
  shows "manager_ok (m\<lparr>m_objects := (m_objects m)[ob := t]\<rparr>)"
  using updated_trees [OF ok t(2)] repository_ok_update [OF manager_okD(2) [OF ok]] keptD [OF t(1)]
    work_ok_update [OF manager_okD(3) [OF ok]] manager_okD(4) [OF ok]
  by (intro manager_okI) simp_all

lemma on_tree_ok:
  assumes ok: "manager_ok m" and ob: "ob < length (m_objects m)"
    and f: "\<And>t. tree_ok {} t \<Longrightarrow> kept t (fst (f t)) \<and> tree_ok {} (fst (f t))"
  shows "manager_ok (fst (on_tree ob f m))"
proof -
  obtain t r where f_t: "f (m_objects m ! ob) = (t, r)" by fastforce
  have "kept (m_objects m ! ob) t \<and> tree_ok {} t"
    using f [OF manager_okD(1) [OF ok ob]] by (simp add: f_t)
  with kept_tree_ok [OF ok, of ob t] show ?thesis by (simp add: on_tree_def f_t)
qed

section \<open>Tasks\<close>

lemma set_slot_ok:
  assumes ok: "manager_ok m" and s: "dget (m_tasks m) k = Some s"
    and s': "slot_tree s' = slot_tree s" "slot_claim s' = slot_claim s" "slot_phase s' = Never_Entered \<longrightarrow> slot_recovery s'"
  shows "manager_ok (set_slot k s' m)"
  using ok work_ok_slot [OF manager_okD(3) [OF ok] s s'] by (simp add: manager_ok_def set_slot_def)

lemma on_slot_ok:
  assumes ok: "manager_ok m"
    and f: "\<And>s. slot_tree (f s) = slot_tree s" "\<And>s. slot_claim (f s) = slot_claim s"
      "\<And>s. (slot_phase s = Never_Entered \<longrightarrow> slot_recovery s) \<Longrightarrow> slot_phase (f s) = Never_Entered \<longrightarrow> slot_recovery (f s)"
  shows "manager_ok (on_slot k f m)"
proof (cases "dget (m_tasks m) k")
  case (Some s)
  have "slot_phase s = Never_Entered \<longrightarrow> slot_recovery s" using work_okD(2) [OF manager_okD(3) [OF ok] Some] by blast
  from set_slot_ok [OF ok Some f(1,2) f(3) [OF this]] show ?thesis by (simp add: on_slot_def Some)
qed (simp add: on_slot_def ok)

lemma begin_processing_fields [simp]:
  "slot_tree (begin_processing s) = slot_tree s" "slot_claim (begin_processing s) = slot_claim s"
  "slot_phase (begin_processing s) \<noteq> Never_Entered"
  by (simp_all add: begin_processing_def)

lemma task_turn_ok: "manager_ok m \<Longrightarrow> manager_ok (on_slot k task_turn m)"
  by (erule on_slot_ok) (simp_all add: task_turn_def split: task_phase.split)

lemma runner_over_ok: "manager_ok m \<Longrightarrow> manager_ok (on_slot k (runner_over raised) m)"
  by (erule on_slot_ok) (simp_all add: runner_over_def)

lemma task_killed_ok: "manager_ok m \<Longrightarrow> manager_ok (on_slot k (\<lambda>s. s\<lparr>slot_kill := True\<rparr>) m)"
  by (erule on_slot_ok) simp_all

lemma processor_cancel_ok:
  assumes ok: "manager_ok m"
  shows "manager_ok (fst (processor_cancel c reason m))"
proof (cases "dget (m_tasks m) (claim_id c)")
  case (Some s)
  note s = work_okD(2) [OF manager_okD(3) [OF ok] Some]
  show ?thesis
    unfolding processor_cancel_def Some option.case Let_def
    by (auto intro!: set_slot_ok [OF ok Some] simp: s)
qed (simp add: processor_cancel_def ok)

lemma cancel_active_task_ok: "manager_ok m \<Longrightarrow> manager_ok (fst (cancel_active_task ob reason tr m))"
  using processor_cancel_ok [of m _ reason]
  by (simp add: cancel_active_task_def split_beta split: option.split)

section \<open>Reports\<close>

lemma manager_record_ok:
  assumes ok: "manager_ok m"
  shows "manager_ok (fst (manager_record_session c sid m))"
proof (cases "get_tree (claim_identity c) (m_repository m)")
  case (Some ob)
  from on_tree_ok [OF ok published_tree(1) [OF ok Some], of "record_session (claim_id c) sid"] kept_record record_session_ok
  show ?thesis by (simp add: manager_record_session_def Some)
qed (simp add: manager_record_session_def ok)

lemma manager_complete_ok:
  assumes ok: "manager_ok m"
  shows "manager_ok (fst (manager_complete_claim c sid m))"
proof (cases "get_tree (claim_identity c) (m_repository m)")
  case (Some ob)
  from on_tree_ok [OF ok published_tree(1) [OF ok Some], of "complete_claim (claim_id c) sid"] kept_complete complete_claim_ok
  show ?thesis by (simp add: manager_complete_claim_def Some)
qed (simp add: manager_complete_claim_def ok)

lemma manager_fail_ok:
  assumes ok: "manager_ok m"
  shows "\<exists>m' r. manager_fail_claim c propagate m = Some (m', r) \<and> manager_ok m' \<and> m_tasks m' = m_tasks m"
proof (cases "get_tree (claim_identity c) (m_repository m)")
  case None
  with ok show ?thesis by (simp add: manager_fail_claim_def)
next
  case (Some ob)
  note t = published_tree [OF ok Some]
  from fail_claim_ok [OF t(2), of "claim_id c" propagate] obtain t' r where
    f: "fail_claim (claim_id c) propagate (m_objects m ! ob) = Some (t', Inr r)" "tree_ok {} t'" by blast
  have "kept (m_objects m ! ob) t'" using kept_fail [OF f(1)] by simp
  from kept_tree_ok [OF ok this f(2)] f(1) show ?thesis
    by (simp add: manager_fail_claim_def Some on_tree_def)
qed

lemma fail_claim_task_ok:
  assumes ok: "manager_ok m"
  shows "\<exists>m'. fail_task_claim k m = Some m' \<and> manager_ok m'"
proof (cases "dget (m_tasks m) k")
  case (Some s)
  obtain m' r where f: "manager_fail_claim (slot_claim s) True m = Some (m', r)" "manager_ok m'" "m_tasks m' = m_tasks m"
    using manager_fail_ok [OF ok] by blast
  have s': "dget (m_tasks m') k = Some s" by (simp add: f(3) Some)
  have "manager_ok (set_slot k (s\<lparr>slot_phase := Finishing\<rparr>) m')" by (rule set_slot_ok [OF f(2) s']) simp_all
  moreover have "manager_ok (set_slot k (s\<lparr>slot_phase := Finishing\<rparr>) m)" by (rule set_slot_ok [OF ok Some]) simp_all
  ultimately show ?thesis using ok Some f(1) by (auto simp: fail_task_claim_def)
qed (simp add: fail_task_claim_def ok)

section \<open>Finishing\<close>

lemma running_identity:
  assumes "tree_ok {} t" "running t = Some c"
  shows "claim_identity c = tree_identity_of t"
  using tree_baseD(5) [OF tree_okD(1) [OF assms(1)]] assms(2) by (auto simp: running_def claim_ok_def)

lemma finish_and_continue_ok:
  assumes ok: "manager_ok m" and s: "dget (m_tasks m) k = Some s" and cid: "dget (m_tasks m) cid = None"
  shows "manager_ok (finish_and_continue cid k s m)"
proof -
  let ?ob = "slot_tree s" and ?c = "slot_claim s"
  note o = work_okD(2) [OF manager_okD(3) [OF ok] s]
  have ob: "?ob < length (m_objects m)" and rn: "running (m_objects m ! ?ob) = Some ?c" using o by simp_all
  note t = manager_okD(1) [OF ok ob]
  from finish_started [OF t rn refl, of cid] obtain t' r where f:
    "finish_and_claim_next cid (claim_id ?c) (m_objects m ! ?ob) = (t', Inr r)" "tree_ok {} t'"
    "tree_identity_of t' = tree_identity_of (m_objects m ! ?ob)" "known t' = known (m_objects m ! ?ob)"
    "running t' = next_claim r" "\<And>c'. next_claim r = Some c' \<Longrightarrow> claim_id c' = cid" by blast
  let ?objs = "(m_objects m)[?ob := t']"
  have repo: "repository_ok ?objs (m_repository m)" by (rule repository_ok_update [OF manager_okD(2) [OF ok] f(3,4)])
  have trees: "\<And>x. x \<in> set ?objs \<Longrightarrow> tree_ok {} x" by (rule updated_trees [OF ok f(2)])
  have bound: "\<And>i j. get_tree i (m_repository m) = Some j \<Longrightarrow> j < length (m_objects m)"
    using repository_okD(3) [OF manager_okD(2) [OF ok]] by blast
  let ?published = "get_tree (claim_identity ?c) (m_repository m) = Some ?ob"
  show ?thesis
  proof (cases "\<exists>c'. next_claim r = Some c' \<and> ?published")
    case True
    then obtain c' where c': "next_claim r = Some c'" "?published" by blast
    have fresh: "dget (m_tasks m) (claim_id c') = None" using f(6) [OF c'(1)] cid by simp
    have "work_ok ?objs (m_repository m) (dpop k (dset (claim_id c') (new_slot ?ob c' True) (m_tasks m)))"
      by (rule work_ok_next [OF manager_okD(3) [OF ok] s _ fresh bound]) (simp_all add: f(5) c'(1))
    with trees repo manager_okD(4) [OF ok] show ?thesis
      using c' fresh by (intro manager_okI) (simp_all add: finish_and_continue_def finish_claim_def on_tree_def f(1) launch_def)
  next
    case False
    have "running t' = None \<or> (\<forall>i. get_tree i (m_repository m) \<noteq> Some ?ob)"
    proof (cases "next_claim r")
      case (Some c')
      with False have np: "\<not> ?published" by blast
      have "get_tree i (m_repository m) \<noteq> Some ?ob" for i
        using np published_tree(3) [OF ok, of i ?ob] running_identity [OF t rn] by auto
      then show ?thesis by blast
    qed (simp add: f(5))
    from work_ok_end [OF manager_okD(3) [OF ok] s this] have "work_ok ?objs (m_repository m) (dpop k (m_tasks m))" .
    moreover have "finish_and_continue cid k s m =
        m\<lparr>m_objects := ?objs, m_tasks := dpop k (m_tasks m), m_failures := m_failures m\<rparr>"
      using False by (cases "next_claim r") (simp_all add: finish_and_continue_def finish_claim_def on_tree_def f(1))
    ultimately show ?thesis using trees repo manager_okD(4) [OF ok] by (simp add: manager_ok_def)
  qed
qed

lemma finish_task_ok: "manager_ok m \<Longrightarrow> dget (m_tasks m) cid = None \<Longrightarrow> manager_ok (finish_task cid k m)"
  by (simp add: finish_task_def finish_and_continue_ok split: option.split)

section \<open>Cancellation\<close>

lemma processor_cancel_frame [simp]:
  "m_objects (fst (processor_cancel c reason m)) = m_objects m"
  "m_repository (fst (processor_cancel c reason m)) = m_repository m"
  by (simp_all add: processor_cancel_def set_slot_def Let_def split: option.split)

lemma cancel_active_task_frame [simp]:
  "m_objects (fst (cancel_active_task ob reason tr m)) = m_objects m"
  "m_repository (fst (cancel_active_task ob reason tr m)) = m_repository m"
  by (simp_all add: cancel_active_task_def split_beta split: option.split)

lemma on_tree_frame [simp]:
  "length (m_objects (fst (on_tree ob f m))) = length (m_objects m)"
  "m_repository (fst (on_tree ob f m)) = m_repository m"
  by (simp_all add: on_tree_def split_beta)

lemma cancel_in_tree_fst:
  "fst (cancel_in_tree ob f reason m) =
     (case snd (on_tree ob f m) of
        Inl e \<Rightarrow> fst (on_tree ob f m)
      | Inr tr \<Rightarrow> fst (cancel_active_task ob reason tr (fst (on_tree ob f m))))"
  by (simp add: cancel_in_tree_def split_beta split: sum.split)

lemma cancel_in_tree_ok:
  assumes ok: "manager_ok m" and ob: "ob < length (m_objects m)"
    and f: "\<And>t. tree_ok {} t \<Longrightarrow> kept t (fst (f t)) \<and> tree_ok {} (fst (f t))"
  shows "manager_ok (fst (cancel_in_tree ob f reason m))"
    "length (m_objects (fst (cancel_in_tree ob f reason m))) = length (m_objects m)"
    "m_repository (fst (cancel_in_tree ob f reason m)) = m_repository m"
  using on_tree_ok [OF ok ob f] cancel_active_task_ok
  by (simp_all add: cancel_in_tree_fst split: sum.split)

lemma manager_cancel_node_ok:
  assumes ok: "manager_ok m"
  shows "manager_ok (fst (manager_cancel_node sc ref reason m))"
proof (cases "get_tree_for_reference sc ref (m_repository m)")
  case (Some ob)
  obtain i where "get_tree i (m_repository m) = Some ob" using found_tree [OF ok Some] by blast
  note ob = published_tree(1) [OF ok this]
  show ?thesis
    using ok cancel_in_tree_ok(1) [OF ok ob, of "cancel_node _" reason] kept_cancel_node cancel_node_ok
    by (auto simp: manager_cancel_node_def Some split_beta split: option.split)
qed (simp add: manager_cancel_node_def ok)

lemma cancel_all_keeps: "tree_ok {} t \<Longrightarrow> kept t (fst (cancel_all t)) \<and> tree_ok {} (fst (cancel_all t))"
  using kept_cancel_all cancel_all_ok by blast

lemma cancel_trees_ok:
  "manager_ok m \<Longrightarrow> \<forall>ob \<in> set obs. ob < length (m_objects m) \<Longrightarrow> manager_ok (fst (cancel_trees obs reason acc m))"
proof (induction obs arbitrary: acc m)
  case (Cons ob obs)
  obtain m' r where step: "cancel_in_tree ob cancel_all reason m = (m', r)" by fastforce
  have "ob < length (m_objects m)" using Cons.prems by simp
  from cancel_in_tree_ok [OF Cons.prems(1) this cancel_all_keeps, of reason]
  have m': "manager_ok m'" "length (m_objects m') = length (m_objects m)" by (simp_all add: step)
  show ?case
  proof (cases r)
    case (Inr c)
    with Cons.IH [OF m'(1)] Cons.prems(2) m'(2) show ?thesis by (simp add: step)
  qed (simp add: step m'(1))
qed simp

lemma repository_trees_bound:
  assumes ok: "manager_ok m" and ob: "ob \<in> set (repository_trees (m_repository m))"
  shows "ob < length (m_objects m)"
proof -
  obtain i where "(i, ob) \<in> set (repo_trees (m_repository m))" using ob by (auto simp: repository_trees_def)
  then have "get_tree i (m_repository m) = Some ob"
    using repository_okD(1) [OF manager_okD(2) [OF ok]] unfolding get_tree_def by simp
  then show ?thesis using published_tree(1) [OF ok] by blast
qed

lemma manager_cancel_all_ok: "manager_ok m \<Longrightarrow> manager_ok (fst (manager_cancel_all reason m))"
  unfolding manager_cancel_all_def using repository_trees_bound by (intro cancel_trees_ok) auto

lemma remove_tree_ok:
  assumes ok: "manager_ok m"
  shows "manager_ok (m\<lparr>m_repository := remove_tree i (m_repository m)\<rparr>)"
proof -
  note r = repository_ok_remove [OF manager_okD(2) [OF ok], where i = i]
  have "work_ok (m_objects m) (remove_tree i (m_repository m)) (m_tasks m)"
    by (rule work_ok_fewer [OF manager_okD(3) [OF ok]]) (simp add: r(2) split: if_splits)
  with r(1) show ?thesis using ok by (simp add: manager_ok_def)
qed

lemma clear_trees_ok:
  "manager_ok m \<Longrightarrow> \<forall>ob \<in> set obs. ob < length (m_objects m) \<Longrightarrow> manager_ok (fst (clear_trees sc obs reason acc m))"
proof (induction obs arbitrary: acc m)
  case (Cons ob obs)
  let ?i = "tree_identity_of (m_objects m ! ob)"
  show ?case
  proof (cases "identity_scope ?i = sc")
    case False
    then show ?thesis using Cons by (simp add: Let_def)
  next
    case True
    obtain m' r where step: "cancel_in_tree ob cancel_all reason m = (m', r)" by fastforce
    have "ob < length (m_objects m)" using Cons.prems by simp
    from cancel_in_tree_ok [OF Cons.prems(1) this cancel_all_keeps, of reason]
    have m': "manager_ok m'" "length (m_objects m') = length (m_objects m)" by (simp_all add: step)
    show ?thesis
    proof (cases r)
      case (Inr c)
      with True Cons.IH [OF remove_tree_ok [OF m'(1)], of ?i] Cons.prems(2) m'(2) show ?thesis
        by (simp add: step Let_def)
    qed (use True m'(1) in \<open>simp add: step Let_def\<close>)
  qed
qed simp

lemma clear_scope_ok: "manager_ok m \<Longrightarrow> manager_ok (fst (clear_scope sc reason m))"
  unfolding clear_scope_def using repository_trees_bound by (intro clear_trees_ok) auto

section \<open>Removing messages\<close>

lemma repository_ok_unpublished:
  assumes ok: "repository_ok objs r" and ob: "\<And>i. get_tree i r \<noteq> Some ob"
  shows "repository_ok (objs[ob := t]) r"
proof -
  have "objs[ob := t] ! j = objs ! j" if "get_tree i r = Some j" for i j
    using ob that by (metis nth_list_update_neq)
  note same = this
  have found: "(\<exists>j. get_tree i r = Some j \<and> x \<in> known (objs[ob := t] ! j)) \<longleftrightarrow>
      (\<exists>j. get_tree i r = Some j \<and> x \<in> known (objs ! j))" for i x
    using same by metis
  have "j < length (objs[ob := t]) \<and> tree_identity_of (objs[ob := t] ! j) = i \<and> identity_root i \<in> known (objs[ob := t] ! j)"
    if "get_tree i r = Some j" for i j
    using repository_okD(3) [OF ok that] same [OF that] by simp
  with repository_okD(1,2,4) [OF ok] show ?thesis unfolding repository_ok_def found by blast
qed

lemma removed_ok:
  assumes ok: "manager_ok m" and i: "get_tree i (m_repository m) = Some ob"
    and t: "tree_ok {} t" "tree_identity_of t = i" "running t = running (m_objects m ! ob)"
      "known t = known (m_objects m ! ob) - removed_message_ids rm"
      "removed_entire_tree rm \<longleftrightarrow> identity_root i \<in> removed_message_ids rm"
  shows "manager_ok (forget_messages i rm (m\<lparr>m_objects := (m_objects m)[ob := t]\<rparr>))"
proof -
  let ?objs = "(m_objects m)[ob := t]"
  note repo = manager_okD(2) [OF ok]
  have trees: "\<And>x. x \<in> set ?objs \<Longrightarrow> tree_ok {} x" by (rule updated_trees [OF ok t(1)])
  have work: "work_ok ?objs (m_repository m) (m_tasks m)" by (rule work_ok_update [OF manager_okD(3) [OF ok] t(3)])
  show ?thesis
  proof (cases "removed_entire_tree rm")
    case True
    note r = repository_ok_remove [OF repo, where i = i]
    have "get_tree j (remove_tree i (m_repository m)) \<noteq> Some ob" for j
      using repository_okD(3) [OF repo i] repository_okD(3) [OF repo, of j ob] by (auto simp: r(2))
    from repository_ok_unpublished [OF r(1) this]
    have "repository_ok ?objs (remove_tree i (m_repository m))" .
    moreover have "work_ok ?objs (remove_tree i (m_repository m)) (m_tasks m)"
      by (rule work_ok_fewer [OF work]) (simp add: r(2) split: if_splits)
    ultimately show ?thesis using True trees manager_okD(4) [OF ok] by (simp add: manager_ok_def forget_messages_def)
  next
    case False
    then have "identity_root i \<notin> removed_message_ids rm" using t(5) by simp
    from repository_ok_unregister [OF repo i t(2,4) this]
    have "repository_ok ?objs (unregister_references i (removed_message_ids rm) (m_repository m))" .
    moreover have "work_ok ?objs (unregister_references i (removed_message_ids rm) (m_repository m)) (m_tasks m)"
      by (rule work_ok_fewer [OF work]) (simp add: get_tree_def unregister_references_def)
    ultimately show ?thesis using False trees manager_okD(4) [OF ok] by (simp add: manager_ok_def forget_messages_def)
  qed
qed

lemma manager_remove_ok:
  assumes ok: "manager_ok m" and ord: "set_order ord"
  shows "\<exists>m' r. manager_remove_subtree ord sc ref reason m = Some (m', r) \<and> manager_ok m'"
proof (cases "get_tree_for_reference sc ref (m_repository m)")
  case None
  with ok show ?thesis by (simp add: manager_remove_subtree_def)
next
  case (Some ob)
  obtain i where i: "get_tree i (m_repository m) = Some ob" using found_tree [OF ok Some] by blast
  note t = published_tree [OF ok i]
  let ?t = "m_objects m ! ob"
  show ?thesis
  proof (cases "resolve_reference (graph ?t) ref")
    case None
    with ok Some show ?thesis by (simp add: manager_remove_subtree_def resolve_reply_def)
  next
    case found: (Some nk)
    obtain n kind where nk: "resolve_reference (graph ?t) ref = Some (n, kind)" using found by (cases nk) simp
    obtain target where target: "resolve_reply ref ?t = Some target" "reply_reference target = ref"
      using nk by (simp add: resolve_reply_def)
    obtain t' res where step: "remove_message_subtree ord ref ?t = Some (t', res)" "tree_ok {} t'"
      using remove_subtree_ok [OF t(2) ord] by blast
    let ?m = "m\<lparr>m_objects := (m_objects m)[ob := t']\<rparr>"
    have upd: "(m_objects m)[ob := t'] ! ob = t'" using t(1) by simp
    from remove_known [OF tree_okD(1) [OF t(2)] ord nk step(1)]
    show ?thesis
    proof
      assume "kept ?t t' \<and> (\<exists>e. res = Inl e)"
      then obtain e where e: "kept ?t t'" "res = Inl e" by blast
      from kept_tree_ok [OF ok e(1) step(2)] show ?thesis
        using Some target step(1) e(2) by (simp add: manager_remove_subtree_def on_tree_def)
    next
      assume "\<exists>rm. res = Inr rm \<and> tree_identity_of t' = tree_identity_of ?t \<and> running t' = running ?t \<and>
        known t' = known ?t - removed_message_ids rm \<and>
        (removed_entire_tree rm \<longleftrightarrow> root_id (graph ?t) \<in> removed_message_ids rm) \<and>
        cancelled_claim (removal_cancellation rm) \<in> {None, running ?t}"
      then obtain rm where rm: "res = Inr rm" "tree_identity_of t' = i" "running t' = running ?t"
          "known t' = known ?t - removed_message_ids rm"
          "removed_entire_tree rm \<longleftrightarrow> root_id (graph ?t) \<in> removed_message_ids rm"
        using t(3) by auto
      have "root_id (graph ?t) = identity_root i"
        using graph_okD(3) [OF tree_baseD(1) [OF tree_okD(1) [OF t(2)]]] t(3) by (simp add: tree_identity_of_def)
      then have "manager_ok (forget_messages i rm ?m)"
        using removed_ok [OF ok i step(2) rm(2,3,4)] rm(5) by simp
      from cancel_active_task_ok [OF this, of ob reason "removal_cancellation rm"] show ?thesis
        using Some target step(1) rm(1,2)
        by (simp add: manager_remove_subtree_def on_tree_def upd split_beta)
    qed
  qed
qed

section \<open>Admission\<close>

text \<open>Admitting a message again starts nothing, for nothing waits in a tree that runs nothing.\<close>

lemma duplicate_keeps:
  assumes ok: "tree_ok {} t"
  shows "kept t (fst (enqueue_or_claim cid k t)) \<and> tree_ok {} (fst (enqueue_or_claim cid k t)) \<and>
    decided (snd (enqueue_or_claim cid k t)) = None"
proof -
  have "decided (snd (enqueue_or_claim cid k t)) = None"
  proof (rule ccontr)
    assume "decided (snd (enqueue_or_claim cid k t)) \<noteq> None"
    then obtain c where c: "decided (snd (enqueue_or_claim cid k t)) = Some c" by blast
    then have "running t = None" using enqueue_started [of cid k t] by (simp add: started_def)
    then have idle: "active t = None" by (simp add: running_def)
    have "tree_node t k = None \<or> (\<exists>n. tree_node t k = Some n \<and> state n \<noteq> PENDING)"
      using tree_baseD(3) [OF tree_okD(1) [OF ok], of k] tree_okD(2) [OF ok idle] by fastforce
    with c show False by (simp add: enqueue_rejects decided_def rejected_def)
  qed
  with enqueue_started [of cid k t] enqueue_ok [OF ok, of cid k] show ?thesis
    by (simp add: kept_def started_def)
qed

lemma add_returns:
  assumes ok: "tree_ok {} t" and ne: "nid \<noteq> []" "status \<noteq> []"
    and step: "add_and_enqueue cid nid sc pr status parent reference t = (t', r)"
  shows "tree_ok {} t' \<and> (t' = t \<and> (\<exists>e. r = Inl e) \<or> (\<exists>d. r = Inr d) \<and> known t' = insert nid (insert status (known t)))"
proof -
  have "tree_ok {} t'" using add_and_enqueue_ok [OF ok ne, of cid sc pr parent reference] step by simp
  moreover have "t' = t \<and> (\<exists>e. r = Inl e) \<or> (\<exists>d. r = Inr d) \<and> known t' = insert nid (insert status (known t))"
  proof (cases "add_node nid sc pr status parent reference (graph t)")
    case (Inl e)
    with step show ?thesis by (auto simp: add_and_enqueue_def)
  next
    case (Inr g)
    let ?t = "t\<lparr>graph := g\<rparr>"
    have fresh: "nid \<notin> set (queued ?t)"
      using add_fresh [OF tree_okD(1) [OF ok]] add_node_cases(3) [OF Inr] by (simp add: queued_def tree_node_def)
    have "queued ?t = []" if "active ?t = None" using tree_okD(2) [OF ok] that by (simp add: queued_def)
    from enqueue_keeps_ok [OF add_base [OF ok Inr ne] this, of cid] fresh
    have "\<exists>d. snd (enqueue_or_claim cid nid ?t) = Inr d" by blast
    then have "\<exists>d. r = Inr d" using step Inr by (simp add: add_and_enqueue_def)
    with add_started [OF step] show ?thesis by auto
  qed
  ultimately show ?thesis by blast
qed

text \<open>What launching the decision's claim does.\<close>

lemma launch_decision_ok:
  assumes trees: "\<And>t. t \<in> set (m_objects m) \<Longrightarrow> tree_ok {} t" and repo: "repository_ok (m_objects m) (m_repository m)"
    and fail: "m_failures m = []" and ob: "ob < length (m_objects m)"
    and idle: "dec_claim d = None \<Longrightarrow> work_ok (m_objects m) (m_repository m) (m_tasks m)"
    and start: "\<And>c. dec_claim d = Some c \<Longrightarrow> dget (m_tasks m) (claim_id c) = None \<and>
      work_ok (m_objects m) (m_repository m) (dset (claim_id c) (new_slot ob c False) (m_tasks m))"
  shows "\<exists>m'. launch_decision ob d m = (m', Inr d) \<and> manager_ok m'"
proof (cases "dec_claim d")
  case None
  with trees repo fail idle show ?thesis by (simp add: launch_decision_def manager_ok_def)
next
  case (Some c)
  from start [OF Some] trees repo fail show ?thesis
    by (simp add: launch_decision_def launch_def Some manager_ok_def)
qed

lemma admit_reply_ok:
  assumes ok: "manager_ok m" and i: "get_tree i (m_repository m) = Some ob" "identity_scope i = sc"
    and ne: "nid \<noteq> []" "status \<noteq> []" and cid: "dget (m_tasks m) cid = None"
    and free: "free_reference sc nid (m_repository m)" "free_reference sc status (m_repository m)"
  shows "manager_ok (fst (admit_reply cid sc nid pr status ob target m))"
proof -
  note t = published_tree [OF ok i(1)]
  let ?t = "m_objects m ! ob"
  obtain t' r where step: "add_and_enqueue cid nid sc pr status (reply_node target) (reply_reference target) ?t = (t', r)"
    by fastforce
  note ret = add_returns [OF t(2) ne step] and st = add_started [OF step]
  let ?objs = "(m_objects m)[ob := t']"
  show ?thesis
  proof (cases r)
    case (Inl e)
    then have "t' = ?t" using ret by blast
    then show ?thesis using ok by (simp add: admit_reply_def on_tree_def step Inl)
  next
    case (Inr d)
    then have known: "known t' = insert nid (insert status (known ?t))" and t': "tree_ok {} t'" using ret by blast+
    have id: "tree_identity_of t' = i" using st t(3) by simp
    have upd: "?objs ! ob = t'" using t(1) by simp
    from free i(2) have free': "free_reference (identity_scope i) nid (m_repository m)"
      "free_reference (identity_scope i) status (m_repository m)" by simp_all
    let ?r = "(m_repository m)\<lparr>repo_references :=
      dset (identity_scope i, status) i (dset (identity_scope i, nid) i (repo_references (m_repository m)))\<rparr>"
    have repo: "repository_ok ?objs ?r" by (rule repository_ok_register [OF manager_okD(2) [OF ok] i(1) free' id known])
    have get: "get_tree j ?r = get_tree j (m_repository m)" for j by (simp add: get_tree_def)
    have adm: "admit_reply cid sc nid pr status ob target m =
        launch_decision ob d (m\<lparr>m_objects := ?objs, m_repository := ?r\<rparr>)"
      by (simp add: admit_reply_def on_tree_def step Inr upd id register_free [OF free'])
    have "\<exists>m'. launch_decision ob d (m\<lparr>m_objects := ?objs, m_repository := ?r\<rparr>) = (m', Inr d) \<and> manager_ok m'"
    proof (rule launch_decision_ok)
      show "\<And>x. x \<in> set (m_objects (m\<lparr>m_objects := ?objs, m_repository := ?r\<rparr>)) \<Longrightarrow> tree_ok {} x"
        using updated_trees [OF ok t'] by simp
      show "work_ok (m_objects (m\<lparr>m_objects := ?objs, m_repository := ?r\<rparr>)) (m_repository (m\<lparr>m_objects := ?objs, m_repository := ?r\<rparr>))
          (m_tasks (m\<lparr>m_objects := ?objs, m_repository := ?r\<rparr>))" if "dec_claim d = None"
        using work_ok_fewer [OF work_ok_update [OF manager_okD(3) [OF ok]], of t' ob ?r] st that
        by (simp add: Inr decided_def started_def get)
      fix c assume c: "dec_claim d = Some c"
      then have c': "running ?t = None" "running t' = Some c" "claim_id c = cid"
        using st by (simp_all add: Inr decided_def started_def)
      have "work_ok ?objs ?r (dset (claim_id c) (new_slot ob c False) (m_tasks m))"
        by (rule work_ok_start [OF manager_okD(3) [OF ok]])
          (use t(1) c' cid repository_okD(3) [OF manager_okD(2) [OF ok]] in \<open>auto simp: get\<close>)
      with c'(3) cid show "dget (m_tasks (m\<lparr>m_objects := ?objs, m_repository := ?r\<rparr>)) (claim_id c) = None \<and>
        work_ok (m_objects (m\<lparr>m_objects := ?objs, m_repository := ?r\<rparr>)) (m_repository (m\<lparr>m_objects := ?objs, m_repository := ?r\<rparr>))
          (dset (claim_id c) (new_slot ob c False) (m_tasks (m\<lparr>m_objects := ?objs, m_repository := ?r\<rparr>)))" by simp
    qed (use repo manager_okD(4) [OF ok] t(1) in simp_all)
    then show ?thesis unfolding adm by auto
  qed
qed

lemma new_tree_known:
  assumes "new_tree (new_node nid sc pr status None None) = Inr t"
  shows "known t = {nid, status}" "tree_identity_of t = \<lparr>identity_scope = sc, identity_root = nid\<rparr>"
  using assms
  by (auto simp: new_tree_def new_graph_def new_node_def bind_result_Inr_iff tree_of_graph_def known_def
      all_reference_ids_def tree_identity_of_def split: if_splits)

lemma admit_root_ok:
  assumes ok: "manager_ok m" and ne: "nid \<noteq> []" "status \<noteq> []" and cid: "dget (m_tasks m) cid = None"
    and free: "free_reference sc nid (m_repository m)" "free_reference sc status (m_repository m)"
  shows "manager_ok (fst (admit_root cid sc nid pr status m))"
proof (cases "new_tree (new_node nid sc pr status None None)")
  case (Inl e)
  with ok show ?thesis by (simp add: admit_root_def)
next
  case (Inr t0)
  note n = new_tree_ok [OF Inr ne] and k = new_tree_known [OF Inr]
  obtain t d where step: "enqueue_or_claim cid nid t0 = (t, Inr d)"
  proof -
    have "\<exists>d. snd (enqueue_or_claim cid nid t0) = Inr d"
      by (rule enqueue_keeps_ok [OF tree_okD(1) [OF n(1)], THEN conjunct2]) (simp_all add: n(2))
    then show ?thesis using that by (metis prod.collapse)
  qed
  have t: "tree_ok {} t" using enqueue_settles [OF n(1), of cid] step by simp
  have st: "started cid (dec_claim d) t0 t" "tree_identity_of t = \<lparr>identity_scope = sc, identity_root = nid\<rparr>" "known t = {nid, status}"
    using enqueue_started [of cid nid t0] k by (simp_all add: step decided_def)
  let ?i = "\<lparr>identity_scope = sc, identity_root = nid\<rparr>" and ?r = "m_repository m" and ?n = "length (m_objects m)"
  note repo = manager_okD(2) [OF ok]
  have new: "get_tree ?i ?r = None"
    using repository_okD(3) [OF repo, of ?i] free_referenceD [OF repo free(1), of ?i] by (cases "get_tree ?i ?r") auto
  have free': "free_reference (identity_scope ?i) nid ?r" "free_reference (identity_scope ?i) status ?r"
    using free by simp_all
  let ?refs = "dset (sc, status) ?i (dset (sc, nid) ?i (repo_references ?r))"
  let ?r' = "\<lparr>repo_trees = dset ?i ?n (repo_trees ?r), repo_references = ?refs\<rparr>"
  let ?m = "m\<lparr>m_objects := m_objects m @ [t], m_repository := ?r'\<rparr>"
  have add: "add_tree ?i ?n nid status ?r = Inr ?r'"
    unfolding add_tree_def register_free [OF free'] using new by (cases ?r) simp
  have adm: "admit_root cid sc nid pr status m = launch_decision ?n d ?m"
    by (simp add: admit_root_def Inr step st(2) add)
  have repo': "repository_ok (m_objects m @ [t]) ?r'"
  proof (rule publish_tree [OF repo new st(2)])
    show "distinct (dkeys ?refs)"
      using pd.distinct_store [OF pd.distinct_store [OF repository_okD(2) [OF repo]]] by simp
    show "dget ?refs k = (if fst k = identity_scope ?i \<and> snd k \<in> known t then Some ?i else dget (repo_references ?r) k)" for k
      by (cases k) (auto simp: dget_two st(3))
  qed (use free st(3) in auto)
  have get: "get_tree j ?r' = Some ob \<Longrightarrow> ob \<noteq> ?n \<Longrightarrow> get_tree j ?r = Some ob" for j ob
    by (auto simp: get_tree_def update_conv' split: if_splits)
  have bound: "\<And>j ob. get_tree j ?r = Some ob \<Longrightarrow> ob < ?n" using repository_okD(3) [OF repo] by blast
  have "\<exists>m'. launch_decision ?n d ?m = (m', Inr d) \<and> manager_ok m'"
  proof (rule launch_decision_ok)
    show "work_ok (m_objects ?m) (m_repository ?m) (m_tasks ?m)" if "dec_claim d = None"
      using work_ok_idle [OF manager_okD(3) [OF ok] bound _ get] st(1) that n(3)
      by (simp add: started_def running_def)
    fix c assume "dec_claim d = Some c"
    then have c: "running t = Some c" "claim_id c = cid" using st(1) by (simp_all add: started_def)
    have "work_ok (m_objects m @ [t]) ?r' (dset (claim_id c) (new_slot ?n c False) (m_tasks m))"
      by (rule work_ok_start [OF manager_okD(3) [OF ok]])
        (use c cid get bound in \<open>auto simp: nth_append\<close>)
    with c(2) cid show "dget (m_tasks ?m) (claim_id c) = None \<and>
      work_ok (m_objects ?m) (m_repository ?m) (dset (claim_id c) (new_slot ?n c False) (m_tasks ?m))" by simp
  qed (use manager_okD(4,5) [OF ok] t repo' in auto)
  then show ?thesis unfolding adm by auto
qed

lemma admit_ok:
  assumes ok: "manager_ok m" and ne: "nid \<noteq> []" "status \<noteq> []" and cid: "dget (m_tasks m) cid = None"
  shows "manager_ok (fst (admit cid sc nid pr status parent m))"
proof (cases "duplicate_tree sc nid status (m_repository m)")
  case (Some ob)
  then have "get_tree_for_reference sc nid (m_repository m) = Some ob \<or> get_tree_for_reference sc status (m_repository m) = Some ob"
    by (auto simp: duplicate_tree_def split: option.splits)
  then obtain i where "get_tree i (m_repository m) = Some ob" using found_tree [OF ok] by metis
  from on_tree_ok [OF ok published_tree(1) [OF ok this], of "enqueue_or_claim cid nid"] duplicate_keeps
  show ?thesis by (simp add: admit_def Some split_beta split: sum.split)
next
  case None
  then have free: "free_reference sc nid (m_repository m)" "free_reference sc status (m_repository m)"
    using find_no_tree [OF manager_okD(2) [OF ok]]
    by (auto simp: duplicate_tree_def free_reference_def split: option.splits)
  show ?thesis
  proof (cases parent)
    case None
    with admit_root_ok [OF ok ne cid free] \<open>duplicate_tree _ _ _ _ = None\<close> show ?thesis by (simp add: admit_def)
  next
    case p: (Some p)
    show ?thesis
    proof (cases "get_tree_for_reference sc p (m_repository m)")
      case None
      with \<open>duplicate_tree _ _ _ _ = None\<close> p ok show ?thesis by (simp add: admit_def)
    next
      case (Some ob)
      then obtain i where i: "get_tree i (m_repository m) = Some ob" "identity_scope i = sc" using found_tree [OF ok] by metis
      from admit_reply_ok [OF ok i ne cid free] \<open>duplicate_tree _ _ _ _ = None\<close> p Some ok show ?thesis
        by (simp add: admit_def split: option.split)
    qed
  qed
qed

section \<open>All steps\<close>

lemma manager_step_ok:
  assumes ord: "set_order ord" and ok: "manager_ok m" and e: "manager_event_ok m e"
  shows "manager_ok (manager_step ord m e)"
proof (cases e)
  case (Claim_Failed c propagate)
  with manager_fail_ok [OF ok, of c propagate] show ?thesis by (auto simp: manager_after_def)
next
  case (Failure_Handled k)
  with fail_claim_task_ok [OF ok, of k] show ?thesis by auto
next
  case (Remove_Messages sc ref reason)
  with manager_remove_ok [OF ok ord, of sc ref reason] show ?thesis by (auto simp: manager_after_def)
qed (use ok e admit_ok manager_record_ok manager_complete_ok task_turn_ok runner_over_ok task_killed_ok finish_task_ok
    manager_cancel_node_ok manager_cancel_all_ok clear_scope_ok in simp_all)

interpretation managers: machine "manager_step ord" manager_event_ok "\<lambda>m. set_order ord \<and> manager_ok m" for ord
  by unfold_locales (simp add: manager_step_ok)

end
