(* ===== verification/Manager_Restore.thy ===== *)
theory Manager_Restore
  imports Manager_Steps
begin

text \<open>
  A manager restored from any persisted conversation satisfies the manager's invariant: the ids
  under which the file's trees are indexed are exactly the messages the rebuilt trees know.
\<close>

section \<open>The ids of a snapshot\<close>

lemma optional_id_str:
  assumes "optional_id v name = Inr s"
  shows "s = (if v = JNull then None else Some (py_str rp v))"
  using assms by (cases v) (auto simp: optional_id_def split: if_splits)

lemma required_id_str: "required_id v name = Inr s \<Longrightarrow> v \<noteq> JNull \<and> s = py_str rp v"
  by (cases v) (auto simp: required_id_def optional_id_def split: if_splits)

lemma node_from_snapshot_ids:
  assumes "node_from_snapshot data sc = Inr n"
  shows "required_id (jget data ''node_id'') ''node_id'' = Inr (node_id n)"
    "optional_id (jget data ''status_message_id'') ''status_message_id'' = Inr (status_message_id n)"
proof -
  obtain v where "dget data ''state'' = Some v"
    using assms by (auto simp: node_from_snapshot_def split: option.splits)
  note step = assms [unfolded node_from_snapshot_def this option.case]
  have "required_id (jget data ''node_id'') ''node_id'' = Inr (node_id n) \<and>
    optional_id (jget data ''status_message_id'') ''status_message_id'' = Inr (status_message_id n)"
    using step by (elim bind_result_InrE) (auto split: if_split_asm elim!: bind_result_InrE)
  then show "required_id (jget data ''node_id'') ''node_id'' = Inr (node_id n)"
    "optional_id (jget data ''status_message_id'') ''status_message_id'' = Inr (status_message_id n)" by simp_all
qed

definition node_references :: "message_node \<Rightarrow> string set" where
  "node_references n = insert (node_id n) (set_option (status_message_id n))"

lemma load_node_references:
  assumes "load_node rp sc key j = Inr n"
  shows "set (node_lookup_ids rp (key, j)) = node_references n"
proof -
  obtain data where j: "j = JObj data" "node_from_snapshot data sc = Inr n" "node_id n = key"
    using assms by (auto simp: load_node_def bind_result_Inr_iff split: json.splits if_splits)
  from required_id_str [OF node_from_snapshot_ids(1) [OF j(2)]]
  have "jget data ''node_id'' \<noteq> JNull" "node_id n = py_str rp (jget data ''node_id'')" by simp_all
  moreover from optional_id_str [OF node_from_snapshot_ids(2) [OF j(2)]]
  have "status_message_id n =
      (if jget data ''status_message_id'' = JNull then None else Some (py_str rp (jget data ''status_message_id'')))" .
  ultimately show ?thesis using j(1,3) by (auto simp: node_lookup_ids_def node_references_def)
qed

section \<open>The ids of the rebuilt graph\<close>

lemma link_nodes_known: "link_nodes ks g = Inr h \<Longrightarrow> all_reference_ids h = all_reference_ids g"
proof (induction ks arbitrary: g)
  case (Cons k ks)
  obtain g' where g': "link_node k g = Inr g'" "link_nodes ks g' = Inr h"
    using Cons.prems by (auto elim: bind_result_InrE)
  have "all_reference_ids g' = all_reference_ids g"
    using g'(1) by (auto simp: link_node_def known_modify split: if_splits option.splits)
  with Cons.IH [OF g'(2)] show ?case by simp
qed simp

lemma load_entry_known:
  assumes "load_entry rp (key, j) (g, owner) = Inr (g', owner')"
  shows "root_id g' = root_id g"
    "all_reference_ids g' = all_reference_ids g \<union> (if key = root_id g then {} else set (node_lookup_ids rp (key, j)))"
proof -
  have "root_id g' = root_id g \<and>
    all_reference_ids g' = all_reference_ids g \<union> (if key = root_id g then {} else set (node_lookup_ids rp (key, j)))"
  proof (cases "key = root_id g")
    case True
    with assms show ?thesis by (simp add: load_entry_def)
  next
    case False
    then obtain n where n: "load_node rp (identity_scope (identity g)) key j = Inr n"
      "g' = g\<lparr>nodes := dset (node_id n) n (nodes g),
        status_to_node := (case status_message_id n of None \<Rightarrow> status_to_node g
          | Some s \<Rightarrow> dset s (node_id n) (status_to_node g))\<rparr>"
      using assms by (auto simp: load_entry_def bind_result_Inr_iff split: if_splits)
    have "all_reference_ids g' = all_reference_ids g \<union> node_references n"
      using keys_of_dset [of "node_id n" n "nodes g"] keys_of_dset [of _ "node_id n" "status_to_node g"]
      by (auto simp: n(2) all_reference_ids_def node_references_def split: option.splits)
    then show ?thesis using False by (simp add: load_node_references [OF n(1)] n(2))
  qed
  then show "root_id g' = root_id g"
    "all_reference_ids g' = all_reference_ids g \<union> (if key = root_id g then {} else set (node_lookup_ids rp (key, j)))"
    by blast+
qed

lemma load_entries_known:
  "load_entries rp es (g, owner) = Inr (g', owner') \<Longrightarrow>
     all_reference_ids g' = all_reference_ids g \<union> (\<Union>e \<in> {e \<in> set es. fst e \<noteq> root_id g}. set (node_lookup_ids rp e))"
proof (induction es arbitrary: g owner)
  case (Cons e es)
  obtain key j where e: "e = (key, j)" by fastforce
  obtain g1 o1 where s: "load_entry rp (key, j) (g, owner) = Inr (g1, o1)" "load_entries rp es (g1, o1) = Inr (g', owner')"
    using Cons.prems by (auto simp: e elim: bind_result_InrE)
  show ?case unfolding Cons.IH [OF s(2)] load_entry_known [OF s(1)] by (auto simp: e)
qed simp

lemma load_graph_known:
  assumes load: "load_graph rp s = Inr h" and distinct: "distinct (dkeys (snap_nodes s))"
  shows "all_reference_ids h = set (snapshot_references rp s)"
proof -
  obtain j root g0 g owner where j: "dget (snap_nodes s) (snap_root s) = Some j"
    and root: "load_node rp (snap_scope s) (snap_root s) j = Inr root"
    and g0: "new_graph root = Inr g0"
    and g: "load_entries rp (snap_nodes s) (g0, (node_id root, node_id root) #
        (case status_message_id root of None \<Rightarrow> [] | Some st \<Rightarrow> [(st, node_id root)])) = Inr (g, owner)"
    and h: "link_nodes (dkeys (nodes g)) g = Inr h"
    using load by (auto simp: load_graph_def split: option.splits sum.splits if_splits elim!: bind_result_InrE)
  have id: "node_id root = snap_root s" using load_node_ok(2) [OF root] .
  have root0: "root_id g0 = snap_root s" "all_reference_ids g0 = node_references root"
    using g0 id by (auto simp: new_graph_def all_reference_ids_def node_references_def split: if_splits option.splits)
  have only: "j' = j" if "(snap_root s, j') \<in> set (snap_nodes s)" for j'
    using eq_key_imp_eq_value [OF distinct that map_of_SomeD [OF j]] .
  have mem: "(snap_root s, j) \<in> set (snap_nodes s)" by (rule map_of_SomeD [OF j])
  have "all_reference_ids h = node_references root \<union>
      (\<Union>e \<in> {e \<in> set (snap_nodes s). fst e \<noteq> snap_root s}. set (node_lookup_ids rp e))"
    using link_nodes_known [OF h] load_entries_known [OF g] root0 by simp
  also have "\<dots> = set (node_lookup_ids rp (snap_root s, j)) \<union>
      (\<Union>e \<in> {e \<in> set (snap_nodes s). fst e \<noteq> snap_root s}. set (node_lookup_ids rp e))"
    by (simp add: load_node_references [OF root])
  also have "\<dots> = (\<Union>e \<in> insert (snap_root s, j) {e \<in> set (snap_nodes s). fst e \<noteq> snap_root s}. set (node_lookup_ids rp e))"
    by simp
  also have "insert (snap_root s, j) {e \<in> set (snap_nodes s). fst e \<noteq> snap_root s} = set (snap_nodes s)"
  proof (intro equalityI subsetI)
    fix e assume e: "e \<in> set (snap_nodes s)"
    show "e \<in> insert (snap_root s, j) {e \<in> set (snap_nodes s). fst e \<noteq> snap_root s}"
    proof (cases "fst e = snap_root s")
      case True
      then have "e = (snap_root s, snd e)" by (simp add: prod_eq_iff)
      with e only [of "snd e"] show ?thesis by simp
    qed (use e in simp)
  qed (use mem in auto)
  finally show ?thesis by (simp add: snapshot_references_def)
qed

lemma restored_known:
  assumes t: "tree_from_snapshot rp s = Some (Inr t)" and distinct: "distinct (dkeys (snap_nodes s))"
  shows "known t = set (snapshot_references rp s)"
proof -
  obtain g where g: "graph_from_snapshot rp s = Some (Inr g)"
    using t by (auto simp: tree_from_snapshot_def split: option.splits sum.splits)
  have load: "load_graph rp s = Inr g"
    using g by (auto simp: graph_from_snapshot_def check_connected_def split: sum.splits option.splits if_splits)
  have ok: "graph_ok g" using graph_from_snapshot_total [of rp s] g by auto
  from tree_from_graph [OF g ok] t have node: "tree_node t k = map_option settle_node (get_node g k)" and tok: "tree_ok {} t" for k
    by auto
  have same: "status_message_id (settle_node n) = status_message_id n" for n by (simp add: settle_node_def)
  have "(\<exists>n. map_option settle_node (get_node g k) = Some n \<and> (k = r \<or> status_message_id n = Some r)) \<longleftrightarrow>
      (\<exists>n. get_node g k = Some n \<and> (k = r \<or> status_message_id n = Some r))" for k r
    by (cases "get_node g k") (simp_all add: same)
  then have "r \<in> known t \<longleftrightarrow> r \<in> all_reference_ids g" for r
    unfolding known_iff [OF tree_okD(1) [OF tok]] reference_ids_iff [OF ok] node by simp
  then show ?thesis using load_graph_known [OF load distinct] by blast
qed

section \<open>Restoring\<close>

lemma fold_references:
  "distinct (dkeys d) \<Longrightarrow> distinct (dkeys (fold (\<lambda>ref. dset (sc, ref) i) refs d))"
  "dget (fold (\<lambda>ref. dset (sc, ref) i) refs d) k = (if fst k = sc \<and> snd k \<in> set refs then Some i else dget d k)"
proof -
  show "distinct (dkeys d) \<Longrightarrow> distinct (dkeys (fold (\<lambda>ref. dset (sc, ref) i) refs d))"
    by (induction refs arbitrary: d) (simp_all add: pd.distinct_store)
  show "dget (fold (\<lambda>ref. dset (sc, ref) i) refs d) k = (if fst k = sc \<and> snd k \<in> set refs then Some i else dget d k)"
    by (induction refs arbitrary: d) (auto simp: update_conv')
qed

text \<open>What a half-restored conversation already is.\<close>

definition restored_ok :: "restored_conversations \<Rightarrow> bool" where
  "restored_ok c \<longleftrightarrow>
     (\<forall>t \<in> set (rc_objects c). tree_ok {} t \<and> running t = None) \<and> repository_ok (rc_objects c) (rc_repository c)"

lemma publish_restored_ok:
  assumes ok: "restored_ok c" and t: "tree_ok {} t" "running t = None" "known t = set refs"
      "identity_root (tree_identity_of t) \<in> known t"
    and new: "get_tree (tree_identity_of t) (rc_repository c) = None"
      "\<not> list_ex (\<lambda>ref. has_reference (identity_scope (tree_identity_of t)) ref (rc_repository c)) refs"
  shows "restored_ok (publish_restored t refs c)"
proof -
  have repo: "repository_ok (rc_objects c) (rc_repository c)" using ok by (simp add: restored_ok_def)
  let ?i = "tree_identity_of t"
  have "repository_ok (rc_objects c @ [t]) \<lparr>repo_trees = dset ?i (length (rc_objects c)) (repo_trees (rc_repository c)),
      repo_references = fold (\<lambda>ref. dset (identity_scope ?i, ref) ?i) refs (repo_references (rc_repository c))\<rparr>"
  proof (rule publish_tree [OF repo new(1) refl t(4)])
    show "free_reference (identity_scope ?i) m (rc_repository c)" if "m \<in> known t" for m
      using that new(2) by (auto simp: t(3) list_ex_iff has_reference_def free_reference_def)
  qed (simp_all add: fold_references repository_okD(2) [OF repo] t(3))
  then show ?thesis using ok t(1,2) by (auto simp: restored_ok_def publish_restored_def Let_def)
qed

lemma restored_root:
  assumes "tree_ok {} t" "nodes (graph t) \<noteq> []"
  shows "identity_root (tree_identity_of t) \<in> known t"
proof -
  note g = tree_baseD(1) [OF tree_okD(1) [OF assms(1)]]
  have "hd (dkeys (nodes (graph t))) = root_id (graph t)" using g assms(2) by (simp add: graph_ok_def rooted_def)
  then have "root_id (graph t) \<in> set (dkeys (nodes (graph t)))" using assms(2) by (metis hd_in_set map_is_Nil_conv)
  then show ?thesis using graph_okD(3) [OF g] by (simp add: known_def all_reference_ids_def tree_identity_of_def)
qed

lemma restore_tree_ok:
  assumes ok: "restored_ok c" and distinct: "distinct (dkeys (snap_nodes s))"
  shows "\<exists>c'. restore_tree rp s c = Some c' \<and> restored_ok c'"
proof -
  obtain r where r: "tree_from_snapshot rp s = Some r"
    "\<And>t. r = Inr t \<Longrightarrow> tree_ok {} t \<and> idle t \<and> nodes (graph t) \<noteq> []"
    using tree_from_snapshot_total [of rp s] by blast
  show ?thesis
  proof (cases r)
    case (Inl e)
    with r ok show ?thesis by (simp add: restore_tree_def)
  next
    case (Inr t)
    note t = r(2) [OF Inr]
    have "running t = None" using t by (simp add: running_def idle_def)
    with publish_restored_ok [OF ok, of t "snapshot_references rp s"] t restored_root [of t] restored_known [of rp s t]
      r(1) Inr distinct ok
    show ?thesis by (auto simp: restore_tree_def Let_def)
  qed
qed

lemma restore_trees_ok:
  "restored_ok c \<Longrightarrow> \<forall>s \<in> set ss. distinct (dkeys (snap_nodes s)) \<Longrightarrow>
     \<exists>c'. restore_trees rp ss c = Some c' \<and> restored_ok c'"
proof (induction ss arbitrary: c)
  case (Cons s ss)
  obtain c1 where c1: "restore_tree rp s c = Some c1" "restored_ok c1"
    using restore_tree_ok [OF Cons.prems(1), of s rp] Cons.prems(2) by auto
  with Cons.IH [OF c1(2)] Cons.prems(2) show ?case by simp
qed simp

lemma manager_from_snapshot_ok:
  assumes "\<forall>s \<in> set (map snd c). distinct (dkeys (snap_nodes s))"
  shows "\<exists>m. manager_from_snapshot rp c = Some m \<and> manager_ok m \<and> is_idle m"
proof -
  have "restored_ok nothing_restored" by (simp add: restored_ok_def nothing_restored_def)
  from restore_trees_ok [OF this assms] obtain r where r: "repository_from_snapshot rp c = Some r" "restored_ok r"
    by (auto simp: repository_from_snapshot_def)
  have repo: "repository_ok (rc_objects r) (rc_repository r)" using r(2) by (simp add: restored_ok_def)
  have "running (rc_objects r ! ob) = None" if "get_tree i (rc_repository r) = Some ob" for i ob
    using repository_okD(3) [OF repo that] r(2) by (simp add: restored_ok_def)
  then have "work_ok (rc_objects r) (rc_repository r) []" by (auto simp: work_ok_def)
  with r repo show ?thesis
    by (auto simp: manager_from_snapshot_def manager_ok_def restored_ok_def new_manager_def is_idle_def)
qed

end
