(* ===== verification/Manager_Drain.thy ===== *)
theory Manager_Drain
  imports Manager_Restore
begin

text \<open>
  The manager never gets stuck: from every state that satisfies the invariant, the turns of its
  tasks alone, once the runners return, bring it to rest with nothing left waiting.
\<close>

section \<open>Work that is left\<close>

fun task_event :: "manager_event \<Rightarrow> bool" where
  "task_event (Task_Turn _) \<longleftrightarrow> True"
| "task_event (Runner_Over _ _) \<longleftrightarrow> True"
| "task_event (Failure_Handled _) \<longleftrightarrow> True"
| "task_event (Task_Finished _ _) \<longleftrightarrow> True"
| "task_event _ \<longleftrightarrow> False"

definition waiting :: "message_tree list \<Rightarrow> nat" where
  "waiting objs = sum_list (map (\<lambda>t. length (queued t)) objs)"

definition work_left :: "tree_manager \<Rightarrow> nat" where
  "work_left m = waiting (m_objects m) + length (m_tasks m)"

lemma waiting_update:
  assumes "ob < length objs"
  shows "waiting (objs[ob := t]) + length (queued (objs ! ob)) = waiting objs + length (queued t)"
  using assms
proof (induction objs arbitrary: ob)
  case (Cons x xs)
  then show ?case by (cases ob) (auto simp: waiting_def)
qed simp

lemma length_dset: "length (dset k v d) = (if k \<in> set (dkeys d) then length d else Suc (length d))"
  by (induction d) auto

lemma length_dpop: "distinct (dkeys d) \<Longrightarrow> dget d k = Some v \<Longrightarrow> length (dpop k d) + 1 = length d"
proof (induction d)
  case (Cons kv d)
  have "k \<notin> set (dkeys d) \<Longrightarrow> dpop k d = d" for d :: "('a \<times> 'b) list" by (induction d) auto
  with Cons show ?case by (cases kv) (auto split: if_splits)
qed simp

lemma length_dset_same: "dget d k = Some v \<Longrightarrow> length (dset k w d) = length d"
  by (induction d) auto

section \<open>One task\<close>

definition ready :: "task_slot \<Rightarrow> bool" where
  "ready s \<longleftrightarrow> slot_phase s = Finishing \<or> slot_phase s = Never_Entered \<and> slot_recovery s"

definition reaches :: "(string list \<Rightarrow> string list) \<Rightarrow> tree_manager \<Rightarrow> tree_manager \<Rightarrow> bool" where
  "reaches ord m m' \<longleftrightarrow>
     (\<exists>es. list_all task_event es \<and> permitted manager_event_ok (manager_step ord) m es \<and> m' = run (manager_step ord) m es)"

lemma reaches_refl: "reaches ord m m"
  unfolding reaches_def by (rule exI [of _ "[]"]) simp

lemma reaches_step: "task_event e \<Longrightarrow> manager_event_ok m e \<Longrightarrow> reaches ord (manager_step ord m e) m' \<Longrightarrow> reaches ord m m'"
  unfolding reaches_def by (elim exE) (rule_tac x = "e # es" in exI, simp)

lemma set_slot_frame [simp]:
  "m_objects (set_slot k s m) = m_objects m" "m_repository (set_slot k s m) = m_repository m"
  "dget (m_tasks (set_slot k s m)) k = Some s"
  by (simp_all add: set_slot_def update_conv')

lemma set_slot_work: "dget (m_tasks m) k = Some s0 \<Longrightarrow> work_left (set_slot k s m) = work_left m"
  by (simp add: work_left_def set_slot_def length_dset_same)

text \<open>The turns that bring a task to the point where it finishes its claim.\<close>

lemma turn_steps:
  assumes ok: "manager_ok m" and s: "dget (m_tasks m) k = Some s" and f: "task_event e"
      "manager_event_ok m e" "manager_step ord m e = on_slot k g m" "manager_ok (on_slot k g m)"
    and rest: "\<And>m'. manager_ok m' \<Longrightarrow> dget (m_tasks m') k = Some (g s) \<Longrightarrow> work_left m' = work_left m \<Longrightarrow>
      \<exists>m2 s2. reaches ord m' m2 \<and> manager_ok m2 \<and> dget (m_tasks m2) k = Some s2 \<and> ready s2 \<and> work_left m2 \<le> work_left m'"
  shows "\<exists>m2 s2. reaches ord m m2 \<and> manager_ok m2 \<and> dget (m_tasks m2) k = Some s2 \<and> ready s2 \<and> work_left m2 \<le> work_left m"
proof -
  have m': "on_slot k g m = set_slot k (g s) m" by (simp add: on_slot_def s)
  have w: "work_left (set_slot k (g s) m) = work_left m" by (rule set_slot_work [OF s])
  from rest [of "set_slot k (g s) m"] f(4) w show ?thesis
    unfolding m' using reaches_step [OF f(1,2)] f(3) m' by (metis set_slot_frame(3))
qed

lemma finishing_ready: "slot_phase s = Finishing \<Longrightarrow> ready s"
  by (simp add: ready_def)

lemma processing_settles:
  assumes ok: "manager_ok m" and s: "dget (m_tasks m) k = Some s" "slot_phase s = Processing"
  shows "\<exists>m2 s2. reaches ord m m2 \<and> manager_ok m2 \<and> dget (m_tasks m2) k = Some s2 \<and> ready s2 \<and> work_left m2 \<le> work_left m"
proof (rule turn_steps [OF ok s(1), where e = "Runner_Over k False" and g = "runner_over False"])
  fix m' assume m': "manager_ok m'" "dget (m_tasks m') k = Some (runner_over False s)"
  have "ready (runner_over False s)" by (simp add: ready_def runner_over_def s(2))
  with m' reaches_refl show "\<exists>m2 s2. reaches ord m' m2 \<and> manager_ok m2 \<and> dget (m_tasks m2) k = Some s2 \<and> ready s2 \<and> work_left m2 \<le> work_left m'"
    by blast
qed (use ok runner_over_ok in simp_all)

lemma announcing_settles:
  assumes ok: "manager_ok m" and s: "dget (m_tasks m) k = Some s" "slot_phase s = Announcing"
  shows "\<exists>m2 s2. reaches ord m m2 \<and> manager_ok m2 \<and> dget (m_tasks m2) k = Some s2 \<and> ready s2 \<and> work_left m2 \<le> work_left m"
proof (rule turn_steps [OF ok s(1), where e = "Task_Turn k" and g = task_turn])
  fix m' assume m': "manager_ok m'" "dget (m_tasks m') k = Some (task_turn s)"
  have "ready (task_turn s) \<or> slot_phase (task_turn s) = Processing"
    by (simp add: ready_def task_turn_def s(2) begin_processing_def)
  then show "\<exists>m2 s2. reaches ord m' m2 \<and> manager_ok m2 \<and> dget (m_tasks m2) k = Some s2 \<and> ready s2 \<and> work_left m2 \<le> work_left m'"
    using m' reaches_refl processing_settles [OF m'] by blast
qed (use ok task_turn_ok in simp_all)

lemma starting_settles:
  assumes ok: "manager_ok m" and s: "dget (m_tasks m) k = Some s" "slot_phase s = Waiting_Start"
  shows "\<exists>m2 s2. reaches ord m m2 \<and> manager_ok m2 \<and> dget (m_tasks m2) k = Some s2 \<and> ready s2 \<and> work_left m2 \<le> work_left m"
proof (rule turn_steps [OF ok s(1), where e = "Task_Turn k" and g = task_turn])
  fix m' assume m': "manager_ok m'" "dget (m_tasks m') k = Some (task_turn s)"
  have "ready (task_turn s) \<or> slot_phase (task_turn s) = Processing \<or> slot_phase (task_turn s) = Announcing"
    by (simp add: ready_def task_turn_def s(2) begin_processing_def)
  then show "\<exists>m2 s2. reaches ord m' m2 \<and> manager_ok m2 \<and> dget (m_tasks m2) k = Some s2 \<and> ready s2 \<and> work_left m2 \<le> work_left m'"
    using m' reaches_refl processing_settles [OF m'] announcing_settles [OF m'] by blast
qed (use ok task_turn_ok in simp_all)

lemma fail_claim_queue:
  assumes ok: "tree_ok W t" and f: "fail_claim cid propagate t = Some (t', r)"
  shows "length (queued t') \<le> length (queued t)"
proof (cases "reporting_node cid t")
  case None
  with f show ?thesis by (simp add: fail_claim_def)
next
  case (Some n)
  show ?thesis
  proof (cases "state n = COMPLETED")
    case True
    with f Some show ?thesis by (simp add: fail_claim_def fail_result_def)
  next
    case False
    from fail_claim_effect [OF ok Some False, of propagate] obtain ids where
      "queued t' = (if propagate then filter (\<lambda>k. k \<notin> set ids) (queued t) else queued t)" using f by auto
    then show ?thesis by simp
  qed
qed

lemma manager_fail_work:
  assumes ok: "manager_ok m" and f: "manager_fail_claim c propagate m = Some (m', r)"
  shows "work_left m' \<le> work_left m"
proof (cases "get_tree (claim_identity c) (m_repository m)")
  case None
  with f show ?thesis by (simp add: manager_fail_claim_def)
next
  case (Some ob)
  note t = published_tree [OF ok Some]
  obtain t' r' where t': "fail_claim (claim_id c) propagate (m_objects m ! ob) = Some (t', r')"
    "m' = m\<lparr>m_objects := (m_objects m)[ob := t']\<rparr>"
    using f Some by (auto simp: manager_fail_claim_def on_tree_def split: option.splits)
  from fail_claim_queue [OF t(2) t'(1)] waiting_update [OF t(1), of t'] t'(2) show ?thesis
    by (simp add: work_left_def)
qed

lemma failing_settles:
  assumes ok: "manager_ok m" and s: "dget (m_tasks m) k = Some s" "slot_phase s = Failing"
  shows "\<exists>m2 s2. reaches ord m m2 \<and> manager_ok m2 \<and> dget (m_tasks m2) k = Some s2 \<and> ready s2 \<and> work_left m2 \<le> work_left m"
proof -
  let ?s = "s\<lparr>slot_phase := Finishing\<rparr>"
  obtain m1 where m1: "fail_task_claim k m = Some m1" "manager_ok m1" using fail_claim_task_ok [OF ok] by blast
  have "dget (m_tasks m1) k = Some ?s \<and> work_left m1 \<le> work_left m"
  proof (cases "slot_kill s")
    case True
    then have "m1 = set_slot k ?s m" using m1(1) s by (simp add: fail_task_claim_def)
    then show ?thesis using set_slot_work [OF s(1)] by simp
  next
    case False
    obtain m' r where f: "manager_fail_claim (slot_claim s) True m = Some (m', r)" "m_tasks m' = m_tasks m"
      using manager_fail_ok [OF ok] by blast
    then have "m1 = set_slot k ?s m'" using m1(1) s False by (simp add: fail_task_claim_def)
    then show ?thesis using manager_fail_work [OF ok f(1)] set_slot_work [of m' k s] f(2) s(1) by simp
  qed
  moreover have "manager_step ord m (Failure_Handled k) = m1" by (simp add: m1(1))
  then have "reaches ord m m1" using reaches_step [of "Failure_Handled k" m ord m1] reaches_refl by simp
  ultimately show ?thesis using m1(2) finishing_ready [of ?s] by auto
qed

lemma task_settles:
  assumes ok: "manager_ok m" and s: "dget (m_tasks m) k = Some s"
  shows "\<exists>m2 s2. reaches ord m m2 \<and> manager_ok m2 \<and> dget (m_tasks m2) k = Some s2 \<and> ready s2 \<and> work_left m2 \<le> work_left m"
proof (cases "ready s")
  case True
  with ok s reaches_refl show ?thesis by blast
next
  case False
  have "slot_phase s = Never_Entered \<longrightarrow> slot_recovery s" using work_okD(2) [OF manager_okD(3) [OF ok] s] by blast
  with False consider "slot_phase s = Waiting_Start" | "slot_phase s = Announcing" | "slot_phase s = Processing" | "slot_phase s = Failing"
    by (cases "slot_phase s") (simp_all add: ready_def)
  then show ?thesis
    using starting_settles [OF ok s] announcing_settles [OF ok s] processing_settles [OF ok s] failing_settles [OF ok s]
    by cases blast+
qed

section \<open>Finishing\<close>

lemma finish_queue:
  assumes ok: "tree_ok W t" and c: "running t = Some c" "claim_id c = finished"
    and f: "finish_and_claim_next cid finished t = (t', Inr r)"
  shows "length (queued t') + (if next_claim r = None then 0 else 1) = length (queued t)"
proof -
  note base = tree_okD(1) [OF ok]
  obtain a where a: "active t = Some a" "claim a = c" using c(1) by (auto simp: running_def)
  have id: "claim_id (claim a) = finished" by (simp add: a(2) c(2))
  show ?thesis
  proof (cases "queued t")
    case Nil
    from finish_last [OF base a(1) id Nil, of cid] f Nil show ?thesis by (auto simp: queued_def)
  next
    case (Cons k ks)
    from finish_next [OF base a(1) id Cons, of cid] f Cons show ?thesis by auto
  qed
qed

lemma finish_work:
  assumes ok: "manager_ok m" and s: "dget (m_tasks m) k = Some s" and cid: "dget (m_tasks m) cid = None"
  shows "work_left (finish_and_continue cid k s m) < work_left m"
proof -
  let ?ob = "slot_tree s" and ?c = "slot_claim s"
  note o = work_okD(2) [OF manager_okD(3) [OF ok] s]
  have ob: "?ob < length (m_objects m)" and rn: "running (m_objects m ! ?ob) = Some ?c" using o by simp_all
  note t = manager_okD(1) [OF ok ob]
  from finish_started [OF t rn refl, of cid] obtain t' r where f:
    "finish_and_claim_next cid (claim_id ?c) (m_objects m ! ?ob) = (t', Inr r)"
    "\<And>c'. next_claim r = Some c' \<Longrightarrow> claim_id c' = cid" by blast
  note q = finish_queue [OF t rn refl f(1)] and w = waiting_update [OF ob, of t']
  note d = work_okD(1) [OF manager_okD(3) [OF ok]]
  note unf = finish_and_continue_def finish_claim_def on_tree_def f(1) launch_def work_left_def
  show ?thesis
  proof (cases "next_claim r")
    case None
    with q w length_dpop [OF d s] show ?thesis by (simp add: unf)
  next
    case (Some c')
    have ne: "claim_id c' \<noteq> k" and fresh: "dget (m_tasks m) (claim_id c') = None" using f(2) [OF Some] cid s by auto
    have "distinct (dkeys (dset (claim_id c') x (m_tasks m)))" for x by (rule pd.distinct_store [OF d])
    moreover have "dget (dset (claim_id c') x (m_tasks m)) k = Some s" for x using ne s by (simp add: update_conv')
    ultimately have "length (dpop k (dset (claim_id c') x (m_tasks m))) + 1 = length (dset (claim_id c') x (m_tasks m))" for x
      by (rule length_dpop)
    moreover have "length (dset (claim_id c') x (m_tasks m)) = length (m_tasks m) + 1" for x
      using fresh by (simp add: length_dset map_of_eq_None_iff)
    ultimately have "length (dpop k (dset (claim_id c') x (m_tasks m))) = length (m_tasks m)" for x by simp
    with Some q w fresh length_dpop [OF d s] show ?thesis by (simp add: unf)
  qed
qed

text \<open>A claim id that no task has.\<close>

lemma fresh_claim: "\<exists>cid. dget (m_tasks m) cid = None"
proof -
  have "finite (set (dkeys (m_tasks m)))" by simp
  then obtain cid :: string where "cid \<notin> set (dkeys (m_tasks m))"
    using ex_new_if_finite [OF infinite_UNIV_listI] by blast
  then show ?thesis by (auto simp: map_of_eq_None_iff)
qed

lemma drained:
  assumes ok: "manager_ok m" and idle: "is_idle m" and i: "get_tree i (m_repository m) = Some ob"
  shows "active (m_objects m ! ob) = None" "queued (m_objects m ! ob) = []"
proof -
  have "running (m_objects m ! ob) = None"
    using work_okD(3) [OF manager_okD(3) [OF ok] i] idle by (cases "running (m_objects m ! ob)") (auto simp: is_idle_def)
  then show "active (m_objects m ! ob) = None" by (simp add: running_def)
  then show "queued (m_objects m ! ob) = []" by (rule tree_okD(2) [OF published_tree(2) [OF ok i]])
qed

lemma reaches_trans: "reaches ord m m1 \<Longrightarrow> reaches ord m1 m2 \<Longrightarrow> reaches ord m m2"
  unfolding reaches_def
  by (elim exE) (rule_tac x = "es @ esa" in exI, simp add: run_append permitted_append)

lemma manager_drains: "manager_ok m \<Longrightarrow> \<exists>m'. reaches ord m m' \<and> manager_ok m' \<and> is_idle m'"
proof (induction "work_left m" arbitrary: m rule: less_induct)
  case less
  show ?case
  proof (cases "m_tasks m")
    case Nil
    with less.prems reaches_refl show ?thesis by (auto simp: is_idle_def)
  next
    case (Cons ks rest)
    then have "dget (m_tasks m) (fst ks) = Some (snd ks)" by (cases ks) simp
    from task_settles [OF less.prems this, of ord] obtain m1 s1 where m1:
      "reaches ord m m1" "manager_ok m1" "dget (m_tasks m1) (fst ks) = Some s1" "ready s1" "work_left m1 \<le> work_left m" by blast
    obtain cid where cid: "dget (m_tasks m1) cid = None" using fresh_claim by blast
    let ?m2 = "finish_and_continue cid (fst ks) s1 m1"
    have step: "manager_step ord m1 (Task_Finished cid (fst ks)) = ?m2"
      using m1(3,4) by (simp add: finish_task_def ready_def)
    have r2: "reaches ord m1 ?m2"
      using reaches_step [of "Task_Finished cid (fst ks)" m1 ord ?m2] reaches_refl step cid by simp
    have "work_left ?m2 < work_left m" using finish_work [OF m1(2,3) cid] m1(5) by simp
    from less.hyps [OF this finish_and_continue_ok [OF m1(2,3) cid]] obtain m' where
      "reaches ord ?m2 m'" "manager_ok m'" "is_idle m'" by blast
    with reaches_trans [OF m1(1) reaches_trans [OF r2]] show ?thesis by blast
  qed
qed

end
