(* ===== verification/Manager_Properties.thy ===== *)
theory Manager_Properties
  imports Manager_Drain
begin

text \<open>
  What the manager of all conversation trees promises in every interleaving of its callers and
  its tasks, from an empty start or from any persisted conversation.
\<close>

text \<open>A manager as the program creates one: empty, or from the session file.\<close>

definition initial_manager :: "tree_manager \<Rightarrow> bool" where
  "initial_manager m \<longleftrightarrow>
     m = new_manager \<or>
     (\<exists>rp c. (\<forall>s \<in> set (map snd c). distinct (dkeys (snap_nodes s))) \<and> manager_from_snapshot rp c = Some m)"

lemma initial_manager_ok: "initial_manager m \<Longrightarrow> manager_ok m"
  unfolding initial_manager_def using manager_from_snapshot_ok new_manager_ok by (metis option.inject)

text \<open>The invariant, spelled out.\<close>

definition index_exact :: "tree_manager \<Rightarrow> bool" where
  "index_exact m \<longleftrightarrow>
     (\<forall>sc ref ob. get_tree_for_reference sc ref (m_repository m) = Some ob \<longleftrightarrow>
        (\<exists>i. identity_scope i = sc \<and> get_tree i (m_repository m) = Some ob \<and>
           ref \<in> all_reference_ids (graph (m_objects m ! ob))))"

definition claims_have_tasks :: "tree_manager \<Rightarrow> bool" where
  "claims_have_tasks m \<longleftrightarrow>
     (\<forall>i ob a. get_tree i (m_repository m) = Some ob \<longrightarrow> active (m_objects m ! ob) = Some a \<longrightarrow>
        (\<exists>s. dget (m_tasks m) (claim_id (claim a)) = Some s \<and> slot_tree s = ob \<and> slot_claim s = claim a))"

definition tasks_have_claims :: "tree_manager \<Rightarrow> bool" where
  "tasks_have_claims m \<longleftrightarrow>
     (\<forall>k s. dget (m_tasks m) k = Some s \<longrightarrow>
        (\<exists>a. active (m_objects m ! slot_tree s) = Some a \<and> claim a = slot_claim s \<and> claim_id (claim a) = k))"

lemma manager_ok_spelled:
  assumes ok: "manager_ok m"
  shows "index_exact m" "claims_have_tasks m" "tasks_have_claims m"
proof -
  show "index_exact m"
    using find_tree [OF manager_okD(2) [OF ok]] by (simp add: index_exact_def known_def)
  show "claims_have_tasks m"
    using work_okD(3) [OF manager_okD(3) [OF ok]] by (simp add: claims_have_tasks_def running_def)
  have "\<exists>a. active (m_objects m ! slot_tree s) = Some a \<and> claim a = slot_claim s \<and> claim_id (claim a) = k"
    if "dget (m_tasks m) k = Some s" for k s
    using work_okD(2) [OF manager_okD(3) [OF ok] that] by (auto simp: running_def)
  then show "tasks_have_claims m" by (simp add: tasks_have_claims_def)
qed

text \<open>
  C4. In every interleaving of admissions, reports, stops, clears, removals and task turns: a
  message of a chat is found exactly in the published tree that knows it, every published tree is
  well-formed, every claim that runs in one has exactly its task, every task has its claim, and no
  task has failed to finish its claim.
\<close>

theorem manager_stays_consistent:
  assumes "set_order ord" "initial_manager m0" "permitted manager_event_ok (manager_step ord) m0 es"
  defines "m \<equiv> run (manager_step ord) m0 es"
  shows "index_exact m \<and> claims_have_tasks m \<and> tasks_have_claims m \<and> m_failures m = [] \<and>
    (\<forall>i ob. get_tree i (m_repository m) = Some ob \<longrightarrow>
       tree_ok {} (m_objects m ! ob) \<and> tree_identity_of (m_objects m ! ob) = i)"
proof -
  have ok: "manager_ok m"
    unfolding m_def using managers.inv_run [of ord m0 es] initial_manager_ok [OF assms(2)] assms(1,3) by blast
  then show ?thesis using manager_ok_spelled [OF ok] manager_okD(4) [OF ok] published_tree(2,3) [OF ok] by blast
qed

text \<open>
  C5. The manager never gets stuck: from every state it can be in, the turns of its tasks alone,
  once their runners return, lead to rest, where no published tree has anything running or waiting.
\<close>

theorem manager_comes_to_rest:
  assumes "set_order ord" "initial_manager m0" "permitted manager_event_ok (manager_step ord) m0 es"
  defines "m \<equiv> run (manager_step ord) m0 es"
  shows "\<exists>fs m'. list_all task_event fs \<and> permitted manager_event_ok (manager_step ord) m fs \<and>
    m' = run (manager_step ord) m fs \<and> is_idle m' \<and>
    (\<forall>i ob. get_tree i (m_repository m') = Some ob \<longrightarrow>
       active (m_objects m' ! ob) = None \<and> queue_items (queue (m_objects m' ! ob)) = [])"
proof -
  have ok: "manager_ok m"
    unfolding m_def using managers.inv_run [of ord m0 es] initial_manager_ok [OF assms(2)] assms(1,3) by blast
  from manager_drains [OF ok, of ord] obtain m' where m': "reaches ord m m'" "manager_ok m'" "is_idle m'" by blast
  with drained [OF m'(2,3)] show ?thesis unfolding reaches_def queued_def by blast
qed

section \<open>An example\<close>

text \<open>Two messages in a thread and a stop of the first, which has begun.\<close>

definition demo_chat :: message_scope where
  "demo_chat = \<lparr>platform = ''telegram'', chat_id = ''7''\<rparr>"

definition demo_manager_events :: "manager_event list" where
  "demo_manager_events =
     [Admit ''a'' demo_chat ''1'' ''hello'' ''s1'' None,
      Admit ''b'' demo_chat ''2'' ''more'' ''s2'' (Some ''s1''),
      Task_Turn ''a'',
      Stop_Node demo_chat ''1'' (Some STOP)]"

lemma demo_manager_permitted: "permitted manager_event_ok (manager_step remdups) new_manager demo_manager_events"
  by code_simp

theorem manager_stays_consistent_witness:
  "dkeys (m_tasks (run (manager_step remdups) new_manager demo_manager_events)) = [''a''] \<and>
   tasks_have_claims (run (manager_step remdups) new_manager demo_manager_events)"
proof -
  have "dkeys (m_tasks (run (manager_step remdups) new_manager demo_manager_events)) = [''a'']" by code_simp
  moreover have "initial_manager new_manager" by (simp add: initial_manager_def)
  ultimately show ?thesis
    using manager_stays_consistent [OF set_order_remdups _ demo_manager_permitted] by blast
qed

theorem manager_comes_to_rest_witness:
  "\<not> is_idle (run (manager_step remdups) new_manager demo_manager_events) \<and>
   (\<exists>fs. list_all task_event fs \<and>
      is_idle (run (manager_step remdups) (run (manager_step remdups) new_manager demo_manager_events) fs))"
proof -
  have "\<not> is_idle (run (manager_step remdups) new_manager demo_manager_events)" by code_simp
  moreover have "initial_manager new_manager" by (simp add: initial_manager_def)
  ultimately show ?thesis
    using manager_comes_to_rest [OF set_order_remdups _ demo_manager_permitted] by blast
qed

end
