(* ===== verification/Regex_Meaning.thy ===== *)
theory Regex_Meaning
  imports Regex
begin

text \<open>
  What an expression without back references means, with no search order: \<open>rx_accepts r past w rest\<close>
  says that the text \<open>w\<close>, read after \<open>past\<close> (the last character first) and before \<open>rest\<close>, matches
  \<open>r\<close>. The matcher finds exactly these texts, a search succeeds exactly if one occurs in the text, and
  a substitution leaves none behind.
\<close>

section \<open>The meaning of an expression\<close>

inductive rx_times :: "(string \<Rightarrow> string \<Rightarrow> string \<Rightarrow> bool) \<Rightarrow> nat \<Rightarrow> string \<Rightarrow> string \<Rightarrow> string \<Rightarrow> bool"
  for R where
  times_none: "rx_times R 0 past [] rest"
| times_more: "R past u (v @ rest) \<Longrightarrow> rx_times R n (rev u @ past) v rest \<Longrightarrow> rx_times R (Suc n) past (u @ v) rest"

inductive_simps rx_times_0 [simp]: "rx_times R 0 past w rest"
inductive_cases rx_times_SucE: "rx_times R (Suc n) past w rest"

lemma rx_times_Suc:
  "rx_times R (Suc n) past w rest \<longleftrightarrow>
     (\<exists>u v. w = u @ v \<and> R past u (v @ rest) \<and> rx_times R n (rev u @ past) v rest)"
  by (rule iffI) (blast elim: rx_times_SucE, blast intro: times_more)

primrec rx_accepts :: "rx \<Rightarrow> string \<Rightarrow> string \<Rightarrow> string \<Rightarrow> bool" where
  "rx_accepts Rx_Empty past w rest \<longleftrightarrow> w = []"
| "rx_accepts (Rx_Set b items) past w rest \<longleftrightarrow> (\<exists>c. w = [c] \<and> class_has items c = b)"
| "rx_accepts (Rx_Seq r1 r2) past w rest \<longleftrightarrow>
     (\<exists>u v. w = u @ v \<and> rx_accepts r1 past u (v @ rest) \<and> rx_accepts r2 (rev u @ past) v rest)"
| "rx_accepts (Rx_Alt r1 r2) past w rest \<longleftrightarrow> rx_accepts r1 past w rest \<or> rx_accepts r2 past w rest"
| "rx_accepts (Rx_Rep g lo hi r) past w rest \<longleftrightarrow>
     (\<exists>n. lo \<le> n \<and> (\<forall>h. hi = Some h \<longrightarrow> n \<le> h) \<and> rx_times (rx_accepts r) n past w rest)"
| "rx_accepts (Rx_Group n r) past w rest \<longleftrightarrow> rx_accepts r past w rest"
| "rx_accepts (Rx_Backref n) past w rest \<longleftrightarrow> False"
| "rx_accepts Rx_Start past w rest \<longleftrightarrow> w = [] \<and> past = []"
| "rx_accepts Rx_End past w rest \<longleftrightarrow> w = [] \<and> at_end rest"
| "rx_accepts Rx_Edge past w rest \<longleftrightarrow> w = [] \<and> at_edge past rest"
| "rx_accepts (Rx_Behind b items) past w rest \<longleftrightarrow> w = [] \<and> behind b items past"
| "rx_accepts (Rx_Look b r) past w rest \<longleftrightarrow>
     w = [] \<and> (\<exists>u v. rest = u @ v \<and> rx_accepts r past u v) = b"

fun bounds_ok :: "nat \<Rightarrow> nat option \<Rightarrow> bool" where
  "bounds_ok lo None \<longleftrightarrow> True"
| "bounds_ok lo (Some h) \<longleftrightarrow> lo \<le> h"

lemma bounds_ok_iff [simp]: "bounds_ok lo hi \<longleftrightarrow> (\<forall>h. hi = Some h \<longrightarrow> lo \<le> h)"
  by (cases hi) simp_all

primrec rx_regular :: "rx \<Rightarrow> bool" where
  "rx_regular Rx_Empty \<longleftrightarrow> True"
| "rx_regular (Rx_Set b items) \<longleftrightarrow> True"
| "rx_regular (Rx_Seq r1 r2) \<longleftrightarrow> rx_regular r1 \<and> rx_regular r2"
| "rx_regular (Rx_Alt r1 r2) \<longleftrightarrow> rx_regular r1 \<and> rx_regular r2"
| "rx_regular (Rx_Rep g lo hi r) \<longleftrightarrow> bounds_ok lo hi \<and> rx_regular r"
| "rx_regular (Rx_Group n r) \<longleftrightarrow> rx_regular r"
| "rx_regular (Rx_Backref n) \<longleftrightarrow> False"
| "rx_regular Rx_Start \<longleftrightarrow> True"
| "rx_regular Rx_End \<longleftrightarrow> True"
| "rx_regular Rx_Edge \<longleftrightarrow> True"
| "rx_regular (Rx_Behind b items) \<longleftrightarrow> True"
| "rx_regular (Rx_Look b r) \<longleftrightarrow> rx_regular r"

section \<open>The matcher finds the meaning\<close>

text \<open>One run of a matcher \<open>m\<close> reads a text the relation \<open>R\<close> allows there, and every such text.\<close>

definition finds :: "(rx_state \<Rightarrow> rx_state list) \<Rightarrow> (string \<Rightarrow> string \<Rightarrow> string \<Rightarrow> bool) \<Rightarrow> bool" where
  "finds m R \<longleftrightarrow>
     (\<forall>past s caps st'. st' \<in> set (m (past, s, caps)) \<longrightarrow>
        (\<exists>w. s = w @ rx_rest st' \<and> rx_past st' = rev w @ past \<and> R past w (rx_rest st'))) \<and>
     (\<forall>past w rest caps. R past w rest \<longrightarrow>
        (\<exists>caps'. (rev w @ past, rest, caps') \<in> set (m (past, w @ rest, caps))))"

lemma finds_sound:
  assumes "finds m R" "st' \<in> set (m (past, s, caps))"
  obtains w where "s = w @ rx_rest st'" "rx_past st' = rev w @ past" "R past w (rx_rest st')"
  using assms unfolding finds_def by blast

lemma finds_complete:
  assumes "finds m R" "R past w rest"
  obtains caps' where "(rev w @ past, rest, caps') \<in> set (m (past, w @ rest, caps))"
  using assms unfolding finds_def by blast

lemma set_repeat_must:
  "lo > 0 \<Longrightarrow> set (rx_repeat m g lo hi st) = (\<Union>st1 \<in> set (m st). set (rx_repeat m g (lo - 1) (fewer hi) st1))"
  by (subst rx_repeat.simps) simp

lemma set_repeat_may:
  "hi \<noteq> Some 0 \<Longrightarrow> set (rx_repeat m g 0 hi st) =
     insert st (\<Union>st1 \<in> {x \<in> set (m st). length (rx_rest x) < length (rx_rest st)}. set (rx_repeat m g 0 (fewer hi) st1))"
  by (subst rx_repeat.simps) (simp add: Let_def)

lemma set_repeat_stop: "set (rx_repeat m g 0 (Some 0) st) = {st}"
  by (subst rx_repeat.simps) simp

lemma in_repeat_self: "st \<in> set (rx_repeat m g 0 hi st)"
  by (cases "hi = Some 0") (simp_all add: set_repeat_stop set_repeat_may)

lemma repeat_sound:
  assumes m: "finds m R"
    and "st' \<in> set (rx_repeat m g lo hi st)" "\<forall>h. hi = Some h \<longrightarrow> lo \<le> h"
  shows "\<exists>n w. lo \<le> n \<and> (\<forall>h. hi = Some h \<longrightarrow> n \<le> h) \<and> rx_rest st = w @ rx_rest st' \<and>
    rx_past st' = rev w @ rx_past st \<and> rx_times R n (rx_past st) w (rx_rest st')"
  using assms
proof (induction m g lo hi st rule: rx_repeat.induct)
  case (1 m g lo hi st)
  show ?case
  proof (cases "lo = 0 \<and> st' = st")
    case True
    then show ?thesis by (intro exI [of _ 0] exI [of _ "[]"]) simp
  next
    case False
    obtain st1 where st1: "st1 \<in> set (m st)"
      and st': "st' \<in> set (rx_repeat m g (lo - 1) (fewer hi) st1)"
      and hi: "hi \<noteq> Some 0"
      and IH: "\<exists>n w. lo - 1 \<le> n \<and> (\<forall>h. fewer hi = Some h \<longrightarrow> n \<le> h) \<and> rx_rest st1 = w @ rx_rest st' \<and>
        rx_past st' = rev w @ rx_past st1 \<and> rx_times R n (rx_past st1) w (rx_rest st')"
    proof (cases "lo > 0")
      case True
      with 1(4) obtain st1 where s1: "st1 \<in> set (m st)"
        "st' \<in> set (rx_repeat m g (lo - 1) (fewer hi) st1)"
        unfolding set_repeat_must [OF True] by blast
      have "\<forall>h. fewer hi = Some h \<longrightarrow> lo - 1 \<le> h" using 1(5) by (auto simp: fewer_def)
      from 1(1) [OF True s1(1) 1(3) s1(2) this] s1 1(5) True show ?thesis by (intro that [of st1]) auto
    next
      case False
      with \<open>\<not> (lo = 0 \<and> st' = st)\<close> 1(4) have hi: "hi \<noteq> Some 0" by (auto simp: set_repeat_stop)
      have "lo = 0" "st' \<noteq> st" using False \<open>\<not> (lo = 0 \<and> st' = st)\<close> by auto
      with 1(4) set_repeat_may [OF hi, of m g st] obtain st1 where
        s1: "st1 \<in> set (filter (\<lambda>st'. length (rx_rest st') < length (rx_rest st)) (m st))"
        "st' \<in> set (rx_repeat m g 0 (fewer hi) st1)"
        unfolding set_filter by blast
      have "\<forall>h. fewer hi = Some h \<longrightarrow> (0::nat) \<le> h" by simp
      from 1(2) [OF False hi s1(1) 1(3) s1(2) this] s1 hi False show ?thesis
        by (intro that [of st1]) auto
    qed
    obtain past s caps where st: "st = (past, s, caps)" by (cases st)
    from st1 obtain u where u: "s = u @ rx_rest st1" "rx_past st1 = rev u @ past" "R past u (rx_rest st1)"
      using finds_sound [OF 1(3)] unfolding st by blast
    from IH obtain n w where w: "lo - 1 \<le> n" "\<forall>h. fewer hi = Some h \<longrightarrow> n \<le> h"
      "rx_rest st1 = w @ rx_rest st'" "rx_past st' = rev w @ rx_past st1"
      "rx_times R n (rx_past st1) w (rx_rest st')" by blast
    have "rx_times R (Suc n) past (u @ w) (rx_rest st')"
      using u w(3,5) by (intro times_more) auto
    moreover have "\<forall>h. hi = Some h \<longrightarrow> Suc n \<le> h"
    proof (intro allI impI)
      fix h assume h: "hi = Some h"
      with hi have "0 < h" by (cases h) auto
      with h w(2) show "Suc n \<le> h" by (auto simp: fewer_def)
    qed
    ultimately show ?thesis using u w st
      by (intro exI [of _ "Suc n"] exI [of _ "u @ w"]) auto
  qed
qed

lemma repeat_complete:
  assumes m: "finds m R"
    and "rx_times R n past w rest" "lo \<le> n" "\<forall>h. hi = Some h \<longrightarrow> n \<le> h"
  shows "\<exists>caps'. (rev w @ past, rest, caps') \<in> set (rx_repeat m g lo hi (past, w @ rest, caps))"
  using assms(2-)
proof (induction arbitrary: lo hi caps rule: rx_times.induct)
  case (times_none past rest)
  then show ?case by (auto intro: in_repeat_self)
next
  case (times_more past u v rest n)
  have hi: "hi \<noteq> Some 0" using times_more.prems by auto
  have fewer: "\<forall>h. fewer hi = Some h \<longrightarrow> n \<le> h" using times_more.prems by (auto simp: fewer_def)
  have lo: "lo - 1 \<le> n" using times_more.prems by simp
  obtain c1 where c1: "(rev u @ past, v @ rest, c1) \<in> set (m (past, u @ v @ rest, caps))"
    using finds_complete [OF m times_more.hyps(1)] by blast
  obtain c2 where c2: "(rev v @ rev u @ past, rest, c2) \<in> set (rx_repeat m g (lo - 1) (fewer hi) (rev u @ past, v @ rest, c1))"
    using times_more.IH [OF lo fewer] by blast
  show ?case
  proof (cases "lo > 0")
    case True
    with c1 c2 show ?thesis by (force simp: set_repeat_must)
  next
    case False
    show ?thesis
    proof (cases "u = []")
      case True
      have "\<forall>h. hi = Some h \<longrightarrow> n \<le> h" using times_more.prems by auto
      from times_more.IH [OF _ this, of lo caps] True False show ?thesis by simp
    next
      case u: False
      have "(rev u @ past, v @ rest, c1) \<in>
          set (filter (\<lambda>st'. length (rx_rest st') < length (u @ v @ rest)) (m (past, u @ v @ rest, caps)))"
        using c1 u by simp
      with c2 False hi show ?thesis by (force simp: set_repeat_may)
    qed
  qed
qed

lemma set_nonempty_finds:
  assumes "finds m R"
  shows "m (past, s, caps) \<noteq> [] \<longleftrightarrow> (\<exists>w v. s = w @ v \<and> R past w v)"
proof
  assume "m (past, s, caps) \<noteq> []"
  then obtain st' where "st' \<in> set (m (past, s, caps))" by (meson list.set_sel(1))
  then show "\<exists>w v. s = w @ v \<and> R past w v" using finds_sound [OF assms] by blast
next
  assume "\<exists>w v. s = w @ v \<and> R past w v"
  then obtain w v where "s = w @ v" "R past w v" by blast
  then show "m (past, s, caps) \<noteq> []" using finds_complete [OF assms] by (metis list.distinct(1) list.set_cases)
qed

theorem match_finds: "rx_regular r \<Longrightarrow> finds (rx_match r) (rx_accepts r)"
proof (induction r)
  case (Rx_Set b items)
  have "st' \<in> set (take_char p (past, s, caps)) \<longleftrightarrow>
      (\<exists>c rest. s = c # rest \<and> p c \<and> st' = (c # past, rest, caps))" for p past s caps st'
    by (cases s) auto
  then show ?case unfolding finds_def by (auto simp: fun_eq_iff)
next
  case (Rx_Seq r1 r2)
  then have f: "finds (rx_match r1) (rx_accepts r1)" "finds (rx_match r2) (rx_accepts r2)" by auto
  show ?case unfolding finds_def
  proof (intro conjI allI impI)
    fix past s caps st'
    assume "st' \<in> set (rx_match (Rx_Seq r1 r2) (past, s, caps))"
    then obtain p1 s1 c1 where 1: "(p1, s1, c1) \<in> set (rx_match r1 (past, s, caps))" and
      2: "st' \<in> set (rx_match r2 (p1, s1, c1))" by auto
    from finds_sound [OF f(1) 1] obtain u where u: "s = u @ s1" "p1 = rev u @ past" "rx_accepts r1 past u s1"
      by auto
    from finds_sound [OF f(2) 2] obtain v where v: "s1 = v @ rx_rest st'" "rx_past st' = rev v @ p1"
      "rx_accepts r2 p1 v (rx_rest st')" by blast
    show "\<exists>w. s = w @ rx_rest st' \<and> rx_past st' = rev w @ past \<and> rx_accepts (Rx_Seq r1 r2) past w (rx_rest st')"
      using u v by (intro exI [of _ "u @ v"]) auto
  next
    fix past w rest caps
    assume "rx_accepts (Rx_Seq r1 r2) past w rest"
    then obtain u v where w: "w = u @ v" "rx_accepts r1 past u (v @ rest)" "rx_accepts r2 (rev u @ past) v rest"
      by auto
    from finds_complete [OF f(1) w(2)] obtain c1 where
      1: "(rev u @ past, v @ rest, c1) \<in> set (rx_match r1 (past, u @ v @ rest, caps))" by blast
    from finds_complete [OF f(2) w(3)] obtain c2 where
      2: "(rev v @ rev u @ past, rest, c2) \<in> set (rx_match r2 (rev u @ past, v @ rest, c1))" by blast
    show "\<exists>caps'. (rev w @ past, rest, caps') \<in> set (rx_match (Rx_Seq r1 r2) (past, w @ rest, caps))"
      using 1 2 w(1) by force
  qed
next
  case (Rx_Alt r1 r2)
  then have f: "finds (rx_match r1) (rx_accepts r1)" "finds (rx_match r2) (rx_accepts r2)" by auto
  show ?case unfolding finds_def
  proof (intro conjI allI impI)
    fix past s caps st'
    assume "st' \<in> set (rx_match (Rx_Alt r1 r2) (past, s, caps))"
    then show "\<exists>w. s = w @ rx_rest st' \<and> rx_past st' = rev w @ past \<and> rx_accepts (Rx_Alt r1 r2) past w (rx_rest st')"
      using finds_sound [OF f(1)] finds_sound [OF f(2)] by (metis Un_iff rx_accepts.simps(4) rx_match.simps(4) set_append)
  next
    fix past w rest caps
    assume "rx_accepts (Rx_Alt r1 r2) past w rest"
    then show "\<exists>caps'. (rev w @ past, rest, caps') \<in> set (rx_match (Rx_Alt r1 r2) (past, w @ rest, caps))"
      using finds_complete [OF f(1)] finds_complete [OF f(2)] by (metis Un_iff rx_accepts.simps(4) rx_match.simps(4) set_append)
  qed
next
  case (Rx_Rep g lo hi r)
  then have f: "finds (rx_match r) (rx_accepts r)" and hi: "\<forall>h. hi = Some h \<longrightarrow> lo \<le> h" by auto
  show ?case unfolding finds_def
  proof (intro conjI allI impI)
    fix past s caps st'
    assume "st' \<in> set (rx_match (Rx_Rep g lo hi r) (past, s, caps))"
    then have "st' \<in> set (rx_repeat (rx_match r) g lo hi (past, s, caps))" by simp
    from repeat_sound [OF f this hi]
    show "\<exists>w. s = w @ rx_rest st' \<and> rx_past st' = rev w @ past \<and>
        rx_accepts (Rx_Rep g lo hi r) past w (rx_rest st')" by auto
  next
    fix past w rest caps
    assume "rx_accepts (Rx_Rep g lo hi r) past w rest"
    then show "\<exists>caps'. (rev w @ past, rest, caps') \<in> set (rx_match (Rx_Rep g lo hi r) (past, w @ rest, caps))"
      using repeat_complete [OF f] by auto
  qed
next
  case (Rx_Group n r)
  then have f: "finds (rx_match r) (rx_accepts r)" by simp
  show ?case unfolding finds_def
  proof (intro conjI allI impI)
    fix past s caps st'
    assume "st' \<in> set (rx_match (Rx_Group n r) (past, s, caps))"
    then obtain st1 where "st1 \<in> set (rx_match r (past, s, caps))" "rx_past st' = rx_past st1" "rx_rest st' = rx_rest st1"
      by auto
    then show "\<exists>w. s = w @ rx_rest st' \<and> rx_past st' = rev w @ past \<and> rx_accepts (Rx_Group n r) past w (rx_rest st')"
      using finds_sound [OF f] by (metis rx_accepts.simps(6))
  next
    fix past w rest caps
    assume "rx_accepts (Rx_Group n r) past w rest"
    then have "rx_accepts r past w rest" by simp
    from finds_complete [OF f this] obtain c where "(rev w @ past, rest, c) \<in> set (rx_match r (past, w @ rest, caps))" by blast
    then show "\<exists>caps'. (rev w @ past, rest, caps') \<in> set (rx_match (Rx_Group n r) (past, w @ rest, caps))"
      by (force simp: image_iff)
  qed
next
  case (Rx_Look b r)
  then have ne: "(\<exists>u v. s = u @ v \<and> rx_accepts r past u v) \<longleftrightarrow> rx_match r (past, s, caps) \<noteq> []" for past s caps
    by (intro set_nonempty_finds [symmetric]) simp
  have here: "rx_past st' = past \<and> rx_rest st' = s \<and> (rx_match r (past, s, caps) \<noteq> []) = b"
    if "st' \<in> set (rx_match (Rx_Look b r) (past, s, caps))" for st' past s caps
    using that by (cases "rx_match r (past, s, caps)") (auto split: if_splits)
  have there: "\<exists>caps'. (past, s, caps') \<in> set (rx_match (Rx_Look b r) (past, s, caps))"
    if "(rx_match r (past, s, caps) \<noteq> []) = b" for past s caps
    using that by (cases "rx_match r (past, s, caps)") auto
  show ?case unfolding finds_def
  proof (intro conjI allI impI)
    fix past s caps st'
    assume "st' \<in> set (rx_match (Rx_Look b r) (past, s, caps))"
    from here [OF this] ne [of s past caps]
    show "\<exists>w. s = w @ rx_rest st' \<and> rx_past st' = rev w @ past \<and> rx_accepts (Rx_Look b r) past w (rx_rest st')"
      by (intro exI [of _ "[]"]) simp
  next
    fix past w rest caps
    assume "rx_accepts (Rx_Look b r) past w rest"
    then have w: "w = []" and "(rx_match r (past, rest, caps) \<noteq> []) = b" using ne [of rest past caps] by simp_all
    from there [OF this(2)] w
    show "\<exists>caps'. (rev w @ past, rest, caps') \<in> set (rx_match (Rx_Look b r) (past, w @ rest, caps))" by simp
  qed
qed (auto simp: finds_def)

section \<open>Searching\<close>

lemma match_somewhere:
  assumes "rx_regular r"
  shows "rx_match r (past, s, caps) \<noteq> [] \<longleftrightarrow> (\<exists>w v. s = w @ v \<and> rx_accepts r past w v)"
  by (rule set_nonempty_finds [OF match_finds [OF assms]])

lemma search_from_iff:
  assumes "rx_regular r"
  shows "rx_search_from r past s \<longleftrightarrow> (\<exists>a w b. s = a @ w @ b \<and> rx_accepts r (rev a @ past) w b)"
proof (induction s arbitrary: past)
  case Nil
  show ?case by (subst rx_search_from.simps) (simp add: match_somewhere [OF assms])
next
  case (Cons c s)
  have "(\<exists>a w b. c # s = a @ w @ b \<and> rx_accepts r (rev a @ past) w b) \<longleftrightarrow>
      (\<exists>w b. c # s = w @ b \<and> rx_accepts r past w b) \<or>
      (\<exists>a w b. s = a @ w @ b \<and> rx_accepts r (rev a @ c # past) w b)" (is "?L \<longleftrightarrow> ?A \<or> ?B")
  proof
    assume ?L
    then obtain a w b where a: "c # s = a @ w @ b" "rx_accepts r (rev a @ past) w b" by blast
    show "?A \<or> ?B"
    proof (cases a)
      case Nil
      with a show ?thesis by auto
    next
      case (Cons d a')
      with a show ?thesis by (intro disjI2 exI [of _ a'] exI [of _ w] exI [of _ b]) simp
    qed
  next
    assume "?A \<or> ?B"
    then show ?L
    proof
      assume ?A
      then obtain w b where "c # s = w @ b" "rx_accepts r past w b" by blast
      then show ?L by (intro exI [of _ "[]"] exI [of _ w] exI [of _ b]) simp
    next
      assume ?B
      then obtain a w b where "s = a @ w @ b" "rx_accepts r (rev a @ c # past) w b" by blast
      then show ?L by (intro exI [of _ "c # a"] exI [of _ w] exI [of _ b]) simp
    qed
  qed
  then show ?case by (subst rx_search_from.simps) (simp add: match_somewhere [OF assms] Cons.IH)
qed

theorem search_iff:
  assumes "rx_regular r"
  shows "rx_search r s \<longleftrightarrow> (\<exists>a w b. s = a @ w @ b \<and> rx_accepts r (rev a) w b)"
  by (simp add: rx_search_def search_from_iff [OF assms])

lemma search_here: "rx_regular r \<Longrightarrow> rx_accepts r (rev a) w b \<Longrightarrow> rx_search r (a @ w @ b)"
  by (auto simp: search_iff)

section \<open>Expressions that do not look around\<close>

primrec rx_plain :: "rx \<Rightarrow> bool" where
  "rx_plain Rx_Empty \<longleftrightarrow> True"
| "rx_plain (Rx_Set b items) \<longleftrightarrow> True"
| "rx_plain (Rx_Seq r1 r2) \<longleftrightarrow> rx_plain r1 \<and> rx_plain r2"
| "rx_plain (Rx_Alt r1 r2) \<longleftrightarrow> rx_plain r1 \<and> rx_plain r2"
| "rx_plain (Rx_Rep g lo hi r) \<longleftrightarrow> bounds_ok lo hi \<and> rx_plain r"
| "rx_plain (Rx_Group n r) \<longleftrightarrow> rx_plain r"
| "rx_plain (Rx_Backref n) \<longleftrightarrow> False"
| "rx_plain Rx_Start \<longleftrightarrow> False"
| "rx_plain Rx_End \<longleftrightarrow> False"
| "rx_plain Rx_Edge \<longleftrightarrow> False"
| "rx_plain (Rx_Behind b items) \<longleftrightarrow> False"
| "rx_plain (Rx_Look b r) \<longleftrightarrow> False"

lemma plain_regular: "rx_plain r \<Longrightarrow> rx_regular r"
  by (induction r) auto

definition rx_word :: "rx \<Rightarrow> string \<Rightarrow> bool" where
  "rx_word r w = rx_accepts r [] w []"

lemma times_plain:
  assumes "\<And>past w rest. R past w rest = P w"
  shows "rx_times R n past w rest \<longleftrightarrow> (\<exists>ws. length ws = n \<and> (\<forall>u \<in> set ws. P u) \<and> w = concat ws)"
proof (induction n arbitrary: past w)
  case (Suc n)
  have "rx_times R (Suc n) past w rest \<longleftrightarrow>
      (\<exists>u v. w = u @ v \<and> R past u (v @ rest) \<and> rx_times R n (rev u @ past) v rest)"
    by (rule rx_times_Suc)
  also have "\<dots> \<longleftrightarrow> (\<exists>u ws. P u \<and> length ws = n \<and> (\<forall>u \<in> set ws. P u) \<and> w = u @ concat ws)"
    unfolding Suc.IH assms by auto
  also have "\<dots> \<longleftrightarrow> (\<exists>ws. length ws = Suc n \<and> (\<forall>u \<in> set ws. P u) \<and> w = concat ws)"
    unfolding length_Suc_conv by (metis concat.simps(2) list.set_intros(1) list.set_intros(2) set_ConsD)
  finally show ?case .
qed simp

lemma accepts_plain: "rx_plain r \<Longrightarrow> rx_accepts r past w rest = rx_word r w"
proof (induction r arbitrary: past w rest)
  case (Rx_Seq r1 r2)
  then have eq: "rx_accepts r1 p u q = rx_word r1 u" "rx_accepts r2 p u q = rx_word r2 u" for p u q by auto
  show ?case unfolding rx_word_def [of "Rx_Seq r1 r2"] rx_accepts.simps eq ..
next
  case (Rx_Alt r1 r2)
  then have eq: "rx_accepts r1 p u q = rx_word r1 u" "rx_accepts r2 p u q = rx_word r2 u" for p u q by auto
  show ?case unfolding rx_word_def [of "Rx_Alt r1 r2"] rx_accepts.simps eq ..
next
  case (Rx_Rep g lo hi r)
  then have "rx_accepts r p u q = rx_word r u" for p u q by auto
  then show ?case unfolding rx_word_def [of "Rx_Rep g lo hi r"] by (simp add: times_plain)
next
  case (Rx_Group n r)
  then show ?case by (metis rx_accepts.simps(6) rx_plain.simps(6) rx_word_def)
qed (auto simp: rx_word_def)

lemma search_plain: "rx_plain r \<Longrightarrow> rx_search r s \<longleftrightarrow> (\<exists>a w b. s = a @ w @ b \<and> rx_word r w)"
  by (simp add: search_iff plain_regular accepts_plain)

lemma match_plain: "rx_plain r \<Longrightarrow> rx_match r (past, s, caps) \<noteq> [] \<longleftrightarrow> (\<exists>w v. s = w @ v \<and> rx_word r w)"
  by (simp add: match_somewhere plain_regular accepts_plain)

lemma word_empty [simp]: "rx_word Rx_Empty w \<longleftrightarrow> w = []"
  by (simp add: rx_word_def)

lemma word_set [simp]: "rx_word (Rx_Set b items) w \<longleftrightarrow> (\<exists>c. w = [c] \<and> class_has items c = b)"
  by (simp add: rx_word_def)

lemma word_alt [simp]: "rx_word (Rx_Alt r1 r2) w \<longleftrightarrow> rx_word r1 w \<or> rx_word r2 w"
  by (simp add: rx_word_def)

lemma word_group [simp]: "rx_word (Rx_Group n r) w \<longleftrightarrow> rx_word r w"
  by (simp add: rx_word_def)

lemma word_seq:
  assumes "rx_plain r1" "rx_plain r2"
  shows "rx_word (Rx_Seq r1 r2) w \<longleftrightarrow> (\<exists>u v. w = u @ v \<and> rx_word r1 u \<and> rx_word r2 v)"
proof -
  have "rx_word (Rx_Seq r1 r2) w \<longleftrightarrow> (\<exists>u v. w = u @ v \<and> rx_accepts r1 [] u v \<and> rx_accepts r2 (rev u) v [])"
    by (simp add: rx_word_def [of "Rx_Seq r1 r2"])
  then show ?thesis unfolding accepts_plain [OF assms(1)] accepts_plain [OF assms(2)] .
qed

lemma word_rep:
  assumes "rx_plain r"
  shows "rx_word (Rx_Rep g lo hi r) w \<longleftrightarrow> (\<exists>ws. lo \<le> length ws \<and> (\<forall>h. hi = Some h \<longrightarrow> length ws \<le> h) \<and>
    (\<forall>u \<in> set ws. rx_word r u) \<and> w = concat ws)"
proof -
  have "rx_times (rx_accepts r) n [] w [] \<longleftrightarrow> (\<exists>ws. length ws = n \<and> (\<forall>u \<in> set ws. rx_word r u) \<and> w = concat ws)" for n
    by (rule times_plain) (simp add: accepts_plain [OF assms])
  then show ?thesis unfolding rx_word_def [of "Rx_Rep g lo hi r"] by auto
qed

text \<open>
  Two checks that compute: no word has a character of \<open>cs\<close>; every word has a character outside \<open>cs\<close>.
\<close>

primrec rx_without :: "string \<Rightarrow> rx \<Rightarrow> bool" where
  "rx_without cs Rx_Empty \<longleftrightarrow> True"
| "rx_without cs (Rx_Set b items) \<longleftrightarrow> (\<forall>c \<in> set cs. class_has items c \<noteq> b)"
| "rx_without cs (Rx_Seq r1 r2) \<longleftrightarrow> rx_without cs r1 \<and> rx_without cs r2"
| "rx_without cs (Rx_Alt r1 r2) \<longleftrightarrow> rx_without cs r1 \<and> rx_without cs r2"
| "rx_without cs (Rx_Rep g lo hi r) \<longleftrightarrow> rx_without cs r"
| "rx_without cs (Rx_Group n r) \<longleftrightarrow> rx_without cs r"
| "rx_without cs (Rx_Backref n) \<longleftrightarrow> False"
| "rx_without cs Rx_Start \<longleftrightarrow> True"
| "rx_without cs Rx_End \<longleftrightarrow> True"
| "rx_without cs Rx_Edge \<longleftrightarrow> True"
| "rx_without cs (Rx_Behind b items) \<longleftrightarrow> True"
| "rx_without cs (Rx_Look b r) \<longleftrightarrow> True"

primrec rx_escapes :: "string \<Rightarrow> rx \<Rightarrow> bool" where
  "rx_escapes cs Rx_Empty \<longleftrightarrow> False"
| "rx_escapes cs (Rx_Set b items) \<longleftrightarrow> (\<forall>c \<in> set cs. class_has items c \<noteq> b)"
| "rx_escapes cs (Rx_Seq r1 r2) \<longleftrightarrow> rx_escapes cs r1 \<or> rx_escapes cs r2"
| "rx_escapes cs (Rx_Alt r1 r2) \<longleftrightarrow> rx_escapes cs r1 \<and> rx_escapes cs r2"
| "rx_escapes cs (Rx_Rep g lo hi r) \<longleftrightarrow> 0 < lo \<and> rx_escapes cs r"
| "rx_escapes cs (Rx_Group n r) \<longleftrightarrow> rx_escapes cs r"
| "rx_escapes cs (Rx_Backref n) \<longleftrightarrow> False"
| "rx_escapes cs Rx_Start \<longleftrightarrow> False"
| "rx_escapes cs Rx_End \<longleftrightarrow> False"
| "rx_escapes cs Rx_Edge \<longleftrightarrow> False"
| "rx_escapes cs (Rx_Behind b items) \<longleftrightarrow> False"
| "rx_escapes cs (Rx_Look b r) \<longleftrightarrow> False"

lemma without_word: "rx_plain r \<Longrightarrow> rx_without cs r \<Longrightarrow> rx_word r w \<Longrightarrow> c \<in> set w \<Longrightarrow> c \<notin> set cs"
proof (induction r arbitrary: w)
  case (Rx_Rep g lo hi r)
  then obtain ws where "\<forall>u \<in> set ws. rx_word r u" "w = concat ws" by (auto simp: word_rep)
  with Rx_Rep show ?case by auto
qed (auto simp: word_seq)

lemma escapes_word: "rx_plain r \<Longrightarrow> rx_escapes cs r \<Longrightarrow> rx_word r w \<Longrightarrow> \<exists>c \<in> set w. c \<notin> set cs"
proof (induction r arbitrary: w)
  case (Rx_Seq r1 r2)
  then show ?case by (auto simp: word_seq) (metis Un_iff set_append)+
next
  case (Rx_Rep g lo hi r)
  then obtain ws where ws: "lo \<le> length ws" "\<forall>u \<in> set ws. rx_word r u" "w = concat ws" by (auto simp: word_rep)
  from ws(1) Rx_Rep.prems have "ws \<noteq> []" by auto
  then have "hd ws \<in> set ws" by simp
  with ws Rx_Rep.IH [of "hd ws"] Rx_Rep.prems obtain c where "c \<in> set (hd ws)" "c \<notin> set cs" by auto
  with ws(3) \<open>hd ws \<in> set ws\<close> show ?case by auto
qed auto

end
