(* ===== verification/Redaction.thy ===== *)
theory Redaction
  imports Regex_Meaning Conversion Tool_Schema Complex_Main
begin

text \<open>
  \<open>core/security/outbound_redaction.py\<close>: the secret shapes with their regular expressions, the
  replacement of one match, and the walk over the text of a request. Python tests \<open>new is old\<close> only to
  avoid copies; a value that was not replaced is the same value here. The counter of replacements is
  threaded through the walk. The blocks are those of \<open>Conversion\<close>.
\<close>

section \<open>Requests\<close>

text \<open>
  The fields of a \<open>MessagesRequest\<close> the gateway itself reads; \<open>rq_other\<close> holds the rest of them as they
  came. \<open>th_enabled = None\<close> is a field the client did not set.
\<close>

record thinking_config =
  th_enabled :: "bool option option"
  th_type :: "string option"
  th_budget :: "int option"

datatype system_prompt = System_Text string | System_Blocks "string list"

record client_request =
  rq_model :: string
  rq_messages :: "anthropic_message list"
  rq_system :: "system_prompt option"
  rq_tools :: "json list option"
  rq_thinking :: "thinking_config option"
  rq_output_config :: json
  rq_other :: "(string, json) dict"

datatype redaction_mode = Redaction_Off | Redaction_Redact | Redaction_Block

section \<open>Which assignments look like secrets\<close>

definition REDACTION_PLACEHOLDER :: string where
  "REDACTION_PLACEHOLDER = ''[REDACTED-SECRET]''"

definition py_alpha :: "char \<Rightarrow> bool" where
  "py_alpha c \<longleftrightarrow> (let n = char_code c in
     65 \<le> n \<and> n \<le> 90 \<or> 97 \<le> n \<and> n \<le> 122 \<or> n \<in> set [170, 181, 186] \<or>
     192 \<le> n \<and> n \<noteq> 215 \<and> n \<noteq> 247)"

definition py_isdigit :: "char \<Rightarrow> bool" where
  "py_isdigit c \<longleftrightarrow> (let n = char_code c in 48 \<le> n \<and> n \<le> 57 \<or> n \<in> set [178, 179, 185])"

definition has_alpha :: "string \<Rightarrow> bool" where
  "has_alpha v \<longleftrightarrow> (\<exists>c \<in> set v. py_alpha c)"

definition has_digit :: "string \<Rightarrow> bool" where
  "has_digit v \<longleftrightarrow> (\<exists>c \<in> set v. py_isdigit c)"

text \<open>
  The entropy as the code writes it, over the reals, and the test \<open>entropy >= 3.0\<close> in whole numbers:
  with counts \<open>k\<close> of the characters of a text of length \<open>n\<close>, \<open>8^n * \<Prod>k^k \<le> n^n\<close>.
\<close>

definition shannon_entropy :: "string \<Rightarrow> real" where
  "shannon_entropy v =
     (if v = [] then 0
      else - (\<Sum>c \<leftarrow> remdups v.
        (real (count_list v c) / real (length v)) *
        log 2 (real (count_list v c) / real (length v))))"

definition entropy_at_least_3 :: "string \<Rightarrow> bool" where
  "entropy_at_least_3 v \<longleftrightarrow>
     v \<noteq> [] \<and>
     8 ^ length v * prod_list (map (\<lambda>c. count_list v c ^ count_list v c) (remdups v))
       \<le> length v ^ length v"

definition looks_high_entropy_secret :: "string \<Rightarrow> bool" where
  "looks_high_entropy_secret v \<longleftrightarrow>
     \<not> length v < 16 \<and> has_alpha v \<and> has_digit v \<and> entropy_at_least_3 v"

lemma entropy_gate: "entropy_at_least_3 v \<longleftrightarrow> 3 \<le> shannon_entropy v"
proof (cases "v = []")
  case False
  define n where "n = real (length v)"
  define k where "k c = real (count_list v c)" for c
  have n: "n > 0" using False by (simp add: n_def)
  have k: "k c > 0" if "c \<in> set v" for c
    using that count_list_0_iff [of v c] by (auto simp: k_def intro: Nat.gr0I)
  have sum_k: "(\<Sum>c \<in> set v. k c) = n"
    unfolding k_def n_def using sum_count_set [of v "set v"] by (simp flip: of_nat_sum)
  have ent: "shannon_entropy v = - (\<Sum>c \<in> set v. (k c / n) * log 2 (k c / n))"
    using False unfolding shannon_entropy_def k_def n_def
    by (simp add: sum_list_distinct_conv_sum_set)
  also have "\<dots> = - (\<Sum>c \<in> set v. (k c * log 2 (k c) - k c * log 2 n) / n)"
  proof -
    have "(k c / n) * log 2 (k c / n) = (k c * log 2 (k c) - k c * log 2 n) / n" if "c \<in> set v" for c
      using n k [OF that] by (simp add: log_divide right_diff_distrib diff_divide_distrib)
    from sum.cong [OF refl this] show ?thesis by (rule arg_cong)
  qed
  also have "\<dots> = (n * log 2 n - (\<Sum>c \<in> set v. k c * log 2 (k c))) / n"
    using sum_k by (simp add: sum_divide_distrib [symmetric] sum_subtractf sum_distrib_right [symmetric] diff_divide_distrib)
  finally have ent': "shannon_entropy v = (n * log 2 n - (\<Sum>c \<in> set v. k c * log 2 (k c))) / n" .
  have e: "3 \<le> shannon_entropy v \<longleftrightarrow>
      3 * n + (\<Sum>c \<in> set v. k c * log 2 (k c)) \<le> n * log 2 n"
    unfolding ent' using n by (simp add: le_divide_eq algebra_simps)
  define L where "L = (8::nat) ^ length v * (\<Prod>c \<in> set v. count_list v c ^ count_list v c)"
  have log_nn: "log 2 (real (length v ^ length v)) = n * log 2 n"
    using n unfolding n_def by (simp add: log_nat_power)
  have pos: "(\<Prod>c \<in> set v. k c ^ count_list v c) > 0"
    using k by (intro prod_pos) simp
  have "log 2 (\<Prod>c \<in> set v. k c ^ count_list v c) = (\<Sum>c \<in> set v. log 2 (k c ^ count_list v c))"
  proof -
    have "ln (\<Prod>c \<in> set v. k c ^ count_list v c) = (\<Sum>c \<in> set v. ln (k c ^ count_list v c))"
      using k by (intro ln_prod) (simp, metis less_irrefl zero_less_power)
    then show ?thesis by (simp add: log_def sum_divide_distrib)
  qed
  also have "\<dots> = (\<Sum>c \<in> set v. k c * log 2 (k c))"
    using k by (intro sum.cong) (simp_all add: log_nat_power k_def)
  finally have prod: "log 2 (\<Prod>c \<in> set v. k c ^ count_list v c) = (\<Sum>c \<in> set v. k c * log 2 (k c))" .
  have L: "real L = 8 ^ length v * (\<Prod>c \<in> set v. k c ^ count_list v c)"
    by (simp add: L_def k_def)
  have "log 2 (2 ^ 3 :: real) = 3" by (subst log_pow_cancel) simp_all
  then have "log 2 (8 :: real) = 3" by simp
  then have "log 2 (8 ^ length v :: real) = 3 * n"
    unfolding n_def by (simp add: log_nat_power)
  then have "log 2 (8 ^ length v * q) = 3 * n + log 2 q" if "0 < q" for q :: real
    using that by (subst log_mult) simp_all
  from this [OF pos] have log_L: "log 2 (real L) = 3 * n + (\<Sum>c \<in> set v. k c * log 2 (k c))"
    unfolding L prod .
  have L_pos: "0 < real L" unfolding L using pos by simp
  have nn_pos: "0 < real (length v ^ length v)" using False by simp
  have "real L \<le> real (length v ^ length v) \<longleftrightarrow> log 2 (real L) \<le> log 2 (real (length v ^ length v))"
    using L_pos nn_pos by (intro log_le_cancel_iff [symmetric]) simp_all
  then have "L \<le> length v ^ length v \<longleftrightarrow> 3 \<le> shannon_entropy v"
    unfolding e log_L log_nn by (metis of_nat_le_iff)
  moreover have "prod_list (map (\<lambda>c. count_list v c ^ count_list v c) (remdups v)) =
      (\<Prod>c \<in> set v. count_list v c ^ count_list v c)"
    by (metis distinct_remdups prod.distinct_set_conv_list set_remdups)
  ultimately show ?thesis using False by (simp add: entropy_at_least_3_def L_def)
qed (simp add: entropy_at_least_3_def shannon_entropy_def)

section \<open>Secret shapes\<close>

abbreviation UPPER :: class_item where "UPPER \<equiv> Upto (CHR ''A'') (CHR ''Z'')"
abbreviation LOWER :: class_item where "LOWER \<equiv> Upto (CHR ''a'') (CHR ''z'')"
abbreviation DIGITS :: class_item where "DIGITS \<equiv> Upto (CHR ''0'') (CHR ''9'')"

definition ALNUM :: "class_item list" where
  "ALNUM = [UPPER, LOWER, DIGITS]"

definition TOKEN :: "class_item list" where
  "TOKEN = [UPPER, LOWER, DIGITS, One (CHR ''_''), One (CHR ''-'')]"

text \<open>\<open>[...]{n,}\<close>, \<open>[...]{n}\<close>, \<open>[...]*\<close> and \<open>r?\<close>.\<close>

abbreviation at_least :: "nat \<Rightarrow> class_item list \<Rightarrow> rx" where
  "at_least n items \<equiv> Rx_Rep True n None (Rx_Set True items)"

abbreviation exactly :: "nat \<Rightarrow> class_item list \<Rightarrow> rx" where
  "exactly n items \<equiv> Rx_Rep True n (Some n) (Rx_Set True items)"

abbreviation rx_opt :: "rx \<Rightarrow> rx" where
  "rx_opt r \<equiv> Rx_Rep True 0 (Some 1) r"

record secret_pattern =
  sp_name :: string
  sp_regex :: rx
  sp_validate :: "(string \<Rightarrow> bool) option"

fun rx_groups :: "rx \<Rightarrow> string list" where
  "rx_groups (Rx_Group n r) = n # rx_groups r"
| "rx_groups (Rx_Seq r1 r2) = rx_groups r1 @ rx_groups r2"
| "rx_groups (Rx_Alt r1 r2) = rx_groups r1 @ rx_groups r2"
| "rx_groups (Rx_Rep g lo hi r) = rx_groups r"
| "rx_groups (Rx_Look b r) = rx_groups r"
| "rx_groups r = []"

text \<open>\<open>match.group(n)\<close> of a group that took part in the match, as every group the patterns name does.\<close>

definition hit_group :: "rx_hit \<Rightarrow> string \<Rightarrow> string" where
  "hit_group h n = (case dget (snd h) n of None \<Rightarrow> [] | Some w \<Rightarrow> w)"

definition pattern_target :: "secret_pattern \<Rightarrow> rx_hit \<Rightarrow> string" where
  "pattern_target p h =
     (if ''secret'' \<in> set (rx_groups (sp_regex p)) then hit_group h ''secret'' else fst h)"

definition replacement_for :: "secret_pattern \<Rightarrow> rx_hit \<Rightarrow> string option" where
  "replacement_for p h =
     (if case sp_validate p of None \<Rightarrow> False | Some ok \<Rightarrow> \<not> ok (pattern_target p h) then None
      else if ''keep'' \<notin> set (rx_groups (sp_regex p)) then Some REDACTION_PLACEHOLDER
      else
        (let keep = hit_group h ''keep'';
             quote = if ''q'' \<in> set (rx_groups (sp_regex p)) then hit_group h ''q'' else []
         in Some (keep @ quote @ REDACTION_PLACEHOLDER @ quote)))"

definition pem_head :: rx where
  "pem_head = rx_seq [rx_lit ''-----BEGIN '', at_least 0 [UPPER, DIGITS, One (CHR '' '')], rx_lit ''PRIVATE KEY-----'']"

definition pem_tail :: rx where
  "pem_tail = rx_seq [rx_lit ''-----END '', at_least 0 [UPPER, DIGITS, One (CHR '' '')], rx_lit ''PRIVATE KEY-----'']"

definition pem_private_key :: rx where
  "pem_private_key = rx_seq [pem_head, Rx_Rep False 0 None (Rx_Set False []), pem_tail]"

definition anthropic_api_key :: rx where
  "anthropic_api_key = rx_seq [rx_lit ''sk-ant-'', at_least 20 TOKEN]"

definition openai_api_key :: rx where
  "openai_api_key =
     rx_seq [rx_lit ''sk-'', rx_opt (rx_words [''proj-'', ''svcacct-'', ''admin-'']), at_least 20 TOKEN]"

definition groq_api_key :: rx where
  "groq_api_key = rx_seq [rx_lit ''gsk_'', at_least 20 ALNUM]"

definition github_token :: rx where
  "github_token = rx_seq [rx_lit ''gh'',
     Rx_Set True [One (CHR ''o''), One (CHR ''p''), One (CHR ''r''), One (CHR ''s''), One (CHR ''u'')],
     rx_char (CHR ''_''), at_least 30 ALNUM]"

definition github_pat :: rx where
  "github_pat = rx_seq [rx_lit ''github_pat_'', at_least 60 [UPPER, LOWER, DIGITS, One (CHR ''_'')]]"

definition slack_token :: rx where
  "slack_token = rx_seq [rx_lit ''xox'',
     Rx_Set True [One (CHR ''b''), One (CHR ''a''), One (CHR ''p''), One (CHR ''r''), One (CHR ''s'')],
     rx_char (CHR ''-''), at_least 10 [UPPER, LOWER, DIGITS, One (CHR ''-'')]]"

definition aws_access_key_id :: rx where
  "aws_access_key_id = rx_seq [
     rx_words [''AKIA'', ''ASIA'', ''AGPA'', ''AIDA'', ''AROA'', ''ANPA''], exactly 16 [DIGITS, UPPER]]"

definition nvidia_api_key :: rx where
  "nvidia_api_key = rx_seq [rx_lit ''nvapi-'', at_least 20 TOKEN]"

definition google_api_key :: rx where
  "google_api_key = rx_seq [rx_lit ''AIza'', exactly 35 [DIGITS, UPPER, LOWER, One (CHR ''_''), One (CHR ''-'')]]"

definition gitlab_token :: rx where
  "gitlab_token = rx_seq [rx_lit ''glpat-'', at_least 20 TOKEN]"

definition digitalocean_token :: rx where
  "digitalocean_token = rx_seq [rx_lit ''dop_v1_'',
     exactly 64 [Upto (CHR ''A'') (CHR ''F''), Upto (CHR ''a'') (CHR ''f''), DIGITS]]"

definition jwt :: rx where
  "jwt = rx_seq [rx_lit ''eyJ'', at_least 1 TOKEN, rx_char (CHR ''.''), at_least 1 TOKEN,
     rx_char (CHR ''.''), at_least 1 TOKEN]"

definition BEARER_SECRET :: "class_item list" where
  "BEARER_SECRET = [UPPER, LOWER, DIGITS, One (CHR ''_''), One (CHR ''-''), One (CHR ''.''), One (CHR ''=''),
     One (CHR ''+''), One (CHR ''/'')]"

definition bearer_keep :: rx where
  "bearer_keep = rx_seq [rx_nocase ''bearer'', at_least 1 [One (CHR '' ''), One (CHR 0x09)]]"

definition bearer_token :: rx where
  "bearer_token = rx_seq [Rx_Group ''keep'' bearer_keep, Rx_Group ''secret'' (at_least 20 BEARER_SECRET)]"

abbreviation rx_sep :: rx where
  "rx_sep \<equiv> rx_opt (Rx_Set True [One (CHR ''_''), One (CHR ''-'')])"

definition credential_word :: rx where
  "credential_word = rx_alt [
     rx_seq [rx_nocase ''api'', rx_sep, rx_nocase ''key'', rx_opt (rx_nocase ''s'')],
     rx_seq [rx_nocase ''secret'', rx_opt (rx_seq [rx_sep, rx_nocase ''access'']), rx_opt (rx_seq [rx_sep, rx_nocase ''key''])],
     rx_seq [rx_nocase ''access'', rx_sep, rx_nocase ''key'', rx_opt (rx_seq [rx_sep, rx_nocase ''id''])],
     rx_seq [rx_nocase ''auth'', rx_sep, rx_nocase ''token''],
     rx_nocase ''token'', rx_nocase ''password'', rx_nocase ''passwd'', rx_nocase ''passphrase'',
     rx_seq [rx_nocase ''private'', rx_sep, rx_nocase ''key'']]"

definition assignment_keep :: rx where
  "assignment_keep = rx_seq [credential_word, rx_opt (Rx_Set True [One (CHR 0x22), One (CHR 0x27)]),
     at_least 0 [One (CHR '' ''), One (CHR 0x09)], Rx_Set True [One (CHR '':''), One (CHR ''='')],
     at_least 0 [One (CHR '' ''), One (CHR 0x09)]]"

definition assignment_secret :: rx where
  "assignment_secret = at_least 16 [UPPER, LOWER, DIGITS, One (CHR ''+''), One (CHR ''/''), One (CHR ''_''),
     One (CHR ''-''), One (CHR ''.''), One (CHR ''='')]"

definition credential_assignment :: rx where
  "credential_assignment = rx_seq [Rx_Group ''keep'' assignment_keep,
     Rx_Group ''q'' (rx_opt (Rx_Set True [One (CHR 0x22), One (CHR 0x27)])),
     Rx_Group ''secret'' assignment_secret, Rx_Backref ''q'']"

definition always_secret :: "string \<Rightarrow> rx \<Rightarrow> secret_pattern" where
  "always_secret name r = \<lparr>sp_name = name, sp_regex = r, sp_validate = None\<rparr>"

definition SECRET_PATTERNS :: "secret_pattern list" where
  "SECRET_PATTERNS = [
     always_secret ''pem_private_key'' pem_private_key,
     always_secret ''anthropic_api_key'' anthropic_api_key,
     always_secret ''openai_api_key'' openai_api_key,
     always_secret ''groq_api_key'' groq_api_key,
     always_secret ''github_token'' github_token,
     always_secret ''github_token'' github_pat,
     always_secret ''slack_token'' slack_token,
     always_secret ''aws_access_key_id'' aws_access_key_id,
     always_secret ''nvidia_api_key'' nvidia_api_key,
     always_secret ''google_api_key'' google_api_key,
     always_secret ''gitlab_token'' gitlab_token,
     always_secret ''digitalocean_token'' digitalocean_token,
     always_secret ''jwt'' jwt,
     always_secret ''bearer_token'' bearer_token,
     \<lparr>sp_name = ''credential_assignment'', sp_regex = credential_assignment,
       sp_validate = Some looks_high_entropy_secret\<rparr>]"

section \<open>Redacting one text\<close>

type_synonym counter = "(string, nat) dict"

definition add_count :: "string \<Rightarrow> nat \<Rightarrow> counter \<Rightarrow> counter" where
  "add_count k n counts = dset k (n + (case dget counts k of None \<Rightarrow> 0 | Some m \<Rightarrow> m)) counts"

definition counter_update :: "counter \<Rightarrow> counter \<Rightarrow> counter" where
  "counter_update new counts = fold (\<lambda>(k, n). add_count k n) new counts"

definition counter_total :: "counter \<Rightarrow> nat" where
  "counter_total counts = sum_list (map snd counts)"

definition substitute :: "secret_pattern \<Rightarrow> rx_hit \<Rightarrow> string" where
  "substitute p h = (case replacement_for p h of None \<Rightarrow> fst h | Some r \<Rightarrow> r)"

definition replaced_hits :: "secret_pattern \<Rightarrow> string \<Rightarrow> rx_hit list" where
  "replaced_hits p s = filter (\<lambda>h. replacement_for p h \<noteq> None) (rx_finditer (sp_regex p) s)"

definition redact_pattern :: "secret_pattern \<Rightarrow> string \<times> counter \<Rightarrow> string \<times> counter" where
  "redact_pattern p st =
     (rx_sub (sp_regex p) (substitute p) (fst st),
      fold (\<lambda>h. add_count (sp_name p) 1) (replaced_hits p (fst st)) (snd st))"

record text_redaction =
  tr_text :: string
  tr_counts :: counter

definition redact_text :: "string \<Rightarrow> text_redaction" where
  "redact_text text =
     (case fold redact_pattern SECRET_PATTERNS (text, []) of
        (current, counts) \<Rightarrow>
          if counts = [] then \<lparr>tr_text = text, tr_counts = []\<rparr>
          else \<lparr>tr_text = current, tr_counts = counts\<rparr>)"

section \<open>Redacting a request\<close>

definition redact_str :: "string \<Rightarrow> counter \<Rightarrow> string \<times> counter" where
  "redact_str text counts =
     (let r = redact_text text in
      if counter_total (tr_counts r) = 0 then (text, counts)
      else (tr_text r, counter_update (tr_counts r) counts))"

definition redact_text_dict :: "(string, json) dict \<Rightarrow> counter \<Rightarrow> json \<times> counter" where
  "redact_text_dict block counts =
     (if dget block ''type'' \<noteq> Some (JStr ''text'') then (JObj block, counts)
      else
        (case dget block ''text'' of
           Some (JStr text) \<Rightarrow>
             (let (redacted, counts') = redact_str text counts
              in (if redacted = text then JObj block else JObj (dset ''text'' (JStr redacted) block), counts'))
         | _ \<Rightarrow> (JObj block, counts)))"

fun redact_tool_result_item :: "json \<Rightarrow> counter \<Rightarrow> json \<times> counter" where
  "redact_tool_result_item (JStr s) counts = (let (t, c) = redact_str s counts in (JStr t, c))"
| "redact_tool_result_item (JObj d) counts = redact_text_dict d counts"
| "redact_tool_result_item j counts = (j, counts)"

text \<open>The list comprehensions of the walk: the counter goes through the elements in order.\<close>

fun walk :: "('a \<Rightarrow> counter \<Rightarrow> 'a \<times> counter) \<Rightarrow> 'a list \<Rightarrow> counter \<Rightarrow> 'a list \<times> counter" where
  "walk f [] counts = ([], counts)"
| "walk f (x # xs) counts =
     (let (y, counts1) = f x counts; (ys, counts2) = walk f xs counts1 in (y # ys, counts2))"

fun redact_tool_result_content :: "json \<Rightarrow> counter \<Rightarrow> json \<times> counter" where
  "redact_tool_result_content (JStr s) counts = (let (t, c) = redact_str s counts in (JStr t, c))"
| "redact_tool_result_content (JArr items) counts =
     (let (items', c) = walk redact_tool_result_item items counts in (JArr items', c))"
| "redact_tool_result_content (JObj d) counts = redact_text_dict d counts"
| "redact_tool_result_content j counts = (j, counts)"

fun redact_content_block :: "content_block \<Rightarrow> counter \<Rightarrow> content_block \<times> counter" where
  "redact_content_block (Block_Text s) counts = (let (t, c) = redact_str s counts in (Block_Text t, c))"
| "redact_content_block (Block_Tool_Result i content) counts =
     (let (content', c) = redact_tool_result_content content counts in (Block_Tool_Result i content', c))"
| "redact_content_block b counts = (b, counts)"

fun redact_message_content :: "message_content \<Rightarrow> counter \<Rightarrow> message_content \<times> counter" where
  "redact_message_content (Content_Text s) counts = (let (t, c) = redact_str s counts in (Content_Text t, c))"
| "redact_message_content (Content_Blocks bs) counts =
     (let (bs', c) = walk redact_content_block bs counts in (Content_Blocks bs', c))"

definition redact_message :: "anthropic_message \<Rightarrow> counter \<Rightarrow> anthropic_message \<times> counter" where
  "redact_message m counts =
     (let (content, c) = redact_message_content (am_content m) counts in (m\<lparr>am_content := content\<rparr>, c))"

fun redact_system :: "system_prompt option \<Rightarrow> counter \<Rightarrow> system_prompt option \<times> counter" where
  "redact_system (Some (System_Text s)) counts = (let (t, c) = redact_str s counts in (Some (System_Text t), c))"
| "redact_system (Some (System_Blocks bs)) counts =
     (let (bs', c) = walk redact_str bs counts in (Some (System_Blocks bs'), c))"
| "redact_system None counts = (None, counts)"

record request_redaction =
  rr_request :: client_request
  rr_counts :: counter

definition redact_messages_request :: "client_request \<Rightarrow> request_redaction" where
  "redact_messages_request req =
     (let (system, c1) = redact_system (rq_system req) [];
          (messages, c2) = walk redact_message (rq_messages req) c1
      in if c2 = [] then \<lparr>rr_request = req, rr_counts = []\<rparr>
         else \<lparr>rr_request = req\<lparr>rq_system := system, rq_messages := messages\<rparr>, rr_counts = c2\<rparr>)"

end
