(* ===== verification/Routing.thy ===== *)
theory Routing
  imports Redaction
begin

text \<open>
  From the model name a client sends to the provider that answers: \<open>core/gateway_model_ids.py\<close>,
  \<open>config/model_refs.py\<close>, the routing fields of \<open>config/settings.py\<close> with their validators,
  \<open>application/routing.py\<close>, and the reasoning intent of \<open>core/reasoning.py\<close> and
  \<open>application/reasoning.py\<close>. A raised exception is a \<open>routing_error\<close>.
\<close>

section \<open>Model references\<close>

text \<open>\<open>s.partition("/")\<close>; the separator is present or not.\<close>

definition partition_slash :: "string \<Rightarrow> string \<times> bool \<times> string" where
  "partition_slash s =
     (let before = takeWhile (\<lambda>c. c \<noteq> CHR ''/'') s; rest = dropWhile (\<lambda>c. c \<noteq> CHR ''/'') s
      in (before, rest \<noteq> [], tl rest))"

datatype routing_error = Bad_Model_Ref string | Unknown_Provider string | Root_Inherits | Duplicate_Fallbacks
  | Unresolved_Preference | Bad_Budget | Budget_Without_Reasoning

definition split_provider_model_ref :: "string \<Rightarrow> routing_error + (string \<times> string)" where
  "split_provider_model_ref model_ref =
     (case partition_slash model_ref of (provider_id, separator, model_id) \<Rightarrow>
        if \<not> separator \<or> provider_id = [] \<or> model_id = [] then Inl (Bad_Model_Ref model_ref)
        else Inr (provider_id, model_id))"

definition parse_provider_type :: "string \<Rightarrow> routing_error + string" where
  "parse_provider_type model_ref = bind_result (split_provider_model_ref model_ref) (\<lambda>p. Inr (fst p))"

definition parse_model_name :: "string \<Rightarrow> routing_error + string" where
  "parse_model_name model_ref = bind_result (split_provider_model_ref model_ref) (\<lambda>p. Inr (snd p))"

section \<open>Gateway model ids\<close>

definition GATEWAY_MODEL_ID_PREFIX :: string where
  "GATEWAY_MODEL_ID_PREFIX = ''anthropic''"

definition NO_THINKING_GATEWAY_MODEL_ID_PREFIX :: string where
  "NO_THINKING_GATEWAY_MODEL_ID_PREFIX = ''claude-3-freecc-no-thinking''"

record decoded_gateway_model_id =
  dg_provider :: string
  dg_model :: string
  dg_reasoning_off :: bool

definition gateway_model_id :: "string \<Rightarrow> string" where
  "gateway_model_id provider_model_ref = GATEWAY_MODEL_ID_PREFIX @ ''/'' @ provider_model_ref"

definition no_thinking_gateway_model_id :: "string \<Rightarrow> string" where
  "no_thinking_gateway_model_id provider_model_ref =
     NO_THINKING_GATEWAY_MODEL_ID_PREFIX @ ''/'' @ provider_model_ref"

definition decode_gateway_model_id :: "string \<Rightarrow> decoded_gateway_model_id option" where
  "decode_gateway_model_id model_name =
     (case partition_slash model_name of (pre, separator, remainder) \<Rightarrow>
        if \<not> separator then None
        else if pre \<noteq> GATEWAY_MODEL_ID_PREFIX \<and> pre \<noteq> NO_THINKING_GATEWAY_MODEL_ID_PREFIX then None
        else
          (case partition_slash remainder of (provider_id, provider_separator, provider_model) \<Rightarrow>
             if \<not> provider_separator \<or> provider_model = [] then None
             else Some \<lparr>dg_provider = provider_id, dg_model = provider_model,
               dg_reasoning_off = (pre \<noteq> GATEWAY_MODEL_ID_PREFIX)\<rparr>))"

section \<open>Settings\<close>

definition SUPPORTED_PROVIDER_IDS :: "string list" where
  "SUPPORTED_PROVIDER_IDS = [
     ''nvidia_nim'', ''open_router'', ''groq'', ''cline_pass'', ''openai'', ''xai'', ''qwencloud'',
     ''qwencloud_coding'', ''together'', ''deepinfra'', ''siliconflow'', ''nebius'', ''chutes'',
     ''featherless'', ''agnes'', ''zenmux'', ''wandb'', ''azure_openai'', ''gemini'', ''vertex'',
     ''deepseek'', ''mistral'', ''mistral_codestral'', ''opencode_zen'', ''opencode_go'',
     ''vercel'', ''bedrock'', ''huggingface'', ''cohere'', ''github_models'', ''wafer'', ''kimi'',
     ''kimi_code'', ''kilo'', ''minimax'', ''cerebras'', ''sambanova'', ''fireworks'', ''novita'',
     ''cloudflare'', ''zai'', ''zai_api'', ''tokenrouter'', ''nararoute'', ''ollama_cloud'',
     ''lmstudio'', ''llamacpp'', ''ollama'']"

datatype reasoning_preference = Pref_Inherit | Pref_Off | Pref_Client | Pref_Low | Pref_Medium | Pref_High | Pref_XHigh | Pref_Max

record routing_settings =
  rs_model :: string
  rs_fable :: "string option"
  rs_opus :: "string option"
  rs_sonnet :: "string option"
  rs_haiku :: "string option"
  rs_fallbacks :: "string list option"
  rs_reasoning :: reasoning_preference
  rs_reasoning_fable :: reasoning_preference
  rs_reasoning_opus :: reasoning_preference
  rs_reasoning_sonnet :: reasoning_preference
  rs_reasoning_haiku :: reasoning_preference

definition validate_model_ref :: "string \<Rightarrow> routing_error + string" where
  "validate_model_ref s =
     (case partition_slash s of (provider, separator, model) \<Rightarrow>
        if \<not> separator \<or> provider = [] then Inl (Bad_Model_Ref s)
        else if provider \<notin> set SUPPORTED_PROVIDER_IDS then Inl (Unknown_Provider provider)
        else if model = [] then Inl (Bad_Model_Ref s)
        else Inr s)"

fun validate_model_format :: "string option \<Rightarrow> routing_error + string option" where
  "validate_model_format None = Inr None"
| "validate_model_format (Some s) = bind_result (validate_model_ref s) (\<lambda>t. Inr (Some t))"

fun validate_model_fallbacks :: "string list option \<Rightarrow> routing_error + string list option" where
  "validate_model_fallbacks None = Inr None"
| "validate_model_fallbacks (Some refs) =
     bind_result (map_result validate_model_ref refs)
       (\<lambda>validated. if \<not> distinct validated then Inl Duplicate_Fallbacks else Inr (Some validated))"

definition validate_root_reasoning_policy :: "reasoning_preference \<Rightarrow> routing_error + reasoning_preference" where
  "validate_root_reasoning_policy p = (if p = Pref_Inherit then Inl Root_Inherits else Inr p)"

text \<open>The validators that guard the routing fields, in the order of the fields.\<close>

definition validate_settings :: "routing_settings \<Rightarrow> routing_error + routing_settings" where
  "validate_settings s =
     bind_result (validate_model_ref (rs_model s)) (\<lambda>model.
     bind_result (validate_model_format (rs_fable s)) (\<lambda>fable.
     bind_result (validate_model_format (rs_opus s)) (\<lambda>opus.
     bind_result (validate_model_format (rs_sonnet s)) (\<lambda>sonnet.
     bind_result (validate_model_format (rs_haiku s)) (\<lambda>haiku.
     bind_result (validate_model_fallbacks (rs_fallbacks s)) (\<lambda>fallbacks.
     bind_result (validate_root_reasoning_policy (rs_reasoning s)) (\<lambda>root.
       Inr (s\<lparr>rs_model := model, rs_fable := fable, rs_opus := opus, rs_sonnet := sonnet, rs_haiku := haiku,
         rs_fallbacks := fallbacks, rs_reasoning := root\<rparr>))))))))"

section \<open>Reasoning intent\<close>

datatype reasoning_control = Control_Default | Control_Off | Control_On

datatype reasoning_effort = Minimal | Low | Medium | High | XHigh | Max

fun effort_budget_tokens :: "reasoning_effort \<Rightarrow> int" where
  "effort_budget_tokens Minimal = 512"
| "effort_budget_tokens Low = 512"
| "effort_budget_tokens Medium = 1024"
| "effort_budget_tokens High = 2048"
| "effort_budget_tokens XHigh = 4096"
| "effort_budget_tokens Max = 8192"

text \<open>The order in which the enumeration declares them.\<close>

fun effort_rank :: "reasoning_effort \<Rightarrow> nat" where
  "effort_rank Minimal = 0"
| "effort_rank Low = 1"
| "effort_rank Medium = 2"
| "effort_rank High = 3"
| "effort_rank XHigh = 4"
| "effort_rank Max = 5"

lemma effort_rank_inj: "effort_rank a = effort_rank b \<Longrightarrow> a = b"
  by (cases a; cases b) simp_all

instantiation reasoning_effort :: linorder
begin

definition less_eq_reasoning_effort :: "reasoning_effort \<Rightarrow> reasoning_effort \<Rightarrow> bool" where
  "less_eq_reasoning_effort a b \<longleftrightarrow> effort_rank a \<le> effort_rank b"

definition less_reasoning_effort :: "reasoning_effort \<Rightarrow> reasoning_effort \<Rightarrow> bool" where
  "less_reasoning_effort a b \<longleftrightarrow> effort_rank a < effort_rank b"

instance
proof
  fix a b c :: reasoning_effort
  show "a < b \<longleftrightarrow> a \<le> b \<and> \<not> b \<le> a" unfolding less_eq_reasoning_effort_def less_reasoning_effort_def by linarith
  show "a \<le> a" unfolding less_eq_reasoning_effort_def by simp
  show "a \<le> b \<Longrightarrow> b \<le> c \<Longrightarrow> a \<le> c" unfolding less_eq_reasoning_effort_def by linarith
  show "a \<le> b \<Longrightarrow> b \<le> a \<Longrightarrow> a = b"
    using effort_rank_inj unfolding less_eq_reasoning_effort_def by (meson le_antisym)
  show "a \<le> b \<or> b \<le> a" unfolding less_eq_reasoning_effort_def by linarith
qed

end

record reasoning_policy =
  rp_control :: reasoning_control
  rp_effort :: "reasoning_effort option"
  rp_budget :: "int option"

text \<open>The constructor with its checks.\<close>

definition make_policy ::
  "reasoning_control \<Rightarrow> reasoning_effort option \<Rightarrow> int option \<Rightarrow> routing_error + reasoning_policy" where
  "make_policy control effort budget =
     (if case budget of None \<Rightarrow> False | Some b \<Rightarrow> b \<le> 0 then Inl Bad_Budget
      else if budget \<noteq> None \<and> control \<noteq> Control_On then Inl Budget_Without_Reasoning
      else Inr \<lparr>rp_control = control, rp_effort = effort, rp_budget = budget\<rparr>)"

definition policy_off :: "routing_error + reasoning_policy" where
  "policy_off = make_policy Control_Off None None"

definition policy_on :: "reasoning_effort option \<Rightarrow> int option \<Rightarrow> routing_error + reasoning_policy" where
  "policy_on effort budget = make_policy Control_On effort budget"

definition output_enabled :: "reasoning_policy \<Rightarrow> bool" where
  "output_enabled p \<longleftrightarrow> rp_control p \<noteq> Control_Off"

definition requests_reasoning :: "reasoning_policy \<Rightarrow> bool" where
  "requests_reasoning p \<longleftrightarrow> rp_control p \<noteq> Control_Off \<and>
     (rp_control p = Control_On \<or> rp_effort p \<noteq> None \<or> rp_budget p \<noteq> None)"

definition numeric_budget_tokens :: "reasoning_policy \<Rightarrow> int option" where
  "numeric_budget_tokens p =
     (if rp_control p = Control_Off then None
      else if rp_budget p \<noteq> None then rp_budget p
      else map_option effort_budget_tokens (rp_effort p))"

text \<open>\<open>budget_tokens\<close> has the type \<open>int | None\<close> after validation.\<close>

definition positive_budget :: "thinking_config option \<Rightarrow> int option" where
  "positive_budget thinking =
     (case thinking of
        None \<Rightarrow> None
      | Some t \<Rightarrow> (case th_budget t of None \<Rightarrow> None | Some b \<Rightarrow> if b > 0 then Some b else None))"

definition thinking_control :: "thinking_config option \<Rightarrow> int option \<Rightarrow> reasoning_control" where
  "thinking_control thinking budget =
     (case thinking of
        None \<Rightarrow> Control_Default
      | Some t \<Rightarrow>
          if th_type t = Some ''disabled'' \<or> th_enabled t = Some (Some False) then Control_Off
          else if th_type t = Some ''adaptive'' \<or> th_type t = Some ''enabled'' \<or>
            th_enabled t = Some (Some True) \<or> budget \<noteq> None then Control_On
          else Control_Default)"

definition effort_of_value :: "string \<Rightarrow> reasoning_effort option" where
  "effort_of_value s = map_of [(''minimal'', Minimal), (''low'', Low), (''medium'', Medium), (''high'', High),
     (''xhigh'', XHigh), (''max'', Max)] s"

definition output_effort :: "json \<Rightarrow> reasoning_effort option \<times> bool" where
  "output_effort j =
     (case j of
        JObj d \<Rightarrow>
          (case dget d ''effort'' of
             Some (JStr raw) \<Rightarrow>
               (let normalized = py_lower (py_strip raw)
                in if normalized = ''none'' then (None, True) else (effort_of_value normalized, False))
           | _ \<Rightarrow> (None, False))
      | _ \<Rightarrow> (None, False))"

definition client_reasoning_policy :: "client_request \<Rightarrow> routing_error + reasoning_policy" where
  "client_reasoning_policy req =
     (let budget = positive_budget (rq_thinking req);
          control = thinking_control (rq_thinking req) budget;
          (effort, effort_disables) = output_effort (rq_output_config req)
      in if effort_disables then policy_off
         else if control = Control_Off then make_policy Control_Off effort None
         else if control = Control_On \<or> budget \<noteq> None then policy_on effort budget
         else make_policy Control_Default effort None)"

fun preference_effort :: "reasoning_preference \<Rightarrow> reasoning_effort option" where
  "preference_effort Pref_Low = Some Low"
| "preference_effort Pref_Medium = Some Medium"
| "preference_effort Pref_High = Some High"
| "preference_effort Pref_XHigh = Some XHigh"
| "preference_effort Pref_Max = Some Max"
| "preference_effort _ = None"

definition resolve_reasoning_policy ::
  "client_request \<Rightarrow> reasoning_preference \<Rightarrow> routing_error + reasoning_policy" where
  "resolve_reasoning_policy req preference =
     (if preference = Pref_Inherit then Inl Unresolved_Preference
      else if preference = Pref_Off then policy_off
      else if preference \<noteq> Pref_Client then policy_on (preference_effort preference) None
      else client_reasoning_policy req)"

section \<open>The router\<close>

record provider_target =
  pt_provider :: string
  pt_model :: string
  pt_ref :: string

record resolved_route =
  rt_original :: string
  rt_primary :: provider_target
  rt_fallbacks :: "provider_target list"
  rt_preference :: reasoning_preference

record routed_request =
  rd_request :: client_request
  rd_resolved :: resolved_route
  rd_reasoning :: reasoning_policy

definition make_target :: "string \<Rightarrow> string \<Rightarrow> routing_error + provider_target" where
  "make_target provider_id provider_model =
     (if provider_id \<notin> set SUPPORTED_PROVIDER_IDS then Inl (Unknown_Provider provider_id)
      else Inr \<lparr>pt_provider = provider_id, pt_model = provider_model,
        pt_ref = provider_id @ ''/'' @ provider_model\<rparr>)"

definition target_from_ref :: "string \<Rightarrow> routing_error + provider_target" where
  "target_from_ref model_ref =
     bind_result (parse_provider_type model_ref) (\<lambda>p.
     bind_result (parse_model_name model_ref) (\<lambda>m. make_target p m))"

definition fallback_targets :: "routing_settings \<Rightarrow> provider_target \<Rightarrow> routing_error + provider_target list" where
  "fallback_targets s primary =
     bind_result (map_result target_from_ref (case rs_fallbacks s of None \<Rightarrow> [] | Some refs \<Rightarrow> refs))
       (\<lambda>configured. Inr (filter (\<lambda>t. t \<noteq> primary) configured))"

definition direct_provider_model :: "string \<Rightarrow> (string \<times> string \<times> bool) option" where
  "direct_provider_model model_name =
     (case decode_gateway_model_id model_name of
        Some d \<Rightarrow>
          if dg_provider d \<notin> set SUPPORTED_PROVIDER_IDS then None
          else Some (dg_provider d, dg_model d, dg_reasoning_off d)
      | None \<Rightarrow>
          (case partition_slash model_name of (provider_id, separator, provider_model) \<Rightarrow>
             if \<not> separator \<or> provider_id \<notin> set SUPPORTED_PROVIDER_IDS \<or> provider_model = [] then None
             else Some (provider_id, provider_model, False)))"

datatype route = Route_Fable | Route_Opus | Route_Haiku | Route_Sonnet

definition ROUTE_SETTINGS :: "(string \<times> route) list" where
  "ROUTE_SETTINGS = [(''fable'', Route_Fable), (''opus'', Route_Opus), (''haiku'', Route_Haiku), (''sonnet'', Route_Sonnet)]"

fun route_model :: "routing_settings \<Rightarrow> route \<Rightarrow> string option" where
  "route_model s Route_Fable = rs_fable s"
| "route_model s Route_Opus = rs_opus s"
| "route_model s Route_Haiku = rs_haiku s"
| "route_model s Route_Sonnet = rs_sonnet s"

fun route_reasoning :: "routing_settings \<Rightarrow> route \<Rightarrow> reasoning_preference" where
  "route_reasoning s Route_Fable = rs_reasoning_fable s"
| "route_reasoning s Route_Opus = rs_reasoning_opus s"
| "route_reasoning s Route_Haiku = rs_reasoning_haiku s"
| "route_reasoning s Route_Sonnet = rs_reasoning_sonnet s"

definition matched_route :: "string \<Rightarrow> route option" where
  "matched_route model_name =
     map_option snd (find (\<lambda>r. py_find (fst r) (py_lower model_name) \<noteq> None) ROUTE_SETTINGS)"

definition resolve_model_ref :: "routing_settings \<Rightarrow> string \<Rightarrow> string" where
  "resolve_model_ref s name =
     (case matched_route name of
        None \<Rightarrow> rs_model s
      | Some r \<Rightarrow> (case route_model s r of Some m \<Rightarrow> m | None \<Rightarrow> rs_model s))"

definition resolve_reasoning_preference :: "routing_settings \<Rightarrow> string \<Rightarrow> reasoning_preference" where
  "resolve_reasoning_preference s name =
     (case matched_route name of
        None \<Rightarrow> rs_reasoning s
      | Some r \<Rightarrow> if route_reasoning s r \<noteq> Pref_Inherit then route_reasoning s r else rs_reasoning s)"

definition resolve_route :: "routing_settings \<Rightarrow> string \<Rightarrow> routing_error + resolved_route" where
  "resolve_route s name =
     (case direct_provider_model name of
        Some (provider_id, provider_model, force_off) \<Rightarrow>
          bind_result (make_target provider_id provider_model) (\<lambda>primary.
          bind_result (fallback_targets s primary) (\<lambda>fallbacks.
            Inr \<lparr>rt_original = name, rt_primary = primary, rt_fallbacks = fallbacks,
              rt_preference = (if force_off then Pref_Off else rs_reasoning s)\<rparr>))
      | None \<Rightarrow>
          bind_result (target_from_ref (resolve_model_ref s name)) (\<lambda>primary.
          bind_result (fallback_targets s primary) (\<lambda>fallbacks.
            Inr \<lparr>rt_original = name, rt_primary = primary, rt_fallbacks = fallbacks,
              rt_preference = resolve_reasoning_preference s name\<rparr>)))"

definition resolve_messages_request :: "routing_settings \<Rightarrow> client_request \<Rightarrow> routing_error + routed_request" where
  "resolve_messages_request s req =
     bind_result (resolve_route s (rq_model req)) (\<lambda>resolved.
       let routed = req\<lparr>rq_model := pt_model (rt_primary resolved)\<rparr> in
       bind_result (resolve_reasoning_policy routed (rt_preference resolved)) (\<lambda>reasoning.
         Inr \<lparr>rd_request = routed, rd_resolved = resolved, rd_reasoning = reasoning\<rparr>))"

end
