(* ===== verification/Redaction_Clean.thy ===== *)
theory Redaction_Clean
  imports Redaction
begin

text \<open>
  What a redacted text can contain. Replacing parts of a text by the placeholder (\<open>scrubbed\<close>) creates no
  new occurrence of a secret shape, since the placeholder is bracketed and its letters spell none of
  them; replacing every match of a shape leaves no occurrence of that shape. So after the whole list
  none of the shapes that are always replaced occurs.
\<close>

section \<open>Matches and the text between them\<close>

lemma repeat_closed:
  assumes "\<And>st st'. st' \<in> set (m st) \<Longrightarrow> P st st'" "\<And>st. P st st"
    "\<And>a b c. P a b \<Longrightarrow> P b c \<Longrightarrow> P a c"
    and "st' \<in> set (rx_repeat m g lo hi st)"
  shows "P st st'"
  using assms(4,1)
proof (induction m g lo hi st rule: rx_repeat.induct)
  case (1 m g lo hi st)
  show ?case
  proof (cases "lo > 0")
    case True
    with 1(3) obtain st1 where st1: "st1 \<in> set (m st)" "st' \<in> set (rx_repeat m g (lo - 1) (fewer hi) st1)"
      unfolding set_repeat_must [OF True] by blast
    from 1(1) [OF True st1 1(4)] 1(4) [OF st1(1)] assms(3) show ?thesis by blast
  next
    case False
    then have lo: "lo = 0" by simp
    show ?thesis
    proof (cases "hi = Some 0 \<or> st' = st")
      case True
      with 1(3) lo have "st' = st" by (auto simp: set_repeat_stop)
      then show ?thesis using assms(2) by simp
    next
      case hi: False
      then have "hi \<noteq> Some 0" by simp
      with 1(3) hi lo set_repeat_may [OF this, of m g st] obtain st1 where
        st1: "st1 \<in> set (filter (\<lambda>x. length (rx_rest x) < length (rx_rest st)) (m st))"
          "st' \<in> set (rx_repeat m g 0 (fewer hi) st1)"
        unfolding set_filter by blast
      have "P st1 st'" by (rule 1(2) [OF False \<open>hi \<noteq> Some 0\<close> st1 1(4)])
      moreover have "P st st1" using st1(1) 1(4) by auto
      ultimately show ?thesis using assms(3) by blast
    qed
  qed
qed

definition reads_on :: "bool \<Rightarrow> rx_state \<Rightarrow> rx_state \<Rightarrow> bool" where
  "reads_on b st st' \<longleftrightarrow> (\<exists>w. rx_rest st = w @ rx_rest st' \<and> rx_past st' = rev w @ rx_past st) \<and>
     (b \<longrightarrow> rx_caps st' = rx_caps st)"

lemma reads_on_refl: "reads_on b st st"
  by (simp add: reads_on_def)

lemma reads_on_trans: "reads_on b x y \<Longrightarrow> reads_on b y z \<Longrightarrow> reads_on b x z"
  unfolding reads_on_def by (metis append.assoc rev_append)

lemma reads_on_weaken: "reads_on b x y \<Longrightarrow> (b' \<longrightarrow> b) \<Longrightarrow> reads_on b' x y"
  by (auto simp: reads_on_def)

lemma match_reads_on: "st' \<in> set (rx_match r st) \<Longrightarrow> reads_on (rx_groups r = []) st st'"
proof (induction r arbitrary: st st')
  case (Rx_Set b items)
  obtain past rest caps where "st = (past, rest, caps)" by (cases st)
  with Rx_Set show ?case by (cases rest) (auto simp: reads_on_def split: if_splits)
next
  case (Rx_Seq r1 r2)
  then obtain st1 where "st1 \<in> set (rx_match r1 st)" "st' \<in> set (rx_match r2 st1)" by auto
  with Rx_Seq.IH have "reads_on (rx_groups r1 = []) st st1" "reads_on (rx_groups r2 = []) st1 st'" by blast+
  then have "reads_on (rx_groups (Rx_Seq r1 r2) = []) st st1" "reads_on (rx_groups (Rx_Seq r1 r2) = []) st1 st'"
    by (auto elim: reads_on_weaken)
  then show ?case by (rule reads_on_trans)
next
  case (Rx_Alt r1 r2)
  from Rx_Alt.prems have "reads_on (rx_groups r1 = []) st st' \<or> reads_on (rx_groups r2 = []) st st'"
    using Rx_Alt.IH by (metis Un_iff rx_match.simps(4) set_append)
  then show ?case by (auto elim: reads_on_weaken)
next
  case (Rx_Rep g lo hi r)
  from Rx_Rep.prems have *: "st' \<in> set (rx_repeat (rx_match r) g lo hi st)" by simp
  have "reads_on (rx_groups r = []) st st'"
    by (rule repeat_closed [OF _ reads_on_refl _ *]) (use Rx_Rep.IH reads_on_trans in blast)+
  then show ?case by simp
next
  case (Rx_Group n r)
  then obtain st1 where "st1 \<in> set (rx_match r st)" "rx_past st' = rx_past st1" "rx_rest st' = rx_rest st1" by auto
  with Rx_Group.IH [of st1 st] show ?case by (simp add: reads_on_def)
next
  case (Rx_Backref n)
  obtain past rest caps where "st = (past, rest, caps)" by (cases st)
  with Rx_Backref show ?case
    by (auto simp: reads_on_def prefix_def split: option.splits if_splits)
next
  case (Rx_Look b r)
  show ?case
  proof (cases "rx_match r st")
    case Nil
    with Rx_Look.prems show ?thesis by (auto simp: reads_on_def split: if_splits)
  next
    case (Cons st1 xs)
    with Rx_Look.IH [of st1 st] Rx_Look.prems show ?thesis by (auto simp: reads_on_def split: if_splits)
  qed
qed (auto simp: reads_on_def split: if_splits)

lemma match_consumed:
  assumes "st' \<in> set (rx_match r st)"
  shows "rx_rest st = consumed st st' @ rx_rest st'"
proof -
  from match_reads_on [OF assms] obtain w where "rx_rest st = w @ rx_rest st'" by (auto simp: reads_on_def)
  then show ?thesis by (simp add: consumed_def)
qed

lemma tokens_match:
  assumes "rx_match r (past, rest, []) = st # sts" "length (rx_rest st) < length rest"
  shows "rx_tokens r past rest =
    Inr (consumed (past, rest, []) st, rx_caps st) # rx_tokens r (rx_past st) (rx_rest st)"
  using assms by (subst rx_tokens.simps) simp

lemma tokens_skip:
  assumes "rx_match r (past, c # rest, []) = []"
  shows "rx_tokens r past (c # rest) = Inl c # rx_tokens r (c # past) rest"
  using assms by (subst rx_tokens.simps) simp

text \<open>
  A scan is driven by what the expression does at the front of the text: it matches something there,
  matches the empty text, or matches nothing.
\<close>

lemma tokens_induct [case_names match empty skip stop]:
  assumes "\<And>past rest st sts. rx_match r (past, rest, []) = st # sts \<Longrightarrow> length (rx_rest st) < length rest \<Longrightarrow>
      rest = consumed (past, rest, []) st @ rx_rest st \<Longrightarrow> P (rx_past st) (rx_rest st) \<Longrightarrow> P past rest"
    and "\<And>past c rest st sts. rx_match r (past, c # rest, []) = st # sts \<Longrightarrow>
      \<not> length (rx_rest st) < length (c # rest) \<Longrightarrow> P (c # past) rest \<Longrightarrow> P past (c # rest)"
    and "\<And>past c rest. rx_match r (past, c # rest, []) = [] \<Longrightarrow> P (c # past) rest \<Longrightarrow> P past (c # rest)"
    and "\<And>past. P past []"
  shows "P past rest"
proof (induction "length rest" arbitrary: past rest rule: less_induct)
  case less
  show ?case
  proof (cases rest)
    case Nil
    with assms(4) show ?thesis by simp
  next
    case (Cons c rest')
    have IH: "P (c # past) rest'" using less Cons by simp
    show ?thesis
    proof (cases "rx_match r (past, rest, [])")
      case Nil
      with assms(3) IH Cons show ?thesis by simp
    next
      case m: (Cons st sts)
      show ?thesis
      proof (cases "length (rx_rest st) < length rest")
        case True
        have "rest = consumed (past, rest, []) st @ rx_rest st"
          using match_consumed [of st r "(past, rest, [])"] m by simp
        from assms(1) [OF m True this] less [OF True] show ?thesis by simp
      next
        case False
        with assms(2) [of past c rest' st sts] m IH Cons show ?thesis by simp
      qed
    qed
  qed
qed

section \<open>Texts with parts replaced\<close>

inductive scrubbed :: "string \<Rightarrow> string \<Rightarrow> bool" where
  scrub_nil: "scrubbed [] []"
| scrub_keep: "scrubbed s t \<Longrightarrow> scrubbed (c # s) (c # t)"
| scrub_drop: "scrubbed s t \<Longrightarrow> scrubbed (d @ s) (REDACTION_PLACEHOLDER @ t)"

lemma scrubbed_refl: "scrubbed s s"
  by (induction s) (auto intro: scrubbed.intros)

lemma scrubbed_append: "scrubbed s t \<Longrightarrow> scrubbed s' t' \<Longrightarrow> scrubbed (s @ s') (t @ t')"
proof (induction rule: scrubbed.induct)
  case (scrub_drop s t d)
  then show ?case using scrubbed.scrub_drop [of "s @ s'" "t @ t'" d] by simp
qed (auto intro: scrubbed.intros)

lemma scrubbed_drop: "scrubbed d REDACTION_PLACEHOLDER"
  using scrub_drop [OF scrub_nil, of d] by simp

lemma placeholder_ends: "\<exists>u. REDACTION_PLACEHOLDER = CHR ''['' # u" "\<exists>u. REDACTION_PLACEHOLDER = u @ [CHR '']'']"
  by (auto simp: REDACTION_PLACEHOLDER_def intro: exI [of _ "''[REDACTED-SECRET''"])

lemma scrubbed_Nil: "scrubbed s [] \<Longrightarrow> s = []"
  using placeholder_ends(1) by (auto elim: scrubbed.cases)

text \<open>A text the placeholder cannot contribute to: no brackets, and a character the placeholder lacks.\<close>

definition solid :: "string \<Rightarrow> bool" where
  "solid w \<longleftrightarrow> CHR ''['' \<notin> set w \<and> CHR '']'' \<notin> set w \<and> (\<exists>c \<in> set w. c \<notin> set REDACTION_PLACEHOLDER)"

lemma solid_behind_placeholder:
  assumes "REDACTION_PLACEHOLDER @ t = a @ w @ b" "solid w"
  shows "\<exists>a2. a = REDACTION_PLACEHOLDER @ a2 \<and> t = a2 @ w @ b"
proof -
  consider u where "a = REDACTION_PLACEHOLDER @ u" "t = u @ w @ b"
    | u where "REDACTION_PLACEHOLDER = a @ u" "u \<noteq> []" "u @ t = w @ b"
  proof -
    obtain us where us: "REDACTION_PLACEHOLDER = a @ us \<and> us @ t = w @ b \<or>
        REDACTION_PLACEHOLDER @ us = a \<and> t = us @ w @ b"
      using assms(1) append_eq_append_conv2 [of REDACTION_PLACEHOLDER t a "w @ b"] by blast
    show thesis
    proof (cases "us = []")
      case True
      with us that(1) [of "[]"] show thesis by auto
    next
      case False
      with us that show thesis by metis
    qed
  qed
  then show ?thesis
  proof cases
    case 2
    obtain v where "REDACTION_PLACEHOLDER = v @ [CHR '']'']" using placeholder_ends(2) by blast
    with 2(1,2) have last: "CHR '']'' \<in> set u" by (metis last_appendR last_in_set last_snoc)
    from 2(3) have "(\<exists>x. w = u @ x) \<or> (\<exists>x. u = w @ x)" by (auto simp: append_eq_append_conv2)
    then show ?thesis
    proof
      assume "\<exists>x. w = u @ x"
      with last assms(2) show ?thesis by (auto simp: solid_def)
    next
      assume "\<exists>x. u = w @ x"
      then have "set w \<subseteq> set REDACTION_PLACEHOLDER" unfolding 2(1) by auto
      with assms(2) show ?thesis by (auto simp: solid_def)
    qed
  qed auto
qed

lemma scrubbed_prefix:
  assumes "scrubbed s t" "t = w @ b" "CHR ''['' \<notin> set w"
  shows "\<exists>b'. s = w @ b' \<and> scrubbed b' b"
  using assms
proof (induction arbitrary: w rule: scrubbed.induct)
  case scrub_nil
  then show ?case by (auto intro: scrubbed.intros)
next
  case (scrub_keep s t c)
  show ?case
  proof (cases w)
    case Nil
    with scrub_keep show ?thesis by (auto intro: scrubbed.intros)
  next
    case (Cons c' w')
    with scrub_keep show ?thesis by auto
  qed
next
  case (scrub_drop s t d)
  obtain u where "REDACTION_PLACEHOLDER = CHR ''['' # u" using placeholder_ends(1) by blast
  then have "CHR ''['' # u @ t = w @ b" using scrub_drop.prems(1) by (metis append_Cons)
  then have "w = []" using scrub_drop.prems(2) by (cases w) auto
  with scrub_drop show ?case by (auto intro: scrubbed.intros)
qed

lemma scrubbed_solid:
  assumes "scrubbed s t" "t = a @ w @ b" "solid w"
  shows "\<exists>a' b'. s = a' @ w @ b' \<and> scrubbed a' a \<and> scrubbed b' b"
  using assms
proof (induction arbitrary: a rule: scrubbed.induct)
  case scrub_nil
  then show ?case by (auto simp: solid_def)
next
  case (scrub_keep s t c)
  show ?case
  proof (cases a)
    case Nil
    then have "c # t = w @ b" using scrub_keep by simp
    moreover have "CHR ''['' \<notin> set w" using scrub_keep.prems by (simp add: solid_def)
    moreover have "scrubbed (c # s) (c # t)" using scrub_keep.hyps by (rule scrubbed.scrub_keep)
    ultimately obtain b' where "c # s = w @ b'" "scrubbed b' b" using scrubbed_prefix by blast
    with Nil show ?thesis by (intro exI [of _ "[]"] exI [of _ b']) (auto intro: scrubbed.intros)
  next
    case (Cons c' a2)
    with scrub_keep obtain a' b' where "s = a' @ w @ b'" "scrubbed a' a2" "scrubbed b' b" by auto
    with Cons scrub_keep.prems show ?thesis
      by (intro exI [of _ "c # a'"] exI [of _ b']) (auto intro: scrubbed.intros)
  qed
next
  case (scrub_drop s t d)
  from solid_behind_placeholder [OF scrub_drop.prems] obtain a2 where
    a2: "a = REDACTION_PLACEHOLDER @ a2" "t = a2 @ w @ b" by blast
  from scrub_drop.IH [OF a2(2) scrub_drop.prems(2)] obtain a' b' where
    "s = a' @ w @ b'" "scrubbed a' a2" "scrubbed b' b" by blast
  with a2 show ?case by (intro exI [of _ "d @ a'"] exI [of _ b']) (auto intro: scrubbed.intros)
qed

definition render :: "(rx_hit \<Rightarrow> string) \<Rightarrow> (char + rx_hit) list \<Rightarrow> string" where
  "render f ts = concat (map (case_sum (\<lambda>c. [c]) f) ts)"

lemma render_simps [simp]:
  "render f [] = []" "render f (Inl c # ts) = c # render f ts" "render f (Inr h # ts) = f h @ render f ts"
  by (simp_all add: render_def)

lemma rx_sub_render: "rx_sub r f s = render f (rx_tokens r [] s)"
  by (simp add: rx_sub_def render_def)

lemma tokens_Nil: "rx_match r (past, [], []) = [] \<Longrightarrow> rx_tokens r past [] = []"
  by (subst rx_tokens.simps) simp

lemma tokens_empty:
  assumes "rx_match r (past, c # rest, []) = st # sts" "\<not> length (rx_rest st) < length (c # rest)"
  shows "rx_tokens r past (c # rest) = Inr ([], rx_caps st) # Inl c # rx_tokens r (c # past) rest"
  using assms by (subst rx_tokens.simps) simp

lemma hit_consumed_empty:
  assumes "st \<in> set (rx_match r (past, s, []))" "\<not> length (rx_rest st) < length s"
  shows "consumed (past, s, []) st = []"
  using match_consumed [OF assms(1)] assms(2) by (simp add: consumed_def)

text \<open>A substitution that scrubs each match scrubs the text.\<close>

lemma tokens_scrubbed:
  assumes "\<And>past s st. st \<in> set (rx_match r (past, s, [])) \<Longrightarrow>
    scrubbed (consumed (past, s, []) st) (f (consumed (past, s, []) st, rx_caps st))"
  shows "scrubbed s (render f (rx_tokens r past s))"
proof (induction past s rule: tokens_induct [where r = r])
  case (match past rest st sts)
  have "scrubbed (consumed (past, rest, []) st @ rx_rest st)
      (f (consumed (past, rest, []) st, rx_caps st) @ render f (rx_tokens r (rx_past st) (rx_rest st)))"
    by (intro scrubbed_append assms match.IH) (simp add: match(1))
  with match(3) show ?case by (simp add: tokens_match [OF match(1,2)])
next
  case (empty past c rest st sts)
  have "st \<in> set (rx_match r (past, c # rest, []))" using empty(1) by simp
  from assms [OF this] hit_consumed_empty [OF this empty(2)] have "scrubbed [] (f ([], rx_caps st))" by simp
  from scrubbed_append [OF this scrub_keep [OF empty.IH]] show ?case by (simp add: tokens_empty [OF empty(1,2)])
next
  case (skip past c rest)
  then show ?case by (simp add: tokens_skip scrub_keep)
next
  case (stop past)
  show ?case
  proof (cases "rx_match r (past, [], [])")
    case Nil
    then show ?thesis by (simp add: tokens_Nil scrub_nil)
  next
    case (Cons st sts)
    then have st: "st \<in> set (rx_match r (past, [], []))" by simp
    have "rx_tokens r past [] = [Inr ([], rx_caps st)]" using Cons by (subst rx_tokens.simps) simp
    with assms [OF st] hit_consumed_empty [OF st] show ?thesis by simp
  qed
qed

section \<open>Shapes that scrubbing cannot create\<close>

definition tough :: "rx \<Rightarrow> bool" where
  "tough r \<longleftrightarrow> rx_plain r \<and> (\<forall>w. rx_word r w \<longrightarrow> (\<exists>h v. w = h @ v \<and> solid h)) \<and>
     (\<forall>s t a w b. scrubbed s t \<longrightarrow> t = a @ w @ b \<longrightarrow> rx_word r w \<longrightarrow>
        (\<exists>a' w' b'. s = a' @ w' @ b' \<and> rx_word r w' \<and> scrubbed a' a))"

lemma tough_plain: "tough r \<Longrightarrow> rx_plain r"
  by (simp add: tough_def)

lemma tough_start: "tough r \<Longrightarrow> rx_word r w \<Longrightarrow> \<exists>h v. w = h @ v \<and> solid h"
  unfolding tough_def by blast

lemma tough_origin:
  "tough r \<Longrightarrow> scrubbed s (a @ w @ b) \<Longrightarrow> rx_word r w \<Longrightarrow>
    \<exists>a' w' b'. s = a' @ w' @ b' \<and> rx_word r w' \<and> scrubbed a' a"
  unfolding tough_def by blast

lemma tough_word_nonempty: "tough r \<Longrightarrow> rx_word r w \<Longrightarrow> w \<noteq> []"
  using tough_start by (fastforce simp: solid_def)

lemma scrubbed_absent:
  assumes "tough r" "scrubbed s t" "\<not> rx_search r s"
  shows "\<not> rx_search r t"
proof
  assume "rx_search r t"
  then obtain a w b where "t = a @ w @ b" "rx_word r w" using search_plain [OF tough_plain [OF assms(1)]] by blast
  with tough_origin [OF assms(1), of s a w b] assms(2) obtain a' w' b' where "s = a' @ w' @ b'" "rx_word r w'"
    by blast
  with assms(3) search_plain [OF tough_plain [OF assms(1)]] show False by blast
qed

lemma word_solid:
  assumes "rx_plain r" "rx_without ''[]'' r" "rx_escapes REDACTION_PLACEHOLDER r" "rx_word r w"
  shows "solid w"
  using without_word [OF assms(1,2,4)] escapes_word [OF assms(1,3,4)]
  unfolding solid_def by auto

lemma plain_tough:
  assumes "rx_plain r" "rx_without ''[]'' r" "rx_escapes REDACTION_PLACEHOLDER r"
  shows "tough r"
  unfolding tough_def
proof (intro conjI allI impI)
  fix w assume "rx_word r w"
  then have "solid w" by (rule word_solid [OF assms])
  then show "\<exists>h v. w = h @ v \<and> solid h" by (intro exI [of _ w] exI [of _ "[]"]) simp
next
  fix s t a w b
  assume "scrubbed s t" "t = a @ w @ b" "rx_word r w"
  from scrubbed_solid [OF this(1,2) word_solid [OF assms this(3)]] this(3)
  show "\<exists>a' w' b'. s = a' @ w' @ b' \<and> rx_word r w' \<and> scrubbed a' a" by blast
qed (rule assms(1))

text \<open>A shape between two solid delimiters with anything in between, as a PEM block.\<close>

lemma delimited_tough:
  assumes head: "rx_plain h" "rx_without ''[]'' h" "rx_escapes REDACTION_PLACEHOLDER h"
    and tail: "rx_plain e" "rx_without ''[]'' e" "rx_escapes REDACTION_PLACEHOLDER e"
    and word: "\<And>w. rx_word r w \<longleftrightarrow> (\<exists>x y z. w = x @ y @ z \<and> rx_word h x \<and> rx_word e z)"
    and "rx_plain r"
  shows "tough r"
  unfolding tough_def
proof (intro conjI allI impI)
  fix w assume "rx_word r w"
  then show "\<exists>x v. w = x @ v \<and> solid x" using word word_solid [OF head] by blast
next
  fix s t a w b
  assume scrubbed: "scrubbed s t" and t: "t = a @ w @ b" and "rx_word r w"
  then obtain x y z where w: "w = x @ y @ z" and x: "rx_word h x" and z: "rx_word e z" using word by blast
  from scrubbed_solid [OF scrubbed _ word_solid [OF head x], of a "y @ z @ b"] t w
  obtain a' s2 where s: "s = a' @ x @ s2" "scrubbed a' a" "scrubbed s2 (y @ z @ b)" by auto
  from scrubbed_solid [OF s(3) refl word_solid [OF tail z]] obtain y' b' where "s2 = y' @ z @ b'" by blast
  with s(1) have "s = a' @ (x @ y' @ z) @ b'" by simp
  moreover have "rx_word r (x @ y' @ z)" using word x z by blast
  ultimately show "\<exists>a' w' b'. s = a' @ w' @ b' \<and> rx_word r w' \<and> scrubbed a' a" using s(2) by blast
qed (rule assms(8))

text \<open>
  Replacing every match of a tough shape leaves none: each match becomes a kept part \<open>k\<close>, in which no
  occurrence starts, and the placeholder.
\<close>

lemma tokens_clean:
  assumes tough: "tough r"
    and hits: "\<And>past s st. st \<in> set (rx_match r (past, s, [])) \<Longrightarrow>
      \<exists>k d. consumed (past, s, []) st = k @ d \<and>
        f (consumed (past, s, []) st, rx_caps st) = k @ REDACTION_PLACEHOLDER \<and>
        (\<forall>a u t w b. k = a @ u \<longrightarrow> u \<noteq> [] \<longrightarrow> u @ REDACTION_PLACEHOLDER @ t = w @ b \<longrightarrow> \<not> rx_word r w)"
    and "render f (rx_tokens r past s) = a @ w @ b" "rx_word r w"
  shows False
proof -
  have scrubs: "scrubbed s (render f (rx_tokens r past s))" for past s
  proof (rule tokens_scrubbed)
    fix past s st assume "st \<in> set (rx_match r (past, s, []))"
    from hits [OF this] show "scrubbed (consumed (past, s, []) st) (f (consumed (past, s, []) st, rx_caps st))"
      using scrubbed_append [OF scrubbed_refl scrubbed_drop] by force
  qed
  note plain = tough_plain [OF tough]
  have nonempty: "length (rx_rest st) < length s" if "st \<in> set (rx_match r (past, s, []))" for st past s
  proof -
    from finds_sound [OF match_finds [OF plain_regular [OF plain]] that] obtain v where
      "s = v @ rx_rest st" "rx_accepts r past v (rx_rest st)" by blast
    then show ?thesis using tough_word_nonempty [OF tough] accepts_plain [OF plain] by auto
  qed
  show False using assms(3,4)
  proof (induction past s arbitrary: a w b rule: tokens_induct [where r = r])
    case (match past rest st sts)
    let ?t = "render f (rx_tokens r (rx_past st) (rx_rest st))"
    have "st \<in> set (rx_match r (past, rest, []))" using match(1) by simp
    from hits [OF this] obtain k d where
      k: "f (consumed (past, rest, []) st, rx_caps st) = k @ REDACTION_PLACEHOLDER"
        "\<forall>a u t w b. k = a @ u \<longrightarrow> u \<noteq> [] \<longrightarrow> u @ REDACTION_PLACEHOLDER @ t = w @ b \<longrightarrow> \<not> rx_word r w"
      by blast
    have out: "k @ REDACTION_PLACEHOLDER @ ?t = a @ w @ b"
      using match.prems(1) by (simp add: tokens_match [OF match(1,2)] k(1))
    obtain u where u: "k = a @ u \<and> u @ REDACTION_PLACEHOLDER @ ?t = w @ b \<or>
        a = k @ u \<and> REDACTION_PLACEHOLDER @ ?t = u @ w @ b"
      using out append_eq_append_conv2 [of k "REDACTION_PLACEHOLDER @ ?t" a "w @ b"] by metis
    have "\<exists>a2. REDACTION_PLACEHOLDER @ ?t = a2 @ w @ b"
    proof (rule disjE [OF u])
      assume 1: "k = a @ u \<and> u @ REDACTION_PLACEHOLDER @ ?t = w @ b"
      then have "u = []" using k(2) match.prems(2) by blast
      with 1 show ?thesis by (intro exI [of _ "[]"]) simp
    qed blast
    then obtain a2 where a2: "REDACTION_PLACEHOLDER @ ?t = a2 @ w @ b" by blast
    obtain h v where h: "w = h @ v" "solid h" using tough_start [OF tough match.prems(2)] by blast
    from a2 h(1) have "REDACTION_PLACEHOLDER @ ?t = a2 @ h @ v @ b" by simp
    from solid_behind_placeholder [OF this h(2)] h(1) obtain a3 where "?t = a3 @ w @ b" by auto
    from match.IH [OF this match.prems(2)] show False .
  next
    case (empty past c rest st sts)
    have "st \<in> set (rx_match r (past, c # rest, []))" using empty(1) by simp
    from nonempty [OF this] empty(2) show False by simp
  next
    case (skip past c rest)
    let ?t = "render f (rx_tokens r (c # past) rest)"
    have out: "c # ?t = a @ w @ b" using skip.prems(1) by (simp add: tokens_skip [OF skip(1)])
    show False
    proof (cases a)
      case Nil
      have "scrubbed (c # rest) (a @ w @ b)" using scrub_keep [OF scrubs] out by metis
      from tough_origin [OF tough this skip.prems(2)] obtain a' w' b' where
        "c # rest = a' @ w' @ b'" "rx_word r w'" "scrubbed a' a" by blast
      then have "c # rest = w' @ b'" "rx_word r w'" using scrubbed_Nil Nil by auto
      then have "rx_match r (past, c # rest, []) \<noteq> []" using match_plain [OF plain] by blast
      with skip(1) show False by simp
    next
      case (Cons c' a2)
      have "c = c' \<and> ?t = a2 @ w @ b" using out unfolding Cons append_Cons list.inject .
      then have "c = c'" "?t = a2 @ w @ b" by blast+
      from skip.IH [OF this(2) skip.prems(2)] show False .
    qed
  next
    case (stop past)
    have none: "rx_match r (past, [], []) = []" using nonempty [of _ past "[]"] by (cases "rx_match r (past, [], [])") auto
    have "w = []" using stop.prems(1) tokens_Nil [OF none] by simp
    with tough_word_nonempty [OF tough stop.prems(2)] show False by simp
  qed
qed

lemma sub_clean:
  assumes "tough r"
    and "\<And>past s st. st \<in> set (rx_match r (past, s, [])) \<Longrightarrow>
      \<exists>k d. consumed (past, s, []) st = k @ d \<and>
        f (consumed (past, s, []) st, rx_caps st) = k @ REDACTION_PLACEHOLDER \<and>
        (\<forall>a u t w b. k = a @ u \<longrightarrow> u \<noteq> [] \<longrightarrow> u @ REDACTION_PLACEHOLDER @ t = w @ b \<longrightarrow> \<not> rx_word r w)"
  shows "\<not> rx_search r (rx_sub r f s)"
proof
  assume "rx_search r (rx_sub r f s)"
  then obtain a w b where "render f (rx_tokens r [] s) = a @ w @ b" "rx_word r w"
    unfolding rx_sub_render search_plain [OF tough_plain [OF assms(1)]] by blast
  from tokens_clean [OF assms this] show False .
qed

end
