(* ===== verification/Redaction_Properties.thy ===== *)
theory Redaction_Properties
  imports Redaction_Clean
begin

text \<open>
  The secret shapes the redaction always replaces are tough, each stage of \<open>redact_text\<close> leaves none of
  its own and creates none of the others; the walk over a request changes text and nothing else.
\<close>

section \<open>The shapes are tough\<close>

definition bracketed_check :: "rx \<Rightarrow> bool" where
  "bracketed_check r \<longleftrightarrow> rx_plain r \<and> rx_without ''[]'' r \<and> rx_escapes REDACTION_PLACEHOLDER r"

lemma check_tough: "bracketed_check r \<Longrightarrow> tough r"
  by (simp add: bracketed_check_def plain_tough)

lemma pem_tough: "tough pem_private_key"
proof (rule delimited_tough)
  have check: "bracketed_check pem_head" "bracketed_check pem_tail" by code_simp+
  then show "rx_plain pem_head" "rx_without ''[]'' pem_head" "rx_escapes REDACTION_PLACEHOLDER pem_head"
    "rx_plain pem_tail" "rx_without ''[]'' pem_tail" "rx_escapes REDACTION_PLACEHOLDER pem_tail"
    by (simp_all only: bracketed_check_def)
  show "rx_plain pem_private_key" by code_simp
  let ?any = "Rx_Rep False 0 None (Rx_Set False [])"
  have any: "rx_word ?any w" for w
  proof -
    have "\<forall>u \<in> set (map (\<lambda>c. [c]) w). rx_word (Rx_Set False []) u" by (auto simp: class_has_def)
    then show ?thesis by (subst word_rep) (auto intro!: exI [of _ "map (\<lambda>c. [c]) w"])
  qed
  fix w
  show "rx_word pem_private_key w \<longleftrightarrow> (\<exists>x y z. w = x @ y @ z \<and> rx_word pem_head x \<and> rx_word pem_tail z)"
  proof -
    have plain: "rx_plain pem_head" "rx_plain pem_tail" "rx_plain ?any" using check by (simp_all add: bracketed_check_def)
    have "rx_word pem_private_key w \<longleftrightarrow> (\<exists>x v. w = x @ v \<and> rx_word pem_head x \<and> rx_word (Rx_Seq ?any pem_tail) v)"
      unfolding pem_private_key_def rx_seq.simps using plain by (intro word_seq) simp_all
    also have "\<dots> \<longleftrightarrow> (\<exists>x y z. w = x @ y @ z \<and> rx_word pem_head x \<and> rx_word pem_tail z)"
      unfolding word_seq [OF plain(3,2)] using any by blast
    finally show ?thesis .
  qed
qed

lemma shape_checks:
  "bracketed_check anthropic_api_key"
  "bracketed_check openai_api_key"
  "bracketed_check groq_api_key"
  "bracketed_check github_token"
  "bracketed_check github_pat"
  "bracketed_check slack_token"
  "bracketed_check aws_access_key_id"
  "bracketed_check nvidia_api_key"
  "bracketed_check google_api_key"
  "bracketed_check gitlab_token"
  "bracketed_check digitalocean_token"
  "bracketed_check jwt"
  "bracketed_check bearer_token"
  by code_simp+

lemma shapes_tough:
  assumes "p \<in> set SECRET_PATTERNS" "sp_validate p = None"
  shows "tough (sp_regex p)"
  using assms shape_checks [THEN check_tough] pem_tough
  by (auto simp: SECRET_PATTERNS_def always_secret_def)

section \<open>What one shape replaces\<close>

lemma match_seqE:
  assumes "st' \<in> set (rx_match (Rx_Seq r1 r2) st)"
  obtains st1 where "st1 \<in> set (rx_match r1 st)" "st' \<in> set (rx_match r2 st1)"
  using assms unfolding rx_match.simps(3) set_concat set_map by blast

lemma match_group:
  assumes "st' \<in> set (rx_match (Rx_Group n r) st)" "rx_groups r = []"
  obtains w where "rx_rest st = w @ rx_rest st'" "rx_caps st' = dset n w (rx_caps st)"
    "rx_plain r \<Longrightarrow> rx_word r w"
proof -
  from assms(1) obtain st1 where st1: "st1 \<in> set (rx_match r st)" and
    st': "rx_rest st' = rx_rest st1" "rx_caps st' = dset n (consumed st st1) (rx_caps st1)" by auto
  have "rx_caps st1 = rx_caps st" using match_reads_on [OF st1] assms(2) by (simp add: reads_on_def)
  moreover have "rx_word r (consumed st st1)" if plain: "rx_plain r"
  proof -
    obtain past s caps where st: "st = (past, s, caps)" by (cases st)
    from finds_sound [OF match_finds [OF plain_regular [OF plain]] st1 [unfolded st]] obtain w where
      "s = w @ rx_rest st1" "rx_accepts r past w (rx_rest st1)" by blast
    then show ?thesis using accepts_plain [OF plain] by (simp add: consumed_def st)
  qed
  ultimately show thesis using that [of "consumed st st1"] match_consumed [OF st1] st' by simp
qed

lemma whole_hits:
  assumes "tough (sp_regex p)" "sp_validate p = None" "''keep'' \<notin> set (rx_groups (sp_regex p))"
  shows "\<not> rx_search (sp_regex p) (rx_sub (sp_regex p) (substitute p) s)"
proof (rule sub_clean [OF assms(1)])
  have "substitute p h = REDACTION_PLACEHOLDER" for h
    using assms(2,3) by (simp add: substitute_def replacement_for_def)
  then show "\<exists>k d. consumed (past, s, []) st = k @ d \<and>
      substitute p (consumed (past, s, []) st, rx_caps st) = k @ REDACTION_PLACEHOLDER \<and>
      (\<forall>a u t w b. k = a @ u \<longrightarrow> u \<noteq> [] \<longrightarrow> u @ REDACTION_PLACEHOLDER @ t = w @ b \<longrightarrow> \<not> rx_word (sp_regex p) w)"
    for past s st by (intro exI [of _ "[]"] exI [of _ "consumed (past, s, []) st"]) simp
qed

lemma word_class_rep:
  "rx_word (Rx_Rep g lo hi (Rx_Set b items)) w \<longleftrightarrow>
     lo \<le> length w \<and> (\<forall>h. hi = Some h \<longrightarrow> length w \<le> h) \<and> (\<forall>c \<in> set w. class_has items c = b)"
proof -
  have sing: "(\<forall>u \<in> set ws. rx_word (Rx_Set b items) u) \<and> w = concat ws \<longleftrightarrow>
      ws = map (\<lambda>c. [c]) w \<and> (\<forall>c \<in> set w. class_has items c = b)" for ws
  proof (induction ws arbitrary: w)
    case (Cons u ws)
    show ?case by (cases w) (use Cons in auto)
  qed auto
  have "rx_word (Rx_Rep g lo hi (Rx_Set b items)) w \<longleftrightarrow>
      (\<exists>ws. (lo \<le> length ws \<and> (\<forall>h. hi = Some h \<longrightarrow> length ws \<le> h)) \<and>
        ((\<forall>u \<in> set ws. rx_word (Rx_Set b items) u) \<and> w = concat ws))"
    by (subst word_rep) auto
  then show ?thesis unfolding sing by auto
qed

lemma plain_nocase: "rx_plain (rx_nocase s)"
proof -
  have "rx_plain (rx_seq (map (\<lambda>c. if p c then Rx_Set True (f c) else rx_char c) s))" for p f
    by (induction s rule: induct_list012) auto
  then show ?thesis by (simp add: rx_nocase_def)
qed

lemma word_nocase_length: "rx_word (rx_nocase s) w \<Longrightarrow> length w = length s"
proof -
  have "rx_word (rx_seq (map (\<lambda>c. if p c then Rx_Set True (f c) else rx_char c) s)) w \<Longrightarrow> length w = length s" for p f
  proof (induction s arbitrary: w rule: induct_list012)
    case (3 x y s)
    let ?r = "\<lambda>c. if p c then Rx_Set True (f c) else rx_char c"
    have plain: "rx_plain (rx_seq (map ?r (y # s)))" by (induction s arbitrary: y) auto
    from 3(3) have "rx_word (Rx_Seq (?r x) (rx_seq (map ?r (y # s)))) w" by simp
    then obtain u v where "w = u @ v" "rx_word (?r x) u" "rx_word (rx_seq (map ?r (y # s))) v"
      using plain by (subst (asm) word_seq) auto
    with 3(2) [of v] show ?case by (auto split: if_splits)
  qed (auto split: if_splits)
  then show "rx_word (rx_nocase s) w \<Longrightarrow> length w = length s" by (simp add: rx_nocase_def)
qed

definition inked :: "string \<Rightarrow> nat" where
  "inked s = length (filter (\<lambda>c. \<not> class_has [One (CHR '' ''), One (CHR 0x09)] c) s)"

lemma inked_append: "inked (a @ b) = inked a + inked b"
  by (simp add: inked_def)

lemma bearer_keep_inked: "rx_word bearer_keep k \<Longrightarrow> inked k \<le> 6"
proof -
  assume "rx_word bearer_keep k"
  then obtain u v where k: "k = u @ v" and u: "rx_word (rx_nocase ''bearer'') u"
    and v: "rx_word (at_least 1 [One (CHR '' ''), One (CHR 0x09)]) v"
    unfolding bearer_keep_def rx_seq.simps by (subst (asm) word_seq) (auto simp: plain_nocase)
  have "inked v = 0" using v unfolding word_class_rep inked_def by (simp add: filter_empty_conv)
  moreover have "inked u \<le> length u" by (simp add: inked_def)
  ultimately show ?thesis using k word_nocase_length [OF u] by (simp add: inked_append)
qed

lemma bearer_token_inked: "rx_word bearer_token w \<Longrightarrow> 20 \<le> inked w"
proof -
  assume "rx_word bearer_token w"
  then obtain u v where w: "w = u @ v" and v: "rx_word (at_least 20 BEARER_SECRET) v"
    unfolding bearer_token_def rx_seq.simps
    by (subst (asm) word_seq) (auto simp: bearer_keep_def plain_nocase)
  have blank: "\<not> class_has BEARER_SECRET (CHR '' '')" "\<not> class_has BEARER_SECRET (CHR 0x09)" by code_simp+
  have "filter (\<lambda>c. \<not> class_has [One (CHR '' ''), One (CHR 0x09)] c) v = v"
  proof (rule filter_True, rule ballI)
    fix c assume "c \<in> set v"
    then have "class_has BEARER_SECRET c" using v by (simp add: word_class_rep)
    with blank have "c \<noteq> CHR '' ''" "c \<noteq> CHR 0x09" by auto
    then show "\<not> class_has [One (CHR '' ''), One (CHR 0x09)] c" by (simp add: class_has_def)
  qed
  then have "inked v = length v" by (simp add: inked_def)
  then show ?thesis using w v by (simp add: inked_append word_class_rep)
qed

lemma bearer_hits:
  assumes "st \<in> set (rx_match bearer_token (past, s, []))"
  shows "\<exists>k d. consumed (past, s, []) st = k @ d \<and>
    hit_group (consumed (past, s, []) st, rx_caps st) ''keep'' = k \<and> rx_word bearer_keep k"
proof -
  from assms obtain st1 where st1: "st1 \<in> set (rx_match (Rx_Group ''keep'' bearer_keep) (past, s, []))"
    and st: "st \<in> set (rx_match (Rx_Group ''secret'' (at_least 20 BEARER_SECRET)) st1)"
    by (auto simp: bearer_token_def)
  have none: "rx_groups bearer_keep = []" "rx_groups (at_least 20 BEARER_SECRET) = []" "rx_plain bearer_keep"
    by code_simp+
  from match_group [OF st1 none(1)] none(3) obtain k where k: "s = k @ rx_rest st1" "rx_caps st1 = [(''keep'', k)]"
    "rx_word bearer_keep k" by auto
  from match_group [OF st none(2)] obtain d where d: "rx_rest st1 = d @ rx_rest st"
    "rx_caps st = dset ''secret'' d (rx_caps st1)" by metis
  have "consumed (past, s, []) st = k @ d" using k(1) d(1) by (simp add: consumed_def)
  moreover have "hit_group (w, rx_caps st) ''keep'' = k" for w
    by (simp add: hit_group_def d(2) k(2))
  ultimately show ?thesis using k(3) by blast
qed

lemma bearer_clean:
  "\<not> rx_search bearer_token (rx_sub bearer_token (substitute (always_secret ''bearer_token'' bearer_token)) s)"
proof (rule sub_clean)
  show tough: "tough bearer_token" using shape_checks(13) by (rule check_tough)
  fix past s st assume st: "st \<in> set (rx_match bearer_token (past, s, []))"
  from bearer_hits [OF st] obtain k d where k: "consumed (past, s, []) st = k @ d"
    "hit_group (consumed (past, s, []) st, rx_caps st) ''keep'' = k" "rx_word bearer_keep k" by blast
  have groups: "rx_groups bearer_token = [''keep'', ''secret'']" by code_simp
  have "substitute (always_secret ''bearer_token'' bearer_token) (consumed (past, s, []) st, rx_caps st) =
      k @ REDACTION_PLACEHOLDER"
    using k(2) by (simp add: substitute_def replacement_for_def always_secret_def groups)
  moreover have "\<not> rx_word bearer_token w"
    if u: "k = a @ u" "u \<noteq> []" "u @ REDACTION_PLACEHOLDER @ t = w @ b" for a u t w b
  proof
    assume w: "rx_word bearer_token w"
    then have "20 \<le> inked w" by (rule bearer_token_inked)
    have "CHR ''['' \<notin> set w"
      using w shape_checks(13) without_word [of bearer_token "''[]''" w] by (auto simp: bracketed_check_def)
    moreover have "\<exists>v. w = u @ v \<or> u = w @ v" using u(3) by (auto simp: append_eq_append_conv2)
    moreover have "v = []" if "w = u @ v" for v
    proof -
      have "REDACTION_PLACEHOLDER @ t = v @ b" using u(3) that by simp
      then show "v = []" using \<open>CHR ''['' \<notin> set w\<close> that by (cases v) (auto simp: REDACTION_PLACEHOLDER_def)
    qed
    ultimately obtain v where "u = w @ v" by fastforce
    then have "inked w \<le> inked k" using u(1) by (simp add: inked_append)
    with bearer_keep_inked [OF k(3)] \<open>20 \<le> inked w\<close> show False by simp
  qed
  ultimately show "\<exists>k d. consumed (past, s, []) st = k @ d \<and>
      substitute (always_secret ''bearer_token'' bearer_token) (consumed (past, s, []) st, rx_caps st) =
        k @ REDACTION_PLACEHOLDER \<and>
      (\<forall>a u t w b. k = a @ u \<longrightarrow> u \<noteq> [] \<longrightarrow> u @ REDACTION_PLACEHOLDER @ t = w @ b \<longrightarrow> \<not> rx_word bearer_token w)"
    using k(1) by blast
qed

lemma assignment_hits:
  assumes "st \<in> set (rx_match credential_assignment (past, s, []))"
  shows "\<exists>keep q secret. consumed (past, s, []) st = keep @ q @ secret @ q \<and>
    hit_group (w, rx_caps st) ''keep'' = keep \<and> hit_group (w, rx_caps st) ''q'' = q \<and>
    hit_group (w, rx_caps st) ''secret'' = secret"
proof -
  let ?q = "rx_opt (Rx_Set True [One (CHR 0x22), One (CHR 0x27)])"
  from assms obtain st1 st2 st3 where
    st1: "st1 \<in> set (rx_match (Rx_Group ''keep'' assignment_keep) (past, s, []))" and
    st2: "st2 \<in> set (rx_match (Rx_Group ''q'' ?q) st1)" and
    st3: "st3 \<in> set (rx_match (Rx_Group ''secret'' assignment_secret) st2)" and
    st: "st \<in> set (rx_match (Rx_Backref ''q'') st3)"
    unfolding credential_assignment_def rx_seq.simps by (elim match_seqE)
  have none: "rx_groups assignment_keep = []" "rx_groups ?q = []" "rx_groups assignment_secret = []"
    by code_simp+
  from match_group [OF st1 none(1)] obtain keep where 1: "s = keep @ rx_rest st1" "rx_caps st1 = [(''keep'', keep)]" by auto
  from match_group [OF st2 none(2)] obtain q where 2: "rx_rest st1 = q @ rx_rest st2" "rx_caps st2 = dset ''q'' q (rx_caps st1)" by metis
  from match_group [OF st3 none(3)] obtain secret where
    3: "rx_rest st2 = secret @ rx_rest st3" "rx_caps st3 = dset ''secret'' secret (rx_caps st2)" by metis
  obtain p3 r3 c3 where s3: "st3 = (p3, r3, c3)" by (cases st3)
  have caps: "c3 = [(''keep'', keep), (''q'', q), (''secret'', secret)]" using 1 2 3 s3 by simp
  have "prefix q r3 \<and> st = (rev q @ p3, drop (length q) r3, c3)"
    using st by (simp add: s3 caps split: if_splits)
  then have "r3 = q @ rx_rest st" "rx_caps st = c3" by (auto simp: prefix_def)
  then show ?thesis using 1 2 3 s3 caps by (simp add: consumed_def hit_group_def)
qed

text \<open>Every stage scrubs.\<close>

lemma keep_scrubbed: "scrubbed (k @ d) (k @ REDACTION_PLACEHOLDER)"
  by (intro scrubbed_append scrubbed_refl scrubbed_drop)

lemma shape_groups:
  assumes "p \<in> set SECRET_PATTERNS"
  shows "''keep'' \<notin> set (rx_groups (sp_regex p)) \<or> p = always_secret ''bearer_token'' bearer_token \<or>
    sp_regex p = credential_assignment \<and> sp_validate p \<noteq> None"
proof -
  have "rx_groups pem_private_key = []" "rx_groups anthropic_api_key = []" "rx_groups openai_api_key = []"
    "rx_groups groq_api_key = []" "rx_groups github_token = []" "rx_groups github_pat = []"
    "rx_groups slack_token = []" "rx_groups aws_access_key_id = []" "rx_groups nvidia_api_key = []"
    "rx_groups google_api_key = []" "rx_groups gitlab_token = []" "rx_groups digitalocean_token = []" "rx_groups jwt = []"
    by code_simp+
  note none = this
  from assms show ?thesis
    unfolding SECRET_PATTERNS_def list.set insert_iff empty_iff
    by (elim disjE FalseE) (simp_all add: none always_secret_def)
qed

lemma stage_scrubbed:
  assumes "p \<in> set SECRET_PATTERNS"
  shows "scrubbed s (rx_sub (sp_regex p) (substitute p) s)"
  unfolding rx_sub_render
proof (rule tokens_scrubbed)
  fix past s st assume st: "st \<in> set (rx_match (sp_regex p) (past, s, []))"
  let ?h = "(consumed (past, s, []) st, rx_caps st)"
  show "scrubbed (consumed (past, s, []) st) (substitute p ?h)"
  proof (cases "replacement_for p ?h")
    case None
    then show ?thesis by (simp add: substitute_def scrubbed_refl)
  next
    case (Some r)
    then have sub: "substitute p ?h = r" by (simp add: substitute_def)
    consider "''keep'' \<notin> set (rx_groups (sp_regex p))" | "p = always_secret ''bearer_token'' bearer_token"
      | "sp_regex p = credential_assignment" using shape_groups [OF assms] by blast
    then show ?thesis
    proof cases
      case 1
      with Some have "r = REDACTION_PLACEHOLDER" by (auto simp: replacement_for_def split: if_splits)
      with sub show ?thesis by (simp add: scrubbed_drop)
    next
      case 2
      with st have "st \<in> set (rx_match bearer_token (past, s, []))" by (simp add: always_secret_def)
      from bearer_hits [OF this] obtain k d where k: "consumed (past, s, []) st = k @ d" "hit_group ?h ''keep'' = k" by blast
      have "rx_groups bearer_token = [''keep'', ''secret'']" by code_simp
      with 2 Some k(2) have "r = k @ REDACTION_PLACEHOLDER"
        by (simp add: replacement_for_def always_secret_def)
      with sub k(1) keep_scrubbed show ?thesis by simp
    next
      case 3
      from assignment_hits [OF st [unfolded 3], of "consumed (past, s, []) st"] obtain keep q secret where
        h: "consumed (past, s, []) st = keep @ q @ secret @ q" "hit_group ?h ''keep'' = keep" "hit_group ?h ''q'' = q"
        by blast
      have "rx_groups credential_assignment = [''keep'', ''q'', ''secret'']" by code_simp
      with 3 Some h(2,3) have r: "r = keep @ q @ REDACTION_PLACEHOLDER @ q"
        by (auto simp: replacement_for_def Let_def split: if_splits)
      show ?thesis unfolding sub unfolding r h(1)
        by (intro scrubbed_append scrubbed_refl scrubbed_drop)
    qed
  qed
qed

text \<open>The stage of a shape leaves none of it.\<close>

lemma stage_clean:
  assumes "p \<in> set SECRET_PATTERNS" "sp_validate p = None"
  shows "\<not> rx_search (sp_regex p) (rx_sub (sp_regex p) (substitute p) s)"
proof (cases "''keep'' \<in> set (rx_groups (sp_regex p))")
  case True
  with shape_groups [OF assms(1)] assms(2) have p: "p = always_secret ''bearer_token'' bearer_token" by blast
  show ?thesis unfolding p using bearer_clean by (simp add: always_secret_def)
next
  case False
  with shapes_tough [OF assms] assms(2) show ?thesis by (intro whole_hits)
qed

section \<open>A redacted text\<close>

lemma fold_clean:
  assumes "\<And>p. p \<in> set ps \<Longrightarrow> p \<in> set SECRET_PATTERNS" "tough r" "\<not> rx_search r s"
  shows "\<not> rx_search r (fst (fold redact_pattern ps (s, c)))"
  using assms
proof (induction ps arbitrary: s c)
  case (Cons p ps)
  have "\<not> rx_search r (rx_sub (sp_regex p) (substitute p) s)"
    using Cons.prems by (intro scrubbed_absent [OF Cons.prems(2) stage_scrubbed]) auto
  moreover have "fold redact_pattern (p # ps) (s, c) =
      fold redact_pattern ps (rx_sub (sp_regex p) (substitute p) s, snd (redact_pattern p (s, c)))"
    by (simp add: redact_pattern_def)
  ultimately show ?case using Cons.IH Cons.prems(1,2) by auto
qed simp

lemma stages_clean:
  assumes "p \<in> set SECRET_PATTERNS" "sp_validate p = None"
  shows "\<not> rx_search (sp_regex p) (fst (fold redact_pattern SECRET_PATTERNS (s, c)))"
proof -
  obtain before after where split: "SECRET_PATTERNS = before @ p # after" using assms(1) by (meson split_list)
  obtain t c1 where mid: "fold redact_pattern before (s, c) = (t, c1)" by fastforce
  have "fold redact_pattern SECRET_PATTERNS (s, c) =
      fold redact_pattern after (rx_sub (sp_regex p) (substitute p) t, snd (redact_pattern p (t, c1)))"
    unfolding split by (simp add: mid) (simp add: redact_pattern_def)
  moreover have "\<not> rx_search (sp_regex p)
      (fst (fold redact_pattern after (rx_sub (sp_regex p) (substitute p) t, snd (redact_pattern p (t, c1)))))"
  proof (rule fold_clean)
    show "\<And>q. q \<in> set after \<Longrightarrow> q \<in> set SECRET_PATTERNS" unfolding split by simp
  qed (rule shapes_tough [OF assms], rule stage_clean [OF assms])
  ultimately show ?thesis by simp
qed

text \<open>With no hit counted, nothing was replaced, and the stages left the text alone.\<close>

lemma add_count_nonempty [simp]: "add_count k n c \<noteq> []"
  by (cases c) (auto simp: add_count_def)

lemma fold_add_count: "fold (\<lambda>h. add_count k n) hs c = [] \<longleftrightarrow> hs = [] \<and> c = []"
proof (induction hs arbitrary: c)
  case (Cons h hs)
  show ?case by (simp add: Cons [of "add_count k n c"])
qed simp

lemma render_same:
  assumes "\<And>h. h \<in> set (concat (map (case_sum (\<lambda>_. []) (\<lambda>h. [h])) ts)) \<Longrightarrow> f h = fst h"
  shows "render f ts = render fst ts"
  using assms
proof (induction ts)
  case (Cons x ts)
  then show ?case by (cases x) auto
qed simp

lemma render_fst_text: "render fst (rx_tokens r past s) = s"
proof (induction past s rule: tokens_induct [where r = r])
  case (match past rest st sts)
  then show ?case by (simp add: tokens_match [OF match(1,2)])
next
  case (empty past c rest st sts)
  then show ?case by (simp add: tokens_empty [OF empty(1,2)])
next
  case (skip past c rest)
  then show ?case by (simp add: tokens_skip)
next
  case (stop past)
  show ?case by (subst rx_tokens.simps) (auto split: list.splits dest: hit_consumed_empty)
qed

lemma stage_unchanged:
  assumes "replaced_hits p s = []"
  shows "rx_sub (sp_regex p) (substitute p) s = s"
proof -
  have "substitute p h = fst h" if "h \<in> set (rx_finditer (sp_regex p) s)" for h
    using assms that by (auto simp: replaced_hits_def filter_empty_conv substitute_def)
  then have "render (substitute p) (rx_tokens (sp_regex p) [] s) = render fst (rx_tokens (sp_regex p) [] s)"
    by (intro render_same) (simp add: rx_finditer_def)
  then show ?thesis by (simp add: rx_sub_render render_fst_text)
qed

lemma fold_none:
  assumes "snd (fold redact_pattern ps (s, c)) = []"
  shows "c = [] \<and> fst (fold redact_pattern ps (s, c)) = s"
  using assms
proof (induction ps arbitrary: s c)
  case (Cons p ps)
  let ?s1 = "rx_sub (sp_regex p) (substitute p) s"
  let ?c1 = "fold (\<lambda>h. add_count (sp_name p) 1) (replaced_hits p s) c"
  have step: "fold redact_pattern (p # ps) (s, c) = fold redact_pattern ps (?s1, ?c1)"
    unfolding fold_simps redact_pattern_def fst_conv snd_conv ..
  have "?c1 = [] \<and> fst (fold redact_pattern ps (?s1, ?c1)) = ?s1"
    by (rule Cons.IH) (use Cons.prems step in metis)
  then have "?c1 = []" "fst (fold redact_pattern (p # ps) (s, c)) = ?s1" unfolding step by blast+
  then have "replaced_hits p s = []" "c = []" unfolding fold_add_count by blast+
  with stage_unchanged [of p s] \<open>fst (fold redact_pattern (p # ps) (s, c)) = ?s1\<close> show ?case by simp
qed simp

lemma redact_text_fold: "tr_text (redact_text s) = fst (fold redact_pattern SECRET_PATTERNS (s, []))"
  using fold_none [of SECRET_PATTERNS s "[]"]
  by (auto simp: redact_text_def split: prod.splits)

text \<open>A text free of every shape that is always replaced.\<close>

definition secret_free :: "string \<Rightarrow> bool" where
  "secret_free s \<longleftrightarrow> (\<forall>p \<in> set SECRET_PATTERNS. sp_validate p = None \<longrightarrow> \<not> rx_search (sp_regex p) s)"

lemma redact_text_free: "secret_free (tr_text (redact_text s))"
  unfolding secret_free_def redact_text_fold using stages_clean by blast

text \<open>A counter holds only positive counts.\<close>

definition counting :: "counter \<Rightarrow> bool" where
  "counting c \<longleftrightarrow> (\<forall>(k, n) \<in> set c. 0 < n)"

lemma counting_Nil [simp]: "counting []"
  by (simp add: counting_def)

lemma counting_add: "counting c \<Longrightarrow> 0 < n \<Longrightarrow> counting (add_count k n c)"
proof -
  have "set (dset k v c) \<subseteq> insert (k, v) (set c)" for v by (induction c) auto
  then show "counting c \<Longrightarrow> 0 < n \<Longrightarrow> counting (add_count k n c)"
    unfolding counting_def add_count_def by (fastforce split: option.splits)
qed

lemma counting_total: "counting c \<Longrightarrow> counter_total c = 0 \<longleftrightarrow> c = []"
  by (cases c) (auto simp: counting_def counter_total_def)

lemma counting_redact_text: "counting (tr_counts (redact_text s))"
proof -
  have hits: "counting c \<Longrightarrow> counting (fold (\<lambda>h. add_count k 1) hs c)" for k hs c
    by (induction hs arbitrary: c) (auto intro: counting_add)
  have "counting c \<Longrightarrow> counting (snd (fold redact_pattern ps (s, c)))" for ps s c
  proof (induction ps arbitrary: s c)
    case (Cons p ps)
    have "fold redact_pattern (p # ps) (s, c) = fold redact_pattern ps (rx_sub (sp_regex p) (substitute p) s,
        fold (\<lambda>h. add_count (sp_name p) 1) (replaced_hits p s) c)"
      unfolding fold_simps redact_pattern_def fst_conv snd_conv ..
    then show ?case using Cons.IH [OF hits [OF Cons.prems]] by simp
  qed simp
  from this [of "[]" SECRET_PATTERNS s] show ?thesis
    by (auto simp: redact_text_def split: prod.splits)
qed

lemma redact_str_free: "secret_free (fst (redact_str s c))"
proof (cases "tr_counts (redact_text s) = []")
  case True
  then have "tr_text (redact_text s) = s" by (auto simp: redact_text_def split: prod.splits if_splits)
  with True redact_text_free [of s] show ?thesis by (simp add: redact_str_def counter_total_def)
next
  case False
  then have "counter_total (tr_counts (redact_text s)) \<noteq> 0" using counting_total counting_redact_text by blast
  then show ?thesis using redact_text_free by (simp add: redact_str_def Let_def)
qed

section \<open>A redacted request\<close>

text \<open>
  The texts the redaction is meant to reach, one function for each level of a request, and the request
  with all of them blanked: what is left is everything the redaction must not touch.
\<close>

definition dict_texts :: "(string, json) dict \<Rightarrow> string list" where
  "dict_texts d =
     (if dget d ''type'' \<noteq> Some (JStr ''text'') then []
      else (case dget d ''text'' of Some (JStr t) \<Rightarrow> [t] | _ \<Rightarrow> []))"

fun item_texts :: "json \<Rightarrow> string list" where
  "item_texts (JStr s) = [s]"
| "item_texts (JObj d) = dict_texts d"
| "item_texts j = []"

fun result_texts :: "json \<Rightarrow> string list" where
  "result_texts (JArr items) = concat (map item_texts items)"
| "result_texts j = item_texts j"

fun block_texts :: "content_block \<Rightarrow> string list" where
  "block_texts (Block_Text s) = [s]"
| "block_texts (Block_Tool_Result i content) = result_texts content"
| "block_texts b = []"

fun content_texts :: "message_content \<Rightarrow> string list" where
  "content_texts (Content_Text s) = [s]"
| "content_texts (Content_Blocks bs) = concat (map block_texts bs)"

fun system_texts :: "system_prompt option \<Rightarrow> string list" where
  "system_texts None = []"
| "system_texts (Some (System_Text s)) = [s]"
| "system_texts (Some (System_Blocks bs)) = bs"

definition request_texts :: "client_request \<Rightarrow> string list" where
  "request_texts req =
     system_texts (rq_system req) @ concat (map (content_texts \<circ> am_content) (rq_messages req))"

definition dict_blank :: "(string, json) dict \<Rightarrow> (string, json) dict" where
  "dict_blank d = (if dict_texts d = [] then d else dset ''text'' (JStr []) d)"

fun item_blank :: "json \<Rightarrow> json" where
  "item_blank (JStr s) = JStr []"
| "item_blank (JObj d) = JObj (dict_blank d)"
| "item_blank j = j"

fun result_blank :: "json \<Rightarrow> json" where
  "result_blank (JArr items) = JArr (map item_blank items)"
| "result_blank j = item_blank j"

fun block_blank :: "content_block \<Rightarrow> content_block" where
  "block_blank (Block_Text s) = Block_Text []"
| "block_blank (Block_Tool_Result i content) = Block_Tool_Result i (result_blank content)"
| "block_blank b = b"

fun content_blank :: "message_content \<Rightarrow> message_content" where
  "content_blank (Content_Text s) = Content_Text []"
| "content_blank (Content_Blocks bs) = Content_Blocks (map block_blank bs)"

fun system_blank :: "system_prompt option \<Rightarrow> system_prompt option" where
  "system_blank None = None"
| "system_blank (Some (System_Text s)) = Some (System_Text [])"
| "system_blank (Some (System_Blocks bs)) = Some (System_Blocks (map (\<lambda>_. []) bs))"

definition message_blank :: "anthropic_message \<Rightarrow> anthropic_message" where
  "message_blank m = m\<lparr>am_content := content_blank (am_content m)\<rparr>"

definition request_blank :: "client_request \<Rightarrow> client_request" where
  "request_blank req =
     req\<lparr>rq_system := system_blank (rq_system req), rq_messages := map message_blank (rq_messages req)\<rparr>"

text \<open>
  One step of the walk is sound if the new value has only clean texts, differs from the old one only
  in them, is the old one when no hit has been counted, and counts nothing as zero hits.
\<close>

definition walk_ok :: "('a \<Rightarrow> string list) \<Rightarrow> ('a \<Rightarrow> 'a) \<Rightarrow> ('a \<Rightarrow> counter \<Rightarrow> 'a \<times> counter) \<Rightarrow> 'a \<Rightarrow> bool" where
  "walk_ok texts blank f x \<longleftrightarrow>
     (\<forall>c. (\<forall>t \<in> set (texts (fst (f x c))). secret_free t) \<and> blank (fst (f x c)) = blank x \<and>
        (snd (f x c) = [] \<longrightarrow> c = [] \<and> fst (f x c) = x) \<and> (counting c \<longrightarrow> counting (snd (f x c))))"

lemma fold_counts_nonempty: "c \<noteq> [] \<Longrightarrow> fold (\<lambda>(k, n). add_count k n) new c \<noteq> []"
proof (induction new arbitrary: c)
  case (Cons x new)
  obtain k n where "x = (k, n)" by (cases x)
  then show ?case using Cons.IH [of "add_count k n c"] by simp
qed simp

lemma counter_update_nonempty: "new \<noteq> [] \<Longrightarrow> counter_update new c \<noteq> []"
proof -
  assume "new \<noteq> []"
  then obtain k n rest where "new = (k, n) # rest" by (metis neq_Nil_conv surj_pair)
  then show ?thesis using fold_counts_nonempty [of "add_count k n c" rest] by (simp add: counter_update_def)
qed

lemma redact_str_quiet:
  assumes "snd (redact_str s c) = []"
  shows "c = [] \<and> fst (redact_str s c) = s"
proof (cases "counter_total (tr_counts (redact_text s)) = 0")
  case True
  with assms show ?thesis by (simp add: redact_str_def)
next
  case False
  then have "tr_counts (redact_text s) \<noteq> []" by (auto simp: counter_total_def)
  then have "counter_update (tr_counts (redact_text s)) c \<noteq> []" by (rule counter_update_nonempty)
  moreover have "snd (redact_str s c) = counter_update (tr_counts (redact_text s)) c"
    using False by (simp only: redact_str_def Let_def if_False snd_conv)
  ultimately show ?thesis using assms by simp
qed

lemma counting_update: "counting new \<Longrightarrow> counting c \<Longrightarrow> counting (counter_update new c)"
  unfolding counter_update_def
proof (induction new arbitrary: c)
  case (Cons x new)
  obtain k n where x: "x = (k, n)" by (cases x)
  with Cons.prems have "counting new" "0 < n" by (auto simp: counting_def)
  with Cons.IH [of "add_count k n c"] counting_add Cons.prems x show ?case by simp
qed simp

lemma redact_str_counting: "counting c \<Longrightarrow> counting (snd (redact_str s c))"
  using counting_update [OF counting_redact_text] by (simp add: redact_str_def Let_def)

lemma walk_str: "walk_ok (\<lambda>s. [s]) (\<lambda>_. []) redact_str s"
  using redact_str_free redact_str_quiet redact_str_counting by (simp add: walk_ok_def)

lemma walk_list:
  assumes "\<And>x. x \<in> set xs \<Longrightarrow> walk_ok texts blank f x"
  shows "walk_ok (\<lambda>xs. concat (map texts xs)) (map blank) (walk f) xs"
  using assms
proof (induction xs)
  case Nil
  then show ?case by (simp add: walk_ok_def)
next
  case (Cons x xs)
  show ?case unfolding walk_ok_def
  proof (rule allI)
    fix c
    obtain y c1 where y: "f x c = (y, c1)" by fastforce
    obtain ys c2 where ys: "walk f xs c1 = (ys, c2)" by fastforce
    have "walk_ok texts blank f x" using Cons.prems by simp
    then have 1: "(\<forall>t \<in> set (texts y). secret_free t) \<and> blank y = blank x \<and> (c1 = [] \<longrightarrow> c = [] \<and> y = x) \<and>
        (counting c \<longrightarrow> counting c1)"
      unfolding walk_ok_def using y by (metis fst_conv snd_conv)
    have "walk_ok (\<lambda>xs. concat (map texts xs)) (map blank) (walk f) xs" using Cons by simp
    then have 2: "(\<forall>t \<in> set (concat (map texts ys)). secret_free t) \<and> map blank ys = map blank xs \<and>
        (c2 = [] \<longrightarrow> c1 = [] \<and> ys = xs) \<and> (counting c1 \<longrightarrow> counting c2)"
      unfolding walk_ok_def using ys by (metis fst_conv snd_conv)
    have "walk f (x # xs) c = (y # ys, c2)" by (simp add: y ys)
    with 1 2 show "(\<forall>t \<in> set (concat (map texts (fst (walk f (x # xs) c)))). secret_free t) \<and>
        map blank (fst (walk f (x # xs) c)) = map blank (x # xs) \<and>
        (snd (walk f (x # xs) c) = [] \<longrightarrow> c = [] \<and> fst (walk f (x # xs) c) = x # xs) \<and>
        (counting c \<longrightarrow> counting (snd (walk f (x # xs) c)))" by auto
  qed
qed

text \<open>A step that redacts inside a constructor inherits soundness from the step it wraps.\<close>

lemma walk_wrap:
  assumes "walk_ok texts blank f x" "\<And>c. g (K x) c = (K (fst (f x c)), snd (f x c))"
    "\<And>y. set (texts' (K y)) \<subseteq> set (texts y)" "\<And>y. blank y = blank x \<Longrightarrow> blank' (K y) = blank' (K x)"
  shows "walk_ok texts' blank' g (K x)"
  unfolding walk_ok_def
proof (rule allI)
  fix c
  have "(\<forall>t \<in> set (texts (fst (f x c))). secret_free t)" "blank (fst (f x c)) = blank x"
    "snd (f x c) = [] \<longrightarrow> c = [] \<and> fst (f x c) = x" "counting c \<longrightarrow> counting (snd (f x c))"
    using assms(1) unfolding walk_ok_def by blast+
  with assms(3) [of "fst (f x c)"] assms(4) [of "fst (f x c)"]
  show "(\<forall>t \<in> set (texts' (fst (g (K x) c))). secret_free t) \<and> blank' (fst (g (K x) c)) = blank' (K x) \<and>
      (snd (g (K x) c) = [] \<longrightarrow> c = [] \<and> fst (g (K x) c) = K x) \<and> (counting c \<longrightarrow> counting (snd (g (K x) c)))"
    unfolding assms(2) fst_conv snd_conv by (intro conjI impI) (blast, blast, blast, metis, blast)
qed

lemma walk_skip:
  assumes "\<And>c. g x c = (x, c)" "texts x = []"
  shows "walk_ok texts blank g x"
  using assms by (simp add: walk_ok_def)

lemma dset_same: "dget d k = Some v \<Longrightarrow> dset k v d = d"
  by (induction d) auto

lemma walk_dict: "walk_ok (\<lambda>j. case j of JObj d \<Rightarrow> dict_texts d | _ \<Rightarrow> []) item_blank
    (\<lambda>j c. case j of JObj d \<Rightarrow> redact_text_dict d c | _ \<Rightarrow> (j, c)) (JObj d)"
proof (cases "\<exists>t. dget d ''type'' = Some (JStr ''text'') \<and> dget d ''text'' = Some (JStr t)")
  case False
  then have "redact_text_dict d c = (JObj d, c)" for c
    by (auto simp: redact_text_dict_def split: option.splits json.splits)
  moreover have "dict_texts d = []" using False by (auto simp: dict_texts_def split: option.splits json.splits)
  ultimately show ?thesis by (intro walk_skip) simp_all
next
  case True
  then obtain t where t: "dget d ''type'' = Some (JStr ''text'')" "dget d ''text'' = Some (JStr t)" by blast
  have get: "dget (dset ''text'' (JStr u) d) ''type'' = Some (JStr ''text'')"
    "dget (dset ''text'' (JStr u) d) ''text'' = Some (JStr u)" for u
    using t by (simp_all add: update_conv')
  have texts: "dict_texts (dset ''text'' (JStr u) d) = [u]" for u using get by (simp add: dict_texts_def)
  have blank: "dict_blank (dset ''text'' (JStr u) d) = dset ''text'' (JStr []) d" for u
    by (simp add: dict_blank_def texts)
  have red: "redact_text_dict d c =
      (JObj (dset ''text'' (JStr (fst (redact_str t c))) d), snd (redact_str t c))" for c
    using t by (auto simp: redact_text_dict_def dset_same split: prod.splits)
  show ?thesis unfolding walk_ok_def
  proof (rule allI)
    fix c
    have "dict_blank d = dset ''text'' (JStr []) d" using blank [of t] dset_same [OF t(2)] by simp
    with red [of c] texts blank redact_str_free [of t c] redact_str_quiet [of t c] redact_str_counting [of c t] dset_same [OF t(2)]
    show "(\<forall>t\<in>set (case fst (case JObj d of JObj d \<Rightarrow> redact_text_dict d c | _ \<Rightarrow> (JObj d, c)) of
            JObj d \<Rightarrow> dict_texts d | _ \<Rightarrow> []). secret_free t) \<and>
         item_blank (fst (case JObj d of JObj d \<Rightarrow> redact_text_dict d c | _ \<Rightarrow> (JObj d, c))) = item_blank (JObj d) \<and>
         (snd (case JObj d of JObj d \<Rightarrow> redact_text_dict d c | _ \<Rightarrow> (JObj d, c)) = [] \<longrightarrow>
            c = [] \<and> fst (case JObj d of JObj d \<Rightarrow> redact_text_dict d c | _ \<Rightarrow> (JObj d, c)) = JObj d) \<and>
         (counting c \<longrightarrow> counting (snd (case JObj d of JObj d \<Rightarrow> redact_text_dict d c | _ \<Rightarrow> (JObj d, c))))"
      by auto
  qed
qed

lemma redact_dict_object: "\<exists>d'. fst (redact_text_dict d c) = JObj d'"
  by (auto simp: redact_text_dict_def split: option.splits json.splits prod.splits)

lemma walk_dict_item:
  assumes "\<And>c. g (JObj d) c = redact_text_dict d c" "\<And>d'. texts (JObj d') = dict_texts d'"
    "\<And>d'. blank (JObj d') = JObj (dict_blank d')"
  shows "walk_ok texts blank g (JObj d)"
  unfolding walk_ok_def
proof (rule allI)
  fix c
  obtain d' where d': "fst (redact_text_dict d c) = JObj d'" using redact_dict_object by blast
  have "(\<forall>t \<in> set (dict_texts d'). secret_free t) \<and> dict_blank d' = dict_blank d \<and>
      (snd (redact_text_dict d c) = [] \<longrightarrow> c = [] \<and> JObj d' = JObj d) \<and>
      (counting c \<longrightarrow> counting (snd (redact_text_dict d c)))"
    using walk_dict [of d] d' unfolding walk_ok_def by (elim allE [where x = c]) simp
  then show "(\<forall>t \<in> set (texts (fst (g (JObj d) c))). secret_free t) \<and>
      blank (fst (g (JObj d) c)) = blank (JObj d) \<and> (snd (g (JObj d) c) = [] \<longrightarrow> c = [] \<and> fst (g (JObj d) c) = JObj d) \<and>
      (counting c \<longrightarrow> counting (snd (g (JObj d) c)))"
    unfolding assms d' by blast
qed

lemma walk_item: "walk_ok item_texts item_blank redact_tool_result_item j"
proof (cases j)
  case (JStr s)
  show ?thesis unfolding JStr by (rule walk_wrap [OF walk_str]) (simp_all add: split_def Let_def)
next
  case (JObj d)
  show ?thesis unfolding JObj by (rule walk_dict_item) simp_all
qed (auto intro: walk_skip)

lemma walk_result: "walk_ok result_texts result_blank redact_tool_result_content j"
proof (cases j)
  case (JStr s)
  show ?thesis unfolding JStr by (rule walk_wrap [OF walk_str]) (simp_all add: split_def Let_def)
next
  case (JObj d)
  show ?thesis unfolding JObj by (rule walk_dict_item) simp_all
next
  case (JArr xs)
  show ?thesis unfolding JArr by (rule walk_wrap [OF walk_list [OF walk_item]]) (simp_all add: split_def Let_def)
qed (auto intro: walk_skip)

lemma walk_block: "walk_ok block_texts block_blank redact_content_block b"
proof (cases b)
  case (Block_Text s)
  show ?thesis unfolding Block_Text by (rule walk_wrap [OF walk_str]) (simp_all add: split_def Let_def)
next
  case (Block_Tool_Result i content)
  show ?thesis unfolding Block_Tool_Result
    by (rule walk_wrap [OF walk_result, of _ "Block_Tool_Result i"]) (simp_all add: split_def Let_def)
qed (auto intro: walk_skip)

lemma walk_content: "walk_ok content_texts content_blank redact_message_content m"
proof (cases m)
  case (Content_Text s)
  show ?thesis unfolding Content_Text by (rule walk_wrap [OF walk_str]) (simp_all add: split_def Let_def)
next
  case (Content_Blocks bs)
  show ?thesis unfolding Content_Blocks by (rule walk_wrap [OF walk_list [OF walk_block]]) (simp_all add: split_def Let_def)
qed

lemma walk_message: "walk_ok (content_texts \<circ> am_content) message_blank redact_message m"
proof -
  have m: "m = (\<lambda>x. m\<lparr>am_content := x\<rparr>) (am_content m)" by simp
  have "walk_ok (content_texts \<circ> am_content) message_blank redact_message ((\<lambda>x. m\<lparr>am_content := x\<rparr>) (am_content m))"
    by (rule walk_wrap [OF walk_content]) (simp_all add: split_def Let_def redact_message_def message_blank_def)
  then show ?thesis using m by simp
qed

lemma walk_system: "walk_ok system_texts system_blank redact_system sys"
proof (cases sys)
  case None
  then show ?thesis by (auto intro: walk_skip)
next
  case (Some p)
  show ?thesis
  proof (cases p)
    case (System_Text s)
    show ?thesis unfolding Some System_Text
      by (rule walk_wrap [OF walk_str, of _ "\<lambda>s. Some (System_Text s)"]) (simp_all add: split_def Let_def)
  next
    case (System_Blocks bs)
    have "walk_ok (\<lambda>xs. concat (map (\<lambda>s. [s]) xs)) (map (\<lambda>_. [])) (walk redact_str) bs"
      by (rule walk_list [OF walk_str])
    then show ?thesis unfolding Some System_Blocks
      by (rule walk_wrap [where K = "\<lambda>bs. Some (System_Blocks bs)"]) (simp_all add: split_def Let_def)
  qed
qed

text \<open>The redacted request, whether or not anything was found.\<close>

lemma redact_request_walk:
  assumes "redact_system (rq_system req) [] = (sys, c1)" "walk redact_message (rq_messages req) c1 = (ms, c2)"
  shows "rr_request (redact_messages_request req) = req\<lparr>rq_system := sys, rq_messages := ms\<rparr>"
    "rr_counts (redact_messages_request req) = c2"
proof -
  have "walk_ok (\<lambda>xs. concat (map (content_texts \<circ> am_content) xs)) (map message_blank) (walk redact_message) (rq_messages req)"
    by (rule walk_list [OF walk_message])
  then have ms: "c2 = [] \<longrightarrow> c1 = [] \<and> ms = rq_messages req"
    using assms(2) unfolding walk_ok_def by (metis fst_conv snd_conv)
  have sys: "c1 = [] \<longrightarrow> sys = rq_system req"
    using walk_system assms(1) unfolding walk_ok_def by (metis fst_conv snd_conv)
  show "rr_request (redact_messages_request req) = req\<lparr>rq_system := sys, rq_messages := ms\<rparr>"
    "rr_counts (redact_messages_request req) = c2"
    using ms sys by (auto simp: redact_messages_request_def assms)
qed

lemma redacted_request:
  "\<forall>t \<in> set (request_texts (rr_request (redact_messages_request req))). secret_free t"
  "request_blank (rr_request (redact_messages_request req)) = request_blank req"
  "rr_counts (redact_messages_request req) = [] \<Longrightarrow> rr_request (redact_messages_request req) = req"
  "counting (rr_counts (redact_messages_request req))"
proof -
  obtain sys c1 where sys: "redact_system (rq_system req) [] = (sys, c1)" by fastforce
  obtain ms c2 where ms: "walk redact_message (rq_messages req) c1 = (ms, c2)" by fastforce
  note eq = redact_request_walk [OF sys ms]
  have "walk_ok (\<lambda>xs. concat (map (content_texts \<circ> am_content) xs)) (map message_blank) (walk redact_message) (rq_messages req)"
    by (rule walk_list [OF walk_message])
  then have 1: "(\<forall>t \<in> set (concat (map (content_texts \<circ> am_content) ms)). secret_free t)"
    "map message_blank ms = map message_blank (rq_messages req)"
    "counting c1 \<longrightarrow> counting c2"
    using ms unfolding walk_ok_def by (metis fst_conv snd_conv)+
  have 2: "(\<forall>t \<in> set (system_texts sys). secret_free t)" "system_blank sys = system_blank (rq_system req)"
    "counting [] \<longrightarrow> counting c1"
    using walk_system sys unfolding walk_ok_def by (metis fst_conv snd_conv)+
  show "counting (rr_counts (redact_messages_request req))" using 1(3) 2(3) by (simp add: eq)
  show "\<forall>t \<in> set (request_texts (rr_request (redact_messages_request req))). secret_free t"
    using 1 2 by (auto simp: eq request_texts_def)
  show "request_blank (rr_request (redact_messages_request req)) = request_blank req"
    using 1 2 by (simp add: eq request_blank_def)
  show "rr_counts (redact_messages_request req) = [] \<Longrightarrow> rr_request (redact_messages_request req) = req"
    by (auto simp: redact_messages_request_def split: prod.splits if_splits)
qed

end
