(* ===== verification/Execution.thy ===== *)
theory Execution
  imports Routing Redaction_Properties
begin

text \<open>
  \<open>application/execution.py\<close>: one routed request is redacted or refused, then offered to the primary
  provider and, while nothing has reached the client, to the fallbacks in order. A provider is what it
  answers: \<open>pv_preflight\<close> the error its preflight raises, \<open>pv_stream\<close> the stream it opens, as a script of
  what \<open>anext\<close> returns after how long and how long the client then keeps the chunk. Time is a whole
  number of microseconds. A client that goes away early cuts the run short and is not modelled.
\<close>

section \<open>Providers and failures\<close>

datatype execution_kind = Kind_Invalid_Request | Kind_Context_Window | Kind_Authentication | Kind_Permission
  | Kind_Rate_Limit | Kind_Overloaded | Kind_Timeout | Kind_Upstream | Kind_Unavailable

record execution_failure =
  xf_kind :: execution_kind
  xf_status :: nat
  xf_retryable :: bool

datatype upstream_item = Up_Chunk string | Up_Failure execution_failure | Up_Error

record upstream =
  us_events :: "(nat \<times> upstream_item \<times> nat) list"
  us_close :: nat

record provider =
  pv_preflight :: "client_request \<Rightarrow> reasoning_policy \<Rightarrow> string option"
  pv_stream :: "client_request \<Rightarrow> reasoning_policy \<Rightarrow> upstream"

datatype execution_error = Secrets_Blocked counter | Unresolved_Provider string | Preflight_Error string
  | Execution_Failed execution_failure | Other_Error

record executor =
  ex_resolver :: "string \<Rightarrow> string + provider"
  ex_timeout :: nat
  ex_mode :: redaction_mode

definition progress_timeout_failure :: execution_failure where
  "progress_timeout_failure = \<lparr>xf_kind = Kind_Timeout, xf_status = 504, xf_retryable = False\<rparr>"

section \<open>Redaction before anything is sent\<close>

definition apply_outbound_redaction :: "redaction_mode \<Rightarrow> routed_request \<Rightarrow> execution_error + routed_request" where
  "apply_outbound_redaction mode routed =
     (if mode = Redaction_Off then Inr routed
      else
        (let r = redact_messages_request (rd_request routed) in
         if counter_total (rr_counts r) = 0 then Inr routed
         else if mode = Redaction_Block then Inl (Secrets_Blocked (rr_counts r))
         else Inr (routed\<lparr>rd_request := rr_request r\<rparr>)))"

section \<open>One candidate\<close>

datatype drain_end = Drain_Done | Drain_Failed execution_failure | Drain_Crashed

text \<open>A chunk handed over: when the client was ready for it, when it came, and the chunk.\<close>

type_synonym handover = "nat \<times> nat \<times> string"

record drained =
  dr_sent :: "handover list"
  dr_end :: drain_end
  dr_now :: nat
  dr_ready :: nat
  dr_deadline :: nat

text \<open>
  The loop over \<open>anext\<close>. \<open>deadline\<close> is the code's \<open>progress_deadline\<close>: it is set when the client comes back
  for more, an empty chunk leaves it. What arrives at the deadline or later is a timeout. \<open>ready\<close> is not a
  variable of the code: it records when the client was last ready for a chunk.
\<close>

fun drain_stream :: "nat \<Rightarrow> nat \<Rightarrow> nat \<Rightarrow> nat \<Rightarrow> (nat \<times> upstream_item \<times> nat) list \<Rightarrow> drained" where
  "drain_stream timeout now ready deadline [] =
     \<lparr>dr_sent = [], dr_end = (if now \<ge> deadline then Drain_Failed progress_timeout_failure else Drain_Done),
       dr_now = now, dr_ready = ready, dr_deadline = deadline\<rparr>"
| "drain_stream timeout now ready deadline ((delay, item, held) # events) =
     (let stop = (\<lambda>e time. \<lparr>dr_sent = [], dr_end = e, dr_now = time, dr_ready = ready, dr_deadline = deadline\<rparr>) in
      if now \<ge> deadline then stop (Drain_Failed progress_timeout_failure) now
      else if now + delay \<ge> deadline then stop (Drain_Failed progress_timeout_failure) deadline
      else
        (case item of
           Up_Chunk chunk \<Rightarrow>
             if chunk = [] then drain_stream timeout (now + delay) ready deadline events
             else
               (let back_at = now + delay + held; d = drain_stream timeout back_at back_at (back_at + timeout) events
                in d\<lparr>dr_sent := (ready, now + delay, chunk) # dr_sent d\<rparr>)
         | Up_Failure f \<Rightarrow> stop (Drain_Failed f) (now + delay)
         | Up_Error \<Rightarrow> stop Drain_Crashed (now + delay)))"

section \<open>The candidates\<close>

datatype provider_call = Preflight_Call | Stream_Call

datatype execution_end = Finished | Raised execution_error

text \<open>
  A run: the chunks with the index of the candidate that sent them, every call to a provider with what
  it was given, how each stream ended, how the run ended and when, and when the client was last ready.
\<close>

record execution_run =
  xr_sent :: "(nat \<times> handover) list"
  xr_calls :: "(provider_call \<times> provider_target \<times> client_request) list"
  xr_streams :: "drain_end list"
  xr_end :: execution_end
  xr_now :: nat
  xr_ready :: nat

definition raised :: "execution_error \<Rightarrow> (provider_call \<times> provider_target \<times> client_request) list \<Rightarrow>
    nat \<Rightarrow> nat \<Rightarrow> execution_run" where
  "raised e calls now ready =
     \<lparr>xr_sent = [], xr_calls = calls, xr_streams = [], xr_end = Raised e, xr_now = now, xr_ready = ready\<rparr>"

definition candidate_request :: "routed_request \<Rightarrow> nat \<Rightarrow> provider_target \<Rightarrow> client_request" where
  "candidate_request routed index target =
     (if index = 0 then rd_request routed else (rd_request routed)\<lparr>rq_model := pt_model target\<rparr>)"

text \<open>
  \<open>first\<close> is the primary's provider, resolved and preflighted before the stream opens; a fallback is
  resolved and preflighted when its turn comes, outside the \<open>try\<close>.
\<close>

fun run_candidates ::
  "executor \<Rightarrow> provider \<Rightarrow> routed_request \<Rightarrow> nat \<Rightarrow> nat \<Rightarrow> nat \<Rightarrow> nat \<Rightarrow> provider_target list \<Rightarrow> execution_run" where
  "run_candidates ex first routed index now ready deadline [] =
     \<lparr>xr_sent = [], xr_calls = [], xr_streams = [], xr_end = Finished, xr_now = now, xr_ready = ready\<rparr>"
| "run_candidates ex first routed index now ready deadline (target # later) =
     (case if index = 0 then Inr first else ex_resolver ex (pt_provider target) of
        Inl e \<Rightarrow> raised (Unresolved_Provider e) [] now ready
      | Inr pv \<Rightarrow>
          (let req = candidate_request routed index target;
               preflight = if index = 0 then [] else [(Preflight_Call, target, req)]
           in case if index = 0 then None else pv_preflight pv req (rd_reasoning routed) of
                Some e \<Rightarrow> raised (Preflight_Error e) preflight now ready
              | None \<Rightarrow>
                  (let up = pv_stream pv req (rd_reasoning routed);
                       d = drain_stream (ex_timeout ex) now ready deadline (us_events up);
                       sent = map (Pair index) (dr_sent d);
                       calls = preflight @ [(Stream_Call, target, req)];
                       now' = dr_now d + us_close up;
                       finish = (\<lambda>e. \<lparr>xr_sent = sent, xr_calls = calls, xr_streams = [dr_end d], xr_end = e,
                         xr_now = now', xr_ready = dr_ready d\<rparr>)
                   in case dr_end d of
                        Drain_Done \<Rightarrow> finish Finished
                      | Drain_Crashed \<Rightarrow> finish (Raised Other_Error)
                      | Drain_Failed f \<Rightarrow>
                          if dr_sent d \<noteq> [] \<or> \<not> xf_retryable f \<or> later = []
                          then finish (Raised (Execution_Failed f))
                          else
                            (let r = run_candidates ex first routed (Suc index) now' (dr_ready d) (dr_deadline d) later
                             in r\<lparr>xr_sent := sent @ xr_sent r, xr_calls := calls @ xr_calls r,
                                  xr_streams := dr_end d # xr_streams r\<rparr>))))"

definition execute_stream :: "executor \<Rightarrow> routed_request \<Rightarrow> nat \<Rightarrow> execution_run" where
  "execute_stream ex routed now =
     (case apply_outbound_redaction (ex_mode ex) routed of
        Inl e \<Rightarrow> raised e [] now now
      | Inr routed \<Rightarrow>
          (let primary = rt_primary (rd_resolved routed) in
           case ex_resolver ex (pt_provider primary) of
             Inl e \<Rightarrow> raised (Unresolved_Provider e) [] now now
           | Inr first \<Rightarrow>
               (case pv_preflight first (rd_request routed) (rd_reasoning routed) of
                  Some e \<Rightarrow> raised (Preflight_Error e) [(Preflight_Call, primary, rd_request routed)] now now
                | None \<Rightarrow>
                    (let r = run_candidates ex first routed 0 now now (now + ex_timeout ex)
                       (primary # rt_fallbacks (rd_resolved routed))
                     in r\<lparr>xr_calls := (Preflight_Call, primary, rd_request routed) # xr_calls r\<rparr>))))"

end
