(* ===== verification/Routing_Lemmas.thy ===== *)
theory Routing_Lemmas
  imports Routing
begin

text \<open>
  Settings that passed validation only hold references to providers of the catalog, so routing never
  raises; the ids the gateway advertises lead back to the provider and model they were made from; the
  reasoning policy of a request always passes its own checks.
\<close>

section \<open>References\<close>

lemma supported_ids: "\<forall>p \<in> set SUPPORTED_PROVIDER_IDS. CHR ''/'' \<notin> set p \<and> p \<noteq> []"
  by code_simp

lemma partition_slash_append:
  "CHR ''/'' \<notin> set p \<Longrightarrow> partition_slash (p @ ''/'' @ m) = (p, True, m)"
proof -
  assume "CHR ''/'' \<notin> set p"
  then have "\<forall>c \<in> set p. c \<noteq> CHR ''/''" by auto
  then show ?thesis unfolding partition_slash_def by (simp add: takeWhile_append2 dropWhile_append2)
qed

lemma partition_slash_Some:
  assumes "partition_slash s = (p, True, m)"
  shows "s = p @ ''/'' @ m" "CHR ''/'' \<notin> set p"
proof -
  let ?rest = "dropWhile (\<lambda>c. c \<noteq> CHR ''/'') s"
  have p: "p = takeWhile (\<lambda>c. c \<noteq> CHR ''/'') s" and m: "m = tl ?rest" and ne: "?rest \<noteq> []"
    using assms by (auto simp: partition_slash_def Let_def)
  have "hd ?rest = CHR ''/''" using hd_dropWhile [OF ne] by simp
  then have "?rest = CHR ''/'' # m" using ne m by (metis list.collapse)
  then show "s = p @ ''/'' @ m" using takeWhile_dropWhile_id [of "\<lambda>c. c \<noteq> CHR ''/''" s] p by simp
  show "CHR ''/'' \<notin> set p" using p set_takeWhileD by fastforce
qed

definition ref_ok :: "string \<Rightarrow> bool" where
  "ref_ok s \<longleftrightarrow> (\<exists>p m. s = p @ ''/'' @ m \<and> p \<in> set SUPPORTED_PROVIDER_IDS \<and> m \<noteq> [])"

lemma validate_model_ref_Inr: "validate_model_ref s = Inr t \<longleftrightarrow> t = s \<and> ref_ok s"
proof
  assume v: "validate_model_ref s = Inr t"
  obtain p sep m where part: "partition_slash s = (p, sep, m)" by (cases "partition_slash s")
  from v have "sep" "p \<in> set SUPPORTED_PROVIDER_IDS" "m \<noteq> []" "t = s"
    by (auto simp: validate_model_ref_def part split: if_splits)
  moreover from this part have "partition_slash s = (p, True, m)" by simp
  ultimately show "t = s \<and> ref_ok s" using partition_slash_Some(1) unfolding ref_ok_def by blast
next
  assume "t = s \<and> ref_ok s"
  then obtain p m where "t = s" "s = p @ ''/'' @ m" "p \<in> set SUPPORTED_PROVIDER_IDS" "m \<noteq> []"
    unfolding ref_ok_def by blast
  moreover from this supported_ids have "partition_slash s = (p, True, m)" "p \<noteq> []"
    using partition_slash_append by blast+
  ultimately show "validate_model_ref s = Inr t" by (simp add: validate_model_ref_def)
qed

definition good_target :: "provider_target \<Rightarrow> bool" where
  "good_target t \<longleftrightarrow> pt_provider t \<in> set SUPPORTED_PROVIDER_IDS \<and> pt_model t \<noteq> [] \<and>
     pt_ref t = pt_provider t @ ''/'' @ pt_model t"

lemma target_from_ref_ok:
  assumes "ref_ok s"
  shows "\<exists>t. target_from_ref s = Inr t \<and> good_target t \<and> pt_ref t = s"
proof -
  from assms obtain p m where s: "s = p @ ''/'' @ m" "p \<in> set SUPPORTED_PROVIDER_IDS" "m \<noteq> []"
    unfolding ref_ok_def by blast
  with supported_ids have "partition_slash s = (p, True, m)" "p \<noteq> []" using partition_slash_append by blast+
  with s have "target_from_ref s = Inr \<lparr>pt_provider = p, pt_model = m, pt_ref = p @ ''/'' @ m\<rparr>"
    by (simp add: target_from_ref_def parse_provider_type_def parse_model_name_def split_provider_model_ref_def make_target_def)
  with s show ?thesis by (simp add: good_target_def)
qed

lemma good_target_ref: "good_target t \<Longrightarrow> good_target u \<Longrightarrow> pt_ref t = pt_ref u \<Longrightarrow> t = u"
proof -
  assume good: "good_target t" "good_target u" "pt_ref t = pt_ref u"
  then have slash: "CHR ''/'' \<notin> set (pt_provider t)" "CHR ''/'' \<notin> set (pt_provider u)"
    using supported_ids by (auto simp: good_target_def)
  have "partition_slash (pt_ref t) = (pt_provider t, True, pt_model t)"
    "partition_slash (pt_ref u) = (pt_provider u, True, pt_model u)"
    using good(1,2) partition_slash_append [OF slash(1), of "pt_model t"] partition_slash_append [OF slash(2), of "pt_model u"]
    unfolding good_target_def by metis+
  with good(3) show "t = u" by (intro provider_target.equality) auto
qed

section \<open>Validated settings\<close>

definition configured_refs :: "routing_settings \<Rightarrow> string list" where
  "configured_refs s = (case rs_fallbacks s of None \<Rightarrow> [] | Some refs \<Rightarrow> refs)"

definition settings_ok :: "routing_settings \<Rightarrow> bool" where
  "settings_ok s \<longleftrightarrow> ref_ok (rs_model s) \<and> (\<forall>r m. route_model s r = Some m \<longrightarrow> ref_ok m) \<and>
     (\<forall>m \<in> set (configured_refs s). ref_ok m) \<and> distinct (configured_refs s) \<and> rs_reasoning s \<noteq> Pref_Inherit"

lemma validate_format_Inr:
  "validate_model_format v = Inr w \<longleftrightarrow> w = v \<and> (\<forall>m. v = Some m \<longrightarrow> ref_ok m)"
  by (cases v) (auto simp: bind_result_Inr_iff validate_model_ref_Inr)

lemma map_validate_Inr:
  "map_result validate_model_ref refs = Inr ws \<longleftrightarrow> ws = refs \<and> (\<forall>m \<in> set refs. ref_ok m)"
  by (induction refs arbitrary: ws) (auto simp: bind_result_Inr_iff validate_model_ref_Inr)

lemma validate_fallbacks_Inr:
  "validate_model_fallbacks v = Inr w \<longleftrightarrow> w = v \<and> (\<forall>refs. v = Some refs \<longrightarrow> distinct refs \<and> (\<forall>m \<in> set refs. ref_ok m))"
  by (cases v) (auto simp: bind_result_Inr_iff map_validate_Inr)

lemma validate_root_Inr: "validate_root_reasoning_policy p = Inr q \<longleftrightarrow> q = p \<and> p \<noteq> Pref_Inherit"
  by (auto simp: validate_root_reasoning_policy_def)

lemma validated_settings:
  assumes "validate_settings s = Inr t"
  shows "t = s \<and> settings_ok s"
proof -
  have ok: "ref_ok (rs_model s)" "\<forall>m. rs_fable s = Some m \<longrightarrow> ref_ok m" "\<forall>m. rs_opus s = Some m \<longrightarrow> ref_ok m"
    "\<forall>m. rs_sonnet s = Some m \<longrightarrow> ref_ok m" "\<forall>m. rs_haiku s = Some m \<longrightarrow> ref_ok m"
    "\<forall>refs. rs_fallbacks s = Some refs \<longrightarrow> distinct refs \<and> (\<forall>m \<in> set refs. ref_ok m)"
    "rs_reasoning s \<noteq> Pref_Inherit" and t: "t = s"
    using assms unfolding validate_settings_def bind_result_Inr_iff validate_model_ref_Inr validate_format_Inr
      validate_fallbacks_Inr validate_root_Inr by auto
  have "route_model s r = Some m \<Longrightarrow> ref_ok m" for r m using ok(2-5) by (cases r) auto
  with ok t show ?thesis by (auto simp: settings_ok_def configured_refs_def split: option.splits)
qed

lemma map_target_from_ref:
  assumes "\<forall>m \<in> set refs. ref_ok m"
  shows "\<exists>ts. map_result target_from_ref refs = Inr ts \<and> map pt_ref ts = refs \<and> (\<forall>t \<in> set ts. good_target t)"
  using assms
proof (induction refs)
  case (Cons m refs)
  then obtain ts where "map_result target_from_ref refs = Inr ts" "map pt_ref ts = refs" "\<forall>t \<in> set ts. good_target t"
    by auto
  moreover obtain t where "target_from_ref m = Inr t" "good_target t" "pt_ref t = m"
    using target_from_ref_ok Cons.prems by (metis list.set_intros(1))
  ultimately show ?case by simp
qed simp

lemma fallback_targets_ok:
  assumes "settings_ok s" "good_target primary"
  shows "\<exists>ts. fallback_targets s primary = Inr ts \<and> (\<forall>t \<in> set ts. good_target t) \<and>
    map pt_ref ts = filter (\<lambda>m. m \<noteq> pt_ref primary) (configured_refs s) \<and> primary \<notin> set ts \<and> distinct ts"
proof -
  from assms(1) have refs: "\<forall>m \<in> set (configured_refs s). ref_ok m" "distinct (configured_refs s)"
    by (simp_all add: settings_ok_def)
  from map_target_from_ref [OF refs(1)] obtain ts where
    ts: "map_result target_from_ref (configured_refs s) = Inr ts" "map pt_ref ts = configured_refs s"
      "\<forall>t \<in> set ts. good_target t" by blast
  have "map pt_ref (filter (\<lambda>t. t \<noteq> primary) us) = filter (\<lambda>m. m \<noteq> pt_ref primary) (map pt_ref us)"
    if "\<forall>t \<in> set us. good_target t" for us
    using that good_target_ref [OF _ assms(2)] by (induction us) auto
  moreover have "distinct ts" using ts(2) refs(2) by (metis distinct_map)
  ultimately show ?thesis using ts
    by (auto simp: fallback_targets_def configured_refs_def [symmetric])
qed

section \<open>Reasoning policies\<close>

definition policy_ok :: "reasoning_policy \<Rightarrow> bool" where
  "policy_ok p \<longleftrightarrow> (\<forall>b. rp_budget p = Some b \<longrightarrow> 0 < b \<and> rp_control p = Control_On)"

lemma make_policy_ok:
  assumes "\<And>b. budget = Some b \<Longrightarrow> 0 < b \<and> control = Control_On"
  shows "\<exists>p. make_policy control effort budget = Inr p \<and> policy_ok p \<and> rp_control p = control \<and>
    rp_effort p = effort \<and> rp_budget p = budget"
  using assms by (cases budget) (auto simp: make_policy_def policy_ok_def)

lemma positive_budget_pos: "positive_budget th = Some b \<Longrightarrow> 0 < b"
  by (auto simp: positive_budget_def split: option.splits if_splits)

lemma client_policy_ok: "\<exists>p. client_reasoning_policy req = Inr p \<and> policy_ok p"
proof -
  let ?b = "positive_budget (rq_thinking req)" and ?c = "thinking_control (rq_thinking req) (positive_budget (rq_thinking req))"
  obtain e d where e: "output_effort (rq_output_config req) = (e, d)" by fastforce
  have "\<exists>p. make_policy Control_Off e' None = Inr p \<and> policy_ok p" for e' using make_policy_ok [of None] by blast
  moreover have "\<exists>p. make_policy Control_On e ?b = Inr p \<and> policy_ok p"
    using make_policy_ok [of ?b Control_On e] positive_budget_pos by blast
  moreover have "\<exists>p. make_policy Control_Default e None = Inr p \<and> policy_ok p" using make_policy_ok [of None] by blast
  ultimately show ?thesis
    unfolding client_reasoning_policy_def Let_def e prod.case policy_off_def policy_on_def by (auto split: if_splits)
qed

lemma resolve_policy_ok:
  assumes "pref \<noteq> Pref_Inherit"
  shows "\<exists>p. resolve_reasoning_policy req pref = Inr p \<and> policy_ok p \<and> (pref = Pref_Off \<longrightarrow> rp_control p = Control_Off)"
proof -
  have "\<exists>p. make_policy Control_Off None None = Inr p \<and> policy_ok p \<and> rp_control p = Control_Off"
    "\<exists>p. make_policy Control_On e None = Inr p \<and> policy_ok p" for e
    using make_policy_ok [of None] by blast+
  with assms client_policy_ok [of req] show ?thesis
    by (simp add: resolve_reasoning_policy_def policy_off_def policy_on_def)
qed

text \<open>More effort is never a smaller budget.\<close>

lemma effort_budget_mono: "a \<le> b \<Longrightarrow> effort_budget_tokens a \<le> effort_budget_tokens b"
  by (cases a; cases b) (simp_all add: less_eq_reasoning_effort_def)

section \<open>Routes\<close>

lemma direct_supported:
  "direct_provider_model name = Some (p, m, off) \<Longrightarrow> p \<in> set SUPPORTED_PROVIDER_IDS \<and> m \<noteq> []"
  by (auto simp: direct_provider_model_def decode_gateway_model_id_def split: option.splits prod.splits if_splits)

lemma resolve_preference:
  "settings_ok s \<Longrightarrow> resolve_reasoning_preference s name \<noteq> Pref_Inherit"
  by (auto simp: resolve_reasoning_preference_def settings_ok_def split: option.splits)

definition route_ok :: "routing_settings \<Rightarrow> resolved_route \<Rightarrow> bool" where
  "route_ok s r \<longleftrightarrow> good_target (rt_primary r) \<and> (\<forall>t \<in> set (rt_fallbacks r). good_target t) \<and>
     rt_primary r \<notin> set (rt_fallbacks r) \<and> distinct (rt_fallbacks r) \<and>
     map pt_ref (rt_fallbacks r) = filter (\<lambda>m. m \<noteq> pt_ref (rt_primary r)) (configured_refs s) \<and>
     rt_preference r \<noteq> Pref_Inherit"

lemma route_with_fallbacks:
  assumes "settings_ok s" "good_target primary" "pref \<noteq> Pref_Inherit"
  shows "\<exists>r. bind_result (fallback_targets s primary) (\<lambda>fallbacks.
      Inr \<lparr>rt_original = name, rt_primary = primary, rt_fallbacks = fallbacks, rt_preference = pref\<rparr>) = Inr r \<and>
    route_ok s r \<and> rt_primary r = primary \<and> rt_preference r = pref \<and> rt_original r = name"
proof -
  from fallback_targets_ok [OF assms(1,2)] obtain ts where
    "fallback_targets s primary = Inr ts" "\<forall>t \<in> set ts. good_target t"
    "map pt_ref ts = filter (\<lambda>m. m \<noteq> pt_ref primary) (configured_refs s)" "primary \<notin> set ts" "distinct ts" by blast
  with assms show ?thesis by (simp add: route_ok_def)
qed

lemma resolve_route_ok:
  assumes ok: "settings_ok s"
  shows "\<exists>r. resolve_route s name = Inr r \<and> route_ok s r \<and> rt_original r = name"
proof (cases "direct_provider_model name")
  case None
  have "ref_ok (resolve_model_ref s name)"
    using ok by (auto simp: resolve_model_ref_def settings_ok_def split: option.splits)
  from target_from_ref_ok [OF this] obtain t where t: "target_from_ref (resolve_model_ref s name) = Inr t" "good_target t"
    by blast
  from route_with_fallbacks [OF ok t(2) resolve_preference [OF ok], of name name] show ?thesis
    unfolding resolve_route_def None option.case t(1) bind_result.simps by blast
next
  case (Some x)
  obtain p m off where x: "x = (p, m, off)" by (cases x)
  from direct_supported Some x have pm: "p \<in> set SUPPORTED_PROVIDER_IDS" "m \<noteq> []" by blast+
  then obtain t where t: "make_target p m = Inr t" "good_target t" by (auto simp: make_target_def good_target_def)
  have "(if off then Pref_Off else rs_reasoning s) \<noteq> Pref_Inherit" using ok by (simp add: settings_ok_def)
  from route_with_fallbacks [OF ok t(2) this, of name] show ?thesis
    unfolding resolve_route_def Some x option.case prod.case t(1) bind_result.simps by blast
qed

lemma resolve_request_ok:
  assumes ok: "settings_ok s"
  shows "\<exists>r. resolve_messages_request s req = Inr r \<and> route_ok s (rd_resolved r) \<and>
    rt_original (rd_resolved r) = rq_model req \<and>
    rd_request r = req\<lparr>rq_model := pt_model (rt_primary (rd_resolved r))\<rparr> \<and> policy_ok (rd_reasoning r)"
proof -
  from resolve_route_ok [OF ok] obtain r where r: "resolve_route s (rq_model req) = Inr r" "route_ok s r"
    "rt_original r = rq_model req" by blast
  from resolve_policy_ok [of "rt_preference r" "req\<lparr>rq_model := pt_model (rt_primary r)\<rparr>"] r(2) obtain p where
    "resolve_reasoning_policy (req\<lparr>rq_model := pt_model (rt_primary r)\<rparr>) (rt_preference r) = Inr p" "policy_ok p"
    by (auto simp: route_ok_def)
  with r show ?thesis by (simp add: resolve_messages_request_def Let_def)
qed

text \<open>An advertised id is decoded to what it was made from.\<close>

lemma gateway_prefixes: "CHR ''/'' \<notin> set GATEWAY_MODEL_ID_PREFIX"
  "CHR ''/'' \<notin> set NO_THINKING_GATEWAY_MODEL_ID_PREFIX"
  "GATEWAY_MODEL_ID_PREFIX \<noteq> NO_THINKING_GATEWAY_MODEL_ID_PREFIX"
  by (simp_all add: GATEWAY_MODEL_ID_PREFIX_def NO_THINKING_GATEWAY_MODEL_ID_PREFIX_def)

lemma decode_gateway:
  assumes "CHR ''/'' \<notin> set p" "m \<noteq> []"
  shows "decode_gateway_model_id (gateway_model_id (p @ ''/'' @ m)) =
      Some \<lparr>dg_provider = p, dg_model = m, dg_reasoning_off = False\<rparr>"
    "decode_gateway_model_id (no_thinking_gateway_model_id (p @ ''/'' @ m)) =
      Some \<lparr>dg_provider = p, dg_model = m, dg_reasoning_off = True\<rparr>"
  using assms gateway_prefixes(3) partition_slash_append [OF assms(1), of m]
    partition_slash_append [OF gateway_prefixes(1), of "p @ ''/'' @ m"]
    partition_slash_append [OF gateway_prefixes(2), of "p @ ''/'' @ m"]
  by (simp_all add: decode_gateway_model_id_def gateway_model_id_def no_thinking_gateway_model_id_def)

end
