(* ===== verification/Execution_Lemmas.thy ===== *)
theory Execution_Lemmas
  imports Execution Routing_Lemmas
begin

text \<open>
  One candidate hands over only non-empty chunks, each before the deadline that ran when the client
  became ready; the candidates are tried in order, the next one only after a retryable failure that
  reached the client with nothing; every request handed to a provider is the redacted one.
\<close>

section \<open>One stream\<close>

definition timely :: "nat \<Rightarrow> handover \<Rightarrow> bool" where
  "timely timeout h \<longleftrightarrow> (case h of (ready, time, chunk) \<Rightarrow> ready \<le> time \<and> time < ready + timeout \<and> chunk \<noteq> [])"

text \<open>
  The deadline that runs is the one of the moment the client was last ready. \<open>late\<close> is the time by which
  closing an earlier stream has already overrun it.
\<close>

lemma drain_timely:
  "ready \<le> now \<Longrightarrow> deadline = ready + timeout \<Longrightarrow>
    \<forall>h \<in> set (dr_sent (drain_stream timeout now ready deadline events)). timely timeout h"
  by (induction timeout now ready deadline events rule: drain_stream.induct)
    (auto simp: timely_def Let_def split: upstream_item.splits)

lemma drain_bounds:
  "ready \<le> now \<Longrightarrow> now \<le> ready + timeout + late \<Longrightarrow> deadline = ready + timeout \<Longrightarrow>
    dr_ready (drain_stream timeout now ready deadline events) \<le> dr_now (drain_stream timeout now ready deadline events) \<and>
    dr_now (drain_stream timeout now ready deadline events) \<le> dr_ready (drain_stream timeout now ready deadline events) + timeout + late \<and>
    dr_deadline (drain_stream timeout now ready deadline events) =
      dr_ready (drain_stream timeout now ready deadline events) + timeout"
  by (induction timeout now ready deadline events rule: drain_stream.induct)
    (auto simp: Let_def split: upstream_item.splits)

lemma timeout_not_retryable [simp]: "\<not> xf_retryable progress_timeout_failure"
  by (simp add: progress_timeout_failure_def)

section \<open>The candidates\<close>

definition streamed :: "execution_run \<Rightarrow> provider_target list" where
  "streamed r = map (\<lambda>c. fst (snd c)) (filter (\<lambda>c. fst c = Stream_Call) (xr_calls r))"

text \<open>What the end of a stream means for the run if nobody takes over.\<close>

fun stream_end :: "drain_end \<Rightarrow> execution_end" where
  "stream_end Drain_Done = Finished"
| "stream_end Drain_Crashed = Raised Other_Error"
| "stream_end (Drain_Failed f) = Raised (Execution_Failed f)"

fun ends_retryable :: "drain_end \<Rightarrow> bool" where
  "ends_retryable (Drain_Failed f) = xf_retryable f"
| "ends_retryable _ = False"

definition stopped_run ::
  "nat \<Rightarrow> drained \<Rightarrow> nat \<Rightarrow> (provider_call \<times> provider_target \<times> client_request) list \<Rightarrow> execution_run" where
  "stopped_run index d close calls =
     \<lparr>xr_sent = map (Pair index) (dr_sent d), xr_calls = calls, xr_streams = [dr_end d], xr_end = stream_end (dr_end d),
      xr_now = dr_now d + close, xr_ready = dr_ready d\<rparr>"

definition taken_over ::
  "nat \<Rightarrow> drained \<Rightarrow> (provider_call \<times> provider_target \<times> client_request) list \<Rightarrow> execution_run \<Rightarrow> execution_run" where
  "taken_over index d calls r =
     r\<lparr>xr_sent := map (Pair index) (dr_sent d) @ xr_sent r, xr_calls := calls @ xr_calls r,
       xr_streams := dr_end d # xr_streams r\<rparr>"

text \<open>The provider a candidate is streamed by, and what it is asked.\<close>

definition candidate_stream ::
  "executor \<Rightarrow> provider \<Rightarrow> routed_request \<Rightarrow> nat \<Rightarrow> provider_target \<Rightarrow> upstream \<Rightarrow> bool" where
  "candidate_stream ex first routed index target up \<longleftrightarrow>
     (\<exists>pv. up = pv_stream pv (candidate_request routed index target) (rd_reasoning routed) \<and>
       (pv = first \<or> (\<exists>i. ex_resolver ex i = Inr pv)))"

definition stream_calls ::
  "routed_request \<Rightarrow> nat \<Rightarrow> provider_target \<Rightarrow> (provider_call \<times> provider_target \<times> client_request) list" where
  "stream_calls routed index target =
     (let req = candidate_request routed index target
      in (if index = 0 then [] else [(Preflight_Call, target, req)]) @ [(Stream_Call, target, req)])"

text \<open>
  One step of a run, with what \<open>drain_stream\<close> returned for the candidate: the shape every induction over
  the candidates goes through.
\<close>

lemma run_cases [consumes 0, case_names none failed_early stopped failed_over]:
  assumes "targets = [] \<Longrightarrow> P index now ready deadline targets
      \<lparr>xr_sent = [], xr_calls = [], xr_streams = [], xr_end = Finished, xr_now = now, xr_ready = ready\<rparr>"
    and "\<And>target later e calls. targets = target # later \<Longrightarrow>
      \<forall>c \<in> set calls. c = (Preflight_Call, target, candidate_request routed index target) \<Longrightarrow>
      (\<And>f. e \<noteq> Execution_Failed f) \<Longrightarrow>
      P index now ready deadline targets (raised e calls now ready)"
    and "\<And>target later up d. targets = target # later \<Longrightarrow> candidate_stream ex first routed index target up \<Longrightarrow>
      d = drain_stream (ex_timeout ex) now ready deadline (us_events up) \<Longrightarrow>
      (ends_retryable (dr_end d) \<Longrightarrow> dr_sent d \<noteq> [] \<or> later = []) \<Longrightarrow>
      P index now ready deadline targets (stopped_run index d (us_close up) (stream_calls routed index target))"
    and "\<And>target later up d. targets = target # later \<Longrightarrow> candidate_stream ex first routed index target up \<Longrightarrow>
      d = drain_stream (ex_timeout ex) now ready deadline (us_events up) \<Longrightarrow>
      dr_sent d = [] \<Longrightarrow> ends_retryable (dr_end d) \<Longrightarrow> later \<noteq> [] \<Longrightarrow>
      P index now ready deadline targets (taken_over index d (stream_calls routed index target)
        (run_candidates ex first routed (Suc index) (dr_now d + us_close up) (dr_ready d) (dr_deadline d) later))"
  shows "P index now ready deadline targets (run_candidates ex first routed index now ready deadline targets)"
proof (cases targets)
  case Nil
  with assms(1) show ?thesis by simp
next
  case (Cons target later)
  let ?req = "candidate_request routed index target"
  let ?pre = "if index = 0 then [] else [(Preflight_Call, target, ?req)]"
  have pre_calls: "\<forall>c \<in> set ?pre. c = (Preflight_Call, target, ?req)" by simp
  show ?thesis
  proof (cases "if index = 0 then Inr first else ex_resolver ex (pt_provider target)")
    case (Inl e)
    with assms(2) [OF Cons, of "[]" "Unresolved_Provider e"] Cons show ?thesis by simp
  next
    case pv: (Inr pv)
    then have known: "pv = first \<or> (\<exists>i. ex_resolver ex i = Inr pv)" by (auto split: if_splits)
    show ?thesis
    proof (cases "if index = 0 then None else pv_preflight pv ?req (rd_reasoning routed)")
      case (Some e)
      with assms(2) [OF Cons pre_calls, of "Preflight_Error e"] pv show ?thesis
        unfolding Cons by (simp only: run_candidates.simps sum.case option.case Let_def execution_error.distinct not_False_eq_True simp_thms)
    next
      case pre: None
      let ?up = "pv_stream pv ?req (rd_reasoning routed)"
      let ?d = "drain_stream (ex_timeout ex) now ready deadline (us_events ?up)"
      have up: "candidate_stream ex first routed index target ?up"
        using known unfolding candidate_stream_def by blast
      note unfold = run_candidates.simps pv pre sum.case option.case drain_end.case Let_def stopped_run_def
        taken_over_def stream_calls_def stream_end.simps
      show ?thesis
      proof (cases "dr_end ?d")
        case Drain_Done
        with assms(3) [OF Cons up refl] show ?thesis unfolding Cons by (simp only: unfold ends_retryable.simps)
      next
        case Drain_Crashed
        with assms(3) [OF Cons up refl] show ?thesis unfolding Cons by (simp only: unfold ends_retryable.simps)
      next
        case (Drain_Failed f)
        show ?thesis
        proof (cases "dr_sent ?d \<noteq> [] \<or> \<not> xf_retryable f \<or> later = []")
          case True
          then have "ends_retryable (dr_end ?d) \<Longrightarrow> dr_sent ?d \<noteq> [] \<or> later = []" using Drain_Failed by auto
          from assms(3) [OF Cons up refl this] True Drain_Failed show ?thesis
            unfolding Cons by (simp only: unfold if_True)
        next
          case False
          then have "dr_sent ?d = []" "ends_retryable (dr_end ?d)" "later \<noteq> []" using Drain_Failed by auto
          from assms(4) [OF Cons up refl this] False Drain_Failed show ?thesis
            unfolding Cons by (simp only: unfold if_False)
        qed
      qed
    qed
  qed
qed

text \<open>Induction over the candidates.\<close>

lemma run_induct [consumes 0, case_names none failed_early stopped failed_over]:
  assumes "\<And>index now ready deadline. P index now ready deadline []
      \<lparr>xr_sent = [], xr_calls = [], xr_streams = [], xr_end = Finished, xr_now = now, xr_ready = ready\<rparr>"
    and "\<And>index now ready deadline target later e calls.
      \<forall>c \<in> set calls. c = (Preflight_Call, target, candidate_request routed index target) \<Longrightarrow>
      (\<And>f. e \<noteq> Execution_Failed f) \<Longrightarrow>
      P index now ready deadline (target # later) (raised e calls now ready)"
    and "\<And>index now ready deadline target later up d. candidate_stream ex first routed index target up \<Longrightarrow>
      d = drain_stream (ex_timeout ex) now ready deadline (us_events up) \<Longrightarrow>
      (ends_retryable (dr_end d) \<Longrightarrow> dr_sent d \<noteq> [] \<or> later = []) \<Longrightarrow>
      P index now ready deadline (target # later) (stopped_run index d (us_close up) (stream_calls routed index target))"
    and "\<And>index now ready deadline target later up d r. candidate_stream ex first routed index target up \<Longrightarrow>
      d = drain_stream (ex_timeout ex) now ready deadline (us_events up) \<Longrightarrow>
      dr_sent d = [] \<Longrightarrow> ends_retryable (dr_end d) \<Longrightarrow> later \<noteq> [] \<Longrightarrow>
      P (Suc index) (dr_now d + us_close up) (dr_ready d) (dr_deadline d) later r \<Longrightarrow>
      P index now ready deadline (target # later) (taken_over index d (stream_calls routed index target) r)"
  shows "P index now ready deadline targets (run_candidates ex first routed index now ready deadline targets)"
proof (induction targets arbitrary: index now ready deadline)
  case Nil
  show ?case using assms(1) by simp
next
  case (Cons t ts)
  show ?case
  proof (rule run_cases [where P = P and targets = "t # ts"])
    fix target later up d
    assume tl: "t # ts = target # later" and up: "candidate_stream ex first routed index target up"
      and d: "d = drain_stream (ex_timeout ex) now ready deadline (us_events up)"
      and over: "dr_sent d = []" "ends_retryable (dr_end d)" "later \<noteq> []"
    have "P (Suc index) (dr_now d + us_close up) (dr_ready d) (dr_deadline d) later
        (run_candidates ex first routed (Suc index) (dr_now d + us_close up) (dr_ready d) (dr_deadline d) later)"
      using Cons.IH tl by simp
    from assms(4) [OF up d over this] show "P index now ready deadline (t # ts)
        (taken_over index d (stream_calls routed index target)
          (run_candidates ex first routed (Suc index) (dr_now d + us_close up) (dr_ready d) (dr_deadline d) later))"
      unfolding tl .
  qed (use assms(2,3) in blast)+
qed

section \<open>The order of the candidates\<close>

text \<open>
  A run over \<open>targets\<close>, the first of index \<open>index\<close>: it streamed a prefix of them; all but the last stream ended
  in a retryable failure and had sent nothing; and a run that ends in a failure ends as its last stream did,
  in a retryable one only after sending something or trying all.
\<close>

definition orderly :: "nat \<Rightarrow> provider_target list \<Rightarrow> execution_run \<Rightarrow> bool" where
  "orderly index targets r \<longleftrightarrow>
     prefix (streamed r) targets \<and> length (xr_streams r) = length (streamed r) \<and>
     (\<forall>x \<in> set (xr_sent r). Suc (fst x) = index + length (streamed r)) \<and>
     list_all ends_retryable (butlast (xr_streams r)) \<and>
     (\<forall>f. xr_end r = Raised (Execution_Failed f) \<longrightarrow>
        xr_streams r \<noteq> [] \<and> last (xr_streams r) = Drain_Failed f \<and>
        (xf_retryable f \<longrightarrow> xr_sent r \<noteq> [] \<or> streamed r = targets))"

lemma streamed_calls: "map (\<lambda>c. fst (snd c)) (filter (\<lambda>c. fst c = Stream_Call) (stream_calls routed index target)) = [target]"
  by (simp add: stream_calls_def Let_def)

lemma streamed_raised: "\<forall>c \<in> set calls. fst c = Preflight_Call \<Longrightarrow> streamed (raised e calls now ready) = []"
  by (auto simp: streamed_def raised_def filter_empty_conv)

lemma orderly_raised:
  assumes "\<forall>c \<in> set calls. fst c = Preflight_Call" "\<And>f. e \<noteq> Execution_Failed f"
  shows "orderly index targets (raised e calls now ready)"
  unfolding orderly_def streamed_raised [OF assms(1)] using assms(2) by (simp add: raised_def)

lemma run_orderly: "orderly index targets (run_candidates ex first routed index now ready deadline targets)"
proof (induction rule: run_induct [where P = "\<lambda>index now ready deadline targets r. orderly index targets r"])
  case (none index now ready deadline)
  show ?case by (simp add: orderly_def streamed_def)
next
  case (failed_early index now ready deadline target later e calls)
  then show ?case by (intro orderly_raised) auto
next
  case (stopped index now ready deadline target later up d)
  have "streamed (stopped_run index d (us_close up) (stream_calls routed index target)) = [target]"
    by (simp add: streamed_def stopped_run_def streamed_calls)
  with stopped(3) show ?case unfolding orderly_def by (cases "dr_end d") (auto simp: stopped_run_def)
next
  case (failed_over index now ready deadline target later up d r)
  have s: "streamed (taken_over index d (stream_calls routed index target) r) = target # streamed r"
    by (simp add: streamed_def taken_over_def streamed_calls)
  from failed_over(3,4,6) show ?case unfolding orderly_def s by (auto simp: taken_over_def)
qed

section \<open>Deadlines\<close>

definition close_bound :: "executor \<Rightarrow> provider \<Rightarrow> nat \<Rightarrow> bool" where
  "close_bound ex first k \<longleftrightarrow>
     (\<forall>pv req rp. pv = first \<or> (\<exists>i. ex_resolver ex i = Inr pv) \<longrightarrow> us_close (pv_stream pv req rp) \<le> k)"

lemma close_up: "close_bound ex first k \<Longrightarrow> candidate_stream ex first routed index target up \<Longrightarrow> us_close up \<le> k"
  unfolding close_bound_def candidate_stream_def by blast

lemma run_timely:
  assumes "ready \<le> now" "deadline = ready + ex_timeout ex"
  shows "\<forall>x \<in> set (xr_sent (run_candidates ex first routed index now ready deadline targets)). timely (ex_timeout ex) (snd x)"
proof -
  let ?P = "\<lambda>index now ready deadline (targets :: provider_target list) (r :: execution_run).
    ready \<le> now \<and> deadline = ready + ex_timeout ex \<longrightarrow> (\<forall>x \<in> set (xr_sent r). timely (ex_timeout ex) (snd x))"
  have "?P index now ready deadline targets (run_candidates ex first routed index now ready deadline targets)"
  proof (induction rule: run_induct [where P = ?P])
    case (stopped index now ready deadline target later up d)
    then show ?case using drain_timely [where ready = ready and now = now and deadline = deadline and timeout = "ex_timeout ex" and events = "us_events up"]
      by (auto simp: stopped_run_def)
  next
    case (failed_over index now ready deadline target later up d r)
    then show ?case using drain_bounds [where ready = ready and now = now and deadline = deadline and late = now and timeout = "ex_timeout ex" and events = "us_events up"]
      by (auto simp: taken_over_def)
  qed (auto simp: raised_def)
  with assms show ?thesis by blast
qed

lemma run_deadline:
  assumes close: "close_bound ex first k"
    and start: "ready \<le> now" "now \<le> ready + ex_timeout ex + late" "deadline = ready + ex_timeout ex"
  shows "xr_now (run_candidates ex first routed index now ready deadline targets) \<le>
    xr_ready (run_candidates ex first routed index now ready deadline targets) + ex_timeout ex + late + k * length targets"
proof -
  let ?P = "\<lambda>index now ready deadline targets (r :: execution_run). \<forall>late.
    ready \<le> now \<and> now \<le> ready + ex_timeout ex + late \<and> deadline = ready + ex_timeout ex \<longrightarrow>
    xr_now r \<le> xr_ready r + ex_timeout ex + late + k * length (targets :: provider_target list)"
  have "?P index now ready deadline targets (run_candidates ex first routed index now ready deadline targets)"
  proof (induction rule: run_induct [where P = ?P])
    case (stopped index now ready deadline target later up d)
    with close_up [OF close stopped(1)] show ?case
      using drain_bounds [where ready = ready and now = now and deadline = deadline and timeout = "ex_timeout ex" and events = "us_events up"]
      by (fastforce simp: stopped_run_def)
  next
    case (failed_over index now ready deadline target later up d r)
    show ?case
    proof (intro allI impI)
      fix late assume *: "ready \<le> now \<and> now \<le> ready + ex_timeout ex + late \<and> deadline = ready + ex_timeout ex"
      then have "dr_ready d \<le> dr_now d" "dr_now d \<le> dr_ready d + ex_timeout ex + late" "dr_deadline d = dr_ready d + ex_timeout ex"
        using drain_bounds [where ready = ready and now = now and deadline = deadline and late = late and timeout = "ex_timeout ex" and events = "us_events up"] unfolding failed_over(2) by auto
      with failed_over(6) [rule_format, of "late + us_close up"] close_up [OF close failed_over(1)]
      show "xr_now (taken_over index d (stream_calls routed index target) r) \<le>
          xr_ready (taken_over index d (stream_calls routed index target) r) + ex_timeout ex + late + k * length (target # later)"
        by (simp add: taken_over_def)
    qed
  qed (auto simp: raised_def)
  with start show ?thesis by blast
qed

section \<open>What the providers see\<close>

lemma candidate_request_texts: "request_texts (candidate_request routed index target) = request_texts (rd_request routed)"
  by (simp add: candidate_request_def request_texts_def)

lemma stream_calls_of: "c \<in> set (stream_calls routed index target) \<Longrightarrow> snd c = (target, candidate_request routed index target)"
  by (auto simp: stream_calls_def Let_def split: if_splits)

lemma run_calls:
  "\<forall>c \<in> set (xr_calls (run_candidates ex first routed index now ready deadline targets)).
    \<exists>i t. t \<in> set targets \<and> snd c = (t, candidate_request routed i t)"
proof -
  let ?P = "\<lambda>index now ready deadline targets (r :: execution_run).
    \<forall>c \<in> set (xr_calls r). \<exists>i t. t \<in> set targets \<and> snd c = (t, candidate_request routed i t)"
  show ?thesis
  proof (induction rule: run_induct [where P = ?P])
    case (stopped index now ready deadline target later up d)
    show ?case using stream_calls_of by (simp add: stopped_run_def) blast
  next
    case (failed_over index now ready deadline target later up d r)
    show ?case
    proof
      fix c assume "c \<in> set (xr_calls (taken_over index d (stream_calls routed index target) r))"
      then consider "c \<in> set (stream_calls routed index target)" | "c \<in> set (xr_calls r)"
        by (auto simp: taken_over_def)
      then show "\<exists>i t. t \<in> set (target # later) \<and> snd c = (t, candidate_request routed i t)"
      proof cases
        case 1
        with stream_calls_of show ?thesis by (metis list.set_intros(1))
      next
        case 2
        with failed_over(6) show ?thesis by (meson list.set_intros(2))
      qed
    qed
  qed (force simp: raised_def)+
qed

lemma redaction_Inr:
  assumes "apply_outbound_redaction mode routed = Inr routed'"
  shows "rd_resolved routed' = rd_resolved routed" "rd_reasoning routed' = rd_reasoning routed"
    "request_blank (rd_request routed') = request_blank (rd_request routed)"
    "mode \<noteq> Redaction_Off \<Longrightarrow> \<forall>t \<in> set (request_texts (rd_request routed')). secret_free t"
    "mode \<noteq> Redaction_Redact \<Longrightarrow> routed' = routed"
proof -
  let ?r = "redact_messages_request (rd_request routed)"
  note facts = redacted_request [of "rd_request routed"]
  have zero: "counter_total (rr_counts ?r) = 0 \<Longrightarrow> rr_request ?r = rd_request routed"
    using counting_total [OF facts(4)] facts(3) by blast
  show "rd_resolved routed' = rd_resolved routed" "rd_reasoning routed' = rd_reasoning routed"
    "request_blank (rd_request routed') = request_blank (rd_request routed)"
    "mode \<noteq> Redaction_Redact \<Longrightarrow> routed' = routed"
    using assms facts(2) by (cases mode; auto simp: apply_outbound_redaction_def Let_def split: if_splits)+
  show "\<forall>t \<in> set (request_texts (rd_request routed')). secret_free t" if "mode \<noteq> Redaction_Off"
    using assms that zero facts(1)
    by (auto simp: apply_outbound_redaction_def Let_def split: if_splits)
qed

lemma executed_calls:
  assumes "c \<in> set (xr_calls (execute_stream ex routed now))"
  obtains routed' i where "apply_outbound_redaction (ex_mode ex) routed = Inr routed'"
    "fst (snd c) \<in> set (rt_primary (rd_resolved routed) # rt_fallbacks (rd_resolved routed))"
    "snd (snd c) = candidate_request routed' i (fst (snd c))"
proof (cases "apply_outbound_redaction (ex_mode ex) routed")
  case (Inl e)
  with assms show thesis by (simp add: execute_stream_def raised_def)
next
  case (Inr routed')
  note same = redaction_Inr(1) [OF Inr]
  let ?targets = "rt_primary (rd_resolved routed) # rt_fallbacks (rd_resolved routed)"
  from assms have "c = (Preflight_Call, rt_primary (rd_resolved routed), rd_request routed') \<or>
      (\<exists>first. c \<in> set (xr_calls (run_candidates ex first routed' 0 now now (now + ex_timeout ex) ?targets)))"
    by (auto simp: execute_stream_def Inr same raised_def Let_def split: sum.splits option.splits)
  then show thesis
  proof
    assume "c = (Preflight_Call, rt_primary (rd_resolved routed), rd_request routed')"
    then show thesis using that [OF Inr, of 0] by (simp add: candidate_request_def)
  next
    assume "\<exists>first. c \<in> set (xr_calls (run_candidates ex first routed' 0 now now (now + ex_timeout ex) ?targets))"
    then obtain i t where "t \<in> set ?targets" "snd c = (t, candidate_request routed' i t)"
      using run_calls by blast
    then show thesis using that [OF Inr, of i] by simp
  qed
qed

text \<open>How an execution starts: an error before anything is streamed, or a run over all candidates.\<close>

lemma executed_run:
  obtains (stopped) e calls where "execute_stream ex routed now = raised e calls now now"
      "\<forall>c \<in> set calls. fst c = Preflight_Call" "\<And>f. e \<noteq> Execution_Failed f"
  | (run) first routed' calls where "\<exists>i. ex_resolver ex i = Inr first" "\<forall>c \<in> set calls. fst c = Preflight_Call"
      "execute_stream ex routed now =
        (let r = run_candidates ex first routed' 0 now now (now + ex_timeout ex) (rt_primary (rd_resolved routed) # rt_fallbacks (rd_resolved routed))
         in r\<lparr>xr_calls := calls @ xr_calls r\<rparr>)"
proof (cases "apply_outbound_redaction (ex_mode ex) routed")
  case (Inl e)
  then have "\<And>f. e \<noteq> Execution_Failed f" by (auto simp: apply_outbound_redaction_def Let_def split: if_splits)
  with Inl show thesis using stopped [of e "[]"] by (simp add: execute_stream_def)
next
  case (Inr routed')
  note same = redaction_Inr(1) [OF Inr]
  let ?primary = "rt_primary (rd_resolved routed)"
  show thesis
  proof (cases "ex_resolver ex (pt_provider ?primary)")
    case (Inl e)
    then show thesis using stopped [of "Unresolved_Provider e" "[]"] Inr by (simp add: execute_stream_def same)
  next
    case first: (Inr first)
    let ?calls = "[(Preflight_Call, ?primary, rd_request routed')]"
    show thesis
    proof (cases "pv_preflight first (rd_request routed') (rd_reasoning routed')")
      case (Some e)
      then show thesis using stopped [of "Preflight_Error e" ?calls] Inr first by (simp add: execute_stream_def same)
    next
      case None
      then show thesis using run [of first ?calls routed'] Inr first
        by (auto simp: execute_stream_def same Let_def)
    qed
  qed
qed

declare run_candidates.simps [simp del]

end
