(* ===== verification/Hook_Guard.thy ===== *)
theory Hook_Guard
  imports Redaction
begin

text \<open>
  \<open>security/hook_guard.py\<close>: the \<open>PreToolUse\<close> guard. The rule tables carry the regular expressions of the
  source as terms of \<open>rx\<close>; \<open>evaluate\<close> is the decision for one tool call. The guard asks
  \<open>urllib.parse\<close> for the host of a URL, \<open>ipaddress\<close> whether a text is a loopback address and \<open>json.loads\<close>
  for the payload: these are arguments. \<open>Inl ()\<close> is the \<open>ValueError\<close> that \<open>urlparse\<close> raises on a malformed
  address and the guard does not catch.
\<close>

section \<open>Decisions and rules\<close>

record guard_decision =
  gd_allowed :: bool
  gd_category :: string
  gd_reason :: string

definition ALLOW :: guard_decision where
  "ALLOW = \<lparr>gd_allowed = True, gd_category = [], gd_reason = []\<rparr>"

definition deny :: "string \<Rightarrow> string \<Rightarrow> guard_decision" where
  "deny category reason = \<lparr>gd_allowed = False, gd_category = category, gd_reason = reason\<rparr>"

type_synonym guard_rule = "rx \<times> string \<times> string"

text \<open>The first rule of a table that matches, in order.\<close>

fun first_match :: "guard_rule list \<Rightarrow> string \<Rightarrow> guard_decision option" where
  "first_match [] s = None"
| "first_match ((r, category, reason) # rules) s =
     (if rx_search r s then Some (deny category reason) else first_match rules s)"

section \<open>The rules\<close>

text \<open>What may stand before and after a sensitive token.\<close>

definition PRE :: rx where
  "PRE =
     rx_alt [Rx_Start, Rx_Set True [Space, One (CHR 0x27), One (CHR 0x22), One (CHR ''=''), One (CHR '':''),
     One (CHR ''(''), One (CHR '',''), One (CHR ''/''), One (CHR ''~''), One (CHR ''|''), One (CHR ''>''),
     One (CHR ''&'')]]"

definition POST :: rx where
  "POST =
     rx_alt [Rx_End, Rx_Set True [Space, One (CHR 0x27), One (CHR 0x22), One (CHR ''=''), One (CHR '':''),
     One (CHR '')''), One (CHR '',''), One (CHR ''/''), One (CHR ''|''), One (CHR ''>''), One (CHR ''&'')]]"

definition rx_credential_directory :: rx where
  "rx_credential_directory =
     rx_seq [PRE, rx_char (CHR ''.''), rx_words [''ssh'', ''aws'', ''kube'', ''docker'', ''azure'',
     ''gnupg'', ''gcp''], rx_alt [rx_char (CHR ''/''), POST]]"

definition rx_cloud_cli_store :: rx where
  "rx_cloud_cli_store =
     rx_seq [rx_lit ''.config/'', rx_words [''gcloud'', ''gh''], rx_alt [rx_char (CHR ''/''), POST]]"

definition rx_key_material :: rx where
  "rx_key_material =
     rx_seq [rx_char (CHR ''.''), rx_words [''pem'', ''key'', ''p12'', ''pfx'', ''keystore'', ''jks''],
     Rx_Look True (POST)]"

definition rx_credential_dotfile :: rx where
  "rx_credential_dotfile =
     rx_seq [PRE, rx_char (CHR ''.''), rx_words [''netrc'', ''npmrc'', ''pypirc'', ''git-credentials''],
     Rx_Look True (POST)]"

definition rx_fcc_credentials :: rx where
  "rx_fcc_credentials =
     rx_seq [rx_lit ''.fcc/'', rx_words [''proxy_auth_token'', ''.env''], Rx_Edge]"

definition rx_keychain_store :: rx where
  "rx_keychain_store =
     rx_lit ''/Library/Keychains/''"

definition rx_keychain_file :: rx where
  "rx_keychain_file =
     rx_seq [PRE, at_least 0 [Word, One (CHR ''.''), One (CHR ''-'')], rx_lit ''.keychain'',
     rx_opt (rx_lit ''-db''), Rx_Look True (POST)]"

definition rx_browser_store :: rx where
  "rx_browser_store =
     rx_alt [rx_seq [Rx_Set True [One (CHR ''C''), One (CHR ''c'')], rx_lit ''ookies.'',
     rx_words [''sqlite'', ''binarycookies'']], rx_seq [rx_lit ''/Cookies'', Rx_Edge],
     rx_seq [rx_lit ''Login Data'', Rx_Edge], rx_seq [rx_lit ''Web Data'', Rx_Edge],
     rx_seq [rx_lit ''logins.json'', Rx_Edge], rx_seq [rx_lit ''key4.db'', Rx_Edge]]"

definition rx_password_database :: rx where
  "rx_password_database =
     rx_seq [rx_lit ''/etc/'', rx_words [''shadow'', ''gshadow'', ''master.passwd''], Rx_Edge]"

definition rx_history_file :: rx where
  "rx_history_file =
     rx_seq [PRE, rx_char (CHR ''.''), rx_words [''zsh_history'', ''bash_history'', ''sh_history'',
     ''python_history'', ''node_repl_history'', ''psql_history'', ''mysql_history'', ''irb_history''],
     Rx_Look True (POST)]"

definition rx_keychain_dump :: rx where
  "rx_keychain_dump =
     rx_seq [Rx_Edge, rx_lit ''security'', at_least 1 [Space], rx_words [''find-generic-password'',
     ''find-internet-password'', ''dump-keychain'', ''export''], Rx_Edge]"

definition SENSITIVE_RULES :: "guard_rule list" where
  "SENSITIVE_RULES = [
     (rx_credential_directory, ''secret-file'',
       ''targets a credential directory (~/.ssh, ~/.aws, ~/.kube, ~/.docker, ~/.azure, ~/.gnupg)''),
     (rx_cloud_cli_store, ''secret-file'',
       ''targets a cloud/GitHub CLI credential store (~/.config/gcloud, ~/.config/gh)''),
     (rx_key_material, ''secret-file'',
       ''targets a private key / certificate file ('' @ ''*.pem, *.key, *.p12, ...)''),
     (rx_credential_dotfile, ''secret-file'',
       ''targets a credential dotfile (~/.netrc, ~/.npmrc, ~/.pypirc, ~/.git-credentials)''),
     (rx_fcc_credentials, ''secret-file'',
       ''targets the local Free Claude Code proxy credentials (~/.fcc)''),
     (rx_keychain_store, ''secret-file'',
       ''targets the macOS Keychain store''),
     (rx_keychain_file, ''secret-file'',
       ''targets a macOS keychain file''),
     (rx_browser_store, ''secret-file'',
       ''targets a browser cookie / saved-login database''),
     (rx_password_database, ''secret-file'',
       ''targets a system password database (/etc/shadow)''),
     (rx_history_file, ''secret-file'',
       ''targets a shell/REPL history file (may contain pasted secrets)''),
     (rx_keychain_dump, ''secret-file'',
       ''dumps credentials from the macOS Keychain via `security`'')]"

definition rx_ssh_private_key :: rx where
  "rx_ssh_private_key =
     rx_seq [Rx_Edge, rx_lit ''id_'', rx_words [''rsa'', ''dsa'', ''ecdsa'', ''ed25519''], Rx_Edge]"

definition rx_authorized_keys :: rx where
  "rx_authorized_keys =
     rx_seq [Rx_Edge, rx_lit ''authorized_keys'', Rx_Edge]"

definition LOCATION_ONLY_RULES :: "guard_rule list" where
  "LOCATION_ONLY_RULES = [
     (rx_ssh_private_key, ''secret-file'',
       ''targets an SSH private key (id_rsa / id_ed25519 / ...)''),
     (rx_authorized_keys, ''secret-file'',
       ''targets the SSH authorized_keys file'')]"

definition ENV_FILE :: rx where
  "ENV_FILE =
     rx_seq [rx_lit ''.env'', rx_opt (rx_seq [rx_char (CHR ''.''), Rx_Group ''1'' (at_least 1 [UPPER, LOWER,
     DIGITS, One (CHR ''_''), One (CHR ''-'')])]), Rx_Look True (POST)]"

definition SSRF :: rx where
  "SSRF =
     rx_alt [rx_lit ''169.254.169.254'', rx_lit ''169.254.170.2'', rx_lit ''100.100.100.200'',
     rx_lit ''metadata.google.internal'', rx_seq [rx_lit ''metadata.goog'', Rx_Edge],
     rx_lit ''fd00:ec2::254'']"

definition LOOPBACK :: rx where
  "LOOPBACK =
     rx_words [''127.0.0.1'', ''localhost'', ''::1'', ''[::1]'', ''0.0.0.0'']"

definition NET_TOOL :: rx where
  "NET_TOOL =
     rx_seq [rx_alt [Rx_Start, Rx_Set True [Space, One (CHR '';''), One (CHR ''&''), One (CHR ''|''),
     One (CHR ''(''), One (CHR 0x60), One (CHR ''$'')]], rx_words [''curl'', ''wget'', ''nc'', ''ncat'',
     ''netcat'', ''telnet'', ''socat'', ''scp'', ''sftp''], Rx_Edge]"

definition SSH :: rx where
  "SSH =
     rx_seq [rx_alt [Rx_Start, Rx_Set True [Space, One (CHR '';''), One (CHR ''&''), One (CHR ''|''),
     One (CHR ''(''), One (CHR 0x60), One (CHR ''$'')]], rx_lit ''ssh'', Rx_Look True (Rx_Set True [Space])]"

definition RSYNC_REMOTE :: rx where
  "RSYNC_REMOTE =
     rx_seq [Rx_Edge, rx_lit ''rsync'', Rx_Edge, Rx_Rep False 0 None (Rx_Set False [One (CHR 0x0A)]),
     rx_alt [rx_seq [at_least 1 [Word, One (CHR ''.''), One (CHR ''-'')], rx_char (CHR ''@''),
     at_least 1 [Word, One (CHR ''.''), One (CHR ''-'')], rx_char (CHR '':'')], rx_lit ''rsync://'',
     rx_seq [rx_lit ''::'', Rx_Set True [Word]]]]"

definition INTERP :: rx where
  "INTERP =
     rx_seq [Rx_Edge, rx_alt [rx_seq [rx_lit ''python'', at_least 0 [DIGITS, One (CHR ''.'')]],
     rx_lit ''node'', rx_lit ''nodejs'', rx_lit ''ruby'', rx_lit ''perl'', rx_lit ''php''], Rx_Edge,
     Rx_Rep False 0 None (Rx_Set False [One (CHR 0x0A)]), Rx_Set True [Space], rx_char (CHR ''-''),
     Rx_Set True [One (CHR ''c''), One (CHR ''e''), One (CHR ''r'')], Rx_Edge]"

definition SOCKET_HINT :: rx where
  "SOCKET_HINT =
     rx_alt [rx_seq [rx_lit ''socket.'', rx_words [''socket'', ''create_connection'']], rx_lit ''urllib'',
     rx_lit ''urllib2'', rx_seq [rx_lit ''requests.'', rx_words [''get'', ''post'', ''put'', ''request'']],
     rx_lit ''http.client'', rx_lit ''httpx'', rx_seq [rx_lit ''net.'', rx_words [''createConnection'',
     ''Socket'']], rx_seq [rx_lit ''http'', rx_opt (rx_char (CHR ''s'')), rx_char (CHR ''.''),
     rx_words [''get'', ''request'']], rx_lit ''fetch('', rx_lit ''Net::HTTP'', rx_lit ''open-uri'',
     rx_lit ''LWP::'']"

definition RM_RECURSIVE :: rx where
  "RM_RECURSIVE =
     rx_seq [Rx_Edge, rx_lit ''rm'', Rx_Edge, Rx_Rep False 0 None (Rx_Set False [One (CHR 0x0A)]),
     rx_alt [rx_seq [Rx_Set True [Space], rx_char (CHR ''-''), at_least 0 [LOWER, UPPER],
     rx_char (CHR ''r''), at_least 0 [LOWER, UPPER], Rx_Edge], rx_seq [Rx_Set True [Space],
     rx_lit ''--recursive'', Rx_Edge]]]"

definition RM_ROOT_TARGET :: rx where
  "RM_ROOT_TARGET =
     rx_seq [Rx_Set True [Space, One (CHR 0x22), One (CHR 0x27)], rx_words [''/'', ''~'', ''$HOME'',
     ''${HOME}''], rx_alt [Rx_Set True [Space, One (CHR 0x22), One (CHR 0x27)],
     rx_seq [rx_opt (rx_char (CHR ''/'')), rx_char (CHR ''*'')], Rx_End]]"

definition rx_pipe_to_shell :: rx where
  "rx_pipe_to_shell =
     rx_seq [rx_words [''curl'', ''wget'', ''fetch''], Rx_Edge,
     Rx_Rep True 0 None (Rx_Set False [One (CHR 0x0A)]), rx_char (CHR ''|''), at_least 0 [Space],
     rx_opt (rx_seq [rx_lit ''sudo'', at_least 1 [Space]]), rx_alt [rx_lit ''sh'', rx_lit ''bash'',
     rx_lit ''zsh'', rx_lit ''dash'', rx_lit ''ksh'', rx_lit ''fish'', rx_seq [rx_lit ''python'',
     at_least 0 [DIGITS, One (CHR ''.'')]], rx_lit ''ruby'', rx_lit ''perl'', rx_lit ''node''], Rx_Edge]"

definition rx_run_fetched :: rx where
  "rx_run_fetched =
     rx_seq [rx_words [''<('', ''$(''], at_least 0 [Space], rx_words [''curl'', ''wget''], Rx_Edge]"

definition rx_pip_from_url :: rx where
  "rx_pip_from_url =
     rx_seq [Rx_Edge, rx_alt [rx_seq [rx_lit ''pip'', at_least 0 [DIGITS, One (CHR ''.'')]],
     rx_lit ''pipx''], at_least 1 [Space], rx_words [''install'', ''run''], Rx_Edge,
     Rx_Rep True 0 None (Rx_Set False [One (CHR 0x0A)]), rx_alt [rx_seq [rx_lit ''http'',
     rx_opt (rx_char (CHR ''s'')), rx_lit ''://''], rx_lit ''git+'']]"

definition rx_uv_from_url :: rx where
  "rx_uv_from_url =
     rx_seq [Rx_Edge, rx_lit ''uv'', at_least 1 [Space], rx_lit ''pip'', at_least 1 [Space],
     rx_lit ''install'', Rx_Edge, Rx_Rep True 0 None (Rx_Set False [One (CHR 0x0A)]),
     rx_alt [rx_seq [rx_lit ''http'', rx_opt (rx_char (CHR ''s'')), rx_lit ''://''], rx_lit ''git+'']]"

definition rx_node_from_url :: rx where
  "rx_node_from_url =
     rx_seq [Rx_Edge, rx_words [''npm'', ''pnpm'', ''yarn''], at_least 1 [Space], rx_words [''install'',
     ''i'', ''add''], Rx_Edge, Rx_Rep True 0 None (Rx_Set False [One (CHR 0x0A)]),
     rx_alt [rx_seq [rx_lit ''http'', rx_opt (rx_char (CHR ''s'')), rx_lit ''://''], rx_seq [rx_lit ''git'',
     rx_words [''+'', ''://'']], rx_lit ''github:'', rx_lit ''gitlab:'', rx_lit ''bitbucket:'',
     rx_lit ''git@'']]"

definition rx_npx_from_url :: rx where
  "rx_npx_from_url =
     rx_seq [Rx_Edge, rx_lit ''npx'', Rx_Edge, Rx_Rep True 0 None (Rx_Set False [One (CHR 0x0A)]),
     rx_alt [rx_seq [rx_lit ''http'', rx_opt (rx_char (CHR ''s'')), rx_lit ''://''], rx_lit ''github:'']]"

definition rx_as_root :: rx where
  "rx_as_root =
     rx_seq [rx_alt [Rx_Start, Rx_Set True [Space, One (CHR '';''), One (CHR ''&''), One (CHR ''|''),
     One (CHR ''('')]], rx_words [''sudo'', ''doas''], Rx_Edge]"

definition rx_disable_control :: rx where
  "rx_disable_control =
     rx_alt [rx_seq [Rx_Edge, rx_alt [rx_seq [rx_lit ''csrutil'', at_least 1 [Space], rx_lit ''disable''],
     rx_seq [rx_lit ''spctl'', at_least 1 [Space], rx_lit ''--'', rx_words [''master'', ''global''],
     rx_lit ''-disable''], rx_seq [rx_lit ''pfctl'', at_least 1 [Space], rx_lit ''-d''],
     rx_seq [rx_lit ''ufw'', at_least 1 [Space], rx_lit ''disable''], rx_lit ''visudo''], Rx_Edge],
     rx_seq [rx_lit ''socketfilterfw'', Rx_Edge, Rx_Rep True 0 None (Rx_Set False [One (CHR 0x0A)]),
     rx_lit ''--setglobalstate'', at_least 1 [Space], rx_lit ''off''], rx_seq [rx_lit ''systemctl'',
     at_least 1 [Space], rx_words [''stop'', ''disable''], at_least 1 [Space], rx_words [''firewalld'',
     ''ufw''], Rx_Edge], rx_seq [rx_lit ''defaults'', at_least 1 [Space], rx_lit ''write'', Rx_Edge,
     Rx_Rep True 0 None (Rx_Set False [One (CHR 0x0A)]), rx_lit ''Gatekeeper'']]"

definition rx_edit_sudoers :: rx where
  "rx_edit_sudoers =
     rx_seq [rx_lit ''/etc/'', rx_words [''sudoers'', ''pam.d''], Rx_Edge]"

definition rx_launchd_item :: rx where
  "rx_launchd_item =
     rx_alt [rx_seq [Rx_Edge, rx_lit ''launchctl'', at_least 1 [Space], rx_words [''load'', ''bootstrap'',
     ''enable'', ''submit''], Rx_Edge], rx_seq [rx_lit ''/Library/Launch'', rx_words [''Agents'',
     ''Daemons''], rx_char (CHR ''/'')], rx_seq [rx_lit ''~/Library/LaunchAgents'', Rx_Edge]]"

definition rx_cron_job :: rx where
  "rx_cron_job =
     rx_alt [rx_seq [Rx_Edge, rx_lit ''crontab'', Rx_Edge, Rx_Look False (rx_seq [at_least 1 [Space],
     rx_lit ''-l'', Rx_Edge])], rx_lit ''/etc/cron'', rx_seq [rx_lit ''/var/spool/cron'', Rx_Edge],
     rx_seq [Rx_Edge, rx_lit ''at'', at_least 1 [Space], rx_alt [rx_seq [rx_lit ''now'', Rx_Edge],
     rx_seq [rx_lit ''-f'', Rx_Edge]]]]"

definition rx_append_ssh_key :: rx where
  "rx_append_ssh_key =
     rx_alt [rx_seq [Rx_Edge, rx_lit ''ssh-copy-id'', Rx_Edge], rx_seq [rx_alt [rx_seq [rx_char (CHR ''>''),
     rx_opt (rx_char (CHR ''>''))], rx_lit ''tee''], at_least 0 [Space],
     Rx_Rep True 0 None (Rx_Set False [One (CHR 0x0A), One (CHR ''|'')]), rx_lit ''authorized_keys'',
     Rx_Edge]]"

definition rx_shell_startup :: rx where
  "rx_shell_startup =
     rx_alt [rx_seq [rx_alt [rx_seq [rx_char (CHR ''>''), rx_opt (rx_char (CHR ''>''))],
     rx_seq [rx_lit ''tee'', rx_opt (rx_seq [at_least 1 [Space], rx_lit ''-a''])]], at_least 0 [Space],
     rx_opt (rx_seq [Rx_Rep True 0 None (Rx_Set False [Space, One (CHR 0x27), One (CHR 0x22),
     One (CHR '';''), One (CHR ''|''), One (CHR ''&'')]), rx_char (CHR ''/'')]), rx_char (CHR ''.''),
     rx_words [''zshrc'', ''bashrc'', ''bash_profile'', ''zprofile'', ''zshenv'', ''profile''], Rx_Edge],
     rx_seq [Rx_Edge, rx_lit ''sed'', at_least 1 [Space], rx_lit ''-i'',
     Rx_Rep True 0 None (Rx_Set False [One (CHR 0x0A)]), rx_char (CHR ''.''), rx_words [''zshrc'',
     ''bashrc'', ''bash_profile'', ''zprofile'', ''zshenv'', ''profile''], Rx_Edge],
     rx_seq [rx_lit ''config.fish'', Rx_Edge]]"

definition rx_world_writable :: rx where
  "rx_world_writable =
     rx_seq [Rx_Edge, rx_lit ''chmod'', Rx_Edge, Rx_Rep True 0 None (Rx_Set False [One (CHR 0x0A)]),
     Rx_Edge, rx_opt (rx_char (CHR ''0'')), rx_lit ''777'', Rx_Edge]"

definition rx_raw_disk :: rx where
  "rx_raw_disk =
     rx_seq [Rx_Edge, rx_lit ''dd'', Rx_Edge, Rx_Rep True 0 None (Rx_Set False [One (CHR 0x0A)]), Rx_Edge,
     rx_lit ''of=/dev/'', rx_alt [rx_lit ''disk'', rx_lit ''rdisk'', rx_seq [rx_lit ''sd'',
     Rx_Set True [LOWER]], rx_lit ''nvme'', rx_seq [rx_lit ''hd'', Rx_Set True [LOWER]],
     rx_seq [rx_lit ''vd'', Rx_Set True [LOWER]]]]"

definition rx_format_disk :: rx where
  "rx_format_disk =
     rx_alt [rx_seq [Rx_Edge, rx_lit ''mkfs'', rx_opt (rx_seq [rx_char (CHR ''.''), at_least 1 [Word]]),
     Rx_Edge], rx_seq [Rx_Edge, rx_lit ''newfs'', Rx_Edge], rx_seq [Rx_Edge, rx_lit ''wipefs'', Rx_Edge],
     rx_seq [Rx_Edge, rx_lit ''shred'', Rx_Edge], rx_seq [Rx_Edge, rx_lit ''diskutil'', at_least 1 [Space],
     rx_words [''erase'', ''reformat'', ''partition'']], rx_seq [rx_char (CHR ''>''), at_least 0 [Space],
     rx_lit ''/dev/'', rx_alt [rx_lit ''disk'', rx_lit ''rdisk'', rx_seq [rx_lit ''sd'',
     Rx_Set True [LOWER]], rx_lit ''nvme'', rx_seq [rx_lit ''hd'', Rx_Set True [LOWER]]]]]"

definition rx_fork_bomb :: rx where
  "rx_fork_bomb =
     rx_alt [rx_seq [rx_lit '':()'', at_least 0 [Space], rx_char (CHR ''{''), at_least 0 [Space],
     rx_char (CHR '':''), at_least 0 [Space], rx_char (CHR ''|''), at_least 0 [Space], rx_char (CHR '':''),
     at_least 0 [Space], rx_char (CHR ''&''), at_least 0 [Space], rx_char (CHR ''}''), at_least 0 [Space],
     rx_char (CHR '';''), at_least 0 [Space], rx_char (CHR '':'')], rx_seq [at_least 0 [Word],
     rx_lit ''()'', at_least 0 [Space], rx_char (CHR ''{''),
     Rx_Rep True 0 None (Rx_Set False [One (CHR ''}'')]), rx_char (CHR ''|''),
     Rx_Rep True 0 None (Rx_Set False [One (CHR ''}'')]), rx_char (CHR ''&''),
     Rx_Rep True 0 None (Rx_Set False [One (CHR ''}'')]), rx_char (CHR ''}''), at_least 0 [Space],
     rx_char (CHR '';'')]]"

definition rx_env_to_network :: rx where
  "rx_env_to_network =
     rx_seq [Rx_Edge, rx_words [''env'', ''printenv'', ''set''], Rx_Edge,
     Rx_Rep True 0 None (Rx_Set False [One (CHR 0x0A), One (CHR ''|'')]), rx_char (CHR ''|''),
     Rx_Rep True 0 None (Rx_Set False [One (CHR 0x0A)]), rx_words [''curl'', ''wget'', ''nc'', ''ncat'',
     ''netcat'', ''telnet'', ''socat'', ''scp'', ''sftp'', ''ssh''], Rx_Edge]"

definition rx_base64_to_network :: rx where
  "rx_base64_to_network =
     rx_seq [Rx_Edge, rx_lit ''base64'', Rx_Edge, Rx_Rep True 0 None (Rx_Set False [One (CHR 0x0A),
     One (CHR ''|'')]), rx_char (CHR ''|''), Rx_Rep True 0 None (Rx_Set False [One (CHR 0x0A)]),
     rx_words [''curl'', ''wget'', ''nc'', ''ncat'', ''netcat'', ''telnet'', ''socat'', ''scp'', ''sftp'',
     ''ssh''], Rx_Edge]"

definition rx_raw_socket :: rx where
  "rx_raw_socket =
     rx_seq [rx_lit ''/dev/'', rx_words [''tcp'', ''udp''], rx_char (CHR ''/'')]"

definition rx_dns_label :: rx where
  "rx_dns_label =
     rx_seq [Rx_Edge, rx_words [''dig'', ''nslookup'', ''host'', ''drill''], Rx_Edge,
     Rx_Rep True 0 None (Rx_Set False [One (CHR 0x0A)]), Rx_Edge, at_least 28 [UPPER, LOWER, DIGITS,
     One (CHR ''+''), One (CHR ''/''), One (CHR ''=''), One (CHR ''_''), One (CHR ''-'')],
     rx_char (CHR ''.'')]"

definition rx_send_mail :: rx where
  "rx_send_mail =
     rx_alt [rx_seq [Rx_Edge, rx_words [''sendmail'', ''ssmtp'', ''mailx''], Rx_Edge], rx_seq [Rx_Edge,
     rx_lit ''mail'', Rx_Edge, at_least 1 [Space], rx_lit ''-s'', Rx_Edge], rx_seq [rx_char (CHR ''|''),
     at_least 0 [Space], rx_lit ''mail'', Rx_Edge]]"

definition rx_push_to_url :: rx where
  "rx_push_to_url =
     rx_seq [Rx_Edge, rx_lit ''git'', at_least 1 [Space], rx_lit ''push'', Rx_Edge,
     Rx_Rep True 0 None (Rx_Set False [One (CHR 0x0A)]), rx_alt [rx_seq [rx_lit ''http'',
     rx_opt (rx_char (CHR ''s'')), rx_lit ''://''], rx_lit ''git@'', rx_lit ''ssh://'', rx_lit ''git://'']]"

definition BASH_RULES :: "guard_rule list" where
  "BASH_RULES = [
     (rx_pipe_to_shell, ''remote-code-exec'',
       ''pipes downloaded content straight into a shell/interpreter (curl | sh). Download to a file, review it, then run it.''),
     (rx_run_fetched, ''remote-code-exec'',
       ''executes the output of a network fetch via process/command substitution''),
     (rx_pip_from_url, ''remote-code-exec'',
       ''installs a Python package from a URL/VCS spec (arbitrary code execution). Install a named, pinned package instead.''),
     (rx_uv_from_url, ''remote-code-exec'',
       ''installs a Python package from a URL/VCS spec (arbitrary code execution)''),
     (rx_node_from_url, ''remote-code-exec'',
       ''installs a Node package from a git/URL spec (arbitrary code execution). Install a named, pinned package instead.''),
     (rx_npx_from_url, ''remote-code-exec'',
       ''runs npx against a URL/GitHub spec (arbitrary code execution)''),
     (rx_as_root, ''privilege-escalation'',
       ''runs a command as root via sudo/doas. The agent should not need elevated privileges; ask the user to run privileged steps.''),
     (rx_disable_control, ''privilege-escalation'',
       ''disables a system security control (SIP / Gatekeeper / firewall)''),
     (rx_edit_sudoers, ''privilege-escalation'',
       ''edits sudoers / PAM configuration''),
     (rx_launchd_item, ''privilege-escalation'',
       ''installs a launchd persistence item''),
     (rx_cron_job, ''privilege-escalation'',
       ''installs a cron/at persistence job''),
     (rx_append_ssh_key, ''privilege-escalation'',
       ''appends an SSH key to authorized_keys (backdoor)''),
     (rx_shell_startup, ''privilege-escalation'',
       ''writes to a shell startup file (persistence via ~/.zshrc / ~/.bashrc)''),
     (rx_world_writable, ''privilege-escalation'',
       ''makes a path world-writable (chmod 777)''),
     (rx_raw_disk, ''destructive'',
       ''writes a raw disk device with dd''),
     (rx_format_disk, ''destructive'',
       ''formats/erases a disk or filesystem''),
     (rx_fork_bomb, ''destructive'',
       ''looks like a fork bomb''),
     (rx_env_to_network, ''exfiltration'',
       ''pipes environment variables into a network tool''),
     (rx_base64_to_network, ''exfiltration'',
       ''pipes base64-encoded data into a network tool''),
     (rx_raw_socket, ''exfiltration'',
       ''opens a raw network socket via /dev/tcp''),
     (rx_dns_label, ''exfiltration'',
       ''looks like DNS exfiltration (a long encoded label in a lookup)''),
     (rx_send_mail, ''exfiltration'',
       ''sends mail (a data exfiltration channel)''),
     (rx_push_to_url, ''exfiltration'',
       ''git-pushes to an ad-hoc URL remote (data exfiltration channel). Push to a configured named remote instead.'')]"

section \<open>Secret \<open>.env\<close> files\<close>

definition SAFE_ENV_SUFFIXES :: "string list" where
  "SAFE_ENV_SUFFIXES = [''example'', ''sample'', ''template'', ''dist'', ''default'', ''defaults'']"

definition env_file_is_secret :: "string \<Rightarrow> bool" where
  "env_file_is_secret s \<longleftrightarrow>
     list_ex (\<lambda>h. case dget (snd h) ''1'' of None \<Rightarrow> True | Some x \<Rightarrow> py_lower x \<notin> set SAFE_ENV_SUFFIXES)
       (rx_finditer ENV_FILE s)"

section \<open>Fetches\<close>

record host_knowledge =
  hk_env :: "(string, string) dict"
  hk_hostname :: "string \<Rightarrow> unit + string option"
  hk_loopback :: "string \<Rightarrow> bool option"

definition env_get :: "(string, string) dict \<Rightarrow> string \<Rightarrow> string" where
  "env_get env k = (case dget env k of None \<Rightarrow> [] | Some v \<Rightarrow> v)"

definition WEBFETCH_ALLOW_HOSTS_ENV :: string where
  "WEBFETCH_ALLOW_HOSTS_ENV = ''FCC_WEBFETCH_ALLOW_HOSTS''"

definition WEBFETCH_ALLOW_ENV :: string where
  "WEBFETCH_ALLOW_ENV = ''FCC_ALLOW_WEB_FETCH''"

definition ENV_TRUTHY :: "string list" where
  "ENV_TRUTHY = [''1'', ''true'', ''yes'', ''on'']"

definition webfetch_lockdown_disabled :: "(string, string) dict \<Rightarrow> bool" where
  "webfetch_lockdown_disabled env \<longleftrightarrow> py_lower (py_strip (env_get env WEBFETCH_ALLOW_ENV)) \<in> set ENV_TRUTHY"

fun split_commas :: "string \<Rightarrow> string list" where
  "split_commas [] = [[]]"
| "split_commas (c # s) =
     (if c = CHR '','' then [] # split_commas s
      else (case split_commas s of [] \<Rightarrow> [[c]] | x # xs \<Rightarrow> (c # x) # xs))"

definition webfetch_allowed_hosts :: "(string, string) dict \<Rightarrow> string list" where
  "webfetch_allowed_hosts env =
     map (\<lambda>h. py_lower (py_strip h))
       (filter (\<lambda>h. py_strip h \<noteq> []) (split_commas (env_get env WEBFETCH_ALLOW_HOSTS_ENV)))"

definition strip_brackets :: "string \<Rightarrow> string" where
  "strip_brackets s =
     (let b = (\<lambda>c. c = CHR ''['' \<or> c = CHR '']'') in rev (dropWhile b (rev (dropWhile b s))))"

definition host_is_loopback :: "host_knowledge \<Rightarrow> string \<Rightarrow> bool" where
  "host_is_loopback hk host =
     (let normalized = strip_brackets (py_lower (py_strip host)) in
      if normalized = ''localhost'' then True
      else (case hk_loopback hk normalized of Some b \<Rightarrow> b | None \<Rightarrow> False))"

definition host_is_allowlisted :: "string \<Rightarrow> string list \<Rightarrow> bool" where
  "host_is_allowlisted host allow_hosts =
     (let normalized = py_lower (py_strip host) in
      list_ex (\<lambda>allowed. normalized = allowed \<or> suffix (''.'' @ allowed) normalized) allow_hosts)"

fun as_str :: "json option \<Rightarrow> string" where
  "as_str (Some (JStr s)) = s"
| "as_str _ = []"

definition fetch_reason :: "string \<Rightarrow> string \<Rightarrow> string" where
  "fetch_reason tool_name target =
     tool_name @ '' targets '' @ target @
     '', a non-loopback host, which is denied by default to prevent data exfiltration. Set '' @
     WEBFETCH_ALLOW_HOSTS_ENV @ '' (comma-separated hostnames/suffixes) to allow specific hosts, or '' @
     WEBFETCH_ALLOW_ENV @ ''=1 to disable this rule entirely.''"

definition evaluate_web_fetch_host ::
  "host_knowledge \<Rightarrow> string \<Rightarrow> (string, json) dict \<Rightarrow> unit + guard_decision option" where
  "evaluate_web_fetch_host hk tool_name tool_input =
     (if webfetch_lockdown_disabled (hk_env hk) then Inr None
      else
        (let url = as_str (dget tool_input ''url'') in
         bind_result (if url = [] then Inr None else hk_hostname hk url) (\<lambda>host.
           case host of
             None \<Rightarrow> Inr (Some (deny ''exfiltration'' (fetch_reason tool_name ''a remote host'')))
           | Some h \<Rightarrow>
               if host_is_loopback hk h then Inr None
               else if host_is_allowlisted h (webfetch_allowed_hosts (hk_env hk)) then Inr None
               else Inr (Some (deny ''exfiltration'' (fetch_reason tool_name (if h = [] then ''a remote host'' else h)))))))"

section \<open>Commands\<close>

definition looks_like_exfil :: "string \<Rightarrow> bool" where
  "looks_like_exfil command =
     (if rx_search LOOPBACK command then False
      else rx_search NET_TOOL command \<or> rx_search SSH command \<or> rx_search RSYNC_REMOTE command)"

definition looks_like_interpreter_socket :: "string \<Rightarrow> bool" where
  "looks_like_interpreter_socket command =
     (if rx_search LOOPBACK command then False
      else rx_search INTERP command \<and> rx_search SOCKET_HINT command)"

definition rm_hits_root_or_home :: "string \<Rightarrow> bool" where
  "rm_hits_root_or_home command = (rx_search RM_RECURSIVE command \<and> rx_search RM_ROOT_TARGET command)"

definition evaluate_bash :: "string \<Rightarrow> guard_decision" where
  "evaluate_bash command =
     (if command = [] then ALLOW
      else
        (case first_match BASH_RULES command of
           Some d \<Rightarrow> d
         | None \<Rightarrow>
             if rm_hits_root_or_home command then deny ''destructive'' ''recursively removes / , ~ or $HOME''
             else if looks_like_exfil command then
               deny ''exfiltration''
                 ''uses a network/transfer tool (curl/wget/scp/ssh/...) against a non-loopback host. Use the WebFetch tool or the local proxy (127.0.0.1) for legitimate fetches.''
             else if looks_like_interpreter_socket command then
               deny ''exfiltration''
                 ''runs an inline interpreter that opens a network socket to a non-loopback host''
             else ALLOW))"

section \<open>What is scanned\<close>

definition PATH_KEYS :: "string list" where "PATH_KEYS = [''file_path'', ''notebook_path'', ''path'']"
definition WEB_KEYS :: "string list" where "WEB_KEYS = [''url'', ''query'']"
definition GLOB_KEYS :: "string list" where "GLOB_KEYS = [''path'', ''glob'', ''pattern'']"

definition FILE_TOOL_NAMES :: "string list" where
  "FILE_TOOL_NAMES = [''Read'', ''Edit'', ''Write'', ''MultiEdit'', ''NotebookEdit'', ''NotebookRead'']"

definition join_keys :: "(string, json) dict \<Rightarrow> string list \<Rightarrow> string" where
  "join_keys tool_input keys = join newline (filter (\<lambda>p. p \<noteq> []) (map (\<lambda>k. as_str (dget tool_input k)) keys))"

definition scan_target :: "string \<Rightarrow> (string, json) dict \<Rightarrow> string" where
  "scan_target tool_name tool_input =
     (if tool_name = ''Bash'' then as_str (dget tool_input ''command'')
      else if tool_name = ''WebFetch'' \<or> tool_name = ''WebSearch'' then join_keys tool_input WEB_KEYS
      else if tool_name = ''Grep'' \<or> tool_name = ''Glob'' then join_keys tool_input [''path'', ''glob'']
      else if tool_name \<in> set FILE_TOOL_NAMES then join_keys tool_input PATH_KEYS
      else join_keys tool_input (PATH_KEYS @ WEB_KEYS @ GLOB_KEYS))"

section \<open>The decision\<close>

definition env_file_denied :: guard_decision where
  "env_file_denied =
     deny ''secret-file''
       ''targets a .env credential file. Use a committed template (.env.example) or ask the user for the value you need.''"

definition evaluate :: "host_knowledge \<Rightarrow> string \<Rightarrow> (string, json) dict \<Rightarrow> unit + guard_decision" where
  "evaluate hk tool_name tool_input =
     (let scan_text = scan_target tool_name tool_input in
      if env_file_is_secret scan_text then Inr env_file_denied
      else
        (case first_match SENSITIVE_RULES scan_text of
           Some d \<Rightarrow> Inr d
         | None \<Rightarrow>
             (case (if tool_name \<noteq> ''Bash'' then first_match LOCATION_ONLY_RULES scan_text else None) of
                Some d \<Rightarrow> Inr d
              | None \<Rightarrow>
                  if rx_search SSRF scan_text then
                    Inr (deny ''metadata-ssrf'' ''targets a cloud instance-metadata endpoint (credential theft via SSRF)'')
                  else
                    bind_result
                      (if tool_name = ''WebFetch'' \<or> tool_name = ''WebSearch''
                       then evaluate_web_fetch_host hk tool_name tool_input else Inr None)
                      (\<lambda>decision. case decision of
                         Some d \<Rightarrow> Inr d
                       | None \<Rightarrow>
                           if tool_name = ''Bash'' then Inr (evaluate_bash (as_str (dget tool_input ''command'')))
                           else Inr ALLOW))))"

definition evaluate_hook_payload ::
  "host_knowledge \<Rightarrow> (string \<Rightarrow> json option) \<Rightarrow> string \<Rightarrow> unit + guard_decision" where
  "evaluate_hook_payload hk loads raw =
     (case loads raw of
        Some (JObj parsed) \<Rightarrow>
          (case dget parsed ''tool_name'' of
             Some (JStr tool_name) \<Rightarrow>
               (case dget parsed ''tool_input'' of
                  Some (JObj tool_input) \<Rightarrow> evaluate hk tool_name tool_input
                | _ \<Rightarrow> evaluate hk tool_name [])
           | _ \<Rightarrow> Inr ALLOW)
      | _ \<Rightarrow> Inr ALLOW)"

definition render_deny_output :: "guard_decision \<Rightarrow> json" where
  "render_deny_output decision =
     JObj [(''hookSpecificOutput'', JObj [
       (''hookEventName'', JStr ''PreToolUse''),
       (''permissionDecision'', JStr ''deny''),
       (''permissionDecisionReason'', JStr (''fcc-hook-guard: '' @ gd_reason decision))])]"

end
