(* ===== verification/Guard_Properties.thy ===== *)
theory Guard_Properties
  imports Hook_Guard
begin

text \<open>
  The guard against its own specification: which calls it lets through, stated by what occurs in the
  scanned text and not by how a search proceeds; what it never lets through; and what it does not look at.
\<close>

section \<open>Occurrences\<close>

definition mentions :: "rx \<Rightarrow> string \<Rightarrow> bool" where
  "mentions r s \<longleftrightarrow> (\<exists>a w b. s = a @ w @ b \<and> rx_accepts r (rev a) w b)"

lemma search_mentions: "rx_regular r \<Longrightarrow> rx_search r s = mentions r s"
  by (simp add: search_iff mentions_def)

lemma mentions_here: "rx_accepts r (rev a) w b \<Longrightarrow> mentions r (a @ w @ b)"
  by (auto simp: mentions_def)

lemma accepts_char [simp]: "rx_accepts (rx_char c) past w rest \<longleftrightarrow> w = [c]"
  by (auto simp: class_has_def)

lemma accepts_lit: "rx_accepts (rx_lit s) past w rest \<longleftrightarrow> w = s"
proof -
  have "rx_accepts (rx_seq (map rx_char s)) past w rest \<longleftrightarrow> w = s" for past w rest
  proof (induction s arbitrary: past w rest rule: induct_list012)
    case (3 x y s)
    have "rx_accepts (rx_seq (map rx_char (x # y # s))) past w rest \<longleftrightarrow>
        (\<exists>u v. w = u @ v \<and> rx_accepts (rx_char x) past u (v @ rest) \<and>
          rx_accepts (rx_seq (map rx_char (y # s))) (rev u @ past) v rest)" by simp
    also have "\<dots> \<longleftrightarrow> w = x # y # s" unfolding 3(2) accepts_char by auto
    finally show ?case .
  qed (auto simp: class_has_def)
  then show ?thesis by (simp add: rx_lit_def)
qed

lemma accepts_words: "ws \<noteq> [] \<Longrightarrow> rx_accepts (rx_words ws) past w rest \<longleftrightarrow> w \<in> set ws"
proof -
  have "ws \<noteq> [] \<Longrightarrow> rx_accepts (rx_alt (map rx_lit ws)) past w rest \<longleftrightarrow> w \<in> set ws"
    by (induction ws rule: induct_list012) (auto simp: accepts_lit)
  then show "ws \<noteq> [] \<Longrightarrow> rx_accepts (rx_words ws) past w rest \<longleftrightarrow> w \<in> set ws" by (simp add: rx_words_def)
qed

lemma accepts_seq:
  "rx_accepts r1 past u (v @ rest) \<Longrightarrow> rx_accepts r2 (rev u @ past) v rest \<Longrightarrow> rx_accepts (Rx_Seq r1 r2) past (u @ v) rest"
  by auto

lemma rules_regular:
  "list_all (\<lambda>rule. rx_regular (fst rule)) SENSITIVE_RULES"
  "list_all (\<lambda>rule. rx_regular (fst rule)) LOCATION_ONLY_RULES"
  "list_all (\<lambda>rule. rx_regular (fst rule)) BASH_RULES"
  by code_simp+

lemma singles_regular:
  "rx_regular SSRF" "rx_regular LOOPBACK" "rx_regular NET_TOOL" "rx_regular SSH" "rx_regular RSYNC_REMOTE"
  "rx_regular INTERP" "rx_regular SOCKET_HINT" "rx_regular RM_RECURSIVE" "rx_regular RM_ROOT_TARGET"
  by code_simp+

lemmas guard_search = singles_regular [THEN search_mentions]

definition table_hits :: "guard_rule list \<Rightarrow> string \<Rightarrow> bool" where
  "table_hits rules s \<longleftrightarrow> (\<exists>rule \<in> set rules. mentions (fst rule) s)"

lemma first_match_None:
  "list_all (\<lambda>rule. rx_regular (fst rule)) rules \<Longrightarrow> first_match rules s = None \<longleftrightarrow> \<not> table_hits rules s"
proof (induction rules)
  case (Cons rule rules)
  obtain r c reason where rule: "rule = (r, c, reason)" by (cases rule)
  with Cons.prems have "rx_search r s = mentions r s" by (simp add: search_mentions)
  with Cons rule show ?case by (simp add: table_hits_def)
qed (simp add: table_hits_def)

lemma first_match_deny:
  "first_match rules s = Some d \<Longrightarrow> \<exists>rule \<in> set rules. d = deny (fst (snd rule)) (snd (snd rule))"
  by (induction rules) (auto split: if_splits)

lemma deny_refuses [simp]: "\<not> gd_allowed (deny c r)" "gd_category (deny c r) = c"
  by (simp_all add: deny_def)

lemma denied_result: "Inr (deny c r) = (Inr d :: unit + guard_decision) \<Longrightarrow> \<not> gd_allowed d"
  by auto

lemma allow_allows [simp]: "gd_allowed ALLOW"
  by (simp add: ALLOW_def)

lemma first_match_refuses: "first_match rules s = Some d \<Longrightarrow> \<not> gd_allowed d"
  using first_match_deny by fastforce

section \<open>The specification\<close>

definition command_forbidden :: "string \<Rightarrow> bool" where
  "command_forbidden c \<longleftrightarrow> c \<noteq> [] \<and>
     (table_hits BASH_RULES c \<or> mentions RM_RECURSIVE c \<and> mentions RM_ROOT_TARGET c \<or>
      \<not> mentions LOOPBACK c \<and>
        (mentions NET_TOOL c \<or> mentions SSH c \<or> mentions RSYNC_REMOTE c \<or> mentions INTERP c \<and> mentions SOCKET_HINT c))"

definition host_permitted :: "host_knowledge \<Rightarrow> string \<Rightarrow> bool" where
  "host_permitted hk h \<longleftrightarrow> host_is_loopback hk h \<or>
     (\<exists>allowed \<in> set (webfetch_allowed_hosts (hk_env hk)).
        py_lower (py_strip h) = allowed \<or> suffix (''.'' @ allowed) (py_lower (py_strip h)))"

definition fetch_permitted :: "host_knowledge \<Rightarrow> (string, json) dict \<Rightarrow> bool" where
  "fetch_permitted hk tool_input \<longleftrightarrow> webfetch_lockdown_disabled (hk_env hk) \<or>
     (\<exists>h. as_str (dget tool_input ''url'') \<noteq> [] \<and> hk_hostname hk (as_str (dget tool_input ''url'')) = Inr (Some h) \<and>
        host_permitted hk h)"

definition call_forbidden :: "host_knowledge \<Rightarrow> string \<Rightarrow> (string, json) dict \<Rightarrow> bool" where
  "call_forbidden hk tool tool_input \<longleftrightarrow>
     (let s = scan_target tool tool_input in
      env_file_is_secret s \<or> table_hits SENSITIVE_RULES s \<or>
      tool \<noteq> ''Bash'' \<and> table_hits LOCATION_ONLY_RULES s \<or> mentions SSRF s \<or>
      (tool = ''WebFetch'' \<or> tool = ''WebSearch'') \<and> \<not> fetch_permitted hk tool_input \<or>
      tool = ''Bash'' \<and> command_forbidden s)"

lemmas forbidden_iff = call_forbidden_def [unfolded Let_def]

lemma evaluate_bash_spec: "gd_allowed (evaluate_bash c) \<longleftrightarrow> \<not> command_forbidden c"
proof (cases "first_match BASH_RULES c")
  case None
  with first_match_None [OF rules_regular(3)] have "\<not> table_hits BASH_RULES c" by blast
  with None show ?thesis
    by (simp add: evaluate_bash_def command_forbidden_def rm_hits_root_or_home_def looks_like_exfil_def
        looks_like_interpreter_socket_def guard_search)
next
  case (Some d)
  with first_match_None [OF rules_regular(3), of c] have "table_hits BASH_RULES c" by simp
  with Some first_match_refuses [OF Some] show ?thesis
    by (simp add: evaluate_bash_def command_forbidden_def)
qed

lemma host_is_allowlisted_spec:
  "host_is_loopback hk h \<or> host_is_allowlisted h (webfetch_allowed_hosts (hk_env hk)) \<longleftrightarrow> host_permitted hk h"
  by (simp add: host_permitted_def host_is_allowlisted_def list_ex_iff Let_def)

text \<open>What the fetch rule returns, case by case.\<close>

lemma fetch_unlocked:
  "webfetch_lockdown_disabled (hk_env hk) \<Longrightarrow> evaluate_web_fetch_host hk tool i = Inr None"
  by (simp add: evaluate_web_fetch_host_def)

lemma fetch_hostless:
  assumes "\<not> webfetch_lockdown_disabled (hk_env hk)"
    "(if as_str (dget i ''url'') = [] then Inr None else hk_hostname hk (as_str (dget i ''url''))) = Inr None"
  shows "evaluate_web_fetch_host hk tool i = Inr (Some (deny ''exfiltration'' (fetch_reason tool ''a remote host'')))"
  unfolding evaluate_web_fetch_host_def Let_def if_not_P [OF assms(1)] assms(2) bind_result.simps option.case ..

lemma fetch_host:
  assumes "\<not> webfetch_lockdown_disabled (hk_env hk)" "as_str (dget i ''url'') \<noteq> []"
    "hk_hostname hk (as_str (dget i ''url'')) = Inr (Some h)"
  shows "evaluate_web_fetch_host hk tool i =
    (if host_permitted hk h then Inr None
     else Inr (Some (deny ''exfiltration'' (fetch_reason tool (if h = [] then ''a remote host'' else h)))))"
  unfolding evaluate_web_fetch_host_def Let_def if_not_P [OF assms(1)] if_not_P [OF assms(2)] assms(3)
    bind_result.simps option.case host_is_allowlisted_spec [symmetric]
  by (cases "host_is_loopback hk h") simp_all

lemma evaluate_fetch_spec:
  assumes "evaluate_web_fetch_host hk tool i = Inr d"
  shows "if fetch_permitted hk i then d = None else (\<exists>reason. d = Some (deny ''exfiltration'' reason))"
proof (cases "webfetch_lockdown_disabled (hk_env hk)")
  case True
  with assms fetch_unlocked [OF True, of tool i] show ?thesis by (simp add: fetch_permitted_def)
next
  case False
  let ?url = "as_str (dget i ''url'')"
  from assms obtain host where host: "(if ?url = [] then Inr None else hk_hostname hk ?url) = Inr host"
    unfolding evaluate_web_fetch_host_def Let_def if_not_P [OF False] bind_result_Inr_iff by blast
  show ?thesis
  proof (cases host)
    case None
    then have "\<not> fetch_permitted hk i" using False host by (auto simp: fetch_permitted_def)
    with assms fetch_hostless [OF False host [unfolded None]] show ?thesis by auto
  next
    case (Some h)
    then have url: "?url \<noteq> []" "hk_hostname hk ?url = Inr (Some h)" using host by (auto split: if_splits)
    then have "fetch_permitted hk i \<longleftrightarrow> host_permitted hk h" using False by (simp add: fetch_permitted_def)
    with assms fetch_host [OF False url, of tool] show ?thesis by (cases "host_permitted hk h") auto
  qed
qed

lemma unwrap_decision:
  "(case f of Some e \<Rightarrow> Inr e | None \<Rightarrow> if b then Inr x else Inr y) = (Inr d :: unit + guard_decision) \<Longrightarrow>
   d = (case f of Some e \<Rightarrow> e | None \<Rightarrow> if b then x else y)"
  by (cases f; cases b) auto

lemma evaluate_spec:
  assumes "evaluate hk tool i = Inr d"
  shows "gd_allowed d \<longleftrightarrow> \<not> call_forbidden hk tool i"
proof (cases "env_file_is_secret (scan_target tool i)")
  case True
  with assms show ?thesis by (auto simp: evaluate_def call_forbidden_def env_file_denied_def Let_def)
next
  case env: False
  let ?s = "scan_target tool i"
  show ?thesis
  proof (cases "first_match SENSITIVE_RULES ?s")
    case (Some e)
    with first_match_None [OF rules_regular(1), of ?s] have "table_hits SENSITIVE_RULES ?s" by simp
    moreover have "d = e" using assms env Some by (simp add: evaluate_def Let_def)
    ultimately show ?thesis using first_match_refuses [OF Some] unfolding forbidden_iff by blast
  next
    case sens: None
    then have no_sens: "\<not> table_hits SENSITIVE_RULES ?s" using first_match_None [OF rules_regular(1)] by blast
    show ?thesis
    proof (cases "if tool \<noteq> ''Bash'' then first_match LOCATION_ONLY_RULES ?s else None")
      case (Some e)
      then have loc: "tool \<noteq> ''Bash''" "first_match LOCATION_ONLY_RULES ?s = Some e" by (auto split: if_splits)
      with first_match_None [OF rules_regular(2), of ?s] have "table_hits LOCATION_ONLY_RULES ?s" by simp
      moreover have "d = e" using assms env sens Some by (simp add: evaluate_def Let_def)
      ultimately show ?thesis using first_match_refuses [OF loc(2)] loc(1) unfolding forbidden_iff by blast
    next
      case loc: None
      then have no_loc: "tool \<noteq> ''Bash'' \<Longrightarrow> \<not> table_hits LOCATION_ONLY_RULES ?s"
        using first_match_None [OF rules_regular(2)] by (auto split: if_splits)
      show ?thesis
      proof (cases "rx_search SSRF ?s")
        case True
        have "Inr (deny ''metadata-ssrf'' ''targets a cloud instance-metadata endpoint (credential theft via SSRF)'') = (Inr d :: unit + guard_decision)"
          using assms unfolding evaluate_def Let_def if_not_P [OF env] sens loc option.case if_P [OF True] .
        then have "\<not> gd_allowed d" by (rule denied_result)
        with True show ?thesis unfolding forbidden_iff guard_search by blast
      next
        case ssrf: False
        let ?web = "tool = ''WebFetch'' \<or> tool = ''WebSearch''"
        obtain f where
          f: "(if ?web then evaluate_web_fetch_host hk tool i else Inr None) = Inr f" and
          d: "d = (case f of Some e \<Rightarrow> e | None \<Rightarrow>
            if tool = ''Bash'' then evaluate_bash (as_str (dget i ''command'')) else ALLOW)"
        proof -
          have "\<exists>f. (if ?web then evaluate_web_fetch_host hk tool i else Inr None) = Inr f \<and>
              (case f of Some e \<Rightarrow> Inr e | None \<Rightarrow>
                if tool = ''Bash'' then Inr (evaluate_bash (as_str (dget i ''command''))) else Inr ALLOW) = (Inr d :: unit + guard_decision)"
            using assms unfolding evaluate_def Let_def if_not_P [OF env] sens loc option.case if_not_P [OF ssrf]
              bind_result_Inr_iff .
          then obtain f where f: "(if ?web then evaluate_web_fetch_host hk tool i else Inr None) = Inr f" and
            rest: "(case f of Some e \<Rightarrow> Inr e | None \<Rightarrow>
                if tool = ''Bash'' then Inr (evaluate_bash (as_str (dget i ''command''))) else Inr ALLOW) = (Inr d :: unit + guard_decision)"
            by (elim exE conjE)
          show thesis by (rule that [OF f unwrap_decision [OF rest]])
        qed
        have bash: "tool = ''Bash'' \<Longrightarrow> ?s = as_str (dget i ''command'')" by (simp add: scan_target_def)
        show ?thesis
        proof (cases ?web)
          case True
          then have tool: "tool \<noteq> ''Bash''" by auto
          note fetch = evaluate_fetch_spec [OF f [unfolded if_P [OF True]]]
          show ?thesis
          proof (cases f)
            case None
            then have "fetch_permitted hk i" using fetch by (auto split: if_splits)
            moreover have "d = ALLOW" using None d tool by simp
            then have "gd_allowed d" by (simp only: allow_allows)
            ultimately show ?thesis using tool env no_sens no_loc ssrf unfolding forbidden_iff guard_search by blast
          next
            case (Some e)
            with fetch have "\<not> fetch_permitted hk i" "\<not> gd_allowed e" by (auto split: if_splits)
            moreover have "d = e" using Some d by simp
            ultimately show ?thesis using True unfolding forbidden_iff by blast
          qed
        next
          case False
          with f have "f = None" by simp
          then have d': "d = (if tool = ''Bash'' then evaluate_bash ?s else ALLOW)" using d bash by simp
          have "gd_allowed d \<longleftrightarrow> \<not> (tool = ''Bash'' \<and> command_forbidden ?s)"
          proof (cases "tool = ''Bash''")
            case True
            then show ?thesis unfolding d' if_P [OF True] evaluate_bash_spec by blast
          next
            case False
            then show ?thesis unfolding d' if_not_P [OF False] by (simp only: allow_allows) blast
          qed
          then show ?thesis using False env no_sens no_loc ssrf unfolding forbidden_iff guard_search by blast
        qed
      qed
    qed
  qed
qed

section \<open>Properties\<close>

lemma decided_first:
  "\<exists>d. r = Inr d \<Longrightarrow>
   \<exists>d. (if a then Inr x else case m of Some e \<Rightarrow> Inr e | None \<Rightarrow>
     case n of Some e \<Rightarrow> Inr e | None \<Rightarrow> if b then Inr y else r) = (Inr d :: unit + guard_decision)"
  by (cases a; cases m; cases n; cases b) auto

lemma decided_then: "\<exists>f. r = Inr f \<Longrightarrow> (\<And>f. \<exists>d. k f = Inr d) \<Longrightarrow> \<exists>d. bind_result r k = Inr d"
  by auto

lemma decided_last:
  "\<exists>d. (case f of Some e \<Rightarrow> Inr e | None \<Rightarrow> if b then Inr x else Inr y) = (Inr d :: unit + guard_decision)"
  by (cases f; cases b) auto

lemma decided_either: "\<exists>f. (if b then Inr x else Inr y) = (Inr f :: unit + guard_decision option)"
  by (cases b) auto

lemma evaluate_total:
  assumes "tool = ''WebFetch'' \<or> tool = ''WebSearch'' \<Longrightarrow> hk_hostname hk (as_str (dget i ''url'')) \<noteq> Inl ()"
  shows "\<exists>d. evaluate hk tool i = Inr d"
proof -
  have fetch: "\<exists>f. evaluate_web_fetch_host hk tool i = Inr f" if web: "tool = ''WebFetch'' \<or> tool = ''WebSearch''"
  proof (cases "webfetch_lockdown_disabled (hk_env hk)")
    case False
    let ?url = "as_str (dget i ''url'')"
    show ?thesis
    proof (cases "?url = []")
      case True
      show ?thesis by (intro exI, rule fetch_hostless [OF False if_P [OF True]])
    next
      case url: False
      obtain known where known: "hk_hostname hk ?url = Inr known"
        using assms [OF web] by (cases "hk_hostname hk ?url") auto
      show ?thesis
      proof (cases known)
        case None
        show ?thesis
          by (intro exI, rule fetch_hostless [OF False trans [OF if_not_P [OF url] known [unfolded None]]])
      next
        case (Some h)
        show ?thesis unfolding fetch_host [OF False url known [unfolded Some]] by (rule decided_either)
      qed
    qed
  qed (simp add: fetch_unlocked)
  show ?thesis
    unfolding evaluate_def Let_def
  proof (intro decided_first decided_then decided_last)
    show "\<exists>f. (if tool = ''WebFetch'' \<or> tool = ''WebSearch'' then evaluate_web_fetch_host hk tool i else Inr None) = Inr f"
    proof (cases "tool = ''WebFetch'' \<or> tool = ''WebSearch''")
      case True
      show ?thesis unfolding if_P [OF True] by (rule fetch [OF True])
    next
      case False
      show ?thesis unfolding if_not_P [OF False] by blast
    qed
  qed
qed

lemma sensitive_is_denied:
  assumes "table_hits SENSITIVE_RULES (scan_target tool i)"
  shows "\<exists>reason. evaluate hk tool i = Inr (deny ''secret-file'' reason)"
proof (cases "env_file_is_secret (scan_target tool i)")
  case True
  show ?thesis unfolding evaluate_def Let_def if_P [OF True] env_file_denied_def by blast
next
  case False
  obtain d where d: "first_match SENSITIVE_RULES (scan_target tool i) = Some d"
    using assms first_match_None [OF rules_regular(1)] by blast
  have "\<forall>rule \<in> set SENSITIVE_RULES. fst (snd rule) = ''secret-file''"
    unfolding SENSITIVE_RULES_def by (simp only: list.set ball_simps fst_conv snd_conv simp_thms)
  with first_match_deny [OF d] have "\<exists>reason. d = deny ''secret-file'' reason" by metis
  moreover have "evaluate hk tool i = Inr d"
    unfolding evaluate_def Let_def if_not_P [OF False] d option.case ..
  ultimately show ?thesis by blast
qed

definition credential_directories :: "string list" where
  "credential_directories = [''ssh'', ''aws'', ''kube'', ''docker'', ''azure'', ''gnupg'', ''gcp'']"

text \<open>
  What may stand before and behind a sensitive token, and a text that names a credential directory.
\<close>

definition token_opener :: "char \<Rightarrow> bool" where
  "token_opener c \<longleftrightarrow> py_space c \<or> c \<in> set (CHR 0x27 # CHR 0x22 # ''=:(,/~|>&'')"

definition token_closer :: "char \<Rightarrow> bool" where
  "token_closer c \<longleftrightarrow> py_space c \<or> c \<in> set (CHR 0x27 # CHR 0x22 # ''=:),/|>&'')"

definition names_credential_directory :: "string \<Rightarrow> bool" where
  "names_credential_directory s \<longleftrightarrow>
     (\<exists>a d b. s = a @ ''.'' @ d @ b \<and> d \<in> set credential_directories \<and>
       (a = [] \<or> token_opener (last a)) \<and> (b = [] \<or> token_closer (hd b)))"

lemma accepts_PRE: "rx_accepts PRE past u rest \<longleftrightarrow> u = [] \<and> past = [] \<or> (\<exists>c. u = [c] \<and> token_opener c)"
  unfolding PRE_def rx_alt.simps rx_accepts.simps token_opener_def class_has_def by simp

lemma accepts_POST: "rx_accepts POST past u rest \<longleftrightarrow> u = [] \<and> at_end rest \<or> (\<exists>c. u = [c] \<and> token_closer c)"
  unfolding POST_def rx_alt.simps rx_accepts.simps token_closer_def class_has_def by simp

lemma accepts_directory:
  "rx_accepts rx_credential_directory past w rest \<longleftrightarrow>
     (\<exists>u d v. w = u @ ''.'' @ d @ v \<and> d \<in> set credential_directories \<and>
       (u = [] \<and> past = [] \<or> (\<exists>c. u = [c] \<and> token_opener c)) \<and> (v = [] \<and> at_end rest \<or> (\<exists>c. v = [c] \<and> token_closer c)))"
proof -
  have last_part: "rx_accepts (rx_alt [rx_char (CHR ''/''), POST]) past' v rest \<longleftrightarrow>
      v = [] \<and> at_end rest \<or> (\<exists>c. v = [c] \<and> token_closer c)" for past' v
    unfolding rx_alt.simps rx_accepts.simps(4) accepts_char accepts_POST by (auto simp: token_closer_def)
  have words: "rx_accepts (rx_words [''ssh'', ''aws'', ''kube'', ''docker'', ''azure'', ''gnupg'', ''gcp'']) past' d rest' \<longleftrightarrow>
      d \<in> set credential_directories" for past' d rest'
    unfolding credential_directories_def by (rule accepts_words) simp
  show ?thesis
    unfolding rx_credential_directory_def rx_seq.simps rx_accepts.simps(3) last_part words accepts_char accepts_PRE
    by (intro iffI; elim exE conjE; hypsubst; intro exI conjI; (assumption | simp)?)
qed

lemma directory_mentioned: "mentions rx_credential_directory s \<longleftrightarrow> names_credential_directory s"
proof
  assume "mentions rx_credential_directory s"
  then obtain a u d v b where s: "s = a @ (u @ ''.'' @ d @ v) @ b" and d: "d \<in> set credential_directories"
    and u: "u = [] \<and> rev a = [] \<or> (\<exists>c. u = [c] \<and> token_opener c)"
    and v: "v = [] \<and> at_end b \<or> (\<exists>c. v = [c] \<and> token_closer c)"
    unfolding mentions_def accepts_directory by blast
  have "a @ u = [] \<or> token_opener (last (a @ u))" using u by auto
  moreover have "token_closer (CHR 0x0A)" by code_simp
  then have "v @ b = [] \<or> token_closer (hd (v @ b))" using v by (auto simp: at_end_def)
  moreover have "s = (a @ u) @ ''.'' @ d @ (v @ b)" by (simp only: s append_assoc)
  ultimately show "names_credential_directory s" using d unfolding names_credential_directory_def by blast
next
  assume "names_credential_directory s"
  then obtain a d b where s: "s = a @ ''.'' @ d @ b" and d: "d \<in> set credential_directories"
    and a: "a = [] \<or> token_opener (last a)" and b: "b = [] \<or> token_closer (hd b)"
    unfolding names_credential_directory_def by blast
  obtain a' u where a': "a = a' @ u" "u = [] \<and> rev a' = [] \<or> (\<exists>c. u = [c] \<and> token_opener c)"
    using a by (cases a rule: rev_cases) auto
  obtain v b' where b': "b = v @ b'" "v = [] \<and> at_end b' \<or> (\<exists>c. v = [c] \<and> token_closer c)"
  proof (cases b)
    case Nil
    then show ?thesis using that [of "[]" "[]"] by (simp add: at_end_def)
  next
    case (Cons c cs)
    then show ?thesis using that [of "[c]" cs] b by simp
  qed
  have "rx_accepts rx_credential_directory (rev a') (u @ ''.'' @ d @ v) b'"
    unfolding accepts_directory using d a'(2) b'(2) by blast
  then have "mentions rx_credential_directory (a' @ (u @ ''.'' @ d @ v) @ b')" by (rule mentions_here)
  then show "mentions rx_credential_directory s" by (simp only: s a'(1) b'(1) append_assoc)
qed

lemma directory_regular: "rx_regular rx_credential_directory"
  by code_simp

lemma directory_hits: "names_credential_directory s \<Longrightarrow> table_hits SENSITIVE_RULES s"
proof -
  assume "names_credential_directory s"
  moreover have "\<exists>c r. (rx_credential_directory, c, r) \<in> set SENSITIVE_RULES"
    unfolding SENSITIVE_RULES_def list.set by blast
  ultimately show ?thesis unfolding table_hits_def directory_mentioned [symmetric] by (metis fst_conv)
qed

definition scanned_keys :: "string \<Rightarrow> string list" where
  "scanned_keys tool =
     (if tool = ''Bash'' then [''command'']
      else if tool = ''WebFetch'' \<or> tool = ''WebSearch'' then WEB_KEYS
      else if tool = ''Grep'' \<or> tool = ''Glob'' then [''path'', ''glob'']
      else if tool \<in> set FILE_TOOL_NAMES then PATH_KEYS
      else PATH_KEYS @ WEB_KEYS @ GLOB_KEYS)"

lemma join_keys_cong:
  "\<forall>k \<in> set keys. as_str (dget i k) = as_str (dget j k) \<Longrightarrow> join_keys i keys = join_keys j keys"
  unfolding join_keys_def by (metis (mono_tags, lifting) map_eq_conv)

lemma scan_target_cong:
  assumes "\<forall>k \<in> set (scanned_keys tool). as_str (dget i k) = as_str (dget j k)"
  shows "scan_target tool i = scan_target tool j"
  using assms unfolding scan_target_def scanned_keys_def
  by (intro if_cong refl join_keys_cong) (simp_all only: if_True if_False list.set ball_simps simp_thms)

lemma fetch_cong:
  "as_str (dget i ''url'') = as_str (dget j ''url'') \<Longrightarrow> evaluate_web_fetch_host hk tool i = evaluate_web_fetch_host hk tool j"
  unfolding evaluate_web_fetch_host_def by (simp only:)
lemma only_then: "\<not> q \<Longrightarrow> ((a \<Longrightarrow> x \<noteq> y) \<Longrightarrow> q) \<Longrightarrow> a \<and> x = y"
  by blast

lemma raised_not_decided: "\<not> (\<exists>d. Inl u = (Inr d :: unit + guard_decision))"
  by simp

text \<open>
  C13. The guard lets a tool call through exactly if nothing forbidden occurs in what it scans: no secret
  \<open>.env\<close> file, no sensitive place, no metadata endpoint, no fetch of a host that is not permitted, and in a
  command no forbidden action; \<open>mentions\<close> is occurrence of a word an expression accepts and knows nothing of a
  search. It raises only where \<open>urlparse\<close> rejects the address of a fetch.
\<close>

theorem guard_is_exact:
  "case evaluate hk tool i of
     Inr d \<Rightarrow> gd_allowed d \<longleftrightarrow> \<not> call_forbidden hk tool i
   | Inl _ \<Rightarrow> (tool = ''WebFetch'' \<or> tool = ''WebSearch'') \<and> hk_hostname hk (as_str (dget i ''url'')) = Inl ()"
proof (cases "evaluate hk tool i")
  case (Inl u)
  have raised: "\<not> (\<exists>d. evaluate hk tool i = Inr d)" unfolding Inl by (rule raised_not_decided)
  show ?thesis unfolding Inl sum.case by (rule only_then [OF raised]) (rule evaluate_total)
next
  case (Inr d)
  show ?thesis unfolding Inr sum.case by (rule evaluate_spec [OF Inr])
qed

definition offline :: host_knowledge where
  "offline = \<lparr>hk_env = [], hk_hostname = (\<lambda>_. Inr None), hk_loopback = (\<lambda>_. None)\<rparr>"

text \<open>
  C14. The rule for credential directories finds exactly the texts that name one of them: \<open>.ssh\<close>, \<open>.aws\<close> and
  so on at the beginning of the text or behind white space, a quote or one of \<open>= : ( , / ~ | > &\<close>, and up to
  the end of the text, white space, a quote or one of \<open>= : ) , / | > &\<close>. A call whose scanned text does so is
  denied as an access to a secret file, whatever the tool, the environment and the rest of the text.
\<close>

theorem credential_directories_are_denied:
  "(rx_search rx_credential_directory (scan_target tool i) \<longleftrightarrow> names_credential_directory (scan_target tool i)) \<and>
   (names_credential_directory (scan_target tool i) \<longrightarrow>
     (\<exists>reason. evaluate hk tool i = Inr (deny ''secret-file'' reason)))"
proof (intro conjI impI)
  show "rx_search rx_credential_directory (scan_target tool i) \<longleftrightarrow> names_credential_directory (scan_target tool i)"
    unfolding search_mentions [OF directory_regular] by (rule directory_mentioned)
  show "\<exists>reason. evaluate hk tool i = Inr (deny ''secret-file'' reason)" if "names_credential_directory (scan_target tool i)"
    using that by (intro sensitive_is_denied directory_hits)
qed

theorem credential_directories_are_denied_witness:
  "\<exists>reason. evaluate offline ''Bash'' [(''command'', JStr ''tar c ~/.ssh'')] = Inr (deny ''secret-file'' reason)"
proof -
  have "scan_target ''Bash'' [(''command'', JStr ''tar c ~/.ssh'')] = ''tar c ~/'' @ ''.'' @ ''ssh'' @ []" by code_simp
  moreover have "token_opener (last ''tar c ~/'')" by (simp add: token_opener_def)
  ultimately have "names_credential_directory (scan_target ''Bash'' [(''command'', JStr ''tar c ~/.ssh'')])"
    unfolding names_credential_directory_def credential_directories_def by (metis list.set_intros(1))
  with credential_directories_are_denied [of "''Bash''" "[(''command'', JStr ''tar c ~/.ssh'')]" offline]
  show ?thesis by blast
qed

text \<open>
  Only the fields the guard reads count: two calls of a tool that agree on them are decided alike. What a
  \<open>Write\<close> writes, the pattern of a \<open>Grep\<close> and the prompt of a \<open>WebFetch\<close> never decide anything.
\<close>

theorem only_scanned_fields_count:
  assumes "\<forall>k \<in> set (scanned_keys tool). as_str (dget i k) = as_str (dget j k)"
  shows "evaluate hk tool i = evaluate hk tool j"
proof -
  note scan = scan_target_cong [OF assms]
  have bash: "as_str (dget i ''command'') = as_str (dget j ''command'')" if "tool = ''Bash''"
    using scan unfolding scan_target_def if_P [OF that] .
  have web: "evaluate_web_fetch_host hk tool i = evaluate_web_fetch_host hk tool j"
    if t: "tool = ''WebFetch'' \<or> tool = ''WebSearch''"
  proof (rule fetch_cong)
    have "tool \<noteq> ''Bash''" using t by auto
    then have "''url'' \<in> set (scanned_keys tool)"
      unfolding scanned_keys_def using t by (simp only: if_True if_False simp_thms) (simp add: WEB_KEYS_def)
    then show "as_str (dget i ''url'') = as_str (dget j ''url'')" using assms by blast
  qed
  have "(if tool = ''WebFetch'' \<or> tool = ''WebSearch'' then evaluate_web_fetch_host hk tool i else Inr None) =
      (if tool = ''WebFetch'' \<or> tool = ''WebSearch'' then evaluate_web_fetch_host hk tool j else Inr None)"
    by (intro if_cong refl web)
  moreover have "(if tool = ''Bash'' then Inr (evaluate_bash (as_str (dget i ''command''))) else Inr ALLOW) =
      (if tool = ''Bash'' then Inr (evaluate_bash (as_str (dget j ''command''))) else Inr ALLOW :: unit + guard_decision)"
    by (intro if_cong refl arg_cong [where f = Inr] arg_cong [where f = evaluate_bash] bash)
  ultimately show ?thesis unfolding evaluate_def Let_def scan by (simp only:)
qed

theorem only_scanned_fields_count_witness:
  "evaluate offline ''Write'' [(''file_path'', JStr ''notes''), (''content'', JStr ''~/.ssh/id_rsa'')] =
   evaluate offline ''Write'' [(''file_path'', JStr ''notes''), (''content'', JStr [])]"
  by (rule only_scanned_fields_count) code_simp

text \<open>
  C15. A command that mentions a loopback name anywhere, be it inside a remote address, is exempt from every
  check for network tools: it is let through unless a rule of the table or the recursive removal applies.
\<close>

theorem loopback_mention_disarms:
  assumes "w \<in> set [''127.0.0.1'', ''localhost'', ''::1'', ''[::1]'', ''0.0.0.0'']"
  shows "gd_allowed (evaluate_bash (a @ w @ b)) \<longleftrightarrow>
    first_match BASH_RULES (a @ w @ b) = None \<and> \<not> rm_hits_root_or_home (a @ w @ b)"
proof -
  have "rx_accepts LOOPBACK (rev a) w b"
    unfolding LOOPBACK_def using assms by (subst accepts_words) (blast, assumption)
  then have loop: "mentions LOOPBACK (a @ w @ b)" by (rule mentions_here)
  have "a @ w @ b \<noteq> []" using assms by auto
  with loop show ?thesis
    unfolding evaluate_bash_spec command_forbidden_def rm_hits_root_or_home_def guard_search
      first_match_None [OF rules_regular(3)] by blast
qed

theorem loopback_mention_disarms_witness:
  "gd_allowed (evaluate_bash (''nc a '' @ ''::1'' @ []))"
proof -
  have "first_match BASH_RULES (''nc a '' @ ''::1'' @ []) = None" by code_simp
  moreover have "\<not> rm_hits_root_or_home (''nc a '' @ ''::1'' @ [])" by code_simp
  moreover have "''::1'' \<in> set [''127.0.0.1'', ''localhost'', ''::1'', ''[::1]'', ''0.0.0.0'']" by simp
  ultimately show ?thesis by (simp only: loopback_mention_disarms simp_thms)
qed

end
