(* ===== verification/Responses_Tools.thy ===== *)
theory Responses_Tools
  imports Conversion Regex
begin

text \<open>
  \<open>core/openai_responses/tools.py\<close> with \<open>ids.py\<close>: the tools of a Responses request as tools of the
  Messages API, the name a tool has there, and the way back from such a name to the client's tool; the
  arguments of a call. \<open>json\<close>, \<open>sha1\<close>, \<open>uuid4\<close>, \<open>str()\<close> of a decoded value and the tokenizer are the
  fields of \<open>responses_env\<close>. The text of an error message is left out.
\<close>

record responses_env =
  rs_loads :: "string \<Rightarrow> json option"
  rs_dumps :: "json \<Rightarrow> string"
  rs_dumps_compact :: "json \<Rightarrow> string"
  rs_str :: "json \<Rightarrow> string"
  rs_sha1 :: "string \<Rightarrow> string"
  rs_uuid :: "nat \<Rightarrow> string"
  rs_encoder :: "(string \<Rightarrow> nat) option"

text \<open>
  Each \<open>raise\<close> of a \<open>ResponsesConversionError\<close>. \<open>Unhashable_Type\<close> is the \<open>TypeError\<close> of testing a list or
  an object for membership in a set, which is none.
\<close>

datatype responses_error =
  Tools_Not_List
| Unsupported_Tool
| Unsupported_Tool_Type json
| Unhashable_Type
| Unsupported_Tool_Choice
| Missing_Field string
| Arguments_Not_Json
| Arguments_Invalid
| Arguments_Not_Object
| Parameters_Not_Object
| Namespace_Tools_Not_List
| Unsupported_Namespace_Tool
| Unsupported_Namespace_Tool_Type json
| Unsupported_Item
| Unsupported_Item_Type json
| Unsupported_Role string
| Unsupported_Part
| Unsupported_Part_Type json
| Unsupported_Content
| No_Message

section \<open>Small readers\<close>

fun optional_str :: "json \<Rightarrow> string option" where
  "optional_str (JStr s) = Some s"
| "optional_str _ = None"

definition required_str :: "json \<Rightarrow> string \<Rightarrow> responses_error + string" where
  "required_str j field_name =
     (case j of JStr s \<Rightarrow> if s \<noteq> [] then Inr s else Inl (Missing_Field field_name)
      | _ \<Rightarrow> Inl (Missing_Field field_name))"

text \<open>\<open>j in {...}\<close> for a set of strings.\<close>

definition in_strings :: "json \<Rightarrow> string list \<Rightarrow> responses_error + bool" where
  "in_strings j ws =
     (case j of JArr _ \<Rightarrow> Inl Unhashable_Type | JObj _ \<Rightarrow> Inl Unhashable_Type
      | JStr s \<Rightarrow> Inr (s \<in> set ws) | _ \<Rightarrow> Inr False)"

section \<open>Ids\<close>

definition new_response_id :: "string \<Rightarrow> string" where
  "new_response_id hex = ''resp_'' @ hex"

definition new_message_item_id :: "string \<Rightarrow> string" where
  "new_message_item_id hex = ''msg_'' @ hex"

definition new_reasoning_item_id :: "string \<Rightarrow> string" where
  "new_reasoning_item_id hex = ''rs_'' @ hex"

definition new_call_id :: "string \<Rightarrow> string" where
  "new_call_id hex = ''call_'' @ take 24 hex"

text \<open>The id of a call and whether a fresh one was drawn.\<close>

definition call_id_from_item :: "string \<Rightarrow> (string, json) dict \<Rightarrow> string \<times> bool" where
  "call_id_from_item hex item =
     (case optional_str (jget item ''call_id'') of
        Some (c # cs) \<Rightarrow> (c # cs, False)
      | _ \<Rightarrow>
          (case optional_str (jget item ''id'') of
             Some (c # cs) \<Rightarrow> (c # cs, False)
           | _ \<Rightarrow> (new_call_id hex, True)))"

section \<open>Names\<close>

datatype tool_kind = Function_Tool | Custom_Tool

record tool_identity =
  ti_kind :: tool_kind
  ti_name :: string
  ti_namespace :: "string option"

definition INVALID_TOOL_NAME_CHARS :: rx where
  "INVALID_TOOL_NAME_CHARS =
     Rx_Rep True 1 None (Rx_Set False [Upto (CHR ''A'') (CHR ''Z''), Upto (CHR ''a'') (CHR ''z''),
       Upto (CHR ''0'') (CHR ''9''), One (CHR ''_''), One (CHR ''-'')])"

definition strip_underscores :: "string \<Rightarrow> string" where
  "strip_underscores s =
     rev (dropWhile (\<lambda>c. c = CHR ''_'') (rev (dropWhile (\<lambda>c. c = CHR ''_'') s)))"

definition tool_name_part :: "string \<Rightarrow> string" where
  "tool_name_part v =
     (let normalized = strip_underscores (rx_sub INVALID_TOOL_NAME_CHARS (\<lambda>_. ''_'') v) in
      if normalized = [] then ''tool'' else normalized)"

definition NAMESPACE_TOOL_SEPARATOR :: string where
  "NAMESPACE_TOOL_SEPARATOR = ''__''"

definition MAX_ANTHROPIC_TOOL_NAME_LEN :: nat where
  "MAX_ANTHROPIC_TOOL_NAME_LEN = 64"

definition responses_tool_name_to_anthropic_name ::
  "responses_env \<Rightarrow> string \<Rightarrow> string option \<Rightarrow> string" where
  "responses_tool_name_to_anthropic_name env name namespace =
     (if \<not> truthy namespace then name
      else
        (let combined = tool_name_part (the namespace) @ NAMESPACE_TOOL_SEPARATOR @ tool_name_part name in
         if length combined \<le> MAX_ANTHROPIC_TOOL_NAME_LEN then combined
         else
           (let digest = take 8 (rs_sha1 env combined) in
            take (MAX_ANTHROPIC_TOOL_NAME_LEN - length digest - 1) combined @ ''_'' @ digest)))"

section \<open>The tool a name stands for\<close>

definition custom_source :: "(string, json) dict \<Rightarrow> (string, json) dict" where
  "custom_source tool = (case jget tool ''custom'' of JObj d \<Rightarrow> d | _ \<Rightarrow> tool)"

definition function_source :: "(string, json) dict \<Rightarrow> (string, json) dict" where
  "function_source tool = (case jget tool ''function'' of JObj d \<Rightarrow> d | _ \<Rightarrow> tool)"

text \<open>One function or custom tool, at the top level or in a namespace.\<close>

definition named_tool ::
  "responses_env \<Rightarrow> string \<Rightarrow> string option \<Rightarrow> (string, json) dict \<Rightarrow> tool_identity option" where
  "named_tool env anthropic_name namespace tool =
     (let found = (\<lambda>kind source.
        (case optional_str (jget source ''name'') of
           Some name \<Rightarrow>
             if name \<noteq> [] \<and> responses_tool_name_to_anthropic_name env name namespace = anthropic_name
             then Some \<lparr>ti_kind = kind, ti_name = name, ti_namespace = namespace\<rparr> else None
         | None \<Rightarrow> None))
      in if jget tool ''type'' = JStr ''function'' then found Function_Tool (function_source tool)
         else if jget tool ''type'' = JStr ''custom'' then found Custom_Tool (custom_source tool)
         else None)"

fun nested_tool :: "responses_env \<Rightarrow> string \<Rightarrow> string \<Rightarrow> json list \<Rightarrow> tool_identity option" where
  "nested_tool env anthropic_name namespace [] = None"
| "nested_tool env anthropic_name namespace (JObj tool # tools) =
     (case named_tool env anthropic_name (Some namespace) tool of
        Some t \<Rightarrow> Some t
      | None \<Rightarrow> nested_tool env anthropic_name namespace tools)"
| "nested_tool env anthropic_name namespace (_ # tools) = nested_tool env anthropic_name namespace tools"

definition tool_of_entry :: "responses_env \<Rightarrow> string \<Rightarrow> (string, json) dict \<Rightarrow> tool_identity option" where
  "tool_of_entry env anthropic_name tool =
     (if jget tool ''type'' = JStr ''namespace'' then
        (case (optional_str (jget tool ''name''), jget tool ''tools'') of
           (Some namespace, JArr nested) \<Rightarrow>
             if namespace \<noteq> [] then nested_tool env anthropic_name namespace nested else None
         | _ \<Rightarrow> None)
      else named_tool env anthropic_name None tool)"

fun tool_in_list :: "responses_env \<Rightarrow> string \<Rightarrow> json list \<Rightarrow> tool_identity option" where
  "tool_in_list env anthropic_name [] = None"
| "tool_in_list env anthropic_name (JObj tool # tools) =
     (case tool_of_entry env anthropic_name tool of
        Some t \<Rightarrow> Some t
      | None \<Rightarrow> tool_in_list env anthropic_name tools)"
| "tool_in_list env anthropic_name (_ # tools) = tool_in_list env anthropic_name tools"

definition responses_tool_identity_from_anthropic_name ::
  "responses_env \<Rightarrow> json list option \<Rightarrow> string \<Rightarrow> tool_identity" where
  "responses_tool_identity_from_anthropic_name env tools anthropic_name =
     (let unknown = \<lparr>ti_kind = Function_Tool, ti_name = anthropic_name, ti_namespace = None\<rparr> in
      case tools of
        None \<Rightarrow> unknown
      | Some ts \<Rightarrow> (case tool_in_list env anthropic_name ts of Some t \<Rightarrow> t | None \<Rightarrow> unknown))"

section \<open>Arguments of a call\<close>

definition parse_arguments :: "responses_env \<Rightarrow> json \<Rightarrow> responses_error + (string, json) dict" where
  "parse_arguments env v =
     (if v = JNull \<or> v = JStr [] then Inr []
      else
        (case v of
           JObj d \<Rightarrow> Inr d
         | JStr s \<Rightarrow>
             (case rs_loads env s of
                None \<Rightarrow> Inl Arguments_Invalid
              | Some (JObj d) \<Rightarrow> Inr d
              | Some _ \<Rightarrow> Inl Arguments_Not_Object)
         | _ \<Rightarrow> Inl Arguments_Not_Json))"

definition normalized_function_call_arguments :: "responses_env \<Rightarrow> json \<Rightarrow> responses_error + string" where
  "normalized_function_call_arguments env v =
     bind_result (parse_arguments env v) (\<lambda>d. Inr (rs_dumps_compact env (JObj d)))"

definition custom_tool_input_text :: "responses_env \<Rightarrow> json \<Rightarrow> string" where
  "custom_tool_input_text env v =
     (case v of JNull \<Rightarrow> [] | JStr s \<Rightarrow> s | _ \<Rightarrow> rs_dumps env v)"

definition custom_tool_input_to_anthropic :: "responses_env \<Rightarrow> json \<Rightarrow> json" where
  "custom_tool_input_to_anthropic env v = JObj [(''input'', JStr (custom_tool_input_text env v))]"

definition custom_tool_input_text_from_anthropic :: "responses_env \<Rightarrow> json \<Rightarrow> string" where
  "custom_tool_input_text_from_anthropic env v =
     (case v of
        JObj d \<Rightarrow>
          (case jget d ''input'' of
             JStr s \<Rightarrow> s
           | JNull \<Rightarrow> if d = [] then [] else rs_dumps env v
           | raw \<Rightarrow> custom_tool_input_text env raw)
      | _ \<Rightarrow> custom_tool_input_text env v)"

definition custom_tool_input_text_from_arguments :: "responses_env \<Rightarrow> string \<Rightarrow> string" where
  "custom_tool_input_text_from_arguments env arguments =
     (if arguments = [] then []
      else
        (case rs_loads env arguments of
           None \<Rightarrow> arguments
         | Some parsed \<Rightarrow> custom_tool_input_text_from_anthropic env parsed))"

section \<open>Tools of a request\<close>

definition described :: "string option \<Rightarrow> (string, json) dict \<Rightarrow> (string, json) dict" where
  "described d tool = (if truthy d then dset ''description'' (JStr (the d)) tool else tool)"

definition responses_function_tool ::
  "responses_env \<Rightarrow> (string, json) dict \<Rightarrow> string option \<Rightarrow> responses_error + json" where
  "responses_function_tool env tool namespace =
     (let source = function_source tool in
      bind_result (required_str (jget source ''name'') ''tool.name'') (\<lambda>name.
        bind_result
          (case jget source ''parameters'' of
             JNull \<Rightarrow> Inr [(''type'', JStr ''object''), (''properties'', JObj [])]
           | JObj d \<Rightarrow> Inr d
           | _ \<Rightarrow> Inl Parameters_Not_Object)
          (\<lambda>schema. Inr (JObj (described (optional_str (jget source ''description''))
            [(''name'', JStr (responses_tool_name_to_anthropic_name env name namespace)),
             (''input_schema'', JObj schema)])))))"

definition grammar_guidance :: "(string, json) dict \<Rightarrow> string" where
  "grammar_guidance f =
     (let syn = optional_str (jget f ''syntax''); def = optional_str (jget f ''definition'');
          guidance = ''Custom tool input format: grammar'' @
            (if truthy syn then '' ('' @ the syn @ '')'' else [])
      in if truthy def then guidance @ '': '' @ the def else guidance @ ''.'')"

definition format_guidance :: "responses_env \<Rightarrow> (string, json) dict \<Rightarrow> string" where
  "format_guidance env f =
     (let format_type = optional_str (jget f ''type'') in
      if format_type = Some ''text'' then ''Custom tool input format: unconstrained text.''
      else if format_type = Some ''grammar'' then grammar_guidance f
      else if truthy format_type then ''Custom tool input format: '' @ the format_type @ ''.''
      else ''Custom tool input format: '' @ rs_dumps env (JObj f))"

definition custom_tool_description :: "responses_env \<Rightarrow> (string, json) dict \<Rightarrow> string option" where
  "custom_tool_description env source =
     (let description = optional_str (jget source ''description'');
          parts = (if truthy description then [the description] else []) @
            (case jget source ''format'' of JObj f \<Rightarrow> [format_guidance env f] | _ \<Rightarrow> [])
      in if parts = [] then None else Some (join (newline @ newline) parts))"

definition responses_custom_tool ::
  "responses_env \<Rightarrow> (string, json) dict \<Rightarrow> string option \<Rightarrow> responses_error + json" where
  "responses_custom_tool env tool namespace =
     (let source = custom_source tool in
      bind_result (required_str (jget source ''name'') ''tool.name'') (\<lambda>name.
        Inr (JObj (described (custom_tool_description env source)
          [(''name'', JStr (responses_tool_name_to_anthropic_name env name namespace)),
           (''input_schema'', JObj
             [(''type'', JStr ''object''),
              (''properties'', JObj
                [(''input'', JObj
                   [(''type'', JStr ''string''),
                    (''description'', JStr ''Free-form input for the custom tool.'')])]),
              (''required'', JArr [JStr ''input''])])]))))"

definition convert_nested_tool :: "responses_env \<Rightarrow> string \<Rightarrow> json \<Rightarrow> responses_error + json" where
  "convert_nested_tool env namespace j =
     (case j of
        JObj nested \<Rightarrow>
          (if jget nested ''type'' = JStr ''function'' then responses_function_tool env nested (Some namespace)
           else if jget nested ''type'' = JStr ''custom'' then responses_custom_tool env nested (Some namespace)
           else Inl (Unsupported_Namespace_Tool_Type (jget nested ''type'')))
      | _ \<Rightarrow> Inl Unsupported_Namespace_Tool)"

definition convert_namespace_tool :: "responses_env \<Rightarrow> (string, json) dict \<Rightarrow> responses_error + json list" where
  "convert_namespace_tool env tool =
     bind_result (required_str (jget tool ''name'') ''tool.namespace.name'') (\<lambda>namespace.
       case jget tool ''tools'' of
         JArr nested \<Rightarrow> map_result (convert_nested_tool env namespace) nested
       | _ \<Rightarrow> Inl Namespace_Tools_Not_List)"

definition UNSUPPORTED_PASSIVE_TOOL_TYPES :: "string list" where
  "UNSUPPORTED_PASSIVE_TOOL_TYPES = [''web_search'', ''image_generation'', ''tool_search'']"

definition convert_responses_tool :: "responses_env \<Rightarrow> json \<Rightarrow> responses_error + json list" where
  "convert_responses_tool env j =
     (case j of
        JObj tool \<Rightarrow>
          (let t = jget tool ''type'' in
           if t = JStr ''function'' then bind_result (responses_function_tool env tool None) (\<lambda>c. Inr [c])
           else if t = JStr ''custom'' then bind_result (responses_custom_tool env tool None) (\<lambda>c. Inr [c])
           else if t = JStr ''namespace'' then convert_namespace_tool env tool
           else bind_result (in_strings t UNSUPPORTED_PASSIVE_TOOL_TYPES) (\<lambda>passive.
             if passive then Inr [] else Inl (Unsupported_Tool_Type t)))
      | _ \<Rightarrow> Inl Unsupported_Tool)"

definition convert_responses_tools :: "responses_env \<Rightarrow> json \<Rightarrow> responses_error + json list option" where
  "convert_responses_tools env v =
     (case v of
        JNull \<Rightarrow> Inr None
      | JArr tools \<Rightarrow>
          bind_result (map_result (convert_responses_tool env) tools) (\<lambda>cs. Inr (Some (concat cs)))
      | _ \<Rightarrow> Inl Tools_Not_List)"

definition chosen_tool :: "responses_env \<Rightarrow> string \<Rightarrow> string option \<Rightarrow> json" where
  "chosen_tool env name namespace =
     JObj [(''type'', JStr ''tool''), (''name'', JStr (responses_tool_name_to_anthropic_name env name namespace))]"

definition first_truthy :: "string option \<Rightarrow> string option \<Rightarrow> string option" where
  "first_truthy a b = (if truthy a then a else b)"

definition convert_responses_tool_choice :: "responses_env \<Rightarrow> json \<Rightarrow> responses_error + json option" where
  "convert_responses_tool_choice env v =
     (if v = JNull \<or> v = JStr ''auto'' \<or> v = JStr ''none'' then Inr None
      else if v = JStr ''required'' then Inr (Some (JObj [(''type'', JStr ''any'')]))
      else
        (case v of
           JObj d \<Rightarrow>
             (let t = jget d ''type'' in
              if t = JStr ''function'' then
                bind_result (required_str (jget d ''name'') ''tool_choice.name'') (\<lambda>name.
                  Inr (Some (chosen_tool env name (optional_str (jget d ''namespace'')))))
              else if t = JStr ''custom'' then
                (let source = custom_source d in
                 bind_result (required_str (jget source ''name'') ''tool_choice.name'') (\<lambda>name.
                   Inr (Some (chosen_tool env name
                     (first_truthy (optional_str (jget source ''namespace'')) (optional_str (jget d ''namespace'')))))))
              else if t = JStr ''tool'' then
                (let name = optional_str (jget d ''name'') in
                 if truthy name then Inr (Some (chosen_tool env (the name) (optional_str (jget d ''namespace''))))
                 else Inr (Some (JObj d)))
              else bind_result (in_strings t [''auto'', ''any'']) (\<lambda>known.
                if known then Inr (Some (JObj d)) else Inl Unsupported_Tool_Choice))
         | _ \<Rightarrow> Inl Unsupported_Tool_Choice))"

end
