(* ===== verification/Responses_Input.thy ===== *)
theory Responses_Input
  imports Responses_Tools Tool_Schema
begin

text \<open>
  \<open>core/openai_responses/input.py\<close> and \<open>reasoning.py\<close>: a Responses request as the payload of a Messages
  request. The loop over the input items carries the messages so far, the system parts, the reasoning that
  waits for its message, the ids of calls whose arguments could not be read, and the number of ids drawn.
  A message is the dictionary the code builds; a message that is changed in place is the last of the list.
\<close>

record responses_request =
  rsq_model :: string
  rsq_input :: json
  rsq_instructions :: "string option"
  rsq_tools :: "json list option"
  rsq_tool_choice :: json
  rsq_parallel_tool_calls :: "bool option"
  rsq_temperature :: json
  rsq_top_p :: json
  rsq_max_output_tokens :: "int option"
  rsq_metadata :: json
  rsq_reasoning :: json

section \<open>Reasoning\<close>

fun text_parts_of :: "string \<Rightarrow> json list \<Rightarrow> string list" where
  "text_parts_of item_type [] = []"
| "text_parts_of item_type (JObj d # items) =
     (if jget d ''type'' = JStr item_type
      then (case optional_str (jget d ''text'') of Some t \<Rightarrow> [t] | None \<Rightarrow> []) @ text_parts_of item_type items
      else text_parts_of item_type items)"
| "text_parts_of item_type (_ # items) = text_parts_of item_type items"

definition text_parts_from_items :: "json \<Rightarrow> string \<Rightarrow> string list" where
  "text_parts_from_items v item_type = (case v of JArr items \<Rightarrow> text_parts_of item_type items | _ \<Rightarrow> [])"

definition reasoning_text_from_item :: "(string, json) dict \<Rightarrow> string option" where
  "reasoning_text_from_item item =
     (let content_parts = text_parts_from_items (jget item ''content'') ''reasoning_text'';
          summary_parts = text_parts_from_items (jget item ''summary'') ''summary_text''
      in if content_parts \<noteq> [] then Some (join newline content_parts)
         else if summary_parts \<noteq> [] then Some (join newline summary_parts)
         else None)"

definition encrypted_reasoning_from_item :: "(string, json) dict \<Rightarrow> string option" where
  "encrypted_reasoning_from_item item = optional_str (jget item ''encrypted_content'')"

definition combine_reasoning :: "string option \<Rightarrow> string option \<Rightarrow> string option" where
  "combine_reasoning existing addition =
     (case addition of
        None \<Rightarrow> existing
      | Some a \<Rightarrow>
          (case existing of
             None \<Rightarrow> addition
           | Some e \<Rightarrow> if e = [] then addition else if a = [] then existing else Some (e @ newline @ a)))"

definition responses_reasoning_to_output_config :: "json \<Rightarrow> json option" where
  "responses_reasoning_to_output_config v =
     (case v of
        JObj d \<Rightarrow>
          (case jget d ''effort'' of
             JStr e \<Rightarrow>
               if py_strip e \<noteq> [] then Some (JObj [(''effort'', JStr (py_lower (py_strip e)))]) else None
           | _ \<Rightarrow> None)
      | _ \<Rightarrow> None)"

section \<open>Content\<close>

definition text_from_part :: "(string, json) dict \<Rightarrow> string" where
  "text_from_part part =
     (let read = (\<lambda>k. optional_str (jget part k)) in
      if truthy (read ''text'') then the (read ''text'')
      else if truthy (read ''input_text'') then the (read ''input_text'')
      else if truthy (read ''output_text'') then the (read ''output_text'')
      else [])"

definition text_block_json :: "string \<Rightarrow> json" where
  "text_block_json t = JObj [(''type'', JStr ''text''), (''text'', JStr t)]"

definition TEXT_PART_TYPES :: "string list" where
  "TEXT_PART_TYPES = [''input_text'', ''output_text'', ''text'']"

definition get_or :: "(string, json) dict \<Rightarrow> string \<Rightarrow> string \<Rightarrow> json" where
  "get_or d k other = (case dget d k of None \<Rightarrow> JStr other | Some v \<Rightarrow> v)"

definition convert_content_part :: "responses_env \<Rightarrow> json \<Rightarrow> responses_error + json" where
  "convert_content_part env part =
     (case part of
        JStr s \<Rightarrow> Inr (text_block_json s)
      | JObj d \<Rightarrow>
          (let t = jget d ''type'' in
           bind_result (in_strings t TEXT_PART_TYPES) (\<lambda>is_text.
             if is_text \<or> dget d ''text'' \<noteq> None then Inr (text_block_json (text_from_part d))
             else if t = JStr ''refusal'' then Inr (text_block_json (py_str (rs_str env) (get_or d ''refusal'' [])))
             else Inl (Unsupported_Part_Type t)))
      | _ \<Rightarrow> Inl Unsupported_Part)"

definition convert_message_content :: "responses_env \<Rightarrow> json \<Rightarrow> responses_error + json" where
  "convert_message_content env content =
     (case content of
        JStr s \<Rightarrow> Inr (JStr s)
      | JArr parts \<Rightarrow> bind_result (map_result (convert_content_part env) parts) (\<lambda>blocks. Inr (JArr blocks))
      | JObj d \<Rightarrow> Inr (JArr [text_block_json (text_from_part d)])
      | _ \<Rightarrow> Inl Unsupported_Content)"

fun block_text :: "responses_env \<Rightarrow> json \<Rightarrow> string" where
  "block_text env (JObj d) = py_str (rs_str env) (get_or d ''text'' [])"
| "block_text env _ = []"

definition content_as_text :: "responses_env \<Rightarrow> json \<Rightarrow> responses_error + string" where
  "content_as_text env content =
     bind_result (convert_message_content env content) (\<lambda>converted.
       Inr (case converted of
              JStr s \<Rightarrow> s
            | JArr blocks \<Rightarrow> join newline (map (block_text env) blocks)
            | _ \<Rightarrow> []))"

section \<open>Messages so far\<close>

type_synonym message = "(string, json) dict"

record input_state =
  in_messages :: "message list"
  in_system :: "string list"
  in_reasoning :: "string option"
  in_encrypted :: "string list"
  in_quarantined :: "string list"
  in_drawn :: nat

definition pending_add_item :: "(string, json) dict \<Rightarrow> input_state \<Rightarrow> input_state" where
  "pending_add_item item st =
     (let enc = encrypted_reasoning_from_item item in
      st\<lparr>in_reasoning := combine_reasoning (in_reasoning st) (reasoning_text_from_item item),
         in_encrypted := in_encrypted st @ (if truthy enc then [the enc] else [])\<rparr>)"

definition redacted_block :: "string \<Rightarrow> json" where
  "redacted_block enc = JObj [(''type'', JStr ''redacted_thinking''), (''data'', JStr enc)]"

definition pending_take :: "input_state \<Rightarrow> (string option \<times> json list) \<times> input_state" where
  "pending_take st =
     ((in_reasoning st, map redacted_block (in_encrypted st)), st\<lparr>in_reasoning := None, in_encrypted := []\<rparr>)"

definition reasoning_field :: "string option \<Rightarrow> message \<Rightarrow> message" where
  "reasoning_field r m = (case r of None \<Rightarrow> m | Some t \<Rightarrow> dset ''reasoning_content'' (JStr t) m)"

definition append_message :: "message \<Rightarrow> input_state \<Rightarrow> input_state" where
  "append_message m st = st\<lparr>in_messages := in_messages st @ [m]\<rparr>"

definition append_pending_reasoning :: "input_state \<Rightarrow> input_state" where
  "append_pending_reasoning st =
     (let ((reasoning_text, blocks), st') = pending_take st in
      if reasoning_text = None \<and> blocks = [] then st'
      else append_message (reasoning_field reasoning_text
        [(''role'', JStr ''assistant''), (''content'', if blocks = [] then JStr [] else JArr blocks)]) st')"

definition message_blocks :: "message \<Rightarrow> json list" where
  "message_blocks m = (case jget m ''content'' of JArr blocks \<Rightarrow> blocks | _ \<Rightarrow> [])"

fun block_type :: "json \<Rightarrow> json" where
  "block_type (JObj d) = jget d ''type''"
| "block_type _ = JNull"

definition is_tool_use_message :: "message \<Rightarrow> bool" where
  "is_tool_use_message m \<longleftrightarrow>
     jget m ''role'' = JStr ''assistant'' \<and> JStr ''tool_use'' \<in> set (map block_type (message_blocks m)) \<and>
     list_all (\<lambda>b. block_type b \<in> set (map JStr [''redacted_thinking'', ''thinking'', ''tool_use'']))
       (message_blocks m)"

definition is_tool_result_message :: "message \<Rightarrow> bool" where
  "is_tool_result_message m \<longleftrightarrow>
     jget m ''role'' = JStr ''user'' \<and> message_blocks m \<noteq> [] \<and>
     list_all (\<lambda>b. block_type b = JStr ''tool_result'') (message_blocks m)"

text \<open>\<open>_last_assistant_tool_use_message\<close> and \<open>_last_user_tool_result_message\<close> find the last message or nothing.\<close>

definition last_is :: "(message \<Rightarrow> bool) \<Rightarrow> input_state \<Rightarrow> bool" where
  "last_is p st \<longleftrightarrow> in_messages st \<noteq> [] \<and> p (last (in_messages st))"

definition change_last :: "(message \<Rightarrow> message) \<Rightarrow> input_state \<Rightarrow> input_state" where
  "change_last f st = st\<lparr>in_messages := butlast (in_messages st) @ [f (last (in_messages st))]\<rparr>"

definition merge_message_reasoning :: "string \<Rightarrow> message \<Rightarrow> message" where
  "merge_message_reasoning reasoning m =
     reasoning_field (combine_reasoning (optional_str (jget m ''reasoning_content'')) (Some reasoning)) m"

definition change_content :: "(json list \<Rightarrow> json list) \<Rightarrow> message \<Rightarrow> message" where
  "change_content f m =
     (case jget m ''content'' of JArr blocks \<Rightarrow> dset ''content'' (JArr (f blocks)) m | _ \<Rightarrow> m)"

definition prepend_reasoning_blocks :: "json list \<Rightarrow> message \<Rightarrow> message" where
  "prepend_reasoning_blocks blocks m = (if blocks = [] then m else change_content (\<lambda>bs. blocks @ bs) m)"

text \<open>The reasoning that waits goes into the last message.\<close>

definition reasoning_into_last :: "input_state \<Rightarrow> input_state" where
  "reasoning_into_last st =
     (let ((reasoning_text, blocks), st') = pending_take st in
      change_last (\<lambda>m. prepend_reasoning_blocks blocks
        (case reasoning_text of None \<Rightarrow> m | Some t \<Rightarrow> merge_message_reasoning t m)) st')"

definition append_reasoning_before_output :: "input_state \<Rightarrow> input_state" where
  "append_reasoning_before_output st =
     (if in_reasoning st = None \<and> in_encrypted st = [] then st
      else if last_is is_tool_use_message st then reasoning_into_last st
      else append_pending_reasoning st)"

definition append_tool_use_message :: "json \<Rightarrow> input_state \<Rightarrow> input_state" where
  "append_tool_use_message tool_use st =
     (let st' = (if last_is is_tool_use_message st then st
                 else append_message [(''role'', JStr ''assistant''), (''content'', JArr [])] st)
      in change_last (change_content (\<lambda>bs. bs @ [tool_use])) (reasoning_into_last st'))"

definition append_tool_result_message :: "json \<Rightarrow> input_state \<Rightarrow> input_state" where
  "append_tool_result_message tool_result st =
     (let st' = (if last_is is_tool_result_message st then st
                 else append_message [(''role'', JStr ''user''), (''content'', JArr [])] st)
      in change_last (change_content (\<lambda>bs. bs @ [tool_result])) st')"

section \<open>Items\<close>

text \<open>The content of an assistant message behind the reasoning blocks that precede it.\<close>

definition with_reasoning_blocks :: "json list \<Rightarrow> json \<Rightarrow> json" where
  "with_reasoning_blocks blocks converted =
     (if blocks = [] then converted
      else
        (case converted of
           JStr s \<Rightarrow> JArr (blocks @ (if s \<noteq> [] then [text_block_json s] else []))
         | JArr bs \<Rightarrow> JArr (blocks @ bs)
         | _ \<Rightarrow> converted))"

definition append_message_item ::
  "responses_env \<Rightarrow> string \<Rightarrow> json \<Rightarrow> bool \<Rightarrow> input_state \<Rightarrow> responses_error + input_state" where
  "append_message_item env role content takes_reasoning st =
     (let normalized = (if role = ''developer'' then ''system'' else role) in
      if normalized = ''system'' then
        bind_result (content_as_text env content) (\<lambda>t.
          Inr (if t \<noteq> [] then st\<lparr>in_system := in_system st @ [t]\<rparr> else st))
      else if normalized \<noteq> ''user'' \<and> normalized \<noteq> ''assistant'' then Inl (Unsupported_Role role)
      else
        bind_result (convert_message_content env content) (\<lambda>converted.
          let ((reasoning_text, blocks), st') =
            (if normalized = ''assistant'' \<and> takes_reasoning then pending_take st else ((None, []), st))
          in Inr (append_message (reasoning_field reasoning_text
               [(''role'', JStr normalized), (''content'', with_reasoning_blocks blocks converted)]) st')))"

definition draw_id :: "responses_env \<Rightarrow> (string, json) dict \<Rightarrow> input_state \<Rightarrow> string \<times> input_state" where
  "draw_id env item st =
     (let (call_id, fresh) = call_id_from_item (rs_uuid env (in_drawn st)) item
      in (call_id, if fresh then st\<lparr>in_drawn := in_drawn st + 1\<rparr> else st))"

definition tool_use_block :: "string \<Rightarrow> string \<Rightarrow> json \<Rightarrow> json" where
  "tool_use_block call_id name input =
     JObj [(''type'', JStr ''tool_use''), (''id'', JStr call_id), (''name'', JStr name), (''input'', input)]"

definition tool_result_json :: "string \<Rightarrow> json \<Rightarrow> json" where
  "tool_result_json call_id content =
     JObj [(''type'', JStr ''tool_result''), (''tool_use_id'', JStr call_id), (''content'', content)]"

definition append_call ::
  "responses_env \<Rightarrow> string \<Rightarrow> (string, json) dict \<Rightarrow> input_state \<Rightarrow> responses_error + input_state" where
  "append_call env item_type item st =
     bind_result (required_str (jget item ''name'') (item_type @ ''.name'')) (\<lambda>name.
       let (call_id, st') = draw_id env item st;
           use = (\<lambda>input. Inr (append_tool_use_message (tool_use_block call_id
             (responses_tool_name_to_anthropic_name env name (optional_str (jget item ''namespace''))) input) st'))
       in if item_type = ''custom_tool_call'' then use (custom_tool_input_to_anthropic env (jget item ''input''))
          else
            (case parse_arguments env (jget item ''arguments'') of
               Inl _ \<Rightarrow> Inr (st'\<lparr>in_quarantined := in_quarantined st' @ [call_id]\<rparr>)
             | Inr d \<Rightarrow> use (JObj d)))"

definition append_output ::
  "responses_env \<Rightarrow> string \<Rightarrow> (string, json) dict \<Rightarrow> input_state \<Rightarrow> input_state" where
  "append_output env item_type item st =
     (let (call_id, st') = draw_id env item st in
      if item_type = ''function_call_output'' \<and> call_id \<in> set (in_quarantined st') then st'
      else append_tool_result_message (tool_result_json call_id (get_or item ''output'' []))
        (append_reasoning_before_output st'))"

definition append_role_item ::
  "responses_env \<Rightarrow> (string, json) dict \<Rightarrow> input_state \<Rightarrow> responses_error + input_state" where
  "append_role_item env item st =
     bind_result (required_str (get_or item ''role'' ''user'') ''input.role'') (\<lambda>role.
       if role = ''assistant'' then append_message_item env role (get_or item ''content'' []) True st
       else append_message_item env role (get_or item ''content'' []) False (append_pending_reasoning st))"

definition user_message :: "string \<Rightarrow> message" where
  "user_message s = [(''role'', JStr ''user''), (''content'', JStr s)]"

definition append_object_item ::
  "responses_env \<Rightarrow> (string, json) dict \<Rightarrow> input_state \<Rightarrow> responses_error + input_state" where
  "append_object_item env item st =
     (let t = jget item ''type'' in
      if t = JNull \<or> t = JStr ''message'' \<or> dget item ''role'' \<noteq> None then append_role_item env item st
      else
        (case t of
           JStr s \<Rightarrow>
             (if s = ''function_call'' \<or> s = ''custom_tool_call'' then append_call env s item st
              else if s = ''function_call_output'' \<or> s = ''custom_tool_call_output''
              then Inr (append_output env s item st)
              else if s = ''reasoning'' then Inr (pending_add_item item st)
              else if s \<in> set TEXT_PART_TYPES
              then Inr (append_message (user_message (text_from_part item)) (append_pending_reasoning st))
              else Inl (Unsupported_Item_Type t))
         | JArr _ \<Rightarrow> Inl Unhashable_Type
         | JObj _ \<Rightarrow> Inl Unhashable_Type
         | _ \<Rightarrow> Inl (Unsupported_Item_Type t)))"

fun append_input_item :: "responses_env \<Rightarrow> json \<Rightarrow> input_state \<Rightarrow> responses_error + input_state" where
  "append_input_item env (JStr s) st = Inr (append_message (user_message s) (append_pending_reasoning st))"
| "append_input_item env (JObj item) st = append_object_item env item st"
| "append_input_item env _ st = Inl Unsupported_Item"

definition iter_input_items :: "json \<Rightarrow> json list" where
  "iter_input_items v = (case v of JNull \<Rightarrow> [] | JArr items \<Rightarrow> items | _ \<Rightarrow> [v])"

fun append_input_items :: "responses_env \<Rightarrow> json list \<Rightarrow> input_state \<Rightarrow> responses_error + input_state" where
  "append_input_items env [] st = Inr st"
| "append_input_items env (item # items) st =
     bind_result (append_input_item env item st) (append_input_items env items)"

section \<open>The payload\<close>

definition initial_input :: "responses_request \<Rightarrow> input_state" where
  "initial_input rq =
     \<lparr>in_messages = [], in_system = (if truthy (rsq_instructions rq) then [the (rsq_instructions rq)] else []),
      in_reasoning = None, in_encrypted = [], in_quarantined = [], in_drawn = 0\<rparr>"

definition set_unless_null :: "string \<Rightarrow> json \<Rightarrow> (string, json) dict \<Rightarrow> (string, json) dict" where
  "set_unless_null k v d = (if v = JNull then d else dset k v d)"

definition set_if_given :: "string \<Rightarrow> json option \<Rightarrow> (string, json) dict \<Rightarrow> (string, json) dict" where
  "set_if_given k v d = (case v of None \<Rightarrow> d | Some j \<Rightarrow> dset k j d)"

definition convert_request_to_anthropic_payload ::
  "responses_env \<Rightarrow> responses_request \<Rightarrow> responses_error + (string, json) dict" where
  "convert_request_to_anthropic_payload env rq =
     bind_result (append_input_items env (iter_input_items (rsq_input rq)) (initial_input rq)) (\<lambda>st.
       let st' = append_pending_reasoning st in
       if in_messages st' = [] then Inl No_Message
       else
         bind_result (required_str (JStr (rsq_model rq)) ''model'') (\<lambda>model.
           bind_result (convert_responses_tools env (case rsq_tools rq of None \<Rightarrow> JNull | Some ts \<Rightarrow> JArr ts)) (\<lambda>tools.
             bind_result (convert_responses_tool_choice env (rsq_tool_choice rq)) (\<lambda>choice.
               Inr (set_if_given ''tool_choice'' choice
                 (set_if_given ''tools''
                   (case tools of
                      Some (t # ts) \<Rightarrow> if rsq_tool_choice rq \<noteq> JStr ''none'' then Some (JArr (t # ts)) else None
                    | _ \<Rightarrow> None)
                 (set_if_given ''output_config'' (responses_reasoning_to_output_config (rsq_reasoning rq))
                 (set_unless_null ''metadata'' (rsq_metadata rq)
                 (set_if_given ''max_tokens'' (map_option JInt (rsq_max_output_tokens rq))
                 (set_unless_null ''top_p'' (rsq_top_p rq)
                 (set_unless_null ''temperature'' (rsq_temperature rq)
                 (set_if_given ''system''
                   (if in_system st' = [] then None else Some (JStr (join blank_line (in_system st'))))
                 [(''model'', JStr model), (''messages'', JArr (map JObj (in_messages st'))),
                  (''stream'', JBool True)]))))))))))))"

end
