(* ===== verification/Diagnostics.thy ===== *)
theory Diagnostics
  imports Redaction_Properties
begin

text \<open>
  \<open>core/diagnostics.py\<close>, the part every error text passes on its way to a client or a log:
  \<open>redact_sensitive_error_text\<close>, with its four expressions as terms of \<open>rx\<close> in the order of the source. Its
  last expression replaces every provider key, and the replacement, bracketed and too poor in letters,
  takes part in no new one.
\<close>

abbreviation QUOTE_CHAR :: rx where
  "QUOTE_CHAR \<equiv> Rx_Set True [One (CHR 0x22), One (CHR 0x27)]"

abbreviation ASSIGN_CHAR :: rx where
  "ASSIGN_CHAR \<equiv> Rx_Set True [One (CHR '':''), One (CHR ''='')]"

text \<open>\<open>[^"'\s,;&}\]]+\<close>\<close>

definition unquoted_value :: rx where
  "unquoted_value = Rx_Rep True 1 None (Rx_Set False
     [One (CHR 0x22), One (CHR 0x27), Space, One (CHR '',''), One (CHR '';''), One (CHR ''&''),
      One (CHR ''}''), One (CHR '']'')])"

text \<open>A name, possibly quoted, and the sign behind it.\<close>

definition assigned_name :: "rx \<Rightarrow> rx" where
  "assigned_name name = Rx_Group ''prefix''
     (rx_seq [rx_opt QUOTE_CHAR, name, rx_opt QUOTE_CHAR, at_least 0 [Space], ASSIGN_CHAR, at_least 0 [Space]])"

definition authorization_header :: rx where
  "authorization_header = rx_seq [assigned_name (rx_nocase ''authorization''),
     Rx_Group ''quote'' (rx_opt QUOTE_CHAR),
     rx_opt (rx_seq [rx_alt [rx_nocase ''bearer'', rx_nocase ''basic''], at_least 1 [Space]]),
     unquoted_value, Rx_Backref ''quote'']"

definition credential_name :: rx where
  "credential_name = rx_alt [
     rx_seq [rx_nocase ''api'', rx_sep, rx_nocase ''key''],
     rx_seq [rx_nocase ''access'', rx_sep, rx_nocase ''token''],
     rx_seq [rx_nocase ''refresh'', rx_sep, rx_nocase ''token''],
     rx_nocase ''token'',
     rx_seq [rx_nocase ''client'', rx_sep, rx_nocase ''secret''],
     rx_nocase ''secret'', rx_nocase ''password'']"

definition credential_setting :: rx where
  "credential_setting = rx_seq [assigned_name credential_name,
     Rx_Group ''quote'' (rx_opt QUOTE_CHAR), unquoted_value, Rx_Backref ''quote'']"

definition bearer_credential :: rx where
  "bearer_credential = rx_seq [Rx_Group ''1'' (rx_seq [rx_nocase ''bearer'', at_least 1 [Space]]),
     Rx_Rep True 1 None (Rx_Set False [Space, One (CHR '',''), One (CHR '';'')])]"

definition key_body :: rx where
  "key_body = rx_alt [
     rx_seq [rx_nocase ''sk-'', at_least 8 [UPPER, LOWER, DIGITS, One (CHR ''.''), One (CHR ''_''), One (CHR ''-'')]],
     rx_seq [rx_nocase ''nvapi-'', at_least 8 [UPPER, LOWER, DIGITS, One (CHR ''.''), One (CHR ''_''), One (CHR ''-'')]],
     rx_seq [rx_nocase ''hf_'', at_least 8 [UPPER, LOWER, DIGITS, One (CHR ''_''), One (CHR ''-'')]],
     rx_seq [rx_nocase ''gsk_'', at_least 8 [UPPER, LOWER, DIGITS, One (CHR ''_''), One (CHR ''-'')]],
     rx_seq [rx_nocase ''github_pat_'', at_least 8 [UPPER, LOWER, DIGITS, One (CHR ''_'')]],
     rx_seq [rx_nocase ''gh'', Rx_Set True
       [One (CHR ''p''), One (CHR ''o''), One (CHR ''u''), One (CHR ''s''), One (CHR ''r''),
        One (CHR ''P''), One (CHR ''O''), One (CHR ''U''), One (CHR ''S''), One (CHR ''R'')],
       rx_char (CHR ''_''), at_least 8 ALNUM],
     rx_seq [rx_nocase ''aiza'', at_least 20 [UPPER, LOWER, DIGITS, One (CHR ''_''), One (CHR ''-'')]]]"

definition provider_key :: rx where
  "provider_key = rx_seq [Rx_Behind False ALNUM, key_body, Rx_Look False (Rx_Set True ALNUM)]"

definition REDACTED :: string where
  "REDACTED = ''<redacted>''"

definition keep_assignment :: "rx_hit \<Rightarrow> string" where
  "keep_assignment h = hit_group h ''prefix'' @ hit_group h ''quote'' @ REDACTED @ hit_group h ''quote''"

definition SECRET_TEXT_REPLACEMENTS :: "(rx \<times> (rx_hit \<Rightarrow> string)) list" where
  "SECRET_TEXT_REPLACEMENTS = [
     (authorization_header, keep_assignment),
     (credential_setting, keep_assignment),
     (bearer_credential, \<lambda>h. hit_group h ''1'' @ REDACTED),
     (provider_key, \<lambda>_. REDACTED)]"

definition redact_sensitive_error_text :: "string \<Rightarrow> string" where
  "redact_sensitive_error_text s = fold (\<lambda>(r, f). rx_sub r f) SECRET_TEXT_REPLACEMENTS s"

definition safe_exception_message :: "string \<Rightarrow> string" where
  "safe_exception_message exc_text =
     (let message = redact_sensitive_error_text (py_strip exc_text) in
      if message = [] then ''Provider request failed unexpectedly.'' else message)"

definition format_user_error_preview :: "string \<Rightarrow> nat \<Rightarrow> string" where
  "format_user_error_preview exc_text max_len = take max_len (safe_exception_message exc_text)"

section \<open>The shape of a key\<close>

abbreviation alnum :: "char \<Rightarrow> bool" where
  "alnum c \<equiv> class_has ALNUM c"

text \<open>A key starts with a letter or digit, and letters and digits behind it belong to it.\<close>

definition starts_word :: "rx \<Rightarrow> bool" where
  "starts_word r \<longleftrightarrow> (\<forall>w. rx_word r w \<longrightarrow> w \<noteq> [] \<and> alnum (hd w))"

definition grows :: "rx \<Rightarrow> bool" where
  "grows r \<longleftrightarrow> (\<forall>w u. rx_word r w \<longrightarrow> (\<forall>c \<in> set u. alnum c) \<longrightarrow> rx_word r (w @ u))"

lemma starts_seq: "rx_plain r1 \<Longrightarrow> rx_plain r2 \<Longrightarrow> starts_word r1 \<Longrightarrow> starts_word (Rx_Seq r1 r2)"
  by (auto simp: starts_word_def word_seq)

lemma starts_alt: "starts_word r1 \<Longrightarrow> starts_word r2 \<Longrightarrow> starts_word (Rx_Alt r1 r2)"
  by (auto simp: starts_word_def)

lemma starts_set: "(\<And>c. class_has items c \<Longrightarrow> alnum c) \<Longrightarrow> starts_word (Rx_Set True items)"
  by (auto simp: starts_word_def)

lemma grows_seq:
  assumes "rx_plain r1" "rx_plain r2" "grows r2"
  shows "grows (Rx_Seq r1 r2)"
  unfolding grows_def word_seq [OF assms(1,2)]
proof (intro allI impI)
  fix w u assume "\<exists>x y. w = x @ y \<and> rx_word r1 x \<and> rx_word r2 y" "\<forall>c \<in> set u. alnum c"
  then obtain x y where "w = x @ y" "rx_word r1 x" "rx_word r2 (y @ u)" using assms(3) unfolding grows_def by blast
  then show "\<exists>x y. w @ u = x @ y \<and> rx_word r1 x \<and> rx_word r2 y" by (intro exI [of _ x] exI [of _ "y @ u"]) simp
qed

lemma grows_alt: "grows r1 \<Longrightarrow> grows r2 \<Longrightarrow> grows (Rx_Alt r1 r2)"
  by (auto simp: grows_def)

lemma grows_class: "(\<And>c. alnum c \<Longrightarrow> class_has items c) \<Longrightarrow> grows (at_least n items)"
  by (auto simp: grows_def word_class_rep)

lemmas class_lists = class_has_def ALNUM_def

lemma grows_key_body: "grows key_body"
  unfolding key_body_def rx_seq.simps rx_alt.simps
  by (intro grows_alt grows_seq plain_nocase grows_class) (auto simp: class_lists)

lemma starts_nocase:
  assumes c: "97 \<le> char_code c" "char_code c \<le> 122"
  shows "starts_word (rx_nocase (c # s))"
proof -
  let ?set = "Rx_Set True [One c, One (char_of (char_code c - 32))]"
  have "alnum d" if "class_has [One c, One (char_of (char_code c - 32))] d" for d
    using that c by (auto simp: class_lists char_code_def)
  then have first: "starts_word ?set" by (rule starts_set)
  show ?thesis
  proof (cases s)
    case Nil
    then show ?thesis using c first by (simp add: rx_nocase_def)
  next
    case (Cons d t)
    then have "rx_nocase (c # s) = Rx_Seq ?set (rx_nocase s)" using c by (simp add: rx_nocase_def)
    then show ?thesis using starts_seq [OF _ plain_nocase first] by simp
  qed
qed

lemma key_body_starts: "starts_word key_body"
  unfolding key_body_def rx_seq.simps rx_alt.simps
  by (intro starts_alt starts_seq plain_nocase starts_nocase; code_simp)

lemma key_body_plain: "rx_plain key_body"
  by code_simp

lemma key_body_no_brackets: "rx_without ''<>'' key_body" "rx_escapes REDACTED key_body"
  by code_simp+

lemma key_word:
  assumes "rx_word key_body w"
  shows "w \<noteq> []" "alnum (hd w)" "CHR ''<'' \<notin> set w" "CHR ''>'' \<notin> set w" "\<not> set w \<subseteq> set REDACTED"
  using assms key_body_starts without_word [OF key_body_plain key_body_no_brackets(1) assms]
    escapes_word [OF key_body_plain key_body_no_brackets(2) assms]
  by (auto simp: starts_word_def)

lemma provider_key_regular: "rx_regular provider_key"
  by code_simp

lemma key_accepts:
  "rx_accepts provider_key past w rest \<longleftrightarrow>
     behind False ALNUM past \<and> rx_word key_body w \<and> (rest = [] \<or> \<not> alnum (hd rest))"
proof -
  have "(\<exists>u v. r = u @ v \<and> (\<exists>c. u = [c] \<and> alnum c)) \<longleftrightarrow> r \<noteq> [] \<and> alnum (hd r)" for r
    by (cases r) (auto intro: exI [of _ "[_]"])
  then have look': "rx_accepts (Rx_Look False (Rx_Set True ALNUM)) p x r \<longleftrightarrow> x = [] \<and> (r = [] \<or> \<not> alnum (hd r))" for p x r
    by simp
  show ?thesis
    unfolding provider_key_def rx_seq.simps rx_accepts.simps(3,11) accepts_plain [OF key_body_plain] look'
    by auto
qed

section \<open>After the last expression\<close>

definition keys_out :: "string \<Rightarrow> string \<Rightarrow> string" where
  "keys_out past rest = render (\<lambda>_. REDACTED) (rx_tokens provider_key past rest)"

lemma provider_key_hit:
  assumes "rx_match provider_key (past, rest, []) = st # sts"
  shows "\<exists>v. v \<noteq> [] \<and> rest = v @ rx_rest st \<and> (rx_rest st = [] \<or> \<not> alnum (hd (rx_rest st)))"
proof -
  have "st \<in> set (rx_match provider_key (past, rest, []))" using assms by simp
  from finds_sound [OF match_finds [OF provider_key_regular] this] obtain v where
    v: "rest = v @ rx_rest st" "rx_accepts provider_key past v (rx_rest st)" by blast
  then show ?thesis using key_word(1) unfolding key_accepts by blast
qed

lemma keys_out_match:
  "rx_match provider_key (past, rest, []) = st # sts \<Longrightarrow> length (rx_rest st) < length rest \<Longrightarrow>
   keys_out past rest = REDACTED @ keys_out (rx_past st) (rx_rest st)"
  by (simp add: keys_out_def tokens_match)

lemma keys_out_skip:
  "rx_match provider_key (past, c # rest, []) = [] \<Longrightarrow> keys_out past (c # rest) = c # keys_out (c # past) rest"
  by (simp add: keys_out_def tokens_skip)

lemma keys_out_stop: "keys_out past [] = []"
  using provider_key_hit [of past "[]"]
  by (cases "rx_match provider_key (past, [], [])") (auto simp: keys_out_def tokens_Nil)

lemma keys_out_prefix: "keys_out past rest = w @ b \<Longrightarrow> CHR ''<'' \<notin> set w \<Longrightarrow> \<exists>b'. rest = w @ b'"
proof (induction past rest arbitrary: w rule: tokens_induct [where r = provider_key])
  case (match past rest st sts)
  then have "REDACTED @ keys_out (rx_past st) (rx_rest st) = w @ b" by (simp add: keys_out_match)
  then have "w = []" using match.prems(2) by (cases w) (auto simp: REDACTED_def)
  then show ?case by simp
next
  case (empty past c rest st sts)
  then show ?case using provider_key_hit by fastforce
next
  case (skip past c rest)
  have out: "c # keys_out (c # past) rest = w @ b" using skip.prems(1) by (simp add: keys_out_skip [OF skip(1)])
  show ?case
  proof (cases w)
    case (Cons d v)
    then have "keys_out (c # past) rest = v @ b" "c = d" using out unfolding Cons append_Cons list.inject by blast+
    then show ?thesis using skip.IH [of v] skip.prems(2) Cons by auto
  qed simp
next
  case (stop past)
  then show ?case by (simp add: keys_out_stop)
qed

lemma behind_redacted:
  assumes "REDACTED @ t = a @ w @ b" "rx_word key_body w"
  shows "\<exists>a2. a = REDACTED @ a2 \<and> t = a2 @ w @ b"
proof -
  obtain us where us: "REDACTED = a @ us \<and> us @ t = w @ b \<or> REDACTED @ us = a \<and> t = us @ w @ b"
    using assms(1) append_eq_append_conv2 [of REDACTED t a "w @ b"] by blast
  show ?thesis
  proof (cases "us = []")
    case True
    with us show ?thesis by auto
  next
    case False
    have "\<not> (REDACTED = a @ us \<and> us @ t = w @ b)"
    proof
      assume c: "REDACTED = a @ us \<and> us @ t = w @ b"
      then have "last us = CHR ''>''" using False by (metis REDACTED_def last_appendR last.simps list.distinct(1))
      then have gt: "CHR ''>'' \<in> set us" using False last_in_set by metis
      from c have "(\<exists>x. w = us @ x) \<or> (\<exists>x. us = w @ x)" by (auto simp: append_eq_append_conv2)
      then show False
      proof
        assume "\<exists>x. w = us @ x"
        then show False using gt key_word(4) [OF assms(2)] by auto
      next
        assume "\<exists>x. us = w @ x"
        then have "set w \<subseteq> set REDACTED" using c by (metis Un_upper1 Un_upper2 order_trans set_append)
        then show False using key_word(5) [OF assms(2)] by blast
      qed
    qed
    then show ?thesis using us by blast
  qed
qed

lemma keys_out_clean:
  "keys_out past rest = a @ w @ b \<Longrightarrow> rx_word key_body w \<Longrightarrow> behind False ALNUM (rev a @ past) \<Longrightarrow> False"
proof (induction past rest arbitrary: a rule: tokens_induct [where r = provider_key])
  case (match past rest st sts)
  have "REDACTED @ keys_out (rx_past st) (rx_rest st) = a @ w @ b" using match by (simp add: keys_out_match)
  from behind_redacted [OF this match.prems(2)] obtain a2 where
    a2: "a = REDACTED @ a2" "keys_out (rx_past st) (rx_rest st) = a2 @ w @ b" by blast
  show False
  proof (cases a2)
    case Nil
    then obtain b' where "rx_rest st = w @ b'"
      using keys_out_prefix [of _ _ w b] a2(2) key_word(3) [OF match.prems(2)] by fastforce
    then have "rx_rest st \<noteq> []" "alnum (hd (rx_rest st))" using key_word(1,2) [OF match.prems(2)] by simp_all
    then show False using provider_key_hit [OF match(1)] by blast
  next
    case (Cons c a3)
    have "behind False ALNUM (rev a2 @ x) \<longleftrightarrow> behind False ALNUM (rev a2 @ y)" for x y
      by (cases "rev a2") (use Cons in \<open>auto simp: behind_def\<close>)
    then have "behind False ALNUM (rev a2 @ rx_past st)" using match.prems(3) a2(1) by auto
    from match.IH [OF a2(2) match.prems(2) this] show False .
  qed
next
  case (empty past c rest st sts)
  then show ?case using provider_key_hit by fastforce
next
  case (skip past c rest)
  have out: "c # keys_out (c # past) rest = a @ w @ b" using skip.prems(1) by (simp add: keys_out_skip [OF skip(1)])
  show False
  proof (cases a)
    case Nil
    then obtain x where x: "c # rest = w @ x"
      using keys_out_prefix [of past "c # rest" w b] skip.prems(1) key_word(3) [OF skip.prems(2)] by auto
    let ?u = "takeWhile alnum x" and ?v = "dropWhile alnum x"
    have "rx_word key_body (w @ ?u)"
      using grows_key_body skip.prems(2) unfolding grows_def by (blast dest: set_takeWhileD)
    moreover have "?v = [] \<or> \<not> alnum (hd ?v)" using hd_dropWhile [of alnum x] by blast
    ultimately have "rx_accepts provider_key past (w @ ?u) ?v"
      using skip.prems(3) Nil by (simp add: key_accepts)
    moreover have "c # rest = (w @ ?u) @ ?v" using x by simp
    ultimately have "rx_match provider_key (past, c # rest, []) \<noteq> []"
      unfolding match_somewhere [OF provider_key_regular] by blast
    with skip(1) show False by simp
  next
    case (Cons d a2)
    then have "keys_out (c # past) rest = a2 @ w @ b" "d = c" using out unfolding Cons append_Cons list.inject by blast+
    from skip.IH [OF this(1) skip.prems(2)] this(2) show False using skip.prems(3) Cons by simp
  qed
next
  case (stop past)
  then show ?case using key_word(1) by (simp add: keys_out_stop)
qed

lemma redacted_text_clean:
  assumes "rx_word key_body w" and "a = [] \<or> \<not> alnum (last a)"
  shows "redact_sensitive_error_text s \<noteq> a @ w @ b"
proof
  assume out: "redact_sensitive_error_text s = a @ w @ b"
  obtain s' where "redact_sensitive_error_text s = rx_sub provider_key (\<lambda>_. REDACTED) s'"
    by (simp add: redact_sensitive_error_text_def SECRET_TEXT_REPLACEMENTS_def)
  then have "keys_out [] s' = a @ w @ b" using out by (simp add: rx_sub_render keys_out_def)
  moreover have "behind False ALNUM (rev a @ [])" using assms(2) by (cases a rule: rev_cases) (auto simp: behind_def)
  ultimately show False using keys_out_clean assms(1) by blast
qed

end
