(* ===== verification/Responses_Output.thy ===== *)
theory Responses_Output
  imports Responses_Input Diagnostics Execution Stream_Contract
begin

text \<open>
  \<open>core/openai_responses/streaming\<close> with \<open>items.py\<close>, \<open>errors.py\<close> and \<open>stream.py\<close>: an Anthropic event stream
  as the event stream of the Responses API. A method of the assembler maps the assembler's state to the
  events it returns and the new state. An emitted event is its name and its data, with the sequence number;
  \<open>format_response_sse_event\<close> only prints it. A block that is changed in place is the entry of the ledger's
  dictionary it was put into. \<open>time.time()\<close> is an argument.
\<close>

section \<open>Output items\<close>

definition message_item :: "string \<Rightarrow> string \<Rightarrow> string \<Rightarrow> json" where
  "message_item item_id t status =
     JObj [(''id'', JStr item_id), (''type'', JStr ''message''), (''status'', JStr status),
       (''role'', JStr ''assistant''),
       (''content'', JArr [JObj [(''type'', JStr ''output_text''), (''text'', JStr t), (''annotations'', JArr [])]])]"

definition reasoning_item :: "string \<Rightarrow> string \<Rightarrow> string \<Rightarrow> json" where
  "reasoning_item item_id t status =
     JObj [(''id'', JStr item_id), (''type'', JStr ''reasoning''), (''status'', JStr status), (''summary'', JArr []),
       (''content'', JArr [JObj [(''type'', JStr ''reasoning_text''), (''text'', JStr t)]])]"

definition encrypted_reasoning_item :: "string \<Rightarrow> string \<Rightarrow> string \<Rightarrow> json" where
  "encrypted_reasoning_item item_id encrypted status =
     JObj [(''id'', JStr item_id), (''type'', JStr ''reasoning''), (''status'', JStr status), (''summary'', JArr []),
       (''encrypted_content'', JStr encrypted)]"

section \<open>Errors\<close>

definition openai_error :: "string \<Rightarrow> string \<Rightarrow> json" where
  "openai_error message error_type =
     JObj [(''message'', JStr message), (''type'', JStr error_type), (''param'', JNull), (''code'', JNull)]"

fun FAILURE_ERROR_TYPES :: "execution_kind \<Rightarrow> string" where
  "FAILURE_ERROR_TYPES Kind_Invalid_Request = ''invalid_request_error''"
| "FAILURE_ERROR_TYPES Kind_Context_Window = ''invalid_request_error''"
| "FAILURE_ERROR_TYPES Kind_Authentication = ''authentication_error''"
| "FAILURE_ERROR_TYPES Kind_Permission = ''permission_error''"
| "FAILURE_ERROR_TYPES Kind_Rate_Limit = ''rate_limit_error''"
| "FAILURE_ERROR_TYPES Kind_Overloaded = ''overloaded_error''"
| "FAILURE_ERROR_TYPES Kind_Timeout = ''api_error''"
| "FAILURE_ERROR_TYPES Kind_Upstream = ''api_error''"
| "FAILURE_ERROR_TYPES Kind_Unavailable = ''api_error''"

definition openai_error_type_for_failure :: "execution_failure \<Rightarrow> string" where
  "openai_error_type_for_failure f =
     (if xf_kind f = Kind_Permission \<and> xf_status f = 402 then ''billing_error''
      else if xf_kind f = Kind_Invalid_Request \<and> xf_status f = 404 then ''not_found_error''
      else if xf_kind f = Kind_Invalid_Request \<and> xf_status f = 413 then ''request_too_large''
      else if xf_kind f = Kind_Timeout \<and> xf_status f = 504 then ''timeout_error''
      else FAILURE_ERROR_TYPES (xf_kind f))"

text \<open>The message of a failure is kept beside it.\<close>

definition openai_error_from_failure :: "execution_failure \<times> string \<Rightarrow> json" where
  "openai_error_from_failure f =
     openai_error (redact_sensitive_error_text (snd f)) (openai_error_type_for_failure (fst f))"

definition openai_error_from_anthropic_error :: "responses_env \<Rightarrow> (string, json) dict \<Rightarrow> json" where
  "openai_error_from_anthropic_error env data =
     (let error = (case jget data ''error'' of JObj e \<Rightarrow> e
                   | _ \<Rightarrow> [(''type'', JStr ''api_error''), (''message'', JStr (py_str (rs_str env) (JObj data)))])
      in openai_error (py_str (rs_str env) (get_or error ''message'' []))
           (py_str (rs_str env) (get_or error ''type'' ''api_error'')))"

definition replay_unsafe_function_call_error :: json where
  "replay_unsafe_function_call_error =
     openai_error ''Upstream function_call arguments were not a valid JSON object; refusing to emit replay-unsafe Responses output.''
       ''api_error''"

section \<open>Blocks\<close>

record responses_text_block =
  xt_output_index :: nat
  xt_item_id :: string
  xt_parts :: "string list"

record responses_reasoning_block =
  xr_output_index :: nat
  xr_item_id :: string
  xr_parts :: "string list"
  xr_encrypted :: "string option"

record responses_tool_block =
  xu_output_index :: nat
  xu_item_id :: string
  xu_call_id :: string
  xu_kind :: tool_kind
  xu_name :: string
  xu_namespace :: "string option"
  xu_arguments :: "string list"

datatype responses_block =
  Text_Block responses_text_block
| Reasoning_Block responses_reasoning_block
| Tool_Block responses_tool_block

fun block_output_index :: "responses_block \<Rightarrow> nat" where
  "block_output_index (Text_Block b) = xt_output_index b"
| "block_output_index (Reasoning_Block b) = xr_output_index b"
| "block_output_index (Tool_Block b) = xu_output_index b"

section \<open>The output ledger\<close>

record responses_ledger =
  rl_slots :: "json option list"
  rl_active :: "(int, responses_block) dict"
  rl_fallback_index :: int
  rl_input_counts :: "(string, int) dict"
  rl_output_tokens :: "json option"
  rl_reasoning_estimate :: nat

definition new_responses_ledger :: responses_ledger where
  "new_responses_ledger =
     \<lparr>rl_slots = [], rl_active = [], rl_fallback_index = -1, rl_input_counts = [], rl_output_tokens = None,
      rl_reasoning_estimate = 0\<rparr>"

definition active_block :: "int \<Rightarrow> responses_ledger \<Rightarrow> responses_block option" where
  "active_block i L = dget (rl_active L) i"

definition set_active_block :: "int \<Rightarrow> responses_block \<Rightarrow> responses_ledger \<Rightarrow> responses_ledger" where
  "set_active_block i b L = L\<lparr>rl_active := dset i b (rl_active L)\<rparr>"

definition pop_active_block :: "int \<Rightarrow> responses_ledger \<Rightarrow> responses_block option \<times> responses_ledger" where
  "pop_active_block i L = (dget (rl_active L) i, L\<lparr>rl_active := dpop i (rl_active L)\<rparr>)"

definition pop_active_blocks_by_output_order :: "responses_ledger \<Rightarrow> responses_block list \<times> responses_ledger" where
  "pop_active_blocks_by_output_order L =
     (sort_key block_output_index (map snd (rl_active L)), L\<lparr>rl_active := []\<rparr>)"

definition reserve_output_slot :: "responses_ledger \<Rightarrow> nat \<times> responses_ledger" where
  "reserve_output_slot L = (length (rl_slots L), L\<lparr>rl_slots := rl_slots L @ [None]\<rparr>)"

definition commit_output :: "nat \<Rightarrow> json \<Rightarrow> responses_ledger \<Rightarrow> responses_ledger" where
  "commit_output i item L =
     (let slots = rl_slots L @ replicate (Suc i - length (rl_slots L)) None
      in L\<lparr>rl_slots := slots[i := Some item]\<rparr>)"

definition ledger_output :: "responses_ledger \<Rightarrow> json list" where
  "ledger_output L = map the (filter (\<lambda>s. s \<noteq> None) (rl_slots L))"

definition ANTHROPIC_INPUT_TOKEN_FIELDS :: "string list" where
  "ANTHROPIC_INPUT_TOKEN_FIELDS = [''input_tokens'', ''cache_creation_input_tokens'', ''cache_read_input_tokens'']"

definition record_input_count :: "(string, json) dict \<Rightarrow> string \<Rightarrow> (string, int) dict \<Rightarrow> (string, int) dict" where
  "record_input_count usage field counts =
     (case jget usage field of JInt v \<Rightarrow> if 0 \<le> v then dset field v counts else counts | _ \<Rightarrow> counts)"

definition record_usage_delta :: "(string, json) dict \<Rightarrow> responses_ledger \<Rightarrow> responses_ledger" where
  "record_usage_delta data L =
     (case jget data ''usage'' of
        JObj usage \<Rightarrow>
          L\<lparr>rl_input_counts := fold (record_input_count usage) ANTHROPIC_INPUT_TOKEN_FIELDS (rl_input_counts L),
            rl_output_tokens :=
              (case jget usage ''output_tokens'' of
                 JInt v \<Rightarrow> Some (JInt v) | JBool b \<Rightarrow> Some (JBool b) | _ \<Rightarrow> rl_output_tokens L)\<rparr>
      | _ \<Rightarrow> L)"

definition estimate_text_tokens :: "responses_env \<Rightarrow> string \<Rightarrow> nat" where
  "estimate_text_tokens env t =
     (if t = [] then 0
      else (case rs_encoder env of Some encode \<Rightarrow> encode t | None \<Rightarrow> max 1 (length t div 4)))"

definition add_reasoning_text :: "responses_env \<Rightarrow> string \<Rightarrow> responses_ledger \<Rightarrow> responses_ledger" where
  "add_reasoning_text env t L =
     L\<lparr>rl_reasoning_estimate := rl_reasoning_estimate L + estimate_text_tokens env t\<rparr>"

text \<open>\<open>self._output_tokens or 0\<close>, and its value in arithmetic, where \<open>True\<close> is 1.\<close>

definition output_tokens_or_0 :: "responses_ledger \<Rightarrow> json" where
  "output_tokens_or_0 L =
     (case rl_output_tokens L of Some (JInt v) \<Rightarrow> JInt v | Some (JBool True) \<Rightarrow> JBool True | _ \<Rightarrow> JInt 0)"

fun json_number :: "json \<Rightarrow> int" where
  "json_number (JInt v) = v"
| "json_number (JBool b) = (if b then 1 else 0)"
| "json_number _ = 0"

definition ledger_usage :: "responses_ledger \<Rightarrow> json" where
  "ledger_usage L =
     (if rl_input_counts L = [] \<and> rl_output_tokens L = None then JNull
      else
        (let input = sum_list (map snd (rl_input_counts L)); output = output_tokens_or_0 L;
             estimate = int (rl_reasoning_estimate L)
         in JObj
           [(''input_tokens'', JInt input),
            (''input_tokens_details'', JObj [(''cached_tokens'',
              JInt (case dget (rl_input_counts L) ''cache_read_input_tokens'' of Some v \<Rightarrow> v | None \<Rightarrow> 0))]),
            (''output_tokens'', output),
            (''output_tokens_details'', JObj [(''reasoning_tokens'',
              if json_number output < estimate then output else JInt estimate)]),
            (''total_tokens'', JInt (input + json_number output))]))"

definition safe_text_index :: "int option \<Rightarrow> responses_ledger \<Rightarrow> int \<times> responses_ledger" where
  "safe_text_index i L =
     (case i of
        Some k \<Rightarrow> (k, L)
      | None \<Rightarrow> (rl_fallback_index L, L\<lparr>rl_fallback_index := rl_fallback_index L - 1\<rparr>))"

section \<open>The assembler\<close>

record response_assembler =
  ra_request :: responses_request
  ra_response_id :: string
  ra_created_at :: int
  ra_ledger :: responses_ledger
  ra_sequence :: nat
  ra_started :: bool
  ra_stop_reason :: "string option"
  ra_provisional :: "json option"
  ra_terminal :: bool
  ra_final :: "json option"
  ra_drawn :: nat

definition new_assembler :: "responses_env \<Rightarrow> responses_request \<Rightarrow> int \<Rightarrow> response_assembler" where
  "new_assembler env rq now =
     \<lparr>ra_request = rq, ra_response_id = new_response_id (rs_uuid env 0), ra_created_at = now,
      ra_ledger = new_responses_ledger, ra_sequence = 0, ra_started = False, ra_stop_reason = None,
      ra_provisional = None, ra_terminal = False, ra_final = None, ra_drawn = 1\<rparr>"

type_synonym responses_step = "response_assembler \<Rightarrow> sse_event list \<times> response_assembler"

definition no_events :: "(response_assembler \<Rightarrow> response_assembler) \<Rightarrow> responses_step" where
  "no_events f st = ([], f st)"

text \<open>One step after the other, their events in that order.\<close>

definition followed_by :: "responses_step \<Rightarrow> responses_step \<Rightarrow> responses_step" where
  "followed_by f g st = (case f st of (es, st1) \<Rightarrow> (case g st1 of (fs, st2) \<Rightarrow> (es @ fs, st2)))"

fun in_turn :: "responses_step list \<Rightarrow> responses_step" where
  "in_turn [] = no_events id"
| "in_turn (f # fs) = followed_by f (in_turn fs)"

definition unless_terminal :: "responses_step \<Rightarrow> responses_step" where
  "unless_terminal f st = (if ra_terminal st then ([], st) else f st)"

definition on_ledger :: "(responses_ledger \<Rightarrow> responses_ledger) \<Rightarrow> response_assembler \<Rightarrow> response_assembler" where
  "on_ledger f st = st\<lparr>ra_ledger := f (ra_ledger st)\<rparr>"

text \<open>A fresh \<open>uuid4\<close>.\<close>

definition draw_uuid :: "responses_env \<Rightarrow> response_assembler \<Rightarrow> string \<times> response_assembler" where
  "draw_uuid env st = (rs_uuid env (ra_drawn st), st\<lparr>ra_drawn := ra_drawn st + 1\<rparr>)"

subsection \<open>Building events\<close>

definition build_event :: "string \<Rightarrow> (string, json) dict \<Rightarrow> responses_step" where
  "build_event event_type parts st =
     ([\<lparr>event_name = event_type,
        event_data = ((''type'', JStr event_type) # parts) @ [(''sequence_number'', JInt (int (ra_sequence st)))]\<rparr>],
      st\<lparr>ra_sequence := ra_sequence st + 1\<rparr>)"

definition format_response_sse_event :: "responses_env \<Rightarrow> sse_event \<Rightarrow> string" where
  "format_response_sse_event env e =
     ''event: '' @ event_name e @ newline @ ''data: '' @ rs_dumps env (JObj (event_data e)) @ newline @ newline"

definition response_created :: "json \<Rightarrow> responses_step" where
  "response_created r = build_event ''response.created'' [(''response'', r)]"

definition response_completed :: "json \<Rightarrow> responses_step" where
  "response_completed r = build_event ''response.completed'' [(''response'', r)]"

definition response_incomplete :: "json \<Rightarrow> responses_step" where
  "response_incomplete r = build_event ''response.incomplete'' [(''response'', r)]"

definition response_failed :: "json \<Rightarrow> responses_step" where
  "response_failed r = build_event ''response.failed'' [(''response'', r)]"

definition output_item_added :: "nat \<Rightarrow> json \<Rightarrow> responses_step" where
  "output_item_added i item =
     build_event ''response.output_item.added'' [(''output_index'', JInt (int i)), (''item'', item)]"

definition output_item_done :: "nat \<Rightarrow> json \<Rightarrow> responses_step" where
  "output_item_done i item =
     build_event ''response.output_item.done'' [(''output_index'', JInt (int i)), (''item'', item)]"

text \<open>An event about one item: its id and its place, then what the event says.\<close>

definition item_event :: "string \<Rightarrow> string \<Rightarrow> nat \<Rightarrow> (string, json) dict \<Rightarrow> responses_step" where
  "item_event event_type item_id i parts =
     build_event event_type ([(''item_id'', JStr item_id), (''output_index'', JInt (int i))] @ parts)"

definition output_part :: "string \<Rightarrow> json" where
  "output_part t = JObj [(''type'', JStr ''output_text''), (''text'', JStr t), (''annotations'', JArr [])]"

definition content_part_added :: "string \<Rightarrow> nat \<Rightarrow> responses_step" where
  "content_part_added item_id i =
     item_event ''response.content_part.added'' item_id i [(''content_index'', JInt 0), (''part'', output_part [])]"

definition content_part_done :: "string \<Rightarrow> nat \<Rightarrow> string \<Rightarrow> responses_step" where
  "content_part_done item_id i t =
     item_event ''response.content_part.done'' item_id i [(''content_index'', JInt 0), (''part'', output_part t)]"

definition output_text_delta :: "string \<Rightarrow> nat \<Rightarrow> string \<Rightarrow> responses_step" where
  "output_text_delta item_id i t =
     item_event ''response.output_text.delta'' item_id i [(''content_index'', JInt 0), (''delta'', JStr t)]"

definition output_text_done :: "string \<Rightarrow> nat \<Rightarrow> string \<Rightarrow> responses_step" where
  "output_text_done item_id i t =
     item_event ''response.output_text.done'' item_id i [(''content_index'', JInt 0), (''text'', JStr t)]"

definition reasoning_text_delta :: "string \<Rightarrow> nat \<Rightarrow> string \<Rightarrow> responses_step" where
  "reasoning_text_delta item_id i t =
     item_event ''response.reasoning_text.delta'' item_id i [(''content_index'', JInt 0), (''delta'', JStr t)]"

definition reasoning_text_done :: "string \<Rightarrow> nat \<Rightarrow> string \<Rightarrow> responses_step" where
  "reasoning_text_done item_id i t =
     item_event ''response.reasoning_text.done'' item_id i [(''content_index'', JInt 0), (''text'', JStr t)]"

definition function_call_arguments_delta :: "string \<Rightarrow> nat \<Rightarrow> string \<Rightarrow> responses_step" where
  "function_call_arguments_delta item_id i args =
     item_event ''response.function_call_arguments.delta'' item_id i [(''delta'', JStr args)]"

definition function_call_arguments_done :: "string \<Rightarrow> nat \<Rightarrow> string \<Rightarrow> responses_step" where
  "function_call_arguments_done item_id i args =
     item_event ''response.function_call_arguments.done'' item_id i [(''arguments'', JStr args)]"

definition custom_tool_call_input_delta :: "string \<Rightarrow> nat \<Rightarrow> string \<Rightarrow> responses_step" where
  "custom_tool_call_input_delta item_id i t =
     item_event ''response.custom_tool_call_input.delta'' item_id i [(''delta'', JStr t)]"

definition custom_tool_call_input_done :: "string \<Rightarrow> nat \<Rightarrow> string \<Rightarrow> responses_step" where
  "custom_tool_call_input_done item_id i t =
     item_event ''response.custom_tool_call_input.done'' item_id i [(''input'', JStr t)]"

subsection \<open>Finishing a block\<close>

definition responses_tool_item :: "responses_tool_block \<Rightarrow> string \<Rightarrow> string \<Rightarrow> string \<Rightarrow> json" where
  "responses_tool_item b status arguments input_text =
     JObj ((if xu_kind b = Custom_Tool then
              [(''id'', JStr (xu_item_id b)), (''type'', JStr ''custom_tool_call''), (''status'', JStr status),
               (''call_id'', JStr (xu_call_id b)), (''name'', JStr (xu_name b)), (''input'', JStr input_text)]
            else
              [(''id'', JStr (xu_item_id b)), (''type'', JStr ''function_call''), (''status'', JStr status),
               (''call_id'', JStr (xu_call_id b)), (''name'', JStr (xu_name b)), (''arguments'', JStr arguments)]) @
           (if truthy (xu_namespace b) then [(''namespace'', JStr (the (xu_namespace b)))] else []))"

definition reasoning_output_item :: "responses_reasoning_block \<Rightarrow> string \<Rightarrow> json" where
  "reasoning_output_item b status =
     (case xr_encrypted b of
        Some e \<Rightarrow> encrypted_reasoning_item (xr_item_id b) e status
      | None \<Rightarrow> reasoning_item (xr_item_id b) (concat (xr_parts b)) status)"

definition complete_text_block :: "responses_text_block \<Rightarrow> responses_step" where
  "complete_text_block b =
     (let t = concat (xt_parts b); i = xt_output_index b; item = message_item (xt_item_id b) t ''completed'' in
      in_turn [no_events (on_ledger (commit_output i item)),
        output_text_done (xt_item_id b) i t, content_part_done (xt_item_id b) i t, output_item_done i item])"

definition complete_reasoning_block :: "responses_env \<Rightarrow> responses_reasoning_block \<Rightarrow> responses_step" where
  "complete_reasoning_block env b =
     (let t = concat (xr_parts b); i = xr_output_index b; item = reasoning_output_item b ''completed'' in
      in_turn [no_events (on_ledger (commit_output i item)),
        if t \<noteq> [] then followed_by (no_events (on_ledger (add_reasoning_text env t)))
          (reasoning_text_done (xr_item_id b) i t) else no_events id,
        output_item_done i item])"

definition complete_custom_tool_block :: "responses_env \<Rightarrow> responses_tool_block \<Rightarrow> responses_step" where
  "complete_custom_tool_block env b =
     (let t = custom_tool_input_text_from_arguments env (concat (xu_arguments b)); i = xu_output_index b;
          item = responses_tool_item b ''completed'' [] t in
      in_turn [no_events (on_ledger (commit_output i item)),
        if t \<noteq> [] then custom_tool_call_input_delta (xu_item_id b) i t else no_events id,
        custom_tool_call_input_done (xu_item_id b) i t, output_item_done i item])"

definition fail_invalid_function_call :: responses_step where
  "fail_invalid_function_call = no_events (\<lambda>st.
     if ra_provisional st = None then st\<lparr>ra_provisional := Some replay_unsafe_function_call_error\<rparr> else st)"

definition complete_function_block :: "responses_env \<Rightarrow> responses_tool_block \<Rightarrow> responses_step" where
  "complete_function_block env b =
     (let raw = concat (xu_arguments b); i = xu_output_index b in
      case normalized_function_call_arguments env (JStr (if raw = [] then ''{}'' else raw)) of
        Inl _ \<Rightarrow> fail_invalid_function_call
      | Inr args \<Rightarrow>
          (let item = responses_tool_item b ''completed'' args [] in
           in_turn [no_events (on_ledger (commit_output i item)),
             if args \<noteq> [] then function_call_arguments_delta (xu_item_id b) i args else no_events id,
             function_call_arguments_done (xu_item_id b) i args, output_item_done i item]))"

fun complete_block :: "responses_env \<Rightarrow> responses_block \<Rightarrow> responses_step" where
  "complete_block env (Text_Block b) = complete_text_block b"
| "complete_block env (Reasoning_Block b) = complete_reasoning_block env b"
| "complete_block env (Tool_Block b) =
     (if xu_kind b = Custom_Tool then complete_custom_tool_block env b else complete_function_block env b)"

definition complete_existing_block :: "responses_env \<Rightarrow> int \<Rightarrow> responses_step" where
  "complete_existing_block env i st =
     (case pop_active_block i (ra_ledger st) of
        (None, L) \<Rightarrow> ([], st\<lparr>ra_ledger := L\<rparr>)
      | (Some b, L) \<Rightarrow> complete_block env b (st\<lparr>ra_ledger := L\<rparr>))"

text \<open>The loop breaks once the response has ended.\<close>

definition flush_active_blocks :: "responses_env \<Rightarrow> responses_step" where
  "flush_active_blocks env st =
     (case pop_active_blocks_by_output_order (ra_ledger st) of
        (bs, L) \<Rightarrow> in_turn (map (\<lambda>b. unless_terminal (complete_block env b)) bs) (st\<lparr>ra_ledger := L\<rparr>))"

subsection \<open>The end of a response\<close>

definition response_payload :: "response_assembler \<Rightarrow> string \<Rightarrow> json \<Rightarrow> json \<Rightarrow> json" where
  "response_payload st status error incomplete_details =
     (let rq = ra_request st in JObj
       [(''id'', JStr (ra_response_id st)), (''object'', JStr ''response''), (''created_at'', JInt (ra_created_at st)),
        (''status'', JStr status), (''model'', JStr (rsq_model rq)), (''output'', JArr (ledger_output (ra_ledger st))),
        (''parallel_tool_calls'', JBool (case rsq_parallel_tool_calls rq of None \<Rightarrow> True | Some b \<Rightarrow> b)),
        (''tool_choice'', if rsq_tool_choice rq = JNull then JStr ''auto'' else rsq_tool_choice rq),
        (''temperature'', rsq_temperature rq), (''top_p'', rsq_top_p rq),
        (''max_output_tokens'', case rsq_max_output_tokens rq of None \<Rightarrow> JNull | Some n \<Rightarrow> JInt n),
        (''usage'', ledger_usage (ra_ledger st)), (''error'', error), (''incomplete_details'', incomplete_details)])"

definition ensure_started :: responses_step where
  "ensure_started st =
     (if ra_started st then ([], st)
      else response_created (response_payload st ''in_progress'' JNull JNull) (st\<lparr>ra_started := True\<rparr>))"

text \<open>The last event of a response.\<close>

definition end_response :: "(json \<Rightarrow> responses_step) \<Rightarrow> json \<Rightarrow> responses_step" where
  "end_response how payload st = how payload (st\<lparr>ra_final := Some payload, ra_terminal := True\<rparr>)"

definition finish_failed_response :: "json \<Rightarrow> responses_step" where
  "finish_failed_response error st =
     end_response response_failed (response_payload st ''failed'' error JNull) (st\<lparr>ra_provisional := None\<rparr>)"

definition finish_incomplete_response :: responses_step where
  "finish_incomplete_response st =
     end_response response_incomplete
       (response_payload st ''incomplete'' JNull (JObj [(''reason'', JStr ''max_output_tokens'')])) st"

definition finish_completed_response :: responses_step where
  "finish_completed_response st = end_response response_completed (response_payload st ''completed'' JNull JNull) st"

definition finish_response :: "responses_env \<Rightarrow> responses_step" where
  "finish_response env =
     followed_by (flush_active_blocks env) (unless_terminal (\<lambda>st.
       case ra_provisional st of
         Some error \<Rightarrow> finish_failed_response error st
       | None \<Rightarrow>
           if ra_stop_reason st = Some ''max_tokens'' then finish_incomplete_response st
           else finish_completed_response st))"

definition fail_response :: "responses_env \<Rightarrow> (string, json) dict \<Rightarrow> responses_step" where
  "fail_response env data =
     followed_by (flush_active_blocks env)
       (unless_terminal (finish_failed_response (openai_error_from_anthropic_error env data)))"

definition fail_execution :: "responses_env \<Rightarrow> execution_failure \<times> string \<Rightarrow> responses_step" where
  "fail_execution env failure =
     followed_by (flush_active_blocks env)
       (unless_terminal (finish_failed_response (openai_error_from_failure failure)))"

subsection \<open>Starting and extending a block\<close>

definition responses_event_index :: "(string, json) dict \<Rightarrow> int option" where
  "responses_event_index data =
     (case jget data ''index'' of JInt i \<Rightarrow> Some i | JBool b \<Rightarrow> Some (if b then 1 else 0) | _ \<Rightarrow> None)"

definition string_value :: "responses_env \<Rightarrow> json \<Rightarrow> string" where
  "string_value env v = (if v = JNull then [] else py_str (rs_str env) v)"

definition open_text_block :: "responses_env \<Rightarrow> int \<Rightarrow> responses_step" where
  "open_text_block env i st =
     (let (k, L) = reserve_output_slot (ra_ledger st); (hex, st1) = draw_uuid env (st\<lparr>ra_ledger := L\<rparr>);
          item_id = new_message_item_id hex
      in in_turn
        [no_events (on_ledger (set_active_block i
           (Text_Block \<lparr>xt_output_index = k, xt_item_id = item_id, xt_parts = []\<rparr>))),
         output_item_added k (JObj [(''id'', JStr item_id), (''type'', JStr ''message''),
           (''status'', JStr ''in_progress''), (''role'', JStr ''assistant''), (''content'', JArr [])]),
         content_part_added item_id k] st1)"

definition start_text_item :: "responses_env \<Rightarrow> int \<Rightarrow> responses_step" where
  "start_text_item env i = followed_by (complete_existing_block env i) (unless_terminal (open_text_block env i))"

definition open_reasoning_block :: "responses_env \<Rightarrow> int \<Rightarrow> string option \<Rightarrow> responses_step" where
  "open_reasoning_block env i encrypted st =
     (let (k, L) = reserve_output_slot (ra_ledger st); (hex, st1) = draw_uuid env (st\<lparr>ra_ledger := L\<rparr>);
          b = \<lparr>xr_output_index = k, xr_item_id = new_reasoning_item_id hex, xr_parts = [], xr_encrypted = encrypted\<rparr>
      in in_turn
        [no_events (on_ledger (set_active_block i (Reasoning_Block b))),
         output_item_added k (reasoning_output_item b ''in_progress'')] st1)"

definition start_reasoning_item :: "responses_env \<Rightarrow> int \<Rightarrow> string option \<Rightarrow> responses_step" where
  "start_reasoning_item env i encrypted =
     followed_by (complete_existing_block env i) (unless_terminal (open_reasoning_block env i encrypted))"

definition initial_arguments :: "responses_env \<Rightarrow> tool_kind \<Rightarrow> json \<Rightarrow> string list" where
  "initial_arguments env kind input =
     (if kind = Custom_Tool \<and> input \<notin> {JNull, JObj [], JStr []} \<or> (\<exists>d. input = JObj d \<and> d \<noteq> [])
      then [rs_dumps env input] else [])"

definition open_tool_block :: "responses_env \<Rightarrow> int \<Rightarrow> (string, json) dict \<Rightarrow> responses_step" where
  "open_tool_block env i block st =
     (let identity = responses_tool_identity_from_anthropic_name env (rsq_tools (ra_request st))
            (string_value env (jget block ''name''));
          (k, L) = reserve_output_slot (ra_ledger st);
          (hex, st1) = draw_uuid env (st\<lparr>ra_ledger := L\<rparr>);
          given_id = string_value env (jget block ''id'');
          (call_id, st2) = (if given_id \<noteq> [] then (given_id, st1)
             else (case draw_uuid env st1 of (h, st') \<Rightarrow> (new_call_id h, st')));
          b = \<lparr>xu_output_index = k,
               xu_item_id = (if ti_kind identity = Custom_Tool then ''ctc_'' else ''fc_'') @ take 24 hex,
               xu_call_id = call_id, xu_kind = ti_kind identity, xu_name = ti_name identity,
               xu_namespace = ti_namespace identity,
               xu_arguments = initial_arguments env (ti_kind identity) (jget block ''input'')\<rparr>
      in in_turn
        [no_events (on_ledger (set_active_block i (Tool_Block b))),
         output_item_added k (responses_tool_item b ''in_progress'' [] [])] st2)"

definition start_tool_item :: "responses_env \<Rightarrow> int \<Rightarrow> (string, json) dict \<Rightarrow> responses_step" where
  "start_tool_item env i block =
     followed_by (complete_existing_block env i) (unless_terminal (open_tool_block env i block))"

text \<open>A delta for the block at an index, if there is one of the right kind.\<close>

definition emit_item_text :: "int \<Rightarrow> string \<Rightarrow> responses_step" where
  "emit_item_text i t st =
     (case active_block i (ra_ledger st) of
        Some (Text_Block b) \<Rightarrow>
          if t = [] then ([], st)
          else output_text_delta (xt_item_id b) (xt_output_index b) t
            (on_ledger (set_active_block i (Text_Block (b\<lparr>xt_parts := xt_parts b @ [t]\<rparr>))) st)
      | _ \<Rightarrow> ([], st))"

definition emit_item_reasoning :: "int \<Rightarrow> string \<Rightarrow> responses_step" where
  "emit_item_reasoning i t st =
     (case active_block i (ra_ledger st) of
        Some (Reasoning_Block b) \<Rightarrow>
          if t = [] then ([], st)
          else reasoning_text_delta (xr_item_id b) (xr_output_index b) t
            (on_ledger (set_active_block i (Reasoning_Block (b\<lparr>xr_parts := xr_parts b @ [t]\<rparr>))) st)
      | _ \<Rightarrow> ([], st))"

definition extend_arguments :: "int \<Rightarrow> string \<Rightarrow> responses_step" where
  "extend_arguments i t st =
     (case active_block i (ra_ledger st) of
        Some (Tool_Block b) \<Rightarrow>
          ([], on_ledger (set_active_block i (Tool_Block (b\<lparr>xu_arguments := xu_arguments b @ [t]\<rparr>))) st)
      | _ \<Rightarrow> ([], st))"

definition is_text_block :: "int \<Rightarrow> response_assembler \<Rightarrow> bool" where
  "is_text_block i st = (case active_block i (ra_ledger st) of Some (Text_Block _) \<Rightarrow> True | _ \<Rightarrow> False)"

definition is_reasoning_block :: "int \<Rightarrow> response_assembler \<Rightarrow> bool" where
  "is_reasoning_block i st = (case active_block i (ra_ledger st) of Some (Reasoning_Block _) \<Rightarrow> True | _ \<Rightarrow> False)"

subsection \<open>One event of the Anthropic stream\<close>

text \<open>The index of a text block or delta, or a fresh negative one.\<close>

definition with_text_index :: "int option \<Rightarrow> (int \<Rightarrow> responses_step) \<Rightarrow> responses_step" where
  "with_text_index i f st = (case safe_text_index i (ra_ledger st) of (k, L) \<Rightarrow> f k (st\<lparr>ra_ledger := L\<rparr>))"

definition with_index :: "int option \<Rightarrow> (int \<Rightarrow> responses_step) \<Rightarrow> responses_step" where
  "with_index i f st = (case i of None \<Rightarrow> ([], st) | Some k \<Rightarrow> f k st)"

definition handle_content_block_start :: "responses_env \<Rightarrow> (string, json) dict \<Rightarrow> responses_step" where
  "handle_content_block_start env data =
     (case jget data ''content_block'' of
        JObj block \<Rightarrow>
          (let i = responses_event_index data; t = jget block ''type'' in
           if t = JStr ''text'' then
             with_text_index i (\<lambda>k. followed_by (start_text_item env k)
               (emit_item_text k (string_value env (jget block ''text''))))
           else if t = JStr ''thinking'' then
             with_index i (\<lambda>k. followed_by (start_reasoning_item env k None)
               (emit_item_reasoning k (string_value env (jget block ''thinking''))))
           else if t = JStr ''redacted_thinking'' then
             with_index i (\<lambda>k. start_reasoning_item env k (Some (string_value env (jget block ''data''))))
           else if t = JStr ''tool_use'' then with_index i (\<lambda>k. start_tool_item env k block)
           else no_events id)
      | _ \<Rightarrow> no_events id)"

definition handle_content_block_delta :: "responses_env \<Rightarrow> (string, json) dict \<Rightarrow> responses_step" where
  "handle_content_block_delta env data =
     (case jget data ''delta'' of
        JObj delta \<Rightarrow>
          (let i = responses_event_index data; t = jget delta ''type'' in
           if t = JStr ''text_delta'' then
             with_text_index i (\<lambda>k. followed_by
               (\<lambda>st. if is_text_block k st then ([], st) else start_text_item env k st)
               (emit_item_text k (string_value env (jget delta ''text''))))
           else if t = JStr ''thinking_delta'' then
             with_index i (\<lambda>k. followed_by
               (\<lambda>st. if is_reasoning_block k st then ([], st) else start_reasoning_item env k None st)
               (emit_item_reasoning k (string_value env (jget delta ''thinking''))))
           else if t = JStr ''input_json_delta'' then
             with_index i (\<lambda>k. extend_arguments k (string_value env (jget delta ''partial_json'')))
           else no_events id)
      | _ \<Rightarrow> no_events id)"

definition handle_content_block_stop :: "responses_env \<Rightarrow> (string, json) dict \<Rightarrow> responses_step" where
  "handle_content_block_stop env data = with_index (responses_event_index data) (complete_existing_block env)"

definition record_message_delta :: "(string, json) dict \<Rightarrow> responses_step" where
  "record_message_delta data = no_events (\<lambda>st.
     let st1 = on_ledger (record_usage_delta data) st in
     case jget data ''delta'' of
       JObj delta \<Rightarrow> (case jget delta ''stop_reason'' of JStr r \<Rightarrow> st1\<lparr>ra_stop_reason := Some r\<rparr> | _ \<Rightarrow> st1)
     | _ \<Rightarrow> st1)"

definition process_anthropic_event :: "responses_env \<Rightarrow> sse_event \<Rightarrow> responses_step" where
  "process_anthropic_event env e =
     unless_terminal (followed_by ensure_started
       (if event_name e = ''content_block_start'' then handle_content_block_start env (event_data e)
        else if event_name e = ''content_block_delta'' then handle_content_block_delta env (event_data e)
        else if event_name e = ''content_block_stop'' then handle_content_block_stop env (event_data e)
        else if event_name e = ''message_delta'' then record_message_delta (event_data e)
        else if event_name e = ''message_stop'' then finish_response env
        else if event_name e = ''error'' then fail_response env (event_data e)
        else no_events id))"

definition finish_if_needed :: "responses_env \<Rightarrow> responses_step" where
  "finish_if_needed env = unless_terminal (followed_by ensure_started (finish_response env))"

section \<open>The whole stream\<close>

text \<open>How the input ends: regularly, with an execution failure (also one found in an exception group), or
  with another exception, kept as its text.\<close>

datatype responses_input_end =
  Input_Ended
| Input_Failed "execution_failure \<times> string"
| Input_Crashed string

definition unexpected_error_data :: "string \<Rightarrow> (string, json) dict" where
  "unexpected_error_data exc_text =
     [(''error'', JObj [(''type'', JStr ''api_error''), (''message'', JStr (safe_exception_message exc_text))])]"

definition responses_close :: "responses_env \<Rightarrow> responses_input_end \<Rightarrow> responses_step" where
  "responses_close env e =
     (case e of
        Input_Ended \<Rightarrow> finish_if_needed env
      | Input_Failed f \<Rightarrow> fail_execution env f
      | Input_Crashed t \<Rightarrow> fail_response env (unexpected_error_data t))"

definition assemble :: "responses_env \<Rightarrow> sse_event list \<Rightarrow> responses_step" where
  "assemble env es = in_turn (map (process_anthropic_event env) es)"

text \<open>\<open>None\<close> is an exception raised before anything was emitted. The loop is left at the first terminal event.\<close>

definition iter_responses_sse ::
  "responses_env \<Rightarrow> responses_request \<Rightarrow> int \<Rightarrow> sse_event list \<Rightarrow> responses_input_end \<Rightarrow> sse_event list option" where
  "iter_responses_sse env rq now es input_end =
     (case assemble env es (new_assembler env rq now) of
        (out, st) \<Rightarrow>
          if ra_terminal st then Some out
          else if out = [] \<and> input_end \<noteq> Input_Ended then None
          else Some (out @ fst (responses_close env input_end st)))"

end
