(* ===== verification/Responses_Contract.thy ===== *)
theory Responses_Contract
  imports Responses_Output
begin

text \<open>
  What a client of the Responses API may rely on, as an executable check that reads a stream of events and
  keeps what the client knows (\<open>responses_view\<close>): numbered events, a beginning and one end, items that are
  announced in order, added to only while they are open, and done with exactly the text that was sent, and a
  final response whose output is the list of the items that were done.
\<close>

record item_view =
  iv_id :: string
  iv_text :: string
  iv_done :: "json option"

record responses_view =
  vw_seen :: nat
  vw_started :: bool
  vw_ended :: bool
  vw_items :: "item_view list"

definition first_view :: responses_view where
  "first_view = \<lparr>vw_seen = 0, vw_started = False, vw_ended = False, vw_items = []\<rparr>"

definition event_place :: "(string, json) dict \<Rightarrow> nat option" where
  "event_place d = (case jget d ''output_index'' of JInt i \<Rightarrow> if 0 \<le> i then Some (nat i) else None | _ \<Rightarrow> None)"

text \<open>Apply \<open>f\<close> to the open item an event names.\<close>

definition at_item ::
  "(string, json) dict \<Rightarrow> (item_view \<Rightarrow> item_view option) \<Rightarrow> responses_view \<Rightarrow> responses_view option" where
  "at_item d f v =
     (case event_place d of
        Some k \<Rightarrow>
          if k < length (vw_items v) \<and> iv_done (vw_items v ! k) = None
          then map_option (\<lambda>iv. v\<lparr>vw_items := (vw_items v)[k := iv]\<rparr>) (f (vw_items v ! k)) else None
      | None \<Rightarrow> None)"

definition at_own_item ::
  "(string, json) dict \<Rightarrow> (item_view \<Rightarrow> item_view option) \<Rightarrow> responses_view \<Rightarrow> responses_view option" where
  "at_own_item d f = at_item d (\<lambda>iv. if jget d ''item_id'' = JStr (iv_id iv) then f iv else None)"

definition item_added :: "(string, json) dict \<Rightarrow> responses_view \<Rightarrow> responses_view option" where
  "item_added d v =
     (case jget d ''item'' of
        JObj it \<Rightarrow>
          (case jget it ''id'' of
             JStr x \<Rightarrow>
               if event_place d = Some (length (vw_items v))
               then Some (v\<lparr>vw_items := vw_items v @ [\<lparr>iv_id = x, iv_text = [], iv_done = None\<rparr>]\<rparr>) else None
           | _ \<Rightarrow> None)
      | _ \<Rightarrow> None)"

definition item_done :: "(string, json) dict \<Rightarrow> responses_view \<Rightarrow> responses_view option" where
  "item_done d = at_item d (\<lambda>iv.
     case jget d ''item'' of
       JObj it \<Rightarrow>
         if jget it ''id'' = JStr (iv_id iv) \<and> jget it ''status'' = JStr ''completed''
         then Some (iv\<lparr>iv_done := Some (JObj it)\<rparr>) else None
     | _ \<Rightarrow> None)"

definition delta_events :: "string list" where
  "delta_events =
     [''response.output_text.delta'', ''response.reasoning_text.delta'', ''response.function_call_arguments.delta'',
      ''response.custom_tool_call_input.delta'']"

definition item_delta :: "(string, json) dict \<Rightarrow> responses_view \<Rightarrow> responses_view option" where
  "item_delta d = at_own_item d (\<lambda>iv.
     case jget d ''delta'' of JStr t \<Rightarrow> Some (iv\<lparr>iv_text := iv_text iv @ t\<rparr>) | _ \<Rightarrow> None)"

text \<open>The text an event claims to be the whole text of its item.\<close>

definition claimed_text :: "string \<Rightarrow> (string, json) dict \<Rightarrow> json" where
  "claimed_text n d =
     (if n = ''response.output_text.done'' \<or> n = ''response.reasoning_text.done'' then jget d ''text''
      else if n = ''response.function_call_arguments.done'' then jget d ''arguments''
      else if n = ''response.custom_tool_call_input.done'' then jget d ''input''
      else if n = ''response.content_part.added'' \<or> n = ''response.content_part.done'' then
        (case jget d ''part'' of JObj p \<Rightarrow> jget p ''text'' | _ \<Rightarrow> JNull)
      else JNull)"

definition item_claim :: "string \<Rightarrow> (string, json) dict \<Rightarrow> responses_view \<Rightarrow> responses_view option" where
  "item_claim n d = at_own_item d (\<lambda>iv. if claimed_text n d = JStr (iv_text iv) then Some iv else None)"

definition done_items :: "responses_view \<Rightarrow> json list" where
  "done_items v = map the (filter (\<lambda>j. j \<noteq> None) (map iv_done (vw_items v)))"

definition all_done :: "responses_view \<Rightarrow> bool" where
  "all_done v \<longleftrightarrow> list_all (\<lambda>iv. iv_done iv \<noteq> None) (vw_items v)"

definition end_status :: "string \<Rightarrow> string option" where
  "end_status n =
     (if n = ''response.completed'' then Some ''completed''
      else if n = ''response.incomplete'' then Some ''incomplete''
      else if n = ''response.failed'' then Some ''failed'' else None)"

definition response_ends :: "string \<Rightarrow> (string, json) dict \<Rightarrow> responses_view \<Rightarrow> responses_view option" where
  "response_ends status d v =
     (case jget d ''response'' of
        JObj r \<Rightarrow>
          if jget r ''status'' = JStr status \<and> jget r ''output'' = JArr (done_items v) \<and>
             (status = ''failed'' \<or> all_done v)
          then Some (v\<lparr>vw_ended := True\<rparr>) else None
      | _ \<Rightarrow> None)"

definition view_event :: "string \<Rightarrow> (string, json) dict \<Rightarrow> responses_view \<Rightarrow> responses_view option" where
  "view_event n d v =
     (if n = ''response.created'' then (if vw_started v then None else Some (v\<lparr>vw_started := True\<rparr>))
      else if \<not> vw_started v then None
      else if n = ''response.output_item.added'' then item_added d v
      else if n = ''response.output_item.done'' then item_done d v
      else if n \<in> set delta_events then item_delta d v
      else (case end_status n of Some s \<Rightarrow> response_ends s d v | None \<Rightarrow> item_claim n d v))"

definition view_step :: "sse_event \<Rightarrow> responses_view \<Rightarrow> responses_view option" where
  "view_step e v =
     (if vw_ended v \<or> jget (event_data e) ''sequence_number'' \<noteq> JInt (int (vw_seen v)) then None
      else view_event (event_name e) (event_data e) (v\<lparr>vw_seen := vw_seen v + 1\<rparr>))"

fun view_run :: "sse_event list \<Rightarrow> responses_view \<Rightarrow> responses_view option" where
  "view_run [] v = Some v"
| "view_run (e # es) v = (case view_step e v of None \<Rightarrow> None | Some v' \<Rightarrow> view_run es v')"

definition responses_contract :: "sse_event list \<Rightarrow> bool" where
  "responses_contract es \<longleftrightarrow> (case view_run es first_view of None \<Rightarrow> False | Some v \<Rightarrow> vw_ended v)"

lemma view_run_append:
  "view_run (es @ fs) v = (case view_run es v of None \<Rightarrow> None | Some v' \<Rightarrow> view_run fs v')"
  by (induction es arbitrary: v) (auto split: option.splits)

section \<open>The events the assembler builds, as the client reads them\<close>

lemma jget_Cons: "jget ((k, v) # d) x = (if x = k then v else jget d x)"
  by (simp add: jget_def)

lemma jget_Nil [simp]: "jget [] k = JNull"
  by (simp add: jget_def)

lemma jget_append_last: "k \<noteq> l \<Longrightarrow> jget (d @ [(l, v)]) k = jget d k"
  by (induction d) (auto simp: jget_def)

lemma jget_append_new: "l \<notin> set (dkeys d) \<Longrightarrow> jget (d @ [(l, v)]) l = v"
  by (induction d) (auto simp: jget_def)

text \<open>The data of a built event.\<close>

definition stamped :: "string \<Rightarrow> (string, json) dict \<Rightarrow> nat \<Rightarrow> (string, json) dict" where
  "stamped n p s = ((''type'', JStr n) # p) @ [(''sequence_number'', JInt (int s))]"

lemma build_event_stamped:
  "build_event n p st = ([\<lparr>event_name = n, event_data = stamped n p (ra_sequence st)\<rparr>], st\<lparr>ra_sequence := ra_sequence st + 1\<rparr>)"
  by (simp add: build_event_def stamped_def)

lemma jget_stamped: "k \<noteq> ''type'' \<Longrightarrow> k \<noteq> ''sequence_number'' \<Longrightarrow> jget (stamped n p s) k = jget p k"
  by (simp add: stamped_def jget_def map_add_def split: option.splits)

text \<open>A client that has read everything so far, and knows that the response has begun and not ended.\<close>

definition listening :: "response_assembler \<Rightarrow> responses_view \<Rightarrow> bool" where
  "listening st v \<longleftrightarrow> vw_seen v = ra_sequence st \<and> vw_started v \<and> \<not> vw_ended v"

lemma read_event:
  assumes "vw_seen v = ra_sequence st" "\<not> vw_ended v" "''sequence_number'' \<notin> set (dkeys p)"
  shows "view_run (fst (build_event n p st)) v =
    view_event n (stamped n p (ra_sequence st)) (v\<lparr>vw_seen := Suc (vw_seen v)\<rparr>)"
proof -
  have "jget (stamped n p s) ''sequence_number'' = JInt (int s)" for s
    unfolding stamped_def by (rule jget_append_new) (use assms(3) in simp)
  then show ?thesis using assms(1,2)
    by (simp add: build_event_stamped view_step_def split: option.split)
qed

lemma view_event_item:
  "vw_started v \<Longrightarrow> view_event ''response.output_item.added'' d v = item_added d v"
  "vw_started v \<Longrightarrow> view_event ''response.output_item.done'' d v = item_done d v"
  by (simp_all add: view_event_def)

lemma view_event_delta: "vw_started v \<Longrightarrow> n \<in> set delta_events \<Longrightarrow> view_event n d v = item_delta d v"
  by (auto simp: view_event_def delta_events_def)

definition claim_events :: "string list" where
  "claim_events =
     [''response.output_text.done'', ''response.reasoning_text.done'', ''response.function_call_arguments.done'',
      ''response.custom_tool_call_input.done'', ''response.content_part.added'', ''response.content_part.done'']"

lemma view_event_claim: "vw_started v \<Longrightarrow> n \<in> set claim_events \<Longrightarrow> view_event n d v = item_claim n d v"
  by (auto simp: view_event_def delta_events_def claim_events_def end_status_def)

lemma view_event_end:
  "vw_started v \<Longrightarrow> end_status n = Some s \<Longrightarrow> view_event n d v = response_ends s d v"
  by (auto simp: view_event_def delta_events_def end_status_def split: if_splits)

text \<open>An item that is announced and not done.\<close>

definition open_item :: "nat \<Rightarrow> string \<Rightarrow> responses_view \<Rightarrow> bool" where
  "open_item k x v \<longleftrightarrow> k < length (vw_items v) \<and> iv_done (vw_items v ! k) = None \<and> iv_id (vw_items v ! k) = x"

definition seen_item :: "nat \<Rightarrow> (item_view \<Rightarrow> item_view) \<Rightarrow> responses_view \<Rightarrow> responses_view" where
  "seen_item k f v = v\<lparr>vw_seen := Suc (vw_seen v), vw_items := (vw_items v)[k := f (vw_items v ! k)]\<rparr>"

lemma own_item:
  assumes "open_item k x v" "jget p ''output_index'' = JInt (int k)" "jget p ''item_id'' = JStr x"
    "f (vw_items v ! k) = Some (g (vw_items v ! k))"
  shows "at_own_item (stamped n p s) f (v\<lparr>vw_seen := Suc (vw_seen v)\<rparr>) = Some (seen_item k g v)"
  using assms by (simp add: at_own_item_def at_item_def event_place_def jget_stamped open_item_def seen_item_def)

lemma item_event_place:
  "jget ([(''item_id'', JStr x), (''output_index'', JInt (int k))] @ p) ''output_index'' = JInt (int k)"
  "jget ([(''item_id'', JStr x), (''output_index'', JInt (int k))] @ p) ''item_id'' = JStr x"
  by (simp_all add: jget_def)

text \<open>An event about an item, read by a check of the kind \<open>at_own_item\<close>.\<close>

lemma read_own:
  fixes n x k p st
  defines "q \<equiv> [(''item_id'', JStr x), (''output_index'', JInt (int k))] @ p"
  defines "d \<equiv> stamped n q (ra_sequence st)"
  assumes l: "listening st v" and it: "open_item k x v" and p: "''sequence_number'' \<notin> set (dkeys p)"
    and ev: "\<And>w. vw_started w \<Longrightarrow> view_event n d w = at_own_item d f w"
    and f: "f (vw_items v ! k) = Some (g (vw_items v ! k))"
  shows "view_run (fst (item_event n x k p st)) v = Some (seen_item k g v)"
proof -
  have "view_run (fst (item_event n x k p st)) v = view_event n d (v\<lparr>vw_seen := Suc (vw_seen v)\<rparr>)"
    unfolding item_event_def q_def [symmetric] d_def using l p
    by (intro read_event) (auto simp: listening_def q_def)
  also have "\<dots> = at_own_item d f (v\<lparr>vw_seen := Suc (vw_seen v)\<rparr>)"
    using l by (intro ev) (simp add: listening_def)
  also have "\<dots> = Some (seen_item k g v)"
    unfolding d_def q_def by (rule own_item [OF it item_event_place, of f g, OF f])
  finally show ?thesis .
qed

lemma read_delta:
  assumes "listening st v" "open_item k x v" "n \<in> set delta_events" "jget p ''delta'' = JStr t"
    and "''sequence_number'' \<notin> set (dkeys p)"
  shows "view_run (fst (item_event n x k p st)) v = Some (seen_item k (\<lambda>iv. iv\<lparr>iv_text := iv_text iv @ t\<rparr>) v)"
proof (rule read_own [OF assms(1,2,5)])
  let ?d = "stamped n ([(''item_id'', JStr x), (''output_index'', JInt (int k))] @ p) (ra_sequence st)"
  let ?f = "\<lambda>iv. case jget ?d ''delta'' of JStr t \<Rightarrow> Some (iv\<lparr>iv_text := iv_text iv @ t\<rparr>) | _ \<Rightarrow> None"
  show "\<And>w. vw_started w \<Longrightarrow> view_event n ?d w = at_own_item ?d ?f w"
    using assms(3) by (simp add: view_event_delta item_delta_def)
  show "?f (vw_items v ! k) = Some ((vw_items v ! k)\<lparr>iv_text := iv_text (vw_items v ! k) @ t\<rparr>)"
    using assms(4) by (simp add: jget_stamped jget_Cons)
qed

lemma read_claim:
  assumes "listening st v" "open_item k x v" "n \<in> set claim_events"
    and t: "claimed_text n (stamped n ([(''item_id'', JStr x), (''output_index'', JInt (int k))] @ p) (ra_sequence st)) =
      JStr (iv_text (vw_items v ! k))"
    and p: "''sequence_number'' \<notin> set (dkeys p)"
  shows "view_run (fst (item_event n x k p st)) v = Some (seen_item k id v)"
proof (rule read_own [OF assms(1,2) p])
  let ?d = "stamped n ([(''item_id'', JStr x), (''output_index'', JInt (int k))] @ p) (ra_sequence st)"
  let ?f = "\<lambda>iv. if claimed_text n ?d = JStr (iv_text iv) then Some iv else None"
  show "\<And>w. vw_started w \<Longrightarrow> view_event n ?d w = at_own_item ?d ?f w"
    using assms(3) by (simp add: view_event_claim item_claim_def)
  show "?f (vw_items v ! k) = Some (id (vw_items v ! k))" using t by simp
qed

lemma read_done:
  assumes l: "listening st v" and it: "open_item k x v"
    and item: "jget it ''id'' = JStr x" "jget it ''status'' = JStr ''completed''"
  shows "view_run (fst (output_item_done k (JObj it) st)) v =
    Some (seen_item k (\<lambda>iv. iv\<lparr>iv_done := Some (JObj it)\<rparr>) v)"
proof -
  let ?p = "[(''output_index'', JInt (int k)), (''item'', JObj it)]"
  have "view_run (fst (output_item_done k (JObj it) st)) v =
      item_done (stamped ''response.output_item.done'' ?p (ra_sequence st)) (v\<lparr>vw_seen := Suc (vw_seen v)\<rparr>)"
    using l unfolding output_item_done_def
    by (subst read_event) (simp_all add: listening_def view_event_item)
  also have "\<dots> = Some (seen_item k (\<lambda>iv. iv\<lparr>iv_done := Some (JObj it)\<rparr>) v)"
    using it item by (simp add: item_done_def at_item_def event_place_def jget_stamped jget_Cons open_item_def seen_item_def)
  finally show ?thesis .
qed

lemma read_added:
  assumes l: "listening st v" and item: "jget it ''id'' = JStr x"
  shows "view_run (fst (output_item_added (length (vw_items v)) (JObj it) st)) v =
    Some (v\<lparr>vw_seen := Suc (vw_seen v), vw_items := vw_items v @ [\<lparr>iv_id = x, iv_text = [], iv_done = None\<rparr>]\<rparr>)"
proof -
  let ?p = "[(''output_index'', JInt (int (length (vw_items v)))), (''item'', JObj it)]"
  have "view_run (fst (output_item_added (length (vw_items v)) (JObj it) st)) v =
      item_added (stamped ''response.output_item.added'' ?p (ra_sequence st)) (v\<lparr>vw_seen := Suc (vw_seen v)\<rparr>)"
    using l unfolding output_item_added_def
    by (subst read_event) (simp_all add: listening_def view_event_item)
  also have "\<dots> = Some (v\<lparr>vw_seen := Suc (vw_seen v),
      vw_items := vw_items v @ [\<lparr>iv_id = x, iv_text = [], iv_done = None\<rparr>]\<rparr>)"
    using item by (simp add: item_added_def event_place_def jget_stamped jget_Cons)
  finally show ?thesis .
qed

lemma read_end:
  assumes l: "listening st v" and n: "end_status n = Some s"
    and r: "jget r ''status'' = JStr s" "jget r ''output'' = JArr (done_items v)" "s = ''failed'' \<or> all_done v"
  shows "view_run (fst (build_event n [(''response'', JObj r)] st)) v =
    Some (v\<lparr>vw_seen := Suc (vw_seen v), vw_ended := True\<rparr>)"
proof -
  have "view_run (fst (build_event n [(''response'', JObj r)] st)) v =
      response_ends s (stamped n [(''response'', JObj r)] (ra_sequence st)) (v\<lparr>vw_seen := Suc (vw_seen v)\<rparr>)"
    using l by (subst read_event) (simp_all add: listening_def view_event_end [OF _ n])
  also have "\<dots> = Some (v\<lparr>vw_seen := Suc (vw_seen v), vw_ended := True\<rparr>)"
    using r by (simp add: response_ends_def jget_stamped jget_Cons done_items_def all_done_def)
  finally show ?thesis .
qed

lemma read_created:
  assumes "vw_seen v = ra_sequence st" "\<not> vw_started v" "\<not> vw_ended v"
  shows "view_run (fst (response_created r st)) v = Some (v\<lparr>vw_seen := Suc (vw_seen v), vw_started := True\<rparr>)"
  using assms unfolding response_created_def by (subst read_event) (simp_all add: view_event_def)

end
