(* ===== verification/Responses_Invariant.thy ===== *)
theory Responses_Invariant
  imports Responses_Contract
begin

text \<open>
  The assembler and the client stay in step: what the client has been told of an item is what the block in
  the ledger holds, what is done is what the ledger has committed, and an item that is neither done nor
  active means that the response is going to fail.
\<close>

section \<open>Steps and what they tell\<close>

definition tells ::
  "responses_step \<Rightarrow> response_assembler \<Rightarrow> responses_view \<Rightarrow> response_assembler \<Rightarrow> responses_view \<Rightarrow> bool" where
  "tells f st v st' v' \<longleftrightarrow> view_run (fst (f st)) v = Some v' \<and> snd (f st) = st'"

lemma tells_followed: "tells f st v st1 v1 \<Longrightarrow> tells g st1 v1 st2 v2 \<Longrightarrow> tells (followed_by f g) st v st2 v2"
  by (auto simp: tells_def followed_by_def view_run_append split: prod.split)

lemma tells_silent: "tells (no_events h) st v (h st) v"
  by (simp add: tells_def no_events_def)

lemma tells_same: "tells (no_events id) st v st v"
  using tells_silent [of id] by simp

lemma tells_turn_Nil: "tells (in_turn []) st v st v"
  using tells_silent [of id] by simp

lemma tells_turn: "tells f st v st1 v1 \<Longrightarrow> tells (in_turn fs) st1 v1 st2 v2 \<Longrightarrow> tells (in_turn (f # fs)) st v st2 v2"
  by (simp add: tells_followed)

lemma tells_turnE:
  assumes "tells (in_turn (f # fs)) st v st2 v2"
  obtains st1 v1 where "tells f st v st1 v1" "tells (in_turn fs) st1 v1 st2 v2"
proof -
  obtain es st1 where f: "f st = (es, st1)" by fastforce
  with assms obtain v1 where "view_run es v = Some v1" "tells (in_turn fs) st1 v1 st2 v2"
    by (auto simp: tells_def followed_by_def view_run_append split: prod.splits option.splits)
  with f show thesis by (intro that [of st1 v1]) (simp_all add: tells_def)
qed

lemma tells_turn_append:
  "tells (in_turn fs) st v st1 v1 \<Longrightarrow> tells (in_turn gs) st1 v1 st2 v2 \<Longrightarrow> tells (in_turn (fs @ gs)) st v st2 v2"
proof (induction fs arbitrary: st v)
  case Nil
  then have "st = st1" "v = v1" by (simp_all add: tells_def no_events_def)
  with Nil.prems(2) show ?case by simp
next
  case (Cons f fs)
  obtain sa va where "tells f st v sa va" "tells (in_turn fs) sa va st1 v1" using Cons.prems(1) by (rule tells_turnE)
  with Cons.IH Cons.prems(2) show ?case unfolding append_Cons by (blast intro: tells_turn)
qed

lemma tells_here: "\<not> ra_terminal st \<Longrightarrow> tells f st v st' v' \<Longrightarrow> tells (unless_terminal f) st v st' v'"
  by (simp add: tells_def unless_terminal_def)

lemma tells_over: "ra_terminal st \<Longrightarrow> tells (unless_terminal f) st v st v"
  by (simp add: tells_def unless_terminal_def)

abbreviation sent :: "response_assembler \<Rightarrow> response_assembler" where
  "sent st \<equiv> st\<lparr>ra_sequence := ra_sequence st + 1\<rparr>"

lemma snd_build [simp]: "snd (build_event n p st) = sent st"
  by (simp add: build_event_def)

lemma listening_sent: "listening st v \<Longrightarrow> listening (sent st) (seen_item k g v)"
  by (simp add: listening_def seen_item_def)

lemma listening_on_ledger [simp]: "listening (on_ledger h st) v = listening st v"
  by (simp add: listening_def on_ledger_def)

text \<open>What a text event leaves of an item: its id and that it is open.\<close>

lemma open_item_seen:
  "open_item k x v \<Longrightarrow> (\<And>iv. iv_done (g iv) = iv_done iv \<and> iv_id (g iv) = iv_id iv) \<Longrightarrow> open_item k x (seen_item k g v)"
  by (simp add: open_item_def seen_item_def)

lemma seen_item_at: "open_item k x v \<Longrightarrow> vw_items (seen_item k g v) ! k = g (vw_items v ! k)"
  by (simp add: open_item_def seen_item_def)

lemma tells_claim:
  assumes "listening st v" "open_item k x v" "n \<in> set claim_events"
    "claimed_text n (stamped n ([(''item_id'', JStr x), (''output_index'', JInt (int k))] @ p) (ra_sequence st)) =
      JStr (iv_text (vw_items v ! k))"
    "''sequence_number'' \<notin> set (dkeys p)"
  shows "tells (item_event n x k p) st v (sent st) (seen_item k id v)"
  using read_claim [OF assms] by (simp add: tells_def item_event_def)

lemma tells_delta:
  assumes "listening st v" "open_item k x v" "n \<in> set delta_events" "jget p ''delta'' = JStr t"
    "''sequence_number'' \<notin> set (dkeys p)"
  shows "tells (item_event n x k p) st v (sent st) (seen_item k (\<lambda>iv. iv\<lparr>iv_text := iv_text iv @ t\<rparr>) v)"
  using read_delta [OF assms] by (simp add: tells_def item_event_def)

lemma tells_text_done:
  assumes "listening st v" "open_item k x v" "iv_text (vw_items v ! k) = t"
  shows "tells (output_text_done x k t) st v (sent st) (seen_item k id v)"
  unfolding output_text_done_def using assms
  by (intro tells_claim) (simp_all add: claim_events_def claimed_text_def jget_stamped jget_Cons)

lemma tells_part_added:
  assumes "listening st v" "open_item k x v" "iv_text (vw_items v ! k) = []"
  shows "tells (content_part_added x k) st v (sent st) (seen_item k id v)"
  unfolding content_part_added_def using assms
  by (intro tells_claim) (simp_all add: claim_events_def claimed_text_def jget_stamped jget_Cons output_part_def)

lemma tells_part_done:
  assumes "listening st v" "open_item k x v" "iv_text (vw_items v ! k) = t"
  shows "tells (content_part_done x k t) st v (sent st) (seen_item k id v)"
  unfolding content_part_done_def using assms
  by (intro tells_claim) (simp_all add: claim_events_def claimed_text_def jget_stamped jget_Cons output_part_def)

lemma tells_reasoning_done:
  assumes "listening st v" "open_item k x v" "iv_text (vw_items v ! k) = t"
  shows "tells (reasoning_text_done x k t) st v (sent st) (seen_item k id v)"
  unfolding reasoning_text_done_def using assms
  by (intro tells_claim) (simp_all add: claim_events_def claimed_text_def jget_stamped jget_Cons)

lemma tells_arguments_done:
  assumes "listening st v" "open_item k x v" "iv_text (vw_items v ! k) = t"
  shows "tells (function_call_arguments_done x k t) st v (sent st) (seen_item k id v)"
  unfolding function_call_arguments_done_def using assms
  by (intro tells_claim) (simp_all add: claim_events_def claimed_text_def jget_stamped jget_Cons)

lemma tells_input_done:
  assumes "listening st v" "open_item k x v" "iv_text (vw_items v ! k) = t"
  shows "tells (custom_tool_call_input_done x k t) st v (sent st) (seen_item k id v)"
  unfolding custom_tool_call_input_done_def using assms
  by (intro tells_claim) (simp_all add: claim_events_def claimed_text_def jget_stamped jget_Cons)

abbreviation told :: "nat \<Rightarrow> string \<Rightarrow> responses_view \<Rightarrow> responses_view" where
  "told k t v \<equiv> seen_item k (\<lambda>iv. iv\<lparr>iv_text := iv_text iv @ t\<rparr>) v"

lemma tells_deltas:
  assumes "listening st v" "open_item k x v"
  shows "tells (output_text_delta x k t) st v (sent st) (told k t v)"
    and "tells (reasoning_text_delta x k t) st v (sent st) (told k t v)"
    and "tells (function_call_arguments_delta x k t) st v (sent st) (told k t v)"
    and "tells (custom_tool_call_input_delta x k t) st v (sent st) (told k t v)"
  unfolding output_text_delta_def reasoning_text_delta_def function_call_arguments_delta_def custom_tool_call_input_delta_def
  by (intro tells_delta [OF assms]; simp add: delta_events_def jget_Cons)+

abbreviation closed :: "nat \<Rightarrow> json \<Rightarrow> responses_view \<Rightarrow> responses_view" where
  "closed k item v \<equiv> seen_item k (\<lambda>iv. iv\<lparr>iv_done := Some item\<rparr>) v"

lemma tells_done:
  assumes "listening st v" "open_item k x v" "jget it ''id'' = JStr x" "jget it ''status'' = JStr ''completed''"
  shows "tells (output_item_done k (JObj it)) st v (sent st) (closed k (JObj it) v)"
  using read_done [OF assms] by (simp add: tells_def output_item_done_def)

section \<open>Finishing a block\<close>

fun block_item_id :: "responses_block \<Rightarrow> string" where
  "block_item_id (Text_Block b) = xt_item_id b"
| "block_item_id (Reasoning_Block b) = xr_item_id b"
| "block_item_id (Tool_Block b) = xu_item_id b"

fun block_said :: "responses_block \<Rightarrow> string" where
  "block_said (Text_Block b) = concat (xt_parts b)"
| "block_said (Reasoning_Block b) = concat (xr_parts b)"
| "block_said (Tool_Block b) = []"

definition tracked :: "responses_view \<Rightarrow> responses_block \<Rightarrow> bool" where
  "tracked v b \<longleftrightarrow> open_item (block_output_index b) (block_item_id b) v \<and>
     iv_text (vw_items v ! block_output_index b) = block_said b"

text \<open>The item at \<open>k\<close> has been done on both sides, and nothing else has changed.\<close>

definition item_finished ::
  "nat \<Rightarrow> response_assembler \<Rightarrow> responses_view \<Rightarrow> response_assembler \<Rightarrow> responses_view \<Rightarrow> bool" where
  "item_finished k st v st' v' \<longleftrightarrow> listening st' v' \<and>
     (\<exists>iv j. iv_done iv = Some j \<and> vw_items v' = (vw_items v)[k := iv] \<and>
        rl_slots (ra_ledger st') = (rl_slots (ra_ledger st))[k := Some j]) \<and>
     rl_active (ra_ledger st') = rl_active (ra_ledger st) \<and> ra_started st' = ra_started st \<and>
     ra_terminal st' = ra_terminal st \<and> ra_provisional st' = ra_provisional st"

text \<open>The item was given up: nothing was said, and the response is going to fail.\<close>

definition item_given_up :: "response_assembler \<Rightarrow> responses_view \<Rightarrow> response_assembler \<Rightarrow> responses_view \<Rightarrow> bool" where
  "item_given_up st v st' v' \<longleftrightarrow> v' = v \<and> (\<exists>e. st' = st\<lparr>ra_provisional := Some e\<rparr>)"

lemma slots_commit: "k < length (rl_slots L) \<Longrightarrow> rl_slots (commit_output k j L) = (rl_slots L)[k := Some j]"
  by (simp add: commit_output_def Let_def)

lemma active_commit [simp]: "rl_active (commit_output k j L) = rl_active L"
  by (simp add: commit_output_def Let_def)

lemma on_ledger_simps [simp]:
  "ra_ledger (on_ledger h st) = h (ra_ledger st)" "ra_started (on_ledger h st) = ra_started st"
  "ra_terminal (on_ledger h st) = ra_terminal st" "ra_provisional (on_ledger h st) = ra_provisional st"
  "ra_sequence (on_ledger h st) = ra_sequence st"
  by (simp_all add: on_ledger_def)

lemma items_seen: "vw_items (seen_item k g v) = (vw_items v)[k := g (vw_items v ! k)]"
  by (simp add: seen_item_def)

text \<open>Something was said about the open item at \<open>k\<close>, and nothing else has changed.\<close>

definition said ::
  "nat \<Rightarrow> string \<Rightarrow> response_assembler \<Rightarrow> responses_view \<Rightarrow> response_assembler \<Rightarrow> responses_view \<Rightarrow> bool" where
  "said k x st v st' v' \<longleftrightarrow> listening st' v' \<and> open_item k x v' \<and> (\<exists>iv. vw_items v' = (vw_items v)[k := iv]) \<and>
     rl_slots (ra_ledger st') = rl_slots (ra_ledger st) \<and> rl_active (ra_ledger st') = rl_active (ra_ledger st) \<and>
     ra_started st' = ra_started st \<and> ra_terminal st' = ra_terminal st \<and> ra_provisional st' = ra_provisional st"

lemma said_same: "listening st v \<Longrightarrow> open_item k x v \<Longrightarrow> said k x st v st v"
  by (auto simp: said_def intro: exI [of _ "vw_items v ! k"])

lemma said_next: "said k x st v st1 v1 \<Longrightarrow> said k x st1 v1 st2 v2 \<Longrightarrow> said k x st v st2 v2"
  by (auto simp: said_def)

lemma said_event:
  "listening st v \<Longrightarrow> open_item k x v \<Longrightarrow> (\<And>iv. iv_done (g iv) = iv_done iv \<and> iv_id (g iv) = iv_id iv) \<Longrightarrow>
   said k x st v (sent st) (seen_item k g v)"
  using listening_sent [of st v k g] open_item_seen [of k x v g] by (auto simp: said_def items_seen)

lemma said_silent:
  "listening st v \<Longrightarrow> open_item k x v \<Longrightarrow> (\<And>L. rl_slots (h L) = rl_slots L \<and> rl_active (h L) = rl_active L) \<Longrightarrow>
   said k x st v (on_ledger h st) v"
  by (auto simp: said_def intro: exI [of _ "vw_items v ! k"])

lemma saidD: "said k x st v st' v' \<Longrightarrow> listening st' v'" "said k x st v st' v' \<Longrightarrow> open_item k x v'"
  by (simp_all add: said_def)

text \<open>What every finishing of a block has in common: commit, say something, done.\<close>

lemma finish_item:
  assumes k: "k < length (rl_slots (ra_ledger st))" and o: "open_item k x v"
    and it: "jget it ''id'' = JStr x" "jget it ''status'' = JStr ''completed''"
    and says: "tells (in_turn fs) (on_ledger (commit_output k (JObj it)) st) v st1 v1"
      "said k x (on_ledger (commit_output k (JObj it)) st) v st1 v1"
  shows "\<exists>st' v'. tells (in_turn (no_events (on_ledger (commit_output k (JObj it))) # fs @ [output_item_done k (JObj it)]))
      st v st' v' \<and> item_finished k st v st' v'"
proof -
  let ?v = "closed k (JObj it) v1"
  note fin = tells_done [OF saidD [OF says(2)] it]
  have turn: "tells (in_turn (fs @ [output_item_done k (JObj it)])) (on_ledger (commit_output k (JObj it)) st) v (sent st1) ?v"
    by (rule tells_turn_append [OF says(1)]) (rule tells_turn [OF fin tells_turn_Nil])
  obtain iv where iv: "vw_items v1 = (vw_items v)[k := iv]" using says(2) by (auto simp: said_def)
  have "item_finished k st v (sent st1) ?v"
    unfolding item_finished_def
  proof (intro conjI exI)
    show "listening (sent st1) ?v" by (rule listening_sent [OF saidD(1) [OF says(2)]])
    show "iv_done (iv\<lparr>iv_done := Some (JObj it)\<rparr>) = Some (JObj it)" by simp
    show "vw_items ?v = (vw_items v)[k := iv\<lparr>iv_done := Some (JObj it)\<rparr>]"
      using iv o by (simp add: items_seen open_item_def)
  qed (use says(2) k in \<open>auto simp: said_def slots_commit\<close>)
  moreover have "tells (in_turn (no_events (on_ledger (commit_output k (JObj it))) # fs @ [output_item_done k (JObj it)]))
      st v (sent st1) ?v"
    by (rule tells_turn, rule tells_silent, rule turn)
  ultimately show ?thesis by blast
qed

lemma finish_text:
  assumes l: "listening st v" and t: "tracked v (Text_Block b)"
    and k: "xt_output_index b < length (rl_slots (ra_ledger st))"
  shows "\<exists>st' v'. tells (complete_text_block b) st v st' v' \<and> item_finished (xt_output_index b) st v st' v'"
proof -
  let ?k = "xt_output_index b" and ?x = "xt_item_id b" and ?t = "concat (xt_parts b)"
  obtain it where it: "message_item ?x ?t ''completed'' = JObj it" "jget it ''id'' = JStr ?x" "jget it ''status'' = JStr ''completed''"
    by (simp add: message_item_def jget_Cons)
  let ?st0 = "on_ledger (commit_output ?k (JObj it)) st" and ?v1 = "seen_item ?k id v"
  have o: "open_item ?k ?x v" "iv_text (vw_items v ! ?k) = ?t" using t by (simp_all add: tracked_def)
  then have o1: "open_item ?k ?x ?v1" "iv_text (vw_items ?v1 ! ?k) = ?t" by (simp_all add: open_item_seen seen_item_at)
  have l0: "listening ?st0 v" using l by simp
  note l1 = listening_sent [OF l0, of ?k id]
  have "tells (in_turn [output_text_done ?x ?k ?t, content_part_done ?x ?k ?t]) ?st0 v (sent (sent ?st0)) (seen_item ?k id ?v1)"
    by (rule tells_turn [OF tells_text_done [OF l0 o] tells_turn [OF tells_part_done [OF l1 o1] tells_turn_Nil]])
  moreover have "said ?k ?x ?st0 v (sent (sent ?st0)) (seen_item ?k id ?v1)"
    by (rule said_next [OF said_event [OF l0 o(1)] said_event [OF l1 o1(1)]]) simp_all
  ultimately show ?thesis
    unfolding complete_text_block_def Let_def it(1)
    by (rule finish_item [OF k o(1) it(2,3), where fs = "[output_text_done ?x ?k ?t, content_part_done ?x ?k ?t]",
          unfolded append_Cons append_Nil])
qed

lemma finish_reasoning:
  assumes l: "listening st v" and t: "tracked v (Reasoning_Block b)"
    and k: "xr_output_index b < length (rl_slots (ra_ledger st))"
  shows "\<exists>st' v'. tells (complete_reasoning_block env b) st v st' v' \<and> item_finished (xr_output_index b) st v st' v'"
proof -
  let ?k = "xr_output_index b" and ?x = "xr_item_id b" and ?t = "concat (xr_parts b)"
  obtain it where it: "reasoning_output_item b ''completed'' = JObj it" "jget it ''id'' = JStr ?x" "jget it ''status'' = JStr ''completed''"
    by (cases "xr_encrypted b")
      (simp_all add: reasoning_output_item_def reasoning_item_def encrypted_reasoning_item_def jget_Cons)
  let ?st0 = "on_ledger (commit_output ?k (JObj it)) st"
  let ?say = "if ?t \<noteq> [] then followed_by (no_events (on_ledger (add_reasoning_text env ?t))) (reasoning_text_done ?x ?k ?t) else no_events id"
  let ?st1 = "on_ledger (add_reasoning_text env ?t) ?st0"
  have o: "open_item ?k ?x v" "iv_text (vw_items v ! ?k) = ?t" using t by (simp_all add: tracked_def)
  have l0: "listening ?st0 v" using l by simp
  have l1: "listening ?st1 v" using l by simp
  have "\<exists>st1 v1. tells (in_turn [?say]) ?st0 v st1 v1 \<and> said ?k ?x ?st0 v st1 v1"
  proof (cases "?t = []")
    case True
    have "tells (in_turn [?say]) ?st0 v ?st0 v"
      by (rule tells_turn [OF _ tells_turn_Nil]) (simp only: True simp_thms if_False tells_same)
    then show ?thesis using said_same [OF l0 o(1)] by blast
  next
    case False
    have "tells ?say ?st0 v (sent ?st1) (seen_item ?k id v)"
      unfolding if_P [OF False] by (rule tells_followed, rule tells_silent, rule tells_reasoning_done [OF l1 o])
    moreover have "said ?k ?x ?st0 v (sent ?st1) (seen_item ?k id v)"
      by (rule said_next [OF said_silent [OF l0 o(1)] said_event [OF l1 o(1)]]) (simp_all add: add_reasoning_text_def)
    ultimately show ?thesis using tells_turn [OF _ tells_turn_Nil] by blast
  qed
  then obtain st1 v1 where "tells (in_turn [?say]) ?st0 v st1 v1" "said ?k ?x ?st0 v st1 v1" by blast
  then show ?thesis
    unfolding complete_reasoning_block_def Let_def it(1)
    by (rule finish_item [OF k o(1) it(2,3), where fs = "[?say]", unfolded append_Cons append_Nil])
qed

lemma tool_item_object:
  obtains it where "responses_tool_item b ''completed'' args input = JObj it" "jget it ''id'' = JStr (xu_item_id b)"
    "jget it ''status'' = JStr ''completed''"
  by (cases "xu_kind b") (simp_all add: responses_tool_item_def jget_Cons)

text \<open>One delta with the whole text, if there is any, and the claim that this was all.\<close>

lemma say_whole:
  assumes l: "listening st0 v" and o: "open_item k x v" "iv_text (vw_items v ! k) = []"
    and delta: "\<And>st v t. listening st v \<Longrightarrow> open_item k x v \<Longrightarrow> tells (delta t) st v (sent st) (told k t v)"
    and claim: "\<And>st v t. listening st v \<Longrightarrow> open_item k x v \<Longrightarrow> iv_text (vw_items v ! k) = t \<Longrightarrow>
      tells (finis t) st v (sent st) (seen_item k id v)"
  shows "\<exists>st1 v1. tells (in_turn [if t \<noteq> [] then delta t else no_events id, finis t]) st0 v st1 v1 \<and> said k x st0 v st1 v1"
proof (cases "t = []")
  case True
  have "tells (in_turn [no_events id, finis t]) st0 v (sent st0) (seen_item k id v)"
    using o(2) True by (intro tells_turn [OF tells_same] tells_turn [OF claim [OF l o(1)] tells_turn_Nil]) simp
  moreover have "said k x st0 v (sent st0) (seen_item k id v)" by (rule said_event [OF l o(1)]) simp
  ultimately show ?thesis using True by auto
next
  case False
  let ?v1 = "told k t v"
  have l1: "listening (sent st0) ?v1" by (rule listening_sent [OF l])
  have o1: "open_item k x ?v1" "iv_text (vw_items ?v1 ! k) = t"
    using o by (simp_all add: open_item_seen seen_item_at [OF o(1)])
  have "tells (in_turn [delta t, finis t]) st0 v (sent (sent st0)) (seen_item k id ?v1)"
    by (rule tells_turn [OF delta [OF l o(1)] tells_turn [OF claim [OF l1 o1] tells_turn_Nil]])
  moreover have "said k x st0 v (sent (sent st0)) (seen_item k id ?v1)"
    by (rule said_next [OF said_event [OF l o(1)] said_event [OF l1 o1(1)]]) simp_all
  ultimately show ?thesis using False by auto
qed

lemma finish_custom:
  assumes l: "listening st v" and t: "tracked v (Tool_Block b)"
    and k: "xu_output_index b < length (rl_slots (ra_ledger st))"
  shows "\<exists>st' v'. tells (complete_custom_tool_block env b) st v st' v' \<and> item_finished (xu_output_index b) st v st' v'"
proof -
  let ?k = "xu_output_index b" and ?x = "xu_item_id b"
  let ?t = "custom_tool_input_text_from_arguments env (concat (xu_arguments b))"
  obtain it where it: "responses_tool_item b ''completed'' [] ?t = JObj it" "jget it ''id'' = JStr ?x" "jget it ''status'' = JStr ''completed''"
    by (rule tool_item_object)
  let ?st0 = "on_ledger (commit_output ?k (JObj it)) st"
  let ?says = "[if ?t \<noteq> [] then custom_tool_call_input_delta ?x ?k ?t else no_events id, custom_tool_call_input_done ?x ?k ?t]"
  have o: "open_item ?k ?x v" "iv_text (vw_items v ! ?k) = []" using t by (simp_all add: tracked_def)
  have "listening ?st0 v" using l by simp
  then obtain st1 v1 where "tells (in_turn ?says) ?st0 v st1 v1" "said ?k ?x ?st0 v st1 v1"
    using say_whole [OF _ o, where delta = "custom_tool_call_input_delta ?x ?k" and finis = "custom_tool_call_input_done ?x ?k"]
      tells_deltas(4) tells_input_done by blast
  then show ?thesis
    unfolding complete_custom_tool_block_def Let_def it(1)
    by (rule finish_item [OF k o(1) it(2,3), where fs = ?says, unfolded append_Cons append_Nil])
qed

lemma finish_function:
  assumes l: "listening st v" and t: "tracked v (Tool_Block b)"
    and k: "xu_output_index b < length (rl_slots (ra_ledger st))"
  shows "\<exists>st' v'. tells (complete_function_block env b) st v st' v' \<and>
    (item_finished (xu_output_index b) st v st' v' \<or> item_given_up st v st' v')"
proof (cases "normalized_function_call_arguments env (JStr (if concat (xu_arguments b) = [] then ''{}'' else concat (xu_arguments b)))")
  case (Inl e)
  have "tells fail_invalid_function_call st v
      (if ra_provisional st = None then st\<lparr>ra_provisional := Some replay_unsafe_function_call_error\<rparr> else st) v"
    unfolding fail_invalid_function_call_def by (rule tells_silent)
  moreover have "item_given_up st v
      (if ra_provisional st = None then st\<lparr>ra_provisional := Some replay_unsafe_function_call_error\<rparr> else st) v"
    by (cases st; cases "ra_provisional st") (auto simp: item_given_up_def)
  ultimately show ?thesis unfolding complete_function_block_def Let_def Inl sum.case by blast
next
  case (Inr t)
  let ?k = "xu_output_index b" and ?x = "xu_item_id b"
  obtain it where it: "responses_tool_item b ''completed'' t [] = JObj it" "jget it ''id'' = JStr ?x" "jget it ''status'' = JStr ''completed''"
    by (rule tool_item_object)
  let ?st0 = "on_ledger (commit_output ?k (JObj it)) st"
  let ?says = "[if t \<noteq> [] then function_call_arguments_delta ?x ?k t else no_events id, function_call_arguments_done ?x ?k t]"
  have o: "open_item ?k ?x v" "iv_text (vw_items v ! ?k) = []" using assms(2) by (simp_all add: tracked_def)
  have "listening ?st0 v" using l by simp
  then obtain st1 v1 where "tells (in_turn ?says) ?st0 v st1 v1" "said ?k ?x ?st0 v st1 v1"
    using say_whole [OF _ o, where delta = "function_call_arguments_delta ?x ?k" and finis = "function_call_arguments_done ?x ?k"]
      tells_deltas(3) tells_arguments_done by blast
  from finish_item [OF k o(1) it(2,3) this, unfolded append_Cons append_Nil]
  show ?thesis unfolding complete_function_block_def Let_def Inr sum.case it(1) by blast
qed

lemma finish_block:
  assumes "listening st v" "tracked v b" "block_output_index b < length (rl_slots (ra_ledger st))"
  shows "\<exists>st' v'. tells (complete_block env b) st v st' v' \<and>
    (item_finished (block_output_index b) st v st' v' \<or> item_given_up st v st' v')"
proof (cases b)
  case (Text_Block x)
  with finish_text [of st v x] assms show ?thesis by auto
next
  case (Reasoning_Block x)
  with finish_reasoning [of st v x env] assms show ?thesis by auto
next
  case (Tool_Block x)
  with finish_custom [of st v x env] finish_function [of st v x env] assms show ?thesis by auto
qed

section \<open>The invariant\<close>

abbreviation active_blocks :: "response_assembler \<Rightarrow> responses_block list" where
  "active_blocks st \<equiv> map snd (rl_active (ra_ledger st))"

text \<open>The set \<open>X\<close> holds items that an operation in progress has taken from the ledger and will finish.\<close>

definition in_step :: "nat set \<Rightarrow> response_assembler \<Rightarrow> responses_view \<Rightarrow> bool" where
  "in_step X st v \<longleftrightarrow>
     listening st v \<and> ra_started st \<and> \<not> ra_terminal st \<and>
     map iv_done (vw_items v) = rl_slots (ra_ledger st) \<and>
     distinct (dkeys (rl_active (ra_ledger st))) \<and>
     distinct (map block_output_index (active_blocks st)) \<and>
     (\<forall>b \<in> set (active_blocks st). tracked v b \<and> block_output_index b \<notin> X) \<and>
     (\<forall>k < length (vw_items v). iv_done (vw_items v ! k) = None \<longrightarrow>
        k \<in> X \<or> k \<in> set (map block_output_index (active_blocks st)) \<or> ra_provisional st \<noteq> None)"

lemma in_stepD:
  assumes "in_step X st v"
  shows "listening st v" "ra_started st" "\<not> ra_terminal st" "map iv_done (vw_items v) = rl_slots (ra_ledger st)"
    "length (rl_slots (ra_ledger st)) = length (vw_items v)"
    "distinct (dkeys (rl_active (ra_ledger st)))" "distinct (map block_output_index (active_blocks st))"
    "\<And>b. b \<in> set (active_blocks st) \<Longrightarrow> tracked v b \<and> block_output_index b \<notin> X"
    "\<And>k. k < length (vw_items v) \<Longrightarrow> iv_done (vw_items v ! k) = None \<Longrightarrow>
      k \<in> X \<or> k \<in> set (map block_output_index (active_blocks st)) \<or> ra_provisional st \<noteq> None"
proof -
  show "length (rl_slots (ra_ledger st)) = length (vw_items v)"
    using assms unfolding in_step_def by (metis length_map)
qed (use assms in \<open>auto simp: in_step_def\<close>)

lemma tracked_other:
  "tracked v b \<Longrightarrow> block_output_index b \<noteq> k \<Longrightarrow> vw_items v' = (vw_items v)[k := iv] \<Longrightarrow> tracked v' b"
  by (simp add: tracked_def open_item_def)

lemma finished_in_step:
  assumes inv: "in_step (insert k X) st v" and fin: "item_finished k st v st' v'" and k: "k < length (vw_items v)"
  shows "in_step X st' v'"
proof -
  obtain iv j where iv: "iv_done iv = Some j" "vw_items v' = (vw_items v)[k := iv]"
    "rl_slots (ra_ledger st') = (rl_slots (ra_ledger st))[k := Some j]" and
    st': "listening st' v'" "rl_active (ra_ledger st') = rl_active (ra_ledger st)" "ra_started st' = ra_started st"
      "ra_terminal st' = ra_terminal st" "ra_provisional st' = ra_provisional st"
    using fin by (auto simp: item_finished_def)
  show ?thesis unfolding in_step_def
  proof (intro conjI ballI allI impI)
    show "map iv_done (vw_items v') = rl_slots (ra_ledger st')"
      using iv in_stepD(4) [OF inv] by (simp add: map_update)
    show "tracked v' b" if "b \<in> set (active_blocks st')" for b
      using that st'(2) in_stepD(8) [OF inv, of b] iv(2) by (auto intro: tracked_other)
    show "l \<in> X \<or> l \<in> set (map block_output_index (active_blocks st')) \<or> ra_provisional st' \<noteq> None"
      if "l < length (vw_items v')" "iv_done (vw_items v' ! l) = None" for l
      using that in_stepD(9) [OF inv, of l] iv st' k by (cases "l = k") auto
  qed (use st' in_stepD [OF inv] in auto)
qed

lemma given_up_in_step:
  assumes inv: "in_step (insert k X) st v" and up: "item_given_up st v st' v'"
  shows "in_step X st' v'"
proof -
  obtain e where "v' = v" "st' = st\<lparr>ra_provisional := Some e\<rparr>" using up by (auto simp: item_given_up_def)
  with inv show ?thesis by (auto simp: in_step_def listening_def)
qed

lemma complete_in_step:
  assumes inv: "in_step (insert (block_output_index b) X) st v" and t: "tracked v b"
  shows "\<exists>st' v'. tells (complete_block env b) st v st' v' \<and> in_step X st' v' \<and>
    rl_active (ra_ledger st') = rl_active (ra_ledger st) \<and>
    (\<forall>c. tracked v c \<longrightarrow> block_output_index c \<noteq> block_output_index b \<longrightarrow> tracked v' c)"
proof -
  let ?k = "block_output_index b"
  have k: "?k < length (vw_items v)" using t by (simp add: tracked_def open_item_def)
  then obtain st' v' where step: "tells (complete_block env b) st v st' v'"
      "item_finished ?k st v st' v' \<or> item_given_up st v st' v'"
    using finish_block [OF in_stepD(1) [OF inv] t] in_stepD(5) [OF inv] by metis
  from step(2) show ?thesis
  proof
    assume fin: "item_finished ?k st v st' v'"
    then have "\<forall>c. tracked v c \<longrightarrow> block_output_index c \<noteq> ?k \<longrightarrow> tracked v' c"
      by (auto simp: item_finished_def intro: tracked_other)
    with step(1) finished_in_step [OF inv fin k] fin show ?thesis unfolding item_finished_def by blast
  next
    assume up: "item_given_up st v st' v'"
    then show ?thesis using step(1) given_up_in_step [OF inv up]
      by (intro exI [of _ st'] exI [of _ v']) (auto simp: item_given_up_def)
  qed
qed

lemma in_step_weaken: "in_step X st v \<Longrightarrow> (\<And>b. b \<in> set (active_blocks st) \<Longrightarrow> block_output_index b \<notin> Y) \<Longrightarrow> X \<subseteq> Y \<Longrightarrow> in_step Y st v"
  unfolding in_step_def by blast

text \<open>Steps that keep the client and the assembler in step.\<close>

definition keeps :: "responses_step \<Rightarrow> bool" where
  "keeps f \<longleftrightarrow> (\<forall>st v. in_step {} st v \<longrightarrow> (\<exists>st' v'. tells f st v st' v' \<and> in_step {} st' v'))"

lemma keepsI: "(\<And>st v. in_step {} st v \<Longrightarrow> \<exists>st' v'. tells f st v st' v' \<and> in_step {} st' v') \<Longrightarrow> keeps f"
  by (simp add: keeps_def)

lemma keepsD: "keeps f \<Longrightarrow> in_step {} st v \<Longrightarrow> \<exists>st' v'. tells f st v st' v' \<and> in_step {} st' v'"
  by (simp add: keeps_def)

lemma keeps_followed: "keeps f \<Longrightarrow> keeps g \<Longrightarrow> keeps (followed_by f g)"
  unfolding keeps_def by (meson tells_followed)

lemma keeps_same: "keeps (no_events id)" "keeps (\<lambda>st. ([], st))"
  using tells_same by (auto simp: keeps_def tells_def)

lemma keeps_if: "keeps f \<Longrightarrow> keeps g \<Longrightarrow> keeps (if b then f else g)"
  by simp

lemma keeps_choice: "keeps f \<Longrightarrow> keeps g \<Longrightarrow> keeps (\<lambda>st. if p st then f st else g st)"
  unfolding keeps_def tells_def by metis

lemma set_dpop: "set (dpop k d) = {e \<in> set d. fst e \<noteq> k}"
  by (auto simp: AList.delete_eq)

lemma popped_in_step:
  assumes inv: "in_step {} st v" and b: "dget (rl_active (ra_ledger st)) i = Some b"
  shows "in_step {block_output_index b} (st\<lparr>ra_ledger := (ra_ledger st)\<lparr>rl_active := dpop i (rl_active (ra_ledger st))\<rparr>\<rparr>) v"
    and "tracked v b"
proof -
  let ?d = "rl_active (ra_ledger st)"
  have mem: "(i, b) \<in> set ?d" using b in_stepD(6) [OF inv] by (simp add: dget_in)
  then have "b \<in> set (active_blocks st)" by force
  then show "tracked v b" using in_stepD(8) [OF inv] by blast
  have dist: "distinct (map (\<lambda>e. block_output_index (snd e)) ?d)" using in_stepD(7) [OF inv] by (simp add: comp_def)
  have other: "block_output_index c \<noteq> block_output_index b" if "(j, c) \<in> set ?d" "j \<noteq> i" for j c
    using dist mem that inj_onD [of "\<lambda>e. block_output_index (snd e)" "set ?d" "(j, c)" "(i, b)"]
    by (auto simp: distinct_map)
  show "in_step {block_output_index b} (st\<lparr>ra_ledger := (ra_ledger st)\<lparr>rl_active := dpop i ?d\<rparr>\<rparr>) v"
    unfolding in_step_def
  proof (intro conjI ballI allI impI)
    show "distinct (map block_output_index (active_blocks (st\<lparr>ra_ledger := (ra_ledger st)\<lparr>rl_active := dpop i ?d\<rparr>\<rparr>)))"
      using dist by (simp add: comp_def AList.delete_eq distinct_map_filter)
    show "k \<in> {block_output_index b} \<or>
        k \<in> set (map block_output_index (active_blocks (st\<lparr>ra_ledger := (ra_ledger st)\<lparr>rl_active := dpop i ?d\<rparr>\<rparr>))) \<or>
        ra_provisional (st\<lparr>ra_ledger := (ra_ledger st)\<lparr>rl_active := dpop i ?d\<rparr>\<rparr>) \<noteq> None"
      if open_k: "k < length (vw_items v)" "iv_done (vw_items v ! k) = None" for k
    proof (cases "ra_provisional st = None")
      case True
      with in_stepD(9) [OF inv open_k] have "k \<in> set (map block_output_index (map snd ?d))" by blast
      then obtain j c where c: "(j, c) \<in> set ?d" "k = block_output_index c" by auto
      show ?thesis
      proof (cases "j = i")
        case True
        then have "dget ?d i = Some c" using c(1) dget_in [OF in_stepD(6) [OF inv], of i c] by blast
        then have "c = b" using b by simp
        with c(2) show ?thesis by simp
      next
        case False
        with c show ?thesis by (force simp: set_dpop image_iff)
      qed
    qed simp
  qed (use inv other in \<open>auto simp: in_step_def listening_def dict_simps set_dpop\<close>)
qed

lemma keeps_complete_existing: "keeps (complete_existing_block env i)"
proof (rule keepsI)
  fix st v assume inv: "in_step {} st v"
  let ?st = "st\<lparr>ra_ledger := (ra_ledger st)\<lparr>rl_active := dpop i (rl_active (ra_ledger st))\<rparr>\<rparr>"
  show "\<exists>st' v'. tells (complete_existing_block env i) st v st' v' \<and> in_step {} st' v'"
  proof (cases "dget (rl_active (ra_ledger st)) i")
    case None
    then have "dpop i (rl_active (ra_ledger st)) = rl_active (ra_ledger st)"
      by (simp add: AList.delete_eq filter_id_conv map_of_eq_None_iff) force
    then have "?st = st" by simp
    then have "tells (complete_existing_block env i) st v st v"
      using None by (simp add: tells_def complete_existing_block_def pop_active_block_def)
    with inv show ?thesis by blast
  next
    case (Some b)
    note pop = popped_in_step [OF inv Some]
    from complete_in_step [OF pop(1) pop(2)] obtain st' v' where
      "tells (complete_block env b) ?st v st' v'" "in_step {} st' v'" by blast
    then show ?thesis using Some
      by (intro exI [of _ st'] exI [of _ v']) (simp add: tells_def complete_existing_block_def pop_active_block_def)
  qed
qed

lemma keeps_silent:
  assumes "\<And>st. ra_sequence (h st) = ra_sequence st \<and> ra_started (h st) = ra_started st \<and> ra_terminal (h st) = ra_terminal st \<and>
    ra_provisional (h st) = ra_provisional st \<and> rl_slots (ra_ledger (h st)) = rl_slots (ra_ledger st) \<and>
    rl_active (ra_ledger (h st)) = rl_active (ra_ledger st)"
  shows "keeps (no_events h)"
proof (rule keepsI)
  fix st v assume "in_step {} st v"
  then have "in_step {} (h st) v" using assms [of st] by (simp add: in_step_def listening_def)
  with tells_silent show "\<exists>st' v'. tells (no_events h) st v st' v' \<and> in_step {} st' v'" by blast
qed

section \<open>Opening a block\<close>

text \<open>What a step that opens the block \<open>b\<close> at the index \<open>i\<close> has to do.\<close>

lemma opened_in_step:
  assumes inv: "in_step {} st v" and free: "i \<notin> set (dkeys (rl_active (ra_ledger st)))"
    and st': "listening st' v'" "ra_started st'" "\<not> ra_terminal st'" "ra_provisional st' = ra_provisional st"
      "rl_slots (ra_ledger st') = rl_slots (ra_ledger st) @ [None]"
      "rl_active (ra_ledger st') = dset i b (rl_active (ra_ledger st))"
    and v': "vw_items v' = vw_items v @ [\<lparr>iv_id = block_item_id b, iv_text = [], iv_done = None\<rparr>]"
    and b: "block_output_index b = length (vw_items v)" "block_said b = []"
  shows "in_step {} st' v'"
proof -
  have active: "active_blocks st' = active_blocks st @ [b]" using free st'(6) by (simp add: dset_new)
  have below: "block_output_index c < length (vw_items v)" if "c \<in> set (active_blocks st)" for c
    using in_stepD(8) [OF inv that] by (simp add: tracked_def open_item_def)
  have tb: "tracked v' b" using v' b by (simp add: tracked_def open_item_def)
  have tc: "tracked v' c" if "c \<in> set (active_blocks st)" for c
    using in_stepD(8) [OF inv that] below [OF that] v' by (simp add: tracked_def open_item_def nth_append)
  have tk: "k \<in> set (map block_output_index (active_blocks st')) \<or> ra_provisional st' \<noteq> None"
    if k: "k < length (vw_items v')" "iv_done (vw_items v' ! k) = None" for k
  proof (cases "k = length (vw_items v)")
    case True
    then show ?thesis using b(1) active by simp
  next
    case False
    then have "k < length (vw_items v)" "iv_done (vw_items v ! k) = None" using k v' by (simp_all add: nth_append)
    from in_stepD(9) [OF inv this] show ?thesis using st'(4) active by auto
  qed
  show ?thesis
    unfolding in_step_def
  proof (intro conjI ballI allI impI)
    show "map iv_done (vw_items v') = rl_slots (ra_ledger st')" using v' st'(5) in_stepD(4) [OF inv] by simp
    show "distinct (dkeys (rl_active (ra_ledger st')))" using st'(6) in_stepD(6) [OF inv] by (simp add: dict_simps)
    show "distinct (map block_output_index (active_blocks st'))"
      using active in_stepD(7) [OF inv] b(1) below by fastforce
    show "tracked v' c" if "c \<in> set (active_blocks st')" for c
    proof -
      have "c \<in> set (active_blocks st) \<or> c = b" using that unfolding active by auto
      then show ?thesis using tb tc by blast
    qed
    show "k \<in> {} \<or> k \<in> set (map block_output_index (active_blocks st')) \<or> ra_provisional st' \<noteq> None"
      if "k < length (vw_items v')" "iv_done (vw_items v' ! k) = None" for k
      using tk [OF that] by blast
  qed (use st' in simp_all)
qed

lemma reserved:
  "reserve_output_slot L = (length (rl_slots L), L\<lparr>rl_slots := rl_slots L @ [None]\<rparr>)"
  by (simp add: reserve_output_slot_def)

lemma tells_added:
  assumes "listening st v" "jget it ''id'' = JStr x" "k = length (vw_items v)"
  shows "tells (output_item_added k (JObj it)) st v (sent st)
    (v\<lparr>vw_seen := Suc (vw_seen v), vw_items := vw_items v @ [\<lparr>iv_id = x, iv_text = [], iv_done = None\<rparr>]\<rparr>)"
  using read_added [OF assms(1,2)] assms(3) by (simp add: tells_def output_item_added_def)

text \<open>The steps that announce an item, from a state in which its block has been put into the ledger.\<close>

definition reserved_state :: "int \<Rightarrow> responses_block \<Rightarrow> nat \<Rightarrow> response_assembler \<Rightarrow> response_assembler" where
  "reserved_state i b n st = st\<lparr>ra_drawn := n, ra_ledger := (ra_ledger st)\<lparr>rl_slots := rl_slots (ra_ledger st) @ [None],
     rl_active := dset i b (rl_active (ra_ledger st))\<rparr>\<rparr>"

lemma announced_in_step:
  assumes inv: "in_step {} st v" and free: "i \<notin> set (dkeys (rl_active (ra_ledger st)))"
    and b: "block_output_index b = length (rl_slots (ra_ledger st))" "block_said b = []"
    and it: "jget it ''id'' = JStr (block_item_id b)"
  shows "\<exists>v'. tells (output_item_added (block_output_index b) (JObj it)) (reserved_state i b n st) v (sent (reserved_state i b n st)) v' \<and>
    in_step {} (sent (reserved_state i b n st)) v' \<and> open_item (block_output_index b) (block_item_id b) v' \<and>
    iv_text (vw_items v' ! block_output_index b) = []"
proof -
  let ?st = "reserved_state i b n st"
  let ?v = "v\<lparr>vw_seen := Suc (vw_seen v), vw_items := vw_items v @ [\<lparr>iv_id = block_item_id b, iv_text = [], iv_done = None\<rparr>]\<rparr>"
  have k: "block_output_index b = length (vw_items v)" using b(1) in_stepD(5) [OF inv] by simp
  have "listening ?st v" using in_stepD(1) [OF inv] by (simp add: listening_def reserved_state_def)
  from tells_added [OF this it k]
  have t: "tells (output_item_added (block_output_index b) (JObj it)) ?st v (sent ?st) ?v" .
  moreover have "in_step {} (sent ?st) ?v"
    using in_stepD(1-3) [OF inv] k b(2)
    by (intro opened_in_step [OF inv free, where b = b]) (auto simp: listening_def reserved_state_def)
  ultimately show ?thesis using k by (intro exI [of _ ?v]) (simp add: open_item_def)
qed

lemma set_active_in_step:
  assumes inv: "in_step {} st v" and b: "dget (rl_active (ra_ledger st)) i = Some b"
    and same: "block_output_index b' = block_output_index b"
    and st': "listening st' v'" "ra_started st' = ra_started st" "ra_terminal st' = ra_terminal st"
      "ra_provisional st' = ra_provisional st" "rl_slots (ra_ledger st') = rl_slots (ra_ledger st)"
      "rl_active (ra_ledger st') = dset i b' (rl_active (ra_ledger st))"
    and v': "vw_items v' = (vw_items v)[block_output_index b := iv]" "iv_done iv = None"
    and t: "tracked v' b'"
  shows "in_step {} st' v'"
proof -
  let ?d = "rl_active (ra_ledger st)" and ?k = "block_output_index b"
  have dist: "distinct (map (\<lambda>e. block_output_index (snd e)) ?d)" using in_stepD(7) [OF inv] by (simp add: comp_def)
  have mem: "(i, b) \<in> set ?d" using b in_stepD(6) [OF inv] by (simp add: dget_in)
  have places: "map (\<lambda>e. block_output_index (snd e)) (dset i b' d) = map (\<lambda>e. block_output_index (snd e)) d"
    if "dget d i = Some b" for d using that same by (induction d) (auto split: if_splits)
  have active: "map block_output_index (active_blocks st') = map block_output_index (active_blocks st)"
    using places [OF b] st'(6) by (simp add: comp_def)
  have open_k: "?k < length (vw_items v)" "iv_done (vw_items v ! ?k) = None"
    using in_stepD(8) [OF inv, of b] mem by (force simp: tracked_def open_item_def)+
  have others: "tracked v' c" if c: "c \<in> set (active_blocks st')" for c
  proof -
    obtain j where j: "(j, c) \<in> set (dset i b' ?d)" using c st'(6) by auto
    show ?thesis
    proof (cases "j = i")
      case True
      then have "dget (dset i b' ?d) i = Some c"
        using j in_stepD(6) [OF inv] dget_in [of "dset i b' ?d" i c] by (simp add: dict_simps)
      then show ?thesis using t by (simp add: update_conv')
    next
      case False
      have "(j, c) \<in> set (dset i b' d) \<Longrightarrow> (j, c) \<in> set d" for d
        using False by (induction d) (auto split: if_splits)
      then have jc: "(j, c) \<in> set ?d" using j by blast
      then have "block_output_index c \<noteq> ?k"
        using dist mem False inj_onD [of "\<lambda>e. block_output_index (snd e)" "set ?d" "(j, c)" "(i, b)"] by (auto simp: distinct_map)
      moreover have "c \<in> set (active_blocks st)" using jc by force
      ultimately show ?thesis using in_stepD(8) [OF inv] v'(1) tracked_other by blast
    qed
  qed
  show ?thesis
    unfolding in_step_def
  proof (intro conjI ballI allI impI)
    have "(map iv_done (vw_items v))[?k := None] = map iv_done (vw_items v)"
      using open_k by (simp add: list_update_same_conv)
    then show "map iv_done (vw_items v') = rl_slots (ra_ledger st')"
      using v' st'(5) in_stepD(4) [OF inv] by (simp add: map_update)
    show "distinct (map block_output_index (active_blocks st'))" unfolding active by (rule in_stepD(7) [OF inv])
    show "k \<in> {} \<or> k \<in> set (map block_output_index (active_blocks st')) \<or> ra_provisional st' \<noteq> None"
      if k: "k < length (vw_items v')" "iv_done (vw_items v' ! k) = None" for k
    proof -
      have "k < length (vw_items v)" "iv_done (vw_items v ! k) = None"
        using k v' open_k by (simp, cases "k = ?k") auto
      from in_stepD(9) [OF inv this] show ?thesis unfolding active st'(4) .
    qed
  qed (use others st' in_stepD(2,3,6) [OF inv] in \<open>simp_all add: dict_simps\<close>)
qed

text \<open>A delta for a text or reasoning block.\<close>

lemma told_in_step:
  assumes inv: "in_step {} st v" and b: "dget (rl_active (ra_ledger st)) i = Some b"
    and b': "block_output_index b' = block_output_index b" "block_item_id b' = block_item_id b"
      "block_said b' = block_said b @ t"
  shows "in_step {} (sent (on_ledger (set_active_block i b') st)) (told (block_output_index b) t v)"
proof -
  have "b \<in> set (active_blocks st)" using b in_stepD(6) [OF inv] by (force simp: dget_in)
  then have tb: "tracked v b" using in_stepD(8) [OF inv] by blast
  let ?k = "block_output_index b"
  have l: "listening (sent (on_ledger (set_active_block i b') st)) (told ?k t v)"
    by (rule listening_sent) (simp add: in_stepD(1) [OF inv])
  have tb': "tracked (told ?k t v) b'"
    using tb b' open_item_seen [of ?k "block_item_id b" v] seen_item_at [of ?k "block_item_id b" v] by (simp add: tracked_def)
  show ?thesis
    using tb in_stepD(2,3) [OF inv]
    by (intro set_active_in_step [OF inv b b'(1) l _ _ _ _ _ items_seen _ tb'])
      (auto simp: set_active_block_def tracked_def open_item_def)
qed

end
