(* ===== verification/Responses_Runs.thy ===== *)
theory Responses_Runs
  imports Responses_Invariant
begin

text \<open>
  Every event of an Anthropic stream, whatever it holds, keeps the assembler and the client in step, and
  every end of the stream ends the response; so the client of the Responses API is always told a story that
  satisfies the contract.
\<close>

section \<open>Starting and extending an item\<close>

lemma existing_then_free:
  assumes inv: "in_step {} st v"
  shows "\<exists>st' v'. tells (complete_existing_block env i) st v st' v' \<and> in_step {} st' v' \<and>
    i \<notin> set (dkeys (rl_active (ra_ledger st')))"
proof (cases "dget (rl_active (ra_ledger st)) i")
  case None
  then have free: "i \<notin> set (dkeys (rl_active (ra_ledger st)))" by (simp add: map_of_eq_None_iff)
  obtain st' v' where t: "tells (complete_existing_block env i) st v st' v'" "in_step {} st' v'"
    using keepsD [OF keeps_complete_existing inv] by blast
  have "rl_active (ra_ledger st') = dpop i (rl_active (ra_ledger st))"
    using t(1) None by (auto simp: tells_def complete_existing_block_def pop_active_block_def)
  then have "i \<notin> set (dkeys (rl_active (ra_ledger st')))" by (simp add: dict_simps)
  with t show ?thesis by blast
next
  case (Some b)
  note pop = popped_in_step [OF inv Some]
  from complete_in_step [OF pop, of env] obtain st' v' where s:
    "tells (complete_block env b) (st\<lparr>ra_ledger := (ra_ledger st)\<lparr>rl_active := dpop i (rl_active (ra_ledger st))\<rparr>\<rparr>) v st' v'"
    "in_step {} st' v'" "rl_active (ra_ledger st') = dpop i (rl_active (ra_ledger st))" by (elim exE conjE) simp
  have "tells (complete_existing_block env i) st v st' v'"
    using s(1) Some by (simp add: tells_def complete_existing_block_def pop_active_block_def)
  moreover have "i \<notin> set (dkeys (rl_active (ra_ledger st')))" using s(3) by (simp add: dict_simps)
  ultimately show ?thesis using s(2) by blast
qed

text \<open>A step that opens a block where there is none.\<close>

definition opens :: "int \<Rightarrow> responses_step \<Rightarrow> bool" where
  "opens i f \<longleftrightarrow> (\<forall>st v. in_step {} st v \<longrightarrow> i \<notin> set (dkeys (rl_active (ra_ledger st))) \<longrightarrow>
     (\<exists>st' v'. tells f st v st' v' \<and> in_step {} st' v'))"

lemma keeps_restart: "opens i f \<Longrightarrow> keeps (followed_by (complete_existing_block env i) (unless_terminal f))"
proof (rule keepsI)
  fix st v assume f: "opens i f" and "in_step {} st v"
  then obtain st1 v1 where 1: "tells (complete_existing_block env i) st v st1 v1" "in_step {} st1 v1"
    "i \<notin> set (dkeys (rl_active (ra_ledger st1)))" using existing_then_free by blast
  with f obtain st2 v2 where 2: "tells f st1 v1 st2 v2" "in_step {} st2 v2" unfolding opens_def by blast
  have "tells (unless_terminal f) st1 v1 st2 v2" by (rule tells_here [OF in_stepD(3) [OF 1(2)] 2(1)])
  with 1(1) 2(2) tells_followed show "\<exists>st' v'. tells (followed_by (complete_existing_block env i) (unless_terminal f)) st v st' v' \<and> in_step {} st' v'"
    by blast
qed

lemma in_step_seen: "in_step X st v \<Longrightarrow> in_step X (sent st) (seen_item k id v)"
  by (simp add: in_step_def listening_def seen_item_def tracked_def open_item_def)

lemma tells_added_silent:
  "tells f (h st) v st' v' \<Longrightarrow> tells (in_turn [no_events h, f]) st v st' v'"
  by (rule tells_turn, rule tells_silent, rule tells_turn [OF _ tells_turn_Nil])

lemma opens_reasoning: "opens i (open_reasoning_block env i enc)"
  unfolding opens_def
proof (intro allI impI)
  fix st v assume inv: "in_step {} st v" and free: "i \<notin> set (dkeys (rl_active (ra_ledger st)))"
  let ?b = "\<lparr>xr_output_index = length (rl_slots (ra_ledger st)),
    xr_item_id = new_reasoning_item_id (rs_uuid env (ra_drawn st)), xr_parts = [], xr_encrypted = enc\<rparr>"
  obtain it where it: "reasoning_output_item ?b ''in_progress'' = JObj it" "jget it ''id'' = JStr (xr_item_id ?b)"
    by (cases enc) (simp_all add: reasoning_output_item_def reasoning_item_def encrypted_reasoning_item_def jget_Cons)
  have "open_reasoning_block env i enc st =
      output_item_added (length (rl_slots (ra_ledger st))) (JObj it) (reserved_state i (Reasoning_Block ?b) (ra_drawn st + 1) st)"
    using it(1) by (simp add: open_reasoning_block_def reserved draw_uuid_def reserved_state_def followed_by_def no_events_def
        on_ledger_def set_active_block_def split: prod.split)
  then show "\<exists>st' v'. tells (open_reasoning_block env i enc) st v st' v' \<and> in_step {} st' v'"
    using announced_in_step [OF inv free, of "Reasoning_Block ?b" it "ra_drawn st + 1"] it(2) by (auto simp: tells_def)
qed

lemma opens_tool: "opens i (open_tool_block env i block)"
  unfolding opens_def
proof (intro allI impI)
  fix st v assume inv: "in_step {} st v" and free: "i \<notin> set (dkeys (rl_active (ra_ledger st)))"
  obtain b n it where b: "xu_output_index b = length (rl_slots (ra_ledger st))"
    "responses_tool_item b ''in_progress'' [] [] = JObj it" "jget it ''id'' = JStr (xu_item_id b)" and
    eq: "open_tool_block env i block st =
      output_item_added (length (rl_slots (ra_ledger st))) (JObj it) (reserved_state i (Tool_Block b) n st)"
  proof -
    let ?identity = "responses_tool_identity_from_anthropic_name env (rsq_tools (ra_request st)) (string_value env (jget block ''name''))"
    let ?given = "string_value env (jget block ''id'')"
    let ?b = "\<lparr>xu_output_index = length (rl_slots (ra_ledger st)),
      xu_item_id = (if ti_kind ?identity = Custom_Tool then ''ctc_'' else ''fc_'') @ take 24 (rs_uuid env (ra_drawn st)),
      xu_call_id = (if ?given \<noteq> [] then ?given else new_call_id (rs_uuid env (ra_drawn st + 1))),
      xu_kind = ti_kind ?identity, xu_name = ti_name ?identity, xu_namespace = ti_namespace ?identity,
      xu_arguments = initial_arguments env (ti_kind ?identity) (jget block ''input'')\<rparr>"
    let ?n = "if ?given \<noteq> [] then ra_drawn st + 1 else ra_drawn st + 2"
    obtain it where it: "responses_tool_item ?b ''in_progress'' [] [] = JObj it" "jget it ''id'' = JStr (xu_item_id ?b)"
      by (cases "xu_kind ?b") (simp_all add: responses_tool_item_def jget_Cons)
    show thesis
    proof (rule that [OF _ it])
      show "open_tool_block env i block st =
          output_item_added (length (rl_slots (ra_ledger st))) (JObj it) (reserved_state i (Tool_Block ?b) ?n st)"
        using it(1) by (cases "?given = []")
          (simp_all add: open_tool_block_def Let_def reserved draw_uuid_def reserved_state_def followed_by_def no_events_def
            on_ledger_def set_active_block_def split: prod.split)
    qed simp
  qed
  show "\<exists>st' v'. tells (open_tool_block env i block) st v st' v' \<and> in_step {} st' v'"
    using announced_in_step [OF inv free, of "Tool_Block b" it n] b eq by (auto simp: tells_def)
qed

lemma opens_text: "opens i (open_text_block env i)"
  unfolding opens_def
proof (intro allI impI)
  fix st v assume inv: "in_step {} st v" and free: "i \<notin> set (dkeys (rl_active (ra_ledger st)))"
  let ?k = "length (rl_slots (ra_ledger st))" and ?x = "new_message_item_id (rs_uuid env (ra_drawn st))"
  let ?b = "Text_Block \<lparr>xt_output_index = ?k, xt_item_id = ?x, xt_parts = []\<rparr>"
  let ?it = "[(''id'', JStr ?x), (''type'', JStr ''message''), (''status'', JStr ''in_progress''),
    (''role'', JStr ''assistant''), (''content'', JArr [])]"
  let ?r = "reserved_state i ?b (ra_drawn st + 1) st"
  have eq: "open_text_block env i st = in_turn [output_item_added ?k (JObj ?it), content_part_added ?x ?k] ?r"
    by (simp add: open_text_block_def reserved draw_uuid_def reserved_state_def followed_by_def no_events_def
        on_ledger_def set_active_block_def split: prod.split)
  obtain v1 where 1: "tells (output_item_added ?k (JObj ?it)) ?r v (sent ?r) v1" "in_step {} (sent ?r) v1"
    "open_item ?k ?x v1" "iv_text (vw_items v1 ! ?k) = []"
    using announced_in_step [OF inv free, of ?b ?it "ra_drawn st + 1"] by (auto simp: jget_Cons)
  have "tells (in_turn [output_item_added ?k (JObj ?it), content_part_added ?x ?k]) ?r v (sent (sent ?r)) (seen_item ?k id v1)"
    by (rule tells_turn [OF 1(1) tells_turn [OF tells_part_added [OF in_stepD(1) [OF 1(2)] 1(3,4)] tells_turn_Nil]])
  then have "tells (open_text_block env i) st v (sent (sent ?r)) (seen_item ?k id v1)" by (simp only: tells_def eq)
  with in_step_seen [OF 1(2)] show "\<exists>st' v'. tells (open_text_block env i) st v st' v' \<and> in_step {} st' v'" by blast
qed

lemma keeps_starts:
  "keeps (start_text_item env i)" "keeps (start_reasoning_item env i enc)" "keeps (start_tool_item env i block)"
  unfolding start_text_item_def start_reasoning_item_def start_tool_item_def
  by (rule keeps_restart [OF opens_text], rule keeps_restart [OF opens_reasoning], rule keeps_restart [OF opens_tool])

lemma keeps_text: "keeps (emit_item_text i t)"
proof (rule keepsI)
  fix st v assume inv: "in_step {} st v"
  show "\<exists>st' v'. tells (emit_item_text i t) st v st' v' \<and> in_step {} st' v'"
  proof (cases "\<exists>b. dget (rl_active (ra_ledger st)) i = Some (Text_Block b) \<and> t \<noteq> []")
    case True
    then obtain b where b: "dget (rl_active (ra_ledger st)) i = Some (Text_Block b)" and t: "t \<noteq> []" by blast
    let ?b = "Text_Block (b\<lparr>xt_parts := xt_parts b @ [t]\<rparr>)"
    have "Text_Block b \<in> set (active_blocks st)" using b in_stepD(6) [OF inv] by (force simp: dget_in)
    then have "open_item (xt_output_index b) (xt_item_id b) v" using in_stepD(8) [OF inv] by (force simp: tracked_def)
    then have "tells (output_text_delta (xt_item_id b) (xt_output_index b) t) (on_ledger (set_active_block i ?b) st) v
        (sent (on_ledger (set_active_block i ?b) st)) (told (xt_output_index b) t v)"
      by (intro tells_deltas) (simp_all add: in_stepD(1) [OF inv])
    moreover have "in_step {} (sent (on_ledger (set_active_block i ?b) st)) (told (xt_output_index b) t v)"
      using told_in_step [OF inv b, of ?b t] by simp
    ultimately show ?thesis using b t by (auto simp: tells_def emit_item_text_def active_block_def)
  next
    case False
    then have "emit_item_text i t st = ([], st)"
      by (auto simp: emit_item_text_def active_block_def split: option.split responses_block.split)
    then show ?thesis using inv by (auto simp: tells_def)
  qed
qed

lemma keeps_reasoning: "keeps (emit_item_reasoning i t)"
proof (rule keepsI)
  fix st v assume inv: "in_step {} st v"
  show "\<exists>st' v'. tells (emit_item_reasoning i t) st v st' v' \<and> in_step {} st' v'"
  proof (cases "\<exists>b. dget (rl_active (ra_ledger st)) i = Some (Reasoning_Block b) \<and> t \<noteq> []")
    case True
    then obtain b where b: "dget (rl_active (ra_ledger st)) i = Some (Reasoning_Block b)" and t: "t \<noteq> []" by blast
    let ?b = "Reasoning_Block (b\<lparr>xr_parts := xr_parts b @ [t]\<rparr>)"
    have "Reasoning_Block b \<in> set (active_blocks st)" using b in_stepD(6) [OF inv] by (force simp: dget_in)
    then have "open_item (xr_output_index b) (xr_item_id b) v" using in_stepD(8) [OF inv] by (force simp: tracked_def)
    then have "tells (reasoning_text_delta (xr_item_id b) (xr_output_index b) t) (on_ledger (set_active_block i ?b) st) v
        (sent (on_ledger (set_active_block i ?b) st)) (told (xr_output_index b) t v)"
      by (intro tells_deltas) (simp_all add: in_stepD(1) [OF inv])
    moreover have "in_step {} (sent (on_ledger (set_active_block i ?b) st)) (told (xr_output_index b) t v)"
      using told_in_step [OF inv b, of ?b t] by simp
    ultimately show ?thesis using b t by (auto simp: tells_def emit_item_reasoning_def active_block_def)
  next
    case False
    then have "emit_item_reasoning i t st = ([], st)"
      by (auto simp: emit_item_reasoning_def active_block_def split: option.split responses_block.split)
    then show ?thesis using inv by (auto simp: tells_def)
  qed
qed

lemma keeps_arguments: "keeps (extend_arguments i t)"
proof (rule keepsI)
  fix st v assume inv: "in_step {} st v"
  show "\<exists>st' v'. tells (extend_arguments i t) st v st' v' \<and> in_step {} st' v'"
  proof (cases "\<exists>b. dget (rl_active (ra_ledger st)) i = Some (Tool_Block b)")
    case True
    then obtain b where b: "dget (rl_active (ra_ledger st)) i = Some (Tool_Block b)" by blast
    let ?b = "Tool_Block (b\<lparr>xu_arguments := xu_arguments b @ [t]\<rparr>)"
    have "Tool_Block b \<in> set (active_blocks st)" using b in_stepD(6) [OF inv] by (force simp: dget_in)
    then have tb: "tracked v (Tool_Block b)" using in_stepD(8) [OF inv] by blast
    have "in_step {} (on_ledger (set_active_block i ?b) st) v"
    proof (rule set_active_in_step [OF inv b])
      show "vw_items v = (vw_items v)[block_output_index (Tool_Block b) := vw_items v ! block_output_index (Tool_Block b)]" by simp
      show "iv_done (vw_items v ! block_output_index (Tool_Block b)) = None" "tracked v ?b"
        using tb by (simp_all add: tracked_def open_item_def)
    qed (simp_all add: in_stepD(1) [OF inv] set_active_block_def)
    then show ?thesis using b by (auto simp: tells_def extend_arguments_def active_block_def)
  next
    case False
    then have "extend_arguments i t st = ([], st)"
      by (auto simp: extend_arguments_def active_block_def split: option.split responses_block.split)
    then show ?thesis using inv by (auto simp: tells_def)
  qed
qed

section \<open>One event\<close>

lemma keeps_with_index: "(\<And>k. keeps (f k)) \<Longrightarrow> keeps (with_index i f)"
  by (cases i) (auto simp: keeps_def with_index_def tells_def)

lemma keeps_with_text_index: "(\<And>k. keeps (f k)) \<Longrightarrow> keeps (with_text_index i f)"
proof (rule keepsI)
  fix st v assume f: "\<And>k. keeps (f k)" and inv: "in_step {} st v"
  obtain k L where kL: "safe_text_index i (ra_ledger st) = (k, L)" by fastforce
  then have "in_step {} (st\<lparr>ra_ledger := L\<rparr>) v"
    using inv by (auto simp: safe_text_index_def in_step_def listening_def split: option.splits)
  from keepsD [OF f this] kL show "\<exists>st' v'. tells (with_text_index i f) st v st' v' \<and> in_step {} st' v'"
    by (simp add: tells_def with_text_index_def)
qed

lemma keeps_start: "keeps (handle_content_block_start env data)"
  unfolding handle_content_block_start_def Let_def
  by (cases "jget data ''content_block''")
    (simp_all add: keeps_same keeps_with_text_index keeps_with_index keeps_followed keeps_starts keeps_text keeps_reasoning)

lemma keeps_delta: "keeps (handle_content_block_delta env data)"
  unfolding handle_content_block_delta_def Let_def
  by (cases "jget data ''delta''")
    (simp_all add: keeps_same keeps_with_text_index keeps_with_index keeps_followed keeps_starts keeps_text keeps_reasoning
      keeps_arguments keeps_choice)

lemma keeps_stop: "keeps (handle_content_block_stop env data)"
  unfolding handle_content_block_stop_def by (rule keeps_with_index) (rule keeps_complete_existing)

lemma keeps_message_delta: "keeps (record_message_delta data)"
  unfolding record_message_delta_def Let_def
  by (rule keeps_silent) (auto simp: record_usage_delta_def split: json.split)

section \<open>The end\<close>

lemma flush_blocks:
  "in_step (set (map block_output_index bs)) st v \<Longrightarrow> distinct (map block_output_index bs) \<Longrightarrow>
   (\<And>b. b \<in> set bs \<Longrightarrow> tracked v b) \<Longrightarrow>
   \<exists>st' v'. tells (in_turn (map (\<lambda>b. unless_terminal (complete_block env b)) bs)) st v st' v' \<and> in_step {} st' v' \<and>
     rl_active (ra_ledger st') = rl_active (ra_ledger st)"
proof (induction bs arbitrary: st v)
  case Nil
  then show ?case using tells_same by (auto simp: tells_def)
next
  case (Cons b bs)
  have inv: "in_step (insert (block_output_index b) (set (map block_output_index bs))) st v" using Cons.prems(1) by simp
  from complete_in_step [OF inv Cons.prems(3) [OF list.set_intros(1)], of env] obtain st1 v1 where 1: "tells (complete_block env b) st v st1 v1"
    "in_step (set (map block_output_index bs)) st1 v1" "rl_active (ra_ledger st1) = rl_active (ra_ledger st)"
    "\<forall>c. tracked v c \<longrightarrow> block_output_index c \<noteq> block_output_index b \<longrightarrow> tracked v1 c"
    by (elim exE conjE) simp
  have "tracked v1 c" if "c \<in> set bs" for c
  proof -
    have "block_output_index c \<in> set (map block_output_index bs)" using that by simp
    then have "block_output_index c \<noteq> block_output_index b" using Cons.prems(2) by auto
    then show ?thesis using 1(4) Cons.prems(3) [of c] that by simp
  qed
  with Cons.IH [OF 1(2)] Cons.prems(2) obtain st2 v2 where
    2: "tells (in_turn (map (\<lambda>b. unless_terminal (complete_block env b)) bs)) st1 v1 st2 v2" "in_step {} st2 v2"
      "rl_active (ra_ledger st2) = rl_active (ra_ledger st1)" by auto
  have "tells (in_turn (map (\<lambda>b. unless_terminal (complete_block env b)) (b # bs))) st v st2 v2"
    unfolding list.map by (rule tells_turn [OF tells_here [OF in_stepD(3) [OF inv] 1(1)] 2(1)])
  with 1(3) 2(2,3) show ?case by (intro exI [of _ st2] exI [of _ v2]) simp
qed

lemma flushed:
  assumes inv: "in_step {} st v"
  shows "\<exists>st' v'. tells (flush_active_blocks env) st v st' v' \<and> in_step {} st' v' \<and> rl_active (ra_ledger st') = []"
proof -
  let ?bs = "sort_key block_output_index (active_blocks st)"
  let ?st = "st\<lparr>ra_ledger := (ra_ledger st)\<lparr>rl_active := []\<rparr>\<rparr>"
  have places: "set (map block_output_index ?bs) = set (map block_output_index (active_blocks st))"
    by (simp add: image_image)
  have "in_step (set (map block_output_index ?bs)) ?st v"
    unfolding places using inv by (simp add: in_step_def listening_def)
  moreover have "distinct (map block_output_index ?bs)"
    using distinct_map [THEN iffD1, OF in_stepD(7) [OF inv]]
    by (intro distinct_map [THEN iffD2]) (simp only: distinct_sort set_sort simp_thms)
  moreover have "tracked v b" if "b \<in> set ?bs" for b using that in_stepD(8) [OF inv] by simp
  ultimately obtain st' v' where
    "tells (in_turn (map (\<lambda>b. unless_terminal (complete_block env b)) ?bs)) ?st v st' v'" "in_step {} st' v'"
    "rl_active (ra_ledger st') = rl_active (ra_ledger ?st)" using flush_blocks by blast
  then show ?thesis
    by (intro exI [of _ st'] exI [of _ v']) (simp add: tells_def flush_active_blocks_def pop_active_blocks_by_output_order_def)
qed

text \<open>Steps that end the response.\<close>

definition ends :: "responses_step \<Rightarrow> bool" where
  "ends f \<longleftrightarrow> (\<forall>st v. in_step {} st v \<longrightarrow> rl_active (ra_ledger st) = [] \<longrightarrow>
     (\<exists>st' v'. tells f st v st' v' \<and> ra_terminal st' \<and> vw_ended v'))"

lemma output_done: "in_step X st v \<Longrightarrow> ledger_output (ra_ledger st) = done_items v"
  using in_stepD(4) [of X st v] by (simp add: ledger_output_def done_items_def)

lemma ends_with:
  assumes n: "end_status n = Some s"
    and how: "\<And>r. how r = build_event n [(''response'', r)]"
    and d: "s = ''failed'' \<or> all_done v"
    and inv: "in_step {} st v" and p: "p = response_payload st s err inc"
  shows "\<exists>st' v'. tells (end_response how p) st v st' v' \<and> ra_terminal st' \<and> vw_ended v'"
proof -
  let ?st = "st\<lparr>ra_final := Some p, ra_terminal := True\<rparr>"
  obtain r where r: "p = JObj r" "jget r ''status'' = JStr s" "jget r ''output'' = JArr (done_items v)"
    unfolding p response_payload_def Let_def using output_done [OF inv] by (simp add: jget_Cons)
  have "listening ?st v" using in_stepD(1) [OF inv] by (simp add: listening_def)
  from read_end [OF this n r(2,3) d]
  have "tells (end_response how p) st v (sent ?st) (v\<lparr>vw_seen := Suc (vw_seen v), vw_ended := True\<rparr>)"
    using r(1) by (simp add: tells_def end_response_def how)
  then show ?thesis by fastforce
qed

lemma ends_failed: "ends (finish_failed_response e)"
  unfolding ends_def
proof (intro allI impI)
  fix st v assume inv: "in_step {} st v" and a: "rl_active (ra_ledger st) = []"
  let ?st = "st\<lparr>ra_provisional := None, ra_final := Some (response_payload st ''failed'' e JNull), ra_terminal := True\<rparr>"
  obtain r where r: "response_payload st ''failed'' e JNull = JObj r" "jget r ''status'' = JStr ''failed''"
      "jget r ''output'' = JArr (done_items v)"
    unfolding response_payload_def Let_def using output_done [OF inv] by (simp add: jget_Cons)
  have "listening ?st v" using in_stepD(1) [OF inv] by (simp add: listening_def)
  from read_end [OF this _ r(2,3), of "''response.failed''"]
  have "tells (finish_failed_response e) st v (sent ?st) (v\<lparr>vw_seen := Suc (vw_seen v), vw_ended := True\<rparr>)"
    using r(1) by (simp add: tells_def end_response_def finish_failed_response_def response_failed_def end_status_def)
  then show "\<exists>st' v'. tells (finish_failed_response e) st v st' v' \<and> ra_terminal st' \<and> vw_ended v'" by fastforce
qed

lemma all_done_if: "in_step {} st v \<Longrightarrow> rl_active (ra_ledger st) = [] \<Longrightarrow> ra_provisional st = None \<Longrightarrow> all_done v"
  using in_stepD(9) [of "{}" st v] by (auto simp: all_done_def list_all_length)

lemma ends_otherwise:
  assumes inv: "in_step {} st v" and a: "rl_active (ra_ledger st) = []" and p: "ra_provisional st = None"
  shows "\<exists>st' v'. tells finish_completed_response st v st' v' \<and> ra_terminal st' \<and> vw_ended v'"
    and "\<exists>st' v'. tells finish_incomplete_response st v st' v' \<and> ra_terminal st' \<and> vw_ended v'"
  using ends_with [of "''response.completed''" "''completed''" response_completed v st, OF _ _ _ inv refl]
    ends_with [of "''response.incomplete''" "''incomplete''" response_incomplete v st, OF _ _ _ inv refl]
    all_done_if [OF inv a p]
  by (simp_all add: end_status_def response_completed_def response_incomplete_def finish_completed_response_def
      finish_incomplete_response_def tells_def)

lemma ends_after_flush:
  assumes "ends f" "in_step {} st v"
  shows "\<exists>st' v'. tells (followed_by (flush_active_blocks env) (unless_terminal f)) st v st' v' \<and> ra_terminal st' \<and> vw_ended v'"
proof -
  obtain st1 v1 where 1: "tells (flush_active_blocks env) st v st1 v1" "in_step {} st1 v1" "rl_active (ra_ledger st1) = []"
    using flushed [OF assms(2)] by blast
  with assms(1) obtain st2 v2 where 2: "tells f st1 v1 st2 v2" "ra_terminal st2" "vw_ended v2" unfolding ends_def by blast
  have "tells (followed_by (flush_active_blocks env) (unless_terminal f)) st v st2 v2"
    by (rule tells_followed [OF 1(1) tells_here [OF in_stepD(3) [OF 1(2)] 2(1)]])
  with 2(2,3) show ?thesis by blast
qed

section \<open>Runs\<close>

definition agree :: "response_assembler \<Rightarrow> responses_view \<Rightarrow> bool" where
  "agree st v \<longleftrightarrow> in_step {} st v \<or> ra_terminal st \<and> vw_ended v"

definition agrees :: "responses_step \<Rightarrow> response_assembler \<Rightarrow> responses_view \<Rightarrow> bool" where
  "agrees f st v \<longleftrightarrow> (\<exists>st' v'. tells f st v st' v' \<and> agree st' v')"

lemma agrees_keeps: "keeps f \<Longrightarrow> in_step {} st v \<Longrightarrow> agrees f st v"
  using keepsD by (fastforce simp: agrees_def agree_def)

lemma agrees_ends: "\<exists>st' v'. tells f st v st' v' \<and> ra_terminal st' \<and> vw_ended v' \<Longrightarrow> agrees f st v"
  by (auto simp: agrees_def agree_def)

lemma finish_ends: "in_step {} st v \<Longrightarrow> \<exists>st' v'. tells (finish_response env) st v st' v' \<and> ra_terminal st' \<and> vw_ended v'"
  unfolding finish_response_def
proof (rule ends_after_flush)
  show "ends (\<lambda>st. case ra_provisional st of
      Some error \<Rightarrow> finish_failed_response error st
    | None \<Rightarrow> if ra_stop_reason st = Some ''max_tokens'' then finish_incomplete_response st else finish_completed_response st)"
    unfolding ends_def
  proof (intro allI impI)
    fix st v assume inv: "in_step {} st v" and a: "rl_active (ra_ledger st) = []"
    show "\<exists>st' v'. tells (\<lambda>st. case ra_provisional st of
        Some error \<Rightarrow> finish_failed_response error st
      | None \<Rightarrow> if ra_stop_reason st = Some ''max_tokens'' then finish_incomplete_response st
          else finish_completed_response st) st v st' v' \<and> ra_terminal st' \<and> vw_ended v'"
    proof (cases "ra_provisional st")
      case None
      with ends_otherwise [OF inv a] show ?thesis by (simp add: tells_def)
    next
      case (Some e)
      with ends_failed [of e] inv a show ?thesis by (simp add: tells_def ends_def)
    qed
  qed
qed

lemma fail_ends:
  "in_step {} st v \<Longrightarrow> \<exists>st' v'. tells (fail_response env data) st v st' v' \<and> ra_terminal st' \<and> vw_ended v'"
  "in_step {} st v \<Longrightarrow> \<exists>st' v'. tells (fail_execution env f) st v st' v' \<and> ra_terminal st' \<and> vw_ended v'"
  unfolding fail_response_def fail_execution_def by (rule ends_after_flush [OF ends_failed]; assumption)+

lemma started_in_step:
  "\<exists>v. tells ensure_started (new_assembler env rq now) first_view (snd (ensure_started (new_assembler env rq now))) v \<and>
     in_step {} (snd (ensure_started (new_assembler env rq now))) v"
proof -
  let ?st = "new_assembler env rq now"
  have "vw_seen first_view = ra_sequence (?st\<lparr>ra_started := True\<rparr>)" "\<not> vw_started first_view" "\<not> vw_ended first_view"
    by (simp_all add: first_view_def new_assembler_def)
  from read_created [OF this] show ?thesis
    by (simp add: tells_def ensure_started_def new_assembler_def in_step_def listening_def first_view_def
        new_responses_ledger_def response_created_def)
qed

lemma process_agrees:
  assumes "agree st v"
  shows "\<exists>st' v'. tells (process_anthropic_event env e) st v st' v' \<and> agree st' v'"
proof (cases "ra_terminal st")
  case True
  with assms tells_over show ?thesis unfolding process_anthropic_event_def by blast
next
  case False
  with assms have inv: "in_step {} st v" by (simp add: agree_def)
  let ?f = "if event_name e = ''content_block_start'' then handle_content_block_start env (event_data e)
    else if event_name e = ''content_block_delta'' then handle_content_block_delta env (event_data e)
    else if event_name e = ''content_block_stop'' then handle_content_block_stop env (event_data e)
    else if event_name e = ''message_delta'' then record_message_delta (event_data e)
    else if event_name e = ''message_stop'' then finish_response env
    else if event_name e = ''error'' then fail_response env (event_data e)
    else no_events id"
  have on: "tells ensure_started st v st v"
    using in_stepD(2) [OF inv] by (simp add: tells_def ensure_started_def)
  have "agrees ?f st v"
    by (simp add: agrees_keeps [OF keeps_start inv] agrees_keeps [OF keeps_delta inv] agrees_keeps [OF keeps_stop inv]
        agrees_keeps [OF keeps_message_delta inv] agrees_keeps [OF keeps_same(1) inv]
        agrees_ends [OF finish_ends [OF inv]] agrees_ends [OF fail_ends(1) [OF inv]])
  then obtain st' v' where f: "tells ?f st v st' v'" "agree st' v'" unfolding agrees_def by blast
  have "tells (process_anthropic_event env e) st v st' v'"
    unfolding process_anthropic_event_def by (rule tells_here [OF False tells_followed [OF on f(1)]])
  with f(2) show ?thesis by blast
qed

lemma assemble_agrees: "agree st v \<Longrightarrow> \<exists>st' v'. tells (assemble env es) st v st' v' \<and> agree st' v'"
proof (induction es arbitrary: st v)
  case Nil
  then show ?case using tells_turn_Nil unfolding assemble_def list.map by blast
next
  case (Cons e es)
  obtain st1 v1 where 1: "tells (process_anthropic_event env e) st v st1 v1" "agree st1 v1"
    using process_agrees [OF Cons.prems] by blast
  from Cons.IH [OF 1(2)] obtain st2 v2 where "tells (assemble env es) st1 v1 st2 v2" "agree st2 v2" by blast
  with 1(1) show ?case unfolding assemble_def list.map by (blast intro: tells_turn)
qed

lemma close_ends:
  assumes "in_step {} st v"
  shows "\<exists>st' v'. tells (responses_close env e) st v st' v' \<and> ra_terminal st' \<and> vw_ended v'"
proof (cases e)
  case Input_Ended
  have on: "tells ensure_started st v st v"
    using in_stepD(2) [OF assms] by (simp add: tells_def ensure_started_def)
  obtain st' v' where f: "tells (finish_response env) st v st' v'" "ra_terminal st'" "vw_ended v'"
    using finish_ends [OF assms] by blast
  have "tells (finish_if_needed env) st v st' v'"
    unfolding finish_if_needed_def by (rule tells_here [OF in_stepD(3) [OF assms] tells_followed [OF on f(1)]])
  with f(2,3) Input_Ended show ?thesis by (auto simp: tells_def responses_close_def)
next
  case (Input_Failed f)
  with fail_ends(2) [OF assms] show ?thesis by (simp add: responses_close_def)
next
  case (Input_Crashed t)
  with fail_ends(1) [OF assms] show ?thesis by (simp add: responses_close_def)
qed

text \<open>The first event starts the response, so a new assembler behaves as one that has been started.\<close>

lemma process_starts:
  assumes "\<not> ra_terminal st"
  shows "process_anthropic_event env e st =
    followed_by ensure_started (process_anthropic_event env e) st"
  using assms by (simp add: process_anthropic_event_def unless_terminal_def followed_by_def ensure_started_def
      response_created_def build_event_def split: prod.split)

lemma close_starts:
  "\<not> ra_terminal st \<Longrightarrow> responses_close env Input_Ended st = followed_by ensure_started (responses_close env Input_Ended) st"
  by (simp add: responses_close_def finish_if_needed_def unless_terminal_def followed_by_def ensure_started_def
      response_created_def build_event_def split: prod.split)

lemma followed_tells: "tells f st v st1 v1 \<Longrightarrow> tells g st1 v1 st2 v2 \<Longrightarrow> h st = followed_by f g st \<Longrightarrow> tells h st v st2 v2"
  using tells_followed [of f st v st1 v1 g st2 v2] by (simp add: tells_def)

lemma assemble_new:
  assumes "es \<noteq> []"
  shows "\<exists>st' v'. tells (assemble env es) (new_assembler env rsq now) first_view st' v' \<and> agree st' v' \<and>
    fst (assemble env es (new_assembler env rsq now)) \<noteq> []"
proof -
  obtain e es' where es: "es = e # es'" using assms by (cases es) auto
  let ?st = "new_assembler env rsq now"
  obtain v1 where 1: "tells ensure_started ?st first_view (snd (ensure_started ?st)) v1" "in_step {} (snd (ensure_started ?st)) v1"
    using started_in_step by blast
  have new: "\<not> ra_terminal ?st" by (simp add: new_assembler_def)
  obtain st2 v2 where 2: "tells (process_anthropic_event env e) (snd (ensure_started ?st)) v1 st2 v2" "agree st2 v2"
    using process_agrees 1(2) unfolding agree_def by blast
  have p: "tells (process_anthropic_event env e) ?st first_view st2 v2"
    by (rule followed_tells, rule 1(1), rule 2(1), rule process_starts [OF new])
  obtain st3 v3 where 3: "tells (assemble env es') st2 v2 st3 v3" "agree st3 v3" using assemble_agrees [OF 2(2)] by blast
  have "tells (assemble env es) ?st first_view st3 v3"
    using tells_turn [OF p] 3(1) unfolding es assemble_def list.map by blast
  moreover have "fst (process_anthropic_event env e ?st) \<noteq> []"
    using process_starts [OF new, of env e]
    by (simp add: followed_by_def ensure_started_def new_assembler_def response_created_def build_event_def split: prod.split)
  then have "fst (assemble env es ?st) \<noteq> []"
    unfolding es assemble_def by (auto simp: followed_by_def split: prod.split)
  ultimately show ?thesis using 3(2) by blast
qed

lemma close_new: "responses_contract (fst (responses_close env Input_Ended (new_assembler env rsq now)))"
proof -
  let ?st = "new_assembler env rsq now"
  have new: "\<not> ra_terminal ?st" by (simp add: new_assembler_def)
  obtain v1 where 1: "tells ensure_started ?st first_view (snd (ensure_started ?st)) v1" "in_step {} (snd (ensure_started ?st)) v1"
    using started_in_step by blast
  then obtain st2 v2 where 2: "tells (responses_close env Input_Ended) (snd (ensure_started ?st)) v1 st2 v2" "vw_ended v2"
    using close_ends by blast
  have "tells (responses_close env Input_Ended) ?st first_view st2 v2"
    by (rule followed_tells, rule 1(1), rule 2(1), rule close_starts [OF new])
  with 2(2) show ?thesis by (simp add: tells_def responses_contract_def)
qed

lemma stream_contract_holds:
  "case iter_responses_sse env rsq now es input_end of
     Some out \<Rightarrow> responses_contract out
   | None \<Rightarrow> es = [] \<and> input_end \<noteq> Input_Ended"
proof (cases "es = []")
  case True
  have "assemble env [] st = ([], st)" for st by (simp add: assemble_def no_events_def)
  moreover have "\<not> ra_terminal (new_assembler env rsq now)" by (simp add: new_assembler_def)
  ultimately show ?thesis using True close_new [of env rsq now] by (simp add: iter_responses_sse_def)
next
  case False
  obtain out st where run: "assemble env es (new_assembler env rsq now) = (out, st)" by fastforce
  obtain v where v: "view_run out first_view = Some v" "agree st v" "out \<noteq> []"
    using assemble_new [OF False, of env rsq now] run by (auto simp: tells_def)
  show ?thesis
  proof (cases "ra_terminal st")
    case True
    then have "vw_ended v" using v(2) in_stepD(3) by (auto simp: agree_def)
    with True run v(1) show ?thesis by (simp add: iter_responses_sse_def responses_contract_def)
  next
    case False
    then have "in_step {} st v" using v(2) by (auto simp: agree_def)
    from close_ends [OF this] obtain v' where "view_run (fst (responses_close env input_end st)) v = Some v'" "vw_ended v'"
      by (auto simp: tells_def)
    with v(1) have "responses_contract (out @ fst (responses_close env input_end st))"
      by (simp add: responses_contract_def view_run_append)
    with False run v(3) show ?thesis by (simp add: iter_responses_sse_def)
  qed
qed

end
