(* ===== verification/Responses_Request.thy ===== *)
theory Responses_Request
  imports Responses_Input
begin

text \<open>
  What a Responses request becomes: its tools under names that lead back to them, and a conversation in which
  every block stands in a message of the role it belongs to and every readable call is kept, in order.
\<close>

section \<open>Tools\<close>

text \<open>The tools a client declares, at the top level and in namespaces.\<close>

definition declared_as :: "string option \<Rightarrow> (string, json) dict \<Rightarrow> tool_identity list" where
  "declared_as namespace tool =
     (let one = (\<lambda>kind source. case jget source ''name'' of
        JStr name \<Rightarrow> if name \<noteq> [] then [\<lparr>ti_kind = kind, ti_name = name, ti_namespace = namespace\<rparr>] else []
      | _ \<Rightarrow> [])
      in if jget tool ''type'' = JStr ''function'' then one Function_Tool (function_source tool)
         else if jget tool ''type'' = JStr ''custom'' then one Custom_Tool (custom_source tool)
         else [])"

fun declared_in :: "string \<Rightarrow> json \<Rightarrow> tool_identity list" where
  "declared_in namespace (JObj tool) = declared_as (Some namespace) tool"
| "declared_in namespace _ = []"

fun declared_by :: "json \<Rightarrow> tool_identity list" where
  "declared_by (JObj tool) =
     (if jget tool ''type'' = JStr ''namespace'' then
        (case (jget tool ''name'', jget tool ''tools'') of
           (JStr namespace, JArr nested) \<Rightarrow>
             if namespace \<noteq> [] then concat (map (declared_in namespace) nested) else []
         | _ \<Rightarrow> [])
      else declared_as None tool)"
| "declared_by _ = []"

definition declared_tools :: "json list \<Rightarrow> tool_identity list" where
  "declared_tools tools = concat (map declared_by tools)"

definition tool_alias :: "responses_env \<Rightarrow> tool_identity \<Rightarrow> string" where
  "tool_alias env t = responses_tool_name_to_anthropic_name env (ti_name t) (ti_namespace t)"

definition first_with_alias :: "responses_env \<Rightarrow> string \<Rightarrow> tool_identity list \<Rightarrow> tool_identity option" where
  "first_with_alias env n ts = find (\<lambda>t. tool_alias env t = n) ts"

lemma find_append: "find p (xs @ ys) = (case find p xs of Some x \<Rightarrow> Some x | None \<Rightarrow> find p ys)"
  by (induction xs) auto

lemma first_with_alias_append:
  "first_with_alias env n (xs @ ys) =
    (case first_with_alias env n xs of Some x \<Rightarrow> Some x | None \<Rightarrow> first_with_alias env n ys)"
  unfolding first_with_alias_def by (rule find_append)

lemma named_tool_first: "named_tool env n namespace tool = first_with_alias env n (declared_as namespace tool)"
  by (auto simp: named_tool_def declared_as_def first_with_alias_def tool_alias_def Let_def split: json.splits)

lemma nested_tool_first:
  "nested_tool env n namespace tools = first_with_alias env n (concat (map (declared_in namespace) tools))"
proof (induction env n namespace tools rule: nested_tool.induct)
  case (1 env n namespace)
  show ?case by (simp add: first_with_alias_def)
next
  case (2 env n namespace tool tools)
  then show ?case by (simp add: named_tool_first first_with_alias_append split: option.split)
qed simp_all

lemma optional_str_Some: "optional_str j = Some s \<longleftrightarrow> j = JStr s"
  by (cases j) simp_all

lemma tool_of_entry_first: "tool_of_entry env n tool = first_with_alias env n (declared_by (JObj tool))"
proof (cases "jget tool ''type'' = JStr ''namespace''")
  case True
  then show ?thesis
    by (auto simp: tool_of_entry_def nested_tool_first first_with_alias_def split: json.split option.split)
next
  case False
  then show ?thesis by (simp add: tool_of_entry_def named_tool_first)
qed

lemma tool_in_list_first: "tool_in_list env n tools = first_with_alias env n (declared_tools tools)"
proof (induction env n tools rule: tool_in_list.induct)
  case (1 env n)
  show ?case by (simp add: first_with_alias_def declared_tools_def)
next
  case (2 env n tool tools)
  then show ?case
    by (simp add: declared_tools_def tool_of_entry_first first_with_alias_append split: option.split del: declared_by.simps)
qed (simp_all add: declared_tools_def)

text \<open>The name a converted tool is offered under.\<close>

definition converted_name :: "json \<Rightarrow> string" where
  "converted_name c = (case c of JObj d \<Rightarrow> (case jget d ''name'' of JStr s \<Rightarrow> s | _ \<Rightarrow> []) | _ \<Rightarrow> [])"

lemma jget_dset: "jget (dset k v d) x = (if x = k then v else jget d x)"
  by (simp add: jget_def update_conv')

lemma jget_of_Cons: "jget ((k, v) # d) x = (if x = k then v else jget d x)"
  by (simp add: jget_def)

lemma converted_name_described:
  "converted_name (JObj (described o' ((''name'', JStr n) # d))) = n"
  by (simp add: converted_name_def described_def jget_dset jget_of_Cons)

lemma required_str_InrD: "required_str j f = Inr s \<Longrightarrow> j = JStr s \<and> s \<noteq> []"
  by (cases j) (auto simp: required_str_def split: if_splits)

lemma function_tool_name:
  assumes "responses_function_tool env tool ns = Inr c" "jget tool ''type'' = JStr ''function''"
  shows "[converted_name c] = map (tool_alias env) (declared_as ns tool)"
proof -
  obtain n d where n: "jget (function_source tool) ''name'' = JStr n" "n \<noteq> []"
    and c: "c = JObj (described (optional_str (jget (function_source tool) ''description''))
      ((''name'', JStr (responses_tool_name_to_anthropic_name env n ns)) # d))"
    using assms(1) by (auto simp: responses_function_tool_def bind_result_Inr_iff Let_def dest!: required_str_InrD)
  then show ?thesis using assms(2) by (simp add: declared_as_def tool_alias_def converted_name_described)
qed

lemma custom_tool_name:
  assumes "responses_custom_tool env tool ns = Inr c" "jget tool ''type'' = JStr ''custom''"
  shows "[converted_name c] = map (tool_alias env) (declared_as ns tool)"
proof -
  obtain n d where n: "jget (custom_source tool) ''name'' = JStr n" "n \<noteq> []"
    and c: "c = JObj (described (custom_tool_description env (custom_source tool))
      ((''name'', JStr (responses_tool_name_to_anthropic_name env n ns)) # d))"
    using assms(1) by (auto simp: responses_custom_tool_def bind_result_Inr_iff Let_def dest!: required_str_InrD)
  then show ?thesis using assms(2) by (simp add: declared_as_def tool_alias_def converted_name_described)
qed

lemma nested_tool_name:
  assumes "convert_nested_tool env ns j = Inr c"
  shows "[converted_name c] = map (tool_alias env) (declared_in ns j)"
proof (cases j)
  case (JObj tool)
  then show ?thesis using assms function_tool_name [of env tool "Some ns" c] custom_tool_name [of env tool "Some ns" c]
    by (simp add: convert_nested_tool_def split: if_splits)
qed (use assms in \<open>simp_all add: convert_nested_tool_def\<close>)

lemma map_result_concat:
  assumes "map_result f xs = Inr ys" "\<And>x y. f x = Inr y \<Longrightarrow> g y = h x"
  shows "concat (map g ys) = concat (map h xs)"
  using assms(1) by (induction xs arbitrary: ys) (auto simp: bind_result_Inr_iff assms(2))

lemma one_by_one: "concat (map (\<lambda>c. [f c]) cs) = map f cs"
  by (induction cs) simp_all

lemma nested_tools_name:
  assumes "map_result (convert_nested_tool env ns) nested = Inr cs"
  shows "map converted_name cs = map (tool_alias env) (concat (map (declared_in ns) nested))"
proof -
  have "concat (map (\<lambda>c. [converted_name c]) cs) = concat (map (\<lambda>j. map (tool_alias env) (declared_in ns j)) nested)"
    by (rule map_result_concat [OF assms]) (rule nested_tool_name)
  then show ?thesis by (simp add: map_concat o_def one_by_one)
qed

lemma responses_tool_name:
  assumes "convert_responses_tool env j = Inr cs"
  shows "map converted_name cs = map (tool_alias env) (declared_by j)"
proof (cases j)
  case (JObj tool)
  let ?t = "jget tool ''type''"
  consider (f) "?t = JStr ''function''" | (c) "?t = JStr ''custom''" | (n) "?t = JStr ''namespace''"
    | (p) "?t \<noteq> JStr ''function''" "?t \<noteq> JStr ''custom''" "?t \<noteq> JStr ''namespace''" by blast
  then show ?thesis
  proof cases
    case f
    then obtain c where "responses_function_tool env tool None = Inr c" "cs = [c]"
      using assms JObj by (auto simp: convert_responses_tool_def bind_result_Inr_iff)
    with f JObj function_tool_name [of env tool None c] show ?thesis by simp
  next
    case c
    then obtain c' where "responses_custom_tool env tool None = Inr c'" "cs = [c']"
      using assms JObj by (auto simp: convert_responses_tool_def bind_result_Inr_iff)
    with c JObj custom_tool_name [of env tool None c'] show ?thesis by simp
  next
    case n
    then obtain ns where ns: "jget tool ''name'' = JStr ns" "ns \<noteq> []"
      and tools: "(case jget tool ''tools'' of JArr nested \<Rightarrow> map_result (convert_nested_tool env ns) nested
        | _ \<Rightarrow> Inl Namespace_Tools_Not_List) = Inr cs"
      using assms JObj by (auto simp: convert_responses_tool_def convert_namespace_tool_def bind_result_Inr_iff
          dest: required_str_InrD)
    from tools obtain nested where "jget tool ''tools'' = JArr nested" "map_result (convert_nested_tool env ns) nested = Inr cs"
      by (cases "jget tool ''tools''") simp_all
    with ns n JObj show ?thesis by (simp add: nested_tools_name)
  next
    case p
    then have "cs = []" using assms JObj by (auto simp: convert_responses_tool_def Let_def bind_result_Inr_iff split: if_splits)
    with p JObj show ?thesis by (simp add: declared_as_def)
  qed
qed (use assms in \<open>simp_all add: convert_responses_tool_def\<close>)

lemma responses_tools_name:
  assumes "convert_responses_tools env (JArr tools) = Inr (Some cs)"
  shows "map converted_name cs = map (tool_alias env) (declared_tools tools)"
proof -
  obtain css where r: "map_result (convert_responses_tool env) tools = Inr css" and cs: "cs = concat css"
    using assms by (auto simp: convert_responses_tools_def bind_result_Inr_iff)
  have "concat (map (map converted_name) css) = concat (map (\<lambda>j. map (tool_alias env) (declared_by j)) tools)"
    by (rule map_result_concat [OF r]) (rule responses_tool_name)
  then show ?thesis by (simp add: cs declared_tools_def map_concat o_def)
qed

text \<open>The way back from an alias.\<close>

lemma alias_leads_back:
  assumes "n \<in> set (map (tool_alias env) (declared_tools tools))"
  shows "responses_tool_identity_from_anthropic_name env (Some tools) n \<in> set (declared_tools tools)"
    and "tool_alias env (responses_tool_identity_from_anthropic_name env (Some tools) n) = n"
proof -
  have "first_with_alias env n (declared_tools tools) \<noteq> None"
    using assms by (auto simp: first_with_alias_def find_None_iff)
  then obtain t where t: "first_with_alias env n (declared_tools tools) = Some t" by blast
  then have "t \<in> set (declared_tools tools)" "tool_alias env t = n"
    by (auto simp: first_with_alias_def find_Some_iff)
  with t show "responses_tool_identity_from_anthropic_name env (Some tools) n \<in> set (declared_tools tools)"
    and "tool_alias env (responses_tool_identity_from_anthropic_name env (Some tools) n) = n"
    by (simp_all add: responses_tool_identity_from_anthropic_name_def tool_in_list_first)
qed

lemma distinct_aliases_lead_back:
  assumes "distinct (map (tool_alias env) (declared_tools tools))" "t \<in> set (declared_tools tools)"
  shows "responses_tool_identity_from_anthropic_name env (Some tools) (tool_alias env t) = t"
  using alias_leads_back [of "tool_alias env t" env tools] assms by (auto simp: distinct_map dest: inj_onD)

section \<open>The conversation\<close>

text \<open>A message with only the blocks its role may hold.\<close>

definition content_of_types :: "string list \<Rightarrow> message \<Rightarrow> bool" where
  "content_of_types ws m =
     (case jget m ''content'' of
        JStr _ \<Rightarrow> True
      | JArr bs \<Rightarrow> list_all (\<lambda>b. block_type b \<in> set (map JStr ws)) bs
      | _ \<Rightarrow> False)"

definition well_placed :: "message \<Rightarrow> bool" where
  "well_placed m \<longleftrightarrow>
     jget m ''role'' = JStr ''user'' \<and> content_of_types [''text'', ''tool_result''] m \<or>
     jget m ''role'' = JStr ''assistant'' \<and> content_of_types [''text'', ''tool_use'', ''redacted_thinking''] m"

text \<open>Name and input of the calls in a message, and of the call an input item is.\<close>

fun block_call :: "json \<Rightarrow> (json \<times> json) list" where
  "block_call (JObj d) =
     (if jget d ''type'' = JStr ''tool_use'' then [(jget d ''name'', jget d ''input'')] else [])"
| "block_call _ = []"

definition message_calls :: "message \<Rightarrow> (json \<times> json) list" where
  "message_calls m = concat (map block_call (message_blocks m))"

definition item_alias :: "responses_env \<Rightarrow> (string, json) dict \<Rightarrow> json" where
  "item_alias env item =
     (case jget item ''name'' of
        JStr name \<Rightarrow> JStr (responses_tool_name_to_anthropic_name env name (optional_str (jget item ''namespace'')))
      | _ \<Rightarrow> JNull)"

fun item_call :: "responses_env \<Rightarrow> json \<Rightarrow> (json \<times> json) list" where
  "item_call env (JObj item) =
     (if dget item ''role'' \<noteq> None then []
      else if jget item ''type'' = JStr ''custom_tool_call'' then
        [(item_alias env item, custom_tool_input_to_anthropic env (jget item ''input''))]
      else if jget item ''type'' = JStr ''function_call'' then
        (case parse_arguments env (jget item ''arguments'') of
           Inr d \<Rightarrow> [(item_alias env item, JObj d)] | Inl _ \<Rightarrow> [])
      else [])"
| "item_call env _ = []"

text \<open>A step of the conversion that keeps every message in place and adds these calls.\<close>

definition state_calls :: "input_state \<Rightarrow> (json \<times> json) list" where
  "state_calls st = concat (map message_calls (in_messages st))"

definition adds_calls :: "(json \<times> json) list \<Rightarrow> input_state \<Rightarrow> input_state \<Rightarrow> bool" where
  "adds_calls cs st st' \<longleftrightarrow>
     (list_all well_placed (in_messages st) \<longrightarrow> list_all well_placed (in_messages st')) \<and>
     state_calls st' = state_calls st @ cs"

lemma adds_trans: "adds_calls cs st st1 \<Longrightarrow> adds_calls ds st1 st2 \<Longrightarrow> adds_calls (cs @ ds) st st2"
  by (simp add: adds_calls_def)

lemma adds_then: "adds_calls [] st st1 \<Longrightarrow> adds_calls ds st1 st2 \<Longrightarrow> adds_calls ds st st2"
  by (simp add: adds_calls_def)

lemma adds_same: "in_messages st' = in_messages st \<Longrightarrow> adds_calls [] st st'"
  by (simp add: adds_calls_def state_calls_def)

lemma adds_message: "well_placed m \<Longrightarrow> adds_calls (message_calls m) st (append_message m st)"
  by (simp add: adds_calls_def append_message_def state_calls_def)

lemma adds_change_last:
  assumes "in_messages st = ms @ [m]" "well_placed m \<Longrightarrow> well_placed (f m)" "message_calls (f m) = message_calls m @ cs"
  shows "adds_calls cs st (change_last f st)"
  using assms by (simp add: adds_calls_def change_last_def state_calls_def)

lemma message_calls_dset: "k \<noteq> ''content'' \<Longrightarrow> message_calls (dset k v m) = message_calls m"
  by (simp add: message_calls_def message_blocks_def jget_dset)

lemma well_placed_dset: "k \<noteq> ''content'' \<Longrightarrow> k \<noteq> ''role'' \<Longrightarrow> well_placed (dset k v m) = well_placed m"
  by (simp add: well_placed_def content_of_types_def jget_dset)

lemma reasoning_field_keeps:
  "message_calls (reasoning_field r m) = message_calls m" "well_placed (reasoning_field r m) = well_placed m"
  "jget (reasoning_field r m) ''content'' = jget m ''content''" "jget (reasoning_field r m) ''role'' = jget m ''role''"
  by (cases r, simp_all add: reasoning_field_def message_calls_dset well_placed_dset jget_dset)+

text \<open>The content a change leaves.\<close>

lemma change_content_array:
  assumes "jget m ''content'' = JArr bs"
  shows "change_content f m = dset ''content'' (JArr (f bs)) m"
  using assms by (simp add: change_content_def)

lemma redacted_blocks: "concat (map block_call (map redacted_block es)) = []"
  "list_all (\<lambda>b. block_type b = JStr ''redacted_thinking'') (map redacted_block es)"
  by (induction es) (simp_all add: redacted_block_def jget_of_Cons)

text \<open>An assistant message that is a list of blocks, and what may be done to it.\<close>

definition block_assistant :: "message \<Rightarrow> bool" where
  "block_assistant m \<longleftrightarrow> jget m ''role'' = JStr ''assistant'' \<and> jget m ''content'' = JArr (message_blocks m)"

definition keeps_calls :: "(json \<times> json) list \<Rightarrow> message \<Rightarrow> message \<Rightarrow> bool" where
  "keeps_calls cs m m' \<longleftrightarrow>
     block_assistant m' \<and> (well_placed m \<longrightarrow> well_placed m') \<and> message_calls m' = message_calls m @ cs"

lemma keeps_reasoning_field: "block_assistant m \<Longrightarrow> keeps_calls [] m (reasoning_field r m)"
  by (simp add: keeps_calls_def reasoning_field_keeps block_assistant_def message_blocks_def)

lemma keeps_blocks:
  assumes m: "block_assistant m" and bs: "f (message_blocks m) = xs @ message_blocks m @ ys"
    and xs: "list_all (\<lambda>b. block_type b \<in> set (map JStr [''text'', ''tool_use'', ''redacted_thinking''])) (xs @ ys)"
      "concat (map block_call xs) = []"
  shows "keeps_calls (concat (map block_call ys)) m (change_content f m)"
proof -
  have "change_content f m = dset ''content'' (JArr (xs @ message_blocks m @ ys)) m"
    using m bs by (simp add: block_assistant_def change_content_array)
  moreover obtain ms where "jget m ''content'' = JArr ms" using m by (simp add: block_assistant_def)
  ultimately show ?thesis using m xs
    by (simp add: keeps_calls_def block_assistant_def message_calls_def message_blocks_def jget_dset
        well_placed_def content_of_types_def)
qed

lemma keeps_prepend:
  assumes "block_assistant m"
  shows "keeps_calls [] m (prepend_reasoning_blocks (map redacted_block es) m)"
proof (cases "es = []")
  case True
  with assms show ?thesis by (simp add: prepend_reasoning_blocks_def keeps_calls_def)
next
  case False
  have "keeps_calls (concat (map block_call [])) m (change_content (\<lambda>bs. map redacted_block es @ bs) m)"
    using redacted_blocks [of es] by (intro keeps_blocks [OF assms]) (auto simp: list_all_iff)
  with False show ?thesis by (simp add: prepend_reasoning_blocks_def)
qed

lemma keeps_calls_trans: "keeps_calls cs m m1 \<Longrightarrow> keeps_calls ds m1 m2 \<Longrightarrow> keeps_calls (cs @ ds) m m2"
  by (simp add: keeps_calls_def)

lemma tool_use_message_blocks: "is_tool_use_message m \<Longrightarrow> block_assistant m"
  by (cases "jget m ''content''") (auto simp: is_tool_use_message_def block_assistant_def message_blocks_def)

lemma merge_keeps: "block_assistant m \<Longrightarrow> keeps_calls [] m (merge_message_reasoning t m)"
  unfolding merge_message_reasoning_def by (rule keeps_reasoning_field)

lemma reasoning_into_last_keeps:
  assumes st: "in_messages st = ms @ [m]" and m: "block_assistant m"
  obtains m' where "in_messages (reasoning_into_last st) = ms @ [m']" "keeps_calls [] m m'"
proof
  let ?m1 = "case in_reasoning st of None \<Rightarrow> m | Some t \<Rightarrow> merge_message_reasoning t m"
  let ?m2 = "prepend_reasoning_blocks (map redacted_block (in_encrypted st)) ?m1"
  show "in_messages (reasoning_into_last st) = ms @ [?m2]"
    using st by (simp add: reasoning_into_last_def pending_take_def change_last_def split: option.split)
  have 1: "keeps_calls [] m ?m1"
    using m merge_keeps [OF m] by (cases "in_reasoning st") (simp_all add: keeps_calls_def)
  then have "keeps_calls [] ?m1 ?m2" by (intro keeps_prepend) (simp add: keeps_calls_def)
  from keeps_calls_trans [OF 1 this] show "keeps_calls [] m ?m2" by simp
qed

lemma adds_last:
  assumes "in_messages st = ms @ [m]" "keeps_calls cs m m'" "in_messages st' = ms @ [m']"
  shows "adds_calls cs st st'"
  using assms by (simp add: adds_calls_def keeps_calls_def state_calls_def)

lemma adds_pending_reasoning: "adds_calls [] st (append_pending_reasoning st)"
proof (cases "in_reasoning st = None \<and> in_encrypted st = []")
  case True
  then show ?thesis by (intro adds_same) (simp add: append_pending_reasoning_def pending_take_def)
next
  case False
  let ?st = "st\<lparr>in_reasoning := None, in_encrypted := []\<rparr>"
  let ?bs = "map redacted_block (in_encrypted st)"
  let ?m = "reasoning_field (in_reasoning st)
    [(''role'', JStr ''assistant''), (''content'', if ?bs = [] then JStr [] else JArr ?bs)]"
  have "well_placed ?m" "message_calls ?m = []"
    using redacted_blocks [of "in_encrypted st"]
    by (auto simp: reasoning_field_keeps well_placed_def content_of_types_def jget_of_Cons message_calls_def
        message_blocks_def list_all_iff)
  then have "adds_calls [] ?st (append_message ?m ?st)" using adds_message [of ?m ?st] by simp
  moreover have "append_pending_reasoning st = append_message ?m ?st"
    using False by (auto simp: append_pending_reasoning_def pending_take_def)
  ultimately show ?thesis using adds_then [OF adds_same [of ?st st]] by simp
qed

lemma adds_reasoning_before_output: "adds_calls [] st (append_reasoning_before_output st)"
proof -
  have "adds_calls [] st (reasoning_into_last st)" if l: "last_is is_tool_use_message st"
  proof -
    obtain ms m where m: "in_messages st = ms @ [m]" "is_tool_use_message m"
      using l by (cases "in_messages st" rule: rev_cases) (auto simp: last_is_def)
    obtain m' where "in_messages (reasoning_into_last st) = ms @ [m']" "keeps_calls [] m m'"
      using reasoning_into_last_keeps [OF m(1) tool_use_message_blocks [OF m(2)]] by blast
    then show ?thesis using adds_last [OF m(1)] by blast
  qed
  then show ?thesis
    by (simp add: append_reasoning_before_output_def adds_pending_reasoning adds_same)
qed

lemma adds_tool_use:
  "adds_calls [(JStr n, inp)] st (append_tool_use_message (tool_use_block i n inp) st)"
proof -
  let ?empty = "[(''role'', JStr ''assistant''), (''content'', JArr [])]"
  let ?st = "if last_is is_tool_use_message st then st else append_message ?empty st"
  have 0: "adds_calls [] st ?st"
    using adds_message [of ?empty st] adds_same [of st st]
    by (simp add: well_placed_def content_of_types_def jget_of_Cons message_calls_def message_blocks_def)
  obtain ms m where m: "in_messages ?st = ms @ [m]" "block_assistant m"
  proof (cases "last_is is_tool_use_message st")
    case True
    then show ?thesis using that tool_use_message_blocks
      by (cases "in_messages st" rule: rev_cases) (auto simp: last_is_def)
  next
    case False
    then show ?thesis using that
      by (simp add: append_message_def block_assistant_def jget_of_Cons message_blocks_def)
  qed
  obtain m1 where m1: "in_messages (reasoning_into_last ?st) = ms @ [m1]" "keeps_calls [] m m1"
    using reasoning_into_last_keeps [OF m] by blast
  let ?use = "tool_use_block i n inp"
  let ?m2 = "change_content (\<lambda>bs. bs @ [?use]) m1"
  have "keeps_calls (concat (map block_call [?use])) m1 ?m2"
    using m1(2) by (intro keeps_blocks [where xs = "[]"]) (simp_all add: keeps_calls_def tool_use_block_def jget_of_Cons)
  then have "keeps_calls [(JStr n, inp)] m1 ?m2" by (simp add: tool_use_block_def jget_of_Cons)
  from keeps_calls_trans [OF m1(2) this] have 2: "keeps_calls [(JStr n, inp)] m ?m2" by simp
  have "in_messages (append_tool_use_message ?use st) = ms @ [?m2]"
    using m1(1) by (simp add: append_tool_use_message_def change_last_def Let_def)
  from adds_then [OF 0 adds_last [OF m(1) 2 this]] show ?thesis .
qed

lemma result_block: "block_type (tool_result_json i c) = JStr ''tool_result''" "block_call (tool_result_json i c) = []"
  by (simp_all add: tool_result_json_def jget_of_Cons)

lemma adds_tool_result: "adds_calls [] st (append_tool_result_message (tool_result_json i c) st)"
proof -
  let ?empty = "[(''role'', JStr ''user''), (''content'', JArr [])]"
  let ?st = "if last_is is_tool_result_message st then st else append_message ?empty st"
  have 0: "adds_calls [] st ?st"
    using adds_message [of ?empty st] adds_same [of st st]
    by (simp add: well_placed_def content_of_types_def jget_of_Cons message_calls_def message_blocks_def)
  obtain ms m bs where m: "in_messages ?st = ms @ [m]" "jget m ''role'' = JStr ''user''" "jget m ''content'' = JArr bs"
  proof (cases "last_is is_tool_result_message st")
    case True
    then obtain ms m where m: "in_messages st = ms @ [m]" "is_tool_result_message m"
      by (cases "in_messages st" rule: rev_cases) (auto simp: last_is_def)
    then obtain bs where "jget m ''content'' = JArr bs"
      by (cases "jget m ''content''") (auto simp: is_tool_result_message_def message_blocks_def)
    with m True that show ?thesis by (simp add: is_tool_result_message_def)
  next
    case False
    then show ?thesis using that by (simp add: append_message_def jget_of_Cons)
  qed
  let ?f = "change_content (\<lambda>bs. bs @ [tool_result_json i c])"
  have "adds_calls [] ?st (change_last ?f ?st)"
  proof (rule adds_change_last [OF m(1)])
    show "well_placed m \<Longrightarrow> well_placed (?f m)" using m(2,3)
      by (simp add: change_content_array well_placed_def content_of_types_def jget_dset result_block)
    show "message_calls (?f m) = message_calls m @ []" using m(3)
      by (simp add: change_content_array message_calls_def message_blocks_def jget_dset result_block)
  qed
  then show ?thesis using adds_then [OF 0] by (simp add: append_tool_result_message_def Let_def)
qed

text \<open>Converted content has text blocks only.\<close>

lemma converted_part:
  assumes "convert_content_part env p = Inr b"
  shows "block_type b = JStr ''text'' \<and> block_call b = []"
proof -
  obtain t where "b = text_block_json t"
    using assms by (auto simp: convert_content_part_def Let_def bind_result_Inr_iff split: json.splits if_splits)
  then show ?thesis by (simp add: text_block_json_def jget_of_Cons)
qed

lemma map_result_all:
  assumes "map_result f xs = Inr ys" "\<And>x y. f x = Inr y \<Longrightarrow> p y"
  shows "list_all p ys"
  using assms(1) by (induction xs arbitrary: ys) (auto simp: bind_result_Inr_iff assms(2))

definition text_only_content :: "json \<Rightarrow> bool" where
  "text_only_content c \<longleftrightarrow>
     (case c of JStr _ \<Rightarrow> True
      | JArr bs \<Rightarrow> list_all (\<lambda>b. block_type b = JStr ''text'' \<and> block_call b = []) bs | _ \<Rightarrow> False)"

lemma converted_content: "convert_message_content env c = Inr c' \<Longrightarrow> text_only_content c'"
  by (cases c) (auto simp: convert_message_content_def text_only_content_def bind_result_Inr_iff text_block_json_def
      jget_of_Cons dest: map_result_all [OF _ converted_part])

text \<open>Content behind the reasoning blocks that precede it.\<close>

definition reasoned_content :: "bool \<Rightarrow> json \<Rightarrow> bool" where
  "reasoned_content reasoned c \<longleftrightarrow>
     (case c of JStr _ \<Rightarrow> True
      | JArr bs \<Rightarrow> list_all (\<lambda>b. block_call b = [] \<and>
          (block_type b = JStr ''text'' \<or> reasoned \<and> block_type b = JStr ''redacted_thinking'')) bs
      | _ \<Rightarrow> False)"

lemma reasoned_behind:
  assumes "text_only_content c"
  shows "reasoned_content (es \<noteq> []) (with_reasoning_blocks (map redacted_block es) c)"
  using assms by (cases c) (auto simp: with_reasoning_blocks_def text_only_content_def reasoned_content_def list_all_iff
      text_block_json_def jget_of_Cons redacted_block_def)

lemma text_message_placed:
  assumes "reasoned_content reasoned c" "r = ''user'' \<and> \<not> reasoned \<or> r = ''assistant''"
  shows "well_placed (reasoning_field t [(''role'', JStr r), (''content'', c)])"
    and "message_calls (reasoning_field t [(''role'', JStr r), (''content'', c)]) = []"
  using assms by (cases c; auto simp: reasoning_field_keeps reasoned_content_def well_placed_def content_of_types_def
      message_calls_def message_blocks_def jget_of_Cons list_all_iff)+

lemma adds_message_item:
  assumes item: "append_message_item env role content takes st = Inr st'"
  shows "adds_calls [] st st'"
proof -
  define r where "r = (if role = ''developer'' then ''system'' else role)"
  note item = item [unfolded append_message_item_def Let_def, folded r_def]
  show ?thesis
  proof (cases "r = ''system''")
    case True
    with item obtain t where "Inr (if t \<noteq> [] then st\<lparr>in_system := in_system st @ [t]\<rparr> else st) =
        (Inr st' :: responses_error + input_state)"
      unfolding if_P [OF True] bind_result_Inr_iff by blast
    then have "st' = (if t \<noteq> [] then st\<lparr>in_system := in_system st @ [t]\<rparr> else st)" by simp
    then show ?thesis by (intro adds_same) simp
  next
    case False
    note item = item [unfolded if_not_P [OF False]]
    then have role: "r = ''user'' \<or> r = ''assistant''" by (rule contrapos_pp) simp
    then have not: "\<not> (r \<noteq> ''user'' \<and> r \<noteq> ''assistant'')" by blast
    note item = item [unfolded if_not_P [OF not] bind_result_Inr_iff]
    then obtain c where c: "convert_message_content env content = Inr c" by blast
    let ?takes = "r = ''assistant'' \<and> takes"
    let ?t = "if ?takes then in_reasoning st else None" and ?es = "if ?takes then in_encrypted st else []"
    let ?st = "if ?takes then st\<lparr>in_reasoning := None, in_encrypted := []\<rparr> else st"
    let ?m = "reasoning_field ?t [(''role'', JStr r), (''content'', with_reasoning_blocks (map redacted_block ?es) c)]"
    have "st' = append_message ?m ?st"
    proof (cases ?takes)
      case True
      from item c show ?thesis unfolding if_P [OF True] by (simp add: pending_take_def)
    next
      case False
      from item c show ?thesis unfolding if_not_P [OF False] by simp
    qed
    moreover have "r = ''user'' \<and> \<not> ?es \<noteq> [] \<or> r = ''assistant''" using role by force
    note placed = text_message_placed [OF reasoned_behind [OF converted_content [OF c]] this, of ?t]
    moreover have "adds_calls [] ?st (append_message ?m ?st)"
      using adds_message [OF placed(1), of ?st] unfolding placed(2) .
    ultimately show ?thesis using adds_then [OF adds_same [of ?st st]] by simp
  qed
qed

lemma in_messages_drawn [simp]: "in_messages (snd (draw_id env item st)) = in_messages st"
  by (simp add: draw_id_def split: prod.split)

lemma adds_call:
  assumes r: "append_call env s item st = Inr st'" and s: "s = ''function_call'' \<or> s = ''custom_tool_call''"
    and item: "jget item ''type'' = JStr s" "dget item ''role'' = None"
  shows "adds_calls (item_call env (JObj item)) st st'"
proof -
  obtain n where n: "jget item ''name'' = JStr n"
    using r by (auto simp: append_call_def bind_result_Inr_iff dest: required_str_InrD)
  obtain i st1 where d: "draw_id env item st = (i, st1)" by fastforce
  then have 1: "adds_calls [] st st1" using in_messages_drawn [of env item st] by (intro adds_same) simp
  note run = r [unfolded append_call_def n required_str_def, simplified]
  show ?thesis
  proof (cases "s = ''custom_tool_call''")
    case True
    with run d show ?thesis using item n adds_then [OF 1 adds_tool_use]
      by (auto simp: item_alias_def bind_result_Inr_iff split: if_splits)
  next
    case False
    with s have f: "s = ''function_call''" by simp
    show ?thesis
    proof (cases "parse_arguments env (jget item ''arguments'')")
      case (Inl e)
      have "adds_calls [] st1 (st1\<lparr>in_quarantined := in_quarantined st1 @ [i]\<rparr>)" by (rule adds_same) simp
      from adds_then [OF 1 this] run d f Inl item show ?thesis by (auto simp: bind_result_Inr_iff split: if_splits)
    next
      case (Inr a)
      with run d f item n show ?thesis using adds_then [OF 1 adds_tool_use]
        by (auto simp: item_alias_def bind_result_Inr_iff split: if_splits)
    qed
  qed
qed

lemma adds_output: "adds_calls [] st (append_output env s item st)"
proof -
  obtain i st1 where d: "draw_id env item st = (i, st1)" by fastforce
  then have 1: "adds_calls [] st st1" using in_messages_drawn [of env item st] by (intro adds_same) simp
  have "adds_calls [] st1 (append_tool_result_message (tool_result_json i c) (append_reasoning_before_output st1))" for c
    by (rule adds_then [OF adds_reasoning_before_output adds_tool_result])
  with 1 d show ?thesis using adds_then [OF 1] by (simp add: append_output_def)
qed

lemma adds_role_item: "append_role_item env item st = Inr st' \<Longrightarrow> adds_calls [] st st'"
  by (auto simp: append_role_item_def bind_result_Inr_iff split: if_splits
      intro: adds_message_item adds_then [OF adds_pending_reasoning])

lemma adds_user_message: "adds_calls [] st (append_message (user_message t) (append_pending_reasoning st))"
proof -
  have "well_placed (user_message t)" "message_calls (user_message t) = []"
    by (simp_all add: user_message_def well_placed_def content_of_types_def jget_of_Cons message_calls_def message_blocks_def)
  then show ?thesis using adds_then [OF adds_pending_reasoning adds_message] by metis
qed

lemma adds_object_item:
  assumes "append_object_item env item st = Inr st'"
  shows "adds_calls (item_call env (JObj item)) st st'"
proof (cases "jget item ''type'' = JNull \<or> jget item ''type'' = JStr ''message'' \<or> dget item ''role'' \<noteq> None")
  case True
  then have "item_call env (JObj item) = []" by auto
  with True assms show ?thesis by (simp add: append_object_item_def adds_role_item)
next
  case False
  then obtain s where s: "jget item ''type'' = JStr s" "dget item ''role'' = None"
    using assms by (cases "jget item ''type''") (auto simp: append_object_item_def)
  show ?thesis
  proof (cases "s = ''function_call'' \<or> s = ''custom_tool_call''")
    case True
    with False s assms show ?thesis by (intro adds_call) (auto simp: append_object_item_def)
  next
    case other: False
    then have none: "item_call env (JObj item) = []" using s by simp
    have reasoning: "adds_calls [] st (pending_add_item item st)"
      by (rule adds_same) (simp add: pending_add_item_def Let_def)
    consider "st' = append_output env s item st" | "st' = pending_add_item item st"
      | "st' = append_message (user_message (text_from_part item)) (append_pending_reasoning st)"
      using False other s assms by (simp add: append_object_item_def split: if_splits)
    then show ?thesis unfolding none by cases (simp_all only: adds_output adds_user_message reasoning)
  qed
qed

lemma adds_input_item: "append_input_item env j st = Inr st' \<Longrightarrow> adds_calls (item_call env j) st st'"
  by (cases j) (auto simp: adds_user_message adds_object_item simp del: item_call.simps(1))

lemma adds_input_items:
  "append_input_items env js st = Inr st' \<Longrightarrow> adds_calls (concat (map (item_call env) js)) st st'"
proof (induction js arbitrary: st)
  case Nil
  then show ?case by (simp add: adds_same)
next
  case (Cons j js)
  then obtain st1 where "append_input_item env j st = Inr st1" "append_input_items env js st1 = Inr st'"
    by (auto simp: bind_result_Inr_iff)
  with Cons.IH adds_trans adds_input_item show ?case by fastforce
qed

lemma dget_set_if_given: "dget (set_if_given k v d) x = (if x = k \<and> v \<noteq> None then v else dget d x)"
  by (cases v) (simp_all add: set_if_given_def update_conv')

lemma dget_set_unless_null: "dget (set_unless_null k v d) x = (if x = k \<and> v \<noteq> JNull then Some v else dget d x)"
  by (simp add: set_unless_null_def update_conv')

lemma payload_messages:
  assumes "convert_request_to_anthropic_payload env rq = Inr p"
  obtains st where "append_input_items env (iter_input_items (rsq_input rq)) (initial_input rq) = Inr st"
    "in_messages (append_pending_reasoning st) \<noteq> []"
    "dget p ''messages'' = Some (JArr (map JObj (in_messages (append_pending_reasoning st))))"
  using assms by (auto simp: convert_request_to_anthropic_payload_def bind_result_Inr_iff Let_def dget_set_if_given
      dget_set_unless_null split: if_splits)

lemma payload_history:
  assumes "convert_request_to_anthropic_payload env rq = Inr p"
  shows "\<exists>ms. dget p ''messages'' = Some (JArr (map JObj ms)) \<and> ms \<noteq> [] \<and> list_all well_placed ms \<and>
    concat (map message_calls ms) = concat (map (item_call env) (iter_input_items (rsq_input rq)))"
proof -
  obtain st where st: "append_input_items env (iter_input_items (rsq_input rq)) (initial_input rq) = Inr st"
    "in_messages (append_pending_reasoning st) \<noteq> []"
    "dget p ''messages'' = Some (JArr (map JObj (in_messages (append_pending_reasoning st))))"
    using payload_messages [OF assms] by blast
  have "adds_calls (concat (map (item_call env) (iter_input_items (rsq_input rq)))) (initial_input rq) (append_pending_reasoning st)"
    using adds_trans [OF adds_input_items [OF st(1)] adds_pending_reasoning] by simp
  then have "list_all well_placed (in_messages (append_pending_reasoning st)) \<and>
      concat (map message_calls (in_messages (append_pending_reasoning st))) =
      concat (map (item_call env) (iter_input_items (rsq_input rq)))"
    by (simp add: adds_calls_def state_calls_def initial_input_def)
  with st(2,3) show ?thesis by blast
qed

end
