(* ===== verification/Responses_Properties.thy ===== *)
theory Responses_Properties
  imports Responses_Runs Responses_Request
begin

text \<open>
  The properties of the Responses API adapter: the event stream a client is told, and the request a provider
  is given.
\<close>

text \<open>
  C16. Whatever events the upstream sends, in whatever order and however it ends, the client of the Responses
  API is told a well-formed response: events are numbered without gaps; the response begins once and ends
  once, and nothing follows the end; an item is announced in its place before anything is said about it and
  is done at most once, with the id it was announced with; every event that states the whole text of an item
  states exactly what was sent in its deltas; and the final response lists exactly the items that were done,
  all of them unless the response failed. Only a failure before the first event is raised instead.
\<close>

theorem responses_stream_is_well_formed:
  "case iter_responses_sse env rsq now es input_end of
     Some out \<Rightarrow> responses_contract out
   | None \<Rightarrow> es = [] \<and> input_end \<noteq> Input_Ended"
  by (rule stream_contract_holds)

text \<open>
  C17. A Responses request that converts becomes a conversation in which every message is the user's or the
  assistant's, text and tool results stand in user messages, text, tool calls and redacted reasoning in
  assistant messages, and the calls in it are, in order, those of the input whose arguments can be read,
  under the names their tools have in the Messages API: none is lost, invented or moved.
\<close>

theorem responses_history_is_placed:
  assumes "convert_request_to_anthropic_payload env rq = Inr p"
  shows "\<exists>ms. dget p ''messages'' = Some (JArr (map JObj ms)) \<and> ms \<noteq> [] \<and> list_all well_placed ms \<and>
    concat (map message_calls ms) = concat (map (item_call env) (iter_input_items (rsq_input rq)))"
  using assms by (rule payload_history)

text \<open>
  C18. The tools of a request that converts are offered to the model one for one, in the order of their
  declaration. The name a tool is offered under leads back to a declared tool that has this name; if no two
  tools are offered under one name, every name leads back to the tool itself, with its kind and namespace.
\<close>

theorem offered_tools_lead_back:
  assumes "convert_responses_tools env (JArr tools) = Inr (Some cs)"
  shows "let origin = (\<lambda>c. responses_tool_identity_from_anthropic_name env (Some tools) (converted_name c)) in
    map converted_name cs = map (tool_alias env) (declared_tools tools) \<and>
    list_all (\<lambda>c. origin c \<in> set (declared_tools tools) \<and> tool_alias env (origin c) = converted_name c) cs \<and>
    (distinct (map converted_name cs) \<longrightarrow> map origin cs = declared_tools tools)"
proof -
  let ?of = "responses_tool_identity_from_anthropic_name env (Some tools)"
  note names = responses_tools_name [OF assms(1)]
  have "map (\<lambda>c. ?of (converted_name c)) cs = map ?of (map converted_name cs)" by simp
  also have "\<dots> = map (\<lambda>t. ?of (tool_alias env t)) (declared_tools tools)" unfolding names by simp
  also have "\<dots> = declared_tools tools" if "distinct (map converted_name cs)"
    using that unfolding names by (intro map_idI) (rule distinct_aliases_lead_back)
  finally have "distinct (map converted_name cs) \<longrightarrow> map (\<lambda>c. ?of (converted_name c)) cs = declared_tools tools"
    by blast
  moreover have "?of (converted_name c) \<in> set (declared_tools tools) \<and> tool_alias env (?of (converted_name c)) = converted_name c"
    if "c \<in> set cs" for c
  proof -
    have "converted_name c \<in> set (map converted_name cs)" using that by simp
    then show ?thesis unfolding names using alias_leads_back by blast
  qed
  ultimately show ?thesis using names by (simp add: list_all_iff)
qed

text \<open>
  C19. No provider key that stands by itself survives in an error text on its way to a client or a log:
  not in the redacted text, not in the message made of it, not in its preview, whatever the text was and
  wherever the preview cuts it. This covers keys that were there and keys that the replacements before
  would have put together; letters and digits directly before a key hide it from the expression.
\<close>

theorem provider_keys_do_not_survive:
  assumes "rx_word key_body w" and "a = [] \<or> \<not> class_has ALNUM (last a)"
  shows "redact_sensitive_error_text s \<noteq> a @ w @ b \<and> safe_exception_message s \<noteq> a @ w @ b \<and>
    format_user_error_preview s n \<noteq> a @ w @ b"
proof -
  note clean = redacted_text_clean [OF assms]
  have "\<not> rx_search key_body ''Provider request failed unexpectedly.''" by code_simp
  then have fallback: "''Provider request failed unexpectedly.'' \<noteq> a @ w @ x" for x
    unfolding search_plain [OF key_body_plain] using assms(1) by blast
  have message: "safe_exception_message s \<noteq> a @ w @ x" for x
    using clean [of "py_strip s"] fallback [of x] unfolding safe_exception_message_def Let_def by presburger
  have "format_user_error_preview s n \<noteq> a @ w @ b"
  proof
    assume "format_user_error_preview s n = a @ w @ b"
    then have "safe_exception_message s = a @ w @ (b @ drop n (safe_exception_message s))"
      unfolding format_user_error_preview_def by (metis append.assoc append_take_drop_id)
    then show False using message by blast
  qed
  then show ?thesis using clean message by blast
qed

theorem provider_keys_do_not_survive_witness:
  "safe_exception_message ''bad key sk-abcdefgh_gsk_12345678.'' \<noteq> ''bad key '' @ ''sk-abcdefgh'' @ ''_gsk_12345678.''"
proof -
  have key: "rx_word key_body ''sk-abcdefgh''"
  proof -
    have "rx_match key_body ([], ''sk-abcdefgh'', []) = [(rev ''sk-abcdefgh'', [], [])]" by code_simp
    then have "(rev ''sk-abcdefgh'', [], []) \<in> set (rx_match key_body ([], ''sk-abcdefgh'', []))" by simp
    from finds_sound [OF match_finds [OF plain_regular [OF key_body_plain]] this] show ?thesis
      by (metis append_Nil2 fst_conv rx_word_def snd_conv)
  qed
  have "\<not> class_has ALNUM (last ''bad key '')" by code_simp
  with provider_keys_do_not_survive [OF key, of "''bad key ''"] show ?thesis by blast
qed

section \<open>At a concrete request\<close>

definition plain_env :: responses_env where
  "plain_env =
     \<lparr>rs_loads = (\<lambda>s. if s = ''{}'' then Some (JObj []) else None), rs_dumps = (\<lambda>_. ''{}''),
      rs_dumps_compact = (\<lambda>_. ''{}''), rs_str = (\<lambda>_. []), rs_sha1 = (\<lambda>_. ''0123456789''),
      rs_uuid = (\<lambda>n. replicate n (CHR ''a'')), rs_encoder = None\<rparr>"

definition two_tools :: "json list" where
  "two_tools =
     [JObj [(''type'', JStr ''function''), (''name'', JStr ''run'')],
      JObj [(''type'', JStr ''namespace''), (''name'', JStr ''fs''),
        (''tools'', JArr [JObj [(''type'', JStr ''custom''), (''name'', JStr ''cat'')]])]]"

definition short_request :: responses_request where
  "short_request =
     \<lparr>rsq_model = ''m'',
      rsq_input = JArr [JObj [(''role'', JStr ''user''), (''content'', JStr ''hi'')],
        JObj [(''type'', JStr ''function_call''), (''call_id'', JStr ''c''), (''name'', JStr ''run''), (''arguments'', JStr ''{}'')],
        JObj [(''type'', JStr ''function_call_output''), (''call_id'', JStr ''c''), (''output'', JStr ''ok'')]],
      rsq_instructions = None, rsq_tools = None, rsq_tool_choice = JNull, rsq_parallel_tool_calls = None,
      rsq_temperature = JNull, rsq_top_p = JNull, rsq_max_output_tokens = None, rsq_metadata = JNull,
      rsq_reasoning = JNull\<rparr>"

lemma responses_history_is_placed_witness:
  "\<exists>p ms. convert_request_to_anthropic_payload plain_env short_request = Inr p \<and>
    dget p ''messages'' = Some (JArr (map JObj ms)) \<and> list_all well_placed ms \<and>
    concat (map message_calls ms) = [(JStr ''run'', JObj [])]"
proof -
  have "(case convert_request_to_anthropic_payload plain_env short_request of Inr _ \<Rightarrow> True | Inl _ \<Rightarrow> False)"
    by code_simp
  then obtain p where p: "convert_request_to_anthropic_payload plain_env short_request = Inr p"
    by (cases "convert_request_to_anthropic_payload plain_env short_request") simp_all
  have "concat (map (item_call plain_env) (iter_input_items (rsq_input short_request))) = [(JStr ''run'', JObj [])]"
    by code_simp
  with p responses_history_is_placed [OF p] show ?thesis by auto
qed

lemma offered_tools_lead_back_witness:
  "\<exists>cs. convert_responses_tools plain_env (JArr two_tools) = Inr (Some cs) \<and>
    map converted_name cs = [''run'', ''fs__cat''] \<and>
    map (\<lambda>c. responses_tool_identity_from_anthropic_name plain_env (Some two_tools) (converted_name c)) cs =
      [\<lparr>ti_kind = Function_Tool, ti_name = ''run'', ti_namespace = None\<rparr>,
       \<lparr>ti_kind = Custom_Tool, ti_name = ''cat'', ti_namespace = Some ''fs''\<rparr>]"
proof -
  have "(case convert_responses_tools plain_env (JArr two_tools) of Inr (Some _) \<Rightarrow> True | _ \<Rightarrow> False)"
    by code_simp
  then obtain cs where cs: "convert_responses_tools plain_env (JArr two_tools) = Inr (Some cs)"
    by (auto split: sum.splits option.splits)
  have declared: "declared_tools two_tools =
      [\<lparr>ti_kind = Function_Tool, ti_name = ''run'', ti_namespace = None\<rparr>,
       \<lparr>ti_kind = Custom_Tool, ti_name = ''cat'', ti_namespace = Some ''fs''\<rparr>]"
    by code_simp
  have "map (tool_alias plain_env) (declared_tools two_tools) = [''run'', ''fs__cat'']"
    by code_simp
  with offered_tools_lead_back [OF cs] have "map converted_name cs = [''run'', ''fs__cat'']" by simp
  with cs offered_tools_lead_back [OF cs] declared show ?thesis by auto
qed

end
