(* ===== verification/Spec2Isabelle.thy ===== *)
theory Spec2Isabelle
  imports Messaging_Properties Streaming_Properties Admission_Properties Conversion_Properties
    Manager_Properties Gateway_Properties Guard_Properties Responses_Properties
begin

text \<open>
  A verification library for \<open>free-claude-code\<close>, a local gateway that answers the Anthropic Messages API (and
  the OpenAI Responses API) with the models of other providers, and runs coding agents for chat platforms.
  File names below are relative to \<open>src/src/free_claude_code/\<close>.

  \<^bold>\<open>How the program fits together.\<close> A request enters at \<open>api/\<close>. \<open>application/routing.py\<close> finds the provider
  and model it is meant for, with fallbacks and a reasoning policy; \<open>application/execution.py\<close> redacts it
  (\<open>core/security\<close>) and tries the candidates in order under a progress timeout. A provider turns the typed
  request into an OpenAI chat request (\<open>core/anthropic/conversion.py\<close>), is admitted to its upstream
  (\<open>providers/admission.py\<close>, \<open>core/rate_limit.py\<close>), and rebuilds the upstream's chunks as an Anthropic event
  stream (\<open>providers/openai_chat\<close>, \<open>core/anthropic\<close>), rescuing what it can when the upstream fails. A client of
  the Responses API is served by translating its request to a Messages request and that event stream to
  Responses events (\<open>core/openai_responses\<close>). The chat
  side (\<open>messaging/trees\<close>) keeps a tree of prompts per conversation with one running claim and a queue,
  and one manager for all trees. \<open>security/hook_guard.py\<close> is a separate process that judges every tool
  call of the agent.

  \<^bold>\<open>Theories and what they model.\<close> A definition has the name of the function, method or class it models (in
  lower case, with a prefix where two classes share a name); a method takes the object's state and returns
  the new one; an exception is \<open>Inl\<close> or \<open>None\<close>.

  \<^item> Ground: \<open>Prelude\<close> (results, insertion-ordered dictionaries, graph walks, the locales \<open>py_dict\<close> and
    \<open>machine\<close>), \<open>Json\<close>, \<open>Py_String\<close>, \<open>Regex\<close> and \<open>Regex_Meaning\<close> (Python's \<open>re\<close>: a backtracking matcher
    over a datatype of expressions, proved to find exactly what a declarative meaning \<open>rx_accepts\<close> allows).
  \<^item> Conversations: \<open>Message_Queue\<close> (\<open>messaging/trees/queue.py\<close>, locale \<open>unique_fifo\<close>), \<open>Message_Graph\<close>
    (\<open>node.py\<close>, \<open>graph.py\<close>), \<open>Tree_Snapshot\<close> (\<open>snapshot.py\<close>), \<open>Message_Tree\<close> (\<open>runtime.py\<close>,
    \<open>transitions.py\<close>), \<open>Tree_Repository\<close> (\<open>repository.py\<close>), \<open>Tree_Manager\<close> (\<open>processor.py\<close>,
    \<open>manager.py\<close>). \<open>Graph_Lemmas\<close>, \<open>Graph_Changes\<close>, \<open>Graph_Removal\<close>: the walks end and visit what lies
    below, changes keep \<open>graph_ok\<close>. \<open>Tree_Invariant\<close> to \<open>Tree_Machine\<close>: every operation keeps \<open>tree_ok\<close>
    whether it returns or raises, the runs of a tree (an interpretation of \<open>machine\<close>), the refinement of a
    scheduler with one slot and a line. \<open>Snapshot_Restore\<close>, \<open>Snapshot_Roundtrip\<close>, \<open>Tree_Restore\<close>:
    persistence. \<open>Tree_References\<close>, \<open>Manager_Invariant\<close> to \<open>Manager_Drain\<close>: all interleavings of callers
    and tasks, with the points where an asyncio task can be suspended as the steps.
    \<open>Messaging_Properties\<close>, \<open>Manager_Properties\<close>: the properties.
  \<^item> Streaming: \<open>Stream_Ledger\<close> (\<open>core/anthropic/streaming/ledger.py\<close>), \<open>Stream_Contract\<close>
    (\<open>stream_contracts.py\<close>), \<open>Think_Parser\<close> (\<open>thinking.py\<close>), \<open>Tool_Names\<close> (\<open>openai_tool_names.py\<close>),
    \<open>Tool_Schema\<close> (\<open>tool_schema.py\<close>), \<open>Function_Tags\<close> and \<open>Heuristic_Tools\<close> (\<open>tools.py\<close>, each
    with an account of what becomes of a whole answer),
    \<open>Tool_Recovery\<close> (\<open>streaming/recovery.py\<close>), \<open>Tool_Assembly\<close> (\<open>providers/openai_chat/tool_calls.py\<close>),
    \<open>Provider_Stream\<close> and \<open>Provider_Recovery\<close> (\<open>providers/openai_chat/provider.py\<close>), \<open>Stream_Holdback\<close>
    (\<open>providers/stream_recovery.py\<close>). \<open>Ledger_Invariant\<close>, \<open>Ledger_Runs\<close>, \<open>Assembly_Invariant\<close>,
    \<open>Provider_Invariant\<close>, \<open>Provider_Completion\<close>, \<open>Recovery_Invariant\<close>: the ledger and the contract move in
    step, from a single block up to a stream with failing attempts. \<open>Streaming_Properties\<close>: the properties.
  \<^item> Admission: \<open>Sliding_Window\<close> (\<open>core/rate_limit.py\<close>), \<open>Admission\<close> (the controller of
    \<open>providers/admission.py\<close>), \<open>Admission_System\<close> (the tasks that share it, as events in any order).
    \<open>Admission_Invariant\<close>, \<open>Admission_Steps\<close>, \<open>Admission_Runs\<close>, \<open>Admission_Properties\<close>: slots and
    budgets hold in every interleaving (\<open>system_bounded\<close>); an open episode is in somebody's hands as long
    as the callers keep to \<open>caller_ok\<close> (\<open>gate_ok\<close>), which a cancellation at the gate or after a granted
    retry breaks. Both are interpretations of \<open>machine\<close>.
  \<^item> Conversion: \<open>Conversion\<close> (\<open>core/anthropic/conversion.py\<close>, \<open>request_serialization.py\<close>, \<open>content.py\<close>),
    \<open>Conversion_Order\<close> and \<open>Conversion_Properties\<close>: the order of a converted history.
  \<^item> Request path: \<open>Redaction\<close> (\<open>core/security/outbound_redaction.py\<close>), \<open>Redaction_Clean\<close> and
    \<open>Redaction_Properties\<close> (no secret shape survives all later replacements), \<open>Routing\<close>
    (\<open>application/routing.py\<close>, \<open>core/gateway_model_ids.py\<close>, \<open>config/model_refs.py\<close>, reasoning) and
    \<open>Routing_Lemmas\<close>, \<open>Execution\<close> (\<open>application/execution.py\<close>: streams with a
    deadline, candidates in order) and \<open>Execution_Lemmas\<close>;
    \<open>Gateway_Properties\<close>: the properties.
  \<^item> Guard: \<open>Hook_Guard\<close> (\<open>security/hook_guard.py\<close>: its rule tables as terms of \<open>rx\<close>) and
    \<open>Guard_Properties\<close>: what it lets through, stated by what occurs in the scanned text.
  \<^item> Responses API: \<open>Responses_Tools\<close> (\<open>core/openai_responses/tools.py\<close>, \<open>ids.py\<close>), \<open>Responses_Input\<close>
    (\<open>input.py\<close>, \<open>reasoning.py\<close>), \<open>Responses_Output\<close> (\<open>items.py\<close>, \<open>errors.py\<close>, \<open>stream.py\<close> and
    \<open>streaming/\<close>: the assembler as steps from a state to events and a state), \<open>Diagnostics\<close>
    (\<open>core/diagnostics.py\<close>, the redaction of error texts, which no provider key survives). \<open>Responses_Request\<close>: what a converted request
    keeps. \<open>Responses_Contract\<close>: what the client may rely on, as an executable check that reads the events;
    \<open>Responses_Invariant\<close>, \<open>Responses_Runs\<close>: assembler and client move in step, from one block to every
    end of a stream. \<open>Responses_Properties\<close>: the properties.
  \<^bold>\<open>State and atomicity.\<close> A locked section of the code is one step. Where tasks interleave (the manager, the
  admission controller) the steps are the stretches between two suspension points, in any order a scheduler
  may pick; a theorem about reachable states covers every interleaving, or says which ones (\<open>permitted\<close>). Iteration over a Python set is an
  arbitrary order, an argument with the assumption that it returns the elements of the set.

  \<^bold>\<open>Bounds.\<close> Numbers are Python's unbounded integers, so no wrap-around is modelled. The constants of the code
  appear as they are: 64 characters for a tool name, 7 characters held by the think-tag parser, 0.75 s (in
  microseconds) and 64 KiB for the holdback, 4 MiB for buffered recovery, the retry counts of admission;
  admission times are rationals, execution times microseconds. No definition uses fuel: the recursive
  ones end by structure or by a measure on the text or the attempts left. The two loops whose end depends on the
  data, the graph walk \<open>dfs\<close> and the search for a free tool name \<open>alias_from\<close>, are \<open>partial_function (option)\<close>
  with theorems that they return.

  \<^bold>\<open>Parameters.\<close> What the source only calls is an argument of the definitions: \<open>json.loads\<close> and
  \<open>json.dumps\<close>, \<open>str\<close> of a container, \<open>jsonschema\<close>, hashes, the tokenizer, uuids and claim ids,
  \<open>float()\<close> and the mail-date parser on header values, \<open>urlparse\<close> and \<open>ipaddress\<close>, the clock, and the
  upstream itself as a script of chunks, delays and failures. Characters are those below 256; \<open>lower()\<close>,
  \<open>isalpha()\<close>, \<open>\w\<close> and \<open>\s\<close> are the functions Python has on them.

  \<^bold>\<open>Not modelled.\<close> Logging, traces and error texts are left out everywhere. Whole parts are left out because
  they are input and output around what is modelled: the HTTP layer (\<open>api/\<close>), start-up and shutdown
  (\<open>runtime/\<close>, \<open>cli/\<close>), the chat platforms and their rendering (\<open>messaging/platforms\<close>,
  \<open>messaging/rendering\<close>, \<open>messaging/workflow.py\<close>), configuration files and the admin pages (\<open>config/\<close>),
  and the tests. The provider modules beyond \<open>openai_chat\<close> adapt requests and headers to one vendor each and
  run through the same stream and admission code. A client that disconnects, and cancellation of an asyncio
  task in the middle of a provider stream, are not modelled.
\<close>

end
